(* ===== verification/JsBase.thy ===== *)
theory JsBase
  imports Complex_Main "HOL-Library.AList"
begin

text \<open>
  Prelude: the JavaScript values the TypeScript sources compute with.

  A number is NaN, an infinity or an exact rational; minus zero is identified with zero, and
  the rounding of IEEE doubles beyond 53 bits is not modelled (the sources only truncate,
  compare, take maxima, and add or subtract small integers). A string is a list of
  \<open>char\<close>, that is of UTF-16 code units restricted to U+0000..U+00FF. A value read from JSON
  is a \<open>jsval\<close>; the fields of an object are listed in the order JavaScript enumerates them.
  Objects with an own \<open>toString\<close> or \<open>valueOf\<close> field are converted as plain objects.
\<close>

section \<open>Automation collections\<close>

named_theorems js_eval \<open>equations that evaluate the JavaScript primitives on constructors\<close>
named_theorems js_norm \<open>idempotence and shape facts of the normalisers\<close>

section \<open>Numbers\<close>

datatype jsnum = NaN | NegInf | Fin rat | PosInf

abbreviation js_zero :: jsnum where "js_zero \<equiv> Fin 0"

fun js_trunc :: "jsnum \<Rightarrow> jsnum" where
  "js_trunc (Fin q) = Fin (of_int (if q < 0 then \<lceil>q\<rceil> else \<lfloor>q\<rfloor>))"
| "js_trunc n = n"

fun js_less :: "jsnum \<Rightarrow> jsnum \<Rightarrow> bool" where
  "js_less NaN b = False"
| "js_less a NaN = False"
| "js_less (Fin a) (Fin b) = (a < b)"
| "js_less NegInf b = (b \<noteq> NegInf)"
| "js_less a PosInf = (a \<noteq> PosInf)"
| "js_less a b = False"

definition js_leq :: "jsnum \<Rightarrow> jsnum \<Rightarrow> bool" where
  "js_leq a b = (js_less a b \<or> (a = b \<and> a \<noteq> NaN))"

text \<open>\<open>===\<close> on numbers: NaN is not equal to itself.\<close>

definition js_num_eq :: "jsnum \<Rightarrow> jsnum \<Rightarrow> bool" where
  "js_num_eq a b = (a = b \<and> a \<noteq> NaN)"

definition js_max :: "jsnum \<Rightarrow> jsnum \<Rightarrow> jsnum" where
  "js_max a b = (if a = NaN \<or> b = NaN then NaN else if js_less a b then b else a)"

fun js_add :: "jsnum \<Rightarrow> jsnum \<Rightarrow> jsnum" where
  "js_add (Fin a) (Fin b) = Fin (a + b)"
| "js_add NaN b = NaN"
| "js_add a NaN = NaN"
| "js_add PosInf NegInf = NaN"
| "js_add NegInf PosInf = NaN"
| "js_add PosInf b = PosInf"
| "js_add NegInf b = NegInf"
| "js_add a b = b"

fun js_neg :: "jsnum \<Rightarrow> jsnum" where
  "js_neg NaN = NaN"
| "js_neg NegInf = PosInf"
| "js_neg PosInf = NegInf"
| "js_neg (Fin q) = Fin (- q)"

definition js_sub :: "jsnum \<Rightarrow> jsnum \<Rightarrow> jsnum" where
  "js_sub a b = js_add a (js_neg b)"

text \<open>
  What a comparator that returns \<open>a - b\<close> tells \<open>Array.prototype.sort\<close>: its sign, with NaN
  read as 0.
\<close>

definition js_diff_sign :: "jsnum \<Rightarrow> jsnum \<Rightarrow> int" where
  "js_diff_sign a b = (if js_less a b then -1 else if js_less b a then 1 else 0)"

definition js_num_truthy :: "jsnum \<Rightarrow> bool" where
  "js_num_truthy n = (n \<noteq> NaN \<and> n \<noteq> Fin 0)"

text \<open>The idiom \<open>n || 0\<close> on a number, and \<open>Math.max(0, Math.trunc(Number(n || 0)))\<close>.\<close>

definition js_or_zero :: "jsnum \<Rightarrow> jsnum" where
  "js_or_zero n = (if js_num_truthy n then n else Fin 0)"

definition js_count :: "jsnum \<Rightarrow> jsnum" where
  "js_count n = js_max (Fin 0) (js_trunc (js_or_zero n))"

text \<open>\<open>Math.max(0, Math.trunc(n))\<close>.\<close>

definition js_whole :: "jsnum \<Rightarrow> jsnum" where
  "js_whole n = js_max (Fin 0) (js_trunc n)"

lemma js_less_irrefl [simp]: "\<not> js_less a a"
  by (cases a) auto

lemma js_less_trans: "js_less a b \<Longrightarrow> js_less b c \<Longrightarrow> js_less a c"
  by (cases a; cases b; cases c) auto

lemma js_less_asym: "js_less a b \<Longrightarrow> \<not> js_less b a"
  by (cases a; cases b) auto

lemma js_less_total: "a \<noteq> NaN \<Longrightarrow> b \<noteq> NaN \<Longrightarrow> a \<noteq> b \<Longrightarrow> js_less a b \<or> js_less b a"
  by (cases a; cases b) auto

lemma js_less_NaN [simp]: "\<not> js_less NaN a" "\<not> js_less a NaN"
  by (cases a; simp)+

lemma js_max_NaN [simp]: "js_max NaN a = NaN" "js_max a NaN = NaN"
  by (auto simp: js_max_def)

lemma js_max_Fin [simp]: "js_max (Fin a) (Fin b) = Fin (max a b)"
  by (auto simp: js_max_def max_def)

lemma js_trunc_of_int [simp]: "js_trunc (Fin (of_int k)) = Fin (of_int k)"
  by simp

lemma js_trunc_idem [simp]: "js_trunc (js_trunc n) = js_trunc n"
  by (cases n) auto

lemma js_trunc_numeral [simp]:
  "js_trunc (Fin 0) = Fin 0" "js_trunc (Fin 1) = Fin 1"
  "js_trunc (Fin (numeral k)) = Fin (numeral k)"
  by simp_all

text \<open>A count is a natural number or plus infinity, never NaN and never negative.\<close>

definition is_count :: "jsnum \<Rightarrow> bool" where
  "is_count n = (n = PosInf \<or> (\<exists>k::nat. n = Fin (of_nat k)))"

lemma is_count_Fin_nat [simp]: "is_count (Fin (of_nat k))"
  by (auto simp: is_count_def)

lemma is_count_simps [simp]:
  "is_count (Fin 0)" "is_count (Fin 1)" "is_count (Fin (numeral k))" "is_count PosInf"
  "\<not> is_count NaN" "\<not> is_count NegInf"
proof -
  show "is_count (Fin 0)" using is_count_Fin_nat [of 0] by simp
  show "is_count (Fin 1)" using is_count_Fin_nat [of 1] by simp
  show "is_count (Fin (numeral k))" using is_count_Fin_nat [of "numeral k"] by simp
qed (auto simp: is_count_def)

lemma is_count_max_trunc:
  assumes "n \<noteq> NaN" shows "is_count (js_max (Fin 0) (js_trunc n))"
proof (cases n)
  case (Fin q)
  show ?thesis
  proof (cases "q < 0")
    case True
    then have "of_int \<lceil>q\<rceil> \<le> (0::rat)" by (simp add: ceiling_le_iff)
    with True Fin show ?thesis by simp
  next
    case False
    then have "of_int \<lfloor>q\<rfloor> = (of_nat (nat \<lfloor>q\<rfloor>) :: rat)" by simp
    moreover have "js_max (Fin 0) (js_trunc n) = Fin (of_int \<lfloor>q\<rfloor>)"
      using False Fin by simp
    ultimately show ?thesis by (metis is_count_Fin_nat)
  qed
qed (use assms in \<open>auto simp: js_max_def\<close>)

lemma is_count_js_whole: "n \<noteq> NaN \<Longrightarrow> is_count (js_whole n)"
  by (simp add: js_whole_def is_count_max_trunc)

lemma js_or_zero_not_NaN [simp]: "js_or_zero n \<noteq> NaN"
  by (auto simp: js_or_zero_def js_num_truthy_def)

lemma is_count_js_count [simp]: "is_count (js_count n)"
  by (simp add: js_count_def is_count_max_trunc)

lemma is_count_cases:
  assumes "is_count n" obtains (nat) k where "n = Fin (of_nat k)" | (inf) "n = PosInf"
  using assms by (auto simp: is_count_def)

lemma is_count_not_NaN: "is_count n \<Longrightarrow> n \<noteq> NaN"
  by (auto simp: is_count_def)

lemma js_trunc_nat [simp]: "js_trunc (Fin (of_nat k)) = Fin (of_nat k)"
  by simp

lemma js_count_idem [js_norm]: "is_count n \<Longrightarrow> js_count n = n"
proof (erule is_count_cases)
  fix k assume n: "n = Fin (of_nat k)"
  then have "js_or_zero n = n" by (auto simp: js_or_zero_def js_num_truthy_def)
  with n show "js_count n = n" by (simp add: js_count_def del: js_trunc.simps)
qed (simp add: js_count_def js_or_zero_def js_num_truthy_def js_max_def)

lemma js_whole_count: "is_count n \<Longrightarrow> js_whole n = n"
  by (erule is_count_cases) (simp_all add: js_whole_def js_max_def)

lemma js_whole_NaN [simp]: "js_whole NaN = NaN"
  by (simp add: js_whole_def)

lemma js_whole_numeral [simp]:
  "js_whole (Fin 0) = Fin 0" "js_whole (Fin 1) = Fin 1" "js_whole (Fin (numeral k)) = Fin (numeral k)"
  by (simp_all add: js_whole_count)

lemma js_count_js_count [simp]: "js_count (js_count n) = js_count n"
  by (rule js_count_idem) simp

lemma js_count_numeral [simp]:
  "js_count (Fin 0) = Fin 0" "js_count (Fin 1) = Fin 1"
  "js_count (Fin (numeral k)) = Fin (numeral k)"
  "js_count PosInf = PosInf" "js_count NaN = Fin 0"
  by (simp_all add: js_count_idem) (simp add: js_count_def js_or_zero_def js_num_truthy_def)

lemma js_max_count:
  assumes "is_count a" "is_count b" shows "is_count (js_max a b)"
  using assms by (auto simp: js_max_def)

lemma js_max_zero_count: "is_count a \<Longrightarrow> js_max (Fin 0) a = a"
  by (auto simp: js_max_def is_count_def)

lemma js_count_not_NaN [simp]: "js_count n \<noteq> NaN"
  by (rule is_count_not_NaN) simp

lemma js_less_zero_count: "is_count a \<Longrightarrow> \<not> js_less a (Fin 0)"
  by (auto simp: is_count_def)

lemma js_diff_sign_self [simp]: "js_diff_sign a a = 0"
  by (simp add: js_diff_sign_def)

lemma js_diff_sign_anti: "js_diff_sign a b = - js_diff_sign b a"
  by (auto simp: js_diff_sign_def dest: js_less_asym)

section \<open>Values\<close>

datatype jsval =
    JUndef
  | JNull
  | JBool bool
  | JNum jsnum
  | JStr string
  | JArr "jsval list"
  | JObj "(string \<times> jsval) list"

fun js_truthy :: "jsval \<Rightarrow> bool" where
  "js_truthy JUndef = False"
| "js_truthy JNull = False"
| "js_truthy (JBool b) = b"
| "js_truthy (JNum n) = js_num_truthy n"
| "js_truthy (JStr s) = (s \<noteq> [])"
| "js_truthy (JArr vs) = True"
| "js_truthy (JObj fs) = True"

text \<open>\<open>a || b\<close> and \<open>a ?? b\<close>.\<close>

definition js_or :: "jsval \<Rightarrow> jsval \<Rightarrow> jsval" where
  "js_or a b = (if js_truthy a then a else b)"

definition js_coalesce :: "jsval \<Rightarrow> jsval \<Rightarrow> jsval" where
  "js_coalesce a b = (if a = JUndef \<or> a = JNull then b else a)"

text \<open>\<open>typeof v === "object"\<close> (null excluded) with and without arrays.\<close>

definition js_is_object :: "jsval \<Rightarrow> bool" where
  "js_is_object v = (case v of JArr _ \<Rightarrow> True | JObj _ \<Rightarrow> True | _ \<Rightarrow> False)"

definition js_is_record :: "jsval \<Rightarrow> bool" where
  "js_is_record v = (case v of JObj _ \<Rightarrow> True | _ \<Rightarrow> False)"

text \<open>
  Reading a field by a fixed name; no field name the sources read this way is a property of
  \<open>Object.prototype\<close> or \<open>Array.prototype\<close>.
\<close>

definition js_get :: "jsval \<Rightarrow> string \<Rightarrow> jsval" where
  "js_get v k = (case v of JObj fs \<Rightarrow> (case map_of fs k of Some x \<Rightarrow> x | None \<Rightarrow> JUndef) | _ \<Rightarrow> JUndef)"

text \<open>\<open>Array.isArray(v) ? v : []\<close>.\<close>

definition js_array :: "jsval \<Rightarrow> jsval list" where
  "js_array v = (case v of JArr vs \<Rightarrow> vs | _ \<Rightarrow> [])"

lemma js_or_simps [simp, js_eval]:
  "js_or JUndef b = b" "js_or JNull b = b" "js_or (JArr vs) b = JArr vs" "js_or (JObj fs) b = JObj fs"
  "js_or (JStr []) b = b" "js_or (JStr (c # cs)) b = JStr (c # cs)"
  by (simp_all add: js_or_def)

lemma js_or_JStr_Nil [simp]: "js_or (JStr s) (JStr []) = JStr s"
  by (simp add: js_or_def)

lemma js_is_record_JObj [simp]:
  "js_is_record (JObj fs)" "\<not> js_is_record JUndef" "\<not> js_is_record JNull" "\<not> js_is_record (JBool b)"
  "\<not> js_is_record (JNum n)" "\<not> js_is_record (JStr s)" "\<not> js_is_record (JArr vs)"
  by (simp_all add: js_is_record_def)

lemma js_is_recordE: "js_is_record v \<Longrightarrow> (\<And>fs. v = JObj fs \<Longrightarrow> P) \<Longrightarrow> P"
  by (cases v) auto

lemma js_get_JObj [simp]: "js_get (JObj fs) k = (case map_of fs k of Some x \<Rightarrow> x | None \<Rightarrow> JUndef)"
  by (simp add: js_get_def)

lemma js_array_simps [simp]: "js_array (JArr vs) = vs" "js_array JUndef = []" "js_array JNull = []"
  by (simp_all add: js_array_def)

section \<open>Strings\<close>

definition js_space :: "char \<Rightarrow> bool" where
  "js_space c = (c \<in> {CHR 0x09, CHR 0x0A, CHR 0x0B, CHR 0x0C, CHR 0x0D, CHR 0x20, CHR 0xA0})"

definition js_trim :: "string \<Rightarrow> string" where
  "js_trim s = rev (dropWhile js_space (rev (dropWhile js_space s)))"

lemma js_trim_Nil [simp]: "js_trim [] = []"
  by (simp add: js_trim_def)

text \<open>A string no trimming changes.\<close>

definition js_trimmed :: "string \<Rightarrow> bool" where
  "js_trimmed s = (s = [] \<or> (\<not> js_space (hd s) \<and> \<not> js_space (last s)))"

lemma dropWhile_id: "xs = [] \<or> \<not> P (hd xs) \<Longrightarrow> dropWhile P xs = xs"
  by (cases xs) auto

lemma last_dropWhile: "dropWhile P xs \<noteq> [] \<Longrightarrow> last (dropWhile P xs) = last xs"
  by (induction xs) auto

lemma js_trim_trimmed [simp]: "js_trimmed (js_trim s)"
proof -
  let ?a = "dropWhile js_space s"
  let ?b = "dropWhile js_space (rev ?a)"
  show ?thesis
  proof (cases "?b = []")
    case True
    then show ?thesis unfolding js_trimmed_def js_trim_def by (simp only: rev.simps simp_thms)
  next
    case False
    then have "?a \<noteq> []" by (metis dropWhile.simps(1) rev.simps(1))
    have "last ?b = last (rev ?a)" by (rule last_dropWhile) (rule False)
    then have "\<not> js_space (last ?b)"
      using \<open>?a \<noteq> []\<close> hd_dropWhile [of js_space s] by (simp add: last_rev)
    moreover have "\<not> js_space (hd ?b)" by (rule hd_dropWhile) (rule False)
    ultimately show ?thesis using False
      by (simp add: js_trimmed_def js_trim_def hd_rev last_rev)
  qed
qed

lemma js_trim_id: "js_trimmed s \<Longrightarrow> js_trim s = s"
proof -
  assume t: "js_trimmed s"
  then have "dropWhile js_space s = s" by (intro dropWhile_id) (auto simp: js_trimmed_def)
  moreover have "dropWhile js_space (rev s) = rev s"
    using t by (intro dropWhile_id) (auto simp: js_trimmed_def hd_rev)
  ultimately show ?thesis by (simp add: js_trim_def)
qed

lemma js_trim_idem [simp, js_norm]: "js_trim (js_trim s) = js_trim s"
  by (simp add: js_trim_id)

lemma js_trimmed_Nil [simp]: "js_trimmed []"
  by (simp add: js_trimmed_def)

text \<open>Decimal digits of a natural number, and \<open>String(n)\<close> of a number.\<close>

definition digit_char :: "nat \<Rightarrow> char" where
  "digit_char d = char_of (48 + d)"

fun nat_digits :: "nat \<Rightarrow> string" where
  "nat_digits n = (if n < 10 then [digit_char n] else nat_digits (n div 10) @ [digit_char (n mod 10)])"

declare nat_digits.simps [simp del]

fun frac_digits :: "nat \<Rightarrow> rat \<Rightarrow> string" where
  "frac_digits 0 r = []"
| "frac_digits (Suc k) r =
     (if r = 0 then [] else digit_char (nat \<lfloor>10 * r\<rfloor>) # frac_digits k (10 * r - of_int \<lfloor>10 * r\<rfloor>))"

definition rat_digits :: "rat \<Rightarrow> string" where
  "rat_digits q =
     (let i = \<lfloor>q\<rfloor>; f = q - of_int i
      in nat_digits (nat i) @ (if f = 0 then [] else CHR ''.'' # frac_digits 17 f))"

text \<open>Exact for integers below \<open>10 ^ 21\<close> and for decimals of at most 17 fractional digits.\<close>

fun js_num_to_string :: "jsnum \<Rightarrow> string" where
  "js_num_to_string NaN = ''NaN''"
| "js_num_to_string PosInf = ''Infinity''"
| "js_num_to_string NegInf = ''-Infinity''"
| "js_num_to_string (Fin q) = (if q < 0 then CHR ''-'' # rat_digits (- q) else rat_digits q)"

fun js_join :: "string \<Rightarrow> string list \<Rightarrow> string" where
  "js_join sep [] = []"
| "js_join sep [s] = s"
| "js_join sep (s # t # ss) = s @ sep @ js_join sep (t # ss)"

fun js_to_string :: "jsval \<Rightarrow> string" where
  "js_to_string JUndef = ''undefined''"
| "js_to_string JNull = ''null''"
| "js_to_string (JBool b) = (if b then ''true'' else ''false'')"
| "js_to_string (JNum n) = js_num_to_string n"
| "js_to_string (JStr s) = s"
| "js_to_string (JArr vs) =
     js_join '','' (map (\<lambda>v. if v = JUndef \<or> v = JNull then [] else js_to_string v) vs)"
| "js_to_string (JObj fs) = ''[object Object]''"

text \<open>\<open>Number(s)\<close> of a string: the StringToNumber grammar of ECMAScript.\<close>

definition digit_value :: "char \<Rightarrow> nat" where
  "digit_value c =
     (let n = of_char c in if 48 \<le> n \<and> n \<le> 57 then n - 48
      else if 97 \<le> n \<and> n \<le> 122 then n - 87 else if 65 \<le> n \<and> n \<le> 90 then n - 55 else 99)"

definition digits_value :: "nat \<Rightarrow> string \<Rightarrow> nat" where
  "digits_value base ds = foldl (\<lambda>a d. base * a + digit_value d) 0 ds"

definition is_digit_of :: "nat \<Rightarrow> char \<Rightarrow> bool" where
  "is_digit_of base c = (digit_value c < base)"

definition js_radix_number :: "nat \<Rightarrow> string \<Rightarrow> jsnum" where
  "js_radix_number base ds =
     (if ds \<noteq> [] \<and> list_all (is_digit_of base) ds then Fin (of_nat (digits_value base ds)) else NaN)"

definition js_exponent :: "string \<Rightarrow> int option" where
  "js_exponent r =
     (if r = [] then Some 0
      else if hd r = CHR ''e'' \<or> hd r = CHR ''E'' then
        (let t = tl r;
             neg = (t \<noteq> [] \<and> hd t = CHR ''-'');
             ds = (if t \<noteq> [] \<and> (hd t = CHR ''-'' \<or> hd t = CHR ''+'') then tl t else t)
         in if ds \<noteq> [] \<and> list_all (is_digit_of 10) ds
            then Some ((if neg then -1 else 1) * int (digits_value 10 ds)) else None)
      else None)"

definition js_decimal_number :: "string \<Rightarrow> jsnum" where
  "js_decimal_number s =
     (let ip = takeWhile (is_digit_of 10) s; r1 = dropWhile (is_digit_of 10) s;
          dot = (r1 \<noteq> [] \<and> hd r1 = CHR ''.'');
          fp = (if dot then takeWhile (is_digit_of 10) (tl r1) else []);
          r2 = (if dot then dropWhile (is_digit_of 10) (tl r1) else r1)
      in if ip = [] \<and> fp = [] then NaN
         else case js_exponent r2 of None \<Rightarrow> NaN
         | Some e \<Rightarrow>
           Fin (of_nat (digits_value 10 (ip @ fp)) * (10::rat) powi (e - int (length fp))))"

definition js_string_to_number :: "string \<Rightarrow> jsnum" where
  "js_string_to_number s0 =
     (let s = js_trim s0 in
      if s = [] then Fin 0
      else if take 2 s \<in> {''0x'', ''0X''} then js_radix_number 16 (drop 2 s)
      else if take 2 s \<in> {''0o'', ''0O''} then js_radix_number 8 (drop 2 s)
      else if take 2 s \<in> {''0b'', ''0B''} then js_radix_number 2 (drop 2 s)
      else let neg = (hd s = CHR ''-'');
               t = (if hd s = CHR ''-'' \<or> hd s = CHR ''+'' then tl s else s);
               n = (if t = ''Infinity'' then PosInf else js_decimal_number t)
           in if neg then js_neg n else n)"

fun js_to_number :: "jsval \<Rightarrow> jsnum" where
  "js_to_number JUndef = NaN"
| "js_to_number JNull = Fin 0"
| "js_to_number (JBool b) = Fin (if b then 1 else 0)"
| "js_to_number (JNum n) = n"
| "js_to_number (JStr s) = js_string_to_number s"
| "js_to_number (JArr vs) = js_string_to_number (js_to_string (JArr vs))"
| "js_to_number (JObj fs) = NaN"

text \<open>
  The idioms on untyped values: \<open>String(v || '').trim()\<close>, \<open>Number(v || 0)\<close> and
  \<open>Math.max(0, Math.trunc(Number(v || 0)))\<close> (NaN when the text is not a number).
\<close>

definition js_text :: "jsval \<Rightarrow> string" where
  "js_text v = js_trim (js_to_string (js_or v (JStr [])))"

definition js_number_or_zero :: "jsval \<Rightarrow> jsnum" where
  "js_number_or_zero v = js_to_number (js_or v (JNum (Fin 0)))"

definition js_count_of :: "jsval \<Rightarrow> jsnum" where
  "js_count_of v = js_max (Fin 0) (js_trunc (js_number_or_zero v))"

lemma js_text_simps [simp]:
  "js_text (JStr s) = js_trim s" "js_text JUndef = []" "js_text JNull = []"
  by (simp_all add: js_text_def)

lemma js_text_trimmed [simp]: "js_trimmed (js_text v)"
  by (simp add: js_text_def)

lemma js_trim_js_text [simp]: "js_trim (js_text v) = js_text v"
  by (simp add: js_trim_id)

lemma js_number_or_zero_JNum [simp]: "js_number_or_zero (JNum n) = js_or_zero n"
  by (simp add: js_number_or_zero_def js_or_def js_or_zero_def)

lemma js_number_or_zero_simps [simp]:
  "js_number_or_zero JUndef = Fin 0" "js_number_or_zero JNull = Fin 0"
  by (simp_all add: js_number_or_zero_def)

lemma js_count_of_JNum [simp]: "js_count_of (JNum n) = js_count n"
  by (simp add: js_count_of_def js_count_def)

lemma js_count_of_simps [simp]: "js_count_of JUndef = Fin 0" "js_count_of JNull = Fin 0"
  by (simp_all add: js_count_of_def)

lemma js_count_of_cases: "js_count_of v = NaN \<or> is_count (js_count_of v)"
  by (cases "js_number_or_zero v = NaN") (auto simp: js_count_of_def is_count_max_trunc)

text \<open>Lower-casing (Latin-1 letters).\<close>

definition js_lower_char :: "char \<Rightarrow> char" where
  "js_lower_char c =
     (let n = (of_char c :: nat) in
      if (65 \<le> n \<and> n \<le> 90) \<or> (192 \<le> n \<and> n \<le> 222 \<and> n \<noteq> 215) then char_of (n + 32) else c)"

definition js_lower :: "string \<Rightarrow> string" where
  "js_lower s = map js_lower_char s"

definition js_starts_with :: "string \<Rightarrow> string \<Rightarrow> bool" where
  "js_starts_with s p = (take (length p) s = p)"

text \<open>\<open>xs.slice(-n)\<close> and \<open>xs.slice(0, n)\<close> for a positive length.\<close>

definition js_last_n :: "nat \<Rightarrow> 'a list \<Rightarrow> 'a list" where
  "js_last_n n xs = drop (length xs - n) xs"

lemma length_js_last_n [simp]: "length (js_last_n n xs) = min n (length xs)"
  by (auto simp: js_last_n_def)

lemma set_js_last_n: "set (js_last_n n xs) \<subseteq> set xs"
  by (simp add: js_last_n_def set_drop_subset)

end
