(* ===== verification/JsCollections.thy ===== *)
theory JsCollections
  imports JsBase "HOL-Library.Multiset"
begin

text \<open>
  The JavaScript containers the sources use. A \<open>Set\<close> is a list of distinct elements in
  insertion order; a \<open>Map\<close> is an association list in insertion order, and \<open>Map.set\<close> is
  \<open>AList.update\<close> (it overwrites in place or appends). \<open>Array.prototype.sort\<close> is a stable
  insertion sort: for a consistent comparator every conforming sort gives the same list, which
  the locales of comparators below make precise.
\<close>

section \<open>Sets and maps in insertion order\<close>

definition js_set_add :: "'a \<Rightarrow> 'a list \<Rightarrow> 'a list" where
  "js_set_add x xs = (if x \<in> set xs then xs else xs @ [x])"

definition js_set_add_all :: "'a list \<Rightarrow> 'a list \<Rightarrow> 'a list" where
  "js_set_add_all ys xs = fold js_set_add ys xs"

text \<open>\<open>Map.set\<close>.\<close>

lemma update_fresh: "k \<notin> fst ` set m \<Longrightarrow> AList.update k v m = m @ [(k, v)]"
  by (induction m) auto

lemma set_update_subset: "set (AList.update k v m) \<subseteq> insert (k, v) (set m)"
  by (induction m) auto

text \<open>\<open>Array.from(new Set(xs))\<close>.\<close>

definition js_uniq :: "'a list \<Rightarrow> 'a list" where
  "js_uniq xs = js_set_add_all xs []"

lemma set_js_set_add [simp]: "set (js_set_add x xs) = insert x (set xs)"
  by (auto simp: js_set_add_def)

lemma distinct_js_set_add [simp]: "distinct xs \<Longrightarrow> distinct (js_set_add x xs)"
  by (auto simp: js_set_add_def)

lemma js_set_add_all_simps [simp]:
  "js_set_add_all [] xs = xs"
  "js_set_add_all (y # ys) xs = js_set_add_all ys (js_set_add y xs)"
  by (simp_all add: js_set_add_all_def)

lemma set_js_set_add_all [simp]: "set (js_set_add_all ys xs) = set ys \<union> set xs"
  by (induction ys arbitrary: xs) auto

lemma distinct_js_set_add_all [simp]: "distinct xs \<Longrightarrow> distinct (js_set_add_all ys xs)"
  by (induction ys arbitrary: xs) auto

lemma js_set_add_all_distinct:
  "distinct ys \<Longrightarrow> set ys \<inter> set xs = {} \<Longrightarrow> js_set_add_all ys xs = xs @ ys"
  by (induction ys arbitrary: xs) (auto simp: js_set_add_def)

lemma set_js_uniq [simp]: "set (js_uniq xs) = set xs"
  by (simp add: js_uniq_def)

lemma distinct_js_uniq [simp]: "distinct (js_uniq xs)"
  by (simp add: js_uniq_def)

lemma js_uniq_id: "distinct xs \<Longrightarrow> js_uniq xs = xs"
  using js_set_add_all_distinct [of xs "[]"] by (simp add: js_uniq_def)

lemma js_uniq_idem [simp, js_norm]: "js_uniq (js_uniq xs) = js_uniq xs"
  by (simp add: js_uniq_id)

lemma js_uniq_Nil [simp]: "js_uniq [] = []"
  by (simp add: js_uniq_def)

text \<open>\<open>values.map(f).filter(Boolean)\<close> on strings, without duplicates.\<close>

definition js_uniq_texts :: "string list \<Rightarrow> string list" where
  "js_uniq_texts ss = js_uniq (filter (\<lambda>s. s \<noteq> []) (map js_trim ss))"

lemma set_js_uniq_texts: "set (js_uniq_texts ss) = {s. s \<noteq> [] \<and> s \<in> js_trim ` set ss}"
  by (auto simp: js_uniq_texts_def)

lemma distinct_js_uniq_texts [simp]: "distinct (js_uniq_texts ss)"
  by (simp add: js_uniq_texts_def)

definition texts_normal :: "string list \<Rightarrow> bool" where
  "texts_normal ss = (distinct ss \<and> (\<forall>s \<in> set ss. s \<noteq> [] \<and> js_trimmed s))"

lemma texts_normal_js_uniq_texts [simp]: "texts_normal (js_uniq_texts ss)"
  by (auto simp: texts_normal_def set_js_uniq_texts)

lemma js_uniq_texts_normal: "texts_normal ss \<Longrightarrow> js_uniq_texts ss = ss"
proof -
  assume n: "texts_normal ss"
  then have "map js_trim ss = ss" by (simp add: texts_normal_def js_trim_id map_idI)
  moreover have "filter (\<lambda>s. s \<noteq> []) ss = ss" using n by (simp add: texts_normal_def)
  ultimately show ?thesis using n by (simp add: js_uniq_texts_def texts_normal_def js_uniq_id)
qed

lemma js_uniq_texts_idem [simp, js_norm]: "js_uniq_texts (js_uniq_texts ss) = js_uniq_texts ss"
  by (simp add: js_uniq_texts_normal)

lemma js_uniq_texts_Nil [simp]: "js_uniq_texts [] = []"
  by (simp add: js_uniq_texts_def)

text \<open>The same idiom on untyped values: \<open>String(value || '').trim()\<close> of each element.\<close>

definition js_uniq_vals :: "jsval list \<Rightarrow> string list" where
  "js_uniq_vals vs = js_uniq (filter (\<lambda>s. s \<noteq> []) (map js_text vs))"

lemma texts_normal_js_uniq_vals [simp]: "texts_normal (js_uniq_vals vs)"
  by (auto simp: texts_normal_def js_uniq_vals_def)

lemma js_uniq_vals_JStr [simp]: "js_uniq_vals (map JStr ss) = js_uniq_texts ss"
  by (simp add: js_uniq_vals_def js_uniq_texts_def comp_def)

lemma texts_normal_distinct: "texts_normal ss \<Longrightarrow> distinct ss"
  by (simp add: texts_normal_def)

section \<open>Sorting\<close>

fun js_insert :: "('a \<Rightarrow> 'a \<Rightarrow> int) \<Rightarrow> 'a \<Rightarrow> 'a list \<Rightarrow> 'a list" where
  "js_insert cmp x [] = [x]"
| "js_insert cmp x (y # ys) = (if cmp x y \<le> 0 then x # y # ys else y # js_insert cmp x ys)"

definition js_sort :: "('a \<Rightarrow> 'a \<Rightarrow> int) \<Rightarrow> 'a list \<Rightarrow> 'a list" where
  "js_sort cmp xs = foldr (js_insert cmp) xs []"

abbreviation cmp_sorted :: "('a \<Rightarrow> 'a \<Rightarrow> int) \<Rightarrow> 'a list \<Rightarrow> bool" where
  "cmp_sorted cmp \<equiv> sorted_wrt (\<lambda>x y. cmp x y \<le> 0)"

lemma mset_js_insert [simp]: "mset (js_insert cmp x xs) = add_mset x (mset xs)"
  by (induction xs) auto

lemma js_sort_simps [simp]:
  "js_sort cmp [] = []" "js_sort cmp (x # xs) = js_insert cmp x (js_sort cmp xs)"
  by (simp_all add: js_sort_def)

lemma mset_js_sort [simp]: "mset (js_sort cmp xs) = mset xs"
  by (induction xs) auto

lemma set_js_sort [simp]: "set (js_sort cmp xs) = set xs"
  by (metis mset_js_sort set_mset_mset)

lemma length_js_sort [simp]: "length (js_sort cmp xs) = length xs"
  by (metis mset_js_sort size_mset)

lemma distinct_js_sort [simp]: "distinct (js_sort cmp xs) = distinct xs"
  by (metis mset_js_sort mset_eq_imp_distinct_iff)

lemma distinct_map_js_sort [simp]: "distinct (map f (js_sort cmp xs)) = distinct (map f xs)"
  by (metis mset_js_sort mset_map mset_eq_imp_distinct_iff)

lemma set_js_insert [simp]: "set (js_insert cmp x xs) = insert x (set xs)"
  by (metis mset_js_insert set_mset_add_mset_insert set_mset_mset)

section \<open>Comparators\<close>

text \<open>
  A comparator is consistent on a carrier when it is antisymmetric up to sign and transitive
  there; it is total when it separates the carrier's elements.
\<close>

locale comparator_on =
  fixes carrier :: "'a set" and cmp :: "'a \<Rightarrow> 'a \<Rightarrow> int"
  assumes cmp_anti: "x \<in> carrier \<Longrightarrow> y \<in> carrier \<Longrightarrow> sgn (cmp y x) = - sgn (cmp x y)"
    and cmp_trans: "x \<in> carrier \<Longrightarrow> y \<in> carrier \<Longrightarrow> z \<in> carrier \<Longrightarrow>
      cmp x y \<le> 0 \<Longrightarrow> cmp y z \<le> 0 \<Longrightarrow> cmp x z \<le> 0"
begin

lemma cmp_self: "x \<in> carrier \<Longrightarrow> cmp x x = 0"
  using cmp_anti [of x x] by (simp add: sgn_if split: if_splits)

lemma cmp_flip: "x \<in> carrier \<Longrightarrow> y \<in> carrier \<Longrightarrow> \<not> cmp x y \<le> 0 \<Longrightarrow> cmp y x \<le> 0"
  using cmp_anti [of x y] by (auto simp: sgn_if split: if_splits)

lemma cmp_zero_flip: "x \<in> carrier \<Longrightarrow> y \<in> carrier \<Longrightarrow> cmp x y \<le> 0 \<Longrightarrow> cmp y x \<le> 0 \<Longrightarrow> cmp x y = 0"
  using cmp_anti [of x y] by (auto simp: sgn_if split: if_splits)

lemma sorted_js_insert:
  assumes "x \<in> carrier" "set xs \<subseteq> carrier" "cmp_sorted cmp xs"
  shows "cmp_sorted cmp (js_insert cmp x xs)"
  using assms
proof (induction xs)
  case (Cons y ys)
  then have y: "y \<in> carrier" and ys: "\<forall>z \<in> set ys. z \<in> carrier \<and> cmp y z \<le> 0" by auto
  show ?case
  proof (cases "cmp x y \<le> 0")
    case True
    then have "\<forall>z \<in> set ys. cmp x z \<le> 0"
      using cmp_trans [OF Cons.prems(1) y] ys by blast
    with True Cons.prems show ?thesis by simp
  next
    case False
    then have "cmp y x \<le> 0" using cmp_flip [OF Cons.prems(1) y] by blast
    with False Cons show ?thesis by simp
  qed
qed simp

lemma sorted_js_sort: "set xs \<subseteq> carrier \<Longrightarrow> cmp_sorted cmp (js_sort cmp xs)"
  by (induction xs) (simp_all add: sorted_js_insert)

lemma js_insert_sorted: "cmp_sorted cmp (x # xs) \<Longrightarrow> js_insert cmp x xs = x # xs"
  by (cases xs) auto

lemma js_sort_sorted: "cmp_sorted cmp xs \<Longrightarrow> js_sort cmp xs = xs"
proof (induction xs)
  case (Cons x xs)
  then have "js_sort cmp xs = xs" by simp
  with Cons.prems show ?case using js_insert_sorted [of x xs] by simp
qed simp

lemma stable_js_insert:
  assumes "x \<in> carrier" "set xs \<subseteq> carrier" "v \<in> carrier"
  shows "filter (\<lambda>y. cmp v y = 0) (js_insert cmp x xs) = filter (\<lambda>y. cmp v y = 0) (x # xs)"
  using assms
proof (induction xs)
  case (Cons y ys)
  show ?case
  proof (cases "cmp x y \<le> 0")
    case False
    have "\<not> (cmp v x = 0 \<and> cmp v y = 0)"
    proof
      assume "cmp v x = 0 \<and> cmp v y = 0"
      then have "cmp x v \<le> 0" "cmp v y \<le> 0"
        using cmp_anti [of v x] Cons.prems by (auto simp: sgn_if split: if_splits)
      then have "cmp x y \<le> 0" using cmp_trans [of x v y] Cons.prems by simp
      with False show False by simp
    qed
    with False Cons show ?thesis by auto
  qed simp
qed simp

lemma stable_js_sort:
  "set xs \<subseteq> carrier \<Longrightarrow> v \<in> carrier \<Longrightarrow>
    filter (\<lambda>y. cmp v y = 0) (js_sort cmp xs) = filter (\<lambda>y. cmp v y = 0) xs"
  by (induction xs) (auto simp: stable_js_insert)

lemma js_sort_hd_least:
  "set xs \<subseteq> carrier \<Longrightarrow> js_sort cmp xs = y # ys \<Longrightarrow> z \<in> set xs \<Longrightarrow> cmp y z \<le> 0"
proof -
  assume xs: "set xs \<subseteq> carrier" and eq: "js_sort cmp xs = y # ys" and z: "z \<in> set xs"
  have "cmp_sorted cmp (y # ys)" using sorted_js_sort [OF xs] eq by simp
  moreover have "z \<in> set (y # ys)" using z eq set_js_sort [of cmp xs] by simp
  moreover have "y \<in> carrier"
    using xs eq set_js_sort [of cmp xs] by (metis list.set_intros(1) subset_code(1))
  ultimately show "cmp y z \<le> 0" using cmp_self by auto
qed

end

locale total_comparator_on = comparator_on +
  assumes cmp_total: "x \<in> carrier \<Longrightarrow> y \<in> carrier \<Longrightarrow> cmp x y = 0 \<Longrightarrow> x = y"
begin

lemma sorted_unique:
  "mset xs = mset ys \<Longrightarrow> set xs \<subseteq> carrier \<Longrightarrow> cmp_sorted cmp xs \<Longrightarrow> cmp_sorted cmp ys \<Longrightarrow> xs = ys"
proof (induction xs arbitrary: ys)
  case (Cons x xs)
  then obtain y ys' where ys: "ys = y # ys'" by (cases ys) auto
  have "set (x # xs) = set ys" using Cons.prems(1) by (rule mset_eq_setD)
  then have x: "x \<in> carrier" and y: "y \<in> carrier" using Cons.prems(2) ys by auto
  have "x = y"
  proof (rule ccontr)
    assume ne: "x \<noteq> y"
    then have "x \<in> set ys'" "y \<in> set xs"
      using \<open>set (x # xs) = set ys\<close> ys by auto
    then have "cmp y x \<le> 0" "cmp x y \<le> 0" using Cons.prems ys by auto
    then have "cmp x y = 0" using cmp_zero_flip x y by blast
    with x y ne show False using cmp_total by blast
  qed
  moreover have "xs = ys'"
    by (rule Cons.IH) (use Cons.prems ys \<open>x = y\<close> in auto)
  ultimately show ?case using ys by simp
qed simp

lemma js_sort_cong:
  assumes "mset xs = mset ys" "set xs \<subseteq> carrier" shows "js_sort cmp xs = js_sort cmp ys"
proof (rule sorted_unique)
  show "mset (js_sort cmp xs) = mset (js_sort cmp ys)" using assms by simp
  show "set (js_sort cmp xs) \<subseteq> carrier" using assms by simp
  have "set ys \<subseteq> carrier" using assms by (metis mset_eq_setD)
  then show "cmp_sorted cmp (js_sort cmp ys)" by (rule sorted_js_sort)
  show "cmp_sorted cmp (js_sort cmp xs)" using assms by (intro sorted_js_sort)
qed

end

lemma comparator_on_subset: "comparator_on A cmp \<Longrightarrow> B \<subseteq> A \<Longrightarrow> comparator_on B cmp"
  by (auto simp: comparator_on_def; blast)

lemma total_comparator_on_subset:
  "total_comparator_on A cmp \<Longrightarrow> B \<subseteq> A \<Longrightarrow> total_comparator_on B cmp"
  unfolding total_comparator_on_def total_comparator_on_axioms_def
  using comparator_on_subset by blast

text \<open>
  The shape every comparator of the sources has: compare a key when it differs, otherwise fall
  through to the next rule.
\<close>

definition cmp_by :: "('a \<Rightarrow> 'k) \<Rightarrow> ('k \<Rightarrow> 'k \<Rightarrow> int) \<Rightarrow> ('a \<Rightarrow> 'a \<Rightarrow> int) \<Rightarrow> 'a \<Rightarrow> 'a \<Rightarrow> int" where
  "cmp_by key c rest x y = (if key x \<noteq> key y then c (key x) (key y) else rest x y)"

lemma comparator_on_cmp_by:
  assumes c: "total_comparator_on (key ` A) c" and r: "comparator_on A rest"
  shows "comparator_on A (cmp_by key c rest)"
proof
  fix x y assume xy: "x \<in> A" "y \<in> A"
  show "sgn (cmp_by key c rest y x) = - sgn (cmp_by key c rest x y)"
    using xy comparator_on.cmp_anti [OF total_comparator_on.axioms(1) [OF c], of "key x" "key y"]
      comparator_on.cmp_anti [OF r, of x y]
    by (auto simp: cmp_by_def)
next
  fix x y z
  assume xyz: "x \<in> A" "y \<in> A" "z \<in> A"
    and le: "cmp_by key c rest x y \<le> 0" "cmp_by key c rest y z \<le> 0"
  note tr = comparator_on.cmp_trans [OF total_comparator_on.axioms(1) [OF c],
      of "key x" "key y" "key z"]
  note zf = comparator_on.cmp_zero_flip [OF total_comparator_on.axioms(1) [OF c],
      of "key x" "key y"]
  note tot = total_comparator_on.cmp_total [OF c, of "key x" "key y"]
  note rt = comparator_on.cmp_trans [OF r, of x y z]
  show "cmp_by key c rest x z \<le> 0"
    using le xyz tr zf tot rt by (auto simp: cmp_by_def split: if_splits)
qed

lemma total_comparator_on_cmp_by:
  assumes c: "total_comparator_on (key ` A) c" and r: "total_comparator_on A rest"
  shows "total_comparator_on A (cmp_by key c rest)"
proof (rule total_comparator_on.intro)
  show "comparator_on A (cmp_by key c rest)"
    by (rule comparator_on_cmp_by [OF c total_comparator_on.axioms(1) [OF r]])
  show "total_comparator_on_axioms A (cmp_by key c rest)"
  proof
    fix x y assume xy: "x \<in> A" "y \<in> A" and z: "cmp_by key c rest x y = 0"
    have "key x = key y"
    proof (rule ccontr)
      assume "key x \<noteq> key y"
      with z have "c (key x) (key y) = 0" by (simp add: cmp_by_def)
      then have "key x = key y" using total_comparator_on.cmp_total [OF c] xy by blast
      with \<open>key x \<noteq> key y\<close> show False ..
    qed
    with z have "rest x y = 0" by (simp add: cmp_by_def)
    then show "x = y" using total_comparator_on.cmp_total [OF r] xy by blast
  qed
qed

text \<open>Comparing an injective image.\<close>

lemma comparator_on_key: "comparator_on (key ` A) c \<Longrightarrow> comparator_on A (\<lambda>x y. c (key x) (key y))"
  unfolding comparator_on_def by blast

lemma total_comparator_on_key:
  assumes c: "total_comparator_on (key ` A) c" and i: "inj_on key A"
  shows "total_comparator_on A (\<lambda>x y. c (key x) (key y))"
proof (rule total_comparator_on.intro)
  show "comparator_on A (\<lambda>x y. c (key x) (key y))"
    by (rule comparator_on_key [OF total_comparator_on.axioms(1) [OF c]])
  show "total_comparator_on_axioms A (\<lambda>x y. c (key x) (key y))"
    using total_comparator_on.cmp_total [OF c] i
    by unfold_locales (auto dest: inj_onD)
qed

section \<open>The comparators of the language\<close>

text \<open>The order of UTF-16 code units, which \<open>sort()\<close> without a comparator uses.\<close>

fun js_string_cmp :: "string \<Rightarrow> string \<Rightarrow> int" where
  "js_string_cmp [] [] = 0"
| "js_string_cmp [] (d # ds) = -1"
| "js_string_cmp (c # cs) [] = 1"
| "js_string_cmp (c # cs) (d # ds) =
     (if (of_char c :: nat) < of_char d then -1
      else if (of_char d :: nat) < of_char c then 1 else js_string_cmp cs ds)"

lemma js_string_cmp_anti: "js_string_cmp t s = - js_string_cmp s t"
  by (induction s t rule: js_string_cmp.induct) auto

lemma js_string_cmp_zero: "js_string_cmp s t = 0 \<Longrightarrow> s = t"
proof (induction s t rule: js_string_cmp.induct)
  case (4 c cs d ds)
  then have "(of_char c :: nat) = of_char d" "js_string_cmp cs ds = 0"
    by (auto split: if_splits)
  with 4 show ?case by (simp add: of_char_eq_iff)
qed auto

lemma js_string_cmp_Nil [simp]: "js_string_cmp [] u \<le> 0"
  by (cases u) auto

lemma js_string_cmp_trans:
  "js_string_cmp s t \<le> 0 \<Longrightarrow> js_string_cmp t u \<le> 0 \<Longrightarrow> js_string_cmp s u \<le> 0"
proof (induction s t arbitrary: u rule: js_string_cmp.induct)
  case (4 c cs d ds)
  show ?case
  proof (cases u)
    case Nil
    with "4.prems" show ?thesis by simp
  next
    case (Cons e es)
    let ?c = "of_char c :: nat" and ?d = "of_char d :: nat" and ?e = "of_char e :: nat"
    have "?c < ?d \<or> (?c = ?d \<and> js_string_cmp cs ds \<le> 0)"
      using "4.prems"(1) by (auto split: if_splits)
    moreover have "?d < ?e \<or> (?d = ?e \<and> js_string_cmp ds es \<le> 0)"
      using "4.prems"(2) Cons by (auto split: if_splits)
    ultimately have "?c < ?e \<or> (?c = ?e \<and> js_string_cmp cs es \<le> 0)"
      using "4.IH" [of es] by auto
    then show ?thesis using Cons by auto
  qed
qed auto

interpretation code_units: total_comparator_on UNIV js_string_cmp
proof unfold_locales
  fix s t show "sgn (js_string_cmp t s) = - sgn (js_string_cmp s t)"
    by (subst js_string_cmp_anti) (simp add: sgn_if)
qed (rule js_string_cmp_trans, assumption+, rule js_string_cmp_zero)

interpretation numbers: total_comparator_on "{n. n \<noteq> NaN}" js_diff_sign
proof unfold_locales
  fix x y show "sgn (js_diff_sign y x) = - sgn (js_diff_sign x y)"
    by (auto simp: js_diff_sign_def dest: js_less_asym)
next
  fix x y z
  assume "x \<in> {n. n \<noteq> NaN}" "y \<in> {n. n \<noteq> NaN}" "z \<in> {n. n \<noteq> NaN}"
    "js_diff_sign x y \<le> 0" "js_diff_sign y z \<le> 0"
  then show "js_diff_sign x z \<le> 0"
    by (cases x; cases y; cases z) (auto simp: js_diff_sign_def split: if_splits)
next
  fix x y
  assume "x \<in> {n. n \<noteq> NaN}" "y \<in> {n. n \<noteq> NaN}" "js_diff_sign x y = 0"
  then show "x = y" by (auto simp: js_diff_sign_def split: if_splits) (metis js_less_total)
qed

text \<open>\<open>Array.from(set).sort()\<close> on strings is determined by the set.\<close>

lemma js_sort_strings_eq:
  assumes "set xs = set ys" "distinct xs" "distinct ys"
  shows "js_sort js_string_cmp xs = js_sort js_string_cmp ys"
  by (rule code_units.js_sort_cong) (use assms set_eq_iff_mset_eq_distinct in auto)

text \<open>\<open>xs.slice(0, n)\<close> for a number that is at least 1 or NaN.\<close>

definition js_slice_to :: "jsnum \<Rightarrow> 'a list \<Rightarrow> 'a list" where
  "js_slice_to n xs =
     (case n of NaN \<Rightarrow> [] | NegInf \<Rightarrow> [] | PosInf \<Rightarrow> xs | Fin q \<Rightarrow> take (nat \<lfloor>q\<rfloor>) xs)"

lemma js_slice_to_prefix: "\<exists>k. js_slice_to n xs = take k xs"
proof (cases n)
  case PosInf
  then have "js_slice_to n xs = take (length xs) xs" by (simp add: js_slice_to_def)
  then show ?thesis ..
next
  case (Fin q)
  then show ?thesis by (auto simp: js_slice_to_def)
qed (auto simp: js_slice_to_def intro: exI [of _ 0])

section \<open>Contiguous numbers\<close>

text \<open>Counting up while the sorted numbers are the expected ones.\<close>

fun contiguous_from :: "jsnum list \<Rightarrow> nat \<Rightarrow> nat" where
  "contiguous_from [] expected = expected"
| "contiguous_from (seq # seqs) expected =
     (if seq \<noteq> Fin (of_nat expected) then expected else contiguous_from seqs (expected + 1))"

lemma contiguous_from_spec:
  "cmp_sorted js_diff_sign seqs \<Longrightarrow> distinct seqs \<Longrightarrow> \<forall>s \<in> set seqs. is_count s \<and> \<not> js_less s (Fin (of_nat e)) \<Longrightarrow>
    e \<le> contiguous_from seqs e \<and> (\<forall>i. e \<le> i \<and> i < contiguous_from seqs e \<longrightarrow> Fin (of_nat i) \<in> set seqs) \<and>
    Fin (of_nat (contiguous_from seqs e)) \<notin> set seqs"
proof (induction seqs arbitrary: e)
  case (Cons s seqs)
  have gt: "js_less s t" if "t \<in> set seqs" for t
    using that Cons.prems js_less_total [of s t] is_count_not_NaN
    by (fastforce simp: js_diff_sign_def split: if_splits)
  show ?case
  proof (cases "s = Fin (of_nat e)")
    case True
    have "\<forall>t \<in> set seqs. is_count t \<and> \<not> js_less t (Fin (of_nat (Suc e)))"
    proof
      fix t assume t: "t \<in> set seqs"
      then have c: "is_count t" using Cons.prems by simp
      moreover have "js_less (Fin (of_nat e)) t" using gt [OF t] True by simp
      ultimately show "is_count t \<and> \<not> js_less t (Fin (of_nat (Suc e)))"
        by (cases rule: is_count_cases [OF c]) (auto simp del: of_nat_Suc)
    qed
    from Cons.IH [OF _ _ this] Cons.prems True show ?thesis
      by (auto simp del: of_nat_Suc) (metis Suc_leI le_neq_implies_less)
  next
    case False
    have "js_less (Fin (of_nat e)) s"
      using Cons.prems(3) False js_less_total [of s "Fin (of_nat e)"] is_count_not_NaN by auto
    then have "Fin (of_nat e) \<notin> set seqs" using gt js_less_asym by blast
    with False show ?thesis by auto
  qed
qed simp

text \<open>
  A conforming \<open>Array.prototype.sort\<close>: it permutes, and for a consistent comparator it gives
  the stably sorted list. What it does with an inconsistent comparator is up to the engine.
\<close>

definition conforming_sort :: "(('a \<Rightarrow> 'a \<Rightarrow> int) \<Rightarrow> 'a list \<Rightarrow> 'a list) \<Rightarrow> bool" where
  "conforming_sort srt =
     (\<forall>cmp xs. mset (srt cmp xs) = mset xs \<and>
       (comparator_on (set xs) cmp \<longrightarrow> srt cmp xs = js_sort cmp xs))"

lemma conforming_js_sort: "conforming_sort js_sort"
  by (simp add: conforming_sort_def)

end
