(* ===== verification/JsDate.thy ===== *)
theory JsDate
  imports JsBase
begin

text \<open>
  \<open>new Date(ms).toISOString()\<close>, with the day and year arithmetic of the ECMAScript
  specification (DayFromYear, YearFromTime, MonthFromTime, DateFromTime). A time value that is
  not finite or that lies more than 8.64e15 ms from the epoch is invalid, and
  \<open>toISOString\<close> throws on it.
\<close>

definition ms_per_day :: int where "ms_per_day = 86400000"

definition day_from_year :: "int \<Rightarrow> int" where
  "day_from_year y = 365 * (y - 1970) + (y - 1969) div 4 - (y - 1901) div 100 + (y - 1601) div 400"

definition year_from_day :: "int \<Rightarrow> int" where
  "year_from_day d =
     (let y = 1970 + (400 * d) div 146097
      in if d < day_from_year y then y - 1 else if day_from_year (y + 1) \<le> d then y + 1 else y)"

definition leap_year :: "int \<Rightarrow> bool" where
  "leap_year y = (y mod 4 = 0 \<and> (y mod 100 \<noteq> 0 \<or> y mod 400 = 0))"

text \<open>The first day of each month within a year.\<close>

definition month_starts :: "bool \<Rightarrow> int list" where
  "month_starts leap =
     (if leap then [0, 31, 60, 91, 121, 152, 182, 213, 244, 274, 305, 335]
      else [0, 31, 59, 90, 120, 151, 181, 212, 243, 273, 304, 334])"

definition month_day :: "bool \<Rightarrow> int \<Rightarrow> nat \<times> int" where
  "month_day leap d =
     (let starts = takeWhile (\<lambda>s. s \<le> d) (month_starts leap)
      in (length starts, d - last starts + 1))"

definition pad_start :: "nat \<Rightarrow> char \<Rightarrow> string \<Rightarrow> string" where
  "pad_start n c s = replicate (n - length s) c @ s"

definition pad_num :: "nat \<Rightarrow> int \<Rightarrow> string" where
  "pad_num n k = pad_start n CHR ''0'' (nat_digits (nat k))"

definition iso_year :: "int \<Rightarrow> string" where
  "iso_year y =
     (if 0 \<le> y \<and> y \<le> 9999 then pad_num 4 y
      else if y < 0 then CHR ''-'' # pad_num 6 (- y) else CHR ''+'' # pad_num 6 y)"

definition iso_of_ms :: "int \<Rightarrow> string" where
  "iso_of_ms t =
     (let d = t div ms_per_day; r = t mod ms_per_day; y = year_from_day d
      in case month_day (leap_year y) (d - day_from_year y) of (mo, dd) \<Rightarrow>
        iso_year y @ ''-'' @ pad_num 2 (int mo) @ ''-'' @ pad_num 2 dd @ ''T'' @
        pad_num 2 (r div 3600000) @ '':'' @ pad_num 2 (r div 60000 mod 60) @ '':'' @
        pad_num 2 (r div 1000 mod 60) @ ''.'' @ pad_num 3 (r mod 1000) @ ''Z'')"

text \<open>\<open>toISOString\<close> of a number: the error is the message of the RangeError.\<close>

definition js_to_iso_string :: "jsnum \<Rightarrow> string + string" where
  "js_to_iso_string n =
     (case js_trunc n of
        Fin q \<Rightarrow> if \<bar>q\<bar> \<le> 8640000000000000 then Inr (iso_of_ms \<lfloor>q\<rfloor>) else Inl ''Invalid time value''
      | _ \<Rightarrow> Inl ''Invalid time value'')"

section \<open>The host environment\<close>

text \<open>
  What a call reads from its host: the clock, \<open>crypto.randomUUID()\<close> where the host has it, and
  \<open>Math.random().toString(16)\<close>. A function that reads the clock twice is given the same time
  both times.
\<close>

record env =
  e_now :: jsnum
  e_uuid :: "string option"
  e_hex :: string

lemma year_from_day_examples:
  "year_from_day 0 = 1970" "year_from_day (-1) = 1969" "year_from_day 364 = 1970"
  "year_from_day 365 = 1971" "year_from_day 11016 = 2000" "year_from_day 11322 = 2000"
  "year_from_day 11323 = 2001"
  by (simp_all add: year_from_day_def day_from_year_def)

text \<open>The year found for a day is the year that contains it.\<close>

lemma div_bounds: "0 < (k::int) \<Longrightarrow> k * (x div k) \<le> x \<and> x < k * (x div k) + k"
  using pos_mod_sign [of k x] pos_mod_bound [of k x] mult_div_mod_eq [of k x] by linarith

lemma year_from_day_bounds:
  "day_from_year (year_from_day d) \<le> d \<and> d < day_from_year (year_from_day d + 1)"
proof -
  define y where "y = 1970 + (400 * d) div 146097"
  have lo: "146097 * (y - 1970) \<le> 400 * d" and hi: "400 * d < 146097 * (y - 1970) + 146097"
    using div_bounds [of 146097 "400 * d"] by (simp_all add: y_def)
  have b: "146097 * (z - 1970) - 800 \<le> 400 * day_from_year z
      \<and> 400 * day_from_year z \<le> 146097 * (z - 1970) + 800" for z
  proof -
    define a b c where "a = (z - 1969) div 4" and "b = (z - 1901) div 100" and "c = (z - 1601) div 400"
    have "4 * a \<le> z - 1969" "z - 1969 < 4 * a + 4" "100 * b \<le> z - 1901" "z - 1901 < 100 * b + 100"
      "400 * c \<le> z - 1601" "z - 1601 < 400 * c + 400"
      using div_bounds [of 4 "z - 1969"] div_bounds [of 100 "z - 1901"] div_bounds [of 400 "z - 1601"]
      unfolding a_def b_def c_def by simp_all
    then show ?thesis unfolding day_from_year_def a_def [symmetric] b_def [symmetric] c_def [symmetric]
      by (intro conjI; simp only: left_diff_distrib right_diff_distrib distrib_left; simp; linarith)
  qed
  have "day_from_year (y - 1) \<le> d" using conjunct2 [OF b [of "y - 1"]] lo
    by (simp only: left_diff_distrib right_diff_distrib)
  moreover have "d < day_from_year (y + 2)" using conjunct1 [OF b [of "y + 2"]] hi
    by (simp only: left_diff_distrib right_diff_distrib distrib_left)
  moreover have "y - 1 + 1 = y" "y + 1 + 1 = y + 2" by simp_all
  ultimately show ?thesis unfolding year_from_day_def y_def [symmetric] Let_def
    by (auto simp: not_less not_le add.commute)
qed

text \<open>No white space in printed numbers and dates.\<close>

lemma js_space_code: "js_space c \<Longrightarrow> (of_char c :: nat) < 33 \<or> (of_char c :: nat) = 160"
  by (auto simp: js_space_def)

lemma js_space_digit [simp]: "d < 10 \<Longrightarrow> \<not> js_space (digit_char d)"
  using js_space_code [of "digit_char d"] by (auto simp: digit_char_def)

lemma nat_digits_not_Nil [simp]: "nat_digits n \<noteq> []"
  by (subst nat_digits.simps) simp

lemma nat_digits_no_space: "c \<in> set (nat_digits n) \<Longrightarrow> \<not> js_space c"
proof (induction n rule: nat_digits.induct)
  case (1 n)
  then show ?case by (subst (asm) nat_digits.simps) (auto split: if_splits)
qed

lemma js_num_to_string_count:
  assumes "is_count n"
  shows "js_num_to_string n \<noteq> []" "c \<in> set (js_num_to_string n) \<Longrightarrow> \<not> js_space c"
  using assms by (auto elim!: is_count_cases simp: rat_digits_def dest: nat_digits_no_space)
    (simp_all add: js_space_def)

lemma pad_start_no_space: "(\<And>c. c \<in> set s \<Longrightarrow> \<not> js_space c) \<Longrightarrow> c \<in> set (pad_start n CHR ''0'' s) \<Longrightarrow> \<not> js_space c"
  by (auto simp: pad_start_def js_space_def)

lemma pad_start_not_Nil [simp]: "s \<noteq> [] \<Longrightarrow> pad_start n c s \<noteq> []"
  by (simp add: pad_start_def)

lemma iso_of_ms_hd: "iso_of_ms t \<noteq> [] \<and> \<not> js_space (hd (iso_of_ms t))"
proof -
  have "iso_year y \<noteq> [] \<and> \<not> js_space (hd (iso_year y))" for y
  proof -
    have "pad_num 4 y \<noteq> []" by (simp add: pad_num_def)
    moreover have "\<not> js_space (hd (pad_num 4 y))"
      unfolding pad_num_def
      by (rule pad_start_no_space [OF nat_digits_no_space, OF _ hd_in_set]) simp_all
    ultimately show ?thesis by (auto simp: iso_year_def js_space_def)
  qed
  then show ?thesis by (simp add: iso_of_ms_def Let_def split: prod.split)
qed

lemma length_pad_start: "length (pad_start n c s) = max n (length s)"
  by (simp add: pad_start_def)

end
