(* ===== verification/CrdtProtocol.thy ===== *)
theory CrdtProtocol
  imports JsCollections JsDate
begin

text \<open>
  The wire types of the CRDT protocol, packages/protocol/src/crdt.ts: operations and sync
  messages, the normalisers, the version vectors, the constructors (a \<open>throw\<close> is \<open>Inl\<close> of the
  message) and the parsers (a \<open>ParseCrdtResult\<close> is \<open>Inl error\<close> or \<open>Inr value\<close>).
  \<open>JSON.parse\<close> is the parameter \<open>json_parse\<close>; the host supplies the clock and random values
  (\<open>env\<close>). A payload is an untyped value: the interfaces of the payloads are erased by the
  compiler and no code checks them. The order of integer-like keys of a version vector is not
  modelled.
\<close>

section \<open>Data\<close>

datatype CrdtWireType = CONVERSATION_OP | SYNC_STATE | SYNC_REQUEST | SYNC_BATCH | PING | PONG

fun wire_name :: "CrdtWireType \<Rightarrow> string" where
  "wire_name CONVERSATION_OP = ''app.openclaw.conv.op''"
| "wire_name SYNC_STATE = ''sys.crdt.sync-state''"
| "wire_name SYNC_REQUEST = ''sys.crdt.sync-request''"
| "wire_name SYNC_BATCH = ''sys.crdt.sync-batch''"
| "wire_name PING = ''sys.crdt.ping''"
| "wire_name PONG = ''sys.crdt.pong''"

datatype CrdtOpKind =
    CONVERSATION_CREATE | MEMBER_ADD | MEMBER_REMOVE | DEVICE_TRUST_ADD | DEVICE_TRUST_REMOVE
  | CHANNEL_REVOKE | MESSAGE_CREATE | MESSAGE_EDIT | MESSAGE_DELETE | REACTION_ADD
  | REACTION_REMOVE | READ_CURSOR

fun kind_name :: "CrdtOpKind \<Rightarrow> string" where
  "kind_name CONVERSATION_CREATE = ''conversation.create''"
| "kind_name MEMBER_ADD = ''member.add''"
| "kind_name MEMBER_REMOVE = ''member.remove''"
| "kind_name DEVICE_TRUST_ADD = ''device.trust.add''"
| "kind_name DEVICE_TRUST_REMOVE = ''device.trust.remove''"
| "kind_name CHANNEL_REVOKE = ''channel.revoke''"
| "kind_name MESSAGE_CREATE = ''message.create''"
| "kind_name MESSAGE_EDIT = ''message.edit''"
| "kind_name MESSAGE_DELETE = ''message.delete''"
| "kind_name REACTION_ADD = ''reaction.add''"
| "kind_name REACTION_REMOVE = ''reaction.remove''"
| "kind_name READ_CURSOR = ''read.cursor''"

definition all_kinds :: "CrdtOpKind list" where
  "all_kinds =
     [CONVERSATION_CREATE, MEMBER_ADD, MEMBER_REMOVE, DEVICE_TRUST_ADD, DEVICE_TRUST_REMOVE,
      CHANNEL_REVOKE, MESSAGE_CREATE, MESSAGE_EDIT, MESSAGE_DELETE, REACTION_ADD,
      REACTION_REMOVE, READ_CURSOR]"

text \<open>\<open>Object.values(CRDT_OP_KINDS).includes(kind)\<close>, with the kind it is.\<close>

definition parse_kind :: "string \<Rightarrow> CrdtOpKind option" where
  "parse_kind s = find (\<lambda>k. kind_name k = s) all_kinds"

type_synonym vv = "(string \<times> jsnum) list"

record crdt_op =
  op_opId :: string
  op_conversationId :: string
  op_authorDeviceId :: string
  op_authorEntityType :: string
  op_authorSeq :: jsnum
  op_hlc :: string
  op_parents :: "string list"
  op_kind :: CrdtOpKind
  op_payload :: jsval
  op_signedAt :: jsnum
  op_signature :: string

record crdt_summary =
  sum_conversationId :: string
  sum_versionVector :: vv
  sum_frontier :: "string list"

record crdt_sync_state =
  ss_conversationId :: string
  ss_versionVector :: vv
  ss_frontier :: "string list"
  ss_ts :: jsnum

record crdt_sync_request =
  sr_conversationId :: string
  sr_wantFrom :: vv
  sr_limit :: "jsnum option"
  sr_ts :: jsnum

record crdt_sync_batch =
  sb_conversationId :: string
  sb_baseVersionVector :: vv
  sb_ops :: "crdt_op list"
  sb_hasMore :: bool
  sb_ts :: jsnum

record crdt_ping =
  ping_id :: string
  ping_sentAt :: jsnum

record crdt_pong =
  pong_id :: string
  pong_sentAt :: jsnum
  pong_respondedAt :: jsnum

section \<open>Normalisers\<close>

fun normalizeCrdtId :: "jsval \<Rightarrow> string" where
  "normalizeCrdtId (JStr s) = js_trim s"
| "normalizeCrdtId v = []"

definition normalizeCrdtParents :: "jsval \<Rightarrow> string list" where
  "normalizeCrdtParents values =
     js_uniq (filter (\<lambda>s. s \<noteq> []) (map normalizeCrdtId (js_array values)))"

definition normalizeCrdtVersionVector :: "jsval \<Rightarrow> vv" where
  "normalizeCrdtVersionVector value =
     (case value of
        JObj fs \<Rightarrow>
          fold (\<lambda>(k, n) m. AList.update k n m)
            (filter (\<lambda>(k, n). k \<noteq> []) (map (\<lambda>(k, v). (normalizeCrdtId (JStr k), js_count_of v)) fs)) []
      | _ \<Rightarrow> [])"

text \<open>A typed vector is an object of numbers.\<close>

abbreviation vv_val :: "vv \<Rightarrow> jsval" where
  "vv_val v \<equiv> JObj (map (\<lambda>(k, n). (k, JNum n)) v)"

abbreviation strs_val :: "string list \<Rightarrow> jsval" where
  "strs_val ss \<equiv> JArr (map JStr ss)"

text \<open>
  Reading \<open>vector[k] || 0\<close> as a number, and \<open>vector[k] = n\<close>, on a plain object: a name that
  the object does not own is looked up on \<open>Object.prototype\<close>, whose properties are functions
  (and an object, \<open>__proto__\<close>), which are not numbers; assigning to \<open>__proto__\<close> calls the
  inherited setter.
\<close>

definition object_protos :: "string list" where
  "object_protos =
     [''constructor'', ''__defineGetter__'', ''__defineSetter__'', ''hasOwnProperty'',
      ''__lookupGetter__'', ''__lookupSetter__'', ''isPrototypeOf'', ''propertyIsEnumerable'',
      ''toString'', ''valueOf'', ''__proto__'', ''toLocaleString'']"

definition vv_read :: "vv \<Rightarrow> string \<Rightarrow> jsnum" where
  "vv_read m k =
     (case map_of m k of
        Some n \<Rightarrow> js_or_zero n
      | None \<Rightarrow> if k \<in> set object_protos then NaN else Fin 0)"

definition vv_write :: "string \<Rightarrow> jsnum \<Rightarrow> vv \<Rightarrow> vv" where
  "vv_write k n m =
     (if k = ''__proto__'' \<and> map_of m k = None then m else AList.update k n m)"

definition mergeCrdtVersionVectors :: "vv \<Rightarrow> vv \<Rightarrow> vv" where
  "mergeCrdtVersionVectors left right =
     fold (\<lambda>(k, seq) m. vv_write k (js_max (vv_read m k) seq) m)
       (normalizeCrdtVersionVector (vv_val right)) (normalizeCrdtVersionVector (vv_val left))"

definition diffCrdtVersionVectors :: "vv \<Rightarrow> vv \<Rightarrow> vv" where
  "diffCrdtVersionVectors local remote =
     (let normalizedLocal = normalizeCrdtVersionVector (vv_val local)
      in fold (\<lambda>(k, remoteSeq) m.
             if js_less (vv_read normalizedLocal k) remoteSeq then vv_write k remoteSeq m else m)
           (normalizeCrdtVersionVector (vv_val remote)) [])"

section \<open>Identifiers\<close>

definition randomSuffix :: "env \<Rightarrow> string" where
  "randomSuffix e =
     (case e_uuid e of
        Some u \<Rightarrow> filter (\<lambda>c. c \<noteq> CHR ''-'') u
      | None \<Rightarrow> take 12 (drop 2 (e_hex e)))"

definition id_or_unknown :: "string \<Rightarrow> string" where
  "id_or_unknown d =
     (let n = normalizeCrdtId (JStr d) in if n = [] then ''unknown-device'' else n)"

definition buildCrdtHlc :: "string \<Rightarrow> jsnum \<Rightarrow> jsnum \<Rightarrow> string + string" where
  "buildCrdtHlc authorDeviceId authorSeq atMs =
     (case js_to_iso_string atMs of
        Inl e \<Rightarrow> Inl e
      | Inr stamp \<Rightarrow>
          Inr (stamp @ ''#'' @ id_or_unknown authorDeviceId @ ''#'' @
            pad_start 12 CHR ''0'' (js_num_to_string (js_whole authorSeq))))"

definition createCrdtOpId :: "env \<Rightarrow> string \<Rightarrow> jsnum \<Rightarrow> jsnum \<Rightarrow> string" where
  "createCrdtOpId e authorDeviceId authorSeq atMs =
     ''op_'' @ id_or_unknown authorDeviceId @ ''_'' @ js_num_to_string (js_whole authorSeq) @ ''_'' @
     js_num_to_string (js_whole atMs) @ ''_'' @ randomSuffix e"

definition createCrdtMessageId :: "env \<Rightarrow> jsnum \<Rightarrow> string" where
  "createCrdtMessageId e atMs =
     ''msg_'' @ js_num_to_string (js_whole atMs) @ ''_'' @ randomSuffix e"

definition createCrdtConversationId :: "env \<Rightarrow> jsnum \<Rightarrow> string" where
  "createCrdtConversationId e atMs =
     ''conv_'' @ js_num_to_string (js_whole atMs) @ ''_'' @ randomSuffix e"

text \<open>\<open>Math.max(0, Math.trunc(Number(v || Date.now())))\<close>.\<close>

definition stamp_of :: "env \<Rightarrow> jsval \<Rightarrow> jsnum" where
  "stamp_of e v = js_whole (js_to_number (js_or v (JNum (e_now e))))"

section \<open>Constructors\<close>

record crdt_op_input =
  in_opId :: jsval
  in_conversationId :: string
  in_authorDeviceId :: string
  in_authorEntityType :: string
  in_authorSeq :: jsnum
  in_hlc :: jsval
  in_parents :: jsval
  in_kind :: CrdtOpKind
  in_payload :: jsval
  in_signedAt :: jsval
  in_signature :: string

definition createCrdtOpEnvelope :: "env \<Rightarrow> crdt_op_input \<Rightarrow> string + crdt_op" where
  "createCrdtOpEnvelope e i =
     (let conversationId = normalizeCrdtId (JStr (in_conversationId i));
          authorDeviceId = normalizeCrdtId (JStr (in_authorDeviceId i));
          entity = normalizeCrdtId (JStr (in_authorEntityType i));
          authorEntityType = (if entity = [] then ''desktop'' else entity);
          authorSeq = js_whole (in_authorSeq i);
          signedAt = stamp_of e (in_signedAt i);
          givenId = normalizeCrdtId (in_opId i);
          opId = (if givenId = [] then createCrdtOpId e authorDeviceId authorSeq signedAt else givenId);
          signature = normalizeCrdtId (JStr (in_signature i));
          givenHlc = normalizeCrdtId (in_hlc i)
      in if conversationId = [] then Inl ''conversationId is required''
         else if authorDeviceId = [] then Inl ''authorDeviceId is required''
         else if \<not> js_num_truthy authorSeq then Inl ''authorSeq must be greater than 0''
         else if signature = [] then Inl ''signature is required''
         else case (if givenHlc = [] then buildCrdtHlc authorDeviceId authorSeq signedAt
                    else Inr givenHlc) of
                Inl err \<Rightarrow> Inl err
              | Inr hlc \<Rightarrow>
                  Inr \<lparr>op_opId = opId, op_conversationId = conversationId,
                    op_authorDeviceId = authorDeviceId, op_authorEntityType = authorEntityType,
                    op_authorSeq = authorSeq, op_hlc = hlc,
                    op_parents = normalizeCrdtParents (in_parents i), op_kind = in_kind i,
                    op_payload = in_payload i, op_signedAt = signedAt, op_signature = signature\<rparr>)"

definition createCrdtConversationSummary :: "string \<Rightarrow> jsval \<Rightarrow> jsval \<Rightarrow> string + crdt_summary" where
  "createCrdtConversationSummary cid vector frontier =
     (let conversationId = normalizeCrdtId (JStr cid)
      in if conversationId = [] then Inl ''conversationId is required''
         else Inr \<lparr>sum_conversationId = conversationId,
           sum_versionVector = normalizeCrdtVersionVector vector,
           sum_frontier = normalizeCrdtParents frontier\<rparr>)"

definition createCrdtSyncState ::
  "env \<Rightarrow> string \<Rightarrow> jsval \<Rightarrow> jsval \<Rightarrow> jsval \<Rightarrow> string + crdt_sync_state" where
  "createCrdtSyncState e cid vector frontier ts =
     (let conversationId = normalizeCrdtId (JStr cid)
      in if conversationId = [] then Inl ''conversationId is required''
         else Inr \<lparr>ss_conversationId = conversationId,
           ss_versionVector = normalizeCrdtVersionVector vector,
           ss_frontier = normalizeCrdtParents frontier, ss_ts = stamp_of e ts\<rparr>)"

text \<open>\<open>limit == null ? undefined : Math.max(1, Math.trunc(Number(limit)))\<close>.\<close>

definition limit_of :: "jsval \<Rightarrow> jsnum option" where
  "limit_of v =
     (if v = JUndef \<or> v = JNull then None else Some (js_max (Fin 1) (js_trunc (js_to_number v))))"

definition createCrdtSyncRequest ::
  "env \<Rightarrow> string \<Rightarrow> jsval \<Rightarrow> jsval \<Rightarrow> jsval \<Rightarrow> string + crdt_sync_request" where
  "createCrdtSyncRequest e cid wantFrom limit ts =
     (let conversationId = normalizeCrdtId (JStr cid)
      in if conversationId = [] then Inl ''conversationId is required''
         else Inr \<lparr>sr_conversationId = conversationId,
           sr_wantFrom = normalizeCrdtVersionVector wantFrom,
           sr_limit = limit_of limit, sr_ts = stamp_of e ts\<rparr>)"

definition createCrdtSyncBatch ::
  "env \<Rightarrow> string \<Rightarrow> jsval \<Rightarrow> crdt_op list option \<Rightarrow> jsval \<Rightarrow> jsval \<Rightarrow> string + crdt_sync_batch" where
  "createCrdtSyncBatch e cid base ops hasMore ts =
     (let conversationId = normalizeCrdtId (JStr cid)
      in if conversationId = [] then Inl ''conversationId is required''
         else Inr \<lparr>sb_conversationId = conversationId,
           sb_baseVersionVector = normalizeCrdtVersionVector base,
           sb_ops = (case ops of Some os \<Rightarrow> os | None \<Rightarrow> []),
           sb_hasMore = (hasMore = JBool True), sb_ts = stamp_of e ts\<rparr>)"

definition createCrdtPing :: "env \<Rightarrow> jsval \<Rightarrow> jsval \<Rightarrow> crdt_ping" where
  "createCrdtPing e pid sent =
     (let sentAt = stamp_of e sent; given = normalizeCrdtId pid
      in \<lparr>ping_id = (if given = [] then ''ping_'' @ js_num_to_string sentAt @ ''_'' @ randomSuffix e
            else given), ping_sentAt = sentAt\<rparr>)"

definition createCrdtPong :: "env \<Rightarrow> jsval \<Rightarrow> jsval \<Rightarrow> jsval \<Rightarrow> string + crdt_pong" where
  "createCrdtPong e pid sentAt respondedAt =
     (let i = normalizeCrdtId pid
      in if i = [] then Inl ''id is required''
         else Inr \<lparr>pong_id = i, pong_sentAt = js_count_of sentAt,
           pong_respondedAt = stamp_of e respondedAt\<rparr>)"

section \<open>Parsers\<close>

text \<open>
  The head every parser shares: a string is parsed as JSON first, and the value must be an
  object that is not an array.
\<close>

definition parse_record ::
  "(string \<Rightarrow> string + jsval) \<Rightarrow> string \<Rightarrow> jsval \<Rightarrow> string + jsval" where
  "parse_record json_parse what raw =
     (case (case raw of JStr s \<Rightarrow> json_parse s | _ \<Rightarrow> Inr raw) of
        Inl msg \<Rightarrow> Inl (''Invalid JSON payload: '' @ msg)
      | Inr value \<Rightarrow>
          if js_is_record value then Inr value else Inl (what @ '' must be a JSON object''))"

definition parseCrdtOpEnvelope ::
  "(string \<Rightarrow> string + jsval) \<Rightarrow> env \<Rightarrow> jsval \<Rightarrow> string + crdt_op" where
  "parseCrdtOpEnvelope json_parse e raw =
     (case parse_record json_parse ''CRDT op'' raw of
        Inl err \<Rightarrow> Inl err
      | Inr c \<Rightarrow>
          let kind = normalizeCrdtId (js_get c ''kind'');
              entity = normalizeCrdtId (js_get c ''authorEntityType'')
          in case parse_kind kind of
               None \<Rightarrow> Inl (''Unsupported CRDT op kind: '' @ (if kind = [] then ''<empty>'' else kind))
             | Some k \<Rightarrow>
                 createCrdtOpEnvelope e
                   \<lparr>in_opId = JStr (normalizeCrdtId (js_get c ''opId'')),
                    in_conversationId = normalizeCrdtId (js_get c ''conversationId''),
                    in_authorDeviceId = normalizeCrdtId (js_get c ''authorDeviceId''),
                    in_authorEntityType = (if entity = [] then ''desktop'' else entity),
                    in_authorSeq = js_count_of (js_get c ''authorSeq''),
                    in_hlc = JStr (normalizeCrdtId (js_get c ''hlc'')),
                    in_parents = strs_val (normalizeCrdtParents (js_get c ''parents'')),
                    in_kind = k,
                    in_payload = (if js_is_record (js_get c ''payload'') then js_get c ''payload'' else JObj []),
                    in_signedAt = JNum (stamp_of e (js_get c ''signedAt'')),
                    in_signature = normalizeCrdtId (js_get c ''signature'')\<rparr>)"

definition parseCrdtSyncState ::
  "(string \<Rightarrow> string + jsval) \<Rightarrow> env \<Rightarrow> jsval \<Rightarrow> string + crdt_sync_state" where
  "parseCrdtSyncState json_parse e raw =
     (case parse_record json_parse ''CRDT sync state'' raw of
        Inl err \<Rightarrow> Inl err
      | Inr c \<Rightarrow>
          createCrdtSyncState e (normalizeCrdtId (js_get c ''conversationId''))
            (vv_val (normalizeCrdtVersionVector (js_get c ''versionVector'')))
            (strs_val (normalizeCrdtParents (js_get c ''frontier'')))
            (JNum (stamp_of e (js_get c ''ts''))))"

definition parseCrdtSyncRequest ::
  "(string \<Rightarrow> string + jsval) \<Rightarrow> env \<Rightarrow> jsval \<Rightarrow> string + crdt_sync_request" where
  "parseCrdtSyncRequest json_parse e raw =
     (case parse_record json_parse ''CRDT sync request'' raw of
        Inl err \<Rightarrow> Inl err
      | Inr c \<Rightarrow>
          createCrdtSyncRequest e (normalizeCrdtId (js_get c ''conversationId''))
            (vv_val (normalizeCrdtVersionVector (js_get c ''wantFrom'')))
            (case limit_of (js_get c ''limit'') of None \<Rightarrow> JUndef | Some n \<Rightarrow> JNum n)
            (JNum (stamp_of e (js_get c ''ts''))))"

text \<open>The loop over the raw operations returns at the first one that does not parse.\<close>

fun parse_ops ::
  "(string \<Rightarrow> string + jsval) \<Rightarrow> env \<Rightarrow> jsval list \<Rightarrow> crdt_op list \<Rightarrow> string + crdt_op list" where
  "parse_ops json_parse e [] ops = Inr ops"
| "parse_ops json_parse e (rawOp # rest) ops =
     (case parseCrdtOpEnvelope json_parse e rawOp of
        Inl err \<Rightarrow> Inl (''Invalid CRDT op in sync batch: '' @ err)
      | Inr op \<Rightarrow> parse_ops json_parse e rest (ops @ [op]))"

definition parseCrdtSyncBatch ::
  "(string \<Rightarrow> string + jsval) \<Rightarrow> env \<Rightarrow> jsval \<Rightarrow> string + crdt_sync_batch" where
  "parseCrdtSyncBatch json_parse e raw =
     (case parse_record json_parse ''CRDT sync batch'' raw of
        Inl err \<Rightarrow> Inl err
      | Inr c \<Rightarrow>
          case parse_ops json_parse e (js_array (js_get c ''ops'')) [] of
            Inl err \<Rightarrow> Inl err
          | Inr ops \<Rightarrow>
              createCrdtSyncBatch e (normalizeCrdtId (js_get c ''conversationId''))
                (vv_val (normalizeCrdtVersionVector (js_get c ''baseVersionVector'')))
                (Some ops) (JBool (js_get c ''hasMore'' = JBool True))
                (JNum (stamp_of e (js_get c ''ts''))))"

definition parseCrdtPing ::
  "(string \<Rightarrow> string + jsval) \<Rightarrow> env \<Rightarrow> jsval \<Rightarrow> string + crdt_ping" where
  "parseCrdtPing json_parse e raw =
     (case parse_record json_parse ''CRDT ping'' raw of
        Inl err \<Rightarrow> Inl err
      | Inr c \<Rightarrow>
          Inr (createCrdtPing e (JStr (normalizeCrdtId (js_get c ''id'')))
            (JNum (stamp_of e (js_get c ''sentAt'')))))"

definition parseCrdtPong ::
  "(string \<Rightarrow> string + jsval) \<Rightarrow> env \<Rightarrow> jsval \<Rightarrow> string + crdt_pong" where
  "parseCrdtPong json_parse e raw =
     (case parse_record json_parse ''CRDT pong'' raw of
        Inl err \<Rightarrow> Inl err
      | Inr c \<Rightarrow>
          createCrdtPong e (JStr (normalizeCrdtId (js_get c ''id'')))
            (JNum (js_count_of (js_get c ''sentAt'')))
            (JNum (stamp_of e (js_get c ''respondedAt''))))"

section \<open>The normalisers give normal forms\<close>

lemma js_or_NilI [simp]: "js_or (JNum (Fin 0)) v = v"
  by (simp add: js_or_def js_num_truthy_def)

lemma normalizeCrdtId_trimmed [simp]: "js_trimmed (normalizeCrdtId v)"
  by (cases v) simp_all

lemma js_trim_normalizeCrdtId [simp]: "js_trim (normalizeCrdtId v) = normalizeCrdtId v"
  by (simp add: js_trim_id)

lemma normalizeCrdtParents_strs [simp]: "normalizeCrdtParents (strs_val ss) = js_uniq_texts ss"
  by (simp add: normalizeCrdtParents_def js_uniq_texts_def comp_def)

lemma texts_normal_normalizeCrdtParents [simp]: "texts_normal (normalizeCrdtParents v)"
  by (auto simp: texts_normal_def normalizeCrdtParents_def)

lemma stamp_of_count:
  assumes "is_count (e_now e)" shows "is_count (stamp_of e (JNum n))"
proof -
  have "js_to_number (js_or (JNum n) (JNum (e_now e))) \<noteq> NaN"
    using assms is_count_not_NaN [of "e_now e"] by (auto simp: js_or_def js_num_truthy_def)
  then show ?thesis by (simp add: stamp_of_def is_count_js_whole)
qed

lemma js_num_truthy_count: "is_count n \<Longrightarrow> js_num_truthy n = (n \<noteq> Fin 0)"
  by (auto simp: js_num_truthy_def)

lemma stamp_of_id: "is_count n \<Longrightarrow> n \<noteq> Fin 0 \<Longrightarrow> stamp_of e (JNum n) = n"
  by (simp add: stamp_of_def js_or_def js_num_truthy_count js_whole_count)

definition vv_normal :: "vv \<Rightarrow> bool" where
  "vv_normal m =
     (distinct (map fst m) \<and> (\<forall>(k, n) \<in> set m. k \<noteq> [] \<and> js_trimmed k \<and> is_count n))"

lemma vv_normal_simps [simp]: "vv_normal []"
  by (simp add: vv_normal_def)

lemma fold_update_distinct:
  "distinct (map fst (m @ ps)) \<Longrightarrow> fold (\<lambda>(k, n) m. AList.update k n m) ps m = m @ ps"
proof (induction ps arbitrary: m)
  case (Cons p ps)
  then show ?case by (cases p) (auto simp: update_fresh)
qed simp

lemma fold_update_normal:
  assumes "\<forall>(k, n) \<in> set ps. Q k n" "\<forall>(k, n) \<in> set m. Q k n" "distinct (map fst m)"
  shows "distinct (map fst (fold (\<lambda>(k, n) m. AList.update k n m) ps m)) \<and>
    (\<forall>(k, n) \<in> set (fold (\<lambda>(k, n) m. AList.update k n m) ps m). Q k n)"
  using assms
proof (induction ps arbitrary: m)
  case (Cons p ps)
  obtain k n where p: "p = (k, n)" by (cases p)
  have "\<forall>(k', n') \<in> set (AList.update k n m). Q k' n'"
    using set_update_subset [of k n m] Cons.prems p by (fastforce dest: subsetD)
  then show ?case
    using Cons.IH [of "AList.update k n m"] Cons.prems p by (simp add: distinct_update)
qed simp

lemma normalizeCrdtVersionVector_num:
  "vv_normal (normalizeCrdtVersionVector (vv_val m))"
  unfolding vv_normal_def normalizeCrdtVersionVector_def jsval.simps
  by (rule fold_update_normal) auto

lemma normalizeCrdtVersionVector_id:
  assumes "vv_normal m" shows "normalizeCrdtVersionVector (vv_val m) = m"
proof -
  have eq: "map (\<lambda>(k, v). (normalizeCrdtId (JStr k), js_count_of v)) (map (\<lambda>(k, n). (k, JNum n)) m) = m"
    using assms by (auto simp: vv_normal_def js_trim_id js_count_idem intro!: map_idI)
  have "filter (\<lambda>(k, n). k \<noteq> []) m = m" using assms by (auto simp: vv_normal_def filter_id_conv)
  then show ?thesis using assms fold_update_distinct [of "[]" m]
    by (simp only: normalizeCrdtVersionVector_def jsval.simps eq) (simp add: vv_normal_def)
qed

section \<open>Version vectors\<close>

text \<open>A vector none of whose names is a property of \<open>Object.prototype\<close>.\<close>

definition vv_plain :: "vv \<Rightarrow> bool" where
  "vv_plain m = (vv_normal m \<and> fst ` set m \<inter> set object_protos = {})"

definition vv_le :: "vv \<Rightarrow> vv \<Rightarrow> bool" where
  "vv_le a b = (\<forall>k. k \<notin> set object_protos \<longrightarrow> js_leq (vv_read a k) (vv_read b k))"

lemma proto_in_object_protos: "''__proto__'' \<in> set object_protos"
  by (simp add: object_protos_def)

lemma vv_plain_normal: "vv_plain m \<Longrightarrow> vv_normal m"
  by (simp add: vv_plain_def)

lemma vv_plain_key: "vv_plain m \<Longrightarrow> map_of m k = Some n \<Longrightarrow> k \<notin> set object_protos"
  by (auto simp: vv_plain_def dest!: map_of_SomeD)

lemma vv_plain_proto: "vv_plain m \<Longrightarrow> map_of m ''__proto__'' = None"
  using vv_plain_key [of m "''__proto__''"] proto_in_object_protos by (cases "map_of m ''__proto__''") auto

lemma vv_normal_count: "vv_normal m \<Longrightarrow> map_of m k = Some n \<Longrightarrow> is_count n"
  by (auto simp: vv_normal_def dest!: map_of_SomeD)

lemma js_or_zero_count: "is_count n \<Longrightarrow> js_or_zero n = n"
  by (auto simp: js_or_zero_def js_num_truthy_count)

lemma vv_read_Some: "vv_normal m \<Longrightarrow> map_of m k = Some n \<Longrightarrow> vv_read m k = n"
  by (simp add: vv_read_def js_or_zero_count vv_normal_count)

lemma vv_read_None: "map_of m k = None \<Longrightarrow> k \<notin> set object_protos \<Longrightarrow> vv_read m k = Fin 0"
  by (simp add: vv_read_def)

lemma vv_read_count: "vv_normal m \<Longrightarrow> k \<notin> set object_protos \<Longrightarrow> is_count (vv_read m k)"
  by (cases "map_of m k") (auto simp: vv_read_None vv_read_Some vv_normal_count)

lemma map_of_vv_write:
  "map_of (vv_write k n m) j =
     (if j = k \<and> \<not> (k = ''__proto__'' \<and> map_of m k = None) then Some n else map_of m j)"
  by (auto simp: vv_write_def update_conv)

lemma vv_read_vv_write:
  "k \<noteq> ''__proto__'' \<Longrightarrow> vv_read (vv_write k n m) j = (if j = k then js_or_zero n else vv_read m j)"
  by (simp add: vv_read_def map_of_vv_write)

lemma fold_merge_map_of:
  assumes "distinct (map fst ps)"
  shows "map_of (fold (\<lambda>(k, seq) m. vv_write k (js_max (vv_read m k) seq) m) ps m) j =
    (case map_of ps j of
       None \<Rightarrow> map_of m j
     | Some n \<Rightarrow> if j = ''__proto__'' \<and> map_of m j = None then None
                else Some (js_max (vv_read m j) n))"
  using assms
proof (induction ps arbitrary: m)
  case (Cons p ps)
  obtain k n where p: "p = (k, n)" by (cases p)
  have nk: "map_of ps k = None" using Cons.prems p by (simp add: map_of_eq_None_iff)
  show ?case
    using Cons nk p by (auto simp: map_of_vv_write vv_read_def split: option.splits)
qed simp

lemma fold_merge_keys:
  "distinct (map fst m) \<Longrightarrow>
    distinct (map fst (fold (\<lambda>(k, seq) m. vv_write k (js_max (vv_read m k) seq) m) ps m))"
  by (induction ps arbitrary: m) (auto simp: vv_write_def distinct_update)

lemma merge_map_of:
  assumes "vv_plain l" "vv_plain r"
  shows "map_of (mergeCrdtVersionVectors l r) j =
    (case map_of r j of None \<Rightarrow> map_of l j | Some n \<Rightarrow> Some (js_max (vv_read l j) n))"
proof -
  note n = vv_plain_normal [OF assms(1)] vv_plain_normal [OF assms(2)]
  have "distinct (map fst r)" using n by (simp add: vv_normal_def)
  from fold_merge_map_of [OF this] show ?thesis
    using vv_plain_proto [OF assms(2)]
    by (auto simp: mergeCrdtVersionVectors_def normalizeCrdtVersionVector_id n split: option.splits)
qed

lemma merge_plain:
  assumes "vv_plain l" "vv_plain r" shows "vv_plain (mergeCrdtVersionVectors l r)"
proof -
  note n = vv_plain_normal [OF assms(1)] vv_plain_normal [OF assms(2)]
  let ?m = "mergeCrdtVersionVectors l r"
  have d: "distinct (map fst ?m)"
    using fold_merge_keys n by (simp add: mergeCrdtVersionVectors_def normalizeCrdtVersionVector_id vv_normal_def)
  have "k \<noteq> [] \<and> js_trimmed k \<and> is_count v \<and> k \<notin> set object_protos" if "(k, v) \<in> set ?m" for k v
  proof -
    from that d have "map_of ?m k = Some v" by simp
    then have mk: "(case map_of r k of None \<Rightarrow> map_of l k | Some n \<Rightarrow> Some (js_max (vv_read l k) n)) = Some v"
      by (simp add: merge_map_of assms)
    show ?thesis
    proof (cases "map_of r k")
      case None
      with mk have "map_of l k = Some v" by simp
      with assms(1) show ?thesis
        by (fastforce simp: vv_plain_def vv_normal_def dest!: map_of_SomeD)
    next
      case (Some w)
      with mk have v: "v = js_max (vv_read l k) w" by simp
      have np: "k \<notin> set object_protos" using vv_plain_key [OF assms(2) Some] .
      have "k \<noteq> [] \<and> js_trimmed k" using assms(2) Some
        by (fastforce simp: vv_plain_def vv_normal_def dest!: map_of_SomeD)
      with np v show ?thesis
        by (simp add: js_max_count vv_read_count n vv_normal_count [OF n(2) Some])
    qed
  qed
  with d show ?thesis by (force simp: vv_plain_def vv_normal_def)
qed

lemma merge_read:
  assumes "vv_plain l" "vv_plain r" "k \<notin> set object_protos"
  shows "vv_read (mergeCrdtVersionVectors l r) k = js_max (vv_read l k) (vv_read r k)"
proof (cases "map_of r k")
  case None
  then have "map_of (mergeCrdtVersionVectors l r) k = map_of l k" by (simp add: merge_map_of assms)
  then have "vv_read (mergeCrdtVersionVectors l r) k = vv_read l k" by (simp add: vv_read_def)
  moreover have "is_count (vv_read l k)" using assms by (simp add: vv_read_count vv_plain_normal)
  ultimately show ?thesis using None assms(3)
    by (auto simp: vv_read_None js_max_def js_less_zero_count is_count_not_NaN)
next
  case (Some n)
  then have "map_of (mergeCrdtVersionVectors l r) k = Some (js_max (vv_read l k) n)"
    by (simp add: merge_map_of assms)
  from vv_read_Some [OF vv_plain_normal [OF merge_plain [OF assms(1,2)]] this] show ?thesis
    by (simp add: vv_read_Some [OF vv_plain_normal [OF assms(2)] Some])
qed

lemma js_max_lub:
  assumes "is_count a" "is_count b"
  shows "js_leq a (js_max a b)" "js_leq b (js_max a b)" "js_leq a c \<Longrightarrow> js_leq b c \<Longrightarrow> js_leq (js_max a b) c"
  using assms by (auto simp: js_max_def js_leq_def is_count_not_NaN)
    (metis is_count_not_NaN js_less_total)+

lemma js_max_zero_iff: "is_count a \<Longrightarrow> is_count b \<Longrightarrow> js_less a b \<Longrightarrow> js_max a b = b"
  by (auto simp: js_max_def is_count_not_NaN)

lemma fold_diff_map_of:
  assumes "distinct (map fst ps)" "\<And>k. k \<in> fst ` set ps \<Longrightarrow> map_of m k = None"
  shows "map_of (fold (\<lambda>(k, n) m. if js_less (f k) n then vv_write k n m else m) ps m) j =
    (case map_of ps j of
       Some n \<Rightarrow> if js_less (f j) n \<and> j \<noteq> ''__proto__'' then Some n else map_of m j
     | None \<Rightarrow> map_of m j)"
  using assms
proof (induction ps arbitrary: m)
  case (Cons p ps)
  obtain k n where p: "p = (k, n)" by (cases p)
  have nk: "map_of ps k = None" using Cons.prems p by (simp add: map_of_eq_None_iff)
  have mk: "map_of m k = None" using Cons.prems(2) p by simp
  let ?m = "if js_less (f k) n then vv_write k n m else m"
  have fresh: "map_of ?m k' = None" if "k' \<in> fst ` set ps" for k'
    using that Cons.prems p by (auto simp: map_of_vv_write image_iff)
  have "distinct (map fst ps)" using Cons.prems p by simp
  from Cons.IH [OF this fresh] show ?case
    using nk mk p by (auto simp: map_of_vv_write split: option.splits)
qed simp

lemma diff_map_of:
  assumes "vv_plain l" "vv_plain r"
  shows "map_of (diffCrdtVersionVectors l r) j =
    (case map_of r j of Some n \<Rightarrow> if js_less (vv_read l j) n then Some n else None | None \<Rightarrow> None)"
proof -
  note n = vv_plain_normal [OF assms(1)] vv_plain_normal [OF assms(2)]
  have "distinct (map fst r)" using n by (simp add: vv_normal_def)
  from fold_diff_map_of [OF this] show ?thesis
    using vv_plain_proto [OF assms(2)]
    by (auto simp: diffCrdtVersionVectors_def normalizeCrdtVersionVector_id n split: option.splits)
qed

section \<open>Well-formed operations\<close>

text \<open>The shape of an operation that the parser lets through.\<close>

definition crdt_op_valid :: "crdt_op \<Rightarrow> bool" where
  "crdt_op_valid op =
     ((\<forall>s \<in> {op_opId op, op_conversationId op, op_authorDeviceId op, op_authorEntityType op,
        op_hlc op, op_signature op}. s \<noteq> [] \<and> js_trimmed s) \<and>
      is_count (op_authorSeq op) \<and> op_authorSeq op \<noteq> Fin 0 \<and>
      is_count (op_signedAt op) \<and> op_signedAt op \<noteq> Fin 0 \<and>
      texts_normal (op_parents op) \<and> js_is_record (op_payload op))"

text \<open>What the parser relies on in the host: a running clock and suffixes without blanks.\<close>

definition env_ok :: "env \<Rightarrow> bool" where
  "env_ok e =
     (is_count (e_now e) \<and> e_now e \<noteq> Fin 0 \<and> (\<forall>c \<in> set (randomSuffix e). \<not> js_space c))"

text \<open>The JSON object of an operation, the fields in the order the constructor lists them.\<close>

definition op_json :: "crdt_op \<Rightarrow> jsval" where
  "op_json op =
     JObj [(''opId'', JStr (op_opId op)), (''conversationId'', JStr (op_conversationId op)),
       (''authorDeviceId'', JStr (op_authorDeviceId op)),
       (''authorEntityType'', JStr (op_authorEntityType op)),
       (''authorSeq'', JNum (op_authorSeq op)), (''hlc'', JStr (op_hlc op)),
       (''parents'', strs_val (op_parents op)), (''kind'', JStr (kind_name (op_kind op))),
       (''payload'', op_payload op), (''signedAt'', JNum (op_signedAt op)),
       (''signature'', JStr (op_signature op))]"

lemma parse_kind_name: "parse_kind (kind_name k) = Some k"
  by (cases k) (simp_all add: parse_kind_def all_kinds_def)

lemma parse_kind_Some: "parse_kind s = Some k \<Longrightarrow> s = kind_name k"
  by (auto simp: parse_kind_def find_Some_iff)

lemma kind_name_trimmed: "js_trimmed (kind_name k) \<and> kind_name k \<noteq> []"
  by (cases k) (simp_all add: js_trimmed_def js_space_def)

lemma trimmed_append3:
  "s \<noteq> [] \<Longrightarrow> u \<noteq> [] \<Longrightarrow> \<not> js_space (hd s) \<Longrightarrow> \<not> js_space (last u) \<Longrightarrow> js_trimmed (s @ t @ u)"
  by (simp add: js_trimmed_def)

lemma buildCrdtHlc_trimmed:
  assumes "buildCrdtHlc d n t0 = Inr h" "is_count n" shows "h \<noteq> [] \<and> js_trimmed h"
proof -
  obtain t where h: "h = iso_of_ms t @ (''#'' @ id_or_unknown d @ ''#'') @
      pad_start 12 CHR ''0'' (js_num_to_string (js_whole n))"
    using assms(1) by (auto simp: buildCrdtHlc_def js_to_iso_string_def split: sum.splits jsnum.splits if_splits)
  let ?p = "pad_start 12 CHR ''0'' (js_num_to_string (js_whole n))"
  have c: "is_count (js_whole n)" using assms(2) by (simp add: js_whole_count)
  have "?p \<noteq> []" using js_num_to_string_count(1) [OF c] by simp
  moreover have "\<not> js_space (last ?p)"
    by (rule pad_start_no_space [OF js_num_to_string_count(2) [OF c], OF _ last_in_set])
      (use \<open>?p \<noteq> []\<close> in simp_all)
  ultimately show ?thesis using iso_of_ms_hd [of t] unfolding h
    by (intro conjI trimmed_append3) simp_all
qed

lemma createCrdtOpId_trimmed:
  assumes "env_ok e" shows "createCrdtOpId e d n t0 \<noteq> [] \<and> js_trimmed (createCrdtOpId e d n t0)"
proof -
  let ?m = "''p_'' @ id_or_unknown d @ ''_'' @ js_num_to_string (js_whole n) @ ''_'' @ js_num_to_string (js_whole t0)"
  have "createCrdtOpId e d n t0 = ''o'' @ ?m @ (''_'' @ randomSuffix e)"
    by (simp add: createCrdtOpId_def)
  moreover have "\<not> js_space (last (''_'' @ randomSuffix e))"
    using assms by (cases "randomSuffix e = []") (auto simp: env_ok_def js_space_def)
  ultimately show ?thesis
    using trimmed_append3 [of "''o''" "''_'' @ randomSuffix e" ?m] by (simp add: js_space_def)
qed

lemma stamp_of_JNum_pos:
  assumes "env_ok e" "is_count n" shows "stamp_of e (JNum n) \<noteq> Fin 0"
proof (cases "n = Fin 0")
  case True
  then show ?thesis using assms by (simp add: stamp_of_def env_ok_def js_whole_count)
next
  case False
  then show ?thesis using assms by (simp add: stamp_of_id)
qed

lemma stamp_of_stamp:
  assumes "env_ok e" shows "is_count (stamp_of e (JNum (stamp_of e v)))" "stamp_of e (JNum (stamp_of e v)) \<noteq> Fin 0"
proof -
  have now: "is_count (e_now e)" using assms by (simp add: env_ok_def)
  then show "is_count (stamp_of e (JNum (stamp_of e v)))" by (rule stamp_of_count)
  show "stamp_of e (JNum (stamp_of e v)) \<noteq> Fin 0"
  proof (cases "stamp_of e v = NaN")
    case True
    then show ?thesis using assms
      by (simp add: stamp_of_def [of e "JNum NaN"] js_or_def js_num_truthy_def env_ok_def js_whole_count)
  next
    case False
    then have "is_count (stamp_of e v)" by (metis is_count_js_whole js_whole_NaN stamp_of_def)
    with assms show ?thesis by (rule stamp_of_JNum_pos)
  qed
qed

lemma js_count_of_truthy: "js_num_truthy (js_whole (js_count_of v)) \<Longrightarrow>
    is_count (js_whole (js_count_of v)) \<and> js_whole (js_count_of v) \<noteq> Fin 0"
  using js_count_of_cases [of v] by (auto simp: js_num_truthy_def js_whole_count)

lemma createCrdtOpEnvelope_Inr:
  assumes "createCrdtOpEnvelope e i = Inr op"
  shows "(if normalizeCrdtId (in_hlc i) = []
      then buildCrdtHlc (js_trim (in_authorDeviceId i)) (js_whole (in_authorSeq i)) (stamp_of e (in_signedAt i))
      else Inr (normalizeCrdtId (in_hlc i))) = Inr (op_hlc op)"
    and "op_opId op = (if normalizeCrdtId (in_opId i) = []
        then createCrdtOpId e (js_trim (in_authorDeviceId i)) (js_whole (in_authorSeq i)) (stamp_of e (in_signedAt i))
        else normalizeCrdtId (in_opId i))"
    and "op_conversationId op = js_trim (in_conversationId i)" "op_conversationId op \<noteq> []"
    and "op_authorDeviceId op = js_trim (in_authorDeviceId i)" "op_authorDeviceId op \<noteq> []"
    and "op_authorEntityType op =
        (if js_trim (in_authorEntityType i) = [] then ''desktop'' else js_trim (in_authorEntityType i))"
    and "op_authorSeq op = js_whole (in_authorSeq i)" "js_num_truthy (op_authorSeq op)"
    and "op_parents op = normalizeCrdtParents (in_parents i)" "op_payload op = in_payload i"
    and "op_signedAt op = stamp_of e (in_signedAt i)"
    and "op_signature op = js_trim (in_signature i)" "op_signature op \<noteq> []"
    and "op_kind op = in_kind i"
proof -
  let ?h = "(if normalizeCrdtId (in_hlc i) = []
      then buildCrdtHlc (js_trim (in_authorDeviceId i)) (js_whole (in_authorSeq i)) (stamp_of e (in_signedAt i))
      else Inr (normalizeCrdtId (in_hlc i)))"
  obtain hlc where h: "?h = Inr hlc"
    using assms unfolding createCrdtOpEnvelope_def Let_def normalizeCrdtId.simps
    by (cases ?h) (simp_all only: sum.case if_distrib if_cancel split: if_splits, simp_all)
  note r = assms [unfolded createCrdtOpEnvelope_def Let_def normalizeCrdtId.simps h sum.case]
  have c: "js_trim (in_conversationId i) \<noteq> []" "js_trim (in_authorDeviceId i) \<noteq> []"
    "js_num_truthy (js_whole (in_authorSeq i))" "js_trim (in_signature i) \<noteq> []"
    using r by (simp_all split: if_split_asm)
  note op = r [simplified if_not_P [OF c(1)] if_not_P [OF c(2)] if_not_P [OF c(4)] c(3) simp_thms
      if_False sum.inject, symmetric]
  show "?h = Inr (op_hlc op)" using h by (simp add: op)
  show "op_opId op = (if normalizeCrdtId (in_opId i) = []
        then createCrdtOpId e (js_trim (in_authorDeviceId i)) (js_whole (in_authorSeq i)) (stamp_of e (in_signedAt i))
        else normalizeCrdtId (in_opId i))"
    "op_authorEntityType op =
        (if js_trim (in_authorEntityType i) = [] then ''desktop'' else js_trim (in_authorEntityType i))"
    "op_parents op = normalizeCrdtParents (in_parents i)" "op_payload op = in_payload i"
    "op_signedAt op = stamp_of e (in_signedAt i)" "op_kind op = in_kind i"
    "op_conversationId op = js_trim (in_conversationId i)" "op_conversationId op \<noteq> []"
    "op_authorDeviceId op = js_trim (in_authorDeviceId i)" "op_authorDeviceId op \<noteq> []"
    "op_authorSeq op = js_whole (in_authorSeq i)" "js_num_truthy (op_authorSeq op)"
    "op_signature op = js_trim (in_signature i)" "op_signature op \<noteq> []"
    by (simp_all add: op c)
qed

lemma createCrdtOpEnvelope_valid:
  assumes e: "env_ok e" and c: "createCrdtOpEnvelope e i = Inr op"
    and n: "js_whole (in_authorSeq i) = NaN \<or> is_count (js_whole (in_authorSeq i))"
    and t: "is_count (stamp_of e (in_signedAt i))" "stamp_of e (in_signedAt i) \<noteq> Fin 0"
    and p: "js_is_record (in_payload i)"
  shows "crdt_op_valid op"
proof -
  note op = createCrdtOpEnvelope_Inr [OF c]
  have seq: "is_count (op_authorSeq op)" "op_authorSeq op \<noteq> Fin 0"
    using op(8,9) n by (auto simp: js_num_truthy_def)
  have "op_hlc op \<noteq> [] \<and> js_trimmed (op_hlc op)"
    using op(1,8) buildCrdtHlc_trimmed [of _ "op_authorSeq op" _ "op_hlc op"] seq(1)
      normalizeCrdtId_trimmed [of "in_hlc i"]
    by (cases "normalizeCrdtId (in_hlc i) = []") (auto simp del: normalizeCrdtId_trimmed)
  moreover have "op_opId op \<noteq> [] \<and> js_trimmed (op_opId op)"
    using op(2) createCrdtOpId_trimmed [OF e] by (cases "normalizeCrdtId (in_opId i) = []") simp_all
  moreover have "op_authorEntityType op \<noteq> [] \<and> js_trimmed (op_authorEntityType op)"
    using op(7) by (simp add: js_trimmed_def [of "''desktop''"] js_space_def)
  ultimately show ?thesis
    using seq t p op(3-6,10-14) by (simp add: crdt_op_valid_def)
qed

lemma parseCrdtOpEnvelope_Inr:
  assumes "parseCrdtOpEnvelope json_parse e raw = Inr op"
  obtains i v w where "createCrdtOpEnvelope e i = Inr op" "in_authorSeq i = js_count_of v"
    "in_signedAt i = JNum (stamp_of e w)" "js_is_record (in_payload i)"
proof -
  obtain c k i where c: "parse_record json_parse ''CRDT op'' raw = Inr c"
    "parse_kind (normalizeCrdtId (js_get c ''kind'')) = Some k"
    using assms by (auto simp: parseCrdtOpEnvelope_def Let_def split: sum.splits option.splits)
  show thesis
    by (rule that) (use assms in \<open>simp add: parseCrdtOpEnvelope_def c Let_def\<close>, simp_all)
qed

lemma parseCrdtOpEnvelope_valid:
  assumes e: "env_ok e" and p: "parseCrdtOpEnvelope json_parse e raw = Inr op"
  shows "crdt_op_valid op"
proof -
  from parseCrdtOpEnvelope_Inr [OF p] obtain i v w where
    i: "createCrdtOpEnvelope e i = Inr op" "in_authorSeq i = js_count_of v"
      "in_signedAt i = JNum (stamp_of e w)" "js_is_record (in_payload i)" .
  have "js_whole (in_authorSeq i) = NaN \<or> is_count (js_whole (in_authorSeq i))"
    using js_count_of_cases [of v] i(2) by (auto simp: js_whole_count)
  then show ?thesis using createCrdtOpEnvelope_valid [OF e i(1)] stamp_of_stamp [OF e] i(3,4) by simp
qed

lemma op_json_get:
  "js_get (op_json op) ''opId'' = JStr (op_opId op)"
  "js_get (op_json op) ''conversationId'' = JStr (op_conversationId op)"
  "js_get (op_json op) ''authorDeviceId'' = JStr (op_authorDeviceId op)"
  "js_get (op_json op) ''authorEntityType'' = JStr (op_authorEntityType op)"
  "js_get (op_json op) ''authorSeq'' = JNum (op_authorSeq op)"
  "js_get (op_json op) ''hlc'' = JStr (op_hlc op)"
  "js_get (op_json op) ''parents'' = strs_val (op_parents op)"
  "js_get (op_json op) ''kind'' = JStr (kind_name (op_kind op))"
  "js_get (op_json op) ''payload'' = op_payload op"
  "js_get (op_json op) ''signedAt'' = JNum (op_signedAt op)"
  "js_get (op_json op) ''signature'' = JStr (op_signature op)"
  by (simp_all add: op_json_def)

lemma parse_record_record: "js_is_record v \<Longrightarrow> parse_record json_parse what v = Inr v"
  by (cases v) (simp_all add: parse_record_def)

lemma parse_op_json:
  assumes "crdt_op_valid op" shows "parseCrdtOpEnvelope json_parse e (op_json op) = Inr op"
proof -
  have r: "parse_record json_parse ''CRDT op'' (op_json op) = Inr (op_json op)"
    by (rule parse_record_record) (simp add: op_json_def)
  have k: "js_trim (kind_name (op_kind op)) = kind_name (op_kind op)"
    using kind_name_trimmed by (simp add: js_trim_id)
  have t: "js_trim (op_opId op) = op_opId op" "js_trim (op_conversationId op) = op_conversationId op"
    "js_trim (op_authorDeviceId op) = op_authorDeviceId op"
    "js_trim (op_authorEntityType op) = op_authorEntityType op"
    "js_trim (op_hlc op) = op_hlc op" "js_trim (op_signature op) = op_signature op"
    and ne: "op_opId op \<noteq> []" "op_conversationId op \<noteq> []" "op_authorDeviceId op \<noteq> []"
    "op_authorEntityType op \<noteq> []" "op_hlc op \<noteq> []" "op_signature op \<noteq> []"
    and n: "is_count (op_authorSeq op)" "op_authorSeq op \<noteq> Fin 0" "is_count (op_signedAt op)"
    "op_signedAt op \<noteq> Fin 0" and l: "texts_normal (op_parents op)" "js_is_record (op_payload op)"
    using assms by (simp_all add: crdt_op_valid_def js_trim_id)
  show ?thesis
    by (simp add: parseCrdtOpEnvelope_def r op_json_get Let_def k t ne n l parse_kind_name
        createCrdtOpEnvelope_def js_count_idem js_whole_count js_num_truthy_count
        js_uniq_texts_normal stamp_of_id)
qed

lemma diff_plain:
  assumes "vv_plain l" "vv_plain r" shows "vv_plain (diffCrdtVersionVectors l r)"
proof -
  note n = vv_plain_normal [OF assms(1)] vv_plain_normal [OF assms(2)]
  let ?f = "\<lambda>(k, v) m. if js_less (vv_read l k) v then vv_write k v m else m"
  have d: "distinct (map fst (fold ?f ps m))" if "distinct (map fst m)" for ps m
    using that by (induction ps arbitrary: m) (auto simp: vv_write_def distinct_update)
  have eq: "diffCrdtVersionVectors l r = fold ?f r []"
    by (simp add: diffCrdtVersionVectors_def normalizeCrdtVersionVector_id n)
  have dd: "distinct (map fst (diffCrdtVersionVectors l r))" unfolding eq by (rule d) simp
  have "set (diffCrdtVersionVectors l r) \<subseteq> set r"
  proof
    fix p assume p: "p \<in> set (diffCrdtVersionVectors l r)"
    obtain k v where kv: "p = (k, v)" by (cases p)
    have "map_of (diffCrdtVersionVectors l r) k = Some v"
      by (rule map_of_is_SomeI [OF dd]) (use p kv in simp)
    then have "map_of r k = Some v"
      by (auto simp: diff_map_of [OF assms] split: option.splits if_splits)
    then show "p \<in> set r" using kv by (simp add: map_of_SomeD)
  qed
  with assms(2) dd show ?thesis by (auto simp: vv_plain_def vv_normal_def)
qed

lemma parse_ops_acc:
  "parse_ops json_parse e raws acc = Inr ops \<Longrightarrow>
    \<exists>new. ops = acc @ new \<and> list_all2 (\<lambda>raw op. parseCrdtOpEnvelope json_parse e raw = Inr op) raws new"
proof (induction raws arbitrary: acc)
  case (Cons r raws)
  then obtain op where op: "parseCrdtOpEnvelope json_parse e r = Inr op"
    "parse_ops json_parse e raws (acc @ [op]) = Inr ops" by (auto split: sum.splits)
  from Cons.IH [OF op(2)] op(1) show ?case by force
qed simp

lemma parse_ops_all:
  "list_all2 (\<lambda>raw op. parseCrdtOpEnvelope json_parse e raw = Inr op) raws new \<Longrightarrow>
    parse_ops json_parse e raws acc = Inr (acc @ new)"
  by (induction raws new arbitrary: acc rule: list_all2_induct) auto

section \<open>Properties\<close>

text \<open>C30: An operation that \<open>parseCrdtOpEnvelope\<close> accepts, from an object or from JSON text, is
  well formed: its ids, clock and signature are trimmed and not empty, its sequence number and
  its time are positive counts, its parents are normalised and its payload is an object.\<close>

theorem parsed_op_valid:
  assumes "env_ok e" "parseCrdtOpEnvelope json_parse e raw = Inr op"
  shows "crdt_op_valid op"
  using assms by (rule parseCrdtOpEnvelope_valid)

definition sample_env :: env where
  "sample_env = \<lparr>e_now = Fin 1700000000000, e_uuid = Some ''4f-2a'', e_hex = ''0.9''\<rparr>"

definition sample_json :: jsval where
  "sample_json = JObj [(''kind'', JStr ''message.create''), (''conversationId'', JStr '' c1 ''),
     (''authorDeviceId'', JStr ''d1''), (''authorSeq'', JNum (Fin 2)), (''signature'', JStr ''sig''),
     (''hlc'', JStr ''h''), (''opId'', JStr ''o2''), (''parents'', JArr [JStr ''o1'', JStr ''o1 '', JNull])]"

definition sample_op :: crdt_op where
  "sample_op = \<lparr>op_opId = ''o2'', op_conversationId = ''c1'',
     op_authorDeviceId = ''d1'', op_authorEntityType = ''desktop'', op_authorSeq = Fin 2,
     op_hlc = ''h'', op_parents = [''o1''], op_kind = MESSAGE_CREATE, op_payload = JObj [],
     op_signedAt = Fin 1700000000000, op_signature = ''sig''\<rparr>"

lemma sample_env_ok: "env_ok sample_env"
  by (simp add: env_ok_def sample_env_def randomSuffix_def js_space_def)

lemma sample_json_get:
  "js_get sample_json ''kind'' = JStr ''message.create''"
  "js_get sample_json ''opId'' = JStr ''o2''"
  "js_get sample_json ''conversationId'' = JStr '' c1 ''"
  "js_get sample_json ''authorDeviceId'' = JStr ''d1''"
  "js_get sample_json ''authorEntityType'' = JUndef"
  "js_get sample_json ''authorSeq'' = JNum (Fin 2)"
  "js_get sample_json ''hlc'' = JStr ''h''"
  "js_get sample_json ''parents'' = JArr [JStr ''o1'', JStr ''o1 '', JNull]"
  "js_get sample_json ''payload'' = JUndef"
  "js_get sample_json ''signedAt'' = JUndef"
  "js_get sample_json ''signature'' = JStr ''sig''"
  by (simp_all add: sample_json_def)

lemma sample_json_parses: "parseCrdtOpEnvelope json_parse sample_env sample_json = Inr sample_op"
proof -
  have r: "parse_record json_parse ''CRDT op'' sample_json = Inr sample_json"
    by (rule parse_record_record) (simp add: sample_json_def)
  have t: "js_trim ''message.create'' = ''message.create''" "js_trim ''o2'' = ''o2''"
    "js_trim '' c1 '' = ''c1''" "js_trim ''c1'' = ''c1''" "js_trim ''d1'' = ''d1''"
    "js_trim ''desktop'' = ''desktop''" "js_trim ''h'' = ''h''" "js_trim ''sig'' = ''sig''"
    "js_trim ''o1'' = ''o1''" "js_trim ''o1 '' = ''o1''"
    by (simp_all add: js_trim_def js_space_def)
  have k: "parse_kind ''message.create'' = Some MESSAGE_CREATE"
    using parse_kind_name [of MESSAGE_CREATE] by simp
  have p: "normalizeCrdtParents (JArr [JStr ''o1'', JStr ''o1 '', JNull]) = [''o1'']"
    by (simp add: normalizeCrdtParents_def t js_uniq_def js_set_add_def)
  have q: "normalizeCrdtParents (JArr [JStr ''o1'']) = [''o1'']"
    by (simp add: normalizeCrdtParents_def t js_uniq_def js_set_add_def)
  have s: "stamp_of sample_env JUndef = Fin 1700000000000"
    by (simp add: stamp_of_def sample_env_def)
  show ?thesis
    by (simp add: parseCrdtOpEnvelope_def r sample_json_get Let_def t k p q s createCrdtOpEnvelope_def
        js_num_truthy_def sample_op_def js_uniq_texts_normal texts_normal_def js_trimmed_def js_space_def
        stamp_of_id js_uniq_texts_def js_uniq_def js_set_add_def)
qed

theorem parsed_op_valid_witness: "crdt_op_valid sample_op"
  by (rule parsed_op_valid [OF sample_env_ok, of Inl, OF sample_json_parses])

text \<open>C12: Printing an operation and parsing it again gives the operation back, whatever the clock
  and the random source are then, both from the object and from any text whose JSON value is the
  object.\<close>

theorem op_roundtrip:
  assumes "crdt_op_valid op" "json_parse txt = Inr (op_json op)"
  shows "parseCrdtOpEnvelope json_parse e (op_json op) = Inr op \<and>
    parseCrdtOpEnvelope json_parse e (JStr txt) = Inr op"
proof
  show p: "parseCrdtOpEnvelope json_parse e (op_json op) = Inr op"
    by (rule parse_op_json) (rule assms)
  have "parse_record json_parse what (JStr txt) = parse_record json_parse what (op_json op)" for what
    using assms(2) by (simp add: parse_record_def op_json_def)
  with p show "parseCrdtOpEnvelope json_parse e (JStr txt) = Inr op"
    by (simp add: parseCrdtOpEnvelope_def)
qed

lemma sample_op_valid: "crdt_op_valid sample_op"
  by (simp add: crdt_op_valid_def sample_op_def js_trimmed_def js_space_def texts_normal_def)

theorem op_roundtrip_witness:
  "parseCrdtOpEnvelope (\<lambda>s. Inr (op_json sample_op)) sample_env (JStr ''...'') = Inr sample_op"
  using op_roundtrip [OF sample_op_valid, of "\<lambda>s. Inr (op_json sample_op)" "''...''"] by simp

text \<open>A sync batch is all or nothing: when \<open>parseCrdtSyncBatch\<close> accepts an object, every raw
  operation of it parses, the operations of the batch are the parsed ones in the same order, each
  well formed, the base vector is in normal form, and the conversation id is not empty.\<close>

theorem sync_batch_all_or_nothing:
  assumes "env_ok e" "parseCrdtSyncBatch json_parse e (JObj fs) = Inr b"
  shows "list_all2 (\<lambda>raw op. parseCrdtOpEnvelope json_parse e raw = Inr op \<and> crdt_op_valid op)
      (js_array (js_get (JObj fs) ''ops'')) (sb_ops b) \<and>
    vv_normal (sb_baseVersionVector b) \<and> sb_conversationId b \<noteq> []"
proof -
  have r: "parse_record json_parse ''CRDT sync batch'' (JObj fs) = Inr (JObj fs)"
    by (rule parse_record_record) simp
  obtain ops where ops: "parse_ops json_parse e (js_array (js_get (JObj fs) ''ops'')) [] = Inr ops"
    using assms(2) by (auto simp: parseCrdtSyncBatch_def r simp del: js_get_JObj split: sum.splits)
  have b: "sb_ops b = ops" "sb_conversationId b \<noteq> []" "vv_normal (sb_baseVersionVector b)"
    using assms(2)
    by (auto simp: parseCrdtSyncBatch_def r ops createCrdtSyncBatch_def Let_def
        normalizeCrdtVersionVector_num simp del: js_get_JObj split: if_splits)
  have "list_all2 (\<lambda>raw op. parseCrdtOpEnvelope json_parse e raw = Inr op)
      (js_array (js_get (JObj fs) ''ops'')) ops"
    using parse_ops_acc [OF ops] by auto
  then have "list_all2 (\<lambda>raw op. parseCrdtOpEnvelope json_parse e raw = Inr op \<and> crdt_op_valid op)
      (js_array (js_get (JObj fs) ''ops'')) ops"
    by (rule list_all2_mono) (auto intro: parseCrdtOpEnvelope_valid [OF assms(1)])
  with b show ?thesis by simp
qed

definition sample_batch :: "(string \<times> jsval) list" where
  "sample_batch = [(''conversationId'', JStr ''c1''), (''ops'', JArr [op_json sample_op]), (''ts'', JNum (Fin 5))]"

lemma sample_batch_parses:
  "parseCrdtSyncBatch Inl sample_env (JObj sample_batch) =
     Inr \<lparr>sb_conversationId = ''c1'', sb_baseVersionVector = [], sb_ops = [sample_op],
       sb_hasMore = False, sb_ts = Fin 5\<rparr>"
proof -
  have t: "js_trim ''c1'' = ''c1''" by (simp add: js_trim_def js_space_def)
  have g: "js_get (JObj sample_batch) ''conversationId'' = JStr ''c1''"
    "js_get (JObj sample_batch) ''ops'' = JArr [op_json sample_op]"
    "js_get (JObj sample_batch) ''ts'' = JNum (Fin 5)"
    "js_get (JObj sample_batch) ''hasMore'' = JUndef"
    "js_get (JObj sample_batch) ''baseVersionVector'' = JUndef"
    by (simp_all add: sample_batch_def)
  show ?thesis
    by (simp add: parseCrdtSyncBatch_def parse_record_record g t parse_op_json [OF sample_op_valid]
        createCrdtSyncBatch_def Let_def normalizeCrdtVersionVector_def stamp_of_id del: js_get_JObj)
qed

theorem sync_batch_all_or_nothing_witness:
  "list_all2 (\<lambda>raw op. parseCrdtOpEnvelope Inl sample_env raw = Inr op \<and> crdt_op_valid op)
     (js_array (js_get (JObj sample_batch) ''ops'')) [sample_op]"
  using sync_batch_all_or_nothing [OF sample_env_ok sample_batch_parses] by simp

text \<open>Merging version vectors is the join of their pointwise order: the result is again a
  normal vector, bounds both arguments, and is below every common bound.\<close>

theorem merge_is_join:
  assumes "vv_plain l" "vv_plain r"
  shows "vv_plain (mergeCrdtVersionVectors l r) \<and> vv_le l (mergeCrdtVersionVectors l r) \<and>
    vv_le r (mergeCrdtVersionVectors l r) \<and>
    (\<forall>u. vv_le l u \<longrightarrow> vv_le r u \<longrightarrow> vv_le (mergeCrdtVersionVectors l r) u)"
proof -
  have c: "is_count (vv_read l k)" "is_count (vv_read r k)" if "k \<notin> set object_protos" for k
    using that assms by (simp_all add: vv_read_count vv_plain_normal)
  show ?thesis
    using merge_plain [OF assms] js_max_lub [OF c] by (auto simp: vv_le_def merge_read assms)
qed

lemma plain_sample: "vv_plain [(''d1'', Fin 3), (''d2'', Fin 1)]" "vv_plain [(''d2'', Fin 4)]"
  by (simp_all add: vv_plain_def vv_normal_def js_trimmed_def js_space_def object_protos_def)

theorem merge_is_join_witness:
  "vv_le [(''d2'', Fin 4)] (mergeCrdtVersionVectors [(''d1'', Fin 3), (''d2'', Fin 1)] [(''d2'', Fin 4)])"
  using merge_is_join [OF plain_sample] by blast

text \<open>\<open>diffCrdtVersionVectors local remote\<close> lists exactly the devices on which the remote is
  ahead, with the remote's number, and merging it into the local vector reads like merging the
  whole remote vector.\<close>

theorem diff_exact:
  assumes "vv_plain l" "vv_plain r"
  shows "(\<forall>k n. map_of (diffCrdtVersionVectors l r) k = Some n \<longleftrightarrow>
        map_of r k = Some n \<and> js_less (vv_read l k) n) \<and>
    (\<forall>k. k \<notin> set object_protos \<longrightarrow>
       vv_read (mergeCrdtVersionVectors l (diffCrdtVersionVectors l r)) k =
         vv_read (mergeCrdtVersionVectors l r) k)"
proof (intro conjI allI impI)
  fix k n
  show "map_of (diffCrdtVersionVectors l r) k = Some n \<longleftrightarrow> map_of r k = Some n \<and> js_less (vv_read l k) n"
    by (auto simp: diff_map_of [OF assms] split: option.splits)
next
  fix k assume k: "k \<notin> set object_protos"
  note c = vv_read_count [OF vv_plain_normal k]
  have "vv_read (diffCrdtVersionVectors l r) k =
      (if js_less (vv_read l k) (vv_read r k) then vv_read r k else Fin 0)"
    using k c [OF assms(1)]
    by (cases "map_of r k")
      (auto simp: vv_read_Some [OF vv_plain_normal [OF assms(2)]] vv_read_None diff_map_of [OF assms]
        js_less_zero_count vv_read_Some [OF vv_plain_normal [OF diff_plain [OF assms]]])
  then show "vv_read (mergeCrdtVersionVectors l (diffCrdtVersionVectors l r)) k =
      vv_read (mergeCrdtVersionVectors l r) k"
    using c [OF assms(1)] c [OF assms(2)]
    by (simp add: merge_read k assms diff_plain [OF assms])
      (auto simp: js_max_def js_less_zero_count is_count_not_NaN)
qed

theorem diff_exact_witness:
  "map_of (diffCrdtVersionVectors [(''d1'', Fin 3), (''d2'', Fin 1)] [(''d2'', Fin 4)]) ''d2'' = Some (Fin 4)"
  using diff_exact [OF plain_sample] by (simp add: vv_read_def js_or_zero_def js_num_truthy_def)

text \<open>A device whose id is a property name of \<open>Object.prototype\<close> breaks the vectors: merging
  its first entry gives NaN instead of the number, and the difference never lists it, so its
  operations are never requested.\<close>

theorem prototype_named_device:
  assumes "k \<in> set object_protos" "is_count n"
  shows "mergeCrdtVersionVectors [] [(k, n)] = (if k = ''__proto__'' then [] else [(k, NaN)]) \<and>
    diffCrdtVersionVectors [] [(k, n)] = []"
proof -
  have v: "vv_normal [(k, n)]"
    using assms by (auto simp: vv_normal_def object_protos_def js_trimmed_def js_space_def)
  from normalizeCrdtVersionVector_id [OF v]
  have e: "normalizeCrdtVersionVector (vv_val [(k, n)]) = [(k, n)]"
    "normalizeCrdtVersionVector (vv_val []) = []" by (simp_all add: normalizeCrdtVersionVector_def)
  have "mergeCrdtVersionVectors [] [(k, n)] = (if k = ''__proto__'' then [] else [(k, NaN)])"
    using assms by (simp only: mergeCrdtVersionVectors_def e) (simp add: vv_read_def vv_write_def)
  moreover have "diffCrdtVersionVectors [] [(k, n)] = []"
    using assms by (simp only: diffCrdtVersionVectors_def e) (simp add: vv_read_def)
  ultimately show ?thesis ..
qed

theorem prototype_named_device_witness:
  "diffCrdtVersionVectors [] [(''constructor'', Fin 5)] = []"
  using prototype_named_device [of "''constructor''" "Fin 5"] by (simp add: object_protos_def)

end
