(* ===== verification/CausalOrder.thy ===== *)
theory CausalOrder
  imports JsCollections
begin

text \<open>
  The graph algorithm that \<open>analyzeCrdtOps\<close> (packages/protocol/src/crdt-graph.ts) and
  \<open>analyzeOpenClawPairChatGraph\<close> (packages/message-sdk/src/openclaw-chat.ts) share: collect
  the known parents, children and in-degrees of the nodes, then release nodes whose parents
  have all been emitted, always the least one of a comparator first, and append what a cycle
  keeps back. The nodes are accessed through \<open>nid\<close> (their id) and \<open>par\<close> (their normalised
  parent ids), the comparator is a parameter.

  The abstract specification is \<open>greedy_from\<close>: every emitted node is a least available one,
  and nothing is available at the end. It mentions the set of the nodes only, so two runs
  over the same set agree, whatever order the nodes arrive in.
\<close>

section \<open>The graph\<close>

record graph =
  g_children :: "(string \<times> string list) list"
  g_indeg :: "(string \<times> nat) list"
  g_missing :: "string list"

definition empty_graph :: graph where
  "empty_graph = \<lparr>g_children = [], g_indeg = [], g_missing = []\<rparr>"

text \<open>\<open>m.get(k) || default\<close>.\<close>

definition amap_get :: "'v \<Rightarrow> ('k \<times> 'v) list \<Rightarrow> 'k \<Rightarrow> 'v" where
  "amap_get d m k = (case map_of m k of Some v \<Rightarrow> v | None \<Rightarrow> d)"

definition known_parents :: "string set \<Rightarrow> ('a \<Rightarrow> string list) \<Rightarrow> 'a \<Rightarrow> string list" where
  "known_parents known par x = filter (\<lambda>p. p \<in> known) (par x)"

definition add_child ::
  "string \<Rightarrow> string \<Rightarrow> (string \<times> string list) list \<Rightarrow> (string \<times> string list) list" where
  "add_child c p ch = AList.update p (js_set_add c (amap_get [] ch p)) ch"

definition graph_add ::
  "string set \<Rightarrow> ('a \<Rightarrow> string) \<Rightarrow> ('a \<Rightarrow> string list) \<Rightarrow> 'a \<Rightarrow> graph \<Rightarrow> graph" where
  "graph_add known nid par x g =
     (let kp = known_parents known par x
      in \<lparr>g_children = fold (add_child (nid x)) kp (g_children g),
         g_indeg = AList.update (nid x) (length kp) (g_indeg g),
         g_missing = js_set_add_all (filter (\<lambda>p. p \<notin> known) (par x)) (g_missing g)\<rparr>)"

definition build_graph :: "('a \<Rightarrow> string) \<Rightarrow> ('a \<Rightarrow> string list) \<Rightarrow> 'a list \<Rightarrow> graph" where
  "build_graph nid par xs = fold (graph_add (nid ` set xs) nid par) xs empty_graph"

text \<open>
  Emitting a node: the in-degree of each child drops (never below 0), and a child that
  reaches 0 is looked up and pushed.
\<close>

fun release ::
  "(string \<Rightarrow> 'a option) \<Rightarrow> string list \<Rightarrow> (string \<times> nat) list \<Rightarrow> 'a list \<Rightarrow>
    (string \<times> nat) list \<times> 'a list" where
  "release look [] deg ready = (deg, ready)"
| "release look (c # cs) deg ready =
     (let d = amap_get 0 deg c - 1;
          deg' = AList.update c d deg
      in release look cs deg'
           (if d = 0 then (case look c of Some x \<Rightarrow> ready @ [x] | None \<Rightarrow> ready) else ready))"

text \<open>
  The \<open>while (ready.length > 0)\<close> loop, with fuel: \<open>None\<close> is a loop that has not stopped
  after that many rounds.
\<close>

fun kahn_loop ::
  "('a \<Rightarrow> 'a \<Rightarrow> int) \<Rightarrow> ('a \<Rightarrow> string) \<Rightarrow> (string \<Rightarrow> 'a option) \<Rightarrow> (string \<times> string list) list \<Rightarrow>
    nat \<Rightarrow> 'a list \<Rightarrow> (string \<times> nat) list \<Rightarrow> 'a list \<Rightarrow> 'a list option" where
  "kahn_loop cmp nid look ch n [] deg acc = Some acc"
| "kahn_loop cmp nid look ch 0 (x # ready) deg acc = None"
| "kahn_loop cmp nid look ch (Suc n) (x # ready) deg acc =
     (case release look (amap_get [] ch (nid x)) deg ready of
        (deg', ready') \<Rightarrow> kahn_loop cmp nid look ch n (js_sort cmp ready') deg' (acc @ [x]))"

definition causal_order ::
  "('a \<Rightarrow> 'a \<Rightarrow> int) \<Rightarrow> ('a \<Rightarrow> string) \<Rightarrow> ('a \<Rightarrow> string list) \<Rightarrow> (string \<Rightarrow> 'a option) \<Rightarrow>
    'a list \<Rightarrow> 'a list option" where
  "causal_order cmp nid par look xs =
     (let g = build_graph nid par xs;
          ready = js_sort cmp (filter (\<lambda>x. amap_get 0 (g_indeg g) (nid x) = 0) xs)
      in case kahn_loop cmp nid look (g_children g) (length xs) ready (g_indeg g) [] of
           None \<Rightarrow> None
         | Some ordered \<Rightarrow>
             Some (ordered @ js_sort cmp (filter (\<lambda>x. nid x \<notin> nid ` set ordered) xs)))"

text \<open>The ids some node has as a known parent, and the ordered ids without them.\<close>

definition referenced_ids :: "('a \<Rightarrow> string) \<Rightarrow> ('a \<Rightarrow> string list) \<Rightarrow> 'a list \<Rightarrow> string set" where
  "referenced_ids nid par xs = (\<Union>x \<in> set xs. set (known_parents (nid ` set xs) par x))"

definition leaf_ids :: "('a \<Rightarrow> string) \<Rightarrow> ('a \<Rightarrow> string list) \<Rightarrow> 'a list \<Rightarrow> 'a list \<Rightarrow> string list" where
  "leaf_ids nid par xs ordered =
     filter (\<lambda>i. i \<notin> referenced_ids nid par xs) (map nid ordered)"

section \<open>The abstract specification\<close>

definition available :: "('a \<Rightarrow> string) \<Rightarrow> ('a \<Rightarrow> string list) \<Rightarrow> 'a set \<Rightarrow> 'a list \<Rightarrow> 'a set" where
  "available nid par S acc =
     {x \<in> S. x \<notin> set acc \<and> set (known_parents (nid ` S) par x) \<subseteq> nid ` set acc}"

fun greedy_from ::
  "('a \<Rightarrow> 'a \<Rightarrow> int) \<Rightarrow> ('a \<Rightarrow> string) \<Rightarrow> ('a \<Rightarrow> string list) \<Rightarrow> 'a set \<Rightarrow> 'a list \<Rightarrow> 'a list \<Rightarrow> bool" where
  "greedy_from cmp nid par S acc [] = (available nid par S acc = {})"
| "greedy_from cmp nid par S acc (y # ys) =
     (y \<in> available nid par S acc \<and> (\<forall>z \<in> available nid par S acc. cmp y z \<le> 0) \<and>
      greedy_from cmp nid par S (acc @ [y]) ys)"

text \<open>Causality: each node comes after all of its known parents.\<close>

definition causally_ordered :: "('a \<Rightarrow> string) \<Rightarrow> ('a \<Rightarrow> string list) \<Rightarrow> 'a set \<Rightarrow> 'a list \<Rightarrow> bool" where
  "causally_ordered nid par S ys =
     (\<forall>us y vs. ys = us @ y # vs \<longrightarrow> set (known_parents (nid ` S) par y) \<subseteq> nid ` set us)"

definition parent_rel :: "('a \<Rightarrow> string) \<Rightarrow> ('a \<Rightarrow> string list) \<Rightarrow> 'a set \<Rightarrow> ('a \<times> 'a) set" where
  "parent_rel nid par S = {(p, c). p \<in> S \<and> c \<in> S \<and> nid p \<in> set (par c)}"

lemma greedy_causal:
  "greedy_from cmp nid par S acc ys \<Longrightarrow> ys = us @ y # vs \<Longrightarrow>
    set (known_parents (nid ` S) par y) \<subseteq> nid ` (set acc \<union> set us)"
proof (induction ys arbitrary: acc us)
  case (Cons x ys)
  show ?case
  proof (cases us)
    case Nil
    with Cons show ?thesis by (auto simp: available_def)
  next
    case (Cons u us')
    with Cons.prems have "ys = us' @ y # vs" "greedy_from cmp nid par S (acc @ [x]) ys" by auto
    from Cons.IH [OF this(2,1)] show ?thesis using Cons Cons.prems(2) by auto
  qed
qed simp

lemma greedy_causally_ordered:
  "greedy_from cmp nid par S [] ys \<Longrightarrow> causally_ordered nid par S ys"
  unfolding causally_ordered_def
proof (intro allI impI)
  fix us y vs assume "greedy_from cmp nid par S [] ys" "ys = us @ y # vs"
  from greedy_causal [OF this] show "set (known_parents (nid ` S) par y) \<subseteq> nid ` set us" by simp
qed

lemma greedy_subset: "greedy_from cmp nid par S acc ys \<Longrightarrow> set ys \<subseteq> S"
  by (induction ys arbitrary: acc) (auto simp: available_def)

lemma greedy_distinct:
  "greedy_from cmp nid par S acc ys \<Longrightarrow> distinct acc \<Longrightarrow> distinct (acc @ ys)"
proof (induction ys arbitrary: acc)
  case (Cons y ys)
  then have "distinct ((acc @ [y]) @ ys)"
    by (intro Cons.IH) (auto simp: available_def)
  then show ?case by simp
qed simp

lemma greedy_final: "greedy_from cmp nid par S acc ys \<Longrightarrow> available nid par S (acc @ ys) = {}"
  by (induction ys arbitrary: acc) fastforce+

lemma greedy_unique:
  assumes t: "total_comparator_on S cmp"
  shows "greedy_from cmp nid par S acc ys \<Longrightarrow> greedy_from cmp nid par S acc zs \<Longrightarrow> ys = zs"
proof (induction ys arbitrary: acc zs)
  case Nil
  then show ?case by (cases zs) auto
next
  case (Cons y ys)
  then obtain z zs' where zs: "zs = z # zs'" by (cases zs) auto
  have av: "y \<in> available nid par S acc" "z \<in> available nid par S acc" using Cons.prems zs by auto
  then have "cmp y z \<le> 0" "cmp z y \<le> 0" using Cons.prems zs by auto
  moreover have S: "y \<in> S" "z \<in> S" using av by (auto simp: available_def)
  ultimately have "cmp y z = 0"
    using comparator_on.cmp_zero_flip [OF total_comparator_on.axioms(1) [OF t]] by blast
  then have "y = z" using total_comparator_on.cmp_total [OF t] S by blast
  with Cons zs show ?case by auto
qed

text \<open>Without a cycle nothing is left behind.\<close>

lemma greedy_complete:
  assumes g: "greedy_from cmp nid par S [] ys" and fin: "finite S"
    and ac: "acyclic (parent_rel nid par S)"
  shows "set ys = S"
proof (rule ccontr)
  assume "set ys \<noteq> S"
  with greedy_subset [OF g] obtain x where x: "x \<in> S - set ys" by blast
  have "finite (parent_rel nid par S)"
    by (rule finite_subset [of _ "S \<times> S"]) (use fin in \<open>auto simp: parent_rel_def\<close>)
  then have "wf (parent_rel nid par S)" using ac by (rule finite_acyclic_wf)
  from this x obtain z where z: "z \<in> S - set ys"
    and min: "\<And>y. (y, z) \<in> parent_rel nid par S \<Longrightarrow> y \<notin> S - set ys"
    by (rule wfE_min) blast
  have "set (known_parents (nid ` S) par z) \<subseteq> nid ` set ys"
    using min z by (auto simp: known_parents_def parent_rel_def)
  with z have "z \<in> available nid par S ys" by (auto simp: available_def)
  with greedy_final [OF g] show False by simp
qed

section \<open>Lemmas on the association maps\<close>

lemma amap_get_update: "amap_get d (AList.update k v m) j = (if j = k then v else amap_get d m j)"
  by (simp add: amap_get_def update_conv)

lemma amap_get_Nil [simp]: "amap_get d [] k = d"
  by (simp add: amap_get_def)

lemma add_child_get:
  "amap_get [] (add_child c p ch) q = (if q = p then js_set_add c (amap_get [] ch p) else amap_get [] ch q)"
  by (simp add: add_child_def amap_get_update)

lemma fold_add_child_get:
  "amap_get [] (fold (add_child c) ps ch) q =
    (if q \<in> set ps then js_set_add c (amap_get [] ch q) else amap_get [] ch q)"
  by (induction ps arbitrary: ch) (auto simp: add_child_get js_set_add_def)

lemma release_spec:
  "distinct cs \<Longrightarrow> release look cs deg ready = (deg', ready') \<Longrightarrow>
    (\<forall>k. amap_get 0 deg' k = (if k \<in> set cs then amap_get 0 deg k - 1 else amap_get 0 deg k)) \<and>
    ready' = ready @ List.map_filter look (filter (\<lambda>c. amap_get 0 deg c - 1 = 0) cs)"
proof (induction cs arbitrary: deg ready)
  case Nil
  then show ?case by (simp add: map_filter_simps)
next
  case (Cons c cs)
  let ?d = "AList.update c (amap_get 0 deg c - 1) deg"
  let ?r = "if amap_get 0 deg c - 1 = 0
    then (case look c of Some x \<Rightarrow> ready @ [x] | None \<Rightarrow> ready) else ready"
  from Cons.prems have "release look cs ?d ?r = (deg', ready')" "distinct cs" "c \<notin> set cs"
    by (auto simp: Let_def)
  from Cons.IH [OF this(2,1)]
  have IH: "\<forall>k. amap_get 0 deg' k = (if k \<in> set cs then amap_get 0 ?d k - 1 else amap_get 0 ?d k)"
    "ready' = ?r @ List.map_filter look (filter (\<lambda>c. amap_get 0 ?d c - 1 = 0) cs)"
    by auto
  have "filter (\<lambda>c. amap_get 0 ?d c - 1 = 0) cs = filter (\<lambda>c. amap_get 0 deg c - 1 = 0) cs"
    by (rule filter_cong) (use \<open>c \<notin> set cs\<close> in \<open>auto simp: amap_get_update\<close>)
  with IH \<open>c \<notin> set cs\<close> show ?case
    by (auto simp: amap_get_update map_filter_simps split: option.splits)
qed

section \<open>The graph that is built\<close>

lemma js_set_add_all_append: "js_set_add_all (xs @ ys) zs = js_set_add_all ys (js_set_add_all xs zs)"
  by (simp add: js_set_add_all_def)

lemma fold_graph_add_children:
  "amap_get [] (g_children (fold (graph_add known nid par) ys g)) q =
     js_set_add_all (map nid (filter (\<lambda>x. q \<in> set (known_parents known par x)) ys))
       (amap_get [] (g_children g) q)"
  by (induction ys arbitrary: g) (auto simp: graph_add_def Let_def fold_add_child_get)

lemma fold_graph_add_indeg_other:
  "k \<notin> nid ` set ys \<Longrightarrow>
    amap_get 0 (g_indeg (fold (graph_add known nid par) ys g)) k = amap_get 0 (g_indeg g) k"
  by (induction ys arbitrary: g) (auto simp: graph_add_def Let_def amap_get_update)

lemma fold_graph_add_indeg:
  "distinct (map nid ys) \<Longrightarrow> x \<in> set ys \<Longrightarrow>
    amap_get 0 (g_indeg (fold (graph_add known nid par) ys g)) (nid x) =
      length (known_parents known par x)"
  by (induction ys arbitrary: g)
    (auto simp: fold_graph_add_indeg_other, simp add: graph_add_def Let_def amap_get_update)

lemma fold_graph_add_missing:
  "g_missing (fold (graph_add known nid par) ys g) =
     js_set_add_all (concat (map (\<lambda>x. filter (\<lambda>p. p \<notin> known) (par x)) ys)) (g_missing g)"
  by (induction ys arbitrary: g) (auto simp: graph_add_def Let_def js_set_add_all_append)

lemma build_graph_children:
  "amap_get [] (g_children (build_graph nid par xs)) q =
     js_uniq (map nid (filter (\<lambda>x. q \<in> set (known_parents (nid ` set xs) par x)) xs))"
  by (simp add: build_graph_def fold_graph_add_children empty_graph_def js_uniq_def)

lemma build_graph_missing:
  "set (g_missing (build_graph nid par xs)) = (\<Union>x \<in> set xs. set (par x)) - nid ` set xs"
  by (auto simp: build_graph_def fold_graph_add_missing empty_graph_def)

lemma build_graph_missing_distinct [simp]: "distinct (g_missing (build_graph nid par xs))"
  by (simp add: build_graph_def fold_graph_add_missing empty_graph_def)

lemma length_filter_remove:
  assumes "distinct ks" "k \<in> set ks" "P k"
  shows "length (filter (\<lambda>p. P p \<and> p \<noteq> k) ks) = length (filter P ks) - 1"
proof -
  have "filter (\<lambda>p. P p \<and> p \<noteq> k) ks = remove1 k (filter P ks)"
    using assms by (simp add: distinct_remove1_removeAll removeAll_filter_not_eq)
      (metis (mono_tags, lifting) filter_cong)
  moreover have "k \<in> set (filter P ks)" using assms by simp
  ultimately show ?thesis by (simp add: length_remove1)
qed

section \<open>The loop\<close>

lemma kahn_loop_extends:
  "kahn_loop cmp nid look ch n ready deg acc = Some r \<Longrightarrow> \<exists>zs. r = acc @ zs"
proof (induction cmp nid look ch n ready deg acc rule: kahn_loop.induct)
  case (3 cmp nid look ch n x ready deg acc)
  then show ?case by (force split: prod.splits)
qed auto

text \<open>
  The contract between the two analysers and the loop: ids are unique, the parents of a node
  are listed once, and looking up an id finds its node.
\<close>

locale causal_graph =
  fixes nid :: "'a \<Rightarrow> string" and par :: "'a \<Rightarrow> string list"
    and look :: "string \<Rightarrow> 'a option" and xs :: "'a list"
  assumes distinct_ids: "distinct (map nid xs)"
    and distinct_parents: "x \<in> set xs \<Longrightarrow> distinct (par x)"
    and look_finds: "x \<in> set xs \<Longrightarrow> look (nid x) = Some x"
begin

lemma nid_inj: "inj_on nid (set xs)"
  using distinct_ids by (simp add: distinct_map)

lemma xs_distinct: "distinct xs"
  using distinct_ids by (simp add: distinct_map)

lemma kp_distinct: "x \<in> set xs \<Longrightarrow> distinct (known_parents (nid ` set xs) par x)"
  by (simp add: known_parents_def distinct_parents)

lemma children_set:
  "set (amap_get [] (g_children (build_graph nid par xs)) q) =
     {nid x | x. x \<in> set xs \<and> q \<in> set (known_parents (nid ` set xs) par x)}"
  by (auto simp: build_graph_children)

text \<open>What holds at each test of the loop.\<close>

definition loop_inv where
  "loop_inv deg ready acc =
     (distinct (acc @ ready) \<and> set (acc @ ready) \<subseteq> set xs \<and>
      (\<forall>x \<in> set xs. amap_get 0 deg (nid x) =
         length (filter (\<lambda>p. p \<notin> nid ` set acc) (known_parents (nid ` set xs) par x))) \<and>
      (\<forall>x \<in> set acc. set (known_parents (nid ` set xs) par x) \<subseteq> nid ` set acc) \<and>
      set ready = available nid par (set xs) acc)"

lemma deg_zero_iff:
  "loop_inv deg ready acc \<Longrightarrow> x \<in> set xs \<Longrightarrow>
    amap_get 0 deg (nid x) = 0 \<longleftrightarrow> set (known_parents (nid ` set xs) par x) \<subseteq> nid ` set acc"
  by (auto simp: loop_inv_def filter_empty_conv)

lemma loop_inv_init:
  "loop_inv (g_indeg (build_graph nid par xs))
    (filter (\<lambda>x. amap_get 0 (g_indeg (build_graph nid par xs)) (nid x) = 0) xs) []"
  using xs_distinct
  by (auto simp: loop_inv_def build_graph_def fold_graph_add_indeg [OF distinct_ids] available_def)

lemma loop_inv_sort: "loop_inv deg (js_sort cmp ready) acc = loop_inv deg ready acc"
  by (simp add: loop_inv_def)

lemma degree_step:
  assumes x: "x \<in> set xs" "x \<notin> set acc" "set acc \<subseteq> set xs" and y: "y \<in> set xs"
  shows "length (filter (\<lambda>p. p \<notin> nid ` set (acc @ [x])) (known_parents (nid ` set xs) par y)) =
    (if nid x \<in> set (known_parents (nid ` set xs) par y)
     then length (filter (\<lambda>p. p \<notin> nid ` set acc) (known_parents (nid ` set xs) par y)) - 1
     else length (filter (\<lambda>p. p \<notin> nid ` set acc) (known_parents (nid ` set xs) par y)))"
proof -
  let ?K = "known_parents (nid ` set xs) par y"
  have nx: "nid x \<notin> nid ` set acc" using x nid_inj by (auto dest: inj_onD)
  have eq: "filter (\<lambda>p. p \<notin> nid ` set (acc @ [x])) ?K =
    filter (\<lambda>p. p \<notin> nid ` set acc \<and> p \<noteq> nid x) ?K"
    by (rule filter_cong) auto
  show ?thesis
  proof (cases "nid x \<in> set ?K")
    case True
    then show ?thesis
      using length_filter_remove [where P = "\<lambda>p. p \<notin> nid ` set acc", OF kp_distinct [OF y] True nx] eq
      by simp
  next
    case False
    then have "filter (\<lambda>p. p \<notin> nid ` set acc \<and> p \<noteq> nid x) ?K = filter (\<lambda>p. p \<notin> nid ` set acc) ?K"
      by (intro filter_cong) auto
    with False eq show ?thesis by simp
  qed
qed

lemma released_set:
  assumes "set cs \<subseteq> nid ` set xs"
  shows "set (List.map_filter look (filter P cs)) = {y \<in> set xs. nid y \<in> set cs \<and> P (nid y)}"
  using assms by (induction cs) (auto simp: map_filter_simps look_finds dest: inj_onD [OF nid_inj])

lemma released_distinct:
  assumes "set cs \<subseteq> nid ` set xs" "distinct cs"
  shows "distinct (List.map_filter look cs)"
proof -
  have "map nid (List.map_filter look cs) = cs"
    using assms(1) by (induction cs) (auto simp: map_filter_simps look_finds)
  with assms(2) show ?thesis by (metis distinct_map)
qed

lemma loop_inv_step:
  assumes inv: "loop_inv deg (x # ready) acc"
    and rel: "release look (amap_get [] (g_children (build_graph nid par xs)) (nid x)) deg ready
      = (deg', ready')"
  shows "loop_inv deg' ready' (acc @ [x])"
proof -
  let ?K = "known_parents (nid ` set xs) par"
  let ?cs = "amap_get [] (g_children (build_graph nid par xs)) (nid x)"
  let ?new = "List.map_filter look (filter (\<lambda>c. amap_get 0 deg c - 1 = 0) ?cs)"
  have cs: "distinct ?cs" "set ?cs \<subseteq> nid ` set xs" by (auto simp: build_graph_children)
  have xav: "x \<in> available nid par (set xs) acc"
    and x: "x \<in> set xs" "x \<notin> set acc" and acc: "set acc \<subseteq> set xs" "distinct acc"
    and rd: "distinct ready" "x \<notin> set ready" "set ready \<inter> set acc = {}"
    and rset: "insert x (set ready) = available nid par (set xs) acc"
    using inv by (auto simp: loop_inv_def)
  have nx: "nid x \<notin> nid ` set acc" using x acc nid_inj by (auto dest: inj_onD)
  have inC: "nid y \<in> set ?cs \<longleftrightarrow> nid x \<in> set (?K y)" if "y \<in> set xs" for y
    using that nid_inj by (auto simp: children_set dest: inj_onD)
  have deg': "amap_get 0 deg' k = (if k \<in> set ?cs then amap_get 0 deg k - 1 else amap_get 0 deg k)" for k
    using release_spec [OF cs(1) rel] by blast
  have ready': "ready' = ready @ ?new"
    using release_spec [OF cs(1) rel] by blast
  have pos: "0 < amap_get 0 deg (nid y)" if "y \<in> set xs" "nid x \<in> set (?K y)" for y
    using that nx deg_zero_iff [OF inv that(1)] by auto
  have degs: "amap_get 0 deg' (nid y) =
      length (filter (\<lambda>p. p \<notin> nid ` set (acc @ [x])) (?K y))" if y: "y \<in> set xs" for y
    using degree_step [OF x acc(1) y] inv y inC [OF y] deg' [of "nid y"]
    by (simp add: loop_inv_def)
  then have zero: "amap_get 0 deg' (nid y) = 0 \<longleftrightarrow> set (?K y) \<subseteq> nid ` set (acc @ [x])"
    if "y \<in> set xs" for y
    using that by (auto simp: filter_empty_conv)
  have new: "set ?new = {y \<in> set xs. nid x \<in> set (?K y) \<and> amap_get 0 deg' (nid y) = 0}"
    using released_set [OF cs(2)] inC deg' by auto
  have disj: "y \<notin> set acc \<and> y \<noteq> x \<and> y \<notin> set ready" if "y \<in> set ?new" for y
  proof -
    have y: "y \<in> set xs" "nid x \<in> set (?K y)" using that new by auto
    then have "\<not> set (?K y) \<subseteq> nid ` set acc" using nx by auto
    then show ?thesis using inv rset by (auto simp: loop_inv_def available_def)
  qed
  have "set ready' = available nid par (set xs) (acc @ [x])"
  proof (intro equalityI subsetI)
    fix y assume "y \<in> set ready'"
    then consider "y \<in> set ready" | "y \<in> set ?new" using ready' by auto
    then show "y \<in> available nid par (set xs) (acc @ [x])"
    proof cases
      case 1
      then have "y \<in> available nid par (set xs) acc" "y \<noteq> x" using rset rd by auto
      then show ?thesis by (auto simp: available_def)
    next
      case 2
      then show ?thesis using disj [OF 2] new zero by (auto simp: available_def)
    qed
  next
    fix y assume y: "y \<in> available nid par (set xs) (acc @ [x])"
    then have "y \<in> set xs" "amap_get 0 deg' (nid y) = 0" using zero by (auto simp: available_def)
    show "y \<in> set ready'"
    proof (cases "nid x \<in> set (?K y)")
      case True
      then show ?thesis using new ready' \<open>y \<in> set xs\<close> \<open>amap_get 0 deg' (nid y) = 0\<close> by auto
    next
      case False
      then have "y \<in> insert x (set ready)" "y \<noteq> x" using y rset by (auto simp: available_def)
      then show ?thesis using ready' by auto
    qed
  qed
  moreover have "distinct ((acc @ [x]) @ ready')"
  proof -
    have "distinct ?new" by (rule released_distinct) (use cs in auto)
    then show ?thesis using acc x rd disj ready' by auto
  qed
  moreover have "set ((acc @ [x]) @ ready') \<subseteq> set xs"
    using acc x rset new ready' by (auto simp: available_def)
  moreover have "\<forall>y \<in> set (acc @ [x]). set (?K y) \<subseteq> nid ` set (acc @ [x])"
    using inv xav by (auto simp: loop_inv_def available_def)
  ultimately show ?thesis using degs by (simp add: loop_inv_def)
qed

text \<open>
  The loop stops within one round per node that is left, and what it emits is greedy.
\<close>

lemma kahn_loop_total:
  assumes "loop_inv deg ready acc" "length xs \<le> n + length acc"
  shows "\<exists>ys. kahn_loop cmp nid look (g_children (build_graph nid par xs)) n ready deg acc
    = Some (acc @ ys)"
  using assms
proof (induction n arbitrary: ready deg acc)
  case 0
  have "length (acc @ ready) \<le> length xs"
    using "0.prems" xs_distinct
    by (metis card_mono distinct_card finite_set loop_inv_def)
  then have "length ready = 0" using "0.prems"(2) unfolding length_append by linarith
  then show ?case by simp
next
  case (Suc n)
  show ?case
  proof (cases ready)
    case (Cons x rest)
    obtain deg' ready' where rel:
      "release look (amap_get [] (g_children (build_graph nid par xs)) (nid x)) deg rest = (deg', ready')"
      by force
    have "loop_inv deg' (js_sort cmp ready') (acc @ [x])"
      using loop_inv_step [OF _ rel] Suc.prems Cons by (simp add: loop_inv_sort)
    from Suc.IH [OF this] Suc.prems rel Cons show ?thesis by auto
  qed simp
qed

lemma kahn_loop_greedy:
  assumes "loop_inv deg ready acc" "ok ready"
    and ok_sort: "\<And>rs. set rs \<subseteq> set xs \<Longrightarrow> ok (js_sort cmp rs)"
    and ok_hd: "\<And>y ys. set (y # ys) \<subseteq> set xs \<Longrightarrow> ok (y # ys) \<Longrightarrow> \<forall>z \<in> set (y # ys). le y z \<le> 0"
    and "kahn_loop cmp nid look (g_children (build_graph nid par xs)) n ready deg acc = Some (acc @ ys)"
  shows "greedy_from le nid par (set xs) acc ys"
  using assms(1,2,5)
proof (induction n arbitrary: ready deg acc ys)
  case 0
  then show ?case by (cases ready) (auto simp: loop_inv_def)
next
  case (Suc n)
  show ?case
  proof (cases ready)
    case Nil
    with Suc.prems show ?thesis by (auto simp: loop_inv_def)
  next
    case (Cons x rest)
    let ?ch = "g_children (build_graph nid par xs)"
    obtain deg' ready' where rel: "release look (amap_get [] ?ch (nid x)) deg rest = (deg', ready')"
      by force
    have step: "loop_inv deg' (js_sort cmp ready') (acc @ [x])"
      using loop_inv_step [OF _ rel] Suc.prems Cons by (simp add: loop_inv_sort)
    then have "set ready' \<subseteq> set xs" by (auto simp: loop_inv_def)
    then have srt: "ok (js_sort cmp ready')" by (rule ok_sort)
    have run: "kahn_loop cmp nid look ?ch n (js_sort cmp ready') deg' (acc @ [x]) = Some (acc @ ys)"
      using Suc.prems(3) rel Cons by simp
    then obtain zs where zs: "ys = x # zs" using kahn_loop_extends by fastforce
    have "greedy_from le nid par (set xs) (acc @ [x]) zs"
      by (rule Suc.IH [OF step srt]) (use run zs in simp)
    moreover have rset: "set (x # rest) = available nid par (set xs) acc" "set (x # rest) \<subseteq> set xs"
      using Suc.prems(1) Cons by (auto simp: loop_inv_def)
    moreover have "\<forall>z \<in> set (x # rest). le x z \<le> 0"
      using ok_hd [OF rset(2)] Suc.prems(2) Cons by simp
    ultimately show ?thesis using zs by auto
  qed
qed

lemma causal_order_unfold:
  obtains ys where "causal_order cmp nid par look xs =
      Some (ys @ js_sort cmp (filter (\<lambda>x. nid x \<notin> nid ` set ys) xs))"
    "kahn_loop cmp nid look (g_children (build_graph nid par xs)) (length xs)
      (js_sort cmp (filter (\<lambda>x. amap_get 0 (g_indeg (build_graph nid par xs)) (nid x) = 0) xs))
      (g_indeg (build_graph nid par xs)) [] = Some ([] @ ys)"
    "greedy_from (\<lambda>_ _. 0) nid par (set xs) [] ys"
proof -
  let ?g = "build_graph nid par xs"
  let ?ready = "js_sort cmp (filter (\<lambda>x. amap_get 0 (g_indeg ?g) (nid x) = 0) xs)"
  have inv: "loop_inv (g_indeg ?g) ?ready []" by (simp add: loop_inv_sort loop_inv_init)
  then obtain ys where run: "kahn_loop cmp nid look (g_children ?g) (length xs) ?ready (g_indeg ?g) []
      = Some ([] @ ys)"
    using kahn_loop_total [OF inv, of "length xs"] by auto
  have "greedy_from (\<lambda>_ _. 0) nid par (set xs) [] ys"
    by (rule kahn_loop_greedy [where ok = "\<lambda>_. True", OF inv _ _ _ run]) auto
  with run show thesis by (intro that [of ys]) (simp_all add: causal_order_def)
qed

lemma causal_order_total: "\<exists>r. causal_order cmp nid par look xs = Some r"
  by (metis causal_order_unfold)

lemma causal_order_split:
  assumes "causal_order cmp nid par look xs = Some r"
  obtains ys where "r = ys @ js_sort cmp (filter (\<lambda>x. nid x \<notin> nid ` set ys) xs)"
    "greedy_from (\<lambda>_ _. 0) nid par (set xs) [] ys"
    "comparator_on (set xs) cmp \<Longrightarrow> greedy_from cmp nid par (set xs) [] ys"
proof -
  obtain ys where co: "causal_order cmp nid par look xs =
      Some (ys @ js_sort cmp (filter (\<lambda>x. nid x \<notin> nid ` set ys) xs))"
    and run: "kahn_loop cmp nid look (g_children (build_graph nid par xs)) (length xs)
      (js_sort cmp (filter (\<lambda>x. amap_get 0 (g_indeg (build_graph nid par xs)) (nid x) = 0) xs))
      (g_indeg (build_graph nid par xs)) [] = Some ([] @ ys)"
    and topo: "greedy_from (\<lambda>_ _. 0) nid par (set xs) [] ys"
    by (rule causal_order_unfold)
  have "greedy_from cmp nid par (set xs) [] ys" if c: "comparator_on (set xs) cmp"
  proof (rule kahn_loop_greedy [where ok = "cmp_sorted cmp", OF _ _ _ _ run])
    show "loop_inv (g_indeg (build_graph nid par xs))
      (js_sort cmp (filter (\<lambda>x. amap_get 0 (g_indeg (build_graph nid par xs)) (nid x) = 0) xs)) []"
      by (simp add: loop_inv_sort loop_inv_init)
  next
    fix y ys assume "set (y # ys) \<subseteq> set xs" "cmp_sorted cmp (y # ys)"
    then show "\<forall>z \<in> set (y # ys). cmp y z \<le> 0"
      using comparator_on.cmp_self [OF c, of y] by auto
  qed (auto intro!: comparator_on.sorted_js_sort [OF c])
  with co topo assms show thesis by (intro that [of ys]) auto
qed

lemma causal_order_mset:
  assumes "causal_order cmp nid par look xs = Some r"
  shows "mset r = mset xs"
proof -
  from causal_order_split [OF assms] obtain ys where
    r: "r = ys @ js_sort cmp (filter (\<lambda>x. nid x \<notin> nid ` set ys) xs)"
    and g: "greedy_from (\<lambda>_ _. 0) nid par (set xs) [] ys" by blast
  have ys: "distinct ys" "set ys \<subseteq> set xs"
    using greedy_distinct [OF g] greedy_subset [OF g] by auto
  have "filter (\<lambda>x. nid x \<notin> nid ` set ys) xs = filter (\<lambda>x. x \<notin> set ys) xs"
    by (rule filter_cong) (use ys nid_inj in \<open>auto dest: inj_onD\<close>)
  moreover have "mset ys = mset (filter (\<lambda>x. x \<in> set ys) xs)"
    by (rule set_eq_iff_mset_eq_distinct [THEN iffD1]) (use ys xs_distinct in auto)
  ultimately have "mset r = filter_mset (\<lambda>x. x \<in> set ys) (mset xs) + filter_mset (\<lambda>x. x \<notin> set ys) (mset xs)"
    using r by simp
  then show ?thesis by (simp flip: multiset_partition)
qed

lemma causal_order_causal:
  assumes "causal_order cmp nid par look xs = Some r" "acyclic (parent_rel nid par (set xs))"
  shows "causally_ordered nid par (set xs) r"
proof -
  from causal_order_split [OF assms(1)] obtain ys where
    r: "r = ys @ js_sort cmp (filter (\<lambda>x. nid x \<notin> nid ` set ys) xs)"
    and g: "greedy_from (\<lambda>_ _. 0) nid par (set xs) [] ys" by blast
  have "set ys = set xs" by (rule greedy_complete [OF g _ assms(2)]) simp
  then have "filter (\<lambda>x. nid x \<notin> nid ` set ys) xs = []" by (auto simp: filter_empty_conv)
  with r have "r = ys" by simp
  with greedy_causally_ordered [OF g] show ?thesis by simp
qed

lemma leaf_ids_set:
  assumes "causal_order cmp nid par look xs = Some r"
  shows "set (leaf_ids nid par xs r) = nid ` set xs - (\<Union>x \<in> set xs. set (par x))"
proof -
  have "set r = set xs" using causal_order_mset [OF assms] by (rule mset_eq_setD)
  then show ?thesis by (auto simp: leaf_ids_def referenced_ids_def known_parents_def)
qed

end

text \<open>Two runs over the same set of nodes give the same list.\<close>

lemma causal_order_set_cong:
  assumes x: "causal_graph nid par look xs" and y: "causal_graph nid par look' ys"
    and s: "set xs = set ys" and t: "total_comparator_on (set xs) cmp"
  shows "causal_order cmp nid par look xs = causal_order cmp nid par look' ys"
proof -
  obtain r where r: "causal_order cmp nid par look xs = Some r"
    using causal_graph.causal_order_total [OF x] by blast
  obtain q where q: "causal_order cmp nid par look' ys = Some q"
    using causal_graph.causal_order_total [OF y] by blast
  note c = total_comparator_on.axioms(1) [OF t]
  from causal_graph.causal_order_split [OF x r] obtain us where
    us: "r = us @ js_sort cmp (filter (\<lambda>x. nid x \<notin> nid ` set us) xs)"
      "greedy_from cmp nid par (set xs) [] us" using c by blast
  from causal_graph.causal_order_split [OF y q] obtain vs where
    vs: "q = vs @ js_sort cmp (filter (\<lambda>x. nid x \<notin> nid ` set vs) ys)"
      "greedy_from cmp nid par (set ys) [] vs" using c s by metis
  have uv: "us = vs" using greedy_unique [OF t us(2)] vs(2) s by simp
  have "mset xs = mset ys"
    using s causal_graph.xs_distinct [OF x] causal_graph.xs_distinct [OF y]
    by (simp add: set_eq_iff_mset_eq_distinct)
  then have "js_sort cmp (filter (\<lambda>x. nid x \<notin> nid ` set us) xs) =
    js_sort cmp (filter (\<lambda>x. nid x \<notin> nid ` set us) ys)"
    by (intro total_comparator_on.js_sort_cong [OF t]) auto
  with us vs uv r q show ?thesis by simp
qed

end
