(* ===== verification/CrdtGraph.thy ===== *)
theory CrdtGraph
  imports CrdtProtocol CausalOrder
begin

text \<open>
  packages/protocol/src/crdt-graph.ts: deduplication of operations, the analysis of their
  causal graph (the algorithm is \<open>CausalOrder.causal_order\<close>), the observed and the contiguous
  version vector, the selection of operations for a peer, and the materialised messages.
  \<open>String.prototype.localeCompare\<close> depends on the host's locale and is the parameter \<open>lc\<close>.
  The result of \<open>analyzeCrdtOps\<close> is an option because of the fuel of the loop; it is never
  \<open>None\<close> (\<open>analyzeCrdtOps_total\<close>).
\<close>

section \<open>Model\<close>

type_synonym locale_compare = "string \<Rightarrow> string \<Rightarrow> int"

definition compareCrdtOpOrder :: "locale_compare \<Rightarrow> crdt_op \<Rightarrow> crdt_op \<Rightarrow> int" where
  "compareCrdtOpOrder lc left right =
     (if op_hlc left \<noteq> op_hlc right then lc (op_hlc left) (op_hlc right)
      else if op_authorDeviceId left \<noteq> op_authorDeviceId right
        then lc (op_authorDeviceId left) (op_authorDeviceId right)
      else if js_count (op_authorSeq left) \<noteq> js_count (op_authorSeq right)
        then js_diff_sign (js_count (op_authorSeq left)) (js_count (op_authorSeq right))
      else lc (op_opId left) (op_opId right))"

text \<open>\<open>normalizeCrdtId\<close> and \<open>normalizeCrdtParents\<close> on typed fields.\<close>

abbreviation trim_id :: "string \<Rightarrow> string" where
  "trim_id s \<equiv> normalizeCrdtId (JStr s)"

definition op_pars :: "crdt_op \<Rightarrow> string list" where
  "op_pars op = normalizeCrdtParents (strs_val (op_parents op))"

definition normalize_op :: "crdt_op \<Rightarrow> crdt_op" where
  "normalize_op op =
     op\<lparr>op_opId := trim_id (op_opId op), op_conversationId := trim_id (op_conversationId op),
       op_authorDeviceId := trim_id (op_authorDeviceId op),
       op_authorEntityType := trim_id (op_authorEntityType op),
       op_authorSeq := js_count (op_authorSeq op), op_parents := op_pars op,
       op_signedAt := js_count (op_signedAt op), op_signature := trim_id (op_signature op)\<rparr>"

definition dedupe_step :: "crdt_op \<Rightarrow> crdt_op list \<Rightarrow> crdt_op list" where
  "dedupe_step op acc =
     (if trim_id (op_opId op) = [] \<or> trim_id (op_opId op) \<in> op_opId ` set acc then acc
      else acc @ [normalize_op op])"

definition dedupeCrdtOps :: "crdt_op list \<Rightarrow> crdt_op list" where
  "dedupeCrdtOps ops = fold dedupe_step ops []"

text \<open>The guard both vector builders share: \<open>!authorDeviceId || authorSeq <= 0\<close>.\<close>

definition op_counted :: "crdt_op \<Rightarrow> bool" where
  "op_counted op =
     (trim_id (op_authorDeviceId op) \<noteq> [] \<and> \<not> js_leq (js_count (op_authorSeq op)) (Fin 0))"

definition observed_step :: "crdt_op \<Rightarrow> vv \<Rightarrow> vv" where
  "observed_step op m =
     (if \<not> op_counted op then m
      else let a = trim_id (op_authorDeviceId op)
           in vv_write a (js_max (vv_read m a) (js_count (op_authorSeq op))) m)"

definition buildObservedVersionVector :: "crdt_op list \<Rightarrow> vv" where
  "buildObservedVersionVector ops = fold observed_step ops []"

definition seqs_step :: "crdt_op \<Rightarrow> (string \<times> jsnum list) list \<Rightarrow> (string \<times> jsnum list) list" where
  "seqs_step op m =
     (if \<not> op_counted op then m
      else let a = trim_id (op_authorDeviceId op)
           in AList.update a (js_set_add (js_count (op_authorSeq op)) (amap_get [] m a)) m)"

definition buildContiguousVersionVector :: "crdt_op list \<Rightarrow> vv" where
  "buildContiguousVersionVector ops =
     fold (\<lambda>(a, seqs) m.
         vv_write a (Fin (of_nat (contiguous_from (js_sort js_diff_sign seqs) 1 - 1))) m)
       (fold seqs_step ops []) []"

record crdt_analysis =
  an_ops :: "crdt_op list"
  an_orderedOps :: "crdt_op list"
  an_leafOpIds :: "string list"
  an_missingParentOpIds :: "string list"
  an_versionVector :: vv
  an_observedVersionVector :: vv
  an_childrenByOpId :: "(string \<times> string list) list"

definition find_op :: "crdt_op list \<Rightarrow> string \<Rightarrow> crdt_op option" where
  "find_op ops i = find (\<lambda>op. op_opId op = i) ops"

definition analyzeCrdtOps :: "locale_compare \<Rightarrow> crdt_op list \<Rightarrow> crdt_analysis option" where
  "analyzeCrdtOps lc ops =
     (let deduped = dedupeCrdtOps ops;
          g = build_graph op_opId op_pars deduped
      in case causal_order (compareCrdtOpOrder lc) op_opId op_pars (find_op deduped) deduped of
           None \<Rightarrow> None
         | Some ordered \<Rightarrow>
             Some \<lparr>an_ops = deduped, an_orderedOps = ordered,
               an_leafOpIds = leaf_ids op_opId op_pars deduped ordered,
               an_missingParentOpIds = js_sort js_string_cmp (g_missing g),
               an_versionVector = buildContiguousVersionVector deduped,
               an_observedVersionVector = buildObservedVersionVector deduped,
               an_childrenByOpId =
                 js_sort (\<lambda>x y. lc (fst x) (fst y))
                   (map (\<lambda>(i, cs). (i, js_sort js_string_cmp cs)) (g_children g))\<rparr>)"

definition summarizeCrdtConversation ::
  "locale_compare \<Rightarrow> string \<Rightarrow> crdt_op list \<Rightarrow> (string + crdt_summary) option" where
  "summarizeCrdtConversation lc cid ops =
     map_option (\<lambda>a. createCrdtConversationSummary cid (vv_val (an_versionVector a))
         (strs_val (an_leafOpIds a)))
       (analyzeCrdtOps lc
         (filter (\<lambda>op. trim_id (op_conversationId op) = trim_id cid) (dedupeCrdtOps ops)))"

definition op_wanted :: "vv \<Rightarrow> crdt_op \<Rightarrow> bool" where
  "op_wanted want op =
     js_less (vv_read want (trim_id (op_authorDeviceId op))) (js_count (op_authorSeq op))"

definition selectCrdtOpsForSync ::
  "locale_compare \<Rightarrow> crdt_op list \<Rightarrow> vv \<Rightarrow> jsnum option \<Rightarrow> crdt_op list option" where
  "selectCrdtOpsForSync lc ops wantFrom limit =
     (case analyzeCrdtOps lc ops of
        None \<Rightarrow> None
      | Some a \<Rightarrow>
          let filtered =
            filter (op_wanted (normalizeCrdtVersionVector (vv_val wantFrom))) (an_orderedOps a)
          in Some (case limit of
               None \<Rightarrow> filtered
             | Some n \<Rightarrow> js_slice_to (js_max (Fin 1) (js_trunc n)) filtered))"

record crdt_message =
  cm_messageId :: string
  cm_opId :: string
  cm_conversationId :: string
  cm_authorDeviceId :: string
  cm_authorEntityType :: string
  cm_authorSeq :: jsnum
  cm_hlc :: string
  cm_text :: string
  cm_parts :: "jsval list"
  cm_clientNonce :: "string option"
  cm_parents :: "string list"
  cm_signedAt :: jsnum

definition message_of :: "crdt_op \<Rightarrow> crdt_message" where
  "message_of op =
     (let p = op_payload op; body = js_get p ''body''; nonce = normalizeCrdtId (js_get p ''clientNonce'')
      in \<lparr>cm_messageId = normalizeCrdtId (js_get p ''messageId''), cm_opId = op_opId op,
         cm_conversationId = op_conversationId op, cm_authorDeviceId = op_authorDeviceId op,
         cm_authorEntityType = op_authorEntityType op, cm_authorSeq = js_count (op_authorSeq op),
         cm_hlc = op_hlc op,
         cm_text = (case js_get body ''text'' of JStr s \<Rightarrow> s | _ \<Rightarrow> []),
         cm_parts = filter js_is_object (js_array (js_get body ''parts'')),
         cm_clientNonce = (if nonce = [] then None else Some nonce),
         cm_parents = op_pars op, cm_signedAt = js_count (op_signedAt op)\<rparr>)"

definition materialize_step :: "crdt_op \<Rightarrow> crdt_message list \<Rightarrow> crdt_message list" where
  "materialize_step op ms =
     (if op_kind op \<noteq> MESSAGE_CREATE then ms
      else let i = normalizeCrdtId (js_get (op_payload op) ''messageId'')
           in if i = [] \<or> i \<in> cm_messageId ` set ms then ms else ms @ [message_of op])"

definition message_cmp :: "locale_compare \<Rightarrow> crdt_op list \<Rightarrow> crdt_message \<Rightarrow> crdt_message \<Rightarrow> int" where
  "message_cmp lc ordered left right =
     (case (find_op ordered (cm_opId left), find_op ordered (cm_opId right)) of
        (Some leftOp, Some rightOp) \<Rightarrow> compareCrdtOpOrder lc leftOp rightOp
      | _ \<Rightarrow> lc (cm_messageId left) (cm_messageId right))"

definition materializeCrdtMessages :: "locale_compare \<Rightarrow> crdt_op list \<Rightarrow> crdt_message list option" where
  "materializeCrdtMessages lc ops =
     map_option (\<lambda>a. js_sort (message_cmp lc (an_orderedOps a))
         (fold materialize_step (an_orderedOps a) []))
       (analyzeCrdtOps lc ops)"

section \<open>Deduplication\<close>

text \<open>A normalised operation, and a consistent history: one operation per id.\<close>

definition op_normal :: "crdt_op \<Rightarrow> bool" where
  "op_normal op = (normalize_op op = op \<and> op_opId op \<noteq> [])"

definition consistent_ops :: "crdt_op set \<Rightarrow> bool" where
  "consistent_ops S =
     (\<forall>x \<in> S. \<forall>y \<in> S. trim_id (op_opId x) = trim_id (op_opId y) \<longrightarrow> normalize_op x = normalize_op y)"

definition deduped_set :: "crdt_op set \<Rightarrow> crdt_op set" where
  "deduped_set S = normalize_op ` {op \<in> S. trim_id (op_opId op) \<noteq> []}"

lemma op_pars_normal [simp]: "texts_normal (op_pars op)"
  by (simp add: op_pars_def)

lemma normalize_op_sel [simp]:
  "op_opId (normalize_op op) = js_trim (op_opId op)"
  "op_conversationId (normalize_op op) = js_trim (op_conversationId op)"
  "op_authorDeviceId (normalize_op op) = js_trim (op_authorDeviceId op)"
  "op_authorSeq (normalize_op op) = js_count (op_authorSeq op)"
  "op_hlc (normalize_op op) = op_hlc op"
  "op_parents (normalize_op op) = op_pars op"
  "op_kind (normalize_op op) = op_kind op"
  "op_payload (normalize_op op) = op_payload op"
  by (simp_all add: normalize_op_def)

lemma op_pars_normalize [simp]: "op_pars (normalize_op op) = op_pars op"
  by (simp add: op_pars_def [of "normalize_op op"] js_uniq_texts_normal)

lemma normalize_op_idem [simp, js_norm]: "normalize_op (normalize_op op) = normalize_op op"
  by (rule crdt_op.equality) (simp_all add: normalize_op_def op_pars_def js_uniq_texts_normal)

lemma op_normal_sel:
  assumes "op_normal op"
  shows "js_trim (op_opId op) = op_opId op" "js_trim (op_authorDeviceId op) = op_authorDeviceId op"
    "js_trim (op_conversationId op) = op_conversationId op"
    "js_count (op_authorSeq op) = op_authorSeq op" "op_parents op = op_pars op"
proof -
  have e: "normalize_op op = op" using assms by (simp add: op_normal_def)
  note n = normalize_op_sel [of op, unfolded e]
  show "js_trim (op_opId op) = op_opId op" "js_trim (op_authorDeviceId op) = op_authorDeviceId op"
    "js_trim (op_conversationId op) = op_conversationId op"
    "js_count (op_authorSeq op) = op_authorSeq op" "op_parents op = op_pars op"
    by (rule n [symmetric] n(6))+
qed

lemma fold_dedupe:
  assumes "distinct (map op_opId acc)" "\<forall>op \<in> set acc. op_normal op"
  shows "distinct (map op_opId (fold dedupe_step ops acc)) \<and>
    (\<forall>op \<in> set (fold dedupe_step ops acc). op_normal op) \<and>
    set (fold dedupe_step ops acc) \<subseteq> set acc \<union> deduped_set (set ops) \<and>
    op_opId ` set (fold dedupe_step ops acc) = op_opId ` (set acc \<union> deduped_set (set ops))"
  using assms
proof (induction ops arbitrary: acc)
  case Nil
  then show ?case by (simp add: deduped_set_def)
next
  case (Cons op ops)
  let ?acc = "dedupe_step op acc"
  have "distinct (map op_opId ?acc)" "\<forall>op \<in> set ?acc. op_normal op"
    using Cons.prems by (auto simp: dedupe_step_def op_normal_def)
  from Cons.IH [OF this] have IH:
    "distinct (map op_opId (fold dedupe_step ops ?acc))"
    "\<forall>op \<in> set (fold dedupe_step ops ?acc). op_normal op"
    "set (fold dedupe_step ops ?acc) \<subseteq> set ?acc \<union> deduped_set (set ops)"
    "op_opId ` set (fold dedupe_step ops ?acc) = op_opId ` (set ?acc \<union> deduped_set (set ops))"
    by blast+
  have d: "deduped_set (set (op # ops)) =
    (if js_trim (op_opId op) = [] then {} else {normalize_op op}) \<union> deduped_set (set ops)"
    by (auto simp: deduped_set_def)
  have s: "set ?acc \<subseteq> set acc \<union> (if js_trim (op_opId op) = [] then {} else {normalize_op op})"
    "op_opId ` set ?acc = op_opId ` (set acc \<union> (if js_trim (op_opId op) = [] then {} else {normalize_op op}))"
    by (auto simp: dedupe_step_def)
  have "op_opId ` set (fold dedupe_step ops ?acc) = op_opId ` (set acc \<union> deduped_set (set (op # ops)))"
    unfolding IH(4) d image_Un s(2) by (simp add: Un_assoc)
  moreover have "set (fold dedupe_step ops ?acc) \<subseteq> set acc \<union> deduped_set (set (op # ops))"
    using IH(3) s(1) unfolding d by blast
  ultimately show ?case using IH(1,2) by simp
qed

lemma dedupe_distinct [simp]: "distinct (map op_opId (dedupeCrdtOps ops))"
  using fold_dedupe [of "[]" ops] by (simp add: dedupeCrdtOps_def)

lemma dedupe_distinct' [simp]: "distinct (dedupeCrdtOps ops)"
  using dedupe_distinct by (simp add: distinct_map del: dedupe_distinct)

lemma dedupe_normal: "op \<in> set (dedupeCrdtOps ops) \<Longrightarrow> op_normal op"
  using fold_dedupe [of "[]" ops] by (simp add: dedupeCrdtOps_def)

lemma dedupe_subset: "set (dedupeCrdtOps ops) \<subseteq> deduped_set (set ops)"
  using fold_dedupe [of "[]" ops] by (simp add: dedupeCrdtOps_def)

lemma dedupe_ids: "op_opId ` set (dedupeCrdtOps ops) = op_opId ` deduped_set (set ops)"
  using fold_dedupe [of "[]" ops] by (simp add: dedupeCrdtOps_def)

lemma set_dedupe: "consistent_ops (set ops) \<Longrightarrow> set (dedupeCrdtOps ops) = deduped_set (set ops)"
proof (intro equalityI dedupe_subset subsetI)
  fix x assume c: "consistent_ops (set ops)" and x: "x \<in> deduped_set (set ops)"
  then have "op_opId x \<in> op_opId ` set (dedupeCrdtOps ops)" by (simp add: dedupe_ids)
  then obtain y where y: "y \<in> set (dedupeCrdtOps ops)" "op_opId y = op_opId x" by auto
  then have "y \<in> deduped_set (set ops)" using dedupe_subset by blast
  then obtain v where v: "v \<in> set ops" "y = normalize_op v" by (auto simp: deduped_set_def)
  from x obtain u where u: "u \<in> set ops" "x = normalize_op u" by (auto simp: deduped_set_def)
  have "trim_id (op_opId u) = trim_id (op_opId v)" using y(2) u v by simp
  then have "x = y" using c u(1) v(1) unfolding u(2) v(2) consistent_ops_def by blast
  with y show "x \<in> set (dedupeCrdtOps ops)" by simp
qed

lemma fold_dedupe_id:
  "distinct (map op_opId (acc @ ops)) \<Longrightarrow> \<forall>op \<in> set ops. op_normal op \<Longrightarrow>
    fold dedupe_step ops acc = acc @ ops"
proof (induction ops arbitrary: acc)
  case (Cons op ops)
  then have "dedupe_step op acc = acc @ [op]"
    using op_normal_sel [of op] by (auto simp: dedupe_step_def op_normal_def)
  with Cons show ?case by simp
qed simp

lemma dedupe_id:
  "distinct (map op_opId ops) \<Longrightarrow> \<forall>op \<in> set ops. op_normal op \<Longrightarrow> dedupeCrdtOps ops = ops"
  using fold_dedupe_id [of "[]" ops] by (simp add: dedupeCrdtOps_def)

lemma dedupe_idem [simp, js_norm]: "dedupeCrdtOps (dedupeCrdtOps ops) = dedupeCrdtOps ops"
  by (rule dedupe_id) (auto dest: dedupe_normal)

lemma dedupe_filter [simp]: "dedupeCrdtOps (filter P (dedupeCrdtOps ops)) = filter P (dedupeCrdtOps ops)"
  by (rule dedupe_id) (auto dest: dedupe_normal simp: distinct_map_filter)

section \<open>The analysis\<close>

lemma find_op_finds: "distinct (map op_opId ops) \<Longrightarrow> op \<in> set ops \<Longrightarrow> find_op ops (op_opId op) = Some op"
  unfolding find_op_def
  by (induction ops) auto

text \<open>The deduplicated operations satisfy the contract of the graph algorithm.\<close>

interpretation crdt: causal_graph op_opId op_pars "find_op (dedupeCrdtOps ops)" "dedupeCrdtOps ops"
  for ops
  by unfold_locales (auto simp: find_op_finds intro: texts_normal_distinct)

lemma analyze_Some:
  assumes "analyzeCrdtOps lc ops = Some a"
  shows "causal_order (compareCrdtOpOrder lc) op_opId op_pars (find_op (dedupeCrdtOps ops))
      (dedupeCrdtOps ops) = Some (an_orderedOps a)"
    and "an_ops a = dedupeCrdtOps ops"
    and "an_leafOpIds a = leaf_ids op_opId op_pars (dedupeCrdtOps ops) (an_orderedOps a)"
    and "an_missingParentOpIds a =
      js_sort js_string_cmp (g_missing (build_graph op_opId op_pars (dedupeCrdtOps ops)))"
    and "an_versionVector a = buildContiguousVersionVector (dedupeCrdtOps ops)"
    and "an_observedVersionVector a = buildObservedVersionVector (dedupeCrdtOps ops)"
  using assms by (auto simp: analyzeCrdtOps_def Let_def split: option.splits)

lemma analyze_total: "\<exists>a. analyzeCrdtOps lc ops = Some a"
  using crdt.causal_order_total [where cmp = "compareCrdtOpOrder lc" and ops = ops]
  by (auto simp: analyzeCrdtOps_def Let_def)

lemma ordered_mset: "analyzeCrdtOps lc ops = Some a \<Longrightarrow> mset (an_orderedOps a) = mset (dedupeCrdtOps ops)"
  by (rule crdt.causal_order_mset) (rule analyze_Some(1))

lemma set_ordered: "analyzeCrdtOps lc ops = Some a \<Longrightarrow> set (an_orderedOps a) = set (dedupeCrdtOps ops)"
  by (rule mset_eq_setD) (rule ordered_mset)

lemma ordered_distinct: "analyzeCrdtOps lc ops = Some a \<Longrightarrow> distinct (map op_opId (an_orderedOps a))"
  by (metis dedupe_distinct mset_eq_imp_distinct_iff mset_map ordered_mset)

section \<open>The order of operations\<close>

text \<open>The strings a comparison of these operations compares.\<close>

definition op_strings :: "crdt_op set \<Rightarrow> string set" where
  "op_strings S = op_hlc ` S \<union> op_authorDeviceId ` S \<union> op_opId ` S"

lemma compareCrdtOpOrder_cmp_by:
  "compareCrdtOpOrder lc =
     cmp_by op_hlc lc (cmp_by op_authorDeviceId lc
       (cmp_by (\<lambda>op. js_count (op_authorSeq op)) js_diff_sign (\<lambda>x y. lc (op_opId x) (op_opId y))))"
  by (intro ext) (simp add: compareCrdtOpOrder_def cmp_by_def)

lemma total_op_order:
  assumes lc: "total_comparator_on (op_strings S) lc" and i: "inj_on op_opId S"
  shows "total_comparator_on S (compareCrdtOpOrder lc)"
proof -
  note sub = total_comparator_on_subset
  have h: "total_comparator_on (op_hlc ` S) lc" "total_comparator_on (op_authorDeviceId ` S) lc"
    "total_comparator_on (op_opId ` S) lc"
    by (rule sub [OF lc], auto simp: op_strings_def)+
  have n: "total_comparator_on ((\<lambda>op. js_count (op_authorSeq op)) ` S) js_diff_sign"
    by (rule sub [OF numbers.total_comparator_on_axioms]) (auto simp: js_count_not_NaN)
  have "total_comparator_on S (\<lambda>x y. lc (op_opId x) (op_opId y))"
    by (rule total_comparator_on_key [OF h(3) i])
  from total_comparator_on_cmp_by [OF h(1) total_comparator_on_cmp_by [OF h(2)
      total_comparator_on_cmp_by [OF n this]]]
  show ?thesis by (simp only: compareCrdtOpOrder_cmp_by)
qed

section \<open>Version vectors of a history\<close>

definition author_seqs :: "crdt_op set \<Rightarrow> string \<Rightarrow> jsnum set" where
  "author_seqs S a =
     {js_count (op_authorSeq op) | op. op \<in> S \<and> op_counted op \<and> trim_id (op_authorDeviceId op) = a}"

lemma fold_seqs_get:
  "set (amap_get [] (fold seqs_step ops m) a) = set (amap_get [] m a) \<union> author_seqs (set ops) a"
proof (induction ops arbitrary: m)
  case (Cons op ops)
  have "author_seqs (set (op # ops)) a = author_seqs (set ops) a \<union> author_seqs {op} a"
    by (auto simp: author_seqs_def)
  moreover have "set (amap_get [] (seqs_step op m) a) = set (amap_get [] m a) \<union> author_seqs {op} a"
    by (auto simp: seqs_step_def author_seqs_def Let_def amap_get_update)
  ultimately show ?case using Cons by auto
qed (simp add: author_seqs_def)

lemma fold_seqs_distinct:
  assumes "\<forall>a. distinct (amap_get [] m a)" "distinct (map fst m)"
  shows "distinct (amap_get [] (fold seqs_step ops m) a) \<and> distinct (map fst (fold seqs_step ops m))"
  using assms
proof (induction ops arbitrary: m)
  case (Cons op ops)
  have "\<forall>a. distinct (amap_get [] (seqs_step op m) a)" "distinct (map fst (seqs_step op m))"
    using Cons.prems by (auto simp: seqs_step_def Let_def amap_get_update distinct_update)
  from Cons.IH [OF this] show ?case by simp
qed simp

lemma fold_write_map_of:
  "distinct (map fst ps) \<Longrightarrow> \<forall>k \<in> fst ` set ps. map_of m k = None \<Longrightarrow> j \<noteq> ''__proto__'' \<Longrightarrow>
    map_of (fold (\<lambda>(k, v) m. vv_write k (f v) m) ps m) j =
      (case map_of ps j of Some v \<Rightarrow> Some (f v) | None \<Rightarrow> map_of m j)"
proof (induction ps arbitrary: m)
  case (Cons p ps)
  obtain k v where p: "p = (k, v)" by (cases p)
  have fresh: "\<forall>k' \<in> fst ` set ps. map_of (vv_write k (f v) m) k' = None"
    using Cons.prems p by (auto simp: map_of_vv_write image_iff)
  have nk: "map_of ps k = None" using Cons.prems p by (simp add: map_of_eq_None_iff)
  show ?case using Cons.IH [OF _ fresh] Cons.prems p nk
    by (auto simp: map_of_vv_write split: option.splits)
qed simp

lemma author_seqs_pos: "s \<in> author_seqs S a \<Longrightarrow> is_count s \<and> \<not> js_less s (Fin (of_nat 1))"
proof -
  assume "s \<in> author_seqs S a"
  then have c: "is_count s" and p: "\<not> js_leq s (Fin 0)"
    by (auto simp: author_seqs_def op_counted_def)
  show ?thesis using c p by (cases rule: is_count_cases [OF c]) (auto simp: js_leq_def)
qed

lemma contiguous_vv:
  assumes "a \<notin> set object_protos"
  obtains n where "vv_read (buildContiguousVersionVector ops) a = Fin (of_nat n)"
    "\<And>i. 1 \<le> i \<Longrightarrow> i \<le> n \<Longrightarrow> Fin (of_nat i) \<in> author_seqs (set ops) a"
    "Fin (of_nat (n + 1)) \<notin> author_seqs (set ops) a"
proof -
  let ?m = "fold seqs_step ops []"
  let ?s = "js_sort js_diff_sign (amap_get [] ?m a)"
  let ?f = "\<lambda>seqs. Fin (of_nat (contiguous_from (js_sort js_diff_sign seqs) 1 - 1))"
  have np: "a \<noteq> ''__proto__''" using assms proto_in_object_protos by auto
  have d: "distinct (amap_get [] ?m a)" "distinct (map fst ?m)" using fold_seqs_distinct [of "[]" ops] by simp_all
  have s: "set (amap_get [] ?m a) = author_seqs (set ops) a" by (simp add: fold_seqs_get)
  have "set (amap_get [] ?m a) \<subseteq> {n. n \<noteq> NaN}"
    using s by (auto dest: author_seqs_pos)
  then have srt: "cmp_sorted js_diff_sign ?s" by (rule numbers.sorted_js_sort)
  have spec: "1 \<le> contiguous_from ?s 1 \<and>
      (\<forall>i. 1 \<le> i \<and> i < contiguous_from ?s 1 \<longrightarrow> Fin (of_nat i) \<in> set ?s) \<and>
      Fin (of_nat (contiguous_from ?s 1)) \<notin> set ?s"
    by (rule contiguous_from_spec [OF srt]) (use d s author_seqs_pos in auto)
  have "map_of (buildContiguousVersionVector ops) a = (case map_of ?m a of Some v \<Rightarrow> Some (?f v) | None \<Rightarrow> None)"
    unfolding buildContiguousVersionVector_def
    using fold_write_map_of [OF d(2), of "[]" a ?f] np by (simp split: option.splits)
  then have "vv_read (buildContiguousVersionVector ops) a = Fin (of_nat (contiguous_from ?s 1 - 1))"
    using assms by (auto simp: vv_read_def amap_get_def js_or_zero_count split: option.split)
  then show thesis
    by (rule that) (use spec s in auto)
qed

lemma fold_observed_map_of:
  assumes "a \<notin> set object_protos" "is_count (vv_read m a)"
  shows "is_count (vv_read (fold observed_step ops m) a) \<and>
    \<not> js_less (vv_read (fold observed_step ops m) a) (vv_read m a) \<and>
    (\<forall>s \<in> author_seqs (set ops) a. \<not> js_less (vv_read (fold observed_step ops m) a) s) \<and>
    vv_read (fold observed_step ops m) a \<in> insert (vv_read m a) (author_seqs (set ops) a)"
  using assms(2)
proof (induction ops arbitrary: m)
  case Nil
  then show ?case by (simp add: author_seqs_def)
next
  case (Cons op ops)
  have np: "a \<noteq> ''__proto__''" using assms proto_in_object_protos by auto
  have e: "author_seqs (insert op (set ops)) a = author_seqs {op} a \<union> author_seqs (set ops) a"
    by (auto simp: author_seqs_def)
  show ?case
  proof (cases "op_counted op \<and> trim_id (op_authorDeviceId op) = a")
    case False
    then have "vv_read (observed_step op m) a = vv_read m a" "author_seqs {op} a = {}"
      by (auto simp: observed_step_def Let_def author_seqs_def vv_read_def map_of_vv_write)
    with Cons.IH [of "observed_step op m"] Cons.prems e show ?thesis by simp
  next
    case True
    let ?s = "js_count (op_authorSeq op)"
    have s1: "author_seqs {op} a = {?s}" using True by (auto simp: author_seqs_def)
    have r: "vv_read (observed_step op m) a = js_max (vv_read m a) ?s"
      using True np Cons.prems
      by (auto simp: observed_step_def Let_def vv_read_vv_write js_or_zero_count js_max_count)
    have c: "is_count (vv_read (observed_step op m) a)" using r Cons.prems by (simp add: js_max_count)
    have cs: "is_count ?s" by simp
    let ?r = "vv_read (fold observed_step ops (observed_step op m)) a"
    have le: "\<not> js_less (js_max (vv_read m a) ?s) (vv_read m a)" "\<not> js_less (js_max (vv_read m a) ?s) ?s"
      "js_max (vv_read m a) ?s \<in> {vv_read m a, ?s}"
      using Cons.prems cs by (auto simp: js_max_def is_count_not_NaN dest: js_less_asym)
    have tr: "\<not> js_less ?r x" if "\<not> js_less (js_max (vv_read m a) ?s) x" "x \<noteq> NaN" for x
    proof
      assume "js_less ?r x"
      moreover have "js_less x (js_max (vv_read m a) ?s) \<or> x = js_max (vv_read m a) ?s"
        using that js_less_total [of x "js_max (vv_read m a) ?s"] is_count_not_NaN [OF c] r by auto
      ultimately have "js_less ?r (js_max (vv_read m a) ?s)" using js_less_trans by blast
      with Cons.IH [OF c] r show False by simp
    qed
    have "\<not> js_less ?r (vv_read m a)" "\<not> js_less ?r ?s"
      using tr le Cons.prems cs is_count_not_NaN by auto
    with Cons.IH [OF c] le(3) show ?thesis by (auto simp: e s1 r)
  qed
qed

lemma vv_write_normal:
  assumes "vv_normal m" "k \<noteq> []" "js_trimmed k" "is_count n" shows "vv_normal (vv_write k n m)"
proof -
  have "set (vv_write k n m) \<subseteq> insert (k, n) (set m)"
    using set_update_subset [of k n m] by (auto simp: vv_write_def)
  moreover have "distinct (map fst (vv_write k n m))"
    using assms(1) by (simp add: vv_write_def vv_normal_def distinct_update)
  ultimately show ?thesis using assms by (auto simp: vv_normal_def)
qed

lemma fold_seqs_keys:
  "\<forall>k \<in> fst ` set m. k \<noteq> [] \<and> js_trimmed k \<Longrightarrow>
    \<forall>k \<in> fst ` set (fold seqs_step ops m). k \<noteq> [] \<and> js_trimmed k"
proof (induction ops arbitrary: m)
  case (Cons op ops)
  have "\<forall>k \<in> fst ` set (seqs_step op m). k \<noteq> [] \<and> js_trimmed k"
    using Cons.prems by (auto simp: seqs_step_def op_counted_def Let_def dest!: subsetD [OF set_update_subset])
  from Cons.IH [OF this] show ?case by simp
qed simp

lemma fold_write_normal:
  "vv_normal m \<Longrightarrow> \<forall>k \<in> fst ` set ps. k \<noteq> [] \<and> js_trimmed k \<Longrightarrow>
    vv_normal (fold (\<lambda>(k, v) m. vv_write k (Fin (of_nat (f v))) m) ps m)"
proof (induction ps arbitrary: m)
  case (Cons p ps)
  have "vv_normal (vv_write (fst p) (Fin (of_nat (f (snd p)))) m)"
    by (rule vv_write_normal) (use Cons.prems in auto)
  from Cons.IH [OF this] Cons.prems(2) show ?case by (simp add: case_prod_beta)
qed simp

lemma contiguous_vv_normal: "vv_normal (buildContiguousVersionVector ops)"
  unfolding buildContiguousVersionVector_def
  by (rule fold_write_normal) (use fold_seqs_keys [of "[]" ops] in auto)

lemma select_Some:
  assumes "analyzeCrdtOps lc ops = Some a" "vv_normal want"
  shows "selectCrdtOpsForSync lc ops want limit =
    Some (case limit of None \<Rightarrow> filter (op_wanted want) (an_orderedOps a)
      | Some n \<Rightarrow> js_slice_to (js_max (Fin 1) (js_trunc n)) (filter (op_wanted want) (an_orderedOps a)))"
  by (simp add: selectCrdtOpsForSync_def assms normalizeCrdtVersionVector_id Let_def)

section \<open>Anti-entropy\<close>

text \<open>
  What pulling from a peer rests on: a history has a summary vector that only covers what it
  holds, and a peer selects exactly what a vector does not cover.
\<close>

locale anti_entropy =
  fixes held :: "'h \<Rightarrow> 'op set" and author :: "'op \<Rightarrow> string" and seq :: "'op \<Rightarrow> jsnum"
    and good :: "'op \<Rightarrow> bool" and summary :: "'h \<Rightarrow> vv" and select :: "'h \<Rightarrow> vv \<Rightarrow> 'op set"
  assumes summary_normal: "vv_normal (summary h)"
    and summary_covered: "good x \<Longrightarrow> \<not> js_less (vv_read (summary h) (author x)) (seq x) \<Longrightarrow>
      \<exists>y \<in> held h. author y = author x \<and> seq y = seq x \<and> good y"
    and select_exact: "vv_normal want \<Longrightarrow>
      select h want = {x \<in> held h. js_less (vv_read want (author x)) (seq x)}"
begin

lemma pull_complete:
  "x \<in> held remote \<Longrightarrow> good x \<Longrightarrow>
    x \<in> select remote (summary local) \<or> (\<exists>y \<in> held local. author y = author x \<and> seq y = seq x \<and> good y)"
  using select_exact [OF summary_normal] summary_covered by blast

lemma pull_union:
  assumes "\<forall>x \<in> held local \<union> held remote. good x"
    and "\<forall>x \<in> held local \<union> held remote. \<forall>y \<in> held local \<union> held remote.
      author x = author y \<longrightarrow> seq x = seq y \<longrightarrow> x = y"
  shows "held local \<union> select remote (summary local) = held local \<union> held remote"
proof -
  have "x \<in> held local \<union> select remote (summary local)" if "x \<in> held remote" for x
    using pull_complete [OF that] assms that by blast
  moreover have "select remote (summary local) \<subseteq> held remote"
    using select_exact [OF summary_normal] by blast
  ultimately show ?thesis by blast
qed

end

text \<open>An operation that the vectors count, of a device with an ordinary name.\<close>

definition op_good :: "crdt_op \<Rightarrow> bool" where
  "op_good op = (op_normal op \<and> op_counted op \<and> op_authorDeviceId op \<notin> set object_protos)"

definition select_all :: "locale_compare \<Rightarrow> crdt_op list \<Rightarrow> vv \<Rightarrow> crdt_op list" where
  "select_all lc ops want =
     (case selectCrdtOpsForSync lc ops want None of Some batch \<Rightarrow> batch | None \<Rightarrow> [])"

lemma op_good_key:
  assumes "op_good op"
  shows "trim_id (op_authorDeviceId op) = op_authorDeviceId op" "js_count (op_authorSeq op) = op_authorSeq op"
    "is_count (op_authorSeq op)"
proof -
  show "trim_id (op_authorDeviceId op) = op_authorDeviceId op" "js_count (op_authorSeq op) = op_authorSeq op"
    using assms op_normal_sel by (simp_all add: op_good_def)
  then show "is_count (op_authorSeq op)" by (metis is_count_js_count)
qed

lemma author_seqsE:
  assumes "s \<in> author_seqs (set (dedupeCrdtOps ops)) a" "a \<notin> set object_protos"
  obtains y where "y \<in> set (dedupeCrdtOps ops)" "op_authorDeviceId y = a" "op_authorSeq y = s" "op_good y"
proof -
  from assms(1) obtain y where y: "y \<in> set (dedupeCrdtOps ops)" "op_counted y"
    "trim_id (op_authorDeviceId y) = a" "js_count (op_authorSeq y) = s" by (auto simp: author_seqs_def)
  have n: "op_normal y" using y(1) by (rule dedupe_normal)
  show thesis
    by (rule that [OF y(1)]) (use y n assms(2) op_normal_sel [OF n] in \<open>simp_all add: op_good_def\<close>)
qed

interpretation crdt_sync: anti_entropy "\<lambda>ops. set (dedupeCrdtOps ops)" op_authorDeviceId op_authorSeq
  op_good "\<lambda>ops. buildContiguousVersionVector (dedupeCrdtOps ops)" "\<lambda>ops want. set (select_all lc ops want)"
  for lc
proof
  fix h :: "crdt_op list"
  show "vv_normal (buildContiguousVersionVector (dedupeCrdtOps h))" by (rule contiguous_vv_normal)
next
  fix h :: "crdt_op list" and x
  assume g: "op_good x"
    and le: "\<not> js_less (vv_read (buildContiguousVersionVector (dedupeCrdtOps h)) (op_authorDeviceId x))
      (op_authorSeq x)"
  let ?S = "set (dedupeCrdtOps h)" and ?a = "op_authorDeviceId x"
  have a: "?a \<notin> set object_protos" using g by (simp add: op_good_def)
  obtain n where n: "vv_read (buildContiguousVersionVector (dedupeCrdtOps h)) ?a = Fin (of_nat n)"
    "\<And>i. 1 \<le> i \<Longrightarrow> i \<le> n \<Longrightarrow> Fin (of_nat i) \<in> author_seqs ?S ?a"
    by (rule contiguous_vv [OF a, of "dedupeCrdtOps h"]) blast
  have pos: "\<not> js_leq (op_authorSeq x) (Fin 0)" using g op_good_key [OF g] by (simp add: op_good_def op_counted_def)
  obtain i where i: "op_authorSeq x = Fin (of_nat i)" "1 \<le> i" "i \<le> n"
    using op_good_key(3) [OF g] le pos n(1) by (cases rule: is_count_cases) (auto simp: js_leq_def)
  from n(2) [OF i(2,3)] a obtain y where "y \<in> ?S" "op_authorDeviceId y = ?a"
    "op_authorSeq y = Fin (of_nat i)" "op_good y" by (rule author_seqsE)
  with i show "\<exists>y \<in> ?S. op_authorDeviceId y = ?a \<and> op_authorSeq y = op_authorSeq x \<and> op_good y" by auto
next
  fix want :: vv and h :: "crdt_op list"
  assume w: "vv_normal want"
  obtain a where a: "analyzeCrdtOps lc h = Some a" using analyze_total by blast
  have "trim_id (op_authorDeviceId op) = op_authorDeviceId op \<and> js_count (op_authorSeq op) = op_authorSeq op"
    if "op \<in> set (dedupeCrdtOps h)" for op
    using op_normal_sel [OF dedupe_normal [OF that]] by simp
  then show "set (select_all lc h want) =
    {x \<in> set (dedupeCrdtOps h). js_less (vv_read want (op_authorDeviceId x)) (op_authorSeq x)}"
    using set_ordered [OF a] by (auto simp: select_all_def select_Some [OF a w] op_wanted_def)
qed

section \<open>Convergence\<close>

text \<open>Histories with the same operations are analysed alike.\<close>

lemma author_seqs_vv_eq:
  assumes "set xs = set ys" "a \<notin> set object_protos"
  shows "vv_read (buildContiguousVersionVector xs) a = vv_read (buildContiguousVersionVector ys) a"
proof -
  obtain n where n: "vv_read (buildContiguousVersionVector xs) a = Fin (of_nat n)"
    "\<And>i. 1 \<le> i \<Longrightarrow> i \<le> n \<Longrightarrow> Fin (of_nat i) \<in> author_seqs (set xs) a"
    "Fin (of_nat (n + 1)) \<notin> author_seqs (set xs) a" using contiguous_vv [OF assms(2)] by blast
  obtain m where m: "vv_read (buildContiguousVersionVector ys) a = Fin (of_nat m)"
    "\<And>i. 1 \<le> i \<Longrightarrow> i \<le> m \<Longrightarrow> Fin (of_nat i) \<in> author_seqs (set xs) a"
    "Fin (of_nat (m + 1)) \<notin> author_seqs (set xs) a" using contiguous_vv [OF assms(2)] assms(1) by metis
  have "\<not> n < m" using m(2) [of "n + 1"] n(3) by auto
  moreover have "\<not> m < n" using n(2) [of "m + 1"] m(3) by auto
  ultimately show ?thesis using n m by simp
qed

definition same_analysis :: "crdt_analysis \<Rightarrow> crdt_analysis \<Rightarrow> bool" where
  "same_analysis a b =
     (an_orderedOps a = an_orderedOps b \<and> an_leafOpIds a = an_leafOpIds b \<and>
      an_missingParentOpIds a = an_missingParentOpIds b \<and>
      (\<forall>k. k \<notin> set object_protos \<longrightarrow>
         vv_read (an_versionVector a) k = vv_read (an_versionVector b) k))"

lemma analysis_cong:
  assumes s: "set (dedupeCrdtOps xs) = set (dedupeCrdtOps ys)"
    and lc: "total_comparator_on (op_strings (set (dedupeCrdtOps xs))) lc"
    and a: "analyzeCrdtOps lc xs = Some a" and b: "analyzeCrdtOps lc ys = Some b"
  shows "same_analysis a b"
proof -
  let ?X = "dedupeCrdtOps xs" and ?Y = "dedupeCrdtOps ys"
  have t: "total_comparator_on (set ?X) (compareCrdtOpOrder lc)"
    by (rule total_op_order [OF lc]) (rule crdt.nid_inj)
  have o: "an_orderedOps a = an_orderedOps b"
    using causal_order_set_cong [OF crdt.causal_graph_axioms crdt.causal_graph_axioms s t]
      analyze_Some(1) [OF a] analyze_Some(1) [OF b] by simp
  have "referenced_ids op_opId op_pars ?X = referenced_ids op_opId op_pars ?Y"
    by (simp add: referenced_ids_def s)
  then have "an_leafOpIds a = an_leafOpIds b"
    using o analyze_Some(3) [OF a] analyze_Some(3) [OF b] by (simp add: leaf_ids_def)
  moreover have "an_missingParentOpIds a = an_missingParentOpIds b"
    unfolding analyze_Some(4) [OF a] analyze_Some(4) [OF b]
    by (rule js_sort_strings_eq) (simp_all add: build_graph_missing s)
  moreover have "\<forall>k. k \<notin> set object_protos \<longrightarrow>
      vv_read (an_versionVector a) k = vv_read (an_versionVector b) k"
    unfolding analyze_Some(5) [OF a] analyze_Some(5) [OF b] using author_seqs_vv_eq [OF s] by blast
  ultimately show ?thesis using o by (simp add: same_analysis_def)
qed

text \<open>
  A history in which ids name operations, every operation is counted by the vectors, and a
  device uses a sequence number once.
\<close>

definition good_history :: "crdt_op set \<Rightarrow> bool" where
  "good_history S =
     (consistent_ops S \<and>
      (\<forall>x \<in> S. trim_id (op_opId x) \<noteq> [] \<and> op_counted x \<and>
         trim_id (op_authorDeviceId x) \<notin> set object_protos) \<and>
      (\<forall>x \<in> S. \<forall>y \<in> S. trim_id (op_authorDeviceId x) = trim_id (op_authorDeviceId y) \<longrightarrow>
         js_count (op_authorSeq x) = js_count (op_authorSeq y) \<longrightarrow>
         trim_id (op_opId x) = trim_id (op_opId y)))"

lemma op_counted_normalize [simp]: "op_counted (normalize_op x) = op_counted x"
  by (simp add: op_counted_def)

lemma good_history_dedupe:
  assumes "good_history S" "set xs \<subseteq> S" shows "set (dedupeCrdtOps xs) = normalize_op ` set xs"
proof -
  have "consistent_ops (set xs)"
    using assms unfolding good_history_def consistent_ops_def by blast
  moreover have "deduped_set (set xs) = normalize_op ` set xs"
    using assms by (auto simp: deduped_set_def good_history_def)
  ultimately show ?thesis by (simp add: set_dedupe)
qed

lemma good_history_alt:
  "good_history S \<longleftrightarrow>
     (\<forall>x \<in> normalize_op ` S. op_opId x \<noteq> [] \<and> op_counted x \<and> op_authorDeviceId x \<notin> set object_protos) \<and>
     (\<forall>x \<in> normalize_op ` S. \<forall>y \<in> normalize_op ` S. op_opId x = op_opId y \<longrightarrow> x = y) \<and>
     (\<forall>x \<in> normalize_op ` S. \<forall>y \<in> normalize_op ` S. op_authorDeviceId x = op_authorDeviceId y \<longrightarrow>
        op_authorSeq x = op_authorSeq y \<longrightarrow> op_opId x = op_opId y)"
  by (simp add: good_history_def consistent_ops_def ball_simps) blast

lemma good_history_normalize: "good_history S \<Longrightarrow> good_history (S \<union> normalize_op ` S)"
proof -
  have e: "normalize_op ` (S \<union> normalize_op ` S) = normalize_op ` S" by (simp add: image_Un image_image)
  show "good_history S \<Longrightarrow> good_history (S \<union> normalize_op ` S)" unfolding good_history_alt e .
qed

lemma good_history_op_good:
  assumes "good_history S" "x \<in> normalize_op ` S" shows "op_good x"
proof -
  have "op_opId x \<noteq> [] \<and> op_counted x \<and> op_authorDeviceId x \<notin> set object_protos"
    using assms unfolding good_history_alt by blast
  moreover have "normalize_op x = x" using assms(2) by auto
  ultimately show ?thesis by (simp add: op_good_def op_normal_def)
qed

lemma good_history_unique:
  "good_history S \<Longrightarrow> x \<in> normalize_op ` S \<Longrightarrow> y \<in> normalize_op ` S \<Longrightarrow>
    op_authorDeviceId x = op_authorDeviceId y \<Longrightarrow> op_authorSeq x = op_authorSeq y \<Longrightarrow> x = y"
  unfolding good_history_alt by blast

lemma pulled_set:
  assumes g: "good_history (set l \<union> set r)"
    and a: "analyzeCrdtOps lc l = Some a"
    and b: "selectCrdtOpsForSync lc r (an_versionVector a) None = Some batch"
  shows "set (dedupeCrdtOps (l @ batch)) = normalize_op ` (set l \<union> set r)"
proof -
  let ?N = "\<lambda>xs. set (dedupeCrdtOps xs)"
  have lr: "?N l = normalize_op ` set l" "?N r = normalize_op ` set r"
    by (rule good_history_dedupe [OF g], simp)+
  have good: "\<forall>x \<in> ?N l \<union> ?N r. op_good x"
    using good_history_op_good [OF g] by (auto simp: lr image_Un)
  have uniq: "x = y" if xy: "x \<in> ?N l \<union> ?N r" "y \<in> ?N l \<union> ?N r"
    "op_authorDeviceId x = op_authorDeviceId y" "op_authorSeq x = op_authorSeq y" for x y
    by (rule good_history_unique [OF g]) (use xy lr in \<open>auto simp: image_Un\<close>)
  have "set batch = set (select_all lc r (buildContiguousVersionVector (dedupeCrdtOps l)))"
    using b analyze_Some(5) [OF a] by (simp add: select_all_def)
  then have un: "?N l \<union> set batch = ?N l \<union> ?N r"
    using crdt_sync.pull_union [OF good, of lc] uniq by blast
  have sub: "set (l @ batch) \<subseteq> (set l \<union> set r) \<union> normalize_op ` (set l \<union> set r)"
    using un lr by auto
  have "?N (l @ batch) = normalize_op ` set (l @ batch)"
    by (rule good_history_dedupe [OF good_history_normalize [OF g] sub])
  also have "\<dots> = ?N l \<union> normalize_op ` set batch" by (simp add: lr image_Un)
  also have "normalize_op ` set batch = set batch"
  proof -
    have "normalize_op x = x" if "x \<in> set batch" for x
      using un that good by (auto simp: op_good_def op_normal_def)
    then show ?thesis by simp
  qed
  finally show ?thesis using un lr by (simp add: image_Un)
qed

section \<open>Properties\<close>

text \<open>C2: Two devices that pull from each other once, each asking for what its contiguous
  version vector does not cover and without a limit, hold the same operations afterwards and
  compute the same causal order, frontier, missing parents, version vector and messages.\<close>

theorem mutual_sync_converges:
  assumes g: "good_history (set l \<union> set r)"
    and lc: "total_comparator_on (op_strings (normalize_op ` (set l \<union> set r))) lc"
  shows "\<exists>al ar fl fr al' ar'. analyzeCrdtOps lc l = Some al \<and> analyzeCrdtOps lc r = Some ar \<and>
    selectCrdtOpsForSync lc r (an_versionVector al) None = Some fr \<and>
    selectCrdtOpsForSync lc l (an_versionVector ar) None = Some fl \<and>
    analyzeCrdtOps lc (l @ fr) = Some al' \<and> analyzeCrdtOps lc (r @ fl) = Some ar' \<and>
    set (an_ops al') = normalize_op ` (set l \<union> set r) \<and> same_analysis al' ar' \<and>
    materializeCrdtMessages lc (l @ fr) = materializeCrdtMessages lc (r @ fl)"
proof -
  obtain al where al: "analyzeCrdtOps lc l = Some al" using analyze_total by blast
  obtain ar where ar: "analyzeCrdtOps lc r = Some ar" using analyze_total by blast
  obtain fr where fr: "selectCrdtOpsForSync lc r (an_versionVector al) None = Some fr"
    using ar by (auto simp: selectCrdtOpsForSync_def Let_def)
  obtain fl where fl: "selectCrdtOpsForSync lc l (an_versionVector ar) None = Some fl"
    using al by (auto simp: selectCrdtOpsForSync_def Let_def)
  obtain al' where al': "analyzeCrdtOps lc (l @ fr) = Some al'" using analyze_total by blast
  obtain ar' where ar': "analyzeCrdtOps lc (r @ fl) = Some ar'" using analyze_total by blast
  have sl: "set (dedupeCrdtOps (l @ fr)) = normalize_op ` (set l \<union> set r)"
    by (rule pulled_set [OF g al fr])
  have "set (dedupeCrdtOps (r @ fl)) = normalize_op ` (set r \<union> set l)"
    by (rule pulled_set [OF _ ar fl]) (use g in \<open>simp add: Un_commute\<close>)
  then have "set (dedupeCrdtOps (l @ fr)) = set (dedupeCrdtOps (r @ fl))" using sl by (simp add: Un_commute)
  then have same: "same_analysis al' ar'"
    by (rule analysis_cong [OF _ _ al' ar']) (use sl lc in simp)
  then have "materializeCrdtMessages lc (l @ fr) = materializeCrdtMessages lc (r @ fl)"
    by (simp add: materializeCrdtMessages_def al' ar' same_analysis_def)
  with al ar fr fl al' ar' sl same analyze_Some(2) [OF al'] show ?thesis by metis
qed

definition demo_op :: "string \<Rightarrow> string \<Rightarrow> nat \<Rightarrow> string \<Rightarrow> string list \<Rightarrow> crdt_op" where
  "demo_op i author n h ps =
     \<lparr>op_opId = i, op_conversationId = ''c'', op_authorDeviceId = author,
       op_authorEntityType = ''mobile'', op_authorSeq = Fin (of_nat n), op_hlc = h, op_parents = ps,
       op_kind = MESSAGE_CREATE, op_payload = JObj [(''messageId'', JStr (CHR ''m'' # i))],
       op_signedAt = Fin 1, op_signature = ''s''\<rparr>"

lemma demo_op_normal:
  "js_trimmed i \<Longrightarrow> i \<noteq> [] \<Longrightarrow> js_trimmed a \<Longrightarrow> texts_normal ps \<Longrightarrow>
    normalize_op (demo_op i a n h ps) = demo_op i a n h ps"
  by (simp add: normalize_op_def demo_op_def op_pars_def js_trim_id js_count_idem js_uniq_texts_normal
      js_trimmed_def js_space_def)

lemma demo_op_sel [simp]:
  "op_opId (demo_op i a n h ps) = i" "op_authorDeviceId (demo_op i a n h ps) = a"
  "op_authorSeq (demo_op i a n h ps) = Fin (of_nat n)" "op_hlc (demo_op i a n h ps) = h"
  "op_parents (demo_op i a n h ps) = ps" "op_kind (demo_op i a n h ps) = MESSAGE_CREATE"
  by (simp_all add: demo_op_def)

definition demo_left :: "crdt_op list" where
  "demo_left = [demo_op ''a1'' ''A'' 1 ''1'' [], demo_op ''a2'' ''A'' 2 ''3'' [''a1'', ''b1'']]"

definition demo_right :: "crdt_op list" where
  "demo_right = [demo_op ''b1'' ''B'' 1 ''2'' [''a1'']]"

lemma demo_good: "good_history (set demo_left \<union> set demo_right)"
  by (simp add: good_history_def consistent_ops_def demo_left_def demo_right_def op_counted_def
      js_trim_def js_space_def object_protos_def js_leq_def js_count_idem)

lemma code_units_total: "total_comparator_on S js_string_cmp"
  by (rule total_comparator_on_subset [OF code_units.total_comparator_on_axioms]) simp

theorem mutual_sync_converges_witness:
  "\<exists>al' ar' fl fr. analyzeCrdtOps js_string_cmp (demo_left @ fr) = Some al' \<and>
    analyzeCrdtOps js_string_cmp (demo_right @ fl) = Some ar' \<and> same_analysis al' ar' \<and>
    set (an_ops al') = normalize_op ` (set demo_left \<union> set demo_right)"
  using mutual_sync_converges [OF demo_good code_units_total] by blast

text \<open>C23: \<open>analyzeCrdtOps\<close> returns for every input and every locale comparison, cycles of
  parents included, and its ordered operations are the deduplicated ones, each exactly once.\<close>

theorem analyzeCrdtOps_total:
  "\<exists>a. analyzeCrdtOps lc ops = Some a \<and> an_ops a = dedupeCrdtOps ops \<and>
    mset (an_orderedOps a) = mset (dedupeCrdtOps ops) \<and> distinct (map op_opId (an_orderedOps a))"
  using analyze_total [of lc ops] analyze_Some(2) ordered_mset ordered_distinct by metis

text \<open>C3: When the parents of the operations have no cycle, every operation comes after all of
  its known parents in \<open>orderedOps\<close>, whatever the locale comparison does.\<close>

theorem analyzeCrdtOps_causal:
  assumes "analyzeCrdtOps lc ops = Some a"
    and "acyclic (parent_rel op_opId op_pars (set (dedupeCrdtOps ops)))"
    and "an_orderedOps a = us @ op # vs" and "p \<in> set (op_pars op)" and "p \<in> op_opId ` set (dedupeCrdtOps ops)"
  shows "p \<in> op_opId ` set us"
proof -
  have "causally_ordered op_opId op_pars (set (dedupeCrdtOps ops)) (an_orderedOps a)"
    by (rule crdt.causal_order_causal [OF analyze_Some(1) [OF assms(1)] assms(2)])
  then have "set (known_parents (op_opId ` set (dedupeCrdtOps ops)) op_pars op) \<subseteq> op_opId ` set us"
    using assms(3) unfolding causally_ordered_def by blast
  then show ?thesis using assms(4,5) by (auto simp: known_parents_def)
qed

text \<open>A parent whose clock string is greater than its child's.\<close>

definition late_parent :: crdt_op where "late_parent = demo_op ''p'' ''A'' 1 ''2'' []"
definition early_child :: crdt_op where "early_child = demo_op ''c'' ''B'' 1 ''1'' [''p'']"

lemma skewed_normal:
  "normalize_op late_parent = late_parent" "normalize_op early_child = early_child"
  unfolding late_parent_def early_child_def
  by (rule demo_op_normal, simp_all add: js_trimmed_def js_space_def texts_normal_def)+

lemma skewed_sel [simp]:
  "op_opId late_parent = ''p''" "op_opId early_child = ''c''"
  "op_pars late_parent = []" "op_pars early_child = [''p'']"
  "op_hlc late_parent = ''2''" "op_hlc early_child = ''1''"
  "op_kind late_parent = MESSAGE_CREATE" "op_kind early_child = MESSAGE_CREATE"
  by (simp_all add: late_parent_def early_child_def op_pars_def normalizeCrdtParents_def js_trim_def
      js_space_def js_uniq_def js_set_add_def)

lemma skewed_dedupe: "dedupeCrdtOps [early_child, late_parent] = [early_child, late_parent]"
  by (rule dedupe_id) (simp_all add: op_normal_def skewed_normal)

lemma skewed_acyclic: "acyclic (parent_rel op_opId op_pars (set [early_child, late_parent]))"
proof -
  have "op_opId late_parent \<noteq> op_opId early_child" by simp
  then have ne: "late_parent \<noteq> early_child" by (rule contrapos_nn) simp
  have "(x, y) \<in> parent_rel op_opId op_pars (set [early_child, late_parent]) \<Longrightarrow>
      x = late_parent \<and> y = early_child" for x y
    by (auto simp: parent_rel_def)
  then have "parent_rel op_opId op_pars (set [early_child, late_parent]) \<subseteq> {(late_parent, early_child)}"
    by (auto simp only: singleton_iff prod.inject)
  moreover have "acyclic {(late_parent, early_child)}"
    using ne by (simp add: acyclic_insert acyclic_def [of "{}"])
  ultimately show ?thesis using acyclic_subset by blast
qed

lemma mset_two: "mset xs = mset [x, y] \<Longrightarrow> xs = [x, y] \<or> xs = [y, x]"
proof -
  assume m: "mset xs = mset [x, y]"
  then have "length xs = 2" using size_mset [of xs] size_mset [of "[x, y]"] by simp
  then obtain u v where "xs = [u, v]" by (auto simp: numeral_2_eq_2 length_Suc_conv)
  with m show ?thesis by (auto simp: add_eq_conv_ex)
qed

lemma skewed_ordered:
  assumes "analyzeCrdtOps lc [early_child, late_parent] = Some a"
  shows "an_orderedOps a = [late_parent, early_child]"
proof -
  have "an_orderedOps a = [early_child, late_parent] \<or> an_orderedOps a = [late_parent, early_child]"
    using ordered_mset [OF assms] unfolding skewed_dedupe by (rule mset_two)
  moreover have "causally_ordered op_opId op_pars (set [early_child, late_parent]) (an_orderedOps a)"
    using crdt.causal_order_causal [OF analyze_Some(1) [OF assms]] skewed_acyclic unfolding skewed_dedupe by blast
  then have "an_orderedOps a \<noteq> [early_child, late_parent]"
    unfolding causally_ordered_def by (fastforce simp: known_parents_def)
  ultimately show ?thesis by blast
qed

theorem analyzeCrdtOps_causal_witness:
  "\<exists>a. analyzeCrdtOps js_string_cmp [early_child, late_parent] = Some a \<and>
    ''p'' \<in> op_opId ` set [late_parent]"
proof -
  obtain a where a: "analyzeCrdtOps js_string_cmp [early_child, late_parent] = Some a"
    using analyze_total by blast
  have "''p'' \<in> op_opId ` set [late_parent]"
    by (rule analyzeCrdtOps_causal [OF a, of _ early_child "[]"])
      (use skewed_acyclic skewed_ordered [OF a] in \<open>simp_all add: skewed_dedupe\<close>)
  with a show ?thesis by blast
qed

text \<open>The frontier and the gaps are exact: \<open>leafOpIds\<close> are, without repetition, the ids of
  the operations that no operation names as a parent, and \<open>missingParentOpIds\<close> are, sorted and
  without repetition, the ids named as parents that are not among the operations.\<close>

theorem frontier_exact:
  assumes "analyzeCrdtOps lc ops = Some a"
  shows "distinct (an_leafOpIds a) \<and>
    set (an_leafOpIds a) = op_opId ` set (an_ops a) - (\<Union>op \<in> set (an_ops a). set (op_parents op)) \<and>
    distinct (an_missingParentOpIds a) \<and> cmp_sorted js_string_cmp (an_missingParentOpIds a) \<and>
    set (an_missingParentOpIds a) = (\<Union>op \<in> set (an_ops a). set (op_parents op)) - op_opId ` set (an_ops a)"
proof -
  note an = analyze_Some [OF assms]
  have par: "(\<Union>op \<in> set (dedupeCrdtOps ops). set (op_parents op)) =
      (\<Union>op \<in> set (dedupeCrdtOps ops). set (op_pars op))"
    using op_normal_sel(5) [OF dedupe_normal] by (intro SUP_cong) auto
  have "distinct (an_leafOpIds a)" using ordered_distinct [OF assms] by (simp add: an(3) leaf_ids_def)
  moreover have "cmp_sorted js_string_cmp (an_missingParentOpIds a)"
    unfolding an(4) by (rule code_units.sorted_js_sort) simp
  ultimately show ?thesis
    using crdt.leaf_ids_set [OF an(1)] by (simp add: an(2,3,4) par build_graph_missing)
qed

theorem frontier_exact_witness:
  "\<exists>a. analyzeCrdtOps js_string_cmp [early_child, late_parent] = Some a \<and> set (an_leafOpIds a) = {''c''}"
proof -
  obtain a where a: "analyzeCrdtOps js_string_cmp [early_child, late_parent] = Some a"
    using analyze_total by blast
  have p: "op_parents early_child = [''p'']" "op_parents late_parent = []"
    by (simp_all add: early_child_def late_parent_def)
  from frontier_exact [OF a] have "set (an_leafOpIds a) = {''c''}"
    by (simp add: analyze_Some(2) [OF a] skewed_dedupe p) blast
  with a show ?thesis by blast
qed

text \<open>C24: Two replicas that hold the same operations, whatever the order and the number of times
  they arrived, compute the same causal order, frontier, missing parents and version vector.\<close>

theorem replicas_agree:
  assumes "set xs = set ys" "consistent_ops (set xs)"
    and "total_comparator_on (op_strings (deduped_set (set xs))) lc"
    and "analyzeCrdtOps lc xs = Some a" "analyzeCrdtOps lc ys = Some b"
  shows "same_analysis a b"
  by (rule analysis_cong [OF _ _ assms(4,5)]) (use assms in \<open>simp_all add: set_dedupe\<close>)

theorem replicas_agree_witness:
  "\<exists>a b. analyzeCrdtOps js_string_cmp [early_child, late_parent] = Some a \<and>
    analyzeCrdtOps js_string_cmp [late_parent, early_child, late_parent] = Some b \<and> same_analysis a b"
proof -
  obtain a where a: "analyzeCrdtOps js_string_cmp [early_child, late_parent] = Some a"
    using analyze_total by blast
  obtain b where b: "analyzeCrdtOps js_string_cmp [late_parent, early_child, late_parent] = Some b"
    using analyze_total by blast
  have "same_analysis a b"
    by (rule replicas_agree [OF _ _ code_units_total a b])
      (auto simp: consistent_ops_def js_trim_def js_space_def)
  with a b show ?thesis by blast
qed

text \<open>C15: \<open>versionVector\<close> is the greatest contiguous sequence number: the number n it gives for a
  device is such that the device's operations 1..n are all held and its operation n + 1 is not.
  \<open>observedVersionVector\<close> gives the greatest number held.\<close>

theorem version_vectors_exact:
  assumes "analyzeCrdtOps lc ops = Some a" "k \<notin> set object_protos"
  shows "(\<exists>n. vv_read (an_versionVector a) k = Fin (of_nat n) \<and>
      (\<forall>i. 1 \<le> i \<and> i \<le> n \<longrightarrow> Fin (of_nat i) \<in> author_seqs (set (an_ops a)) k) \<and>
      Fin (of_nat (n + 1)) \<notin> author_seqs (set (an_ops a)) k) \<and>
    (\<forall>s \<in> author_seqs (set (an_ops a)) k. \<not> js_less (vv_read (an_observedVersionVector a) k) s) \<and>
    vv_read (an_observedVersionVector a) k \<in> insert (Fin 0) (author_seqs (set (an_ops a)) k)"
proof -
  note an = analyze_Some [OF assms(1)]
  have z: "vv_read [] k = Fin 0" using assms(2) by (simp add: vv_read_def)
  have obs: "(\<forall>s \<in> author_seqs (set (an_ops a)) k. \<not> js_less (vv_read (an_observedVersionVector a) k) s) \<and>
      vv_read (an_observedVersionVector a) k \<in> insert (Fin 0) (author_seqs (set (an_ops a)) k)"
    using fold_observed_map_of [OF assms(2), of "[]" "dedupeCrdtOps ops"]
    by (simp add: z an buildObservedVersionVector_def)
  obtain n where "vv_read (an_versionVector a) k = Fin (of_nat n)"
    "\<And>i. 1 \<le> i \<Longrightarrow> i \<le> n \<Longrightarrow> Fin (of_nat i) \<in> author_seqs (set (an_ops a)) k"
    "Fin (of_nat (n + 1)) \<notin> author_seqs (set (an_ops a)) k"
    unfolding an(2,5) by (rule contiguous_vv [OF assms(2), of "dedupeCrdtOps ops"]) blast
  with obs show ?thesis by blast
qed

lemma skewed_seqs: "author_seqs (set [early_child, late_parent]) ''A'' = {Fin 1}"
proof -
  have "op_counted late_parent" "trim_id (op_authorDeviceId late_parent) = ''A''"
    "trim_id (op_authorDeviceId early_child) = ''B''" "js_count (op_authorSeq late_parent) = Fin 1"
    by (simp_all add: op_counted_def late_parent_def early_child_def js_trim_def js_space_def js_leq_def)
  then show ?thesis by (auto simp: author_seqs_def intro!: exI [of _ late_parent])
qed

theorem version_vectors_exact_witness:
  "\<exists>a. analyzeCrdtOps js_string_cmp [early_child, late_parent] = Some a \<and>
    vv_read (an_versionVector a) ''A'' = Fin 1"
proof -
  obtain a where a: "analyzeCrdtOps js_string_cmp [early_child, late_parent] = Some a"
    using analyze_total by blast
  have o: "set (an_ops a) = set [early_child, late_parent]"
    by (simp add: analyze_Some(2) [OF a] skewed_dedupe)
  have "''A'' \<notin> set object_protos" by (simp add: object_protos_def)
  from version_vectors_exact [OF a this] obtain n where n:
    "vv_read (an_versionVector a) ''A'' = Fin (of_nat n)"
    "\<forall>i. 1 \<le> i \<and> i \<le> n \<longrightarrow> Fin (of_nat i) \<in> {Fin 1}" "Fin (of_nat (n + 1)) \<notin> {Fin 1}"
    unfolding o skewed_seqs by blast
  have "n = 1" using n(2) [rule_format, of n] n(3) by (cases n) auto
  with n(1) a show ?thesis by simp
qed

text \<open>\<open>selectCrdtOpsForSync\<close> without a limit returns, in causal order, exactly the operations
  whose number is greater than the one the peer's vector has for their device; with a limit it
  returns a prefix of that list, at most \<open>limit\<close> long and not empty unless the list is.\<close>

theorem select_exact:
  assumes "analyzeCrdtOps lc ops = Some a" "vv_normal want"
  shows "selectCrdtOpsForSync lc ops want None =
      Some (filter (\<lambda>op. js_less (vv_read want (op_authorDeviceId op)) (op_authorSeq op)) (an_orderedOps a)) \<and>
    selectCrdtOpsForSync lc ops want (Some (Fin (of_nat n))) =
      Some (take (max 1 n)
        (filter (\<lambda>op. js_less (vv_read want (op_authorDeviceId op)) (op_authorSeq op)) (an_orderedOps a)))"
proof -
  have "trim_id (op_authorDeviceId op) = op_authorDeviceId op \<and> js_count (op_authorSeq op) = op_authorSeq op"
    if "op \<in> set (an_orderedOps a)" for op
    using op_normal_sel [OF dedupe_normal, of op ops] that set_ordered [OF assms(1)] by simp
  then have "filter (op_wanted want) (an_orderedOps a) =
    filter (\<lambda>op. js_less (vv_read want (op_authorDeviceId op)) (op_authorSeq op)) (an_orderedOps a)"
    by (intro filter_cong) (auto simp: op_wanted_def)
  moreover have "js_slice_to (js_max (Fin 1) (Fin (of_nat n))) xs = take (max 1 n) xs" for xs :: "crdt_op list"
    by (auto simp: js_slice_to_def max_def)
  ultimately show ?thesis by (simp only: select_Some [OF assms] option.case js_trunc_nat simp_thms)
qed

theorem select_exact_witness:
  "\<exists>a. analyzeCrdtOps js_string_cmp [early_child, late_parent] = Some a \<and>
    selectCrdtOpsForSync js_string_cmp [early_child, late_parent] [(''A'', Fin 1)] None = Some [early_child]"
proof -
  obtain a where a: "analyzeCrdtOps js_string_cmp [early_child, late_parent] = Some a"
    using analyze_total by blast
  have v: "vv_normal [(''A'', Fin 1)]" by (simp add: vv_normal_def js_trimmed_def js_space_def)
  have f: "op_authorDeviceId late_parent = ''A''" "op_authorDeviceId early_child = ''B''"
    "op_authorSeq late_parent = Fin 1" "op_authorSeq early_child = Fin 1"
    by (simp_all add: late_parent_def early_child_def)
  have r: "vv_read [(''A'', Fin 1)] ''A'' = Fin 1" "vv_read [(''A'', Fin 1)] ''B'' = Fin 0"
    by (simp_all add: vv_read_def object_protos_def js_or_zero_count)
  show ?thesis using select_exact [OF a v] a skewed_ordered [OF a] by (simp add: f r)
qed

lemma dedupe_append_held:
  assumes "set batch \<subseteq> set (dedupeCrdtOps l)" shows "dedupeCrdtOps (l @ batch) = dedupeCrdtOps l"
proof -
  have "fold dedupe_step batch (dedupeCrdtOps l) = dedupeCrdtOps l"
    using assms
  proof (induction batch)
    case (Cons op batch)
    then have op: "op \<in> set (dedupeCrdtOps l)" by simp
    then have "trim_id (op_opId op) = op_opId op" using op_normal_sel [OF dedupe_normal] by simp
    with op have "dedupe_step op (dedupeCrdtOps l) = dedupeCrdtOps l" by (simp add: dedupe_step_def)
    with Cons show ?case by simp
  qed simp
  then show ?thesis by (simp add: dedupeCrdtOps_def)
qed

text \<open>Pulling with a limit can stall for ever: when the first \<open>n\<close> operations that a peer
  would send are held already (they lie behind a gap, so the contiguous vector does not cover
  them), a pull with limit \<open>n\<close> changes nothing, and the next one asks for the same again.\<close>

theorem limited_pull_stalls:
  assumes "analyzeCrdtOps lc l = Some a" "1 \<le> n"
    and "selectCrdtOpsForSync lc r (an_versionVector a) None = Some missing"
    and "set (take n missing) \<subseteq> set (an_ops a)"
  shows "\<exists>batch. selectCrdtOpsForSync lc r (an_versionVector a) (Some (Fin (of_nat n))) = Some batch \<and>
    analyzeCrdtOps lc (l @ batch) = Some a"
proof -
  obtain b where b: "analyzeCrdtOps lc r = Some b" using analyze_total by blast
  have v: "vv_normal (an_versionVector a)" using contiguous_vv_normal by (simp add: analyze_Some(5) [OF assms(1)])
  have s: "js_slice_to (js_max (Fin 1) (js_trunc (Fin (of_nat n)))) xs = take n xs" for xs :: "crdt_op list"
    unfolding js_trunc_nat using assms(2) by (auto simp: js_slice_to_def max_def)
  have "selectCrdtOpsForSync lc r (an_versionVector a) (Some (Fin (of_nat n))) = Some (take n missing)"
    using assms(3) unfolding select_Some [OF b v] by (simp only: option.case s option.inject)
  moreover have "dedupeCrdtOps (l @ take n missing) = dedupeCrdtOps l"
    by (rule dedupe_append_held) (use assms(4) analyze_Some(2) [OF assms(1)] in simp)
  then have "analyzeCrdtOps lc (l @ take n missing) = Some a"
    using assms(1) by (simp add: analyzeCrdtOps_def)
  ultimately show ?thesis by blast
qed

definition gap_op :: crdt_op where "gap_op = demo_op ''a3'' ''A'' 3 ''1'' []"
definition lost_op :: crdt_op where "lost_op = demo_op ''b1'' ''B'' 1 ''2'' []"

theorem limited_pull_stalls_witness:
  "\<exists>a batch. analyzeCrdtOps js_string_cmp [gap_op] = Some a \<and> lost_op \<notin> set (an_ops a) \<and>
    selectCrdtOpsForSync js_string_cmp [gap_op, lost_op] (an_versionVector a) (Some (Fin 1)) = Some batch \<and>
    analyzeCrdtOps js_string_cmp ([gap_op] @ batch) = Some a"
proof -
  obtain a where a: "analyzeCrdtOps js_string_cmp [gap_op] = Some a" using analyze_total by blast
  have "normalize_op gap_op = gap_op"
    unfolding gap_op_def by (rule demo_op_normal) (simp_all add: js_trimmed_def js_space_def texts_normal_def)
  then have d: "an_ops a = [gap_op]"
    unfolding analyze_Some(2) [OF a] by (intro dedupe_id) (simp_all add: op_normal_def gap_op_def)
  have v: "an_versionVector a = [(''A'', Fin 0)]"
    unfolding analyze_Some(5) [OF a] by code_simp
  have "selectCrdtOpsForSync js_string_cmp [gap_op, lost_op] [(''A'', Fin 0)] None = Some [gap_op, lost_op]"
    by code_simp
  then have "\<exists>batch. selectCrdtOpsForSync js_string_cmp [gap_op, lost_op] (an_versionVector a)
      (Some (Fin (of_nat 1))) = Some batch \<and> analyzeCrdtOps js_string_cmp ([gap_op] @ batch) = Some a"
    by (intro limited_pull_stalls [OF a, of 1 "[gap_op, lost_op]" "[gap_op, lost_op]"]) (simp_all add: v d)
  moreover have "lost_op \<notin> set (an_ops a)"
    by (simp add: d lost_op_def gap_op_def demo_op_def)
  ultimately show ?thesis using a by auto
qed

text \<open>The messages that the loop of \<open>materializeCrdtMessages\<close> collects.\<close>

definition creates :: "crdt_op \<Rightarrow> string \<Rightarrow> bool" where
  "creates op i =
     (op_kind op = MESSAGE_CREATE \<and> i \<noteq> [] \<and> normalizeCrdtId (js_get (op_payload op) ''messageId'') = i)"

lemma message_of_id [simp]: "cm_messageId (message_of op) = normalizeCrdtId (js_get (op_payload op) ''messageId'')"
  by (simp add: message_of_def Let_def)

lemma materialize_step_cases:
  "materialize_step op ms =
     (if (\<exists>i. creates op i \<and> i \<notin> cm_messageId ` set ms) then ms @ [message_of op] else ms)"
  by (auto simp: materialize_step_def creates_def Let_def)

lemma fold_materialize:
  "distinct (map cm_messageId (fold materialize_step ops [])) \<and>
   set (fold materialize_step ops []) =
     {message_of op | us op vs i. ops = us @ op # vs \<and> creates op i \<and> (\<forall>u \<in> set us. \<not> creates u i)} \<and>
   cm_messageId ` set (fold materialize_step ops []) = {i. \<exists>op \<in> set ops. creates op i}"
proof (induction ops rule: rev_induct)
  case (snoc op ops)
  let ?ms = "fold materialize_step ops []"
  let ?F = "\<lambda>ops. {message_of op | us op vs i. ops = us @ op # vs \<and> creates op i \<and> (\<forall>u \<in> set us. \<not> creates u i)}"
  have ids: "cm_messageId ` set ?ms = {i. \<exists>op \<in> set ops. creates op i}" using snoc by blast
  have split: "ops @ [op] = us @ x # vs \<longleftrightarrow> (vs = [] \<and> us = ops \<and> x = op) \<or>
      (\<exists>vs'. vs = vs' @ [op] \<and> ops = us @ x # vs')" for us x vs
    by (cases vs rule: rev_cases) auto
  have F: "?F (ops @ [op]) = ?F ops \<union> {message_of op | i. creates op i \<and> (\<forall>u \<in> set ops. \<not> creates u i)}"
    unfolding split by blast
  have new: "(\<exists>i. creates op i \<and> i \<notin> cm_messageId ` set ?ms) \<longleftrightarrow>
      (\<exists>i. creates op i \<and> (\<forall>u \<in> set ops. \<not> creates u i))"
    unfolding ids by blast
  have cid: "creates op i \<Longrightarrow> cm_messageId (message_of op) = i" for i by (simp add: creates_def)
  show ?case
  proof (cases "\<exists>i. creates op i \<and> (\<forall>u \<in> set ops. \<not> creates u i)")
    case True
    then obtain i where i: "creates op i" "\<forall>u \<in> set ops. \<not> creates u i" by blast
    have st: "fold materialize_step (ops @ [op]) [] = ?ms @ [message_of op]"
      using True new by (simp add: materialize_step_cases)
    have "{message_of op | i. creates op i \<and> (\<forall>u \<in> set ops. \<not> creates u i)} = {message_of op}"
      using True by blast
    moreover have "creates op j \<longleftrightarrow> j = i" for j using i by (auto simp: creates_def)
    ultimately show ?thesis
      using snoc i cid [OF i(1)] ids unfolding st F by auto
  next
    case False
    then have st: "fold materialize_step (ops @ [op]) [] = ?ms"
      using new by (simp add: materialize_step_cases)
    have e: "{i. \<exists>op \<in> set (ops @ [op]). creates op i} = {i. \<exists>op \<in> set ops. creates op i}"
      "{message_of op | i. creates op i \<and> (\<forall>u \<in> set ops. \<not> creates u i)} = {}"
      using False by auto
    show ?thesis unfolding st F e Un_empty_right by (rule snoc)
  qed
qed simp

text \<open>The operations that are the first in a list to create their message.\<close>

definition first_creates :: "crdt_op list \<Rightarrow> crdt_op \<Rightarrow> bool" where
  "first_creates ops op =
     (\<exists>us vs i. ops = us @ op # vs \<and> creates op i \<and> (\<forall>u \<in> set us. \<not> creates u i))"

text \<open>\<open>materializeCrdtMessages\<close> always returns, with exactly one message for each message id
  that some \<open>message.create\<close> operation names, and that message is the one of the first such
  operation in causal order.\<close>

theorem materialize_first_create:
  "\<exists>a ms. analyzeCrdtOps lc ops = Some a \<and> materializeCrdtMessages lc ops = Some ms \<and>
    distinct (map cm_messageId ms) \<and>
    cm_messageId ` set ms = {i. \<exists>op \<in> set (dedupeCrdtOps ops). creates op i} \<and>
    set ms = message_of ` {op. first_creates (an_orderedOps a) op}"
proof -
  obtain a where a: "analyzeCrdtOps lc ops = Some a" using analyze_total by blast
  let ?c = "fold materialize_step (an_orderedOps a) []"
  let ?ms = "js_sort (message_cmp lc (an_orderedOps a)) ?c"
  have m: "materializeCrdtMessages lc ops = Some ?ms" by (simp add: materializeCrdtMessages_def a)
  have f: "distinct (map cm_messageId ?c)"
    "set ?c = message_of ` {op. first_creates (an_orderedOps a) op}"
    "cm_messageId ` set ?c = {i. \<exists>op \<in> set (an_orderedOps a). creates op i}"
    using fold_materialize [of "an_orderedOps a"] unfolding first_creates_def by blast+
  show ?thesis
    using a m f by (intro exI [of _ a] exI [of _ ?ms]) (simp add: set_ordered [OF a])
qed

text \<open>The messages are not in causal order when clocks are skewed: a reply whose clock string
  is smaller than that of the message it answers is listed before it, although \<open>orderedOps\<close> has
  the two the other way round and every comparison is by code units.\<close>

theorem materialized_order_not_causal:
  "\<exists>a ms. analyzeCrdtOps js_string_cmp [early_child, late_parent] = Some a \<and>
    map op_opId (an_orderedOps a) = [''p'', ''c''] \<and> ''p'' \<in> set (op_pars early_child) \<and>
    materializeCrdtMessages js_string_cmp [early_child, late_parent] = Some ms \<and>
    map cm_opId ms = [''c'', ''p'']"
proof -
  obtain a where a: "analyzeCrdtOps js_string_cmp [early_child, late_parent] = Some a"
    using analyze_total by blast
  have "map_option (map cm_opId) (materializeCrdtMessages js_string_cmp [early_child, late_parent]) =
    Some [''c'', ''p'']"
    by code_simp
  with a skewed_ordered [OF a] show ?thesis by auto
qed

text \<open>The summary of a conversation is the frontier and the contiguous vector of the
  operations of that conversation alone, in normal form, and it fails exactly for a blank id.\<close>

theorem summary_exact:
  "\<exists>a. analyzeCrdtOps lc (filter (\<lambda>op. op_conversationId op = js_trim cid) (dedupeCrdtOps ops)) = Some a \<and>
    an_ops a = filter (\<lambda>op. op_conversationId op = js_trim cid) (dedupeCrdtOps ops) \<and>
    summarizeCrdtConversation lc cid ops =
      Some (if js_trim cid = [] then Inl ''conversationId is required''
        else Inr \<lparr>sum_conversationId = js_trim cid, sum_versionVector = an_versionVector a,
          sum_frontier = an_leafOpIds a\<rparr>)"
proof -
  let ?f = "filter (\<lambda>op. op_conversationId op = js_trim cid) (dedupeCrdtOps ops)"
  have f: "filter (\<lambda>op. trim_id (op_conversationId op) = trim_id cid) (dedupeCrdtOps ops) = ?f"
    using op_normal_sel(3) [OF dedupe_normal] by (intro filter_cong) auto
  obtain a where a: "analyzeCrdtOps lc ?f = Some a" using analyze_total by blast
  have v: "vv_normal (an_versionVector a)" using contiguous_vv_normal by (simp add: analyze_Some(5) [OF a])
  have "texts_normal (an_leafOpIds a)"
  proof -
    have "js_trimmed i \<and> i \<noteq> []" if i: "i \<in> op_opId ` set (dedupeCrdtOps ?f)" for i
    proof -
      from i obtain op where op: "op \<in> set (dedupeCrdtOps ?f)" "i = op_opId op" by blast
      then show ?thesis using op_normal_sel(1) [OF dedupe_normal [OF op(1)]] dedupe_normal [OF op(1)]
          js_trim_trimmed [of i] by (simp add: op_normal_def del: js_trim_trimmed)
    qed
    moreover have "set (an_leafOpIds a) \<subseteq> op_opId ` set (dedupeCrdtOps ?f)"
      unfolding analyze_Some(3) [OF a] using set_ordered [OF a] by (auto simp: leaf_ids_def)
    moreover have "distinct (an_leafOpIds a)"
      unfolding analyze_Some(3) [OF a] using ordered_distinct [OF a] by (simp add: leaf_ids_def)
    ultimately show ?thesis unfolding texts_normal_def by blast
  qed
  then have "summarizeCrdtConversation lc cid ops =
      Some (if js_trim cid = [] then Inl ''conversationId is required''
        else Inr \<lparr>sum_conversationId = js_trim cid, sum_versionVector = an_versionVector a,
          sum_frontier = an_leafOpIds a\<rparr>)"
    unfolding summarizeCrdtConversation_def f a
    by (simp add: createCrdtConversationSummary_def normalizeCrdtVersionVector_id [OF v] js_uniq_texts_normal)
  with a analyze_Some(2) [OF a] show ?thesis by (simp add: dedupe_filter)
qed

end
