(* ===== verification/PairApp.thy ===== *)
theory PairApp
  imports JsCollections JsDate
begin

text \<open>
  The application layer of the pair SDK: packages/pair-sdk/src/app.ts (the registry of
  application modules, its capabilities and its dispatch) and packages/pair-sdk/src/naming.ts
  (connection names), with the message and capability types of packages/pair-sdk/src/peer.ts.
  The label of a connection name is two Chinese characters, which lie outside the modelled
  character set; it is the argument \<open>label\<close>, a string without white space.
\<close>

section \<open>Types\<close>

datatype PairV2EntityType = Desktop | Mobile

fun entity_name :: "PairV2EntityType \<Rightarrow> string" where
  "entity_name Desktop = ''desktop''"
| "entity_name Mobile = ''mobile''"

record app_message =
  am_type :: string
  am_payload :: jsval
  am_ts :: jsnum
  am_from :: PairV2EntityType

record pair_capabilities =
  cap_protocolVersion :: string
  cap_supportedMessages :: "string list"
  cap_features :: "string list option"
  cap_appId :: "string option"
  cap_appVersion :: "string option"

text \<open>
  A module's handler runs on the state of the application and either returns (the new state)
  or throws.
\<close>

record 's app_module =
  mod_id :: string
  mod_feature :: "string option"
  mod_supportedMessages :: "string list"
  mod_onMessage :: "app_message \<Rightarrow> 's \<Rightarrow> string + 's"

section \<open>The registry\<close>

text \<open>\<open>String(v || fallback).trim() || fallback\<close>, and \<open>String(v || '').trim() || undefined\<close>.\<close>

definition text_or :: "string \<Rightarrow> jsval \<Rightarrow> string" where
  "text_or d v =
     (let s = js_trim (js_to_string (js_or v (JStr d))) in if s = [] then d else s)"

definition opt_text :: "jsval \<Rightarrow> string option" where
  "opt_text v = (if js_text v = [] then None else Some (js_text v))"

definition uniqueTrimmedStrings :: "jsval list \<Rightarrow> string list" where
  "uniqueTrimmedStrings values = js_uniq_vals values"

definition registry_messages :: "'s app_module list \<Rightarrow> string list" where
  "registry_messages ms = uniqueTrimmedStrings (map JStr (concat (map mod_supportedMessages ms)))"

definition registry_features :: "'s app_module list \<Rightarrow> string list" where
  "registry_features ms =
     uniqueTrimmedStrings (map (\<lambda>m. case mod_feature m of Some f \<Rightarrow> JStr f | None \<Rightarrow> JUndef) ms)"

definition registry_buildCapabilities :: "'s app_module list \<Rightarrow> jsval \<Rightarrow> pair_capabilities" where
  "registry_buildCapabilities ms base =
     \<lparr>cap_protocolVersion = text_or ''openclaw-pair-v2'' (js_get base ''protocolVersion''),
       cap_supportedMessages = uniqueTrimmedStrings
         (js_array (js_get base ''supportedMessages'') @ map JStr (registry_messages ms)),
       cap_features = Some (uniqueTrimmedStrings
         (js_array (js_get base ''features'') @ map JStr (registry_features ms))),
       cap_appId = opt_text (js_get base ''appId''),
       cap_appVersion = opt_text (js_get base ''appVersion'')\<rparr>"

definition registry_supports :: "'s app_module list \<Rightarrow> string \<Rightarrow> bool" where
  "registry_supports ms type =
     (let normalized = js_trim type
      in if normalized = [] then False else normalized \<in> set (registry_messages ms))"

text \<open>
  \<open>dispatch\<close> awaits the handler of every module that lists the type, in registration order; a
  handler that throws ends it. The result says whether some module handled the message.
\<close>

fun dispatch_from :: "'s app_module list \<Rightarrow> app_message \<Rightarrow> bool \<Rightarrow> 's \<Rightarrow> string + (bool \<times> 's)" where
  "dispatch_from [] msg handled s = Inr (handled, s)"
| "dispatch_from (m # ms) msg handled s =
     (if am_type msg \<notin> set (mod_supportedMessages m) then dispatch_from ms msg handled s
      else case mod_onMessage m msg s of
             Inl err \<Rightarrow> Inl err
           | Inr s' \<Rightarrow> dispatch_from ms msg True s')"

definition registry_dispatch :: "'s app_module list \<Rightarrow> app_message \<Rightarrow> 's \<Rightarrow> string + (bool \<times> 's)" where
  "registry_dispatch ms msg s = dispatch_from ms msg False s"

section \<open>Connection names\<close>

text \<open>\<open>replace(/\s+/g, ' ')\<close>.\<close>

function collapse_spaces :: "string \<Rightarrow> string" where
  "collapse_spaces [] = []"
| "collapse_spaces (c # cs) =
     (if js_space c then CHR '' '' # collapse_spaces (dropWhile js_space cs) else c # collapse_spaces cs)"
  by pat_completeness auto

termination
  by (relation "measure length") (auto simp: length_dropWhile_le less_Suc_eq_le)

definition normalizeName :: "jsval \<Rightarrow> string" where
  "normalizeName value = collapse_spaces (js_text value)"

definition ascii_alnum :: "char \<Rightarrow> bool" where
  "ascii_alnum c =
     (let n = (of_char c :: nat) in (48 \<le> n \<and> n \<le> 57) \<or> (65 \<le> n \<and> n \<le> 90) \<or> (97 \<le> n \<and> n \<le> 122))"

definition pairV2ConnectionSuffix :: "env \<Rightarrow> jsval \<Rightarrow> string" where
  "pairV2ConnectionSuffix e seed =
     (let normalized = filter ascii_alnum (filter (\<lambda>c. c \<noteq> CHR ''_'') (js_text seed))
      in if normalized \<noteq> [] then js_last_n 6 normalized
         else js_last_n 6 (js_num_to_string (e_now e)))"

definition formatPairV2ConnectionName :: "string \<Rightarrow> env \<Rightarrow> jsval \<Rightarrow> jsval \<Rightarrow> string" where
  "formatPairV2ConnectionName label e seed mobileName =
     (let suffix = pairV2ConnectionSuffix e seed; name = normalizeName mobileName
      in if name \<noteq> [] then name @ ''-'' @ label @ ''-'' @ suffix else label @ ''-'' @ suffix)"

fun generated_by :: "string \<Rightarrow> env \<Rightarrow> string \<Rightarrow> (jsval \<times> jsval) list \<Rightarrow> bool" where
  "generated_by label e v [] = False"
| "generated_by label e v ((seed, mobileName) # cs) =
     (if v = formatPairV2ConnectionName label e seed mobileName then True
      else if v = formatPairV2ConnectionName label e seed (JStr []) then True
      else generated_by label e v cs)"

definition isGeneratedPairV2ConnectionName :: "string \<Rightarrow> env \<Rightarrow> jsval \<Rightarrow> (jsval \<times> jsval) list \<Rightarrow> bool" where
  "isGeneratedPairV2ConnectionName label e value candidates =
     (let v = normalizeName value in if v = [] then False else generated_by label e v candidates)"

definition normalizePairV2MobileName :: "jsval \<Rightarrow> string" where
  "normalizePairV2MobileName value = normalizeName value"

section \<open>Lemmas on the registry\<close>

lemma set_registry_messages:
  "set (registry_messages ms) = {t. t \<noteq> [] \<and> (\<exists>m \<in> set ms. t \<in> js_trim ` set (mod_supportedMessages m))}"
  by (auto simp: registry_messages_def uniqueTrimmedStrings_def set_js_uniq_texts)

text \<open>The modules that handle a message, in order.\<close>

definition handlers :: "'s app_module list \<Rightarrow> app_message \<Rightarrow> 's app_module list" where
  "handlers ms msg = filter (\<lambda>m. am_type msg \<in> set (mod_supportedMessages m)) ms"

fun run_all :: "'s app_module list \<Rightarrow> app_message \<Rightarrow> 's \<Rightarrow> string + 's" where
  "run_all [] msg s = Inr s"
| "run_all (m # ms) msg s = (case mod_onMessage m msg s of Inl e \<Rightarrow> Inl e | Inr s' \<Rightarrow> run_all ms msg s')"

lemma dispatch_from_run_all:
  "dispatch_from ms msg handled s =
     (case run_all (handlers ms msg) msg s of
        Inl e \<Rightarrow> Inl e
      | Inr s' \<Rightarrow> Inr (handled \<or> handlers ms msg \<noteq> [], s'))"
  by (induction ms arbitrary: handled s) (auto simp: handlers_def split: sum.split)

text \<open>The registry delivers a message to exactly the modules that list its type, once each
  and in the order of registration, on the state the previous handler left; it reports true
  exactly when there is one, and stops at the first handler that throws.\<close>

theorem dispatch_runs_handlers:
  "registry_dispatch ms msg s =
     (case run_all (handlers ms msg) msg s of
        Inl err \<Rightarrow> Inl err
      | Inr s' \<Rightarrow> Inr (handlers ms msg \<noteq> [], s'))"
  by (simp add: registry_dispatch_def dispatch_from_run_all split: sum.split)

text \<open>What the registry advertises and what it dispatches agree when the types are registered
  trimmed: a message is handled only if \<open>supports\<close> says so, and every advertised type that
  \<open>supports\<close> accepts is in the capabilities built on any base.\<close>

theorem advertised_iff_handled:
  assumes "\<And>m t. m \<in> set ms \<Longrightarrow> t \<in> set (mod_supportedMessages m) \<Longrightarrow> t \<noteq> [] \<and> js_trimmed t"
    and "js_trimmed (am_type msg)"
  shows "registry_supports ms (am_type msg) = (handlers ms msg \<noteq> []) \<and>
    (registry_supports ms (am_type msg) \<longrightarrow>
      am_type msg \<in> set (cap_supportedMessages (registry_buildCapabilities ms base)))"
proof -
  have t: "js_trim (am_type msg) = am_type msg" using assms(2) by (rule js_trim_id)
  have "am_type msg \<in> set (registry_messages ms) \<longleftrightarrow>
    (\<exists>m \<in> set ms. am_type msg \<in> set (mod_supportedMessages m))"
    using assms(1) by (auto simp: set_registry_messages js_trim_id image_iff)
  moreover have "am_type msg \<noteq> []" if "m \<in> set ms" "am_type msg \<in> set (mod_supportedMessages m)" for m
    using assms(1) that by blast
  ultimately have "registry_supports ms (am_type msg) = (handlers ms msg \<noteq> [])"
    by (auto simp: registry_supports_def Let_def t handlers_def filter_empty_conv)
  moreover have "am_type msg \<in> set (cap_supportedMessages (registry_buildCapabilities ms base))"
    if "registry_supports ms (am_type msg)"
  proof -
    have "am_type msg \<noteq> []" "am_type msg \<in> set (registry_messages ms)"
      using that by (auto simp: registry_supports_def Let_def t split: if_splits)
    then show ?thesis
      by (auto simp: registry_buildCapabilities_def uniqueTrimmedStrings_def js_uniq_vals_def t image_iff
          intro!: bexI [of _ "am_type msg"])
  qed
  ultimately show ?thesis by blast
qed

theorem advertised_iff_handled_witness:
  "registry_supports [\<lparr>mod_id = ''m'', mod_feature = None, mod_supportedMessages = [''app.x''],
      mod_onMessage = (\<lambda>msg s. Inr (Suc s))\<rparr>] ''app.x''"
proof -
  let ?m = "\<lparr>mod_id = ''m'', mod_feature = None, mod_supportedMessages = [''app.x''],
      mod_onMessage = (\<lambda>msg s. Inr (Suc s))\<rparr>"
  let ?msg = "\<lparr>am_type = ''app.x'', am_payload = JObj [], am_ts = Fin 0, am_from = Mobile\<rparr>"
  have "registry_supports [?m] (am_type ?msg) = (handlers [?m] ?msg \<noteq> [])"
    by (rule conjunct1 [OF advertised_iff_handled]) (simp_all add: js_trimmed_def js_space_def)
  then show ?thesis by (simp add: handlers_def)
qed

section \<open>Lemmas on names\<close>

text \<open>Each run of white space is one blank.\<close>

fun single_spaced :: "string \<Rightarrow> bool" where
  "single_spaced [] = True"
| "single_spaced (c # cs) =
     ((js_space c \<longrightarrow> c = CHR '' '' \<and> (cs = [] \<or> \<not> js_space (hd cs))) \<and> single_spaced cs)"

lemma collapse_id: "single_spaced s \<Longrightarrow> collapse_spaces s = s"
proof (induction s rule: collapse_spaces.induct)
  case (2 c cs)
  have "js_space c \<Longrightarrow> dropWhile js_space cs = cs" using 2(3) by (intro dropWhile_id) auto
  with 2 show ?case by auto
qed simp

lemma collapse_hd:
  "s \<noteq> [] \<Longrightarrow> collapse_spaces s \<noteq> [] \<and> hd (collapse_spaces s) = (if js_space (hd s) then CHR '' '' else hd s)"
  by (cases s) auto

lemma single_spaced_collapse: "single_spaced (collapse_spaces s)"
proof (induction s rule: collapse_spaces.induct)
  case (2 c cs)
  have "js_space CHR '' ''" by (simp add: js_space_def)
  moreover have "dropWhile js_space cs \<noteq> [] \<Longrightarrow> \<not> js_space (hd (collapse_spaces (dropWhile js_space cs)))"
    using collapse_hd [of "dropWhile js_space cs"] hd_dropWhile [of js_space cs] by auto
  ultimately show ?case using 2
    by (cases "dropWhile js_space cs = []") (auto simp del: dropWhile_eq_Nil_conv)
qed simp

lemma collapse_last: "s \<noteq> [] \<Longrightarrow> \<not> js_space (last s) \<Longrightarrow> last (collapse_spaces s) = last s"
proof (induction s rule: collapse_spaces.induct)
  case (2 c cs)
  show ?case
  proof (cases "cs = []")
    case False
    have l: "\<not> js_space (last cs)" using 2(4) False by simp
    then have d: "dropWhile js_space cs \<noteq> []"
      using False by (auto simp: dropWhile_eq_Nil_conv)
    have "last (dropWhile js_space cs) = last cs" by (rule last_dropWhile [OF d])
    then show ?thesis using 2 False d l collapse_hd [of cs] collapse_hd [OF d] by auto
  qed (use 2 in auto)
qed simp

lemma normalizeName_trimmed: "js_trimmed (normalizeName v)"
proof (cases "js_text v = []")
  case False
  then have "\<not> js_space (hd (js_text v))" "\<not> js_space (last (js_text v))"
    using js_text_trimmed [of v] by (auto simp: js_trimmed_def)
  then show ?thesis using collapse_hd [OF False] collapse_last [OF False]
    by (simp add: normalizeName_def js_trimmed_def)
qed (simp add: normalizeName_def)

lemma single_spaced_append:
  "single_spaced s \<Longrightarrow> single_spaced t \<Longrightarrow> s = [] \<or> \<not> js_space (last s) \<Longrightarrow> single_spaced (s @ t)"
  by (induction s) (auto split: if_splits)

lemma single_spaced_solid: "\<forall>c \<in> set s. \<not> js_space c \<Longrightarrow> single_spaced s"
  by (induction s) auto

lemma normalizeName_id: "js_trimmed s \<Longrightarrow> single_spaced s \<Longrightarrow> normalizeName (JStr s) = s"
  by (simp add: normalizeName_def js_trim_id collapse_id)

lemma ascii_alnum_solid: "ascii_alnum c \<Longrightarrow> \<not> js_space c"
  using js_space_code [of c] by (auto simp: ascii_alnum_def Let_def)

lemma suffix_solid:
  assumes "is_count (e_now e)"
  shows "pairV2ConnectionSuffix e seed \<noteq> [] \<and> length (pairV2ConnectionSuffix e seed) \<le> 6 \<and>
    (\<forall>c \<in> set (pairV2ConnectionSuffix e seed). \<not> js_space c)"
proof -
  have n: "js_last_n 6 s \<noteq> [] \<and> length (js_last_n 6 s) \<le> 6 \<and> (\<forall>c \<in> set (js_last_n 6 s). \<not> js_space c)"
    if "s \<noteq> []" "\<forall>c \<in> set s. \<not> js_space c" for s :: string
  proof -
    have "length s - 6 < length s" using that(1) by (intro diff_less) simp_all
    then have "js_last_n 6 s \<noteq> []" by (simp add: js_last_n_def)
    moreover have "length (js_last_n 6 s) \<le> 6" by simp
    ultimately show ?thesis using that(2) set_js_last_n [of 6 s] by blast
  qed
  show ?thesis
    using n [of "filter ascii_alnum (filter (\<lambda>c. c \<noteq> CHR ''_'') (js_text seed))"]
      n [OF js_num_to_string_count(1) [OF assms]] js_num_to_string_count(2) [OF assms]
    by (auto simp: pairV2ConnectionSuffix_def Let_def ascii_alnum_solid)
qed

lemma format_normal:
  assumes l: "label \<noteq> []" "\<forall>c \<in> set label. \<not> js_space c" and e: "is_count (e_now e)"
  shows "normalizeName (JStr (formatPairV2ConnectionName label e seed mobileName)) =
      formatPairV2ConnectionName label e seed mobileName"
proof -
  let ?s = "pairV2ConnectionSuffix e seed" and ?n = "normalizeName mobileName"
  let ?t = "label @ ''-'' @ ?s"
  note s = suffix_solid [OF e, of seed]
  have t: "\<forall>c \<in> set ?t. \<not> js_space c" "?t \<noteq> []" using l s by (auto simp: js_space_def)
  have d: "\<forall>c \<in> set (''-'' @ ?t). \<not> js_space c" using t by (auto simp: js_space_def)
  have "js_trimmed ?t" using t hd_in_set [of ?t] last_in_set [of ?t] unfolding js_trimmed_def by blast
  then have a: "normalizeName (JStr ?t) = ?t"
    using single_spaced_solid [OF t(1)] by (rule normalizeName_id)
  have b: "normalizeName (JStr (?n @ ''-'' @ ?t)) = ?n @ ''-'' @ ?t" if n: "?n \<noteq> []"
  proof (rule normalizeName_id)
    have tn: "\<not> js_space (hd ?n)" "\<not> js_space (last ?n)"
      using normalizeName_trimmed [of mobileName] n by (auto simp: js_trimmed_def)
    have "last (?n @ ''-'' @ ?t) \<in> set (''-'' @ ?t)"
      by (metis append_is_Nil_conv last_appendR last_in_set list.distinct(1))
    then show "js_trimmed (?n @ ''-'' @ ?t)" using d tn n by (auto simp: js_trimmed_def)
    show "single_spaced (?n @ ''-'' @ ?t)"
      by (rule single_spaced_append)
        (use tn single_spaced_solid [OF d] single_spaced_collapse in \<open>auto simp: normalizeName_def\<close>)
  qed
  show ?thesis using a b by (simp add: formatPairV2ConnectionName_def Let_def)
qed

text \<open>A generated connection name is recognised as generated for its own seed and mobile name,
  whatever white space the mobile name has, and also for its seed alone when it was made without a
  name; the suffix has between one and six characters, none of them white space.\<close>

theorem generated_name_recognised:
  assumes "label \<noteq> []" "\<forall>c \<in> set label. \<not> js_space c" "is_count (e_now e)"
  shows "isGeneratedPairV2ConnectionName label e
      (JStr (formatPairV2ConnectionName label e seed mobileName)) (cs @ (seed, mobileName) # ds) \<and>
    isGeneratedPairV2ConnectionName label e
      (JStr (formatPairV2ConnectionName label e seed (JStr []))) (cs @ (seed, mobileName) # ds) \<and>
    pairV2ConnectionSuffix e seed \<noteq> [] \<and> length (pairV2ConnectionSuffix e seed) \<le> 6"
proof -
  have g: "generated_by label e v (cs @ (seed, mobileName) # ds)"
    if "v = formatPairV2ConnectionName label e seed mobileName \<or>
        v = formatPairV2ConnectionName label e seed (JStr [])" for v
    using that by (induction cs) auto
  have "formatPairV2ConnectionName label e seed m \<noteq> []" for m
    using assms(1) by (simp add: formatPairV2ConnectionName_def Let_def)
  then show ?thesis using g suffix_solid [OF assms(3), of seed] format_normal [OF assms]
    by (simp add: isGeneratedPairV2ConnectionName_def Let_def)
qed

theorem generated_name_recognised_witness:
  "isGeneratedPairV2ConnectionName ''link'' \<lparr>e_now = Fin 7, e_uuid = None, e_hex = []\<rparr>
     (JStr (formatPairV2ConnectionName ''link'' \<lparr>e_now = Fin 7, e_uuid = None, e_hex = []\<rparr>
       (JStr ''pair_9f-12'') (JStr '' My   Phone ''))) [(JStr ''pair_9f-12'', JStr '' My   Phone '')]"
  using generated_name_recognised [of "''link''" "\<lparr>e_now = Fin 7, e_uuid = None, e_hex = []\<rparr>"
      "JStr ''pair_9f-12''" "JStr '' My   Phone ''" "[]" "[]"]
  by (simp add: js_space_def)

end
