(* ===== verification/ChatProtocol.thy ===== *)
theory ChatProtocol
  imports PairApp CausalOrder
begin

text \<open>
  The chat messages of the message SDK: packages/message-sdk/src/openclaw-chat.ts (the graph of
  chat messages, the payloads that are sent and the events that are parsed from application
  messages) and packages/message-sdk/src/openclaw-channel.ts (channel revocation). The message
  type a caller extends \<open>OpenClawPairChatMessageLike\<close> with is the extension of the record
  \<open>chat_like\<close>; optional fields that are absent are \<open>[]\<close> and 0, which is how the code reads them.
  A payload that is sent is the JSON object the builder returns.
\<close>

section \<open>Data\<close>

definition openClawPairChatMessageType :: string where
  "openClawPairChatMessageType = ''app.openclaw.chat.message''"
definition openClawPairChatAckType :: string where
  "openClawPairChatAckType = ''app.openclaw.chat.ack''"
definition openClawPairChatSyncRequestType :: string where
  "openClawPairChatSyncRequestType = ''app.openclaw.chat.sync-request''"
definition openClawPairChatSyncStateType :: string where
  "openClawPairChatSyncStateType = ''app.openclaw.chat.sync-state''"
definition openClawPairChatPingType :: string where
  "openClawPairChatPingType = ''app.openclaw.chat.ping''"
definition openClawPairChatPongType :: string where
  "openClawPairChatPongType = ''app.openclaw.chat.pong''"
definition openClawPairChatFeature :: string where
  "openClawPairChatFeature = ''chat''"

lemmas chat_types = openClawPairChatMessageType_def openClawPairChatAckType_def
  openClawPairChatSyncRequestType_def openClawPairChatSyncStateType_def
  openClawPairChatPingType_def openClawPairChatPongType_def

datatype chat_origin = Host_origin | Mobile_origin

fun origin_name :: "chat_origin \<Rightarrow> string" where
  "origin_name Host_origin = ''host''"
| "origin_name Mobile_origin = ''mobile''"

record chat_event =
  ce_id :: string
  ce_after :: "string list"
  ce_text :: string
  ce_ts :: jsnum
  ce_from :: PairV2EntityType
  ce_origin :: chat_origin
  ce_originSeq :: jsnum

record chat_ids =
  ci_messageIds :: "string list"
  ci_ts :: jsnum
  ci_from :: PairV2EntityType

record chat_sync_state =
  cs_hostSeq :: jsnum
  cs_mobileSeq :: jsnum
  cs_leafIds :: "string list"
  cs_ts :: jsnum
  cs_from :: PairV2EntityType

record chat_ping =
  cp_id :: string
  cp_sentAt :: jsnum
  cp_ts :: jsnum
  cp_from :: PairV2EntityType

record chat_pong =
  co_id :: string
  co_sentAt :: jsnum
  co_respondedAt :: jsnum
  co_ts :: jsnum
  co_from :: PairV2EntityType

record chat_like =
  cl_id :: string
  cl_after :: "string list"
  cl_ts :: jsnum

section \<open>Identifiers and normalisers\<close>

definition supportsOpenClawPairChat :: "pair_capabilities option \<Rightarrow> bool" where
  "supportsOpenClawPairChat capabilities =
     (let supported = (case capabilities of
            Some c \<Rightarrow> filter (\<lambda>s. s \<noteq> []) (map js_trim (cap_supportedMessages c)) | None \<Rightarrow> [])
      in if supported = [] then True else openClawPairChatMessageType \<in> set supported)"

definition createOpenClawPairChatMessageId :: "env \<Rightarrow> jsnum \<Rightarrow> string" where
  "createOpenClawPairChatMessageId e ts =
     ''chat_'' @ js_num_to_string (js_whole ts) @ ''_'' @ take 8 (drop 2 (e_hex e))"

definition createOpenClawPairChatProbeId :: "env \<Rightarrow> jsnum \<Rightarrow> string" where
  "createOpenClawPairChatProbeId e ts =
     ''chatping_'' @ js_num_to_string (js_whole ts) @ ''_'' @ take 8 (drop 2 (e_hex e))"

definition normalizeOpenClawPairChatAfterIds :: "jsval \<Rightarrow> string list" where
  "normalizeOpenClawPairChatAfterIds values =
     js_uniq (filter (\<lambda>s. s \<noteq> []) (map js_text (js_array values)))"

abbreviation after_ids :: "string list \<Rightarrow> string list" where
  "after_ids ss \<equiv> normalizeOpenClawPairChatAfterIds (JArr (map JStr ss))"

section \<open>The graph\<close>

definition compareMessageOrder ::
  "(string \<Rightarrow> string \<Rightarrow> int) \<Rightarrow> 'a chat_like_scheme \<Rightarrow> 'a chat_like_scheme \<Rightarrow> int" where
  "compareMessageOrder lc left right =
     (if js_or_zero (cl_ts left) \<noteq> js_or_zero (cl_ts right)
      then js_diff_sign (js_or_zero (cl_ts left)) (js_or_zero (cl_ts right))
      else lc (cl_id left) (cl_id right))"

definition chat_node :: "'a chat_like_scheme \<Rightarrow> 'a chat_like_scheme" where
  "chat_node m = m\<lparr>cl_id := js_trim (cl_id m), cl_after := after_ids (cl_after m),
     cl_ts := js_or_zero (cl_ts m)\<rparr>"

definition index_step ::
  "'a chat_like_scheme \<Rightarrow> (string \<times> 'a chat_like_scheme) list \<Rightarrow> (string \<times> 'a chat_like_scheme) list" where
  "index_step m byId =
     (if js_trim (cl_id m) = [] then byId else AList.update (js_trim (cl_id m)) (chat_node m) byId)"

definition index_messages :: "'a chat_like_scheme list \<Rightarrow> (string \<times> 'a chat_like_scheme) list" where
  "index_messages messages = fold index_step messages []"

definition chat_pars :: "'a chat_like_scheme \<Rightarrow> string list" where
  "chat_pars m = after_ids (cl_after m)"

record 'm chat_analysis =
  ca_ordered :: "'m list"
  ca_leafIds :: "string list"
  ca_missingIds :: "string list"

definition analyzeOpenClawPairChatGraph ::
  "(string \<Rightarrow> string \<Rightarrow> int) \<Rightarrow> 'a chat_like_scheme list \<Rightarrow> 'a chat_like_scheme chat_analysis option" where
  "analyzeOpenClawPairChatGraph lc messages =
     (let byId = index_messages messages;
          nodes = map snd byId;
          g = build_graph cl_id chat_pars nodes
      in case causal_order (compareMessageOrder lc) cl_id chat_pars (map_of byId) nodes of
           None \<Rightarrow> None
         | Some ordered \<Rightarrow>
             Some \<lparr>ca_ordered = ordered, ca_leafIds = leaf_ids cl_id chat_pars nodes ordered,
               ca_missingIds = js_sort js_string_cmp (g_missing g)\<rparr>)"

definition collectOpenClawPairChatLeafIds ::
  "(string \<Rightarrow> string \<Rightarrow> int) \<Rightarrow> 'a chat_like_scheme list \<Rightarrow> string list option" where
  "collectOpenClawPairChatLeafIds lc messages =
     map_option ca_leafIds (analyzeOpenClawPairChatGraph lc messages)"

section \<open>Payloads and events\<close>

text \<open>\<open>Number(v || Date.now())\<close> of a number.\<close>

definition ts_or_now :: "env \<Rightarrow> jsnum \<Rightarrow> jsnum" where
  "ts_or_now e ts = (if js_num_truthy ts then ts else e_now e)"

definition stamp_or_now :: "env \<Rightarrow> jsval \<Rightarrow> jsnum" where
  "stamp_or_now e v = js_whole (js_to_number (js_or v (JNum (e_now e))))"

definition buildOpenClawPairChatPayload :: "env \<Rightarrow> string \<Rightarrow> jsval \<Rightarrow> jsval \<Rightarrow> jsval \<Rightarrow> jsval \<Rightarrow> jsval" where
  "buildOpenClawPairChatPayload e txt mid after origin originSeq =
     JObj [(''id'', JStr (if js_text mid = [] then createOpenClawPairChatMessageId e (e_now e) else js_text mid)),
       (''after'', JArr (map JStr (normalizeOpenClawPairChatAfterIds after))),
       (''text'', JStr txt),
       (''origin'', JStr (if origin = JStr ''mobile'' then ''mobile'' else ''host'')),
       (''originSeq'', JNum (js_count_of originSeq))]"

definition payload_of :: "app_message \<Rightarrow> jsval" where
  "payload_of m = (if js_is_object (am_payload m) then am_payload m else JObj [])"

definition from_of :: "app_message \<Rightarrow> PairV2EntityType" where
  "from_of m = (if am_from m = Desktop then Desktop else Mobile)"

definition parseOpenClawPairChatMessage :: "env \<Rightarrow> app_message \<Rightarrow> chat_event option" where
  "parseOpenClawPairChatMessage e m =
     (if js_trim (am_type m) \<noteq> openClawPairChatMessageType then None
      else let p = payload_of m in
        Some \<lparr>ce_id = (if js_text (js_get p ''id'') = []
               then createOpenClawPairChatMessageId e (ts_or_now e (am_ts m)) else js_text (js_get p ''id'')),
          ce_after = normalizeOpenClawPairChatAfterIds (js_get p ''after''),
          ce_text = js_to_string (js_or (js_get p ''text'') (JStr [])),
          ce_ts = ts_or_now e (am_ts m),
          ce_from = from_of m,
          ce_origin = (if js_get p ''origin'' = JStr ''mobile'' then Mobile_origin
            else if js_get p ''origin'' = JStr ''host'' then Host_origin
            else if am_from m = Desktop then Host_origin else Mobile_origin),
          ce_originSeq = js_count_of (js_get p ''originSeq'')\<rparr>)"

definition buildOpenClawPairChatSyncRequestPayload :: "string list \<Rightarrow> jsval" where
  "buildOpenClawPairChatSyncRequestPayload messageIds =
     JObj [(''messageIds'', JArr (map JStr (after_ids messageIds)))]"

definition buildOpenClawPairChatAckPayload :: "string list \<Rightarrow> jsval" where
  "buildOpenClawPairChatAckPayload messageIds =
     JObj [(''messageIds'', JArr (map JStr (after_ids messageIds)))]"

definition buildOpenClawPairChatSyncStatePayload :: "jsval \<Rightarrow> jsval \<Rightarrow> jsval \<Rightarrow> jsval" where
  "buildOpenClawPairChatSyncStatePayload hostSeq mobileSeq leafIds =
     JObj [(''hostSeq'', JNum (js_count_of hostSeq)), (''mobileSeq'', JNum (js_count_of mobileSeq)),
       (''leafIds'', JArr (map JStr (normalizeOpenClawPairChatAfterIds leafIds)))]"

definition buildOpenClawPairChatPingPayload :: "env \<Rightarrow> jsval \<Rightarrow> jsval \<Rightarrow> jsval" where
  "buildOpenClawPairChatPingPayload e pid sent =
     (let sentAt = stamp_or_now e sent
      in JObj [(''id'', JStr (if js_text pid = [] then createOpenClawPairChatProbeId e sentAt else js_text pid)),
           (''sentAt'', JNum sentAt)])"

definition buildOpenClawPairChatPongPayload :: "env \<Rightarrow> jsval \<Rightarrow> jsval \<Rightarrow> jsval \<Rightarrow> jsval" where
  "buildOpenClawPairChatPongPayload e pid sent responded =
     JObj [(''id'', JStr (js_text pid)), (''sentAt'', JNum (js_count_of sent)),
       (''respondedAt'', JNum (stamp_or_now e responded))]"

definition parse_ids :: "string \<Rightarrow> env \<Rightarrow> app_message \<Rightarrow> chat_ids option" where
  "parse_ids type e m =
     (if js_trim (am_type m) \<noteq> type then None
      else Some \<lparr>ci_messageIds = normalizeOpenClawPairChatAfterIds (js_get (payload_of m) ''messageIds''),
        ci_ts = ts_or_now e (am_ts m), ci_from = from_of m\<rparr>)"

definition parseOpenClawPairChatAck :: "env \<Rightarrow> app_message \<Rightarrow> chat_ids option" where
  "parseOpenClawPairChatAck = parse_ids openClawPairChatAckType"

definition parseOpenClawPairChatSyncRequest :: "env \<Rightarrow> app_message \<Rightarrow> chat_ids option" where
  "parseOpenClawPairChatSyncRequest = parse_ids openClawPairChatSyncRequestType"

definition parseOpenClawPairChatSyncState :: "env \<Rightarrow> app_message \<Rightarrow> chat_sync_state option" where
  "parseOpenClawPairChatSyncState e m =
     (if js_trim (am_type m) \<noteq> openClawPairChatSyncStateType then None
      else let p = payload_of m in
        Some \<lparr>cs_hostSeq = js_count_of (js_get p ''hostSeq''),
          cs_mobileSeq = js_count_of (js_get p ''mobileSeq''),
          cs_leafIds = normalizeOpenClawPairChatAfterIds (js_get p ''leafIds''),
          cs_ts = ts_or_now e (am_ts m), cs_from = from_of m\<rparr>)"

definition parseOpenClawPairChatPing :: "env \<Rightarrow> app_message \<Rightarrow> chat_ping option" where
  "parseOpenClawPairChatPing e m =
     (if js_trim (am_type m) \<noteq> openClawPairChatPingType then None
      else let p = payload_of m; i = js_text (js_get p ''id'') in
        if i = [] then None
        else Some \<lparr>cp_id = i, cp_sentAt = js_count_of (js_get p ''sentAt''),
          cp_ts = ts_or_now e (am_ts m), cp_from = from_of m\<rparr>)"

definition parseOpenClawPairChatPong :: "env \<Rightarrow> app_message \<Rightarrow> chat_pong option" where
  "parseOpenClawPairChatPong e m =
     (if js_trim (am_type m) \<noteq> openClawPairChatPongType then None
      else let p = payload_of m; i = js_text (js_get p ''id'') in
        if i = [] then None
        else Some \<lparr>co_id = i, co_sentAt = js_count_of (js_get p ''sentAt''),
          co_respondedAt = js_count_of (js_get p ''respondedAt''),
          co_ts = ts_or_now e (am_ts m), co_from = from_of m\<rparr>)"

text \<open>The chat module: its callback runs on the application's state and may throw.\<close>

definition createOpenClawPairChatModule ::
  "env \<Rightarrow> (chat_event \<Rightarrow> 's \<Rightarrow> string + 's) \<Rightarrow> 's app_module" where
  "createOpenClawPairChatModule e onChatMessage =
     \<lparr>mod_id = ''openclaw.chat'', mod_feature = Some openClawPairChatFeature,
       mod_supportedMessages =
         [openClawPairChatMessageType, openClawPairChatAckType, openClawPairChatSyncRequestType,
          openClawPairChatSyncStateType, openClawPairChatPingType, openClawPairChatPongType],
       mod_onMessage = (\<lambda>message s.
         case parseOpenClawPairChatMessage e message of
           None \<Rightarrow> Inr s | Some chat \<Rightarrow> onChatMessage chat s)\<rparr>"

section \<open>Channel revocation\<close>

definition openClawPairChannelRevokeType :: string where
  "openClawPairChannelRevokeType = ''app.openclaw.channel.revoke''"

record channel_revoke =
  cr_channelId :: string
  cr_bindingId :: string
  cr_sessionId :: string
  cr_revokedBy :: PairV2EntityType
  cr_revokedAt :: jsnum

definition buildOpenClawPairChannelRevokePayload ::
  "env \<Rightarrow> jsval \<Rightarrow> jsval \<Rightarrow> jsval \<Rightarrow> jsval \<Rightarrow> jsval \<Rightarrow> jsval" where
  "buildOpenClawPairChannelRevokePayload e channelId bindingId sessionId revokedBy revokedAt =
     JObj [(''channelId'', JStr (js_text channelId)), (''bindingId'', JStr (js_text bindingId)),
       (''sessionId'', JStr (js_text sessionId)),
       (''revokedBy'', JStr (if revokedBy = JStr ''desktop'' then ''desktop'' else ''mobile'')),
       (''revokedAt'', JNum (stamp_or_now e revokedAt))]"

definition parseOpenClawPairChannelRevoke :: "env \<Rightarrow> app_message \<Rightarrow> channel_revoke option" where
  "parseOpenClawPairChannelRevoke e m =
     (if js_trim (am_type m) \<noteq> openClawPairChannelRevokeType then None
      else let p = payload_of m in
        Some \<lparr>cr_channelId = js_text (js_get p ''channelId''),
          cr_bindingId = js_text (js_get p ''bindingId''),
          cr_sessionId = js_text (js_get p ''sessionId''),
          cr_revokedBy = from_of m,
          cr_revokedAt = js_whole (js_to_number
            (js_or (js_or (js_get p ''revokedAt'') (JNum (am_ts m))) (JNum (e_now e))))\<rparr>)"

section \<open>Lemmas on the index\<close>

lemma after_ids_uniq [simp]: "after_ids ss = js_uniq_texts ss"
  by (simp add: normalizeOpenClawPairChatAfterIds_def js_uniq_texts_def comp_def)

lemma after_normal [simp]: "texts_normal (normalizeOpenClawPairChatAfterIds v)"
  by (auto simp: texts_normal_def normalizeOpenClawPairChatAfterIds_def)

lemma after_ids_normal [simp]: "normalizeOpenClawPairChatAfterIds (JArr (map JStr (normalizeOpenClawPairChatAfterIds v))) = normalizeOpenClawPairChatAfterIds v"
  by (simp add: js_uniq_texts_normal)

lemma chat_node_sel [simp]:
  "cl_id (chat_node m) = js_trim (cl_id m)" "cl_after (chat_node m) = js_uniq_texts (cl_after m)"
  "cl_ts (chat_node m) = js_or_zero (cl_ts m)" "chat_pars (chat_node m) = chat_pars m"
  by (simp_all add: chat_node_def chat_pars_def)

lemma chat_pars_distinct [simp]: "distinct (chat_pars m)"
  by (simp add: chat_pars_def)

text \<open>The last message of a list with a given id.\<close>

definition last_with :: "'a chat_like_scheme list \<Rightarrow> string \<Rightarrow> 'a chat_like_scheme option" where
  "last_with ms i = (if i = [] then None else find (\<lambda>m. js_trim (cl_id m) = i) (rev ms))"

lemma last_with_snoc:
  "last_with (ms @ [m]) i = (if i \<noteq> [] \<and> js_trim (cl_id m) = i then Some m else last_with ms i)"
  by (simp add: last_with_def)

lemma index_map_of: "map_of (index_messages ms) i = map_option chat_node (last_with ms i)"
proof (induction ms rule: rev_induct)
  case (snoc m ms)
  have "index_messages (ms @ [m]) = index_step m (index_messages ms)" by (simp add: index_messages_def)
  with snoc show ?case by (auto simp: index_step_def last_with_snoc update_conv)
qed (simp add: index_messages_def last_with_def)

lemma index_keys: "distinct (map fst (index_messages ms)) \<and> (\<forall>(i, m) \<in> set (index_messages ms). cl_id m = i \<and> i \<noteq> [])"
proof (induction ms rule: rev_induct)
  case (snoc m ms)
  have e: "index_messages (ms @ [m]) = index_step m (index_messages ms)" by (simp add: index_messages_def)
  have "set (AList.update (js_trim (cl_id m)) (chat_node m) (index_messages ms)) \<subseteq>
      insert (js_trim (cl_id m), chat_node m) (set (index_messages ms))"
    by (rule set_update_subset)
  then show ?case using snoc unfolding e index_step_def by (auto simp: distinct_update)
qed (simp add: index_messages_def)

lemma index_ids: "map cl_id (map snd (index_messages ms)) = map fst (index_messages ms)"
proof -
  have "cl_id (snd p) = fst p" if "p \<in> set (index_messages ms)" for p
    using index_keys [of ms] that by (cases p) auto
  then show ?thesis by simp
qed

section \<open>The analysis\<close>

text \<open>The indexed messages satisfy the contract of the graph algorithm.\<close>

interpretation chat: causal_graph cl_id chat_pars "map_of (index_messages ms)" "map snd (index_messages ms)"
  for ms
proof
  show "distinct (map cl_id (map snd (index_messages ms)))"
    using index_keys [of ms] by (simp only: index_ids)
next
  fix x :: "'a chat_like_scheme" assume "x \<in> set (map snd (index_messages ms))"
  then obtain i where i: "(i, x) \<in> set (index_messages ms)" by auto
  then have "cl_id x = i" using index_keys [of ms] by auto
  with i show "map_of (index_messages ms) (cl_id x) = Some x" using index_keys [of ms] by simp
qed simp

abbreviation chat_nodes :: "'a chat_like_scheme list \<Rightarrow> 'a chat_like_scheme list" where
  "chat_nodes ms \<equiv> map snd (index_messages ms)"

lemma chat_analyze_Some:
  assumes "analyzeOpenClawPairChatGraph lc ms = Some a"
  shows "causal_order (compareMessageOrder lc) cl_id chat_pars (map_of (index_messages ms)) (chat_nodes ms)
      = Some (ca_ordered a)"
    and "ca_leafIds a = leaf_ids cl_id chat_pars (chat_nodes ms) (ca_ordered a)"
    and "ca_missingIds a = js_sort js_string_cmp (g_missing (build_graph cl_id chat_pars (chat_nodes ms)))"
  using assms by (auto simp: analyzeOpenClawPairChatGraph_def Let_def split: option.splits)

lemma chat_analyze_total: "\<exists>a. analyzeOpenClawPairChatGraph lc ms = Some a"
  using chat.causal_order_total [where cmp = "compareMessageOrder lc" and ms = ms]
  by (auto simp: analyzeOpenClawPairChatGraph_def Let_def)

lemma chat_ordered_mset:
  "analyzeOpenClawPairChatGraph lc ms = Some a \<Longrightarrow> mset (ca_ordered a) = mset (chat_nodes ms)"
  by (rule chat.causal_order_mset) (rule chat_analyze_Some(1))

lemma chat_nodes_iff: "x \<in> set (chat_nodes ms) \<longleftrightarrow> (\<exists>m i. last_with ms i = Some m \<and> x = chat_node m)"
proof -
  have d: "distinct (map fst (index_messages ms))" using index_keys by blast
  have "x \<in> set (chat_nodes ms) \<longleftrightarrow> (\<exists>i. map_of (index_messages ms) i = Some x)"
    using d by (force simp: image_iff)
  then show ?thesis by (auto simp: index_map_of)
qed

lemma chat_ids_distinct: "analyzeOpenClawPairChatGraph lc ms = Some a \<Longrightarrow> distinct (map cl_id (ca_ordered a))"
  by (metis chat.distinct_ids chat_ordered_mset mset_eq_imp_distinct_iff mset_map)

definition chat_strings :: "'a chat_like_scheme set \<Rightarrow> string set" where
  "chat_strings S = cl_id ` S"

lemma js_or_zero_idem [simp]: "js_or_zero (js_or_zero n) = js_or_zero n"
  by (simp add: js_or_zero_def js_num_truthy_def)

lemma compareMessageOrder_cmp_by:
  "compareMessageOrder lc = cmp_by (\<lambda>m. js_or_zero (cl_ts m)) js_diff_sign (\<lambda>x y. lc (cl_id x) (cl_id y))"
  by (intro ext) (simp add: cmp_by_def compareMessageOrder_def)

lemma total_message_order:
  assumes lc: "total_comparator_on (chat_strings S) lc" and i: "inj_on cl_id S"
  shows "total_comparator_on S (compareMessageOrder lc)"
proof -
  have n: "total_comparator_on ((\<lambda>m. js_or_zero (cl_ts m)) ` S) js_diff_sign"
    by (rule total_comparator_on_subset [OF numbers.total_comparator_on_axioms]) auto
  have "total_comparator_on S (\<lambda>x y. lc (cl_id x) (cl_id y))"
    by (rule total_comparator_on_key [OF lc [unfolded chat_strings_def] i])
  from total_comparator_on_cmp_by [OF n this] show ?thesis by (simp only: compareMessageOrder_cmp_by)
qed

text \<open>Logs with the same last copies are analysed alike.\<close>

lemma chat_analysis_cong:
  assumes "\<And>i. last_with xs i = last_with ys i"
    and "total_comparator_on (chat_strings (set (chat_nodes xs))) lc"
    and "analyzeOpenClawPairChatGraph lc xs = Some a" "analyzeOpenClawPairChatGraph lc ys = Some b"
  shows "ca_ordered a = ca_ordered b \<and> ca_leafIds a = ca_leafIds b \<and> ca_missingIds a = ca_missingIds b"
proof -
  have s: "set (chat_nodes xs) = set (chat_nodes ys)"
  proof (rule set_eqI)
    fix x show "x \<in> set (chat_nodes xs) \<longleftrightarrow> x \<in> set (chat_nodes ys)"
      by (simp only: chat_nodes_iff assms(1))
  qed
  have t: "total_comparator_on (set (chat_nodes xs)) (compareMessageOrder lc)"
    by (rule total_message_order [OF assms(2)]) (rule chat.nid_inj)
  have o: "ca_ordered a = ca_ordered b"
    using causal_order_set_cong [OF chat.causal_graph_axioms chat.causal_graph_axioms s t]
      chat_analyze_Some(1) [OF assms(3)] chat_analyze_Some(1) [OF assms(4)] by simp
  have "referenced_ids cl_id chat_pars (chat_nodes xs) = referenced_ids cl_id chat_pars (chat_nodes ys)"
    unfolding referenced_ids_def s ..
  then have "ca_leafIds a = ca_leafIds b"
    using o unfolding chat_analyze_Some(2) [OF assms(3)] chat_analyze_Some(2) [OF assms(4)]
    by (simp add: leaf_ids_def)
  moreover have "ca_missingIds a = ca_missingIds b"
    unfolding chat_analyze_Some(3) [OF assms(3)] chat_analyze_Some(3) [OF assms(4)]
    by (rule js_sort_strings_eq) (simp_all add: build_graph_missing s del: set_map)
  ultimately show ?thesis using o by simp
qed

section \<open>Properties\<close>

text \<open>\<open>analyzeOpenClawPairChatGraph\<close> returns for every log; its ordered messages have distinct
  ids and are, for each id that occurs, the last message of the log with that id (a later copy
  replaces an earlier one), normalised.\<close>

theorem chat_graph_last_wins:
  "\<exists>a. analyzeOpenClawPairChatGraph lc ms = Some a \<and> distinct (map cl_id (ca_ordered a)) \<and>
    set (ca_ordered a) = {chat_node m | m i. last_with ms i = Some m}"
proof -
  obtain a where a: "analyzeOpenClawPairChatGraph lc ms = Some a" using chat_analyze_total by blast
  have "set (ca_ordered a) = set (chat_nodes ms)" using chat_ordered_mset [OF a] by (rule mset_eq_setD)
  also have "\<dots> = {chat_node m | m i. last_with ms i = Some m}"
    using chat_nodes_iff by blast
  finally show ?thesis using a chat_ids_distinct [OF a] by blast
qed

text \<open>Two logs in which the last copy of every id is the same message are ordered alike, with
  the same leaf ids and the same missing ids, in whatever order the messages arrived.\<close>

theorem chat_logs_agree:
  assumes "\<And>i. last_with xs i = last_with ys i"
    and "total_comparator_on (chat_strings (set (chat_nodes xs))) lc"
    and "analyzeOpenClawPairChatGraph lc xs = Some a" "analyzeOpenClawPairChatGraph lc ys = Some b"
  shows "ca_ordered a = ca_ordered b \<and> ca_leafIds a = ca_leafIds b \<and> ca_missingIds a = ca_missingIds b"
  by (rule chat_analysis_cong [OF assms])

definition chat_m :: "string \<Rightarrow> string list \<Rightarrow> nat \<Rightarrow> chat_like" where
  "chat_m i after t = \<lparr>cl_id = i, cl_after = after, cl_ts = Fin (of_nat t)\<rparr>"

theorem chat_logs_agree_witness:
  "\<exists>a b. analyzeOpenClawPairChatGraph js_string_cmp [chat_m ''y'' [''x''] 1, chat_m ''x'' [] 2] = Some a \<and>
    analyzeOpenClawPairChatGraph js_string_cmp
      [chat_m ''x'' [''y''] 9, chat_m ''x'' [] 2, chat_m ''y'' [''x''] 1] = Some b \<and>
    ca_ordered a = ca_ordered b"
proof -
  let ?xs = "[chat_m ''y'' [''x''] 1, chat_m ''x'' [] 2]"
  let ?ys = "[chat_m ''x'' [''y''] 9, chat_m ''x'' [] 2, chat_m ''y'' [''x''] 1]"
  obtain a where a: "analyzeOpenClawPairChatGraph js_string_cmp ?xs = Some a"
    using chat_analyze_total by blast
  obtain b where b: "analyzeOpenClawPairChatGraph js_string_cmp ?ys = Some b"
    using chat_analyze_total by blast
  have t: "js_trim ''x'' = ''x''" "js_trim ''y'' = ''y''" by (simp_all add: js_trim_def js_space_def)
  have "ca_ordered a = ca_ordered b"
    by (rule conjunct1 [OF chat_logs_agree [OF _ _ a b]])
      (auto simp: last_with_def chat_m_def t intro: total_comparator_on_subset [OF code_units.total_comparator_on_axioms])
  with a b show ?thesis by blast
qed

text \<open>The leaf ids that a device reports are exactly the messages nobody answered, and the
  missing ids it requests are exactly the ids answered to that it does not hold, sorted and
  without repetition.\<close>

theorem chat_frontier_exact:
  assumes "analyzeOpenClawPairChatGraph lc ms = Some a"
  shows "set (ca_leafIds a) =
      cl_id ` set (ca_ordered a) - (\<Union>m \<in> set (ca_ordered a). set (chat_pars m)) \<and>
    distinct (ca_leafIds a) \<and> distinct (ca_missingIds a) \<and>
    set (ca_missingIds a) = (\<Union>m \<in> set (ca_ordered a). set (chat_pars m)) - cl_id ` set (ca_ordered a)"
proof -
  note an = chat_analyze_Some [OF assms]
  have s: "set (ca_ordered a) = set (chat_nodes ms)" using chat_ordered_mset [OF assms] by (rule mset_eq_setD)
  have "distinct (ca_leafIds a)" using chat_ids_distinct [OF assms] by (simp add: an(2) leaf_ids_def)
  then show ?thesis using chat.leaf_ids_set [OF an(1)]
    unfolding s by (simp add: an(2,3) build_graph_missing del: set_map)
qed

theorem chat_frontier_exact_witness:
  "\<exists>a. analyzeOpenClawPairChatGraph js_string_cmp [chat_m ''y'' [''x''] 1] = Some a \<and>
    set (ca_missingIds a) = {''x''}"
proof -
  obtain a where a: "analyzeOpenClawPairChatGraph js_string_cmp [chat_m ''y'' [''x''] 1] = Some a"
    using chat_analyze_total by blast
  have "set (ca_ordered a) = {chat_m ''y'' [''x''] 1}"
  proof -
    have "index_messages [chat_m ''y'' [''x''] 1] = [(''y'', chat_m ''y'' [''x''] 1)]"
      by (simp add: index_messages_def index_step_def chat_m_def chat_node_def js_trim_def js_space_def
          js_uniq_texts_def js_uniq_def js_set_add_def js_or_zero_def js_num_truthy_def
          normalizeOpenClawPairChatAfterIds_def)
    then show ?thesis using mset_eq_setD [OF chat_ordered_mset [OF a]] by simp
  qed
  moreover have "chat_pars (chat_m ''y'' [''x''] 1) = [''x'']"
    by (simp add: chat_pars_def chat_m_def normalizeOpenClawPairChatAfterIds_def js_trim_def js_space_def
        js_uniq_def js_set_add_def)
  ultimately have "set (ca_missingIds a) = {''x''}"
    using chat_frontier_exact [OF a] by (simp add: chat_m_def)
  with a show ?thesis by blast
qed

text \<open>A chat message that is built and sent is parsed into the same text, id, parents, origin
  and number on the other side.\<close>

theorem chat_payload_roundtrip:
  assumes "js_text mid \<noteq> []" "is_count n"
  shows "parseOpenClawPairChatMessage e
      \<lparr>am_type = openClawPairChatMessageType,
       am_payload = buildOpenClawPairChatPayload e' txt mid after (JStr (origin_name origin)) (JNum n),
       am_ts = ts, am_from = from\<rparr> =
    Some \<lparr>ce_id = js_text mid, ce_after = normalizeOpenClawPairChatAfterIds after, ce_text = txt,
      ce_ts = ts_or_now e ts, ce_from = from, ce_origin = origin, ce_originSeq = n\<rparr>"
proof -
  define p where
    "p = buildOpenClawPairChatPayload e' txt mid after (JStr (origin_name origin)) (JNum n)"
  have g: "js_get p ''id'' = JStr (js_text mid)" "js_get p ''text'' = JStr txt"
    "js_get p ''after'' = JArr (map JStr (normalizeOpenClawPairChatAfterIds after))"
    "js_get p ''origin'' = JStr (origin_name origin)" "js_get p ''originSeq'' = JNum n"
    unfolding p_def using assms
    by (cases origin; simp add: buildOpenClawPairChatPayload_def js_count_idem)+
  have t: "js_trim openClawPairChatMessageType = openClawPairChatMessageType"
    by (simp add: chat_types js_trim_def js_space_def)
  have o: "js_is_object p" by (simp add: p_def js_is_object_def buildOpenClawPairChatPayload_def)
  have "parseOpenClawPairChatMessage e
      \<lparr>am_type = openClawPairChatMessageType, am_payload = p, am_ts = ts, am_from = from\<rparr> =
    Some \<lparr>ce_id = js_text mid, ce_after = normalizeOpenClawPairChatAfterIds after, ce_text = txt,
      ce_ts = ts_or_now e ts, ce_from = from, ce_origin = origin, ce_originSeq = n\<rparr>"
    using assms
    by (cases origin; cases "from")
      (simp_all add: parseOpenClawPairChatMessage_def payload_of_def o t g js_uniq_texts_normal
        js_count_idem from_of_def)
  then show ?thesis by (simp only: p_def)
qed

theorem chat_payload_roundtrip_witness:
  "\<exists>ev. parseOpenClawPairChatMessage \<lparr>e_now = Fin 9, e_uuid = None, e_hex = ''0.7''\<rparr>
      \<lparr>am_type = openClawPairChatMessageType,
       am_payload = buildOpenClawPairChatPayload \<lparr>e_now = Fin 9, e_uuid = None, e_hex = ''0.7''\<rparr> ''hi'' (JStr ''m1'') JUndef (JStr ''mobile'') (JNum (Fin 3)),
       am_ts = Fin 5, am_from = Mobile\<rparr> = Some ev \<and> ce_text ev = ''hi'' \<and> ce_originSeq ev = Fin 3"
  using chat_payload_roundtrip [of "JStr ''m1''" "Fin 3" "\<lparr>e_now = Fin 9, e_uuid = None, e_hex = ''0.7''\<rparr>" "\<lparr>e_now = Fin 9, e_uuid = None, e_hex = ''0.7''\<rparr>" "''hi''" JUndef Mobile_origin "Fin 5" Mobile]
  by (simp add: js_trim_def js_space_def)

end
