(* ===== verification/ChatGraph.thy ===== *)
theory ChatGraph
  imports ChatProtocol
begin

text \<open>
  The chat log of a session on the mobile client: mobile/src/utils/chatGraph.ts, with the message
  type of mobile/src/types/session.ts. An absent \<open>after\<close>, \<open>missingAfter\<close> or \<open>deliveryError\<close> is
  the empty list or string, which is how the code reads it. The comparator of
  \<open>reconcileSessionMessages\<close> is not consistent when there are system messages
  (\<open>reconcile_comparator_cyclic\<close>), so the engine's sort is a parameter there, of which only
  \<open>conforming_sort\<close> is known.
\<close>

section \<open>Data\<close>

datatype msg_side = Self | Host
datatype msg_kind = Chat | System
datatype delivery_status = Sending | Sent | Failed

record chat_message =
  msg_id :: string
  msg_from :: msg_side
  msg_text :: string
  msg_createdAt :: string
  msg_ts :: jsnum
  msg_kind :: "msg_kind option"
  msg_origin :: "chat_origin option"
  msg_originSeq :: "jsnum option"
  msg_after :: "string list"
  msg_missingAfter :: "string list"
  msg_deliveryStatus :: "delivery_status option"
  msg_deliveryError :: string

section \<open>Normalisation\<close>

definition normalizeMessageTs :: "chat_message \<Rightarrow> jsnum" where
  "normalizeMessageTs m = js_or_zero (msg_ts m)"

definition normalizeOrigin :: "chat_message \<Rightarrow> chat_origin" where
  "normalizeOrigin m = (if msg_origin m = Some Mobile_origin then Mobile_origin else Host_origin)"

definition normalizeOriginSeq :: "chat_message \<Rightarrow> jsnum" where
  "normalizeOriginSeq m = (case msg_originSeq m of Some n \<Rightarrow> js_count n | None \<Rightarrow> Fin 0)"

definition compareFallbackOrder :: "(string \<Rightarrow> string \<Rightarrow> int) \<Rightarrow> chat_message \<Rightarrow> chat_message \<Rightarrow> int" where
  "compareFallbackOrder lc left right =
     (if normalizeMessageTs left \<noteq> normalizeMessageTs right
      then js_diff_sign (normalizeMessageTs left) (normalizeMessageTs right)
      else lc (msg_id left) (msg_id right))"

definition normalizeChatMessage :: "chat_message \<Rightarrow> chat_message" where
  "normalizeChatMessage m =
     (let kind = (if msg_kind m = Some System then System else Chat);
          status = (if kind = Chat \<and> msg_from m = Self
            then (if msg_deliveryStatus m = Some Sending \<or> msg_deliveryStatus m = Some Failed
                  then msg_deliveryStatus m else Some Sent)
            else None)
      in m\<lparr>msg_id := js_trim (msg_id m), msg_ts := normalizeMessageTs m, msg_kind := Some kind,
           msg_origin := (if kind = System then None else Some (normalizeOrigin m)),
           msg_originSeq := (if kind = System then None else Some (normalizeOriginSeq m)),
           msg_after := (if kind = Chat then after_ids (msg_after m) else []),
           msg_missingAfter := (if kind = Chat then after_ids (msg_missingAfter m) else []),
           msg_deliveryStatus := status,
           msg_deliveryError := (if status = Some Failed then js_trim (msg_deliveryError m) else [])\<rparr>)"

definition extractChatMessages :: "chat_message list \<Rightarrow> chat_message list" where
  "extractChatMessages ms =
     filter (\<lambda>m. msg_kind m \<noteq> Some System \<and> msg_id m \<noteq> []) (map normalizeChatMessage ms)"

definition like_of :: "chat_message \<Rightarrow> chat_like" where
  "like_of m = \<lparr>cl_id = msg_id m, cl_after = msg_after m, cl_ts = msg_ts m\<rparr>"

definition collectSessionLeafIds :: "(string \<Rightarrow> string \<Rightarrow> int) \<Rightarrow> chat_message list \<Rightarrow> string list option" where
  "collectSessionLeafIds lc ms =
     collectOpenClawPairChatLeafIds lc (map like_of (extractChatMessages ms))"

section \<open>The state that is reported to the peer\<close>

definition origin_seqs :: "chat_origin \<Rightarrow> chat_message list \<Rightarrow> jsnum list" where
  "origin_seqs origin ms =
     js_uniq (filter (\<lambda>n. js_less (Fin 0) n)
       (map normalizeOriginSeq (filter (\<lambda>m. normalizeOrigin m = origin) ms)))"

definition contiguousSeq :: "chat_origin \<Rightarrow> chat_message list \<Rightarrow> jsnum" where
  "contiguousSeq origin ms =
     Fin (of_nat (contiguous_from (js_sort js_diff_sign (origin_seqs origin ms)) 1 - 1))"

record session_chat_state =
  scs_hostSeq :: jsnum
  scs_mobileSeq :: jsnum
  scs_leafIds :: "string list"

definition describeSessionChatState ::
  "(string \<Rightarrow> string \<Rightarrow> int) \<Rightarrow> chat_message list \<Rightarrow> session_chat_state option" where
  "describeSessionChatState lc ms =
     (let chat = extractChatMessages ms
      in map_option (\<lambda>leaves.
           \<lparr>scs_hostSeq = contiguousSeq Host_origin chat, scs_mobileSeq = contiguousSeq Mobile_origin chat,
            scs_leafIds = leaves\<rparr>)
         (collectOpenClawPairChatLeafIds lc (map like_of chat)))"

section \<open>Reconciliation\<close>

definition reconcile_step ::
  "chat_message \<Rightarrow> (string \<times> chat_message) list \<times> (string \<times> chat_message) list \<Rightarrow>
    (string \<times> chat_message) list \<times> (string \<times> chat_message) list" where
  "reconcile_step raw maps =
     (let m = normalizeChatMessage raw; (sys, chat) = maps
      in if msg_id m = [] then (sys, chat)
         else if msg_kind m = Some System then (AList.update (msg_id m) m sys, chat)
         else (sys, AList.update (msg_id m) m chat))"

definition split_messages ::
  "chat_message list \<Rightarrow> (string \<times> chat_message) list \<times> (string \<times> chat_message) list" where
  "split_messages ms = fold reconcile_step ms ([], [])"

definition index_in :: "string list \<Rightarrow> string \<Rightarrow> int option" where
  "index_in ids i = (if i \<in> set ids then Some (int (length (takeWhile (\<lambda>j. j \<noteq> i) ids))) else None)"

definition reconcile_cmp ::
  "(string \<Rightarrow> string \<Rightarrow> int) \<Rightarrow> string list \<Rightarrow> chat_message \<Rightarrow> chat_message \<Rightarrow> int" where
  "reconcile_cmp lc ids left right =
     (case (index_in ids (msg_id left), index_in ids (msg_id right)) of
        (Some l, Some r) \<Rightarrow> l - r
      | _ \<Rightarrow> compareFallbackOrder lc left right)"

record reconciled =
  rc_messages :: "chat_message list"
  rc_leafIds :: "string list"
  rc_missingMessageIds :: "string list"

type_synonym sorter = "(chat_message \<Rightarrow> chat_message \<Rightarrow> int) \<Rightarrow> chat_message list \<Rightarrow> chat_message list"

text \<open>\<open>chatMessages.get(id)!\<close> with the parents that are missing.\<close>

definition with_missing :: "string list \<Rightarrow> chat_message \<Rightarrow> chat_message" where
  "with_missing missing m =
     m\<lparr>msg_after := after_ids (msg_after m),
       msg_missingAfter := filter (\<lambda>i. i \<in> set missing) (after_ids (msg_after m))\<rparr>"

definition ordered_chat ::
  "(string \<times> chat_message) list \<Rightarrow> chat_like chat_analysis \<Rightarrow> chat_message list" where
  "ordered_chat chat a =
     map (\<lambda>l. with_missing (ca_missingIds a) (the (map_of chat (cl_id l)))) (ca_ordered a)"

definition reconcileSessionMessages ::
  "sorter \<Rightarrow> (string \<Rightarrow> string \<Rightarrow> int) \<Rightarrow> chat_message list \<Rightarrow> reconciled option" where
  "reconcileSessionMessages srt lc ms =
     (case split_messages ms of (sys, chat) \<Rightarrow>
        (case analyzeOpenClawPairChatGraph lc (map like_of (map snd chat)) of
           None \<Rightarrow> None
         | Some a \<Rightarrow>
             let oc = ordered_chat chat a
             in Some \<lparr>rc_messages = srt (reconcile_cmp lc (map msg_id oc)) (map snd sys @ oc),
                  rc_leafIds = ca_leafIds a, rc_missingMessageIds = ca_missingIds a\<rparr>))"

record upserted =
  up_messages :: "chat_message list"
  up_leafIds :: "string list"
  up_missingMessageIds :: "string list"
  up_inserted :: bool
  up_newlyMissing :: "string list"

definition upsertSessionMessage ::
  "sorter \<Rightarrow> (string \<Rightarrow> string \<Rightarrow> int) \<Rightarrow> chat_message list \<Rightarrow> chat_message \<Rightarrow> upserted option" where
  "upsertSessionMessage srt lc current nextMessage =
     (let incoming = normalizeChatMessage nextMessage
      in case reconcileSessionMessages srt lc current of
           None \<Rightarrow> None
         | Some previous \<Rightarrow>
             case reconcileSessionMessages srt lc
               (filter (\<lambda>m. js_trim (msg_id m) \<noteq> msg_id incoming) current @ [incoming]) of
               None \<Rightarrow> None
             | Some r \<Rightarrow>
                 Some \<lparr>up_messages = rc_messages r, up_leafIds = rc_leafIds r,
                   up_missingMessageIds = rc_missingMessageIds r,
                   up_inserted = (\<not> (\<exists>m \<in> set current. js_trim (msg_id m) = msg_id incoming)),
                   up_newlyMissing =
                     filter (\<lambda>i. i \<notin> set (rc_missingMessageIds previous)) (rc_missingMessageIds r)\<rparr>)"

section \<open>Lemmas on normalisation and splitting\<close>

lemma normalizeChatMessage_sel [simp]:
  "msg_id (normalizeChatMessage m) = js_trim (msg_id m)"
  "msg_kind (normalizeChatMessage m) = Some (if msg_kind m = Some System then System else Chat)"
  "msg_ts (normalizeChatMessage m) = js_or_zero (msg_ts m)"
  by (simp_all add: normalizeChatMessage_def Let_def normalizeMessageTs_def)

lemma normalizeChatMessage_chat:
  "msg_kind m \<noteq> Some System \<Longrightarrow> msg_after (normalizeChatMessage m) = js_uniq_texts (msg_after m)"
  "msg_kind m \<noteq> Some System \<Longrightarrow> msg_missingAfter (normalizeChatMessage m) = js_uniq_texts (msg_missingAfter m)"
  by (simp_all add: normalizeChatMessage_def Let_def)

lemma normalizeChatMessage_idem [simp, js_norm]:
  "normalizeChatMessage (normalizeChatMessage m) = normalizeChatMessage m"
  by (rule chat_message.equality)
    (simp_all add: normalizeChatMessage_def Let_def normalizeMessageTs_def normalizeOrigin_def
      normalizeOriginSeq_def split: option.split)

lemma normal_ts: "normalizeChatMessage m = m \<Longrightarrow> js_or_zero (msg_ts m) = msg_ts m"
  using normalizeChatMessage_sel(3) [of m] by simp

text \<open>The last message of a list with a given kind and id.\<close>

definition has_kind :: "msg_kind \<Rightarrow> chat_message \<Rightarrow> bool" where
  "has_kind k m = (msg_kind (normalizeChatMessage m) = Some k)"

definition last_of :: "chat_message list \<Rightarrow> msg_kind \<Rightarrow> string \<Rightarrow> chat_message option" where
  "last_of ms k i = (if i = [] then None else find (\<lambda>m. has_kind k m \<and> js_trim (msg_id m) = i) (rev ms))"

lemma last_of_snoc:
  "last_of (ms @ [m]) k i = (if i \<noteq> [] \<and> has_kind k m \<and> js_trim (msg_id m) = i then Some m else last_of ms k i)"
  by (simp add: last_of_def)

lemma split_snoc: "split_messages (ms @ [m]) = reconcile_step m (split_messages ms)"
  by (simp add: split_messages_def)

lemma split_map_of:
  "map_of (fst (split_messages ms)) i = map_option normalizeChatMessage (last_of ms System i) \<and>
   map_of (snd (split_messages ms)) i = map_option normalizeChatMessage (last_of ms Chat i)"
proof (induction ms rule: rev_induct)
  case Nil
  then show ?case by (simp add: split_messages_def last_of_def)
next
  case (snoc m ms)
  obtain sys chat where s: "split_messages ms = (sys, chat)" by force
  show ?case using snoc
    by (auto simp: split_snoc s reconcile_step_def Let_def last_of_snoc update_conv has_kind_def)
qed

definition keyed :: "msg_kind \<Rightarrow> (string \<times> chat_message) list \<Rightarrow> bool" where
  "keyed k ps = (distinct (map fst ps) \<and>
     (\<forall>(i, m) \<in> set ps. msg_id m = i \<and> i \<noteq> [] \<and> js_trimmed i \<and> msg_kind m = Some k \<and>
        normalizeChatMessage m = m))"

lemma keyed_update:
  assumes "keyed k ps" "msg_id m \<noteq> []" "msg_kind m = Some k" "normalizeChatMessage m = m"
  shows "keyed k (AList.update (msg_id m) m ps)"
proof -
  have "js_trimmed (msg_id m)" using normalizeChatMessage_sel(1) [of m] assms(4) by (metis js_trim_trimmed)
  then show ?thesis using assms set_update_subset [of "msg_id m" m ps]
    by (fastforce simp: keyed_def distinct_update dest: subsetD)
qed

lemma split_keyed: "keyed System (fst (split_messages ms)) \<and> keyed Chat (snd (split_messages ms))"
proof (induction ms rule: rev_induct)
  case Nil
  then show ?case by (simp add: split_messages_def keyed_def)
next
  case (snoc m ms)
  obtain sys chat where s: "split_messages ms = (sys, chat)" by force
  let ?n = "normalizeChatMessage m"
  show ?case using snoc keyed_update [of System sys ?n] keyed_update [of Chat chat ?n]
    by (auto simp: split_snoc s reconcile_step_def Let_def)
qed

lemma keyed_ids: "keyed k ps \<Longrightarrow> map msg_id (map snd ps) = map fst ps"
  by (auto simp: keyed_def)

lemma keyed_get: "keyed k ps \<Longrightarrow> i \<in> fst ` set ps \<Longrightarrow> \<exists>m. map_of ps i = Some m \<and> msg_id m = i \<and> (i, m) \<in> set ps"
proof -
  assume k: "keyed k ps" and i: "i \<in> fst ` set ps"
  then obtain m where m: "(i, m) \<in> set ps" by auto
  then have "map_of ps i = Some m" using k by (simp add: keyed_def)
  with m k show ?thesis by (auto simp: keyed_def)
qed

lemma with_missing_id [simp]: "msg_id (with_missing s m) = msg_id m" "msg_kind (with_missing s m) = msg_kind m"
  "msg_ts (with_missing s m) = msg_ts m"
  by (simp_all add: with_missing_def)

section \<open>The ordered chat messages\<close>

lemma likes_ids:
  assumes k: "keyed Chat chat" and a: "analyzeOpenClawPairChatGraph lc (map like_of (map snd chat)) = Some a"
  shows "mset (map cl_id (ca_ordered a)) = mset (map fst chat)"
proof -
  have ne: "\<forall>m \<in> set (map snd chat). js_trim (msg_id m) = msg_id m \<and> msg_id m \<noteq> []"
    using k by (auto simp: keyed_def js_trim_id)
  have idx: "map fst (fold index_step (map like_of ms) acc) = map fst acc @ map msg_id ms"
    if "distinct (map fst acc @ map msg_id ms)" "\<forall>m \<in> set ms. js_trim (msg_id m) = msg_id m \<and> msg_id m \<noteq> []"
    for ms acc
    using that
  proof (induction ms arbitrary: acc)
    case (Cons m ms)
    have "AList.update (msg_id m) (chat_node (like_of m)) acc = acc @ [(msg_id m, chat_node (like_of m))]"
      by (rule update_fresh) (use Cons.prems in auto)
    then have e: "index_step (like_of m) acc = acc @ [(msg_id m, chat_node (like_of m))]"
      using Cons.prems(2) by (simp add: index_step_def like_of_def)
    show ?case using Cons.IH [of "index_step (like_of m) acc"] Cons.prems by (simp add: e)
  qed simp
  have "map fst (index_messages (map like_of (map snd chat))) = map fst chat"
  proof -
    have "distinct (map fst chat)" using k by (simp add: keyed_def)
    then have "distinct (map fst [] @ map msg_id (map snd chat))" by (simp only: keyed_ids [OF k] list.map append.simps)
    from idx [OF this ne] show ?thesis
      by (simp only: index_messages_def keyed_ids [OF k] list.map append.simps)
  qed
  then have "map cl_id (chat_nodes (map like_of (map snd chat))) = map fst chat" by (simp only: index_ids)
  then show ?thesis using chat_ordered_mset [OF a] by (metis mset_map)
qed

lemma ordered_chat_ids:
  assumes k: "keyed Chat chat" and a: "analyzeOpenClawPairChatGraph lc (map like_of (map snd chat)) = Some a"
  shows "map msg_id (ordered_chat chat a) = map cl_id (ca_ordered a)" "distinct (map msg_id (ordered_chat chat a))"
proof -
  have "cl_id ` set (ca_ordered a) = fst ` set chat"
    using likes_ids [OF assms] by (metis mset_eq_setD set_map)
  then have "msg_id (the (map_of chat (cl_id l))) = cl_id l" if "l \<in> set (ca_ordered a)" for l
  proof -
    have "cl_id l \<in> fst ` set chat" using that \<open>cl_id ` set (ca_ordered a) = fst ` set chat\<close> by blast
    from keyed_get [OF k this] show ?thesis by auto
  qed
  then show e: "map msg_id (ordered_chat chat a) = map cl_id (ca_ordered a)"
    by (simp add: ordered_chat_def)
  show "distinct (map msg_id (ordered_chat chat a))"
    unfolding e using likes_ids [OF assms] k by (metis keyed_def mset_eq_imp_distinct_iff)
qed

text \<open>Sorting by the position in the graph order keeps the graph order.\<close>

lemma index_in_nth: "distinct ids \<Longrightarrow> n < length ids \<Longrightarrow> index_in ids (ids ! n) = Some (int n)"
proof -
  assume d: "distinct ids" "n < length ids"
  have "takeWhile (\<lambda>j. j \<noteq> ids ! n) ids = take n ids"
    by (rule takeWhile_eq_take_P_nth) (use d in \<open>auto simp: nth_eq_iff_index_eq\<close>)
  then show ?thesis using d by (simp add: index_in_def)
qed

lemma sort_graph_order:
  assumes srt: "conforming_sort srt" and d: "distinct (map msg_id xs)"
  shows "srt (reconcile_cmp lc (map msg_id xs)) xs = xs"
proof -
  let ?c = "reconcile_cmp lc (map msg_id xs)"
  have idx: "?c x y = the (index_in (map msg_id xs) (msg_id x)) - the (index_in (map msg_id xs) (msg_id y))"
    if "x \<in> set xs" "y \<in> set xs" for x y
    using that by (auto simp: reconcile_cmp_def index_in_def)
  have c: "comparator_on (set xs) ?c"
    by unfold_locales (auto simp: idx sgn_if)
  have "cmp_sorted ?c xs"
    unfolding sorted_wrt_iff_nth_less
    using index_in_nth [OF d] by (auto simp: idx)
  then have "js_sort ?c xs = xs" by (rule comparator_on.js_sort_sorted [OF c])
  with srt c show ?thesis by (simp add: conforming_sort_def)
qed

section \<open>Reconciliation and insertion\<close>

lemma reconcile_Some:
  obtains a where
    "analyzeOpenClawPairChatGraph lc (map like_of (map snd (snd (split_messages ms)))) = Some a"
    "reconcileSessionMessages srt lc ms = Some \<lparr>rc_messages =
        srt (reconcile_cmp lc (map msg_id (ordered_chat (snd (split_messages ms)) a)))
          (map snd (fst (split_messages ms)) @ ordered_chat (snd (split_messages ms)) a),
      rc_leafIds = ca_leafIds a, rc_missingMessageIds = ca_missingIds a\<rparr>"
proof -
  obtain sys chat where s: "split_messages ms = (sys, chat)" by force
  obtain a where a: "analyzeOpenClawPairChatGraph lc (map like_of (map snd chat)) = Some a"
    using chat_analyze_total by blast
  show thesis by (rule that [of a]) (use s a in \<open>simp_all add: reconcileSessionMessages_def Let_def\<close>)
qed

lemma set_ordered_chat:
  assumes k: "keyed Chat chat" and a: "analyzeOpenClawPairChatGraph lc (map like_of (map snd chat)) = Some a"
  shows "set (ordered_chat chat a) = {with_missing (ca_missingIds a) m | m i. map_of chat i = Some m}"
proof -
  have ids: "cl_id ` set (ca_ordered a) = fst ` set chat"
    using likes_ids [OF assms] by (metis mset_eq_setD set_map)
  have "set (ordered_chat chat a) = (\<lambda>i. with_missing (ca_missingIds a) (the (map_of chat i))) ` cl_id ` set (ca_ordered a)"
    by (simp add: ordered_chat_def image_image)
  moreover have "fst ` set chat = {i. \<exists>m. map_of chat i = Some m}"
    by (auto simp: dom_map_of_conv_image_fst [symmetric])
  then have e: "cl_id ` set (ca_ordered a) = {i. \<exists>m. map_of chat i = Some m}" unfolding ids .
  have "(\<lambda>i. with_missing (ca_missingIds a) (the (map_of chat i))) ` {i. \<exists>m. map_of chat i = Some m} = {with_missing (ca_missingIds a) m | m i. map_of chat i = Some m}"
  proof (rule set_eqI)
    fix x
    show "x \<in> (\<lambda>i. with_missing (ca_missingIds a) (the (map_of chat i))) ` {i. \<exists>m. map_of chat i = Some m} \<longleftrightarrow>
      x \<in> {with_missing (ca_missingIds a) m | m i. map_of chat i = Some m}"
      unfolding image_iff mem_Collect_eq Bex_def by (metis option.sel)
  qed
  ultimately show ?thesis unfolding e by simp
qed

definition chat_only :: "chat_message list \<Rightarrow> bool" where
  "chat_only ms = (\<forall>m \<in> set ms. has_kind Chat m)"

definition core :: "chat_message \<Rightarrow> chat_message" where
  "core m = m\<lparr>msg_missingAfter := []\<rparr>"

text \<open>What the order of the log and the missing ids depend on: the last message of each id.\<close>

definition core_view :: "chat_message list \<Rightarrow> string \<Rightarrow> chat_message option" where
  "core_view ms i = map_option (\<lambda>m. core (normalizeChatMessage m)) (last_of ms Chat i)"

lemma chat_only_split: "chat_only ms \<Longrightarrow> fst (split_messages ms) = []"
proof (induction ms rule: rev_induct)
  case (snoc m ms)
  obtain sys chat where s: "split_messages ms = (sys, chat)" by force
  have "chat_only ms" "has_kind Chat m" using snoc.prems by (simp_all add: chat_only_def)
  with snoc.IH s show ?case by (auto simp: split_snoc reconcile_step_def Let_def has_kind_def)
qed (simp add: split_messages_def)

lemma core_view_map_of: "core_view ms i = map_option core (map_of (snd (split_messages ms)) i)"
  by (simp add: core_view_def split_map_of option.map_comp comp_def)

lemma like_of_core: "like_of (core m) = like_of m" "with_missing s (core m) = with_missing s m"
  by (simp_all add: like_of_def core_def with_missing_def)

lemma last_with_Some:
  "distinct (map (\<lambda>m. js_trim (cl_id m)) xs) \<Longrightarrow> x \<in> set xs \<Longrightarrow> js_trim (cl_id x) \<noteq> [] \<Longrightarrow>
    last_with xs (js_trim (cl_id x)) = Some x"
  by (induction xs rule: rev_induct) (auto simp: last_with_snoc)

lemma last_with_None: "\<forall>x \<in> set xs. js_trim (cl_id x) \<noteq> i \<Longrightarrow> last_with xs i = None"
  by (auto simp: last_with_def find_None_iff)

lemma last_with_likes:
  assumes "keyed Chat chat" shows "last_with (map like_of (map snd chat)) i = map_option like_of (map_of chat i)"
proof -
  have t: "js_trim (cl_id (like_of (snd p))) = fst p \<and> fst p \<noteq> []" if "p \<in> set chat" for p
    using assms that by (cases p) (auto simp: keyed_def like_of_def js_trim_id)
  have e: "map (\<lambda>m. js_trim (cl_id m)) (map like_of (map snd chat)) = map fst chat"
    using t by simp
  have d: "distinct (map (\<lambda>m. js_trim (cl_id m)) (map like_of (map snd chat)))"
    unfolding e using assms by (simp add: keyed_def)
  show ?thesis
  proof (cases "map_of chat i")
    case None
    then have "\<forall>x \<in> set (map like_of (map snd chat)). js_trim (cl_id x) \<noteq> i"
      using t by (auto simp: map_of_eq_None_iff)
    then have "last_with (map like_of (map snd chat)) i = None" by (rule last_with_None)
    with None show ?thesis by simp
  next
    case (Some m)
    then have p: "(i, m) \<in> set chat" by (rule map_of_SomeD)
    then have "last_with (map like_of (map snd chat)) (js_trim (cl_id (like_of m))) = Some (like_of m)"
      by (intro last_with_Some [OF d]) (use t [OF p] in force)+
    with Some t [OF p] show ?thesis by simp
  qed
qed

definition trimmed_ids :: "chat_message list \<Rightarrow> string set" where
  "trimmed_ids ms = (\<lambda>m. js_trim (msg_id m)) ` set ms"

lemma last_of_in: "last_of ms k i = Some m \<Longrightarrow> m \<in> set ms \<and> js_trim (msg_id m) = i \<and> i \<noteq> [] \<and> has_kind k m"
  by (auto simp: last_of_def find_Some_iff split: if_splits) (metis nth_mem rev_nth set_rev length_rev)

lemma reconcile_ids: "chat_strings (set (chat_nodes (map like_of (map snd (snd (split_messages ms)))))) \<subseteq> trimmed_ids ms"
proof
  fix i assume "i \<in> chat_strings (set (chat_nodes (map like_of (map snd (snd (split_messages ms))))))"
  then obtain l j where l: "last_with (map like_of (map snd (snd (split_messages ms)))) j = Some l" "i = cl_id (chat_node l)"
    unfolding chat_strings_def chat_nodes_iff by (auto simp: image_iff chat_nodes_iff simp del: set_map)
  then obtain m where m: "map_of (snd (split_messages ms)) j = Some m" "l = like_of m"
    using last_with_likes [of "snd (split_messages ms)" j] split_keyed [of ms]
    by (cases "map_of (snd (split_messages ms)) j") auto
  then obtain m0 where m0: "last_of ms Chat j = Some m0" "m = normalizeChatMessage m0"
    by (auto simp: split_map_of)
  have "i = js_trim (msg_id m0)" using l m m0 by (simp add: like_of_def)
  then show "i \<in> trimmed_ids ms" using last_of_in [OF m0(1)] by (auto simp: trimmed_ids_def)
qed

lemma core_normalize_with_missing:
  assumes "normalizeChatMessage m = m" "msg_kind m = Some Chat"
  shows "core (normalizeChatMessage (with_missing s m)) = core m"
proof -
  have "msg_after m = js_uniq_texts (msg_after m)"
    using normalizeChatMessage_chat(1) [of m] assms by simp
  then have "with_missing s m = m\<lparr>msg_missingAfter := filter (\<lambda>i. i \<in> set s) (js_uniq_texts (msg_after m))\<rparr>"
    by (simp add: with_missing_def)
  moreover have "core (normalizeChatMessage (m\<lparr>msg_missingAfter := xs\<rparr>)) = core (normalizeChatMessage m)" for xs
    by (simp add: core_def normalizeChatMessage_def Let_def normalizeMessageTs_def normalizeOrigin_def normalizeOriginSeq_def)
  ultimately show ?thesis using assms(1) by simp
qed

lemma reconciled_messages:
  assumes "conforming_sort srt"
  shows "\<exists>r. reconcileSessionMessages srt lc ms = Some r \<and>
    distinct (map (\<lambda>m. (msg_kind m, msg_id m)) (rc_messages r)) \<and>
    set (rc_messages r) = {normalizeChatMessage m | m i. last_of ms System i = Some m} \<union>
      {with_missing (rc_missingMessageIds r) (normalizeChatMessage m) | m i. last_of ms Chat i = Some m}"
proof -
  let ?S = "fst (split_messages ms)" and ?C = "snd (split_messages ms)"
  have k: "keyed System ?S" "keyed Chat ?C" using split_keyed by blast+
  obtain a where a: "analyzeOpenClawPairChatGraph lc (map like_of (map snd ?C)) = Some a"
    and ra: "reconcileSessionMessages srt lc ms = Some \<lparr>rc_messages =
        srt (reconcile_cmp lc (map msg_id (ordered_chat ?C a))) (map snd ?S @ ordered_chat ?C a),
      rc_leafIds = ca_leafIds a, rc_missingMessageIds = ca_missingIds a\<rparr>"
    by (rule reconcile_Some)
  let ?all = "map snd ?S @ ordered_chat ?C a"
  let ?key = "\<lambda>m. (msg_kind m, msg_id m)"
  have m: "mset (srt c ?all) = mset ?all" for c using assms by (simp add: conforming_sort_def)
  have sys: "set (map snd ?S) = {normalizeChatMessage m | m i. last_of ms System i = Some m}"
  proof -
    have "x \<in> set (map snd ?S) \<longleftrightarrow> (\<exists>i. map_of ?S i = Some x)" for x
      using k(1) by (force simp: keyed_def image_iff)
    then show ?thesis unfolding set_eq_iff by (auto simp: split_map_of simp del: set_map)
  qed
  have chat: "set (ordered_chat ?C a) =
      {with_missing (ca_missingIds a) (normalizeChatMessage m) | m i. last_of ms Chat i = Some m}"
    unfolding set_ordered_chat [OF k(2) a] by (auto simp: split_map_of)
  have kinds: "\<forall>x \<in> set (map snd ?S). msg_kind x = Some System"
    "\<forall>x \<in> set (ordered_chat ?C a). msg_kind x = Some Chat"
    using k(1) unfolding chat by (auto simp: keyed_def dest!: last_of_in) (simp add: has_kind_def)
  have inj: "distinct (map msg_id xs) \<Longrightarrow> distinct (map ?key xs)" for xs :: "chat_message list"
    by (auto simp: distinct_map inj_on_def)
  have dS: "distinct (map msg_id (map snd ?S))"
    unfolding keyed_ids [OF k(1)] using k(1) by (simp add: keyed_def)
  have "set (map ?key (map snd ?S)) \<inter> set (map ?key (ordered_chat ?C a)) = {}"
  proof (rule equals0I)
    fix p assume "p \<in> set (map ?key (map snd ?S)) \<inter> set (map ?key (ordered_chat ?C a))"
    then have "p \<in> ?key ` set (map snd ?S)" "p \<in> ?key ` set (ordered_chat ?C a)"
      by (simp_all only: set_map [of ?key] Int_iff)
    then obtain u w where "p = ?key u" "u \<in> set (map snd ?S)" "p = ?key w" "w \<in> set (ordered_chat ?C a)"
      by blast
    with kinds have "msg_kind u = Some System" "msg_kind w = Some Chat" "?key u = ?key w" by blast+
    then show False by simp
  qed
  then have "distinct (map ?key ?all)"
    using inj [OF dS] inj [OF ordered_chat_ids(2) [OF k(2) a]]
    by (simp only: map_append distinct_append simp_thms)
  then have "distinct (map ?key (srt c ?all))" for c
    using m by (metis mset_eq_imp_distinct_iff mset_map)
  moreover have "set (srt c ?all) = set ?all" for c using m by (metis mset_eq_setD)
  ultimately show ?thesis using ra sys chat by simp
qed

text \<open>The system messages of a log: the last one of each id.\<close>

definition sys_view :: "chat_message list \<Rightarrow> string \<Rightarrow> chat_message option" where
  "sys_view ms i = map_option normalizeChatMessage (last_of ms System i)"

lemma sys_view_map_of: "sys_view ms i = map_of (fst (split_messages ms)) i"
  by (simp add: sys_view_def split_map_of)

lemma last_of_unique:
  assumes d: "distinct (map (\<lambda>m. (msg_kind m, msg_id m)) xs)"
    and n: "\<forall>m \<in> set xs. msg_kind m \<noteq> None \<and> js_trim (msg_id m) = msg_id m"
    and x: "x \<in> set xs" "msg_kind x = Some k" "msg_id x \<noteq> []"
  shows "last_of xs k (msg_id x) = Some x"
proof -
  let ?P = "\<lambda>m. has_kind k m \<and> js_trim (msg_id m) = msg_id x"
  have kind: "msg_kind m = Some k" if "m \<in> set xs" "has_kind k m" for m
    using n that by (cases "msg_kind m"; cases "the (msg_kind m)") (auto simp: has_kind_def split: if_splits)
  have "?P x" using x n by (cases k) (auto simp: has_kind_def)
  then have "find ?P (rev xs) \<noteq> None" using x(1) by (auto simp: find_None_iff)
  then obtain y where y: "find ?P (rev xs) = Some y" by blast
  then have "y \<in> set xs" "?P y" by (auto simp: find_Some_iff) (metis length_rev nth_mem set_rev)
  then have "(msg_kind y, msg_id y) = (msg_kind x, msg_id x)" using kind n x(2) by auto
  then have "y = x" using d x(1) \<open>y \<in> set xs\<close> unfolding distinct_map inj_on_def by blast
  with y x(3) show ?thesis by (simp add: last_of_def)
qed

text \<open>Reconciling keeps both views of a log.\<close>

lemma reconcile_view:
  assumes srt: "conforming_sort srt" and r: "reconcileSessionMessages srt lc ms = Some r"
  shows "core_view (rc_messages r) i = core_view ms i" "sys_view (rc_messages r) i = sys_view ms i"
    and "trimmed_ids (rc_messages r) \<subseteq> trimmed_ids ms"
proof -
  let ?R = "rc_messages r"
  have d: "distinct (map (\<lambda>m. (msg_kind m, msg_id m)) ?R)"
    and R: "set ?R = {normalizeChatMessage m | m i. last_of ms System i = Some m} \<union>
      {with_missing (rc_missingMessageIds r) (normalizeChatMessage m) | m i. last_of ms Chat i = Some m}"
    using reconciled_messages [OF srt, of lc ms] r by auto
  have n: "\<forall>m \<in> set ?R. msg_kind m \<noteq> None \<and> js_trim (msg_id m) = msg_id m" unfolding R by auto
  note u = last_of_unique [OF d n]
  have orig: "\<exists>m. last_of ms k j = Some m" if "last_of ?R k j = Some y" for k j y
  proof -
    have y: "y \<in> set ?R" "js_trim (msg_id y) = j" "has_kind k y" using last_of_in [OF that] by blast+
    from y(1) obtain m i k' where m: "last_of ms k' i = Some m" "msg_id y = js_trim (msg_id m)"
      "msg_kind y = msg_kind (normalizeChatMessage m)" unfolding R by auto
    have "msg_id y = j" using n y(1,2) by auto
    then have "i = j" "has_kind k' m" using last_of_in [OF m(1)] m(2) by auto
    moreover have "k' = k" using \<open>has_kind k' m\<close> y(3) m(3) by (auto simp: has_kind_def split: if_splits)
    ultimately show ?thesis using m(1) by blast
  qed
  show "core_view ?R i = core_view ms i"
  proof (cases "last_of ms Chat i")
    case None
    then have "last_of ?R Chat i = None" using orig by (metis not_None_eq)
    with None show ?thesis by (simp add: core_view_def)
  next
    case (Some m)
    let ?x = "with_missing (rc_missingMessageIds r) (normalizeChatMessage m)"
    have "?x \<in> set ?R" unfolding R using Some by blast
    moreover have m: "js_trim (msg_id m) = i" "i \<noteq> []" "has_kind Chat m" using last_of_in [OF Some] by auto
    ultimately have "last_of ?R Chat i = Some ?x" using u [of ?x Chat] by (simp add: has_kind_def)
    then show ?thesis using Some m(3)
      by (simp add: core_view_def has_kind_def core_normalize_with_missing del: normalizeChatMessage_sel(2))
  qed
  show "sys_view ?R i = sys_view ms i"
  proof (cases "last_of ms System i")
    case None
    then have "last_of ?R System i = None" using orig by (metis not_None_eq)
    with None show ?thesis by (simp add: sys_view_def)
  next
    case (Some m)
    let ?x = "normalizeChatMessage m"
    have "?x \<in> set ?R" unfolding R using Some by blast
    moreover have m: "js_trim (msg_id m) = i" "i \<noteq> []" "has_kind System m" using last_of_in [OF Some] by auto
    ultimately have "last_of ?R System i = Some ?x" using u [of ?x System]
      by (simp add: has_kind_def del: normalizeChatMessage_sel(2))
    then show ?thesis using Some by (simp add: sys_view_def)
  qed
  show "trimmed_ids ?R \<subseteq> trimmed_ids ms"
    unfolding trimmed_ids_def R by (auto dest!: last_of_in)
qed

text \<open>Inserting a chat message changes the view at its id only.\<close>

lemma core_view_snoc:
  "core_view (ms @ [m]) i = (if i \<noteq> [] \<and> has_kind Chat m \<and> js_trim (msg_id m) = i
     then Some (core (normalizeChatMessage m)) else core_view ms i)"
  by (simp add: core_view_def last_of_snoc)

lemma last_of_filter:
  "i \<noteq> j \<Longrightarrow> last_of (filter (\<lambda>m. js_trim (msg_id m) \<noteq> j) ms) k i = last_of ms k i"
  by (induction ms rule: rev_induct) (auto simp: last_of_snoc)

text \<open>The log that \<open>upsertSessionMessage\<close> reconciles.\<close>

definition next_log :: "chat_message list \<Rightarrow> chat_message \<Rightarrow> chat_message list" where
  "next_log cur m =
     filter (\<lambda>x. js_trim (msg_id x) \<noteq> js_trim (msg_id m)) cur @ [normalizeChatMessage m]"

lemma sys_view_snoc:
  "has_kind Chat m \<Longrightarrow> sys_view (ms @ [m]) i = sys_view ms i"
  by (simp add: sys_view_def last_of_snoc has_kind_def)

lemma last_of_filtered: "last_of (filter (\<lambda>m. js_trim (msg_id m) \<noteq> i) ms) k i = None"
  by (auto simp: last_of_def find_None_iff)

lemma next_log_view:
  assumes "has_kind Chat m" "js_trim (msg_id m) \<noteq> []"
  shows "core_view (next_log cur m) i =
      (if i = js_trim (msg_id m) then Some (core (normalizeChatMessage m)) else core_view cur i)"
    and "sys_view (next_log cur m) i = (if i = js_trim (msg_id m) then None else sys_view cur i)"
    and "trimmed_ids (next_log cur m) \<subseteq> insert (js_trim (msg_id m)) (trimmed_ids cur)"
proof -
  have k: "has_kind Chat (normalizeChatMessage m)" using assms(1) by (simp add: has_kind_def)
  show "core_view (next_log cur m) i =
      (if i = js_trim (msg_id m) then Some (core (normalizeChatMessage m)) else core_view cur i)"
    using assms(2) k last_of_filter [of i "js_trim (msg_id m)"]
    by (auto simp: core_view_snoc next_log_def, simp add: core_view_def)
  show "sys_view (next_log cur m) i = (if i = js_trim (msg_id m) then None else sys_view cur i)"
    using last_of_filter [of i "js_trim (msg_id m)" cur System] last_of_filtered [of i cur System]
    by (simp add: next_log_def sys_view_snoc [OF k]) (auto simp: sys_view_def)
  show "trimmed_ids (next_log cur m) \<subseteq> insert (js_trim (msg_id m)) (trimmed_ids cur)"
    by (auto simp: trimmed_ids_def next_log_def)
qed

lemma upsert_Some:
  assumes "reconcileSessionMessages srt lc (next_log cur m) = Some r"
  obtains u where "upsertSessionMessage srt lc cur m = Some u" "up_messages u = rc_messages r"
    "up_leafIds u = rc_leafIds r" "up_missingMessageIds u = rc_missingMessageIds r"
proof -
  obtain p where "reconcileSessionMessages srt lc cur = Some p" using reconcile_Some by blast
  then show thesis
    using assms that by (simp add: upsertSessionMessage_def next_log_def)
qed

text \<open>Logs with the same chat view have the same chat messages in the same order.\<close>

lemma reconcile_chat_cong:
  assumes v: "\<And>i. core_view xs i = core_view ys i" and lc: "total_comparator_on (trimmed_ids xs) lc"
  obtains oc leaves missing where
    "reconcileSessionMessages srt lc xs = Some \<lparr>rc_messages =
      srt (reconcile_cmp lc (map msg_id oc)) (map snd (fst (split_messages xs)) @ oc),
      rc_leafIds = leaves, rc_missingMessageIds = missing\<rparr>"
    "reconcileSessionMessages srt lc ys = Some \<lparr>rc_messages =
      srt (reconcile_cmp lc (map msg_id oc)) (map snd (fst (split_messages ys)) @ oc),
      rc_leafIds = leaves, rc_missingMessageIds = missing\<rparr>"
    "distinct (map msg_id oc)" "\<forall>m \<in> set oc. msg_kind m = Some Chat \<and> js_or_zero (msg_ts m) = msg_ts m"
proof -
  let ?X = "snd (split_messages xs)" and ?Y = "snd (split_messages ys)"
  have kx: "keyed Chat ?X" and ky: "keyed Chat ?Y" using split_keyed by blast+
  have cm: "map_option core (map_of ?X i) = map_option core (map_of ?Y i)" for i
    using v [of i] by (simp add: core_view_map_of)
  obtain a where a: "analyzeOpenClawPairChatGraph lc (map like_of (map snd ?X)) = Some a"
    and ra: "reconcileSessionMessages srt lc xs = Some \<lparr>rc_messages =
        srt (reconcile_cmp lc (map msg_id (ordered_chat ?X a))) (map snd (fst (split_messages xs)) @ ordered_chat ?X a),
      rc_leafIds = ca_leafIds a, rc_missingMessageIds = ca_missingIds a\<rparr>"
    by (rule reconcile_Some)
  obtain b where b: "analyzeOpenClawPairChatGraph lc (map like_of (map snd ?Y)) = Some b"
    and rb: "reconcileSessionMessages srt lc ys = Some \<lparr>rc_messages =
        srt (reconcile_cmp lc (map msg_id (ordered_chat ?Y b))) (map snd (fst (split_messages ys)) @ ordered_chat ?Y b),
      rc_leafIds = ca_leafIds b, rc_missingMessageIds = ca_missingIds b\<rparr>"
    by (rule reconcile_Some)
  have "last_with (map like_of (map snd ?X)) i = last_with (map like_of (map snd ?Y)) i" for i
    unfolding last_with_likes [OF kx] last_with_likes [OF ky]
    using cm [of i] like_of_core(1) by (cases "map_of ?X i"; cases "map_of ?Y i") (auto, metis like_of_core(1))
  from chat_analysis_cong [OF this _ a b]
  have ab: "ca_ordered a = ca_ordered b" "ca_leafIds a = ca_leafIds b" "ca_missingIds a = ca_missingIds b"
    using total_comparator_on_subset [OF lc reconcile_ids] by blast+
  have "ordered_chat ?X a = ordered_chat ?Y b"
  proof -
    have ids: "cl_id ` set (ca_ordered a) = fst ` set ?X" "cl_id ` set (ca_ordered b) = fst ` set ?Y"
      using likes_ids [OF kx a] likes_ids [OF ky b] by (metis mset_eq_setD set_map)+
    have "with_missing s (the (map_of ?X (cl_id l))) = with_missing s (the (map_of ?Y (cl_id l)))"
      if "l \<in> set (ca_ordered a)" for s l
    proof -
      have "cl_id l \<in> fst ` set ?X" "cl_id l \<in> fst ` set ?Y" using that ids ab(1) by auto
      then obtain u w where "map_of ?X (cl_id l) = Some u" "map_of ?Y (cl_id l) = Some w"
        using keyed_get [OF kx] keyed_get [OF ky] by blast
      with cm [of "cl_id l"] show ?thesis by simp (metis like_of_core(2))
    qed
    then show ?thesis unfolding ordered_chat_def ab(3) ab(1) [symmetric] by simp
  qed
  moreover have "\<forall>m \<in> set (ordered_chat ?X a). msg_kind m = Some Chat \<and> js_or_zero (msg_ts m) = msg_ts m"
    unfolding set_ordered_chat [OF kx a] using kx normal_ts by (fastforce simp: keyed_def dest!: map_of_SomeD)
  ultimately show thesis
    using that [of "ordered_chat ?X a"] ra rb ab ordered_chat_ids(2) [OF kx a] by simp
qed

lemma split_systems_mset:
  assumes "\<And>i. sys_view xs i = sys_view ys i"
  shows "mset (map snd (fst (split_messages xs))) = mset (map snd (fst (split_messages ys)))"
proof -
  let ?S = "fst (split_messages xs)" and ?T = "fst (split_messages ys)"
  have d: "distinct (map fst ?S)" "distinct (map fst ?T)" using split_keyed by (auto simp: keyed_def)
  have "map_of ?S = map_of ?T" using assms by (simp add: sys_view_map_of fun_eq_iff)
  then have "set ?S = set ?T" using map_of_inject_set [OF d] by simp
  then have "mset ?S = mset ?T" using d by (simp add: set_eq_iff_mset_eq_distinct distinct_map)
  then show ?thesis by simp
qed

text \<open>The comparator of \<open>reconcileSessionMessages\<close> is a total order when the system messages are older
  than every chat message and share no id with one.\<close>

definition systems_first :: "chat_message list \<Rightarrow> bool" where
  "systems_first ms = (\<forall>s \<in> set ms. \<forall>m \<in> set ms. msg_kind s = Some System \<and> msg_kind m = Some Chat \<longrightarrow>
     js_less (msg_ts s) (msg_ts m) \<and> msg_id s \<noteq> msg_id m)"

lemma total_comparator_on_blocks:
  assumes a: "total_comparator_on A c" and b: "total_comparator_on B c"
    and ab: "\<And>x y. x \<in> A \<Longrightarrow> y \<in> B \<Longrightarrow> c x y < 0 \<and> 0 < c y x"
  shows "total_comparator_on (A \<union> B) c"
proof -
  note tr = comparator_on.cmp_trans [OF total_comparator_on.axioms(1) [OF a]]
    comparator_on.cmp_trans [OF total_comparator_on.axioms(1) [OF b]]
  note an = comparator_on.cmp_anti [OF total_comparator_on.axioms(1) [OF a]]
    comparator_on.cmp_anti [OF total_comparator_on.axioms(1) [OF b]]
  note tot = total_comparator_on.cmp_total [OF a] total_comparator_on.cmp_total [OF b]
  show ?thesis
  proof
    fix x y assume "x \<in> A \<union> B" "y \<in> A \<union> B"
    then show "sgn (c y x) = - sgn (c x y)" using an [of x y] ab [of x y] ab [of y x] by auto
  next
    fix x y z assume m: "x \<in> A \<union> B" "y \<in> A \<union> B" "z \<in> A \<union> B" and le: "c x y \<le> 0" "c y z \<le> 0"
    show "c x z \<le> 0"
    proof (cases "x \<in> A")
      case True
      then show ?thesis using m le tr(1) [of x y z] ab [of x z] ab [of z y] by fastforce
    next
      case False
      then show ?thesis using m le tr(2) [of x y z] ab [of y x] ab [of z y] by fastforce
    qed
  next
    fix x y assume "x \<in> A \<union> B" "y \<in> A \<union> B" "c x y = 0"
    then show "x = y" using tot [of x y] ab [of x y] ab [of y x] by fastforce
  qed
qed

text \<open>Logs with the same two views are reconciled alike: the leaf ids, the missing ids and the
  messages are the same, and so is their order when the comparator is consistent.\<close>

definition same_log :: "upserted \<Rightarrow> upserted \<Rightarrow> bool" where
  "same_log u w = (mset (up_messages u) = mset (up_messages w) \<and> up_leafIds u = up_leafIds w \<and>
     up_missingMessageIds u = up_missingMessageIds w \<and>
     (systems_first (up_messages u) \<longrightarrow> up_messages u = up_messages w))"

lemma compareFallbackOrder_cmp_by:
  "compareFallbackOrder lc = cmp_by normalizeMessageTs js_diff_sign (\<lambda>x y. lc (msg_id x) (msg_id y))"
  by (intro ext) (simp add: cmp_by_def compareFallbackOrder_def)

lemma total_fallback_order:
  assumes lc: "total_comparator_on (msg_id ` S) lc" and i: "inj_on msg_id S"
  shows "total_comparator_on S (compareFallbackOrder lc)"
proof -
  have n: "total_comparator_on (normalizeMessageTs ` S) js_diff_sign"
    by (rule total_comparator_on_subset [OF numbers.total_comparator_on_axioms]) (auto simp: normalizeMessageTs_def)
  from total_comparator_on_cmp_by [OF n total_comparator_on_key [OF lc i]] show ?thesis
    by (simp only: compareFallbackOrder_cmp_by)
qed

lemma total_comparator_on_cong:
  assumes "total_comparator_on A c" "\<And>x y. x \<in> A \<Longrightarrow> y \<in> A \<Longrightarrow> d x y = c x y"
  shows "total_comparator_on A d"
proof -
  note c = total_comparator_on.axioms(1) [OF assms(1)]
  show ?thesis
  proof
    fix x y assume "x \<in> A" "y \<in> A"
    then show "sgn (d y x) = - sgn (d x y)" using comparator_on.cmp_anti [OF c, of x y] by (simp add: assms(2))
  next
    fix x y z assume "x \<in> A" "y \<in> A" "z \<in> A" "d x y \<le> 0" "d y z \<le> 0"
    then show "d x z \<le> 0" using comparator_on.cmp_trans [OF c, of x y z] by (simp add: assms(2))
  next
    fix x y assume "x \<in> A" "y \<in> A" "d x y = 0"
    then show "x = y" using total_comparator_on.cmp_total [OF assms(1), of x y] by (simp add: assms(2))
  qed
qed

lemma reconcile_cmp_total:
  assumes lc: "total_comparator_on (msg_id ` set ss) lc" and s: "distinct (map msg_id ss)"
    and oc: "distinct (map msg_id oc)"
    and ts: "\<forall>x \<in> set ss \<union> set oc. js_or_zero (msg_ts x) = msg_ts x"
    and ord: "\<forall>x \<in> set ss. \<forall>y \<in> set oc. js_less (msg_ts x) (msg_ts y) \<and> msg_id x \<noteq> msg_id y"
  shows "total_comparator_on (set ss \<union> set oc) (reconcile_cmp lc (map msg_id oc))"
proof (rule total_comparator_on_blocks)
  let ?c = "reconcile_cmp lc (map msg_id oc)"
  have none: "index_in (map msg_id oc) (msg_id x) = None" if "x \<in> set ss" for x
    using ord that by (auto simp: index_in_def)
  have "inj_on msg_id (set ss)" using s by (simp add: distinct_map)
  then show "total_comparator_on (set ss) ?c"
    by (rule total_comparator_on_cong [OF total_fallback_order [OF lc]]) (simp add: reconcile_cmp_def none)
  have idx: "?c x y = the (index_in (map msg_id oc) (msg_id x)) - the (index_in (map msg_id oc) (msg_id y))"
    if "x \<in> set oc" "y \<in> set oc" for x y
    using that by (auto simp: reconcile_cmp_def index_in_def)
  have inj: "x = y" if "x \<in> set oc" "y \<in> set oc" "?c x y = 0" for x y
  proof -
    note xy = that
    obtain m n where mn: "x = oc ! m" "m < length oc" "y = oc ! n" "n < length oc"
      using xy(1,2) by (auto simp: in_set_conv_nth)
    then show ?thesis
      using index_in_nth [OF oc, of m] index_in_nth [OF oc, of n] xy(3) idx [OF xy(1,2)] by simp
  qed
  show "total_comparator_on (set oc) ?c"
    by unfold_locales (auto simp: idx sgn_if intro: inj)
  fix x y assume xy: "x \<in> set ss" "y \<in> set oc"
  have "?c x y = compareFallbackOrder lc x y" "?c y x = compareFallbackOrder lc y x"
    using none [OF xy(1)] by (simp_all add: reconcile_cmp_def split: option.split)
  moreover have l: "js_less (msg_ts x) (msg_ts y)" using ord xy by blast
  moreover have "\<not> js_less (msg_ts y) (msg_ts x)" using l by (rule js_less_asym)
  moreover have "msg_ts x \<noteq> msg_ts y" using l by (metis js_less_irrefl)
  ultimately show "?c x y < 0 \<and> 0 < ?c y x"
    using ts xy by (simp add: compareFallbackOrder_def normalizeMessageTs_def js_diff_sign_def)
qed

lemma reconcile_cong:
  assumes v: "\<And>i. core_view xs i = core_view ys i" "\<And>i. sys_view xs i = sys_view ys i"
    and srt: "conforming_sort srt" and lc: "total_comparator_on (trimmed_ids xs) lc"
    and r: "reconcileSessionMessages srt lc xs = Some r" and r': "reconcileSessionMessages srt lc ys = Some r'"
  shows "mset (rc_messages r) = mset (rc_messages r')" "rc_leafIds r = rc_leafIds r'"
    and "rc_missingMessageIds r = rc_missingMessageIds r'"
    and "systems_first (rc_messages r) \<Longrightarrow> rc_messages r = rc_messages r'"
proof -
  let ?S = "map snd (fst (split_messages xs))" and ?T = "map snd (fst (split_messages ys))"
  obtain oc leaves missing where e:
    "reconcileSessionMessages srt lc xs = Some \<lparr>rc_messages = srt (reconcile_cmp lc (map msg_id oc)) (?S @ oc),
      rc_leafIds = leaves, rc_missingMessageIds = missing\<rparr>"
    "reconcileSessionMessages srt lc ys = Some \<lparr>rc_messages = srt (reconcile_cmp lc (map msg_id oc)) (?T @ oc),
      rc_leafIds = leaves, rc_missingMessageIds = missing\<rparr>"
    "distinct (map msg_id oc)" "\<forall>m \<in> set oc. msg_kind m = Some Chat \<and> js_or_zero (msg_ts m) = msg_ts m"
    by (rule reconcile_chat_cong [OF v(1) lc])
  let ?c = "reconcile_cmp lc (map msg_id oc)"
  have m: "mset (srt c zs) = mset zs" for c zs using srt by (simp add: conforming_sort_def)
  have st: "mset (?S @ oc) = mset (?T @ oc)" using split_systems_mset [OF v(2)] by simp
  have rm: "rc_messages r = srt ?c (?S @ oc)" "rc_messages r' = srt ?c (?T @ oc)"
    using r r' e(1,2) by (metis option.inject reconciled.select_convs(1))+
  show "mset (rc_messages r) = mset (rc_messages r')" unfolding rm m by (rule st)
  show "rc_leafIds r = rc_leafIds r'" "rc_missingMessageIds r = rc_missingMessageIds r'"
    using r r' e(1,2) by auto
  assume sf: "systems_first (rc_messages r)"
  have k: "keyed System (fst (split_messages xs))" using split_keyed by blast
  have in_r: "set (rc_messages r) = set ?S \<union> set oc"
    using mset_eq_setD [OF m [of ?c "?S @ oc"]] by (simp only: rm set_append)
  have sys: "msg_kind x = Some System \<and> js_or_zero (msg_ts x) = msg_ts x \<and> msg_id x \<in> trimmed_ids xs"
    if "x \<in> set ?S" for x
  proof -
    from that obtain i where i: "(i, x) \<in> set (fst (split_messages xs))" by auto
    then have x: "msg_id x = i" "msg_kind x = Some System" "normalizeChatMessage x = x" using k by (auto simp: keyed_def)
    have "map_of (fst (split_messages xs)) i = Some x" using i k by (simp add: keyed_def)
    then have "i \<in> trimmed_ids xs" by (auto simp: split_map_of trimmed_ids_def dest!: last_of_in)
    with x show ?thesis by (simp add: normal_ts)
  qed
  have "total_comparator_on (set ?S \<union> set oc) ?c"
  proof (rule reconcile_cmp_total)
    show "total_comparator_on (msg_id ` set ?S) lc" by (rule total_comparator_on_subset [OF lc]) (use sys in blast)
    show "distinct (map msg_id ?S)" unfolding keyed_ids [OF k] using k by (simp add: keyed_def)
    show "\<forall>x \<in> set ?S. \<forall>y \<in> set oc. js_less (msg_ts x) (msg_ts y) \<and> msg_id x \<noteq> msg_id y"
      using sf sys e(4) unfolding systems_first_def in_r by blast
    show "\<forall>x \<in> set ?S \<union> set oc. js_or_zero (msg_ts x) = msg_ts x" using sys e(4) by blast
  qed (rule e(3))
  then have t: "total_comparator_on (set (?S @ oc)) ?c" by (simp only: set_append)
  then have c: "comparator_on (set (?S @ oc)) ?c" by (rule total_comparator_on.axioms(1))
  moreover have "set (?T @ oc) = set (?S @ oc)" using mset_eq_setD [OF st] by (rule sym)
  ultimately have "srt ?c (?S @ oc) = js_sort ?c (?S @ oc)" "srt ?c (?T @ oc) = js_sort ?c (?T @ oc)"
    using srt by (simp_all only: conforming_sort_def)
  then show "rc_messages r = rc_messages r'"
    unfolding rm using total_comparator_on.js_sort_cong [OF t st subset_refl] by simp
qed

lemma upsert_view:
  assumes c: "has_kind Chat m" "js_trim (msg_id m) \<noteq> []" and srt: "conforming_sort srt"
  obtains u where "upsertSessionMessage srt lc cur m = Some u"
    "\<And>i. core_view (up_messages u) i = core_view (next_log cur m) i"
    "\<And>i. sys_view (up_messages u) i = sys_view (next_log cur m) i"
    "trimmed_ids (up_messages u) \<subseteq> insert (js_trim (msg_id m)) (trimmed_ids cur)"
proof -
  obtain r where r: "reconcileSessionMessages srt lc (next_log cur m) = Some r" using reconcile_Some by blast
  note v = reconcile_view [OF srt r]
  from v(3) next_log_view(3) [OF c] have "trimmed_ids (rc_messages r) \<subseteq> insert (js_trim (msg_id m)) (trimmed_ids cur)"
    by (rule subset_trans)
  with v upsert_Some [OF r] that show thesis by metis
qed

lemma upsert_cong:
  assumes a: "has_kind Chat m" "js_trim (msg_id m) \<noteq> []"
    and srt: "conforming_sort srt" and lc: "total_comparator_on (insert (js_trim (msg_id m)) (trimmed_ids A)) lc"
    and v: "\<And>i. core_view (next_log A m) i = core_view (next_log B n) i"
      "\<And>i. sys_view (next_log A m) i = sys_view (next_log B n) i"
    and u: "upsertSessionMessage srt lc A m = Some u" and w: "upsertSessionMessage srt lc B n = Some w"
  shows "same_log u w"
proof -
  obtain r where r: "reconcileSessionMessages srt lc (next_log A m) = Some r" using reconcile_Some by blast
  obtain r' where r': "reconcileSessionMessages srt lc (next_log B n) = Some r'" using reconcile_Some by blast
  obtain u' where u': "upsertSessionMessage srt lc A m = Some u'" "up_messages u' = rc_messages r"
    "up_leafIds u' = rc_leafIds r" "up_missingMessageIds u' = rc_missingMessageIds r" by (rule upsert_Some [OF r])
  obtain w' where w': "upsertSessionMessage srt lc B n = Some w'" "up_messages w' = rc_messages r'"
    "up_leafIds w' = rc_leafIds r'" "up_missingMessageIds w' = rc_missingMessageIds r'" by (rule upsert_Some [OF r'])
  have "u = u'" "w = w'" using u w u'(1) w'(1) by simp_all
  with u' w' reconcile_cong [OF v srt total_comparator_on_subset [OF lc next_log_view(3) [OF a]] r r']
  show ?thesis by (simp add: same_log_def)
qed

section \<open>Properties\<close>

text \<open>Reconciling a log returns and loses nothing: the result holds, exactly once, the last
  system message and the last chat message of every non-blank id, normalised, each chat message
  with the list of those of its parents that are missing; this only needs the engine's sort to
  permute.\<close>

theorem reconcile_keeps_last_copies:
  assumes "conforming_sort srt"
  shows "\<exists>r. reconcileSessionMessages srt lc ms = Some r \<and>
    distinct (map (\<lambda>m. (msg_kind m, msg_id m)) (rc_messages r)) \<and>
    set (rc_messages r) = {normalizeChatMessage m | m i. last_of ms System i = Some m} \<union>
      {with_missing (rc_missingMessageIds r) (normalizeChatMessage m) | m i. last_of ms Chat i = Some m}"
  using assms by (rule reconciled_messages)

text \<open>The nodes of the graph and the messages of the result correspond.\<close>

lemma ordered_chat_nodes:
  assumes k: "keyed Chat chat" and a: "analyzeOpenClawPairChatGraph lc (map like_of (map snd chat)) = Some a"
    and x: "x \<in> set (ca_ordered a)"
  shows "msg_id (with_missing s (the (map_of chat (cl_id x)))) = cl_id x \<and>
    msg_after (with_missing s (the (map_of chat (cl_id x)))) = chat_pars x"
proof -
  have "x \<in> set (chat_nodes (map like_of (map snd chat)))"
    using x chat_ordered_mset [OF a] by (metis mset_eq_setD)
  then obtain l i where l: "last_with (map like_of (map snd chat)) i = Some l" "x = chat_node l"
    unfolding chat_nodes_iff by blast
  then obtain m where m: "map_of chat i = Some m" "l = like_of m"
    using last_with_likes [OF k, of i] by (cases "map_of chat i") auto
  have "msg_id m = i" "js_trim i = i" using k map_of_SomeD [OF m(1)] by (auto simp: keyed_def js_trim_id)
  then have "map_of chat (cl_id x) = Some m" "cl_id x = msg_id m" using l m by (auto simp: like_of_def)
  then show ?thesis using l m by (simp add: with_missing_def chat_pars_def like_of_def)
qed

lemma reconcile_chat_only_causal:
  assumes c: "chat_only ms" and srt: "conforming_sort srt" and r: "reconcileSessionMessages srt lc ms = Some r"
    and ac: "acyclic (parent_rel msg_id msg_after (set (rc_messages r)))"
    and s: "rc_messages r = us @ m # vs" and p: "p \<in> set (msg_after m)" "p \<in> msg_id ` set (rc_messages r)"
  shows "p \<in> msg_id ` set us"
proof -
  let ?C = "snd (split_messages ms)"
  have k: "keyed Chat ?C" using split_keyed by blast
  obtain a where a: "analyzeOpenClawPairChatGraph lc (map like_of (map snd ?C)) = Some a"
    and ra: "reconcileSessionMessages srt lc ms = Some \<lparr>rc_messages =
        srt (reconcile_cmp lc (map msg_id (ordered_chat ?C a))) (map snd (fst (split_messages ms)) @ ordered_chat ?C a),
      rc_leafIds = ca_leafIds a, rc_missingMessageIds = ca_missingIds a\<rparr>"
    by (rule reconcile_Some)
  let ?f = "\<lambda>l. with_missing (ca_missingIds a) (the (map_of ?C (cl_id l)))"
  let ?N = "set (chat_nodes (map like_of (map snd ?C)))"
  have f: "msg_id (?f x) = cl_id x \<and> msg_after (?f x) = chat_pars x" if "x \<in> set (ca_ordered a)" for x
    using ordered_chat_nodes [OF k a that] by blast
  have rm: "rc_messages r = map ?f (ca_ordered a)"
    using ra r sort_graph_order [OF srt ordered_chat_ids(2) [OF k a]]
    by (simp add: chat_only_split [OF c] ordered_chat_def)
  have N: "set (ca_ordered a) = ?N" using chat_ordered_mset [OF a] by (rule mset_eq_setD)
  have "parent_rel cl_id chat_pars ?N \<subseteq> inv_image (parent_rel msg_id msg_after (set (rc_messages r))) ?f"
    unfolding N [symmetric] using f by (auto simp: parent_rel_def rm)
  moreover have "acyclic (inv_image (parent_rel msg_id msg_after (set (rc_messages r))) ?f)"
  proof (rule wf_acyclic, rule wf_inv_image, rule finite_acyclic_wf [OF _ ac])
    show "finite (parent_rel msg_id msg_after (set (rc_messages r)))"
      by (rule finite_subset [of _ "set (rc_messages r) \<times> set (rc_messages r)"]) (auto simp: parent_rel_def)
  qed
  ultimately have "acyclic (parent_rel cl_id chat_pars ?N)" by (metis acyclic_subset)
  then have co: "causally_ordered cl_id chat_pars ?N (ca_ordered a)"
    by (rule chat.causal_order_causal [OF chat_analyze_Some(1) [OF a]])
  obtain us' x vs' where o: "ca_ordered a = us' @ x # vs'" "us = map ?f us'" "m = ?f x"
    using s unfolding rm by (auto simp: map_eq_append_conv map_eq_Cons_conv)
  have fo: "msg_id ` set (rc_messages r) = cl_id ` ?N" "msg_id ` set us = cl_id ` set us'"
    unfolding N [symmetric] rm using f o by (force simp: image_image)+
  have "x \<in> set (ca_ordered a)" using o(1) by simp
  then have "p \<in> set (known_parents (cl_id ` ?N) chat_pars x)"
    using p f [of x] o(3) fo(1) by (simp add: known_parents_def)
  with co o(1) fo(2) show ?thesis unfolding causally_ordered_def by blast
qed

text \<open>C31: In a log without system messages a reply comes after every message it answers, unless the
  parents have a cycle: the sort by position keeps the order of the causal graph.\<close>

theorem reconcile_chat_order:
  assumes "chat_only ms" "conforming_sort srt" "reconcileSessionMessages srt lc ms = Some r"
    and "acyclic (parent_rel msg_id msg_after (set (rc_messages r)))"
    and "rc_messages r = us @ m # vs" "p \<in> set (msg_after m)" "p \<in> msg_id ` set (rc_messages r)"
  shows "p \<in> msg_id ` set us"
  by (rule reconcile_chat_only_causal [OF assms])

definition demo_msg :: "string \<Rightarrow> msg_kind \<Rightarrow> nat \<Rightarrow> string list \<Rightarrow> chat_message" where
  "demo_msg i k t after =
     \<lparr>msg_id = i, msg_from = Host, msg_text = ''t'', msg_createdAt = ''now'', msg_ts = Fin (of_nat t),
       msg_kind = Some k, msg_origin = Some Host_origin, msg_originSeq = Some (Fin 0), msg_after = after,
       msg_missingAfter = [], msg_deliveryStatus = None, msg_deliveryError = []\<rparr>"

theorem reconcile_keeps_last_copies_witness:
  "\<exists>r. reconcileSessionMessages js_sort js_string_cmp [demo_msg ''a'' Chat 1 [], demo_msg ''a'' System 2 []] = Some r \<and>
    distinct (map (\<lambda>m. (msg_kind m, msg_id m)) (rc_messages r))"
  using reconcile_keeps_last_copies [OF conforming_js_sort] by blast

definition demo_log :: "chat_message list" where
  "demo_log = [demo_msg ''r'' Chat 1 [''q''], demo_msg ''q'' Chat 2 []]"

lemma demo_log_order:
  "map_option (\<lambda>r. map msg_id (rc_messages r)) (reconcileSessionMessages js_sort js_string_cmp demo_log) =
    Some [''q'', ''r'']"
  "map_option (\<lambda>r. map msg_after (rc_messages r)) (reconcileSessionMessages js_sort js_string_cmp demo_log) =
    Some [[], [''q'']]"
  by code_simp+

theorem reconcile_chat_order_witness:
  "\<exists>r us m vs. reconcileSessionMessages js_sort js_string_cmp demo_log = Some r \<and>
    rc_messages r = us @ m # vs \<and> ''q'' \<in> set (msg_after m) \<and> ''q'' \<in> msg_id ` set us"
proof -
  obtain r where r: "reconcileSessionMessages js_sort js_string_cmp demo_log = Some r" "map msg_id (rc_messages r) = [''q'', ''r'']"
    "map msg_after (rc_messages r) = [[], [''q'']]"
    using demo_log_order by auto
  then obtain u m where m: "rc_messages r = [u, m]" "msg_id u = ''q''" "msg_id m = ''r''" "msg_after u = []"
    "msg_after m = [''q'']" by (auto simp: map_eq_Cons_conv)
  have "parent_rel msg_id msg_after (set (rc_messages r)) \<subseteq> {(u, m)}" using m by (auto simp: parent_rel_def)
  moreover have "u \<noteq> m" using m by auto
  then have "acyclic {(u, m)}" by (simp add: acyclic_insert acyclic_def [of "{}"])
  ultimately have ac: "acyclic (parent_rel msg_id msg_after (set (rc_messages r)))" by (metis acyclic_subset)
  have "chat_only demo_log" by (simp add: chat_only_def demo_log_def demo_msg_def has_kind_def)
  from reconcile_chat_order [OF this conforming_js_sort r(1) ac, of "[u]" m "[]" "''q''"]
  have "''q'' \<in> msg_id ` set [u]" using m by auto
  with r(1) m show ?thesis by (intro exI [of _ r] exI [of _ "[u]"] exI [of _ m] exI [of _ "[]"]) auto
qed

text \<open>With a system message the comparator of \<open>reconcileSessionMessages\<close> is cyclic: an answered
  message with a late clock comes before its answer by the graph, the answer before the system
  message by the clock, and the system message before the answered one by the clock. What the
  engine's sort does then is not determined.\<close>

theorem reconcile_comparator_cyclic:
  "\<exists>q r s. msg_kind s = Some System \<and> msg_after r = [msg_id q] \<and>
    reconcile_cmp lc [msg_id q, msg_id r] q r < 0 \<and> reconcile_cmp lc [msg_id q, msg_id r] r s < 0 \<and>
    reconcile_cmp lc [msg_id q, msg_id r] s q < 0 \<and>
    \<not> comparator_on {q, r, s} (reconcile_cmp lc [msg_id q, msg_id r])"
proof -
  define q where "q = demo_msg ''q'' Chat 9 []"
  define r where "r = demo_msg ''r'' Chat 1 [''q'']"
  define s where "s = demo_msg ''s'' System 5 []"
  let ?c = "reconcile_cmp lc [msg_id q, msg_id r]"
  have c: "?c q r < 0" "?c r s < 0" "?c s q < 0"
    by (simp_all add: q_def r_def s_def reconcile_cmp_def index_in_def demo_msg_def compareFallbackOrder_def
        normalizeMessageTs_def js_or_zero_def js_num_truthy_def js_diff_sign_def)
  have "\<not> comparator_on {q, r, s} ?c"
  proof
    assume "comparator_on {q, r, s} ?c"
    then have qs: "?c q s \<le> 0" using comparator_on.cmp_trans [of "{q, r, s}" ?c q r s] c by auto
    have "sgn (?c s q) = - sgn (?c q s)"
      using \<open>comparator_on {q, r, s} ?c\<close> comparator_on.cmp_anti [of "{q, r, s}" ?c q s] by simp
    with qs c(3) show False by (simp add: sgn_if split: if_splits)
  qed
  with c show ?thesis
    by (intro exI [of _ q] exI [of _ r] exI [of _ s]) (simp add: q_def r_def s_def demo_msg_def)
qed

text \<open>C6: Two chat messages with different ids can be inserted in either order, and inserting a
  message twice is inserting it once, in every log, system messages included: the messages of the
  log, its leaf ids and its missing ids are the same. The displayed order is the same too as long as
  the system messages are older than the chat messages and share no id with one, as the message that
  a session starts with; otherwise the comparator may be cyclic (\<open>reconcile_comparator_cyclic\<close>) and
  the order is up to the engine.\<close>

theorem upsert_commutes:
  assumes "conforming_sort srt" "has_kind Chat x" "has_kind Chat y"
    and "js_trim (msg_id x) \<noteq> []" "js_trim (msg_id y) \<noteq> []"
    and "js_trim (msg_id x) \<noteq> js_trim (msg_id y) \<or> x = y"
    and lc: "total_comparator_on (insert (js_trim (msg_id x)) (insert (js_trim (msg_id y)) (trimmed_ids cur))) lc"
  shows "\<exists>ux uy uxy uyx. upsertSessionMessage srt lc cur x = Some ux \<and> upsertSessionMessage srt lc cur y = Some uy \<and>
    upsertSessionMessage srt lc (up_messages ux) y = Some uxy \<and>
    upsertSessionMessage srt lc (up_messages uy) x = Some uyx \<and>
    mset (up_messages uxy) = mset (up_messages uyx) \<and> up_leafIds uxy = up_leafIds uyx \<and>
    up_missingMessageIds uxy = up_missingMessageIds uyx \<and>
    (systems_first (up_messages uxy) \<longrightarrow> up_messages uxy = up_messages uyx) \<and>
    (x = y \<longrightarrow> mset (up_messages uxy) = mset (up_messages ux) \<and> up_leafIds uxy = up_leafIds ux \<and>
       up_missingMessageIds uxy = up_missingMessageIds ux \<and>
       (systems_first (up_messages uxy) \<longrightarrow> up_messages uxy = up_messages ux))"
proof -
  note srt = assms(1) and x = assms(2,4) and y = assms(3,5)
  obtain ux where ux: "upsertSessionMessage srt lc cur x = Some ux"
    "\<And>i. core_view (up_messages ux) i = core_view (next_log cur x) i"
    "\<And>i. sys_view (up_messages ux) i = sys_view (next_log cur x) i"
    "trimmed_ids (up_messages ux) \<subseteq> insert (js_trim (msg_id x)) (trimmed_ids cur)"
    by (rule upsert_view [OF x srt]) blast
  obtain uy where uy: "upsertSessionMessage srt lc cur y = Some uy"
    "\<And>i. core_view (up_messages uy) i = core_view (next_log cur y) i"
    "\<And>i. sys_view (up_messages uy) i = sys_view (next_log cur y) i"
    by (rule upsert_view [OF y srt]) blast
  obtain uxy where uxy: "upsertSessionMessage srt lc (up_messages ux) y = Some uxy"
    by (rule upsert_view [OF y srt]) blast
  obtain uyx where uyx: "upsertSessionMessage srt lc (up_messages uy) x = Some uyx"
    by (rule upsert_view [OF x srt]) blast
  have t: "total_comparator_on (insert (js_trim (msg_id y)) (trimmed_ids (up_messages ux))) lc"
    by (rule total_comparator_on_subset [OF lc]) (use ux(4) in blast)
  note n = next_log_view(1,2) [OF x] next_log_view(1,2) [OF y]
  have "core_view (next_log (up_messages ux) y) i = core_view (next_log (up_messages uy) x) i"
    "sys_view (next_log (up_messages ux) y) i = sys_view (next_log (up_messages uy) x) i" for i
    using assms(6) by (auto simp: n ux(2,3) uy(2,3))
  then have xy: "same_log uxy uyx" by (rule upsert_cong [OF y srt t _ _ uxy uyx])
  have "same_log uxy ux" if "x = y"
  proof -
    have "core_view (next_log (up_messages ux) y) i = core_view (next_log cur x) i"
      "sys_view (next_log (up_messages ux) y) i = sys_view (next_log cur x) i" for i
      using that by (auto simp: n ux(2,3))
    then show ?thesis by (rule upsert_cong [OF y srt t _ _ uxy ux(1)])
  qed
  with xy show ?thesis using ux(1) uy(1) uxy uyx unfolding same_log_def by blast
qed

text \<open>A log with the system message it starts with: a message and its answer, whose clock is late.\<close>

definition demo_start :: "chat_message list" where
  "demo_start = [demo_msg ''s'' System 1 []]"

lemma demo_upserts:
  "map_option (\<lambda>u. systems_first (up_messages u)) (Option.bind
    (upsertSessionMessage js_sort js_string_cmp demo_start (demo_msg ''q'' Chat 9 []))
    (\<lambda>ux. upsertSessionMessage js_sort js_string_cmp (up_messages ux) (demo_msg ''r'' Chat 5 [''q'']))) = Some True"
  "map_option (\<lambda>u. map msg_id (up_messages u)) (Option.bind
    (upsertSessionMessage js_sort js_string_cmp demo_start (demo_msg ''q'' Chat 9 []))
    (\<lambda>ux. upsertSessionMessage js_sort js_string_cmp (up_messages ux) (demo_msg ''r'' Chat 5 [''q'']))) =
    Some [''s'', ''q'', ''r'']"
  by code_simp+

theorem upsert_commutes_witness:
  "\<exists>ux uy uxy. upsertSessionMessage js_sort js_string_cmp demo_start (demo_msg ''q'' Chat 9 []) = Some ux \<and>
    upsertSessionMessage js_sort js_string_cmp demo_start (demo_msg ''r'' Chat 5 [''q'']) = Some uy \<and>
    upsertSessionMessage js_sort js_string_cmp (up_messages ux) (demo_msg ''r'' Chat 5 [''q'']) = Some uxy \<and>
    map msg_id (up_messages uxy) = [''s'', ''q'', ''r''] \<and>
    map_option up_messages (upsertSessionMessage js_sort js_string_cmp (up_messages uy) (demo_msg ''q'' Chat 9 [])) =
      Some (up_messages uxy)"
proof -
  let ?q = "demo_msg ''q'' Chat 9 []" and ?r = "demo_msg ''r'' Chat 5 [''q'']"
  have k: "has_kind Chat ?q" "has_kind Chat ?r" and i: "js_trim (msg_id ?q) = ''q''" "js_trim (msg_id ?r) = ''r''"
    by (simp_all add: has_kind_def demo_msg_def js_trim_def js_space_def)
  have ne: "js_trim (msg_id ?q) \<noteq> []" "js_trim (msg_id ?r) \<noteq> []"
    "js_trim (msg_id ?q) \<noteq> js_trim (msg_id ?r) \<or> ?q = ?r" unfolding i by simp_all
  obtain ux uy uxy uyx where u: "upsertSessionMessage js_sort js_string_cmp demo_start ?q = Some ux"
    "upsertSessionMessage js_sort js_string_cmp demo_start ?r = Some uy"
    "upsertSessionMessage js_sort js_string_cmp (up_messages ux) ?r = Some uxy"
    "upsertSessionMessage js_sort js_string_cmp (up_messages uy) ?q = Some uyx"
    "systems_first (up_messages uxy) \<longrightarrow> up_messages uxy = up_messages uyx"
    using upsert_commutes [OF conforming_js_sort k ne
        total_comparator_on_subset [OF code_units.total_comparator_on_axioms subset_UNIV]] by metis
  have "systems_first (up_messages uxy)" "map msg_id (up_messages uxy) = [''s'', ''q'', ''r'']"
    using demo_upserts u(1,3) by simp_all
  with u show ?thesis by auto
qed

text \<open>The numbers of a set are contiguous up to n.\<close>

definition contiguous_upto :: "jsnum set \<Rightarrow> nat \<Rightarrow> bool" where
  "contiguous_upto S n =
     ((\<forall>i. 1 \<le> i \<and> i \<le> n \<longrightarrow> Fin (of_nat i) \<in> S) \<and> Fin (of_nat (n + 1)) \<notin> S)"

lemma contiguousSeq_upto: "\<exists>n. contiguousSeq origin ms = Fin (of_nat n) \<and> contiguous_upto (set (origin_seqs origin ms)) n"
proof -
  let ?s = "js_sort js_diff_sign (origin_seqs origin ms)"
  have c: "is_count n \<and> \<not> js_less n (Fin (of_nat 1))" if "n \<in> set (origin_seqs origin ms)" for n
  proof -
    from that have n: "is_count n" "js_less (Fin 0) n"
      by (auto simp: origin_seqs_def normalizeOriginSeq_def split: option.splits)
    then show ?thesis by (cases rule: is_count_cases [OF n(1)]) auto
  qed
  then have "set (origin_seqs origin ms) \<subseteq> {n. n \<noteq> NaN}" using is_count_not_NaN by blast
  then have "cmp_sorted js_diff_sign ?s" by (rule numbers.sorted_js_sort)
  then have "1 \<le> contiguous_from ?s 1 \<and>
      (\<forall>i. 1 \<le> i \<and> i < contiguous_from ?s 1 \<longrightarrow> Fin (of_nat i) \<in> set ?s) \<and>
      Fin (of_nat (contiguous_from ?s 1)) \<notin> set ?s"
    by (rule contiguous_from_spec) (use c in \<open>auto simp: origin_seqs_def\<close>)
  then show ?thesis
    by (intro exI [of _ "contiguous_from ?s 1 - 1"]) (auto simp: contiguousSeq_def contiguous_upto_def)
qed

text \<open>The state that the mobile client reports to the host is exact: \<open>hostSeq\<close> and \<open>mobileSeq\<close>
  are the greatest numbers up to which it holds every chat message of that origin, and the leaf
  ids are those of its chat messages.\<close>

theorem session_state_exact:
  "\<exists>st m n. describeSessionChatState lc ms = Some st \<and>
    scs_hostSeq st = Fin (of_nat m) \<and> contiguous_upto (set (origin_seqs Host_origin (extractChatMessages ms))) m \<and>
    scs_mobileSeq st = Fin (of_nat n) \<and> contiguous_upto (set (origin_seqs Mobile_origin (extractChatMessages ms))) n \<and>
    collectSessionLeafIds lc ms = Some (scs_leafIds st)"
proof -
  obtain a where a: "analyzeOpenClawPairChatGraph lc (map like_of (extractChatMessages ms)) = Some a"
    using chat_analyze_total by blast
  obtain m n where "contiguousSeq Host_origin (extractChatMessages ms) = Fin (of_nat m)"
    "contiguous_upto (set (origin_seqs Host_origin (extractChatMessages ms))) m"
    "contiguousSeq Mobile_origin (extractChatMessages ms) = Fin (of_nat n)"
    "contiguous_upto (set (origin_seqs Mobile_origin (extractChatMessages ms))) n"
    using contiguousSeq_upto by blast
  with a show ?thesis
    by (simp add: describeSessionChatState_def collectSessionLeafIds_def collectOpenClawPairChatLeafIds_def Let_def)
qed

end
