(* ===== verification/Json.thy ===== *)
theory Json
  imports JsDate "HOL-Library.AList"
begin

text \<open>
  \<open>JSON.stringify\<close> and \<open>JSON.parse\<close> (ECMA-262, ECMA-404) on the modelled values, used wherever
  the sources store or exchange JSON text. Texts are Latin-1: an escape \<open>\u\<close> beyond U+00FF names a
  character outside the model and is not parsed. The last section shows that what is printed is
  parsed back, and with it that the bound on the depth of the recursion is enough.
\<close>

section \<open>Printing\<close>

definition json_hex_digit :: "nat \<Rightarrow> char" where
  "json_hex_digit d = (if d < 10 then char_of (48 + d) else char_of (87 + d))"

definition json_escape :: "char \<Rightarrow> string" where
  "json_escape c =
     (let n = (of_char c :: nat) in
      if n = 34 then [CHR 0x5C, CHR 0x22]
      else if n = 92 then [CHR 0x5C, CHR 0x5C]
      else if n = 8 then [CHR 0x5C, CHR ''b'']
      else if n = 9 then [CHR 0x5C, CHR ''t'']
      else if n = 10 then [CHR 0x5C, CHR ''n'']
      else if n = 12 then [CHR 0x5C, CHR ''f'']
      else if n = 13 then [CHR 0x5C, CHR ''r'']
      else if n < 32 then [CHR 0x5C, CHR ''u'', CHR ''0'', CHR ''0'',
        json_hex_digit (n div 16), json_hex_digit (n mod 16)]
      else [c])"

definition json_quote :: "string \<Rightarrow> string" where
  "json_quote s = CHR 0x22 # concat (map json_escape s) @ [CHR 0x22]"

fun json_number :: "jsnum \<Rightarrow> string" where
  "json_number (Fin q) = js_num_to_string (Fin q)"
| "json_number n = ''null''"

text \<open>A field whose value is undefined is left out; an undefined element is printed as null.\<close>

fun json_text :: "jsval \<Rightarrow> string" where
  "json_text JUndef = ''null''"
| "json_text JNull = ''null''"
| "json_text (JBool b) = (if b then ''true'' else ''false'')"
| "json_text (JNum n) = json_number n"
| "json_text (JStr s) = json_quote s"
| "json_text (JArr vs) = CHR ''['' # js_join '','' (map json_text vs) @ '']''"
| "json_text (JObj fs) =
     CHR ''{'' # js_join '','' (concat (map (\<lambda>(k, v).
       if v = JUndef then [] else [json_quote k @ CHR '':'' # json_text v]) fs)) @ ''}''"

section \<open>Parsing\<close>

definition json_space :: "char \<Rightarrow> bool" where
  "json_space c = (c \<in> {CHR 0x20, CHR 0x09, CHR 0x0A, CHR 0x0D})"

definition json_skip :: "string \<Rightarrow> string" where
  "json_skip s = dropWhile json_space s"

fun json_simple_escape :: "char \<Rightarrow> char option" where
  "json_simple_escape c =
     (if c = CHR 0x22 \<or> c = CHR 0x5C \<or> c = CHR ''/'' then Some c
      else if c = CHR ''b'' then Some (CHR 0x08)
      else if c = CHR ''t'' then Some (CHR 0x09)
      else if c = CHR ''n'' then Some (CHR 0x0A)
      else if c = CHR ''f'' then Some (CHR 0x0C)
      else if c = CHR ''r'' then Some (CHR 0x0D)
      else None)"

declare json_simple_escape.simps [simp del]

text \<open>The rest of a string after its opening quote.\<close>

fun json_string :: "string \<Rightarrow> (string \<times> string) option" where
  "json_string [] = None"
| "json_string (c # cs) =
     (if c = CHR 0x22 then Some ([], cs)
      else if c = CHR 0x5C then
        (case cs of
           [] \<Rightarrow> None
         | e # ds \<Rightarrow>
           if e = CHR ''u'' then
             (case ds of
                a # b # x # y # r \<Rightarrow>
                  if a = CHR ''0'' \<and> b = CHR ''0'' \<and> is_digit_of 16 x \<and> is_digit_of 16 y
                  then (case json_string r of
                          Some (s, r') \<Rightarrow> Some (char_of (16 * digit_value x + digit_value y) # s, r')
                        | None \<Rightarrow> None)
                  else None
              | _ \<Rightarrow> None)
           else (case json_simple_escape e of
                   None \<Rightarrow> None
                 | Some d \<Rightarrow>
                   (case json_string ds of Some (s, r') \<Rightarrow> Some (d # s, r') | None \<Rightarrow> None)))
      else if (of_char c :: nat) < 32 then None
      else (case json_string cs of Some (s, r') \<Rightarrow> Some (c # s, r') | None \<Rightarrow> None))"

definition json_number_char :: "char \<Rightarrow> bool" where
  "json_number_char c = (is_digit_of 10 c \<or> c \<in> {CHR ''-'', CHR ''+'', CHR ''.'', CHR ''e'', CHR ''E''})"

text \<open>The JSON number grammar: \<open>-? (0 | [1-9][0-9]*) (. [0-9]+)? ([eE] [+-]? [0-9]+)?\<close>.\<close>

definition json_number_ok :: "string \<Rightarrow> bool" where
  "json_number_ok s =
     (let t = (if s \<noteq> [] \<and> hd s = CHR ''-'' then tl s else s);
          ip = takeWhile (is_digit_of 10) t; r1 = dropWhile (is_digit_of 10) t;
          dot = (r1 \<noteq> [] \<and> hd r1 = CHR ''.'');
          fp = (if dot then takeWhile (is_digit_of 10) (tl r1) else []);
          r2 = (if dot then dropWhile (is_digit_of 10) (tl r1) else r1)
      in ip \<noteq> [] \<and> (hd ip = CHR ''0'' \<longrightarrow> ip = ''0'') \<and> (dot \<longrightarrow> fp \<noteq> []) \<and> js_exponent r2 \<noteq> None)"

definition json_keyword :: "string \<Rightarrow> jsval \<Rightarrow> string \<Rightarrow> (jsval \<times> string) option" where
  "json_keyword w v s = (if take (length w) s = w then Some (v, drop (length w) s) else None)"

text \<open>
  A key that is an array index is enumerated before the others, in numeric order; a repeated
  key keeps the place of its first occurrence and takes the value of its last.
\<close>

definition json_index_key :: "string \<Rightarrow> bool" where
  "json_index_key k =
     (k \<noteq> [] \<and> list_all (is_digit_of 10) k \<and> (hd k = CHR ''0'' \<longrightarrow> k = ''0'') \<and>
      digits_value 10 k < 4294967295)"

definition json_fields :: "(string \<times> jsval) list \<Rightarrow> (string \<times> jsval) list" where
  "json_fields kvs =
     (let fs = foldl (\<lambda>acc (k, v). AList.update k v acc) [] kvs
      in sort_key (digits_value 10 \<circ> fst) (filter (json_index_key \<circ> fst) fs) @
         filter (Not \<circ> json_index_key \<circ> fst) fs)"

text \<open>
  Recursive descent; the first argument bounds the depth of the calls, and the length of the
  text is enough of it.
\<close>

fun json_value :: "nat \<Rightarrow> string \<Rightarrow> (jsval \<times> string) option"
and json_elems :: "nat \<Rightarrow> string \<Rightarrow> (jsval list \<times> string) option"
and json_members :: "nat \<Rightarrow> string \<Rightarrow> ((string \<times> jsval) list \<times> string) option" where
  "json_value 0 s = None"
| "json_value (Suc n) s0 =
     (let s = json_skip s0 in
      if s = [] then None
      else if hd s = CHR 0x22 then
        (case json_string (tl s) of Some (t, r) \<Rightarrow> Some (JStr t, r) | None \<Rightarrow> None)
      else if hd s = CHR ''['' then
        (let r = json_skip (tl s) in
         if r \<noteq> [] \<and> hd r = CHR '']'' then Some (JArr [], tl r)
         else (case json_elems n r of Some (vs, r') \<Rightarrow> Some (JArr vs, r') | None \<Rightarrow> None))
      else if hd s = CHR ''{'' then
        (let r = json_skip (tl s) in
         if r \<noteq> [] \<and> hd r = CHR ''}'' then Some (JObj [], tl r)
         else (case json_members n r of Some (fs, r') \<Rightarrow> Some (JObj (json_fields fs), r') | None \<Rightarrow> None))
      else if hd s = CHR ''t'' then json_keyword ''true'' (JBool True) s
      else if hd s = CHR ''f'' then json_keyword ''false'' (JBool False) s
      else if hd s = CHR ''n'' then json_keyword ''null'' JNull s
      else (let t = takeWhile json_number_char s in
            if json_number_ok t
            then Some (JNum (js_string_to_number t), dropWhile json_number_char s) else None))"
| "json_elems 0 s = None"
| "json_elems (Suc n) s =
     (case json_value n s of
        None \<Rightarrow> None
      | Some (v, r) \<Rightarrow>
        (let r1 = json_skip r in
         if r1 = [] then None
         else if hd r1 = CHR '']'' then Some ([v], tl r1)
         else if hd r1 = CHR '','' then
           (case json_elems n (tl r1) of Some (vs, r2) \<Rightarrow> Some (v # vs, r2) | None \<Rightarrow> None)
         else None))"
| "json_members 0 s = None"
| "json_members (Suc n) s0 =
     (let s = json_skip s0 in
      if s = [] \<or> hd s \<noteq> CHR 0x22 then None
      else case json_string (tl s) of
        None \<Rightarrow> None
      | Some (k, r) \<Rightarrow>
        (let r1 = json_skip r in
         if r1 = [] \<or> hd r1 \<noteq> CHR '':'' then None
         else case json_value n (tl r1) of
           None \<Rightarrow> None
         | Some (v, r2) \<Rightarrow>
           (let r3 = json_skip r2 in
            if r3 = [] then None
            else if hd r3 = CHR ''}'' then Some ([(k, v)], tl r3)
            else if hd r3 = CHR '','' then
              (case json_members n (tl r3) of Some (fs, r4) \<Rightarrow> Some ((k, v) # fs, r4) | None \<Rightarrow> None)
            else None)))"

text \<open>\<open>JSON.parse\<close>: None where it throws.\<close>

definition json_parse :: "string \<Rightarrow> jsval option" where
  "json_parse s =
     (case json_value (Suc (length s)) s of
        Some (v, r) \<Rightarrow> if json_skip r = [] then Some v else None
      | None \<Rightarrow> None)"

section \<open>What is printed is parsed back\<close>

lemma digit_char_value [simp]: "d < 10 \<Longrightarrow> digit_value (digit_char d) = d"
  by (simp add: digit_value_def digit_char_def)

lemma is_digit_digit_char [simp]: "d < 10 \<Longrightarrow> is_digit_of 10 (digit_char d)"
  by (simp add: is_digit_of_def)

lemma json_hex_digit_value [simp]: "d < 16 \<Longrightarrow> digit_value (json_hex_digit d) = d"
  by (auto simp: digit_value_def json_hex_digit_def)

lemma is_digit_json_hex_digit [simp]: "d < 16 \<Longrightarrow> is_digit_of 16 (json_hex_digit d)"
  by (simp add: is_digit_of_def)

lemma char_eqI: "(of_char c :: nat) = of_char d \<Longrightarrow> c = d"
  by simp

lemma json_string_escape:
  "json_string (json_escape c @ t) = (case json_string t of Some (s, r) \<Rightarrow> Some (c # s, r) | None \<Rightarrow> None)"
proof -
  define n where "n = (of_char c :: nat)"
  have c: "c = char_of n" by (simp add: n_def)
  have "n < 256" by (simp add: n_def)
  consider "n = 34" | "n = 92" | "n = 8" | "n = 9" | "n = 10" | "n = 12" | "n = 13"
    | "n < 32" "n \<notin> {8, 9, 10, 12, 13}" | "32 \<le> n" "n \<noteq> 34" "n \<noteq> 92" by force
  then show ?thesis
  proof cases
    case 8
    then have e: "json_escape c = [CHR 0x5C, CHR ''u'', CHR ''0'', CHR ''0'',
        json_hex_digit (n div 16), json_hex_digit (n mod 16)]"
      by (simp add: json_escape_def n_def [symmetric])
    have "digit_value (json_hex_digit (n div 16)) = n div 16"
      "is_digit_of 16 (json_hex_digit (n div 16))"
      using 8 by (simp_all add: json_hex_digit_value is_digit_json_hex_digit)
    then show ?thesis unfolding e by (simp add: c split: option.split)
  next
    case 9
    then have "json_escape c = [c]" by (simp add: json_escape_def n_def [symmetric])
    moreover have "c \<noteq> CHR 0x22" "c \<noteq> CHR 0x5C" using 9 by (auto simp: n_def)
    moreover have "\<not> (of_char c :: nat) < 32" using 9 by (simp add: n_def)
    ultimately show ?thesis by simp
  qed (auto simp: json_escape_def c json_simple_escape.simps intro!: char_eqI split: option.split)
qed

lemma json_string_quote: "json_string (concat (map json_escape s) @ CHR 0x22 # r) = Some (s, r)"
  by (induction s) (simp_all only: list.map concat.simps append_assoc json_string_escape, simp_all)

lemma digits_value_snoc: "digits_value b (ds @ [d]) = b * digits_value b ds + digit_value d"
  by (simp add: digits_value_def)

lemma digits_value_nat_digits [simp]: "digits_value 10 (nat_digits n) = n"
proof (induction n rule: nat_digits.induct)
  case (1 n)
  then show ?case
    by (subst nat_digits.simps) (auto simp: digits_value_snoc, simp add: digits_value_def)
qed

lemma nat_digits_digits: "list_all (is_digit_of 10) (nat_digits n)"
proof (induction n rule: nat_digits.induct)
  case (1 n)
  then show ?case by (subst nat_digits.simps) auto
qed

lemma hd_nat_digits: "hd (nat_digits n) = CHR ''0'' \<Longrightarrow> n = 0"
proof (induction n rule: nat_digits.induct)
  case (1 n)
  show ?case
  proof (cases "n < 10")
    case True
    with 1(2) have "digit_char n = CHR ''0''" by (subst (asm) nat_digits.simps) simp
    moreover have "digit_value CHR ''0'' = 0" by (simp add: digit_value_def)
    ultimately show ?thesis using digit_char_value [OF True] by simp
  next
    case False
    with 1(2) have "hd (nat_digits (n div 10)) = CHR ''0''"
      by (subst (asm) nat_digits.simps) simp
    with 1(1) False have "n div 10 = 0" by blast
    with False show ?thesis by simp
  qed
qed

lemma digit_code: "is_digit_of 10 c \<longleftrightarrow> (48 \<le> (of_char c :: nat) \<and> (of_char c :: nat) \<le> 57)"
  by (auto simp: is_digit_of_def digit_value_def Let_def)

lemma takeWhile_digits:
  assumes "list_all P ds" "r = [] \<or> \<not> P (hd r)"
  shows "takeWhile P (ds @ r) = ds \<and> dropWhile P (ds @ r) = r"
  using assms by (induction ds) (auto simp: list_all_iff takeWhile_eq_Nil_iff dropWhile_eq_self_iff)

lemma digits_no_tail: "list_all P ds \<Longrightarrow> takeWhile P ds = ds \<and> dropWhile P ds = []"
  using takeWhile_digits [of P ds "[]"] by simp

lemma json_number_ok_digits: "json_number_ok (nat_digits n)"
proof -
  note d = digits_no_tail [OF nat_digits_digits [of n]]
  have "hd (nat_digits n) \<noteq> CHR ''-''"
    using nat_digits_digits [of n] nat_digits_not_Nil [of n]
    by (cases "nat_digits n") (auto simp: digit_code)
  moreover have "nat_digits n = ''0''" if "hd (nat_digits n) = CHR ''0''"
    using hd_nat_digits [OF that] by (auto simp: nat_digits.simps digit_char_def intro!: char_eqI)
  ultimately show ?thesis 
    unfolding json_number_ok_def Let_def by (simp only: d) (simp add: d js_exponent_def)
qed

lemma js_trim_digits: "list_all (is_digit_of 10) ds \<Longrightarrow> js_trim ds = ds"
proof -
  assume a: "list_all (is_digit_of 10) ds"
  have "\<not> js_space c" if "c \<in> set ds" for c
    using that a js_space_code [of c] by (auto simp: list_all_iff digit_code)
  then show ?thesis by (intro js_trim_id) (cases "ds = []"; simp add: js_trimmed_def)
qed

lemma js_string_to_number_digits: "js_string_to_number (nat_digits n) = Fin (of_nat n)"
proof -
  define ds where "ds = nat_digits n"
  have a: "list_all (is_digit_of 10) ds" "ds \<noteq> []" by (simp_all add: ds_def nat_digits_digits)
  obtain c cs where ds: "ds = c # cs" using a(2) by (cases ds) auto
  have c: "is_digit_of 10 c" using a(1) ds by simp
  have second: "is_digit_of 10 d" if "take 2 ds = [c, d]" for d
    using that a(1) ds by (cases cs) auto
  have "take 2 ds \<notin> {''0x'', ''0X'', ''0o'', ''0O'', ''0b'', ''0B''}"
    using second ds by (auto simp: digit_code)
  moreover have "c \<noteq> CHR ''-''" "c \<noteq> CHR ''+''" "c \<noteq> CHR ''I''" using c by (auto simp: digit_code)
  moreover have "js_decimal_number ds = Fin (of_nat n)"
    unfolding js_decimal_number_def Let_def
    by (simp only: conjunct1 [OF digits_no_tail [OF a(1)]] conjunct2 [OF digits_no_tail [OF a(1)]])
      (simp add: a(2) js_exponent_def ds_def)
  ultimately show ?thesis
    using js_trim_digits [OF a(1)] unfolding ds_def [symmetric] by (auto simp: js_string_to_number_def ds Let_def)
qed

lemma js_num_to_string_nat [simp]: "js_num_to_string (Fin (of_nat n)) = nat_digits n"
  by (simp add: rat_digits_def)

text \<open>
  The values a round trip keeps: numbers are natural numbers (dates, counters, sequence numbers),
  the keys of an object are distinct and no array indices, and undefined occurs only as the
  value of a field, where it is dropped.
\<close>

fun json_ok :: "jsval \<Rightarrow> bool" where
  "json_ok JUndef = False"
| "json_ok (JNum n) = (case n of Fin q \<Rightarrow> q = of_nat (nat \<lfloor>q\<rfloor>) | _ \<Rightarrow> False)"
| "json_ok (JArr vs) = list_all json_ok vs"
| "json_ok (JObj fs) = (distinct (map fst fs) \<and> list_all (\<lambda>(k, v). \<not> json_index_key k \<and> (v = JUndef \<or> json_ok v)) fs)"
| "json_ok v = True"

fun json_strip :: "jsval \<Rightarrow> jsval" where
  "json_strip (JArr vs) = JArr (map json_strip vs)"
| "json_strip (JObj fs) = JObj (concat (map (\<lambda>(k, v). if v = JUndef then [] else [(k, json_strip v)]) fs))"
| "json_strip v = v"

fun json_depth :: "jsval \<Rightarrow> nat" where
  "json_depth (JArr vs) = Suc (sum_list (map (\<lambda>v. Suc (json_depth v)) vs))"
| "json_depth (JObj fs) = Suc (sum_list (concat (map (\<lambda>(k, v). if v = JUndef then [] else [Suc (json_depth v)]) fs)))"
| "json_depth v = 1"

definition defined_fields :: "(string \<times> jsval) list \<Rightarrow> (string \<times> jsval) list" where
  "defined_fields fs = filter (\<lambda>(k, v). v \<noteq> JUndef) fs"

lemma concat_defined:
  "concat (map (\<lambda>(k, v). if v = JUndef then [] else [f k v]) fs) = map (\<lambda>(k, v). f k v) (defined_fields fs)"
  by (induction fs) (auto simp: defined_fields_def)

lemma json_text_JObj:
  "json_text (JObj fs) =
     CHR ''{'' # js_join '','' (map (\<lambda>(k, v). json_quote k @ CHR '':'' # json_text v) (defined_fields fs)) @ ''}''"
  unfolding json_text.simps concat_defined [where f = "\<lambda>k v. json_quote k @ CHR '':'' # json_text v"] ..

lemma json_strip_JObj: "json_strip (JObj fs) = JObj (map (\<lambda>(k, v). (k, json_strip v)) (defined_fields fs))"
  by (simp add: concat_defined [where f = "\<lambda>k v. (k, json_strip v)"])

lemma json_depth_JObj: "json_depth (JObj fs) = Suc (sum_list (map (\<lambda>(k, v). Suc (json_depth v)) (defined_fields fs)))"
  by (simp add: concat_defined [where f = "\<lambda>k v. Suc (json_depth v)"])

declare json_text.simps(7) [simp del] json_strip.simps(2) [simp del] json_depth.simps(2) [simp del]

lemma json_number_char_digit: "list_all (is_digit_of 10) ds \<Longrightarrow> list_all json_number_char ds"
  by (auto simp: list_all_iff json_number_char_def)

lemma nat_digits_head:
  obtains c cs where "nat_digits n = c # cs" "48 \<le> (of_char c :: nat)" "(of_char c :: nat) \<le> 57"
  using nat_digits_digits [of n] nat_digits_not_Nil [of n]
  by (cases "nat_digits n") (auto simp: digit_code)

lemma json_ok_number: "json_ok (JNum m) \<Longrightarrow> \<exists>k. m = Fin (of_nat k)"
  by (cases m) auto

lemma json_text_head:
  "json_ok v \<Longrightarrow> json_text v \<noteq> [] \<and> \<not> json_space (hd (json_text v)) \<and>
     hd (json_text v) \<noteq> CHR '']'' \<and> hd (json_text v) \<noteq> CHR ''}''"
proof (cases v)
  case (JNum m)
  assume "json_ok v"
  with JNum obtain k where "m = Fin (of_nat k)" using json_ok_number by auto
  moreover obtain c cs where "nat_digits k = c # cs" "48 \<le> (of_char c :: nat)" "(of_char c :: nat) \<le> 57"
    by (rule nat_digits_head)
  ultimately show ?thesis using JNum by (auto simp: json_space_def simp del: js_num_to_string.simps)
qed (auto simp: json_space_def json_quote_def json_text_JObj)

lemma json_skip_cons: "\<not> json_space c \<Longrightarrow> json_skip (c # cs) = c # cs"
  by (simp add: json_skip_def)

lemma json_skip_text: "json_ok v \<Longrightarrow> json_skip (json_text v @ r) = json_text v @ r"
  using json_text_head [of v] by (cases "json_text v") (auto simp: json_skip_def)

lemma json_skip_simps [simp]:
  "json_skip [] = []" "json_skip (CHR '']'' # r) = CHR '']'' # r" "json_skip (CHR '','' # r) = CHR '','' # r"
  "json_skip (CHR ''}'' # r) = CHR ''}'' # r" "json_skip (CHR '':'' # r) = CHR '':'' # r"
  "json_skip (CHR ''{'' # r) = CHR ''{'' # r" "json_skip (CHR ''['' # r) = CHR ''['' # r"
  "json_skip (CHR 0x22 # r) = CHR 0x22 # r"
  by (simp_all add: json_skip_def json_space_def)

definition number_ends :: "string \<Rightarrow> bool" where
  "number_ends r = (r = [] \<or> \<not> json_number_char (hd r))"

lemma number_ends_simps [simp]:
  "number_ends []" "number_ends (CHR '','' # r)" "number_ends (CHR '']'' # r)" "number_ends (CHR ''}'' # r)"
  by (simp_all add: number_ends_def json_number_char_def digit_code)

definition parses_back :: "jsval \<Rightarrow> bool" where
  "parses_back v = (\<forall>n r. json_depth v \<le> n \<longrightarrow> number_ends r \<longrightarrow>
     json_value n (json_text v @ r) = Some (json_strip v, r))"

lemma parses_backD:
  "parses_back v \<Longrightarrow> json_depth v \<le> n \<Longrightarrow> number_ends r \<Longrightarrow> json_value n (json_text v @ r) = Some (json_strip v, r)"
  by (simp add: parses_back_def)

lemma json_elems_back:
  assumes "vs \<noteq> []" "\<And>v. v \<in> set vs \<Longrightarrow> parses_back v" "sum_list (map (\<lambda>v. Suc (json_depth v)) vs) \<le> n"
  shows "json_elems n (js_join '','' (map json_text vs) @ CHR '']'' # r) = Some (map json_strip vs, r)"
  using assms
proof (induction vs arbitrary: n)
  case (Cons v vs)
  then obtain m where n: "n = Suc m" by (cases n) auto
  show ?case
  proof (cases vs)
    case Nil
    then show ?thesis using Cons.prems by (simp add: n parses_backD)
  next
    case (Cons w ws)
    with Cons.IH [of m] Cons.prems show ?thesis by (simp add: n parses_backD)
  qed
qed simp

lemma json_members_back:
  assumes "fs \<noteq> []" "\<And>k v. (k, v) \<in> set fs \<Longrightarrow> parses_back v"
    "sum_list (map (\<lambda>(k, v). Suc (json_depth v)) fs) \<le> n"
  shows "json_members n (js_join '','' (map (\<lambda>(k, v). json_quote k @ CHR '':'' # json_text v) fs) @ CHR ''}'' # r)
    = Some (map (\<lambda>(k, v). (k, json_strip v)) fs, r)"
  using assms
proof (induction fs arbitrary: n)
  case (Cons f fs)
  obtain k v where f: "f = (k, v)" by (cases f)
  with Cons obtain m where n: "n = Suc m" by (cases n) auto
  have vb: "parses_back v" using Cons.prems(2) f by auto
  show ?case
  proof (cases fs)
    case Nil
    then show ?thesis using Cons.prems vb by (simp add: n f json_quote_def json_string_quote parses_backD)
  next
    case (Cons w ws)
    have "json_members m (js_join '','' (map (\<lambda>(k, v). json_quote k @ CHR '':'' # json_text v) fs) @ CHR ''}'' # r)
      = Some (map (\<lambda>(k, v). (k, json_strip v)) fs, r)"
    proof (rule Cons.IH)
      show "fs \<noteq> []" using Cons by simp
      show "parses_back v" if "(k, v) \<in> set fs" for k v
        using Cons.prems(2) that by (meson list.set_intros(2))
      show "sum_list (map (\<lambda>(k, v). Suc (json_depth v)) fs) \<le> m"
        using Cons.prems(3) by (simp add: n f)
    qed
    then show ?thesis using Cons.prems vb Cons
      by (simp add: n f json_quote_def json_string_quote parses_backD)
  qed
qed simp

lemma update_new: "k \<notin> fst ` set acc \<Longrightarrow> AList.update k v acc = acc @ [(k, v)]"
  by (induction acc) auto

lemma foldl_update_distinct:
  "distinct (map fst (acc @ fs)) \<Longrightarrow> foldl (\<lambda>acc (k, v). AList.update k v acc) acc fs = acc @ fs"
  by (induction fs arbitrary: acc) (auto simp: update_new)

lemma json_fields_id:
  assumes "distinct (map fst fs)" "list_all (\<lambda>(k, v). \<not> json_index_key k) fs"
  shows "json_fields fs = fs"
proof -
  have "filter (json_index_key \<circ> fst) fs = []" "filter (Not \<circ> json_index_key \<circ> fst) fs = fs"
    using assms(2) by (auto simp: list_all_iff filter_empty_conv filter_id_conv)
  then show ?thesis using foldl_update_distinct [of "[]" fs] assms(1)
    by (simp add: json_fields_def)
qed

lemma json_value_number:
  assumes "number_ends r"
  shows "json_value (Suc n) (nat_digits k @ r) = Some (JNum (Fin (of_nat k)), r)"
proof -
  obtain c cs where d: "nat_digits k = c # cs" "48 \<le> (of_char c :: nat)" "(of_char c :: nat) \<le> 57"
    by (rule nat_digits_head)
  have sk: "json_skip (nat_digits k @ r) = nat_digits k @ r"
    using d by (auto simp: json_skip_def json_space_def)
  have ne: "c \<noteq> CHR 0x22" "c \<noteq> CHR ''[''" "c \<noteq> CHR ''{''" "c \<noteq> CHR ''t''" "c \<noteq> CHR ''f''" "c \<noteq> CHR ''n''"
    using d(2,3) by auto
  have "takeWhile json_number_char (nat_digits k @ r) = nat_digits k"
    "dropWhile json_number_char (nat_digits k @ r) = r"
    using takeWhile_digits [OF json_number_char_digit [OF nat_digits_digits [of k]]] assms
    by (auto simp: number_ends_def)
  then show ?thesis using ne
    by (simp add: Let_def sk [unfolded d(1), simplified] d(1) json_number_ok_digits [of k, unfolded d(1)]
        js_string_to_number_digits [of k, unfolded d(1)] del: takeWhile.simps dropWhile.simps)
qed

lemma json_ok_parses_back: "json_ok v \<Longrightarrow> parses_back v"
proof (induction v)
  case (JNum m)
  then obtain k where "m = Fin (of_nat k)" using json_ok_number by blast
  then show ?case using json_value_number
    by (auto simp: parses_back_def Suc_le_eq gr0_conv_Suc simp del: js_num_to_string.simps(4))
next
  case (JStr s)
  show ?case
    by (auto simp: parses_back_def Suc_le_eq gr0_conv_Suc json_quote_def json_string_quote)
next
  case (JArr vs)
  show ?case unfolding parses_back_def
  proof (intro allI impI)
    fix n r assume n: "json_depth (JArr vs) \<le> n" and r: "number_ends r"
    then obtain m where m: "n = Suc m" "sum_list (map (\<lambda>v. Suc (json_depth v)) vs) \<le> m"
      by (cases n) auto
    show "json_value n (json_text (JArr vs) @ r) = Some (json_strip (JArr vs), r)"
    proof (cases vs)
      case Nil
      then show ?thesis by (simp add: m)
    next
      case (Cons w ws)
      have ok: "json_ok w" using JArr.prems Cons by simp
      have ev: "json_elems m (js_join '','' (map json_text vs) @ CHR '']'' # r) = Some (map json_strip vs, r)"
        using JArr Cons m(2) by (intro json_elems_back) (auto simp: list_all_iff)
      obtain c cs where c: "js_join '','' (map json_text vs) @ CHR '']'' # r = c # cs"
        "\<not> json_space c" "c \<noteq> CHR '']''"
        using json_text_head [OF ok] Cons by (cases "json_text w"; cases ws) auto
      then have "json_skip (js_join '','' (map json_text vs) @ CHR '']'' # r) = c # cs"
        by (simp add: json_skip_cons)
      then show ?thesis using ev c by (simp add: m(1) Let_def)
    qed
  qed
next
  case (JObj fs)
  define gs where "gs = defined_fields fs"
  have gs: "set gs \<subseteq> set fs" by (auto simp: gs_def defined_fields_def)
  have ok: "json_ok v" if "(k, v) \<in> set gs" for k v
    using JObj.prems that by (auto simp: gs_def defined_fields_def list_all_iff)
  have vb: "parses_back v" if "(k, v) \<in> set gs" for k v
    using JObj.IH [of "(k, v)" v] ok [OF that] that gs by (auto simp: subset_iff snds.simps)
  have "distinct (map fst gs)"
    using JObj.prems by (auto simp: gs_def defined_fields_def distinct_map_filter)
  moreover have "list_all (\<lambda>(k, v). \<not> json_index_key k) gs"
    using JObj.prems gs by (auto simp: list_all_iff)
  ultimately have fields: "json_fields (map (\<lambda>(k, v). (k, json_strip v)) gs) = map (\<lambda>(k, v). (k, json_strip v)) gs"
    by (intro json_fields_id) (auto simp: list_all_iff comp_def case_prod_unfold)
  show ?case unfolding parses_back_def
  proof (intro allI impI)
    fix n r assume n: "json_depth (JObj fs) \<le> n" and r: "number_ends r"
    then obtain m where m: "n = Suc m" "sum_list (map (\<lambda>(k, v). Suc (json_depth v)) gs) \<le> m"
      by (cases n) (auto simp: json_depth_JObj gs_def)
    show "json_value n (json_text (JObj fs) @ r) = Some (json_strip (JObj fs), r)"
    proof (cases gs)
      case Nil
      then show ?thesis by (simp add: m json_text_JObj json_strip_JObj gs_def)
    next
      case (Cons w ws)
      define t where "t = js_join '','' (map (\<lambda>(k, v). json_quote k @ CHR '':'' # json_text v) gs) @ CHR ''}'' # r"
      have ev: "json_members m t = Some (map (\<lambda>(k, v). (k, json_strip v)) gs, r)"
        unfolding t_def using Cons vb m(2) by (intro json_members_back) auto
      obtain cs where c: "t = CHR 0x22 # cs"
        using Cons by (cases w; cases ws) (auto simp: t_def json_quote_def)
      have "json_text (JObj fs) @ r = CHR ''{'' # t" "json_strip (JObj fs) = JObj (map (\<lambda>(k, v). (k, json_strip v)) gs)"
        by (simp_all add: json_text_JObj json_strip_JObj gs_def t_def)
      then show ?thesis using ev fields by (simp add: m(1) Let_def c)
    qed
  qed
qed (auto simp: parses_back_def Suc_le_eq gr0_conv_Suc json_keyword_def json_skip_cons json_space_def)

lemma length_js_join: "length (js_join '','' ss) + 1 \<ge> sum_list (map (\<lambda>s. Suc (length s)) ss)"
  by (induction "'',''" ss rule: js_join.induct) auto

lemma json_depth_length: "json_ok v \<Longrightarrow> json_depth v \<le> length (json_text v)"
proof (induction v)
  case (JNum m)
  then show ?case using json_text_head [of "JNum m"] by (cases "json_text (JNum m)") auto
next
  case (JArr vs)
  then have "sum_list (map (\<lambda>v. Suc (json_depth v)) vs) \<le> sum_list (map (\<lambda>s. Suc (length s)) (map json_text vs))"
    unfolding map_map comp_def by (intro sum_list_mono) (auto simp: list_all_iff)
  with length_js_join [of "map json_text vs"] show ?case by simp
next
  case (JObj fs)
  have "sum_list (map (\<lambda>(k, v). Suc (json_depth v)) (defined_fields fs))
    \<le> sum_list (map (\<lambda>s. Suc (length s)) (map (\<lambda>(k, v). json_quote k @ CHR '':'' # json_text v) (defined_fields fs)))"
    unfolding map_map comp_def
  proof (intro sum_list_mono)
    fix f assume f: "f \<in> set (defined_fields fs)"
    obtain k v where kv: "f = (k, v)" by (cases f)
    have "json_ok v" using JObj.prems f by (auto simp: kv defined_fields_def list_all_iff)
    moreover have "(k, v) \<in> set fs" using f by (auto simp: kv defined_fields_def)
    ultimately have "json_depth v \<le> length (json_text v)"
      using JObj.IH [of "(k, v)" v] by (auto simp: snds.simps)
    then show "(case f of (k, v) \<Rightarrow> Suc (json_depth v)) \<le>
        Suc (length (case f of (k, v) \<Rightarrow> json_quote k @ CHR '':'' # json_text v))"
      by (simp add: kv)
  qed
  with length_js_join [of "map (\<lambda>(k, v). json_quote k @ CHR '':'' # json_text v) (defined_fields fs)"]
  show ?case by (simp add: json_depth_JObj json_text_JObj)
qed (auto simp: json_quote_def)

lemma json_parse_text: "json_ok v \<Longrightarrow> json_parse (json_text v) = Some (json_strip v)"
  using parses_backD [OF json_ok_parses_back, of v "Suc (length (json_text v))" "[]"] json_depth_length [of v]
  by (simp add: json_parse_def)
end
