(* ===== verification/Envelope.thy ===== *)
theory Envelope
  imports Json
begin

text \<open>
  packages/protocol/src/message.ts and events.ts: the envelopes of the first relay protocol,
  their construction, their parsing with its errors, and the round trip between the two through
  JSON text. The host is the record \<open>env\<close> (clock, \<open>crypto.randomUUID\<close>, \<open>Math.random\<close>).
\<close>

section \<open>Events (events.ts)\<close>

definition MESSAGE_TYPES :: "string list" where
  "MESSAGE_TYPES =
     [''pair.ready'', ''pair.claimed'', ''pair.revoked'', ''task.create'', ''task.accepted'',
      ''task.progress'', ''task.result'', ''task.error'', ''ack'', ''heartbeat'']"

section \<open>Envelopes (message.ts)\<close>

record envelope =
  env_message_id :: string
  env_type :: string
  env_payload :: jsval
  env_session_id :: "string option"
  env_task_id :: "string option"
  env_device_id :: "string option"
  env_user_id :: "string option"
  env_target_device_id :: "string option"
  env_target_user_id :: "string option"
  env_timestamp :: string

text \<open>
  The argument of \<open>createEnvelope\<close>: an optional field is None when it is missing or null (the
  destructuring default makes the two the same), except that \<open>payload\<close> has no default and is
  replaced by the empty object when it is missing.
\<close>

record envelope_input =
  in_messageId :: "string option"
  in_type :: string
  in_payload :: "jsval option"
  in_sessionId :: "string option"
  in_taskId :: "string option"
  in_deviceId :: "string option"
  in_userId :: "string option"
  in_targetDeviceId :: "string option"
  in_targetUserId :: "string option"
  in_timestamp :: "string option"

text \<open>\<open>Math.random().toString(16).slice(2)\<close> drops the first two characters.\<close>

definition generateMessageId :: "env \<Rightarrow> string" where
  "generateMessageId e =
     (case e_uuid e of Some u \<Rightarrow> u
      | None \<Rightarrow> js_num_to_string (e_now e) @ ''-'' @ drop 2 (e_hex e))"

definition asOptionalString :: "jsval \<Rightarrow> string option" where
  "asOptionalString value =
     (case value of JStr s \<Rightarrow> (let t = js_trim s in if t = [] then None else Some t) | _ \<Rightarrow> None)"

text \<open>\<open>x || y\<close> on optional strings: an empty string counts as missing.\<close>

definition opt_str_or :: "string option \<Rightarrow> string \<Rightarrow> string" where
  "opt_str_or s d = (case s of Some t \<Rightarrow> (if t = [] then d else t) | None \<Rightarrow> d)"

definition createEnvelope :: "env \<Rightarrow> envelope_input \<Rightarrow> string + envelope" where
  "createEnvelope e i =
     (if in_type i \<notin> set MESSAGE_TYPES then Inl (''Unsupported message type: '' @ in_type i)
      else case js_to_iso_string (e_now e) of
        Inl err \<Rightarrow> Inl err
      | Inr nowIso \<Rightarrow>
        Inr \<lparr>env_message_id = opt_str_or (in_messageId i) (generateMessageId e),
             env_type = in_type i,
             env_payload = (case in_payload i of Some p \<Rightarrow> p | None \<Rightarrow> JObj []),
             env_session_id = in_sessionId i,
             env_task_id = in_taskId i,
             env_device_id = in_deviceId i,
             env_user_id = in_userId i,
             env_target_device_id = in_targetDeviceId i,
             env_target_user_id = in_targetUserId i,
             env_timestamp = opt_str_or (in_timestamp i) nowIso\<rparr>)"

text \<open>
  The result of \<open>parseEnvelope\<close>: Inl is \<open>{ ok: false, error }\<close>. A text is parsed with
  \<open>JSON.parse\<close>; the message of its SyntaxError depends on the engine and is the argument \<open>jerr\<close>.
  Reading the clock with an invalid time is the only way to throw.
\<close>

definition parse_envelope_value :: "env \<Rightarrow> jsval \<Rightarrow> string + (string + envelope)" where
  "parse_envelope_value e value =
     (if \<not> js_is_record value then Inr (Inl ''Envelope must be a JSON object'')
      else
        let type = (case js_get value ''type'' of JStr s \<Rightarrow> js_trim s | _ \<Rightarrow> []) in
        if type = [] then Inr (Inl ''Envelope `type` is required'')
        else if type \<notin> set MESSAGE_TYPES then Inr (Inl (''Unsupported envelope type: '' @ type))
        else
          let messageId =
                (case js_get value ''message_id'' of
                   JStr s \<Rightarrow> if js_trim s = [] then generateMessageId e else js_trim s
                 | _ \<Rightarrow> generateMessageId e);
              env_with = (\<lambda>ts.
                \<lparr>env_message_id = messageId,
                  env_type = type,
                  env_payload = (let p = js_get value ''payload'' in if js_is_record p then p else JObj []),
                  env_session_id = asOptionalString (js_get value ''session_id''),
                  env_task_id = asOptionalString (js_get value ''task_id''),
                  env_device_id = asOptionalString (js_get value ''device_id''),
                  env_user_id = asOptionalString (js_get value ''user_id''),
                  env_target_device_id = asOptionalString (js_get value ''target_device_id''),
                  env_target_user_id = asOptionalString (js_get value ''target_user_id''),
                  env_timestamp = ts\<rparr>)
          in case asOptionalString (js_get value ''timestamp'') of
               Some ts \<Rightarrow> Inr (Inr (env_with ts))
             | None \<Rightarrow>
               (case js_to_iso_string (e_now e) of
                  Inl err \<Rightarrow> Inl err | Inr now \<Rightarrow> Inr (Inr (env_with now))))"

definition parseEnvelope :: "(string \<Rightarrow> string) \<Rightarrow> env \<Rightarrow> jsval \<Rightarrow> string + (string + envelope)" where
  "parseEnvelope jerr e raw =
     (case raw of
        JStr s \<Rightarrow>
          (case json_parse s of
             Some v \<Rightarrow> parse_envelope_value e v
           | None \<Rightarrow> Inr (Inl (''Invalid JSON payload: '' @ jerr s)))
      | _ \<Rightarrow> parse_envelope_value e raw)"

section \<open>Round trip\<close>

text \<open>The JSON object of an envelope, as \<open>JSON.stringify\<close> prints it.\<close>

definition opt_json :: "string option \<Rightarrow> jsval" where
  "opt_json s = (case s of Some t \<Rightarrow> JStr t | None \<Rightarrow> JNull)"

definition envelope_json :: "envelope \<Rightarrow> jsval" where
  "envelope_json m =
     JObj [(''message_id'', JStr (env_message_id m)), (''type'', JStr (env_type m)),
       (''payload'', env_payload m), (''session_id'', opt_json (env_session_id m)),
       (''task_id'', opt_json (env_task_id m)), (''device_id'', opt_json (env_device_id m)),
       (''user_id'', opt_json (env_user_id m)),
       (''target_device_id'', opt_json (env_target_device_id m)),
       (''target_user_id'', opt_json (env_target_user_id m)),
       (''timestamp'', JStr (env_timestamp m))]"

definition optional_ok :: "string option \<Rightarrow> bool" where
  "optional_ok s = (case s of Some t \<Rightarrow> t \<noteq> [] \<and> js_trimmed t | None \<Rightarrow> True)"

text \<open>A well-formed envelope: what the parser returns.\<close>

definition envelope_ok :: "envelope \<Rightarrow> bool" where
  "envelope_ok m =
     (env_type m \<in> set MESSAGE_TYPES \<and> js_is_record (env_payload m) \<and>
      env_message_id m \<noteq> [] \<and> js_trimmed (env_message_id m) \<and>
      env_timestamp m \<noteq> [] \<and> js_trimmed (env_timestamp m) \<and>
      list_all optional_ok [env_session_id m, env_task_id m, env_device_id m, env_user_id m,
        env_target_device_id m, env_target_user_id m])"

lemma asOptionalString_opt_json: "optional_ok s \<Longrightarrow> asOptionalString (opt_json s) = s"
  by (auto simp: optional_ok_def opt_json_def asOptionalString_def js_trim_id split: option.splits)

lemma asOptionalString_ok: "optional_ok (asOptionalString v)"
  by (auto simp: optional_ok_def asOptionalString_def Let_def split: jsval.splits)

lemma message_type_trimmed: "t \<in> set MESSAGE_TYPES \<Longrightarrow> js_trim t = t \<and> t \<noteq> []"
  by (auto simp: MESSAGE_TYPES_def js_trim_id js_trimmed_def js_space_def)

lemma parse_envelope_json:
  assumes "envelope_ok m" shows "parse_envelope_value e (envelope_json m) = Inr (Inr m)"
proof -
  note ok = assms [unfolded envelope_ok_def]
  have t: "js_trim (env_type m) = env_type m" "env_type m \<noteq> []"
    using ok message_type_trimmed by blast+
  have ts: "asOptionalString (JStr (env_timestamp m)) = Some (env_timestamp m)"
    using ok by (simp add: asOptionalString_def js_trim_id)
  have o: "asOptionalString (opt_json (env_session_id m)) = env_session_id m"
    "asOptionalString (opt_json (env_task_id m)) = env_task_id m"
    "asOptionalString (opt_json (env_device_id m)) = env_device_id m"
    "asOptionalString (opt_json (env_user_id m)) = env_user_id m"
    "asOptionalString (opt_json (env_target_device_id m)) = env_target_device_id m"
    "asOptionalString (opt_json (env_target_user_id m)) = env_target_user_id m"
    using ok by (simp_all add: asOptionalString_opt_json)
  have g: "js_is_record (envelope_json m)" "js_get (envelope_json m) ''message_id'' = JStr (env_message_id m)"
    "js_get (envelope_json m) ''type'' = JStr (env_type m)" "js_get (envelope_json m) ''payload'' = env_payload m"
    "js_get (envelope_json m) ''session_id'' = opt_json (env_session_id m)"
    "js_get (envelope_json m) ''task_id'' = opt_json (env_task_id m)"
    "js_get (envelope_json m) ''device_id'' = opt_json (env_device_id m)"
    "js_get (envelope_json m) ''user_id'' = opt_json (env_user_id m)"
    "js_get (envelope_json m) ''target_device_id'' = opt_json (env_target_device_id m)"
    "js_get (envelope_json m) ''target_user_id'' = opt_json (env_target_user_id m)"
    "js_get (envelope_json m) ''timestamp'' = JStr (env_timestamp m)"
    by (simp_all add: envelope_json_def)
  have "js_trim (env_message_id m) = env_message_id m" using ok by (simp add: js_trim_id)
  then show ?thesis
    using ok t g(1) unfolding parse_envelope_value_def Let_def g(2-) o ts by simp
qed

text \<open>What a usable host gives: ids and clock readings without surrounding white space.\<close>

definition host_ok :: "env \<Rightarrow> bool" where
  "host_ok e =
     (is_count (e_now e) \<and> (\<forall>c \<in> set (e_hex e). \<not> js_space c) \<and>
      (case e_uuid e of Some u \<Rightarrow> u \<noteq> [] \<and> js_trimmed u | None \<Rightarrow> True))"

lemma no_space_trimmed: "(\<And>c. c \<in> set s \<Longrightarrow> \<not> js_space c) \<Longrightarrow> js_trimmed s"
  by (cases "s = []") (auto simp: js_trimmed_def)

lemma generateMessageId_ok: "host_ok e \<Longrightarrow> generateMessageId e \<noteq> [] \<and> js_trimmed (generateMessageId e)"
proof -
  assume h: "host_ok e"
  show ?thesis
  proof (cases "e_uuid e")
    case None
    have "\<not> js_space CHR ''-''" by (simp add: js_space_def)
    moreover have "\<not> js_space c" if "c \<in> set (js_num_to_string (e_now e))" for c
      using h that js_num_to_string_count(2) [of "e_now e" c] by (simp add: host_ok_def)
    moreover have "\<not> js_space c" if "c \<in> set (drop 2 (e_hex e))" for c
      using h in_set_dropD [OF that] by (simp add: host_ok_def)
    ultimately have "js_trimmed (js_num_to_string (e_now e) @ ''-'' @ drop 2 (e_hex e))"
      by (intro no_space_trimmed) (metis Un_iff empty_iff empty_set insert_iff list.simps(15) set_append)
    then show ?thesis using None by (simp add: generateMessageId_def)
  qed (use h in \<open>simp add: host_ok_def generateMessageId_def\<close>)
qed

lemma iso_of_ms_ok: "iso_of_ms t \<noteq> [] \<and> js_trimmed (iso_of_ms t)"
proof -
  have "last (iso_of_ms t) = CHR ''Z''" by (simp add: iso_of_ms_def Let_def split: prod.split)
  then show ?thesis using iso_of_ms_hd [of t] by (simp add: js_trimmed_def js_space_def)
qed

lemma js_to_iso_string_ok: "js_to_iso_string n = Inr s \<Longrightarrow> s \<noteq> [] \<and> js_trimmed s"
  using iso_of_ms_ok by (auto simp: js_to_iso_string_def split: jsnum.splits if_splits)

text \<open>Inputs whose strings need no trimming and whose payload JSON keeps.\<close>

definition input_ok :: "envelope_input \<Rightarrow> bool" where
  "input_ok i =
     ((case in_payload i of Some p \<Rightarrow> js_is_record p \<and> json_ok p \<and> json_strip p = p | None \<Rightarrow> True) \<and>
      (case in_messageId i of Some t \<Rightarrow> js_trimmed t | None \<Rightarrow> True) \<and>
      (case in_timestamp i of Some t \<Rightarrow> js_trimmed t | None \<Rightarrow> True) \<and>
      list_all optional_ok [in_sessionId i, in_taskId i, in_deviceId i, in_userId i,
        in_targetDeviceId i, in_targetUserId i])"

lemma json_ok_opt_json [simp]: "json_ok (opt_json s)" "json_strip (opt_json s) = opt_json s" "opt_json s \<noteq> JUndef"
  by (cases s; simp add: opt_json_def)+

lemma envelope_json_ok:
  assumes "json_ok (env_payload m)" "json_strip (env_payload m) = env_payload m"
  shows "json_ok (envelope_json m) \<and> json_strip (envelope_json m) = envelope_json m"
  using assms
  by (auto simp: envelope_json_def json_index_key_def digit_code json_strip_JObj defined_fields_def)

lemma createEnvelope_ok:
  assumes "host_ok e" "input_ok i" "createEnvelope e i = Inr m"
  shows "envelope_ok m \<and> json_ok (env_payload m) \<and> json_strip (env_payload m) = env_payload m"
proof -
  obtain now where now: "js_to_iso_string (e_now e) = Inr now" "in_type i \<in> set MESSAGE_TYPES"
    using assms(3) by (auto simp: createEnvelope_def split: if_splits sum.splits)
  note n = js_to_iso_string_ok [OF now(1)] and g = generateMessageId_ok [OF assms(1)]
  have "opt_str_or (in_messageId i) (generateMessageId e) \<noteq> [] \<and> js_trimmed (opt_str_or (in_messageId i) (generateMessageId e))"
    "opt_str_or (in_timestamp i) now \<noteq> [] \<and> js_trimmed (opt_str_or (in_timestamp i) now)"
    using assms(2) n g by (auto simp: opt_str_or_def input_ok_def split: option.splits)
  moreover have "js_is_record (case in_payload i of Some p \<Rightarrow> p | None \<Rightarrow> JObj [])"
    "json_ok (case in_payload i of Some p \<Rightarrow> p | None \<Rightarrow> JObj [])"
    "json_strip (case in_payload i of Some p \<Rightarrow> p | None \<Rightarrow> JObj []) = (case in_payload i of Some p \<Rightarrow> p | None \<Rightarrow> JObj [])"
    using assms(2) by (auto simp: input_ok_def json_strip_JObj defined_fields_def split: option.splits)
  ultimately show ?thesis
    using assms(2,3) now by (auto simp: createEnvelope_def envelope_ok_def input_ok_def)
qed

text \<open>C26: An envelope that \<open>createEnvelope\<close> builds from trimmed fields and sends as JSON text is
  parsed on the other side, at any later time, into the same envelope.\<close>

theorem envelope_roundtrip:
  assumes "host_ok e" "input_ok i" "createEnvelope e i = Inr m"
  shows "parseEnvelope jerr e' (JStr (json_text (envelope_json m))) = Inr (Inr m)"
proof -
  note ok = createEnvelope_ok [OF assms]
  then have "json_parse (json_text (envelope_json m)) = Some (envelope_json m)"
    using envelope_json_ok [of m] json_parse_text [of "envelope_json m"] by simp
  then show ?thesis using ok by (simp add: parseEnvelope_def parse_envelope_json)
qed

definition sample_input :: envelope_input where
  "sample_input =
     \<lparr>in_messageId = Some ''m1'', in_type = ''task.create'', in_payload = Some (JObj [(''text'', JStr ''hi'')]),
       in_sessionId = Some ''s1'', in_taskId = None, in_deviceId = None, in_userId = None,
       in_targetDeviceId = Some ''d1'', in_targetUserId = None, in_timestamp = None\<rparr>"

definition sample_host :: env where
  "sample_host = \<lparr>e_now = Fin 0, e_uuid = None, e_hex = ''0.7''\<rparr>"

lemma sample_created: "\<exists>m. createEnvelope sample_host sample_input = Inr m"
  by (simp add: createEnvelope_def sample_input_def sample_host_def MESSAGE_TYPES_def js_to_iso_string_def)

theorem envelope_roundtrip_witness:
  "\<exists>m. createEnvelope sample_host sample_input = Inr m \<and>
     parseEnvelope (\<lambda>s. ''Unexpected token'') sample_host (JStr (json_text (envelope_json m))) = Inr (Inr m)"
proof -
  have "host_ok sample_host" "input_ok sample_input"
    by (simp_all add: host_ok_def input_ok_def sample_host_def sample_input_def js_space_def js_trimmed_def
        optional_ok_def json_index_key_def digit_code json_strip_JObj defined_fields_def)
  then show ?thesis using envelope_roundtrip [of sample_host sample_input] sample_created by blast
qed

lemma asOptionalString_Some: "asOptionalString x = Some t \<Longrightarrow> t \<noteq> [] \<and> js_trimmed t"
  by (auto simp: asOptionalString_def Let_def split: jsval.splits if_splits)

lemma parse_envelope_value_ok:
  assumes "host_ok e" "parse_envelope_value e v = Inr (Inr m)"
  shows "envelope_ok m"
proof -
  have v: "js_is_record v" using assms(2) by (auto simp: parse_envelope_value_def split: if_splits)
  define type where "type = (case js_get v ''type'' of JStr s \<Rightarrow> js_trim s | _ \<Rightarrow> [])"
  have type: "type \<noteq> []" "type \<in> set MESSAGE_TYPES"
    using assms(2) v by (auto simp: parse_envelope_value_def Let_def type_def [symmetric] split: if_splits)
  define mid where "mid = (case js_get v ''message_id'' of
      JStr s \<Rightarrow> if js_trim s = [] then generateMessageId e else js_trim s | _ \<Rightarrow> generateMessageId e)"
  have mid: "mid \<noteq> [] \<and> js_trimmed mid"
    using generateMessageId_ok [OF assms(1)] by (auto simp: mid_def split: jsval.split)
  define p where "p = (let p = js_get v ''payload'' in if js_is_record p then p else JObj [])"
  have p: "js_is_record p" by (simp add: p_def Let_def)
  obtain ts where ts: "ts \<noteq> []" "js_trimmed ts"
    and m: "env_message_id m = mid" "env_type m = type" "env_payload m = p" "env_timestamp m = ts"
      "env_session_id m = asOptionalString (js_get v ''session_id'')"
      "env_task_id m = asOptionalString (js_get v ''task_id'')"
      "env_device_id m = asOptionalString (js_get v ''device_id'')"
      "env_user_id m = asOptionalString (js_get v ''user_id'')"
      "env_target_device_id m = asOptionalString (js_get v ''target_device_id'')"
      "env_target_user_id m = asOptionalString (js_get v ''target_user_id'')"
  proof (cases "asOptionalString (js_get v ''timestamp'')")
    case None
    with assms(2) v type obtain now where "js_to_iso_string (e_now e) = Inr now"
      unfolding parse_envelope_value_def Let_def type_def [symmetric] by (auto split: sum.splits)
    with None assms(2) v type that js_to_iso_string_ok show ?thesis
      unfolding parse_envelope_value_def type_def [symmetric] mid_def [symmetric] p_def [symmetric]
      by (simp add: Let_def mid_def [symmetric]) fastforce
  next
    case (Some t)
    with assms(2) v type that asOptionalString_Some [OF Some] show ?thesis
      unfolding parse_envelope_value_def type_def [symmetric] mid_def [symmetric] p_def [symmetric]
      by (simp add: Let_def mid_def [symmetric]) fastforce
  qed
  show ?thesis using mid type p ts by (simp add: envelope_ok_def m asOptionalString_ok)
qed

text \<open>Whatever text or value is received, an envelope the parser accepts has a supported type, a
  payload that is an object, a non-empty trimmed id and timestamp, and optional ids that are
  null or non-empty and trimmed.\<close>

theorem parsed_envelope_ok:
  assumes "host_ok e" "parseEnvelope jerr e raw = Inr (Inr m)"
  shows "envelope_ok m"
proof -
  obtain v where "parse_envelope_value e v = Inr (Inr m)"
    using assms(2) by (auto simp: parseEnvelope_def split: jsval.splits option.splits)
  then show ?thesis by (rule parse_envelope_value_ok [OF assms(1)])
qed

theorem parsed_envelope_ok_witness:
  "\<exists>m. parseEnvelope (\<lambda>s. ''Unexpected token'') sample_host (JObj [(''type'', JStr '' ack '')]) = Inr (Inr m) \<and> envelope_ok m"
proof -
  have "\<exists>m. parseEnvelope (\<lambda>s. ''Unexpected token'') sample_host (JObj [(''type'', JStr '' ack '')]) = Inr (Inr m)"
    by (simp add: parseEnvelope_def parse_envelope_value_def Let_def js_trim_def js_space_def MESSAGE_TYPES_def
        asOptionalString_def sample_host_def js_to_iso_string_def)
  moreover have "host_ok sample_host" by (simp add: host_ok_def sample_host_def js_space_def)
  ultimately show ?thesis using parsed_envelope_ok by blast
qed

text \<open>The errors of the parser, in the order it checks.\<close>

lemma parseEnvelope_errors:
  "json_parse s = None \<Longrightarrow> parseEnvelope jerr e (JStr s) = Inr (Inl (''Invalid JSON payload: '' @ jerr s))"
  "\<not> js_is_record v \<Longrightarrow> parse_envelope_value e v = Inr (Inl ''Envelope must be a JSON object'')"
  "js_is_record v \<Longrightarrow> (\<And>s. js_get v ''type'' = JStr s \<Longrightarrow> js_trim s = []) \<Longrightarrow>
     parse_envelope_value e v = Inr (Inl ''Envelope `type` is required'')"
  "js_is_record v \<Longrightarrow> js_get v ''type'' = JStr s \<Longrightarrow> js_trim s \<noteq> [] \<Longrightarrow> js_trim s \<notin> set MESSAGE_TYPES \<Longrightarrow>
     parse_envelope_value e v = Inr (Inl (''Unsupported envelope type: '' @ js_trim s))"
  by (auto simp: parseEnvelope_def parse_envelope_value_def Let_def split: jsval.split)
end
