(* ===== verification/PairWeb.thy ===== *)
theory PairWeb
  imports PairApp Json "HOL-Library.Word"
begin

text \<open>
  packages/pair-sdk/src/web.ts and runtime.ts: identities, signatures, the requests to the
  pairing service, server addresses, ICE servers, the safety code and the QR payload. Asynchronous
  operations thread the state of the world and may throw (\<open>io\<close>). The types of the service's
  replies are erased by TypeScript and nothing validates them: replies are untyped values.
  Outside the model: the cryptographic packages (record \<open>crypto\<close>), the host's URL class (record
  \<open>web\<close>), \<open>fetch\<close> and the key-value stores (record \<open>runtime\<close>).
\<close>

section \<open>Errors and effects\<close>

text \<open>
  Errors whose message is not Latin-1 text are constructors of their own; \<open>Thrown\<close> carries the
  message of any other error.
\<close>

datatype pair_error =
    EmptyBase64          \<comment> \<open>the base64 text is empty\<close>
  | EmptyBaseUrl         \<comment> \<open>the server address is empty\<close>
  | NotHttpUrl           \<comment> \<open>the server address is not http or https\<close>
  | EmptyEntityId        \<comment> \<open>entityId is empty\<close>
  | NoWebCrypto          \<comment> \<open>the environment has no Web Crypto\<close>
  | NoEventSource        \<comment> \<open>the environment has no EventSource\<close>
  | ReadOfNullish        \<comment> \<open>TypeError: a property of null or undefined is read\<close>
  | Thrown string

text \<open>An asynchronous operation runs on the state of the world \<open>'w\<close>; it may throw.\<close>

type_synonym ('w, 'a) io = "'w \<Rightarrow> (pair_error + 'a) \<times> 'w"

definition io_return :: "'a \<Rightarrow> ('w, 'a) io" where
  "io_return x w = (Inr x, w)"

definition io_throw :: "pair_error \<Rightarrow> ('w, 'a) io" where
  "io_throw e w = (Inl e, w)"

definition io_bind :: "('w, 'a) io \<Rightarrow> ('a \<Rightarrow> ('w, 'b) io) \<Rightarrow> ('w, 'b) io" where
  "io_bind m f w = (case m w of (Inl e, w') \<Rightarrow> (Inl e, w') | (Inr x, w') \<Rightarrow> f x w')"

definition io_lift :: "pair_error + 'a \<Rightarrow> ('w, 'a) io" where
  "io_lift r w = (r, w)"

definition sum_bind :: "pair_error + 'a \<Rightarrow> ('a \<Rightarrow> pair_error + 'b) \<Rightarrow> pair_error + 'b" where
  "sum_bind r f = (case r of Inl e \<Rightarrow> Inl e | Inr x \<Rightarrow> f x)"

text \<open>Reading a property of a value that may be null or undefined.\<close>

definition js_read :: "jsval \<Rightarrow> string \<Rightarrow> pair_error + jsval" where
  "js_read v k = (if v = JUndef \<or> v = JNull then Inl ReadOfNullish else Inr (js_get v k))"

lemma io_simps [simp]:
  "io_bind (io_return x) f = f x" "io_bind (io_throw e) f = io_throw e"
  "io_bind (io_bind m f) g = io_bind m (\<lambda>x. io_bind (f x) g)"
  "io_lift (Inr x) = io_return x" "io_lift (Inl e) = io_throw e"
  by (auto simp: io_bind_def io_return_def io_throw_def io_lift_def fun_eq_iff split: sum.split prod.split)

lemma io_run [simp]: "io_return x w = (Inr x, w)" "io_throw e w = (Inl e, w)"
  by (simp_all add: io_return_def io_throw_def)

lemma sum_bind_simps [simp]: "sum_bind (Inr x) f = f x" "sum_bind (Inl e) f = Inl e"
  by (simp_all add: sum_bind_def)

lemma sum_bind_Inr: "sum_bind r f = Inr y \<longleftrightarrow> (\<exists>x. r = Inr x \<and> f x = Inr y)"
  by (cases r) simp_all

section \<open>Code outside the repository\<close>

type_synonym bytes = "8 word list"

text \<open>tweetnacl, @scure/base, @noble/hashes and \<open>crypto.subtle\<close> (None where the host has none).\<close>

record crypto =
  c_b64enc :: "bytes \<Rightarrow> string"
  c_b64dec :: "string \<Rightarrow> string + bytes"
  c_from_seed :: "bytes \<Rightarrow> bytes"
  c_sign :: "bytes \<Rightarrow> bytes \<Rightarrow> bytes"
  c_verify :: "bytes \<Rightarrow> bytes \<Rightarrow> bytes \<Rightarrow> bool"
  c_sha256 :: "bytes \<Rightarrow> bytes"
  c_subtle :: "(bytes \<Rightarrow> bytes \<Rightarrow> pair_error + bytes) option"

text \<open>
  A parsed URL of the host's \<open>URL\<close> class, and its \<open>href\<close>. The two constructors are the arguments
  \<open>new_url\<close> (absolute) and \<open>new_url_on\<close> (a reference and a base).
\<close>

record url =
  u_protocol :: string
  u_host :: string
  u_pathname :: string
  u_search :: string
  u_hash :: string

definition url_text :: "url \<Rightarrow> string" where
  "url_text u = u_protocol u @ ''//'' @ u_host u @ u_pathname u @ u_search u @ u_hash u"

text \<open>Setting \<open>pathname\<close> and \<open>search\<close> of an http URL: its path is never empty.\<close>

definition set_pathname :: "url \<Rightarrow> string \<Rightarrow> url" where
  "set_pathname u p = u\<lparr>u_pathname := (if p = [] \<or> hd p \<noteq> CHR ''/'' then CHR ''/'' # p else p)\<rparr>"

definition set_search :: "url \<Rightarrow> string \<Rightarrow> url" where
  "set_search u q = u\<lparr>u_search := (if q = [] then [] else CHR ''?'' # q)\<rparr>"

record web =
  new_url :: "string \<Rightarrow> string + url"
  new_url_on :: "string \<Rightarrow> string \<Rightarrow> string + url"
  query_text :: "(string \<times> string) list \<Rightarrow> string"

text \<open>\<open>fetch\<close>: its request, and a response whose \<open>json()\<close> may reject (None).\<close>

record request =
  rq_url :: string
  rq_method :: string
  rq_headers :: "(string \<times> string) list"
  rq_body :: "string option"

record response =
  rs_ok :: bool
  rs_status :: nat
  rs_json :: "jsval option"

section \<open>Runtime configuration (runtime.ts)\<close>

record 'w key_value_store =
  getItem :: "string \<Rightarrow> ('w, string option) io"
  setItem :: "string \<Rightarrow> string \<Rightarrow> ('w, unit) io"

text \<open>
  The two variables of the module, and what the SDK finds in its host: \<open>localStorage\<close>, \<open>fetch\<close>,
  \<open>EventSource\<close> and \<open>nacl.sign.keyPair()\<close>.
\<close>

record ('w, 's) runtime =
  pairV2Storage :: "'w key_value_store option"
  pairV2SignalStreamFactory :: "(string \<Rightarrow> 's) option"
  rt_localStorage :: "'w key_value_store option"
  rt_eventSource :: "(string \<Rightarrow> 's) option"
  rt_fetch :: "request \<Rightarrow> ('w, response) io"
  rt_keyPair :: "('w, bytes \<times> bytes) io"

definition configurePairV2Storage ::
  "'w key_value_store option \<Rightarrow> ('w, 's) runtime \<Rightarrow> ('w, 's) runtime" where
  "configurePairV2Storage store rt = rt\<lparr>pairV2Storage := store\<rparr>"

definition getPairV2Storage :: "('w, 's) runtime \<Rightarrow> 'w key_value_store option" where
  "getPairV2Storage rt = pairV2Storage rt"

definition configurePairV2SignalStreamFactory ::
  "(string \<Rightarrow> 's) option \<Rightarrow> ('w, 's) runtime \<Rightarrow> ('w, 's) runtime" where
  "configurePairV2SignalStreamFactory factory rt = rt\<lparr>pairV2SignalStreamFactory := factory\<rparr>"

definition getPairV2SignalStreamFactory :: "('w, 's) runtime \<Rightarrow> (string \<Rightarrow> 's) option" where
  "getPairV2SignalStreamFactory rt = pairV2SignalStreamFactory rt"

section \<open>Bytes, keys and headers\<close>

text \<open>\<open>textEncoder.encode\<close>: UTF-8 of the modelled characters.\<close>

definition utf8 :: "string \<Rightarrow> bytes" where
  "utf8 s = concat (map (\<lambda>c.
     let n = (of_char c :: nat) in
     if n < 128 then [of_nat n] else [of_nat (192 + n div 64), of_nat (128 + n mod 64)]) s)"

definition joinBytes :: "bytes list \<Rightarrow> bytes" where
  "joinBytes parts = concat parts"

definition base64UrlToBytes :: "crypto \<Rightarrow> string \<Rightarrow> pair_error + bytes" where
  "base64UrlToBytes cr value =
     (let normalized = js_trim value in
      if normalized = [] then Inl EmptyBase64
      else case c_b64dec cr normalized of Inl msg \<Rightarrow> Inl (Thrown msg) | Inr bs \<Rightarrow> Inr bs)"

definition identityStorageKey :: "PairV2EntityType \<Rightarrow> string \<Rightarrow> string" where
  "identityStorageKey entityType entityId =
     ''openclaw.pair.v2.identity.'' @ entity_name entityType @ ''.'' @ entityId"

definition trimmed_item :: "string option \<Rightarrow> string" where
  "trimmed_item s = (case s of Some t \<Rightarrow> js_trim t | None \<Rightarrow> [])"

definition readIdentityCache :: "('w, 's) runtime \<Rightarrow> string \<Rightarrow> ('w, string) io" where
  "readIdentityCache rt storageKey =
     (case getPairV2Storage rt of
        Some customStore \<Rightarrow> io_bind (getItem customStore storageKey) (\<lambda>s. io_return (trimmed_item s))
      | None \<Rightarrow>
        (case rt_localStorage rt of
           Some store \<Rightarrow> io_bind (getItem store storageKey) (\<lambda>s. io_return (trimmed_item s))
         | None \<Rightarrow> io_return []))"

definition writeIdentityCache :: "('w, 's) runtime \<Rightarrow> string \<Rightarrow> string \<Rightarrow> ('w, unit) io" where
  "writeIdentityCache rt storageKey value =
     (case getPairV2Storage rt of
        Some customStore \<Rightarrow> setItem customStore storageKey value
      | None \<Rightarrow>
        (case rt_localStorage rt of
           Some store \<Rightarrow> setItem store storageKey value
         | None \<Rightarrow> io_return ()))"

text \<open>A 64-byte secret key or a 32-byte seed; None sends the caller to \<open>crypto.subtle\<close>.\<close>

definition decodeSecretKey :: "crypto \<Rightarrow> string \<Rightarrow> bytes option" where
  "decodeSecretKey cr privateKey =
     (case base64UrlToBytes cr privateKey of
        Inl _ \<Rightarrow> None
      | Inr bs \<Rightarrow>
        if length bs = 64 then Some bs
        else if length bs = 32 then Some (c_from_seed cr bs)
        else None)"

text \<open>Headers, by lower-cased name; \<open>set\<close> replaces.\<close>

definition buildHeaders :: "string \<Rightarrow> (string \<times> string) list \<Rightarrow> (string \<times> string) list" where
  "buildHeaders token initHeaders =
     (let h0 = map (\<lambda>(k, v). (js_lower k, v)) initHeaders;
          h1 = (if map_of h0 ''content-type'' = None
                then AList.update ''content-type'' ''application/json'' h0 else h0);
          normalized = js_trim token
      in if normalized = [] then h1 else AList.update ''authorization'' (''Bearer '' @ normalized) h1)"

section \<open>Server addresses\<close>

definition strip_slashes :: "string \<Rightarrow> string" where
  "strip_slashes s = rev (dropWhile (\<lambda>c. c = CHR ''/'') (rev s))"

fun has_scheme_mark :: "string \<Rightarrow> bool" where
  "has_scheme_mark [] = False"
| "has_scheme_mark (c # cs) = (js_starts_with (c # cs) ''://'' \<or> has_scheme_mark cs)"

definition lift_thrown :: "string + 'a \<Rightarrow> pair_error + 'a" where
  "lift_thrown r = (case r of Inl msg \<Rightarrow> Inl (Thrown msg) | Inr x \<Rightarrow> Inr x)"

definition base_url_text :: "url \<Rightarrow> string" where
  "base_url_text parsed =
     strip_slashes (url_text (set_pathname (set_search (parsed\<lparr>u_hash := []\<rparr>) [])
       (strip_slashes (u_pathname parsed))))"

definition normalizePairV2BaseUrl :: "web \<Rightarrow> string \<Rightarrow> pair_error + string" where
  "normalizePairV2BaseUrl web raw =
     (let text = js_trim raw in
      if text = [] then Inl EmptyBaseUrl
      else
        let withProtocol = (if has_scheme_mark text then text else ''http://'' @ text) in
        sum_bind (lift_thrown (new_url web withProtocol)) (\<lambda>parsed.
          if u_protocol parsed \<noteq> ''http:'' \<and> u_protocol parsed \<noteq> ''https:'' then Inl NotHttpUrl
          else Inr (base_url_text parsed)))"

definition buildPairV2ApiUrl ::
  "web \<Rightarrow> string \<Rightarrow> string \<Rightarrow> (string \<times> string) list option \<Rightarrow> pair_error + string" where
  "buildPairV2ApiUrl web baseUrl path query =
     sum_bind (normalizePairV2BaseUrl web baseUrl) (\<lambda>base.
     sum_bind (lift_thrown (new_url_on web path (base @ ''/''))) (\<lambda>u.
       Inr (url_text (case query of Some q \<Rightarrow> set_search u (query_text web q) | None \<Rightarrow> u))))"

section \<open>ICE servers\<close>

record ice_server =
  ice_urls :: "string list"
  ice_username :: "string option"
  ice_credential :: "string option"
  ice_credentialType :: "string option"

definition opt_field :: "string \<Rightarrow> string option \<Rightarrow> (string \<times> jsval) list" where
  "opt_field k s = (case s of Some t \<Rightarrow> [(k, JStr t)] | None \<Rightarrow> [])"

definition ice_json :: "ice_server \<Rightarrow> jsval" where
  "ice_json s =
     JObj ((''urls'', JArr (map JStr (ice_urls s))) # opt_field ''username'' (ice_username s) @
       opt_field ''credential'' (ice_credential s) @ opt_field ''credentialType'' (ice_credentialType s))"

definition normalize_ice_server :: "jsval \<Rightarrow> ice_server option" where
  "normalize_ice_server item =
     (if \<not> js_is_object item then None
      else
        let raw = js_get item ''urls'';
            urlValues = (case raw of JArr vs \<Rightarrow> vs | _ \<Rightarrow> if js_text raw = [] then [] else [raw]);
            urls = js_uniq_vals urlValues
        in if urls = [] then None
           else Some \<lparr>ice_urls = urls,
                      ice_username = opt_text (js_get item ''username''),
                      ice_credential = opt_text (js_get item ''credential''),
                      ice_credentialType = opt_text (js_get item ''credentialType'')\<rparr>)"

definition normalizePairV2IceServers :: "jsval \<Rightarrow> ice_server list \<Rightarrow> ice_server list" where
  "normalizePairV2IceServers raw fallback =
     (let fb = JArr (map ice_json fallback);
          parsed = (case raw of JStr s \<Rightarrow> (case json_parse s of Some v \<Rightarrow> v | None \<Rightarrow> fb) | _ \<Rightarrow> raw);
          items = (case parsed of JArr vs \<Rightarrow> vs | _ \<Rightarrow> map ice_json fallback);
          normalized = List.map_filter normalize_ice_server items
      in if normalized \<noteq> [] then normalized else fallback)"
unbundle bit_operations_syntax

section \<open>Requests\<close>

text \<open>The part of \<open>RequestInit\<close> the callers use.\<close>

record request_init =
  ri_method :: string
  ri_headers :: "(string \<times> string) list"
  ri_body :: "jsval option"

definition post :: "jsval \<Rightarrow> request_init" where
  "post body = \<lparr>ri_method = ''POST'', ri_headers = [], ri_body = Some body\<rparr>"

text \<open>The error message of a failed response: \<open>data.message || data.error || `HTTP ${status}`\<close>.\<close>

definition failure_message :: "response \<Rightarrow> jsval \<Rightarrow> string" where
  "failure_message response data =
     js_to_string (js_or (js_or (js_get data ''message'') (js_get data ''error''))
       (JStr (''HTTP '' @ nat_digits (rs_status response))))"

definition response_result :: "response \<Rightarrow> pair_error + jsval" where
  "response_result response =
     (let data = (case rs_json response of Some v \<Rightarrow> v | None \<Rightarrow> JObj []) in
      if data = JUndef \<or> data = JNull then Inl ReadOfNullish
      else if \<not> rs_ok response \<or> js_get data ''ok'' = JBool False
      then Inl (Thrown (failure_message response data))
      else Inr data)"

definition pairV2RequestJson ::
  "web \<Rightarrow> ('w, 's) runtime \<Rightarrow> string \<Rightarrow> string \<Rightarrow> request_init \<Rightarrow> string \<Rightarrow> ('w, jsval) io" where
  "pairV2RequestJson web rt baseUrl path init token =
     io_bind (io_lift (buildPairV2ApiUrl web baseUrl path None)) (\<lambda>target.
     io_bind (rt_fetch rt \<lparr>rq_url = target, rq_method = ri_method init,
         rq_headers = buildHeaders token (ri_headers init),
         rq_body = (case ri_body init of Some b \<Rightarrow> Some (json_text b) | None \<Rightarrow> None)\<rparr>) (\<lambda>response.
       io_lift (response_result response)))"

section \<open>Identities and login\<close>

record identity =
  idn_entityId :: string
  idn_publicKey :: string
  idn_privateKey :: string

definition identity_json :: "identity \<Rightarrow> jsval" where
  "identity_json i =
     JObj [(''entityId'', JStr (idn_entityId i)), (''publicKey'', JStr (idn_publicKey i)),
       (''privateKey'', JStr (idn_privateKey i))]"

definition cached_identity :: "string \<Rightarrow> string \<Rightarrow> identity option" where
  "cached_identity normalizedId cached =
     (if cached = [] then None
      else case json_parse cached of
        None \<Rightarrow> None
      | Some parsed \<Rightarrow>
        if js_truthy (js_get parsed ''publicKey'') \<and> js_truthy (js_get parsed ''privateKey'')
        then Some \<lparr>idn_entityId = normalizedId,
                   idn_publicKey = js_to_string (js_get parsed ''publicKey''),
                   idn_privateKey = js_to_string (js_get parsed ''privateKey'')\<rparr>
        else None)"

definition getOrCreatePairV2Identity ::
  "crypto \<Rightarrow> ('w, 's) runtime \<Rightarrow> PairV2EntityType \<Rightarrow> string \<Rightarrow> ('w, identity) io" where
  "getOrCreatePairV2Identity cr rt entityType entityId =
     (let normalizedId = js_trim entityId in
      if normalizedId = [] then io_throw EmptyEntityId
      else
        let storageKey = identityStorageKey entityType normalizedId in
        io_bind (readIdentityCache rt storageKey) (\<lambda>cached.
          case cached_identity normalizedId cached of
            Some i \<Rightarrow> io_return i
          | None \<Rightarrow>
            io_bind (rt_keyPair rt) (\<lambda>(publicKey, secretKey).
              let i = \<lparr>idn_entityId = normalizedId, idn_publicKey = c_b64enc cr publicKey,
                       idn_privateKey = c_b64enc cr secretKey\<rparr>
              in io_bind (writeIdentityCache rt storageKey (json_text (identity_json i)))
                   (\<lambda>_. io_return i))))"

definition buildLoginMessage :: "jsval \<Rightarrow> pair_error + bytes" where
  "buildLoginMessage challenge =
     (if challenge = JUndef \<or> challenge = JNull then Inl ReadOfNullish
      else Inr (utf8 (''openclaw-v2-auth-login'' @ [CHR 0x0A] @
        js_to_string (js_get challenge ''challengeId'') @ [CHR 0x0A] @
        js_to_string (js_get challenge ''nonce'') @ [CHR 0x0A] @
        js_to_string (js_get challenge ''entityType'') @ [CHR 0x0A] @
        js_to_string (js_get challenge ''entityId'') @ [CHR 0x0A] @
        js_to_string (js_get challenge ''publicKey''))))"

definition sign_bytes :: "crypto \<Rightarrow> string \<Rightarrow> bytes \<Rightarrow> pair_error + string" where
  "sign_bytes cr privateKey msg =
     (case decodeSecretKey cr privateKey of
        Some sk \<Rightarrow> Inr (c_b64enc cr (c_sign cr msg sk))
      | None \<Rightarrow>
        (case c_subtle cr of
           None \<Rightarrow> Inl NoWebCrypto
         | Some sign \<Rightarrow>
           sum_bind (base64UrlToBytes cr privateKey) (\<lambda>key.
           sum_bind (sign key msg) (\<lambda>sig. Inr (c_b64enc cr sig)))))"

definition signPairV2Text :: "crypto \<Rightarrow> string \<Rightarrow> string \<Rightarrow> pair_error + string" where
  "signPairV2Text cr privateKey text = sign_bytes cr privateKey (utf8 text)"

definition verifyPairV2Text :: "crypto \<Rightarrow> string \<Rightarrow> string \<Rightarrow> string \<Rightarrow> pair_error + bool" where
  "verifyPairV2Text cr publicKey text signature =
     sum_bind (base64UrlToBytes cr publicKey) (\<lambda>publicKeyBytes.
     sum_bind (base64UrlToBytes cr signature) (\<lambda>signatureBytes.
       if length publicKeyBytes \<noteq> 32 \<or> length signatureBytes \<noteq> 64 then Inr False
       else Inr (c_verify cr (utf8 text) signatureBytes publicKeyBytes)))"

text \<open>
  The login signs the decoded text of \<open>buildLoginMessage\<close>, which encodes back to the same bytes.
\<close>

definition loginPairV2Entity ::
  "web \<Rightarrow> crypto \<Rightarrow> ('w, 's) runtime \<Rightarrow> string \<Rightarrow> PairV2EntityType \<Rightarrow> string \<Rightarrow> ('w, identity \<times> jsval) io" where
  "loginPairV2Entity web cr rt baseUrl entityType entityId =
     io_bind (getOrCreatePairV2Identity cr rt entityType entityId) (\<lambda>i.
     io_bind (pairV2RequestJson web rt baseUrl ''/v2/auth/challenge''
         (post (JObj [(''entityType'', JStr (entity_name entityType)),
           (''entityId'', JStr (idn_entityId i)), (''publicKey'', JStr (idn_publicKey i))])) [])
       (\<lambda>challengeRes.
     io_bind (io_lift (sum_bind (buildLoginMessage (js_get challengeRes ''challenge''))
         (sign_bytes cr (idn_privateKey i)))) (\<lambda>signature.
     io_bind (pairV2RequestJson web rt baseUrl ''/v2/auth/login''
         (post (JObj [(''entityType'', JStr (entity_name entityType)),
           (''entityId'', JStr (idn_entityId i)), (''publicKey'', JStr (idn_publicKey i)),
           (''challengeId'', js_get (js_get challengeRes ''challenge'') ''challengeId''),
           (''signature'', JStr signature)])) [])
       (\<lambda>loginRes. io_return (i, js_get loginRes ''session'')))))"

section \<open>The operations of the pairing service\<close>

definition announcePairV2Desktop ::
  "web \<Rightarrow> ('w, 's) runtime \<Rightarrow> string \<Rightarrow> string \<Rightarrow> jsval \<Rightarrow> ('w, jsval) io" where
  "announcePairV2Desktop web rt baseUrl token payload =
     pairV2RequestJson web rt baseUrl ''/v2/presence/announce'' (post payload) token"

definition heartbeatPairV2Entity ::
  "web \<Rightarrow> ('w, 's) runtime \<Rightarrow> string \<Rightarrow> string \<Rightarrow> jsval \<Rightarrow> ('w, jsval) io" where
  "heartbeatPairV2Entity web rt baseUrl token payload =
     pairV2RequestJson web rt baseUrl ''/v2/presence/heartbeat'' (post payload) token"

definition heartbeatPairV2Desktop ::
  "web \<Rightarrow> ('w, 's) runtime \<Rightarrow> string \<Rightarrow> string \<Rightarrow> jsval \<Rightarrow> ('w, jsval) io" where
  "heartbeatPairV2Desktop web rt baseUrl token payload = heartbeatPairV2Entity web rt baseUrl token payload"

text \<open>\<open>ttlSeconds\<close> defaults to 180.\<close>

definition createPairV2Session ::
  "web \<Rightarrow> ('w, 's) runtime \<Rightarrow> string \<Rightarrow> string \<Rightarrow> jsnum option \<Rightarrow> ('w, jsval) io" where
  "createPairV2Session web rt baseUrl token ttlSeconds =
     pairV2RequestJson web rt baseUrl ''/v2/pair/sessions''
       (post (JObj [(''ttlSeconds'', JNum (case ttlSeconds of Some n \<Rightarrow> n | None \<Rightarrow> Fin 180))])) token"

definition claimPairV2Session ::
  "web \<Rightarrow> ('w, 's) runtime \<Rightarrow> string \<Rightarrow> string \<Rightarrow> string \<Rightarrow> jsval \<Rightarrow> ('w, jsval) io" where
  "claimPairV2Session web rt baseUrl token claimToken mobileName =
     pairV2RequestJson web rt baseUrl ''/v2/pair/claims''
       (post (JObj [(''claimToken'', JStr claimToken),
         (''mobileName'', case opt_text mobileName of Some s \<Rightarrow> JStr s | None \<Rightarrow> JUndef)])) token"

definition approvePairV2Binding ::
  "web \<Rightarrow> ('w, 's) runtime \<Rightarrow> string \<Rightarrow> string \<Rightarrow> string \<Rightarrow> ('w, jsval) io" where
  "approvePairV2Binding web rt baseUrl token bindingId =
     pairV2RequestJson web rt baseUrl ''/v2/pair/approvals'' (post (JObj [(''bindingId'', JStr bindingId)])) token"

definition queryPairV2Presence ::
  "web \<Rightarrow> ('w, 's) runtime \<Rightarrow> string \<Rightarrow> string \<Rightarrow> string list \<Rightarrow> ('w, jsval) io" where
  "queryPairV2Presence web rt baseUrl token deviceIds =
     pairV2RequestJson web rt baseUrl ''/v2/presence/query''
       (post (JObj [(''deviceIds'', JArr (map JStr deviceIds))])) token"

text \<open>\<open>Math.max(60, Number(ttlSeconds || 0) || 600)\<close>.\<close>

definition ice_ttl :: "jsval \<Rightarrow> jsnum" where
  "ice_ttl v = (let n = js_number_or_zero v in js_max (Fin 60) (if js_num_truthy n then n else Fin 600))"

definition getPairV2ICEServers ::
  "web \<Rightarrow> ('w, 's) runtime \<Rightarrow> string \<Rightarrow> string \<Rightarrow> ('w, ice_server list \<times> jsnum) io" where
  "getPairV2ICEServers web rt baseUrl token =
     io_bind (pairV2RequestJson web rt baseUrl ''/v2/ice-servers''
         \<lparr>ri_method = ''GET'', ri_headers = [], ri_body = None\<rparr> token) (\<lambda>result.
       io_return (normalizePairV2IceServers (js_get result ''iceServers'') [],
                  ice_ttl (js_get result ''ttlSeconds'')))"

record signal_body =
  sg_fromType :: PairV2EntityType
  sg_fromId :: string
  sg_toType :: PairV2EntityType
  sg_toId :: string
  sg_type :: string
  sg_payload :: jsval

definition signal_json :: "signal_body \<Rightarrow> jsval" where
  "signal_json b =
     JObj [(''fromType'', JStr (entity_name (sg_fromType b))), (''fromId'', JStr (sg_fromId b)),
       (''toType'', JStr (entity_name (sg_toType b))), (''toId'', JStr (sg_toId b)),
       (''type'', JStr (sg_type b)), (''payload'', sg_payload b)]"

definition sendPairV2Signal ::
  "web \<Rightarrow> ('w, 's) runtime \<Rightarrow> string \<Rightarrow> string \<Rightarrow> signal_body \<Rightarrow> ('w, jsval) io" where
  "sendPairV2Signal web rt baseUrl token body =
     pairV2RequestJson web rt baseUrl ''/v2/signal/send'' (post (signal_json body)) token"

definition openPairV2SignalStream ::
  "web \<Rightarrow> ('w, 's) runtime \<Rightarrow> string \<Rightarrow> string \<Rightarrow> PairV2EntityType \<Rightarrow> string \<Rightarrow> pair_error + 's" where
  "openPairV2SignalStream web rt baseUrl token clientType clientId =
     (let params = [(''clientType'', entity_name clientType), (''clientId'', clientId)] @
            (if token = [] then [] else [(''token'', token)])
      in sum_bind (buildPairV2ApiUrl web baseUrl ''/v2/signal/stream'' (Some params)) (\<lambda>streamUrl.
           case getPairV2SignalStreamFactory rt of
             Some customFactory \<Rightarrow> Inr (customFactory streamUrl)
           | None \<Rightarrow>
             (case rt_eventSource rt of
                Some source \<Rightarrow> Inr (source streamUrl)
              | None \<Rightarrow> Inl NoEventSource)))"

section \<open>The safety code and the QR payload\<close>

record safety_parts =
  sp_devicePublicKey :: string
  sp_mobilePublicKey :: string
  sp_pairSessionId :: string
  sp_sessionNonce :: string

definition nth_byte :: "bytes \<Rightarrow> nat \<Rightarrow> 32 word" where
  "nth_byte bs i = (if i < length bs then ucast (bs ! i) else 0)"

text \<open>\<open>((b[0] << 16) | (b[1] << 8) | b[2]) >>> 4\<close> on 32-bit words.\<close>

definition safety_value :: "bytes \<Rightarrow> 32 word" where
  "safety_value bs =
     drop_bit 4 (push_bit 16 (nth_byte bs 0) OR push_bit 8 (nth_byte bs 1) OR nth_byte bs 2)"

definition computePairV2SafetyCode :: "crypto \<Rightarrow> safety_parts \<Rightarrow> string" where
  "computePairV2SafetyCode cr parts =
     (let bs = c_sha256 cr (joinBytes [utf8 (sp_devicePublicKey parts), utf8 (sp_mobilePublicKey parts),
            utf8 (sp_pairSessionId parts), utf8 (sp_sessionNonce parts)])
      in pad_start 6 CHR ''0'' (nat_digits (unat (safety_value bs) mod 1000000)))"

record qr_payload =
  qr_version :: string
  qr_serverBaseUrl :: string
  qr_pairSessionId :: string
  qr_claimToken :: string
  qr_deviceId :: string
  qr_devicePubkey :: string
  qr_sessionNonce :: string
  qr_expiresAt :: jsnum

text \<open>\<open>String(payload.camelCase || payload.snake_case || '').trim()\<close>.\<close>

definition either_text :: "jsval \<Rightarrow> string \<Rightarrow> string \<Rightarrow> string" where
  "either_text payload k k' = js_text (js_or (js_get payload k) (js_get payload k'))"

definition parsePairV2QrPayload :: "jsval \<Rightarrow> pair_error + qr_payload" where
  "parsePairV2QrPayload payload =
     (if payload = JUndef \<or> payload = JNull then Inl ReadOfNullish
      else Inr
        \<lparr>qr_version = js_text (js_get payload ''version''),
          qr_serverBaseUrl = either_text payload ''serverBaseUrl'' ''server_base_url'',
          qr_pairSessionId = either_text payload ''pairSessionId'' ''pair_session_id'',
          qr_claimToken = either_text payload ''claimToken'' ''claim_token'',
          qr_deviceId = either_text payload ''deviceId'' ''device_id'',
          qr_devicePubkey = either_text payload ''devicePubkey'' ''device_pubkey'',
          qr_sessionNonce = either_text payload ''sessionNonce'' ''session_nonce'',
          qr_expiresAt = js_number_or_zero (js_or (js_get payload ''expiresAt'') (js_get payload ''expires_at''))\<rparr>)"
section \<open>The safety code\<close>

lemma list_all_nat_digits: "list_all (is_digit_of 10) (nat_digits n)"
  by (rule nat_digits_digits)

lemma nat_digits_length: "n < 10 ^ Suc k \<Longrightarrow> length (nat_digits n) \<le> Suc k"
proof (induction k arbitrary: n)
  case 0
  then show ?case by (simp add: nat_digits.simps)
next
  case (Suc k)
  show ?case
  proof (cases "n < 10")
    case True
    then show ?thesis by (simp add: nat_digits.simps)
  next
    case False
    from Suc.prems have "n div 10 < 10 ^ Suc k" by (simp add: div_less_iff_less_mult mult.commute)
    then have "length (nat_digits (n div 10)) \<le> Suc k" by (rule Suc.IH)
    with False show ?thesis by (subst nat_digits.simps) simp
  qed
qed

text \<open>Whatever the hash gives, the safety code both sides display is exactly six decimal digits.\<close>

theorem safety_code_shape:
  "length (computePairV2SafetyCode cr parts) = 6 \<and> list_all (is_digit_of 10) (computePairV2SafetyCode cr parts)"
proof -
  have "length (nat_digits (x mod 1000000)) \<le> 6" for x
    using nat_digits_length [of "x mod 1000000" 5] by simp
  moreover have "is_digit_of 10 CHR ''0''" by (simp add: digit_code)
  ultimately show ?thesis
    using nat_digits_digits by (auto simp: computePairV2SafetyCode_def Let_def length_pad_start pad_start_def list_all_iff)
qed

lemma utf8_append: "utf8 (s @ t) = utf8 s @ utf8 t"
  by (simp add: utf8_def)

text \<open>The hashed text has no field boundaries: characters moved from the end of the mobile key
  to the front of the session id (or on to the nonce) leave the safety code unchanged.\<close>

theorem safety_code_boundaries:
  "computePairV2SafetyCode cr
     \<lparr>sp_devicePublicKey = d, sp_mobilePublicKey = m @ x, sp_pairSessionId = p, sp_sessionNonce = n\<rparr> =
   computePairV2SafetyCode cr
     \<lparr>sp_devicePublicKey = d, sp_mobilePublicKey = m, sp_pairSessionId = x @ p, sp_sessionNonce = n\<rparr>"
  by (simp add: computePairV2SafetyCode_def joinBytes_def utf8_append)

section \<open>ICE servers\<close>

definition text_ok :: "string option \<Rightarrow> bool" where
  "text_ok s = (case s of Some t \<Rightarrow> t \<noteq> [] \<and> js_trimmed t | None \<Rightarrow> True)"

definition ice_ok :: "ice_server \<Rightarrow> bool" where
  "ice_ok s = (ice_urls s \<noteq> [] \<and> texts_normal (ice_urls s) \<and> text_ok (ice_username s) \<and>
     text_ok (ice_credential s) \<and> text_ok (ice_credentialType s))"

lemma text_ok_opt_text [simp]: "text_ok (opt_text v)"
  by (simp add: text_ok_def opt_text_def)

lemma opt_text_ok: "text_ok s \<Longrightarrow> opt_text (case s of Some t \<Rightarrow> JStr t | None \<Rightarrow> JUndef) = s"
  by (auto simp: text_ok_def opt_text_def js_trim_id split: option.split)

lemma normalize_ice_server_ok: "normalize_ice_server v = Some s \<Longrightarrow> ice_ok s"
  by (auto simp: normalize_ice_server_def ice_ok_def Let_def split: if_splits)

lemma map_of_opt_field: "map_of (opt_field k s @ fs) k' = (if k = k' \<and> s \<noteq> None then Some (JStr (the s)) else map_of fs k')"
  by (auto simp: opt_field_def split: option.splits)

lemma ice_json_get:
  "js_get (ice_json s) ''urls'' = JArr (map JStr (ice_urls s))"
  "js_get (ice_json s) ''username'' = (case ice_username s of Some t \<Rightarrow> JStr t | None \<Rightarrow> JUndef)"
  "js_get (ice_json s) ''credential'' = (case ice_credential s of Some t \<Rightarrow> JStr t | None \<Rightarrow> JUndef)"
  "js_get (ice_json s) ''credentialType'' = (case ice_credentialType s of Some t \<Rightarrow> JStr t | None \<Rightarrow> JUndef)"
  by (auto simp: ice_json_def opt_field_def split: option.split)

lemma normalize_ice_json: "ice_ok s \<Longrightarrow> normalize_ice_server (ice_json s) = Some s"
proof -
  assume ok: "ice_ok s"
  have "js_is_object (ice_json s)" by (simp add: ice_json_def js_is_object_def)
  then show ?thesis using ok
    by (simp add: normalize_ice_server_def ice_json_get Let_def ice_ok_def js_uniq_texts_normal opt_text_ok)
qed

lemma map_filter_ice_json: "list_all ice_ok ss \<Longrightarrow> List.map_filter normalize_ice_server (map ice_json ss) = ss"
  by (induction ss) (simp_all add: List.map_filter_simps normalize_ice_json)

lemma set_map_filter: "set (List.map_filter f xs) = {y. \<exists>x \<in> set xs. f x = Some y}"
  by (induction xs) (auto simp: List.map_filter_simps split: option.splits)

lemma normalizePairV2IceServers_ok:
  "list_all ice_ok fb \<Longrightarrow> list_all ice_ok (normalizePairV2IceServers raw fb)"
  by (auto simp: normalizePairV2IceServers_def Let_def list_all_iff set_map_filter dest: normalize_ice_server_ok)

text \<open>Whatever the configuration or the service sends, every ICE server that is used has at least
  one url, its urls are distinct, non-empty and trimmed, and normalising the result again gives
  it back.\<close>

theorem ice_servers_normal:
  assumes "list_all ice_ok fallback"
  shows "list_all ice_ok (normalizePairV2IceServers raw fallback) \<and>
    normalizePairV2IceServers (JArr (map ice_json (normalizePairV2IceServers raw fallback))) fallback =
      normalizePairV2IceServers raw fallback"
proof -
  let ?r = "normalizePairV2IceServers raw fallback"
  have ok: "list_all ice_ok ?r" using assms by (rule normalizePairV2IceServers_ok)
  have "normalizePairV2IceServers (JArr (map ice_json ?r)) fallback = (if ?r \<noteq> [] then ?r else fallback)"
    by (simp add: normalizePairV2IceServers_def [of "JArr (map ice_json ?r)"] map_filter_ice_json [OF ok])
  moreover have "fallback = []" if "?r = []"
    using that by (auto simp: normalizePairV2IceServers_def Let_def split: if_splits)
  ultimately show ?thesis using ok by auto
qed

theorem ice_servers_normal_witness:
  "normalizePairV2IceServers (JArr (map ice_json (normalizePairV2IceServers
       (JArr [JObj [(''urls'', JStr '' stun:a '')], JNull]) []))) [] =
     [\<lparr>ice_urls = [''stun:a''], ice_username = None, ice_credential = None, ice_credentialType = None\<rparr>]"
proof -
  have "normalizePairV2IceServers (JArr [JObj [(''urls'', JStr '' stun:a '')], JNull]) [] =
     [\<lparr>ice_urls = [''stun:a''], ice_username = None, ice_credential = None, ice_credentialType = None\<rparr>]"
    by code_simp
  then show ?thesis using ice_servers_normal [of "[]" "JArr [JObj [(''urls'', JStr '' stun:a '')], JNull]"] by simp
qed

section \<open>Server addresses\<close>

text \<open>
  Documented behaviour of the host's URL class: a parsed http(s) URL has a host that is not empty,
  contains no slash, question mark or hash and starts and ends with no white space, and a path
  that starts with a slash and has no question mark, hash or white space; the text
  \<open>protocol//host path\<close> of such a URL is parsed into it; and a reference that starts with a single
  slash replaces path, query and fragment of an http(s) base.
\<close>

definition plain_text :: "string \<Rightarrow> bool" where
  "plain_text s = (\<forall>c \<in> set s. \<not> js_space c \<and> c \<noteq> CHR ''?'' \<and> c \<noteq> CHR ''#'')"

lemma plain_text_simps [simp]:
  "plain_text []" "plain_text (c # s) \<longleftrightarrow> \<not> js_space c \<and> c \<noteq> CHR ''?'' \<and> c \<noteq> CHR ''#'' \<and> plain_text s"
  "plain_text (s @ t) \<longleftrightarrow> plain_text s \<and> plain_text t"
  by (auto simp: plain_text_def)

lemma url_chars_not_space [simp]:
  "\<not> js_space CHR ''/''" "\<not> js_space CHR '':''" "\<not> js_space CHR ''h''" "\<not> js_space CHR ''t''"
  "\<not> js_space CHR ''p''" "\<not> js_space CHR ''s''"
  by (simp_all add: js_space_def)

definition http_url :: "url \<Rightarrow> bool" where
  "http_url u = (u_protocol u \<in> {''http:'', ''https:''} \<and> u_host u \<noteq> [] \<and> plain_text (u_host u) \<and>
     CHR ''/'' \<notin> set (u_host u) \<and> plain_text (u_pathname u) \<and> u_pathname u \<noteq> [] \<and> hd (u_pathname u) = CHR ''/'')"

definition stripped_url :: "url \<Rightarrow> url" where
  "stripped_url u =
     u\<lparr>u_pathname := (if strip_slashes (u_pathname u) = [] then ''/'' else strip_slashes (u_pathname u)),
       u_search := [], u_hash := []\<rparr>"

definition url_laws :: "web \<Rightarrow> bool" where
  "url_laws web =
     ((\<forall>s u. new_url web s = Inr u \<longrightarrow> u_protocol u \<in> {''http:'', ''https:''} \<longrightarrow> http_url u) \<and>
      (\<forall>s u. new_url web s = Inr u \<longrightarrow> http_url u \<longrightarrow>
         new_url web (u_protocol u @ ''//'' @ u_host u @ strip_slashes (u_pathname u)) = Inr (stripped_url u)) \<and>
      (\<forall>s u p. new_url web s = Inr u \<longrightarrow> http_url u \<longrightarrow> p \<noteq> [] \<longrightarrow> hd p \<noteq> CHR ''/'' \<longrightarrow> plain_text p \<longrightarrow>
         new_url_on web (CHR ''/'' # p) (u_protocol u @ ''//'' @ u_host u @ strip_slashes (u_pathname u) @ ''/'') =
           Inr (u\<lparr>u_pathname := CHR ''/'' # p, u_search := [], u_hash := []\<rparr>)))"

text \<open>The text of the normalised address.\<close>

lemma strip_slashes_decomp: "\<exists>n. s = strip_slashes s @ replicate n CHR ''/''"
proof -
  have "rev s = takeWhile (\<lambda>c. c = CHR ''/'') (rev s) @ dropWhile (\<lambda>c. c = CHR ''/'') (rev s)" by simp
  moreover have "takeWhile (\<lambda>c. c = CHR ''/'') (rev s) =
      replicate (length (takeWhile (\<lambda>c. c = CHR ''/'') (rev s))) CHR ''/''"
    by (rule replicate_length_same [symmetric]) (auto dest: set_takeWhileD)
  ultimately have "rev s = replicate (length (takeWhile (\<lambda>c. c = CHR ''/'') (rev s))) CHR ''/'' @
      dropWhile (\<lambda>c. c = CHR ''/'') (rev s)" by metis
  then have "s = strip_slashes s @ replicate (length (takeWhile (\<lambda>c. c = CHR ''/'') (rev s))) CHR ''/''"
    unfolding strip_slashes_def by (metis rev_append rev_replicate rev_rev_ident)
  then show ?thesis by blast
qed

lemma strip_slashes_last: "strip_slashes s = [] \<or> last (strip_slashes s) \<noteq> CHR ''/''"
  using hd_dropWhile [of "\<lambda>c. c = CHR ''/''" "rev s"] by (auto simp: strip_slashes_def last_rev)

lemma strip_slashes_id: "s = [] \<or> last s \<noteq> CHR ''/'' \<Longrightarrow> strip_slashes s = s"
  unfolding strip_slashes_def by (subst dropWhile_id) (auto simp: hd_rev)

lemma strip_slashes_snoc: "strip_slashes (s @ ''/'') = strip_slashes s"
  by (simp add: strip_slashes_def)

lemma strip_slashes_append:
  "t = [] \<or> last t \<noteq> CHR ''/'' \<Longrightarrow> s \<noteq> [] \<Longrightarrow> last s \<noteq> CHR ''/'' \<Longrightarrow> strip_slashes (s @ t) = s @ t"
  by (rule strip_slashes_id) (cases "t = []"; simp)

lemma base_url_text_http:
  assumes "http_url u"
  shows "base_url_text u = u_protocol u @ ''//'' @ u_host u @ strip_slashes (u_pathname u)"
proof -
  let ?o = "u_protocol u @ ''//'' @ u_host u" and ?p = "strip_slashes (u_pathname u)"
  have "u_host u \<noteq> []" "last (u_host u) \<noteq> CHR ''/''"
    using assms last_in_set [of "u_host u"] unfolding http_url_def by metis+
  then have o: "?o \<noteq> []" "last ?o \<noteq> CHR ''/''" by simp_all
  have keep: "strip_slashes (?o @ ?p) = ?o @ ?p"
    using strip_slashes_append [OF strip_slashes_last o, of "u_pathname u"] .
  show ?thesis
  proof (cases "?p = []")
    case True
    then show ?thesis using keep strip_slashes_snoc [of ?o]
      by (simp add: base_url_text_def set_pathname_def set_search_def url_text_def)
  next
    case False
    obtain n where "u_pathname u = ?p @ replicate n CHR ''/''" using strip_slashes_decomp by blast
    with False assms have "hd ?p = CHR ''/''" unfolding http_url_def by (metis hd_append2)
    with False keep show ?thesis
      by (simp add: base_url_text_def set_pathname_def set_search_def url_text_def)
  qed
qed

lemma js_trim_plain: "plain_text s \<Longrightarrow> js_trim s = s"
  by (intro js_trim_id) (cases "s = []"; simp add: plain_text_def js_trimmed_def)

lemma has_scheme_mark_append: "has_scheme_mark (s @ ''://'' @ t)"
proof (induction s)
  case (Cons c cs)
  then show ?case by simp
qed (simp add: js_starts_with_def)

lemma normalizePairV2BaseUrl_Inr:
  assumes "url_laws web" "normalizePairV2BaseUrl web raw = Inr b"
  obtains s u where "new_url web s = Inr u" "http_url u"
    "b = u_protocol u @ ''//'' @ u_host u @ strip_slashes (u_pathname u)"
proof -
  obtain s u where u: "new_url web s = Inr u" "u_protocol u \<in> {''http:'', ''https:''}" "b = base_url_text u"
    using assms(2) by (auto simp: normalizePairV2BaseUrl_def Let_def lift_thrown_def sum_bind_Inr split: if_splits sum.splits)
  then have "http_url u" using assms(1) unfolding url_laws_def by blast
  with u show ?thesis by (intro that) (simp_all add: base_url_text_http)
qed

lemma http_protocol: "http_url u \<Longrightarrow> u_protocol u = ''http:'' \<or> u_protocol u = ''https:''"
  by (simp add: http_url_def)

lemma http_plain: "http_url u \<Longrightarrow> plain_text (u_host u)" "http_url u \<Longrightarrow> plain_text (u_pathname u)"
  by (simp_all add: http_url_def)

lemma strip_slashes_plain: "plain_text s \<Longrightarrow> plain_text (strip_slashes s)"
  using strip_slashes_decomp [of s] by (metis plain_text_simps(3))

lemma normalized_base_text:
  assumes "http_url u" "b = u_protocol u @ ''//'' @ u_host u @ strip_slashes (u_pathname u)"
  shows "js_trim b = b" "b \<noteq> []" "has_scheme_mark b" "plain_text b"
proof -
  have "plain_text (strip_slashes (u_pathname u))"
    by (rule strip_slashes_plain) (rule http_plain [OF assms(1)])
  moreover have "plain_text (u_protocol u)" by (rule disjE [OF http_protocol [OF assms(1)]]) simp_all
  moreover have "plain_text (u_host u)" by (rule http_plain [OF assms(1)])
  ultimately show p: "plain_text b" unfolding assms(2) by simp
  show "js_trim b = b" by (rule js_trim_plain) (rule p)
  show "b \<noteq> []" using assms by simp
  have "\<exists>a. u_protocol u = a @ '':''" by (rule disjE [OF http_protocol [OF assms(1)]]) simp_all
  then obtain a where "b = a @ ''://'' @ (u_host u @ strip_slashes (u_pathname u))" using assms(2) by auto
  then show "has_scheme_mark b" using has_scheme_mark_append by metis
qed

lemma strip_slashes_idem: "strip_slashes (strip_slashes s) = strip_slashes s"
  by (rule strip_slashes_id) (rule strip_slashes_last)

lemma normalizePairV2BaseUrl_idem:
  assumes "url_laws web" "normalizePairV2BaseUrl web raw = Inr b"
  shows "normalizePairV2BaseUrl web b = Inr b"
proof -
  obtain s u where u: "new_url web s = Inr u" "http_url u"
    and b: "b = u_protocol u @ ''//'' @ u_host u @ strip_slashes (u_pathname u)"
    by (rule normalizePairV2BaseUrl_Inr [OF assms])
  have v: "new_url web b = Inr (stripped_url u)"
    using assms(1) u unfolding url_laws_def b by blast
  have pr: "u_protocol (stripped_url u) = u_protocol u" by (simp add: stripped_url_def)
  have "http_url (stripped_url u)"
    using assms(1) v pr u(2) unfolding url_laws_def http_url_def by metis
  then have "base_url_text (stripped_url u) = b"
    by (simp add: base_url_text_http b stripped_url_def strip_slashes_idem)
      (simp add: strip_slashes_def)
  then show ?thesis
    using normalized_base_text [OF u(2) b] v u(2) pr
    by (simp add: normalizePairV2BaseUrl_def lift_thrown_def http_url_def)
qed
text \<open>The address of a server is normalised once and for all: a normalised address has no
  white space, query, fragment or final slash, and normalising it again changes nothing.\<close>

theorem base_url_canonical:
  assumes "url_laws web" "normalizePairV2BaseUrl web raw = Inr b"
  shows "normalizePairV2BaseUrl web b = Inr b \<and> plain_text b \<and> last b \<noteq> CHR ''/''"
proof -
  obtain s u where u: "http_url u" "b = u_protocol u @ ''//'' @ u_host u @ strip_slashes (u_pathname u)"
    by (rule normalizePairV2BaseUrl_Inr [OF assms])
  have "last b \<noteq> CHR ''/''"
    using base_url_text_http [OF u(1)] u(2) strip_slashes_last [of "url_text (set_pathname (set_search (u\<lparr>u_hash := []\<rparr>) []) (strip_slashes (u_pathname u)))"]
      normalized_base_text(2) [OF u]
    by (metis base_url_text_def)
  then show ?thesis
    using normalizePairV2BaseUrl_idem [OF assms] normalized_base_text(4) [OF u] by blast
qed

text \<open>A small parser of absolute http(s) URLs without user, port and escapes, as a model of the laws.\<close>

definition sample_parse :: "string \<Rightarrow> string + url" where
  "sample_parse s =
     (let proto = (if js_starts_with s ''http://'' then ''http:'' else ''https:'');
          rest = drop (length proto + 2) s;
          host = takeWhile (\<lambda>c. c \<noteq> CHR ''/'') rest;
          path = dropWhile (\<lambda>c. c \<noteq> CHR ''/'') rest
      in if (js_starts_with s ''http://'' \<or> js_starts_with s ''https://'') \<and> host \<noteq> [] \<and> plain_text rest
         then Inr \<lparr>u_protocol = proto, u_host = host, u_pathname = (if path = [] then ''/'' else path),
                   u_search = [], u_hash = []\<rparr>
         else Inl ''Invalid URL'')"

definition sample_parse_on :: "string \<Rightarrow> string \<Rightarrow> string + url" where
  "sample_parse_on p b =
     (case sample_parse b of Inr u \<Rightarrow> Inr (u\<lparr>u_pathname := p\<rparr>) | Inl e \<Rightarrow> Inl e)"

definition sample_query :: "(string \<times> string) list \<Rightarrow> string" where
  "sample_query kvs = js_join ''&'' (map (\<lambda>(k, v). k @ ''='' @ v) kvs)"

definition sample_web :: web where
  "sample_web = \<lparr>new_url = sample_parse, new_url_on = sample_parse_on, query_text = sample_query\<rparr>"

lemma js_starts_with_append [simp]: "js_starts_with (p @ s) p"
  by (simp add: js_starts_with_def)

lemma sample_parse_text:
  assumes "proto \<in> {''http:'', ''https:''}" "host \<noteq> []" "CHR ''/'' \<notin> set host" "plain_text host" "plain_text path"
    "path = [] \<or> hd path = CHR ''/''"
  shows "sample_parse (proto @ ''//'' @ host @ path) =
    Inr \<lparr>u_protocol = proto, u_host = host, u_pathname = (if path = [] then ''/'' else path), u_search = [], u_hash = []\<rparr>"
proof -
  have "takeWhile (\<lambda>c. c \<noteq> CHR ''/'') (host @ path) = host \<and> dropWhile (\<lambda>c. c \<noteq> CHR ''/'') (host @ path) = path"
    using assms(3,6) by (intro takeWhile_digits) (auto simp: list_all_iff)
  then have tw: "takeWhile (\<lambda>c. c \<noteq> CHR ''/'') (host @ path) = host"
    "dropWhile (\<lambda>c. c \<noteq> CHR ''/'') (host @ path) = path" by blast+
  have pl: "plain_text (host @ path)" using assms(4,5) by simp
  consider "proto = ''http:''" | "proto = ''https:''" using assms(1) by blast
  then show ?thesis
  proof cases
    case 1
    have "js_starts_with (proto @ ''//'' @ host @ path) ''http://''"
      "drop (length ''http:'' + 2) (proto @ ''//'' @ host @ path) = host @ path"
      by (simp_all add: 1 js_starts_with_def)
    then show ?thesis unfolding sample_parse_def Let_def by (simp only: tw pl assms(2) 1 if_True simp_thms)
  next
    case 2
    have "\<not> js_starts_with (proto @ ''//'' @ host @ path) ''http://''"
      "js_starts_with (proto @ ''//'' @ host @ path) ''https://''"
      "drop (length ''https:'' + 2) (proto @ ''//'' @ host @ path) = host @ path"
      by (simp_all add: 2 js_starts_with_def)
    then show ?thesis unfolding sample_parse_def Let_def by (simp only: tw pl assms(2) 2 if_True if_False simp_thms)
  qed
qed

lemma sample_parse_http:
  assumes "sample_parse s = Inr u"
  shows "http_url u \<and> u_search u = [] \<and> u_hash u = []"
proof -
  define proto where "proto = (if js_starts_with s ''http://'' then ''http:'' else ''https:'')"
  define rest where "rest = drop (length proto + 2) s"
  define host where "host = takeWhile (\<lambda>c. c \<noteq> CHR ''/'') rest"
  define path where "path = dropWhile (\<lambda>c. c \<noteq> CHR ''/'') rest"
  have u: "host \<noteq> []" "plain_text rest"
    "u = \<lparr>u_protocol = proto, u_host = host, u_pathname = (if path = [] then ''/'' else path), u_search = [], u_hash = []\<rparr>"
    using assms unfolding sample_parse_def Let_def proto_def [symmetric] rest_def [symmetric] host_def [symmetric] path_def [symmetric]
    by (auto split: if_splits)
  have "rest = host @ path" by (simp add: host_def path_def)
  then have "plain_text host" "plain_text path" using u(2) by simp_all
  moreover have "CHR ''/'' \<notin> set host" by (auto simp: host_def dest: set_takeWhileD)
  moreover have "path = [] \<or> hd path = CHR ''/''"
    using hd_dropWhile [of "\<lambda>c. c \<noteq> CHR ''/''" rest] by (auto simp: path_def)
  ultimately show ?thesis using u by (auto simp: http_url_def proto_def)
qed

lemma strip_slashes_head: "s \<noteq> [] \<Longrightarrow> hd s = c \<Longrightarrow> strip_slashes s = [] \<or> hd (strip_slashes s) = c"
  using strip_slashes_decomp [of s] by (metis hd_append2)

lemma sample_web_laws: "url_laws sample_web"
proof -
  have a: "sample_parse (u_protocol u @ ''//'' @ u_host u @ strip_slashes (u_pathname u)) = Inr (stripped_url u)"
    if "http_url u" for u
    using that sample_parse_text [of "u_protocol u" "u_host u" "strip_slashes (u_pathname u)"]
      strip_slashes_plain [of "u_pathname u"] strip_slashes_head [of "u_pathname u" "CHR ''/''"]
    by (simp add: http_url_def stripped_url_def)
  have b: "sample_parse_on (CHR ''/'' # p) (u_protocol u @ ''//'' @ u_host u @ strip_slashes (u_pathname u) @ ''/'') =
      Inr (u\<lparr>u_pathname := CHR ''/'' # p, u_search := [], u_hash := []\<rparr>)" if "http_url u" for u p
  proof -
    have "strip_slashes (u_pathname u) @ ''/'' \<noteq> []" by simp
    moreover have "hd (strip_slashes (u_pathname u) @ ''/'') = CHR ''/''"
      using that strip_slashes_head [of "u_pathname u" "CHR ''/''"] by (cases "strip_slashes (u_pathname u)") (auto simp: http_url_def)
    ultimately show ?thesis
      using that sample_parse_text [of "u_protocol u" "u_host u" "strip_slashes (u_pathname u) @ ''/''"]
        strip_slashes_plain [of "u_pathname u"]
      by (simp add: http_url_def sample_parse_on_def)
  qed
  show ?thesis unfolding url_laws_def sample_web_def
    by (simp only: web.select_convs) (blast intro: a b dest: sample_parse_http)
qed

theorem base_url_canonical_witness:
  "normalizePairV2BaseUrl sample_web '' h.org/a/ '' = Inr ''http://h.org/a'' \<and>
   normalizePairV2BaseUrl sample_web ''http://h.org/a'' = Inr ''http://h.org/a''"
proof -
  have "normalizePairV2BaseUrl sample_web '' h.org/a/ '' = Inr ''http://h.org/a''" by code_simp
  then show ?thesis using base_url_canonical [OF sample_web_laws] by blast
qed

lemma api_url_text:
  assumes "url_laws web" "normalizePairV2BaseUrl web raw = Inr b" "p \<noteq> []" "hd p \<noteq> CHR ''/''" "plain_text p"
  obtains u where "http_url u" "b = u_protocol u @ ''//'' @ u_host u @ strip_slashes (u_pathname u)"
    "buildPairV2ApiUrl web raw (CHR ''/'' # p) None = Inr (u_protocol u @ ''//'' @ u_host u @ CHR ''/'' # p)"
proof -
  obtain s u where u: "new_url web s = Inr u" "http_url u"
    "b = u_protocol u @ ''//'' @ u_host u @ strip_slashes (u_pathname u)"
    by (rule normalizePairV2BaseUrl_Inr [OF assms(1,2)])
  have "new_url_on web (CHR ''/'' # p) (b @ ''/'') = Inr (u\<lparr>u_pathname := CHR ''/'' # p, u_search := [], u_hash := []\<rparr>)"
    using assms(1,3-5) u unfolding url_laws_def by simp
  then show ?thesis using that [OF u(2,3)] assms(2)
    by (simp add: buildPairV2ApiUrl_def lift_thrown_def url_text_def)
qed

text \<open>The path of a server's address takes no part in its requests: every path the SDK requests
  starts with a slash and so replaces it, and two addresses that differ in the path only give the
  same request URL, although the normaliser keeps the path.\<close>

theorem api_url_ignores_base_path:
  assumes "url_laws web" "normalizePairV2BaseUrl web raw = Inr b" "p \<noteq> []" "hd p \<noteq> CHR ''/''" "plain_text p"
  shows "\<exists>proto host path. b = proto @ ''//'' @ host @ path \<and> host \<noteq> [] \<and> CHR ''/'' \<notin> set host \<and>
    buildPairV2ApiUrl web raw (CHR ''/'' # p) None = Inr (proto @ ''//'' @ host @ CHR ''/'' # p)"
proof -
  obtain u where u: "http_url u" "b = u_protocol u @ ''//'' @ u_host u @ strip_slashes (u_pathname u)"
    "buildPairV2ApiUrl web raw (CHR ''/'' # p) None = Inr (u_protocol u @ ''//'' @ u_host u @ CHR ''/'' # p)"
    by (rule api_url_text [OF assms])
  then show ?thesis unfolding http_url_def by blast
qed

theorem api_url_ignores_base_path_witness:
  "\<exists>proto host path. ''http://h.org/pair'' = proto @ ''//'' @ host @ path \<and> host \<noteq> [] \<and> CHR ''/'' \<notin> set host \<and>
    buildPairV2ApiUrl sample_web ''h.org/pair/'' ''/v2/pair/claims'' None =
      Inr (proto @ ''//'' @ host @ ''/v2/pair/claims'')"
proof -
  have "normalizePairV2BaseUrl sample_web ''h.org/pair/'' = Inr ''http://h.org/pair''" by code_simp
  moreover have "plain_text ''v2/pair/claims''" by (simp add: js_space_def)
  ultimately show ?thesis
    using api_url_ignores_base_path [OF sample_web_laws, of "''h.org/pair/''" "''http://h.org/pair''" "''v2/pair/claims''"]
    by simp
qed

section \<open>Outcomes of a request\<close>

text \<open>
  What a caller may rely on when a request returns: the service answered with an ok status, the
  body is a value that is neither null nor undefined, and it does not say \<open>ok: false\<close>.
\<close>

lemma response_result_Inr:
  "response_result r = Inr v \<longleftrightarrow>
     v = (case rs_json r of Some v \<Rightarrow> v | None \<Rightarrow> JObj []) \<and> v \<noteq> JUndef \<and> v \<noteq> JNull \<and> rs_ok r \<and>
     js_get v ''ok'' \<noteq> JBool False"
  by (auto simp: response_result_def Let_def)

lemma io_bind_Inr:
  "io_bind m f w = (Inr y, w') \<longleftrightarrow> (\<exists>x v. m w = (Inr x, v) \<and> f x v = (Inr y, w'))"
  by (auto simp: io_bind_def split: prod.splits sum.splits)

lemma io_lift_Inr: "io_lift r w = (Inr y, w') \<longleftrightarrow> r = Inr y \<and> w' = w"
  by (auto simp: io_lift_def)

lemma pairV2RequestJson_Inr:
  assumes "pairV2RequestJson web rt baseUrl path init token w = (Inr v, w')"
  obtains target rsp where
    "buildPairV2ApiUrl web baseUrl path None = Inr target"
    "rt_fetch rt \<lparr>rq_url = target, rq_method = ri_method init,
         rq_headers = buildHeaders token (ri_headers init),
         rq_body = (case ri_body init of Some b \<Rightarrow> Some (json_text b) | None \<Rightarrow> None)\<rparr> w = (Inr rsp, w')"
    "rs_ok rsp" "js_get v ''ok'' \<noteq> JBool False" "v \<noteq> JUndef" "v \<noteq> JNull"
  using assms unfolding pairV2RequestJson_def
  by (auto simp: io_bind_Inr io_lift_Inr response_result_Inr)

section \<open>Identities are stable\<close>

text \<open>What the SDK needs of a key-value store: reading changes nothing, and what has been written is
  read back.\<close>

locale kv_store =
  fixes store :: "'w key_value_store"
  assumes get_pure: "getItem store k w = (r, w') \<Longrightarrow> w' = w"
    and set_get: "setItem store k v w = (Inr (), w') \<Longrightarrow> getItem store k w' = (Inr (Some v), w')"

text \<open>Keys are not empty, and neither are their encodings.\<close>

definition keys_ok :: "crypto \<Rightarrow> ('w, 's) runtime \<Rightarrow> bool" where
  "keys_ok cr rt =
     ((\<forall>bs. bs \<noteq> [] \<longrightarrow> c_b64enc cr bs \<noteq> []) \<and>
      (\<forall>w pk sk w'. rt_keyPair rt w = (Inr (pk, sk), w') \<longrightarrow> pk \<noteq> [] \<and> sk \<noteq> []))"

lemma json_text_object_trim: "js_trim (json_text (JObj fs)) = json_text (JObj fs)"
proof -
  have "json_text (JObj fs) \<noteq> []" "hd (json_text (JObj fs)) = CHR ''{''" "last (json_text (JObj fs)) = CHR ''}''"
    by (simp_all add: json_text_JObj)
  moreover have "\<not> js_space CHR ''{''" "\<not> js_space CHR ''}''" by (simp_all add: js_space_def)
  ultimately show ?thesis by (intro js_trim_id) (simp add: js_trimmed_def)
qed

lemma json_text_array_trim: "js_trim (json_text (JArr vs)) = json_text (JArr vs)"
proof -
  have "json_text (JArr vs) \<noteq> []" "hd (json_text (JArr vs)) = CHR ''[''" "last (json_text (JArr vs)) = CHR '']''"
    by simp_all
  moreover have "\<not> js_space CHR ''[''" "\<not> js_space CHR '']''" by (simp_all add: js_space_def)
  ultimately show ?thesis by (intro js_trim_id) (simp add: js_trimmed_def)
qed

lemma identity_json_ok: "json_ok (identity_json i)" "json_strip (identity_json i) = identity_json i"
  by (simp_all add: identity_json_def json_index_key_def digit_code json_strip_JObj defined_fields_def)

lemma cached_identity_written:
  assumes "idn_entityId i = n" "idn_publicKey i \<noteq> []" "idn_privateKey i \<noteq> []"
  shows "cached_identity n (trimmed_item (Some (json_text (identity_json i)))) = Some i"
proof -
  have t: "trimmed_item (Some (json_text (identity_json i))) = json_text (identity_json i)"
    using json_text_object_trim by (simp add: trimmed_item_def identity_json_def)
  have "json_text (identity_json i) \<noteq> []" using json_text_head [OF identity_json_ok(1)] by blast
  moreover have "json_parse (json_text (identity_json i)) = Some (identity_json i)"
    using json_parse_text [OF identity_json_ok(1)] identity_json_ok(2) by simp
  ultimately show ?thesis using assms
    unfolding cached_identity_def t by (cases i) (simp add: identity_json_def)
qed

context kv_store begin

lemma readIdentityCache_store:
  assumes "pairV2Storage rt = Some store" "getItem store k w = (Inr s, w')"
  shows "readIdentityCache rt k w = (Inr (trimmed_item s), w)"
  using assms get_pure [OF assms(2)]
  by (simp add: readIdentityCache_def getPairV2Storage_def io_bind_def io_return_def)

lemma identity_stable:
  assumes rt: "pairV2Storage rt = Some store" and keys: "keys_ok cr rt"
    and run: "getOrCreatePairV2Identity cr rt t entityId w = (Inr i, w')"
  shows "getOrCreatePairV2Identity cr rt t entityId w' = (Inr i, w')"
proof -
  let ?n = "js_trim entityId" and ?k = "identityStorageKey t (js_trim entityId)"
  have n: "?n \<noteq> []" using run by (auto simp: getOrCreatePairV2Identity_def Let_def split: if_splits)
  obtain s where g: "getItem store ?k w = (Inr s, w)"
    using run n rt get_pure unfolding getOrCreatePairV2Identity_def Let_def readIdentityCache_def getPairV2Storage_def
    by (auto simp: io_bind_Inr)
  note r = readIdentityCache_store [OF rt g]
  show ?thesis
  proof (cases "cached_identity ?n (trimmed_item s)")
    case (Some j)
    then have "i = j \<and> w' = w" using run n r
      by (simp add: getOrCreatePairV2Identity_def Let_def io_bind_def [of _ _ w])
    then show ?thesis using run by simp
  next
    case None
    then obtain pk sk v where kp: "rt_keyPair rt w = (Inr (pk, sk), v)"
      and i: "i = \<lparr>idn_entityId = ?n, idn_publicKey = c_b64enc cr pk, idn_privateKey = c_b64enc cr sk\<rparr>"
      and w: "writeIdentityCache rt ?k (json_text (identity_json i)) v = (Inr (), w')"
      using run n r unfolding getOrCreatePairV2Identity_def Let_def
      by (auto simp: io_bind_Inr io_return_def)
    then have "getItem store ?k w' = (Inr (Some (json_text (identity_json i))), w')"
      using rt set_get by (simp add: writeIdentityCache_def getPairV2Storage_def)
    then have "readIdentityCache rt ?k w' = (Inr (trimmed_item (Some (json_text (identity_json i)))), w')"
      by (rule readIdentityCache_store [OF rt])
    moreover have "cached_identity ?n (trimmed_item (Some (json_text (identity_json i)))) = Some i"
    proof (rule cached_identity_written)
      have "pk \<noteq> [] \<and> sk \<noteq> []" using keys kp unfolding keys_ok_def by blast
      then show "idn_publicKey i \<noteq> []" "idn_privateKey i \<noteq> []"
        using keys unfolding i keys_ok_def by simp_all
    qed (simp add: i)
    ultimately show ?thesis using n
      by (simp add: getOrCreatePairV2Identity_def Let_def io_bind_def [of _ _ w'])
  qed
qed

end

end
