(* ===== verification/PeerChannel.thy ===== *)
theory PeerChannel
  imports PairWeb
begin

text \<open>
  packages/pair-sdk/src/peer.ts: the class \<open>PairV2PeerChannel\<close>, a WebRTC data channel between a
  desktop and a mobile device that is opened over signals and authenticated by a signed hello.
  Its private fields are the record \<open>peer_channel\<close>; the browser's objects are numbered, and the
  calls the class makes on its options and on the browser are the list \<open>out\<close> of effects. An
  operation runs up to its next \<open>await\<close>; what is suspended there is a \<open>peer_task\<close>, and
  \<open>peer_run\<close> interleaves tasks and browser events in any order. The verification of a hello awaits
  promises that are settled already and is one step with the message that brings it.
\<close>

section \<open>Types\<close>

datatype PairV2PeerState = Idle | Connecting | ChannelOpen | Verifying | Connected | Disconnected | Failed

datatype PairV2PeerSignalType = Webrtc_offer | Webrtc_answer | Webrtc_ice

datatype peer_error = NoWebRTC | PeerThrown string | WebError pair_error

definition pairV2PeerHelloType :: string where "pairV2PeerHelloType = ''sys.auth.hello''"
definition pairV2PeerCapabilitiesType :: string where "pairV2PeerCapabilitiesType = ''sys.capabilities''"

record description =
  d_type :: string
  d_sdp :: string

record candidate =
  cd_candidate :: string
  cd_sdpMid :: jsval
  cd_sdpMLineIndex :: jsval
  cd_usernameFragment :: jsval

record peer_options =
  o_role :: PairV2EntityType
  o_selfId :: string
  o_selfPublicKey :: string
  o_selfPrivateKey :: string
  o_trustedPeerId :: string
  o_trustedPeerPublicKey :: string
  o_bindingId :: string
  o_capabilities :: jsval
  o_crypto :: crypto
  o_webrtc :: bool

section \<open>Pure helpers\<close>

definition makeNonce :: "env \<Rightarrow> string" where
  "makeNonce e =
     (case e_uuid e of
        Some u \<Rightarrow> if u \<noteq> [] then u
                  else ''nonce_'' @ js_num_to_string (e_now e) @ ''_'' @ take 8 (drop 2 (e_hex e))
      | None \<Rightarrow> ''nonce_'' @ js_num_to_string (e_now e) @ ''_'' @ take 8 (drop 2 (e_hex e)))"

definition buildHelloMessageText :: "string \<Rightarrow> string \<Rightarrow> string \<Rightarrow> string \<Rightarrow> string \<Rightarrow> string" where
  "buildHelloMessageText bindingId entityType entityId publicKey nonce =
     ''openclaw-v2-peer-hello'' @ [CHR 0x0A] @ bindingId @ [CHR 0x0A] @ entityType @ [CHR 0x0A] @
     entityId @ [CHR 0x0A] @ publicKey @ [CHR 0x0A] @ nonce"

fun trustedRemoteRole :: "PairV2EntityType \<Rightarrow> PairV2EntityType" where
  "trustedRemoteRole Desktop = Mobile"
| "trustedRemoteRole Mobile = Desktop"

definition isAppMessageType :: "jsval \<Rightarrow> bool" where
  "isAppMessageType value = js_starts_with (js_text value) ''app.''"

definition isHelloEnvelope :: "jsval \<Rightarrow> bool" where
  "isHelloEnvelope value = (js_get value ''type'' = JStr pairV2PeerHelloType)"

definition isCapabilitiesEnvelope :: "jsval \<Rightarrow> bool" where
  "isCapabilitiesEnvelope value = (js_get value ''type'' = JStr pairV2PeerCapabilitiesType)"

definition isAppEnvelope :: "jsval \<Rightarrow> bool" where
  "isAppEnvelope value = isAppMessageType (js_get value ''type'')"

text \<open>\<open>s.replaceAll(p, r)\<close> for a pattern that is not empty.\<close>

function js_replace_all :: "string \<Rightarrow> string \<Rightarrow> string \<Rightarrow> string" where
  "js_replace_all p r [] = []"
| "js_replace_all p r (c # cs) =
     (if p \<noteq> [] \<and> take (length p) (c # cs) = p
      then r @ js_replace_all p r (drop (length p) (c # cs))
      else c # js_replace_all p r cs)"
  by pat_completeness auto

termination
proof (relation "measure (\<lambda>(p, r, s). length s)")
  fix p r :: string and c cs
  assume "p \<noteq> [] \<and> take (length p) (c # cs) = p"
  then show "((p, r, drop (length p) (c # cs)), (p, r, c # cs)) \<in> measure (\<lambda>(p, r, s). length s)"
    by (cases p) auto
qed auto

definition crlf :: string where "crlf = [CHR 0x0D, CHR 0x0A]"

fun has_text :: "string \<Rightarrow> string \<Rightarrow> bool" where
  "has_text p [] = (p = [])"
| "has_text p (c # cs) = (js_starts_with (c # cs) p \<or> has_text p cs)"

definition line_break :: "char \<Rightarrow> bool" where
  "line_break c = (c = CHR 0x0D \<or> c = CHR 0x0A)"

text \<open>A text in which the line breaks were escaped is unescaped first.\<close>

definition unescape_breaks :: "string \<Rightarrow> string" where
  "unescape_breaks text =
     (if \<not> list_ex line_break text \<and> (has_text [CHR 0x5C, CHR ''n''] text \<or> has_text [CHR 0x5C, CHR ''r''] text)
      then js_replace_all [CHR 0x5C, CHR ''r''] [CHR 0x0D]
             (js_replace_all [CHR 0x5C, CHR ''n''] [CHR 0x0A]
               (js_replace_all [CHR 0x5C, CHR ''r'', CHR 0x5C, CHR ''n''] crlf text))
      else text)"

definition crlf_lines :: "string \<Rightarrow> string" where
  "crlf_lines s =
     js_replace_all [CHR 0x0A] crlf (js_replace_all [CHR 0x0D] [CHR 0x0A] (js_replace_all crlf [CHR 0x0A] s))"

definition js_ends_with :: "string \<Rightarrow> string \<Rightarrow> bool" where
  "js_ends_with s p = js_starts_with (rev s) (rev p)"

definition normalizeSdpText :: "jsval \<Rightarrow> string" where
  "normalizeSdpText raw =
     (let text = js_to_string (js_coalesce raw (JStr [])) in
      if js_trim text = [] then []
      else let trimmed = js_trim (unescape_breaks text) in
        if trimmed = [] then []
        else let normalized = crlf_lines trimmed in
          if js_ends_with normalized crlf then normalized else normalized @ crlf)"

definition normalizeDescription :: "jsval \<Rightarrow> string \<Rightarrow> peer_error + description" where
  "normalizeDescription value fallbackType =
     (let plain = (\<lambda>sdp. JObj [(''type'', JStr fallbackType), (''sdp'', JStr sdp)]);
          candidate =
            (case value of
               JStr s \<Rightarrow>
                 (let trimmed = js_trim s in
                  if js_starts_with trimmed ''{'' \<and> js_ends_with trimmed ''}''
                  then (case json_parse trimmed of Some v \<Rightarrow> v | None \<Rightarrow> plain trimmed)
                  else plain trimmed)
             | v \<Rightarrow> v);
          type = js_trim (js_to_string (js_or (js_get candidate ''type'') (JStr fallbackType)));
          sdp = normalizeSdpText (js_get candidate ''sdp'')
      in if sdp = [] then Inl (PeerThrown (''missing '' @ fallbackType @ '' sdp''))
         else Inr \<lparr>d_type = type, d_sdp = sdp\<rparr>)"

definition normalizeCandidate :: "jsval \<Rightarrow> candidate option" where
  "normalizeCandidate value =
     (if \<not> js_truthy value then None
      else let c = js_text (js_get value ''candidate'') in
        if c = [] then None
        else Some \<lparr>cd_candidate = c,
                   cd_sdpMid = js_coalesce (js_get value ''sdpMid'') JNull,
                   cd_sdpMLineIndex = js_coalesce (js_get value ''sdpMLineIndex'') JNull,
                   cd_usernameFragment = js_coalesce (js_get value ''usernameFragment'') JNull\<rparr>)"

definition normalizeCapabilities :: "jsval \<Rightarrow> pair_capabilities" where
  "normalizeCapabilities value =
     (let features = uniqueTrimmedStrings (js_array (js_get value ''features'')) in
      \<lparr>cap_protocolVersion = text_or ''openclaw-pair-v2'' (js_get value ''protocolVersion''),
       cap_supportedMessages = uniqueTrimmedStrings
         ([JStr pairV2PeerHelloType, JStr pairV2PeerCapabilitiesType] @ js_array (js_get value ''supportedMessages'')),
       cap_features = (if features = [] then None else Some features),
       cap_appId = opt_text (js_get value ''appId''),
       cap_appVersion = opt_text (js_get value ''appVersion'')\<rparr>)"

definition hasSameDescription :: "description option \<Rightarrow> description \<Rightarrow> bool" where
  "hasSameDescription current next =
     (case current of
        None \<Rightarrow> False
      | Some c \<Rightarrow> js_trim (d_type c) = js_trim (d_type next) \<and> d_sdp c = d_sdp next)"

section \<open>The selected candidate pair (log lines)\<close>

definition summarizeIceCandidate :: "jsval \<Rightarrow> string" where
  "summarizeIceCandidate c =
     (if \<not> js_truthy c then ''-''
      else
        let candidateType = js_text (js_or (js_or (js_get c ''candidateType'') (js_get c ''type'')) (js_get c ''networkType''));
            ip = js_text (js_or (js_or (js_or (js_get c ''ip'') (js_get c ''address'')) (js_get c ''ipAddress'')) (js_get c ''relatedAddress''));
            port = js_number_or_zero (js_or (js_get c ''port'') (js_get c ''relatedPort''));
            protocol = js_lower (js_text (js_get c ''protocol''));
            networkType = js_lower (js_text (js_get c ''networkType''))
        in js_join '' '' (filter (\<lambda>s. s \<noteq> [])
             [if candidateType = [] then ''candidate'' else candidateType,
              if ip = [] then [] else ip @ (if js_less (Fin 0) port then CHR '':'' # js_num_to_string port else []),
              protocol, networkType]))"

text \<open>The entries of a report by id: a later entry replaces an earlier one in its place.\<close>

definition add_entry :: "jsval \<Rightarrow> (string \<times> jsval) list \<Rightarrow> (string \<times> jsval) list" where
  "add_entry value entries =
     (if \<not> js_is_object value then entries
      else let i = js_text (js_get value ''id'') in if i = [] then entries else AList.update i value entries)"

definition report_entries :: "jsval list \<Rightarrow> (string \<times> jsval) list" where
  "report_entries report = fold add_entry report []"

definition stat_type :: "jsval \<Rightarrow> string" where
  "stat_type stat = js_text (js_get stat ''type'')"

fun transport_pair :: "(string \<times> jsval) list \<Rightarrow> jsval list \<Rightarrow> jsval option" where
  "transport_pair entries [] = None"
| "transport_pair entries (stat # stats) =
     (if stat_type stat \<noteq> ''transport'' then transport_pair entries stats
      else let i = js_text (js_get stat ''selectedCandidatePairId'') in
        if i \<noteq> [] \<and> map_of entries i \<noteq> None then map_of entries i else transport_pair entries stats)"

fun nominated_pair :: "jsval list \<Rightarrow> jsval option" where
  "nominated_pair [] = None"
| "nominated_pair (stat # stats) =
     (if stat_type stat \<noteq> ''candidate-pair'' then nominated_pair stats
      else if js_truthy (js_get stat ''selected'') \<or>
        (js_truthy (js_get stat ''nominated'') \<and> js_lower (js_text (js_get stat ''state'')) = ''succeeded'')
      then Some stat else nominated_pair stats)"

text \<open>\<open>Math.round\<close>: ties towards plus infinity.\<close>

fun js_round :: "jsnum \<Rightarrow> jsnum" where
  "js_round (Fin q) = Fin (of_int \<lfloor>q + 1 / 2\<rfloor>)"
| "js_round n = n"

fun js_mul :: "jsnum \<Rightarrow> rat \<Rightarrow> jsnum" where
  "js_mul (Fin q) k = Fin (q * k)"
| "js_mul n k = n"

definition entry_of :: "(string \<times> jsval) list \<Rightarrow> string \<Rightarrow> jsval" where
  "entry_of entries i = (if i = [] then JNull else case map_of entries i of Some v \<Rightarrow> v | None \<Rightarrow> JNull)"

definition candidate_pair_line :: "string \<Rightarrow> jsval list \<Rightarrow> string" where
  "candidate_pair_line reason report =
     (let entries = report_entries report;
          stats = map snd entries;
          found = (case transport_pair entries stats of Some p \<Rightarrow> Some p | None \<Rightarrow> nominated_pair stats)
      in case found of
           None \<Rightarrow> ''candidate pair ('' @ reason @ ''): unavailable''
         | Some pair \<Rightarrow>
           let lc = entry_of entries (js_text (js_get pair ''localCandidateId''));
               rc = entry_of entries (js_text (js_get pair ''remoteCandidateId''));
               pairState = js_text (js_get pair ''state'');
               rtt = js_number_or_zero (js_get pair ''currentRoundTripTime'');
               rttMs = (if js_less (Fin 0) rtt then js_max (Fin 0) (js_round (js_mul rtt 1000)) else Fin 0)
           in ''candidate pair ('' @ reason @ ''): local='' @ summarizeIceCandidate lc @
              '' remote='' @ summarizeIceCandidate rc @
              '' state='' @ (if pairState = [] then ''-'' else pairState) @
              (if js_less (Fin 0) rttMs then '' rtt='' @ js_num_to_string rttMs @ ''ms'' else []))"
section \<open>The state of a channel\<close>

text \<open>
  The objects of the browser are numbered. A peer connection has the descriptions, the states the
  browser reports and whether the channel's handlers are still installed on it; a data channel
  has its ready state and, in \<open>channel_owner\<close>, the peer connection its handlers were installed for.
\<close>

record rtc_peer =
  rp_remote :: "description option"
  rp_local :: "description option"
  rp_connection :: string
  rp_ice :: string
  rp_handlers :: bool

datatype effect =
    StateChanged PairV2PeerState string
  | SignalDescription PairV2PeerSignalType string description
  | SignalCandidate string candidate
  | Sent nat jsval
  | CapabilitiesReceived pair_capabilities
  | AppMessage app_message
  | CallSetRemote nat description
  | CallAddIce nat candidate
  | Rejected peer_error
  | Logged string
  | LoggedError string peer_error

datatype hello_source = OnOpen | OnHello

text \<open>The awaits an operation is suspended at; what follows runs when the promise settles.\<close>

datatype peer_task =
    T_offer_created nat
  | T_offer_local nat description
  | T_remote_set nat description PairV2PeerSignalType
  | T_flush "candidate list" nat PairV2PeerSignalType
  | T_answer_created nat
  | T_answer_local nat description
  | T_hello_sign hello_source string
  | T_stats string
  | T_last

record peer_channel =
  peer :: "nat option"
  dataChannel :: "nat option"
  cstate :: PairV2PeerState
  signalChain :: "(PairV2PeerSignalType \<times> jsval) list"
  pendingRemoteCandidates :: "candidate list"
  helloSent :: bool
  capabilitiesSent :: bool
  remoteVerified :: bool
  remoteCapabilities :: "pair_capabilities option"
  closedByUser :: bool
  rtc_peers :: "nat \<Rightarrow> rtc_peer"
  ready_state :: "nat \<Rightarrow> string"
  channel_owner :: "nat \<Rightarrow> nat option"
  next_id :: nat
  tasks :: "peer_task list"
  out :: "effect list"

definition fresh_peer :: rtc_peer where
  "fresh_peer = \<lparr>rp_remote = None, rp_local = None, rp_connection = ''new'', rp_ice = ''new'', rp_handlers = True\<rparr>"

definition new_channel :: peer_channel where
  "new_channel =
     \<lparr>peer = None, dataChannel = None, cstate = Idle, signalChain = [], pendingRemoteCandidates = [],
       helloSent = False, capabilitiesSent = False, remoteVerified = False, remoteCapabilities = None,
       closedByUser = False, rtc_peers = (\<lambda>_. fresh_peer\<lparr>rp_handlers := False\<rparr>),
       ready_state = (\<lambda>_. ''closed''), channel_owner = (\<lambda>_. None), next_id = 0, tasks = [], out = []\<rparr>"

definition emit :: "effect \<Rightarrow> peer_channel \<Rightarrow> peer_channel" where
  "emit x s = s\<lparr>out := out s @ [x]\<rparr>"

definition spawn :: "peer_task \<Rightarrow> peer_channel \<Rightarrow> peer_channel" where
  "spawn t s = s\<lparr>tasks := tasks s @ [t]\<rparr>"

definition setState :: "PairV2PeerState \<Rightarrow> string \<Rightarrow> peer_channel \<Rightarrow> peer_channel" where
  "setState st detail s = emit (StateChanged st detail) (s\<lparr>cstate := st\<rparr>)"

definition update_peer :: "nat \<Rightarrow> (rtc_peer \<Rightarrow> rtc_peer) \<Rightarrow> peer_channel \<Rightarrow> peer_channel" where
  "update_peer p f s = s\<lparr>rtc_peers := (rtc_peers s)(p := f (rtc_peers s p))\<rparr>"

definition channel_open :: "peer_channel \<Rightarrow> bool" where
  "channel_open s = (case dataChannel s of Some d \<Rightarrow> ready_state s d = ''open'' | None \<Rightarrow> False)"

definition isReady :: "peer_channel \<Rightarrow> bool" where
  "isReady s = (cstate s = Connected \<and> channel_open s \<and> remoteVerified s)"

definition supportsRemoteMessage :: "peer_channel \<Rightarrow> string \<Rightarrow> bool" where
  "supportsRemoteMessage s type =
     (let normalizedType = js_trim type in
      if normalizedType = [] then False
      else case remoteCapabilities s of
        None \<Rightarrow> True
      | Some c \<Rightarrow> normalizedType \<in> set (cap_supportedMessages c))"

section \<open>Disposal and creation of the peer connection\<close>

definition close_data_channel :: "peer_channel \<Rightarrow> peer_channel" where
  "close_data_channel s =
     (case dataChannel s of
        None \<Rightarrow> s
      | Some d \<Rightarrow> s\<lparr>channel_owner := (channel_owner s)(d := None), ready_state := (ready_state s)(d := ''closing''),
                    dataChannel := None\<rparr>)"

definition close_peer :: "peer_channel \<Rightarrow> peer_channel" where
  "close_peer s =
     (case peer s of
        None \<Rightarrow> s
      | Some p \<Rightarrow> (update_peer p (\<lambda>r. r\<lparr>rp_handlers := False, rp_connection := ''closed''\<rparr>) s)\<lparr>peer := None\<rparr>)"

definition disposePeer :: "string \<Rightarrow> PairV2PeerState \<Rightarrow> peer_channel \<Rightarrow> peer_channel" where
  "disposePeer detail st s =
     setState st detail (close_peer (close_data_channel
       (s\<lparr>pendingRemoteCandidates := [], remoteVerified := False, helloSent := False,
          capabilitiesSent := False, remoteCapabilities := None\<rparr>)))"

definition create_peer :: "string \<Rightarrow> peer_channel \<Rightarrow> nat \<times> peer_channel" where
  "create_peer role s =
     (let p = next_id s
      in (p, setState Connecting (role @ '' peer ready'')
           (s\<lparr>remoteVerified := False, helloSent := False, capabilitiesSent := False,
              remoteCapabilities := None, rtc_peers := (rtc_peers s)(p := fresh_peer),
              peer := Some p, next_id := Suc p\<rparr>)))"

text \<open>The caller has checked that WebRTC is available (\<open>ensureWebRtcSupport\<close> throws otherwise).\<close>

definition ensurePeer :: "string \<Rightarrow> bool \<Rightarrow> peer_channel \<Rightarrow> nat \<times> peer_channel" where
  "ensurePeer role forceRecreate s =
     (let s' = (if forceRecreate then disposePeer (''recreate as '' @ role) Connecting s else s)
      in case peer s' of Some p \<Rightarrow> (p, s') | None \<Rightarrow> create_peer role s')"

definition isDataChannelClosed :: "peer_channel \<Rightarrow> nat \<Rightarrow> bool" where
  "isDataChannelClosed s d = (ready_state s d \<in> {''closing'', ''closed''})"

definition isPeerTerminal :: "peer_channel \<Rightarrow> nat \<Rightarrow> bool" where
  "isPeerTerminal s p = (rp_connection (rtc_peers s p) \<in> {''failed'', ''closed'', ''disconnected''})"

definition shouldRecreateForOffer :: "description \<Rightarrow> peer_channel \<Rightarrow> bool" where
  "shouldRecreateForOffer d s =
     (case peer s of
        None \<Rightarrow> False
      | Some p \<Rightarrow>
        \<not> hasSameDescription (rp_remote (rtc_peers s p)) d \<and>
        (rp_remote (rtc_peers s p) \<noteq> None \<or> rp_local (rtc_peers s p) \<noteq> None \<or> dataChannel s \<noteq> None))"

definition shouldRecreateForConnect :: "peer_channel \<Rightarrow> bool" where
  "shouldRecreateForConnect s =
     (case peer s of
        None \<Rightarrow> False
      | Some p \<Rightarrow> isPeerTerminal s p \<or> (case dataChannel s of Some d \<Rightarrow> isDataChannelClosed s d | None \<Rightarrow> False))"

definition attachDataChannel :: "nat \<Rightarrow> nat \<Rightarrow> peer_channel \<Rightarrow> peer_channel" where
  "attachDataChannel d ownerPeer s =
     (let s' = (case dataChannel s of
                  Some d' \<Rightarrow> if d' \<noteq> d then s\<lparr>ready_state := (ready_state s)(d' := ''closing'')\<rparr> else s
                | None \<Rightarrow> s)
      in s'\<lparr>dataChannel := Some d, channel_owner := (channel_owner s')(d := Some ownerPeer)\<rparr>)"

text \<open>A data channel made by the browser, locally (\<open>createDataChannel\<close>) or by the other side.\<close>

definition alloc_channel :: "string \<Rightarrow> peer_channel \<Rightarrow> nat \<times> peer_channel" where
  "alloc_channel rs s = (next_id s, s\<lparr>ready_state := (ready_state s)(next_id s := rs), next_id := Suc (next_id s)\<rparr>)"

definition isCurrentDataChannel :: "nat \<Rightarrow> nat \<Rightarrow> peer_channel \<Rightarrow> bool" where
  "isCurrentDataChannel d ownerPeer s = (dataChannel s = Some d \<and> peer s = Some ownerPeer)"

section \<open>Hello and capabilities\<close>

definition opt_val :: "string option \<Rightarrow> jsval" where
  "opt_val s = (case s of Some t \<Rightarrow> JStr t | None \<Rightarrow> JUndef)"

definition capabilities_json :: "pair_capabilities \<Rightarrow> jsval" where
  "capabilities_json c =
     JObj [(''type'', JStr pairV2PeerCapabilitiesType),
       (''protocolVersion'', JStr (cap_protocolVersion c)),
       (''supportedMessages'', JArr (map JStr (cap_supportedMessages c))),
       (''features'', case cap_features c of Some fs \<Rightarrow> JArr (map JStr fs) | None \<Rightarrow> JUndef),
       (''appId'', opt_val (cap_appId c)), (''appVersion'', opt_val (cap_appVersion c))]"

definition hello_json :: "peer_options \<Rightarrow> string \<Rightarrow> string \<Rightarrow> jsval" where
  "hello_json opts nonce signature =
     JObj [(''type'', JStr pairV2PeerHelloType), (''bindingId'', JStr (o_bindingId opts)),
       (''entityType'', JStr (entity_name (o_role opts))), (''entityId'', JStr (o_selfId opts)),
       (''publicKey'', JStr (o_selfPublicKey opts)), (''nonce'', JStr nonce),
       (''signature'', JStr signature)]"

definition sendCapabilitiesIfReady :: "peer_options \<Rightarrow> peer_channel \<Rightarrow> peer_channel" where
  "sendCapabilitiesIfReady opts s =
     (case dataChannel s of
        None \<Rightarrow> s
      | Some d \<Rightarrow>
        if ready_state s d \<noteq> ''open'' \<or> \<not> helloSent s \<or> \<not> remoteVerified s \<or> capabilitiesSent s then s
        else emit (Sent d (capabilities_json (normalizeCapabilities (o_capabilities opts))))
               (s\<lparr>capabilitiesSent := True\<rparr>))"

text \<open>The end of the handling of a verified hello.\<close>

definition finish_hello :: "peer_options \<Rightarrow> peer_channel \<Rightarrow> peer_channel" where
  "finish_hello opts s = sendCapabilitiesIfReady opts (setState Connected ''peer verified'' s)"

text \<open>
  \<open>sendHello\<close> up to the signature, and the rest once it is there. The signature is pending in
  \<open>T_hello_sign\<close>; the caller decides what follows and who handles an error.
\<close>

definition sendHello :: "peer_options \<Rightarrow> hello_source \<Rightarrow> env \<Rightarrow> peer_channel \<Rightarrow> peer_channel" where
  "sendHello opts src e s =
     (if \<not> channel_open s \<or> helloSent s
      then (case src of OnOpen \<Rightarrow> s | OnHello \<Rightarrow> finish_hello opts s)
      else spawn (T_hello_sign src (makeNonce e)) s)"

definition hello_failed :: "hello_source \<Rightarrow> peer_error \<Rightarrow> peer_channel \<Rightarrow> peer_channel" where
  "hello_failed src err s =
     (case src of
        OnOpen \<Rightarrow> setState Failed ''auth hello failed'' (emit (LoggedError ''send hello failed: '' err) s)
      | OnHello \<Rightarrow> emit (LoggedError ''handle data message failed: '' err) s)"

definition hello_text :: "peer_options \<Rightarrow> string \<Rightarrow> string" where
  "hello_text opts nonce =
     buildHelloMessageText (o_bindingId opts) (entity_name (o_role opts)) (o_selfId opts) (o_selfPublicKey opts) nonce"

definition hello_signed :: "peer_options \<Rightarrow> hello_source \<Rightarrow> string \<Rightarrow> peer_channel \<Rightarrow> peer_channel" where
  "hello_signed opts src nonce s =
     (case signPairV2Text (o_crypto opts) (o_selfPrivateKey opts) (hello_text opts nonce) of
        Inl err \<Rightarrow> hello_failed src (WebError err) s
      | Inr signature \<Rightarrow>
        let s1 = s\<lparr>helloSent := True\<rparr> in
        case dataChannel s1 of
          None \<Rightarrow> hello_failed src (WebError ReadOfNullish) s1
        | Some d \<Rightarrow>
          if ready_state s1 d \<noteq> ''open'' then hello_failed src (PeerThrown ''InvalidStateError'') s1
          else
            let s2 = emit (Sent d (hello_json opts nonce signature)) s1;
                s3 = (if remoteVerified s2 then finish_hello opts s2 else setState Verifying ''hello sent'' s2)
            in case src of OnOpen \<Rightarrow> s3 | OnHello \<Rightarrow> finish_hello opts s3)"

section \<open>Messages of the data channel\<close>

definition hello_matches :: "peer_options \<Rightarrow> jsval \<Rightarrow> bool" where
  "hello_matches opts payload =
     (js_get payload ''bindingId'' = JStr (o_bindingId opts) \<and>
      js_get payload ''entityType'' = JStr (entity_name (trustedRemoteRole (o_role opts))) \<and>
      js_get payload ''entityId'' = JStr (o_trustedPeerId opts) \<and>
      js_get payload ''publicKey'' = JStr (o_trustedPeerPublicKey opts))"

definition verify_hello :: "peer_options \<Rightarrow> jsval \<Rightarrow> pair_error + bool" where
  "verify_hello opts payload =
     verifyPairV2Text (o_crypto opts) (o_trustedPeerPublicKey opts)
       (buildHelloMessageText (js_to_string (js_get payload ''bindingId'')) (js_to_string (js_get payload ''entityType''))
          (js_to_string (js_get payload ''entityId'')) (js_to_string (js_get payload ''publicKey''))
          (js_to_string (js_get payload ''nonce'')))
       (js_to_string (js_or (js_get payload ''signature'') (JStr [])))"

definition handle_hello :: "peer_options \<Rightarrow> env \<Rightarrow> jsval \<Rightarrow> peer_channel \<Rightarrow> peer_channel" where
  "handle_hello opts e payload s =
     (let failed = (\<lambda>err. emit (LoggedError ''handle data message failed: '' err) s) in
      if \<not> hello_matches opts payload then failed (PeerThrown ''peer hello does not match trusted binding'')
      else case verify_hello opts payload of
        Inl err \<Rightarrow> failed (WebError err)
      | Inr False \<Rightarrow> failed (PeerThrown ''peer hello signature verification failed'')
      | Inr True \<Rightarrow>
        let s1 = s\<lparr>remoteVerified := True\<rparr> in
        if helloSent s1 then finish_hello opts s1 else sendHello opts OnHello e s1)"

definition app_message_of :: "peer_options \<Rightarrow> env \<Rightarrow> jsval \<Rightarrow> app_message" where
  "app_message_of opts e payload =
     \<lparr>am_type = js_text (js_get payload ''type''),
       am_payload = (let p = js_get payload ''payload'' in if js_is_object p then p else JObj []),
       am_ts = js_to_number (js_or (js_get payload ''ts'') (JNum (e_now e))),
       am_from = (if js_get payload ''from'' = JStr ''desktop'' then Desktop
                  else if js_get payload ''from'' = JStr ''mobile'' then Mobile
                  else trustedRemoteRole (o_role opts))\<rparr>"

definition handleDataMessage :: "peer_options \<Rightarrow> env \<Rightarrow> string \<Rightarrow> peer_channel \<Rightarrow> peer_channel" where
  "handleDataMessage opts e raw s =
     (case json_parse raw of
        None \<Rightarrow> emit (Logged (''ignored non-json peer payload: '' @ take 64 raw)) s
      | Some payload \<Rightarrow>
        if \<not> js_is_object payload then s
        else if isHelloEnvelope payload then handle_hello opts e payload s
        else if \<not> remoteVerified s then emit (Logged ''ignored peer payload before auth verification'') s
        else if isCapabilitiesEnvelope payload then
          let c = normalizeCapabilities payload
          in emit (CapabilitiesReceived c) (s\<lparr>remoteCapabilities := Some c\<rparr>)
        else if isAppEnvelope payload then emit (AppMessage (app_message_of opts e payload)) s
        else emit (Logged (''ignored unsupported peer payload type: '' @
          js_to_string (js_or (js_get payload ''type'') (JStr [])))) s)"
section \<open>Sending application messages\<close>

definition app_json :: "peer_options \<Rightarrow> env \<Rightarrow> string \<Rightarrow> jsval \<Rightarrow> jsval" where
  "app_json opts e type payload =
     JObj [(''type'', JStr type), (''payload'', if js_is_object payload then payload else JObj []),
       (''ts'', JNum (e_now e)), (''from'', JStr (entity_name (o_role opts)))]"

definition sendAppMessage :: "peer_options \<Rightarrow> env \<Rightarrow> string \<Rightarrow> jsval \<Rightarrow> peer_channel \<Rightarrow> peer_channel" where
  "sendAppMessage opts e type payload s =
     (case dataChannel s of
        None \<Rightarrow> emit (Rejected (PeerThrown ''peer channel is not ready'')) s
      | Some d \<Rightarrow>
        if \<not> isReady s then emit (Rejected (PeerThrown ''peer channel is not ready'')) s
        else
          let normalizedType = js_trim type in
          if \<not> isAppMessageType (JStr normalizedType)
          then emit (Rejected (PeerThrown ''app message type must start with app.'')) s
          else if \<not> supportsRemoteMessage s normalizedType
          then emit (Rejected (PeerThrown (''peer does not advertise support for '' @ normalizedType))) s
          else emit (Sent d (app_json opts e normalizedType payload)) s)"

section \<open>Signalling\<close>

definition connect :: "peer_options \<Rightarrow> peer_channel \<Rightarrow> peer_channel" where
  "connect opts s =
     (if \<not> o_webrtc opts then emit (Rejected NoWebRTC) s
      else
        let s1 = s\<lparr>closedByUser := False\<rparr> in
        if isReady s1 then s1
        else
          case ensurePeer ''initiator'' (shouldRecreateForConnect s1) s1 of (p, s2) \<Rightarrow>
          let missing = (case dataChannel s2 of None \<Rightarrow> True | Some d \<Rightarrow> isDataChannelClosed s2 d);
              s3 = (if missing
                    then (case alloc_channel ''connecting'' s2 of (d, t) \<Rightarrow> attachDataChannel d p t)
                    else s2)
          in spawn (T_offer_created p) (setState Connecting ''creating offer'' s3))"

text \<open>What follows the flush of the queued candidates, and the flush itself, one await at a time.\<close>

definition after_flush :: "nat \<Rightarrow> PairV2PeerSignalType \<Rightarrow> peer_channel \<Rightarrow> peer_channel" where
  "after_flush p type s = (if type = Webrtc_offer then spawn (T_answer_created p) s else s)"

definition flush_step :: "candidate list \<Rightarrow> nat \<Rightarrow> PairV2PeerSignalType \<Rightarrow> peer_channel \<Rightarrow> peer_channel" where
  "flush_step cs p type s =
     (case cs of
        [] \<Rightarrow> after_flush p type s
      | c # cs' \<Rightarrow>
        (case peer s of
           None \<Rightarrow> emit (Rejected (WebError ReadOfNullish)) s
         | Some q \<Rightarrow> spawn (T_flush cs' p type) (emit (CallAddIce q c) s)))"

definition flushRemoteCandidates :: "nat \<Rightarrow> PairV2PeerSignalType \<Rightarrow> peer_channel \<Rightarrow> peer_channel" where
  "flushRemoteCandidates p type s =
     (case peer s of
        None \<Rightarrow> after_flush p type s
      | Some q \<Rightarrow>
        if rp_remote (rtc_peers s q) = None \<or> pendingRemoteCandidates s = [] then after_flush p type s
        else flush_step (pendingRemoteCandidates s) p type (s\<lparr>pendingRemoteCandidates := []\<rparr>))"

definition handle_offer :: "peer_options \<Rightarrow> jsval \<Rightarrow> peer_channel \<Rightarrow> peer_channel" where
  "handle_offer opts payload s =
     (let s1 = s\<lparr>closedByUser := False\<rparr> in
      case normalizeDescription (js_get payload ''description'') ''offer'' of
        Inl err \<Rightarrow> emit (Rejected err) s1
      | Inr d \<Rightarrow>
        if \<not> o_webrtc opts then emit (Rejected NoWebRTC) s1
        else
          case ensurePeer ''answerer'' (shouldRecreateForOffer d s1) s1 of (p, s2) \<Rightarrow>
          let s3 = setState Connecting ''received offer'' s2 in
          if hasSameDescription (rp_remote (rtc_peers s3 p)) d
          then (case rp_local (rtc_peers s3 p) of
                  Some l \<Rightarrow>
                    if d_type l = ''answer'' \<and> d_sdp l \<noteq> []
                    then spawn T_last (emit (SignalDescription Webrtc_answer (o_bindingId opts) l) s3)
                    else flushRemoteCandidates p Webrtc_offer s3
                | None \<Rightarrow> flushRemoteCandidates p Webrtc_offer s3)
          else spawn (T_remote_set p d Webrtc_offer) (emit (CallSetRemote p d) s3))"

definition handle_answer :: "peer_options \<Rightarrow> jsval \<Rightarrow> peer_channel \<Rightarrow> peer_channel" where
  "handle_answer opts payload s =
     (if \<not> o_webrtc opts then emit (Rejected NoWebRTC) s
      else case ensurePeer ''initiator'' False s of (p, s1) \<Rightarrow>
        (case normalizeDescription (js_get payload ''description'') ''answer'' of
           Inl err \<Rightarrow> emit (Rejected err) s1
         | Inr d \<Rightarrow> spawn (T_remote_set p d Webrtc_answer) (emit (CallSetRemote p d) s1)))"

definition handle_ice :: "peer_options \<Rightarrow> jsval \<Rightarrow> peer_channel \<Rightarrow> peer_channel" where
  "handle_ice opts payload s =
     (case normalizeCandidate (js_get payload ''candidate'') of
        None \<Rightarrow> s
      | Some c \<Rightarrow>
        if \<not> o_webrtc opts then emit (Rejected NoWebRTC) s
        else case ensurePeer ''answerer'' False s of (p, s1) \<Rightarrow>
          if rp_remote (rtc_peers s1 p) \<noteq> None then spawn T_last (emit (CallAddIce p c) s1)
          else s1\<lparr>pendingRemoteCandidates := pendingRemoteCandidates s1 @ [c]\<rparr>)"

definition handleSignalInternal ::
  "peer_options \<Rightarrow> PairV2PeerSignalType \<Rightarrow> jsval \<Rightarrow> peer_channel \<Rightarrow> peer_channel" where
  "handleSignalInternal opts type payload s =
     (case type of
        Webrtc_offer \<Rightarrow> handle_offer opts payload s
      | Webrtc_answer \<Rightarrow> handle_answer opts payload s
      | Webrtc_ice \<Rightarrow> handle_ice opts payload s)"

text \<open>
  \<open>handleSignal\<close> chains its task after the previous ones: it is queued, and starts when no signal
  task is suspended any more. An error of a task rejects its own promise and not the chain.
\<close>

definition handleSignal :: "PairV2PeerSignalType \<Rightarrow> jsval \<Rightarrow> peer_channel \<Rightarrow> peer_channel" where
  "handleSignal type payload s = s\<lparr>signalChain := signalChain s @ [(type, payload)]\<rparr>"

fun signal_task :: "peer_task \<Rightarrow> bool" where
  "signal_task (T_remote_set p d ty) = True"
| "signal_task (T_flush cs p ty) = True"
| "signal_task (T_answer_created p) = True"
| "signal_task (T_answer_local p a) = True"
| "signal_task T_last = True"
| "signal_task t = False"

definition next_signal :: "peer_options \<Rightarrow> peer_channel \<Rightarrow> peer_channel" where
  "next_signal opts s =
     (if list_ex signal_task (tasks s) then s
      else case signalChain s of
        [] \<Rightarrow> s
      | (type, payload) # rest \<Rightarrow>
        let s1 = s\<lparr>signalChain := rest\<rparr> in
        if js_text (js_get payload ''bindingId'') \<noteq> o_bindingId opts then s1
        else handleSignalInternal opts type payload s1)"

fun state_name :: "PairV2PeerState \<Rightarrow> string" where
  "state_name Idle = ''idle''"
| "state_name Connecting = ''connecting''"
| "state_name ChannelOpen = ''channel-open''"
| "state_name Verifying = ''verifying''"
| "state_name Connected = ''connected''"
| "state_name Disconnected = ''disconnected''"
| "state_name Failed = ''failed''"

definition close :: "peer_channel \<Rightarrow> peer_channel" where
  "close s =
     disposePeer ''closed by user'' Disconnected
       ((emit (Logged (''close() called state='' @ state_name (cstate s))) s)\<lparr>closedByUser := True\<rparr>)"

section \<open>Events of the browser\<close>

definition or_dash :: "string \<Rightarrow> string" where
  "or_dash s = (if js_trim s = [] then ''-'' else js_trim s)"

definition on_connection_state :: "nat \<Rightarrow> string \<Rightarrow> peer_channel \<Rightarrow> peer_channel" where
  "on_connection_state p st s =
     (let s0 = update_peer p (\<lambda>r. r\<lparr>rp_connection := st\<rparr>) s in
      if \<not> rp_handlers (rtc_peers s p) then s0
      else if peer s0 \<noteq> Some p then emit (Logged (''ignored stale peer state: '' @ or_dash st)) s0
      else
        let current = js_trim st;
            s1 = emit (Logged (''peer connection state='' @ or_dash st @ '' ice='' @
                   or_dash (rp_ice (rtc_peers s0 p)))) s0;
            s2 = (if current = ''connected'' then spawn (T_stats ''connectionstatechange'') s1 else s1)
        in if current = ''failed'' then disposePeer ''peer connection failed'' Failed s2
           else if current = ''closed'' then disposePeer ''peer connection closed'' Disconnected s2
           else if current = ''disconnected'' then setState Disconnected ''peer connection disconnected'' s2
           else s2)"

definition on_ice_state :: "nat \<Rightarrow> string \<Rightarrow> peer_channel \<Rightarrow> peer_channel" where
  "on_ice_state p st s =
     (let s0 = update_peer p (\<lambda>r. r\<lparr>rp_ice := st\<rparr>) s in
      if \<not> rp_handlers (rtc_peers s p) \<or> peer s0 \<noteq> Some p then s0
      else
        let current = js_trim st;
            s1 = emit (Logged (''ice connection state='' @ or_dash st)) s0;
            s2 = (if current \<in> {''connected'', ''completed''} then spawn (T_stats (''ice-'' @ js_lower current)) s1 else s1)
        in if current = ''failed'' then disposePeer ''ice failed'' Failed s2 else s2)"

definition on_ice_candidate :: "peer_options \<Rightarrow> nat \<Rightarrow> jsval \<Rightarrow> peer_channel \<Rightarrow> peer_channel" where
  "on_ice_candidate opts p v s =
     (if \<not> rp_handlers (rtc_peers s p) then s
      else case normalizeCandidate v of
        None \<Rightarrow> s
      | Some c \<Rightarrow> emit (SignalCandidate (o_bindingId opts) c) s)"

definition on_data_channel :: "nat \<Rightarrow> string \<Rightarrow> peer_channel \<Rightarrow> peer_channel" where
  "on_data_channel p rs s =
     (if \<not> rp_handlers (rtc_peers s p) then s
      else case alloc_channel rs s of (d, t) \<Rightarrow> attachDataChannel d p t)"

definition set_ready :: "nat \<Rightarrow> string \<Rightarrow> peer_channel \<Rightarrow> peer_channel" where
  "set_ready d rs s = s\<lparr>ready_state := (ready_state s)(d := rs)\<rparr>"

definition on_channel_open :: "peer_options \<Rightarrow> env \<Rightarrow> nat \<Rightarrow> peer_channel \<Rightarrow> peer_channel" where
  "on_channel_open opts e d s0 =
     (let s = set_ready d ''open'' s0 in
      case channel_owner s d of
        None \<Rightarrow> s
      | Some ownerPeer \<Rightarrow>
        if \<not> isCurrentDataChannel d ownerPeer s then emit (Logged ''ignored stale data channel open'') s
        else sendHello opts OnOpen e
               (spawn (T_stats ''data-channel-open'') (setState ChannelOpen ''data channel open'' s)))"

definition on_channel_close :: "nat \<Rightarrow> peer_channel \<Rightarrow> peer_channel" where
  "on_channel_close d s0 =
     (let s = set_ready d ''closed'' s0 in
      case channel_owner s d of
        None \<Rightarrow> s
      | Some ownerPeer \<Rightarrow>
        if \<not> isCurrentDataChannel d ownerPeer s then emit (Logged ''ignored stale data channel close'') s
        else
          let s1 = s\<lparr>dataChannel := None\<rparr> in
          if \<not> closedByUser s1 \<and> peer s1 = Some ownerPeer
          then disposePeer ''data channel closed'' Disconnected s1 else s1)"

definition on_channel_error :: "nat \<Rightarrow> peer_channel \<Rightarrow> peer_channel" where
  "on_channel_error d s =
     (case channel_owner s d of
        None \<Rightarrow> s
      | Some ownerPeer \<Rightarrow>
        if \<not> isCurrentDataChannel d ownerPeer s then emit (Logged ''ignored stale data channel error'') s
        else
          let s1 = s\<lparr>dataChannel := None\<rparr> in
          if peer s1 = Some ownerPeer then disposePeer ''data channel error'' Failed s1 else s1)"

definition on_channel_message :: "peer_options \<Rightarrow> env \<Rightarrow> nat \<Rightarrow> string \<Rightarrow> peer_channel \<Rightarrow> peer_channel" where
  "on_channel_message opts e d raw s =
     (case channel_owner s d of
        None \<Rightarrow> s
      | Some ownerPeer \<Rightarrow>
        if \<not> isCurrentDataChannel d ownerPeer s then emit (Logged ''ignored stale data channel message'') s
        else handleDataMessage opts e raw s)"

section \<open>Resuming a suspended operation\<close>

text \<open>
  What the browser answers: a description (the one created, or the local description it holds
  after \<open>setLocalDescription\<close>), the entries of a statistics report, success, or a rejection.
\<close>

datatype reply = R_ok | R_description "description option" | R_stats "jsval list" | R_error string

fun resume :: "peer_options \<Rightarrow> peer_task \<Rightarrow> reply \<Rightarrow> peer_channel \<Rightarrow> peer_channel option" where
  "resume opts (T_offer_created p) (R_description (Some offer)) s = Some (spawn (T_offer_local p offer) s)"
| "resume opts (T_offer_local p offer) (R_description d) s =
     Some (emit (SignalDescription Webrtc_offer (o_bindingId opts) (case d of Some l \<Rightarrow> l | None \<Rightarrow> offer))
       (update_peer p (\<lambda>r. r\<lparr>rp_local := d\<rparr>) s))"
| "resume opts (T_remote_set p d type) R_ok s =
     Some (flushRemoteCandidates p type (update_peer p (\<lambda>r. r\<lparr>rp_remote := Some d\<rparr>) s))"
| "resume opts (T_flush cs p type) R_ok s = Some (flush_step cs p type s)"
| "resume opts (T_answer_created p) (R_description (Some answer)) s = Some (spawn (T_answer_local p answer) s)"
| "resume opts (T_answer_local p answer) (R_description d) s =
     Some (spawn T_last
       (emit (SignalDescription Webrtc_answer (o_bindingId opts) (case d of Some l \<Rightarrow> l | None \<Rightarrow> answer))
         (update_peer p (\<lambda>r. r\<lparr>rp_local := d\<rparr>) s)))"
| "resume opts (T_hello_sign src nonce) R_ok s = Some (hello_signed opts src nonce s)"
| "resume opts (T_stats reason) (R_stats report) s = Some (emit (Logged (candidate_pair_line reason report)) s)"
| "resume opts (T_stats reason) (R_error msg) s =
     Some (emit (LoggedError (''candidate pair stats failed ('' @ reason @ ''): '') (PeerThrown msg)) s)"
| "resume opts T_last R_ok s = Some s"
| "resume opts (T_hello_sign src nonce) (R_error msg) s = None"
| "resume opts t (R_error msg) s = Some (emit (Rejected (PeerThrown msg)) s)"
| "resume opts t r s = None"

datatype peer_event =
    Ev_connect
  | Ev_signal PairV2PeerSignalType jsval
  | Ev_next_signal
  | Ev_close
  | Ev_send env string jsval
  | Ev_resume nat reply
  | Ev_connection_state nat string
  | Ev_ice_state nat string
  | Ev_ice_candidate nat jsval
  | Ev_data_channel nat string
  | Ev_open env nat
  | Ev_channel_close nat
  | Ev_channel_error nat
  | Ev_message env nat string
  | Ev_ready nat string

definition resume_task :: "peer_options \<Rightarrow> nat \<Rightarrow> reply \<Rightarrow> peer_channel \<Rightarrow> peer_channel" where
  "resume_task opts i r s =
     (if i < length (tasks s)
      then (case resume opts (tasks s ! i) r (s\<lparr>tasks := take i (tasks s) @ drop (Suc i) (tasks s)\<rparr>) of
              Some s' \<Rightarrow> s' | None \<Rightarrow> s)
      else s)"

fun peer_step :: "peer_options \<Rightarrow> peer_event \<Rightarrow> peer_channel \<Rightarrow> peer_channel" where
  "peer_step opts Ev_connect s = connect opts s"
| "peer_step opts (Ev_signal type payload) s = handleSignal type payload s"
| "peer_step opts Ev_next_signal s = next_signal opts s"
| "peer_step opts Ev_close s = close s"
| "peer_step opts (Ev_send e type payload) s = sendAppMessage opts e type payload s"
| "peer_step opts (Ev_resume i r) s = resume_task opts i r s"
| "peer_step opts (Ev_connection_state p st) s = on_connection_state p st s"
| "peer_step opts (Ev_ice_state p st) s = on_ice_state p st s"
| "peer_step opts (Ev_ice_candidate p v) s = on_ice_candidate opts p v s"
| "peer_step opts (Ev_data_channel p rs) s = on_data_channel p rs s"
| "peer_step opts (Ev_open e d) s = on_channel_open opts e d s"
| "peer_step opts (Ev_channel_close d) s = on_channel_close d s"
| "peer_step opts (Ev_channel_error d) s = on_channel_error d s"
| "peer_step opts (Ev_message e d raw) s = on_channel_message opts e d raw s"
| "peer_step opts (Ev_ready d rs) s = set_ready d rs s"

text \<open>The runs of a channel, with the events that led to a state, the latest last.\<close>

inductive peer_run :: "peer_options \<Rightarrow> peer_event list \<Rightarrow> peer_channel \<Rightarrow> bool" for opts where
  run_start: "peer_run opts [] new_channel"
| run_step: "peer_run opts evs s \<Longrightarrow> peer_run opts (evs @ [ev]) (peer_step opts ev s)"
section \<open>The invariant\<close>

text \<open>A message that proves the identity of the peer: it names the trusted binding, role, id and key,
  and its signature verifies under the trusted key.\<close>

definition trusted_hello :: "peer_options \<Rightarrow> string \<Rightarrow> bool" where
  "trusted_hello opts raw =
     (case json_parse raw of
        None \<Rightarrow> False
      | Some v \<Rightarrow> isHelloEnvelope v \<and> hello_matches opts v \<and> verify_hello opts v = Inr True)"

definition hello_received :: "peer_options \<Rightarrow> peer_event list \<Rightarrow> bool" where
  "hello_received opts evs = (\<exists>e d raw. Ev_message e d raw \<in> set evs \<and> trusted_hello opts raw)"

text \<open>Effects that only an authenticated peer may cause: deliveries to the application, and every
  message sent except our own hello.\<close>

fun needs_auth :: "effect \<Rightarrow> bool" where
  "needs_auth (CapabilitiesReceived c) = True"
| "needs_auth (AppMessage m) = True"
| "needs_auth (Sent d v) = (js_get v ''type'' \<noteq> JStr pairV2PeerHelloType)"
| "needs_auth x = False"

definition hello_on :: "peer_options \<Rightarrow> peer_event list \<Rightarrow> (nat \<Rightarrow> nat option) \<Rightarrow> nat \<Rightarrow> bool" where
  "hello_on opts evs hs p = (\<exists>e d raw. Ev_message e d raw \<in> set evs \<and> hs d = Some p \<and> trusted_hello opts raw)"

definition ids_ok :: "peer_channel \<Rightarrow> bool" where
  "ids_ok s =
     ((\<forall>p. peer s = Some p \<longrightarrow> p < next_id s) \<and>
      (\<forall>d p. channel_owner s d = Some p \<longrightarrow> d < next_id s) \<and>
      (\<forall>d. dataChannel s = Some d \<longrightarrow> (\<exists>p. peer s = Some p \<and> channel_owner s d = Some p)) \<and>
      (\<forall>p. rp_handlers (rtc_peers s p) \<longrightarrow> peer s = Some p))"

definition peer_inv :: "peer_options \<Rightarrow> peer_event list \<Rightarrow> peer_channel \<Rightarrow> bool" where
  "peer_inv opts evs s =
     (ids_ok s \<and>
      (remoteVerified s \<longrightarrow> (\<exists>p. peer s = Some p \<and> hello_on opts evs (channel_owner s) p)) \<and>
      (\<forall>x \<in> set (out s). needs_auth x \<longrightarrow> hello_received opts evs))"

named_theorems peer_frame \<open>what an operation that touches no field of the invariant leaves alone\<close>

lemma hello_on_received: "hello_on opts evs hs p \<Longrightarrow> hello_received opts evs"
  by (auto simp: hello_on_def hello_received_def)

lemma hello_on_fresh: "hello_on opts evs hs p \<Longrightarrow> hs d = None \<Longrightarrow> hello_on opts evs (hs(d := x)) p"
proof -
  assume h: "hello_on opts evs hs p" "hs d = None"
  then obtain e d' raw where "Ev_message e d' raw \<in> set evs" "hs d' = Some p" "trusted_hello opts raw" "d' \<noteq> d"
    unfolding hello_on_def by force
  then show ?thesis unfolding hello_on_def by (intro exI [of _ e] exI [of _ d'] exI [of _ raw]) simp
qed

lemma peer_inv_verified: "peer_inv opts evs s \<Longrightarrow> remoteVerified s \<Longrightarrow> hello_received opts evs"
  by (auto simp: peer_inv_def intro: hello_on_received)

lemma peer_inv_mono: "peer_inv opts evs s \<Longrightarrow> peer_inv opts (evs @ [ev]) s"
  unfolding peer_inv_def hello_on_def hello_received_def by auto

lemma peer_inv_frame [peer_frame]:
  "peer_inv opts evs (s\<lparr>cstate := a\<rparr>) = peer_inv opts evs s"
  "peer_inv opts evs (s\<lparr>signalChain := b\<rparr>) = peer_inv opts evs s"
  "peer_inv opts evs (s\<lparr>pendingRemoteCandidates := c\<rparr>) = peer_inv opts evs s"
  "peer_inv opts evs (s\<lparr>helloSent := f\<rparr>) = peer_inv opts evs s"
  "peer_inv opts evs (s\<lparr>capabilitiesSent := f\<rparr>) = peer_inv opts evs s"
  "peer_inv opts evs (s\<lparr>remoteCapabilities := g\<rparr>) = peer_inv opts evs s"
  "peer_inv opts evs (s\<lparr>closedByUser := f\<rparr>) = peer_inv opts evs s"
  "peer_inv opts evs (s\<lparr>ready_state := h\<rparr>) = peer_inv opts evs s"
  "peer_inv opts evs (s\<lparr>tasks := t\<rparr>) = peer_inv opts evs s"
  by (simp_all add: peer_inv_def ids_ok_def)

lemma peer_inv_spawn [peer_frame]: "peer_inv opts evs (spawn t s) = peer_inv opts evs s"
  by (simp add: spawn_def peer_frame)

lemma peer_inv_emit [peer_frame]:
  "peer_inv opts evs (emit x s) \<longleftrightarrow> peer_inv opts evs s \<and> (needs_auth x \<longrightarrow> hello_received opts evs)"
  by (auto simp: emit_def peer_inv_def ids_ok_def)

lemma peer_inv_setState [peer_frame]: "peer_inv opts evs (setState st detail s) = peer_inv opts evs s"
  by (simp add: setState_def peer_frame)

lemma peer_inv_set_ready [peer_frame]: "peer_inv opts evs (set_ready d rs s) = peer_inv opts evs s"
  by (simp add: set_ready_def peer_frame)

lemma peer_inv_update_peer [peer_frame]:
  assumes "\<And>r. rp_handlers (f r) = rp_handlers r"
  shows "peer_inv opts evs (update_peer p f s) = peer_inv opts evs s"
  using assms by (auto simp: update_peer_def peer_inv_def ids_ok_def split: if_splits)

lemma rtc_frame [simp]:
  "peer (emit x s) = peer s" "dataChannel (emit x s) = dataChannel s" "channel_owner (emit x s) = channel_owner s"
  "rtc_peers (emit x s) = rtc_peers s" "remoteVerified (emit x s) = remoteVerified s" "ready_state (emit x s) = ready_state s"
  "helloSent (emit x s) = helloSent s" "closedByUser (emit x s) = closedByUser s" "capabilitiesSent (emit x s) = capabilitiesSent s"
  "next_id (emit x s) = next_id s" "cstate (emit x s) = cstate s" "pendingRemoteCandidates (emit x s) = pendingRemoteCandidates s"
  "tasks (emit x s) = tasks s" "out (emit x s) = out s @ [x]" "remoteCapabilities (emit x s) = remoteCapabilities s"
  by (simp_all add: emit_def)

lemma spawn_frame [simp]:
  "peer (spawn t s) = peer s" "dataChannel (spawn t s) = dataChannel s" "channel_owner (spawn t s) = channel_owner s"
  "rtc_peers (spawn t s) = rtc_peers s" "remoteVerified (spawn t s) = remoteVerified s" "ready_state (spawn t s) = ready_state s"
  "helloSent (spawn t s) = helloSent s" "cstate (spawn t s) = cstate s" "out (spawn t s) = out s"
  "tasks (spawn t s) = tasks s @ [t]" "pendingRemoteCandidates (spawn t s) = pendingRemoteCandidates s"
  "remoteCapabilities (spawn t s) = remoteCapabilities s" "closedByUser (spawn t s) = closedByUser s"
  "next_id (spawn t s) = next_id s"
  by (simp_all add: spawn_def)

lemma setState_frame [simp]:
  "peer (setState st detail s) = peer s" "dataChannel (setState st detail s) = dataChannel s"
  "channel_owner (setState st detail s) = channel_owner s" "rtc_peers (setState st detail s) = rtc_peers s"
  "remoteVerified (setState st detail s) = remoteVerified s" "ready_state (setState st detail s) = ready_state s"
  "helloSent (setState st detail s) = helloSent s" "cstate (setState st detail s) = st"
  "out (setState st detail s) = out s @ [StateChanged st detail]" "tasks (setState st detail s) = tasks s"
  "pendingRemoteCandidates (setState st detail s) = pendingRemoteCandidates s"
  "remoteCapabilities (setState st detail s) = remoteCapabilities s" "closedByUser (setState st detail s) = closedByUser s"
  "next_id (setState st detail s) = next_id s"
  by (simp_all add: setState_def)

text \<open>Disposal and creation establish the invariant from what a disposed channel keeps.\<close>

definition inv_but_channel :: "peer_options \<Rightarrow> peer_event list \<Rightarrow> peer_channel \<Rightarrow> bool" where
  "inv_but_channel opts evs s = peer_inv opts evs (s\<lparr>dataChannel := None\<rparr>)"

lemma peer_inv_no_channel: "peer_inv opts evs s \<Longrightarrow> peer_inv opts evs (s\<lparr>dataChannel := None\<rparr>)"
  by (auto simp: peer_inv_def ids_ok_def)

lemma disposePeer_inv: "peer_inv opts evs s \<Longrightarrow> peer_inv opts evs (disposePeer detail st s)"
  unfolding disposePeer_def peer_frame
  by (auto simp: peer_inv_def ids_ok_def close_peer_def close_data_channel_def update_peer_def split: option.splits)

lemma disposePeer_fields [simp]:
  "peer (disposePeer detail st s) = None" "dataChannel (disposePeer detail st s) = None"
  "remoteVerified (disposePeer detail st s) = False" "cstate (disposePeer detail st s) = st"
  "closedByUser (disposePeer detail st s) = closedByUser s"
  by (auto simp: disposePeer_def close_peer_def close_data_channel_def update_peer_def split: option.splits)

lemma create_peer_inv:
  "peer_inv opts evs s \<Longrightarrow> peer s = None \<Longrightarrow> peer_inv opts evs (snd (create_peer role s))"
  by (auto simp: create_peer_def Let_def peer_frame peer_inv_def ids_ok_def fresh_peer_def less_Suc_eq)

lemma ensurePeer_inv: "peer_inv opts evs s \<Longrightarrow> peer_inv opts evs (snd (ensurePeer role f s))"
  unfolding ensurePeer_def Let_def by (auto split: option.split intro: create_peer_inv disposePeer_inv)

lemma ensurePeer_peer: "peer (snd (ensurePeer role f s)) = Some (fst (ensurePeer role f s))"
  by (auto simp: ensurePeer_def create_peer_def Let_def split: option.split)

lemma ensurePeer_closedByUser [simp]: "closedByUser (snd (ensurePeer role f s)) = closedByUser s"
  by (auto simp: ensurePeer_def create_peer_def Let_def split: option.split)

lemma attach_alloc_inv:
  assumes "peer_inv opts evs s" "peer s = Some p"
  shows "peer_inv opts evs (attachDataChannel (next_id s) p (snd (alloc_channel rs s)))"
proof -
  have "channel_owner s (next_id s) = None" using assms(1) by (auto simp: peer_inv_def ids_ok_def)
  then show ?thesis using assms
    by (auto simp: attachDataChannel_def alloc_channel_def Let_def peer_inv_def ids_ok_def less_Suc_eq
        intro: hello_on_fresh split: option.split)
qed

section \<open>Every step keeps the invariant\<close>

lemma sendCapabilities_inv: "peer_inv opts evs s \<Longrightarrow> peer_inv opts evs (sendCapabilitiesIfReady opts s)"
  using peer_inv_verified [of opts evs s]
  by (auto simp: sendCapabilitiesIfReady_def peer_frame split: option.split)

lemma finish_hello_inv: "peer_inv opts evs s \<Longrightarrow> peer_inv opts evs (finish_hello opts s)"
  by (simp add: finish_hello_def sendCapabilities_inv peer_frame)

lemma sendHello_inv: "peer_inv opts evs s \<Longrightarrow> peer_inv opts evs (sendHello opts src e s)"
  by (auto simp: sendHello_def peer_frame finish_hello_inv split: hello_source.split)

lemma hello_failed_inv: "peer_inv opts evs s \<Longrightarrow> peer_inv opts evs (hello_failed src err s)"
  by (auto simp: hello_failed_def peer_frame split: hello_source.split)

lemma hello_json_type: "js_get (hello_json opts nonce sig) ''type'' = JStr pairV2PeerHelloType"
  by (simp add: hello_json_def)

lemma hello_signed_inv: "peer_inv opts evs s \<Longrightarrow> peer_inv opts evs (hello_signed opts src nonce s)"
  unfolding hello_signed_def Let_def
  by (auto simp: peer_frame hello_json_type intro!: finish_hello_inv hello_failed_inv
      split: sum.split option.split hello_source.split)

lemma handle_hello_inv:
  assumes "peer_inv opts evs s" "peer s = Some p"
    and "hello_matches opts v \<Longrightarrow> verify_hello opts v = Inr True \<Longrightarrow> hello_on opts evs (channel_owner s) p"
  shows "peer_inv opts evs (handle_hello opts e v s)"
proof -
  have "peer_inv opts evs (s\<lparr>remoteVerified := True\<rparr>)" if "hello_matches opts v" "verify_hello opts v = Inr True"
    using assms(1,2) assms(3) [OF that] by (auto simp: peer_inv_def ids_ok_def)
  then show ?thesis using assms(1)
    unfolding handle_hello_def Let_def
    by (auto simp: peer_frame intro!: finish_hello_inv sendHello_inv split: sum.split bool.split)
qed

lemma handleDataMessage_inv:
  assumes "peer_inv opts evs s" "peer s = Some p"
    and "trusted_hello opts raw \<Longrightarrow> hello_on opts evs (channel_owner s) p"
  shows "peer_inv opts evs (handleDataMessage opts e raw s)"
proof (cases "json_parse raw")
  case (Some v)
  have h: "peer_inv opts evs (handle_hello opts e v s)" if "isHelloEnvelope v"
    using assms Some that by (intro handle_hello_inv) (auto simp: trusted_hello_def)
  have "remoteVerified s \<Longrightarrow> hello_received opts evs" using assms(1) by (rule peer_inv_verified)
  with h assms(1) Some show ?thesis by (simp add: handleDataMessage_def Let_def peer_frame)
qed (use assms in \<open>simp add: handleDataMessage_def peer_frame\<close>)

lemma after_flush_inv: "peer_inv opts evs s \<Longrightarrow> peer_inv opts evs (after_flush p ty s)"
  by (simp add: after_flush_def peer_frame)

lemma flush_step_inv: "peer_inv opts evs s \<Longrightarrow> peer_inv opts evs (flush_step cs p ty s)"
  by (auto simp: flush_step_def peer_frame after_flush_inv split: list.split option.split)

lemma flush_inv: "peer_inv opts evs s \<Longrightarrow> peer_inv opts evs (flushRemoteCandidates p ty s)"
  by (auto simp: flushRemoteCandidates_def peer_frame after_flush_inv flush_step_inv split: option.split)
lemma ensurePeer_inv': "peer_inv opts evs s \<Longrightarrow> ensurePeer role f s = (p, t) \<Longrightarrow> peer_inv opts evs t \<and> peer t = Some p"
  using ensurePeer_inv [of opts evs s role f] ensurePeer_peer [of role f s] by simp

lemma alloc_channel_fst: "alloc_channel rs s = (d, t) \<Longrightarrow> d = next_id s \<and> t = snd (alloc_channel rs s)"
  by auto (simp_all add: alloc_channel_def)

lemma connect_inv: "peer_inv opts evs s \<Longrightarrow> peer_inv opts evs (connect opts s)"
  unfolding connect_def Let_def
  by (auto simp: peer_frame split: prod.split option.split dest!: alloc_channel_fst
      dest: ensurePeer_inv' [rotated] intro!: attach_alloc_inv)

lemma handle_offer_inv: "peer_inv opts evs s \<Longrightarrow> peer_inv opts evs (handle_offer opts payload s)"
  unfolding handle_offer_def Let_def
  by (auto simp: peer_frame intro!: flush_inv split: sum.split prod.split option.split)
    (auto simp: peer_frame dest!: ensurePeer_inv' [rotated])

lemma handle_answer_inv: "peer_inv opts evs s \<Longrightarrow> peer_inv opts evs (handle_answer opts payload s)"
  unfolding handle_answer_def Let_def
  by (auto simp: peer_frame split: sum.split prod.split) (auto dest!: ensurePeer_inv' [rotated])

lemma handle_ice_inv: "peer_inv opts evs s \<Longrightarrow> peer_inv opts evs (handle_ice opts payload s)"
  unfolding handle_ice_def Let_def
  by (auto simp: peer_frame split: option.split prod.split) (auto dest!: ensurePeer_inv' [rotated])

lemma next_signal_inv: "peer_inv opts evs s \<Longrightarrow> peer_inv opts evs (next_signal opts s)"
  unfolding next_signal_def handleSignalInternal_def Let_def
  by (auto simp: peer_frame intro!: handle_offer_inv handle_answer_inv handle_ice_inv
      split: list.split PairV2PeerSignalType.split)

lemma sendAppMessage_inv: "peer_inv opts evs s \<Longrightarrow> peer_inv opts evs (sendAppMessage opts e ty payload s)"
  using peer_inv_verified [of opts evs s]
  unfolding sendAppMessage_def Let_def isReady_def
  by (auto simp: peer_frame split: option.split)

lemma resume_inv:
  assumes "peer_inv opts evs s" "resume opts t r s = Some s'"
  shows "peer_inv opts evs s'"
  using assms by (cases "(opts, t, r, s)" rule: resume.cases)
    (auto simp: peer_frame intro!: flush_inv flush_step_inv hello_signed_inv)

lemma resume_task_inv: "peer_inv opts evs s \<Longrightarrow> peer_inv opts evs (resume_task opts i r s)"
  unfolding resume_task_def
  by (auto split: option.split elim!: resume_inv [rotated]) (simp add: peer_frame)

lemma on_connection_state_inv: "peer_inv opts evs s \<Longrightarrow> peer_inv opts evs (on_connection_state p st s)"
  unfolding on_connection_state_def Let_def
  by (auto simp: peer_frame intro!: disposePeer_inv)

lemma on_ice_state_inv: "peer_inv opts evs s \<Longrightarrow> peer_inv opts evs (on_ice_state p st s)"
  unfolding on_ice_state_def Let_def
  by (auto simp: peer_frame intro!: disposePeer_inv)

lemma on_data_channel_inv: "peer_inv opts evs s \<Longrightarrow> peer_inv opts evs (on_data_channel p rs s)"
proof -
  assume i: "peer_inv opts evs s"
  then have "rp_handlers (rtc_peers s p) \<Longrightarrow> peer s = Some p" by (simp add: peer_inv_def ids_ok_def)
  with i show ?thesis
    by (auto simp: on_data_channel_def dest!: alloc_channel_fst intro!: attach_alloc_inv split: prod.split)
qed

lemma on_channel_open_inv: "peer_inv opts evs s \<Longrightarrow> peer_inv opts evs (on_channel_open opts e d s)"
  unfolding on_channel_open_def Let_def
  by (auto simp: peer_frame intro!: sendHello_inv split: option.split)

lemma closed_no_channel:
  "peer_inv opts evs s \<Longrightarrow> peer_inv opts evs (disposePeer detail st (s\<lparr>dataChannel := None\<rparr>))"
  by (intro disposePeer_inv peer_inv_no_channel)

lemma on_channel_close_inv: "peer_inv opts evs s \<Longrightarrow> peer_inv opts evs (on_channel_close d s)"
  unfolding on_channel_close_def Let_def
  by (auto simp: peer_frame intro!: closed_no_channel peer_inv_no_channel split: option.split)

lemma on_channel_error_inv: "peer_inv opts evs s \<Longrightarrow> peer_inv opts evs (on_channel_error d s)"
  unfolding on_channel_error_def Let_def
  by (auto simp: peer_frame intro!: closed_no_channel peer_inv_no_channel split: option.split)

lemma on_channel_message_inv:
  assumes "peer_inv opts evs s"
  shows "peer_inv opts (evs @ [Ev_message e d raw]) (on_channel_message opts e d raw s)"
proof (cases "channel_owner s d")
  case (Some p)
  have i: "peer_inv opts (evs @ [Ev_message e d raw]) s" using assms by (rule peer_inv_mono)
  have "hello_on opts (evs @ [Ev_message e d raw]) (channel_owner s) p" if "trusted_hello opts raw"
    using Some that unfolding hello_on_def
    by (intro exI [of _ e] exI [of _ d] exI [of _ raw]) simp
  with i Some show ?thesis
    by (auto simp: on_channel_message_def peer_frame isCurrentDataChannel_def intro!: handleDataMessage_inv)
qed (use assms in \<open>simp add: on_channel_message_def peer_inv_mono\<close>)

lemma close_inv: "peer_inv opts evs s \<Longrightarrow> peer_inv opts evs (close s)"
  unfolding close_def by (intro disposePeer_inv) (simp add: peer_frame)

lemmas handler_inv = connect_inv next_signal_inv close_inv sendAppMessage_inv resume_task_inv
  on_connection_state_inv on_ice_state_inv on_data_channel_inv on_channel_open_inv
  on_channel_close_inv on_channel_error_inv

lemma peer_step_inv: "peer_inv opts evs s \<Longrightarrow> peer_inv opts (evs @ [ev]) (peer_step opts ev s)"
proof (cases ev)
  case (Ev_message e d raw)
  assume "peer_inv opts evs s"
  then show ?thesis by (simp add: Ev_message on_channel_message_inv)
qed (auto simp: handleSignal_def peer_frame on_ice_candidate_def intro!: peer_inv_mono handler_inv split: option.split)

lemma new_channel_inv: "peer_inv opts [] new_channel"
  by (simp add: peer_inv_def ids_ok_def new_channel_def fresh_peer_def)

lemma peer_run_inv: "peer_run opts evs s \<Longrightarrow> peer_inv opts evs s"
  by (induction rule: peer_run.induct) (auto intro: new_channel_inv peer_step_inv)

text \<open>C1: Nothing is delivered to the application, no capabilities are taken over, no message other
  than our own hello is sent, and the channel never reports itself ready, unless a message was
  received that names the trusted binding, role, id and key and whose signature verifies under the
  trusted key. The run interleaves the suspended operations and the browser's events in any way.\<close>

theorem peer_authenticated:
  assumes "peer_run opts evs s"
    and "isReady s \<or> remoteVerified s \<or> (\<exists>x \<in> set (out s). needs_auth x)"
  shows "\<exists>e d raw. Ev_message e d raw \<in> set evs \<and> trusted_hello opts raw"
proof -
  have i: "peer_inv opts evs s" using assms(1) by (rule peer_run_inv)
  then have "remoteVerified s \<Longrightarrow> hello_received opts evs" by (rule peer_inv_verified)
  then have "hello_received opts evs" using i assms(2) by (auto simp: isReady_def peer_inv_def)
  then show ?thesis by (simp add: hello_received_def)
qed

text \<open>C14: While the channel trusts its peer, it has a peer connection, and the hello that proves the
  peer's identity came over a data channel of that very connection: recreating or disposing the
  connection forgets the trust.\<close>

theorem trust_bound_to_connection:
  assumes "peer_run opts evs s" "remoteVerified s"
  shows "\<exists>p e d raw. peer s = Some p \<and> Ev_message e d raw \<in> set evs \<and> channel_owner s d = Some p \<and> trusted_hello opts raw"
  using peer_run_inv [OF assms(1)] assms(2) by (auto simp: peer_inv_def hello_on_def)
section \<open>A run\<close>

text \<open>
  A desktop that trusts the mobile m1 on binding b1, with a signature scheme in which every
  64-byte string is a signature of everything: enough to drive a channel through its states.
\<close>

definition toy_crypto :: crypto where
  "toy_crypto =
     \<lparr>c_b64enc = (\<lambda>bs. ''sig''), c_b64dec = (\<lambda>s. Inr (replicate (if s = ''pk'' then 32 else 64) 0)),
       c_from_seed = (\<lambda>s. s), c_sign = (\<lambda>m k. k), c_verify = (\<lambda>m s k. True), c_sha256 = (\<lambda>m. []),
       c_subtle = None\<rparr>"

definition toy_options :: peer_options where
  "toy_options =
     \<lparr>o_role = Desktop, o_selfId = ''d1'', o_selfPublicKey = ''dk'', o_selfPrivateKey = ''sk'',
       o_trustedPeerId = ''m1'', o_trustedPeerPublicKey = ''pk'', o_bindingId = ''b1'',
       o_capabilities = JUndef, o_crypto = toy_crypto, o_webrtc = True\<rparr>"

definition toy_env :: env where
  "toy_env = \<lparr>e_now = Fin 7, e_uuid = Some ''n1'', e_hex = ''0.1''\<rparr>"

definition toy_hello :: string where
  "toy_hello =
     json_text (JObj [(''type'', JStr ''sys.auth.hello''), (''bindingId'', JStr ''b1''),
       (''entityType'', JStr ''mobile''), (''entityId'', JStr ''m1''), (''publicKey'', JStr ''pk''),
       (''nonce'', JStr ''n''), (''signature'', JStr ''s'')])"

definition toy_app :: string where
  "toy_app = json_text (JObj [(''type'', JStr ''app.chat'')])"

definition run_events :: "peer_options \<Rightarrow> peer_event list \<Rightarrow> peer_channel" where
  "run_events opts evs = fold (peer_step opts) evs new_channel"

lemma peer_run_events: "peer_run opts evs (run_events opts evs)"
proof (induction evs rule: rev_induct)
  case Nil
  show ?case by (simp add: run_events_def run_start)
next
  case (snoc ev evs)
  then show ?case using run_step [OF snoc.IH, of ev] by (simp add: run_events_def)
qed

definition toy_events :: "peer_event list" where
  "toy_events = [Ev_connect, Ev_open toy_env 1, Ev_message toy_env 1 toy_hello, Ev_resume 2 R_ok,
     Ev_message toy_env 1 toy_app]"

lemma toy_run: "isReady (run_events toy_options (take 4 toy_events)) \<and>
  length (filter needs_auth (out (run_events toy_options toy_events))) = 2"
  by code_simp
theorem peer_authenticated_witness:
  "\<exists>e d raw. Ev_message e d raw \<in> set (take 4 toy_events) \<and> trusted_hello toy_options raw"
proof -
  have "isReady (run_events toy_options (take 4 toy_events))" using toy_run by blast
  then show ?thesis by (intro peer_authenticated [OF peer_run_events]) blast
qed

theorem trust_bound_to_connection_witness:
  "\<exists>p e d raw. peer (run_events toy_options (take 4 toy_events)) = Some p \<and> Ev_message e d raw \<in> set (take 4 toy_events) \<and>
     channel_owner (run_events toy_options (take 4 toy_events)) d = Some p \<and> trusted_hello toy_options raw"
proof -
  have "remoteVerified (run_events toy_options (take 4 toy_events))" using toy_run by (simp add: isReady_def)
  then show ?thesis by (rule trust_bound_to_connection [OF peer_run_events])
qed

section \<open>Refinement of the abstract authentication machine\<close>

text \<open>
  Abstractly a channel is closed, open to an unknown peer, or open to its authenticated peer.
  Only a hello that proves the identity of the peer authenticates an open channel; everything
  else leaves the phase alone or gives the trust up.
\<close>

datatype auth_phase = Closed_channel | Open_channel | Authenticated_channel

inductive auth_step :: "peer_options \<Rightarrow> peer_event \<Rightarrow> auth_phase \<Rightarrow> auth_phase \<Rightarrow> bool" for opts where
  auth_keep: "auth_step opts ev a a"
| auth_drop: "b \<noteq> Authenticated_channel \<Longrightarrow> auth_step opts ev a b"
| auth_trust: "trusted_hello opts raw \<Longrightarrow> auth_step opts (Ev_message e d raw) Open_channel Authenticated_channel"

definition auth_phase_of :: "peer_channel \<Rightarrow> auth_phase" where
  "auth_phase_of s =
     (if peer s = None then Closed_channel
      else if remoteVerified s then Authenticated_channel else Open_channel)"

text \<open>Trust is not gained: the operation returns a state that trusts its peer only if it already did.\<close>

definition no_new_trust :: "peer_channel \<Rightarrow> peer_channel \<Rightarrow> bool" where
  "no_new_trust s t = (remoteVerified t \<longrightarrow> remoteVerified s)"

lemma no_new_trust_simps [simp]:
  "no_new_trust s (emit x t) = no_new_trust s t" "no_new_trust s (spawn k t) = no_new_trust s t"
  "no_new_trust s (setState st detail t) = no_new_trust s t" "no_new_trust s (set_ready d rs t) = no_new_trust s t"
  "no_new_trust s (update_peer p f t) = no_new_trust s t" "no_new_trust s (disposePeer detail st t)"
  "no_new_trust s (t\<lparr>remoteVerified := False\<rparr>)" "no_new_trust s s"
  by (simp_all add: no_new_trust_def set_ready_def update_peer_def)

lemma no_new_trust_fields [simp]:
  "no_new_trust s (t\<lparr>dataChannel := a\<rparr>) = no_new_trust s t" "no_new_trust s (t\<lparr>closedByUser := b\<rparr>) = no_new_trust s t"
  "no_new_trust s (t\<lparr>tasks := c\<rparr>) = no_new_trust s t" "no_new_trust s (t\<lparr>signalChain := k\<rparr>) = no_new_trust s t"
  "no_new_trust s (t\<lparr>pendingRemoteCandidates := cs\<rparr>) = no_new_trust s t" "no_new_trust s (t\<lparr>helloSent := b\<rparr>) = no_new_trust s t"
  "no_new_trust s (t\<lparr>capabilitiesSent := b\<rparr>) = no_new_trust s t" "no_new_trust s (t\<lparr>remoteCapabilities := g\<rparr>) = no_new_trust s t"
  by (simp_all add: no_new_trust_def)

lemma no_new_trust_left [simp]:
  "no_new_trust (s\<lparr>closedByUser := b\<rparr>) t = no_new_trust s t"
  "no_new_trust (s\<lparr>signalChain := k\<rparr>) t = no_new_trust s t"
  "no_new_trust (s\<lparr>tasks := ts\<rparr>) t = no_new_trust s t"
  by (simp_all add: no_new_trust_def)

lemma ensurePeer_trust: "ensurePeer role f s = (p, t) \<Longrightarrow> no_new_trust s t"
  by (auto simp: ensurePeer_def create_peer_def Let_def no_new_trust_def split: option.splits if_splits)

lemma no_new_trust_trans: "no_new_trust s t \<Longrightarrow> no_new_trust t u \<Longrightarrow> no_new_trust s u"
  by (simp add: no_new_trust_def)

lemma attach_trust [simp]: "no_new_trust s (attachDataChannel d p t) = no_new_trust s t"
  by (auto simp: attachDataChannel_def Let_def no_new_trust_def split: option.split)

lemma alloc_trust: "alloc_channel rs s = (d, t) \<Longrightarrow> no_new_trust s t"
  by (auto simp: alloc_channel_def no_new_trust_def)

lemma finish_hello_trust [simp]: "no_new_trust s (finish_hello opts t) = no_new_trust s t"
  by (auto simp: finish_hello_def sendCapabilitiesIfReady_def split: option.split)

lemma sendHello_trust [simp]: "no_new_trust s (sendHello opts src e t) = no_new_trust s t"
  by (auto simp: sendHello_def split: hello_source.split)

lemma hello_signed_trust [simp]: "no_new_trust s (hello_signed opts src nonce s)"
  by (auto simp: hello_signed_def Let_def hello_failed_def split: sum.split option.split hello_source.split)

lemma flush_trust [simp]:
  "no_new_trust s (after_flush p ty t) = no_new_trust s t"
  "no_new_trust s (flush_step cs p ty t) = no_new_trust s t"
  "no_new_trust s (flushRemoteCandidates p ty t) = no_new_trust s t"
  by (auto simp: after_flush_def flush_step_def flushRemoteCandidates_def split: option.split list.split)

lemma connect_trust: "no_new_trust s (connect opts s)"
  unfolding connect_def Let_def
  by (auto split: prod.split option.split dest!: ensurePeer_trust alloc_trust intro: no_new_trust_trans)

lemma handle_offer_trust: "no_new_trust s (handle_offer opts payload s)"
  unfolding handle_offer_def Let_def
  by (auto split: sum.split prod.split option.split dest!: ensurePeer_trust)

lemma handle_answer_trust: "no_new_trust s (handle_answer opts payload s)"
  unfolding handle_answer_def Let_def
  by (auto split: sum.split prod.split dest!: ensurePeer_trust)

lemma handle_ice_trust: "no_new_trust s (handle_ice opts payload s)"
  unfolding handle_ice_def Let_def
  by (auto split: option.split prod.split dest!: ensurePeer_trust)

lemma next_signal_trust: "no_new_trust s (next_signal opts s)"
proof -
  have "no_new_trust s (handleSignalInternal opts ty payload (s\<lparr>signalChain := k\<rparr>))" for ty payload k
    using handle_offer_trust [of "s\<lparr>signalChain := k\<rparr>"] handle_answer_trust [of "s\<lparr>signalChain := k\<rparr>"]
      handle_ice_trust [of "s\<lparr>signalChain := k\<rparr>"]
    by (cases ty) (simp_all add: handleSignalInternal_def)
  then show ?thesis by (auto simp: next_signal_def Let_def split: list.split)
qed

lemma resume_trust: "resume opts t r s = Some s' \<Longrightarrow> no_new_trust s s'"
  by (cases "(opts, t, r, s)" rule: resume.cases) auto

lemma resume_task_trust: "no_new_trust s (resume_task opts i r s)"
  unfolding resume_task_def
  by (auto split: option.split dest!: resume_trust)

lemma message_trust:
  assumes "remoteVerified (on_channel_message opts e d raw s)"
  shows "remoteVerified s \<or> (trusted_hello opts raw \<and> peer s \<noteq> None)"
proof (cases "remoteVerified s \<or> (trusted_hello opts raw \<and> peer s \<noteq> None)")
  case False
  have "no_new_trust s (handleDataMessage opts e raw s)" if "\<not> trusted_hello opts raw"
    using that by (auto simp: handleDataMessage_def handle_hello_def trusted_hello_def Let_def no_new_trust_def
        split: option.split sum.split bool.split)
  then have "no_new_trust s (on_channel_message opts e d raw s)"
    using False by (auto simp: on_channel_message_def isCurrentDataChannel_def split: option.split)
  with False assms show ?thesis by (simp add: no_new_trust_def)
qed

lemma peer_step_trust:
  "remoteVerified (peer_step opts ev s) \<Longrightarrow>
     remoteVerified s \<or> (\<exists>e d raw. ev = Ev_message e d raw \<and> trusted_hello opts raw \<and> peer s \<noteq> None)"
proof (cases ev)
  case (Ev_message e d raw)
  assume "remoteVerified (peer_step opts ev s)"
  then show ?thesis using message_trust [of opts e d raw s] Ev_message by auto
next
  case Ev_connect
  then show "remoteVerified (peer_step opts ev s) \<Longrightarrow> ?thesis" using connect_trust by (auto simp: no_new_trust_def)
next
  case Ev_next_signal
  then show "remoteVerified (peer_step opts ev s) \<Longrightarrow> ?thesis" using next_signal_trust by (auto simp: no_new_trust_def)
next
  case (Ev_resume i r)
  then show "remoteVerified (peer_step opts ev s) \<Longrightarrow> ?thesis" using resume_task_trust by (auto simp: no_new_trust_def)
next
  case (Ev_open e d)
  have "no_new_trust s (on_channel_open opts e d s)"
    by (auto simp: on_channel_open_def Let_def split: option.split)
  then show "remoteVerified (peer_step opts ev s) \<Longrightarrow> ?thesis" using Ev_open by (auto simp: no_new_trust_def)
qed (auto simp: handleSignal_def close_def sendAppMessage_def on_connection_state_def on_ice_state_def
    on_ice_candidate_def on_data_channel_def on_channel_close_def on_channel_error_def set_ready_def
    attachDataChannel_def alloc_channel_def update_peer_def Let_def split: option.splits if_splits prod.splits)

text \<open>C5: Every step of a running channel refines a step of the abstract authentication machine:
  the only way into the authenticated phase is a proving hello on an open channel.\<close>

theorem peer_refines_authentication:
  assumes "peer_run opts evs s"
  shows "auth_step opts ev (auth_phase_of s) (auth_phase_of (peer_step opts ev s))"
proof (cases "auth_phase_of (peer_step opts ev s) = Authenticated_channel")
  case True
  then have "remoteVerified (peer_step opts ev s)" by (auto simp: auth_phase_of_def split: if_splits)
  then consider "remoteVerified s" | e d raw where "\<not> remoteVerified s" "ev = Ev_message e d raw" "trusted_hello opts raw" "peer s \<noteq> None"
    using peer_step_trust [of opts ev s] by blast
  then show ?thesis
  proof cases
    case 1
    then have "peer s \<noteq> None" using peer_run_inv [OF assms] by (auto simp: peer_inv_def)
    with 1 have "auth_phase_of s = Authenticated_channel" by (simp add: auth_phase_of_def)
    with True show ?thesis by (simp add: auth_keep)
  next
    case 2
    then have "auth_phase_of s = Open_channel" by (simp add: auth_phase_of_def)
    with 2 True show ?thesis by (simp add: auth_trust)
  qed
qed (rule auth_drop)

theorem peer_refines_authentication_witness:
  "auth_step toy_options (Ev_resume 2 R_ok) (auth_phase_of (run_events toy_options (take 3 toy_events)))
     (auth_phase_of (peer_step toy_options (Ev_resume 2 R_ok) (run_events toy_options (take 3 toy_events))))"
  by (rule peer_refines_authentication [OF peer_run_events])

section \<open>Two ways to lose a channel\<close>

text \<open>A channel the user has closed comes back to life when a late ICE candidate of the other side
  arrives: the candidate makes a new peer connection and the state is connecting again.\<close>

theorem late_candidate_revives:
  assumes "o_webrtc opts" "tasks s = []" "signalChain s = []"
    and "js_text (js_get payload ''bindingId'') = o_bindingId opts"
    and "normalizeCandidate (js_get payload ''candidate'') \<noteq> None"
  shows "cstate (close s) = Disconnected \<and>
    (let s' = next_signal opts (handleSignal Webrtc_ice payload (close s))
     in peer s' \<noteq> None \<and> cstate s' = Connecting \<and> closedByUser s')"
proof -
  have q: "tasks (close s) = []" "signalChain (close s) = []" "peer (close s) = None" "closedByUser (close s)"
    "cstate (close s) = Disconnected"
    using assms(2,3) by (auto simp: close_def disposePeer_def close_peer_def close_data_channel_def setState_def emit_def
        update_peer_def split: option.split)
  obtain c where "normalizeCandidate (js_get payload ''candidate'') = Some c" using assms(5) by blast
  then show ?thesis using q assms(1,4)
    by (simp add: next_signal_def handleSignal_def handleSignalInternal_def handle_ice_def ensurePeer_def
        create_peer_def Let_def fresh_peer_def)
qed

theorem late_candidate_revives_witness:
  "let s' = next_signal toy_options (handleSignal Webrtc_ice
       (JObj [(''bindingId'', JStr ''b1''), (''candidate'', JObj [(''candidate'', JStr ''c'')])]) (close new_channel))
   in peer s' \<noteq> None \<and> cstate s' = Connecting \<and> closedByUser s'"
proof -
  have "js_trim ''b1'' = ''b1''" "js_trim ''c'' = ''c''" by (simp_all add: js_trim_id js_trimmed_def js_space_def)
  then show ?thesis
    by (intro late_candidate_revives [THEN conjunct2])
      (simp_all add: toy_options_def new_channel_def normalizeCandidate_def Let_def)
qed

text \<open>An offer that is delivered a second time to a ready channel is recognised and answered
  again without touching the connection, but the state is set back to connecting: the channel
  stops being ready although its data channel is open and its peer is verified.\<close>

theorem repeated_offer_unready:
  assumes "isReady s" "o_webrtc opts" "peer s = Some p"
    and "normalizeDescription (js_get payload ''description'') ''offer'' = Inr d"
    and "rp_remote (rtc_peers s p) = Some d" "rp_local (rtc_peers s p) = Some l" "d_type l = ''answer''" "d_sdp l \<noteq> []"
  shows "let s' = handle_offer opts payload s
    in \<not> isReady s' \<and> cstate s' = Connecting \<and> channel_open s' \<and> remoteVerified s' \<and> peer s' = Some p \<and>
       out s' = out s @ [StateChanged Connecting ''received offer'', SignalDescription Webrtc_answer (o_bindingId opts) l]"
proof -
  have "hasSameDescription (Some d) d" by (simp add: hasSameDescription_def)
  then show ?thesis using assms
    by (simp add: handle_offer_def Let_def shouldRecreateForOffer_def ensurePeer_def isReady_def channel_open_def
        split: option.splits)
qed
definition toy_offer :: jsval where
  "toy_offer = JObj [(''bindingId'', JStr ''b1''), (''description'', JObj [(''type'', JStr ''offer''), (''sdp'', JStr ''v=0'')])]"

definition toy_answer :: description where
  "toy_answer = \<lparr>d_type = ''answer'', d_sdp = ''v=1''\<rparr>"

definition answer_events :: "peer_event list" where
  "answer_events =
     [Ev_signal Webrtc_offer toy_offer, Ev_next_signal, Ev_resume 0 R_ok,
      Ev_resume 0 (R_description (Some toy_answer)), Ev_resume 0 (R_description (Some toy_answer)), Ev_resume 0 R_ok,
      Ev_data_channel 0 ''open'', Ev_open toy_env 1, Ev_message toy_env 1 toy_hello, Ev_resume 1 R_ok]"

definition answered :: peer_channel where
  "answered = run_events toy_options answer_events"

lemma answered_state:
  "isReady answered \<and> peer answered = Some 0 \<and> rp_local (rtc_peers answered 0) = Some toy_answer \<and>
   Inr (the (rp_remote (rtc_peers answered 0))) = normalizeDescription (js_get toy_offer ''description'') ''offer'' \<and>
   rp_remote (rtc_peers answered 0) \<noteq> None"
  by code_simp

theorem repeated_offer_unready_witness:
  "isReady answered \<and> \<not> isReady (handle_offer toy_options toy_offer answered) \<and>
   cstate (handle_offer toy_options toy_offer answered) = Connecting"
proof -
  obtain d where d: "rp_remote (rtc_peers answered 0) = Some d" using answered_state by blast
  then have "normalizeDescription (js_get toy_offer ''description'') ''offer'' = Inr d" using answered_state by simp
  then show ?thesis
    using repeated_offer_unready [of answered toy_options 0 toy_offer d toy_answer] answered_state d
    by (simp add: Let_def toy_answer_def toy_options_def)
qed

section \<open>Session descriptions\<close>

lemma replace_all_char: "js_replace_all [a] r s = concat (map (\<lambda>c. if c = a then r else [c]) s)"
  by (induction s) auto

lemma replace_all_absent: "a \<notin> set s \<Longrightarrow> js_replace_all [a] r s = s"
  by (induction s) auto

definition expand_breaks :: "string \<Rightarrow> string" where
  "expand_breaks s = concat (map (\<lambda>c. if c = CHR 0x0A then crlf else [c]) s)"

definition lf_lines :: "string \<Rightarrow> string" where
  "lf_lines s = js_replace_all [CHR 0x0D] [CHR 0x0A] (js_replace_all crlf [CHR 0x0A] s)"

lemma crlf_lines_eq: "crlf_lines s = expand_breaks (lf_lines s)"
  by (simp add: crlf_lines_def expand_breaks_def lf_lines_def replace_all_char)

lemma lf_lines_no_cr: "CHR 0x0D \<notin> set (lf_lines s)"
  by (auto simp: lf_lines_def replace_all_char split: if_splits)

lemma contract_expand: "CHR 0x0D \<notin> set s \<Longrightarrow> js_replace_all crlf [CHR 0x0A] (expand_breaks s) = s"
  by (induction s) (auto simp: expand_breaks_def crlf_def)

lemma crlf_lines_idem: "crlf_lines (crlf_lines s) = crlf_lines s"
proof -
  have "lf_lines (expand_breaks (lf_lines s)) = lf_lines s"
    using contract_expand [OF lf_lines_no_cr] replace_all_absent [OF lf_lines_no_cr]
    by (simp add: lf_lines_def [of "expand_breaks (lf_lines s)"])
  then show ?thesis by (simp add: crlf_lines_eq)
qed

lemma replace_all_last:
  "s \<noteq> [] \<Longrightarrow> last s \<notin> set p \<Longrightarrow> js_replace_all p r s \<noteq> [] \<and> last (js_replace_all p r s) = last s"
proof (induction p r s rule: js_replace_all.induct)
  case (2 p r c cs)
  show ?case
  proof (cases "p \<noteq> [] \<and> take (length p) (c # cs) = p")
    case True
    have ne: "drop (length p) (c # cs) \<noteq> []"
    proof
      assume "drop (length p) (c # cs) = []"
      then have "p = c # cs" using True by (metis append_Nil2 append_take_drop_id)
      with "2.prems" show False by (metis last_in_set list.discI)
    qed
    have l: "last (drop (length p) (c # cs)) = last (c # cs)" using ne by (intro last_drop) simp
    have "last (drop (length p) (c # cs)) \<notin> set p" unfolding l by (rule "2.prems"(2))
    from "2.IH"(1) [OF True ne this] show ?thesis
      unfolding js_replace_all.simps(2) if_P [OF True] l [symmetric] by (simp only: last_appendR append_is_Nil_conv) simp
  next
    case False
    then show ?thesis using "2.IH"(2) "2.prems" by (cases "cs = []") auto
  qed
qed simp

lemma replace_all_hd: "s \<noteq> [] \<Longrightarrow> p \<noteq> [] \<Longrightarrow> hd s \<noteq> hd p \<Longrightarrow> js_replace_all p r s \<noteq> [] \<and> hd (js_replace_all p r s) = hd s"
  by (cases s; cases p) auto

lemma break_space: "js_space (CHR 0x0D)" "js_space (CHR 0x0A)"
  by (simp_all add: js_space_def)

lemma crlf_lines_trimmed:
  assumes "js_trimmed s" "s \<noteq> []"
  shows "crlf_lines s \<noteq> [] \<and> js_trimmed (crlf_lines s)"
proof -
  have h: "hd s \<noteq> CHR 0x0D" "hd s \<noteq> CHR 0x0A" "last s \<noteq> CHR 0x0D" "last s \<noteq> CHR 0x0A"
    using assms break_space by (auto simp: js_trimmed_def)
  let ?a = "js_replace_all crlf [CHR 0x0A] s"
  have a: "?a \<noteq> []" "hd ?a = hd s" "last ?a = last s"
    using replace_all_hd [of s crlf] replace_all_last [of s crlf] assms(2) h by (simp_all add: crlf_def)
  let ?b = "js_replace_all [CHR 0x0D] [CHR 0x0A] ?a"
  have b: "?b \<noteq> []" "hd ?b = hd s" "last ?b = last s"
    using replace_all_hd [of ?a "[CHR 0x0D]"] replace_all_last [of ?a "[CHR 0x0D]"] a h by simp_all
  let ?c = "js_replace_all [CHR 0x0A] crlf ?b"
  have "?c \<noteq> []" "hd ?c = hd s" "last ?c = last s"
    using replace_all_hd [of ?b "[CHR 0x0A]"] replace_all_last [of ?b "[CHR 0x0A]"] b h by simp_all
  then show ?thesis using assms by (auto simp: crlf_lines_def js_trimmed_def)
qed

lemma js_trim_crlf: "js_trimmed s \<Longrightarrow> s \<noteq> [] \<Longrightarrow> js_trim (s @ crlf) = s"
proof -
  assume s: "js_trimmed s" "s \<noteq> []"
  then have "dropWhile js_space (s @ crlf) = s @ crlf" by (intro dropWhile_id) (simp add: js_trimmed_def)
  moreover have "dropWhile js_space (rev (s @ crlf)) = rev s"
    using s dropWhile_id [of "rev s" js_space] by (simp add: crlf_def break_space js_trimmed_def hd_rev)
  ultimately show ?thesis by (simp add: js_trim_def)
qed

lemma not_ends_crlf: "s \<noteq> [] \<Longrightarrow> js_trimmed s \<Longrightarrow> \<not> js_ends_with s crlf"
  using break_space by (cases s rule: rev_cases) (auto simp: js_ends_with_def js_starts_with_def crlf_def js_trimmed_def)

lemma normalizeSdpText_cases:
  obtains "normalizeSdpText v = []" | s where "js_trimmed s" "s \<noteq> []" "normalizeSdpText v = crlf_lines s @ crlf"
proof -
  let ?t = "js_trim (unescape_breaks (js_to_string (js_coalesce v (JStr []))))"
  show ?thesis
  proof (cases "normalizeSdpText v = []")
    case False
    then have ne: "?t \<noteq> []" by (auto simp: normalizeSdpText_def Let_def split: if_splits)
    then have "\<not> js_ends_with (crlf_lines ?t) crlf"
      using crlf_lines_trimmed [of ?t] not_ends_crlf [of "crlf_lines ?t"] by simp
    then have "normalizeSdpText v = crlf_lines ?t @ crlf"
      using False ne by (simp add: normalizeSdpText_def Let_def split: if_splits)
    with ne show ?thesis by (intro that(2) [of ?t]) simp_all
  qed (rule that(1))
qed

text \<open>A session description is normalised once: its text is empty or ends its lines with CR LF,
  the last one included, and normalising it again, as the other side does, changes nothing. So an
  offer that is sent again is recognised as the same.\<close>

theorem sdp_normal_form:
  "normalizeSdpText (JStr (normalizeSdpText v)) = normalizeSdpText v \<and>
   (normalizeSdpText v = [] \<or> js_ends_with (normalizeSdpText v) crlf)"
proof (cases v rule: normalizeSdpText_cases)
  case 1
  then show ?thesis by (simp add: normalizeSdpText_def js_coalesce_def)
next
  case (2 s)
  let ?b = "crlf_lines s"
  have b: "?b \<noteq> []" "js_trimmed ?b" using crlf_lines_trimmed [OF 2(1,2)] by simp_all
  have "list_ex line_break (?b @ crlf)" by (simp add: crlf_def line_break_def)
  then have u: "unescape_breaks (?b @ crlf) = ?b @ crlf" by (simp add: unescape_breaks_def)
  have "normalizeSdpText (JStr (?b @ crlf)) = ?b @ crlf"
    using js_trim_crlf [OF b(2,1)] b not_ends_crlf [OF b]
    by (simp add: normalizeSdpText_def js_coalesce_def Let_def u crlf_lines_idem)
  moreover have "js_ends_with (?b @ crlf) crlf" by (simp add: js_ends_with_def js_starts_with_def)
  ultimately show ?thesis using 2(3) by simp
qed
end
