(* ===== verification/MobilePairing.thy ===== *)
theory MobilePairing
  imports PairWeb ChatGraph
begin

text \<open>
  mobile/src/services/pairingV2.ts and the session of mobile/src/types/session.ts: how the mobile
  application obtains its identity and its login, how it pairs by a scanned QR code, stores its
  sessions and refreshes them against the pairing services. Two module-level maps (the logins and
  the ICE servers in use), the key-value store and the network form \<open>mobile_world\<close>, threaded through
  every operation. The theorems: a refresh keeps the sessions and never shows an untrusted one as
  connected, the identity is stable, and pairing keeps the list free of duplicates.
\<close>

section \<open>The device\<close>

text \<open>
  What the module reads from its host: clock and random source, names and versions of the
  \<open>Constants\<close> of expo, \<open>Platform.OS\<close>, and \<open>Intl.DateTimeFormat\<close>. The texts of the user interface
  are Chinese and lie outside the modelled characters: they are the record \<open>mobile_texts\<close>. The
  network and the key generator act on a part \<open>'n\<close> of the world of their own.
\<close>

record mobile_texts =
  tx_phone :: string
  tx_connection :: string
  tx_waitingHost :: string
  tx_confirmCode :: "string \<Rightarrow> string"
  tx_confirm :: string
  tx_revoked :: string
  tx_preparing :: string
  tx_pairedOffline :: string
  tx_p2pReady :: string
  tx_relayReady :: string
  tx_negotiating :: string
  tx_syncFailed :: "pair_error \<Rightarrow> string"

record 'n device =
  dv_env :: "'n \<Rightarrow> env"
  dv_fetch :: "request \<Rightarrow> 'n \<Rightarrow> (pair_error + response) \<times> 'n"
  dv_keyPair :: "'n \<Rightarrow> (pair_error + bytes \<times> bytes) \<times> 'n"
  dv_crypto :: crypto
  dv_web :: web
  dv_deviceName :: jsval
  dv_expoName :: jsval
  dv_nativeAppVersion :: jsval
  dv_expoVersion :: jsval
  dv_os :: string
  dv_formatDate :: "jsnum \<Rightarrow> string"
  dv_formatTime :: "jsnum \<Rightarrow> string"
  dv_texts :: mobile_texts
  dv_sort :: sorter
  dv_localeCompare :: "string \<Rightarrow> string \<Rightarrow> int"

section \<open>Sessions (types/session.ts)\<close>

datatype ConnectionStatus = Conn_connected | Conn_waiting | Conn_offline

text \<open>An optional field is None when it is missing or undefined.\<close>

record session_item =
  si_id :: string
  si_name :: string
  si_status :: ConnectionStatus
  si_isReplying :: bool
  si_createdAt :: string
  si_peerLabel :: string
  si_preview :: string
  si_messages :: "chat_message list"
  si_serverBaseUrl :: string
  si_serverToken :: string
  si_deviceId :: string
  si_pairSessionId :: string
  si_bindingId :: string
  si_mobileName :: "string option"
  si_trustState :: "string option"
  si_safetyCode :: "string option"
  si_mobilePublicKey :: "string option"
  si_devicePublicKey :: "string option"
  si_transportReady :: "bool option"
  si_lastSeenAt :: "jsnum option"
  si_peerState :: "string option"
  si_peerDetail :: "string option"
  si_peerCapabilities :: "pair_capabilities option"
  si_missingMessageIds :: "string list option"
  si_linkTransport :: "string option"
  si_linkRttMs :: "jsnum option"
  si_linkRttAt :: "jsnum option"
  si_linkProbePending :: "bool option"

section \<open>State of the module\<close>

record mobile_auth =
  ma_baseUrl :: string
  ma_mobileId :: string
  ma_token :: string
  ma_publicKey :: string
  ma_privateKey :: string
  ma_expiresAt :: jsnum

text \<open>\<open>AsyncStorage\<close>, \<open>mobileAuthCache\<close> and \<open>iceCache\<close>.\<close>

record 'n mobile_world =
  mb_storage :: "string \<Rightarrow> string option"
  mb_authCache :: "(string \<times> mobile_auth) list"
  mb_iceCache :: "(string \<times> (ice_server list \<times> jsnum)) list"
  mb_net :: 'n

definition MOBILE_ID_KEY :: string where "MOBILE_ID_KEY = ''openclaw.mobile.mobile-id.v2''"
definition SESSIONS_KEY :: string where "SESSIONS_KEY = ''openclaw.mobile.sessions.v2''"
definition MAX_SESSION_MESSAGES :: nat where "MAX_SESSION_MESSAGES = 1000"

text \<open>\<open>AsyncStorage.getItem\<close> and \<open>setItem\<close> are a persistent map from keys to texts.\<close>

definition storage_get :: "string \<Rightarrow> ('n mobile_world, string option) io" where
  "storage_get k w = (Inr (mb_storage w k), w)"

definition storage_set :: "string \<Rightarrow> string \<Rightarrow> ('n mobile_world, unit) io" where
  "storage_set k v w = (Inr (), w\<lparr>mb_storage := (mb_storage w)(k := Some v)\<rparr>)"

definition mobile_store :: "'n mobile_world key_value_store" where
  "mobile_store = \<lparr>getItem = storage_get, setItem = storage_set\<rparr>"

definition lift_net :: "('n \<Rightarrow> (pair_error + 'a) \<times> 'n) \<Rightarrow> ('n mobile_world, 'a) io" where
  "lift_net f w = (case f (mb_net w) of (r, n) \<Rightarrow> (r, w\<lparr>mb_net := n\<rparr>))"

definition mobile_runtime :: "'n device \<Rightarrow> ('n mobile_world, unit) runtime" where
  "mobile_runtime dv =
     configurePairV2Storage (Some mobile_store)
       \<lparr>pairV2Storage = None, pairV2SignalStreamFactory = None, rt_localStorage = None, rt_eventSource = None,
        rt_fetch = (\<lambda>rq. lift_net (dv_fetch dv rq)), rt_keyPair = lift_net (dv_keyPair dv)\<rparr>"

definition now_env :: "'n device \<Rightarrow> ('n mobile_world, env) io" where
  "now_env dv w = (Inr (dv_env dv (mb_net w)), w)"

definition io_catch :: "('w, 'a) io \<Rightarrow> (pair_error \<Rightarrow> ('w, 'a) io) \<Rightarrow> ('w, 'a) io" where
  "io_catch m h w = (case m w of (Inl e, w') \<Rightarrow> h e w' | (Inr x, w') \<Rightarrow> (Inr x, w'))"

section \<open>Ids and names\<close>

definition local_id :: "nat \<Rightarrow> env \<Rightarrow> string \<Rightarrow> string" where
  "local_id n e prefix =
     prefix @ ''_'' @
     (let uuid = (case e_uuid e of Some u \<Rightarrow> take n (filter (\<lambda>c. c \<noteq> CHR ''-'') u) | None \<Rightarrow> [])
      in if uuid \<noteq> [] then uuid else take n (drop 2 (e_hex e)))"

definition createLocalId :: "env \<Rightarrow> string \<Rightarrow> string" where
  "createLocalId e prefix = local_id 10 e prefix"

definition randomId :: "env \<Rightarrow> string \<Rightarrow> string" where
  "randomId e prefix = local_id 12 e prefix"

definition first_text :: "string list \<Rightarrow> string" where
  "first_text ss = (case filter (\<lambda>s. s \<noteq> []) ss of [] \<Rightarrow> [] | s # _ \<Rightarrow> s)"

definition resolveLocalMobileName :: "'n device \<Rightarrow> string" where
  "resolveLocalMobileName dv =
     first_text [normalizePairV2MobileName (dv_deviceName dv), normalizePairV2MobileName (dv_expoName dv),
       tx_phone (dv_texts dv)]"

definition resolveMobileAppVersion :: "'n device \<Rightarrow> string" where
  "resolveMobileAppVersion dv =
     first_text [js_text (dv_nativeAppVersion dv), js_text (dv_expoVersion dv), ''mobile'']"

fun js_first :: "jsval list \<Rightarrow> jsval" where
  "js_first [] = JUndef"
| "js_first [v] = v"
| "js_first (v # vs) = js_or v (js_first vs)"

text \<open>\<open>bindingId || pairSessionId || deviceId || mobileId || id\<close>.\<close>

definition resolveSessionNameSeed :: "jsval \<Rightarrow> jsval \<Rightarrow> jsval \<Rightarrow> jsval \<Rightarrow> jsval \<Rightarrow> jsval" where
  "resolveSessionNameSeed bindingId pairSessionId deviceId mobileId i =
     js_first [bindingId, pairSessionId, deviceId, mobileId, i]"

definition resolveGeneratedSessionName ::
  "'n device \<Rightarrow> env \<Rightarrow> jsval \<Rightarrow> jsval \<Rightarrow> jsval \<Rightarrow> jsval \<Rightarrow> jsval \<Rightarrow> string \<Rightarrow> string" where
  "resolveGeneratedSessionName dv e bindingId pairSessionId deviceId mobileId i mobileName =
     formatPairV2ConnectionName (tx_connection (dv_texts dv)) e
       (resolveSessionNameSeed bindingId pairSessionId deviceId mobileId i) (JStr mobileName)"

definition opt_field_of :: "('a \<Rightarrow> string) \<Rightarrow> 'a option \<Rightarrow> jsval" where
  "opt_field_of f x = (case x of Some s \<Rightarrow> JStr (f s) | None \<Rightarrow> JUndef)"

definition existing_mobile_name :: "session_item option \<Rightarrow> string \<Rightarrow> jsval" where
  "existing_mobile_name existing mobileName =
     (case existing of
        Some s \<Rightarrow> (case si_mobileName s of Some n \<Rightarrow> js_or (JStr n) (JStr mobileName) | None \<Rightarrow> JStr mobileName)
      | None \<Rightarrow> JStr mobileName)"

definition resolveGeneratedSessionNameCandidates ::
  "session_item option \<Rightarrow> jsval \<Rightarrow> string \<Rightarrow> (jsval \<times> jsval) list" where
  "resolveGeneratedSessionNameCandidates existing binding mobileName =
     (let b = js_get binding ''bindingId''; p = js_get binding ''pairSessionId'';
          d = js_get binding ''deviceId''; m = js_get binding ''mobileId'';
          eb = opt_field_of si_bindingId existing; ep = opt_field_of si_pairSessionId existing;
          ed = opt_field_of si_deviceId existing; ei = opt_field_of si_id existing;
          name = JStr mobileName; ename = existing_mobile_name existing mobileName
      in filter (\<lambda>(seed, n). js_text seed \<noteq> [])
        [(resolveSessionNameSeed b p d m (js_get binding ''id''), name), (b, name), (p, name), (d, name), (m, name),
         (resolveSessionNameSeed eb ep ed JUndef ei, ename), (eb, ename), (ep, ename), (ed, ename)])"

definition resolveSessionName :: "'n device \<Rightarrow> env \<Rightarrow> session_item option \<Rightarrow> jsval \<Rightarrow> string \<Rightarrow> string" where
  "resolveSessionName dv e existing binding mobileName =
     (let currentName = js_text (opt_field_of si_name existing);
          generatedName = resolveGeneratedSessionName dv e (js_get binding ''bindingId'')
            (js_get binding ''pairSessionId'') (js_get binding ''deviceId'') (js_get binding ''mobileId'')
            (opt_field_of si_id existing) mobileName
      in if currentName = [] then generatedName
         else if isGeneratedPairV2ConnectionName (tx_connection (dv_texts dv)) e (JStr currentName)
                (resolveGeneratedSessionNameCandidates existing binding mobileName)
         then generatedName else currentName)"

definition compactPeer :: "'n device \<Rightarrow> string \<Rightarrow> string" where
  "compactPeer dv seed =
     (let value = js_trim seed in
      if value = [] then tx_waitingHost (dv_texts dv)
      else if length value \<le> 18 then value
      else take 8 value @ ''...'' @ js_last_n 6 value)"

section \<open>Messages of a session\<close>

definition reconciled_of :: "'n device \<Rightarrow> chat_message list \<Rightarrow> chat_message list \<times> string list" where
  "reconciled_of dv ms =
     (case reconcileSessionMessages (dv_sort dv) (dv_localeCompare dv) ms of
        Some r \<Rightarrow> (rc_messages r, rc_missingMessageIds r)
      | None \<Rightarrow> ([], []))"

definition buildInfoMessage :: "'n device \<Rightarrow> env \<Rightarrow> string \<Rightarrow> chat_message" where
  "buildInfoMessage dv e text =
     (let normalizedText = js_trim text in
      \<lparr>msg_id = ''system:'' @ (if normalizedText = [] then ''status'' else normalizedText),
       msg_from = Host, msg_text = normalizedText, msg_createdAt = dv_formatTime dv (e_now e),
       msg_ts = e_now e, msg_kind = Some System, msg_origin = None, msg_originSeq = None,
       msg_after = [], msg_missingAfter = [], msg_deliveryStatus = None, msg_deliveryError = []\<rparr>)"

definition mergeMessages :: "'n device \<Rightarrow> chat_message list \<Rightarrow> chat_message list \<Rightarrow> chat_message list" where
  "mergeMessages dv current incoming = js_last_n MAX_SESSION_MESSAGES (fst (reconciled_of dv (current @ incoming)))"

definition normalizePendingMessages :: "'n device \<Rightarrow> env \<Rightarrow> session_item option \<Rightarrow> string \<Rightarrow> chat_message list" where
  "normalizePendingMessages dv e existing preview =
     (case existing of
        None \<Rightarrow> [buildInfoMessage dv e preview]
      | Some s \<Rightarrow>
        if list_ex (\<lambda>m. msg_from m = Self) (si_messages s) then si_messages s
        else [buildInfoMessage dv e preview])"

section \<open>State of a session\<close>

definition presence_online :: "jsval \<Rightarrow> bool" where
  "presence_online presence = (js_get presence ''status'' = JStr ''online'')"

definition normalizeStatus :: "string \<Rightarrow> jsval \<Rightarrow> ConnectionStatus" where
  "normalizeStatus trustState presence =
     (if trustState = ''pending'' then Conn_waiting
      else if trustState = ''active'' \<and> presence_online presence then Conn_connected
      else Conn_offline)"

definition describeSession :: "'n device \<Rightarrow> string \<Rightarrow> string \<Rightarrow> jsval \<Rightarrow> string" where
  "describeSession dv trustState safetyCode presence =
     (if trustState = ''pending''
      then (if safetyCode \<noteq> [] then tx_confirmCode (dv_texts dv) safetyCode else tx_confirm (dv_texts dv))
      else if trustState = ''revoked'' then tx_revoked (dv_texts dv)
      else if presence_online presence then tx_preparing (dv_texts dv)
      else tx_pairedOffline (dv_texts dv))"

definition isPeerNegotiating :: "string \<Rightarrow> bool" where
  "isPeerNegotiating st = (st \<in> {''connecting'', ''channel-open'', ''verifying''})"

definition normalizeLinkTransport :: "string option \<Rightarrow> string" where
  "normalizeLinkTransport value = (case value of Some v \<Rightarrow> if v \<in> {''p2p'', ''relay''} then v else [] | None \<Rightarrow> [])"

definition opt_count :: "jsnum option \<Rightarrow> jsnum" where
  "opt_count n = (case n of Some k \<Rightarrow> js_count k | None \<Rightarrow> Fin 0)"

definition opt_or :: "'a option \<Rightarrow> 'a option \<Rightarrow> 'a option" where
  "opt_or x y = (case x of Some a \<Rightarrow> Some a | None \<Rightarrow> y)"

text \<open>\<open>{...existing, ...next}\<close>: a field that \<open>next\<close> has replaces the existing one.\<close>

definition spread_session :: "session_item \<Rightarrow> session_item \<Rightarrow> session_item" where
  "spread_session existing next =
     next\<lparr>si_mobileName := opt_or (si_mobileName next) (si_mobileName existing),
       si_trustState := opt_or (si_trustState next) (si_trustState existing),
       si_safetyCode := opt_or (si_safetyCode next) (si_safetyCode existing),
       si_mobilePublicKey := opt_or (si_mobilePublicKey next) (si_mobilePublicKey existing),
       si_devicePublicKey := opt_or (si_devicePublicKey next) (si_devicePublicKey existing),
       si_transportReady := opt_or (si_transportReady next) (si_transportReady existing),
       si_lastSeenAt := opt_or (si_lastSeenAt next) (si_lastSeenAt existing),
       si_peerState := opt_or (si_peerState next) (si_peerState existing),
       si_peerDetail := opt_or (si_peerDetail next) (si_peerDetail existing),
       si_peerCapabilities := opt_or (si_peerCapabilities next) (si_peerCapabilities existing),
       si_linkTransport := opt_or (si_linkTransport next) (si_linkTransport existing),
       si_linkRttMs := opt_or (si_linkRttMs next) (si_linkRttMs existing),
       si_linkRttAt := opt_or (si_linkRttAt next) (si_linkRttAt existing),
       si_linkProbePending := opt_or (si_linkProbePending next) (si_linkProbePending existing)\<rparr>"

definition normalizeSession :: "'n device \<Rightarrow> session_item option \<Rightarrow> session_item \<Rightarrow> session_item" where
  "normalizeSession dv existing next =
     (case existing of
        None \<Rightarrow>
          (case reconciled_of dv (si_messages next) of (ms, missing) \<Rightarrow>
            next\<lparr>si_linkTransport := Some (normalizeLinkTransport (si_linkTransport next)),
              si_linkRttMs := Some (opt_count (si_linkRttMs next)),
              si_linkRttAt := Some (opt_count (si_linkRttAt next)),
              si_linkProbePending := Some (si_linkProbePending next = Some True),
              si_messages := ms, si_missingMessageIds := Some missing\<rparr>)
      | Some ex \<Rightarrow>
          (case reconciled_of dv (si_messages ex @ si_messages next) of (ms, missing) \<Rightarrow>
            (spread_session ex next)\<lparr>si_messages := ms, si_missingMessageIds := Some missing\<rparr>))"

section \<open>Identity, authentication and ICE servers\<close>

definition ensureMobileId :: "'n device \<Rightarrow> ('n mobile_world, string) io" where
  "ensureMobileId dv =
     io_bind (storage_get MOBILE_ID_KEY) (\<lambda>s.
       let cached = trimmed_item s in
       if cached \<noteq> [] then io_return cached
       else io_bind (now_env dv) (\<lambda>e.
         let next = createLocalId e ''mobile''
         in io_bind (storage_set MOBILE_ID_KEY next) (\<lambda>_. io_return next)))"

definition default_ice :: ice_server where
  "default_ice = \<lparr>ice_urls = [''stun:stun.cloudflare.com:3478'', ''stun:stun.l.google.com:19302''],
     ice_username = None, ice_credential = None, ice_credentialType = None\<rparr>"

definition defaultIceServers :: "ice_server list" where
  "defaultIceServers = [default_ice]"

definition read_authCache :: "string \<Rightarrow> ('n mobile_world, mobile_auth option) io" where
  "read_authCache k w = (Inr (map_of (mb_authCache w) k), w)"

definition write_authCache :: "string \<Rightarrow> mobile_auth \<Rightarrow> ('n mobile_world, unit) io" where
  "write_authCache k a w = (Inr (), w\<lparr>mb_authCache := AList.update k a (mb_authCache w)\<rparr>)"

text \<open>A field of a reply that is used as a string.\<close>

definition reply_text :: "jsval \<Rightarrow> string \<Rightarrow> string" where
  "reply_text v k = js_to_string (js_or (js_get v k) (JStr []))"

definition auth_fresh :: "env \<Rightarrow> mobile_auth \<Rightarrow> bool" where
  "auth_fresh e a = js_less (js_add (e_now e) (Fin 30000)) (ma_expiresAt a)"

definition auth_of_login :: "string \<Rightarrow> string \<Rightarrow> identity \<Rightarrow> jsval \<Rightarrow> pair_error + mobile_auth" where
  "auth_of_login baseUrl mobileId i session =
     (if session = JUndef \<or> session = JNull then Inl ReadOfNullish
      else Inr \<lparr>ma_baseUrl = baseUrl, ma_mobileId = mobileId, ma_token = reply_text session ''token'',
        ma_publicKey = idn_publicKey i, ma_privateKey = idn_privateKey i,
        ma_expiresAt = js_number_or_zero (js_get session ''expiresAt'')\<rparr>)"

definition refreshMobileAuth :: "'n device \<Rightarrow> string \<Rightarrow> string \<Rightarrow> ('n mobile_world, mobile_auth) io" where
  "refreshMobileAuth dv baseUrl mobileId =
     io_bind (getOrCreatePairV2Identity (dv_crypto dv) (mobile_runtime dv) Mobile mobileId) (\<lambda>i.
     io_bind (loginPairV2Entity (dv_web dv) (dv_crypto dv) (mobile_runtime dv) baseUrl Mobile mobileId) (\<lambda>(_, session).
     io_bind (io_lift (auth_of_login baseUrl mobileId i session)) (\<lambda>nextState.
     io_bind (write_authCache baseUrl nextState) (\<lambda>_. io_return nextState))))"

definition ensureMobileAuthV2 :: "'n device \<Rightarrow> string \<Rightarrow> bool \<Rightarrow> ('n mobile_world, mobile_auth) io" where
  "ensureMobileAuthV2 dv baseUrl forceRefresh =
     io_bind (io_lift (normalizePairV2BaseUrl (dv_web dv) baseUrl)) (\<lambda>normalizedBaseUrl.
     io_bind (ensureMobileId dv) (\<lambda>mobileId.
     io_bind (read_authCache normalizedBaseUrl) (\<lambda>cached.
     io_bind (now_env dv) (\<lambda>e.
       case (if forceRefresh then None else cached) of
         Some a \<Rightarrow> if auth_fresh e a then io_return a else refreshMobileAuth dv normalizedBaseUrl mobileId
       | None \<Rightarrow> refreshMobileAuth dv normalizedBaseUrl mobileId))))"

definition heartbeatMobilePresenceV2 :: "'n device \<Rightarrow> string \<Rightarrow> ('n mobile_world, unit) io" where
  "heartbeatMobilePresenceV2 dv baseUrl =
     io_bind (ensureMobileAuthV2 dv baseUrl False) (\<lambda>auth.
     io_bind (heartbeatPairV2Entity (dv_web dv) (mobile_runtime dv) (ma_baseUrl auth) (ma_token auth)
         (JObj [(''platform'', JStr (dv_os dv)), (''appVersion'', JStr (resolveMobileAppVersion dv)),
           (''capabilities'', JObj [(''signaling'', JArr [JStr ''sse'']),
             (''pairing'', JArr [JStr ''qr'', JStr ''safety-code'']), (''chat'', JBool True)])]))
       (\<lambda>_. io_return ()))"

definition read_iceCache :: "string \<Rightarrow> ('n mobile_world, (ice_server list \<times> jsnum) option) io" where
  "read_iceCache k w = (Inr (map_of (mb_iceCache w) k), w)"

definition write_iceCache :: "string \<Rightarrow> ice_server list \<Rightarrow> jsnum \<Rightarrow> ('n mobile_world, unit) io" where
  "write_iceCache k servers expires w =
     (Inr (), w\<lparr>mb_iceCache := AList.update k (servers, expires) (mb_iceCache w)\<rparr>)"

text \<open>\<open>n * 1000\<close>.\<close>

fun js_thousand :: "jsnum \<Rightarrow> jsnum" where
  "js_thousand (Fin q) = Fin (q * 1000)"
| "js_thousand n = n"

definition ice_from_service :: "'n device \<Rightarrow> string \<Rightarrow> string \<Rightarrow> ice_server list \<Rightarrow> ('n mobile_world, ice_server list) io" where
  "ice_from_service dv base token fallback =
     io_bind (getPairV2ICEServers (dv_web dv) (mobile_runtime dv) base token) (\<lambda>(servers, ttl).
     io_bind (now_env dv) (\<lambda>e.
       let iceServers = normalizePairV2IceServers (JArr (map ice_json servers)) fallback
       in io_bind (write_iceCache base iceServers (js_add (e_now e) (js_thousand (ice_ttl (JNum ttl)))))
            (\<lambda>_. io_return iceServers)))"

definition resolveSessionIceServersV2 ::
  "'n device \<Rightarrow> string \<Rightarrow> string \<Rightarrow> bool \<Rightarrow> ('n mobile_world, ice_server list) io" where
  "resolveSessionIceServersV2 dv baseUrl token forceRefresh =
     io_bind (io_lift (normalizePairV2BaseUrl (dv_web dv) baseUrl)) (\<lambda>base.
       let fallback = normalizePairV2IceServers (JArr (map ice_json defaultIceServers)) defaultIceServers in
       io_bind (read_iceCache base) (\<lambda>cached.
       io_bind (now_env dv) (\<lambda>e.
         let fresh = (case cached of
               Some (servers, expires) \<Rightarrow>
                 if \<not> forceRefresh \<and> js_less (js_add (e_now e) (Fin 5000)) expires then Some servers else None
             | None \<Rightarrow> None)
         in case fresh of
              Some servers \<Rightarrow> io_return servers
            | None \<Rightarrow>
              if base = [] \<or> token = [] then io_return fallback
              else io_catch (ice_from_service dv base token fallback) (\<lambda>_.
                io_bind (now_env dv) (\<lambda>e'.
                io_bind (write_iceCache base fallback (js_add (e_now e') (Fin 60000)))
                  (\<lambda>_. io_return fallback))))))"

section \<open>The list of sessions\<close>

definition same_session :: "session_item \<Rightarrow> session_item \<Rightarrow> bool" where
  "same_session next item =
     (si_id item = si_id next \<or>
      (si_bindingId item \<noteq> [] \<and> si_bindingId item = si_bindingId next) \<or>
      (si_deviceId item \<noteq> [] \<and> si_deviceId item = si_deviceId next))"

fun find_index :: "('a \<Rightarrow> bool) \<Rightarrow> 'a list \<Rightarrow> nat option" where
  "find_index P [] = None"
| "find_index P (x # xs) = (if P x then Some 0 else map_option Suc (find_index P xs))"

definition upsertSessions :: "'n device \<Rightarrow> session_item list \<Rightarrow> session_item \<Rightarrow> session_item list" where
  "upsertSessions dv current nextSession =
     (case find_index (same_session nextSession) current of
        None \<Rightarrow> nextSession # current
      | Some i \<Rightarrow> current[i := normalizeSession dv (Some (current ! i)) nextSession])"

definition or_text :: "string \<Rightarrow> string option \<Rightarrow> string" where
  "or_text s t = (if s \<noteq> [] then s else case t of Some u \<Rightarrow> u | None \<Rightarrow> [])"

definition trust_of :: "string \<Rightarrow> string" where
  "trust_of s = (if s = [] then ''pending'' else s)"

record binding_options =
  bo_existing :: "session_item option"
  bo_baseUrl :: string
  bo_serverToken :: string
  bo_binding :: jsval
  bo_safetyCode :: string
  bo_mobilePublicKey :: string
  bo_presence :: jsval

definition existing_opt :: "(session_item \<Rightarrow> string option) \<Rightarrow> session_item option \<Rightarrow> string option" where
  "existing_opt f existing = (case existing of Some s \<Rightarrow> f s | None \<Rightarrow> None)"

definition existing_num :: "(session_item \<Rightarrow> jsnum option) \<Rightarrow> session_item option \<Rightarrow> jsnum option" where
  "existing_num f existing = (case existing of Some s \<Rightarrow> f s | None \<Rightarrow> None)"

definition last_seen :: "jsval \<Rightarrow> jsnum option \<Rightarrow> jsnum" where
  "last_seen presence seen =
     js_number_or_zero (js_or (js_get presence ''lastSeenAt'') (case seen of Some n \<Rightarrow> JNum n | None \<Rightarrow> JUndef))"

definition binding_mobile_name :: "'n device \<Rightarrow> binding_options \<Rightarrow> string" where
  "binding_mobile_name dv bo =
     first_text [normalizePairV2MobileName (js_get (bo_binding bo) ''mobileName''),
       or_text [] (existing_opt si_mobileName (bo_existing bo)), resolveLocalMobileName dv]"

definition binding_preview :: "'n device \<Rightarrow> binding_options \<Rightarrow> string" where
  "binding_preview dv bo =
     (let trustState = trust_of (js_text (js_get (bo_binding bo) ''trustState''));
          peerState = js_trim (or_text [] (existing_opt si_peerState (bo_existing bo)));
          relayReady = (trustState = ''active'' \<and> presence_online (bo_presence bo))
      in if peerState = ''connected'' \<or> relayReady
         then (if peerState = ''connected'' then tx_p2pReady (dv_texts dv) else tx_relayReady (dv_texts dv))
         else if isPeerNegotiating peerState then tx_negotiating (dv_texts dv)
         else describeSession dv trustState
           (or_text (bo_safetyCode bo) (existing_opt si_safetyCode (bo_existing bo))) (bo_presence bo))"

definition binding_messages :: "'n device \<Rightarrow> env \<Rightarrow> binding_options \<Rightarrow> chat_message list" where
  "binding_messages dv e bo =
     (if trust_of (js_text (js_get (bo_binding bo) ''trustState'')) = ''pending''
      then normalizePendingMessages dv e (bo_existing bo) (binding_preview dv bo)
      else case bo_existing bo of
        Some s \<Rightarrow> if si_messages s \<noteq> [] then si_messages s else [buildInfoMessage dv e (binding_preview dv bo)]
      | None \<Rightarrow> [buildInfoMessage dv e (binding_preview dv bo)])"

definition session_of_binding :: "'n device \<Rightarrow> env \<Rightarrow> binding_options \<Rightarrow> session_item" where
  "session_of_binding dv e bo =
     (let existing = bo_existing bo; binding = bo_binding bo; presence = bo_presence bo;
          trustState = trust_of (js_text (js_get binding ''trustState''));
          peerState = js_trim (or_text [] (existing_opt si_peerState existing));
          relayReady = (trustState = ''active'' \<and> presence_online presence);
          mobileName = binding_mobile_name dv bo
      in \<lparr>si_id = or_text [] (case existing of Some s \<Rightarrow> if si_id s \<noteq> [] then Some (si_id s) else Some (randomId e ''sess'')
                              | None \<Rightarrow> Some (randomId e ''sess'')),
          si_name = resolveSessionName dv e existing binding mobileName,
          si_status = normalizeStatus trustState presence,
          si_isReplying = False,
          si_createdAt = (case existing of
             Some s \<Rightarrow> if si_createdAt s \<noteq> [] then si_createdAt s else dv_formatDate dv (e_now e)
           | None \<Rightarrow> dv_formatDate dv (e_now e)),
          si_peerLabel = ''Agent Host / '' @ compactPeer dv (reply_text binding ''deviceId''),
          si_preview = binding_preview dv bo,
          si_messages = binding_messages dv e bo,
          si_serverBaseUrl = bo_baseUrl bo,
          si_serverToken = bo_serverToken bo,
          si_deviceId = reply_text binding ''deviceId'',
          si_pairSessionId = reply_text binding ''pairSessionId'',
          si_bindingId = reply_text binding ''bindingId'',
          si_mobileName = Some mobileName,
          si_trustState = Some trustState,
          si_safetyCode = Some (or_text (bo_safetyCode bo) (existing_opt si_safetyCode existing)),
          si_mobilePublicKey = Some (or_text (bo_mobilePublicKey bo) (existing_opt si_mobilePublicKey existing)),
          si_devicePublicKey = Some (or_text (reply_text binding ''devicePublicKey'') (existing_opt si_devicePublicKey existing)),
          si_transportReady = Some (peerState = ''connected'' \<or> relayReady),
          si_lastSeenAt = Some (last_seen presence (existing_num si_lastSeenAt existing)),
          si_peerState = None, si_peerDetail = None, si_peerCapabilities = None, si_missingMessageIds = None,
          si_linkTransport = Some (normalizeLinkTransport (existing_opt si_linkTransport existing)),
          si_linkRttMs = Some (opt_count (existing_num si_linkRttMs existing)),
          si_linkRttAt = Some (opt_count (existing_num si_linkRttAt existing)),
          si_linkProbePending = Some False\<rparr>)"

definition buildSessionFromBinding :: "'n device \<Rightarrow> env \<Rightarrow> binding_options \<Rightarrow> session_item" where
  "buildSessionFromBinding dv e bo = normalizeSession dv (bo_existing bo) (session_of_binding dv e bo)"

section \<open>Storing sessions\<close>

text \<open>
  The object of a message or session, with an optional field left undefined when it is missing.
  Reading back what another program wrote is not checked by the code; a field of the wrong type is
  read as missing here.
\<close>

definition num_val :: "jsnum option \<Rightarrow> jsval" where
  "num_val n = (case n of Some k \<Rightarrow> JNum k | None \<Rightarrow> JUndef)"

definition text_val :: "string option \<Rightarrow> jsval" where
  "text_val s = (case s of Some t \<Rightarrow> JStr t | None \<Rightarrow> JUndef)"

definition bool_val :: "bool option \<Rightarrow> jsval" where
  "bool_val b = (case b of Some c \<Rightarrow> JBool c | None \<Rightarrow> JUndef)"

definition texts_val :: "string list option \<Rightarrow> jsval" where
  "texts_val ts = (case ts of Some ss \<Rightarrow> JArr (map JStr ss) | None \<Rightarrow> JUndef)"

fun kind_val :: "msg_kind option \<Rightarrow> jsval" where
  "kind_val None = JUndef" | "kind_val (Some Chat) = JStr ''chat''" | "kind_val (Some System) = JStr ''system''"

fun origin_val :: "chat_origin option \<Rightarrow> jsval" where
  "origin_val None = JUndef" | "origin_val (Some Host_origin) = JStr ''host''"
| "origin_val (Some Mobile_origin) = JStr ''mobile''"

fun delivery_val :: "delivery_status option \<Rightarrow> jsval" where
  "delivery_val None = JUndef" | "delivery_val (Some Sending) = JStr ''sending''"
| "delivery_val (Some Sent) = JStr ''sent''" | "delivery_val (Some Failed) = JStr ''failed''"

fun status_val :: "ConnectionStatus \<Rightarrow> jsval" where
  "status_val Conn_connected = JStr ''connected''" | "status_val Conn_waiting = JStr ''waiting''"
| "status_val Conn_offline = JStr ''offline''"

definition message_json :: "chat_message \<Rightarrow> jsval" where
  "message_json m =
     JObj [(''id'', JStr (msg_id m)), (''from'', JStr (if msg_from m = Self then ''self'' else ''host'')),
       (''text'', JStr (msg_text m)), (''createdAt'', JStr (msg_createdAt m)), (''ts'', JNum (msg_ts m)),
       (''kind'', kind_val (msg_kind m)), (''origin'', origin_val (msg_origin m)),
       (''originSeq'', num_val (msg_originSeq m)), (''after'', JArr (map JStr (msg_after m))),
       (''missingAfter'', JArr (map JStr (msg_missingAfter m))),
       (''deliveryStatus'', delivery_val (msg_deliveryStatus m)), (''deliveryError'', JStr (msg_deliveryError m))]"

definition caps_val :: "pair_capabilities option \<Rightarrow> jsval" where
  "caps_val c = (case c of None \<Rightarrow> JUndef | Some k \<Rightarrow>
     JObj [(''protocolVersion'', JStr (cap_protocolVersion k)),
       (''supportedMessages'', JArr (map JStr (cap_supportedMessages k))),
       (''features'', texts_val (cap_features k)), (''appId'', text_val (cap_appId k)),
       (''appVersion'', text_val (cap_appVersion k))])"

definition session_json :: "session_item \<Rightarrow> jsval" where
  "session_json s =
     JObj [(''id'', JStr (si_id s)), (''name'', JStr (si_name s)), (''status'', status_val (si_status s)),
       (''isReplying'', JBool (si_isReplying s)), (''createdAt'', JStr (si_createdAt s)),
       (''peerLabel'', JStr (si_peerLabel s)), (''preview'', JStr (si_preview s)),
       (''messages'', JArr (map message_json (si_messages s))), (''serverBaseUrl'', JStr (si_serverBaseUrl s)),
       (''serverToken'', JStr (si_serverToken s)), (''deviceId'', JStr (si_deviceId s)),
       (''pairSessionId'', JStr (si_pairSessionId s)), (''bindingId'', JStr (si_bindingId s)),
       (''mobileName'', text_val (si_mobileName s)), (''trustState'', text_val (si_trustState s)),
       (''safetyCode'', text_val (si_safetyCode s)), (''mobilePublicKey'', text_val (si_mobilePublicKey s)),
       (''devicePublicKey'', text_val (si_devicePublicKey s)), (''transportReady'', bool_val (si_transportReady s)),
       (''lastSeenAt'', num_val (si_lastSeenAt s)), (''peerState'', text_val (si_peerState s)),
       (''peerDetail'', text_val (si_peerDetail s)), (''peerCapabilities'', caps_val (si_peerCapabilities s)),
       (''missingMessageIds'', texts_val (si_missingMessageIds s)), (''linkTransport'', text_val (si_linkTransport s)),
       (''linkRttMs'', num_val (si_linkRttMs s)), (''linkRttAt'', num_val (si_linkRttAt s)),
       (''linkProbePending'', bool_val (si_linkProbePending s))]"

definition get_opt_text :: "jsval \<Rightarrow> string \<Rightarrow> string option" where
  "get_opt_text v k = (case js_get v k of JStr s \<Rightarrow> Some s | _ \<Rightarrow> None)"

definition get_text :: "jsval \<Rightarrow> string \<Rightarrow> string" where
  "get_text v k = (case js_get v k of JStr s \<Rightarrow> s | _ \<Rightarrow> [])"

definition get_opt_num :: "jsval \<Rightarrow> string \<Rightarrow> jsnum option" where
  "get_opt_num v k = (case js_get v k of JNum n \<Rightarrow> Some n | _ \<Rightarrow> None)"

definition get_opt_bool :: "jsval \<Rightarrow> string \<Rightarrow> bool option" where
  "get_opt_bool v k = (case js_get v k of JBool b \<Rightarrow> Some b | _ \<Rightarrow> None)"

definition get_texts :: "jsval \<Rightarrow> string \<Rightarrow> string list" where
  "get_texts v k = concat (map (\<lambda>x. case x of JStr s \<Rightarrow> [s] | _ \<Rightarrow> []) (js_array (js_get v k)))"

definition message_of_json :: "jsval \<Rightarrow> chat_message" where
  "message_of_json v =
     \<lparr>msg_id = get_text v ''id'', msg_from = (if js_get v ''from'' = JStr ''self'' then Self else Host),
       msg_text = get_text v ''text'', msg_createdAt = get_text v ''createdAt'',
       msg_ts = (case get_opt_num v ''ts'' of Some n \<Rightarrow> n | None \<Rightarrow> Fin 0),
       msg_kind = (if js_get v ''kind'' = JStr ''chat'' then Some Chat
                   else if js_get v ''kind'' = JStr ''system'' then Some System else None),
       msg_origin = (if js_get v ''origin'' = JStr ''host'' then Some Host_origin
                     else if js_get v ''origin'' = JStr ''mobile'' then Some Mobile_origin else None),
       msg_originSeq = get_opt_num v ''originSeq'', msg_after = get_texts v ''after'',
       msg_missingAfter = get_texts v ''missingAfter'',
       msg_deliveryStatus = (if js_get v ''deliveryStatus'' = JStr ''sending'' then Some Sending
                             else if js_get v ''deliveryStatus'' = JStr ''sent'' then Some Sent
                             else if js_get v ''deliveryStatus'' = JStr ''failed'' then Some Failed else None),
       msg_deliveryError = get_text v ''deliveryError''\<rparr>"

text \<open>A stored session as \<open>loadStoredSessions\<close> returns it: what belongs to a connection is reset.\<close>

definition stored_session :: "'n device \<Rightarrow> jsval \<Rightarrow> session_item" where
  "stored_session dv v =
     (case reconciled_of dv (map message_of_json (js_array (js_get v ''messages''))) of (ms, missing) \<Rightarrow>
      \<lparr>si_id = get_text v ''id'', si_name = get_text v ''name'',
       si_status = (if js_get v ''status'' = JStr ''connected'' then Conn_connected
                    else if js_get v ''status'' = JStr ''waiting'' then Conn_waiting else Conn_offline),
       si_isReplying = (get_opt_bool v ''isReplying'' = Some True), si_createdAt = get_text v ''createdAt'',
       si_peerLabel = get_text v ''peerLabel'', si_preview = get_text v ''preview'', si_messages = ms,
       si_serverBaseUrl = get_text v ''serverBaseUrl'', si_serverToken = get_text v ''serverToken'',
       si_deviceId = get_text v ''deviceId'', si_pairSessionId = get_text v ''pairSessionId'',
       si_bindingId = get_text v ''bindingId'', si_mobileName = get_opt_text v ''mobileName'',
       si_trustState = get_opt_text v ''trustState'', si_safetyCode = get_opt_text v ''safetyCode'',
       si_mobilePublicKey = get_opt_text v ''mobilePublicKey'', si_devicePublicKey = get_opt_text v ''devicePublicKey'',
       si_transportReady = Some False, si_lastSeenAt = get_opt_num v ''lastSeenAt'', si_peerState = Some [],
       si_peerDetail = Some [], si_peerCapabilities = None, si_missingMessageIds = Some missing,
       si_linkTransport = Some [], si_linkRttMs = Some (Fin 0), si_linkRttAt = Some (Fin 0),
       si_linkProbePending = Some False\<rparr>)"

definition loadStoredSessions :: "'n device \<Rightarrow> ('n mobile_world, session_item list) io" where
  "loadStoredSessions dv =
     io_bind (storage_get SESSIONS_KEY) (\<lambda>s.
       let raw = trimmed_item s in
       if raw = [] then io_return []
       else case json_parse raw of
         Some (JArr vs) \<Rightarrow> io_return (map (stored_session dv) vs)
       | _ \<Rightarrow> io_return [])"

definition saveStoredSessions :: "session_item list \<Rightarrow> ('n mobile_world, unit) io" where
  "saveStoredSessions ss = storage_set SESSIONS_KEY (json_text (JArr (map session_json ss)))"

section \<open>Refreshing the sessions\<close>

text \<open>The sessions of every server, in the order the servers are first met.\<close>

fun group_sessions :: "'n device \<Rightarrow> session_item list \<Rightarrow> (string \<times> session_item list) list \<Rightarrow>
    pair_error + (string \<times> session_item list) list" where
  "group_sessions dv [] grouped = Inr grouped"
| "group_sessions dv (s # ss) grouped =
     sum_bind (normalizePairV2BaseUrl (dv_web dv) (si_serverBaseUrl s)) (\<lambda>baseUrl.
       group_sessions dv ss (AList.update baseUrl
         ((case map_of grouped baseUrl of Some l \<Rightarrow> l | None \<Rightarrow> []) @ [s]) grouped))"

definition active_device_ids :: "session_item list \<Rightarrow> string list" where
  "active_device_ids scoped =
     js_uniq (filter (\<lambda>d. d \<noteq> []) (map (\<lambda>s. js_trim (si_deviceId s))
       (filter (\<lambda>s. js_trim (or_text [] (si_trustState s)) = ''active'') scoped)))"

fun presence_map :: "jsval list \<Rightarrow> (jsval \<times> jsval) list \<Rightarrow> pair_error + (jsval \<times> jsval) list" where
  "presence_map [] acc = Inr acc"
| "presence_map (v # vs) acc =
     sum_bind (js_read v ''deviceId'') (\<lambda>d. presence_map vs (AList.update d v acc))"

definition local_trust :: "session_item \<Rightarrow> string" where
  "local_trust s = trust_of (js_trim (or_text [] (si_trustState s)))"

definition presence_of :: "(jsval \<times> jsval) list \<Rightarrow> session_item \<Rightarrow> jsval" where
  "presence_of pm s =
     (if local_trust s = ''active''
      then js_or (case map_of pm (JStr (js_trim (si_deviceId s))) of Some v \<Rightarrow> v | None \<Rightarrow> JUndef) JNull
      else JNull)"

definition refresh_status :: "session_item \<Rightarrow> jsval \<Rightarrow> ConnectionStatus" where
  "refresh_status s presence =
     (if local_trust s = ''pending'' then Conn_waiting
      else if local_trust s = ''revoked'' then Conn_offline
      else if local_trust s = ''active'' \<and> presence_online presence then Conn_connected
      else Conn_offline)"

definition refresh_preview :: "'n device \<Rightarrow> session_item \<Rightarrow> jsval \<Rightarrow> string" where
  "refresh_preview dv s presence =
     (if local_trust s = ''pending'' then describeSession dv (local_trust s) (or_text [] (si_safetyCode s)) presence
      else if local_trust s = ''revoked'' then tx_revoked (dv_texts dv)
      else if js_trim (or_text [] (si_peerState s)) = ''connected'' then tx_p2pReady (dv_texts dv)
      else if local_trust s = ''active'' \<and> presence_online presence then tx_relayReady (dv_texts dv)
      else tx_pairedOffline (dv_texts dv))"

definition refreshed_session :: "'n device \<Rightarrow> string \<Rightarrow> string \<Rightarrow> (jsval \<times> jsval) list \<Rightarrow> session_item \<Rightarrow> session_item" where
  "refreshed_session dv baseUrl token pm s =
     (let presence = presence_of pm s; nextStatus = refresh_status s presence; off = (nextStatus = Conn_offline)
      in s\<lparr>si_serverBaseUrl := baseUrl, si_serverToken := token, si_status := nextStatus,
          si_preview := refresh_preview dv s presence,
          si_transportReady := Some (js_trim (or_text [] (si_peerState s)) = ''connected'' \<or>
            (local_trust s = ''active'' \<and> presence_online presence)),
          si_lastSeenAt := Some (last_seen presence (si_lastSeenAt s)),
          si_linkTransport := Some (if off then [] else normalizeLinkTransport (si_linkTransport s)),
          si_linkRttMs := Some (if off then Fin 0 else opt_count (si_linkRttMs s)),
          si_linkRttAt := Some (if off then Fin 0 else opt_count (si_linkRttAt s)),
          si_linkProbePending := Some (if off then False else si_linkProbePending s = Some True)\<rparr>)"

definition refresh_one ::
  "'n device \<Rightarrow> string \<Rightarrow> string \<Rightarrow> (jsval \<times> jsval) list \<Rightarrow> session_item \<Rightarrow> session_item list \<Rightarrow> session_item list" where
  "refresh_one dv baseUrl token pm scoped next =
     map (\<lambda>item. if si_id item = si_id scoped
       then normalizeSession dv (Some item) (refreshed_session dv baseUrl token pm scoped) else item) next"

definition refresh_group ::
  "'n device \<Rightarrow> string \<Rightarrow> session_item list \<Rightarrow> session_item list \<Rightarrow> ('n mobile_world, session_item list) io" where
  "refresh_group dv baseUrl scoped next =
     io_bind (ensureMobileAuthV2 dv baseUrl False) (\<lambda>auth.
     let ids = active_device_ids scoped in
     io_bind (if ids \<noteq> [] then queryPairV2Presence (dv_web dv) (mobile_runtime dv) baseUrl (ma_token auth) ids
              else io_return (JObj [(''statuses'', JArr [])])) (\<lambda>presenceResult.
     io_bind (io_lift (presence_map (js_array (js_get presenceResult ''statuses'')) [])) (\<lambda>pm.
       io_return (fold (refresh_one dv baseUrl (ma_token auth) pm) scoped next))))"

definition sync_failed :: "'n device \<Rightarrow> pair_error \<Rightarrow> session_item \<Rightarrow> session_item" where
  "sync_failed dv err item =
     item\<lparr>si_status := Conn_offline, si_preview := tx_syncFailed (dv_texts dv) err, si_linkTransport := Some [],
       si_linkRttMs := Some (Fin 0), si_linkRttAt := Some (Fin 0), si_linkProbePending := Some False\<rparr>"

fun fail_group :: "'n device \<Rightarrow> string \<Rightarrow> pair_error \<Rightarrow> session_item list \<Rightarrow> pair_error + session_item list" where
  "fail_group dv baseUrl err [] = Inr []"
| "fail_group dv baseUrl err (s # ss) =
     sum_bind (normalizePairV2BaseUrl (dv_web dv) (si_serverBaseUrl s)) (\<lambda>b.
     sum_bind (fail_group dv baseUrl err ss) (\<lambda>rest.
       Inr ((if b = baseUrl then sync_failed dv err s else s) # rest)))"

fun refresh_groups ::
  "'n device \<Rightarrow> (string \<times> session_item list) list \<Rightarrow> session_item list \<Rightarrow> ('n mobile_world, session_item list) io" where
  "refresh_groups dv [] next = io_return next"
| "refresh_groups dv ((baseUrl, scoped) # gs) next =
     io_bind (io_catch (refresh_group dv baseUrl scoped next) (\<lambda>err. io_lift (fail_group dv baseUrl err next)))
       (\<lambda>next'. refresh_groups dv gs next')"

definition refreshSessionsV2 :: "'n device \<Rightarrow> session_item list \<Rightarrow> ('n mobile_world, session_item list) io" where
  "refreshSessionsV2 dv currentSessions =
     (if currentSessions = [] then io_return []
      else io_bind (io_lift (group_sessions dv currentSessions [])) (\<lambda>grouped.
           io_bind (refresh_groups dv grouped currentSessions) (\<lambda>nextSessions.
           io_bind (saveStoredSessions nextSessions) (\<lambda>_. io_return nextSessions))))"

section \<open>Pairing by a scanned code\<close>

datatype scan_error = NotJson | NoServer | NoClaimToken | NoPairSession | NoDeviceKey | ScanFailed pair_error

definition check_qr :: "string \<Rightarrow> scan_error + qr_payload" where
  "check_qr raw =
     (case json_parse (js_trim raw) of
        None \<Rightarrow> Inl NotJson
      | Some parsedRaw \<Rightarrow>
        (case parsePairV2QrPayload parsedRaw of
           Inl err \<Rightarrow> Inl (ScanFailed err)
         | Inr qr \<Rightarrow>
           if qr_serverBaseUrl qr = [] then Inl NoServer
           else if qr_claimToken qr = [] then Inl NoClaimToken
           else if qr_pairSessionId qr = [] \<or> qr_sessionNonce qr = [] then Inl NoPairSession
           else if qr_devicePubkey qr = [] then Inl NoDeviceKey
           else Inr qr))"

definition find_session :: "(session_item \<Rightarrow> bool) \<Rightarrow> session_item list \<Rightarrow> session_item option" where
  "find_session P ss = (case filter P ss of [] \<Rightarrow> None | s # _ \<Rightarrow> Some s)"

definition session_of :: "jsval \<Rightarrow> session_item list \<Rightarrow> session_item option" where
  "session_of binding ss =
     opt_or (find_session (\<lambda>s. JStr (si_bindingId s) = js_get binding ''bindingId'') ss)
            (find_session (\<lambda>s. JStr (si_deviceId s) = js_get binding ''deviceId'') ss)"

record scan_result =
  sr_sessions :: "session_item list"
  sr_session :: session_item
  sr_created :: bool

definition pair_claimed ::
  "'n device \<Rightarrow> qr_payload \<Rightarrow> string \<Rightarrow> mobile_auth \<Rightarrow> jsval \<Rightarrow> session_item list \<Rightarrow> ('n mobile_world, scan_result) io" where
  "pair_claimed dv qr baseUrl auth binding currentSessions =
     (if binding = JUndef \<or> binding = JNull then io_throw ReadOfNullish
      else io_bind (now_env dv) (\<lambda>e.
        let safetyCode = computePairV2SafetyCode (dv_crypto dv)
              \<lparr>sp_devicePublicKey = qr_devicePubkey qr, sp_mobilePublicKey = ma_publicKey auth,
               sp_pairSessionId = qr_pairSessionId qr, sp_sessionNonce = qr_sessionNonce qr\<rparr>;
            existing = session_of binding currentSessions;
            draftSession = buildSessionFromBinding dv e
              \<lparr>bo_existing = existing, bo_baseUrl = baseUrl, bo_serverToken = ma_token auth, bo_binding = binding,
               bo_safetyCode = safetyCode, bo_mobilePublicKey = ma_publicKey auth, bo_presence = JUndef\<rparr>
        in io_bind (refreshSessionsV2 dv (upsertSessions dv currentSessions draftSession)) (\<lambda>refreshed.
             let finalSession =
                   (case opt_or (find_session (\<lambda>s. si_bindingId s = si_bindingId draftSession) refreshed)
                                (find_session (\<lambda>s. si_id s = si_id draftSession) refreshed) of
                      Some s \<Rightarrow> s | None \<Rightarrow> draftSession)
             in io_bind (saveStoredSessions refreshed) (\<lambda>_.
                  io_return \<lparr>sr_sessions = refreshed, sr_session = finalSession, sr_created = (existing = None)\<rparr>))))"

definition pairByScanV2 :: "'n device \<Rightarrow> string \<Rightarrow> session_item list \<Rightarrow> 'n mobile_world \<Rightarrow>
    (scan_error + scan_result) \<times> 'n mobile_world" where
  "pairByScanV2 dv raw currentSessions w =
     (case check_qr raw of
        Inl err \<Rightarrow> (Inl err, w)
      | Inr qr \<Rightarrow>
        (case io_bind (io_lift (normalizePairV2BaseUrl (dv_web dv) (qr_serverBaseUrl qr))) (\<lambda>baseUrl.
              io_bind (ensureMobileAuthV2 dv baseUrl True) (\<lambda>auth.
              io_bind (claimPairV2Session (dv_web dv) (mobile_runtime dv) baseUrl (ma_token auth) (qr_claimToken qr)
                 (JStr (resolveLocalMobileName dv))) (\<lambda>claimResult.
              pair_claimed dv qr baseUrl auth (js_get claimResult ''binding'') currentSessions))) w of
           (Inl err, w') \<Rightarrow> (Inl (ScanFailed err), w')
         | (Inr r, w') \<Rightarrow> (Inr r, w')))"

section \<open>Refreshing keeps the sessions\<close>

lemma normalizeSession_existing [simp]:
  "si_id (normalizeSession dv (Some ex) next) = si_id next"
  "si_status (normalizeSession dv (Some ex) next) = si_status next"
  "si_trustState (normalizeSession dv (Some ex) next) = opt_or (si_trustState next) (si_trustState ex)"
  "si_bindingId (normalizeSession dv (Some ex) next) = si_bindingId next"
  "si_deviceId (normalizeSession dv (Some ex) next) = si_deviceId next"
  by (simp_all add: normalizeSession_def spread_session_def split: prod.split)

text \<open>A session is shown as connected only if its binding is active.\<close>

definition honest_status :: "session_item \<Rightarrow> bool" where
  "honest_status s = (si_status s = Conn_connected \<longrightarrow> local_trust s = ''active'')"

lemma refreshed_session_simps [simp]:
  "si_id (refreshed_session dv b tok pm s) = si_id s"
  "si_trustState (refreshed_session dv b tok pm s) = si_trustState s"
  "si_status (refreshed_session dv b tok pm s) = refresh_status s (presence_of pm s)"
  by (simp_all add: refreshed_session_def Let_def)

lemma local_trust_cong: "si_trustState s = si_trustState t \<Longrightarrow> local_trust s = local_trust t"
  by (simp add: local_trust_def)

lemma refresh_honest: "honest_status (normalizeSession dv (Some item) (refreshed_session dv b tok pm s))"
proof (cases "si_trustState s")
  case None
  then have "local_trust s = ''pending''" by (simp add: local_trust_def trust_of_def or_text_def)
  then show ?thesis by (simp add: honest_status_def refresh_status_def)
next
  case (Some t)
  then have "local_trust (normalizeSession dv (Some item) (refreshed_session dv b tok pm s)) = local_trust s"
    by (intro local_trust_cong) (simp add: opt_or_def)
  then show ?thesis by (auto simp: honest_status_def refresh_status_def split: if_splits)
qed

lemma sync_failed_honest: "honest_status (sync_failed dv err s)" "si_id (sync_failed dv err s) = si_id s"
  by (simp_all add: honest_status_def sync_failed_def)

text \<open>
  How the list under refresh relates to the given one when the groups of the keys \<open>K\<close> are done: the
  same ids in the same order, and a session is honest unless it is still the given one and its
  server is still to come.
\<close>

definition server_of :: "'n device \<Rightarrow> session_item \<Rightarrow> pair_error + string" where
  "server_of dv s = normalizePairV2BaseUrl (dv_web dv) (si_serverBaseUrl s)"

definition refresh_rel :: "'n device \<Rightarrow> string set \<Rightarrow> session_item \<Rightarrow> session_item \<Rightarrow> bool" where
  "refresh_rel dv K c n =
     (si_id n = si_id c \<and> (honest_status n \<or> (n = c \<and> (\<forall>k \<in> K. server_of dv c \<noteq> Inr k))))"

lemma refresh_rel_start: "list_all2 (refresh_rel dv {}) ss ss"
  by (simp add: list_all2_refl refresh_rel_def)

definition in_refresh :: "'n device \<Rightarrow> string set \<Rightarrow> session_item list \<Rightarrow> session_item \<Rightarrow> session_item \<Rightarrow> bool" where
  "in_refresh dv K scoped c n =
     (si_id n = si_id c \<and>
      (honest_status n \<or> (n = c \<and> si_id c \<notin> si_id ` set scoped \<and> (\<forall>k \<in> K. server_of dv c \<noteq> Inr k))))"

lemma refresh_one_rel:
  assumes "list_all2 (in_refresh dv K scoped) cs ns"
  shows "list_all2 (in_refresh dv K (scoped @ [x])) cs (refresh_one dv b tok pm x ns)"
  using assms unfolding refresh_one_def list_all2_map2
  by (rule list_all2_mono) (auto simp: in_refresh_def refresh_honest)

lemma refresh_fold:
  assumes "list_all2 (refresh_rel dv K) cs ns"
  shows "list_all2 (in_refresh dv K scoped) cs (fold (refresh_one dv b tok pm) scoped ns)"
proof (induction scoped rule: rev_induct)
  case Nil
  show ?case using assms by (auto simp: refresh_rel_def in_refresh_def elim!: list_all2_mono)
next
  case (snoc x xs)
  then show ?case by (simp add: refresh_one_rel)
qed

lemma refresh_group_rel:
  assumes "list_all2 (refresh_rel dv K) cs ns"
    and "\<And>c. c \<in> set cs \<Longrightarrow> server_of dv c = Inr b \<Longrightarrow> c \<in> set scoped"
    and "refresh_group dv b scoped ns w = (Inr r, w')"
  shows "list_all2 (refresh_rel dv (insert b K)) cs r"
proof -
  obtain tok pm where r: "r = fold (refresh_one dv b tok pm) scoped ns"
    using assms(3) unfolding refresh_group_def Let_def
    by (auto simp: io_bind_Inr io_lift_Inr io_return_def)
  have "list_all2 (\<lambda>c n. c \<in> set cs \<and> in_refresh dv K scoped c n) cs r"
    using refresh_fold [OF assms(1), of scoped b tok pm] unfolding r
    by (auto simp: list_all2_conv_all_nth)
  then show ?thesis
    by (rule list_all2_mono) (use assms(2) in \<open>auto simp: refresh_rel_def in_refresh_def\<close>)
qed

lemma fail_group_rel:
  assumes "fail_group dv b err ns = Inr r" "list_all2 (refresh_rel dv K) cs ns"
  shows "list_all2 (refresh_rel dv (insert b K)) cs r"
  using assms
proof (induction ns arbitrary: cs r)
  case (Cons n ns)
  obtain u rest where u: "server_of dv n = Inr u" "fail_group dv b err ns = Inr rest"
    "r = (if u = b then sync_failed dv err n else n) # rest"
    using Cons.prems(1) by (auto simp: sum_bind_Inr server_of_def)
  from Cons.prems(2) obtain c cs' where cs: "cs = c # cs'" "refresh_rel dv K c n" "list_all2 (refresh_rel dv K) cs' ns"
    by (auto simp: list_all2_Cons2)
  have "refresh_rel dv (insert b K) c (if u = b then sync_failed dv err n else n)"
    using cs(2) u(1) sync_failed_honest [of dv err n] by (auto simp: refresh_rel_def)
  then show ?case using Cons.IH [OF u(2) cs(3)] by (simp add: cs(1) u(3))
qed simp

lemma refresh_groups_rel:
  assumes "refresh_groups dv gs ns w = (Inr r, w')" "list_all2 (refresh_rel dv K) cs ns"
    and "\<And>b scoped c. (b, scoped) \<in> set gs \<Longrightarrow> c \<in> set cs \<Longrightarrow> server_of dv c = Inr b \<Longrightarrow> c \<in> set scoped"
  shows "list_all2 (refresh_rel dv (K \<union> fst ` set gs)) cs r"
  using assms
proof (induction gs arbitrary: ns w K)
  case Nil
  then show ?case by (simp add: io_return_def)
next
  case (Cons g gs)
  obtain b scoped where g: "g = (b, scoped)" by (cases g)
  from Cons.prems(1) obtain ns' v where
    m: "io_catch (refresh_group dv b scoped ns) (\<lambda>err. io_lift (fail_group dv b err ns)) w = (Inr ns', v)"
    and rest: "refresh_groups dv gs ns' v = (Inr r, w')"
    by (auto simp: g io_bind_Inr)
  have "list_all2 (refresh_rel dv (insert b K)) cs ns'"
  proof (cases "refresh_group dv b scoped ns w")
    case (Pair res v')
    show ?thesis
    proof (cases res)
      case (Inl err)
      with m Pair have "fail_group dv b err ns = Inr ns'" by (simp add: io_catch_def io_lift_Inr)
      then show ?thesis using Cons.prems(2) by (rule fail_group_rel)
    next
      case (Inr x)
      with m Pair have "refresh_group dv b scoped ns w = (Inr ns', v')" by (simp add: io_catch_def)
      then show ?thesis using Cons.prems(2,3) g by (intro refresh_group_rel) auto
    qed
  qed
  from Cons.IH [OF rest this] Cons.prems(3) have "list_all2 (refresh_rel dv (insert b K \<union> fst ` set gs)) cs r" by auto
  then show ?case by (simp add: g)
qed

text \<open>The groups: every session is in the group of its server.\<close>

lemma group_sessions_spec:
  assumes "group_sessions dv ss grouped = Inr gs"
    and "\<And>b scoped c. (b, scoped) \<in> set grouped \<Longrightarrow> c \<in> set seen \<Longrightarrow> server_of dv c = Inr b \<Longrightarrow> c \<in> set scoped"
    and "\<And>c. c \<in> set seen \<Longrightarrow> \<exists>b. server_of dv c = Inr b \<and> b \<in> fst ` set grouped"
    and "distinct (map fst grouped)"
  shows "(\<forall>b scoped c. (b, scoped) \<in> set gs \<longrightarrow> c \<in> set (seen @ ss) \<longrightarrow> server_of dv c = Inr b \<longrightarrow> c \<in> set scoped) \<and>
    (\<forall>c \<in> set (seen @ ss). \<exists>b. server_of dv c = Inr b \<and> b \<in> fst ` set gs)"
  using assms
proof (induction ss arbitrary: grouped seen)
  case Nil
  then show ?case by auto
next
  case (Cons s ss)
  obtain b where b: "server_of dv s = Inr b" using Cons.prems(1) by (auto simp: sum_bind_Inr server_of_def)
  define new where "new = (case map_of grouped b of Some l \<Rightarrow> l | None \<Rightarrow> []) @ [s]"
  have g: "group_sessions dv ss (AList.update b new grouped) = Inr gs"
    using Cons.prems(1) b by (simp add: sum_bind_Inr server_of_def new_def)
  have set_upd: "(k, v) \<in> set (AList.update b new grouped) \<longleftrightarrow> (if k = b then v = new else (k, v) \<in> set grouped)" for k v
  proof -
    have "map_of (AList.update b new grouped) k = Some v \<longleftrightarrow> (if k = b then v = new else map_of grouped k = Some v)"
      by (auto simp: update_conv)
    moreover have "distinct (map fst (AList.update b new grouped))" using Cons.prems(4) by (simp add: distinct_update)
    ultimately show ?thesis using Cons.prems(4) by (simp add: map_of_eq_Some_iff split: if_splits)
  qed
  have IH: "(\<forall>b scoped c. (b, scoped) \<in> set gs \<longrightarrow> c \<in> set ((seen @ [s]) @ ss) \<longrightarrow> server_of dv c = Inr b \<longrightarrow> c \<in> set scoped) \<and>
    (\<forall>c \<in> set ((seen @ [s]) @ ss). \<exists>b. server_of dv c = Inr b \<and> b \<in> fst ` set gs)"
  proof (rule Cons.IH [OF g])
    show "c \<in> set scoped" if kc: "(k, scoped) \<in> set (AList.update b new grouped)" "c \<in> set (seen @ [s])" "server_of dv c = Inr k" for k scoped c
    proof (cases "k = b")
      case True
      then have sc: "scoped = new" using kc(1) by (simp add: set_upd)
      show ?thesis
      proof (cases "c = s")
        case False
        then have c: "c \<in> set seen" using kc(2) by simp
        obtain b' where "server_of dv c = Inr b'" "b' \<in> fst ` set grouped" using Cons.prems(3) [OF c] by blast
        then obtain l where l: "(b, l) \<in> set grouped" using kc(3) True by auto
        then have "c \<in> set l" using Cons.prems(2) c kc(3) True by blast
        moreover have "map_of grouped b = Some l" using l Cons.prems(4) by simp
        ultimately show ?thesis by (simp add: sc new_def)
      qed (simp add: sc new_def)
    next
      case False
      then have "(k, scoped) \<in> set grouped" using kc(1) by (simp add: set_upd)
      moreover have "c \<noteq> s" using kc(3) b False by auto
      ultimately show ?thesis using Cons.prems(2) kc by auto
    qed
    show "\<exists>k. server_of dv c = Inr k \<and> k \<in> fst ` set (AList.update b new grouped)" if "c \<in> set (seen @ [s])" for c
      using that b Cons.prems(3) [of c] by (auto simp: dom_update [unfolded dom_map_of_conv_image_fst])
    show "distinct (map fst (AList.update b new grouped))" using Cons.prems(4) by (simp add: distinct_update)
  qed
  then show ?case by simp
qed

text \<open>C7: A refresh that returns keeps the sessions, their ids and their order, whether the servers
  answer or fail, and shows a session as connected only if its binding is active.\<close>

theorem refresh_keeps_sessions:
  assumes "refreshSessionsV2 dv ss w = (Inr r, w')"
  shows "map si_id r = map si_id ss \<and> list_all honest_status r"
proof (cases "ss = []")
  case True
  then show ?thesis using assms by (simp add: refreshSessionsV2_def)
next
  case False
  then obtain gs v where gs: "group_sessions dv ss [] = Inr gs" and r: "refresh_groups dv gs ss w = (Inr r, v)"
    using assms by (auto simp: refreshSessionsV2_def io_bind_Inr io_lift_Inr io_return_def)
  have spec: "(\<forall>b scoped c. (b, scoped) \<in> set gs \<longrightarrow> c \<in> set ss \<longrightarrow> server_of dv c = Inr b \<longrightarrow> c \<in> set scoped) \<and>
    (\<forall>c \<in> set ss. \<exists>b. server_of dv c = Inr b \<and> b \<in> fst ` set gs)"
    using group_sessions_spec [OF gs, of "[]"] by simp
  have "list_all2 (refresh_rel dv ({} \<union> fst ` set gs)) ss r"
    using r refresh_rel_start by (rule refresh_groups_rel) (use spec in blast)
  then have "list_all2 (\<lambda>c n. si_id n = si_id c \<and> honest_status n) ss r"
    unfolding list_all2_conv_all_nth
  proof (intro conjI allI impI; (elim conjE)?)
    fix i assume l: "length ss = length r" "i < length ss"
      and a: "\<forall>i<length ss. refresh_rel dv ({} \<union> fst ` set gs) (ss ! i) (r ! i)"
    obtain b where "server_of dv (ss ! i) = Inr b" "b \<in> fst ` set gs" using spec l(2) nth_mem by blast
    with a l(2) show "si_id (r ! i) = si_id (ss ! i)" "honest_status (r ! i)"
      unfolding refresh_rel_def by blast+
  qed
  then show ?thesis by (auto simp: list_all2_conv_all_nth list_all_length intro: nth_equalityI)
qed

lemma refresh_single:
  assumes "server_of dv s = Inr b"
  shows "\<exists>r w'. refreshSessionsV2 dv [s] w = (Inr r, w')"
proof -
  have g: "group_sessions dv [s] [] = Inr [(b, [s])]" using assms by (simp add: server_of_def)
  obtain r v where "io_catch (refresh_group dv b [s] [s]) (\<lambda>err. io_lift (fail_group dv b err [s])) w = (Inr r, v)"
  proof (cases "refresh_group dv b [s] [s] w")
    case (Pair res v)
    show ?thesis
    proof (cases res)
      case (Inl err)
      have "fail_group dv b err [s] = Inr [sync_failed dv err s]" using assms by (simp add: server_of_def)
      then show ?thesis using that [of "[sync_failed dv err s]" v] Pair Inl by (simp add: io_catch_def io_lift_def)
    next
      case (Inr r)
      then show ?thesis using that [of r v] Pair by (simp add: io_catch_def)
    qed
  qed
  then show ?thesis using g
    by (simp add: refreshSessionsV2_def io_bind_def io_lift_def io_return_def saveStoredSessions_def storage_set_def)
qed

section \<open>A device for examples\<close>

definition demo_texts :: mobile_texts where
  "demo_texts = \<lparr>tx_phone = ''phone'', tx_connection = ''link'', tx_waitingHost = ''waiting'',
     tx_confirmCode = (\<lambda>c. ''confirm '' @ c), tx_confirm = ''confirm'', tx_revoked = ''revoked'',
     tx_preparing = ''preparing'', tx_pairedOffline = ''offline'', tx_p2pReady = ''p2p'', tx_relayReady = ''relay'',
     tx_negotiating = ''negotiating'', tx_syncFailed = (\<lambda>e. ''failed'')\<rparr>"

definition demo_crypto :: crypto where
  "demo_crypto = \<lparr>c_b64enc = (\<lambda>bs. if bs = [] then [] else ''k''), c_b64dec = (\<lambda>s. Inr []), c_from_seed = (\<lambda>s. s),
     c_sign = (\<lambda>m k. k), c_verify = (\<lambda>m s k. True), c_sha256 = (\<lambda>m. []), c_subtle = None\<rparr>"

text \<open>A device without a network.\<close>

definition demo_device :: "unit device" where
  "demo_device =
     \<lparr>dv_env = (\<lambda>_. \<lparr>e_now = Fin 7, e_uuid = Some ''u-1'', e_hex = ''0.1''\<rparr>),
       dv_fetch = (\<lambda>rq n. (Inl (Thrown ''offline''), n)), dv_keyPair = (\<lambda>n. (Inr ([1], [2]), n)),
       dv_crypto = demo_crypto, dv_web = sample_web, dv_deviceName = JUndef, dv_expoName = JUndef,
       dv_nativeAppVersion = JUndef, dv_expoVersion = JUndef, dv_os = ''ios'', dv_formatDate = (\<lambda>n. ''date''),
       dv_formatTime = (\<lambda>n. ''time''), dv_texts = demo_texts, dv_sort = js_sort, dv_localeCompare = js_string_cmp\<rparr>"

definition demo_world :: "unit mobile_world" where
  "demo_world = \<lparr>mb_storage = (\<lambda>_. None), mb_authCache = [], mb_iceCache = [], mb_net = ()\<rparr>"

definition demo_session :: session_item where
  "demo_session =
     \<lparr>si_id = ''s1'', si_name = ''n'', si_status = Conn_connected, si_isReplying = False, si_createdAt = ''c'',
       si_peerLabel = ''l'', si_preview = ''p'', si_messages = [], si_serverBaseUrl = ''http://h.org'',
       si_serverToken = ''t'', si_deviceId = ''d1'', si_pairSessionId = ''ps1'', si_bindingId = ''b1'',
       si_mobileName = None, si_trustState = Some ''active'', si_safetyCode = None, si_mobilePublicKey = None,
       si_devicePublicKey = None, si_transportReady = None, si_lastSeenAt = Some (Fin 9), si_peerState = Some ''connected'',
       si_peerDetail = None, si_peerCapabilities = None, si_missingMessageIds = None, si_linkTransport = None,
       si_linkRttMs = None, si_linkRttAt = None, si_linkProbePending = None\<rparr>"

lemma demo_server: "server_of demo_device demo_session = Inr ''http://h.org''"
  by code_simp

theorem refresh_keeps_sessions_witness:
  "\<exists>r w'. refreshSessionsV2 demo_device [demo_session] demo_world = (Inr r, w') \<and>
     map si_id r = [''s1''] \<and> list_all honest_status r"
proof -
  obtain r w' where r: "refreshSessionsV2 demo_device [demo_session] demo_world = (Inr r, w')"
    using refresh_single [OF demo_server] by blast
  then show ?thesis using refresh_keeps_sessions [OF r] by (auto simp: demo_session_def)
qed

section \<open>The identity of the device\<close>

interpretation mobile: kv_store mobile_store
  by unfold_locales (auto simp: mobile_store_def storage_get_def storage_set_def)

lemma mobile_runtime_simps [simp]:
  "pairV2Storage (mobile_runtime dv) = Some mobile_store" "rt_keyPair (mobile_runtime dv) = lift_net (dv_keyPair dv)"
  by (simp_all add: mobile_runtime_def configurePairV2Storage_def)

text \<open>The identity of a mobile device is stable: once an identity has been obtained for an id, from
  the storage or freshly made, asking again gives the same keys and changes nothing.\<close>

theorem mobile_identity_stable:
  assumes "keys_ok (dv_crypto dv) (mobile_runtime dv)"
    and "getOrCreatePairV2Identity (dv_crypto dv) (mobile_runtime dv) t entityId w = (Inr i, w')"
  shows "getOrCreatePairV2Identity (dv_crypto dv) (mobile_runtime dv) t entityId w' = (Inr i, w')"
  using mobile.identity_stable [of "mobile_runtime dv"] assms by simp

definition demo_identity :: "(pair_error + identity) \<times> unit mobile_world" where
  "demo_identity = getOrCreatePairV2Identity demo_crypto (mobile_runtime demo_device) Mobile ''m1'' demo_world"

lemma demo_identity_made: "fst demo_identity = Inr \<lparr>idn_entityId = ''m1'', idn_publicKey = ''k'', idn_privateKey = ''k''\<rparr>"
  by code_simp

theorem mobile_identity_stable_witness:
  "getOrCreatePairV2Identity demo_crypto (mobile_runtime demo_device) Mobile ''m1'' (snd demo_identity) =
     (Inr \<lparr>idn_entityId = ''m1'', idn_publicKey = ''k'', idn_privateKey = ''k''\<rparr>, snd demo_identity)"
proof -
  have d: "dv_crypto demo_device = demo_crypto" by (simp add: demo_device_def)
  have "keys_ok demo_crypto (mobile_runtime demo_device)"
    by (auto simp: keys_ok_def demo_crypto_def lift_net_def demo_device_def split: prod.splits)
  moreover have "getOrCreatePairV2Identity demo_crypto (mobile_runtime demo_device) Mobile ''m1'' demo_world =
      (Inr \<lparr>idn_entityId = ''m1'', idn_publicKey = ''k'', idn_privateKey = ''k''\<rparr>, snd demo_identity)"
    using demo_identity_made unfolding demo_identity_def by (metis prod.collapse)
  ultimately show ?thesis using mobile_identity_stable [of demo_device] by (simp add: d)
qed

section \<open>The list of sessions stays consistent\<close>

definition distinct_by :: "('a \<Rightarrow> string) \<Rightarrow> 'a list \<Rightarrow> bool" where
  "distinct_by f xs = (\<forall>i < length xs. \<forall>j < length xs. i \<noteq> j \<longrightarrow> f (xs ! i) \<noteq> [] \<longrightarrow> f (xs ! i) \<noteq> f (xs ! j))"

definition sessions_ok :: "session_item list \<Rightarrow> bool" where
  "sessions_ok ss = (distinct_by si_id ss \<and> distinct_by si_bindingId ss \<and> distinct_by si_deviceId ss)"

lemma distinct_by_Cons:
  assumes "distinct_by f xs" "f x \<notin> f ` set xs" shows "distinct_by f (x # xs)"
  unfolding distinct_by_def
proof (intro allI impI)
  fix i j assume ij: "i < length (x # xs)" "j < length (x # xs)" "i \<noteq> j" "f ((x # xs) ! i) \<noteq> []"
  have new: "f x \<noteq> f (xs ! k)" if "k < length xs" for k using assms(2) nth_mem [OF that] by force
  show "f ((x # xs) ! i) \<noteq> f ((x # xs) ! j)"
  proof (cases i; cases j)
    fix i' j' assume "i = Suc i'" "j = Suc j'"
    then show ?thesis using ij assms(1) by (simp add: distinct_by_def)
  qed (use ij new in \<open>auto simp: eq_commute [of _ "f x"]\<close>)
qed

lemma distinct_by_update:
  assumes "distinct_by f xs" "i < length xs" "\<And>j. j < length xs \<Longrightarrow> j \<noteq> i \<Longrightarrow> f x = f (xs ! j) \<Longrightarrow> f x = []"
  shows "distinct_by f (xs[i := x])"
  using assms unfolding distinct_by_def by (auto simp: nth_list_update) metis+

lemma find_index_None: "find_index P xs = None \<longleftrightarrow> (\<forall>x \<in> set xs. \<not> P x)"
  by (induction xs) auto

lemma find_index_Some: "find_index P xs = Some i \<Longrightarrow> i < length xs \<and> P (xs ! i)"
  by (induction xs arbitrary: i) (auto split: if_splits)

lemma find_session_Some: "find_session P ss = Some s \<Longrightarrow> s \<in> set ss \<and> P s"
proof (cases "filter P ss")
  case (Cons a xs)
  assume "find_session P ss = Some s"
  with Cons have "s = a" by (simp add: find_session_def)
  moreover have "a \<in> set (filter P ss)" unfolding Cons by simp
  ultimately show "s \<in> set ss \<and> P s" by simp
qed (simp add: find_session_def)

lemma find_session_None: "find_session P ss = None \<Longrightarrow> s \<in> set ss \<Longrightarrow> \<not> P s"
  by (auto simp: find_session_def filter_empty_conv split: list.splits)

lemma session_of_binding_sel [simp]:
  "si_bindingId (session_of_binding dv e bo) = reply_text (bo_binding bo) ''bindingId''"
  "si_deviceId (session_of_binding dv e bo) = reply_text (bo_binding bo) ''deviceId''"
  by (simp_all add: session_of_binding_def Let_def)

lemma session_of_binding_id:
  "si_id (session_of_binding dv e bo) =
     (case bo_existing bo of Some s \<Rightarrow> if si_id s \<noteq> [] then si_id s else randomId e ''sess'' | None \<Rightarrow> randomId e ''sess'')"
  by (simp add: session_of_binding_def Let_def or_text_def split: option.split)

lemma normalizeSession_new [simp]:
  "si_id (normalizeSession dv None next) = si_id next"
  "si_bindingId (normalizeSession dv None next) = si_bindingId next"
  "si_deviceId (normalizeSession dv None next) = si_deviceId next"
  by (simp_all add: normalizeSession_def split: prod.split)

lemma buildSession_sel [simp]:
  "si_id (buildSessionFromBinding dv e bo) = si_id (session_of_binding dv e bo)"
  "si_bindingId (buildSessionFromBinding dv e bo) = reply_text (bo_binding bo) ''bindingId''"
  "si_deviceId (buildSessionFromBinding dv e bo) = reply_text (bo_binding bo) ''deviceId''"
  by (cases "bo_existing bo"; simp add: buildSessionFromBinding_def)+

lemma reply_text_JStr: "js_get v k = JStr s \<Longrightarrow> reply_text v k = s"
  by (simp add: reply_text_def)

text \<open>
  What pairing relies on: the claimed binding has an id and a device, a binding never moves to
  another device, stored sessions have ids, and a random id is new.
\<close>

definition claim_ok :: "env \<Rightarrow> jsval \<Rightarrow> string \<Rightarrow> string \<Rightarrow> session_item list \<Rightarrow> bool" where
  "claim_ok e binding B D ss =
     (js_get binding ''bindingId'' = JStr B \<and> js_get binding ''deviceId'' = JStr D \<and> B \<noteq> [] \<and> D \<noteq> [] \<and>
      list_all (\<lambda>s. si_bindingId s = B \<longrightarrow> si_deviceId s = D) ss \<and>
      list_all (\<lambda>s. si_id s \<noteq> [] \<and> si_id s \<noteq> randomId e ''sess'') ss)"

lemma distinct_by_same:
  assumes "distinct_by f xs" "i < length xs" "f x = f (xs ! i)" shows "distinct_by f (xs[i := x])"
proof (rule distinct_by_update [OF assms(1,2)])
  fix j assume "j < length xs" "j \<noteq> i" "f x = f (xs ! j)"
  then show "f x = []" using assms unfolding distinct_by_def by metis
qed

lemma upsert_existing:
  assumes ok: "sessions_ok ss" and cl: "claim_ok e binding B D ss" and ex: "session_of binding ss = Some ex"
    and nid: "si_id next = si_id ex" and nb: "si_bindingId next = B" and nd: "si_deviceId next = D"
  shows "sessions_ok (upsertSessions dv ss next) \<and>
    (\<exists>s \<in> set (upsertSessions dv ss next). si_bindingId s = B \<and> si_deviceId s = D)"
proof -
  have b: "js_get binding ''bindingId'' = JStr B" "js_get binding ''deviceId'' = JStr D" "B \<noteq> []" "D \<noteq> []"
    and moved: "\<And>s. s \<in> set ss \<Longrightarrow> si_bindingId s = B \<Longrightarrow> si_deviceId s = D"
    and ids: "\<And>s. s \<in> set ss \<Longrightarrow> si_id s \<noteq> []"
    using cl by (auto simp: claim_ok_def list_all_iff)
  have exs: "ex \<in> set ss" "si_deviceId ex = D"
    using ex moved unfolding session_of_def opt_or_def b
    by (auto split: option.splits dest!: find_session_Some)
  then obtain k where k: "k < length ss" "ss ! k = ex" by (auto simp: in_set_conv_nth)
  have dist: "distinct_by si_id ss" "distinct_by si_bindingId ss" "distinct_by si_deviceId ss"
    using ok by (simp_all add: sessions_ok_def)
  have only: "j = k" if "j < length ss" "same_session next (ss ! j)" for j
  proof -
    have j: "ss ! j \<in> set ss" using that(1) by simp
    have "si_id (ss ! j) = si_id (ss ! k) \<or> si_deviceId (ss ! j) = si_deviceId (ss ! k)"
      using that(2) moved [OF j] unfolding same_session_def nid nb nd k(2) exs(2) by blast
    moreover have "si_id (ss ! j) \<noteq> []" "si_deviceId (ss ! k) \<noteq> []" using ids [OF j] exs(2) k(2) b(4) by simp_all
    ultimately show ?thesis using dist(1,3) that(1) k(1) unfolding distinct_by_def by metis
  qed
  obtain i where i: "find_index (same_session next) ss = Some i"
  proof (cases "find_index (same_session next) ss")
    case None
    then have "\<not> same_session next ex" using exs(1) by (simp add: find_index_None)
    then show ?thesis by (simp add: same_session_def nid)
  qed
  then have ik: "i = k" using find_index_Some only by blast
  let ?n = "normalizeSession dv (Some (ss ! k)) next"
  have up: "upsertSessions dv ss next = ss[k := ?n]" using i ik by (simp add: upsertSessions_def)
  have "distinct_by si_id (ss[k := ?n])"
    using dist(1) k by (intro distinct_by_same) (simp_all add: nid)
  moreover have "distinct_by si_deviceId (ss[k := ?n])"
    using dist(3) k exs(2) by (intro distinct_by_same) (simp_all add: nd)
  moreover have "distinct_by si_bindingId (ss[k := ?n])"
  proof (rule distinct_by_update [OF dist(2) k(1)])
    fix j assume j: "j < length ss" "j \<noteq> k" "si_bindingId ?n = si_bindingId (ss ! j)"
    then have "same_session next (ss ! j)" using b(3) unfolding same_session_def by (auto simp: nb)
    with only j show "si_bindingId ?n = []" by blast
  qed
  moreover have "?n \<in> set (ss[k := ?n])" using k(1) by (rule set_update_memI)
  moreover have "si_bindingId ?n = B" "si_deviceId ?n = D" by (simp_all add: nb nd)
  ultimately show ?thesis unfolding up sessions_ok_def by blast
qed

lemma pairing_distinct:
  assumes "sessions_ok ss" "claim_ok e binding B D ss" "bo_existing bo = session_of binding ss" "bo_binding bo = binding"
  shows "sessions_ok (upsertSessions dv ss (buildSessionFromBinding dv e bo)) \<and>
    (\<exists>s \<in> set (upsertSessions dv ss (buildSessionFromBinding dv e bo)). si_bindingId s = B \<and> si_deviceId s = D)"
proof -
  let ?n = "buildSessionFromBinding dv e bo"
  have b: "js_get binding ''bindingId'' = JStr B" "js_get binding ''deviceId'' = JStr D" "B \<noteq> []" "D \<noteq> []"
    using assms(2) by (auto simp: claim_ok_def)
  have sel: "si_bindingId ?n = B" "si_deviceId ?n = D" using b by (simp_all add: assms(4) reply_text_JStr)
  show ?thesis
  proof (cases "session_of binding ss")
    case (Some ex)
    have "ex \<in> set ss" using Some unfolding session_of_def opt_or_def
      by (auto split: option.splits dest!: find_session_Some)
    then have "si_id ex \<noteq> []" using assms(2) by (auto simp: claim_ok_def list_all_iff)
    then have "si_id ?n = si_id ex" using Some by (simp add: session_of_binding_id assms(3))
    with upsert_existing [OF assms(1,2) Some] sel show ?thesis by blast
  next
    case None
    have no: "si_id s \<noteq> si_id ?n \<and> si_bindingId s \<noteq> B \<and> si_deviceId s \<noteq> D" if "s \<in> set ss" for s
    proof -
      have f: "find_session (\<lambda>s. JStr (si_bindingId s) = JStr B) ss = None" "find_session (\<lambda>s. JStr (si_deviceId s) = JStr D) ss = None"
        using None unfolding session_of_def opt_or_def b by (auto split: option.splits)
      have "si_bindingId s \<noteq> B" "si_deviceId s \<noteq> D"
        using find_session_None [OF f(1) that] find_session_None [OF f(2) that] by simp_all
      moreover have "si_id s \<noteq> si_id ?n"
        using assms(2) that None by (auto simp: claim_ok_def list_all_iff session_of_binding_id assms(3))
      ultimately show ?thesis by blast
    qed
    then have "\<forall>s \<in> set ss. \<not> same_session ?n s" unfolding same_session_def sel by metis
    then have "upsertSessions dv ss ?n = ?n # ss"
      by (simp add: upsertSessions_def find_index_None [THEN iffD2])
    moreover have new: "f ?n \<notin> f ` set ss" if "\<And>s. s \<in> set ss \<Longrightarrow> f s \<noteq> f ?n" for f :: "session_item \<Rightarrow> string"
      using that by (metis image_iff)
    have "sessions_ok (?n # ss)"
      using assms(1) no sel new unfolding sessions_ok_def by (metis distinct_by_Cons)
    ultimately show ?thesis using sel by auto
  qed
qed

text \<open>Pairing keeps the list of sessions consistent: after the claimed binding is entered, no two
  sessions share an id, a binding or a device, and the binding is in the list.\<close>

theorem pairing_keeps_sessions_distinct:
  assumes "sessions_ok ss" "claim_ok e binding B D ss" "bo_existing bo = session_of binding ss" "bo_binding bo = binding"
  shows "sessions_ok (upsertSessions dv ss (buildSessionFromBinding dv e bo)) \<and>
    (\<exists>s \<in> set (upsertSessions dv ss (buildSessionFromBinding dv e bo)). si_bindingId s = B \<and> si_deviceId s = D)"
  using assms by (rule pairing_distinct)

definition demo_binding :: jsval where
  "demo_binding = JObj [(''bindingId'', JStr ''b2''), (''deviceId'', JStr ''d2''), (''trustState'', JStr ''active'')]"

definition demo_claim :: binding_options where
  "demo_claim = \<lparr>bo_existing = None, bo_baseUrl = ''http://h.org'', bo_serverToken = ''t'', bo_binding = demo_binding,
     bo_safetyCode = ''12'', bo_mobilePublicKey = ''k'', bo_presence = JUndef\<rparr>"

theorem pairing_keeps_sessions_distinct_witness:
  "sessions_ok (upsertSessions demo_device [demo_session]
     (buildSessionFromBinding demo_device (dv_env demo_device ()) demo_claim))"
proof -
  have "sessions_ok [demo_session]" by (simp add: sessions_ok_def distinct_by_def)
  moreover have "claim_ok (dv_env demo_device ()) demo_binding ''b2'' ''d2'' [demo_session]" by code_simp
  moreover have "session_of demo_binding [demo_session] = None" by code_simp
  ultimately show ?thesis
    using pairing_keeps_sessions_distinct [of "[demo_session]" "dv_env demo_device ()" demo_binding "''b2''" "''d2''"
        demo_claim demo_device]
    by (auto simp: demo_claim_def)
qed

end
