(* ===== verification/GatewayAccounts.thy ===== *)
theory GatewayAccounts
  imports PairWeb
begin

text \<open>
  desktop/extensions/openclaw-mobile/src/channel.ts, its configuration: how the gateway plugin of
  the desktop reads an account from the host's configuration and switches it on and off. The
  configuration is an untyped value. The theorems: a resolved account is well formed whatever the
  configuration holds, where the switch works and what it leaves alone, and two cases in which it
  does not do what it means to.
\<close>

section \<open>Configuration values\<close>

definition CHANNEL_ID :: string where "CHANNEL_ID = ''openclaw-mobile''"
definition DEFAULT_ACCOUNT_ID :: string where "DEFAULT_ACCOUNT_ID = ''default''"
definition DEFAULT_REQUEST_TIMEOUT_MS :: jsnum where "DEFAULT_REQUEST_TIMEOUT_MS = Fin 8000"
definition DEFAULT_RECONNECT_MIN_MS :: jsnum where "DEFAULT_RECONNECT_MIN_MS = Fin 1000"
definition DEFAULT_RECONNECT_MAX_MS :: jsnum where "DEFAULT_RECONNECT_MAX_MS = Fin 15000"
definition MAX_SEEN_EVENT_IDS :: nat where "MAX_SEEN_EVENT_IDS = 2000"

definition asString :: "jsval \<Rightarrow> string" where
  "asString value = (case value of JStr s \<Rightarrow> js_trim s | _ \<Rightarrow> [])"

definition normalizeBaseUrl :: "jsval \<Rightarrow> string" where
  "normalizeBaseUrl raw = (let text = asString raw in if text = [] then [] else strip_slashes text)"

definition asPositiveInt :: "jsval \<Rightarrow> jsnum \<Rightarrow> jsnum" where
  "asPositiveInt raw fallback =
     (case js_to_number raw of
        Fin q \<Rightarrow> if q \<le> 0 then fallback else Fin (of_int \<lfloor>q\<rfloor>)
      | _ \<Rightarrow> fallback)"

text \<open>
  \<open>{...a, ...b}\<close>, and the assignment \<open>o[k] = v\<close>: assigning \<open>__proto__\<close> to an object without such a
  field of its own sets its prototype and adds no field.
\<close>

definition js_fields :: "jsval \<Rightarrow> (string \<times> jsval) list" where
  "js_fields v = (case v of JObj fs \<Rightarrow> fs | _ \<Rightarrow> [])"

definition js_order :: "(string \<times> jsval) list \<Rightarrow> (string \<times> jsval) list" where
  "js_order fs =
     sort_key (digits_value 10 \<circ> fst) (filter (json_index_key \<circ> fst) fs) @
     filter (Not \<circ> json_index_key \<circ> fst) fs"

definition js_spread :: "jsval \<Rightarrow> jsval \<Rightarrow> jsval" where
  "js_spread a b =
     JObj (js_order
       (map (\<lambda>(k, v). (k, case map_of (js_fields b) k of Some x \<Rightarrow> x | None \<Rightarrow> v)) (js_fields a) @
        filter (\<lambda>(k, v). map_of (js_fields a) k = None) (js_fields b)))"

definition js_assign :: "string \<Rightarrow> jsval \<Rightarrow> jsval \<Rightarrow> jsval" where
  "js_assign k v obj =
     (if k = ''__proto__'' \<and> map_of (js_fields obj) k = None then obj
      else JObj (js_order (AList.update k v (js_fields obj))))"

text \<open>
  \<open>o[k]\<close> for a key that comes from data, when the value is a record: the methods every object
  inherits are functions, but \<open>__proto__\<close> finds \<open>Object.prototype\<close>, a record without fields.
\<close>

definition record_at :: "jsval \<Rightarrow> string \<Rightarrow> jsval option" where
  "record_at obj k =
     (case map_of (js_fields obj) k of
        Some v \<Rightarrow> if js_is_record v then Some v else None
      | None \<Rightarrow> if k = ''__proto__'' then Some (JObj []) else None)"

definition record_or_empty :: "jsval \<Rightarrow> jsval" where
  "record_or_empty v = (if js_is_record v then v else JObj [])"

section \<open>Accounts\<close>

record account =
  ac_accountId :: string
  ac_enabled :: bool
  ac_configured :: bool
  ac_serverBaseUrl :: string
  ac_desktopDeviceId :: string
  ac_requestTimeoutMs :: jsnum
  ac_reconnectMinMs :: jsnum
  ac_reconnectMaxMs :: jsnum

definition getChannelSection :: "jsval \<Rightarrow> jsval" where
  "getChannelSection cfg =
     (if \<not> js_is_record cfg then JObj []
      else record_or_empty (js_get (record_or_empty (js_get cfg ''channels'')) CHANNEL_ID))"

definition getAccountSection :: "jsval \<Rightarrow> string \<Rightarrow> jsval" where
  "getAccountSection channelSection accountId =
     (let accounts = record_or_empty (js_get channelSection ''accounts'') in
      case record_at accounts accountId of
        Some fromAccount \<Rightarrow> fromAccount
      | None \<Rightarrow>
        (case record_at accounts DEFAULT_ACCOUNT_ID of
           Some fromDefault \<Rightarrow> fromDefault
         | None \<Rightarrow> JObj []))"

definition mergeConfig :: "jsval \<Rightarrow> jsval \<Rightarrow> jsval" where
  "mergeConfig channelSection accountSection = js_spread channelSection accountSection"

definition account_id_of :: "jsval \<Rightarrow> string" where
  "account_id_of accountId = (let s = asString accountId in if s = [] then DEFAULT_ACCOUNT_ID else s)"

definition first_defined :: "jsval \<Rightarrow> string \<Rightarrow> string \<Rightarrow> string \<Rightarrow> jsval" where
  "first_defined v a b c = js_coalesce (js_coalesce (js_get v a) (js_get v b)) (js_get v c)"

definition account_of :: "string \<Rightarrow> jsval \<Rightarrow> account" where
  "account_of resolvedAccountId merged =
     (let serverBaseUrl = normalizeBaseUrl (first_defined merged ''serverBaseUrl'' ''baseUrl'' ''channelServerBaseUrl'');
          desktopDeviceId = asString (first_defined merged ''desktopDeviceId'' ''deviceId'' ''channelDeviceId'');
          reconnectMinMs = asPositiveInt (js_get merged ''reconnectMinMs'') DEFAULT_RECONNECT_MIN_MS
      in \<lparr>ac_accountId = resolvedAccountId,
          ac_enabled = (case js_get merged ''enabled'' of JBool b \<Rightarrow> b | _ \<Rightarrow> True),
          ac_configured = (serverBaseUrl \<noteq> [] \<and> desktopDeviceId \<noteq> []),
          ac_serverBaseUrl = serverBaseUrl, ac_desktopDeviceId = desktopDeviceId,
          ac_requestTimeoutMs = asPositiveInt (js_get merged ''requestTimeoutMs'') DEFAULT_REQUEST_TIMEOUT_MS,
          ac_reconnectMinMs = reconnectMinMs,
          ac_reconnectMaxMs = js_max reconnectMinMs
            (asPositiveInt (js_get merged ''reconnectMaxMs'') DEFAULT_RECONNECT_MAX_MS)\<rparr>)"

definition resolveAccount :: "jsval \<Rightarrow> jsval \<Rightarrow> account" where
  "resolveAccount cfg accountId =
     (let resolvedAccountId = account_id_of accountId;
          channelSection = getChannelSection cfg
      in account_of resolvedAccountId
           (mergeConfig channelSection (getAccountSection channelSection resolvedAccountId)))"

definition listAccountIds :: "jsval \<Rightarrow> string list" where
  "listAccountIds cfg =
     (let accounts = record_or_empty (js_get (getChannelSection cfg) ''accounts'');
          ids = filter (\<lambda>s. s \<noteq> []) (map (js_trim \<circ> fst) (js_fields accounts))
      in if ids \<noteq> [] then ids else [DEFAULT_ACCOUNT_ID])"

definition setAccountEnabled :: "jsval \<Rightarrow> jsval \<Rightarrow> bool \<Rightarrow> jsval" where
  "setAccountEnabled cfg accountId enabled =
     (let nextCfg = record_or_empty cfg;
          channels = record_or_empty (js_get nextCfg ''channels'');
          channelSection = record_or_empty (js_get channels CHANNEL_ID);
          resolvedAccountId = account_id_of accountId;
          channelSection' =
            (if resolvedAccountId = DEFAULT_ACCOUNT_ID then js_assign ''enabled'' (JBool enabled) channelSection
             else
               let accounts = record_or_empty (js_get channelSection ''accounts'');
                   accountSection = (case record_at accounts resolvedAccountId of Some v \<Rightarrow> v | None \<Rightarrow> JObj [])
               in js_assign ''accounts''
                    (js_assign resolvedAccountId (js_assign ''enabled'' (JBool enabled) accountSection) accounts)
                    channelSection)
      in js_assign ''channels'' (js_assign CHANNEL_ID channelSection' channels) nextCfg)"

section \<open>Fields of assembled objects\<close>

lemma map_of_key: "map_of (filter (\<lambda>p. fst p = k) xs) k = map_of xs k"
  by (induction xs) auto

lemma key_of_sorted: "filter (\<lambda>p. fst p = k) (sort_key (f \<circ> fst) xs) = filter (\<lambda>p. fst p = k) xs"
proof -
  have narrow: "filter (\<lambda>p. fst p = k) ys = filter (\<lambda>p. fst p = k) (filter (\<lambda>p. (f \<circ> fst) p = f k) ys)"
    for ys :: "('a \<times> 'b) list" by (induction ys) auto
  show ?thesis
    by (subst (1 2) narrow) (simp only: sort_key_stable)
qed

lemma map_of_js_order [simp]: "map_of (js_order fs) = map_of fs"
proof
  fix k
  have "filter (\<lambda>p. fst p = k) (js_order fs) = filter (\<lambda>p. fst p = k) fs"
  proof (cases "json_index_key k")
    case True
    then have "filter (\<lambda>p. fst p = k) (filter (json_index_key \<circ> fst) fs) = filter (\<lambda>p. fst p = k) fs"
      "filter (\<lambda>p. fst p = k) (filter (Not \<circ> json_index_key \<circ> fst) fs) = []"
      by (auto simp: filter_empty_conv intro!: filter_cong)
    then show ?thesis unfolding js_order_def filter_append key_of_sorted by simp
  next
    case False
    then have "filter (\<lambda>p. fst p = k) (filter (json_index_key \<circ> fst) fs) = []"
      "filter (\<lambda>p. fst p = k) (filter (Not \<circ> json_index_key \<circ> fst) fs) = filter (\<lambda>p. fst p = k) fs"
      by (auto simp: filter_empty_conv intro!: filter_cong)
    then show ?thesis unfolding js_order_def filter_append key_of_sorted by simp
  qed
  then show "map_of (js_order fs) k = map_of fs k" by (metis map_of_key)
qed

lemma js_fields_simps [simp]: "js_fields (JObj fs) = fs" "js_fields JUndef = []"
  by (simp_all add: js_fields_def)

lemma js_get_fields: "js_is_record v \<Longrightarrow> js_get v k = (case map_of (js_fields v) k of Some x \<Rightarrow> x | None \<Rightarrow> JUndef)"
  by (cases v) auto

lemma js_is_record_assign [simp]: "js_is_record obj \<Longrightarrow> js_is_record (js_assign k v obj)"
  by (simp add: js_assign_def)

lemma map_of_assign [simp]:
  "k \<noteq> ''__proto__'' \<Longrightarrow> map_of (js_fields (js_assign k v obj)) j = (if j = k then Some v else map_of (js_fields obj) j)"
  by (simp add: js_assign_def update_conv')

lemma js_get_assign [simp]:
  "js_is_record obj \<Longrightarrow> k \<noteq> ''__proto__'' \<Longrightarrow> js_get (js_assign k v obj) j = (if j = k then v else js_get obj j)"
  by (simp add: js_get_fields)

lemma map_of_spread [simp]: "map_of (js_fields (js_spread a b)) k =
    (case map_of (js_fields b) k of Some v \<Rightarrow> Some v | None \<Rightarrow> map_of (js_fields a) k)"
proof -
  have a: "map_of (map (\<lambda>(k, v). (k, case m k of Some x \<Rightarrow> x | None \<Rightarrow> v)) fs) k =
      (case map_of fs k of None \<Rightarrow> None | Some v \<Rightarrow> Some (case m k of Some x \<Rightarrow> x | None \<Rightarrow> v))"
    for m :: "string \<Rightarrow> jsval option" and fs by (induction fs) (auto split: option.split)
  have b: "map_of (filter (\<lambda>(k, v). P k) fs) k = (if P k then map_of fs k else None)" for P and fs :: "(string \<times> jsval) list"
    by (induction fs) auto
  show ?thesis by (auto simp: js_spread_def map_add_def a b split: option.split)
qed

lemma js_get_spread: "js_get (js_spread a b) k =
    (case map_of (js_fields b) k of Some v \<Rightarrow> v | None \<Rightarrow> (case map_of (js_fields a) k of Some v \<Rightarrow> v | None \<Rightarrow> JUndef))"
  by (subst js_get_fields) (auto simp: js_spread_def [of a b, THEN arg_cong [where f = js_is_record]] split: option.split)

lemma record_or_empty_simps [simp]:
  "js_is_record v \<Longrightarrow> record_or_empty v = v" "js_is_record (record_or_empty v)" "record_or_empty JUndef = JObj []"
  by (simp_all add: record_or_empty_def)

section \<open>What an account promises\<close>

definition no_final_slash :: "string \<Rightarrow> bool" where
  "no_final_slash s = (s = [] \<or> last s \<noteq> CHR ''/'')"

definition is_nat_num :: "jsnum \<Rightarrow> bool" where
  "is_nat_num n = (case n of Fin q \<Rightarrow> 0 \<le> q \<and> of_int \<lfloor>q\<rfloor> = q | _ \<Rightarrow> False)"

lemma asPositiveInt_nat: "is_nat_num d \<Longrightarrow> is_nat_num (asPositiveInt v d)"
  by (auto simp: asPositiveInt_def is_nat_num_def split: jsnum.split)

lemma base_slashes_last: "strip_slashes s \<noteq> [] \<Longrightarrow> last (strip_slashes s) \<noteq> CHR ''/''"
  unfolding strip_slashes_def last_rev
  by (cases "dropWhile (\<lambda>c. c = CHR ''/'') (rev s)") (auto dest: dropWhile_eq_Cons_conv [THEN iffD1])

lemma no_final_slash_base: "no_final_slash (normalizeBaseUrl v)"
  using base_slashes_last by (auto simp: normalizeBaseUrl_def no_final_slash_def Let_def)

lemma account_id_of_ok: "account_id_of v \<noteq> []" "js_trimmed (account_id_of v)"
  by (auto simp: account_id_of_def DEFAULT_ACCOUNT_ID_def asString_def Let_def js_trimmed_def [of "''default''"] js_space_def
      split: jsval.split)

lemma max_nat_num: "is_nat_num a \<Longrightarrow> is_nat_num b \<Longrightarrow> is_nat_num (js_max a b) \<and> js_leq a (js_max a b)"
  by (cases a; cases b) (auto simp: is_nat_num_def js_leq_def max_def)

lemma account_times:
  "let a = resolveAccount cfg v in
     is_nat_num (ac_requestTimeoutMs a) \<and> is_nat_num (ac_reconnectMinMs a) \<and> is_nat_num (ac_reconnectMaxMs a) \<and>
     js_leq (ac_reconnectMinMs a) (ac_reconnectMaxMs a)"
proof -
  have d: "is_nat_num DEFAULT_REQUEST_TIMEOUT_MS" "is_nat_num DEFAULT_RECONNECT_MIN_MS" "is_nat_num DEFAULT_RECONNECT_MAX_MS"
    by (simp_all add: DEFAULT_REQUEST_TIMEOUT_MS_def DEFAULT_RECONNECT_MIN_MS_def DEFAULT_RECONNECT_MAX_MS_def is_nat_num_def)
  show ?thesis
    using asPositiveInt_nat [OF d(1)] asPositiveInt_nat [OF d(2)] max_nat_num [OF asPositiveInt_nat [OF d(2)] asPositiveInt_nat [OF d(3)]]
    by (simp add: resolveAccount_def account_of_def Let_def)
qed

text \<open>Whatever the configuration holds, a resolved account has a trimmed id that is not empty, an
  address without a final slash, whole non-negative times with the longest reconnect delay at least
  the shortest, and is configured exactly if it has an address and a device.\<close>

theorem account_well_formed:
  "let a = resolveAccount cfg v in
     ac_accountId a \<noteq> [] \<and> js_trimmed (ac_accountId a) \<and> no_final_slash (ac_serverBaseUrl a) \<and>
     is_nat_num (ac_requestTimeoutMs a) \<and> is_nat_num (ac_reconnectMinMs a) \<and> is_nat_num (ac_reconnectMaxMs a) \<and>
     js_leq (ac_reconnectMinMs a) (ac_reconnectMaxMs a) \<and>
     (ac_configured a = (ac_serverBaseUrl a \<noteq> [] \<and> ac_desktopDeviceId a \<noteq> []))"
  using account_times [of cfg v]
  by (simp add: resolveAccount_def account_of_def Let_def account_id_of_ok no_final_slash_base)

text \<open>A fraction below one is accepted as a positive integer and becomes zero.\<close>

lemma asPositiveInt_half: "asPositiveInt (JNum (Fin (1/2))) d = Fin 0"
  by (simp add: asPositiveInt_def floor_eq_iff)

section \<open>Switching an account on and off\<close>

definition accounts_of :: "jsval \<Rightarrow> jsval" where
  "accounts_of cfg = record_or_empty (js_get (getChannelSection cfg) ''accounts'')"

definition has_section :: "jsval \<Rightarrow> string \<Rightarrow> bool" where
  "has_section cfg a = (record_at (accounts_of cfg) a \<noteq> None)"

text \<open>The two settings for which the switch reaches the account that is read afterwards.\<close>

definition switch_reaches :: "jsval \<Rightarrow> string \<Rightarrow> bool" where
  "switch_reaches cfg a =
     (if a = DEFAULT_ACCOUNT_ID
      then map_of (js_fields (getAccountSection (getChannelSection cfg) a)) ''enabled'' = None
      else a \<noteq> ''__proto__'' \<and> (has_section cfg a \<or> \<not> has_section cfg DEFAULT_ACCOUNT_ID))"

lemma CHANNEL_ID_neq [simp]: "CHANNEL_ID \<noteq> ''__proto__''"
  by (simp add: CHANNEL_ID_def)

lemma getChannelSection_alt:
  "getChannelSection cfg = record_or_empty (js_get (record_or_empty (js_get (record_or_empty cfg) ''channels'')) CHANNEL_ID)"
  by (simp add: getChannelSection_def record_or_empty_def)

lemma is_record_channel [simp]: "js_is_record (getChannelSection cfg)" "js_is_record (accounts_of cfg)"
  by (simp_all add: getChannelSection_alt accounts_of_def)

definition switched_section :: "jsval \<Rightarrow> string \<Rightarrow> bool \<Rightarrow> jsval" where
  "switched_section cfg a enabled =
     (if a = DEFAULT_ACCOUNT_ID then js_assign ''enabled'' (JBool enabled) (getChannelSection cfg)
      else js_assign ''accounts''
        (js_assign a (js_assign ''enabled'' (JBool enabled)
           (case record_at (accounts_of cfg) a of Some v \<Rightarrow> v | None \<Rightarrow> JObj [])) (accounts_of cfg))
        (getChannelSection cfg))"

lemma channel_after_switch:
  "getChannelSection (setAccountEnabled cfg v enabled) = switched_section cfg (account_id_of v) enabled"
proof -
  have "js_is_record (switched_section cfg a enabled)" for a by (simp add: switched_section_def)
  moreover have "setAccountEnabled cfg v enabled =
      js_assign ''channels'' (js_assign CHANNEL_ID (switched_section cfg (account_id_of v) enabled)
        (record_or_empty (js_get (record_or_empty cfg) ''channels''))) (record_or_empty cfg)"
    by (simp add: setAccountEnabled_def switched_section_def getChannelSection_alt accounts_of_def Let_def)
  ultimately show ?thesis by (subst getChannelSection_alt) simp
qed

lemma record_at_record: "record_at obj k = Some v \<Longrightarrow> js_is_record v"
  by (auto simp: record_at_def split: option.splits if_splits)

lemma record_at_assign:
  "k \<noteq> ''__proto__'' \<Longrightarrow> js_is_record v \<Longrightarrow> record_at (js_assign k v obj) j = (if j = k then Some v else record_at obj j)"
  by (simp add: record_at_def)

text \<open>What an account is made of: the fields of its merged section.\<close>

lemma account_of_cong:
  assumes "\<And>k. k \<noteq> ''accounts'' \<Longrightarrow> js_get m k = js_get m' k" shows "account_of a m = account_of a m'"
  by (simp add: account_of_def first_defined_def assms)

lemma account_of_enabled:
  assumes "\<And>k. k \<noteq> ''accounts'' \<Longrightarrow> js_get m k = (if k = ''enabled'' then JBool b else js_get m' k)"
  shows "account_of a m = (account_of a m')\<lparr>ac_enabled := b\<rparr>"
  by (simp add: account_of_def first_defined_def assms Let_def)

lemma default_section_kept:
  "getAccountSection (switched_section cfg DEFAULT_ACCOUNT_ID enabled) DEFAULT_ACCOUNT_ID =
     getAccountSection (getChannelSection cfg) DEFAULT_ACCOUNT_ID"
  by (simp add: getAccountSection_def switched_section_def)

text \<open>Where the switch reaches the account, switching it on or off changes exactly the \<open>enabled\<close> flag
  of the account read afterwards; switching an account other than the default leaves every other
  account as it was.\<close>

theorem switching_sets_the_flag:
  assumes "switch_reaches cfg (account_id_of v)"
  shows "resolveAccount (setAccountEnabled cfg v enabled) v = (resolveAccount cfg v)\<lparr>ac_enabled := enabled\<rparr> \<and>
    (account_id_of v \<noteq> DEFAULT_ACCOUNT_ID \<longrightarrow> account_id_of u \<noteq> account_id_of v \<longrightarrow>
      resolveAccount (setAccountEnabled cfg v enabled) u = resolveAccount cfg u)"
proof -
  let ?a = "account_id_of v" and ?c = "getChannelSection cfg"
  let ?c' = "switched_section cfg ?a enabled"
  have res: "resolveAccount cfg' u = account_of (account_id_of u)
      (js_spread (getChannelSection cfg') (getAccountSection (getChannelSection cfg') (account_id_of u)))" for cfg' u
    by (simp add: resolveAccount_def mergeConfig_def Let_def)
  show ?thesis
  proof (cases "?a = DEFAULT_ACCOUNT_ID")
    case True
    have free: "map_of (js_fields (getAccountSection ?c DEFAULT_ACCOUNT_ID)) ''enabled'' = None"
      using assms True by (simp add: switch_reaches_def)
    have "account_of ?a (js_spread ?c' (getAccountSection ?c ?a)) =
        (account_of ?a (js_spread ?c (getAccountSection ?c ?a)))\<lparr>ac_enabled := enabled\<rparr>"
      by (rule account_of_enabled) (auto simp: js_get_spread free switched_section_def True split: option.split)
    then show ?thesis by (simp add: res channel_after_switch default_section_kept True)
  next
    case False
    then have np: "?a \<noteq> ''__proto__''" and here: "has_section cfg ?a \<or> \<not> has_section cfg DEFAULT_ACCOUNT_ID"
      using assms by (simp_all add: switch_reaches_def)
    define old where "old = (case record_at (accounts_of cfg) ?a of Some x \<Rightarrow> x | None \<Rightarrow> JObj [])"
    have old_rec: "js_is_record old" by (auto simp: old_def dest: record_at_record split: option.split)
    have acc: "record_or_empty (js_get ?c' ''accounts'') = js_assign ?a (js_assign ''enabled'' (JBool enabled) old) (accounts_of cfg)"
      by (simp add: switched_section_def False old_def)
    have at: "record_at (record_or_empty (js_get ?c' ''accounts'')) j =
        (if j = ?a then Some (js_assign ''enabled'' (JBool enabled) old) else record_at (accounts_of cfg) j)" for j
      unfolding acc by (rule record_at_assign) (simp_all add: np old_rec)
    have same: "map_of (js_fields ?c') k = map_of (js_fields ?c) k" if "k \<noteq> ''accounts''" for k
      using that by (simp add: switched_section_def False)
    have old_sec: "getAccountSection ?c ?a = old"
      using here by (auto simp: getAccountSection_def old_def has_section_def accounts_of_def Let_def split: option.split)
    have new_sec: "getAccountSection ?c' ?a = js_assign ''enabled'' (JBool enabled) old"
      by (simp add: getAccountSection_def at Let_def)
    have other: "getAccountSection ?c' j = getAccountSection ?c j" if "j \<noteq> ?a" for j
      using that False [symmetric] by (simp add: getAccountSection_def at Let_def accounts_of_def split: option.split)
    have "account_of ?a (js_spread ?c' (js_assign ''enabled'' (JBool enabled) old)) =
        (account_of ?a (js_spread ?c old))\<lparr>ac_enabled := enabled\<rparr>"
      by (rule account_of_enabled) (simp add: js_get_spread same split: option.split)
    moreover have "account_of j (js_spread ?c' s) = account_of j (js_spread ?c s)" for j s
      by (rule account_of_cong) (simp add: js_get_spread same split: option.split)
    ultimately show ?thesis by (simp add: res channel_after_switch old_sec new_sec other)
  qed
qed

definition work_config :: "jsval \<Rightarrow> jsval" where
  "work_config accounts =
     JObj [(''channels'', JObj [(''openclaw-mobile'', JObj [(''accounts'', accounts)])])]"

definition home_section :: jsval where
  "home_section = JObj [(''serverBaseUrl'', JStr ''http://h''), (''deviceId'', JStr ''d''), (''enabled'', JBool False)]"

theorem switching_sets_the_flag_witness:
  "resolveAccount (setAccountEnabled (work_config (JObj [(''work'', home_section)])) (JStr ''work'') True) (JStr ''work'') =
     (resolveAccount (work_config (JObj [(''work'', home_section)])) (JStr ''work''))\<lparr>ac_enabled := True\<rparr>"
proof -
  have "switch_reaches (work_config (JObj [(''work'', home_section)])) (account_id_of (JStr ''work''))"
    by code_simp
  then show ?thesis using switching_sets_the_flag by blast
qed

text \<open>Switching the default account writes the flag of the channel, but the account is read from its
  own section first: where that section has a flag, the switch has no effect.\<close>

theorem default_switch_ignored:
  assumes "account_id_of v = DEFAULT_ACCOUNT_ID"
    and "map_of (js_fields (getAccountSection (getChannelSection cfg) DEFAULT_ACCOUNT_ID)) ''enabled'' = Some (JBool c)"
  shows "ac_enabled (resolveAccount (setAccountEnabled cfg v enabled) v) = c"
  using assms by (simp add: resolveAccount_def mergeConfig_def Let_def channel_after_switch default_section_kept
      account_of_def js_get_spread)

theorem default_switch_ignored_witness:
  "\<not> ac_enabled (resolveAccount (setAccountEnabled (work_config (JObj [(''default'', home_section)])) (JStr ''default'') True)
     (JStr ''default''))"
proof -
  have "account_id_of (JStr ''default'') = DEFAULT_ACCOUNT_ID" by code_simp
  moreover have "map_of (js_fields (getAccountSection (getChannelSection (work_config (JObj [(''default'', home_section)])))
      DEFAULT_ACCOUNT_ID)) ''enabled'' = Some (JBool False)" by code_simp
  ultimately show ?thesis using default_switch_ignored by blast
qed

text \<open>An account without a section of its own reads the default account's. Switching it, even on,
  writes a section that holds the flag alone and hides the inherited one: unless the channel
  itself names an address, the account is no longer configured.\<close>

theorem switching_unconfigures:
  assumes "account_id_of v \<notin> {DEFAULT_ACCOUNT_ID, ''__proto__''}" "\<not> has_section cfg (account_id_of v)"
    and "\<And>k. k \<in> {''serverBaseUrl'', ''baseUrl'', ''channelServerBaseUrl''} \<Longrightarrow> js_get (getChannelSection cfg) k = JUndef"
  shows "\<not> ac_configured (resolveAccount (setAccountEnabled cfg v enabled) v)"
proof -
  let ?a = "account_id_of v" and ?s = "js_assign ''enabled'' (JBool enabled) (JObj [])"
  let ?c' = "switched_section cfg ?a enabled"
  have none: "record_at (accounts_of cfg) ?a = None" using assms(2) by (simp add: has_section_def)
  have "getAccountSection ?c' ?a = ?s"
    using assms(1) none by (simp add: getAccountSection_def switched_section_def record_at_assign Let_def)
  moreover have "js_get (js_spread ?c' ?s) k = JUndef" if "k \<in> {''serverBaseUrl'', ''baseUrl'', ''channelServerBaseUrl''}" for k
  proof -
    have "k \<noteq> ''accounts''" "k \<noteq> ''enabled''" using that by auto
    moreover from this have "map_of (js_fields ?c') k = map_of (js_fields (getChannelSection cfg)) k"
      using assms(1) by (simp add: switched_section_def)
    ultimately show ?thesis using assms(3) [OF that] by (simp add: js_get_spread js_get_fields)
  qed
  ultimately show ?thesis
    by (simp add: resolveAccount_def mergeConfig_def Let_def channel_after_switch account_of_def first_defined_def
        js_coalesce_def normalizeBaseUrl_def asString_def)
qed

theorem switching_unconfigures_witness:
  "ac_configured (resolveAccount (work_config (JObj [(''default'', home_section)])) (JStr ''work'')) \<and>
   \<not> ac_configured (resolveAccount (setAccountEnabled (work_config (JObj [(''default'', home_section)])) (JStr ''work'') True)
      (JStr ''work''))"
proof
  show "ac_configured (resolveAccount (work_config (JObj [(''default'', home_section)])) (JStr ''work''))" by code_simp
  show "\<not> ac_configured (resolveAccount (setAccountEnabled (work_config (JObj [(''default'', home_section)])) (JStr ''work'') True)
      (JStr ''work''))"
  proof (rule switching_unconfigures)
    show "account_id_of (JStr ''work'') \<notin> {DEFAULT_ACCOUNT_ID, ''__proto__''}" by code_simp
    show "\<not> has_section (work_config (JObj [(''default'', home_section)])) (account_id_of (JStr ''work''))" by code_simp
    show "js_get (getChannelSection (work_config (JObj [(''default'', home_section)]))) k = JUndef"
      if "k \<in> {''serverBaseUrl'', ''baseUrl'', ''channelServerBaseUrl''}" for k
      using that by (auto simp: work_config_def getChannelSection_def CHANNEL_ID_def)
  qed
qed

end
