(* ===== verification/GatewayDirectory.thy ===== *)
theory GatewayDirectory
  imports GatewayAccounts
begin

text \<open>
  desktop/extensions/openclaw-mobile/src/channel.ts, its directory: the mobile devices the gateway
  knows, the aliases by which they are addressed, and the target of an outgoing message. The two
  module-level maps of maps are the record \<open>directory\<close>. The theorems: remembering a mobile keeps the
  directory consistent, its user can then be addressed, and listing is exact.
\<close>

section \<open>The peers an account knows\<close>

record mobile_peer =
  mp_mobileId :: string
  mp_userId :: string
  mp_bindingId :: string
  mp_accountId :: string
  mp_createdAt :: jsnum
  mp_updatedAt :: jsnum

text \<open>\<open>mobilePeersByAccount\<close> and \<open>mobileAliasToIdByAccount\<close>: maps of maps, in insertion order.\<close>

record directory =
  dr_peers :: "(string \<times> (string \<times> mobile_peer) list) list"
  dr_aliases :: "(string \<times> (string \<times> string) list) list"

definition bucket_id :: "string \<Rightarrow> string" where
  "bucket_id accountId = (let s = js_trim accountId in if s = [] then DEFAULT_ACCOUNT_ID else s)"

text \<open>A bucket is created when it is first asked for.\<close>

definition getPeerBucket :: "string \<Rightarrow> directory \<Rightarrow> (string \<times> mobile_peer) list \<times> directory" where
  "getPeerBucket accountId d =
     (case map_of (dr_peers d) (bucket_id accountId) of
        Some bucket \<Rightarrow> (bucket, d)
      | None \<Rightarrow> ([], d\<lparr>dr_peers := AList.update (bucket_id accountId) [] (dr_peers d)\<rparr>))"

definition getAliasBucket :: "string \<Rightarrow> directory \<Rightarrow> (string \<times> string) list \<times> directory" where
  "getAliasBucket accountId d =
     (case map_of (dr_aliases d) (bucket_id accountId) of
        Some bucket \<Rightarrow> (bucket, d)
      | None \<Rightarrow> ([], d\<lparr>dr_aliases := AList.update (bucket_id accountId) [] (dr_aliases d)\<rparr>))"

definition display_name :: "string \<Rightarrow> string \<Rightarrow> string" where
  "display_name mobile user =
     (let mobileId = js_trim mobile; userId = js_trim user in
      if userId \<noteq> [] \<and> userId \<noteq> mobileId then userId @ '' ('' @ mobileId @ '')''
      else if userId \<noteq> [] then userId else mobileId)"

definition formatPeerDisplayName :: "mobile_peer \<Rightarrow> string" where
  "formatPeerDisplayName p = display_name (mp_mobileId p) (mp_userId p)"

record peer_params =
  pp_accountId :: string
  pp_mobileId :: jsval
  pp_userId :: jsval
  pp_bindingId :: jsval
  pp_createdAt :: "jsnum option"
  pp_updatedAt :: "jsnum option"

text \<open>\<open>Number(given || existing || Date.now())\<close>.\<close>

definition first_time :: "jsnum option \<Rightarrow> jsnum option \<Rightarrow> jsnum \<Rightarrow> jsnum" where
  "first_time given existing now =
     (case given of Some n \<Rightarrow> if js_num_truthy n then n
        else (case existing of Some m \<Rightarrow> if js_num_truthy m then m else now | None \<Rightarrow> now)
      | None \<Rightarrow> (case existing of Some m \<Rightarrow> if js_num_truthy m then m else now | None \<Rightarrow> now))"

definition peer_aliases :: "string \<Rightarrow> mobile_peer \<Rightarrow> string list" where
  "peer_aliases accountId p =
     (let m = mp_mobileId p; u = mp_userId p in
      [m, ''mobile:'' @ m, CHANNEL_ID @ '':'' @ m, CHANNEL_ID @ '':'' @ accountId @ '':'' @ m] @
      (if u \<noteq> [] then [u, ''user:'' @ u, ''dm:'' @ u] else []))"

definition next_peer :: "jsnum \<Rightarrow> string \<Rightarrow> peer_params \<Rightarrow> mobile_peer option \<Rightarrow> mobile_peer" where
  "next_peer now mobileId p existing =
     \<lparr>mp_mobileId = mobileId,
      mp_userId = (if asString (pp_userId p) \<noteq> [] then asString (pp_userId p)
                   else case existing of Some x \<Rightarrow> mp_userId x | None \<Rightarrow> []),
      mp_bindingId = (if asString (pp_bindingId p) \<noteq> [] then asString (pp_bindingId p)
                   else case existing of Some x \<Rightarrow> mp_bindingId x | None \<Rightarrow> []),
      mp_accountId = bucket_id (pp_accountId p),
      mp_createdAt = first_time (pp_createdAt p) (map_option mp_createdAt existing) now,
      mp_updatedAt = first_time (pp_updatedAt p) (map_option mp_updatedAt existing) now\<rparr>"

definition rememberMobilePeer :: "jsnum \<Rightarrow> peer_params \<Rightarrow> directory \<Rightarrow> mobile_peer option \<times> directory" where
  "rememberMobilePeer now p d =
     (let mobileId = asString (pp_mobileId p) in
      if mobileId = [] then (None, d)
      else
        let accountId = bucket_id (pp_accountId p);
            (peers, d1) = getPeerBucket accountId d;
            (aliases, d2) = getAliasBucket accountId d1;
            nxt = next_peer now mobileId p (map_of peers mobileId)
        in (Some nxt,
            d2\<lparr>dr_peers := AList.update accountId (AList.update mobileId nxt peers) (dr_peers d2),
               dr_aliases := AList.update accountId
                 (fold (\<lambda>a m. AList.update a mobileId m) (peer_aliases accountId nxt) aliases) (dr_aliases d2)\<rparr>))"

definition lookupMobileAlias :: "string \<Rightarrow> string \<Rightarrow> directory \<Rightarrow> string \<times> directory" where
  "lookupMobileAlias accountId value d =
     (case getAliasBucket accountId d of (aliases, d') \<Rightarrow>
        (case map_of aliases value of Some m \<Rightarrow> m | None \<Rightarrow> [], d'))"

fun find_alias :: "(string \<times> (string \<times> string) list) list \<Rightarrow> string \<Rightarrow> string" where
  "find_alias [] value = []"
| "find_alias ((a, aliases) # rest) value =
     (case map_of aliases value of
        Some m \<Rightarrow> if m \<noteq> [] then m else find_alias rest value
      | None \<Rightarrow> find_alias rest value)"

definition findMobileAliasAcrossAccounts :: "string \<Rightarrow> directory \<Rightarrow> string" where
  "findMobileAliasAcrossAccounts value d = find_alias (dr_aliases d) value"

section \<open>Targets\<close>

definition is_word :: "char \<Rightarrow> bool" where
  "is_word c =
     (let n = (of_char c :: nat) in
      (48 \<le> n \<and> n \<le> 57) \<or> (65 \<le> n \<and> n \<le> 90) \<or> (97 \<le> n \<and> n \<le> 122) \<or> c = CHR ''_'')"

definition id_char :: "char \<Rightarrow> bool" where "id_char c = (is_word c \<or> c = CHR ''-'')"

text \<open>
  \<open>/\b(mobile_[A-Za-z0-9_-]+)\b/\<close>: the leftmost \<open>mobile_\<close> at a word boundary with at least one more
  character; the greedy run is given back down to its last word character, where a word boundary
  is. The first argument tells whether the preceding character is a word character.
\<close>

definition mobile_at :: "string \<Rightarrow> string option" where
  "mobile_at s =
     (if js_starts_with s ''mobile_'' then
        let tail = rev (dropWhile (\<lambda>c. c = CHR ''-'') (rev (takeWhile id_char (drop 7 s))))
        in if tail = [] then None else Some (''mobile_'' @ tail)
      else None)"

fun find_mobile :: "bool \<Rightarrow> string \<Rightarrow> string option" where
  "find_mobile prev [] = None"
| "find_mobile prev (c # cs) =
     (case (if prev then None else mobile_at (c # cs)) of
        Some m \<Rightarrow> Some m
      | None \<Rightarrow> find_mobile (is_word c) cs)"

text \<open>\<open>/^[^:]+:(mobile_[A-Za-z0-9_-]+|user_[A-Za-z0-9_-]+)$/i\<close>.\<close>

definition scoped_id :: "string \<Rightarrow> string option" where
  "scoped_id text =
     (let scope = takeWhile (\<lambda>c. c \<noteq> CHR '':'') text; rest = drop (Suc (length scope)) text;
          fits = (\<lambda>p. js_lower (take (length p) rest) = p \<and> drop (length p) rest \<noteq> [] \<and>
                      list_all id_char (drop (length p) rest))
      in if scope \<noteq> [] \<and> length scope < length text \<and> (fits ''mobile_'' \<or> fits ''user_'')
         then Some rest else None)"

text \<open>\<open>text.replace(/^openclaw-mobile:/i, '')\<close>.\<close>

definition strip_channel :: "string \<Rightarrow> string" where
  "strip_channel text = (if js_lower (take 16 text) = ''openclaw-mobile:'' then drop 16 text else text)"

definition strip_kind :: "string \<Rightarrow> string" where
  "strip_kind text =
     (let lowered = js_lower text in
      if js_starts_with lowered ''user:'' then js_trim (drop 5 text)
      else if js_starts_with lowered ''dm:'' then js_trim (drop 3 text)
      else if js_starts_with lowered ''mobile:'' then js_trim (drop 7 text)
      else text)"

definition normalizeMobileTarget :: "string \<Rightarrow> directory \<Rightarrow> string option \<times> directory" where
  "normalizeMobileTarget raw d =
     (let text0 = js_trim raw in
      if text0 = [] then (None, d)
      else case find_mobile False text0 of
        Some m \<Rightarrow> (Some m, d)
      | None \<Rightarrow>
        let text1 = js_trim (strip_channel text0);
            text2 = (case scoped_id text1 of Some t \<Rightarrow> t | None \<Rightarrow> text1);
            text3 = strip_kind text2
        in if text3 = [] then (None, d)
           else if js_starts_with text3 ''mobile_'' then (Some text3, d)
           else case lookupMobileAlias DEFAULT_ACCOUNT_ID text3 d of
             (directDefault, d') \<Rightarrow>
               if directDefault \<noteq> [] then (Some directDefault, d')
               else let anyAccount = findMobileAliasAcrossAccounts text3 d' in
                 (Some (if anyAccount \<noteq> [] then anyAccount else text3), d'))"

definition looksLikeId :: "string \<Rightarrow> bool" where
  "looksLikeId idText =
     (let trimmed = js_trim idText; lowered = js_lower trimmed in
      trimmed \<noteq> [] \<and>
      (js_starts_with trimmed ''mobile_'' \<or> js_starts_with trimmed ''user_'' \<or>
       js_starts_with lowered ''openclaw-mobile:'' \<or>
       js_starts_with lowered ''user:'' \<or> js_starts_with lowered ''dm:'' \<or> js_starts_with lowered ''mobile:''))"

section \<open>Listing\<close>

fun js_includes :: "string \<Rightarrow> string \<Rightarrow> bool" where
  "js_includes [] q = (q = [])"
| "js_includes (c # cs) q = (js_starts_with (c # cs) q \<or> js_includes cs q)"

record peer_row =
  pr_id :: string
  pr_name :: string
  pr_userId :: "string option"
  pr_bindingId :: "string option"
  pr_accountId :: string

definition row_of :: "mobile_peer \<Rightarrow> peer_row" where
  "row_of p =
     \<lparr>pr_id = mp_mobileId p, pr_name = formatPeerDisplayName p,
      pr_userId = (if mp_userId p = [] then None else Some (mp_userId p)),
      pr_bindingId = (if mp_bindingId p = [] then None else Some (mp_bindingId p)),
      pr_accountId = mp_accountId p\<rparr>"

definition newer_first :: "mobile_peer \<Rightarrow> mobile_peer \<Rightarrow> int" where
  "newer_first a b = js_diff_sign (js_or_zero (mp_updatedAt b)) (js_or_zero (mp_updatedAt a))"

definition peer_matches :: "string \<Rightarrow> mobile_peer \<Rightarrow> bool" where
  "peer_matches query p =
     js_includes (js_lower (js_join '' '' [mp_mobileId p, mp_userId p, formatPeerDisplayName p])) query"

definition listCachedPeers :: "string \<Rightarrow> jsval \<Rightarrow> jsval \<Rightarrow> directory \<Rightarrow> peer_row list \<times> directory" where
  "listCachedPeers accountId queryText limitValue d =
     (case getPeerBucket accountId d of (bucket, d') \<Rightarrow>
        let peers = js_sort newer_first (map snd bucket);
            query = js_lower (asString queryText);
            rows = map row_of (if query \<noteq> [] then filter (peer_matches query) peers else peers);
            limit = js_number_or_zero limitValue
        in (if js_less (Fin 0) limit then js_slice_to limit rows else rows, d'))"

section \<open>The directory stays consistent\<close>

definition peers_in :: "directory \<Rightarrow> string \<Rightarrow> (string \<times> mobile_peer) list" where
  "peers_in d a = (case map_of (dr_peers d) a of Some b \<Rightarrow> b | None \<Rightarrow> [])"

definition aliases_in :: "directory \<Rightarrow> string \<Rightarrow> (string \<times> string) list" where
  "aliases_in d a = (case map_of (dr_aliases d) a of Some b \<Rightarrow> b | None \<Rightarrow> [])"

text \<open>
  Every peer is filed under its own id and account, has an id, and every alias leads to a peer of
  the same account.
\<close>

definition peer_filed :: "string \<Rightarrow> string \<times> mobile_peer \<Rightarrow> bool" where
  "peer_filed a e = (fst e = mp_mobileId (snd e) \<and> fst e \<noteq> [] \<and> mp_accountId (snd e) = a)"

definition directory_ok :: "directory \<Rightarrow> bool" where
  "directory_ok d = (\<forall>a. distinct (map fst (peers_in d a)) \<and> list_all (peer_filed a) (peers_in d a) \<and>
     snd ` set (aliases_in d a) \<subseteq> fst ` set (peers_in d a))"

definition empty_directory :: directory where
  "empty_directory = \<lparr>dr_peers = [], dr_aliases = []\<rparr>"

lemma directory_ok_empty: "directory_ok empty_directory"
  by (simp add: directory_ok_def empty_directory_def peers_in_def aliases_in_def)

lemma getPeerBucket_eq: "fst (getPeerBucket a d) = peers_in d (bucket_id a)"
  by (simp add: getPeerBucket_def peers_in_def split: option.split)

lemma getAliasBucket_eq: "fst (getAliasBucket a d) = aliases_in d (bucket_id a)"
  by (simp add: getAliasBucket_def aliases_in_def split: option.split)

lemma bucket_id_idem [simp]: "bucket_id (bucket_id a) = bucket_id a"
  by (simp add: bucket_id_def DEFAULT_ACCOUNT_ID_def Let_def) (simp add: js_trim_def js_space_def)

lemma getPeerBucket_in [simp]:
  "peers_in (snd (getPeerBucket a d)) = peers_in d" "aliases_in (snd (getPeerBucket a d)) = aliases_in d"
  by (auto simp: getPeerBucket_def peers_in_def aliases_in_def update_conv' fun_eq_iff split: option.split)

lemma getAliasBucket_in [simp]:
  "peers_in (snd (getAliasBucket a d)) = peers_in d" "aliases_in (snd (getAliasBucket a d)) = aliases_in d"
  by (auto simp: getAliasBucket_def peers_in_def aliases_in_def update_conv' fun_eq_iff split: option.split)

lemma directory_ok_cong: "peers_in d' = peers_in d \<Longrightarrow> aliases_in d' = aliases_in d \<Longrightarrow> directory_ok d' = directory_ok d"
  by (simp add: directory_ok_def)

text \<open>What remembering a peer does to the buckets.\<close>

lemma remember_peers:
  assumes "rememberMobilePeer now p d = (Some x, d')"
  shows "asString (pp_mobileId p) \<noteq> []"
    and "x = next_peer now (asString (pp_mobileId p)) p (map_of (peers_in d (bucket_id (pp_accountId p))) (asString (pp_mobileId p)))"
    and "peers_in d' = (peers_in d)(bucket_id (pp_accountId p) :=
        AList.update (asString (pp_mobileId p)) x (peers_in d (bucket_id (pp_accountId p))))"
    and "aliases_in d' = (aliases_in d)(bucket_id (pp_accountId p) :=
        fold (\<lambda>a m. AList.update a (asString (pp_mobileId p)) m) (peer_aliases (bucket_id (pp_accountId p)) x)
          (aliases_in d (bucket_id (pp_accountId p))))"
proof -
  let ?b = "bucket_id (pp_accountId p)" and ?m = "asString (pp_mobileId p)"
  let ?al = "\<lambda>x. fold (\<lambda>a m. AList.update a ?m m) (peer_aliases ?b x) (aliases_in d ?b)"
  obtain d1 where pb: "getPeerBucket ?b d = (peers_in d ?b, d1)" "peers_in d1 = peers_in d" "aliases_in d1 = aliases_in d"
    using getPeerBucket_eq [of ?b d] getPeerBucket_in [of ?b d] by (metis bucket_id_idem prod.collapse)
  obtain d2 where ab: "getAliasBucket ?b d1 = (aliases_in d ?b, d2)" "peers_in d2 = peers_in d" "aliases_in d2 = aliases_in d"
    using getAliasBucket_eq [of ?b d1] getAliasBucket_in [of ?b d1] pb(2,3) by (metis bucket_id_idem prod.collapse)
  show m: "?m \<noteq> []" using assms by (auto simp: rememberMobilePeer_def)
  let ?x = "next_peer now ?m p (map_of (peers_in d ?b) ?m)"
  have r: "x = ?x" "d' = d2\<lparr>dr_peers := AList.update ?b (AList.update ?m ?x (peers_in d ?b)) (dr_peers d2),
         dr_aliases := AList.update ?b (?al ?x) (dr_aliases d2)\<rparr>"
    using assms m by (auto simp: rememberMobilePeer_def pb(1) ab(1) Let_def)
  show "x = ?x" by (rule r(1))
  show "peers_in d' = (peers_in d)(?b := AList.update ?m x (peers_in d ?b))"
    using ab(2) unfolding r by (simp add: peers_in_def update_conv' fun_eq_iff)
  show "aliases_in d' = (aliases_in d)(?b := ?al x)"
    using ab(3) unfolding r by (simp add: aliases_in_def update_conv' fun_eq_iff)
qed

lemma fold_update_get: "map_of (fold (\<lambda>a m. AList.update a v m) ks m) k = (if k \<in> set ks then Some v else map_of m k)"
  by (induction ks arbitrary: m) (auto simp: update_conv')

lemma fold_update_values: "snd ` set (fold (\<lambda>a m. AList.update a v m) ks m) \<subseteq> insert v (snd ` set m)"
proof (induction ks arbitrary: m)
  case (Cons k ks)
  have "snd ` set (AList.update k v m) \<subseteq> insert v (snd ` set m)" using set_update_subset [of k v m] by auto
  moreover have "snd ` set (fold (\<lambda>a m. AList.update a v m) ks (AList.update k v m)) \<subseteq> insert v (snd ` set (AList.update k v m))"
    by (rule Cons.IH)
  ultimately show ?case unfolding fold_simps by blast
qed auto

lemma keys_update: "fst ` set (AList.update k v m) = insert k (fst ` set m)"
  by (induction m) auto

lemma next_peer_sel [simp]:
  "mp_mobileId (next_peer now m p e) = m" "mp_accountId (next_peer now m p e) = bucket_id (pp_accountId p)"
  by (simp_all add: next_peer_def)

lemma remembered_ok:
  assumes "directory_ok d" "rememberMobilePeer now p d = (r, d')"
  shows "directory_ok d'"
proof (cases r)
  case None
  then have "d' = d" using assms(2) by (auto simp: rememberMobilePeer_def Let_def split: prod.splits if_splits)
  then show ?thesis using assms(1) by simp
next
  case (Some x)
  let ?b = "bucket_id (pp_accountId p)" and ?m = "asString (pp_mobileId p)"
  note f = remember_peers [OF assms(2) [unfolded Some]]
  have xs: "mp_mobileId x = ?m" "mp_accountId x = ?b" unfolding f(2) by simp_all
  have old: "distinct (map fst (peers_in d a))" "list_all (peer_filed a) (peers_in d a)"
    "snd ` set (aliases_in d a) \<subseteq> fst ` set (peers_in d a)" for a
    using assms(1) by (simp_all add: directory_ok_def)
  have "list_all (peer_filed ?b) (AList.update ?m x (peers_in d ?b))"
    using old(2) [of ?b] set_update_subset [of ?m x "peers_in d ?b"] f(1) xs
    by (fastforce simp: list_all_iff peer_filed_def)
  moreover have "snd ` set (fold (\<lambda>a m. AList.update a ?m m) (peer_aliases ?b x) (aliases_in d ?b)) \<subseteq>
      fst ` set (AList.update ?m x (peers_in d ?b))"
    using fold_update_values [of ?m "peer_aliases ?b x" "aliases_in d ?b"] old(3) [of ?b] by (auto simp: keys_update)
  ultimately show ?thesis
    using old by (simp add: directory_ok_def f(3,4) distinct_update)
qed

text \<open>Remembering a mobile keeps the directory consistent: peers are filed once, under their id and
  account, and every alias leads to a peer of its account.\<close>

theorem remembering_keeps_directory:
  assumes "directory_ok d" "rememberMobilePeer now p d = (r, d')"
  shows "directory_ok d'"
  using assms by (rule remembered_ok)

section \<open>A known user can be addressed\<close>

lemma id_char_plain: "id_char c \<Longrightarrow> c \<noteq> CHR '':'' \<and> \<not> js_space c"
  by (auto simp: id_char_def is_word_def js_space_def)

lemma js_lower_char_colon: "js_lower_char c = CHR '':'' \<Longrightarrow> c = CHR '':''"
proof -
  assume l: "js_lower_char c = CHR '':''"
  let ?n = "of_char c :: nat"
  have "\<not> ((65 \<le> ?n \<and> ?n \<le> 90) \<or> (192 \<le> ?n \<and> ?n \<le> 222 \<and> ?n \<noteq> 215))"
  proof
    assume u: "(65 \<le> ?n \<and> ?n \<le> 90) \<or> (192 \<le> ?n \<and> ?n \<le> 222 \<and> ?n \<noteq> 215)"
    then have "js_lower_char c = char_of (?n + 32)" by (simp add: js_lower_char_def)
    then have "of_char (char_of (?n + 32) :: char) = (of_char (CHR '':'') :: nat)" using l by metis
    then have "of_char (char_of (?n + 32) :: char) = (58 :: nat)" by simp
    moreover have "of_char (char_of (?n + 32) :: char) = ?n + 32" using u by (auto simp: of_char_of intro: mod_less)
    ultimately show False using u by simp
  qed
  then have "js_lower_char c = c" unfolding js_lower_char_def Let_def by (rule if_not_P)
  then show ?thesis using l by simp
qed

lemma js_lower_prefix:
  assumes "list_all id_char u" "CHR '':'' \<in> set p" shows "\<not> js_starts_with (js_lower u) p" "js_lower (take n u) \<noteq> p"
proof -
  have no: "CHR '':'' \<notin> js_lower_char ` set u"
  proof
    assume "CHR '':'' \<in> js_lower_char ` set u"
    then obtain c where "c \<in> set u" "js_lower_char c = CHR '':''" by force
    then show False using assms(1) js_lower_char_colon id_char_plain by (metis list_all_iff)
  qed
  have "set (take k (js_lower u)) \<subseteq> js_lower_char ` set u" for k
    by (auto simp: js_lower_def dest: in_set_takeD)
  then show "\<not> js_starts_with (js_lower u) p" using no assms(2) unfolding js_starts_with_def by (metis subsetD)
  have "set (js_lower (take n u)) \<subseteq> js_lower_char ` set u" by (auto simp: js_lower_def dest: in_set_takeD)
  then show "js_lower (take n u) \<noteq> p" using no assms(2) by blast
qed

lemma trimmed_id: "list_all id_char u \<Longrightarrow> js_trimmed u"
  by (cases u) (auto simp: js_trimmed_def id_char_plain list_all_iff)

lemma strip_kind_id [simp]: "list_all id_char u \<Longrightarrow> strip_kind u = u"
  by (simp add: strip_kind_def js_lower_prefix)

lemma scoped_id_id [simp]: "list_all id_char u \<Longrightarrow> scoped_id u = None"
proof -
  assume "list_all id_char u"
  then have tw: "takeWhile (\<lambda>c. c \<noteq> CHR '':'') u = u" using id_char_plain by (auto simp: takeWhile_eq_all_conv list_all_iff)
  show ?thesis unfolding scoped_id_def Let_def tw by simp
qed

lemma strip_channel_id [simp]: "list_all id_char u \<Longrightarrow> strip_channel u = u"
  by (simp add: strip_channel_def js_lower_prefix)

text \<open>The addresses of a user: plain, by kind, or within the channel.\<close>

definition user_addresses :: "string \<Rightarrow> string list" where
  "user_addresses u = [u, ''user:'' @ u, ''dm:'' @ u, ''openclaw-mobile:'' @ u]"

lemma scoped_kind:
  assumes "list_all id_char u" "list_all (\<lambda>c. c \<noteq> CHR '':'') k" "k \<noteq> []"
  shows "scoped_id (k @ CHR '':'' # u) \<in> {None, Some u}"
proof -
  have "takeWhile (\<lambda>c. c \<noteq> CHR '':'') (k @ CHR '':'' # u) = k"
    using assms(2) by (simp add: takeWhile_append2 list_all_iff)
  then show ?thesis by (simp add: scoped_id_def)
qed

lemma address_text:
  assumes u: "list_all id_char u" "u \<noteq> []" and t: "t \<in> set (user_addresses u)"
  shows "js_trim t = t" "t \<noteq> []"
    and "(let text1 = js_trim (strip_channel t) in strip_kind (case scoped_id text1 of Some t \<Rightarrow> t | None \<Rightarrow> text1)) = u"
    and "find_mobile False t = find_mobile False u"
proof -
  have last: "\<not> js_space (last u)" using u by (auto simp: id_char_plain list_all_iff)
  have tr: "js_trimmed t" using t last u(2) trimmed_id [OF u(1)] by (auto simp: user_addresses_def js_trimmed_def js_space_def)
  then show tt: "js_trim t = t" by (rule js_trim_id)
  show "t \<noteq> []" using t u(2) by (auto simp: user_addresses_def)
  have cases: "t = u \<or> t = ''user:'' @ u \<or> t = ''dm:'' @ u \<or> t = ''openclaw-mobile:'' @ u"
    using t by (simp add: user_addresses_def)
  have k: "scoped_id (''user:'' @ u) \<in> {None, Some u}" "scoped_id (''dm:'' @ u) \<in> {None, Some u}"
    using scoped_kind [OF u(1), of "''user''"] scoped_kind [OF u(1), of "''dm''"] by simp_all
  have s: "strip_kind (''user:'' @ u) = u" "strip_kind (''dm:'' @ u) = u"
    "strip_channel (''user:'' @ u) = ''user:'' @ u" "strip_channel (''dm:'' @ u) = ''dm:'' @ u"
    "strip_channel (''openclaw-mobile:'' @ u) = u"
    by (simp_all add: strip_kind_def strip_channel_def js_lower_def js_starts_with_def js_lower_char_def Let_def
        js_trim_id [OF trimmed_id [OF u(1)]])
  show "(let text1 = js_trim (strip_channel t) in strip_kind (case scoped_id text1 of Some t \<Rightarrow> t | None \<Rightarrow> text1)) = u"
    using cases tt k s js_trim_id [OF trimmed_id [OF u(1)]] u(1) unfolding Let_def
    by (elim disjE) (auto split: option.split)
  show "find_mobile False t = find_mobile False u"
    using cases by (elim disjE) (simp_all add: mobile_at_def js_starts_with_def is_word_def)
qed

text \<open>Once a mobile of the default account is remembered, its user can be addressed by the user's id,
  with and without the prefix of its kind or of the channel: the target is the mobile's id.\<close>

theorem known_user_addressed:
  assumes "rememberMobilePeer now p d = (Some x, d')" "bucket_id (pp_accountId p) = DEFAULT_ACCOUNT_ID"
    and "mp_userId x \<noteq> []" "list_all id_char (mp_userId x)"
    and "find_mobile False (mp_userId x) = None" "\<not> js_starts_with (mp_userId x) ''mobile_''"
    and "t \<in> set (user_addresses (mp_userId x))"
  shows "fst (normalizeMobileTarget t d') = Some (mp_mobileId x)"
proof -
  let ?u = "mp_userId x"
  note f = remember_peers [OF assms(1)]
  note a = address_text [OF assms(4,3,7)]
  have m: "mp_mobileId x = asString (pp_mobileId p)" "mp_mobileId x \<noteq> []" using f(1,2) by simp_all
  have "?u \<in> set (peer_aliases DEFAULT_ACCOUNT_ID x)" using assms(3) by (simp add: peer_aliases_def Let_def)
  then have "map_of (aliases_in d' DEFAULT_ACCOUNT_ID) ?u = Some (mp_mobileId x)"
    unfolding f(4) assms(2) m(1) by (simp add: fold_update_get)
  moreover have "bucket_id DEFAULT_ACCOUNT_ID = DEFAULT_ACCOUNT_ID"
    by (metis assms(2) bucket_id_idem)
  ultimately have "fst (lookupMobileAlias DEFAULT_ACCOUNT_ID ?u d') = mp_mobileId x"
    using getAliasBucket_eq [of DEFAULT_ACCOUNT_ID d'] by (auto simp: lookupMobileAlias_def split: prod.split)
  then show ?thesis
    using a assms(3,5,6) m(2) by (auto simp: normalizeMobileTarget_def Let_def split: prod.split)
qed

definition demo_params :: peer_params where
  "demo_params =
     \<lparr>pp_accountId = [], pp_mobileId = JStr ''mobile_1'', pp_userId = JStr ''user_7'', pp_bindingId = JUndef,
       pp_createdAt = None, pp_updatedAt = None\<rparr>"

theorem known_user_addressed_witness:
  "fst (normalizeMobileTarget ''user:user_7'' (snd (rememberMobilePeer (Fin 5) demo_params empty_directory))) = Some ''mobile_1''"
proof -
  obtain x d' where r: "rememberMobilePeer (Fin 5) demo_params empty_directory = (Some x, d')" "mp_userId x = ''user_7''"
    "mp_mobileId x = ''mobile_1''"
  proof -
    have "rememberMobilePeer (Fin 5) demo_params empty_directory =
       (Some (the (fst (rememberMobilePeer (Fin 5) demo_params empty_directory))), snd (rememberMobilePeer (Fin 5) demo_params empty_directory))"
      by code_simp
    moreover have "mp_userId (the (fst (rememberMobilePeer (Fin 5) demo_params empty_directory))) = ''user_7''" by code_simp
    moreover have "mp_mobileId (the (fst (rememberMobilePeer (Fin 5) demo_params empty_directory))) = ''mobile_1''" by code_simp
    ultimately show ?thesis using that by blast
  qed
  have "bucket_id (pp_accountId demo_params) = DEFAULT_ACCOUNT_ID" by code_simp
  moreover have "find_mobile False ''user_7'' = None" "list_all id_char ''user_7''" "\<not> js_starts_with ''user_7'' ''mobile_''"
    "''user:user_7'' \<in> set (user_addresses ''user_7'')" by code_simp+
  ultimately show ?thesis using known_user_addressed [OF r(1), of "''user:user_7''"] r by simp
qed

theorem remembering_keeps_directory_witness:
  "directory_ok (snd (rememberMobilePeer (Fin 5) demo_params empty_directory))"
  using remembering_keeps_directory [OF directory_ok_empty surjective_pairing] .

section \<open>The list of peers\<close>

interpretation newest: comparator_on UNIV newer_first
proof
  fix x y z :: mobile_peer
  show "sgn (newer_first y x) = - sgn (newer_first x y)"
    by (auto simp: newer_first_def js_diff_sign_def dest: js_less_asym)
  assume "newer_first x y \<le> 0" "newer_first y z \<le> 0"
  then show "newer_first x z \<le> 0"
    using numbers.cmp_trans [of "js_or_zero (mp_updatedAt z)" "js_or_zero (mp_updatedAt y)" "js_or_zero (mp_updatedAt x)"]
    unfolding newer_first_def by simp
qed

text \<open>Listing the peers of an account without a limit gives every matching peer exactly once, those
  updated last first.\<close>

theorem listing_exact:
  assumes "directory_ok d" "js_number_or_zero limitValue = Fin 0"
  shows "\<exists>ps. fst (listCachedPeers a q limitValue d) = map row_of ps \<and> cmp_sorted newer_first ps \<and>
    distinct (map mp_mobileId ps) \<and>
    set ps = {p \<in> snd ` set (peers_in d (bucket_id a)). js_lower (asString q) = [] \<or> peer_matches (js_lower (asString q)) p}"
proof -
  let ?b = "peers_in d (bucket_id a)" and ?q = "js_lower (asString q)"
  let ?s = "js_sort newer_first (map snd ?b)"
  let ?ps = "if ?q \<noteq> [] then filter (peer_matches ?q) ?s else ?s"
  have "map mp_mobileId (map snd ?b) = map fst ?b"
    using assms(1) by (auto simp: directory_ok_def list_all_iff peer_filed_def)
  then have "distinct (map mp_mobileId ?s)"
    using assms(1) distinct_map_js_sort [of mp_mobileId newer_first "map snd ?b"] by (simp add: directory_ok_def del: map_map)
  moreover have "cmp_sorted newer_first ?s" by (rule newest.sorted_js_sort) simp
  moreover have "cmp_sorted c (filter P xs)" if "cmp_sorted c xs" for c and P :: "mobile_peer \<Rightarrow> bool" and xs
    using that by (induction xs) auto
  moreover have "fst (listCachedPeers a q limitValue d) = map row_of ?ps"
  proof (cases "getPeerBucket a d")
    case (Pair bucket d')
    then have "bucket = ?b" using getPeerBucket_eq [of a d] by simp
    then show ?thesis using assms(2) Pair by (simp add: listCachedPeers_def Let_def)
  qed
  moreover have "set ?ps = {p \<in> snd ` set ?b. ?q = [] \<or> peer_matches ?q p}" by auto
  ultimately show ?thesis by (intro exI [of _ ?ps]) (auto simp: distinct_map_filter)
qed

theorem listing_exact_witness:
  "\<exists>ps. fst (listCachedPeers [] JUndef JUndef (snd (rememberMobilePeer (Fin 5) demo_params empty_directory))) = map row_of ps \<and>
     cmp_sorted newer_first ps"
proof -
  have "directory_ok (snd (rememberMobilePeer (Fin 5) demo_params empty_directory))"
    by (rule remembered_ok [OF directory_ok_empty surjective_pairing])
  then show ?thesis using listing_exact [of _ JUndef "[]" JUndef] js_number_or_zero_simps(1) by blast
qed

end
