(* ===== verification/GatewayChannel.thy ===== *)
theory GatewayChannel
  imports GatewayDirectory
begin

text \<open>
  desktop/extensions/openclaw-mobile/src/channel.ts, the gateway: the requests to the signal service,
  the directory and outbound operations of the plugin, and \<open>startAccount\<close> as a state machine. The
  local variables of the call form the record \<open>gateway\<close>; a step is one event of the socket, the
  timer, the abort signal or the host, and the calls to the outside are the list \<open>gw_out\<close>. What a
  handler suspends is a task. The clock is an argument of the events. Logging and the host's fields
  of the agent's context that repeat others are left out. The theorems: who makes the agent run,
  truthful status, final aborts, bounded back-off, recognition of repeated events, and three
  defects.
\<close>

section \<open>Requests to the signal service\<close>

definition buildHttpUrl :: "web \<Rightarrow> string \<Rightarrow> string \<Rightarrow> pair_error + url" where
  "buildHttpUrl web baseUrl path =
     sum_bind (lift_thrown (new_url web baseUrl)) (\<lambda>u. Inr ((set_search (set_pathname u path) [])\<lparr>u_hash := []\<rparr>))"

text \<open>
  Setting \<open>protocol\<close> between special schemes; the setter ignores any other change. A port that is the
  default of the new scheme is that of the old one, for http and https addresses.
\<close>

definition set_protocol :: "url \<Rightarrow> string \<Rightarrow> url" where
  "set_protocol u p =
     (if u_protocol u \<in> {''http:'', ''https:'', ''ws:'', ''wss:'', ''ftp:''} \<or> (u_protocol u = ''file:'' \<and> u_host u \<noteq> [])
      then u\<lparr>u_protocol := p\<rparr> else u)"

definition buildWsUrl :: "web \<Rightarrow> string \<Rightarrow> string \<Rightarrow> string \<Rightarrow> pair_error + string" where
  "buildWsUrl web baseUrl clientType clientId =
     sum_bind (buildHttpUrl web baseUrl ''/v1/signal/ws'') (\<lambda>u.
       let u' = set_protocol u (if u_protocol u = ''https:'' then ''wss:'' else ''ws:'')
       in Inr (url_text (set_search u' (query_text web [(''clientType'', clientType), (''clientId'', clientId)]))))"

record gw_signal =
  gs_fromType :: string
  gs_fromId :: string
  gs_toType :: string
  gs_toId :: string
  gs_type :: string
  gs_payload :: jsval

definition gw_signal_json :: "gw_signal \<Rightarrow> jsval" where
  "gw_signal_json s =
     JObj [(''fromType'', JStr (gs_fromType s)), (''fromId'', JStr (gs_fromId s)), (''toType'', JStr (gs_toType s)),
       (''toId'', JStr (gs_toId s)), (''type'', JStr (gs_type s)), (''payload'', gs_payload s)]"

definition post_request :: "web \<Rightarrow> account \<Rightarrow> gw_signal \<Rightarrow> pair_error + request" where
  "post_request web a s =
     sum_bind (buildHttpUrl web (ac_serverBaseUrl a) ''/v1/signal/send'') (\<lambda>endpoint.
       Inr \<lparr>rq_url = url_text endpoint, rq_method = ''POST'', rq_headers = [(''Content-Type'', ''application/json'')],
            rq_body = Some (json_text (gw_signal_json s))\<rparr>)"

text \<open>The answer to a request: None when the body is not JSON.\<close>

definition reply_message :: "response \<Rightarrow> string" where
  "reply_message r =
     (let json = (case rs_json r of Some v \<Rightarrow> v | None \<Rightarrow> JNull) in
      js_to_string (js_or (js_or (js_get json ''message'') (js_get json ''error''))
        (JStr (''HTTP '' @ nat_digits (rs_status r)))))"

definition reply_ok :: "response \<Rightarrow> bool" where
  "reply_ok r = (rs_ok r \<and> (case rs_json r of Some v \<Rightarrow> js_truthy (js_get v ''ok'') | None \<Rightarrow> False))"

definition signal_result :: "pair_error + response \<Rightarrow> pair_error + unit" where
  "signal_result reply =
     sum_bind reply (\<lambda>r. if reply_ok r then Inr () else Inl (Thrown (''signal send failed: '' @ reply_message r)))"

definition bindings_request :: "web \<Rightarrow> account \<Rightarrow> pair_error + request" where
  "bindings_request web a =
     sum_bind (buildHttpUrl web (ac_serverBaseUrl a) ''/v1/pair/bindings'') (\<lambda>endpoint.
       Inr \<lparr>rq_url = url_text (set_search endpoint (query_text web [(''deviceId'', ac_desktopDeviceId a)])),
            rq_method = ''GET'', rq_headers = [(''Accept'', ''application/json'')], rq_body = None\<rparr>)"

definition binding_params :: "jsnum \<Rightarrow> string \<Rightarrow> jsval \<Rightarrow> peer_params" where
  "binding_params now accountId b =
     (let time = (\<lambda>v. let n = js_number_or_zero v in Some (if js_num_truthy n then n else now)) in
      \<lparr>pp_accountId = accountId, pp_mobileId = js_get b ''mobileId'', pp_userId = js_get b ''userId'',
       pp_bindingId = js_get b ''bindingId'', pp_createdAt = time (js_get b ''createdAt''),
       pp_updatedAt = time (js_get b ''updatedAt'')\<rparr>)"

fun remember_bindings :: "jsnum \<Rightarrow> string \<Rightarrow> jsval list \<Rightarrow> directory \<Rightarrow> mobile_peer list \<times> directory" where
  "remember_bindings now accountId [] d = ([], d)"
| "remember_bindings now accountId (b # bs) d =
     (case rememberMobilePeer now (binding_params now accountId b) d of (peer, d1) \<Rightarrow>
      case remember_bindings now accountId bs d1 of (peers, d2) \<Rightarrow>
        ((case peer of Some p \<Rightarrow> [p] | None \<Rightarrow> []) @ peers, d2))"

definition bindings_result :: "pair_error + response \<Rightarrow> pair_error + jsval list" where
  "bindings_result reply =
     sum_bind reply (\<lambda>r.
       case (if reply_ok r then rs_json r else None) of
         Some v \<Rightarrow> (case js_get v ''bindings'' of
             JArr bs \<Rightarrow> Inr bs | _ \<Rightarrow> Inl (Thrown (''list bindings failed: '' @ reply_message r)))
       | None \<Rightarrow> Inl (Thrown (''list bindings failed: '' @ reply_message r)))"

text \<open>\<open>fetchActiveBindings\<close> once the answer of the service is there.\<close>

definition active_bindings ::
  "jsnum \<Rightarrow> account \<Rightarrow> pair_error + response \<Rightarrow> directory \<Rightarrow> (pair_error + mobile_peer list) \<times> directory" where
  "active_bindings now a reply d =
     (case bindings_result reply of
        Inl err \<Rightarrow> (Inl err, d)
      | Inr bs \<Rightarrow> (case remember_bindings now (ac_accountId a) bs d of (peers, d') \<Rightarrow> (Inr peers, d')))"

section \<open>Directory and outbound operations of the plugin\<close>

text \<open>
  \<open>directory.listPeers\<close> and \<open>listPeersLive\<close>: the service is asked when the account is configured, and
  its failure leaves the remembered peers. The fetch acts on a state \<open>'n\<close> of its own.
\<close>

definition listPeers ::
  "web \<Rightarrow> (request \<Rightarrow> 'n \<Rightarrow> (pair_error + response) \<times> 'n) \<Rightarrow> jsnum \<Rightarrow> jsval \<Rightarrow> jsval \<Rightarrow> jsval \<Rightarrow> jsval \<Rightarrow>
    directory \<times> 'n \<Rightarrow> peer_row list \<times> directory \<times> 'n" where
  "listPeers web fetch now cfg accountId query limit w =
     (let a = resolveAccount cfg accountId;
          w1 = (if ac_configured a then
                  (case bindings_request web a of
                     Inl _ \<Rightarrow> w
                   | Inr rq \<Rightarrow> (case fetch rq (snd w) of (reply, n) \<Rightarrow> (snd (active_bindings now a reply (fst w)), n)))
                else w)
      in case listCachedPeers (ac_accountId a) query limit (fst w1) of (rows, d) \<Rightarrow> (rows, d, snd w1))"

text \<open>\<open>outbound.sendText\<close> returns the id it gives the message and the chat.\<close>

datatype send_error = NotConfigured | NoTarget | SendFailed pair_error

definition chat_signal :: "jsnum \<Rightarrow> account \<Rightarrow> string \<Rightarrow> jsval \<Rightarrow> gw_signal" where
  "chat_signal now a toId text =
     \<lparr>gs_fromType = ''desktop'', gs_fromId = ac_desktopDeviceId a, gs_toType = ''mobile'', gs_toId = toId,
       gs_type = ''chat.message'',
       gs_payload = JObj [(''text'', text), (''from'', JStr ''agent''), (''sentAt'', JNum now), (''via'', JStr CHANNEL_ID)]\<rparr>"

definition sendText ::
  "web \<Rightarrow> (request \<Rightarrow> 'n \<Rightarrow> (pair_error + response) \<times> 'n) \<Rightarrow> jsnum \<Rightarrow> jsval \<Rightarrow> jsval \<Rightarrow> jsval \<Rightarrow> jsval \<Rightarrow>
    directory \<times> 'n \<Rightarrow> (send_error + string \<times> string) \<times> directory \<times> 'n" where
  "sendText web fetch now cfg accountId to text w =
     (let a = resolveAccount cfg accountId in
      if \<not> ac_configured a then (Inl NotConfigured, w)
      else case normalizeMobileTarget (js_to_string (js_or to (JStr []))) (fst w) of
        (None, d) \<Rightarrow> (Inl NoTarget, d, snd w)
      | (Some normalizedTo, d) \<Rightarrow>
        (if normalizedTo = [] then (Inl NoTarget, d, snd w)
         else case post_request web a (chat_signal now a normalizedTo text) of
           Inl err \<Rightarrow> (Inl (SendFailed err), d, snd w)
         | Inr rq \<Rightarrow>
           (case fetch rq (snd w) of (reply, n) \<Rightarrow>
              (case signal_result reply of
                 Inl err \<Rightarrow> (Inl (SendFailed err), d, n)
               | Inr _ \<Rightarrow> (Inr (''ocm-'' @ js_num_to_string now, normalizedTo), d, n)))))"

section \<open>The gateway of an account\<close>

text \<open>
  \<open>startAccount\<close>. The local variables of the call, the phase its loop is in, the WebSocket, and the
  computations its handlers have suspended: a dispatch that loads the configuration, a running
  agent, a reply that loads the configuration, and a reply that is being posted.
\<close>

datatype gw_phase =
    Gw_waiting          \<comment> \<open>disabled or not configured: waits until the abort\<close>
  | Gw_initial          \<comment> \<open>awaits the first list of bindings\<close>
  | Gw_socket           \<comment> \<open>awaits the end of the WebSocket\<close>
  | Gw_sleep jsnum      \<comment> \<open>waits before it connects again\<close>
  | Gw_stopped          \<comment> \<open>has left its loop\<close>
  | Gw_crashed pair_error  \<comment> \<open>the promise of \<open>startAccount\<close> is rejected\<close>

datatype ws_state = Ws_none | Ws_connecting | Ws_open | Ws_closing

record inbound =
  ib_account :: account
  ib_mobileId :: string
  ib_senderName :: string
  ib_text :: string
  ib_ts :: jsnum

datatype gw_task =
    T_dispatch inbound
  | T_agent inbound string
  | T_send inbound string string
  | T_posted inbound string string

text \<open>The context of a message as the agent gets it; the rest of it repeats these fields.\<close>

record agent_context =
  cx_body :: string
  cx_target :: string
  cx_accountId :: string
  cx_senderName :: string
  cx_senderId :: string
  cx_timestamp :: jsnum

datatype gw_effect =
    Fx_bindings request
  | Fx_connect string
  | Fx_close_socket
  | Fx_post request
  | Fx_load_config nat
  | Fx_agent nat agent_context

record gateway =
  gw_account :: account
  gw_phase :: gw_phase
  gw_ws :: ws_state
  gw_opened :: bool
  gw_aborted :: bool
  gw_seen :: "(string \<times> jsnum) list"
  gw_names :: "(string \<times> string) list"
  gw_attempt :: nat
  gw_lastDisconnect :: string
  gw_status :: jsval
  gw_directory :: directory
  gw_tasks :: "(nat \<times> gw_task) list"
  gw_next :: nat
  gw_out :: "gw_effect list"

definition fx :: "gw_effect \<Rightarrow> gateway \<Rightarrow> gateway" where
  "fx e s = s\<lparr>gw_out := gw_out s @ [e]\<rparr>"

text \<open>A request whose address cannot be built fails before it is sent.\<close>

definition fx_post :: "pair_error + request \<Rightarrow> gateway \<Rightarrow> gateway" where
  "fx_post rq s = (case rq of Inl _ \<Rightarrow> s | Inr r \<Rightarrow> fx (Fx_post r) s)"

definition num :: "nat \<Rightarrow> jsval" where "num n = JNum (Fin (of_nat n))"

definition setStatus :: "(string \<times> jsval) list \<Rightarrow> gateway \<Rightarrow> gateway" where
  "setStatus patch s =
     (let a = gw_account s in
      s\<lparr>gw_status := js_spread (js_spread (gw_status s)
          (JObj [(''accountId'', JStr (ac_accountId a)), (''enabled'', JBool (ac_enabled a)),
            (''configured'', JBool (ac_configured a)), (''running'', JBool True),
            (''baseUrl'', JStr (ac_serverBaseUrl a))])) (JObj patch)\<rparr>)"

definition rememberEventId :: "jsnum \<Rightarrow> string \<Rightarrow> (string \<times> jsnum) list \<Rightarrow> bool \<times> (string \<times> jsnum) list" where
  "rememberEventId now eventId cache =
     (if eventId = [] then (False, cache)
      else if eventId \<in> fst ` set cache then (True, cache)
      else
        let cache' = AList.update eventId now cache in
        (False, if length cache' \<le> MAX_SEEN_EVENT_IDS then cache'
                else case cache' of (oldest, t) # rest \<Rightarrow> if oldest \<noteq> [] then AList.delete oldest cache' else cache'
                   | [] \<Rightarrow> cache'))"

definition resolveInboundText :: "string \<Rightarrow> jsval \<Rightarrow> string" where
  "resolveInboundText eventType payload =
     (let text = js_get payload ''text''; message = js_get payload ''message''; prompt = js_get payload ''prompt'' in
      if eventType = ''chat.message'' then asString (js_coalesce text message)
      else if eventType = ''task.create'' then asString (js_coalesce (js_coalesce prompt text) message)
      else asString (js_coalesce (js_coalesce text message) prompt))"

section \<open>Messages of the socket\<close>

definition gw_spawn :: "gw_task \<Rightarrow> gateway \<Rightarrow> nat \<times> gateway" where
  "gw_spawn t s = (gw_next s, s\<lparr>gw_tasks := gw_tasks s @ [(gw_next s, t)], gw_next := Suc (gw_next s)\<rparr>)"

text \<open>\<open>dispatchInboundToAgent\<close> up to its first \<open>await\<close>: it loads the configuration.\<close>

definition dispatchInboundToAgent :: "inbound \<Rightarrow> gateway \<Rightarrow> gateway" where
  "dispatchInboundToAgent ib s = (case gw_spawn (T_dispatch ib) s of (i, s') \<Rightarrow> fx (Fx_load_config i) s')"

definition remember_named :: "jsnum \<Rightarrow> peer_params \<Rightarrow> string \<Rightarrow> string \<Rightarrow> gateway \<Rightarrow> gateway" where
  "remember_named now p mobileId userId s =
     (case rememberMobilePeer now p (gw_directory s) of (peer, d) \<Rightarrow>
        s\<lparr>gw_directory := d,
          gw_names := AList.update mobileId
            (case peer of Some x \<Rightarrow> formatPeerDisplayName x | None \<Rightarrow> display_name mobileId userId) (gw_names s)\<rparr>)"

definition handle_claimed :: "jsnum \<Rightarrow> jsnum \<Rightarrow> jsval \<Rightarrow> gateway \<Rightarrow> gateway" where
  "handle_claimed now eventTs payload s =
     (let mobileId = asString (js_coalesce (js_get payload ''mobileId'') (js_get payload ''mobile_id''));
          userId = asString (js_coalesce (js_get payload ''userId'') (js_get payload ''user_id''));
          bindingId = asString (js_coalesce (js_get payload ''bindingId'') (js_get payload ''binding_id''))
      in if mobileId = [] then s
         else remember_named now
           \<lparr>pp_accountId = ac_accountId (gw_account s), pp_mobileId = JStr mobileId, pp_userId = JStr userId,
            pp_bindingId = JStr bindingId, pp_createdAt = None, pp_updatedAt = Some eventTs\<rparr> mobileId userId s)"

definition handle_ping :: "web \<Rightarrow> jsnum \<Rightarrow> string \<Rightarrow> jsval \<Rightarrow> gateway \<Rightarrow> gateway" where
  "handle_ping web now fromId payload s =
     (let checkId = asString (js_coalesce (js_get payload ''checkId'') (js_get payload ''check_id''));
          a = gw_account s
      in if checkId = [] then s
         else fx_post (post_request web a
           \<lparr>gs_fromType = ''desktop'', gs_fromId = ac_desktopDeviceId a, gs_toType = ''mobile'', gs_toId = fromId,
            gs_type = ''channel.pong'',
            gs_payload = JObj [(''checkId'', JStr checkId), (''ackTs'', JNum now),
              (''deviceId'', JStr (ac_desktopDeviceId a))]\<rparr>) s)"

definition handle_inbound :: "jsnum \<Rightarrow> jsnum \<Rightarrow> string \<Rightarrow> string \<Rightarrow> jsval \<Rightarrow> gateway \<Rightarrow> gateway" where
  "handle_inbound now eventTs fromId eventType payload s =
     (let inboundText = resolveInboundText eventType payload in
      if inboundText = [] then s
      else
        let userId = asString (js_coalesce (js_get payload ''userId'') (js_get payload ''user_id''));
            s1 = (if fromId \<in> fst ` set (gw_names s) then s
                  else remember_named now
                    \<lparr>pp_accountId = ac_accountId (gw_account s), pp_mobileId = JStr fromId, pp_userId = JStr userId,
                     pp_bindingId = JUndef, pp_createdAt = None, pp_updatedAt = Some eventTs\<rparr> fromId [] s);
            senderName = (case map_of (gw_names s1) fromId of Some n \<Rightarrow> if n \<noteq> [] then n else fromId | None \<Rightarrow> fromId)
        in dispatchInboundToAgent
             \<lparr>ib_account = gw_account s1, ib_mobileId = fromId, ib_senderName = senderName, ib_text = inboundText,
              ib_ts = eventTs\<rparr> s1)"

definition event_time :: "jsnum \<Rightarrow> jsval \<Rightarrow> jsnum" where
  "event_time now event = (let n = js_to_number (js_get event ''ts'') in if js_num_truthy n then n else now)"

definition from_type :: "jsval \<Rightarrow> string" where "from_type event = asString (js_get (js_get event ''from'') ''type'')"
definition from_id :: "jsval \<Rightarrow> string" where "from_id event = asString (js_get (js_get event ''from'') ''id'')"
definition event_payload :: "jsval \<Rightarrow> jsval" where "event_payload event = record_or_empty (js_get event ''payload'')"
definition event_type :: "jsval \<Rightarrow> string" where "event_type event = asString (js_get event ''type'')"

definition handle_event :: "web \<Rightarrow> jsnum \<Rightarrow> jsval \<Rightarrow> gateway \<Rightarrow> gateway" where
  "handle_event web now event s =
     (case rememberEventId now (asString (js_get event ''id'')) (gw_seen s) of
        (True, _) \<Rightarrow> s
      | (False, seen) \<Rightarrow>
        let s0 = s\<lparr>gw_seen := seen\<rparr> in
        if asString (js_get event ''kind'') \<noteq> [] then s0
        else
          let eventType = event_type event; payload = event_payload event;
              fromType = from_type event; fromId = from_id event;
              eventTs = event_time now event;
              s1 = setStatus [(''lastInboundAt'', JNum now)] s0
          in if eventType = ''pair.claimed'' then handle_claimed now eventTs payload s1
             else if eventType = ''channel.ping'' \<and> fromType = ''mobile'' \<and> fromId \<noteq> []
             then handle_ping web now fromId payload s1
             else if fromType \<noteq> ''mobile'' \<or> fromId = [] then s1
             else handle_inbound now eventTs fromId eventType payload s1)"

text \<open>The data of a socket message is text; what is not JSON, or not a record, is ignored.\<close>

definition on_ws_message :: "web \<Rightarrow> jsnum \<Rightarrow> string \<Rightarrow> gateway \<Rightarrow> gateway" where
  "on_ws_message web now raw s =
     (case json_parse raw of
        Some parsed \<Rightarrow> if js_is_record parsed then handle_event web now parsed s else s
      | None \<Rightarrow> s)"

section \<open>Replies of the agent\<close>

definition sender_of :: "mobile_peer option \<Rightarrow> inbound \<Rightarrow> string" where
  "sender_of peer ib =
     (if ib_senderName ib \<noteq> [] then ib_senderName ib
      else case peer of Some p \<Rightarrow> formatPeerDisplayName p | None \<Rightarrow> display_name (ib_mobileId ib) [])"

definition drop_task :: "nat \<Rightarrow> gateway \<Rightarrow> gateway" where
  "drop_task i s = s\<lparr>gw_tasks := filter (\<lambda>t. fst t \<noteq> i) (gw_tasks s)\<rparr>"

definition set_task :: "nat \<Rightarrow> gw_task \<Rightarrow> gateway \<Rightarrow> gateway" where
  "set_task i t s = s\<lparr>gw_tasks := map (\<lambda>e. if fst e = i then (i, t) else e) (gw_tasks s)\<rparr>"

text \<open>
  The dispatch once the configuration is loaded. The user id it remembers is the sender's display
  name, if that starts like one.
\<close>

definition agent_starts :: "jsnum \<Rightarrow> nat \<Rightarrow> inbound \<Rightarrow> gateway \<Rightarrow> gateway" where
  "agent_starts now i ib s =
     (case rememberMobilePeer now
         \<lparr>pp_accountId = ac_accountId (ib_account ib), pp_mobileId = JStr (ib_mobileId ib),
          pp_userId = JStr (if js_starts_with (ib_senderName ib) ''user_'' then ib_senderName ib else []),
          pp_bindingId = JUndef, pp_createdAt = None, pp_updatedAt = None\<rparr> (gw_directory s) of (peer, d) \<Rightarrow>
        let sender = sender_of peer ib in
        fx (Fx_agent i
            \<lparr>cx_body = ib_text ib, cx_target = CHANNEL_ID @ '':'' @ ib_mobileId ib,
             cx_accountId = ac_accountId (ib_account ib), cx_senderName = sender, cx_senderId = ib_mobileId ib,
             cx_timestamp = ib_ts ib\<rparr>)
          (set_task i (T_agent ib sender) (s\<lparr>gw_directory := d\<rparr>)))"

definition reply_started :: "web \<Rightarrow> jsnum \<Rightarrow> inbound \<Rightarrow> string \<Rightarrow> gateway \<Rightarrow> gateway" where
  "reply_started web now ib sender s =
     (let a = ib_account ib in
      fx_post (post_request web a
        \<lparr>gs_fromType = ''desktop'', gs_fromId = ac_desktopDeviceId a, gs_toType = ''mobile'', gs_toId = ib_mobileId ib,
         gs_type = ''agent.reply.started'',
         gs_payload = JObj [(''mobileId'', JStr (ib_mobileId ib)), (''senderName'', JStr sender), (''sentAt'', JNum now),
           (''via'', JStr CHANNEL_ID)]\<rparr>) s)"

text \<open>\<open>deliver\<close>: an empty text is ignored; \<open>sendToMobile\<close> begins by loading the configuration.\<close>

definition deliver :: "inbound \<Rightarrow> string \<Rightarrow> jsval \<Rightarrow> gateway \<Rightarrow> gateway" where
  "deliver ib sender payload s =
     (let text = asString (js_coalesce (js_get payload ''text'') (js_get payload ''body'')) in
      if text = [] then s
      else case gw_spawn (T_send ib sender text) s of (i, s') \<Rightarrow> fx (Fx_load_config i) s')"

definition sendToMobile :: "web \<Rightarrow> jsnum \<Rightarrow> jsval \<Rightarrow> nat \<Rightarrow> inbound \<Rightarrow> string \<Rightarrow> string \<Rightarrow> gateway \<Rightarrow> gateway" where
  "sendToMobile web now latestCfg i ib sender text s =
     (let a = resolveAccount (js_coalesce latestCfg (JObj [])) (JStr (ac_accountId (gw_account s)));
          s1 = s\<lparr>gw_account := a\<rparr>
      in if \<not> ac_configured a \<or> \<not> ac_enabled a then drop_task i s1
         else case post_request web a (chat_signal now a (ib_mobileId ib) (JStr text)) of
           Inl _ \<Rightarrow> drop_task i s1
         | Inr rq \<Rightarrow> fx (Fx_post rq) (set_task i (T_posted ib sender text) s1))"

text \<open>The reply has been posted: the status is updated and the reply mirrored to the desktop.\<close>

definition reply_posted :: "web \<Rightarrow> jsnum \<Rightarrow> nat \<Rightarrow> inbound \<Rightarrow> string \<Rightarrow> string \<Rightarrow> gateway \<Rightarrow> gateway" where
  "reply_posted web now i ib sender text s =
     (let a = ib_account ib in
      fx_post (post_request web a
        \<lparr>gs_fromType = ''desktop'', gs_fromId = ac_desktopDeviceId a, gs_toType = ''desktop'',
         gs_toId = ac_desktopDeviceId a, gs_type = ''agent.reply'',
         gs_payload = JObj [(''mobileId'', JStr (ib_mobileId ib)), (''senderName'', JStr sender), (''text'', JStr text),
           (''sentAt'', JNum now), (''via'', JStr CHANNEL_ID)]\<rparr>)
        (setStatus [(''lastOutboundAt'', JNum now)] (drop_task i s)))"

section \<open>The loop of connections\<close>

definition finish :: "gateway \<Rightarrow> gateway" where
  "finish s = setStatus [(''connected'', JBool False), (''busy'', JBool False)] (s\<lparr>gw_phase := Gw_stopped\<rparr>)"

definition gw_connect :: "web \<Rightarrow> gateway \<Rightarrow> gateway" where
  "gw_connect web s =
     (if gw_aborted s then finish s
      else case buildWsUrl web (ac_serverBaseUrl (gw_account s)) ''desktop'' (ac_desktopDeviceId (gw_account s)) of
        Inl err \<Rightarrow> s\<lparr>gw_phase := Gw_crashed err\<rparr>
      | Inr wsUrl \<Rightarrow>
        fx (Fx_connect wsUrl) (setStatus
          [(''connected'', JBool False), (''reconnectAttempts'', num (gw_attempt s)), (''busy'', JBool (gw_attempt s > 0))]
          (s\<lparr>gw_phase := Gw_socket, gw_ws := Ws_connecting, gw_opened := False\<rparr>)))"

text \<open>The first round: the status is reset whether the bindings could be fetched or not.\<close>

definition enter_loop :: "web \<Rightarrow> gateway \<Rightarrow> gateway" where
  "enter_loop web s =
     gw_connect web (setStatus [(''connected'', JBool False), (''reconnectAttempts'', num (gw_attempt s)), (''lastError'', JNull)] s)"

definition new_gateway :: "account \<Rightarrow> directory \<Rightarrow> jsval \<Rightarrow> bool \<Rightarrow> gateway" where
  "new_gateway a d status aborted =
     \<lparr>gw_account = a, gw_phase = Gw_waiting, gw_ws = Ws_none, gw_opened = False, gw_aborted = aborted, gw_seen = [],
      gw_names = [], gw_attempt = 0, gw_lastDisconnect = [], gw_status = status, gw_directory = d, gw_tasks = [],
      gw_next = 0, gw_out = []\<rparr>"

definition startAccount :: "web \<Rightarrow> jsval \<Rightarrow> jsval \<Rightarrow> directory \<Rightarrow> jsval \<Rightarrow> bool \<Rightarrow> gateway" where
  "startAccount web cfg accountId d status aborted =
     (let a = resolveAccount (js_coalesce cfg (JObj [])) accountId; s = new_gateway a d status aborted in
      if \<not> ac_enabled a \<or> \<not> ac_configured a then s
      else case bindings_request web a of
        Inl _ \<Rightarrow> enter_loop web s
      | Inr rq \<Rightarrow> fx (Fx_bindings rq) (s\<lparr>gw_phase := Gw_initial\<rparr>))"

definition on_bindings :: "web \<Rightarrow> jsnum \<Rightarrow> pair_error + response \<Rightarrow> gateway \<Rightarrow> gateway" where
  "on_bindings web now reply s =
     (case active_bindings now (gw_account s) reply (gw_directory s) of
        (Inl _, d) \<Rightarrow> enter_loop web (s\<lparr>gw_directory := d\<rparr>)
      | (Inr peers, d) \<Rightarrow>
        enter_loop web (s\<lparr>gw_directory := d,
          gw_names := fold (\<lambda>p m. AList.update (mp_mobileId p) (formatPeerDisplayName p) m) peers (gw_names s)\<rparr>))"

definition on_open :: "jsnum \<Rightarrow> gateway \<Rightarrow> gateway" where
  "on_open now s =
     setStatus [(''connected'', JBool True), (''busy'', JBool False), (''reconnectAttempts'', num 0),
         (''lastConnectedAt'', JNum now), (''lastError'', JNull)]
       (s\<lparr>gw_ws := Ws_open, gw_opened := True, gw_attempt := 0\<rparr>)"

definition on_error :: "jsval \<Rightarrow> gateway \<Rightarrow> gateway" where
  "on_error message s =
     s\<lparr>gw_lastDisconnect := (if asString message \<noteq> [] then asString message else ''websocket error'')\<rparr>"

definition js_min :: "jsnum \<Rightarrow> jsnum \<Rightarrow> jsnum" where
  "js_min a b = (if a = NaN \<or> b = NaN then NaN else if js_less b a then b else a)"

fun js_scale :: "nat \<Rightarrow> jsnum \<Rightarrow> jsnum" where
  "js_scale k (Fin q) = Fin (of_nat k * q)"
| "js_scale k n = n"

definition reconnect_delay :: "account \<Rightarrow> nat \<Rightarrow> jsnum" where
  "reconnect_delay a attempt = js_min (ac_reconnectMaxMs a) (js_scale (2 ^ min attempt 6) (ac_reconnectMinMs a))"

definition close_reason :: "string \<Rightarrow> string \<Rightarrow> string" where
  "close_reason reason lastDisconnect =
     (if js_trim reason \<noteq> [] then js_trim reason else if lastDisconnect \<noteq> [] then lastDisconnect else ''closed'')"

text \<open>The handler of the close event, which also runs after an abort has closed the socket.\<close>

definition socket_closed :: "jsnum \<Rightarrow> jsnum \<Rightarrow> string \<Rightarrow> gateway \<Rightarrow> gateway" where
  "socket_closed now code reason s =
     (let l = (if \<not> gw_opened s \<and> gw_lastDisconnect s = []
               then ''connect failed (close '' @ js_num_to_string code @ '')'' else gw_lastDisconnect s)
      in setStatus [(''connected'', JBool False), (''busy'', JBool False),
           (''lastDisconnect'', JObj [(''at'', JNum now),
              (''status'', if js_num_truthy code then JNum code else JUndef),
              (''error'', JStr (close_reason reason l))])]
         (s\<lparr>gw_lastDisconnect := l, gw_ws := Ws_none\<rparr>))"

definition reconnect_later :: "gateway \<Rightarrow> gateway" where
  "reconnect_later s =
     (if gw_aborted s then finish s
      else
        let attempt = Suc (gw_attempt s) in
        setStatus [(''connected'', JBool False), (''reconnectAttempts'', num attempt),
            (''lastError'', JStr (if gw_lastDisconnect s \<noteq> [] then gw_lastDisconnect s else ''channel disconnected'')),
            (''busy'', JBool True)]
          (s\<lparr>gw_attempt := attempt, gw_phase := Gw_sleep (reconnect_delay (gw_account s) attempt)\<rparr>))"

definition on_close :: "jsnum \<Rightarrow> jsnum \<Rightarrow> string \<Rightarrow> gateway \<Rightarrow> gateway" where
  "on_close now code reason s =
     (let s1 = socket_closed now code reason s
      in if gw_phase s = Gw_socket then reconnect_later s1 else s1)"

definition on_abort :: "gateway \<Rightarrow> gateway" where
  "on_abort s =
     (let s1 = s\<lparr>gw_aborted := True\<rparr> in
      case gw_phase s of
        Gw_socket \<Rightarrow> finish (fx Fx_close_socket (s1\<lparr>gw_ws := Ws_closing\<rparr>))
      | Gw_sleep _ \<Rightarrow> finish s1
      | _ \<Rightarrow> s1)"

section \<open>Steps\<close>

datatype gw_event =
    Gv_bindings jsnum "pair_error + response"
  | Gv_open jsnum
  | Gv_message jsnum string
  | Gv_error jsval
  | Gv_close jsnum jsnum string
  | Gv_abort
  | Gv_timer
  | Gv_config jsnum nat "jsval option"   \<comment> \<open>the configuration of a task is loaded, or not\<close>
  | Gv_reply_start jsnum nat
  | Gv_deliver nat jsval
  | Gv_posted jsnum nat "pair_error + response"
  | Gv_agent_done nat

definition on_config :: "web \<Rightarrow> jsnum \<Rightarrow> nat \<Rightarrow> jsval option \<Rightarrow> gateway \<Rightarrow> gateway" where
  "on_config web now i cfg s =
     (case (map_of (gw_tasks s) i, cfg) of
        (Some (T_dispatch ib), Some c) \<Rightarrow> agent_starts now i ib s
      | (Some (T_dispatch ib), None) \<Rightarrow> drop_task i s
      | (Some (T_send ib sender text), Some c) \<Rightarrow> sendToMobile web now c i ib sender text s
      | (Some (T_send ib sender text), None) \<Rightarrow> drop_task i s
      | _ \<Rightarrow> s)"

text \<open>An event the state does not wait for changes nothing: it cannot occur.\<close>

fun gw_step :: "web \<Rightarrow> gw_event \<Rightarrow> gateway \<Rightarrow> gateway" where
  "gw_step web (Gv_bindings now reply) s = (if gw_phase s = Gw_initial then on_bindings web now reply s else s)"
| "gw_step web (Gv_open now) s = (if gw_ws s = Ws_connecting then on_open now s else s)"
| "gw_step web (Gv_message now raw) s = (if gw_ws s = Ws_open then on_ws_message web now raw s else s)"
| "gw_step web (Gv_error message) s = (if gw_ws s \<noteq> Ws_none then on_error message s else s)"
| "gw_step web (Gv_close now code reason) s = (if gw_ws s \<noteq> Ws_none then on_close now code reason s else s)"
| "gw_step web Gv_abort s = (if gw_aborted s then s else on_abort s)"
| "gw_step web Gv_timer s = (case gw_phase s of Gw_sleep _ \<Rightarrow> gw_connect web s | _ \<Rightarrow> s)"
| "gw_step web (Gv_config now i cfg) s = on_config web now i cfg s"
| "gw_step web (Gv_reply_start now i) s =
     (case map_of (gw_tasks s) i of Some (T_agent ib sender) \<Rightarrow> reply_started web now ib sender s | _ \<Rightarrow> s)"
| "gw_step web (Gv_deliver i payload) s =
     (case map_of (gw_tasks s) i of Some (T_agent ib sender) \<Rightarrow> deliver ib sender payload s | _ \<Rightarrow> s)"
| "gw_step web (Gv_posted now i reply) s =
     (case map_of (gw_tasks s) i of
        Some (T_posted ib sender text) \<Rightarrow>
          (case signal_result reply of
             Inr _ \<Rightarrow> reply_posted web now i ib sender text s | Inl _ \<Rightarrow> drop_task i s)
      | _ \<Rightarrow> s)"
| "gw_step web (Gv_agent_done i) s =
     (case map_of (gw_tasks s) i of Some (T_agent ib sender) \<Rightarrow> drop_task i s | _ \<Rightarrow> s)"

section \<open>Frames\<close>

definition agent_runs :: "gateway \<Rightarrow> agent_context list" where
  "agent_runs s = List.map_filter (\<lambda>e. case e of Fx_agent i c \<Rightarrow> Some c | _ \<Rightarrow> None) (gw_out s)"

definition connects :: "gateway \<Rightarrow> string list" where
  "connects s = List.map_filter (\<lambda>e. case e of Fx_connect u \<Rightarrow> Some u | _ \<Rightarrow> None) (gw_out s)"

lemma map_filter_snoc: "List.map_filter f (xs @ [x]) = List.map_filter f xs @ (case f x of Some y \<Rightarrow> [y] | None \<Rightarrow> [])"
  by (simp add: List.map_filter_def split: option.split)

lemma agent_runs_fx [simp]: "agent_runs (fx e s) = agent_runs s @ (case e of Fx_agent i c \<Rightarrow> [c] | _ \<Rightarrow> [])"
  by (simp add: agent_runs_def fx_def map_filter_snoc split: gw_effect.split)

lemma connects_fx [simp]: "connects (fx e s) = connects s @ (case e of Fx_connect u \<Rightarrow> [u] | _ \<Rightarrow> [])"
  by (simp add: connects_def fx_def map_filter_snoc split: gw_effect.split)

lemma runs_cong: "gw_out s = gw_out t \<Longrightarrow> agent_runs s = agent_runs t" "gw_out s = gw_out t \<Longrightarrow> connects s = connects t"
  by (simp_all add: agent_runs_def connects_def)

lemma fx_sel [simp]:
  "gw_account (fx e s) = gw_account s" "gw_phase (fx e s) = gw_phase s" "gw_ws (fx e s) = gw_ws s"
  "gw_opened (fx e s) = gw_opened s" "gw_aborted (fx e s) = gw_aborted s" "gw_status (fx e s) = gw_status s"
  "gw_tasks (fx e s) = gw_tasks s" "gw_attempt (fx e s) = gw_attempt s" "gw_directory (fx e s) = gw_directory s"
  "gw_lastDisconnect (fx e s) = gw_lastDisconnect s" "gw_names (fx e s) = gw_names s" "gw_seen (fx e s) = gw_seen s"
  by (simp_all add: fx_def)

lemma setStatus_sel [simp]:
  "gw_account (setStatus p s) = gw_account s" "gw_phase (setStatus p s) = gw_phase s" "gw_ws (setStatus p s) = gw_ws s"
  "gw_opened (setStatus p s) = gw_opened s" "gw_aborted (setStatus p s) = gw_aborted s"
  "gw_tasks (setStatus p s) = gw_tasks s" "gw_attempt (setStatus p s) = gw_attempt s"
  "gw_directory (setStatus p s) = gw_directory s" "gw_lastDisconnect (setStatus p s) = gw_lastDisconnect s"
  "gw_names (setStatus p s) = gw_names s" "gw_seen (setStatus p s) = gw_seen s"
  "agent_runs (setStatus p s) = agent_runs s" "connects (setStatus p s) = connects s"
  by (simp_all add: setStatus_def Let_def agent_runs_def connects_def)

lemma fx_post_sel [simp]:
  "gw_account (fx_post r s) = gw_account s" "gw_phase (fx_post r s) = gw_phase s" "gw_ws (fx_post r s) = gw_ws s"
  "gw_aborted (fx_post r s) = gw_aborted s" "gw_status (fx_post r s) = gw_status s" "gw_tasks (fx_post r s) = gw_tasks s"
  "gw_directory (fx_post r s) = gw_directory s"
  "agent_runs (fx_post r s) = agent_runs s" "connects (fx_post r s) = connects s"
  by (simp_all add: fx_post_def split: sum.split)

lemma task_sel [simp]:
  "gw_account (drop_task i s) = gw_account s" "gw_account (set_task i t s) = gw_account s"
  "gw_phase (drop_task i s) = gw_phase s" "gw_phase (set_task i t s) = gw_phase s"
  "gw_ws (drop_task i s) = gw_ws s" "gw_ws (set_task i t s) = gw_ws s"
  "gw_aborted (drop_task i s) = gw_aborted s" "gw_aborted (set_task i t s) = gw_aborted s"
  "gw_status (drop_task i s) = gw_status s" "gw_status (set_task i t s) = gw_status s"
  "gw_directory (drop_task i s) = gw_directory s" "gw_directory (set_task i t s) = gw_directory s"
  "agent_runs (drop_task i s) = agent_runs s" "agent_runs (set_task i t s) = agent_runs s"
  "connects (drop_task i s) = connects s" "connects (set_task i t s) = connects s"
  by (simp_all add: drop_task_def set_task_def agent_runs_def connects_def)

text \<open>The dispatches that have not reached the agent: their devices and texts.\<close>

definition dispatch_key :: "gw_task \<Rightarrow> (string \<times> string) option" where
  "dispatch_key t = (case t of T_dispatch ib \<Rightarrow> Some (ib_mobileId ib, ib_text ib) | _ \<Rightarrow> None)"

definition dispatches :: "gateway \<Rightarrow> (string \<times> string) multiset" where
  "dispatches s = mset (List.map_filter (\<lambda>e. dispatch_key (snd e)) (gw_tasks s))"

lemma dispatches_frame [simp]:
  "dispatches (fx e s) = dispatches s" "dispatches (setStatus p s) = dispatches s" "dispatches (fx_post r s) = dispatches s"
  by (simp_all add: dispatches_def)

lemma subset_trans_mset: "A \<subseteq># B \<Longrightarrow> B \<subseteq># C \<Longrightarrow> A \<subseteq># C"
  by (simp add: subseteq_mset_def) (meson order_trans)

lemma subset_add_mset: "A \<subseteq># B \<Longrightarrow> A \<subseteq># add_mset x B"
  by (auto simp: subseteq_mset_def intro: le_SucI)

lemma map_filter_Cons: "List.map_filter f (x # xs) = (case f x of Some y \<Rightarrow> y # List.map_filter f xs | None \<Rightarrow> List.map_filter f xs)"
  by (simp add: List.map_filter_def split: option.split)

lemma map_filter_Nil [simp]: "List.map_filter f [] = []"
  by (simp add: List.map_filter_def)

lemma dispatches_drop: "dispatches (drop_task i s) \<subseteq># dispatches s"
proof -
  have "mset (List.map_filter f (filter Q xs)) \<subseteq># mset (List.map_filter f xs)" for Q and f :: "nat \<times> gw_task \<Rightarrow> (string \<times> string) option" and xs
  proof (induction xs)
    case (Cons a xs)
    then show ?case by (cases "f a") (auto simp: map_filter_Cons intro: subset_add_mset)
  qed simp
  then show ?thesis by (simp add: dispatches_def drop_task_def)
qed

lemma dispatches_set:
  assumes "dispatch_key t = None" shows "dispatches (set_task i t s) \<subseteq># dispatches s"
    and "map_of (gw_tasks s) i = Some (T_dispatch ib) \<Longrightarrow> add_mset (ib_mobileId ib, ib_text ib) (dispatches (set_task i t s)) \<subseteq># dispatches s"
proof -
  let ?k = "\<lambda>ts. mset (List.map_filter (\<lambda>e. dispatch_key (snd e)) ts)" and ?set = "map (\<lambda>e. if fst e = i then (i, t) else e)"
  have le: "?k (?set ts) \<subseteq># ?k ts" for ts
  proof (induction ts)
    case (Cons a ts)
    then show ?case using assms
      by (cases "dispatch_key (snd a)") (auto simp: map_filter_Cons intro: subset_add_mset)
  qed simp
  show "dispatches (set_task i t s) \<subseteq># dispatches s" using le by (simp add: dispatches_def set_task_def)
  have "add_mset (ib_mobileId ib, ib_text ib) (?k (?set ts)) \<subseteq># ?k ts" if "map_of ts i = Some (T_dispatch ib)" for ts
    using that
  proof (induction ts)
    case (Cons a ts)
    show ?case
    proof (cases "fst a = i")
      case True
      then have "snd a = T_dispatch ib" using Cons.prems by (cases a) simp
      then show ?thesis using True le [of ts] assms by (simp add: map_filter_Cons dispatch_key_def)
    next
      case False
      then have "add_mset (ib_mobileId ib, ib_text ib) (?k (?set ts)) \<subseteq># ?k ts" using Cons by (cases a) simp
      then show ?thesis using False
        by (cases "dispatch_key (snd a)") (auto simp: map_filter_Cons add_mset_commute [of "(ib_mobileId ib, ib_text ib)"])
    qed
  qed simp
  then show "map_of (gw_tasks s) i = Some (T_dispatch ib) \<Longrightarrow> add_mset (ib_mobileId ib, ib_text ib) (dispatches (set_task i t s)) \<subseteq># dispatches s"
    by (simp add: dispatches_def set_task_def)
qed

lemma dispatches_spawn:
  "dispatches (snd (gw_spawn t s)) = (case dispatch_key t of Some k \<Rightarrow> add_mset k (dispatches s) | None \<Rightarrow> dispatches s)"
  "agent_runs (snd (gw_spawn t s)) = agent_runs s" "connects (snd (gw_spawn t s)) = connects s"
  by (simp_all add: gw_spawn_def dispatches_def agent_runs_def connects_def List.map_filter_def split: option.split)

lemma dispatches_cong: "gw_tasks s = gw_tasks t \<Longrightarrow> dispatches s = dispatches t"
  by (simp add: dispatches_def)

lemma update_frame [simp]:
  "agent_runs (s\<lparr>gw_account := x_account\<rparr>) = agent_runs s" "connects (s\<lparr>gw_account := x_account\<rparr>) = connects s"
  "agent_runs (s\<lparr>gw_phase := x_phase\<rparr>) = agent_runs s" "connects (s\<lparr>gw_phase := x_phase\<rparr>) = connects s"
  "agent_runs (s\<lparr>gw_ws := x_ws\<rparr>) = agent_runs s" "connects (s\<lparr>gw_ws := x_ws\<rparr>) = connects s"
  "agent_runs (s\<lparr>gw_opened := x_opened\<rparr>) = agent_runs s" "connects (s\<lparr>gw_opened := x_opened\<rparr>) = connects s"
  "agent_runs (s\<lparr>gw_aborted := x_aborted\<rparr>) = agent_runs s" "connects (s\<lparr>gw_aborted := x_aborted\<rparr>) = connects s"
  "agent_runs (s\<lparr>gw_seen := x_seen\<rparr>) = agent_runs s" "connects (s\<lparr>gw_seen := x_seen\<rparr>) = connects s"
  "agent_runs (s\<lparr>gw_names := x_names\<rparr>) = agent_runs s" "connects (s\<lparr>gw_names := x_names\<rparr>) = connects s"
  "agent_runs (s\<lparr>gw_attempt := x_attempt\<rparr>) = agent_runs s" "connects (s\<lparr>gw_attempt := x_attempt\<rparr>) = connects s"
  "agent_runs (s\<lparr>gw_lastDisconnect := x_lastDisconnect\<rparr>) = agent_runs s" "connects (s\<lparr>gw_lastDisconnect := x_lastDisconnect\<rparr>) = connects s"
  "agent_runs (s\<lparr>gw_status := x_status\<rparr>) = agent_runs s" "connects (s\<lparr>gw_status := x_status\<rparr>) = connects s"
  "agent_runs (s\<lparr>gw_directory := x_directory\<rparr>) = agent_runs s" "connects (s\<lparr>gw_directory := x_directory\<rparr>) = connects s"
  "agent_runs (s\<lparr>gw_tasks := x_tasks\<rparr>) = agent_runs s" "connects (s\<lparr>gw_tasks := x_tasks\<rparr>) = connects s"
  "agent_runs (s\<lparr>gw_next := x_next\<rparr>) = agent_runs s" "connects (s\<lparr>gw_next := x_next\<rparr>) = connects s"
  "dispatches (s\<lparr>gw_account := x_account\<rparr>) = dispatches s"
  "dispatches (s\<lparr>gw_phase := x_phase\<rparr>) = dispatches s"
  "dispatches (s\<lparr>gw_ws := x_ws\<rparr>) = dispatches s"
  "dispatches (s\<lparr>gw_opened := x_opened\<rparr>) = dispatches s"
  "dispatches (s\<lparr>gw_aborted := x_aborted\<rparr>) = dispatches s"
  "dispatches (s\<lparr>gw_seen := x_seen\<rparr>) = dispatches s"
  "dispatches (s\<lparr>gw_names := x_names\<rparr>) = dispatches s"
  "dispatches (s\<lparr>gw_attempt := x_attempt\<rparr>) = dispatches s"
  "dispatches (s\<lparr>gw_lastDisconnect := x_lastDisconnect\<rparr>) = dispatches s"
  "dispatches (s\<lparr>gw_status := x_status\<rparr>) = dispatches s"
  "dispatches (s\<lparr>gw_directory := x_directory\<rparr>) = dispatches s"
  "dispatches (s\<lparr>gw_next := x_next\<rparr>) = dispatches s"
  by (simp_all add: agent_runs_def connects_def dispatches_def)

lemma finish_frame [simp]:
  "dispatches (finish s) = dispatches s" "agent_runs (finish s) = agent_runs s"
  by (simp_all add: finish_def)

lemma connect_frame [simp]:
  "dispatches (gw_connect web s) = dispatches s" "agent_runs (gw_connect web s) = agent_runs s"
  by (simp_all add: gw_connect_def split: sum.split)

lemma enter_loop_frame [simp]:
  "dispatches (enter_loop web s) = dispatches s" "agent_runs (enter_loop web s) = agent_runs s"
  by (simp_all add: enter_loop_def)

lemma on_bindings_frame [simp]:
  "dispatches (on_bindings web now reply s) = dispatches s" "agent_runs (on_bindings web now reply s) = agent_runs s"
  by (simp_all add: on_bindings_def split: prod.split sum.split)

lemma on_open_frame [simp]:
  "dispatches (on_open now s) = dispatches s" "agent_runs (on_open now s) = agent_runs s"
  by (simp_all add: on_open_def)

lemma on_error_frame [simp]:
  "dispatches (on_error m s) = dispatches s" "agent_runs (on_error m s) = agent_runs s"
  by (simp_all add: on_error_def)

lemma socket_closed_frame [simp]:
  "dispatches (socket_closed now code reason s) = dispatches s" "agent_runs (socket_closed now code reason s) = agent_runs s"
  by (simp_all add: socket_closed_def Let_def)

lemma reconnect_later_frame [simp]:
  "dispatches (reconnect_later s) = dispatches s" "agent_runs (reconnect_later s) = agent_runs s"
  by (simp_all add: reconnect_later_def)

lemma on_close_frame [simp]:
  "dispatches (on_close now code reason s) = dispatches s" "agent_runs (on_close now code reason s) = agent_runs s"
  by (simp_all add: on_close_def Let_def)

lemma on_abort_frame [simp]:
  "dispatches (on_abort s) = dispatches s" "agent_runs (on_abort s) = agent_runs s"
  by (simp_all add: on_abort_def Let_def split: gw_phase.split)

lemma remember_named_frame [simp]:
  "dispatches (remember_named now p m u s) = dispatches s" "agent_runs (remember_named now p m u s) = agent_runs s"
  by (simp_all add: remember_named_def split: prod.split)

lemma handle_claimed_frame [simp]:
  "dispatches (handle_claimed now t v s) = dispatches s" "agent_runs (handle_claimed now t v s) = agent_runs s"
  by (simp_all add: handle_claimed_def Let_def)

lemma handle_ping_frame [simp]:
  "dispatches (handle_ping web now f v s) = dispatches s" "agent_runs (handle_ping web now f v s) = agent_runs s"
  by (simp_all add: handle_ping_def Let_def)

lemma reply_started_frame [simp]:
  "dispatches (reply_started web now ib sn s) = dispatches s" "agent_runs (reply_started web now ib sn s) = agent_runs s"
  by (simp_all add: reply_started_def Let_def)


section \<open>The agent answers mobile devices only\<close>

text \<open>The device and the text of a socket message of a mobile device.\<close>

definition mobile_text :: "string \<Rightarrow> (string \<times> string) option" where
  "mobile_text raw =
     (case json_parse raw of
        Some v \<Rightarrow>
          if js_is_record v \<and> asString (js_get v ''kind'') = [] \<and> event_type v \<noteq> ''pair.claimed'' \<and>
            event_type v \<noteq> ''channel.ping'' \<and> from_type v = ''mobile'' \<and> from_id v \<noteq> [] \<and>
            resolveInboundText (event_type v) (event_payload v) \<noteq> []
          then Some (from_id v, resolveInboundText (event_type v) (event_payload v)) else None
      | None \<Rightarrow> None)"

definition brings :: "gw_event \<Rightarrow> (string \<times> string) option" where
  "brings ev = (case ev of Gv_message now raw \<Rightarrow> mobile_text raw | _ \<Rightarrow> None)"

definition is_message :: "gw_event \<Rightarrow> bool" where
  "is_message ev = (case ev of Gv_message now raw \<Rightarrow> True | _ \<Rightarrow> False)"

definition event_id :: "gw_event \<Rightarrow> string" where
  "event_id ev =
     (case ev of
        Gv_message now raw \<Rightarrow> (case json_parse raw of Some v \<Rightarrow> asString (js_get v ''id'') | None \<Rightarrow> [])
      | _ \<Rightarrow> [])"

text \<open>The agent's runs, as device and text, and what a step adds to them and to the dispatches.\<close>

definition run_keys :: "gateway \<Rightarrow> (string \<times> string) multiset" where
  "run_keys s = mset (map (\<lambda>c. (cx_senderId c, cx_body c)) (agent_runs s))"

definition of_option :: "'a option \<Rightarrow> 'a multiset" where
  "of_option x = (case x of Some y \<Rightarrow> {#y#} | None \<Rightarrow> {#})"

definition inputs_step :: "(string \<times> string) option \<Rightarrow> gateway \<Rightarrow> gateway \<Rightarrow> bool" where
  "inputs_step new s t = (run_keys t + dispatches t \<subseteq># run_keys s + dispatches s + of_option new)"

lemma of_option_simps [simp]: "of_option None = {#}" "of_option (Some k) = {#k#}"
  by (simp_all add: of_option_def)

lemma inputs_same: "dispatches t \<subseteq># dispatches s \<Longrightarrow> agent_runs t = agent_runs s \<Longrightarrow> inputs_step new s t"
  by (auto simp: inputs_step_def run_keys_def of_option_def intro: subset_add_mset split: option.split)

lemma inputs_refl [simp]: "inputs_step new s s"
  by (rule inputs_same) simp_all

lemma dispatch_frame [simp]:
  "dispatches (dispatchInboundToAgent ib s) = add_mset (ib_mobileId ib, ib_text ib) (dispatches s)"
  "agent_runs (dispatchInboundToAgent ib s) = agent_runs s"
  by (simp_all add: dispatchInboundToAgent_def case_prod_beta dispatches_spawn dispatch_key_def)

lemma handle_inbound_inputs:
  "inputs_step (if resolveInboundText eventType payload = [] then None else Some (fromId, resolveInboundText eventType payload)) s
     (handle_inbound now eventTs fromId eventType payload s)"
  by (simp add: handle_inbound_def inputs_step_def run_keys_def Let_def)

lemma inputs_from:
  assumes "inputs_step new u t" "dispatches u = dispatches s" "agent_runs u = agent_runs s"
  shows "inputs_step new s t"
  using assms by (simp add: inputs_step_def run_keys_def)

lemma on_ws_message_inputs: "inputs_step (mobile_text raw) s (on_ws_message web now raw s)"
proof (cases "json_parse raw")
  case (Some v)
  obtain dup seen where r: "rememberEventId now (asString (js_get v ''id'')) (gw_seen s) = (dup, seen)" by fastforce
  let ?s1 = "setStatus [(''lastInboundAt'', JNum now)] (s\<lparr>gw_seen := seen\<rparr>)"
  have "inputs_step (mobile_text raw) s
      (handle_inbound now (event_time now v) (from_id v) (event_type v) (event_payload v) ?s1)"
    if "js_is_record v" "asString (js_get v ''kind'') = []" "event_type v \<noteq> ''pair.claimed''"
      "event_type v \<noteq> ''channel.ping''" "from_type v = ''mobile''" "from_id v \<noteq> []"
  proof (rule inputs_from)
    have "mobile_text raw = (if resolveInboundText (event_type v) (event_payload v) = [] then None
        else Some (from_id v, resolveInboundText (event_type v) (event_payload v)))"
      using that Some unfolding mobile_text_def by simp
    then show "inputs_step (mobile_text raw) ?s1 (handle_inbound now (event_time now v) (from_id v) (event_type v) (event_payload v) ?s1)"
      by (simp only: handle_inbound_inputs)
  qed simp_all
  then show ?thesis using Some r
    by (cases dup) (simp_all add: on_ws_message_def handle_event_def Let_def inputs_same)
qed (simp add: on_ws_message_def)

lemma agent_starts_inputs:
  assumes t: "map_of (gw_tasks s) i = Some (T_dispatch ib)"
  shows "inputs_step new s (agent_starts now i ib s)"
proof -
  obtain peer d where r: "rememberMobilePeer now
         \<lparr>pp_accountId = ac_accountId (ib_account ib), pp_mobileId = JStr (ib_mobileId ib),
          pp_userId = JStr (if js_starts_with (ib_senderName ib) ''user_'' then ib_senderName ib else []),
          pp_bindingId = JUndef, pp_createdAt = None, pp_updatedAt = None\<rparr> (gw_directory s) = (peer, d)"
    by (metis surj_pair)
  let ?u = "set_task i (T_agent ib (sender_of peer ib)) (s\<lparr>gw_directory := d\<rparr>)"
  have "add_mset (ib_mobileId ib, ib_text ib) (dispatches ?u) \<subseteq># dispatches s"
    using dispatches_set(2) [of "T_agent ib (sender_of peer ib)" "s\<lparr>gw_directory := d\<rparr>" i ib] t by (simp add: dispatch_key_def)
  then have "run_keys s + add_mset (ib_mobileId ib, ib_text ib) (dispatches ?u) \<subseteq># run_keys s + dispatches s + of_option new"
    by (simp add: subset_mset.add_increasing2)
  then show ?thesis unfolding agent_starts_def r inputs_step_def run_keys_def Let_def by simp
qed

lemma sendToMobile_inputs: "inputs_step new s (sendToMobile web now cfg i ib sender text s)"
proof -
  have "dispatches (set_task i (T_posted ib sender text) (s\<lparr>gw_account := a\<rparr>)) \<subseteq># dispatches s"
    "dispatches (drop_task i (s\<lparr>gw_account := a\<rparr>)) \<subseteq># dispatches s" for a
    using dispatches_set(1) [of "T_posted ib sender text" i "s\<lparr>gw_account := a\<rparr>"]
      dispatches_drop [of i "s\<lparr>gw_account := a\<rparr>"] by (simp_all add: dispatch_key_def)
  then show ?thesis by (simp add: sendToMobile_def Let_def inputs_same split: sum.split)
qed

lemma deliver_inputs: "inputs_step new s (deliver ib sender payload s)"
  by (auto simp: deliver_def Let_def case_prod_beta dispatches_spawn dispatch_key_def intro!: inputs_same)

text \<open>The step of the whole gateway.\<close>

lemma gw_step_inputs: "inputs_step (brings ev) s (gw_step web ev s)"
proof (cases ev)
  case (Gv_message now raw)
  then show ?thesis using on_ws_message_inputs by (simp add: brings_def)
next
  case (Gv_config now i cfg)
  show ?thesis
  proof (cases "map_of (gw_tasks s) i")
    case (Some t)
    then show ?thesis using Gv_config
      by (cases t; cases cfg) (auto simp: on_config_def agent_starts_inputs sendToMobile_inputs inputs_same dispatches_drop)
  qed (simp add: Gv_config on_config_def)
next
  case (Gv_deliver i payload)
  then show ?thesis by (auto simp: deliver_inputs split: option.split gw_task.split)
next
  case (Gv_posted now i reply)
  have "inputs_step (brings ev) s (reply_posted web now i ib sender reply_text s)" for ib sender reply_text
    by (rule inputs_same) (simp_all add: reply_posted_def Let_def dispatches_drop)
  then show ?thesis using Gv_posted
    by (auto simp: inputs_same dispatches_drop split: option.split gw_task.split sum.split)
next
  case (Gv_agent_done i)
  then show ?thesis by (auto simp: inputs_same dispatches_drop split: option.split gw_task.split)
qed (auto intro!: inputs_same split: option.split gw_task.split gw_phase.split)

inductive gw_run :: "web \<Rightarrow> gateway \<Rightarrow> gw_event list \<Rightarrow> gateway \<Rightarrow> bool" for web s0 where
  run_start: "gw_run web s0 [] s0"
| run_step: "gw_run web s0 evs s \<Longrightarrow> gw_run web s0 (evs @ [ev]) (gw_step web ev s)"

lemma startAccount_frame:
  "dispatches (startAccount web cfg a d status ab) = {#}" "agent_runs (startAccount web cfg a d status ab) = []"
  "gw_seen (startAccount web cfg a d status ab) = []"
proof -
  have n: "dispatches (new_gateway b d status ab) = {#}" "agent_runs (new_gateway b d status ab) = []"
    "gw_seen (new_gateway b d status ab) = []" for b
    by (simp_all add: new_gateway_def dispatches_def agent_runs_def List.map_filter_def)
  have "gw_seen (gw_connect web s) = gw_seen s" "gw_seen (enter_loop web s) = gw_seen s" "gw_seen (finish s) = gw_seen s"
    "gw_seen (setStatus p s) = gw_seen s" for s p
    by (simp_all add: gw_connect_def enter_loop_def finish_def setStatus_def fx_def Let_def split: sum.split)
  then show "dispatches (startAccount web cfg a d status ab) = {#}" "agent_runs (startAccount web cfg a d status ab) = []"
    "gw_seen (startAccount web cfg a d status ab) = []"
    by (simp_all add: startAccount_def Let_def n split: sum.split)
qed

section \<open>The reported status\<close>

definition connected_flag :: "gateway \<Rightarrow> jsval" where
  "connected_flag s = js_get (gw_status s) ''connected''"

lemma connected_setStatus [simp]:
  "connected_flag (setStatus p s) = (case map_of p ''connected'' of Some v \<Rightarrow> v | None \<Rightarrow> connected_flag s)"
proof -
  have "js_get v k = (case map_of (js_fields v) k of Some x \<Rightarrow> x | None \<Rightarrow> JUndef)" for v k
    by (cases v) (simp_all add: js_fields_def js_get_def)
  then show ?thesis
    by (simp add: connected_flag_def setStatus_def Let_def js_get_spread split: option.split)
qed

lemma connected_cong: "gw_status s = gw_status t \<Longrightarrow> connected_flag s = connected_flag t"
  by (simp add: connected_flag_def)

lemma connected_update [simp]:
  "connected_flag (s\<lparr>gw_account := x_account\<rparr>) = connected_flag s" "connected_flag (s\<lparr>gw_phase := x_phase\<rparr>) = connected_flag s" "connected_flag (s\<lparr>gw_ws := x_ws\<rparr>) = connected_flag s" "connected_flag (s\<lparr>gw_opened := x_opened\<rparr>) = connected_flag s" "connected_flag (s\<lparr>gw_aborted := x_aborted\<rparr>) = connected_flag s" "connected_flag (s\<lparr>gw_seen := x_seen\<rparr>) = connected_flag s" "connected_flag (s\<lparr>gw_names := x_names\<rparr>) = connected_flag s" "connected_flag (s\<lparr>gw_attempt := x_attempt\<rparr>) = connected_flag s" "connected_flag (s\<lparr>gw_lastDisconnect := x_lastDisconnect\<rparr>) = connected_flag s" "connected_flag (s\<lparr>gw_directory := x_directory\<rparr>) = connected_flag s" "connected_flag (s\<lparr>gw_tasks := x_tasks\<rparr>) = connected_flag s" "connected_flag (s\<lparr>gw_next := x_next\<rparr>) = connected_flag s" "connected_flag (s\<lparr>gw_out := x_out\<rparr>) = connected_flag s"
  by (simp_all add: connected_flag_def)

definition phase_ok :: "gateway \<Rightarrow> bool" where
  "phase_ok s =
     ((case gw_phase s of
         Gw_socket \<Rightarrow> (gw_ws s = Ws_connecting \<or> gw_ws s = Ws_open) \<and> \<not> gw_aborted s
       | Gw_stopped \<Rightarrow> gw_ws s = Ws_none \<or> gw_ws s = Ws_closing
       | Gw_sleep _ \<Rightarrow> gw_ws s = Ws_none \<and> \<not> gw_aborted s
       | _ \<Rightarrow> gw_ws s = Ws_none) \<and>
      (gw_phase s \<noteq> Gw_waiting \<longrightarrow> gw_phase s \<noteq> Gw_initial \<longrightarrow> connected_flag s = JBool (gw_ws s = Ws_open)))"

text \<open>What keeps the phase: everything but the events of the loop.\<close>

definition same_phase :: "gateway \<Rightarrow> gateway \<Rightarrow> bool" where
  "same_phase s t =
     (gw_phase t = gw_phase s \<and> gw_ws t = gw_ws s \<and> gw_aborted t = gw_aborted s \<and> connected_flag t = connected_flag s \<and>
      connects t = connects s)"

lemma same_phase_refl [simp]: "same_phase s s"
  by (simp add: same_phase_def)

lemma same_phase_trans: "same_phase s t \<Longrightarrow> same_phase t u \<Longrightarrow> same_phase s u"
  by (simp add: same_phase_def)

lemma same_phase_ok: "same_phase s t \<Longrightarrow> phase_ok s \<Longrightarrow> phase_ok t"
  by (cases "gw_phase s") (simp_all add: same_phase_def phase_ok_def)

lemma connected_frame [simp]:
  "connected_flag (fx e s) = connected_flag s" "connected_flag (fx_post r s) = connected_flag s"
  "connected_flag (drop_task i s) = connected_flag s" "connected_flag (set_task i t s) = connected_flag s"
  by (rule connected_cong, simp)+

lemma remember_named_phase: "same_phase s (remember_named now p m u s)"
  by (simp add: same_phase_def remember_named_def connected_flag_def split: prod.split)

lemma dispatch_phase: "same_phase s (dispatchInboundToAgent ib s)"
  by (simp add: same_phase_def dispatchInboundToAgent_def gw_spawn_def connected_flag_def connects_def fx_def map_filter_snoc)

lemma handle_claimed_phase: "same_phase s (handle_claimed now t v s)"
  by (simp add: handle_claimed_def Let_def remember_named_phase)

lemma handle_ping_phase: "same_phase s (handle_ping web now f v s)"
  by (simp add: handle_ping_def Let_def same_phase_def)

lemma handle_inbound_phase: "same_phase s (handle_inbound now t f ty v s)"
  unfolding handle_inbound_def Let_def
  by (auto intro: dispatch_phase same_phase_trans [OF remember_named_phase dispatch_phase])

lemma handle_event_phase: "same_phase s (handle_event web now v s)"
proof -
  let ?s0 = "\<lambda>seen. s\<lparr>gw_seen := seen\<rparr>" and ?s1 = "\<lambda>seen. setStatus [(''lastInboundAt'', JNum now)] (s\<lparr>gw_seen := seen\<rparr>)"
  have z: "same_phase s (?s0 seen)" "same_phase s (?s1 seen)" for seen
    by (simp_all add: same_phase_def)
  show ?thesis unfolding handle_event_def Let_def
    by (auto simp: z intro: same_phase_trans [OF z(2)] handle_claimed_phase handle_ping_phase handle_inbound_phase
        split: prod.split bool.split)
qed

lemma on_ws_message_phase: "same_phase s (on_ws_message web now raw s)"
  by (simp add: on_ws_message_def handle_event_phase split: option.split)

lemma agent_starts_phase: "same_phase s (agent_starts now i ib s)"
  by (simp add: agent_starts_def same_phase_def Let_def case_prod_beta)

lemma sendToMobile_phase: "same_phase s (sendToMobile web now cfg i ib sender tx s)"
  by (simp add: sendToMobile_def Let_def same_phase_def split: sum.split)

lemma deliver_phase: "same_phase s (deliver ib sender payload s)"
  by (simp add: deliver_def Let_def same_phase_def gw_spawn_def connected_flag_def connects_def fx_def map_filter_snoc)

definition loop_event :: "gw_event \<Rightarrow> bool" where
  "loop_event ev = (case ev of Gv_bindings _ _ \<Rightarrow> True | Gv_open _ \<Rightarrow> True | Gv_close _ _ _ \<Rightarrow> True
     | Gv_abort \<Rightarrow> True | Gv_timer \<Rightarrow> True | _ \<Rightarrow> False)"

lemma small_steps_phase:
  "same_phase s (on_error v s)" "same_phase s (drop_task i s)" "same_phase s (reply_started web now ib sender s)"
  "same_phase s (reply_posted web now i ib sender tx s)"
  by (simp_all add: same_phase_def on_error_def reply_started_def reply_posted_def Let_def)

lemma other_event_phase: "\<not> loop_event ev \<Longrightarrow> same_phase s (gw_step web ev s)"
proof (cases ev)
  case (Gv_config now i cfg)
  show ?thesis
  proof (cases "map_of (gw_tasks s) i")
    case (Some t)
    then show ?thesis using Gv_config
      by (cases t; cases cfg) (simp_all add: on_config_def agent_starts_phase sendToMobile_phase small_steps_phase)
  qed (simp add: Gv_config on_config_def)
qed (auto simp: loop_event_def on_ws_message_phase deliver_phase small_steps_phase split: option.split gw_task.split sum.split)

lemma finish_ok: "gw_ws s = Ws_none \<or> gw_ws s = Ws_closing \<Longrightarrow> phase_ok (finish s)"
  by (auto simp: finish_def phase_ok_def)

lemma connect_ok:
  assumes "gw_ws s = Ws_none" "connected_flag s = JBool False" shows "phase_ok (gw_connect web s)"
proof (cases "gw_aborted s")
  case True
  then show ?thesis using assms by (simp add: gw_connect_def finish_ok)
next
  case False
  then show ?thesis using assms by (auto simp: gw_connect_def phase_ok_def split: sum.split)
qed

lemma enter_loop_ok: "gw_ws s = Ws_none \<Longrightarrow> phase_ok (enter_loop web s)"
  unfolding enter_loop_def by (rule connect_ok) simp_all

lemma socket_closed_flag:
  "gw_ws (socket_closed now code reason s) = Ws_none" "connected_flag (socket_closed now code reason s) = JBool False"
  "gw_phase (socket_closed now code reason s) = gw_phase s" "gw_aborted (socket_closed now code reason s) = gw_aborted s"
  by (simp_all add: socket_closed_def Let_def)

lemma reconnect_later_ok: "gw_ws s = Ws_none \<Longrightarrow> \<not> gw_aborted s \<Longrightarrow> phase_ok (reconnect_later s)"
  by (simp add: reconnect_later_def Let_def phase_ok_def)

lemma gw_step_ok: "phase_ok s \<Longrightarrow> phase_ok (gw_step web ev s)"
proof (cases "loop_event ev")
  case False
  then show "phase_ok s \<Longrightarrow> phase_ok (gw_step web ev s)" using same_phase_ok other_event_phase by blast
next
  case True
  assume ok: "phase_ok s"
  show ?thesis
  proof (cases ev)
    case (Gv_bindings now reply)
    have "phase_ok (on_bindings web now reply s)" if "gw_phase s = Gw_initial"
    proof -
      have "gw_ws s = Ws_none" using ok that by (simp add: phase_ok_def)
      then show ?thesis by (auto simp: on_bindings_def enter_loop_ok split: prod.split sum.split)
    qed
    then show ?thesis using Gv_bindings ok by simp
  next
    case (Gv_open now)
    then show ?thesis using ok by (cases "gw_phase s") (auto simp: phase_ok_def on_open_def)
  next
    case (Gv_close now code reason)
    have "phase_ok (on_close now code reason s)" if "gw_ws s \<noteq> Ws_none"
    proof (cases "gw_phase s = Gw_socket")
      case True
      then have "\<not> gw_aborted s" using ok by (simp add: phase_ok_def)
      then show ?thesis using True by (simp add: on_close_def Let_def reconnect_later_ok socket_closed_flag)
    next
      case False
      then show ?thesis using ok that
        by (cases "gw_phase s") (simp_all add: on_close_def Let_def phase_ok_def socket_closed_flag)
    qed
    then show ?thesis using Gv_close ok by simp
  next
    case Gv_abort
    have "phase_ok (on_abort s)"
      using ok by (cases "gw_phase s") (simp_all add: on_abort_def Let_def finish_ok phase_ok_def, simp_all add: finish_def phase_ok_def)
    then show ?thesis using Gv_abort ok by simp
  next
    case Gv_timer
    have "phase_ok (gw_connect web s)" if "gw_phase s = Gw_sleep t" for t
      using ok that by (intro connect_ok) (simp_all add: phase_ok_def)
    then show ?thesis using Gv_timer ok by (simp split: gw_phase.split)
  qed (use True in \<open>simp_all add: loop_event_def\<close>)
qed

lemma startAccount_ok: "phase_ok (startAccount web cfg a d status ab)"
proof -
  have "phase_ok (new_gateway b d status ab)" "phase_ok (fx e (new_gateway b d status ab\<lparr>gw_phase := Gw_initial\<rparr>))"
    "gw_ws (new_gateway b d status ab) = Ws_none" for b e
    by (simp_all add: new_gateway_def phase_ok_def)
  then show ?thesis by (simp add: startAccount_def Let_def enter_loop_ok split: sum.split)
qed

text \<open>C28: The reported status is truthful: once the first list of bindings is there, \<open>connected\<close> is reported
  exactly while the socket is open.\<close>

theorem status_is_truthful:
  assumes "gw_run web (startAccount web cfg a d status aborted) evs s"
    and "gw_phase s \<noteq> Gw_waiting" "gw_phase s \<noteq> Gw_initial"
  shows "js_get (gw_status s) ''connected'' = JBool (gw_ws s = Ws_open)"
proof -
  have "phase_ok s" using assms(1) by induction (simp_all add: startAccount_ok gw_step_ok)
  then show ?thesis using assms(2,3) by (simp add: phase_ok_def connected_flag_def)
qed

lemma aborted_step: "gw_aborted s \<Longrightarrow> gw_aborted (gw_step web ev s) \<and> connects (gw_step web ev s) = connects s"
proof (cases "loop_event ev")
  case False
  then show "gw_aborted s \<Longrightarrow> ?thesis" using other_event_phase [OF False, of s web] by (simp add: same_phase_def)
next
  case True
  then show "gw_aborted s \<Longrightarrow> ?thesis"
    by (cases ev) (auto simp: loop_event_def on_bindings_def enter_loop_def gw_connect_def finish_def on_open_def on_close_def
        socket_closed_def reconnect_later_def Let_def split: prod.split sum.split gw_phase.split)
qed

text \<open>An abort is final: from then on the gateway opens no connection, whatever happens.\<close>

theorem abort_is_final:
  assumes "gw_run web s evs t" "gw_aborted s"
  shows "gw_aborted t \<and> connects t = connects s"
  using assms by induction (simp_all add: aborted_step)

section \<open>Reconnecting\<close>

lemma gw_step_account:
  "gw_account (gw_step web ev s) = gw_account s \<or> (\<exists>c v. gw_account (gw_step web ev s) = resolveAccount c v)"
proof -
  have frame: "gw_account (finish t) = gw_account t" "gw_account (gw_connect web t) = gw_account t"
    "gw_account (on_abort t) = gw_account t" "gw_account (socket_closed now code reason t) = gw_account t"
    "gw_account (reconnect_later t) = gw_account t" "gw_account (remember_named now p m u t) = gw_account t"
    "gw_account (dispatchInboundToAgent ib t) = gw_account t" "gw_account (agent_starts now i ib t) = gw_account t"
    for t now code reason p m u ib i
    by (simp_all add: finish_def gw_connect_def on_abort_def socket_closed_def reconnect_later_def Let_def remember_named_def
        dispatchInboundToAgent_def gw_spawn_def agent_starts_def case_prod_beta split: sum.split gw_phase.split)
  have more: "gw_account (on_bindings web now reply t) = gw_account t" "gw_account (on_close now code reason t) = gw_account t"
    "gw_account (on_ws_message web now raw t) = gw_account t" "gw_account (deliver ib sn payload t) = gw_account t"
    "gw_account (on_open now t) = gw_account t" "gw_account (on_error e t) = gw_account t"
    "gw_account (reply_started web now ib sn t) = gw_account t" "gw_account (reply_posted web now i ib sn tx t) = gw_account t"
    for now reply t code reason raw ib sn payload e i tx
    by (auto simp: on_bindings_def enter_loop_def on_close_def on_ws_message_def handle_event_def handle_claimed_def
        handle_ping_def handle_inbound_def deliver_def on_open_def on_error_def reply_started_def reply_posted_def
        Let_def gw_spawn_def frame case_prod_beta split: sum.split option.split bool.split)
  have "gw_account (sendToMobile web now c i ib sn tx t) = resolveAccount (js_coalesce c (JObj [])) (JStr (ac_accountId (gw_account t)))"
    for now c i ib sn tx t by (simp add: sendToMobile_def Let_def split: sum.split)
  then show ?thesis
    by (cases ev) (auto simp: frame more on_config_def split: gw_phase.split option.split gw_task.split sum.split)
qed

lemma run_account:
  assumes "gw_run web (startAccount web cfg a d status ab) evs s" shows "\<exists>c v. gw_account s = resolveAccount c v"
  using assms
proof induction
  case run_start
  show ?case by (auto simp: startAccount_def new_gateway_def enter_loop_def gw_connect_def finish_def Let_def split: sum.split)
next
  case (run_step evs s ev)
  then show ?case using gw_step_account [of web ev s] by metis
qed

lemma run_ok: "gw_run web (startAccount web cfg a d status ab) evs s \<Longrightarrow> phase_ok s"
  by (induction rule: gw_run.induct) (simp_all add: startAccount_ok gw_step_ok)

lemma delay_bounds:
  assumes "is_nat_num (ac_reconnectMinMs a)" "is_nat_num (ac_reconnectMaxMs a)" "js_leq (ac_reconnectMinMs a) (ac_reconnectMaxMs a)"
  shows "js_leq (ac_reconnectMinMs a) (reconnect_delay a n)" "js_leq (reconnect_delay a n) (ac_reconnectMaxMs a)"
proof -
  obtain p q where pq: "ac_reconnectMinMs a = Fin p" "ac_reconnectMaxMs a = Fin q" "0 \<le> p" "p \<le> q"
    using assms by (auto simp: is_nat_num_def js_leq_def split: jsnum.splits)
  have "p \<le> of_nat (2 ^ min n 6) * p" using pq(3) mult_right_mono [of 1 "of_nat (2 ^ min n 6)" p] by simp
  then show "js_leq (ac_reconnectMinMs a) (reconnect_delay a n)" "js_leq (reconnect_delay a n) (ac_reconnectMaxMs a)"
    using pq(4) by (auto simp: reconnect_delay_def pq(1,2) js_min_def js_leq_def)
qed

text \<open>A connection that ends is followed by another: the gateway waits, at least the shortest and at
  most the longest delay of its account, and connects again when the time is over, if the address
  of the account is a URL.\<close>

theorem lost_connection_retried:
  assumes "gw_run web (startAccount web cfg a d status aborted) evs s" "gw_phase s = Gw_socket"
    and "buildWsUrl web (ac_serverBaseUrl (gw_account s)) ''desktop'' (ac_desktopDeviceId (gw_account s)) = Inr wsUrl"
  shows "\<exists>delay. gw_phase (gw_step web (Gv_close now code reason) s) = Gw_sleep delay \<and>
    js_leq (ac_reconnectMinMs (gw_account s)) delay \<and> js_leq delay (ac_reconnectMaxMs (gw_account s)) \<and>
    connects (gw_step web Gv_timer (gw_step web (Gv_close now code reason) s)) = connects s @ [wsUrl]"
proof -
  have ok: "gw_ws s \<noteq> Ws_none" "\<not> gw_aborted s" using run_ok [OF assms(1)] assms(2) by (auto simp: phase_ok_def)
  obtain c v where "gw_account s = resolveAccount c v" using run_account [OF assms(1)] by blast
  then have nat: "is_nat_num (ac_reconnectMinMs (gw_account s))" "is_nat_num (ac_reconnectMaxMs (gw_account s))"
    "js_leq (ac_reconnectMinMs (gw_account s)) (ac_reconnectMaxMs (gw_account s))"
    using account_times [of c v] by (simp_all add: Let_def)
  let ?t = "gw_step web (Gv_close now code reason) s"
  have t: "gw_phase ?t = Gw_sleep (reconnect_delay (gw_account s) (Suc (gw_attempt s)))" "gw_account ?t = gw_account s"
    "connects ?t = connects s" "gw_aborted ?t = gw_aborted s"
    using ok assms(2) by (simp_all add: on_close_def reconnect_later_def socket_closed_def Let_def)
  have "connects (gw_step web Gv_timer ?t) = connects s @ [wsUrl]"
    by (simp add: t(1) gw_connect_def t(2-4) ok(2) assms(3) del: gw_step.simps(5))
  then show ?thesis using t(1) delay_bounds [OF nat] by blast
qed

section \<open>Repeated events\<close>

definition seen_ok :: "(string \<times> jsnum) list \<Rightarrow> bool" where
  "seen_ok c = (length c \<le> MAX_SEEN_EVENT_IDS \<and> distinct (map fst c) \<and> [] \<notin> fst ` set c)"

lemma remember_new:
  assumes "seen_ok c" "i \<noteq> []" "i \<notin> fst ` set c"
  shows "rememberEventId now i c =
    (False, if length c < MAX_SEEN_EVENT_IDS then c @ [(i, now)] else tl (c @ [(i, now)]))"
proof -
  have u: "AList.update i now c = c @ [(i, now)]" by (rule update_fresh) (rule assms(3))
  show ?thesis
  proof (cases c)
    case Nil
    then show ?thesis using assms by (simp add: rememberEventId_def Let_def MAX_SEEN_EVENT_IDS_def)
  next
    case (Cons a rest)
    then obtain k t where a: "c = (k, t) # rest" by (cases a) simp
    have k: "k \<notin> fst ` set (rest @ [(i, now)])" "k \<noteq> []" using assms a by (auto simp: seen_ok_def)
    then have "AList.delete k (c @ [(i, now)]) = rest @ [(i, now)]" using a by (simp add: delete_idem)
    then show ?thesis using assms a u k(2) by (simp add: rememberEventId_def Let_def seen_ok_def)
  qed
qed

lemma remember_old: "i = [] \<or> i \<in> fst ` set c \<Longrightarrow> snd (rememberEventId now i c) = c"
  by (auto simp: rememberEventId_def)

lemma seen_ok_remember: "seen_ok c \<Longrightarrow> seen_ok (snd (rememberEventId now i c))"
proof (cases "i = [] \<or> i \<in> fst ` set c")
  case True
  then show "seen_ok c \<Longrightarrow> ?thesis" by (simp add: remember_old)
next
  case False
  assume ok: "seen_ok c"
  then show ?thesis using False
    by (cases c) (auto simp: remember_new seen_ok_def)
qed

text \<open>An id is held, with at most \<open>n\<close> younger ones.\<close>

definition held :: "nat \<Rightarrow> string \<Rightarrow> (string \<times> jsnum) list \<Rightarrow> bool" where
  "held n i c = (seen_ok c \<and> (\<exists>xs t ys. c = xs @ (i, t) # ys \<and> length ys \<le> n))"

lemma held_step:
  assumes "held n i c" "Suc n < MAX_SEEN_EVENT_IDS" shows "held (Suc n) i (snd (rememberEventId now j c))"
proof (cases "j = [] \<or> j \<in> fst ` set c")
  case True
  then show ?thesis using assms(1) unfolding held_def by (metis remember_old le_SucI)
next
  case False
  have ok: "seen_ok c" using assms(1) by (simp add: held_def)
  obtain xs t ys where c: "c = xs @ (i, t) # ys" "length ys \<le> n" using assms(1) by (auto simp: held_def)
  have "\<exists>xs. snd (rememberEventId now j c) = xs @ (i, t) # (ys @ [(j, now)])"
  proof (cases "length c < MAX_SEEN_EVENT_IDS")
    case True
    then show ?thesis using False remember_new [OF ok] c(1) by auto
  next
    case full: False
    have "xs \<noteq> []"
    proof
      assume "xs = []"
      then show False using full c assms(2) by simp
    qed
    then show ?thesis using False remember_new [OF ok] c(1) full by (cases xs) auto
  qed
  then obtain zs where z: "snd (rememberEventId now j c) = zs @ (i, t) # (ys @ [(j, now)])" by blast
  have "length (ys @ [(j, now)]) \<le> Suc n" using c(2) by simp
  then show ?thesis using seen_ok_remember [OF ok] z unfolding held_def by blast
qed

lemma handle_event_seen: "gw_seen (handle_event web now v s) = snd (rememberEventId now (asString (js_get v ''id'')) (gw_seen s))"
proof -
  have frame: "gw_seen (remember_named now p m u t) = gw_seen t" "gw_seen (dispatchInboundToAgent ib t) = gw_seen t"
    "gw_seen (fx_post r t) = gw_seen t" for now p m u t ib r
    by (simp_all add: remember_named_def dispatchInboundToAgent_def gw_spawn_def case_prod_beta fx_post_def split: sum.split)
  show ?thesis
  proof (cases "fst (rememberEventId now (asString (js_get v ''id'')) (gw_seen s))")
    case True
    then have "snd (rememberEventId now (asString (js_get v ''id'')) (gw_seen s)) = gw_seen s"
      by (auto simp: rememberEventId_def Let_def split: if_splits)
    then show ?thesis using True by (simp add: handle_event_def case_prod_beta)
  next
    case False
    then show ?thesis
      by (simp add: handle_event_def Let_def handle_claimed_def handle_ping_def handle_inbound_def frame case_prod_beta)
  qed
qed

lemma held_fold:
  "held n i (gw_seen s) \<Longrightarrow> n + length vs < MAX_SEEN_EVENT_IDS \<Longrightarrow> held (n + length vs) i (gw_seen (fold (handle_event web now) vs s))"
proof (induction vs arbitrary: n s)
  case (Cons v vs)
  have "held (Suc n) i (gw_seen (handle_event web now v s))"
    unfolding handle_event_seen using Cons.prems by (intro held_step) simp_all
  from Cons.IH [OF this] Cons.prems show ?case by simp
qed simp

text \<open>C29: An event the socket delivers again is ignored while fewer than 2000 other events have come in
  between, and the memory of the ids never exceeds its bound.\<close>

theorem repeated_event_ignored:
  assumes "seen_ok (gw_seen s)" "asString (js_get v ''id'') \<noteq> []" "asString (js_get v ''id'') \<notin> fst ` set (gw_seen s)"
    and "length vs < MAX_SEEN_EVENT_IDS"
  shows "let t = fold (handle_event web now) vs (handle_event web now v s)
    in handle_event web now' v t = t \<and> length (gw_seen t) \<le> MAX_SEEN_EVENT_IDS"
proof -
  let ?i = "asString (js_get v ''id'')" and ?t = "fold (handle_event web now) vs (handle_event web now v s)"
  have "\<exists>xs. snd (rememberEventId now ?i (gw_seen s)) = xs @ [(?i, now)]"
    using remember_new [OF assms(1-3), of now] by (cases "gw_seen s") (auto simp: MAX_SEEN_EVENT_IDS_def)
  then have "held 0 ?i (gw_seen (handle_event web now v s))"
    using seen_ok_remember [OF assms(1)] by (auto simp: held_def handle_event_seen)
  then have h: "held (length vs) ?i (gw_seen ?t)" using held_fold [of 0] assms(4) by simp
  then have "?i \<in> fst ` set (gw_seen ?t)" by (auto simp: held_def)
  then have "rememberEventId now' ?i (gw_seen ?t) = (True, gw_seen ?t)" using assms(2) by (simp add: rememberEventId_def)
  then have "handle_event web now' v ?t = ?t" unfolding handle_event_def by simp
  then show ?thesis using h by (simp add: held_def seen_ok_def Let_def)
qed

section \<open>Each message once\<close>

lemma seen_frame: "\<not> is_message ev \<Longrightarrow> gw_seen (gw_step web ev s) = gw_seen s"
proof -
  have f: "gw_seen (setStatus p s) = gw_seen s" "gw_seen (fx e s) = gw_seen s" "gw_seen (fx_post r s) = gw_seen s"
    "gw_seen (drop_task i s) = gw_seen s" "gw_seen (set_task i t s) = gw_seen s" for p e r i t s
    by (simp_all add: setStatus_def fx_def fx_post_def drop_task_def set_task_def Let_def split: sum.split)
  have c: "gw_seen (gw_connect web s) = gw_seen s" "gw_seen (enter_loop web s) = gw_seen s" "gw_seen (finish s) = gw_seen s" for s
    by (simp_all add: gw_connect_def enter_loop_def finish_def f split: sum.split)
  assume "\<not> is_message ev"
  then show ?thesis
  proof (cases ev)
    case (Gv_config now i cfg)
    have "gw_seen (agent_starts now i ib s) = gw_seen s" "gw_seen (sendToMobile web now v i ib sender tx s) = gw_seen s" for ib v sender tx
      by (simp_all add: agent_starts_def sendToMobile_def Let_def f split: sum.split prod.split)
    then show ?thesis using Gv_config by (simp add: on_config_def f split: option.split gw_task.split)
  next
    case (Gv_deliver i payload)
    have "gw_seen (deliver ib sender payload s) = gw_seen s" for ib sender
      by (simp add: deliver_def Let_def f gw_spawn_def split: prod.split)
    then show ?thesis using Gv_deliver by (simp split: option.split gw_task.split)
  next
    case (Gv_bindings now reply)
    then show ?thesis by (simp add: on_bindings_def c split: sum.split prod.split)
  qed (simp_all add: is_message_def c f on_open_def on_error_def on_close_def socket_closed_def reconnect_later_def on_abort_def
      reply_started_def reply_posted_def Let_def split: option.split gw_task.split gw_phase.split sum.split)
qed

text \<open>A selection of the messages that accounts for every run and every dispatch.\<close>

definition ids_of :: "gw_event list \<Rightarrow> string list" where
  "ids_of evs = filter (\<lambda>i. i \<noteq> []) (map event_id evs)"

definition accounts_for :: "gw_event list \<Rightarrow> gw_event list \<Rightarrow> gateway \<Rightarrow> bool" where
  "accounts_for sel evs s \<longleftrightarrow>
     mset sel \<subseteq># mset evs \<and> run_keys s + dispatches s \<subseteq># mset (List.map_filter brings sel) \<and>
     (length (filter is_message evs) \<le> MAX_SEEN_EVENT_IDS \<longrightarrow>
        distinct (ids_of sel) \<and> set (ids_of sel) \<subseteq> fst ` set (gw_seen s) \<and> seen_ok (gw_seen s) \<and>
        length (gw_seen s) \<le> length (filter is_message evs))"

lemma remember_all:
  assumes "seen_ok c" "length c < MAX_SEEN_EVENT_IDS"
  shows "fst ` set c \<subseteq> fst ` set (snd (rememberEventId now i c))" "length (snd (rememberEventId now i c)) \<le> Suc (length c)"
    "i \<noteq> [] \<Longrightarrow> i \<in> fst ` set (snd (rememberEventId now i c))"
  using remember_new [OF assms(1), of i now] remember_old [of i c now] assms(2)
  by (cases "i = [] \<or> i \<in> fst ` set c"; auto)+

lemma accounts_step:
  assumes "accounts_for sel evs s" shows "\<exists>sel'. accounts_for sel' (evs @ [ev]) (gw_step web ev s)"
proof -
  let ?t = "gw_step web ev s"
  have st: "run_keys ?t + dispatches ?t \<subseteq># run_keys s + dispatches s + of_option (brings ev)"
    using gw_step_inputs [of ev s web] by (simp add: inputs_step_def)
  have sub: "mset sel \<subseteq># add_mset ev (mset evs)" "mset (sel @ [ev]) \<subseteq># mset (evs @ [ev])"
    using assms by (auto simp: accounts_for_def intro: subset_add_mset)
  note a = assms [unfolded accounts_for_def]
  show ?thesis
  proof (cases "gw_step web ev s = s \<or> \<not> is_message ev")
    case True
    then have "gw_seen ?t = gw_seen s" using seen_frame by auto
    moreover have "run_keys ?t + dispatches ?t \<subseteq># mset (List.map_filter brings sel)"
    proof (cases "gw_step web ev s = s")
      case False
      then have "brings ev = None" using True by (auto simp: brings_def is_message_def split: gw_event.splits)
      then have "run_keys ?t + dispatches ?t \<subseteq># run_keys s + dispatches s" using st by simp
      then show ?thesis using a by (meson subset_trans_mset)
    qed (use a in simp)
    ultimately have "accounts_for sel (evs @ [ev]) ?t" using a sub(1) by (auto simp: accounts_for_def)
    then show ?thesis ..
  next
    case False
    then obtain now raw where ev: "ev = Gv_message now raw" by (auto simp: is_message_def split: gw_event.splits)
    with False obtain v where v: "json_parse raw = Some v" "js_is_record v" "?t = handle_event web now v s"
      by (auto simp: on_ws_message_def split: if_splits option.splits)
    let ?i = "asString (js_get v ''id'')"
    have i: "event_id ev = ?i" using ev v(1) by (simp add: event_id_def)
    have seen: "gw_seen ?t = snd (rememberEventId now ?i (gw_seen s))" using v(3) handle_event_seen by simp
    have new: "?i \<notin> fst ` set (gw_seen s)" if "?i \<noteq> []"
    proof
      assume "?i \<in> fst ` set (gw_seen s)"
      then have "rememberEventId now ?i (gw_seen s) = (True, gw_seen s)" using that by (simp add: rememberEventId_def)
      then have "handle_event web now v s = s" by (simp add: handle_event_def)
      then show False using False v(3) by simp
    qed
    have "run_keys ?t + dispatches ?t \<subseteq># mset (List.map_filter brings sel) + of_option (brings ev)"
      using st a by (meson subset_mset.add_right_mono subset_trans_mset)
    also have "\<dots> = mset (List.map_filter brings (sel @ [ev]))"
      by (simp add: map_filter_snoc of_option_def split: option.split)
    finally have keys: "run_keys ?t + dispatches ?t \<subseteq># mset (List.map_filter brings (sel @ [ev]))" .
    have "distinct (ids_of (sel @ [ev])) \<and> set (ids_of (sel @ [ev])) \<subseteq> fst ` set (gw_seen ?t) \<and> seen_ok (gw_seen ?t) \<and>
        length (gw_seen ?t) \<le> length (filter is_message (evs @ [ev]))"
      if le: "length (filter is_message (evs @ [ev])) \<le> MAX_SEEN_EVENT_IDS"
    proof -
      have n: "Suc (length (filter is_message evs)) \<le> MAX_SEEN_EVENT_IDS" using le ev by (simp add: is_message_def)
      then have ok: "distinct (ids_of sel)" "set (ids_of sel) \<subseteq> fst ` set (gw_seen s)" "seen_ok (gw_seen s)"
        "length (gw_seen s) \<le> length (filter is_message evs)" using a by simp_all
      then have "length (gw_seen s) < MAX_SEEN_EVENT_IDS" using n by simp
      note r = remember_all [OF ok(3) this, where i = ?i and now = now, folded seen]
      have "ids_of (sel @ [ev]) = ids_of sel @ (if ?i = [] then [] else [?i])" by (simp add: ids_of_def i)
      moreover have "?i \<notin> set (ids_of sel)" if "?i \<noteq> []" using new [OF that] ok(2) by blast
      moreover have "seen_ok (gw_seen ?t)" unfolding seen by (rule seen_ok_remember [OF ok(3)])
      moreover have "length (filter is_message (evs @ [ev])) = Suc (length (filter is_message evs))" using ev by (simp add: is_message_def)
      ultimately show ?thesis using ok r by auto
    qed
    then have "accounts_for (sel @ [ev]) (evs @ [ev]) ?t" using keys sub(2) unfolding accounts_for_def by blast
    then show ?thesis ..
  qed
qed

text \<open>C4: The agent runs only on messages of mobile devices, and once for each. In every run of the gateway there is a
  selection of the received socket messages, none taken twice, such that the runs of the agent, as pairs of device and
  text, are among the pairs that the selected messages bring; a message that brings none is of no mobile device, or
  of another type, or has no text. And as long as no more than 2000 messages have come, the memory of the gateway, no two
  of the selected have the same event id: an event that is delivered again does not make the agent run again.\<close>

theorem agent_answers_mobiles_only:
  assumes "gw_run web (startAccount web cfg a d status aborted) evs s"
  shows "\<exists>sel. mset sel \<subseteq># mset evs \<and>
    mset (map (\<lambda>c. (cx_senderId c, cx_body c)) (agent_runs s)) \<subseteq># mset (List.map_filter brings sel) \<and>
    (length (filter is_message evs) \<le> 2000 \<longrightarrow> distinct (filter (\<lambda>i. i \<noteq> []) (map event_id sel)))"
proof -
  have "\<exists>sel. accounts_for sel evs s" using assms
  proof induction
    case run_start
    have "accounts_for [] [] (startAccount web cfg a d status aborted)"
      by (simp add: accounts_for_def run_keys_def startAccount_frame ids_of_def seen_ok_def)
    then show ?case ..
  next
    case (run_step evs s ev)
    then show ?case using accounts_step by blast
  qed
  then obtain sel where "accounts_for sel evs s" ..
  moreover from this have "mset (map (\<lambda>c. (cx_senderId c, cx_body c)) (agent_runs s)) \<subseteq># mset (List.map_filter brings sel)"
    unfolding accounts_for_def run_keys_def by (meson mset_subset_eq_add_left subset_trans_mset)
  ultimately show ?thesis unfolding accounts_for_def ids_of_def MAX_SEEN_EVENT_IDS_def by blast
qed

section \<open>Three ways to go wrong\<close>

text \<open>A reply that is sent when the configuration no longer names an address is refused, but the
  empty account replaces the one in use: when the connection next ends, the gateway does not
  connect again, and its promise is rejected.\<close>

theorem unconfigured_reply_stops_gateway:
  assumes "phase_ok s" "gw_phase s = Gw_socket" "map_of (gw_tasks s) i = Some (T_send ib sender tx)"
    and "ac_serverBaseUrl (resolveAccount (js_coalesce c (JObj [])) (JStr (ac_accountId (gw_account s)))) = []"
    and "new_url web [] = Inl m"
  shows "gw_phase (fold (gw_step web) [Gv_config t i (Some c), Gv_close t' code reason, Gv_timer] s) = Gw_crashed (Thrown m)"
proof -
  let ?a = "resolveAccount (js_coalesce c (JObj [])) (JStr (ac_accountId (gw_account s)))"
  let ?s1 = "gw_step web (Gv_config t i (Some c)) s"
  have "\<not> ac_configured ?a"
    using assms(4) by (simp add: resolveAccount_def account_of_def Let_def)
  then have s1: "?s1 = drop_task i (s\<lparr>gw_account := ?a\<rparr>)"
    using assms(3) by (simp add: on_config_def sendToMobile_def Let_def)
  let ?s2 = "gw_step web (Gv_close t' code reason) ?s1"
  have ws: "gw_ws s \<noteq> Ws_none" "\<not> gw_aborted s" using assms(1,2) by (auto simp: phase_ok_def)
  have s2: "\<exists>d. gw_phase ?s2 = Gw_sleep d" "gw_account ?s2 = ?a" "\<not> gw_aborted ?s2"
    unfolding s1 using ws assms(2) by (simp_all add: on_close_def reconnect_later_def socket_closed_def Let_def)
  have "buildWsUrl web [] ''desktop'' x = Inl (Thrown m)" for x
    using assms(5) by (simp add: buildWsUrl_def buildHttpUrl_def lift_thrown_def)
  then have "gw_phase (gw_step web Gv_timer ?s2) = Gw_crashed (Thrown m)"
    using s2 assms(4) by (auto simp: gw_connect_def)
  then show ?thesis by simp
qed

text \<open>The gateway knows a mobile by the name ``user (mobile)''. When that user has an id of the usual
  form, a message of the mobile overwrites the user id in the directory by this name.\<close>

theorem message_overwrites_user_id:
  assumes "map_of (gw_names s) m = Some (u @ '' ('' @ m @ '')'')" "js_starts_with u ''user_''"
    and "resolveInboundText ty payload \<noteq> []" "js_trimmed m" "m \<noteq> []" "map_of (gw_tasks s) (gw_next s) = None"
  shows "\<exists>p. map_of (peers_in (gw_directory (gw_step web (Gv_config now (gw_next s) (Some cfg))
      (handle_inbound now' ts m ty payload s))) (bucket_id (ac_accountId (gw_account s)))) m = Some p \<and>
    mp_userId p = js_trim (u @ '' ('' @ m @ '')'')"
proof -
  let ?n = "u @ '' ('' @ m @ '')''"
  let ?ib = "\<lparr>ib_account = gw_account s, ib_mobileId = m, ib_senderName = ?n, ib_text = resolveInboundText ty payload, ib_ts = ts\<rparr>"
  have "m \<in> fst ` set (gw_names s)" using assms(1) by (force dest: map_of_SomeD)
  then have h: "handle_inbound now' ts m ty payload s = dispatchInboundToAgent ?ib s"
    using assms(1,3) by (simp add: handle_inbound_def Let_def)
  let ?t = "dispatchInboundToAgent ?ib s"
  have t: "map_of (gw_tasks ?t) (gw_next s) = Some (T_dispatch ?ib)" "gw_directory ?t = gw_directory s"
    using assms(6) by (simp_all add: dispatchInboundToAgent_def gw_spawn_def map_add_def)
  have "take 5 u = ''user_''" using assms(2) by (simp add: js_starts_with_def eval_nat_numeral)
  then have "u = ''user_'' @ drop 5 u" using append_take_drop_id [of 5 u] by metis
  then have su: "js_starts_with ?n ''user_''" by (metis js_starts_with_append append_assoc)
  let ?p = "\<lparr>pp_accountId = ac_accountId (gw_account s), pp_mobileId = JStr m, pp_userId = JStr ?n,
          pp_bindingId = JUndef, pp_createdAt = None, pp_updatedAt = None\<rparr>"
  have mm: "asString (pp_mobileId ?p) = m" using assms(4) by (simp add: asString_def js_trim_id)
  obtain x d where r: "rememberMobilePeer now ?p (gw_directory s) = (x, d)" by fastforce
  then obtain y where y: "x = Some y" using mm assms(5) by (cases x) (auto simp: rememberMobilePeer_def Let_def split: prod.splits)
  note f = remember_peers [OF r [unfolded y]]
  have "js_trim ?n \<noteq> []"
  proof -
    obtain u' where u: "u = CHR ''u'' # u'" using assms(2) by (cases u) (auto simp: js_starts_with_def)
    have "\<not> js_space (last ?n)" by (simp add: js_space_def)
    moreover have "\<not> js_space (hd ?n)" by (simp add: u js_space_def)
    ultimately have "js_trimmed ?n" by (simp add: js_trimmed_def)
    then show ?thesis by (simp add: js_trim_id u)
  qed
  then have "mp_userId y = js_trim ?n" unfolding f(2) by (simp add: next_peer_def asString_def)
  moreover have "map_of (peers_in d (bucket_id (ac_accountId (gw_account s)))) m = Some y"
    unfolding f(3) using mm by (simp add: update_conv')
  moreover have "gw_directory (gw_step web (Gv_config now (gw_next s) (Some cfg)) ?t) = d"
    using t r y su by (simp add: on_config_def agent_starts_def Let_def)
  ultimately show ?thesis unfolding h by auto
qed

text \<open>The message of a failed connection is never cleared: after the next connection has been open and
  is closed without a reason, the status reports the old failure as the reason.\<close>

theorem old_failure_reported_again:
  assumes "phase_ok s" "gw_phase s = Gw_socket" "gw_ws s = Ws_connecting" "gw_lastDisconnect s = l" "l \<noteq> []"
    and "js_trim reason = []"
  shows "let t = gw_step web (Gv_close now code reason) (gw_step web (Gv_open now') s) in
    js_get (js_get (gw_status t) ''lastDisconnect'') ''error'' = JStr l \<and> js_get (gw_status t) ''lastError'' = JStr l"
proof -
  have get: "js_get (gw_status (setStatus p s)) k = (case map_of p k of Some v \<Rightarrow> v | None \<Rightarrow> js_get (gw_status s) k)"
    if "k \<notin> {''accountId'', ''enabled'', ''configured'', ''running'', ''baseUrl''}" for p s k
  proof -
    have "js_get v k = (case map_of (js_fields v) k of Some x \<Rightarrow> x | None \<Rightarrow> JUndef)" for v k
      by (cases v) (simp_all add: js_fields_def js_get_def)
    then show ?thesis using that by (simp add: setStatus_def Let_def js_get_spread split: option.split)
  qed
  have "\<not> gw_aborted s" using assms(1,2) by (simp add: phase_ok_def)
  then show ?thesis
    using assms(2-6) by (simp add: Let_def on_open_def on_close_def socket_closed_def reconnect_later_def get close_reason_def)
qed

section \<open>A run\<close>

definition demo_config :: jsval where
  "demo_config = JObj [(''channels'', JObj [(''openclaw-mobile'',
     JObj [(''serverBaseUrl'', JStr ''http://h.org''), (''deviceId'', JStr ''d1'')])])]"

definition demo_gateway :: gateway where
  "demo_gateway = startAccount sample_web demo_config JUndef empty_directory (JObj []) False"

definition demo_text :: string where
  "demo_text = json_text (JObj [(''id'', JStr ''e1''), (''type'', JStr ''chat.message''),
     (''from'', JObj [(''type'', JStr ''mobile''), (''id'', JStr ''mobile_1'')]),
     (''payload'', JObj [(''text'', JStr ''hi'')])])"

definition demo_open :: "gw_event list" where
  "demo_open = [Gv_bindings (Fin 1) (Inl (Thrown ''offline'')), Gv_open (Fin 2)]"

definition demo_events :: "gw_event list" where
  "demo_events = demo_open @ [Gv_message (Fin 3) demo_text, Gv_config (Fin 4) 0 (Some demo_config)]"

definition after_events :: "gw_event list \<Rightarrow> gateway" where
  "after_events evs = fold (gw_step sample_web) evs demo_gateway"

lemma demo_run: "gw_run sample_web demo_gateway evs (after_events evs)"
proof (induction evs rule: rev_induct)
  case Nil
  show ?case by (simp add: after_events_def run_start)
next
  case (snoc ev evs)
  then show ?case using run_step [OF snoc] by (simp add: after_events_def)
qed

text \<open>The message is delivered twice; the agent runs once.\<close>

definition demo_repeated :: "gw_event list" where
  "demo_repeated = demo_events @ [Gv_message (Fin 5) demo_text, Gv_config (Fin 6) 1 (Some demo_config)]"

theorem agent_answers_mobiles_only_witness:
  "map (\<lambda>c. (cx_senderId c, cx_body c)) (agent_runs (after_events demo_repeated)) = [(''mobile_1'', ''hi'')] \<and>
   (\<exists>sel. mset sel \<subseteq># mset demo_repeated \<and> (''mobile_1'', ''hi'') \<in> set (List.map_filter brings sel) \<and>
     distinct (filter (\<lambda>i. i \<noteq> []) (map event_id sel)))"
proof -
  have r: "map (\<lambda>c. (cx_senderId c, cx_body c)) (agent_runs (after_events demo_repeated)) = [(''mobile_1'', ''hi'')]" by code_simp
  have n: "length (filter is_message demo_repeated) \<le> 2000" by (simp add: demo_repeated_def demo_events_def demo_open_def is_message_def)
  obtain sel where sel: "mset sel \<subseteq># mset demo_repeated" "{#(''mobile_1'', ''hi'')#} \<subseteq># mset (List.map_filter brings sel)"
    "distinct (filter (\<lambda>i. i \<noteq> []) (map event_id sel))"
    using agent_answers_mobiles_only [OF demo_run [of demo_repeated, unfolded demo_gateway_def]] n unfolding r by auto
  then show ?thesis using r by auto
qed

theorem status_is_truthful_witness:
  "js_get (gw_status (after_events demo_open)) ''connected'' = JBool True"
proof -
  have "gw_phase (after_events demo_open) = Gw_socket" "gw_ws (after_events demo_open) = Ws_open" by code_simp+
  then show ?thesis using status_is_truthful [OF demo_run [unfolded demo_gateway_def]] by simp
qed

theorem abort_is_final_witness:
  "connects (fold (gw_step sample_web) [Gv_close (Fin 5) (Fin 1000) [], Gv_timer] (after_events (demo_open @ [Gv_abort]))) =
     connects (after_events (demo_open @ [Gv_abort]))"
proof -
  have "gw_aborted (after_events (demo_open @ [Gv_abort]))" by code_simp
  moreover have "gw_run sample_web s [e, f] (fold (gw_step sample_web) [e, f] s)" for s e f
    using run_step [OF run_step [OF run_start]] by simp
  ultimately show ?thesis using abort_is_final by blast
qed

theorem lost_connection_retried_witness:
  "\<exists>delay. gw_phase (gw_step sample_web (Gv_close (Fin 5) (Fin 1006) []) (after_events demo_open)) = Gw_sleep delay \<and>
     js_leq (Fin 1000) delay \<and> js_leq delay (Fin 15000)"
proof -
  have a: "gw_phase (after_events demo_open) = Gw_socket" by code_simp
  have b: "ac_reconnectMinMs (gw_account (after_events demo_open)) = Fin 1000"
    "ac_reconnectMaxMs (gw_account (after_events demo_open)) = Fin 15000" by code_simp+
  have "isl (buildWsUrl sample_web (ac_serverBaseUrl (gw_account (after_events demo_open))) ''desktop''
      (ac_desktopDeviceId (gw_account (after_events demo_open)))) = False" by code_simp
  then obtain u where "buildWsUrl sample_web (ac_serverBaseUrl (gw_account (after_events demo_open))) ''desktop''
      (ac_desktopDeviceId (gw_account (after_events demo_open))) = Inr u" by (auto simp: isl_def) (metis sum.exhaust)
  then show ?thesis using lost_connection_retried [OF demo_run [unfolded demo_gateway_def] a, of u] unfolding b by blast
qed

theorem repeated_event_ignored_witness:
  "let v = JObj [(''id'', JStr ''e1'')]; t = handle_event sample_web (Fin 1) v demo_gateway
   in handle_event sample_web (Fin 2) v t = t"
proof -
  have "gw_seen demo_gateway = []" by code_simp
  moreover have "asString (js_get (JObj [(''id'', JStr ''e1'')]) ''id'') = ''e1''" by code_simp
  ultimately show ?thesis
    using repeated_event_ignored [of demo_gateway "JObj [(''id'', JStr ''e1'')]" "[]" sample_web "Fin 1" "Fin 2"]
    by (simp add: seen_ok_def MAX_SEEN_EVENT_IDS_def Let_def)
qed

definition demo_reply :: "gw_event list" where
  "demo_reply = demo_events @ [Gv_deliver 0 (JObj [(''text'', JStr ''hello'')])]"

theorem unconfigured_reply_stops_gateway_witness:
  "\<exists>m. gw_phase (fold (gw_step sample_web) [Gv_config (Fin 5) 1 (Some JNull), Gv_close (Fin 6) (Fin 1001) [], Gv_timer]
     (after_events demo_reply)) = Gw_crashed (Thrown m)"
proof -
  have "phase_ok (after_events demo_reply)" by (rule run_ok [OF demo_run [unfolded demo_gateway_def]])
  moreover have "gw_phase (after_events demo_reply) = Gw_socket" by code_simp
  moreover have "map (\<lambda>e. fst e) (gw_tasks (after_events demo_reply)) = [0, 1]" by code_simp
  moreover have "\<exists>ib sender tx. map_of (gw_tasks (after_events demo_reply)) 1 = Some (T_send ib sender tx)"
  proof -
    have "(case map_of (gw_tasks (after_events demo_reply)) 1 of Some (T_send ib sender tx) \<Rightarrow> True | _ \<Rightarrow> False)" by code_simp
    then show ?thesis by (auto split: option.splits gw_task.splits)
  qed
  moreover have "ac_serverBaseUrl (resolveAccount (js_coalesce JNull (JObj [])) (JStr (ac_accountId (gw_account (after_events demo_reply))))) = []"
    by code_simp
  moreover have "\<exists>m. new_url sample_web [] = Inl m"
  proof -
    have "isl (new_url sample_web [])" by code_simp
    then show ?thesis by (simp add: isl_def)
  qed
  ultimately show ?thesis using unconfigured_reply_stops_gateway by metis
qed

definition demo_known :: gateway where
  "demo_known = (after_events demo_open)\<lparr>gw_names := [(''mobile_1'', ''user_7 (mobile_1)'')]\<rparr>"

theorem message_overwrites_user_id_witness:
  "\<exists>p. map_of (peers_in (gw_directory (gw_step sample_web (Gv_config (Fin 4) (gw_next demo_known) (Some demo_config))
      (handle_inbound (Fin 3) (Fin 3) ''mobile_1'' ''chat.message'' (JObj [(''text'', JStr ''hi'')]) demo_known)))
        (bucket_id (ac_accountId (gw_account demo_known)))) ''mobile_1'' = Some p \<and> mp_userId p = ''user_7 (mobile_1)''"
proof -
  have "map_of (gw_names demo_known) ''mobile_1'' = Some (''user_7'' @ '' ('' @ ''mobile_1'' @ '')'')"
    by (simp add: demo_known_def)
  moreover have "js_starts_with ''user_7'' ''user_''" "resolveInboundText ''chat.message'' (JObj [(''text'', JStr ''hi'')]) \<noteq> []"
    "js_trimmed ''mobile_1''" "map_of (gw_tasks demo_known) (gw_next demo_known) = None" by code_simp+
  moreover have "js_trim (''user_7'' @ '' ('' @ ''mobile_1'' @ '')'') = ''user_7 (mobile_1)''" by code_simp
  ultimately show ?thesis using message_overwrites_user_id [of demo_known "''mobile_1''" "''user_7''"] by simp
qed

definition demo_retry :: "gw_event list" where
  "demo_retry = [Gv_bindings (Fin 1) (Inl (Thrown ''offline'')), Gv_error (JStr ''refused''), Gv_close (Fin 2) (Fin 1006) [], Gv_timer]"

theorem old_failure_reported_again_witness:
  "let t = gw_step sample_web (Gv_close (Fin 9) (Fin 1000) []) (gw_step sample_web (Gv_open (Fin 8)) (after_events demo_retry)) in
    js_get (gw_status t) ''lastError'' = JStr ''refused''"
proof -
  have "phase_ok (after_events demo_retry)" by (rule run_ok [OF demo_run [unfolded demo_gateway_def]])
  moreover have "gw_phase (after_events demo_retry) = Gw_socket" "gw_ws (after_events demo_retry) = Ws_connecting"
    "gw_lastDisconnect (after_events demo_retry) = ''refused''" by code_simp+
  ultimately show ?thesis using old_failure_reported_again [of "after_events demo_retry" "''refused''" "[]"] by (simp add: Let_def)
qed

end
