(* ===== verification/SessionStore.thy ===== *)
theory SessionStore
  imports MobilePairing
begin

text \<open>
  mobile/src/state/SessionsContext.tsx, first part: the list of sessions, channels, streams and
  stamps that the mobile application keeps (\<open>store\<close>), and the operations on it that do not await:
  merging a refreshed list, patching and removing sessions, inserting messages, recording the state
  of a channel, closing channels and streams, and the requests by which a signal or a relayed message
  leaves. Chinese texts, peer channels (PeerChannel) and streams are parameters. The lemmas say what
  each operation keeps of a session, and that lists of sessions stay consistent.
\<close>

section \<open>Data\<close>

text \<open>
  The Chinese texts of the previews, as functions of whether the relay can be used and of the detail
  of the failure.
\<close>

record preview_texts =
  pv_connected :: string
  pv_negotiating :: string
  pv_failed :: "bool \<Rightarrow> string \<Rightarrow> string"
  pv_disconnected :: "bool \<Rightarrow> string \<Rightarrow> string"
  pv_relayOnline :: string
  pv_markFailed :: "bool \<Rightarrow> string \<Rightarrow> string"
  pv_approved :: string
  pv_revoked :: string
  pv_switched :: string
  pv_noPeer :: string
  pv_noSignal :: "string \<Rightarrow> string"
  pv_sendFailed :: string

text \<open>
  What an operation throws: the errors of this file, and those of its callees, either an \<open>Error\<close>
  with its message or another value with its text.
\<close>

datatype flow_error =
    No_session | Empty_text | Pending_trust "string option" | Revoked_trust | Not_resendable | Bad_date
  | No_chat | No_signal | No_relay | Binding_incomplete | No_binding_id | No_trust_metadata
  | Error_thrown string | Value_thrown string

record 'n app =
  ap_device :: "'n device"
  ap_texts :: preview_texts
  ap_errorText :: "flow_error \<Rightarrow> string"

datatype transport = Via_p2p | Via_relay

fun transport_name :: "transport \<Rightarrow> string" where
  "transport_name Via_p2p = ''p2p''"
| "transport_name Via_relay = ''relay''"

record pending_ping =
  pp_id :: string
  pp_sentAt :: jsnum
  pp_transport :: transport
  pp_sessionId :: string

text \<open>What the operations do outside the store, in order.\<close>

datatype ('p, 's) store_effect =
    Closed_peer 'p
  | Closed_stream 's
  | Signalled 'p string string jsval jsval
  | Saved_sessions "session_item list"

text \<open>
  The refs of \<open>SessionsProvider\<close>. A peer channel is an opaque \<open>'p\<close>, a signal stream an opaque
  \<open>'s\<close>; a pending connection is the number of the task that makes it.
\<close>

record ('p, 's) store =
  st_sessions :: "session_item list"
  st_signals :: "(string \<times> 's \<times> string) list"
  st_signalConnecting :: "(string \<times> nat) list"
  st_peers :: "(string \<times> 'p) list"
  st_peerConnecting :: "(string \<times> nat) list"
  st_lastPresence :: "(string \<times> jsnum) list"
  st_lastSync :: "(string \<times> jsnum) list"
  st_lastPing :: "(string \<times> jsnum) list"
  st_pendingPings :: "(string \<times> pending_ping) list"
  st_effects :: "('p, 's) store_effect list"

definition PRESENCE_HEARTBEAT_INTERVAL_MS :: jsnum where "PRESENCE_HEARTBEAT_INTERVAL_MS = Fin 60000"
definition MESSAGE_SYNC_INTERVAL_MS :: jsnum where "MESSAGE_SYNC_INTERVAL_MS = Fin 60000"
definition MESSAGE_SYNC_RESUME_THROTTLE_MS :: jsnum where "MESSAGE_SYNC_RESUME_THROTTLE_MS = Fin 10000"
definition LINK_PING_INTERVAL_MS :: jsnum where "LINK_PING_INTERVAL_MS = Fin 60000"

section \<open>Pure helpers\<close>

definition opt_trim :: "string option \<Rightarrow> string" where
  "opt_trim s = js_trim (or_text [] s)"

definition uniqueBaseUrls :: "session_item list \<Rightarrow> string list" where
  "uniqueBaseUrls ss = js_uniq_texts (map si_serverBaseUrl ss)"

definition opt_number :: "jsnum option \<Rightarrow> jsnum" where
  "opt_number n = (case n of Some k \<Rightarrow> js_or_zero k | None \<Rightarrow> Fin 0)"

definition own_origin :: "chat_origin \<Rightarrow> chat_message \<Rightarrow> bool" where
  "own_origin origin m =
     (msg_kind m \<noteq> Some System \<and>
      (msg_origin m = Some origin \<or>
       (msg_origin m = None \<and> (if origin = Mobile_origin then msg_from m = Self else msg_from m = Host))))"

definition nextOriginSeq :: "chat_message list \<Rightarrow> chat_origin \<Rightarrow> jsnum" where
  "nextOriginSeq ms origin =
     js_add (fold (\<lambda>m acc. js_max acc (js_trunc (opt_number (msg_originSeq m)))) (filter (own_origin origin) ms) (Fin 0))
       (Fin 1)"

definition sessionsMatch :: "session_item \<Rightarrow> session_item \<Rightarrow> bool" where
  "sessionsMatch l r =
     ((si_id l \<noteq> [] \<and> si_id r \<noteq> [] \<and> si_id l = si_id r) \<or>
      (si_bindingId l \<noteq> [] \<and> si_bindingId r \<noteq> [] \<and> si_bindingId l = si_bindingId r) \<or>
      (si_deviceId l \<noteq> [] \<and> si_deviceId r \<noteq> [] \<and> si_deviceId l = si_deviceId r))"

text \<open>\<open>Math.max(0, Math.trunc(Number(a || b || 0)))\<close>.\<close>

definition first_count :: "jsnum option \<Rightarrow> jsnum option \<Rightarrow> jsnum" where
  "first_count a b =
     js_count (if opt_number a \<noteq> Fin 0 then opt_number a else opt_number b)"

definition merge_one :: "'n app \<Rightarrow> session_item list \<Rightarrow> session_item \<Rightarrow> session_item" where
  "merge_one ap latestSessions refreshed =
     (case find_session (\<lambda>item. sessionsMatch item refreshed) latestSessions of
        None \<Rightarrow> refreshed
      | Some latest \<Rightarrow>
        (case reconciled_of (ap_device ap) (si_messages latest @ si_messages refreshed) of (ms, missing) \<Rightarrow>
           let off = (si_status refreshed = Conn_offline)
           in (spread_session latest refreshed)\<lparr>si_messages := ms, si_missingMessageIds := Some missing,
             si_linkTransport := Some (if off then []
               else if si_linkTransport refreshed \<in> {Some ''p2p'', Some ''relay''} then or_text [] (si_linkTransport refreshed)
               else or_text [] (si_linkTransport latest)),
             si_linkRttMs := Some (if off then Fin 0 else first_count (si_linkRttMs refreshed) (si_linkRttMs latest)),
             si_linkRttAt := Some (if off then Fin 0 else first_count (si_linkRttAt refreshed) (si_linkRttAt latest)),
             si_linkProbePending := Some (if off then False
               else opt_or (si_linkProbePending refreshed) (si_linkProbePending latest) = Some True)\<rparr>))"

definition keep_unmatched :: "session_item \<Rightarrow> session_item list \<Rightarrow> session_item list" where
  "keep_unmatched latest merged =
     (if list_ex (\<lambda>item. sessionsMatch item latest) merged then merged else merged @ [latest])"

definition mergeRefreshedSessions :: "'n app \<Rightarrow> session_item list \<Rightarrow> session_item list \<Rightarrow> session_item list" where
  "mergeRefreshedSessions ap latestSessions refreshedSessions =
     fold keep_unmatched latestSessions (map (merge_one ap latestSessions) refreshedSessions)"

section \<open>The list of sessions\<close>

definition updateSessions ::
  "(session_item list \<Rightarrow> session_item list) \<Rightarrow> ('p, 's) store \<Rightarrow> ('p, 's) store" where
  "updateSessions f st = st\<lparr>st_sessions := f (st_sessions st)\<rparr>"

definition getSessionByIdSnapshot :: "('p, 's) store \<Rightarrow> string \<Rightarrow> session_item option" where
  "getSessionByIdSnapshot st i = find_session (\<lambda>s. si_id s = i) (st_sessions st)"

definition getSessionByBindingIdSnapshot :: "('p, 's) store \<Rightarrow> string \<Rightarrow> session_item option" where
  "getSessionByBindingIdSnapshot st b =
     (if js_trim b = [] then None else find_session (\<lambda>s. si_bindingId s = js_trim b) (st_sessions st))"

definition getSessionByDeviceIdSnapshot :: "('p, 's) store \<Rightarrow> string \<Rightarrow> session_item option" where
  "getSessionByDeviceIdSnapshot st d =
     (if js_trim d = [] then None else find_session (\<lambda>s. si_deviceId s = js_trim d) (st_sessions st))"

definition canUseRelayTransport :: "session_item \<Rightarrow> bool" where
  "canUseRelayTransport s =
     (opt_trim (si_trustState s) = ''active'' \<and> si_status s \<noteq> Conn_offline \<and>
      js_trim (si_bindingId s) \<noteq> [] \<and> js_trim (si_deviceId s) \<noteq> [])"

text \<open>\<open>patchSessionById\<close> and \<open>patchSessionByBindingId\<close> with the fields of the patch as an update.\<close>

definition patchSessionById ::
  "string \<Rightarrow> (session_item \<Rightarrow> session_item) \<Rightarrow> ('p, 's) store \<Rightarrow> ('p, 's) store" where
  "patchSessionById i patch = updateSessions (map (\<lambda>s. if si_id s = i then patch s else s))"

definition patchSessionByBindingId ::
  "string \<Rightarrow> (session_item \<Rightarrow> session_item) \<Rightarrow> ('p, 's) store \<Rightarrow> ('p, 's) store" where
  "patchSessionByBindingId b patch st =
     (if js_trim b = [] then st
      else updateSessions (map (\<lambda>s. if si_bindingId s = js_trim b then patch s else s)) st)"

definition markSessionTransport :: "string \<Rightarrow> transport \<Rightarrow> ('p, 's) store \<Rightarrow> ('p, 's) store" where
  "markSessionTransport i t = patchSessionById i (\<lambda>s. s\<lparr>si_linkTransport := Some (transport_name t)\<rparr>)"

definition removed_by :: "string \<Rightarrow> string \<Rightarrow> string \<Rightarrow> session_item \<Rightarrow> bool" where
  "removed_by i b d s =
     ((js_trim i \<noteq> [] \<and> si_id s = js_trim i) \<or> (js_trim b \<noteq> [] \<and> si_bindingId s = js_trim b) \<or>
      (js_trim d \<noteq> [] \<and> si_deviceId s = js_trim d))"

definition removeSessionLocal :: "string \<Rightarrow> string \<Rightarrow> string \<Rightarrow> ('p, 's) store \<Rightarrow> ('p, 's) store" where
  "removeSessionLocal i b d = updateSessions (filter (\<lambda>s. \<not> removed_by i b d s))"

section \<open>Pings\<close>

definition clearPendingLinkPing :: "session_item option \<Rightarrow> ('p, 's) store \<Rightarrow> ('p, 's) store" where
  "clearPendingLinkPing session st =
     (let b = (case session of Some s \<Rightarrow> js_trim (si_bindingId s) | None \<Rightarrow> []) in
      if b = [] then st
      else st\<lparr>st_pendingPings := AList.delete b (st_pendingPings st), st_lastPing := AList.delete b (st_lastPing st)\<rparr>)"

text \<open>\<open>Math.max(0, Math.trunc(Number(pong.sentAt || pending?.sentAt || 0)))\<close> and the round trip.\<close>

definition pong_sentAt :: "jsnum \<Rightarrow> pending_ping option \<Rightarrow> jsnum" where
  "pong_sentAt sentAt pending = first_count (Some sentAt) (map_option pp_sentAt pending)"

definition pong_rtt :: "env \<Rightarrow> jsnum \<Rightarrow> jsnum" where
  "pong_rtt e sentAt = (if js_less (Fin 0) sentAt then js_max (Fin 0) (js_sub (e_now e) sentAt) else Fin 0)"

definition link_measured :: "transport \<Rightarrow> jsnum \<Rightarrow> jsnum \<Rightarrow> session_item \<Rightarrow> session_item" where
  "link_measured t rtt now s =
     s\<lparr>si_linkTransport := Some (transport_name t), si_linkRttMs := Some rtt, si_linkRttAt := Some now,
       si_linkProbePending := Some False\<rparr>"

definition applyLinkPong ::
  "env \<Rightarrow> session_item \<Rightarrow> string \<Rightarrow> jsnum \<Rightarrow> transport \<Rightarrow> ('p, 's) store \<Rightarrow> ('p, 's) store" where
  "applyLinkPong e session pongId sentAt t st =
     (let b = js_trim (si_bindingId session);
          pending = (if b = [] then None else map_of (st_pendingPings st) b);
          st' = (case pending of
                   Some p \<Rightarrow> if pp_id p = js_trim pongId
                     then st\<lparr>st_pendingPings := AList.delete b (st_pendingPings st)\<rparr> else st
                 | None \<Rightarrow> st)
      in patchSessionById (js_trim (si_id session))
           (link_measured t (pong_rtt e (pong_sentAt sentAt pending)) (e_now e)) st')"

section \<open>Messages\<close>

text \<open>
  \<open>new Date(ts)\<close> of a finite time within 8.64e15 ms of the epoch is valid; formatting any other
  throws a \<open>RangeError\<close>.
\<close>

definition date_valid :: "jsnum \<Rightarrow> bool" where
  "date_valid n = (case n of Fin r \<Rightarrow> \<bar>r\<bar> \<le> 8640000000000000 | _ \<Rightarrow> False)"

definition upserted_of :: "'n device \<Rightarrow> chat_message list \<Rightarrow> chat_message \<Rightarrow> upserted" where
  "upserted_of dv current m =
     (case upsertSessionMessage (dv_sort dv) (dv_localeCompare dv) current m of
        Some u \<Rightarrow> u
      | None \<Rightarrow> \<lparr>up_messages = [], up_leafIds = [], up_missingMessageIds = [], up_inserted = False, up_newlyMissing = []\<rparr>)"

definition with_upserted :: "upserted \<Rightarrow> string \<Rightarrow> session_item \<Rightarrow> session_item" where
  "with_upserted u preview s =
     s\<lparr>si_preview := preview, si_isReplying := False,
       si_messages := js_last_n MAX_SESSION_MESSAGES (up_messages u),
       si_missingMessageIds := Some (up_missingMessageIds u)\<rparr>"

record message_draft =
  md_id :: string
  md_from :: msg_side
  md_text :: string
  md_createdAt :: string
  md_ts :: "jsnum option"
  md_kind :: "msg_kind option"
  md_originSeq :: "jsnum option"
  md_after :: "string list"
  md_deliveryStatus :: "delivery_status option"
  md_deliveryError :: string

definition draft_ts :: "env \<Rightarrow> message_draft \<Rightarrow> jsnum" where
  "draft_ts e d = (case md_ts d of Some n \<Rightarrow> ts_or_now e n | None \<Rightarrow> e_now e)"

definition message_of_draft :: "'n device \<Rightarrow> env \<Rightarrow> message_draft \<Rightarrow> chat_message" where
  "message_of_draft dv e d =
     (let system = (md_kind d = Some System); ts = draft_ts e d in
      \<lparr>msg_id = (if js_trim (md_id d) = [] then randomId e ''msg'' else js_trim (md_id d)),
       msg_from = md_from d, msg_text = js_trim (md_text d),
       msg_createdAt = (if md_createdAt d \<noteq> [] then md_createdAt d else dv_formatTime dv ts),
       msg_ts = ts, msg_kind = Some (if system then System else Chat),
       msg_origin = (if system then None else Some (if md_from d = Self then Mobile_origin else Host_origin)),
       msg_originSeq = (if system then None else Some (opt_count (md_originSeq d))),
       msg_after = md_after d, msg_missingAfter = [],
       msg_deliveryStatus = (if system \<or> md_from d \<noteq> Self then None
         else Some (case md_deliveryStatus d of Some x \<Rightarrow> x | None \<Rightarrow> delivery_status.Sent)),
       msg_deliveryError = (if system \<or> md_from d \<noteq> Self then [] else js_trim (md_deliveryError d))\<rparr>)"

text \<open>The result is None when the formatting of the date throws, before the list is changed.\<close>

definition appendMessageLocal ::
  "'n app \<Rightarrow> env \<Rightarrow> string \<Rightarrow> message_draft \<Rightarrow> ('p, 's) store \<Rightarrow> ('p, 's) store option" where
  "appendMessageLocal ap e sessionId d st =
     (if js_trim (md_text d) = [] then Some st
      else if md_createdAt d = [] \<and> \<not> date_valid (draft_ts e d) then None
      else Some (patchSessionById sessionId (\<lambda>item.
             with_upserted (upserted_of (ap_device ap) (si_messages item) (message_of_draft (ap_device ap) e d))
               (js_trim (md_text d)) item) st))"

definition set_delivery :: "string \<Rightarrow> delivery_status \<Rightarrow> string \<Rightarrow> chat_message \<Rightarrow> chat_message" where
  "set_delivery messageId status err m =
     (if js_trim (msg_id m) = messageId
      then m\<lparr>msg_deliveryStatus := Some status, msg_deliveryError := (if status = delivery_status.Failed then js_trim err else [])\<rparr>
      else m)"

definition updateMessageDeliveryState ::
  "string \<Rightarrow> string \<Rightarrow> delivery_status \<Rightarrow> string \<Rightarrow> ('p, 's) store \<Rightarrow> ('p, 's) store" where
  "updateMessageDeliveryState sessionId messageId status err st =
     (let i = js_trim sessionId; mid = js_trim messageId in
      if i = [] \<or> mid = [] then st
      else patchSessionById i (\<lambda>item.
             if list_ex (\<lambda>m. js_trim (msg_id m) = mid) (si_messages item)
             then item\<lparr>si_messages := map (set_delivery mid status err) (si_messages item)\<rparr> else item) st)"

record remote_message =
  rm_id :: string
  rm_text :: string
  rm_ts :: jsnum
  rm_origin :: "chat_origin option"
  rm_originSeq :: jsnum
  rm_after :: "string list"

definition message_of_remote :: "'n device \<Rightarrow> env \<Rightarrow> remote_message \<Rightarrow> chat_message" where
  "message_of_remote dv e r =
     \<lparr>msg_id = js_trim (rm_id r), msg_from = Host, msg_text = rm_text r,
      msg_createdAt = dv_formatTime dv (ts_or_now e (rm_ts r)), msg_ts = ts_or_now e (rm_ts r),
      msg_kind = Some Chat, msg_origin = Some (if rm_origin r = Some Mobile_origin then Mobile_origin else Host_origin),
      msg_originSeq = Some (js_count (rm_originSeq r)), msg_after = rm_after r, msg_missingAfter = [],
      msg_deliveryStatus = None, msg_deliveryError = []\<rparr>"

text \<open>
  The result is the missing ids that are new, or None when the formatting of the date throws. Only
  \<open>newlyMissingMessageIds\<close> of the result is used; with several sessions of one id it is that of the
  last. Both callers pass \<open>from: 'host'\<close>.
\<close>

definition upsertRemoteChatMessage ::
  "'n app \<Rightarrow> env \<Rightarrow> string \<Rightarrow> remote_message \<Rightarrow> ('p, 's) store \<Rightarrow> (string list \<times> ('p, 's) store) option" where
  "upsertRemoteChatMessage ap e sessionId r st =
     (if js_trim (rm_id r) = [] then Some ([], st)
      else let hits = filter (\<lambda>s. si_id s = sessionId) (st_sessions st);
               ups = (\<lambda>item. upserted_of (ap_device ap) (si_messages item) (message_of_remote (ap_device ap) e r))
           in if hits = [] then Some ([], st)
              else if \<not> date_valid (ts_or_now e (rm_ts r)) then None
              else Some (up_newlyMissing (ups (last hits)),
                     patchSessionById sessionId (\<lambda>item.
                       with_upserted (ups item)
                         (if js_trim (rm_text r) \<noteq> [] then js_trim (rm_text r) else si_preview item) item) st))"

section \<open>Peers\<close>

definition peer_preview :: "preview_texts \<Rightarrow> string \<Rightarrow> string \<Rightarrow> session_item \<Rightarrow> string" where
  "peer_preview tx state detail item =
     (let relayReady = canUseRelayTransport item in
      if state = ''connected'' then pv_connected tx
      else if isPeerNegotiating state then pv_negotiating tx
      else if state = ''failed'' then pv_failed tx relayReady detail
      else if state = ''disconnected'' then pv_disconnected tx relayReady detail
      else if relayReady then pv_relayOnline tx
      else si_preview item)"

definition with_peer_state :: "preview_texts \<Rightarrow> string \<Rightarrow> string \<Rightarrow> session_item \<Rightarrow> session_item" where
  "with_peer_state tx state detail item =
     item\<lparr>si_peerState := Some state, si_peerDetail := Some detail,
       si_transportReady := Some (state = ''connected'' \<or> canUseRelayTransport item),
       si_preview := peer_preview tx state detail item\<rparr>"

definition updatePeerState ::
  "'n app \<Rightarrow> string \<Rightarrow> string \<Rightarrow> string \<Rightarrow> ('p, 's) store \<Rightarrow> ('p, 's) store" where
  "updatePeerState ap bindingId state detail st =
     (if js_trim bindingId = [] then st
      else updateSessions (map (\<lambda>item. if si_bindingId item = js_trim bindingId
             then with_peer_state (ap_texts ap) state detail item else item)) st)"

text \<open>\<open>error instanceof Error ? error.message : String(error || '').trim() || fallback\<close>.\<close>

definition failure_detail :: "'n app \<Rightarrow> flow_error \<Rightarrow> string \<Rightarrow> string" where
  "failure_detail ap err fallback =
     (case err of
        Error_thrown m \<Rightarrow> m
      | Value_thrown v \<Rightarrow> if js_trim v = [] then fallback else js_trim v
      | _ \<Rightarrow> ap_errorText ap err)"

definition markPeerFailure ::
  "'n app \<Rightarrow> session_item \<Rightarrow> flow_error \<Rightarrow> string \<Rightarrow> ('p, 's) store \<Rightarrow> ('p, 's) store" where
  "markPeerFailure ap session err fallback st =
     (let detail = failure_detail ap err fallback in
      if js_trim (si_bindingId session) \<noteq> []
      then updatePeerState ap (js_trim (si_bindingId session)) ''failed'' detail st
      else patchSessionById (si_id session) (\<lambda>s.
             s\<lparr>si_peerState := Some ''failed'', si_peerDetail := Some detail,
               si_transportReady := Some (canUseRelayTransport session),
               si_preview := pv_markFailed (ap_texts ap) (canUseRelayTransport session) detail\<rparr>) st)"

text \<open>
  Closing a channel or a stream is an effect. \<open>peer.close()\<close> reports the state disconnected through
  \<open>onStateChange\<close>, that is \<open>updatePeerState\<close> with another detail, which the call below overwrites.
\<close>

definition closeSignal :: "string \<Rightarrow> ('p, 's) store \<Rightarrow> ('p, 's) store" where
  "closeSignal baseUrl st =
     (let b = js_trim baseUrl in
      case map_of (st_signals st) b of
        None \<Rightarrow> st
      | Some (stream, token) \<Rightarrow>
          st\<lparr>st_signals := AList.delete b (st_signals st),
            st_signalConnecting := AList.delete b (st_signalConnecting st),
            st_effects := st_effects st @ [Closed_stream stream]\<rparr>)"

definition forget_peer :: "string \<Rightarrow> ('p, 's) store \<Rightarrow> ('p, 's) store" where
  "forget_peer key st =
     st\<lparr>st_peerConnecting := AList.delete key (st_peerConnecting st),
       st_pendingPings := AList.delete key (st_pendingPings st),
       st_lastPing := AList.delete key (st_lastPing st)\<rparr>"

definition closePeer :: "'n app \<Rightarrow> string \<Rightarrow> string \<Rightarrow> ('p, 's) store \<Rightarrow> ('p, 's) store" where
  "closePeer ap bindingId detail st =
     (let key = js_trim bindingId; st' = forget_peer key st in
      if key = [] then st
      else case map_of (st_peers st') key of
             None \<Rightarrow> st'
           | Some p \<Rightarrow>
               updatePeerState ap key ''disconnected'' detail
                 (st'\<lparr>st_peers := AList.delete key (st_peers st'), st_effects := st_effects st' @ [Closed_peer p]\<rparr>))"

section \<open>After a change of the list\<close>

definition stale_peer :: "session_item list \<Rightarrow> string \<Rightarrow> bool" where
  "stale_peer nextSessions bindingId =
     (bindingId \<notin> set (filter (\<lambda>b. b \<noteq> []) (map (\<lambda>s. js_trim (si_bindingId s)) nextSessions)) \<or>
      (case find_session (\<lambda>s. si_bindingId s = bindingId) nextSessions of
         None \<Rightarrow> True | Some s \<Rightarrow> si_trustState s \<noteq> Some ''active''))"

definition closeStalePeers :: "'n app \<Rightarrow> session_item list \<Rightarrow> ('p, 's) store \<Rightarrow> ('p, 's) store" where
  "closeStalePeers ap nextSessions st =
     fold (\<lambda>b st. if stale_peer nextSessions b then closePeer ap b ''session removed'' st else st)
       (map fst (st_peers st)) st"

definition keep_keys :: "string set \<Rightarrow> (string \<times> 'a) list \<Rightarrow> (string \<times> 'a) list" where
  "keep_keys ks m = filter (\<lambda>kv. fst kv \<in> ks) m"

definition binding_keys :: "session_item list \<Rightarrow> string set" where
  "binding_keys ss = set (filter (\<lambda>b. b \<noteq> []) (map (\<lambda>s. js_trim (si_bindingId s)) ss))"

definition base_keys :: "session_item list \<Rightarrow> string set" where
  "base_keys ss = set (filter (\<lambda>b. b \<noteq> []) (map (\<lambda>s. js_trim (si_serverBaseUrl s)) ss))"

definition pruneMessageSyncTimestamps :: "session_item list \<Rightarrow> ('p, 's) store \<Rightarrow> ('p, 's) store" where
  "pruneMessageSyncTimestamps ss st = st\<lparr>st_lastSync := keep_keys (binding_keys ss) (st_lastSync st)\<rparr>"

definition prunePresenceHeartbeatTimestamps :: "session_item list \<Rightarrow> ('p, 's) store \<Rightarrow> ('p, 's) store" where
  "prunePresenceHeartbeatTimestamps ss st = st\<lparr>st_lastPresence := keep_keys (base_keys ss) (st_lastPresence st)\<rparr>"

definition pruneLinkProbeState :: "session_item list \<Rightarrow> ('p, 's) store \<Rightarrow> ('p, 's) store" where
  "pruneLinkProbeState ss st =
     st\<lparr>st_lastPing := keep_keys (binding_keys ss) (st_lastPing st),
       st_pendingPings := keep_keys (binding_keys ss) (st_pendingPings st)\<rparr>"

section \<open>Signals\<close>

definition signal_to_desktop :: "mobile_auth \<Rightarrow> string \<Rightarrow> string \<Rightarrow> jsval \<Rightarrow> signal_body" where
  "signal_to_desktop auth toId type payload =
     \<lparr>sg_fromType = Mobile, sg_fromId = ma_mobileId auth, sg_toType = Desktop, sg_toId = toId,
       sg_type = type, sg_payload = payload\<rparr>"

definition send_signal :: "'n device \<Rightarrow> string \<Rightarrow> string \<Rightarrow> string \<Rightarrow> jsval \<Rightarrow> bool \<Rightarrow> ('n mobile_world, unit) io" where
  "send_signal dv baseUrl toId type payload force =
     io_bind (ensureMobileAuthV2 dv baseUrl force) (\<lambda>auth.
     io_bind (sendPairV2Signal (dv_web dv) (mobile_runtime dv) baseUrl (ma_token auth)
       (signal_to_desktop auth toId type payload)) (\<lambda>_. io_return ()))"

definition resend_signal ::
  "'n device \<Rightarrow> string \<Rightarrow> mobile_auth \<Rightarrow> string \<Rightarrow> string \<Rightarrow> jsval \<Rightarrow> ('n mobile_world, unit) io" where
  "resend_signal dv baseUrl auth toId type payload =
     io_catch
       (io_bind (sendPairV2Signal (dv_web dv) (mobile_runtime dv) baseUrl (ma_token auth)
          (signal_to_desktop auth toId type payload)) (\<lambda>_. io_return ()))
       (\<lambda>_. send_signal dv baseUrl toId type payload True)"

definition sendPeerSignal ::
  "'n device \<Rightarrow> string \<Rightarrow> string \<Rightarrow> string \<Rightarrow> jsval \<Rightarrow> ('n mobile_world, unit) io" where
  "sendPeerSignal dv baseUrl toId type payload =
     io_bind (ensureMobileAuthV2 dv baseUrl False) (\<lambda>auth. resend_signal dv baseUrl auth toId type payload)"

definition app_message_json :: "app_message \<Rightarrow> jsval" where
  "app_message_json m =
     JObj [(''type'', JStr (am_type m)), (''payload'', am_payload m), (''ts'', JNum (am_ts m)),
       (''from'', JStr (entity_name (am_from m)))]"

definition relay_payload :: "session_item \<Rightarrow> app_message \<Rightarrow> jsval" where
  "relay_payload session message =
     JObj [(''bindingId'', JStr (js_trim (si_bindingId session))), (''deviceId'', JStr (js_trim (si_deviceId session))),
       (''message'', app_message_json message)]"

definition sendRelayAppMessage ::
  "'n device \<Rightarrow> session_item \<Rightarrow> app_message \<Rightarrow> 'n mobile_world \<Rightarrow> (flow_error + pair_error + unit) \<times> 'n mobile_world" where
  "sendRelayAppMessage dv session message w =
     (case ensureMobileAuthV2 dv (si_serverBaseUrl session) False w of
        (Inl err, w') \<Rightarrow> (Inr (Inl err), w')
      | (Inr auth, w') \<Rightarrow>
        (if js_trim (si_bindingId session) = [] \<or> js_trim (si_deviceId session) = [] then (Inl Binding_incomplete, w')
         else (case resend_signal dv (si_serverBaseUrl session) auth (js_trim (si_deviceId session)) ''relay.app''
                 (relay_payload session message) w' of (r, w'') \<Rightarrow> (Inr r, w''))))"
section \<open>What the operations keep of a session\<close>

text \<open>
  The face of a session: its keys, its trust, its status and its messages. Every operation that only
  records the state of a channel or of a measurement keeps the faces.
\<close>

named_theorems keeps_faces

type_synonym face = "string \<times> string \<times> string \<times> string option \<times> ConnectionStatus \<times> chat_message list"

definition face :: "session_item \<Rightarrow> face" where
  "face s = (si_id s, si_bindingId s, si_deviceId s, si_trustState s, si_status s, si_messages s)"

definition faces :: "('p, 's) store \<Rightarrow> face list" where
  "faces st = map face (st_sessions st)"

lemma face_update [simp]:
  "face (s\<lparr>si_peerState := a\<rparr>) = face s" "face (s\<lparr>si_peerDetail := b\<rparr>) = face s"
  "face (s\<lparr>si_transportReady := c\<rparr>) = face s" "face (s\<lparr>si_preview := d\<rparr>) = face s"
  "face (s\<lparr>si_linkTransport := f\<rparr>) = face s" "face (s\<lparr>si_linkRttMs := g\<rparr>) = face s"
  "face (s\<lparr>si_linkRttAt := h\<rparr>) = face s" "face (s\<lparr>si_linkProbePending := i\<rparr>) = face s"
  "face (s\<lparr>si_peerCapabilities := j\<rparr>) = face s"
  by (simp_all add: face_def)

lemma faces_update [simp]:
  "faces (st\<lparr>st_signals := a\<rparr>) = faces st" "faces (st\<lparr>st_signalConnecting := b\<rparr>) = faces st"
  "faces (st\<lparr>st_peers := c\<rparr>) = faces st" "faces (st\<lparr>st_peerConnecting := d\<rparr>) = faces st"
  "faces (st\<lparr>st_lastPresence := f\<rparr>) = faces st" "faces (st\<lparr>st_lastSync := g\<rparr>) = faces st"
  "faces (st\<lparr>st_lastPing := h\<rparr>) = faces st" "faces (st\<lparr>st_pendingPings := i\<rparr>) = faces st"
  "faces (st\<lparr>st_effects := j\<rparr>) = faces st"
  by (simp_all add: faces_def)

lemma faces_map:
  "(\<And>s. s \<in> set (st_sessions st) \<Longrightarrow> face (f s) = face s) \<Longrightarrow> faces (updateSessions (map f) st) = faces st"
  by (simp add: faces_def updateSessions_def)

lemma faces_patch: "(\<And>s. face (patch s) = face s) \<Longrightarrow> faces (patchSessionById i patch st) = faces st"
  by (simp add: patchSessionById_def faces_map)

lemma faces_with_peer_state [simp]: "face (with_peer_state tx state detail s) = face s"
  by (simp add: with_peer_state_def)

lemma faces_updatePeerState [keeps_faces]: "faces (updatePeerState ap b state detail st) = faces st"
  by (simp add: updatePeerState_def faces_map)

lemma faces_store_ops [keeps_faces]:
  "faces (markSessionTransport i t st) = faces st"
  "faces (clearPendingLinkPing so st) = faces st"
  "faces (markPeerFailure ap s err fb st) = faces st"
  "faces (closeSignal b st) = faces st"
  "faces (forget_peer k st) = faces st"
  "faces (pruneMessageSyncTimestamps ss st) = faces st"
  "faces (prunePresenceHeartbeatTimestamps ss st) = faces st"
  "faces (pruneLinkProbeState ss st) = faces st"
  by (auto simp: markSessionTransport_def clearPendingLinkPing_def markPeerFailure_def closeSignal_def Let_def
      forget_peer_def pruneMessageSyncTimestamps_def prunePresenceHeartbeatTimestamps_def pruneLinkProbeState_def
      faces_patch keeps_faces split: option.splits)

lemma faces_applyLinkPong [keeps_faces]: "faces (applyLinkPong e s pid sentAt t st) = faces st"
  unfolding applyLinkPong_def Let_def
  by (subst faces_patch) (auto simp: link_measured_def split: option.splits)

lemma faces_closePeer [keeps_faces]: "faces (closePeer ap b detail st) = faces st"
  by (simp add: closePeer_def Let_def keeps_faces split: option.splits)

lemma faces_fold: "(\<And>x st. faces (f x st) = faces st) \<Longrightarrow> faces (fold f xs st) = faces st"
  by (induction xs arbitrary: st) simp_all

lemma faces_closeStalePeers [keeps_faces]: "faces (closeStalePeers ap ss st) = faces st"
  by (simp add: closeStalePeers_def faces_fold keeps_faces)

section \<open>Consistent lists\<close>

definition session_keys :: "session_item \<Rightarrow> string \<times> string \<times> string" where
  "session_keys s = (si_id s, si_bindingId s, si_deviceId s)"

text \<open>No two sessions share an id, a binding or a device, and every session has an id.\<close>

definition sessions_wf :: "session_item list \<Rightarrow> bool" where
  "sessions_wf ss = (sessions_ok ss \<and> list_all (\<lambda>s. si_id s \<noteq> []) ss)"

lemma distinct_by_map: "map f xs = map g ys \<Longrightarrow> distinct_by f xs = distinct_by g ys"
proof -
  assume a: "map f xs = map g ys"
  then have l: "length xs = length ys" by (rule map_eq_imp_length_eq)
  have "f (xs ! i) = g (ys ! i)" if "i < length ys" for i
    using a that l by (metis nth_map)
  then show ?thesis using l by (auto simp: distinct_by_def)
qed

lemma keys_sel:
  assumes "map session_keys xs = map session_keys ys"
  shows "map si_id xs = map si_id ys" "map si_bindingId xs = map si_bindingId ys" "map si_deviceId xs = map si_deviceId ys"
proof -
  have "map (f \<circ> session_keys) xs = map (f \<circ> session_keys) ys" for f :: "string \<times> string \<times> string \<Rightarrow> string"
    unfolding map_map [symmetric] assms ..
  from this [of fst] this [of "fst \<circ> snd"] this [of "snd \<circ> snd"]
  show "map si_id xs = map si_id ys" "map si_bindingId xs = map si_bindingId ys" "map si_deviceId xs = map si_deviceId ys"
    by (simp_all add: comp_def session_keys_def)
qed

lemma sessions_wf_keys: "map session_keys xs = map session_keys ys \<Longrightarrow> sessions_wf xs = sessions_wf ys"
proof -
  assume "map session_keys xs = map session_keys ys"
  note k = keys_sel [OF this]
  have "list_all (\<lambda>s. si_id s \<noteq> []) xs = list_all (\<lambda>i. i \<noteq> []) (map si_id xs)" for xs :: "session_item list"
    by (simp add: list_all_iff)
  then show ?thesis
    using k by (simp add: sessions_wf_def sessions_ok_def distinct_by_map [of si_id xs si_id ys]
      distinct_by_map [of si_bindingId xs si_bindingId ys] distinct_by_map [of si_deviceId xs si_deviceId ys])
qed

lemma faces_keys: "map face xs = map face ys \<Longrightarrow> map session_keys xs = map session_keys ys"
proof -
  let ?f = "\<lambda>(i, b, d, t, st, ms). (i, b, d)"
  assume "map face xs = map face ys"
  then have "map (?f \<circ> face) xs = map (?f \<circ> face) ys" unfolding map_map [symmetric] by simp
  then show ?thesis by (simp add: comp_def face_def session_keys_def [abs_def])
qed

lemma distinct_by_cons: "distinct_by f (x # xs) = ((f x \<noteq> [] \<longrightarrow> f x \<notin> f ` set xs) \<and> distinct_by f xs)"
proof
  assume d: "distinct_by f (x # xs)"
  have "f x \<noteq> f (xs ! j)" if "j < length xs" "f x \<noteq> []" for j
  proof -
    have "f ((x # xs) ! 0) \<noteq> f ((x # xs) ! Suc j)"
      using d that unfolding distinct_by_def by (metis Suc_less_eq length_Cons nth_Cons_0 zero_less_Suc Zero_not_Suc)
    then show ?thesis by simp
  qed
  moreover have "distinct_by f xs" using d unfolding distinct_by_def by fastforce
  ultimately show "(f x \<noteq> [] \<longrightarrow> f x \<notin> f ` set xs) \<and> distinct_by f xs" by (metis imageE in_set_conv_nth)
next
  assume a: "(f x \<noteq> [] \<longrightarrow> f x \<notin> f ` set xs) \<and> distinct_by f xs"
  show "distinct_by f (x # xs)"
  proof (cases "f x = []")
    case False
    then show ?thesis using a by (intro distinct_by_Cons) simp_all
  next
    case True
    show ?thesis unfolding distinct_by_def
    proof (intro allI impI)
      fix i j assume "i < length (x # xs)" "j < length (x # xs)" "i \<noteq> j" "f ((x # xs) ! i) \<noteq> []"
      then show "f ((x # xs) ! i) \<noteq> f ((x # xs) ! j)"
        using a True by (cases i; cases j) (auto simp: distinct_by_def)
    qed
  qed
qed

lemma distinct_by_iff: "distinct_by f xs = distinct (filter (\<lambda>x. x \<noteq> []) (map f xs))"
proof (induction xs)
  case Nil
  then show ?case by (simp add: distinct_by_def)
next
  case (Cons x xs)
  then show ?case by (auto simp: distinct_by_cons)
qed

lemma sessions_wf_filter: "sessions_wf ss \<Longrightarrow> sessions_wf (filter P ss)"
proof -
  have "distinct_by f ss \<Longrightarrow> distinct_by f (filter P ss)" for f :: "session_item \<Rightarrow> string"
    unfolding distinct_by_iff by (induction ss) auto
  then show "sessions_wf ss \<Longrightarrow> sessions_wf (filter P ss)"
    by (auto simp: sessions_wf_def sessions_ok_def list_all_iff)
qed
lemma session_keys_spread [simp]: "session_keys (spread_session ex next) = session_keys next"
  by (simp add: spread_session_def session_keys_def)

lemma merge_one_keys [simp]: "session_keys (merge_one ap latest r) = session_keys r"
  by (simp add: merge_one_def session_keys_def spread_session_def Let_def split: option.split prod.split)

lemma merge_one_sel [simp]:
  "si_id (merge_one ap latest r) = si_id r" "si_status (merge_one ap latest r) = si_status r"
  by (simp_all add: merge_one_def spread_session_def Let_def split: option.split prod.split)

lemma opt_or_simps [simp]: "opt_or (Some a) y = Some a" "opt_or None y = y"
  by (simp_all add: opt_or_def)

lemma spread_session_trust [simp]:
  "si_trustState (spread_session ex next) = opt_or (si_trustState next) (si_trustState ex)"
  by (simp add: spread_session_def)

lemma merge_one_trust: "si_trustState r = Some t \<Longrightarrow> si_trustState (merge_one ap latest r) = Some t"
  by (cases "find_session (\<lambda>item. sessionsMatch item r) latest") (simp_all add: merge_one_def Let_def split: prod.split)

lemma distinct_by_snoc: "distinct_by f (xs @ [x]) = (distinct_by f xs \<and> (f x \<noteq> [] \<longrightarrow> f x \<notin> f ` set xs))"
  by (auto simp: distinct_by_iff)

lemma wf_snoc:
  assumes "sessions_wf ss" "si_id x \<noteq> []" "\<not> list_ex (\<lambda>s. sessionsMatch s x) ss"
  shows "sessions_wf (ss @ [x])"
proof -
  have "\<not> sessionsMatch s x" if "s \<in> set ss" for s using assms(3) that by (simp add: list_ex_iff)
  then have "si_id x \<notin> si_id ` set ss" "si_bindingId x \<noteq> [] \<longrightarrow> si_bindingId x \<notin> si_bindingId ` set ss"
    "si_deviceId x \<noteq> [] \<longrightarrow> si_deviceId x \<notin> si_deviceId ` set ss"
    using assms(2) unfolding sessionsMatch_def by (metis imageE)+
  then show ?thesis using assms(1,2) by (simp add: sessions_wf_def sessions_ok_def distinct_by_snoc)
qed

lemma wf_keep_unmatched: "sessions_wf ms \<Longrightarrow> si_id x \<noteq> [] \<Longrightarrow> sessions_wf (keep_unmatched x ms)"
  by (simp add: keep_unmatched_def wf_snoc)

lemma fold_keep_unmatched:
  "sessions_wf ms \<Longrightarrow> list_all (\<lambda>s. si_id s \<noteq> []) ls \<Longrightarrow> sessions_wf (fold keep_unmatched ls ms)"
  by (induction ls arbitrary: ms) (simp_all add: wf_keep_unmatched)

lemma set_keep_unmatched: "set ms \<subseteq> set (fold keep_unmatched ls ms)"
proof (induction ls arbitrary: ms)
  case (Cons l ls)
  have "set ms \<subseteq> set (keep_unmatched l ms)" by (auto simp: keep_unmatched_def)
  then show ?case using Cons.IH [of "keep_unmatched l ms"] by auto
qed simp

lemma merge_wf: "sessions_wf latest \<Longrightarrow> sessions_wf refreshed \<Longrightarrow> sessions_wf (mergeRefreshedSessions ap latest refreshed)"
proof -
  assume l: "sessions_wf latest" and r: "sessions_wf refreshed"
  have "sessions_wf (map (merge_one ap latest) refreshed)"
    using r by (subst sessions_wf_keys [of _ refreshed]) simp_all
  then show ?thesis using l by (simp add: mergeRefreshedSessions_def fold_keep_unmatched sessions_wf_def [of latest])
qed

lemma merge_has: "r \<in> set refreshed \<Longrightarrow> merge_one ap latest r \<in> set (mergeRefreshedSessions ap latest refreshed)"
  using set_keep_unmatched [of "map (merge_one ap latest) refreshed" latest]
  by (auto simp: mergeRefreshedSessions_def)

section \<open>A refresh keeps the keys\<close>

definition same_identity :: "session_item \<Rightarrow> session_item \<Rightarrow> bool" where
  "same_identity c n = (session_keys n = session_keys c \<and> si_trustState n = si_trustState c)"

lemma identity_refreshed: "same_identity c (refreshed_session dv b tok pm c)"
  by (simp add: same_identity_def refreshed_session_def session_keys_def Let_def)

lemma identity_normalized:
  "same_identity c ex \<Longrightarrow> same_identity c (normalizeSession dv (Some ex) (refreshed_session dv b tok pm c))"
  using identity_refreshed [of c dv b tok pm]
  by (auto simp: same_identity_def normalizeSession_def spread_session_def session_keys_def opt_or_def
      split: prod.split option.split)

lemma refresh_one_identity:
  assumes "list_all2 same_identity ss ns" "\<And>c. c \<in> set ss \<Longrightarrow> si_id c = si_id x \<Longrightarrow> c = x"
  shows "list_all2 same_identity ss (refresh_one dv b tok pm x ns)"
  using assms unfolding refresh_one_def list_all2_map2
proof (induction rule: list_all2_induct)
  case (Cons c cs n ns)
  have "si_id n = si_id c" using Cons.hyps(1) by (simp add: same_identity_def session_keys_def)
  then show ?case
    using Cons identity_normalized [of c n dv b tok pm] by (auto simp: comp_def)
qed simp

lemma refresh_fold_identity:
  assumes "list_all2 same_identity ss ns" "set xs \<subseteq> set ss" "distinct (map si_id ss)"
  shows "list_all2 same_identity ss (fold (refresh_one dv b tok pm) xs ns)"
  using assms(1, 2)
proof (induction xs arbitrary: ns)
  case (Cons x xs)
  have "c = x" if "c \<in> set ss" "si_id c = si_id x" for c
    using that Cons.prems(2) assms(3) by (auto simp: distinct_map dest: inj_onD)
  then show ?case using Cons by (simp add: refresh_one_identity)
qed simp

lemma fail_group_identity:
  "fail_group dv b err ns = Inr rs \<Longrightarrow> list_all2 same_identity ss ns \<Longrightarrow> list_all2 same_identity ss rs"
proof (induction ns arbitrary: ss rs)
  case (Cons n ns)
  then obtain c cs where ss: "ss = c # cs" "same_identity c n" "list_all2 same_identity cs ns" by (cases ss) auto
  from Cons.prems(1) obtain k rest where "fail_group dv b err ns = Inr rest"
    and rs: "rs = (if k = b then sync_failed dv err n else n) # rest"
    by (auto simp: sum_bind_def split: sum.splits)
  then have "list_all2 same_identity cs rest" using Cons.IH ss(3) by blast
  moreover have "same_identity c (if k = b then sync_failed dv err n else n)"
    using ss(2) by (simp add: same_identity_def sync_failed_def session_keys_def)
  ultimately show ?case by (simp add: ss(1) rs)
qed simp

lemma group_sessions_members:
  assumes "group_sessions dv xs acc = Inr gs" "\<And>b l. (b, l) \<in> set acc \<Longrightarrow> set l \<subseteq> A" "set xs \<subseteq> A"
    and "(b, l) \<in> set gs"
  shows "set l \<subseteq> A"
  using assms
proof (induction xs arbitrary: acc)
  case (Cons x xs)
  obtain k where g: "group_sessions dv xs (AList.update k ((case map_of acc k of Some l \<Rightarrow> l | None \<Rightarrow> []) @ [x]) acc) = Inr gs"
    using Cons.prems(1) by (auto simp: sum_bind_Inr)
  show ?case
  proof (rule Cons.IH [OF g])
    fix c m assume "(c, m) \<in> set (AList.update k ((case map_of acc k of Some l \<Rightarrow> l | None \<Rightarrow> []) @ [x]) acc)"
    then have "(c, m) \<in> set acc \<or> m = (case map_of acc k of Some l \<Rightarrow> l | None \<Rightarrow> []) @ [x]"
      using set_update_subset by fastforce
    moreover have "set l \<subseteq> A" if "map_of acc k = Some l" for l
      using that by (intro Cons.prems(2)) (rule map_of_SomeD)
    ultimately show "set m \<subseteq> A"
      using Cons.prems(2) [of c m] Cons.prems(3) by (cases "map_of acc k") auto
  qed (use Cons.prems(3,4) in auto)
qed auto

lemma refresh_groups_identity:
  assumes "refresh_groups dv gs ns w = (Inr r, w')" "list_all2 same_identity ss ns" "distinct (map si_id ss)"
    and "\<And>b l. (b, l) \<in> set gs \<Longrightarrow> set l \<subseteq> set ss"
  shows "list_all2 same_identity ss r"
  using assms
proof (induction gs arbitrary: ns w)
  case Nil
  then show ?case by (simp add: io_return_def)
next
  case (Cons g gs)
  obtain b scoped where g: "g = (b, scoped)" by (cases g)
  from Cons.prems(1) obtain ns' v where
    m: "io_catch (refresh_group dv b scoped ns) (\<lambda>err. io_lift (fail_group dv b err ns)) w = (Inr ns', v)"
    and rest: "refresh_groups dv gs ns' v = (Inr r, w')"
    by (auto simp: g io_bind_Inr)
  have "list_all2 same_identity ss ns'"
  proof (cases "fst (refresh_group dv b scoped ns w)")
    case (Inl err)
    with m have "fail_group dv b err ns = Inr ns'" by (auto simp: io_catch_def io_lift_Inr split: prod.splits)
    then show ?thesis using Cons.prems(2) by (rule fail_group_identity)
  next
    case (Inr x)
    with m have "refresh_group dv b scoped ns w = (Inr ns', v)" by (auto simp: io_catch_def split: prod.splits)
    then obtain tok pm where "ns' = fold (refresh_one dv b tok pm) scoped ns"
      by (auto simp: refresh_group_def io_bind_Inr io_lift_Inr io_return_def Let_def)
    moreover have "set scoped \<subseteq> set ss" using Cons.prems(4) [of b scoped] g by simp
    ultimately show ?thesis using Cons.prems(2,3) by (simp add: refresh_fold_identity)
  qed
  then show ?case
  proof (rule Cons.IH [OF rest _ Cons.prems(3)])
    fix c l assume "(c, l) \<in> set gs"
    then show "set l \<subseteq> set ss" by (intro Cons.prems(4) [of c]) simp
  qed
qed

lemma refresh_identity:
  assumes "refreshSessionsV2 dv ss w = (Inr r, w')" "distinct (map si_id ss)"
  shows "list_all2 same_identity ss r"
proof (cases "ss = []")
  case True
  then show ?thesis using assms by (simp add: refreshSessionsV2_def)
next
  case False
  then obtain gs v where gs: "group_sessions dv ss [] = Inr gs" and r: "refresh_groups dv gs ss w = (Inr r, v)"
    using assms(1) by (auto simp: refreshSessionsV2_def io_bind_Inr io_lift_Inr io_return_def)
  have "list_all2 same_identity ss ss" by (simp add: list_all2_refl same_identity_def)
  then show ?thesis using r assms(2) group_sessions_members [OF gs, of "set ss"]
    by (intro refresh_groups_identity [OF r]) auto
qed

lemma wf_distinct_ids: "sessions_wf ss \<Longrightarrow> distinct (map si_id ss)"
proof -
  assume w: "sessions_wf ss"
  then have "filter (\<lambda>x. x \<noteq> []) (map si_id ss) = map si_id ss"
    by (auto simp: sessions_wf_def list_all_iff filter_id_conv)
  then show ?thesis using w by (simp add: sessions_wf_def sessions_ok_def distinct_by_iff)
qed

lemma refresh_wf: "refreshSessionsV2 dv ss w = (Inr r, w') \<Longrightarrow> sessions_wf ss \<Longrightarrow> sessions_wf r"
proof -
  assume r: "refreshSessionsV2 dv ss w = (Inr r, w')" and w: "sessions_wf ss"
  have "list_all2 same_identity ss r" using r w by (intro refresh_identity wf_distinct_ids)
  then have "map session_keys r = map session_keys ss"
    by (induction rule: list_all2_induct) (simp_all add: same_identity_def)
  then show "sessions_wf r" using w sessions_wf_keys by blast
qed

end
