(* ===== verification/SessionFlow.thy ===== *)
theory SessionFlow
  imports SessionStore
begin

text \<open>
  mobile/src/state/SessionsContext.tsx, second part: everything that awaits. An asynchronous function
  is cut at its awaits; what is still to run is a task, whose number stands for its promise. A step
  answers the await of a task or delivers an event (\<open>flow_step\<close>), so the runs are all interleavings.
  The theorems say to whom messages go, that no call waits for a promise nobody settles, that the
  list stays consistent, that a resynchronisation is complete, and what is lost when an answer is
  based on an old list.
\<close>

section \<open>Tasks\<close>

text \<open>The chat message of \<open>deliverLocalChatMessage\<close> with the session it is sent in.\<close>

record local_chat =
  lc_session :: session_item
  lc_id :: string
  lc_text :: string
  lc_ts :: jsnum
  lc_after :: "string list"
  lc_originSeq :: jsnum

text \<open>
  Sequential code that awaits: the calls that are still to be made, in order. A chat message of the
  log is resent under its own origin (\<open>J_resend\<close>) or as one of the mobile (\<open>J_resync\<close>); the last call
  of \<open>handleDesktopSyncState\<close> is \<open>J_gap\<close>.
\<close>

datatype job =
    J_heartbeats "session_item list" jsnum
  | J_beat string jsnum jsnum
  | J_sync session_item jsnum bool
  | J_probe session_item jsnum
  | J_connect session_item
  | J_resend session_item chat_message bool
  | J_resync session_item chat_message bool
  | J_gap session_item jsnum jsnum bool

text \<open>What awaits a delivery, and the calls that follow it.\<close>

datatype owner_kind =
    Ok_ignore
  | Ok_probe string string string jsnum
  | Ok_sync string jsnum
  | Ok_chat string string

record owner =
  ow_kind :: owner_kind
  ow_rest :: "job list"

datatype 'p delivery_phase =
    Dp_connecting nat
  | Dp_connected "flow_error + bool"
  | Dp_ensuring "'p option"
  | Dp_sending 'p
  | Dp_relaying

record 'p delivery =
  dl_session :: session_item
  dl_message :: app_message
  dl_owner :: owner
  dl_phase :: "'p delivery_phase"

datatype 'p connect_phase =
    Cp_ensuring "'p option"
  | Cp_connecting 'p
  | Cp_polling 'p jsnum
  | Cp_pausing

record 'p connecting =
  cn_bindingId :: string
  cn_sessionId :: string
  cn_target :: session_item
  cn_timeout :: jsnum
  cn_attempts :: nat
  cn_phase :: "'p connect_phase"

datatype refresh_cont = Rc_none | Rc_signal string | Rc_active | Rc_boot

datatype ('p, 's) flow_task =
    Tk_delivery "'p delivery"
  | Tk_settled owner "flow_error + transport"
  | Tk_connect "'p connecting"
  | Tk_wait_connect nat session_item "job list"
  | Tk_connected "flow_error + bool" session_item "job list"
  | Tk_script "job list"
  | Tk_beat string jsnum "job list"
  | Tk_ping_timer string string
  | Tk_refresh "session_item list" refresh_cont
  | Tk_signal_auth string "local_chat option"
  | Tk_signal_open string 's "local_chat list"
  | Tk_signalled local_chat "flow_error + bool"
  | Tk_peer_signal session_item string string jsval "flow_error + 'p option"
  | Tk_peer_handling session_item string
  | Tk_scan string "session_item list"

record ('p, 's) flow =
  fl_store :: "('p, 's) store"
  fl_tasks :: "(nat \<times> ('p, 's) flow_task) list"
  fl_next :: nat
  fl_cancelled :: bool
  fl_loaded :: bool
  fl_appState :: string
  fl_refreshTimer :: bool
  fl_syncTimer :: bool

definition on_store :: "(('p, 's) store \<Rightarrow> ('p, 's) store) \<Rightarrow> ('p, 's) flow \<Rightarrow> ('p, 's) flow" where
  "on_store f fl = fl\<lparr>fl_store := f (fl_store fl)\<rparr>"

definition start :: "('p, 's) flow_task \<Rightarrow> ('p, 's) flow \<Rightarrow> ('p, 's) flow" where
  "start t fl = fl\<lparr>fl_tasks := fl_tasks fl @ [(fl_next fl, t)], fl_next := fl_next fl + 1\<rparr>"

definition replace_task :: "nat \<Rightarrow> ('p, 's) flow_task \<Rightarrow> ('p, 's) flow \<Rightarrow> ('p, 's) flow" where
  "replace_task n t fl = fl\<lparr>fl_tasks := map (\<lambda>(i, u). (i, if i = n then t else u)) (fl_tasks fl)\<rparr>"

definition end_task :: "nat \<Rightarrow> ('p, 's) flow \<Rightarrow> ('p, 's) flow" where
  "end_task n fl = fl\<lparr>fl_tasks := filter (\<lambda>(i, u). i \<noteq> n) (fl_tasks fl)\<rparr>"

definition script :: "job list \<Rightarrow> ('p, 's) flow \<Rightarrow> ('p, 's) flow" where
  "script js fl = (if js = [] then fl else start (Tk_script js) fl)"

definition latest_of :: "('p, 's) flow \<Rightarrow> session_item \<Rightarrow> session_item" where
  "latest_of fl session =
     (case getSessionByIdSnapshot (fl_store fl) (si_id session) of Some s \<Rightarrow> s | None \<Rightarrow> session)"

section \<open>Connecting to a peer\<close>

text \<open>
  \<open>ensureSessionPeer\<close>: the channel that exists when it is called, or one that is made after the login
  and the ICE servers have been fetched; \<open>ensure_result\<close> is what the await yields.
\<close>

definition ensure_start :: "session_item \<Rightarrow> ('p, 's) flow \<Rightarrow> flow_error + 'p option" where
  "ensure_start session fl =
     (if js_trim (si_bindingId session) = [] then Inl No_binding_id
      else Inr (map_of (st_peers (fl_store fl)) (js_trim (si_bindingId session))))"

definition peer_created :: "'n app \<Rightarrow> session_item \<Rightarrow> 'p \<Rightarrow> ('p, 's) store \<Rightarrow> ('p, 's) store" where
  "peer_created ap session p st =
     (let key = js_trim (si_bindingId session) in
      updatePeerState ap key (case si_peerState session of Some s \<Rightarrow> if s = [] then ''idle'' else s | None \<Rightarrow> ''idle'')
        (or_text [] (si_peerDetail session)) (st\<lparr>st_peers := AList.update key p (st_peers st)\<rparr>))"

definition ensure_result ::
  "'n app \<Rightarrow> session_item \<Rightarrow> 'p option \<Rightarrow> flow_error + 'p \<Rightarrow> ('p, 's) flow \<Rightarrow> (flow_error + 'p) \<times> ('p, 's) flow" where
  "ensure_result ap session existing made fl =
     (case existing of
        Some p \<Rightarrow> (Inr p, fl)
      | None \<Rightarrow>
        (case made of
           Inl err \<Rightarrow> (Inl err, fl)
         | Inr p \<Rightarrow>
             if js_trim (si_deviceId session) = [] \<or> opt_trim (si_devicePublicKey session) = []
             then (Inl No_trust_metadata, fl)
             else (Inr p, on_store (peer_created ap session p) fl)))"

text \<open>
  \<open>ensureSessionPeerConnected\<close> returns false at once (None), the promise that is pending for the
  binding, or that of a new task.
\<close>

definition ensureSessionPeerConnected ::
  "session_item \<Rightarrow> jsnum \<Rightarrow> nat \<Rightarrow> ('p, 's) flow \<Rightarrow> nat option \<times> ('p, 's) flow" where
  "ensureSessionPeerConnected session timeoutMs retries fl =
     (let latest = latest_of fl session; b = js_trim (si_bindingId latest) in
      if si_trustState latest \<noteq> Some ''active'' \<or> b = [] then (None, fl)
      else case map_of (st_peerConnecting (fl_store fl)) b of
             Some n \<Rightarrow> (Some n, fl)
           | None \<Rightarrow>
               (Some (fl_next fl),
                on_store (\<lambda>st. st\<lparr>st_peerConnecting := AList.update b (fl_next fl) (st_peerConnecting st)\<rparr>)
                  (start (Tk_connect \<lparr>cn_bindingId = b, cn_sessionId = si_id session, cn_target = latest,
                     cn_timeout = timeoutMs, cn_attempts = retries,
                     cn_phase = Cp_ensuring (map_of (st_peers (fl_store fl)) b)\<rparr>) fl)))"

definition wake :: "nat \<Rightarrow> flow_error + bool \<Rightarrow> ('p, 's) flow_task \<Rightarrow> ('p, 's) flow_task" where
  "wake n r t =
     (case t of
        Tk_delivery d \<Rightarrow> if dl_phase d = Dp_connecting n then Tk_delivery (d\<lparr>dl_phase := Dp_connected r\<rparr>) else t
      | Tk_wait_connect k s js \<Rightarrow> if k = n then Tk_connected r s js else t
      | _ \<Rightarrow> t)"

text \<open>The promise settles: \<open>finally\<close> forgets it, and those that await it go on.\<close>

definition finish_connect :: "nat \<Rightarrow> string \<Rightarrow> flow_error + bool \<Rightarrow> ('p, 's) flow \<Rightarrow> ('p, 's) flow" where
  "finish_connect n b r fl =
     (let fl' = end_task n fl in
      on_store (\<lambda>st. if map_of (st_peerConnecting st) b = Some n
          then st\<lparr>st_peerConnecting := AList.delete b (st_peerConnecting st)\<rparr> else st)
        (fl'\<lparr>fl_tasks := map (\<lambda>(i, u). (i, wake n r u)) (fl_tasks fl')\<rparr>))"

text \<open>
  What an event sees of its surroundings: clock and random source, \<open>isReady()\<close> of the channel and
  whether its state is a negotiating one, \<open>readyState\<close> of the stream.
\<close>

record seen =
  sn_env :: env
  sn_ready :: bool
  sn_negotiating :: bool
  sn_readyState :: nat

text \<open>How the promise of a callee outside this file settles.\<close>

datatype ('p, 's) answer =
    An_error flow_error
  | An_ok
  | An_peer 'p
  | An_sessions "session_item list"
  | An_login string string 's

definition made_by :: "('p, 's) answer \<Rightarrow> flow_error + 'p" where
  "made_by a = (case a of An_peer p \<Rightarrow> Inr p | An_error err \<Rightarrow> Inl err | _ \<Rightarrow> Inl (Error_thrown []))"

definition step_connect ::
  "'n app \<Rightarrow> nat \<Rightarrow> 'p connecting \<Rightarrow> ('p, 's) answer \<Rightarrow> seen \<Rightarrow> ('p, 's) flow \<Rightarrow> ('p, 's) flow" where
  "step_connect ap n c a sn fl =
     (let poll = (\<lambda>p fl. replace_task n (Tk_connect (c\<lparr>cn_phase := Cp_polling p (e_now (sn_env sn))\<rparr>)) fl) in
      case cn_phase c of
        Cp_ensuring existing \<Rightarrow>
          (case ensure_result ap (cn_target c) existing (made_by a) fl of
             (Inl err, fl') \<Rightarrow> finish_connect n (cn_bindingId c) (Inl err) fl'
           | (Inr p, fl') \<Rightarrow>
               if \<not> sn_ready sn \<and> \<not> sn_negotiating sn
               then replace_task n (Tk_connect (c\<lparr>cn_phase := Cp_connecting p\<rparr>)) fl'
               else poll p fl')
      | Cp_connecting p \<Rightarrow>
          (case a of An_error err \<Rightarrow> finish_connect n (cn_bindingId c) (Inl err) fl | _ \<Rightarrow> poll p fl)
      | Cp_polling p startedAt \<Rightarrow>
          if sn_ready sn then finish_connect n (cn_bindingId c) (Inr True) fl
          else if js_less (js_sub (e_now (sn_env sn)) startedAt) (cn_timeout c) then fl
          else if cn_attempts c = 0 then finish_connect n (cn_bindingId c) (Inr False) fl
          else replace_task n (Tk_connect (c\<lparr>cn_attempts := cn_attempts c - 1, cn_phase := Cp_pausing\<rparr>)) fl
      | Cp_pausing \<Rightarrow>
          (let target = (case getSessionByIdSnapshot (fl_store fl) (cn_sessionId c) of Some s \<Rightarrow> s | None \<Rightarrow> cn_target c) in
           case ensure_start target fl of
             Inl err \<Rightarrow> finish_connect n (cn_bindingId c) (Inl err) fl
           | Inr existing \<Rightarrow>
               replace_task n (Tk_connect (c\<lparr>cn_target := target, cn_phase := Cp_ensuring existing\<rparr>)) fl))"

section \<open>Delivering a message\<close>

definition app_out :: "string \<Rightarrow> jsval \<Rightarrow> jsnum \<Rightarrow> app_message" where
  "app_out type payload ts = \<lparr>am_type = type, am_payload = payload, am_ts = ts, am_from = Mobile\<rparr>"

definition shouldAttemptPeer :: "bool \<Rightarrow> bool \<Rightarrow> session_item \<Rightarrow> bool" where
  "shouldAttemptPeer preferRelay forcePeer s =
     (\<not> preferRelay \<and>
      (forcePeer \<or> (opt_trim (si_peerState s) \<noteq> ''failed'' \<and> opt_trim (si_peerState s) \<noteq> ''disconnected'')))"

definition relay_task :: "session_item \<Rightarrow> app_message \<Rightarrow> owner \<Rightarrow> ('p, 's) flow_task" where
  "relay_task latest message own =
     (if \<not> canUseRelayTransport latest then Tk_settled own (Inl No_relay)
      else Tk_delivery \<lparr>dl_session = latest, dl_message = message, dl_owner = own, dl_phase = Dp_relaying\<rparr>)"

definition deliverAppMessage ::
  "session_item \<Rightarrow> app_message \<Rightarrow> bool \<Rightarrow> jsnum \<Rightarrow> bool \<Rightarrow> owner \<Rightarrow> ('p, 's) flow \<Rightarrow> ('p, 's) flow" where
  "deliverAppMessage session message preferRelay peerTimeoutMs forcePeer own fl =
     (let latest = latest_of fl session in
      if shouldAttemptPeer preferRelay forcePeer latest
      then (case ensureSessionPeerConnected latest peerTimeoutMs 0 fl of
              (n, fl') \<Rightarrow>
                start (Tk_delivery \<lparr>dl_session = latest, dl_message = message, dl_owner = own,
                  dl_phase = (case n of Some k \<Rightarrow> Dp_connecting k | None \<Rightarrow> Dp_connected (Inr False))\<rparr>) fl')
      else start (relay_task latest message own) fl)"

definition peer_failed ::
  "'n app \<Rightarrow> nat \<Rightarrow> 'p delivery \<Rightarrow> flow_error \<Rightarrow> ('p, 's) flow \<Rightarrow> ('p, 's) flow" where
  "peer_failed ap n d err fl =
     replace_task n (relay_task (dl_session d) (dl_message d) (dl_owner d))
       (on_store (markPeerFailure ap (dl_session d) err (pv_noPeer (ap_texts ap))) fl)"

definition relayed :: "'n app \<Rightarrow> session_item \<Rightarrow> session_item" where
  "relayed ap s =
     s\<lparr>si_transportReady := Some True, si_linkTransport := Some ''relay'', si_preview := pv_switched (ap_texts ap)\<rparr>"

definition step_delivery ::
  "'n app \<Rightarrow> nat \<Rightarrow> 'p delivery \<Rightarrow> ('p, 's) answer \<Rightarrow> ('p, 's) flow \<Rightarrow> ('p, 's) flow" where
  "step_delivery ap n d a fl =
     (case dl_phase d of
        Dp_connecting k \<Rightarrow> fl
      | Dp_connected (Inl err) \<Rightarrow> peer_failed ap n d err fl
      | Dp_connected (Inr False) \<Rightarrow> replace_task n (relay_task (dl_session d) (dl_message d) (dl_owner d)) fl
      | Dp_connected (Inr True) \<Rightarrow>
          (case ensure_start (dl_session d) fl of
             Inl err \<Rightarrow> peer_failed ap n d err fl
           | Inr existing \<Rightarrow> replace_task n (Tk_delivery (d\<lparr>dl_phase := Dp_ensuring existing\<rparr>)) fl)
      | Dp_ensuring existing \<Rightarrow>
          (case ensure_result ap (dl_session d) existing (made_by a) fl of
             (Inl err, fl') \<Rightarrow> peer_failed ap n d err fl'
           | (Inr p, fl') \<Rightarrow> replace_task n (Tk_delivery (d\<lparr>dl_phase := Dp_sending p\<rparr>)) fl')
      | Dp_sending p \<Rightarrow>
          (case a of An_error err \<Rightarrow> peer_failed ap n d err fl
           | _ \<Rightarrow> replace_task n (Tk_settled (dl_owner d) (Inr Via_p2p)) fl)
      | Dp_relaying \<Rightarrow>
          (case a of An_error err \<Rightarrow> replace_task n (Tk_settled (dl_owner d) (Inl err)) fl
           | _ \<Rightarrow> replace_task n (Tk_settled (dl_owner d) (Inr Via_relay))
                   (on_store (patchSessionById (si_id (dl_session d)) (relayed ap)) fl)))"
section \<open>Sequential calls\<close>

text \<open>Resending a message of the log: \<open>resendKnownMessages\<close> keeps its origin, a resync claims the mobile's.\<close>

definition log_message :: "env \<Rightarrow> chat_origin \<Rightarrow> chat_message \<Rightarrow> app_message" where
  "log_message e origin m =
     app_out openClawPairChatMessageType
       (buildOpenClawPairChatPayload e (msg_text m) (JStr (msg_id m)) (JArr (map JStr (msg_after m)))
          (JStr (origin_name origin)) (JNum (opt_count (msg_originSeq m))))
       (ts_or_now e (msg_ts m))"

definition resend_origin :: "chat_message \<Rightarrow> chat_origin" where
  "resend_origin m = (if msg_origin m = Some Mobile_origin then Mobile_origin else Host_origin)"

definition own_chat :: "chat_message \<Rightarrow> bool" where
  "own_chat m = (msg_kind m \<noteq> Some System \<and> msg_from m = Self)"

definition known_messages :: "session_item \<Rightarrow> string list \<Rightarrow> chat_message list" where
  "known_messages session ids = filter (\<lambda>m. msg_id m \<in> set ids) (filter own_chat (si_messages session))"

definition resendKnownMessages :: "session_item \<Rightarrow> string list \<Rightarrow> bool \<Rightarrow> job list" where
  "resendKnownMessages session ids preferRelay =
     map (\<lambda>m. J_resend session m preferRelay) (known_messages session ids)"

definition described_state :: "'n device \<Rightarrow> chat_message list \<Rightarrow> session_chat_state" where
  "described_state dv ms =
     (case describeSessionChatState (dv_localeCompare dv) ms of
        Some s \<Rightarrow> s | None \<Rightarrow> \<lparr>scs_hostSeq = Fin 0, scs_mobileSeq = Fin 0, scs_leafIds = []\<rparr>)"

definition missing_at_desktop :: "'n device \<Rightarrow> jsnum \<Rightarrow> chat_message list \<Rightarrow> chat_message list" where
  "missing_at_desktop dv mobileSeq ms =
     dv_sort dv (\<lambda>l r. js_diff_sign (opt_number (msg_originSeq l)) (opt_number (msg_originSeq r)))
       (filter (\<lambda>m. js_less (js_count mobileSeq) (js_trunc (opt_number (msg_originSeq m)))) (filter own_chat ms))"

definition handleDesktopSyncState ::
  "'n app \<Rightarrow> session_item \<Rightarrow> chat_sync_state \<Rightarrow> bool \<Rightarrow> ('p, 's) flow \<Rightarrow> job list" where
  "handleDesktopSyncState ap session state preferRelay fl =
     (let current = latest_of fl session; localState = described_state (ap_device ap) (si_messages current) in
      map (\<lambda>m. J_resync current m preferRelay)
        (missing_at_desktop (ap_device ap) (cs_mobileSeq state) (si_messages current)) @
      [J_gap current (js_count (cs_hostSeq state)) (scs_hostSeq localState) preferRelay])"

definition link_probe :: "bool \<Rightarrow> session_item \<Rightarrow> session_item" where
  "link_probe pending s = s\<lparr>si_linkProbePending := Some pending\<rparr>"

definition link_unknown :: "session_item \<Rightarrow> session_item" where
  "link_unknown s = s\<lparr>si_linkProbePending := Some False, si_linkRttMs := Some (Fin 0), si_linkRttAt := Some (Fin 0)\<rparr>"

definition throttled :: "jsnum \<Rightarrow> env \<Rightarrow> (string \<times> jsnum) list \<Rightarrow> string \<Rightarrow> bool" where
  "throttled minIntervalMs e stamps key =
     (js_less (Fin 0) (js_count minIntervalMs) \<and>
      js_less (js_sub (e_now e) (case map_of stamps key of Some n \<Rightarrow> js_or_zero n | None \<Rightarrow> Fin 0)) (js_count minIntervalMs))"

text \<open>The jobs that follow run when the delivery has settled, or in a later microtask.\<close>

definition probeSessionLink ::
  "env \<Rightarrow> session_item \<Rightarrow> jsnum \<Rightarrow> job list \<Rightarrow> ('p, 's) flow \<Rightarrow> ('p, 's) flow" where
  "probeSessionLink e session minIntervalMs rest fl =
     (let latest = latest_of fl session; b = js_trim (si_bindingId latest); pingId = randomId e ''chatping'' in
      if opt_trim (si_trustState latest) \<noteq> ''active'' \<or> b = [] \<or>
         throttled minIntervalMs e (st_lastPing (fl_store fl)) b
      then script rest fl
      else deliverAppMessage latest
             (app_out openClawPairChatPingType
                (buildOpenClawPairChatPingPayload e (JStr pingId) (JNum (e_now e))) (e_now e))
             False (Fin 1200) True
             \<lparr>ow_kind = Ok_probe (si_id latest) b pingId (e_now e), ow_rest = rest\<rparr>
             (on_store (patchSessionById (si_id latest) (link_probe True)) fl))"

definition requestMessageStateSync ::
  "'n app \<Rightarrow> env \<Rightarrow> session_item \<Rightarrow> jsnum \<Rightarrow> bool \<Rightarrow> job list \<Rightarrow> ('p, 's) flow \<Rightarrow> ('p, 's) flow" where
  "requestMessageStateSync ap e session minIntervalMs preferRelay rest fl =
     (let latest = latest_of fl session; b = js_trim (si_bindingId latest) in
      if \<not> canUseRelayTransport latest \<or> b = [] \<or> throttled minIntervalMs e (st_lastSync (fl_store fl)) b
      then script rest fl
      else let state = described_state (ap_device ap) (si_messages latest) in
           deliverAppMessage latest
             (app_out openClawPairChatSyncStateType
                (buildOpenClawPairChatSyncStatePayload (JNum (scs_hostSeq state)) (JNum (scs_mobileSeq state))
                   (JArr (map JStr (scs_leafIds state)))) (e_now e))
             preferRelay (Fin 1200) False \<lparr>ow_kind = Ok_sync b (e_now e), ow_rest = rest\<rparr> fl)"

text \<open>One turn of \<open>heartbeatSessionsPresence\<close>; the stamp \<open>now\<close> is that of its start.\<close>

definition beat :: "string \<Rightarrow> jsnum \<Rightarrow> jsnum \<Rightarrow> job list \<Rightarrow> ('p, 's) flow \<Rightarrow> ('p, 's) flow" where
  "beat url now minIntervalMs rest fl =
     (if url = [] \<or>
         (js_less (Fin 0) minIntervalMs \<and>
          js_less (js_sub now (case map_of (st_lastPresence (fl_store fl)) url of Some n \<Rightarrow> js_or_zero n | None \<Rightarrow> Fin 0)) minIntervalMs)
      then script rest fl
      else start (Tk_beat url now rest) fl)"

definition heartbeatSessionsPresence ::
  "env \<Rightarrow> session_item list \<Rightarrow> jsnum \<Rightarrow> job list \<Rightarrow> ('p, 's) flow \<Rightarrow> ('p, 's) flow" where
  "heartbeatSessionsPresence e targets minIntervalMs rest fl =
     (case uniqueBaseUrls targets of
        [] \<Rightarrow> script rest fl
      | u # us \<Rightarrow> beat u (e_now e) minIntervalMs (map (\<lambda>v. J_beat v (e_now e) minIntervalMs) us @ rest) fl)"

definition syncSessionsWithDesktopState :: "session_item list \<Rightarrow> jsnum \<Rightarrow> job list" where
  "syncSessionsWithDesktopState targets minIntervalMs = map (\<lambda>s. J_sync s minIntervalMs True) targets"

definition resend_one ::
  "env \<Rightarrow> session_item \<Rightarrow> app_message \<Rightarrow> bool \<Rightarrow> job list \<Rightarrow> ('p, 's) flow \<Rightarrow> ('p, 's) flow" where
  "resend_one e session message preferRelay rest =
     deliverAppMessage session message preferRelay (Fin 1200) False \<lparr>ow_kind = Ok_ignore, ow_rest = rest\<rparr>"

definition run_job :: "'n app \<Rightarrow> env \<Rightarrow> job \<Rightarrow> job list \<Rightarrow> ('p, 's) flow \<Rightarrow> ('p, 's) flow" where
  "run_job ap e j rest fl =
     (case j of
        J_heartbeats targets minIntervalMs \<Rightarrow> heartbeatSessionsPresence e targets minIntervalMs rest fl
      | J_beat url now minIntervalMs \<Rightarrow> beat url now minIntervalMs rest fl
      | J_sync s minIntervalMs preferRelay \<Rightarrow> requestMessageStateSync ap e s minIntervalMs preferRelay rest fl
      | J_probe s minIntervalMs \<Rightarrow> probeSessionLink e s minIntervalMs rest fl
      | J_connect s \<Rightarrow>
          (case ensureSessionPeerConnected s (Fin 10000) 0 fl of
             (Some n, fl') \<Rightarrow> start (Tk_wait_connect n s rest) fl'
           | (None, fl') \<Rightarrow> script rest fl')
      | J_resend s m preferRelay \<Rightarrow> resend_one e s (log_message e (resend_origin m) m) preferRelay rest fl
      | J_resync s m preferRelay \<Rightarrow> resend_one e s (log_message e Mobile_origin m) preferRelay rest fl
      | J_gap s hostSeq localHostSeq preferRelay \<Rightarrow>
          if js_less localHostSeq hostSeq
          then requestMessageStateSync ap e s MESSAGE_SYNC_RESUME_THROTTLE_MS preferRelay rest fl
          else script rest fl)"

fun run_jobs :: "'n app \<Rightarrow> env \<Rightarrow> job list \<Rightarrow> ('p, 's) flow \<Rightarrow> ('p, 's) flow" where
  "run_jobs ap e [] fl = fl"
| "run_jobs ap e (j # rest) fl = run_job ap e j rest fl"

text \<open>Calls that are not awaited.\<close>

definition probe_each :: "env \<Rightarrow> session_item list \<Rightarrow> jsnum \<Rightarrow> ('p, 's) flow \<Rightarrow> ('p, 's) flow" where
  "probe_each e ss minIntervalMs = fold (\<lambda>s. probeSessionLink e s minIntervalMs []) ss"

definition respondToLinkPing :: "env \<Rightarrow> session_item \<Rightarrow> chat_ping \<Rightarrow> bool \<Rightarrow> ('p, 's) flow \<Rightarrow> ('p, 's) flow" where
  "respondToLinkPing e session ping preferRelay fl =
     (if js_trim (cp_id ping) = [] then fl
      else resend_one e session
        (app_out openClawPairChatPongType
           (buildOpenClawPairChatPongPayload e (JStr (cp_id ping)) (JNum (cp_sentAt ping)) (JNum (e_now e))) (e_now e))
        preferRelay [] fl)"

definition ids_message ::
  "env \<Rightarrow> string \<Rightarrow> (string list \<Rightarrow> jsval) \<Rightarrow> session_item \<Rightarrow> string list \<Rightarrow> bool \<Rightarrow> ('p, 's) flow \<Rightarrow> ('p, 's) flow" where
  "ids_message e type payload session ids preferRelay fl =
     (if js_uniq_texts ids = [] then fl
      else resend_one e session (app_out type (payload (js_uniq_texts ids)) (e_now e)) preferRelay [] fl)"

definition requestMissingMessages ::
  "env \<Rightarrow> session_item \<Rightarrow> string list \<Rightarrow> bool \<Rightarrow> ('p, 's) flow \<Rightarrow> ('p, 's) flow" where
  "requestMissingMessages e =
     ids_message e openClawPairChatSyncRequestType buildOpenClawPairChatSyncRequestPayload"

definition acknowledgeMessages ::
  "env \<Rightarrow> session_item \<Rightarrow> string list \<Rightarrow> bool \<Rightarrow> ('p, 's) flow \<Rightarrow> ('p, 's) flow" where
  "acknowledgeMessages e = ids_message e openClawPairChatAckType buildOpenClawPairChatAckPayload"

definition sendChannelRevoke :: "env \<Rightarrow> session_item \<Rightarrow> ('p, 's) flow \<Rightarrow> ('p, 's) flow" where
  "sendChannelRevoke e session fl =
     (let latest = latest_of fl session in
      if js_trim (si_deviceId latest) = [] then fl
      else resend_one e latest
        (app_out openClawPairChannelRevokeType
           (buildOpenClawPairChannelRevokePayload e (JStr (si_id latest)) (JStr (si_bindingId latest))
              (JStr (si_pairSessionId latest)) (JStr ''mobile'') (JNum (e_now e))) (e_now e))
        True [] fl)"

section \<open>What a settled delivery does\<close>

definition probe_settled :: "string \<Rightarrow> string \<Rightarrow> string \<Rightarrow> jsnum \<Rightarrow> flow_error + transport \<Rightarrow> ('p, 's) flow \<Rightarrow> ('p, 's) flow" where
  "probe_settled sid b pingId now r fl =
     (case r of
        Inr t \<Rightarrow>
          start (Tk_ping_timer b pingId)
            (on_store (\<lambda>st. patchSessionById sid (\<lambda>s. s\<lparr>si_linkTransport := Some (transport_name t), si_linkProbePending := Some True\<rparr>)
               (st\<lparr>st_pendingPings := AList.update b \<lparr>pp_id = pingId, pp_sentAt = now, pp_transport = t, pp_sessionId = sid\<rparr> (st_pendingPings st),
                  st_lastPing := AList.update b now (st_lastPing st)\<rparr>)) fl)
      | Inl err \<Rightarrow>
          on_store (\<lambda>st. patchSessionById sid link_unknown
            (st\<lparr>st_pendingPings := AList.delete b (st_pendingPings st)\<rparr>)) fl)"

definition chat_settled :: "'n app \<Rightarrow> string \<Rightarrow> string \<Rightarrow> flow_error + transport \<Rightarrow> ('p, 's) store \<Rightarrow> ('p, 's) store" where
  "chat_settled ap sid mid r st =
     (case r of
        Inr t \<Rightarrow> updateMessageDeliveryState sid mid delivery_status.Sent [] (markSessionTransport sid t st)
      | Inl err \<Rightarrow>
          updateMessageDeliveryState sid mid delivery_status.Failed
            (case err of Error_thrown m \<Rightarrow> m | Value_thrown v \<Rightarrow> pv_sendFailed (ap_texts ap) | _ \<Rightarrow> ap_errorText ap err) st)"

definition settle :: "'n app \<Rightarrow> env \<Rightarrow> owner \<Rightarrow> flow_error + transport \<Rightarrow> ('p, 's) flow \<Rightarrow> ('p, 's) flow" where
  "settle ap e own r fl =
     run_jobs ap e (ow_rest own)
       (case ow_kind own of
          Ok_ignore \<Rightarrow> fl
        | Ok_probe sid b pingId now \<Rightarrow> probe_settled sid b pingId now r fl
        | Ok_sync b now \<Rightarrow>
            (case r of Inr t \<Rightarrow> on_store (\<lambda>st. st\<lparr>st_lastSync := AList.update b now (st_lastSync st)\<rparr>) fl | Inl err \<Rightarrow> fl)
        | Ok_chat sid mid \<Rightarrow> on_store (chat_settled ap sid mid r) fl)"

text \<open>The timer of a ping: it only clears the ping it was set for.\<close>

definition ping_timeout :: "string \<Rightarrow> string \<Rightarrow> ('p, 's) store \<Rightarrow> ('p, 's) store" where
  "ping_timeout b pingId st =
     (case map_of (st_pendingPings st) b of
        Some p \<Rightarrow> if pp_id p = pingId
          then patchSessionById (pp_sessionId p) link_unknown (st\<lparr>st_pendingPings := AList.delete b (st_pendingPings st)\<rparr>)
          else st
      | None \<Rightarrow> st)"

section \<open>Sending chat messages\<close>

definition chat_owner :: "local_chat \<Rightarrow> owner" where
  "chat_owner c = \<lparr>ow_kind = Ok_chat (si_id (lc_session c)) (lc_id c), ow_rest = []\<rparr>"

text \<open>
  \<open>deliverLocalChatMessage\<close> up to the connection of the signal stream, and what follows it. What it
  throws reaches the handler of \<open>sendMessage\<close> or \<open>retryMessage\<close> as a settled delivery.
\<close>

definition deliverLocalChatMessage :: "local_chat \<Rightarrow> ('p, 's) flow \<Rightarrow> ('p, 's) flow" where
  "deliverLocalChatMessage c fl =
     (let latest = latest_of fl (lc_session c) in
      if \<not> supportsOpenClawPairChat (si_peerCapabilities latest)
      then start (Tk_settled (chat_owner c) (Inl No_chat)) fl
      else start (Tk_signal_auth (si_serverBaseUrl latest) (Some (c\<lparr>lc_session := latest\<rparr>))) fl)"

definition chat_signalled :: "env \<Rightarrow> local_chat \<Rightarrow> flow_error + bool \<Rightarrow> ('p, 's) flow \<Rightarrow> ('p, 's) flow" where
  "chat_signalled e c r fl =
     (case r of
        Inl err \<Rightarrow> start (Tk_settled (chat_owner c) (Inl err)) fl
      | Inr False \<Rightarrow> start (Tk_settled (chat_owner c) (Inl No_signal)) fl
      | Inr True \<Rightarrow>
          deliverAppMessage (lc_session c)
            (app_out openClawPairChatMessageType
               (buildOpenClawPairChatPayload e (lc_text c) (JStr (lc_id c)) (JArr (map JStr (lc_after c)))
                  (JStr ''mobile'') (JNum (lc_originSeq c))) (lc_ts c))
            False (Fin 3500) False (chat_owner c) fl)"

definition session_leaf_ids :: "'n device \<Rightarrow> chat_message list \<Rightarrow> string list" where
  "session_leaf_ids dv ms = (case collectSessionLeafIds (dv_localeCompare dv) ms of Some ids \<Rightarrow> ids | None \<Rightarrow> [])"

definition send_ts :: "env \<Rightarrow> jsnum option \<Rightarrow> jsnum" where
  "send_ts e ts = js_whole (case ts of Some n \<Rightarrow> ts_or_now e n | None \<Rightarrow> e_now e)"

definition chat_draft :: "'n app \<Rightarrow> env \<Rightarrow> session_item \<Rightarrow> string \<Rightarrow> string \<Rightarrow> jsnum option \<Rightarrow> local_chat" where
  "chat_draft ap e session txt messageId ts =
     \<lparr>lc_session = session,
      lc_id = (if js_trim messageId = [] then createOpenClawPairChatMessageId e (send_ts e ts) else js_trim messageId),
      lc_text = js_trim txt, lc_ts = send_ts e ts, lc_after = session_leaf_ids (ap_device ap) (si_messages session),
      lc_originSeq = nextOriginSeq (si_messages session) Mobile_origin\<rparr>"

definition draft_message :: "local_chat \<Rightarrow> message_draft" where
  "draft_message c =
     \<lparr>md_id = lc_id c, md_from = Self, md_text = lc_text c, md_createdAt = [], md_ts = Some (lc_ts c),
      md_kind = Some Chat, md_originSeq = Some (lc_originSeq c), md_after = lc_after c,
      md_deliveryStatus = Some delivery_status.Sending, md_deliveryError = []\<rparr>"

text \<open>A send is refused, or it starts and its outcome is that of the delivery.\<close>

definition sendMessage ::
  "'n app \<Rightarrow> env \<Rightarrow> string \<Rightarrow> string \<Rightarrow> string \<Rightarrow> jsnum option \<Rightarrow> ('p, 's) flow \<Rightarrow> (flow_error + local_chat) \<times> ('p, 's) flow" where
  "sendMessage ap e sessionId txt messageId ts fl =
     (case getSessionByIdSnapshot (fl_store fl) sessionId of
        None \<Rightarrow> (Inl No_session, fl)
      | Some session \<Rightarrow>
        if js_trim txt = [] then (Inl Empty_text, fl)
        else if opt_trim (si_trustState session) = ''pending'' then (Inl (Pending_trust (si_safetyCode session)), fl)
        else if opt_trim (si_trustState session) = ''revoked'' then (Inl Revoked_trust, fl)
        else let c = chat_draft ap e session txt messageId ts in
             case appendMessageLocal ap e (si_id session) (draft_message c) (fl_store fl) of
               None \<Rightarrow> (Inl Bad_date, fl)
             | Some st \<Rightarrow> (Inr c, deliverLocalChatMessage c (fl\<lparr>fl_store := st\<rparr>)))"

definition find_message :: "string \<Rightarrow> chat_message list \<Rightarrow> chat_message option" where
  "find_message mid ms = (case filter (\<lambda>m. js_trim (msg_id m) = js_trim mid) ms of [] \<Rightarrow> None | m # _ \<Rightarrow> Some m)"

definition retry_chat :: "env \<Rightarrow> session_item \<Rightarrow> chat_message \<Rightarrow> local_chat" where
  "retry_chat e session m =
     \<lparr>lc_session = session, lc_id = msg_id m, lc_text = msg_text m, lc_ts = ts_or_now e (msg_ts m),
      lc_after = msg_after m, lc_originSeq = opt_count (msg_originSeq m)\<rparr>"

definition retryMessage ::
  "env \<Rightarrow> string \<Rightarrow> string \<Rightarrow> ('p, 's) flow \<Rightarrow> (flow_error + unit) \<times> ('p, 's) flow" where
  "retryMessage e sessionId messageId fl =
     (case getSessionByIdSnapshot (fl_store fl) sessionId of
        None \<Rightarrow> (Inl No_session, fl)
      | Some session \<Rightarrow>
        (case find_message messageId (si_messages session) of
           None \<Rightarrow> (Inl Not_resendable, fl)
         | Some m \<Rightarrow>
           if msg_from m \<noteq> Self \<or> msg_kind m = Some System then (Inl Not_resendable, fl)
           else if msg_deliveryStatus m \<noteq> Some delivery_status.Failed then (Inr (), fl)
           else (Inr (), deliverLocalChatMessage (retry_chat e session m)
                  (on_store (updateMessageDeliveryState (si_id session) (msg_id m) delivery_status.Sending []) fl))))"
section \<open>The signal streams\<close>

text \<open>
  \<open>ensureSignalConnected\<close> after the login: an open stream of the same login is kept, a pending one
  is joined, otherwise a new stream replaces the old one.
\<close>

definition signalled :: "local_chat option \<Rightarrow> flow_error + bool \<Rightarrow> ('p, 's) flow \<Rightarrow> ('p, 's) flow" where
  "signalled w r fl = (case w of Some c \<Rightarrow> start (Tk_signalled c r) fl | None \<Rightarrow> fl)"

definition join_opening :: "local_chat option \<Rightarrow> ('p, 's) flow_task \<Rightarrow> ('p, 's) flow_task" where
  "join_opening w t =
     (case t of Tk_signal_open b s ws \<Rightarrow> Tk_signal_open b s (ws @ (case w of Some c \<Rightarrow> [c] | None \<Rightarrow> [])) | _ \<Rightarrow> t)"

definition join_stream :: "nat \<Rightarrow> nat \<Rightarrow> local_chat option \<Rightarrow> ('p, 's) flow \<Rightarrow> ('p, 's) flow" where
  "join_stream n k w fl =
     (let fl' = end_task n fl in
      fl'\<lparr>fl_tasks := map (\<lambda>(i, t). (i, if i = k then join_opening w t else t)) (fl_tasks fl')\<rparr>)"

definition open_stream ::
  "nat \<Rightarrow> local_chat option \<Rightarrow> string \<Rightarrow> string \<Rightarrow> 's \<Rightarrow> ('p, 's) flow \<Rightarrow> ('p, 's) flow" where
  "open_stream n w b token stream fl =
     on_store (\<lambda>st. let st' = closeSignal b st in
         st'\<lparr>st_signals := AList.update b (stream, token) (st_signals st'),
           st_signalConnecting := AList.update b n (st_signalConnecting st')\<rparr>)
       (replace_task n (Tk_signal_open b stream (case w of Some c \<Rightarrow> [c] | None \<Rightarrow> [])) fl)"

definition step_signal_auth ::
  "nat \<Rightarrow> local_chat option \<Rightarrow> ('p, 's) answer \<Rightarrow> seen \<Rightarrow> ('p, 's) flow \<Rightarrow> ('p, 's) flow" where
  "step_signal_auth n w a sn fl =
     (case a of
        An_login baseUrl token stream \<Rightarrow>
          (let b = js_trim baseUrl;
               kept = (case map_of (st_signals (fl_store fl)) b of
                         Some (s, tok) \<Rightarrow> tok = token \<and> sn_readyState sn \<noteq> 2 | None \<Rightarrow> False)
           in if kept then signalled w (Inr (sn_readyState sn \<in> {0, 1})) (end_task n fl)
              else case map_of (st_signalConnecting (fl_store fl)) b of
                     Some k \<Rightarrow> join_stream n k w fl
                   | None \<Rightarrow> open_stream n w b token stream fl)
      | An_error err \<Rightarrow> signalled w (Inl err) (end_task n fl)
      | _ \<Rightarrow> fl)"

text \<open>The promise of a stream settles at most once: the task of the opening is then gone.\<close>

definition finish_signal :: "nat \<Rightarrow> bool \<Rightarrow> ('p, 's) flow \<Rightarrow> ('p, 's) flow" where
  "finish_signal n ok fl =
     (case map_of (fl_tasks fl) n of
        Some (Tk_signal_open b s ws) \<Rightarrow>
          fold (\<lambda>c. start (Tk_signalled c (Inr ok))) ws
            (on_store (\<lambda>st. st\<lparr>st_signalConnecting := AList.delete b (st_signalConnecting st)\<rparr>) (end_task n fl))
      | _ \<Rightarrow> fl)"

text \<open>The opening that a stream belongs to, if it has not settled.\<close>

definition opening_of :: "'s \<Rightarrow> ('p, 's) flow \<Rightarrow> nat option" where
  "opening_of stream fl =
     (case filter (\<lambda>(i, t). case t of Tk_signal_open b s ws \<Rightarrow> s = stream | _ \<Rightarrow> False) (fl_tasks fl) of
        [] \<Rightarrow> None | (i, t) # _ \<Rightarrow> Some i)"

definition finish_stream :: "'s \<Rightarrow> bool \<Rightarrow> ('p, 's) flow \<Rightarrow> ('p, 's) flow" where
  "finish_stream stream ok fl = (case opening_of stream fl of Some n \<Rightarrow> finish_signal n ok fl | None \<Rightarrow> fl)"

section \<open>Refreshing and reconciling\<close>

definition connectReadyPeers :: "'n app \<Rightarrow> env \<Rightarrow> string \<Rightarrow> ('p, 's) flow \<Rightarrow> ('p, 's) flow" where
  "connectReadyPeers ap e targetBaseUrl fl =
     run_jobs ap e (map J_connect (filter (\<lambda>s.
         (targetBaseUrl = [] \<or> si_serverBaseUrl s = targetBaseUrl) \<and> si_trustState s = Some ''active'')
       (st_sessions (fl_store fl)))) fl"

definition close_unused_signals :: "session_item list \<Rightarrow> ('p, 's) store \<Rightarrow> ('p, 's) store" where
  "close_unused_signals nextSessions st =
     fold (\<lambda>b st. if b \<in> set (uniqueBaseUrls nextSessions) then st else closeSignal b st) (map fst (st_signals st)) st"

definition reconcile_store :: "'n app \<Rightarrow> session_item list \<Rightarrow> ('p, 's) store \<Rightarrow> ('p, 's) store" where
  "reconcile_store ap nextSessions st =
     close_unused_signals nextSessions (pruneLinkProbeState nextSessions (prunePresenceHeartbeatTimestamps nextSessions
       (pruneMessageSyncTimestamps nextSessions (closeStalePeers ap nextSessions st))))"

definition reconcileRealtime :: "'n app \<Rightarrow> env \<Rightarrow> session_item list \<Rightarrow> ('p, 's) flow \<Rightarrow> ('p, 's) flow" where
  "reconcileRealtime ap e nextSessions fl =
     connectReadyPeers ap e []
       (fold (\<lambda>b. start (Tk_signal_auth b None)) (uniqueBaseUrls nextSessions)
          (on_store (reconcile_store ap nextSessions) fl))"

definition commitSessions :: "session_item list \<Rightarrow> ('p, 's) flow \<Rightarrow> ('p, 's) flow" where
  "commitSessions ss = on_store (updateSessions (\<lambda>_. ss))"

text \<open>\<open>refreshSessions\<close> up to the await, with what its caller does then.\<close>

definition refreshSessions :: "refresh_cont \<Rightarrow> ('p, 's) flow \<Rightarrow> ('p, 's) flow" where
  "refreshSessions k fl = start (Tk_refresh (st_sessions (fl_store fl)) k) fl"

definition after_refresh :: "'n app \<Rightarrow> env \<Rightarrow> refresh_cont \<Rightarrow> ('p, 's) flow \<Rightarrow> ('p, 's) flow" where
  "after_refresh ap e k fl =
     (let ss = st_sessions (fl_store fl) in
      case k of
        Rc_none \<Rightarrow> fl
      | Rc_signal b \<Rightarrow>
          (let scoped = filter (\<lambda>s. js_trim (si_serverBaseUrl s) = b) ss in
           probe_each e scoped MESSAGE_SYNC_RESUME_THROTTLE_MS
             (run_jobs ap e (syncSessionsWithDesktopState scoped (Fin 0))
                (heartbeatSessionsPresence e scoped MESSAGE_SYNC_RESUME_THROTTLE_MS [] fl)))
      | Rc_active \<Rightarrow>
          probe_each e ss MESSAGE_SYNC_RESUME_THROTTLE_MS
            (run_jobs ap e (syncSessionsWithDesktopState ss MESSAGE_SYNC_RESUME_THROTTLE_MS)
               (heartbeatSessionsPresence e ss MESSAGE_SYNC_RESUME_THROTTLE_MS [] fl))
      | Rc_boot \<Rightarrow>
          run_jobs ap e (J_heartbeats ss (Fin 0) # syncSessionsWithDesktopState ss (Fin 0) @ map (\<lambda>s. J_probe s (Fin 0)) ss) fl)"

definition refresh_done ::
  "'n app \<Rightarrow> env \<Rightarrow> refresh_cont \<Rightarrow> session_item list \<Rightarrow> ('p, 's) flow \<Rightarrow> ('p, 's) flow" where
  "refresh_done ap e k refreshed fl =
     (if k = Rc_boot \<and> fl_cancelled fl then fl
      else let merged = mergeRefreshedSessions ap (st_sessions (fl_store fl)) refreshed in
           after_refresh ap e k (reconcileRealtime ap e merged (commitSessions merged fl)))"

text \<open>\<open>pairByScan\<close> replaces the list by the one that was computed from the list at its start.\<close>

definition scan_done :: "'n app \<Rightarrow> env \<Rightarrow> session_item list \<Rightarrow> ('p, 's) flow \<Rightarrow> ('p, 's) flow" where
  "scan_done ap e ss fl =
     run_jobs ap e (J_heartbeats ss (Fin 0) # map (\<lambda>s. J_probe s (Fin 0)) ss)
       (reconcileRealtime ap e ss (commitSessions ss fl))"

definition removeSession :: "'n app \<Rightarrow> env \<Rightarrow> string \<Rightarrow> ('p, 's) flow \<Rightarrow> ('p, 's) flow" where
  "removeSession ap e sessionId fl =
     on_store (removeSessionLocal sessionId [] [])
       (case getSessionByIdSnapshot (fl_store fl) sessionId of
          None \<Rightarrow> fl
        | Some s \<Rightarrow>
            if si_bindingId s = [] then fl
            else let fl' = on_store (closePeer ap (si_bindingId s) ''session removed'') fl in
                 if opt_trim (si_trustState s) = ''active'' then sendChannelRevoke e s fl' else fl')"

section \<open>Events of the signal stream\<close>

definition session_by :: "string \<Rightarrow> string \<Rightarrow> ('p, 's) flow \<Rightarrow> session_item option" where
  "session_by b d fl = opt_or (getSessionByBindingIdSnapshot (fl_store fl) b) (getSessionByDeviceIdSnapshot (fl_store fl) d)"

definition concerns :: "string \<Rightarrow> string \<Rightarrow> session_item \<Rightarrow> bool" where
  "concerns b d s = (si_bindingId s = b \<or> si_deviceId s = d)"

definition approved :: "'n app \<Rightarrow> jsval \<Rightarrow> session_item \<Rightarrow> session_item" where
  "approved ap payload s =
     s\<lparr>si_trustState := Some (js_to_string (js_or (js_or (js_get payload ''trustState'') (js_get payload ''trust_state'')) (JStr ''active''))),
       si_status := Conn_connected, si_transportReady := Some True, si_preview := pv_approved (ap_texts ap)\<rparr>"

definition revoked :: "'n app \<Rightarrow> session_item \<Rightarrow> session_item" where
  "revoked ap s =
     s\<lparr>si_trustState := Some ''revoked'', si_status := Conn_offline, si_transportReady := Some False,
       si_preview := pv_revoked (ap_texts ap)\<rparr>"

text \<open>
  The message of a \<open>relay.app\<close> event is untyped; the parsers read its type and payload, and the
  time only where they return it, which no branch below uses.
\<close>

definition relay_message :: "jsval \<Rightarrow> app_message" where
  "relay_message v =
     \<lparr>am_type = js_to_string (js_or (js_get v ''type'') (JStr [])), am_payload = js_get v ''payload'',
      am_ts = js_number_or_zero (js_get v ''ts''), am_from = (if js_get v ''from'' = JStr ''desktop'' then Desktop else Mobile)\<rparr>"

definition relay_chat :: "env \<Rightarrow> jsval \<Rightarrow> remote_message" where
  "relay_chat e v =
     (let p = (if js_is_object (js_get v ''payload'') then js_get v ''payload'' else JObj []) in
      \<lparr>rm_id = js_text (js_get p ''id''), rm_text = js_text (js_get p ''text''),
       rm_ts = js_to_number (js_or (js_get v ''ts'') (JNum (e_now e))),
       rm_origin = Some (if js_get p ''origin'' = JStr ''mobile'' then Mobile_origin else Host_origin),
       rm_originSeq = js_count_of (js_get p ''originSeq''),
       rm_after = map (\<lambda>x. js_to_string (js_or x (JStr []))) (js_array (js_get p ''after''))\<rparr>)"

definition on_relay_chat :: "'n app \<Rightarrow> env \<Rightarrow> session_item \<Rightarrow> jsval \<Rightarrow> ('p, 's) flow \<Rightarrow> ('p, 's) flow" where
  "on_relay_chat ap e session v fl =
     (let r = relay_chat e v in
      if rm_text r = [] then fl
      else case upsertRemoteChatMessage ap e (si_id session) r (fl_store fl) of
             None \<Rightarrow> fl
           | Some (newlyMissing, st) \<Rightarrow>
               (let fl' = acknowledgeMessages e session [rm_id r] True (fl\<lparr>fl_store := st\<rparr>) in
                if newlyMissing \<noteq> [] then requestMissingMessages e session newlyMissing True fl' else fl'))"

definition relay_patch :: "'n app \<Rightarrow> session_item \<Rightarrow> session_item \<Rightarrow> session_item" where
  "relay_patch ap session s =
     s\<lparr>si_transportReady := Some True, si_linkTransport := Some ''relay'',
       si_preview := (if si_peerState session = Some ''connected'' then si_preview session else pv_switched (ap_texts ap))\<rparr>"

definition on_relay_app ::
  "'n app \<Rightarrow> env \<Rightarrow> string \<Rightarrow> string \<Rightarrow> jsval \<Rightarrow> ('p, 's) flow \<Rightarrow> ('p, 's) flow" where
  "on_relay_app ap e b d payload fl =
     (case session_by b d fl of
        None \<Rightarrow> refreshSessions Rc_none fl
      | Some session \<Rightarrow>
        (let v = js_get payload ''message''; m = relay_message v;
             fl' = on_store (patchSessionById (si_id session) (relay_patch ap session)) fl
         in if \<not> js_is_object v then fl
            else case parseOpenClawPairChannelRevoke e m of
              Some r \<Rightarrow>
                on_store (\<lambda>st. removeSessionLocal (cr_channelId r) (if cr_bindingId r = [] then b else cr_bindingId r) d
                  (if b = [] then st else closePeer ap b ''channel revoked by desktop'' st)) fl
            | None \<Rightarrow>
            case parseOpenClawPairChatSyncRequest e m of
              Some q \<Rightarrow> run_jobs ap e (resendKnownMessages session (ci_messageIds q) True) fl'
            | None \<Rightarrow>
            if parseOpenClawPairChatAck e m \<noteq> None then fl'
            else case parseOpenClawPairChatPong e m of
              Some pong \<Rightarrow> on_store (applyLinkPong e session (co_id pong) (co_sentAt pong) Via_relay) fl'
            | None \<Rightarrow>
            case parseOpenClawPairChatPing e m of
              Some ping \<Rightarrow> respondToLinkPing e session ping True fl'
            | None \<Rightarrow>
            case parseOpenClawPairChatSyncState e m of
              Some state \<Rightarrow> run_jobs ap e (handleDesktopSyncState ap session state True fl') fl'
            | None \<Rightarrow>
            if js_trim (am_type m) = openClawPairChatMessageType then on_relay_chat ap e session v fl' else fl'))"

definition handleSignalEvent :: "'n app \<Rightarrow> env \<Rightarrow> jsval \<Rightarrow> ('p, 's) flow \<Rightarrow> ('p, 's) flow" where
  "handleSignalEvent ap e envelope fl =
     (let type = js_text (js_get envelope ''type'');
          fromId = js_text (js_get (js_get envelope ''from'') ''id'');
          payload = js_or (js_get envelope ''payload'') (JObj []);
          b = js_text (js_or (js_get payload ''bindingId'') (js_get payload ''binding_id''));
          d = js_text (js_or (js_or (js_get payload ''deviceId'') (js_get payload ''device_id'')) (JStr fromId))
      in if type = ''pair.approved'' then
           (let fl' = refreshSessions Rc_none
                  (on_store (updateSessions (map (\<lambda>s. if concerns b d s then approved ap payload s else s))) fl)
            in case session_by b d fl' of
                 Some target \<Rightarrow> snd (ensureSessionPeerConnected target (Fin 8000) 1 fl')
               | None \<Rightarrow> fl')
         else if type = ''pair.revoked'' then
           on_store (\<lambda>st. updateSessions (map (\<lambda>s. if concerns b d s then revoked ap s else s))
             (if b = [] then st else closePeer ap b ''binding revoked'' st)) fl
         else if type = ''relay.app'' then on_relay_app ap e b d payload fl
         else if type \<in> {''webrtc.offer'', ''webrtc.answer'', ''webrtc.ice''} then
           (case session_by b d fl of
              None \<Rightarrow> refreshSessions Rc_none fl
            | Some session \<Rightarrow> start (Tk_peer_signal session type b payload (ensure_start session fl)) fl)
         else fl)"

text \<open>\<open>ensureSessionPeer(session).then(handleSignal).catch(markPeerFailure)\<close>.\<close>

definition signal_failed :: "'n app \<Rightarrow> nat \<Rightarrow> session_item \<Rightarrow> string \<Rightarrow> flow_error \<Rightarrow> ('p, 's) flow \<Rightarrow> ('p, 's) flow" where
  "signal_failed ap n session type err fl =
     on_store (markPeerFailure ap session err (pv_noSignal (ap_texts ap) type)) (end_task n fl)"

definition step_peer_signal ::
  "'n app \<Rightarrow> nat \<Rightarrow> session_item \<Rightarrow> string \<Rightarrow> string \<Rightarrow> jsval \<Rightarrow> flow_error + 'p option \<Rightarrow> ('p, 's) answer \<Rightarrow>
    ('p, 's) flow \<Rightarrow> ('p, 's) flow" where
  "step_peer_signal ap n session type b payload ensuring a fl =
     (case ensuring of
        Inl err \<Rightarrow> signal_failed ap n session type err fl
      | Inr existing \<Rightarrow>
        (case ensure_result ap session existing (made_by a) fl of
           (Inl err, fl') \<Rightarrow> signal_failed ap n session type err fl'
         | (Inr p, fl') \<Rightarrow>
             on_store (\<lambda>st. st\<lparr>st_effects := st_effects st @
                 [Signalled p type b (js_or (js_get payload ''description'') JUndef) (js_or (js_get payload ''candidate'') JUndef)]\<rparr>)
               (replace_task n (Tk_peer_handling session type) fl')))"
section \<open>Messages of a peer channel\<close>

text \<open>
  The callbacks of the channel that was made for a binding and a desktop. When the formatting of
  the date throws, the promise of the callback rejects and the state is what it was then.
\<close>

definition remote_of_event :: "chat_event \<Rightarrow> remote_message" where
  "remote_of_event chat =
     \<lparr>rm_id = ce_id chat, rm_text = ce_text chat, rm_ts = ce_ts chat, rm_origin = Some (ce_origin chat),
      rm_originSeq = ce_originSeq chat, rm_after = ce_after chat\<rparr>"

definition on_peer_chat :: "'n app \<Rightarrow> env \<Rightarrow> string \<Rightarrow> chat_event \<Rightarrow> ('p, 's) flow \<Rightarrow> ('p, 's) flow" where
  "on_peer_chat ap e key chat fl =
     (case getSessionByBindingIdSnapshot (fl_store fl) key of
        None \<Rightarrow> fl
      | Some current \<Rightarrow>
        (let fl' = on_store (markSessionTransport (si_id current) Via_p2p) fl in
         case upsertRemoteChatMessage ap e (si_id current) (remote_of_event chat) (fl_store fl') of
           None \<Rightarrow> fl'
         | Some (newlyMissing, st) \<Rightarrow>
             (let fl'' = fl'\<lparr>fl_store := st\<rparr>;
                  fl3 = (if newlyMissing \<noteq> [] then requestMissingMessages e current newlyMissing False fl'' else fl'')
              in acknowledgeMessages e current [ce_id chat] False fl3)))"

definition chat_registry :: "'n app \<Rightarrow> env \<Rightarrow> string \<Rightarrow> ('p, 's) flow app_module list" where
  "chat_registry ap e key = [createOpenClawPairChatModule e (\<lambda>chat fl. Inr (on_peer_chat ap e key chat fl))]"

definition on_peer_app_message ::
  "'n app \<Rightarrow> env \<Rightarrow> string \<Rightarrow> string \<Rightarrow> app_message \<Rightarrow> ('p, 's) flow \<Rightarrow> ('p, 's) flow" where
  "on_peer_app_message ap e key trustedPeerId m fl =
     (let with_current = (\<lambda>f. case getSessionByBindingIdSnapshot (fl_store fl) key of None \<Rightarrow> fl | Some s \<Rightarrow> f s) in
      case parseOpenClawPairChannelRevoke e m of
        Some r \<Rightarrow>
          on_store (\<lambda>st. removeSessionLocal (cr_channelId r) (if cr_bindingId r = [] then key else cr_bindingId r) trustedPeerId
            (closePeer ap key ''channel revoked by desktop'' st)) fl
      | None \<Rightarrow>
      if parseOpenClawPairChatAck e m \<noteq> None then fl
      else case parseOpenClawPairChatPong e m of
        Some pong \<Rightarrow> with_current (\<lambda>s. on_store (applyLinkPong e s (co_id pong) (co_sentAt pong) Via_p2p) fl)
      | None \<Rightarrow>
      case parseOpenClawPairChatPing e m of
        Some ping \<Rightarrow> with_current (\<lambda>s. respondToLinkPing e s ping False fl)
      | None \<Rightarrow>
      case parseOpenClawPairChatSyncState e m of
        Some state \<Rightarrow> with_current (\<lambda>s. run_jobs ap e (handleDesktopSyncState ap s state False fl) fl)
      | None \<Rightarrow>
      case parseOpenClawPairChatSyncRequest e m of
        Some q \<Rightarrow> with_current (\<lambda>s. run_jobs ap e (resendKnownMessages s (ci_messageIds q) False) fl)
      | None \<Rightarrow>
      (case registry_dispatch (chat_registry ap e key) m fl of
         Inr (handled, fl') \<Rightarrow> fl' | Inl err \<Rightarrow> fl))"

definition on_peer_state :: "'n app \<Rightarrow> env \<Rightarrow> string \<Rightarrow> string \<Rightarrow> string \<Rightarrow> ('p, 's) flow \<Rightarrow> ('p, 's) flow" where
  "on_peer_state ap e key state detail fl =
     (let fl' = on_store (updatePeerState ap key state detail) fl in
      if state \<noteq> ''connected'' then fl'
      else case getSessionByBindingIdSnapshot (fl_store fl') key of
             Some current \<Rightarrow> probeSessionLink e current (Fin 0) [] fl'
           | None \<Rightarrow> fl')"

definition on_peer_capabilities :: "string \<Rightarrow> pair_capabilities \<Rightarrow> ('p, 's) flow \<Rightarrow> ('p, 's) flow" where
  "on_peer_capabilities key caps =
     on_store (patchSessionByBindingId key (\<lambda>s. s\<lparr>si_peerCapabilities := Some caps\<rparr>))"

section \<open>The lifecycle of the provider\<close>

definition boot :: "session_item list \<Rightarrow> ('p, 's) flow \<Rightarrow> ('p, 's) flow" where
  "boot stored fl =
     (if fl_cancelled fl then fl
      else let fl' = (commitSessions stored fl)\<lparr>fl_loaded := True\<rparr> in
           if stored = [] then fl' else start (Tk_refresh stored Rc_boot) fl')"

definition unmount :: "'n app \<Rightarrow> ('p, 's) flow \<Rightarrow> ('p, 's) flow" where
  "unmount ap fl =
     on_store (\<lambda>st. fold closeSignal (map fst (st_signals st)) st)
       (on_store (\<lambda>st. fold (\<lambda>b. closePeer ap b ''app closed'') (map fst (st_peers st)) st)
          (fl\<lparr>fl_cancelled := True, fl_refreshTimer := False, fl_syncTimer := False\<rparr>))"

text \<open>The effect of a render with the present list; what it does only in development is left out.\<close>

definition rendered :: "'n app \<Rightarrow> env \<Rightarrow> ('p, 's) flow \<Rightarrow> ('p, 's) flow" where
  "rendered ap e fl =
     (let ss = st_sessions (fl_store fl) in
      if \<not> fl_loaded fl then fl
      else reconcileRealtime ap e ss
        (on_store (\<lambda>st. st\<lparr>st_effects := st_effects st @ [Saved_sessions ss]\<rparr>)
           (fl\<lparr>fl_refreshTimer := (ss \<noteq> []), fl_syncTimer := (ss \<noteq> [])\<rparr>)))"

definition app_state_changed :: "string \<Rightarrow> ('p, 's) flow \<Rightarrow> ('p, 's) flow" where
  "app_state_changed nextState fl =
     (let fl' = fl\<lparr>fl_appState := nextState\<rparr> in
      if fl_appState fl \<in> {''inactive'', ''background''} \<and> nextState = ''active'' then refreshSessions Rc_active fl' else fl')"

definition sync_tick :: "'n app \<Rightarrow> env \<Rightarrow> ('p, 's) flow \<Rightarrow> ('p, 's) flow" where
  "sync_tick ap e fl =
     (let ss = st_sessions (fl_store fl) in
      if \<not> fl_syncTimer fl then fl
      else probe_each e ss LINK_PING_INTERVAL_MS
        (run_jobs ap e (syncSessionsWithDesktopState ss MESSAGE_SYNC_INTERVAL_MS)
           (heartbeatSessionsPresence e ss PRESENCE_HEARTBEAT_INTERVAL_MS [] fl)))"

section \<open>Events\<close>

definition step_task ::
  "'n app \<Rightarrow> nat \<Rightarrow> ('p, 's) flow_task \<Rightarrow> ('p, 's) answer \<Rightarrow> seen \<Rightarrow> ('p, 's) flow \<Rightarrow> ('p, 's) flow" where
  "step_task ap n t a sn fl =
     (let e = sn_env sn; gone = end_task n fl in
      case t of
        Tk_delivery d \<Rightarrow> step_delivery ap n d a fl
      | Tk_settled own r \<Rightarrow> settle ap e own r gone
      | Tk_connect c \<Rightarrow> step_connect ap n c a sn fl
      | Tk_wait_connect k s js \<Rightarrow> fl
      | Tk_connected r s js \<Rightarrow>
          run_jobs ap e js
            (case r of Inl err \<Rightarrow> on_store (markPeerFailure ap s err (pv_noPeer (ap_texts ap))) gone | Inr ok \<Rightarrow> gone)
      | Tk_script js \<Rightarrow> run_jobs ap e js gone
      | Tk_beat url now js \<Rightarrow>
          run_jobs ap e js
            (case a of An_error err \<Rightarrow> gone
             | _ \<Rightarrow> on_store (\<lambda>st. st\<lparr>st_lastPresence := AList.update url now (st_lastPresence st)\<rparr>) gone)
      | Tk_ping_timer b pingId \<Rightarrow> on_store (ping_timeout b pingId) gone
      | Tk_refresh requestBase k \<Rightarrow>
          (case a of An_sessions r \<Rightarrow> refresh_done ap e k r gone | An_error err \<Rightarrow> gone | _ \<Rightarrow> fl)
      | Tk_signal_auth url w \<Rightarrow> step_signal_auth n w a sn fl
      | Tk_signal_open b s ws \<Rightarrow> finish_signal n (sn_readyState sn = 1) fl
      | Tk_signalled c r \<Rightarrow> chat_signalled e c r gone
      | Tk_peer_signal s type b payload ensuring \<Rightarrow> step_peer_signal ap n s type b payload ensuring a fl
      | Tk_peer_handling s type \<Rightarrow>
          (case a of An_error err \<Rightarrow> signal_failed ap n s type err fl | _ \<Rightarrow> gone)
      | Tk_scan raw requestBase \<Rightarrow>
          (case a of An_sessions r \<Rightarrow> scan_done ap e r gone | An_error err \<Rightarrow> gone | _ \<Rightarrow> fl))"

text \<open>
  A step answers the await of a task (of a settled promise: lets it go on; of an opening stream: its
  timer fires), or is a call of the user interface, an event of a stream, of a channel or of the
  application, or a tick of a timer.
\<close>

datatype ('p, 's) flow_event =
    Ev_answer nat "('p, 's) answer"
  | Ev_boot "session_item list"
  | Ev_send string string string "jsnum option"
  | Ev_retry string string
  | Ev_remove string
  | Ev_refresh
  | Ev_scan string
  | Ev_stream_open 's
  | Ev_stream_message 's string
  | Ev_stream_error 's
  | Ev_stream_close 's
  | Ev_peer_state string string string
  | Ev_peer_capabilities string pair_capabilities
  | Ev_peer_message string string app_message
  | Ev_app_state string
  | Ev_sync_tick
  | Ev_refresh_tick
  | Ev_rendered
  | Ev_unmount

text \<open>The handlers of a stream are removed when it is closed.\<close>

definition base_of_stream :: "'s \<Rightarrow> ('p, 's) flow \<Rightarrow> string option" where
  "base_of_stream stream fl =
     (case filter (\<lambda>(b, s, tok). s = stream) (st_signals (fl_store fl)) of [] \<Rightarrow> None | (b, _) # _ \<Rightarrow> Some b)"

definition stream_opened :: "'n app \<Rightarrow> env \<Rightarrow> 's \<Rightarrow> ('p, 's) flow \<Rightarrow> ('p, 's) flow" where
  "stream_opened ap e stream fl =
     (case base_of_stream stream fl of
        None \<Rightarrow> fl
      | Some b \<Rightarrow> connectReadyPeers ap e b (refreshSessions (Rc_signal b) (finish_stream stream True fl)))"

definition stream_message :: "'n app \<Rightarrow> env \<Rightarrow> 's \<Rightarrow> string \<Rightarrow> ('p, 's) flow \<Rightarrow> ('p, 's) flow" where
  "stream_message ap e stream txt fl =
     (case (base_of_stream stream fl, json_parse txt) of
        (Some b, Some envelope) \<Rightarrow> handleSignalEvent ap e envelope fl
      | _ \<Rightarrow> fl)"

definition stream_error :: "'s \<Rightarrow> nat \<Rightarrow> ('p, 's) flow \<Rightarrow> ('p, 's) flow" where
  "stream_error stream readyState fl =
     (if base_of_stream stream fl \<noteq> None \<and> readyState = 2 then finish_stream stream False fl else fl)"

definition stream_closed :: "'s \<Rightarrow> ('p, 's) flow \<Rightarrow> ('p, 's) flow" where
  "stream_closed stream fl =
     (case base_of_stream stream fl of
        Some b \<Rightarrow> on_store (\<lambda>st. st\<lparr>st_signals := AList.delete b (st_signals st)\<rparr>) fl
      | None \<Rightarrow> fl)"

definition flow_step :: "'n app \<Rightarrow> seen \<Rightarrow> ('p, 's) flow_event \<Rightarrow> ('p, 's) flow \<Rightarrow> ('p, 's) flow" where
  "flow_step ap sn ev fl =
     (let e = sn_env sn in
      case ev of
        Ev_answer n a \<Rightarrow> (case map_of (fl_tasks fl) n of Some t \<Rightarrow> step_task ap n t a sn fl | None \<Rightarrow> fl)
      | Ev_boot stored \<Rightarrow> boot stored fl
      | Ev_send sid txt mid ts \<Rightarrow> snd (sendMessage ap e sid txt mid ts fl)
      | Ev_retry sid mid \<Rightarrow> snd (retryMessage e sid mid fl)
      | Ev_remove sid \<Rightarrow> removeSession ap e sid fl
      | Ev_refresh \<Rightarrow> refreshSessions Rc_none fl
      | Ev_scan raw \<Rightarrow> start (Tk_scan raw (st_sessions (fl_store fl))) fl
      | Ev_stream_open s \<Rightarrow> stream_opened ap e s fl
      | Ev_stream_message s txt \<Rightarrow> stream_message ap e s txt fl
      | Ev_stream_error s \<Rightarrow> stream_error s (sn_readyState sn) fl
      | Ev_stream_close s \<Rightarrow> stream_closed s fl
      | Ev_peer_state key state detail \<Rightarrow> on_peer_state ap e key state detail fl
      | Ev_peer_capabilities key caps \<Rightarrow> on_peer_capabilities key caps fl
      | Ev_peer_message key d m \<Rightarrow> on_peer_app_message ap e key d m fl
      | Ev_app_state s \<Rightarrow> app_state_changed s fl
      | Ev_sync_tick \<Rightarrow> sync_tick ap e fl
      | Ev_refresh_tick \<Rightarrow> if fl_refreshTimer fl then refreshSessions Rc_none fl else fl
      | Ev_rendered \<Rightarrow> rendered ap e fl
      | Ev_unmount \<Rightarrow> unmount ap fl)"

definition new_store :: "('p, 's) store" where
  "new_store = \<lparr>st_sessions = [], st_signals = [], st_signalConnecting = [], st_peers = [], st_peerConnecting = [],
     st_lastPresence = [], st_lastSync = [], st_lastPing = [], st_pendingPings = [], st_effects = []\<rparr>"

definition new_flow :: "string \<Rightarrow> ('p, 's) flow" where
  "new_flow appState = \<lparr>fl_store = new_store, fl_tasks = [], fl_next = 0, fl_cancelled = False, fl_loaded = False,
     fl_appState = appState, fl_refreshTimer = False, fl_syncTimer = False\<rparr>"

end
