(* ===== verification/SessionRuns.thy ===== *)
theory SessionRuns
  imports SessionFlow
begin

text \<open>
  What every run of the mobile client's session flow keeps: each operation preserves the flow
  invariant (tasks consistent with the promises they wait for, deliveries only on trusted sessions,
  consistent session lists), so it holds in every state reachable by \<open>flow_run\<close>; and what the
  operations leave of the sessions' identities, trust and messages.
\<close>

section \<open>Well-formed states\<close>

text \<open>
  What a task awaits; what holds of every task; and the invariant: numbers are fresh, whoever awaits
  a connection awaits one that a task is working on, and the promise that is pending for a binding is
  that of a task for this binding.
\<close>

definition awaits :: "('p, 's) flow_task \<Rightarrow> nat option" where
  "awaits t =
     (case t of
        Tk_delivery d \<Rightarrow> (case dl_phase d of Dp_connecting n \<Rightarrow> Some n | _ \<Rightarrow> None)
      | Tk_wait_connect n s js \<Rightarrow> Some n
      | _ \<Rightarrow> None)"

definition trusted :: "session_item \<Rightarrow> bool" where
  "trusted s = (si_trustState s = Some ''active'' \<and> js_trim (si_bindingId s) \<noteq> [])"

definition delivery_ok :: "'p delivery \<Rightarrow> bool" where
  "delivery_ok d =
     (case dl_phase d of
        Dp_relaying \<Rightarrow> canUseRelayTransport (dl_session d)
      | Dp_connected (Inl err) \<Rightarrow> True
      | Dp_connected (Inr ready) \<Rightarrow> ready \<longrightarrow> trusted (dl_session d)
      | _ \<Rightarrow> trusted (dl_session d))"

definition task_ok :: "('p, 's) flow_task \<Rightarrow> bool" where
  "task_ok t =
     (case t of
        Tk_delivery d \<Rightarrow> delivery_ok d
      | Tk_refresh requestBase k \<Rightarrow> sessions_wf requestBase
      | Tk_scan raw requestBase \<Rightarrow> sessions_wf requestBase
      | _ \<Rightarrow> True)"

definition live :: "('p, 's) flow \<Rightarrow> nat \<Rightarrow> bool" where
  "live fl n = (\<exists>c. (n, Tk_connect c) \<in> set (fl_tasks fl))"

definition conn_ok :: "('p, 's) flow \<Rightarrow> bool" where
  "conn_ok fl =
     (distinct (map fst (st_peerConnecting (fl_store fl))) \<and>
      (\<forall>(b, n) \<in> set (st_peerConnecting (fl_store fl)). \<exists>c. (n, Tk_connect c) \<in> set (fl_tasks fl) \<and> cn_bindingId c = b))"

definition tasks_ok :: "('p, 's) flow \<Rightarrow> bool" where
  "tasks_ok fl =
     (distinct (map fst (fl_tasks fl)) \<and>
      (\<forall>(i, t) \<in> set (fl_tasks fl). i < fl_next fl \<and> task_ok t \<and> (\<forall>n. awaits t = Some n \<longrightarrow> live fl n)))"

definition flow_inv :: "('p, 's) flow \<Rightarrow> bool" where
  "flow_inv fl = (tasks_ok fl \<and> conn_ok fl \<and> sessions_wf (st_sessions (fl_store fl)))"

named_theorems flow_inv

text \<open>A change of the store that keeps the list consistent and adds no pending promise.\<close>

definition calm :: "('p, 's) store \<Rightarrow> ('p, 's) store \<Rightarrow> bool" where
  "calm st st' =
     ((sessions_wf (st_sessions st) \<longrightarrow> sessions_wf (st_sessions st')) \<and>
      (\<exists>P. st_peerConnecting st' = filter P (st_peerConnecting st)))"

lemma calm_refl [simp]: "calm st st"
  by (auto simp: calm_def intro: exI [of _ "\<lambda>x. True"])

lemma calm_trans: "calm a b \<Longrightarrow> calm b c \<Longrightarrow> calm a c"
  unfolding calm_def by (auto simp: filter_filter)

lemma calm_faces:
  assumes "faces st' = faces st" "st_peerConnecting st' = filter P (st_peerConnecting st)"
  shows "calm st st'"
  using assms sessions_wf_keys [OF faces_keys] unfolding calm_def faces_def by blast

lemma calm_faces_same: "faces st' = faces st \<Longrightarrow> st_peerConnecting st' = st_peerConnecting st \<Longrightarrow> calm st st'"
  using calm_faces [of st' st "\<lambda>x. True"] by simp

lemma calm_fold: "(\<And>x st. calm st (f x st)) \<Longrightarrow> calm st (fold f xs st)"
proof (induction xs arbitrary: st)
  case (Cons x xs)
  then show ?case using calm_trans [OF Cons.prems [of st x]] by simp
qed simp

text \<open>The operations of the store leave the pending promises alone, except for closing a channel.\<close>

lemma connecting_kept [simp]:
  "st_peerConnecting (updateSessions f st) = st_peerConnecting st"
  "st_peerConnecting (patchSessionById i p st) = st_peerConnecting st"
  "st_peerConnecting (patchSessionByBindingId b p st) = st_peerConnecting st"
  "st_peerConnecting (markSessionTransport i t st) = st_peerConnecting st"
  "st_peerConnecting (removeSessionLocal i b d st) = st_peerConnecting st"
  "st_peerConnecting (applyLinkPong e s pid sentAt t st) = st_peerConnecting st"
  "st_peerConnecting (updateMessageDeliveryState sid mid ds err st) = st_peerConnecting st"
  "st_peerConnecting (updatePeerState ap b state detail st) = st_peerConnecting st"
  "st_peerConnecting (markPeerFailure ap s err' fb st) = st_peerConnecting st"
  "st_peerConnecting (closeSignal b st) = st_peerConnecting st"
  "st_peerConnecting (pruneMessageSyncTimestamps ss st) = st_peerConnecting st"
  "st_peerConnecting (prunePresenceHeartbeatTimestamps ss st) = st_peerConnecting st"
  "st_peerConnecting (pruneLinkProbeState ss st) = st_peerConnecting st"
  "st_peerConnecting (chat_settled ap sid mid r st) = st_peerConnecting st"
  "st_peerConnecting (ping_timeout b pid st) = st_peerConnecting st"
  "st_peerConnecting (peer_created ap s p' st) = st_peerConnecting st"
  by (auto simp: updateSessions_def patchSessionById_def patchSessionByBindingId_def markSessionTransport_def
      removeSessionLocal_def applyLinkPong_def updateMessageDeliveryState_def updatePeerState_def markPeerFailure_def
      closeSignal_def pruneMessageSyncTimestamps_def prunePresenceHeartbeatTimestamps_def pruneLinkProbeState_def
      chat_settled_def ping_timeout_def peer_created_def Let_def split: option.splits sum.splits)

lemma connecting_closePeer: "\<exists>P. st_peerConnecting (closePeer ap b detail st) = filter P (st_peerConnecting st)"
proof (cases "js_trim b = []")
  case True
  then show ?thesis by (auto simp: closePeer_def intro: exI [of _ "\<lambda>x. True"])
next
  case False
  then have "st_peerConnecting (closePeer ap b detail st) = AList.delete (js_trim b) (st_peerConnecting st)"
    by (simp add: closePeer_def Let_def forget_peer_def split: option.split)
  then show ?thesis by (auto simp: AList.delete_eq)
qed
lemma calm_closePeer [flow_inv]: "calm st (closePeer ap b detail st)"
  using connecting_closePeer [of ap b detail st] by (auto intro: calm_faces simp: keeps_faces)

lemma calm_closeStalePeers [flow_inv]: "calm st (closeStalePeers ap ss st)"
  unfolding closeStalePeers_def by (rule calm_fold) (simp add: flow_inv)

lemma calm_close_unused [flow_inv]: "calm st (close_unused_signals ss st)"
  unfolding close_unused_signals_def by (rule calm_fold) (simp add: calm_faces_same keeps_faces)

lemma calm_prunes [flow_inv]:
  "calm st (pruneMessageSyncTimestamps ss st)" "calm st (prunePresenceHeartbeatTimestamps ss st)"
  "calm st (pruneLinkProbeState ss st)"
  by (simp_all add: calm_faces_same keeps_faces)

lemma calm_reconcile_store [flow_inv]: "calm st (reconcile_store ap ss st)"
  unfolding reconcile_store_def
  by (rule calm_trans [OF calm_trans [OF calm_trans [OF calm_trans [OF calm_closeStalePeers calm_prunes(1)]
    calm_prunes(2)] calm_prunes(3)] calm_close_unused])

lemma wf_map:
  "sessions_wf (st_sessions st) \<Longrightarrow> (\<And>s. session_keys (f s) = session_keys s) \<Longrightarrow> sessions_wf (map f (st_sessions st))"
  by (subst sessions_wf_keys [of _ "st_sessions st"]) simp_all

lemma calm_map: "(\<And>s. session_keys (f s) = session_keys s) \<Longrightarrow> calm st (updateSessions (map f) st)"
  unfolding calm_def by (auto simp: updateSessions_def wf_map intro: exI [of _ "\<lambda>x. True"])

lemma calm_patch: "(\<And>s. session_keys (f s) = session_keys s) \<Longrightarrow> calm st (patchSessionById i f st)"
  unfolding patchSessionById_def by (rule calm_map) simp

lemma calm_removeSessionLocal [flow_inv]: "calm st (removeSessionLocal i b d st)"
  unfolding calm_def
  by (auto simp: removeSessionLocal_def updateSessions_def sessions_wf_filter intro: exI [of _ "\<lambda>x. True"])

lemma keys_of_face: "face s = face t \<Longrightarrow> session_keys s = session_keys t"
  by (simp add: face_def session_keys_def)

lemma keys_with_upserted [simp]: "session_keys (with_upserted u p s) = session_keys s"
  by (simp add: with_upserted_def session_keys_def)

lemma calm_delivery_state [flow_inv]: "calm st (updateMessageDeliveryState sid mid ds err st)"
  unfolding updateMessageDeliveryState_def Let_def by (auto intro!: calm_patch simp: session_keys_def)

lemma calm_append: "appendMessageLocal ap e sid d st = Some st' \<Longrightarrow> calm st st'"
  unfolding appendMessageLocal_def by (auto intro: calm_patch split: if_splits)

lemma calm_upsert: "upsertRemoteChatMessage ap e sid r st = Some (ids, st') \<Longrightarrow> calm st st'"
  unfolding upsertRemoteChatMessage_def Let_def by (auto intro: calm_patch split: if_splits)

lemma calm_face_ops [flow_inv]:
  "calm st (markSessionTransport i t st)" "calm st (markPeerFailure ap s err fb st)"
  "calm st (updatePeerState ap b state detail st)" "calm st (applyLinkPong e s pid sentAt t st)"
  "calm st (closeSignal b st)" "calm st (peer_created ap s p st)"
  by (simp_all add: calm_faces_same keeps_faces peer_created_def Let_def)

lemma calm_chat_settled [flow_inv]: "calm st (chat_settled ap sid mid r st)"
  unfolding chat_settled_def
  by (auto split: sum.split intro: calm_trans [OF calm_face_ops(1) calm_delivery_state] simp: flow_inv)

lemma calm_ping_timeout [flow_inv]: "calm st (ping_timeout b pid st)"
  unfolding ping_timeout_def
  by (auto split: option.split intro!: calm_faces_same simp: faces_patch link_unknown_def)

lemma calm_update [simp]:
  "calm st (st\<lparr>st_signals := a\<rparr>)" "calm st (st\<lparr>st_signalConnecting := b\<rparr>)" "calm st (st\<lparr>st_peers := c\<rparr>)"
  "calm st (st\<lparr>st_lastPresence := f\<rparr>)" "calm st (st\<lparr>st_lastSync := g\<rparr>)" "calm st (st\<lparr>st_effects := h\<rparr>)"
  by (simp_all add: calm_faces_same)

section \<open>Changing tasks\<close>

lemma task_start [simp]: "fl_tasks (start t fl) = fl_tasks fl @ [(fl_next fl, t)]" "fl_store (start t fl) = fl_store fl"
  "fl_next (start t fl) = Suc (fl_next fl)"
  by (simp_all add: start_def)

lemma task_on_store [simp]: "fl_tasks (on_store f fl) = fl_tasks fl" "fl_store (on_store f fl) = f (fl_store fl)"
  "fl_next (on_store f fl) = fl_next fl"
  by (simp_all add: on_store_def)

lemma store_kept [simp]: "fl_store (replace_task n t fl) = fl_store fl" "fl_store (end_task n fl) = fl_store fl"
  "fl_next (replace_task n t fl) = fl_next fl" "fl_next (end_task n fl) = fl_next fl"
  by (simp_all add: replace_task_def end_task_def)

lemma live_start: "live fl n \<Longrightarrow> live (start t fl) n"
  by (auto simp: live_def)

lemma live_on_store [simp]: "live (on_store f fl) n = live fl n"
  by (simp add: live_def)

lemma inv_tasks:
  assumes "flow_inv fl" "(i, t) \<in> set (fl_tasks fl)"
  shows "i < fl_next fl" "task_ok t" "awaits t = Some n \<Longrightarrow> live fl n"
  using assms unfolding flow_inv_def tasks_ok_def by blast+

lemma tasks_okI:
  assumes "distinct (map fst (fl_tasks fl))" "\<And>i t. (i, t) \<in> set (fl_tasks fl) \<Longrightarrow> i < fl_next fl"
    "\<And>i t. (i, t) \<in> set (fl_tasks fl) \<Longrightarrow> task_ok t" "\<And>i t n. (i, t) \<in> set (fl_tasks fl) \<Longrightarrow> awaits t = Some n \<Longrightarrow> live fl n"
  shows "tasks_ok fl"
  using assms unfolding tasks_ok_def by blast

lemma inv_distinct: "flow_inv fl \<Longrightarrow> distinct (map fst (fl_tasks fl))"
  by (simp add: flow_inv_def tasks_ok_def)

lemma inv_start [intro]:
  assumes "flow_inv fl" "task_ok t" "\<And>n. awaits t = Some n \<Longrightarrow> live fl n"
  shows "flow_inv (start t fl)"
proof -
  have "tasks_ok (start t fl)"
  proof (rule tasks_okI)
    have "fl_next fl \<notin> fst ` set (fl_tasks fl)" using inv_tasks(1) [OF assms(1)] by fastforce
    then show "distinct (map fst (fl_tasks (start t fl)))" using inv_distinct [OF assms(1)] by simp
    fix i u assume m: "(i, u) \<in> set (fl_tasks (start t fl))"
    then show "i < fl_next (start t fl)" "task_ok u"
      using inv_tasks(1,2) [OF assms(1)] assms(2) by (auto intro: less_SucI)
    show "live (start t fl) n" if "awaits u = Some n" for n
      using m that inv_tasks(3) [OF assms(1)] assms(3) by (auto intro!: live_start)
  qed
  moreover have "conn_ok (start t fl)"
    using assms(1) unfolding flow_inv_def conn_ok_def by fastforce
  ultimately show ?thesis using assms(1) by (simp add: flow_inv_def)
qed

lemma inv_store: "flow_inv fl \<Longrightarrow> calm (fl_store fl) (f (fl_store fl)) \<Longrightarrow> flow_inv (on_store f fl)"
  unfolding flow_inv_def calm_def tasks_ok_def conn_ok_def
  by (auto simp: distinct_map_filter split_beta)

lemma inv_store_eq: "flow_inv fl \<Longrightarrow> calm (fl_store fl) st \<Longrightarrow> flow_inv (fl\<lparr>fl_store := st\<rparr>)"
  using inv_store [of fl "\<lambda>_. st"] by (simp add: on_store_def)

lemma inv_task: "flow_inv fl \<Longrightarrow> map_of (fl_tasks fl) n = Some t \<Longrightarrow> task_ok t \<and> (\<forall>k. awaits t = Some k \<longrightarrow> live fl k)"
  unfolding flow_inv_def tasks_ok_def by (auto dest!: map_of_SomeD)

definition is_connect :: "('p, 's) flow_task \<Rightarrow> string option" where
  "is_connect t = (case t of Tk_connect c \<Rightarrow> Some (cn_bindingId c) | _ \<Rightarrow> None)"

lemma is_connect_simps [simp]: "is_connect t = Some b \<longleftrightarrow> (\<exists>c. t = Tk_connect c \<and> cn_bindingId c = b)"
  "is_connect t = None \<longleftrightarrow> (\<forall>c. t \<noteq> Tk_connect c)"
  by (auto simp: is_connect_def split: flow_task.splits)

text \<open>Replacing a task by one of the same kind: both connect to one binding, or neither connects.\<close>

lemma inv_replace:
  assumes inv: "flow_inv fl" and old: "map_of (fl_tasks fl) n = Some t" and kind: "is_connect u = is_connect t"
    and ok: "task_ok u" "\<And>k. awaits u = Some k \<Longrightarrow> live fl k"
  shows "flow_inv (replace_task n u fl)"
proof -
  have d: "distinct (map fst (fl_tasks fl))" using inv by (simp add: flow_inv_def tasks_ok_def)
  have here: "s = t" if "(n, s) \<in> set (fl_tasks fl)" for s using that old d by (simp add: map_of_eq_Some_iff)
  let ?r = "replace_task n u fl"
  have conn: "\<exists>c'. (k, Tk_connect c') \<in> set (fl_tasks ?r) \<and> cn_bindingId c' = cn_bindingId c"
    if "(k, Tk_connect c) \<in> set (fl_tasks fl)" for k c
  proof (cases "k = n")
    case True
    then have "t = Tk_connect c" using here that by blast
    then have "is_connect t = Some (cn_bindingId c)" by simp
    then have "is_connect u = Some (cn_bindingId c)" by (simp only: kind)
    then obtain c' where "u = Tk_connect c'" "cn_bindingId c' = cn_bindingId c" by auto
    then show ?thesis using that True by (force simp: replace_task_def)
  qed (use that in \<open>force simp: replace_task_def\<close>)
  then have liv: "live fl k \<Longrightarrow> live ?r k" for k unfolding live_def by blast
  have "fst \<circ> (\<lambda>(i, t). (i, if i = n then u else t)) = fst" by auto
  then have same: "map fst (fl_tasks ?r) = map fst (fl_tasks fl)" by (simp add: replace_task_def)
  have "tasks_ok ?r"
  proof (rule tasks_okI)
    show "distinct (map fst (fl_tasks ?r))" unfolding same by (rule inv_distinct [OF inv])
  qed (use inv_tasks [OF inv] ok liv in \<open>auto simp: replace_task_def split: if_splits\<close>)
  moreover have "conn_ok ?r" using inv conn unfolding flow_inv_def conn_ok_def by fastforce
  ultimately show ?thesis using inv by (simp add: flow_inv_def)
qed

lemma inv_end:
  assumes inv: "flow_inv fl" and old: "map_of (fl_tasks fl) n = Some t" and kind: "is_connect t = None"
  shows "flow_inv (end_task n fl)"
proof -
  have d: "distinct (map fst (fl_tasks fl))" using inv by (simp add: flow_inv_def tasks_ok_def)
  have here: "s = t" if "(n, s) \<in> set (fl_tasks fl)" for s using that old d by (simp add: map_of_eq_Some_iff)
  have conn: "(k, Tk_connect c) \<in> set (fl_tasks (end_task n fl))" if "(k, Tk_connect c) \<in> set (fl_tasks fl)" for k c
    using that here kind by (auto simp: end_task_def)
  then have liv: "live fl k \<Longrightarrow> live (end_task n fl) k" for k unfolding live_def by blast
  have "tasks_ok (end_task n fl)"
    using inv_distinct [OF inv] inv_tasks [OF inv] liv
    by (intro tasks_okI) (auto simp: end_task_def distinct_map_filter)
  moreover have "conn_ok (end_task n fl)" using inv conn unfolding flow_inv_def conn_ok_def by fastforce
  ultimately show ?thesis using inv by (simp add: flow_inv_def)
qed
section \<open>Every operation keeps the invariant\<close>

lemma find_session_id: "find_session (\<lambda>s. si_id s = i) ss = Some s \<Longrightarrow> si_id s = i"
  by (auto dest: find_session_Some)

lemma latest_of_idem [simp]: "latest_of fl (latest_of fl s) = latest_of fl s"
proof (cases "getSessionByIdSnapshot (fl_store fl) (si_id s)")
  case (Some t)
  then have i: "si_id t = si_id s" unfolding getSessionByIdSnapshot_def by (rule find_session_id)
  have "latest_of fl s = t" unfolding latest_of_def Some by simp
  moreover have "latest_of fl t = t" unfolding latest_of_def i Some by simp
  ultimately show ?thesis by simp
next
  case None
  then have "latest_of fl s = s" unfolding latest_of_def by simp
  then show ?thesis by simp
qed

lemma inv_script: "flow_inv fl \<Longrightarrow> flow_inv (script js fl)"
  by (auto simp: script_def task_ok_def awaits_def)

lemma inv_ensureConnected:
  assumes inv: "flow_inv fl" and e: "ensureSessionPeerConnected s tmo r fl = (res, fl')"
  shows "flow_inv fl' \<and> (\<forall>n. res = Some n \<longrightarrow> live fl' n \<and> trusted (latest_of fl s))"
proof -
  let ?l = "latest_of fl s"
  let ?b = "js_trim (si_bindingId ?l)"
  show ?thesis
  proof (cases "si_trustState ?l \<noteq> Some ''active'' \<or> ?b = []")
    case True
    then show ?thesis using assms by (auto simp: ensureSessionPeerConnected_def Let_def)
  next
    case False
    then have tr: "trusted ?l" by (simp add: trusted_def)
    show ?thesis
    proof (cases "map_of (st_peerConnecting (fl_store fl)) ?b")
      case (Some n)
      then have "live fl n" using inv unfolding flow_inv_def conn_ok_def live_def by (auto dest!: map_of_SomeD)
      moreover have "res = Some n" "fl' = fl" using e False Some by (simp_all add: ensureSessionPeerConnected_def Let_def)
      ultimately show ?thesis using inv tr by simp
    next
      case None
      define c where "c = \<lparr>cn_bindingId = ?b, cn_sessionId = si_id s, cn_target = ?l, cn_timeout = tmo, cn_attempts = r,
        cn_phase = Cp_ensuring (map_of (st_peers (fl_store fl)) ?b)\<rparr>"
      define u where "u = (\<lambda>st :: ('a, 'b) store. st\<lparr>st_peerConnecting := AList.update ?b (fl_next fl) (st_peerConnecting st)\<rparr>)"
      have fl': "fl' = on_store u (start (Tk_connect c) fl)" and res: "res = Some (fl_next fl)"
        using e False None by (simp_all add: ensureSessionPeerConnected_def Let_def c_def u_def)
      have st: "flow_inv (start (Tk_connect c) fl)" using inv by (auto simp: task_ok_def awaits_def)
      have "tasks_ok fl'" using st unfolding fl' flow_inv_def tasks_ok_def by simp
      moreover have "conn_ok fl'"
        unfolding conn_ok_def
      proof (intro conjI ballI)
        show "distinct (map fst (st_peerConnecting (fl_store fl')))"
          using inv by (simp add: fl' u_def flow_inv_def conn_ok_def distinct_update)
        fix p assume "p \<in> set (st_peerConnecting (fl_store fl'))"
        then have "p = (?b, fl_next fl) \<or> p \<in> set (st_peerConnecting (fl_store fl))"
          using set_update_subset by (fastforce simp: fl' u_def)
        then show "case p of (b, n) \<Rightarrow> \<exists>c. (n, Tk_connect c) \<in> set (fl_tasks fl') \<and> cn_bindingId c = b"
          using inv unfolding flow_inv_def conn_ok_def fl' by (fastforce simp: c_def)
      qed
      moreover have "sessions_wf (st_sessions (fl_store fl'))" using inv by (simp add: fl' u_def flow_inv_def)
      ultimately show ?thesis using tr by (auto simp: flow_inv_def res fl' live_def)
    qed
  qed
qed

lemma relay_task_ok [simp]:
  "task_ok (relay_task s m own)" "awaits (relay_task s m own) = None" "is_connect (relay_task s m own) = None"
  by (simp_all add: relay_task_def task_ok_def awaits_def delivery_ok_def)

lemma inv_deliver [flow_inv]:
  assumes "flow_inv fl"
  shows "flow_inv (deliverAppMessage s m pr tmo fp own fl)"
proof (cases "shouldAttemptPeer pr fp (latest_of fl s)")
  case False
  have "flow_inv (start (relay_task (latest_of fl s) m own) fl)" using assms by (rule inv_start) simp_all
  then show ?thesis using False by (simp add: deliverAppMessage_def Let_def)
next
  case True
  obtain n fl' where e: "ensureSessionPeerConnected (latest_of fl s) tmo 0 fl = (n, fl')" by fastforce
  from inv_ensureConnected [OF assms e] have "flow_inv fl'" "\<And>k. n = Some k \<Longrightarrow> live fl' k \<and> trusted (latest_of fl s)" by auto
  then show ?thesis using True e
    by (auto simp: deliverAppMessage_def Let_def task_ok_def delivery_ok_def awaits_def split: option.splits)
qed

lemma inv_patch: "flow_inv fl \<Longrightarrow> (\<And>s. session_keys (f s) = session_keys s) \<Longrightarrow> flow_inv (on_store (patchSessionById i f) fl)"
  by (intro inv_store calm_patch)

lemma inv_probe [flow_inv]: "flow_inv fl \<Longrightarrow> flow_inv (probeSessionLink e s iv rest fl)"
  unfolding probeSessionLink_def Let_def
  by (auto intro!: inv_script inv_deliver inv_patch simp: link_probe_def session_keys_def)

lemma inv_requestSync [flow_inv]: "flow_inv fl \<Longrightarrow> flow_inv (requestMessageStateSync ap e s iv pr rest fl)"
  unfolding requestMessageStateSync_def Let_def by (auto intro!: inv_script inv_deliver)

lemma inv_beat [flow_inv]: "flow_inv fl \<Longrightarrow> flow_inv (beat url now iv rest fl)"
  unfolding beat_def by (auto intro!: inv_script simp: task_ok_def awaits_def)

lemma inv_heartbeats [flow_inv]: "flow_inv fl \<Longrightarrow> flow_inv (heartbeatSessionsPresence e ss iv rest fl)"
  unfolding heartbeatSessionsPresence_def by (auto intro!: inv_script inv_beat split: list.split)

lemma inv_resend [flow_inv]: "flow_inv fl \<Longrightarrow> flow_inv (resend_one e s m pr rest fl)"
  unfolding resend_one_def by (rule inv_deliver)

lemma inv_run_job [flow_inv]: "flow_inv fl \<Longrightarrow> flow_inv (run_job ap e j rest fl)"
proof (cases j)
  case (J_connect s)
  assume inv: "flow_inv fl"
  obtain n fl' where c: "ensureSessionPeerConnected s (Fin 10000) 0 fl = (n, fl')" by fastforce
  show ?thesis using inv_ensureConnected [OF inv c]
    by (auto simp: J_connect run_job_def c task_ok_def awaits_def intro: inv_script split: option.split)
qed (auto simp: run_job_def intro!: inv_script flow_inv)

lemma inv_run_jobs [flow_inv]: "flow_inv fl \<Longrightarrow> flow_inv (run_jobs ap e js fl)"
  by (cases js) (simp_all add: flow_inv)

lemma inv_fold: "flow_inv fl \<Longrightarrow> (\<And>x fl. flow_inv fl \<Longrightarrow> flow_inv (f x fl)) \<Longrightarrow> flow_inv (fold f xs fl)"
  by (induction xs arbitrary: fl) simp_all

lemma inv_probe_each [flow_inv]: "flow_inv fl \<Longrightarrow> flow_inv (probe_each e ss iv fl)"
  unfolding probe_each_def by (rule inv_fold) (simp_all add: flow_inv)

lemma inv_messages [flow_inv]:
  "flow_inv fl \<Longrightarrow> flow_inv (respondToLinkPing e s ping pr fl)"
  "flow_inv fl \<Longrightarrow> flow_inv (ids_message e ty pl s ids pr fl)"
  "flow_inv fl \<Longrightarrow> flow_inv (requestMissingMessages e s ids pr fl)"
  "flow_inv fl \<Longrightarrow> flow_inv (acknowledgeMessages e s ids pr fl)"
  "flow_inv fl \<Longrightarrow> flow_inv (sendChannelRevoke e s fl)"
  by (simp_all add: respondToLinkPing_def ids_message_def requestMissingMessages_def acknowledgeMessages_def
      sendChannelRevoke_def Let_def inv_resend)
lemma ensure_result_frame:
  assumes "ensure_result ap s ex made fl = (r, fl')"
  shows "fl_tasks fl' = fl_tasks fl" "flow_inv fl \<Longrightarrow> flow_inv fl'" "live fl' n = live fl n"
proof -
  have "fl' = fl \<or> (\<exists>p. fl' = on_store (peer_created ap s p) fl)"
    using assms unfolding ensure_result_def by (auto split: option.splits sum.splits if_splits)
  then show "fl_tasks fl' = fl_tasks fl" "flow_inv fl \<Longrightarrow> flow_inv fl'" "live fl' n = live fl n"
    by (auto intro: inv_store simp: flow_inv)
qed

lemma awaits_wake: "awaits (wake n r t) = (if awaits t = Some n then None else awaits t)"
  by (auto simp: wake_def awaits_def split: flow_task.split delivery_phase.split)

lemma wake_ok: "task_ok t \<Longrightarrow> task_ok (wake n r t)"
  by (auto simp: wake_def task_ok_def delivery_ok_def split: flow_task.split sum.split)

lemma wake_connect [simp]: "wake n r t = Tk_connect c \<longleftrightarrow> t = Tk_connect c"
  by (auto simp: wake_def split: flow_task.split)

text \<open>The end of a connection wakes everyone who awaits it.\<close>

lemma inv_finish_connect:
  assumes inv: "flow_inv fl" and old: "map_of (fl_tasks fl) n = Some (Tk_connect c)"
  shows "flow_inv (finish_connect n (cn_bindingId c) r fl)"
proof -
  let ?f = "finish_connect n (cn_bindingId c) r fl"
  let ?pc = "st_peerConnecting (fl_store fl)"
  have tasks: "fl_tasks ?f = map (\<lambda>(i, u). (i, wake n r u)) (filter (\<lambda>(i, u). i \<noteq> n) (fl_tasks fl))"
    by (simp add: finish_connect_def Let_def end_task_def)
  have nx: "fl_next ?f = fl_next fl" and ss: "st_sessions (fl_store ?f) = st_sessions (fl_store fl)"
    by (simp_all add: finish_connect_def Let_def)
  have pc: "st_peerConnecting (fl_store ?f) =
      (if map_of ?pc (cn_bindingId c) = Some n then AList.delete (cn_bindingId c) ?pc else ?pc)"
    by (simp add: finish_connect_def Let_def)
  have d: "distinct (map fst (fl_tasks fl))" by (rule inv_distinct [OF inv])
  have here: "t = Tk_connect c" if "(n, t) \<in> set (fl_tasks fl)" for t using that old d by (simp add: map_of_eq_Some_iff)
  have mem: "(i, u) \<in> set (fl_tasks ?f) \<longleftrightarrow> i \<noteq> n \<and> (\<exists>t. (i, t) \<in> set (fl_tasks fl) \<and> u = wake n r t)" for i u
    unfolding tasks by force
  have keep: "(k, Tk_connect c') \<in> set (fl_tasks ?f)" if "(k, Tk_connect c') \<in> set (fl_tasks fl)" "k \<noteq> n" for k c'
    using that unfolding mem by (metis wake_connect)
  have liv: "live ?f k" if "live fl k" "k \<noteq> n" for k using that keep unfolding live_def by blast
  have "tasks_ok ?f"
  proof (rule tasks_okI)
    have "map fst (fl_tasks ?f) = map fst (filter (\<lambda>(i, u). i \<noteq> n) (fl_tasks fl))"
      by (simp add: tasks split_beta comp_def)
    then show "distinct (map fst (fl_tasks ?f))" using d by (simp add: distinct_map_filter)
    fix i u assume "(i, u) \<in> set (fl_tasks ?f)"
    then obtain t where t: "(i, t) \<in> set (fl_tasks fl)" "u = wake n r t" by (auto simp: mem)
    show "i < fl_next ?f" "task_ok u" using inv_tasks(1,2) [OF inv t(1)] by (simp_all add: nx t(2) wake_ok)
    show "live ?f k" if "awaits u = Some k" for k
      using that inv_tasks(3) [OF inv t(1), of k] liv by (auto simp: t(2) awaits_wake split: if_splits)
  qed
  moreover have "conn_ok ?f"
    unfolding conn_ok_def
  proof (intro conjI ballI)
    have dk: "distinct (map fst ?pc)" using inv by (simp add: flow_inv_def conn_ok_def)
    then show "distinct (map fst (st_peerConnecting (fl_store ?f)))" by (simp add: pc distinct_delete)
    fix p assume p: "p \<in> set (st_peerConnecting (fl_store ?f))"
    obtain b k where bk: "p = (b, k)" by fastforce
    have in_pc: "(b, k) \<in> set ?pc" using p by (auto simp: bk pc AList.delete_eq split: if_splits)
    then obtain c' where c': "(k, Tk_connect c') \<in> set (fl_tasks fl)" "cn_bindingId c' = b"
      using inv unfolding flow_inv_def conn_ok_def by blast
    have "k \<noteq> n"
    proof
      assume k: "k = n"
      then have b: "b = cn_bindingId c" using here c' by blast
      then have "map_of ?pc (cn_bindingId c) = Some n" using in_pc k dk by simp
      then show False using p b by (simp add: pc bk AList.delete_eq)
    qed
    then show "case p of (b, n) \<Rightarrow> \<exists>c. (n, Tk_connect c) \<in> set (fl_tasks ?f) \<and> cn_bindingId c = b"
      using keep c' by (auto simp: bk)
  qed
  ultimately show ?thesis using inv by (simp add: flow_inv_def ss)
qed

lemma inv_step_connect:
  assumes inv: "flow_inv fl" and old: "map_of (fl_tasks fl) n = Some (Tk_connect c)"
  shows "flow_inv (step_connect ap n c a sn fl)"
proof -
  have rep: "flow_inv (replace_task n (Tk_connect c') fl')"
    if "flow_inv fl'" "fl_tasks fl' = fl_tasks fl" "cn_bindingId c' = cn_bindingId c" for c' fl'
    using that old by (intro inv_replace [OF that(1)]) (auto simp: task_ok_def awaits_def is_connect_def)
  have fin: "flow_inv (finish_connect n (cn_bindingId c) r fl')" if "flow_inv fl'" "fl_tasks fl' = fl_tasks fl" for r fl'
    using that old by (intro inv_finish_connect) simp_all
  show ?thesis
  proof (cases "cn_phase c")
    case (Cp_ensuring ex)
    obtain r fl' where e: "ensure_result ap (cn_target c) ex (made_by a) fl = (r, fl')" by fastforce
    note frame = ensure_result_frame(1) [OF e] ensure_result_frame(2) [OF e inv]
    show ?thesis using frame
      by (auto simp: step_connect_def Cp_ensuring e Let_def intro!: rep fin split: sum.split)
  next
    case Cp_pausing
    show ?thesis using inv
      by (auto simp: step_connect_def Cp_pausing Let_def intro!: rep fin split: sum.split)
  qed (use inv in \<open>auto simp: step_connect_def Let_def intro!: rep fin split: answer.split\<close>)
qed

lemma inv_step_delivery:
  assumes inv: "flow_inv fl" and old: "map_of (fl_tasks fl) n = Some (Tk_delivery d)"
  shows "flow_inv (step_delivery ap n d a fl)"
proof -
  have ok: "delivery_ok d" using inv_task [OF inv old] by (simp add: task_ok_def)
  have rep: "flow_inv (replace_task n u fl')"
    if "flow_inv fl'" "fl_tasks fl' = fl_tasks fl" "task_ok u" "awaits u = None" "is_connect u = None" for u fl'
    using that old by (intro inv_replace [OF that(1)]) (auto simp: is_connect_def)
  have fail: "flow_inv (peer_failed ap n d err fl')" if "flow_inv fl'" "fl_tasks fl' = fl_tasks fl" for err fl'
    using that unfolding peer_failed_def by (intro rep inv_store) (simp_all add: flow_inv)
  have patch: "flow_inv (on_store (patchSessionById i (relayed ap)) fl)" for i
    using inv by (rule inv_patch) (simp add: relayed_def session_keys_def)
  note simps = step_delivery_def delivery_ok_def task_ok_def awaits_def is_connect_def
  show ?thesis
  proof (cases "dl_phase d")
    case (Dp_ensuring ex)
    obtain r fl' where e: "ensure_result ap (dl_session d) ex (made_by a) fl = (r, fl')" by fastforce
    note frame = ensure_result_frame(1) [OF e] ensure_result_frame(2) [OF e inv]
    show ?thesis using frame ok
      by (auto simp: simps Dp_ensuring e intro!: rep fail split: sum.split)
  next
    case (Dp_connected r)
    show ?thesis using inv ok
      by (cases r) (auto simp: simps Dp_connected intro!: rep [OF _ _ relay_task_ok] rep fail split: sum.split bool.split)
  next
    case Dp_relaying
    show ?thesis using inv patch
      by (auto simp: simps Dp_relaying intro!: rep split: answer.split)
  qed (use inv in \<open>auto simp: simps intro!: rep fail split: answer.split\<close>)
qed
lemma inv_signalled [flow_inv]: "flow_inv fl \<Longrightarrow> flow_inv (signalled w r fl)"
  by (auto simp: signalled_def task_ok_def awaits_def split: option.split)

lemma inv_settle:
  assumes "flow_inv fl" shows "flow_inv (settle ap e own r fl)"
proof -
  have up: "session_keys (s\<lparr>si_linkTransport := x, si_linkProbePending := y\<rparr>) = session_keys s"
    "session_keys (link_unknown s) = session_keys s" for s x y
    by (simp_all add: session_keys_def link_unknown_def)
  have st: "calm st (st\<lparr>st_pendingPings := a, st_lastPing := b\<rparr>)" "calm st (st\<lparr>st_pendingPings := a\<rparr>)" for st a b
    by (simp_all add: calm_faces_same)
  have "flow_inv (probe_settled sid b pid now r fl)" for sid b pid now
    using assms unfolding probe_settled_def
    by (auto split: sum.split simp: task_ok_def awaits_def up intro!: inv_store calm_trans [OF st(1) calm_patch] calm_trans [OF st(2) calm_patch])
  then show ?thesis
    using assms unfolding settle_def
    by (auto split: owner_kind.split sum.split intro!: inv_run_jobs inv_store simp: flow_inv)
qed

lemma inv_deliverLocal [flow_inv]: "flow_inv fl \<Longrightarrow> flow_inv (deliverLocalChatMessage c fl)"
  by (auto simp: deliverLocalChatMessage_def Let_def task_ok_def awaits_def)

lemma inv_chat_signalled [flow_inv]: "flow_inv fl \<Longrightarrow> flow_inv (chat_signalled e c r fl)"
  by (auto simp: chat_signalled_def task_ok_def awaits_def split: sum.split bool.split intro!: inv_deliver)

lemma inv_send [flow_inv]: "flow_inv fl \<Longrightarrow> flow_inv (snd (sendMessage ap e sid txt mid ts fl))"
  by (auto simp: sendMessage_def Let_def split: option.split intro!: inv_deliverLocal inv_store_eq calm_append)

lemma inv_retry [flow_inv]: "flow_inv fl \<Longrightarrow> flow_inv (snd (retryMessage e sid mid fl))"
  by (auto simp: retryMessage_def split: option.split intro!: inv_deliverLocal inv_store simp: flow_inv)

lemma conn_ok_mono:
  assumes "conn_ok fl" "st_peerConnecting (fl_store fl') = st_peerConnecting (fl_store fl)"
    "\<And>j c. (j, Tk_connect c) \<in> set (fl_tasks fl) \<Longrightarrow> (j, Tk_connect c) \<in> set (fl_tasks fl')"
  shows "conn_ok fl'"
  using assms(1) assms(3) unfolding conn_ok_def assms(2) by blast

lemma inv_map_waiters:
  assumes inv: "flow_inv fl" and f: "\<And>t. task_ok t \<Longrightarrow> task_ok (f t)" "\<And>t. awaits (f t) = awaits t" "\<And>t c. f t = Tk_connect c \<longleftrightarrow> t = Tk_connect c"
  shows "flow_inv (fl\<lparr>fl_tasks := map (\<lambda>(i, t). (i, if i = k then f t else t)) (fl_tasks fl)\<rparr>)"
proof -
  let ?r = "fl\<lparr>fl_tasks := map (\<lambda>(i, t). (i, if i = k then f t else t)) (fl_tasks fl)\<rparr>"
  have conn: "(j, Tk_connect c) \<in> set (fl_tasks ?r)" if "(j, Tk_connect c) \<in> set (fl_tasks fl)" for j c
    using that f(3) [of "Tk_connect c" c] by force
  then have liv: "live fl n \<Longrightarrow> live ?r n" for n unfolding live_def by blast
  have "fst \<circ> (\<lambda>(i, t). (i, if i = k then f t else t)) = fst" by auto
  then have same: "map fst (fl_tasks ?r) = map fst (fl_tasks fl)" by simp
  have "tasks_ok ?r"
  proof (rule tasks_okI)
    show "distinct (map fst (fl_tasks ?r))" unfolding same by (rule inv_distinct [OF inv])
  qed (use inv_tasks [OF inv] f liv in \<open>auto split: if_splits\<close>)
  moreover have "conn_ok ?r" using inv conn by (intro conn_ok_mono [of fl ?r]) (simp_all add: flow_inv_def)
  ultimately show ?thesis using inv by (simp add: flow_inv_def)
qed

lemma join_opening_simps [simp]: "task_ok (join_opening w t) = task_ok t" "awaits (join_opening w t) = awaits t"
  "join_opening w t = Tk_connect c \<longleftrightarrow> t = Tk_connect c"
  by (auto simp: join_opening_def task_ok_def awaits_def split: flow_task.split)

lemma inv_step_signal_auth:
  assumes inv: "flow_inv fl" and old: "map_of (fl_tasks fl) n = Some (Tk_signal_auth url w)"
  shows "flow_inv (step_signal_auth n w a sn fl)"
proof -
  have gone: "flow_inv (end_task n fl)" using inv old by (rule inv_end) (simp add: is_connect_def)
  have join: "flow_inv (join_stream n k w fl)" for k
    unfolding join_stream_def Let_def using gone by (rule inv_map_waiters) simp_all
  have calm: "calm st (let st' = closeSignal b st in st'\<lparr>st_signals := x st', st_signalConnecting := y st'\<rparr>)" for st b and x y :: "('a, 'b) store \<Rightarrow> _"
    by (simp add: Let_def calm_faces_same keeps_faces)
  have op: "flow_inv (open_stream n w b tok s fl)" for b tok s
    unfolding open_stream_def
    by (intro inv_store calm inv_replace [OF inv old]) (simp_all add: is_connect_def task_ok_def awaits_def)
  show ?thesis using gone inv join op
    by (simp add: step_signal_auth_def Let_def inv_signalled split: answer.split option.split prod.split)
qed

lemma inv_finish_signal [flow_inv]: "flow_inv fl \<Longrightarrow> flow_inv (finish_signal n ok fl)"
proof (cases "map_of (fl_tasks fl) n")
  case (Some t)
  assume inv: "flow_inv fl"
  show ?thesis
  proof (cases t)
    case (Tk_signal_open b s ws)
    have "flow_inv (end_task n fl)" using inv Some by (rule inv_end) (simp add: Tk_signal_open is_connect_def)
    then show ?thesis
      by (auto simp: finish_signal_def Some Tk_signal_open task_ok_def awaits_def intro!: inv_fold inv_store)
  qed (simp_all add: finish_signal_def Some inv)
qed (simp add: finish_signal_def)

lemma inv_finish_stream [flow_inv]: "flow_inv fl \<Longrightarrow> flow_inv (finish_stream s ok fl)"
  by (simp add: finish_stream_def inv_finish_signal split: option.split)

lemma inv_connectReady [flow_inv]: "flow_inv fl \<Longrightarrow> flow_inv (connectReadyPeers ap e b fl)"
  by (simp add: connectReadyPeers_def inv_run_jobs)

lemma inv_reconcile [flow_inv]: "flow_inv fl \<Longrightarrow> flow_inv (reconcileRealtime ap e ss fl)"
  unfolding reconcileRealtime_def
  by (auto intro!: inv_connectReady inv_fold inv_store simp: flow_inv task_ok_def awaits_def)

lemma inv_refresh [flow_inv]: "flow_inv fl \<Longrightarrow> flow_inv (refreshSessions k fl)"
  unfolding refreshSessions_def by (auto simp: task_ok_def awaits_def flow_inv_def [of fl])

lemma inv_after_refresh [flow_inv]: "flow_inv fl \<Longrightarrow> flow_inv (after_refresh ap e k fl)"
  unfolding after_refresh_def Let_def
  by (cases k) (simp_all add: inv_probe_each inv_run_jobs inv_run_job inv_heartbeats)

lemma inv_commit: "flow_inv fl \<Longrightarrow> sessions_wf ss \<Longrightarrow> flow_inv (commitSessions ss fl)"
  unfolding commitSessions_def
  by (intro inv_store) (auto simp: calm_def updateSessions_def intro: exI [of _ "\<lambda>x. True"])

lemma inv_refresh_done: "flow_inv fl \<Longrightarrow> sessions_wf r \<Longrightarrow> flow_inv (refresh_done ap e k r fl)"
  unfolding refresh_done_def Let_def
  by (auto intro!: inv_after_refresh inv_reconcile inv_commit merge_wf simp: flow_inv_def [of fl])

lemma inv_scan_done: "flow_inv fl \<Longrightarrow> sessions_wf r \<Longrightarrow> flow_inv (scan_done ap e r fl)"
  unfolding scan_done_def by (intro inv_run_jobs inv_reconcile inv_commit)

lemma inv_remove [flow_inv]: "flow_inv fl \<Longrightarrow> flow_inv (removeSession ap e sid fl)"
  unfolding removeSession_def Let_def
  by (auto intro!: inv_store inv_messages simp: flow_inv split: option.split)

lemma session_keys_updates [simp]:
  "session_keys (approved ap pl s) = session_keys s" "session_keys (revoked ap s) = session_keys s"
  "session_keys (relay_patch ap t s) = session_keys s" "session_keys (s\<lparr>si_peerCapabilities := c\<rparr>) = session_keys s"
  by (simp_all add: approved_def revoked_def relay_patch_def session_keys_def)

lemma inv_update: "flow_inv fl \<Longrightarrow> (\<And>s. session_keys (f s) = session_keys s) \<Longrightarrow> flow_inv (on_store (updateSessions (map f)) fl)"
  by (intro inv_store calm_map)

lemma inv_on_relay_chat [flow_inv]: "flow_inv fl \<Longrightarrow> flow_inv (on_relay_chat ap e s v fl)"
  unfolding on_relay_chat_def Let_def
  by (auto intro!: inv_messages inv_store_eq dest: calm_upsert split: option.split)

lemma inv_relay_app [flow_inv]:
  assumes inv: "flow_inv fl" shows "flow_inv (on_relay_app ap e b d pl fl)"
proof -
  have p: "flow_inv (on_store (patchSessionById i (relay_patch ap s)) fl)" for i s
    using inv by (rule inv_patch) simp
  have c: "calm st (removeSessionLocal i k d (if b = [] then st else closePeer ap b det st))" for i k det st
    by (simp add: flow_inv calm_trans [OF calm_closePeer calm_removeSessionLocal])
  show ?thesis unfolding on_relay_app_def Let_def
    by (auto intro!: inv_store inv_messages inv_run_jobs inv_on_relay_chat p c inv inv_refresh simp: flow_inv split: option.split)
qed

lemma inv_signal_event [flow_inv]:
  assumes inv: "flow_inv fl" shows "flow_inv (handleSignalEvent ap e env fl)"
proof -
  have a: "flow_inv (on_store (updateSessions (map (\<lambda>s. if concerns b d s then approved ap pl s else s))) fl)" for b d pl
    using inv by (rule inv_update) simp
  have r: "calm st (updateSessions (map (\<lambda>s. if concerns b d s then revoked ap s else s)) st)" for b d and st :: "('a, 'b) store"
    by (rule calm_map) simp
  have rc: "calm st (updateSessions (map (\<lambda>s. if concerns b d s then revoked ap s else s)) (if b = [] then st else closePeer ap b det st))"
    for b d det and st :: "('a, 'b) store"
    by (simp add: r calm_trans [OF calm_closePeer r])
  have e: "flow_inv fl' \<Longrightarrow> flow_inv (snd (ensureSessionPeerConnected s t n fl'))" for s t n and fl' :: "('a, 'b) flow"
    using inv_ensureConnected by (metis prod.collapse)
  show ?thesis unfolding handleSignalEvent_def Let_def
    by (auto intro!: e a inv_refresh inv_store rc inv_relay_app inv_start inv simp: task_ok_def awaits_def split: option.split)
qed
lemma inv_peer_chat [flow_inv]: "flow_inv fl \<Longrightarrow> flow_inv (on_peer_chat ap e key chat fl)"
  unfolding on_peer_chat_def Let_def
  by (auto intro!: inv_messages inv_store_eq inv_store dest: calm_upsert simp: flow_inv intro: calm_trans split: option.split)

lemma dispatch_chat:
  "registry_dispatch (chat_registry ap e key) m fl = Inr (h, fl') \<Longrightarrow>
    fl' = fl \<or> (\<exists>chat. fl' = on_peer_chat ap e key chat fl)"
  by (auto simp: registry_dispatch_def chat_registry_def createOpenClawPairChatModule_def split: if_splits option.splits)

lemma inv_dispatch: "registry_dispatch (chat_registry ap e key) m fl = Inr (h, fl') \<Longrightarrow> flow_inv fl \<Longrightarrow> flow_inv fl'"
  using dispatch_chat inv_peer_chat by metis

lemma inv_peer_message [flow_inv]:
  assumes inv: "flow_inv fl" shows "flow_inv (on_peer_app_message ap e key d m fl)"
  unfolding on_peer_app_message_def Let_def
  by (auto intro!: inv_store inv_messages inv_run_jobs inv calm_trans [OF calm_closePeer calm_removeSessionLocal]
      dest: inv_dispatch [OF _ inv] simp: flow_inv split: option.split sum.split)

lemma inv_peer_state [flow_inv]: "flow_inv fl \<Longrightarrow> flow_inv (on_peer_state ap e key st det fl)"
  unfolding on_peer_state_def Let_def by (auto intro!: inv_probe inv_store simp: flow_inv split: option.split)

lemma inv_capabilities [flow_inv]: "flow_inv fl \<Longrightarrow> flow_inv (on_peer_capabilities key caps fl)"
  unfolding on_peer_capabilities_def
  by (intro inv_store) (auto simp: patchSessionByBindingId_def intro!: calm_map)

lemma inv_flags [simp]:
  "flow_inv (fl\<lparr>fl_loaded := a\<rparr>) = flow_inv fl" "flow_inv (fl\<lparr>fl_appState := b\<rparr>) = flow_inv fl"
  "flow_inv (fl\<lparr>fl_refreshTimer := c\<rparr>) = flow_inv fl" "flow_inv (fl\<lparr>fl_syncTimer := d\<rparr>) = flow_inv fl"
  "flow_inv (fl\<lparr>fl_cancelled := x\<rparr>) = flow_inv fl"
  by (simp_all add: flow_inv_def tasks_ok_def conn_ok_def live_def)

lemma inv_boot: "flow_inv fl \<Longrightarrow> sessions_wf ss \<Longrightarrow> flow_inv (boot ss fl)"
  unfolding boot_def Let_def by (auto intro!: inv_start simp: inv_commit task_ok_def awaits_def)

lemma inv_unmount [flow_inv]: "flow_inv fl \<Longrightarrow> flow_inv (unmount ap fl)"
  unfolding unmount_def by (intro inv_store calm_fold) (simp_all add: flow_inv)

lemma inv_rendered [flow_inv]: "flow_inv fl \<Longrightarrow> flow_inv (rendered ap e fl)"
  unfolding rendered_def Let_def by (auto intro!: inv_reconcile inv_store)

lemma inv_app_state [flow_inv]: "flow_inv fl \<Longrightarrow> flow_inv (app_state_changed s fl)"
  unfolding app_state_changed_def Let_def by (auto intro!: inv_refresh)

lemma inv_sync_tick [flow_inv]: "flow_inv fl \<Longrightarrow> flow_inv (sync_tick ap e fl)"
  unfolding sync_tick_def Let_def by (simp add: inv_probe_each inv_run_jobs inv_heartbeats)

lemma inv_streams [flow_inv]:
  "flow_inv fl \<Longrightarrow> flow_inv (stream_opened ap e s fl)"
  "flow_inv fl \<Longrightarrow> flow_inv (stream_message ap e s txt fl)"
  "flow_inv fl \<Longrightarrow> flow_inv (stream_error s n fl)"
  "flow_inv fl \<Longrightarrow> flow_inv (stream_closed s fl)"
  by (auto simp: stream_opened_def stream_message_def stream_error_def stream_closed_def split: option.split
      intro!: inv_connectReady inv_refresh inv_finish_stream inv_signal_event inv_store)

section \<open>Runs\<close>

text \<open>
  What is known of the answers: a refresh answers with a result of \<open>refreshSessionsV2\<close> on the list it
  was asked for, a scan with one on that list with the claimed binding entered, and the stored list is
  consistent.
\<close>

definition scan_answer :: "'n app \<Rightarrow> session_item list \<Rightarrow> session_item list \<Rightarrow> bool" where
  "scan_answer ap requestBase r =
     (\<exists>e binding B D bo w w'. claim_ok e binding B D requestBase \<and> bo_existing bo = session_of binding requestBase \<and>
        bo_binding bo = binding \<and>
        refreshSessionsV2 (ap_device ap) (upsertSessions (ap_device ap) requestBase (buildSessionFromBinding (ap_device ap) e bo)) w =
          (Inr r, w'))"

definition answer_ok :: "'n app \<Rightarrow> ('p, 's) flow_task \<Rightarrow> ('p, 's) answer \<Rightarrow> bool" where
  "answer_ok ap t a =
     (case (t, a) of
        (Tk_refresh requestBase k, An_sessions r) \<Rightarrow> \<exists>w w'. refreshSessionsV2 (ap_device ap) requestBase w = (Inr r, w')
      | (Tk_scan raw requestBase, An_sessions r) \<Rightarrow> scan_answer ap requestBase r
      | _ \<Rightarrow> True)"

definition event_ok :: "'n app \<Rightarrow> ('p, 's) flow_event \<Rightarrow> ('p, 's) flow \<Rightarrow> bool" where
  "event_ok ap ev fl =
     (case ev of
        Ev_answer n a \<Rightarrow> (case map_of (fl_tasks fl) n of Some t \<Rightarrow> answer_ok ap t a | None \<Rightarrow> True)
      | Ev_boot stored \<Rightarrow> sessions_wf stored
      | _ \<Rightarrow> True)"

inductive flow_run :: "'n app \<Rightarrow> string \<Rightarrow> ('p, 's) flow \<Rightarrow> bool" for ap appState where
  flow_start: "flow_run ap appState (new_flow appState)"
| flow_more: "flow_run ap appState fl \<Longrightarrow> event_ok ap ev fl \<Longrightarrow> flow_run ap appState (flow_step ap sn ev fl)"

inductive_cases flow_runE: "flow_run ap appState fl"

lemma upsert_ids:
  assumes "list_all (\<lambda>s. si_id s \<noteq> []) ss" "si_id next \<noteq> []"
  shows "list_all (\<lambda>s. si_id s \<noteq> []) (upsertSessions dv ss next)"
proof (cases "find_index (same_session next) ss")
  case (Some i)
  then have "set (upsertSessions dv ss next) \<subseteq> insert (normalizeSession dv (Some (ss ! i)) next) (set ss)"
    by (simp add: upsertSessions_def set_update_subset_insert)
  then show ?thesis using assms by (auto simp: list_all_iff)
qed (use assms in \<open>simp add: upsertSessions_def\<close>)

lemma scan_wf: "scan_answer ap base r \<Longrightarrow> sessions_wf base \<Longrightarrow> sessions_wf r"
proof -
  assume wf: "sessions_wf base" and "scan_answer ap base r"
  then obtain e binding B D bo w w' where cl: "claim_ok e binding B D base" and bo: "bo_existing bo = session_of binding base"
      "bo_binding bo = binding"
    and r: "refreshSessionsV2 (ap_device ap) (upsertSessions (ap_device ap) base (buildSessionFromBinding (ap_device ap) e bo)) w = (Inr r, w')"
    unfolding scan_answer_def by blast
  let ?n = "buildSessionFromBinding (ap_device ap) e bo"
  have ids: "list_all (\<lambda>s. si_id s \<noteq> []) base" "sessions_ok base" using wf by (simp_all add: sessions_wf_def)
  have "si_id ?n \<noteq> []"
    by (simp add: session_of_binding_id randomId_def local_id_def split: option.split)
  then have "sessions_wf (upsertSessions (ap_device ap) base ?n)"
    using pairing_distinct [OF ids(2) cl bo, of "ap_device ap"] upsert_ids [OF ids(1), of ?n "ap_device ap"]
    by (simp add: sessions_wf_def)
  then show "sessions_wf r" by (rule refresh_wf [OF r])
qed

lemma inv_step_task:
  assumes inv: "flow_inv fl" and old: "map_of (fl_tasks fl) n = Some t" and ok: "answer_ok ap t a"
  shows "flow_inv (step_task ap n t a sn fl)"
proof -
  have gone: "flow_inv (end_task n fl)" if "is_connect t = None" using inv old that by (rule inv_end)
  have rep: "flow_inv (replace_task n u fl')"
    if "flow_inv fl'" "fl_tasks fl' = fl_tasks fl" "task_ok u" "awaits u = None" "is_connect u = is_connect t" for u fl'
    using that old by (intro inv_replace [OF that(1)]) auto
  have base: "sessions_wf b" if "t = Tk_refresh b k \<or> t = Tk_scan raw b" for b k raw
    using inv_task [OF inv old] that by (auto simp: task_ok_def)
  show ?thesis
  proof (cases t)
    case (Tk_refresh b k)
    have "flow_inv (end_task n fl)" by (rule gone) (simp add: Tk_refresh is_connect_def)
    moreover have "sessions_wf r" if "a = An_sessions r" for r
      using ok base [of b k] that refresh_wf by (auto simp: answer_ok_def Tk_refresh)
    ultimately show ?thesis using inv by (auto simp: step_task_def Tk_refresh Let_def intro!: inv_refresh_done split: answer.split)
  next
    case (Tk_scan raw b)
    have "flow_inv (end_task n fl)" by (rule gone) (simp add: Tk_scan is_connect_def)
    moreover have "sessions_wf r" if "a = An_sessions r" for r
      using ok base [of b Rc_none raw] that scan_wf by (auto simp: answer_ok_def Tk_scan)
    ultimately show ?thesis using inv by (auto simp: step_task_def Tk_scan Let_def intro!: inv_scan_done split: answer.split)
  next
    case (Tk_delivery d)
    then show ?thesis using inv_step_delivery [OF inv] old by (simp add: step_task_def Let_def)
  next
    case (Tk_connect c)
    then show ?thesis using inv_step_connect [OF inv] old by (simp add: step_task_def Let_def)
  next
    case (Tk_signal_auth url w)
    then show ?thesis using inv_step_signal_auth [OF inv] old by (simp add: step_task_def Let_def)
  next
    case (Tk_peer_signal s ty b pl ens)
    have g: "flow_inv (end_task n fl')" if "flow_inv fl'" "fl_tasks fl' = fl_tasks fl" for fl'
      using that old Tk_peer_signal by (intro inv_end [of fl' n t]) (simp_all add: is_connect_def)
    have fail: "flow_inv (signal_failed ap n s ty err fl')" if "flow_inv fl'" "fl_tasks fl' = fl_tasks fl" for err fl'
      unfolding signal_failed_def using g [OF that] by (intro inv_store) (simp_all add: flow_inv)
    have go: "flow_inv (on_store f (replace_task n (Tk_peer_handling s ty) fl'))"
      if "flow_inv fl'" "fl_tasks fl' = fl_tasks fl" "\<And>st. calm st (f st)" for f fl'
      using rep [OF that(1,2), of "Tk_peer_handling s ty"] that(3)
      by (intro inv_store) (simp_all add: task_ok_def awaits_def Tk_peer_signal is_connect_def)
    show ?thesis
    proof (cases ens)
      case (Inl err)
      then show ?thesis using fail inv by (simp add: step_task_def Let_def Tk_peer_signal step_peer_signal_def)
    next
      case (Inr ex)
      obtain r fl' where e: "ensure_result ap s ex (made_by a) fl = (r, fl')" by fastforce
      show ?thesis using ensure_result_frame(1) [OF e] ensure_result_frame(2) [OF e inv]
        by (auto simp: step_task_def Let_def Tk_peer_signal step_peer_signal_def Inr e intro!: fail go split: sum.split)
    qed
  next
    case (Tk_wait_connect k s js)
    then show ?thesis using inv by (simp add: step_task_def Let_def)
  next
    case (Tk_peer_handling s ty)
    have "flow_inv (end_task n fl)" by (rule gone) (simp add: Tk_peer_handling is_connect_def)
    then show ?thesis
      by (auto simp: step_task_def Let_def Tk_peer_handling signal_failed_def flow_inv intro!: inv_store split: answer.split)
  next
    case (Tk_connected r s js)
    have "flow_inv (end_task n fl)" by (rule gone) (simp add: Tk_connected is_connect_def)
    then show ?thesis
      by (auto simp: step_task_def Let_def Tk_connected flow_inv intro!: inv_run_jobs inv_store split: sum.split)
  next
    case (Tk_beat url now js)
    have "flow_inv (end_task n fl)" by (rule gone) (simp add: Tk_beat is_connect_def)
    then show ?thesis
      by (auto simp: step_task_def Let_def Tk_beat intro!: inv_run_jobs inv_store split: answer.split)
  next
    case (Tk_settled own r)
    have "flow_inv (end_task n fl)" by (rule gone) (simp add: Tk_settled is_connect_def)
    then show ?thesis by (simp add: step_task_def Let_def Tk_settled inv_settle)
  next
    case (Tk_ping_timer b pid)
    have "flow_inv (end_task n fl)" by (rule gone) (simp add: Tk_ping_timer is_connect_def)
    then show ?thesis by (auto simp: step_task_def Let_def Tk_ping_timer flow_inv intro!: inv_store)
  next
    case (Tk_script js)
    have "flow_inv (end_task n fl)" by (rule gone) (simp add: Tk_script is_connect_def)
    then show ?thesis by (simp add: step_task_def Let_def Tk_script inv_run_jobs)
  next
    case (Tk_signalled c r)
    have "flow_inv (end_task n fl)" by (rule gone) (simp add: Tk_signalled is_connect_def)
    then show ?thesis by (simp add: step_task_def Let_def Tk_signalled inv_chat_signalled)
  next
    case (Tk_signal_open b s ws)
    then show ?thesis using inv by (simp add: step_task_def Let_def inv_finish_signal)
  qed
qed

lemma inv_flow_step: "flow_inv fl \<Longrightarrow> event_ok ap ev fl \<Longrightarrow> flow_inv (flow_step ap sn ev fl)"
  by (cases ev) (auto simp: flow_step_def Let_def event_ok_def flow_inv inv_boot inv_step_task inv_start task_ok_def awaits_def
      flow_inv_def [of fl] split: option.splits)

lemma run_inv: "flow_run ap appState fl \<Longrightarrow> flow_inv fl"
proof (induction rule: flow_run.induct)
  case flow_start
  show ?case by (simp add: flow_inv_def tasks_ok_def conn_ok_def new_flow_def new_store_def sessions_wf_def sessions_ok_def distinct_by_def)
qed (rule inv_flow_step)
section \<open>What the flow keeps of the sessions\<close>

definition flow_faces :: "('p, 's) flow \<Rightarrow> face list" where
  "flow_faces fl = faces (fl_store fl)"

lemma flow_faces_simps [simp]:
  "flow_faces (start t fl) = flow_faces fl" "flow_faces (end_task n fl) = flow_faces fl"
  "flow_faces (replace_task n t fl) = flow_faces fl" "flow_faces (script js fl) = flow_faces fl"
  by (simp_all add: flow_faces_def script_def)

lemma flow_faces_store: "(\<And>st. faces (f st) = faces st) \<Longrightarrow> flow_faces (on_store f fl) = flow_faces fl"
  by (simp add: flow_faces_def)

lemma flow_faces_ensureConnected [keeps_faces]: "flow_faces (snd (ensureSessionPeerConnected s t n fl)) = flow_faces fl"
  by (simp add: ensureSessionPeerConnected_def Let_def flow_faces_store split: option.split)

lemma flow_faces_deliver [keeps_faces]: "flow_faces (deliverAppMessage s m pr t fp own fl) = flow_faces fl"
  using flow_faces_ensureConnected [of "latest_of fl s" t 0 fl]
  by (cases "ensureSessionPeerConnected (latest_of fl s) t 0 fl") (simp add: deliverAppMessage_def Let_def)

lemma flow_faces_resend [keeps_faces]: "flow_faces (resend_one e s m pr rest fl) = flow_faces fl"
  by (simp add: resend_one_def keeps_faces)

lemma flow_faces_jobs [keeps_faces]:
  "flow_faces (probeSessionLink e s iv rest fl) = flow_faces fl"
  "flow_faces (requestMessageStateSync ap e s iv pr rest fl) = flow_faces fl"
  "flow_faces (beat url now iv rest fl) = flow_faces fl"
  by (simp_all add: probeSessionLink_def requestMessageStateSync_def beat_def Let_def keeps_faces
      flow_faces_store faces_patch link_probe_def)

lemma flow_faces_heartbeats [keeps_faces]: "flow_faces (heartbeatSessionsPresence e ss iv rest fl) = flow_faces fl"
  by (simp add: heartbeatSessionsPresence_def keeps_faces split: list.split)

lemma flow_faces_run_job [keeps_faces]: "flow_faces (run_job ap e j rest fl) = flow_faces fl"
proof (cases j)
  case (J_connect s)
  then show ?thesis using flow_faces_ensureConnected [of s "Fin 10000" 0 fl]
    by (cases "ensureSessionPeerConnected s (Fin 10000) 0 fl") (simp add: run_job_def split: option.split)
qed (simp_all add: run_job_def keeps_faces)

lemma flow_faces_run_jobs [keeps_faces]: "flow_faces (run_jobs ap e js fl) = flow_faces fl"
  by (cases js) (simp_all add: keeps_faces)

lemma flow_faces_fold: "(\<And>x fl. flow_faces (f x fl) = flow_faces fl) \<Longrightarrow> flow_faces (fold f xs fl) = flow_faces fl"
  by (induction xs arbitrary: fl) simp_all

lemma flow_faces_probe_each [keeps_faces]: "flow_faces (probe_each e ss iv fl) = flow_faces fl"
  by (simp add: probe_each_def flow_faces_fold keeps_faces)

lemma faces_reconcile_store [keeps_faces]: "faces (reconcile_store ap ss st) = faces st"
  by (simp add: reconcile_store_def close_unused_signals_def keeps_faces faces_fold)

lemma flow_faces_reconcile [keeps_faces]: "flow_faces (reconcileRealtime ap e ss fl) = flow_faces fl"
  by (simp add: reconcileRealtime_def connectReadyPeers_def keeps_faces flow_faces_fold flow_faces_store)

lemma flow_faces_after_refresh [keeps_faces]: "flow_faces (after_refresh ap e k fl) = flow_faces fl"
  by (cases k) (simp_all add: after_refresh_def Let_def keeps_faces)

lemma flow_faces_commit: "flow_faces (commitSessions ss fl) = map face ss"
  by (simp add: commitSessions_def flow_faces_def faces_def updateSessions_def)

lemma faces_refresh_done:
  "\<not> (k = Rc_boot \<and> fl_cancelled fl) \<Longrightarrow> flow_faces (refresh_done ap e k r fl) =
     map face (mergeRefreshedSessions ap (st_sessions (fl_store fl)) r)"
  by (auto simp: refresh_done_def Let_def keeps_faces flow_faces_commit)

lemma faces_scan_done: "flow_faces (scan_done ap e r fl) = map face r"
  by (simp only: scan_done_def keeps_faces flow_faces_commit)

lemma answered_refresh:
  assumes "map_of (fl_tasks fl) n = Some (Tk_refresh b k)" "\<not> (k = Rc_boot \<and> fl_cancelled fl)"
  shows "flow_faces (flow_step ap sn (Ev_answer n (An_sessions r)) fl) =
     map face (mergeRefreshedSessions ap (st_sessions (fl_store fl)) r)"
proof -
  have "fl_cancelled (end_task n fl) = fl_cancelled fl" by (simp add: end_task_def)
  then show ?thesis using assms faces_refresh_done [of k "end_task n fl" ap "sn_env sn" r]
    by (simp add: flow_step_def step_task_def Let_def)
qed

lemma faces_member:
  "flow_faces fl = map face ss \<Longrightarrow> x \<in> set ss \<Longrightarrow> \<exists>t \<in> set (st_sessions (fl_store fl)). face t = face x"
proof -
  assume a: "flow_faces fl = map face ss" and x: "x \<in> set ss"
  have "face x \<in> set (flow_faces fl)" unfolding a using x by simp
  then show ?thesis unfolding flow_faces_def faces_def by auto
qed

end
