(* ===== verification/SessionDeliveries.thy ===== *)
theory SessionDeliveries
  imports SessionRuns
begin

text \<open>
  Which session a delivery of the mobile client speaks of: \<open>deliverAppMessage\<close> looks the session up
  when it is called and keeps that copy. The lemmas compare the deliveries of a state with those of an
  earlier one through the operations of SessionFlow, so that for every run the copy a delivery holds is
  traced back to the stored list at the end of the step in which the delivery began.
\<close>

section \<open>Deliveries that begin\<close>

text \<open>The store has no other version of the session of a delivery.\<close>

definition agrees :: "('p, 's) flow \<Rightarrow> 'p delivery \<Rightarrow> bool" where
  "agrees fl d = (case getSessionByIdSnapshot (fl_store fl) (si_id (dl_session d)) of
     Some s \<Rightarrow> face s = face (dl_session d) | None \<Rightarrow> True)"

definition goes_on :: "('p, 's) flow \<Rightarrow> nat \<Rightarrow> 'p delivery \<Rightarrow> bool" where
  "goes_on a i d = (\<exists>d0. (i, Tk_delivery d0) \<in> set (fl_tasks a) \<and> dl_session d0 = dl_session d)"

text \<open>Since \<open>a\<close> no delivery has begun; or those that have agree with the store.\<close>

definition kept :: "('p, 's) flow \<Rightarrow> ('p, 's) flow \<Rightarrow> bool" where
  "kept a fl = (fl_next a \<le> fl_next fl \<and> (\<forall>(i, t) \<in> set (fl_tasks fl). \<forall>d. t = Tk_delivery d \<longrightarrow> goes_on a i d))"

definition fresh :: "('p, 's) flow \<Rightarrow> ('p, 's) flow \<Rightarrow> bool" where
  "fresh a fl = (fl_next a \<le> fl_next fl \<and> (\<forall>(i, t) \<in> set (fl_tasks fl). \<forall>d. t = Tk_delivery d \<longrightarrow>
     goes_on a i d \<or> (fl_next a \<le> i \<and> agrees fl d)))"

named_theorems fresh_ops

lemma kept_refl [simp]: "kept a a"
  by (auto simp: kept_def goes_on_def)

lemma kept_fresh: "kept a fl \<Longrightarrow> fresh a fl"
  unfolding kept_def fresh_def by blast

lemma kept_store [simp]: "kept a (on_store f fl) = kept a fl" "kept a (fl\<lparr>fl_store := st\<rparr>) = kept a fl"
  by (simp_all add: kept_def)

lemma kept_flags [simp]:
  "kept a (fl\<lparr>fl_loaded := x\<rparr>) = kept a fl" "kept a (fl\<lparr>fl_appState := s\<rparr>) = kept a fl"
  "kept a (fl\<lparr>fl_refreshTimer := x\<rparr>) = kept a fl" "kept a (fl\<lparr>fl_syncTimer := x\<rparr>) = kept a fl"
  "kept a (fl\<lparr>fl_cancelled := x\<rparr>) = kept a fl"
  by (simp_all add: kept_def)

lemma fresh_flags [simp]:
  "fresh a (fl\<lparr>fl_loaded := x\<rparr>) = fresh a fl" "fresh a (fl\<lparr>fl_appState := s\<rparr>) = fresh a fl"
  "fresh a (fl\<lparr>fl_refreshTimer := x\<rparr>) = fresh a fl" "fresh a (fl\<lparr>fl_syncTimer := x\<rparr>) = fresh a fl"
  by (simp_all add: fresh_def agrees_def)

lemma kept_start: "kept a fl \<Longrightarrow> (\<And>d. t \<noteq> Tk_delivery d) \<Longrightarrow> kept a (start t fl)"
  by (auto simp: kept_def)

lemma kept_end: "kept a fl \<Longrightarrow> kept a (end_task n fl)"
  by (auto simp: kept_def end_task_def)

lemma kept_replace: "kept a fl \<Longrightarrow> (\<And>d. u = Tk_delivery d \<Longrightarrow> goes_on a n d) \<Longrightarrow> kept a (replace_task n u fl)"
  by (auto simp: kept_def replace_task_def split: if_splits)

lemma kept_map:
  assumes k: "kept a fl"
    and f: "\<And>i t d. f i t = Tk_delivery d \<Longrightarrow> \<exists>d0. t = Tk_delivery d0 \<and> dl_session d0 = dl_session d"
  shows "kept a (fl\<lparr>fl_tasks := map (\<lambda>(i, t). (i, f i t)) (fl_tasks fl)\<rparr>)"
proof -
  have g: "goes_on a i d" if t: "(i, t) \<in> set (fl_tasks fl)" and d: "f i t = Tk_delivery d" for i t d
  proof -
    obtain d0 where "t = Tk_delivery d0" "dl_session d0 = dl_session d" using f [OF d] by blast
    moreover have "goes_on a i d0" using k t calculation(1) unfolding kept_def by blast
    ultimately show ?thesis by (simp add: goes_on_def)
  qed
  have "fl_next a \<le> fl_next fl" using k by (simp add: kept_def)
  then show ?thesis unfolding kept_def by (auto intro: g)
qed

lemma fresh_start: "fresh a fl \<Longrightarrow> (\<And>d. t \<noteq> Tk_delivery d) \<Longrightarrow> fresh a (start t fl)"
  by (auto simp: fresh_def agrees_def)

lemma fresh_begin:
  assumes "fresh a fl" "agrees fl d" "\<And>d'. t = Tk_delivery d' \<Longrightarrow> dl_session d' = dl_session d"
  shows "fresh a (start t fl)"
proof -
  have "agrees (start t fl) d'" if "t = Tk_delivery d'" for d'
    using assms(2) unfolding agrees_def assms(3) [OF that] by simp
  moreover have "agrees (start t fl) d' = agrees fl d'" for d' by (simp add: agrees_def)
  ultimately show ?thesis using assms(1) by (fastforce simp: fresh_def)
qed

lemma fresh_store:
  assumes "fresh a fl"
    "\<And>i s. getSessionByIdSnapshot (f (fl_store fl)) i = Some s \<Longrightarrow>
      \<exists>t. getSessionByIdSnapshot (fl_store fl) i = Some t \<and> face t = face s"
  shows "fresh a (on_store f fl)"
proof -
  have "agrees (on_store f fl) d" if "agrees fl d" for d
  proof (cases "getSessionByIdSnapshot (f (fl_store fl)) (si_id (dl_session d))")
    case (Some s)
    then obtain t where "getSessionByIdSnapshot (fl_store fl) (si_id (dl_session d)) = Some t" "face t = face s"
      using assms(2) by blast
    with that Some show ?thesis by (simp add: agrees_def)
  qed (simp add: agrees_def)
  then show ?thesis using assms(1) by (auto simp: fresh_def)
qed

lemma find_by_face:
  "map face xs = map face ys \<Longrightarrow> map_option face (find_session (\<lambda>s. si_id s = i) xs) = map_option face (find_session (\<lambda>s. si_id s = i) ys)"
proof (induction xs arbitrary: ys)
  case (Cons x xs)
  then obtain y ys' where y: "ys = y # ys'" "face x = face y" "map face xs = map face ys'" by (cases ys) auto
  then have "si_id x = si_id y" by (simp add: face_def)
  with Cons.IH [OF y(3)] y show ?case by (simp add: find_session_def)
qed simp

lemma fresh_store_same:
  assumes "fresh a fl" "faces (f (fl_store fl)) = faces (fl_store fl)" shows "fresh a (on_store f fl)"
proof (rule fresh_store [OF assms(1)])
  fix i s assume "getSessionByIdSnapshot (f (fl_store fl)) i = Some s"
  with find_by_face [OF assms(2) [unfolded faces_def], of i]
  show "\<exists>t. getSessionByIdSnapshot (fl_store fl) i = Some t \<and> face t = face s"
    by (cases "getSessionByIdSnapshot (fl_store fl) i") (auto simp: getSessionByIdSnapshot_def)
qed

lemma fresh_removed: "fresh a fl \<Longrightarrow> fresh a (on_store (removeSessionLocal sid [] []) fl)"
proof (rule fresh_store)
  fix i s assume a: "getSessionByIdSnapshot (removeSessionLocal sid [] [] (fl_store fl)) i = Some s"
  have "filter (\<lambda>s. si_id s = i) (filter (\<lambda>s. \<not> removed_by sid [] [] s) ss) =
      (if i = js_trim sid \<and> i \<noteq> [] then [] else filter (\<lambda>s. si_id s = i) ss)" for ss
    by (induction ss) (auto simp: removed_by_def)
  with a have "getSessionByIdSnapshot (fl_store fl) i = Some s"
    by (auto simp: getSessionByIdSnapshot_def find_session_def removeSessionLocal_def updateSessions_def split: if_splits)
  then show "\<exists>t. getSessionByIdSnapshot (fl_store fl) i = Some t \<and> face t = face s" by blast
qed

lemma fresh_fold: "fresh a fl \<Longrightarrow> (\<And>x fl. fresh a fl \<Longrightarrow> fresh a (f x fl)) \<Longrightarrow> fresh a (fold f xs fl)"
  by (induction xs arbitrary: fl) simp_all

section \<open>Every operation\<close>

lemma fresh_script [fresh_ops]: "fresh a fl \<Longrightarrow> fresh a (script js fl)"
  by (simp add: script_def fresh_start)

lemma fresh_ensureConnected [fresh_ops]:
  assumes "fresh a fl" shows "fresh a (snd (ensureSessionPeerConnected s tmo r fl))"
  unfolding ensureSessionPeerConnected_def Let_def
  by (auto intro!: fresh_store_same fresh_start assms split: option.split)

lemma kept_ensureConnected: "kept a fl \<Longrightarrow> kept a (snd (ensureSessionPeerConnected s tmo r fl))"
  unfolding ensureSessionPeerConnected_def Let_def by (auto intro!: kept_start split: option.split)

text \<open>\<open>deliverAppMessage\<close>: the copy is the stored session, when there is one.\<close>

lemma agrees_latest: "dl_session d = latest_of fl s \<Longrightarrow> agrees fl d"
proof (cases "getSessionByIdSnapshot (fl_store fl) (si_id s)")
  case (Some t)
  then have "si_id t = si_id s" unfolding getSessionByIdSnapshot_def by (rule find_session_id)
  moreover assume "dl_session d = latest_of fl s"
  ultimately show ?thesis by (simp add: agrees_def latest_of_def Some)
qed (simp add: agrees_def latest_of_def)

lemma fresh_deliver [fresh_ops]:
  assumes "fresh a fl" shows "fresh a (deliverAppMessage s m pr tmo fp own fl)"
proof -
  let ?l = "latest_of fl s"
  obtain n fl' where e: "ensureSessionPeerConnected ?l tmo 0 fl = (n, fl')" by fastforce
  then have fl': "fresh a fl'" "flow_faces fl' = flow_faces fl"
    using fresh_ensureConnected [OF assms, of ?l tmo 0] flow_faces_ensureConnected [of ?l tmo 0 fl] by simp_all
  have ag: "agrees fl d" if "dl_session d = ?l" for d using that by (rule agrees_latest)
  have ag': "agrees fl' d" if "dl_session d = ?l" for d
    using ag [OF that] find_by_face [OF fl'(2) [unfolded flow_faces_def faces_def], of "si_id (dl_session d)"]
    by (auto simp: agrees_def getSessionByIdSnapshot_def split: option.splits)
  show ?thesis
  proof (cases "shouldAttemptPeer pr fp ?l")
    case True
    then show ?thesis by (auto simp: deliverAppMessage_def Let_def e intro!: fresh_begin [OF fl'(1) ag'])
  next
    case False
    let ?d = "\<lparr>dl_session = ?l, dl_message = m, dl_owner = own, dl_phase = Dp_relaying\<rparr>"
    have "fresh a (start (relay_task ?l m own) fl)"
      by (rule fresh_begin [OF assms ag, of ?d]) (auto simp: relay_task_def split: if_splits)
    then show ?thesis using False by (simp add: deliverAppMessage_def Let_def)
  qed
qed

lemma fresh_probe [fresh_ops]: "fresh a fl \<Longrightarrow> fresh a (probeSessionLink e s iv rest fl)"
  unfolding probeSessionLink_def Let_def
  by (auto intro!: fresh_ops fresh_store_same simp: faces_patch link_probe_def)

lemma fresh_requestSync [fresh_ops]: "fresh a fl \<Longrightarrow> fresh a (requestMessageStateSync ap e s iv pr rest fl)"
  unfolding requestMessageStateSync_def Let_def by (auto intro!: fresh_ops)

lemma fresh_beat [fresh_ops]: "fresh a fl \<Longrightarrow> fresh a (beat url now iv rest fl)"
  unfolding beat_def by (auto intro!: fresh_ops fresh_start)

lemma fresh_heartbeats [fresh_ops]: "fresh a fl \<Longrightarrow> fresh a (heartbeatSessionsPresence e ss iv rest fl)"
  unfolding heartbeatSessionsPresence_def by (auto intro!: fresh_ops split: list.split)

lemma fresh_resend [fresh_ops]: "fresh a fl \<Longrightarrow> fresh a (resend_one e s m pr rest fl)"
  unfolding resend_one_def by (rule fresh_deliver)

lemma fresh_run_job [fresh_ops]: "fresh a fl \<Longrightarrow> fresh a (run_job ap e j rest fl)"
proof (cases j)
  case (J_connect s)
  assume fl: "fresh a fl"
  obtain n fl' where c: "ensureSessionPeerConnected s (Fin 10000) 0 fl = (n, fl')" by fastforce
  then have "fresh a fl'" using fresh_ensureConnected [OF fl, of s "Fin 10000" 0] by simp
  then show ?thesis by (auto simp: J_connect run_job_def c intro: fresh_ops fresh_start split: option.split)
qed (auto simp: run_job_def intro!: fresh_ops)

lemma fresh_run_jobs [fresh_ops]: "fresh a fl \<Longrightarrow> fresh a (run_jobs ap e js fl)"
  by (cases js) (simp_all add: fresh_ops)

lemma fresh_probe_each [fresh_ops]: "fresh a fl \<Longrightarrow> fresh a (probe_each e ss iv fl)"
  unfolding probe_each_def by (rule fresh_fold) (simp_all add: fresh_ops)

lemma fresh_messages [fresh_ops]:
  "fresh a fl \<Longrightarrow> fresh a (respondToLinkPing e s ping pr fl)"
  "fresh a fl \<Longrightarrow> fresh a (requestMissingMessages e s ids pr fl)"
  "fresh a fl \<Longrightarrow> fresh a (acknowledgeMessages e s ids pr fl)"
  "fresh a fl \<Longrightarrow> fresh a (sendChannelRevoke e s fl)"
  by (simp_all add: respondToLinkPing_def ids_message_def requestMissingMessages_def acknowledgeMessages_def
      sendChannelRevoke_def Let_def fresh_ops)

lemma fresh_reconcile [fresh_ops]: "fresh a fl \<Longrightarrow> fresh a (reconcileRealtime ap e ss fl)"
  unfolding reconcileRealtime_def connectReadyPeers_def
  by (auto intro!: fresh_ops fresh_fold fresh_start fresh_store_same simp: keeps_faces)

lemma fresh_after_refresh [fresh_ops]: "fresh a fl \<Longrightarrow> fresh a (after_refresh ap e k fl)"
  unfolding after_refresh_def Let_def by (cases k) (simp_all add: fresh_ops)

lemma fresh_refresh [fresh_ops]: "fresh a fl \<Longrightarrow> fresh a (refreshSessions k fl)"
  unfolding refreshSessions_def by (auto intro: fresh_start)

text \<open>What changes the list does so before any delivery begins, except for a removal.\<close>

lemma fresh_settle: "kept a fl \<Longrightarrow> fresh a (settle ap e own r fl)"
  unfolding settle_def probe_settled_def
  by (auto intro!: fresh_run_jobs kept_start intro: kept_fresh split: owner_kind.split sum.split)

lemma fresh_refresh_done: "kept a fl \<Longrightarrow> fresh a (refresh_done ap e k r fl)"
  unfolding refresh_done_def Let_def commitSessions_def
  by (auto intro!: fresh_after_refresh fresh_reconcile intro: kept_fresh)

lemma fresh_scan_done: "kept a fl \<Longrightarrow> fresh a (scan_done ap e r fl)"
  unfolding scan_done_def commitSessions_def by (auto simp del: run_jobs.simps intro!: fresh_run_jobs fresh_reconcile intro: kept_fresh)

lemma fresh_remove: "kept a fl \<Longrightarrow> fresh a (removeSession ap e sid fl)"
  unfolding removeSession_def Let_def
  by (auto intro!: fresh_removed fresh_messages intro: kept_fresh split: option.split)

lemma fresh_on_relay_chat: "kept a fl \<Longrightarrow> fresh a (on_relay_chat ap e s v fl)"
  unfolding on_relay_chat_def Let_def by (auto intro!: fresh_messages intro: kept_fresh split: option.split)

lemma fresh_relay_app: "kept a fl \<Longrightarrow> fresh a (on_relay_app ap e b d pl fl)"
  unfolding on_relay_app_def Let_def
  by (simp add: fresh_refresh fresh_run_jobs fresh_messages fresh_on_relay_chat kept_fresh split: option.split)

lemma fresh_signal_event: "kept a fl \<Longrightarrow> fresh a (handleSignalEvent ap e env fl)"
  unfolding handleSignalEvent_def Let_def
  by (auto intro!: fresh_ensureConnected fresh_refresh fresh_relay_app kept_start intro: kept_fresh split: option.split)

lemma fresh_peer_chat: "kept a fl \<Longrightarrow> fresh a (on_peer_chat ap e key chat fl)"
  unfolding on_peer_chat_def Let_def by (auto intro!: fresh_messages intro: kept_fresh split: option.split)

lemma fresh_dispatch: "registry_dispatch (chat_registry ap e key) m fl = Inr (h, fl') \<Longrightarrow> kept a fl \<Longrightarrow> fresh a fl'"
  using dispatch_chat fresh_peer_chat kept_fresh by metis

lemma fresh_peer_message: "kept a fl \<Longrightarrow> fresh a (on_peer_app_message ap e key d m fl)"
  unfolding on_peer_app_message_def Let_def
  by (simp add: fresh_messages fresh_run_jobs kept_fresh split: option.split sum.split)
    (auto dest: fresh_dispatch)

lemma fresh_peer_state: "kept a fl \<Longrightarrow> fresh a (on_peer_state ap e key st det fl)"
  unfolding on_peer_state_def Let_def by (auto intro!: fresh_probe intro: kept_fresh split: option.split)

lemma kept_deliverLocal: "kept a fl \<Longrightarrow> kept a (deliverLocalChatMessage c fl)"
  by (simp add: deliverLocalChatMessage_def Let_def kept_start)

lemma kept_send: "kept a fl \<Longrightarrow> kept a (snd (sendMessage ap e sid txt mid ts fl))"
  "kept a fl \<Longrightarrow> kept a (snd (retryMessage e sid mid fl))"
  by (auto simp: sendMessage_def retryMessage_def Let_def intro!: kept_deliverLocal split: option.split)

lemma fresh_chat_signalled: "kept a fl \<Longrightarrow> fresh a (chat_signalled e c r fl)"
  by (auto simp: chat_signalled_def split: sum.split bool.split intro!: fresh_deliver kept_start intro: kept_fresh)

section \<open>Every step\<close>

lemma kept_join: "kept a fl \<Longrightarrow> kept a (join_stream n k w fl)"
  unfolding join_stream_def Let_def
  by (rule kept_map [of a _ "\<lambda>i t. if i = k then join_opening w t else t"])
    (auto simp: kept_end join_opening_def split: if_splits flow_task.splits)

lemma kept_signal: "kept a fl \<Longrightarrow> kept a (signalled w r fl)"
  by (simp add: signalled_def kept_start split: option.split)

lemma kept_open: "kept a fl \<Longrightarrow> kept a (open_stream n w b tok s fl)"
  unfolding open_stream_def kept_store by (rule kept_replace) simp_all

lemma kept_step_signal_auth: "kept a fl \<Longrightarrow> kept a (step_signal_auth n w an sn fl)"
  by (simp add: step_signal_auth_def Let_def kept_open kept_join kept_signal kept_end kept_replace
      split: answer.split option.split)

lemma kept_fold: "kept a fl \<Longrightarrow> (\<And>x fl. kept a fl \<Longrightarrow> kept a (f x fl)) \<Longrightarrow> kept a (fold f xs fl)"
  by (induction xs arbitrary: fl) simp_all

lemma kept_finish_signal: "kept a fl \<Longrightarrow> kept a (finish_signal n ok fl)"
  by (auto simp: finish_signal_def intro!: kept_fold kept_start kept_end split: option.split flow_task.split)

lemma kept_finish_stream: "kept a fl \<Longrightarrow> kept a (finish_stream s ok fl)"
  by (simp add: finish_stream_def kept_finish_signal split: option.split)

lemma kept_finish_connect: "kept a fl \<Longrightarrow> kept a (finish_connect n b r fl)"
  unfolding finish_connect_def Let_def kept_store
  by (rule kept_map [of a _ "\<lambda>i. wake n r"])
    (auto simp: kept_end wake_def split: flow_task.splits if_splits)

lemma kept_ensure_result: "ensure_result ap s ex made fl = (r, fl') \<Longrightarrow> kept a fl \<Longrightarrow> kept a fl'"
  by (auto simp: ensure_result_def split: option.splits sum.splits if_splits)

lemma kept_step_connect: "kept a fl \<Longrightarrow> kept a (step_connect ap n c an sn fl)"
  by (auto simp: step_connect_def Let_def intro!: kept_finish_connect kept_replace
      dest: kept_ensure_result split: connect_phase.split prod.split sum.split answer.split)

lemma relay_task_session: "relay_task s m own = Tk_delivery d \<Longrightarrow> dl_session d = s"
  by (auto simp: relay_task_def split: if_splits)

lemma kept_step_delivery:
  assumes k: "kept a fl" and d: "(n, Tk_delivery d) \<in> set (fl_tasks a)"
  shows "kept a (step_delivery ap n d an fl)"
proof -
  have here: "goes_on a n d'" if "dl_session d' = dl_session d" for d'
    using d that unfolding goes_on_def by force
  have rep: "kept a (replace_task n (Tk_delivery d') fl')" if "kept a fl'" "dl_session d' = dl_session d" for d' fl'
    using that here by (intro kept_replace) auto
  have relay: "kept a (replace_task n (relay_task (dl_session d) m own) fl')" if "kept a fl'" for m own fl'
    using that here relay_task_session by (intro kept_replace) blast+
  have fail: "kept a (peer_failed ap n d err fl')" if "kept a fl'" for err fl'
    using that relay by (simp add: peer_failed_def)
  have done': "kept a (replace_task n (Tk_settled own r) fl')" if "kept a fl'" for own r fl'
    using that by (intro kept_replace) auto
  show ?thesis
    by (auto simp: step_delivery_def k intro!: rep relay fail done' dest: kept_ensure_result [OF _ k]
        split: delivery_phase.split sum.split bool.split prod.split answer.split)
qed

lemma fresh_step_task:
  assumes t: "map_of (fl_tasks fl) n = Some t"
  shows "fresh fl (step_task ap n t an sn fl)"
proof (cases t)
  case (Tk_delivery d)
  then show ?thesis using t by (simp add: step_task_def Let_def kept_fresh kept_step_delivery map_of_SomeD)
next
  case (Tk_peer_signal s ty b pl ens)
  then show ?thesis
    by (auto simp: step_task_def Let_def step_peer_signal_def signal_failed_def intro!: kept_fresh kept_end kept_replace
        dest: kept_ensure_result [OF _ kept_refl] split: sum.split prod.split)
next
  case (Tk_connect c)
  then show ?thesis by (simp add: step_task_def Let_def kept_fresh kept_step_connect)
next
  case (Tk_signal_auth url w)
  then show ?thesis by (simp add: step_task_def Let_def kept_fresh kept_step_signal_auth)
next
  case (Tk_signal_open b s ws)
  then show ?thesis by (simp add: step_task_def Let_def kept_fresh kept_finish_signal)
qed (auto simp: step_task_def Let_def signal_failed_def fresh_run_jobs fresh_settle fresh_refresh_done fresh_scan_done
    fresh_chat_signalled kept_fresh kept_end split: answer.split sum.split)

lemma fresh_flow_step: "fresh fl (flow_step ap sn ev fl)"
proof (cases ev)
  case (Ev_answer n an)
  then show ?thesis by (simp add: flow_step_def Let_def fresh_step_task kept_fresh split: option.split)
next
  case (Ev_stream_open s)
  then show ?thesis
    by (simp add: flow_step_def Let_def stream_opened_def connectReadyPeers_def fresh_run_jobs fresh_refresh
        kept_fresh kept_finish_stream split: option.split)
next
  case (Ev_unmount)
  then show ?thesis by (simp add: flow_step_def Let_def unmount_def kept_fresh)
qed (auto simp: flow_step_def Let_def boot_def commitSessions_def stream_message_def stream_error_def stream_closed_def
    app_state_changed_def sync_tick_def rendered_def on_peer_capabilities_def
    kept_fresh kept_start kept_send fresh_remove fresh_refresh fresh_signal_event kept_finish_stream
    fresh_peer_state fresh_peer_message fresh_probe_each fresh_run_jobs fresh_heartbeats fresh_reconcile split: option.split)

text \<open>One state leads to another by steps whose answers are possible.\<close>

inductive flow_leads :: "'n app \<Rightarrow> ('p, 's) flow \<Rightarrow> ('p, 's) flow \<Rightarrow> bool" for ap where
  leads_refl: "flow_leads ap fl fl"
| leads_step: "flow_leads ap fl0 fl \<Longrightarrow> event_ok ap ev fl \<Longrightarrow> flow_leads ap fl0 (flow_step ap sn ev fl)"

text \<open>Every delivery of a run began in a step at whose end the store had no other version of its session.\<close>

lemma delivery_began:
  assumes "flow_run ap appState fl" "(n, Tk_delivery d) \<in> set (fl_tasks fl)"
  shows "\<exists>fl1 sn ev d0. flow_run ap appState fl1 \<and> event_ok ap ev fl1 \<and> n \<notin> fst ` set (fl_tasks fl1) \<and>
    (n, Tk_delivery d0) \<in> set (fl_tasks (flow_step ap sn ev fl1)) \<and> dl_session d0 = dl_session d \<and>
    agrees (flow_step ap sn ev fl1) d0 \<and> flow_leads ap (flow_step ap sn ev fl1) fl"
  using assms
proof (induction arbitrary: d rule: flow_run.induct)
  case flow_start
  then show ?case by (simp add: new_flow_def)
next
  case (flow_more fl ev sn)
  show ?case
  proof (cases "goes_on fl n d")
    case True
    then obtain d' where d': "(n, Tk_delivery d') \<in> set (fl_tasks fl)" "dl_session d' = dl_session d"
      unfolding goes_on_def by blast
    from flow_more.IH [OF d'(1)] d'(2) flow_more.hyps(2) show ?thesis by (metis leads_step)
  next
    case False
    with fresh_flow_step [of fl ap sn ev] flow_more.prems
    have "fl_next fl \<le> n" "agrees (flow_step ap sn ev fl) d" unfolding fresh_def by blast+
    moreover have "n \<notin> fst ` set (fl_tasks fl)"
      using inv_tasks(1) [OF run_inv [OF flow_more.hyps(1)]] \<open>fl_next fl \<le> n\<close> by fastforce
    ultimately show ?thesis using flow_more.hyps flow_more.prems leads_refl by metis
  qed
qed

end
