(* ===== verification/SessionProperties.thy ===== *)
theory SessionProperties
  imports SessionDeliveries
begin

text \<open>
  What the session flow of the mobile client guarantees in every run, and what it does not: to whom
  messages go, that nobody waits for ever, that resynchronising is complete, that sending appends;
  and which later changes a late answer, a fixed trust test or a second channel undoes.
\<close>

section \<open>A client for examples\<close>

definition demo_app :: "unit app" where
  "demo_app = \<lparr>ap_device = demo_device,
     ap_texts = \<lparr>pv_connected = ''connected'', pv_negotiating = ''negotiating'', pv_failed = (\<lambda>r d. ''failed''),
       pv_disconnected = (\<lambda>r d. ''lost''), pv_relayOnline = ''relay'', pv_markFailed = (\<lambda>r d. ''failed''),
       pv_approved = ''approved'', pv_revoked = ''revoked'', pv_switched = ''relay'', pv_noPeer = ''no peer'',
       pv_noSignal = (\<lambda>t. ''no signal''), pv_sendFailed = ''failed''\<rparr>,
     ap_errorText = (\<lambda>err. ''error'')\<rparr>"

definition demo_seen :: "bool \<Rightarrow> seen" where
  "demo_seen ready = \<lparr>sn_env = dv_env demo_device (), sn_ready = ready, sn_negotiating = True, sn_readyState = 1\<rparr>"

definition keyed_session :: session_item where
  "keyed_session = demo_session\<lparr>si_devicePublicKey := Some ''pk''\<rparr>"

text \<open>A run through a list of events; \<open>quiet\<close> events need no knowledge of the answers.\<close>

fun flow_after :: "'n app \<Rightarrow> (seen \<times> ('p, 's) flow_event) list \<Rightarrow> ('p, 's) flow \<Rightarrow> ('p, 's) flow" where
  "flow_after ap [] fl = fl"
| "flow_after ap ((sn, ev) # evs) fl = flow_after ap evs (flow_step ap sn ev fl)"

definition quiet :: "('p, 's) flow_event \<Rightarrow> bool" where
  "quiet ev = (case ev of Ev_answer n a \<Rightarrow> (case a of An_sessions r \<Rightarrow> False | _ \<Rightarrow> True) | Ev_boot ss \<Rightarrow> sessions_wf ss | _ \<Rightarrow> True)"

lemma quiet_ok: "quiet ev \<Longrightarrow> event_ok ap ev fl"
  by (auto simp: quiet_def event_ok_def answer_ok_def split: flow_event.splits answer.splits option.splits flow_task.splits)

lemma run_after: "flow_run ap appState fl \<Longrightarrow> list_all (\<lambda>(sn, ev). quiet ev) evs \<Longrightarrow> flow_run ap appState (flow_after ap evs fl)"
proof (induction evs arbitrary: fl)
  case (Cons x evs)
  then show ?case by (cases x) (simp add: flow_more quiet_ok)
qed simp

lemma keyed_wf: "sessions_wf [keyed_session]"
  by (simp add: sessions_wf_def sessions_ok_def distinct_by_def keyed_session_def demo_session_def)

text \<open>The list is loaded, the channel reports that it is connected, and a ping is on its way.\<close>

definition probing :: "(unit, unit) flow" where
  "probing = flow_after demo_app [(demo_seen True, Ev_boot [keyed_session]), (demo_seen True, Ev_peer_state ''b1'' ''connected'' [])]
     (new_flow ''active'')"

definition sending :: "(unit, unit) flow" where
  "sending = flow_after demo_app [(demo_seen True, Ev_answer 1 (An_peer ())), (demo_seen True, Ev_answer 1 An_ok),
     (demo_seen True, Ev_answer 2 An_ok), (demo_seen True, Ev_answer 2 An_ok)] probing"

lemma probing_run: "flow_run demo_app ''active'' probing"
  unfolding probing_def by (intro run_after flow_start) (simp add: quiet_def keyed_wf)

lemma sending_run: "flow_run demo_app ''active'' sending"
  unfolding sending_def by (intro run_after probing_run) (simp add: quiet_def)

lemma probing_tasks: "map (\<lambda>(n, t). (n, awaits t)) (fl_tasks probing) = [(0, None), (1, None), (2, Some 1)]"
  by code_simp

lemma sending_phase:
  "(case map_of (fl_tasks sending) 2 of Some (Tk_delivery d) \<Rightarrow> dl_phase d = Dp_sending () | _ \<Rightarrow> False)"
  by code_simp

section \<open>To whom messages go, and who waits\<close>

text \<open>C8: A message of the mobile client leaves only for a session that was trusted when its delivery
  began. What is sent through a peer channel belongs to a session with trust \<open>active\<close> and a
  binding, what is relayed to one that is trusted, online, and has a binding and a desktop; and the
  trust, the status, the binding and the desktop of this session are those that the store had under
  its id at the end of the step in which the delivery began. The code speaks of the stored session as
  long as there is one: for a session that has been removed it uses the copy it was called with
  (\<open>removed_session_resent\<close>), and a later change of the trust is not looked at.\<close>

theorem messages_go_to_trusted:
  assumes "flow_run ap appState fl" "(n, Tk_delivery d) \<in> set (fl_tasks fl)"
  shows "(\<exists>fl1 sn ev d0. flow_run ap appState fl1 \<and> event_ok ap ev fl1 \<and> n \<notin> fst ` set (fl_tasks fl1) \<and>
      (n, Tk_delivery d0) \<in> set (fl_tasks (flow_step ap sn ev fl1)) \<and> dl_session d0 = dl_session d \<and>
      flow_leads ap (flow_step ap sn ev fl1) fl \<and>
      (\<forall>s. getSessionByIdSnapshot (fl_store (flow_step ap sn ev fl1)) (si_id (dl_session d)) = Some s \<longrightarrow>
         si_trustState s = si_trustState (dl_session d) \<and> si_status s = si_status (dl_session d) \<and>
         si_bindingId s = si_bindingId (dl_session d) \<and> si_deviceId s = si_deviceId (dl_session d))) \<and>
    (dl_phase d = Dp_sending p \<longrightarrow> si_trustState (dl_session d) = Some ''active'' \<and> js_trim (si_bindingId (dl_session d)) \<noteq> []) \<and>
    (dl_phase d = Dp_relaying \<longrightarrow> opt_trim (si_trustState (dl_session d)) = ''active'' \<and>
       si_status (dl_session d) \<noteq> Conn_offline \<and> js_trim (si_bindingId (dl_session d)) \<noteq> [] \<and> js_trim (si_deviceId (dl_session d)) \<noteq> [])"
proof -
  obtain fl1 sn ev d0 where b: "flow_run ap appState fl1" "event_ok ap ev fl1" "n \<notin> fst ` set (fl_tasks fl1)"
    "(n, Tk_delivery d0) \<in> set (fl_tasks (flow_step ap sn ev fl1))" "dl_session d0 = dl_session d"
    "agrees (flow_step ap sn ev fl1) d0" "flow_leads ap (flow_step ap sn ev fl1) fl"
    using delivery_began [OF assms] by blast
  have same: "si_trustState s = si_trustState (dl_session d) \<and> si_status s = si_status (dl_session d) \<and>
      si_bindingId s = si_bindingId (dl_session d) \<and> si_deviceId s = si_deviceId (dl_session d)"
    if "getSessionByIdSnapshot (fl_store (flow_step ap sn ev fl1)) (si_id (dl_session d)) = Some s" for s
    using b(6) that by (simp add: agrees_def b(5) face_def)
  have "delivery_ok d" using inv_tasks(2) [OF run_inv [OF assms(1)] assms(2)] by (simp add: task_ok_def)
  then have "(dl_phase d = Dp_sending p \<longrightarrow> si_trustState (dl_session d) = Some ''active'' \<and> js_trim (si_bindingId (dl_session d)) \<noteq> []) \<and>
    (dl_phase d = Dp_relaying \<longrightarrow> opt_trim (si_trustState (dl_session d)) = ''active'' \<and>
       si_status (dl_session d) \<noteq> Conn_offline \<and> js_trim (si_bindingId (dl_session d)) \<noteq> [] \<and> js_trim (si_deviceId (dl_session d)) \<noteq> [])"
    by (auto simp: delivery_ok_def trusted_def canUseRelayTransport_def)
  with b(1-5,7) same show ?thesis by blast
qed

theorem messages_go_to_trusted_witness:
  "\<exists>d. (2, Tk_delivery d) \<in> set (fl_tasks sending) \<and> dl_phase d = Dp_sending () \<and> si_trustState (dl_session d) = Some ''active'' \<and>
    (\<exists>fl1 sn ev. flow_run demo_app ''active'' fl1 \<and> 2 \<notin> fst ` set (fl_tasks fl1) \<and> flow_leads demo_app (flow_step demo_app sn ev fl1) sending)"
proof -
  obtain d where "map_of (fl_tasks sending) 2 = Some (Tk_delivery d)" and p: "dl_phase d = Dp_sending ()"
    using sending_phase by (auto split: option.splits flow_task.splits)
  then have d: "(2, Tk_delivery d) \<in> set (fl_tasks sending)" by (simp add: map_of_SomeD)
  show ?thesis using messages_go_to_trusted [OF sending_run d, of "()"] d p by blast
qed

text \<open>A queued resend goes out although the session has been removed meanwhile: \<open>deliverAppMessage\<close>
  then trusts the copy that the call was queued with.\<close>

lemma removed_session_resent:
  assumes "getSessionByIdSnapshot (fl_store fl) (si_id s) = None" "canUseRelayTransport s"
  shows "run_job ap e (J_resend s m True) rest fl =
    start (Tk_delivery \<lparr>dl_session = s, dl_message = log_message e (resend_origin m) m,
      dl_owner = \<lparr>ow_kind = Ok_ignore, ow_rest = rest\<rparr>, dl_phase = Dp_relaying\<rparr>) fl"
  using assms
  by (simp add: run_job_def resend_one_def deliverAppMessage_def Let_def latest_of_def shouldAttemptPeer_def relay_task_def)

text \<open>C11: No call of the mobile client waits for a promise nobody settles: what a task awaits is a
  connection another task is making, and when this one settles the waiting task goes on with its
  result; a pending connection of a binding is always that of a task for this binding.\<close>

theorem no_lost_wakeup:
  assumes run: "flow_run ap appState fl"
  shows "(\<forall>(n, t) \<in> set (fl_tasks fl). \<forall>k. awaits t = Some k \<longrightarrow>
      (\<exists>c. (k, Tk_connect c) \<in> set (fl_tasks fl) \<and>
        (\<forall>r. (n, wake k r t) \<in> set (fl_tasks (finish_connect k (cn_bindingId c) r fl)) \<and> awaits (wake k r t) = None))) \<and>
    (\<forall>(b, n) \<in> set (st_peerConnecting (fl_store fl)). \<exists>c. (n, Tk_connect c) \<in> set (fl_tasks fl) \<and> cn_bindingId c = b)"
proof (intro conjI ballI allI impI, goal_cases)
  case (1 x)
  obtain n t where x: "x = (n, t)" by fastforce
  have inv: "flow_inv fl" by (rule run_inv [OF run])
  have "\<exists>c. (k, Tk_connect c) \<in> set (fl_tasks fl) \<and>
      (\<forall>r. (n, wake k r t) \<in> set (fl_tasks (finish_connect k (cn_bindingId c) r fl)) \<and> awaits (wake k r t) = None)"
    if aw: "awaits t = Some k" for k
  proof -
    obtain c where c: "(k, Tk_connect c) \<in> set (fl_tasks fl)"
      using inv_tasks(3) [OF inv _ aw] 1 x by (auto simp: live_def)
    have "t = Tk_connect c" if "n = k" using eq_key_imp_eq_value [OF inv_distinct [OF inv]] c 1 x that by blast
    then have "n \<noteq> k" using aw by (auto simp: awaits_def)
    then have "(n, wake k r t) \<in> set (fl_tasks (finish_connect k (cn_bindingId c) r fl))" for r
      using 1 x by (force simp: finish_connect_def Let_def end_task_def)
    then show ?thesis using c aw by (auto simp: awaits_wake)
  qed
  then show ?case by (simp add: x)
next
  case (2 x)
  then show ?case using run_inv [OF run] by (auto simp: flow_inv_def conn_ok_def)
qed

theorem no_lost_wakeup_witness:
  "\<exists>c. (1, Tk_connect c) \<in> set (fl_tasks probing) \<and> (\<exists>t. (2, t) \<in> set (fl_tasks probing) \<and> awaits t = Some 1)"
proof -
  have "(2, Some 1) \<in> set (map (\<lambda>(n, t). (n, awaits t)) (fl_tasks probing))" by (simp add: probing_tasks)
  then obtain t where t: "(2, t) \<in> set (fl_tasks probing)" "awaits t = Some 1" by auto
  then show ?thesis using no_lost_wakeup [OF probing_run] by blast
qed

text \<open>C9: In every run of the mobile client no two of its sessions have the same id, the same binding or
  the same desktop, and every session has an id.\<close>

theorem sessions_stay_distinct:
  assumes "flow_run ap appState fl"
  shows "sessions_ok (st_sessions (fl_store fl)) \<and> list_all (\<lambda>s. si_id s \<noteq> []) (st_sessions (fl_store fl))"
  using run_inv [OF assms] by (simp add: flow_inv_def sessions_wf_def)

theorem sessions_stay_distinct_witness:
  "st_sessions (fl_store probing) \<noteq> [] \<and> sessions_ok (st_sessions (fl_store probing))"
proof -
  have "st_sessions (fl_store probing) \<noteq> []" by code_simp
  then show ?thesis using sessions_stay_distinct [OF probing_run] by blast
qed
section \<open>A connection is made or given up\<close>

text \<open>The steps that remain: a failed attempt leads through the pause to the next one.\<close>

definition connect_rank :: "'p connecting \<Rightarrow> nat" where
  "connect_rank c =
     4 * cn_attempts c +
     (case cn_phase c of Cp_pausing \<Rightarrow> 4 | Cp_ensuring existing \<Rightarrow> 3 | Cp_connecting p \<Rightarrow> 2 | Cp_polling p t \<Rightarrow> 1)"

definition overdue :: "jsnum \<Rightarrow> 'p connecting \<Rightarrow> bool" where
  "overdue now c =
     (case cn_phase c of Cp_polling p startedAt \<Rightarrow> \<not> js_less (js_sub now startedAt) (cn_timeout c) | _ \<Rightarrow> True)"

lemma map_of_update_all:
  "map_of (map (\<lambda>(i, u). (i, if i = n then t else u)) xs) k = (if k = n \<and> map_of xs n \<noteq> None then Some t else map_of xs k)"
  by (induction xs) auto

lemma map_of_replace:
  "map_of (fl_tasks (replace_task n t fl)) k =
    (if k = n \<and> map_of (fl_tasks fl) n \<noteq> None then Some t else map_of (fl_tasks fl) k)"
  by (simp add: replace_task_def map_of_update_all)

lemma map_of_end: "map_of (fl_tasks (end_task n fl)) n = None"
  by (simp add: end_task_def map_of_eq_None_iff image_iff)

lemma map_of_finish: "map_of (fl_tasks (finish_connect n b r fl)) n = None"
  by (auto simp: finish_connect_def Let_def end_task_def map_of_eq_None_iff image_iff)

text \<open>C21: A connection attempt ends: every answer brings it nearer to its end or ends it, except for a
  poll within its timeout that finds the channel not yet ready.\<close>

theorem connecting_ends:
  assumes "map_of (fl_tasks fl) n = Some (Tk_connect c)"
  shows "(case map_of (fl_tasks (flow_step ap sn (Ev_answer n a) fl)) n of
      None \<Rightarrow> True
    | Some t \<Rightarrow> (\<exists>c'. t = Tk_connect c' \<and> (connect_rank c' < connect_rank c \<or>
        (c' = c \<and> \<not> sn_ready sn \<and> \<not> overdue (e_now (sn_env sn)) c))))"
proof -
  show ?thesis
  proof (cases "cn_phase c")
    case (Cp_ensuring ex)
    obtain r fl' where e: "ensure_result ap (cn_target c) ex (made_by a) fl = (r, fl')" by fastforce
    show ?thesis using assms ensure_result_frame(1) [OF e]
      by (auto simp: flow_step_def step_task_def step_connect_def Let_def Cp_ensuring e map_of_replace map_of_finish
          connect_rank_def split: sum.split)
  next
    case (Cp_connecting p)
    then show ?thesis using assms
      by (auto simp: flow_step_def step_task_def step_connect_def Let_def map_of_replace map_of_finish
          connect_rank_def split: answer.split)
  next
    case (Cp_polling p t)
    then show ?thesis using assms
      by (auto simp: flow_step_def step_task_def step_connect_def Let_def map_of_replace map_of_finish
          connect_rank_def overdue_def)
  next
    case Cp_pausing
    then show ?thesis using assms
      by (auto simp: flow_step_def step_task_def step_connect_def Let_def map_of_replace map_of_finish
          connect_rank_def split: sum.split)
  qed
qed

theorem connecting_ends_witness:
  "\<exists>c. map_of (fl_tasks probing) 1 = Some (Tk_connect c) \<and>
     (case map_of (fl_tasks (flow_step demo_app (demo_seen True) (Ev_answer 1 (An_error No_relay)) probing)) 1 of
        None \<Rightarrow> True | Some t \<Rightarrow> \<exists>c'. t = Tk_connect c' \<and> connect_rank c' < connect_rank c)"
proof -
  have "(case map_of (fl_tasks probing) 1 of Some (Tk_connect c) \<Rightarrow> True | _ \<Rightarrow> False)" by code_simp
  then obtain c where c: "map_of (fl_tasks probing) 1 = Some (Tk_connect c)" by (auto split: option.splits flow_task.splits)
  show ?thesis
    using connecting_ends [OF c, of "demo_seen True" demo_app "An_error No_relay"] c
    by (auto simp: demo_seen_def split: option.splits)
qed

section \<open>What a late answer loses\<close>

definition session_ids :: "('p, 's) flow \<Rightarrow> string list" where
  "session_ids fl = map si_id (st_sessions (fl_store fl))"

text \<open>Removing or revoking a session is undone by a refresh that was under way: every session of the
  list the refresh began with is in the list again, with its old trust, whatever happened meanwhile.\<close>

theorem refresh_restores:
  assumes run: "flow_run ap appState fl" and t: "map_of (fl_tasks fl) n = Some (Tk_refresh b k)"
    and c: "\<not> (k = Rc_boot \<and> fl_cancelled fl)" and r: "refreshSessionsV2 (ap_device ap) b w = (Inr rs, w')"
    and s: "s \<in> set b"
  shows "\<exists>s' \<in> set (st_sessions (fl_store (flow_step ap sn (Ev_answer n (An_sessions rs)) fl))).
    si_id s' = si_id s \<and> (si_trustState s \<noteq> None \<longrightarrow> si_trustState s' = si_trustState s)"
proof -
  have "sessions_wf b" using inv_task [OF run_inv [OF run] t] by (simp add: task_ok_def)
  then have "list_all2 same_identity b rs" using r by (intro refresh_identity wf_distinct_ids)
  then obtain x where x: "x \<in> set rs" "same_identity s x"
    using s by (metis list_all2_conv_all_nth in_set_conv_nth)
  let ?m = "merge_one ap (st_sessions (fl_store fl)) x"
  have m: "?m \<in> set (mergeRefreshedSessions ap (st_sessions (fl_store fl)) rs)" by (rule merge_has [OF x(1)])
  obtain s' where s': "s' \<in> set (st_sessions (fl_store (flow_step ap sn (Ev_answer n (An_sessions rs)) fl)))" "face s' = face ?m"
    using faces_member [OF answered_refresh [OF t c] m] by blast
  have "si_id s' = si_id ?m" "si_trustState s' = si_trustState ?m" using s'(2) by (simp_all add: face_def)
  moreover have "si_id ?m = si_id s" using x(2) merge_one_keys [of ap _ x] by (simp add: same_identity_def session_keys_def)
  moreover have "si_trustState ?m = si_trustState s" if "si_trustState s \<noteq> None"
    using that x(2) merge_one_trust [of x _ ap] by (auto simp: same_identity_def)
  ultimately show ?thesis using s'(1) by auto
qed

text \<open>The session is removed while the first refresh is still running.\<close>

definition removed :: "(unit, unit) flow" where
  "removed = flow_after demo_app [(demo_seen True, Ev_boot [keyed_session]), (demo_seen True, Ev_remove ''s1'')] (new_flow ''active'')"

lemma removed_run: "flow_run demo_app ''active'' removed"
  unfolding removed_def by (intro run_after flow_start) (simp add: quiet_def keyed_wf)

lemma removed_facts:
  "session_ids removed = [] \<and> \<not> fl_cancelled removed \<and>
   (case map_of (fl_tasks removed) 0 of Some (Tk_refresh [s] Rc_boot) \<Rightarrow> s = keyed_session | _ \<Rightarrow> False)"
  by code_simp

theorem refresh_restores_witness:
  "\<exists>rs. session_ids removed = [] \<and>
     ''s1'' \<in> set (session_ids (flow_step demo_app (demo_seen True) (Ev_answer 0 (An_sessions rs)) removed))"
proof -
  have "server_of demo_device keyed_session = Inr ''http://h.org''" by code_simp
  then obtain rs w' where r: "refreshSessionsV2 (ap_device demo_app) [keyed_session] demo_world = (Inr rs, w')"
    using refresh_single by (fastforce simp: demo_app_def)
  have t: "map_of (fl_tasks removed) 0 = Some (Tk_refresh [keyed_session] Rc_boot)"
    using removed_facts by (auto split: option.splits flow_task.splits list.splits refresh_cont.splits)
  have "si_id keyed_session = ''s1''" by (simp add: keyed_session_def demo_session_def)
  then show ?thesis
    using refresh_restores [OF removed_run t _ r, of keyed_session "demo_seen True"] removed_facts
    by (force simp: session_ids_def)
qed

text \<open>What a scan finds replaces the list: after it every session has the messages, the trust and the
  status that were computed from the list at its beginning, and a message that arrived or was sent
  meanwhile is lost.\<close>

theorem scan_forgets:
  assumes "map_of (fl_tasks fl) n = Some (Tk_scan raw b)"
  shows "map (\<lambda>s. (si_id s, si_trustState s, si_status s, si_messages s))
      (st_sessions (fl_store (flow_step ap sn (Ev_answer n (An_sessions rs)) fl))) =
    map (\<lambda>s. (si_id s, si_trustState s, si_status s, si_messages s)) rs"
proof -
  have f: "map face (st_sessions (fl_store (flow_step ap sn (Ev_answer n (An_sessions rs)) fl))) = map face rs"
    using assms faces_scan_done [of ap "sn_env sn" rs "end_task n fl"]
    by (simp add: flow_step_def step_task_def Let_def flow_faces_def faces_def)
  have g: "(\<lambda>(i, b, d, t, st, ms). (i, t, st, ms)) \<circ> face = (\<lambda>s. (si_id s, si_trustState s, si_status s, si_messages s))"
    by (simp add: fun_eq_iff face_def)
  show ?thesis using arg_cong [OF f, of "map (\<lambda>(i, b, d, t, st, ms). (i, t, st, ms))"] unfolding map_map g .
qed

definition scanning :: "(unit, unit) flow" where
  "scanning = flow_after demo_app [(demo_seen True, Ev_boot [keyed_session]), (demo_seen True, Ev_scan ''qr''),
     (demo_seen True, Ev_send ''s1'' ''hello'' ''m1'' (Some (Fin 5)))] (new_flow ''active'')"

definition log_texts :: "('p, 's) flow \<Rightarrow> string list list" where
  "log_texts fl = map (\<lambda>s. map msg_text (si_messages s)) (st_sessions (fl_store fl))"

lemma scanning_facts:
  "log_texts scanning = [[''hello'']] \<and>
   (case map_of (fl_tasks scanning) 1 of Some (Tk_scan raw b) \<Rightarrow> b = [keyed_session] | _ \<Rightarrow> False)"
  by code_simp

theorem scan_forgets_witness:
  "log_texts scanning = [[''hello'']] \<and>
   log_texts (flow_step demo_app (demo_seen True) (Ev_answer 1 (An_sessions [keyed_session])) scanning) = [[]]"
proof -
  obtain raw where t: "map_of (fl_tasks scanning) 1 = Some (Tk_scan raw [keyed_session])"
    using scanning_facts by (auto split: option.splits flow_task.splits)
  let ?after = "st_sessions (fl_store (flow_step demo_app (demo_seen True) (Ev_answer 1 (An_sessions [keyed_session])) scanning))"
  have "map (\<lambda>(i, t, st, ms). map msg_text ms) (map (\<lambda>s. (si_id s, si_trustState s, si_status s, si_messages s)) ?after) = [[]]"
    unfolding scan_forgets [OF t] by (simp add: keyed_session_def demo_session_def)
  then show ?thesis using scanning_facts by (simp add: log_texts_def comp_def)
qed
lemma last_of_append: "last_of (xs @ ys) k i = (case last_of ys k i of Some m \<Rightarrow> Some m | None \<Rightarrow> last_of xs k i)"
  by (induction ys rule: rev_induct) (auto simp: last_of_snoc last_of_def simp flip: append_assoc split: option.splits)

lemma reconciled_has:
  assumes "conforming_sort (dv_sort dv)" "last_of ms Chat i = Some m"
  shows "\<exists>x \<in> set (fst (reconciled_of dv ms)). msg_id x = msg_id (normalizeChatMessage m) \<and>
    msg_deliveryStatus x = msg_deliveryStatus (normalizeChatMessage m)"
proof -
  obtain r where r: "reconcileSessionMessages (dv_sort dv) (dv_localeCompare dv) ms = Some r"
    and s: "set (rc_messages r) = {normalizeChatMessage m | m i. last_of ms System i = Some m} \<union>
      {with_missing (rc_missingMessageIds r) (normalizeChatMessage m) | m i. last_of ms Chat i = Some m}"
    using reconciled_messages [OF assms(1)] by blast
  have "with_missing (rc_missingMessageIds r) (normalizeChatMessage m) \<in> set (rc_messages r)"
    unfolding s using assms(2) by blast
  moreover have "msg_id (with_missing ids y) = msg_id y" "msg_deliveryStatus (with_missing ids y) = msg_deliveryStatus y" for ids y
    by (simp_all add: with_missing_def)
  moreover have "fst (reconciled_of dv ms) = rc_messages r" by (simp add: reconciled_of_def r)
  ultimately show ?thesis by metis
qed

text \<open>An answer of a refresh takes back what happened to a message meanwhile: where the list still has
  the session, the copy of a chat message in the answer replaces the present one, with the delivery
  status it had when the refresh began.\<close>

theorem stale_status_wins:
  assumes t: "map_of (fl_tasks fl) n = Some (Tk_refresh b k)" and c: "\<not> (k = Rc_boot \<and> fl_cancelled fl)"
    and srt: "conforming_sort (dv_sort (ap_device ap))" and x: "x \<in> set rs"
    and l: "find_session (\<lambda>item. sessionsMatch item x) (st_sessions (fl_store fl)) = Some l"
    and m: "last_of (si_messages x) Chat i = Some m"
  shows "\<exists>s \<in> set (st_sessions (fl_store (flow_step ap sn (Ev_answer n (An_sessions rs)) fl))). si_id s = si_id x \<and>
    (\<exists>y \<in> set (si_messages s). msg_id y = msg_id (normalizeChatMessage m) \<and>
       msg_deliveryStatus y = msg_deliveryStatus (normalizeChatMessage m))"
proof -
  let ?m = "merge_one ap (st_sessions (fl_store fl)) x"
  have "?m \<in> set (mergeRefreshedSessions ap (st_sessions (fl_store fl)) rs)" by (rule merge_has [OF x])
  then obtain s where s: "s \<in> set (st_sessions (fl_store (flow_step ap sn (Ev_answer n (An_sessions rs)) fl)))" "face s = face ?m"
    using faces_member [OF answered_refresh [OF t c]] by blast
  have "si_messages ?m = fst (reconciled_of (ap_device ap) (si_messages l @ si_messages x))"
    by (simp add: merge_one_def l Let_def split: prod.split)
  moreover have "last_of (si_messages l @ si_messages x) Chat i = Some m" by (simp add: last_of_append m)
  moreover have "si_id ?m = si_id x" using merge_one_keys [of ap _ x] by (simp add: session_keys_def)
  moreover have "si_id s = si_id ?m" "si_messages s = si_messages ?m" using s(2) by (simp_all add: face_def)
  ultimately show ?thesis using s(1) reconciled_has [OF srt] by metis
qed

text \<open>A message is on its way when a refresh begins, and is sent before the refresh is answered.\<close>

definition own_message :: "delivery_status \<Rightarrow> chat_message" where
  "own_message st =
     \<lparr>msg_id = ''m1'', msg_from = Self, msg_text = ''hello'', msg_createdAt = ''time'', msg_ts = Fin 5, msg_kind = Some Chat,
      msg_origin = Some Mobile_origin, msg_originSeq = Some (Fin 1), msg_after = [], msg_missingAfter = [],
      msg_deliveryStatus = Some st, msg_deliveryError = []\<rparr>"

definition delivered :: "(unit, unit) flow" where
  "delivered = on_store (updateMessageDeliveryState ''s1'' ''m1'' delivery_status.Sent [])
     (flow_after demo_app [(demo_seen True, Ev_boot [keyed_session\<lparr>si_messages := [own_message delivery_status.Sending]\<rparr>])] (new_flow ''active''))"

definition log_states :: "('p, 's) flow \<Rightarrow> delivery_status option list list" where
  "log_states fl = map (\<lambda>s. map msg_deliveryStatus (si_messages s)) (st_sessions (fl_store fl))"

theorem stale_status_wins_witness:
  "log_states delivered = [[Some delivery_status.Sent]] \<and>
   Some delivery_status.Sending \<in> set (concat (log_states (flow_step demo_app (demo_seen True)
     (Ev_answer 0 (An_sessions [keyed_session\<lparr>si_messages := [own_message delivery_status.Sending]\<rparr>])) delivered)))"
proof -
  let ?x = "keyed_session\<lparr>si_messages := [own_message delivery_status.Sending]\<rparr>"
  have d: "log_states delivered = [[Some delivery_status.Sent]]" by code_simp
  have "(case map_of (fl_tasks delivered) 0 of Some (Tk_refresh b k) \<Rightarrow> b = [?x] \<and> k = Rc_boot | _ \<Rightarrow> False)" by code_simp
  then have t: "map_of (fl_tasks delivered) 0 = Some (Tk_refresh [?x] Rc_boot)"
    by (auto split: option.splits flow_task.splits)
  have c: "\<not> fl_cancelled delivered" by code_simp
  have "find_session (\<lambda>item. sessionsMatch item ?x) (st_sessions (fl_store delivered)) \<noteq> None" by code_simp
  then obtain l where l: "find_session (\<lambda>item. sessionsMatch item ?x) (st_sessions (fl_store delivered)) = Some l" by blast
  have srt: "conforming_sort (dv_sort (ap_device demo_app))" by (simp add: demo_app_def demo_device_def conforming_js_sort)
  have m: "last_of (si_messages ?x) Chat ''m1'' = Some (own_message delivery_status.Sending)" by code_simp
  have n: "msg_deliveryStatus (normalizeChatMessage (own_message delivery_status.Sending)) = Some delivery_status.Sending" by code_simp
  show ?thesis
    using stale_status_wins [OF t _ srt _ l m, of "[?x]" "demo_seen True"] d c n by (force simp: log_states_def)
qed
section \<open>Resynchronising with the desktop\<close>

lemma js_diff_sign_pullback: "comparator_on A (\<lambda>x y. js_diff_sign (js_or_zero (f x)) (js_or_zero (f y)))"
proof
  fix x y z
  show "sgn (js_diff_sign (js_or_zero (f y)) (js_or_zero (f x))) = - sgn (js_diff_sign (js_or_zero (f x)) (js_or_zero (f y)))"
    by (auto simp: js_diff_sign_def dest: js_less_asym)
  assume "js_diff_sign (js_or_zero (f x)) (js_or_zero (f y)) \<le> 0" "js_diff_sign (js_or_zero (f y)) (js_or_zero (f z)) \<le> 0"
  then show "js_diff_sign (js_or_zero (f x)) (js_or_zero (f z)) \<le> 0"
    by (intro numbers.cmp_trans [of "js_or_zero (f x)" "js_or_zero (f y)" "js_or_zero (f z)"]) simp_all
qed

lemma opt_number_or_zero: "opt_number n = js_or_zero (case n of Some k \<Rightarrow> k | None \<Rightarrow> Fin 0)"
  by (simp add: opt_number_def js_or_zero_def split: option.split)

lemma missing_sorted:
  assumes "conforming_sort (dv_sort dv)"
  shows "cmp_sorted (\<lambda>l r. js_diff_sign (opt_number (msg_originSeq l)) (opt_number (msg_originSeq r))) (missing_at_desktop dv n ms)"
proof -
  let ?c = "\<lambda>l r. js_diff_sign (opt_number (msg_originSeq l)) (opt_number (msg_originSeq r))"
  have c: "comparator_on A ?c" for A unfolding opt_number_or_zero by (rule js_diff_sign_pullback)
  have "dv_sort dv ?c xs = js_sort ?c xs" for xs using assms c [of "set xs"] unfolding conforming_sort_def by blast
  moreover have "cmp_sorted ?c (js_sort ?c xs)" for xs
    by (rule comparator_on.sorted_js_sort [OF c [of UNIV]]) simp
  ultimately show ?thesis by (simp add: missing_at_desktop_def)
qed

lemma missing_set:
  assumes "conforming_sort (dv_sort dv)"
  shows "set (missing_at_desktop dv n ms) =
    {m \<in> set ms. own_chat m \<and> js_less (js_count n) (js_trunc (opt_number (msg_originSeq m)))}"
proof -
  have "set (dv_sort dv c xs) = set xs" for c and xs :: "chat_message list"
    using assms by (metis conforming_sort_def set_mset_mset)
  then show ?thesis by (auto simp: missing_at_desktop_def)
qed

text \<open>C10: A resynchronisation is complete for the messages that have a number, as long as no number
  was given twice: when the desktop reports up to which number it holds the messages of the mobile
  client, every own message of the client with a number is resent unless the desktop holds a message
  of the client with its id; those that are resent go in the order of their numbers, before the
  client asks for what it lacks itself. A message without a number is never resent, and the numbers
  start again once old messages have been cut off the log.\<close>

theorem resync_complete:
  assumes srt: "conforming_sort (dv_sort (ap_device ap))"
    and st: "cs_mobileSeq st = contiguousSeq Mobile_origin held"
    and m: "m \<in> set (si_messages (latest_of fl s))" "own_chat m" "msg_originSeq m = Some (Fin (of_nat k))" "1 \<le> k"
    and once: "\<forall>h \<in> set held. normalizeOrigin h = Mobile_origin \<and> normalizeOriginSeq h = Fin (of_nat k) \<longrightarrow> msg_id h = msg_id m"
  shows "\<exists>ms gap. handleDesktopSyncState ap s st relay fl = map (\<lambda>x. J_resync (latest_of fl s) x relay) ms @ [gap] \<and>
    cmp_sorted (\<lambda>l r. js_diff_sign (opt_number (msg_originSeq l)) (opt_number (msg_originSeq r))) ms \<and>
    set ms \<subseteq> {x \<in> set (si_messages (latest_of fl s)). own_chat x} \<and>
    (m \<in> set ms \<or> (\<exists>h \<in> set held. normalizeOrigin h = Mobile_origin \<and> msg_id h = msg_id m))"
proof -
  obtain n where n: "contiguousSeq Mobile_origin held = Fin (of_nat n)"
    "contiguous_upto (set (origin_seqs Mobile_origin held)) n"
    using contiguousSeq_upto by blast
  let ?ms = "missing_at_desktop (ap_device ap) (cs_mobileSeq st) (si_messages (latest_of fl s))"
  have k: "js_trunc (opt_number (msg_originSeq m)) = Fin (of_nat k)"
    using m(3,4) by (simp add: opt_number_def js_or_zero_def js_num_truthy_def)
  have "m \<in> set ?ms" if "n < k"
    using m that k by (simp add: missing_set [OF srt] st n(1) js_count_idem)
  moreover have "\<exists>h \<in> set held. normalizeOrigin h = Mobile_origin \<and> msg_id h = msg_id m" if "\<not> n < k"
  proof -
    have "Fin (of_nat k) \<in> set (origin_seqs Mobile_origin held)"
      using n(2) m(4) that by (simp add: contiguous_upto_def)
    then obtain h where "h \<in> set held" "normalizeOrigin h = Mobile_origin" "normalizeOriginSeq h = Fin (of_nat k)"
      by (auto simp: origin_seqs_def)
    then show ?thesis using once by blast
  qed
  ultimately show ?thesis
    using missing_sorted [OF srt] missing_set [OF srt]
    by (intro exI [of _ ?ms]) (auto simp: handleDesktopSyncState_def Let_def)
qed

definition resync_log :: "chat_message list" where
  "resync_log = [own_message delivery_status.Sent, (own_message delivery_status.Sent)\<lparr>msg_id := ''m2'', msg_originSeq := Some (Fin (of_nat 2))\<rparr>]"

definition desktop_state :: chat_sync_state where
  "desktop_state = \<lparr>cs_hostSeq = Fin 0, cs_mobileSeq = contiguousSeq Mobile_origin [own_message delivery_status.Sent],
     cs_leafIds = [], cs_ts = Fin 0, cs_from = Desktop\<rparr>"

theorem resync_complete_witness:
  "\<exists>m ms gap. m \<in> set ms \<and> msg_id m = ''m2'' \<and>
     handleDesktopSyncState demo_app (keyed_session\<lparr>si_messages := resync_log\<rparr>) desktop_state True
       (new_flow ''active'' :: (unit, unit) flow) = map (\<lambda>x. J_resync (keyed_session\<lparr>si_messages := resync_log\<rparr>) x True) ms @ [gap]"
proof -
  let ?s = "keyed_session\<lparr>si_messages := resync_log\<rparr>" and ?fl = "new_flow ''active'' :: (unit, unit) flow"
  let ?m = "(own_message delivery_status.Sent)\<lparr>msg_id := ''m2'', msg_originSeq := Some (Fin (of_nat 2))\<rparr>"
  have srt: "conforming_sort (dv_sort (ap_device demo_app))" by (simp add: demo_app_def demo_device_def conforming_js_sort)
  have l: "latest_of ?fl ?s = ?s" by (simp add: latest_of_def getSessionByIdSnapshot_def new_flow_def new_store_def find_session_def)
  have m: "?m \<in> set (si_messages (latest_of ?fl ?s))" "own_chat ?m" "msg_originSeq ?m = Some (Fin (of_nat 2))" "msg_id ?m = ''m2''"
    unfolding l by (simp_all add: resync_log_def own_chat_def own_message_def)
  have st: "cs_mobileSeq desktop_state = contiguousSeq Mobile_origin [own_message delivery_status.Sent]"
    by (simp add: desktop_state_def)
  have held: "normalizeOriginSeq (own_message delivery_status.Sent) \<noteq> Fin (of_nat 2)"
    "msg_id (own_message delivery_status.Sent) \<noteq> ''m2''" by code_simp+
  then have once: "\<forall>h \<in> set [own_message delivery_status.Sent].
      normalizeOrigin h = Mobile_origin \<and> normalizeOriginSeq h = Fin (of_nat 2) \<longrightarrow> msg_id h = msg_id ?m" by simp
  have "1 \<le> (2::nat)" by simp
  from resync_complete [OF srt st m(1-3) this once, of True] obtain ms gap where
    "handleDesktopSyncState demo_app ?s desktop_state True ?fl = map (\<lambda>x. J_resync ?s x True) ms @ [gap]"
    "?m \<in> set ms \<or> (\<exists>h \<in> set [own_message delivery_status.Sent]. normalizeOrigin h = Mobile_origin \<and> msg_id h = msg_id ?m)"
    unfolding l by blast
  moreover from this(2) have "?m \<in> set ms" using held(2) m(4) by simp
  ultimately show ?thesis using m(4) by blast
qed

section \<open>Channels of sessions that are gone\<close>

lemma peers_update [simp]: "st_peers (updatePeerState ap b state detail st) = st_peers st"
  "st_effects (updatePeerState ap b state detail st) = st_effects st"
  by (simp_all add: updatePeerState_def updateSessions_def Let_def)

lemma peers_forget [simp]: "st_peers (forget_peer key st) = st_peers st" "st_effects (forget_peer key st) = st_effects st"
  by (simp_all add: forget_peer_def)

lemma peers_close:
  "st_peers (closePeer ap b detail st) =
    (if js_trim b = [] then st_peers st else AList.delete (js_trim b) (st_peers st))"
  by (auto simp: closePeer_def Let_def split: option.split)
    (metis (no_types) AList.delete_id map_of_eq_None_iff)

lemma effects_close:
  "\<exists>xs. st_effects (closePeer ap b detail st) = st_effects st @ xs"
  "js_trim b \<noteq> [] \<Longrightarrow> map_of (st_peers st) (js_trim b) = Some p \<Longrightarrow> Closed_peer p \<in> set (st_effects (closePeer ap b detail st))"
  by (auto simp: closePeer_def Let_def split: option.split)

definition channel_keys :: "('p, 's) store \<Rightarrow> bool" where
  "channel_keys st = (distinct (map fst (st_peers st)) \<and> list_all (\<lambda>(b, p). b \<noteq> [] \<and> js_trim b = b) (st_peers st))"

text \<open>Closing the channels of a list of keys, where \<open>stale\<close> says so.\<close>

definition close_each :: "'n app \<Rightarrow> (string \<Rightarrow> bool) \<Rightarrow> string list \<Rightarrow> ('p, 's) store \<Rightarrow> ('p, 's) store" where
  "close_each ap stale = fold (\<lambda>b st. if stale b then closePeer ap b ''session removed'' st else st)"

lemma close_each_step: "close_each ap stale (b # bs) st =
    close_each ap stale bs (if stale b then closePeer ap b ''session removed'' st else st)"
  by (simp add: close_each_def)

lemma close_each_peers:
  assumes "list_all (\<lambda>b. b \<noteq> [] \<and> js_trim b = b) bs"
  shows "st_peers (close_each ap stale bs st) = filter (\<lambda>(b, p). \<not> (b \<in> set bs \<and> stale b)) (st_peers st)"
  using assms
proof (induction bs arbitrary: st)
  case (Cons b bs)
  then show ?case
    by (simp add: close_each_step peers_close AList.delete_eq) (auto intro!: filter_cong)
qed (simp add: close_each_def)

lemma close_each_effects:
  assumes "list_all (\<lambda>b. b \<noteq> [] \<and> js_trim b = b) bs" "distinct (map fst (st_peers st))" "(b, p) \<in> set (st_peers st)"
  shows "(b, p) \<in> set (st_peers (close_each ap stale bs st)) \<or> Closed_peer p \<in> set (st_effects (close_each ap stale bs st))"
  using assms
proof (induction bs arbitrary: st)
  case (Cons c cs)
  have mono: "x \<in> set (st_effects (close_each ap stale bs st))" if "x \<in> set (st_effects st)" for x bs st
    using that
  proof (induction bs arbitrary: st)
    case (Cons d ds)
    obtain xs where "st_effects (closePeer ap d ''session removed'' st) = st_effects st @ xs" using effects_close(1) by blast
    then show ?case using Cons by (simp add: close_each_step)
  qed (simp add: close_each_def)
  let ?st = "if stale c then closePeer ap c ''session removed'' st else st"
  have d: "distinct (map fst (st_peers ?st))" using Cons.prems by (simp add: peers_close distinct_delete)
  show ?case
  proof (cases "(b, p) \<in> set (st_peers ?st)")
    case True
    then show ?thesis using Cons.IH [of ?st] Cons.prems d by (simp add: close_each_step)
  next
    case False
    then have c: "stale c" "c = b" using Cons.prems by (auto simp: peers_close AList.delete_eq split: if_splits)
    have "map_of (st_peers st) (js_trim c) = Some p" using Cons.prems c by simp
    then have "Closed_peer p \<in> set (st_effects ?st)" using effects_close(2) [of c st p ap] Cons.prems c by simp
    then have "Closed_peer p \<in> set (st_effects (close_each ap stale cs ?st))" by (rule mono)
    then show ?thesis by (simp add: close_each_step)
  qed
qed (simp add: close_each_def)

lemma other_peers [simp]:
  "st_peers (pruneLinkProbeState ss st) = st_peers st" "st_effects (pruneLinkProbeState ss st) = st_effects st"
  "st_peers (prunePresenceHeartbeatTimestamps ss st) = st_peers st"
  "st_effects (prunePresenceHeartbeatTimestamps ss st) = st_effects st"
  "st_peers (pruneMessageSyncTimestamps ss st) = st_peers st" "st_effects (pruneMessageSyncTimestamps ss st) = st_effects st"
  by (simp_all add: pruneLinkProbeState_def prunePresenceHeartbeatTimestamps_def pruneMessageSyncTimestamps_def)

lemma peers_closeSignal: "st_peers (closeSignal b st) = st_peers st \<and> (\<exists>xs. st_effects (closeSignal b st) = st_effects st @ xs)"
  by (auto simp: closeSignal_def Let_def split: option.split)

lemma peers_close_unused:
  "st_peers (close_unused_signals ss st) = st_peers st \<and> set (st_effects st) \<subseteq> set (st_effects (close_unused_signals ss st))"
proof -
  have "st_peers (fold (\<lambda>b st. if b \<in> U then st else closeSignal b st) bs st) = st_peers st \<and>
      set (st_effects st) \<subseteq> set (st_effects (fold (\<lambda>b st. if b \<in> U then st else closeSignal b st) bs st))" for U bs
  proof (induction bs arbitrary: st)
    case (Cons b bs)
    obtain xs where "st_effects (closeSignal b st) = st_effects st @ xs" using peers_closeSignal by blast
    then show ?case using Cons.IH [of st] Cons.IH [of "closeSignal b st"] peers_closeSignal [of b st] by auto
  qed simp
  then show ?thesis by (simp add: close_unused_signals_def)
qed

text \<open>C13: Reconciling the channels with the list leaves no channel open that does not belong to a
  trusted session of the list, closes every other one, and forgets none without closing it.\<close>

theorem reconciling_closes_channels:
  assumes "channel_keys st"
  shows "(\<forall>(b, p) \<in> set (st_peers (reconcile_store ap ss st)).
      \<exists>s \<in> set ss. si_bindingId s = b \<and> si_trustState s = Some ''active'') \<and>
    (\<forall>(b, p) \<in> set (st_peers st). (b, p) \<in> set (st_peers (reconcile_store ap ss st)) \<or>
      Closed_peer p \<in> set (st_effects (reconcile_store ap ss st)))"
proof -
  let ?c = "close_each ap (stale_peer ss) (map fst (st_peers st)) st"
  have k: "list_all (\<lambda>b. b \<noteq> [] \<and> js_trim b = b) (map fst (st_peers st))" "distinct (map fst (st_peers st))"
    using assms by (auto simp: channel_keys_def list_all_iff)
  have c: "closeStalePeers ap ss st = ?c" by (simp add: closeStalePeers_def close_each_def)
  have p: "st_peers (reconcile_store ap ss st) = st_peers ?c" "set (st_effects ?c) \<subseteq> set (st_effects (reconcile_store ap ss st))"
    using peers_close_unused [of ss "pruneLinkProbeState ss (prunePresenceHeartbeatTimestamps ss (pruneMessageSyncTimestamps ss ?c))"]
    by (simp_all add: reconcile_store_def c)
  have "\<exists>s \<in> set ss. si_bindingId s = b \<and> si_trustState s = Some ''active''" if "(b, q) \<in> set (st_peers ?c)" for b q
  proof -
    have "\<not> stale_peer ss b" using that by (force simp: close_each_peers [OF k(1)])
    then obtain s where "find_session (\<lambda>s. si_bindingId s = b) ss = Some s" "si_trustState s = Some ''active''"
      by (auto simp: stale_peer_def split: option.splits)
    then show ?thesis using find_session_Some by fastforce
  qed
  moreover have "(b, q) \<in> set (st_peers ?c) \<or> Closed_peer q \<in> set (st_effects (reconcile_store ap ss st))"
    if "(b, q) \<in> set (st_peers st)" for b q
    using close_each_effects [OF k that, of ap "stale_peer ss"] p(2) by blast
  ultimately show ?thesis unfolding p(1) by blast
qed

definition two_channels :: "(nat, unit) store" where
  "two_channels = new_store\<lparr>st_peers := [(''b1'', 1), (''b2'', 2)]\<rparr>"

theorem reconciling_closes_channels_witness:
  "map fst (st_peers two_channels) = [''b1'', ''b2''] \<and>
   fst ` set (st_peers (reconcile_store demo_app [keyed_session] two_channels)) \<subseteq> {''b1''} \<and>
   Closed_peer 2 \<in> set (st_effects (reconcile_store demo_app [keyed_session] two_channels))"
proof -
  have k: "channel_keys two_channels" by code_simp
  have b: "si_bindingId keyed_session = ''b1''" by (simp add: keyed_session_def demo_session_def)
  have p: "st_peers two_channels = [(''b1'', 1), (''b2'', 2)]" by (simp add: two_channels_def)
  show ?thesis using reconciling_closes_channels [OF k, of demo_app "[keyed_session]"] b p by fastforce
qed
section \<open>Races\<close>

text \<open>Revoking or removing a session does not stop what is on its way to it: when the peer channel
  fails, also because it has been closed, the message goes to the relay if the session could use it
  when the delivery began, whatever the list says now.\<close>

theorem revocation_not_rechecked:
  assumes t: "map_of (fl_tasks fl) n = Some (Tk_delivery d)" and p: "dl_phase d = Dp_sending p"
    and r: "canUseRelayTransport (dl_session d)"
  shows "map_of (fl_tasks (flow_step ap sn (Ev_answer n (An_error err)) fl)) n = Some (Tk_delivery (d\<lparr>dl_phase := Dp_relaying\<rparr>))"
proof -
  have "relay_task (dl_session d) (dl_message d) (dl_owner d) = Tk_delivery (d\<lparr>dl_phase := Dp_relaying\<rparr>)"
    using r by (simp add: relay_task_def)
  then show ?thesis using t
    by (simp add: flow_step_def step_task_def step_delivery_def Let_def p peer_failed_def map_of_replace)
qed

definition withdrawn :: "(unit, unit) flow" where
  "withdrawn = flow_after demo_app [(demo_seen True, Ev_remove ''s1'')] sending"

theorem revocation_not_rechecked_witness:
  "flow_run demo_app ''active'' withdrawn \<and> session_ids withdrawn = [] \<and>
   (\<exists>d. map_of (fl_tasks (flow_step demo_app (demo_seen True) (Ev_answer 2 (An_error No_relay)) withdrawn)) 2 = Some (Tk_delivery d) \<and>
      dl_phase d = Dp_relaying \<and> si_id (dl_session d) = ''s1'')"
proof -
  have run: "flow_run demo_app ''active'' withdrawn"
    unfolding withdrawn_def by (intro run_after sending_run) (simp add: quiet_def)
  have ids: "session_ids withdrawn = []" by code_simp
  have "(case map_of (fl_tasks withdrawn) 2 of Some (Tk_delivery d) \<Rightarrow>
      dl_phase d = Dp_sending () \<and> canUseRelayTransport (dl_session d) \<and> si_id (dl_session d) = ''s1'' | _ \<Rightarrow> False)" by code_simp
  then obtain d where d: "map_of (fl_tasks withdrawn) 2 = Some (Tk_delivery d)" "dl_phase d = Dp_sending ()"
      "canUseRelayTransport (dl_session d)" "si_id (dl_session d) = ''s1''"
    by (auto split: option.splits flow_task.splits)
  show ?thesis using revocation_not_rechecked [OF d(1-3), of demo_app "demo_seen True" No_relay] run ids d(4) by simp
qed

text \<open>A channel can be lost open: when a connection and an offer of the desktop each make a channel
  for one binding, the second replaces the first, which is neither closed nor found again.\<close>

theorem channel_replaced_open:
  assumes t: "map_of (fl_tasks fl) n = Some (Tk_peer_signal s ty b payload (Inr None))"
    and s: "js_trim (si_deviceId s) \<noteq> []" "opt_trim (si_devicePublicKey s) \<noteq> []"
    and q: "map_of (st_peers (fl_store fl)) (js_trim (si_bindingId s)) = Some q" "Closed_peer q \<notin> set (st_effects (fl_store fl))"
    and k: "distinct (map fst (st_peers (fl_store fl)))" "\<forall>b. map_of (st_peers (fl_store fl)) b = Some q \<longrightarrow> b = js_trim (si_bindingId s)"
    and p: "p \<noteq> q"
  shows "q \<notin> snd ` set (st_peers (fl_store (flow_step ap sn (Ev_answer n (An_peer p)) fl))) \<and>
    Closed_peer q \<notin> set (st_effects (fl_store (flow_step ap sn (Ev_answer n (An_peer p)) fl)))"
proof -
  let ?key = "js_trim (si_bindingId s)" and ?st = "fl_store (flow_step ap sn (Ev_answer n (An_peer p)) fl)"
  have "ensure_result ap s None (Inr p) fl = (Inr p, on_store (peer_created ap s p) fl)"
    using s by (simp add: ensure_result_def)
  then have st: "st_peers ?st = AList.update ?key p (st_peers (fl_store fl))" "Closed_peer q \<notin> set (st_effects ?st)"
    using t q(2) by (simp_all add: flow_step_def step_task_def step_peer_signal_def Let_def made_by_def peer_created_def)
  have d: "distinct (map fst (AList.update ?key p (st_peers (fl_store fl))))" using k(1) by (rule distinct_update)
  have "x \<noteq> q" if "(b, x) \<in> set (st_peers ?st)" for b x
  proof
    assume "x = q"
    then have "map_of (AList.update ?key p (st_peers (fl_store fl))) b = Some q" using that d by (simp add: st(1))
    then show False using k(2) p by (auto simp: update_conv' split: if_splits)
  qed
  then show ?thesis using st(2) by force
qed
text \<open>The stream is open, a connection is being made, and an offer of the desktop comes in.\<close>

definition offered :: "(nat, unit) flow" where
  "offered = flow_after demo_app
     [(demo_seen True, Ev_boot [keyed_session]), (demo_seen True, Ev_peer_state ''b1'' ''connecting'' []),
      (demo_seen True, Ev_rendered), (demo_seen True, Ev_answer 1 (An_login ''http://h.org'' ''tok'' ())),
      (demo_seen True, Ev_stream_message () ''{\"type\":\"webrtc.offer\",\"payload\":{\"bindingId\":\"b1\"}}''),
      (demo_seen True, Ev_answer 2 (An_peer 7))] (new_flow ''active'')"

lemma offered_facts:
  "st_peers (fl_store offered) = [(''b1'', 7)] \<and> st_effects (fl_store offered) = [Saved_sessions (st_sessions (fl_store offered))] \<and>
   (case map_of (fl_tasks offered) 4 of
      Some (Tk_peer_signal s ty b pl ens) \<Rightarrow> ens = Inr None \<and> js_trim (si_bindingId s) = ''b1'' \<and> js_trim (si_deviceId s) = ''d1'' \<and>
        opt_trim (si_devicePublicKey s) = ''pk''
    | _ \<Rightarrow> False)"
  by code_simp

theorem channel_replaced_open_witness:
  "flow_run demo_app ''active'' offered \<and> st_peers (fl_store offered) = [(''b1'', 7)] \<and>
   (7 \<notin> snd ` set (st_peers (fl_store (flow_step demo_app (demo_seen True) (Ev_answer 4 (An_peer 8)) offered))) \<and>
    Closed_peer 7 \<notin> set (st_effects (fl_store (flow_step demo_app (demo_seen True) (Ev_answer 4 (An_peer 8)) offered))))"
proof -
  have run: "flow_run demo_app ''active'' offered"
    unfolding offered_def by (intro run_after flow_start) (simp add: quiet_def keyed_wf)
  obtain s ty b pl where t: "map_of (fl_tasks offered) 4 = Some (Tk_peer_signal s ty b pl (Inr None))"
    and s: "js_trim (si_bindingId s) = ''b1''" "js_trim (si_deviceId s) \<noteq> []" "opt_trim (si_devicePublicKey s) \<noteq> []"
    using offered_facts by (auto split: option.splits flow_task.splits)
  have e: "st_peers (fl_store offered) = [(''b1'', 7)]" "Closed_peer 7 \<notin> set (st_effects (fl_store offered))"
    using offered_facts by auto
  show ?thesis
    using channel_replaced_open [OF t s(2,3), of 7 8 demo_app "demo_seen True"] run e s(1) by (simp split: if_splits)
qed
section \<open>Sending\<close>

lemma js_trunc_Fin_int: "\<exists>z. js_trunc (Fin q) = Fin (of_int z)"
  by simp

lemma fold_max_above:
  assumes "\<forall>n \<in> set ns. \<exists>z. n = Fin (of_int z)"
  shows "\<exists>b. fold (\<lambda>n acc. js_max acc n) ns (Fin (of_nat a)) = Fin (of_nat b) \<and> a \<le> b \<and> (\<forall>n \<in> set ns. \<not> js_less (Fin (of_nat b)) n)"
  using assms
proof (induction ns arbitrary: a)
  case (Cons n ns)
  then obtain z where n: "n = Fin (of_int z)" by auto
  have m: "max (of_nat a) (of_int z) = (of_nat (max a (nat z)) :: rat)"
    by (cases "z \<le> 0") (auto simp: max_def)
  obtain b where b: "fold (\<lambda>n acc. js_max acc n) ns (Fin (of_nat (max a (nat z)))) = Fin (of_nat b)" "max a (nat z) \<le> b"
      "\<forall>n \<in> set ns. \<not> js_less (Fin (of_nat b)) n"
    using Cons by fastforce
  have "z \<le> int b" using b(2) by (simp add: nat_le_iff)
  then have "(of_int z :: rat) \<le> of_int (int b)" by (simp only: of_int_le_iff)
  then have "\<not> js_less (Fin (of_nat b)) n" by (simp add: n)
  then show ?case using b m by (intro exI [of _ b]) (simp add: n)
qed simp

lemma nextOriginSeq_above:
  assumes "\<forall>m \<in> set ms. \<exists>q. opt_number (msg_originSeq m) = Fin q"
  shows "\<exists>k. nextOriginSeq ms origin = Fin (of_nat (Suc k)) \<and>
    (\<forall>m \<in> set ms. own_origin origin m \<longrightarrow> js_less (js_trunc (opt_number (msg_originSeq m))) (nextOriginSeq ms origin))"
proof -
  let ?ns = "map (\<lambda>m. js_trunc (opt_number (msg_originSeq m))) (filter (own_origin origin) ms)"
  have z: "\<forall>n \<in> set ?ns. \<exists>z. n = Fin (of_int z)" using assms js_trunc_Fin_int by fastforce
  obtain b where b: "fold (\<lambda>n acc. js_max acc n) ?ns (Fin (of_nat 0)) = Fin (of_nat b)" "\<forall>n \<in> set ?ns. \<not> js_less (Fin (of_nat b)) n"
    using fold_max_above [OF z, of 0] by blast
  then have n: "nextOriginSeq ms origin = Fin (of_nat (Suc b))"
    by (simp add: nextOriginSeq_def fold_map comp_def)
  have "js_less n (Fin (of_nat (Suc b)))" if "n \<in> set ?ns" for n
    using that z b(2) by fastforce
  then show ?thesis using n by (intro exI [of _ b]) auto
qed

lemma reconciled_length:
  assumes "conforming_sort srt" "reconcileSessionMessages srt lc ms = Some r"
  shows "length (rc_messages r) \<le> length ms"
proof -
  let ?k = "\<lambda>m. (msg_kind m, msg_id m)"
  have r: "distinct (map ?k (rc_messages r))"
    "set (rc_messages r) = {normalizeChatMessage m | m i. last_of ms System i = Some m} \<union>
      {with_missing (rc_missingMessageIds r) (normalizeChatMessage m) | m i. last_of ms Chat i = Some m}"
    using reconciled_messages [OF assms(1), of lc ms] assms(2) by auto
  have "msg_kind (with_missing ids y) = msg_kind y" "msg_id (with_missing ids y) = msg_id y" for ids y
    by (simp_all add: with_missing_def)
  then have "?k ` set (rc_messages r) \<subseteq> (\<lambda>m. ?k (normalizeChatMessage m)) ` set ms"
    unfolding r(2) using last_of_in by (fastforce simp del: normalizeChatMessage_sel)
  then have "card (set (map ?k (rc_messages r))) \<le> length ms"
    by (simp only: set_map) (meson card_image_le card_length card_mono finite_imageI finite_set le_trans)
  then show ?thesis using distinct_card [OF r(1)] by simp
qed

lemma upserted_keeps:
  assumes srt: "conforming_sort (dv_sort dv)" and k: "has_kind Chat m" "js_trim (msg_id m) \<noteq> []"
  shows "length (up_messages (upserted_of dv cur m)) \<le> length cur + 1"
    and "\<exists>ids. with_missing ids (normalizeChatMessage (normalizeChatMessage m)) \<in> set (up_messages (upserted_of dv cur m))"
proof -
  obtain r where r: "reconcileSessionMessages (dv_sort dv) (dv_localeCompare dv) (next_log cur m) = Some r"
    and s: "set (rc_messages r) = {normalizeChatMessage x | x i. last_of (next_log cur m) System i = Some x} \<union>
      {with_missing (rc_missingMessageIds r) (normalizeChatMessage x) | x i. last_of (next_log cur m) Chat i = Some x}"
    using reconciled_messages [OF srt, of "dv_localeCompare dv" "next_log cur m"] by blast
  obtain u where u: "upsertSessionMessage (dv_sort dv) (dv_localeCompare dv) cur m = Some u" "up_messages u = rc_messages r"
    by (rule upsert_Some [OF r])
  then have e: "up_messages (upserted_of dv cur m) = rc_messages r" by (simp add: upserted_of_def)
  have "length (next_log cur m) \<le> length cur + 1" by (simp add: next_log_def)
  then show "length (up_messages (upserted_of dv cur m)) \<le> length cur + 1"
    using reconciled_length [OF srt r] e by simp
  have "last_of (next_log cur m) Chat (js_trim (msg_id m)) = Some (normalizeChatMessage m)"
    using k by (simp add: next_log_def last_of_snoc has_kind_def)
  then show "\<exists>ids. with_missing ids (normalizeChatMessage (normalizeChatMessage m)) \<in> set (up_messages (upserted_of dv cur m))"
    unfolding e s by blast
qed

lemma store_deliver_local [simp]: "fl_store (deliverLocalChatMessage c fl) = fl_store fl"
  by (simp add: deliverLocalChatMessage_def Let_def)

lemma sent_fields:
  assumes "md_kind d = Some Chat" "md_from d = Self" "js_trim (md_id d) \<noteq> []" "md_deliveryStatus d = Some delivery_status.Sending"
    and "md_originSeq d = Some (Fin (of_nat k))"
  shows "let y = with_missing ids (normalizeChatMessage (normalizeChatMessage (message_of_draft dv e d))) in
    msg_id y = js_trim (md_id d) \<and> msg_text y = js_trim (md_text d) \<and> msg_from y = Self \<and>
    msg_deliveryStatus y = Some delivery_status.Sending \<and> msg_origin y = Some Mobile_origin \<and> msg_originSeq y = Some (Fin (of_nat k))"
  using assms
  by (simp add: Let_def with_missing_def normalizeChatMessage_def message_of_draft_def normalizeOrigin_def normalizeOriginSeq_def
      opt_count_def js_count_idem)

text \<open>C35: Sending appends: while the log has room, a message that is accepted is in the log of its session
  afterwards, as one of the user's own that is being sent, with a number greater than that of
  every message of the mobile client in the log.\<close>

theorem sending_appends:
  assumes r: "sendMessage ap e sid txt mid ts fl = (Inr c, fl')" and srt: "conforming_sort (dv_sort (ap_device ap))"
    and s: "getSessionByIdSnapshot (fl_store fl) sid = Some s" and room: "length (si_messages s) < MAX_SESSION_MESSAGES"
    and fin: "\<forall>m \<in> set (si_messages s). \<exists>q. opt_number (msg_originSeq m) = Fin q"
    and mid: "js_trim (lc_id c) \<noteq> []"
  shows "\<exists>s' m. s' \<in> set (st_sessions (fl_store fl')) \<and> si_id s' = sid \<and> m \<in> set (si_messages s') \<and>
    msg_id m = js_trim (lc_id c) \<and> msg_text m = js_trim txt \<and> msg_from m = Self \<and> msg_origin m = Some Mobile_origin \<and>
    msg_deliveryStatus m = Some delivery_status.Sending \<and> msg_originSeq m = Some (lc_originSeq c) \<and>
    (\<forall>x \<in> set (si_messages s). own_origin Mobile_origin x \<longrightarrow> js_less (js_trunc (opt_number (msg_originSeq x))) (lc_originSeq c))"
proof -
  have c: "c = chat_draft ap e s txt mid ts" and ne: "js_trim txt \<noteq> []"
    and a: "appendMessageLocal ap e (si_id s) (draft_message c) (fl_store fl) = Some (fl_store fl')"
    using r by (auto simp: sendMessage_def s Let_def split: if_splits option.splits)
  have sid: "si_id s = sid" "s \<in> set (st_sessions (fl_store fl))"
    using s find_session_Some by (fastforce simp: getSessionByIdSnapshot_def)+
  obtain k where k: "lc_originSeq c = Fin (of_nat (Suc k))"
    "\<forall>x \<in> set (si_messages s). own_origin Mobile_origin x \<longrightarrow> js_less (js_trunc (opt_number (msg_originSeq x))) (lc_originSeq c)"
    using nextOriginSeq_above [OF fin, of Mobile_origin] by (auto simp: c chat_draft_def simp del: of_nat_Suc)
  let ?m = "message_of_draft (ap_device ap) e (draft_message c)"
  have f: "let y = with_missing ids (normalizeChatMessage (normalizeChatMessage ?m)) in
    msg_id y = js_trim (lc_id c) \<and> msg_text y = js_trim (lc_text c) \<and> msg_from y = Self \<and>
    msg_deliveryStatus y = Some delivery_status.Sending \<and> msg_origin y = Some Mobile_origin \<and>
    msg_originSeq y = Some (lc_originSeq c)" for ids
    using sent_fields [of "draft_message c" "Suc k" ids "ap_device ap" e] mid k(1) by (simp add: draft_message_def del: of_nat_Suc)
  have h: "has_kind Chat ?m" "js_trim (msg_id ?m) \<noteq> []"
    using mid by (simp_all add: has_kind_def message_of_draft_def draft_message_def Let_def)
  let ?u = "upserted_of (ap_device ap) (si_messages s) ?m"
  obtain ids where i: "with_missing ids (normalizeChatMessage (normalizeChatMessage ?m)) \<in> set (up_messages ?u)"
    using upserted_keeps(2) [OF srt h] by blast
  have "length (up_messages ?u) \<le> MAX_SESSION_MESSAGES" using upserted_keeps(1) [OF srt h, of "si_messages s"] room by simp
  then have l: "js_last_n MAX_SESSION_MESSAGES (up_messages ?u) = up_messages ?u" by (simp add: js_last_n_def)
  let ?s' = "with_upserted ?u (js_trim (md_text (draft_message c))) s"
  have st: "fl_store fl' = patchSessionById (si_id s) (\<lambda>item. with_upserted (upserted_of (ap_device ap) (si_messages item) ?m)
      (js_trim (md_text (draft_message c))) item) (fl_store fl)"
    using a by (simp add: appendMessageLocal_def draft_message_def c chat_draft_def ne split: if_splits)
  have "?s' \<in> set (st_sessions (fl_store fl'))"
    unfolding st patchSessionById_def updateSessions_def using sid by force
  moreover have "si_id ?s' = sid" "si_messages ?s' = up_messages ?u" by (simp_all add: with_upserted_def sid l)
  moreover have "js_trim (lc_text c) = js_trim txt" by (simp add: c chat_draft_def)
  ultimately show ?thesis using f [of ids] i k(2) by (intro exI [of _ ?s'] exI) (auto simp: Let_def)
qed

theorem sending_appends_witness:
  "\<exists>c fl'. sendMessage demo_app (dv_env demo_device ()) ''s1'' '' hello '' ''m1'' (Some (Fin 5)) probing = (Inr c, fl') \<and>
     (\<exists>s' m. s' \<in> set (st_sessions (fl_store fl')) \<and> m \<in> set (si_messages s') \<and> msg_text m = ''hello'')"
proof -
  let ?send = "sendMessage demo_app (dv_env demo_device ()) ''s1'' '' hello '' ''m1'' (Some (Fin 5)) probing"
  have "(case ?send of (Inr c, fl') \<Rightarrow> js_trim (lc_id c) = ''m1'' | _ \<Rightarrow> False)" by code_simp
  then obtain c fl' where r: "?send = (Inr c, fl')" "js_trim (lc_id c) \<noteq> []" by (auto split: prod.splits sum.splits)
  have srt: "conforming_sort (dv_sort (ap_device demo_app))" by (simp add: demo_app_def demo_device_def conforming_js_sort)
  have "(case getSessionByIdSnapshot (fl_store probing) ''s1'' of Some s \<Rightarrow> si_messages s = [] | None \<Rightarrow> False)" by code_simp
  then obtain s where s: "getSessionByIdSnapshot (fl_store probing) ''s1'' = Some s" "si_messages s = []" by (auto split: option.splits)
  have t: "js_trim '' hello '' = ''hello''" by code_simp
  show ?thesis
    using sending_appends [OF r(1) srt s(1) _ _ r(2)] s(2) r(1) t by (auto simp: MAX_SESSION_MESSAGES_def)
qed

end
