(* ===== verification/GatewayClient.thy ===== *)
theory GatewayClient
  imports Json JsCollections
begin

text \<open>
  desktop/src/legacy/openclaw-gateway-client.ts: the client by which the desktop calls the gateway of the
  agent over a WebSocket. Its variables, the sockets it has made and the calls under way are the record
  \<open>client\<close>; the queue \<open>oc_micro\<close> holds the continuations of settled promises, which run before the next
  event. The host gives the device payload, checks addresses and delivers the events of the sockets.
  The theorems: a call is answered at most once, and with the response to it; closing answers every
  request; the handshake connects; and four ways in which the client loses a connection for good.
\<close>

section \<open>Data\<close>

datatype GatewayState = Gs_idle | Gs_connecting | Gs_connected

record OpenClawGatewayConnection =
  ogc_wsUrl :: string
  ogc_token :: string

text \<open>What is thrown: an \<open>Error\<close> with its name and message, or another value.\<close>

datatype thrown = Thrown_error string string | Thrown_value jsval

abbreviation new_error :: "string \<Rightarrow> thrown" where
  "new_error \<equiv> Thrown_error ''Error''"

text \<open>\<open>Error.prototype.toString\<close>.\<close>

definition error_text :: "string \<Rightarrow> string \<Rightarrow> string" where
  "error_text name message =
     (if name = [] then message else if message = [] then name else name @ '': '' @ message)"

text \<open>The result is always an \<open>Error\<close>; its name and its message.\<close>

definition toGatewayError :: "thrown \<Rightarrow> string \<Rightarrow> string \<times> string" where
  "toGatewayError err fallback =
     (case err of
        Thrown_error name message \<Rightarrow>
          if js_trim message \<noteq> [] then (name, message) else (''Error'', error_text name message)
      | Thrown_value v \<Rightarrow> (''Error'', js_to_string (js_or v (JStr fallback))))"

datatype call_kind = Call_ensure | Call_request string jsval

text \<open>
  Whose \<open>resolve\<close> and \<open>reject\<close> an entry of \<open>pendingRequests\<close> holds: the handshake of an attempt, or a
  call. Attempts and calls are numbered; an attempt has at most one socket, which bears its number.
\<close>

datatype request_owner = For_connect nat | For_call nat

datatype microtask =
    M_connect nat "thrown + jsval"
  | M_finally nat "thrown + jsval"
  | M_call nat call_kind "thrown + jsval"

datatype client_effect =
    Opened_socket nat string
  | Sent_frame nat string
  | Closed_socket nat "(nat \<times> string) option"
  | State_changed GatewayState string
  | Gateway_event jsval jsval jsval
  | Client_log string

record client =
  oc_socket :: "nat option"
  oc_state :: GatewayState
  oc_hello :: jsval
  oc_pending :: "(string \<times> request_owner) list"
  oc_promise :: "nat option"
  oc_nonce :: string
  oc_sent :: bool
  oc_timer :: "nat option"
  oc_closedByUser :: bool
  oc_attempts :: nat
  oc_resolving :: "nat list"
  oc_tokens :: "(nat \<times> string) list"
  oc_ready :: "(nat \<times> nat) list"
  oc_settled :: "nat list"
  oc_building :: "(nat \<times> string) list"
  oc_calls :: "(nat \<times> nat \<times> call_kind) list"
  oc_nextCall :: nat
  oc_micro :: "microtask list"
  oc_done :: "(nat \<times> (thrown + jsval)) list"
  oc_effects :: "client_effect list"

text \<open>What the client reads from its host.\<close>

record client_host =
  ho_platform :: string
  ho_userAgent :: string
  ho_language :: string
  ho_validUrl :: "string \<Rightarrow> bool"

definition createGatewayRequestId :: "env \<Rightarrow> string" where
  "createGatewayRequestId e =
     (let made = ''ocgw_'' @ js_num_to_string (e_now e) @ ''_'' @ take 8 (drop 2 (e_hex e)) in
      case e_uuid e of Some u \<Rightarrow> if u = [] then made else u | None \<Rightarrow> made)"

section \<open>Operations\<close>

definition oc_emit :: "client_effect \<Rightarrow> client \<Rightarrow> client" where
  "oc_emit x c = c\<lparr>oc_effects := oc_effects c @ [x]\<rparr>"

definition oc_setState :: "GatewayState \<Rightarrow> string \<Rightarrow> client \<Rightarrow> client" where
  "oc_setState next detail c = oc_emit (State_changed next detail) (c\<lparr>oc_state := next\<rparr>)"

text \<open>A settled request: its handshake goes on in a microtask, a call has its answer.\<close>

definition settle_request :: "thrown + jsval \<Rightarrow> request_owner \<Rightarrow> client \<Rightarrow> client" where
  "settle_request r ow c =
     (case ow of
        For_connect n \<Rightarrow> c\<lparr>oc_micro := oc_micro c @ [M_connect n r]\<rparr>
      | For_call k \<Rightarrow> c\<lparr>oc_done := oc_done c @ [(k, r)]\<rparr>)"

definition flushPendingRequests :: "thrown \<Rightarrow> client \<Rightarrow> client" where
  "flushPendingRequests err c =
     (fold (settle_request (Inl err)) (map snd (oc_pending c)) c)\<lparr>oc_pending := []\<rparr>"

definition ready_state :: "client \<Rightarrow> nat \<Rightarrow> nat" where
  "ready_state c w = (case map_of (oc_ready c) w of Some r \<Rightarrow> r | None \<Rightarrow> 3)"

definition close_socket :: "nat \<Rightarrow> (nat \<times> string) option \<Rightarrow> client \<Rightarrow> client" where
  "close_socket w reason c =
     oc_emit (Closed_socket w reason) (c\<lparr>oc_ready := AList.update w 2 (oc_ready c)\<rparr>)"

text \<open>\<open>WebSocket.close\<close> throws when the reason is longer than 123 bytes in UTF-8; the flush is then left out.\<close>

definition utf8_length :: "string \<Rightarrow> nat" where
  "utf8_length s = sum_list (map (\<lambda>c. if of_char c < (128::nat) then 1 else 2) s)"

definition closed_error :: "string \<Rightarrow> thrown" where
  "closed_error reason = new_error (''gateway closed: '' @ reason)"

definition oc_close :: "string \<Rightarrow> client \<Rightarrow> client" where
  "oc_close reason c =
     (let c1 = oc_setState Gs_idle reason
            (c\<lparr>oc_closedByUser := True, oc_timer := None, oc_sent := False, oc_nonce := [], oc_hello := JNull\<rparr>);
          c2 = c1\<lparr>oc_socket := None\<rparr>;
          flush = flushPendingRequests (closed_error reason)
      in case oc_socket c of
           None \<Rightarrow> flush c2
         | Some w \<Rightarrow>
             if ready_state c w = 1
             then if utf8_length reason > 123 then c2 else flush (close_socket w (Some (1000, reason)) c2)
             else if ready_state c w = 0 then flush (close_socket w None c2)
             else flush c2)"

definition request_frame :: "string \<Rightarrow> string \<Rightarrow> jsval \<Rightarrow> jsval" where
  "request_frame i method params =
     JObj [(''type'', JStr ''req''), (''id'', JStr i), (''method'', JStr method), (''params'', params)]"

definition requestInternal :: "env \<Rightarrow> request_owner \<Rightarrow> string \<Rightarrow> jsval \<Rightarrow> client \<Rightarrow> client" where
  "requestInternal e ow method params c =
     (case oc_socket c of
        None \<Rightarrow> settle_request (Inl (new_error ''gateway not connected'')) ow c
      | Some w \<Rightarrow>
          if ready_state c w \<noteq> 1 then settle_request (Inl (new_error ''gateway not connected'')) ow c
          else let i = createGatewayRequestId e in
               oc_emit (Sent_frame w (json_text (request_frame i method params)))
                 (c\<lparr>oc_pending := AList.update i ow (oc_pending c)\<rparr>))"

definition connect_scopes :: jsval where
  "connect_scopes = JArr (map JStr [''operator.admin'', ''operator.approvals'', ''operator.pairing''])"

definition connect_payload :: "client_host \<Rightarrow> env \<Rightarrow> string \<Rightarrow> jsval \<Rightarrow> jsval" where
  "connect_payload ho e token device =
     JObj [(''minProtocol'', JNum (Fin 3)), (''maxProtocol'', JNum (Fin 3)),
       (''client'', JObj [(''id'', JStr ''gateway-client''), (''version'', JStr ''desktop-shell''),
          (''platform'', JStr (if ho_platform ho = [] then ''web'' else ho_platform ho)), (''mode'', JStr ''backend''),
          (''instanceId'', JStr (createGatewayRequestId e))]),
       (''role'', JStr ''operator''), (''scopes'', connect_scopes), (''caps'', JArr [JStr ''tool-events'']),
       (''auth'', if token = [] then JUndef else JObj [(''token'', JStr token)]), (''device'', device),
       (''userAgent'', JStr (ho_userAgent ho)), (''locale'', JStr (ho_language ho))]"

text \<open>
  \<open>sendConnect\<close> up to the device payload: it is refused at once when the nonce is blank, and otherwise
  made asynchronously (\<open>oc_building\<close>).
\<close>

definition sendConnect :: "nat \<Rightarrow> client \<Rightarrow> client" where
  "sendConnect n c =
     (if oc_sent c then c
      else let c' = c\<lparr>oc_sent := True, oc_timer := None\<rparr> in
           if js_trim (oc_nonce c) = []
           then c'\<lparr>oc_micro := oc_micro c' @ [M_connect n (Inl (new_error ''Gateway connect challenge missing device nonce''))]\<rparr>
           else c'\<lparr>oc_building := oc_building c' @ [(n, oc_nonce c)]\<rparr>)"

text \<open>The identifier of the instance is made from another random number (\<open>e'\<close>) than that of the request.\<close>

definition device_built ::
  "client_host \<Rightarrow> env \<Rightarrow> env \<Rightarrow> nat \<Rightarrow> string \<Rightarrow> thrown + jsval \<Rightarrow> client \<Rightarrow> client" where
  "device_built ho e e' n nonce r c =
     (if (n, nonce) \<notin> set (oc_building c) then c
      else let c' = c\<lparr>oc_building := remove1 (n, nonce) (oc_building c)\<rparr> in
           case r of
             Inl err \<Rightarrow> c'\<lparr>oc_micro := oc_micro c' @ [M_connect n (Inl err)]\<rparr>
           | Inr device \<Rightarrow>
               (case map_of (oc_tokens c) n of
                  None \<Rightarrow> c'
                | Some token \<Rightarrow> requestInternal e (For_connect n) ''connect'' (connect_payload ho e' token device) c'))"

definition settle_attempt :: "nat \<Rightarrow> thrown + jsval \<Rightarrow> client \<Rightarrow> client" where
  "settle_attempt n r c =
     (if n \<in> set (oc_settled c) then c
      else c\<lparr>oc_settled := n # oc_settled c, oc_micro := oc_micro c @ [M_finally n r]\<rparr>)"

definition drop_socket :: "nat \<Rightarrow> client \<Rightarrow> client" where
  "drop_socket w c = (if oc_socket c = Some w then c\<lparr>oc_socket := None\<rparr> else c)"

definition oc_fail :: "nat \<Rightarrow> thrown \<Rightarrow> client \<Rightarrow> client" where
  "oc_fail n err c =
     (case toGatewayError err ''gateway connection failed'' of (name, message) \<Rightarrow>
        let c1 = settle_attempt n (Inl (Thrown_error name message)) c;
            c2 = drop_socket n c1
        in flushPendingRequests (Thrown_error name message)
             (oc_setState Gs_idle message (c2\<lparr>oc_hello := JNull, oc_sent := False, oc_nonce := []\<rparr>)))"

text \<open>The rest of \<open>sendConnect\<close>, after the answer to the handshake or when something was thrown.\<close>

definition connect_answered :: "nat \<Rightarrow> thrown + jsval \<Rightarrow> client \<Rightarrow> client" where
  "connect_answered n r c =
     (case r of
        Inr hello \<Rightarrow> settle_attempt n (Inr hello) (oc_setState Gs_connected [] (c\<lparr>oc_hello := hello\<rparr>))
      | Inl err \<Rightarrow>
          (case toGatewayError err ''gateway connect failed'' of (name, message) \<Rightarrow>
             let c' = oc_fail n (Thrown_error name message)
                    (oc_emit (Client_log (''gateway connect failed: '' @ message)) c)
             in case oc_socket c' of
                  Some w \<Rightarrow> if ready_state c' w \<le> 1 then close_socket w (Some (4008, ''connect failed'')) c' else c'
                | None \<Rightarrow> c'))"

definition frame_result :: "jsval \<Rightarrow> thrown + jsval" where
  "frame_result frame =
     (if js_truthy (js_get frame ''ok'') then Inr (js_get frame ''payload'')
      else Inl (new_error (js_to_string
        (js_or (js_or (js_get (js_get frame ''error'') ''message'') (js_get (js_get frame ''error'') ''code''))
          (JStr ''gateway request failed'')))))"

definition oc_handleMessage :: "nat \<Rightarrow> string \<Rightarrow> client \<Rightarrow> client" where
  "oc_handleMessage n raw c =
     (case json_parse raw of
        None \<Rightarrow> c
      | Some frame \<Rightarrow>
          if \<not> js_is_object frame then c
          else if js_get frame ''type'' = JStr ''event'' then
            (if js_get frame ''event'' = JStr ''connect.challenge''
             then sendConnect n (c\<lparr>oc_nonce := (case js_get (js_get frame ''payload'') ''nonce'' of JStr s \<Rightarrow> s | _ \<Rightarrow> [])\<rparr>)
             else oc_emit (Gateway_event (js_get frame ''event'') (js_get frame ''seq'') (js_get frame ''payload'')) c)
          else if js_get frame ''type'' = JStr ''res'' then
            (case js_get frame ''id'' of
               JStr i \<Rightarrow>
                 (case map_of (oc_pending c) i of
                    None \<Rightarrow> c
                  | Some ow \<Rightarrow> settle_request (frame_result frame) ow (c\<lparr>oc_pending := AList.delete i (oc_pending c)\<rparr>))
             | _ \<Rightarrow> c)
          else c)"

text \<open>A call of \<open>ensureConnected\<close> or \<open>request\<close>, up to its first await.\<close>

definition oc_connected :: "client \<Rightarrow> bool" where
  "oc_connected c = (case oc_socket c of Some w \<Rightarrow> ready_state c w = 1 \<and> oc_state c = Gs_connected | None \<Rightarrow> False)"

definition oc_call :: "call_kind \<Rightarrow> client \<Rightarrow> client" where
  "oc_call kind c =
     (let k = oc_nextCall c; c' = c\<lparr>oc_nextCall := k + 1\<rparr> in
      if oc_connected c \<and> js_truthy (oc_hello c) then c'\<lparr>oc_micro := oc_micro c' @ [M_call k kind (Inr (oc_hello c))]\<rparr>
      else case oc_promise c of
             Some n \<Rightarrow> c'\<lparr>oc_calls := oc_calls c' @ [(k, n, kind)]\<rparr>
           | None \<Rightarrow>
               (let n = oc_attempts c in
                c'\<lparr>oc_promise := Some n, oc_attempts := n + 1, oc_resolving := oc_resolving c' @ [n],
                  oc_calls := oc_calls c' @ [(k, n, kind)]\<rparr>))"

definition connection_resolved :: "client_host \<Rightarrow> nat \<Rightarrow> thrown + OpenClawGatewayConnection \<Rightarrow> client \<Rightarrow> client" where
  "connection_resolved ho n r c =
     (if n \<notin> set (oc_resolving c) then c
      else let c' = c\<lparr>oc_resolving := removeAll n (oc_resolving c)\<rparr> in
           case r of
             Inl err \<Rightarrow> settle_attempt n (Inl err) c'
           | Inr connection \<Rightarrow>
               (let c2 = oc_setState Gs_connecting []
                      (c'\<lparr>oc_closedByUser := False, oc_hello := JNull, oc_nonce := [], oc_sent := False, oc_timer := None\<rparr>)
                in if \<not> ho_validUrl ho (ogc_wsUrl connection)
                   then settle_attempt n (Inl (Thrown_error ''SyntaxError'' ''invalid url'')) c2
                   else oc_emit (Opened_socket n (ogc_wsUrl connection))
                     (c2\<lparr>oc_socket := Some n, oc_ready := AList.update n 0 (oc_ready c2),
                       oc_tokens := AList.update n (ogc_token connection) (oc_tokens c2)\<rparr>)))"

section \<open>Steps\<close>

text \<open>
  A microtask runs when there is one; an event comes when there is none. The events of a socket come
  in the states in which the host delivers them.
\<close>

definition oc_micro_step :: "env \<Rightarrow> microtask \<Rightarrow> client \<Rightarrow> client" where
  "oc_micro_step e m c =
     (case m of
        M_connect n r \<Rightarrow> connect_answered n r c
      | M_finally n r \<Rightarrow>
          c\<lparr>oc_promise := None, oc_calls := filter (\<lambda>(k, a, kind). a \<noteq> n) (oc_calls c),
            oc_micro := oc_micro c @ map (\<lambda>(k, a, kind). M_call k kind r) (filter (\<lambda>(k, a, kind). a = n) (oc_calls c))\<rparr>
      | M_call k kind r \<Rightarrow>
          (case (kind, r) of
             (Call_request method params, Inr hello) \<Rightarrow> requestInternal e (For_call k) method params c
           | _ \<Rightarrow> c\<lparr>oc_done := oc_done c @ [(k, r)]\<rparr>))"

datatype client_event =
    Oc_call call_kind
  | Oc_close string
  | Oc_resolved nat "thrown + OpenClawGatewayConnection"
  | Oc_open nat
  | Oc_timer
  | Oc_built nat string "thrown + jsval" env
  | Oc_message nat string
  | Oc_closed nat nat string
  | Oc_error nat

definition socket_opened :: "nat \<Rightarrow> client \<Rightarrow> client" where
  "socket_opened w c =
     (if ready_state c w \<noteq> 0 then c else c\<lparr>oc_ready := AList.update w 1 (oc_ready c), oc_timer := Some w\<rparr>)"

definition gone_message :: "nat \<Rightarrow> string \<Rightarrow> string" where
  "gone_message code reason =
     ''gateway closed ('' @ nat_digits code @ ''): '' @
       (if js_trim reason = [] then ''code='' @ nat_digits code else js_trim reason)"

definition socket_gone :: "nat \<Rightarrow> nat \<Rightarrow> string \<Rightarrow> client \<Rightarrow> client" where
  "socket_gone w code reason c =
     (if ready_state c w = 3 then c
      else let c1 = drop_socket w (c\<lparr>oc_ready := AList.update w 3 (oc_ready c), oc_timer := None, oc_sent := False, oc_nonce := []\<rparr>);
               err = new_error (gone_message code reason);
               c2 = flushPendingRequests err (c1\<lparr>oc_hello := JNull\<rparr>);
               c3 = (if oc_closedByUser c2 then c2 else settle_attempt w (Inl err) c2)
           in oc_setState Gs_idle (gone_message code reason) c3)"

definition oc_event_step :: "client_host \<Rightarrow> env \<Rightarrow> client_event \<Rightarrow> client \<Rightarrow> client" where
  "oc_event_step ho e ev c =
     (case ev of
        Oc_call kind \<Rightarrow> oc_call kind c
      | Oc_close reason \<Rightarrow> oc_close reason c
      | Oc_resolved n r \<Rightarrow> connection_resolved ho n r c
      | Oc_open w \<Rightarrow> socket_opened w c
      | Oc_timer \<Rightarrow> (case oc_timer c of Some n \<Rightarrow> sendConnect n (c\<lparr>oc_timer := None\<rparr>) | None \<Rightarrow> c)
      | Oc_built n nonce r e' \<Rightarrow> device_built ho e e' n nonce r c
      | Oc_message w raw \<Rightarrow> if ready_state c w = 1 then oc_handleMessage w raw c else c
      | Oc_closed w code reason \<Rightarrow> socket_gone w code reason c
      | Oc_error w \<Rightarrow> oc_emit (Client_log ''gateway websocket error'') c)"

definition oc_step :: "client_host \<Rightarrow> env \<Rightarrow> client_event \<Rightarrow> client \<Rightarrow> client" where
  "oc_step ho e ev c =
     (case oc_micro c of
        m # ms \<Rightarrow> oc_micro_step e m (c\<lparr>oc_micro := ms\<rparr>)
      | [] \<Rightarrow> oc_event_step ho e ev c)"

definition new_client :: client where
  "new_client =
     \<lparr>oc_socket = None, oc_state = Gs_idle, oc_hello = JNull, oc_pending = [], oc_promise = None, oc_nonce = [],
      oc_sent = False, oc_timer = None, oc_closedByUser = False, oc_attempts = 0, oc_resolving = [], oc_tokens = [],
      oc_ready = [], oc_settled = [], oc_building = [], oc_calls = [], oc_nextCall = 0, oc_micro = [], oc_done = [],
      oc_effects = []\<rparr>"

text \<open>The runs of a client: an event waits until the queue is empty.\<close>

inductive oc_run :: "client_host \<Rightarrow> client \<Rightarrow> client \<Rightarrow> bool" for ho c where
  oc_start: "oc_run ho c c"
| oc_more: "oc_run ho c d \<Longrightarrow> oc_run ho c (oc_step ho e ev d)"

section \<open>A call is answered once\<close>

text \<open>Where the calls are that have been made: answered, waiting, about to go on, or sent.\<close>

definition owner_call :: "request_owner \<Rightarrow> nat multiset" where
  "owner_call ow = (case ow of For_call k \<Rightarrow> {#k#} | For_connect n \<Rightarrow> {#})"

definition micro_call :: "microtask \<Rightarrow> nat multiset" where
  "micro_call m = (case m of M_call k kind r \<Rightarrow> {#k#} | _ \<Rightarrow> {#})"

definition pending_calls :: "(string \<times> request_owner) list \<Rightarrow> nat multiset" where
  "pending_calls ps = sum_list (map (\<lambda>(i, ow). owner_call ow) ps)"

definition call_places :: "client \<Rightarrow> nat multiset" where
  "call_places c =
     mset (map fst (oc_done c)) + mset (map fst (oc_calls c)) + sum_list (map micro_call (oc_micro c)) + pending_calls (oc_pending c)"

lemma owner_call_simps [simp]: "owner_call (For_call k) = {#k#}" "owner_call (For_connect n) = {#}"
  by (simp_all add: owner_call_def)

lemma micro_call_simps [simp]:
  "micro_call (M_call k kind r) = {#k#}" "micro_call (M_connect n r) = {#}" "micro_call (M_finally n r) = {#}"
  by (simp_all add: micro_call_def)

lemma pending_calls_simps [simp]: "pending_calls [] = {#}" "pending_calls ((i, ow) # ps) = owner_call ow + pending_calls ps"
  by (simp_all add: pending_calls_def)

lemma pending_update: "pending_calls (AList.update i ow ps) \<subseteq># pending_calls ps + owner_call ow"
proof (induction ps)
  case (Cons x ps)
  then show ?case by (cases x) (auto simp: ac_simps)
qed simp

lemma pending_delete_le: "pending_calls (AList.delete i ps) \<subseteq># pending_calls ps"
proof (induction ps)
  case (Cons x ps)
  then show ?case by (cases x) (auto simp: ac_simps intro: subset_mset.order_trans [OF _ mset_subset_eq_add_right])
qed simp

lemma pending_delete: "map_of ps i = Some ow \<Longrightarrow> pending_calls (AList.delete i ps) + owner_call ow \<subseteq># pending_calls ps"
proof (induction ps)
  case (Cons x ps)
  then show ?case using pending_delete_le [of i ps] by (cases x) (auto simp: ac_simps)
qed simp

named_theorems places

lemma places_settle_request [places]: "call_places (settle_request r ow c) = call_places c + owner_call ow"
  by (simp add: settle_request_def call_places_def split: request_owner.split)

lemma places_emit [places]: "call_places (oc_emit x c) = call_places c" "call_places (oc_setState s d c) = call_places c"
  by (simp_all add: oc_emit_def oc_setState_def call_places_def)

lemma pending_settle [simp]: "oc_pending (settle_request r ow c) = oc_pending c"
  by (simp add: settle_request_def split: request_owner.split)

lemma places_fold_settle: "call_places (fold (settle_request r) (map snd ps) c) = call_places c + pending_calls ps"
  by (induction ps arbitrary: c) (auto simp: places ac_simps)

lemma pending_fold_settle: "oc_pending (fold (settle_request r) ows c) = oc_pending c"
  by (induction ows arbitrary: c) simp_all

lemma places_no_pending: "call_places (c\<lparr>oc_pending := []\<rparr>) + pending_calls (oc_pending c) = call_places c"
  by (simp add: call_places_def)

lemma places_flush [places]: "call_places (flushPendingRequests err c) = call_places c"
proof -
  let ?f = "fold (settle_request (Inl err)) (map snd (oc_pending c)) c"
  have "call_places (?f\<lparr>oc_pending := []\<rparr>) + pending_calls (oc_pending c) = call_places c + pending_calls (oc_pending c)"
    using places_no_pending [of ?f] by (simp add: pending_fold_settle places_fold_settle)
  then show ?thesis by (simp add: flushPendingRequests_def)
qed

lemma places_fields [simp]:
  "call_places (c\<lparr>oc_socket := a\<rparr>) = call_places c" "call_places (c\<lparr>oc_state := b\<rparr>) = call_places c"
  "call_places (c\<lparr>oc_hello := d\<rparr>) = call_places c" "call_places (c\<lparr>oc_promise := f\<rparr>) = call_places c"
  "call_places (c\<lparr>oc_nonce := g\<rparr>) = call_places c" "call_places (c\<lparr>oc_sent := h\<rparr>) = call_places c"
  "call_places (c\<lparr>oc_timer := i\<rparr>) = call_places c" "call_places (c\<lparr>oc_closedByUser := j\<rparr>) = call_places c"
  "call_places (c\<lparr>oc_attempts := k\<rparr>) = call_places c" "call_places (c\<lparr>oc_resolving := l\<rparr>) = call_places c"
  "call_places (c\<lparr>oc_tokens := m\<rparr>) = call_places c" "call_places (c\<lparr>oc_ready := n\<rparr>) = call_places c"
  "call_places (c\<lparr>oc_settled := p\<rparr>) = call_places c" "call_places (c\<lparr>oc_building := q\<rparr>) = call_places c"
  "call_places (c\<lparr>oc_nextCall := r\<rparr>) = call_places c"
  by (simp_all add: call_places_def)

lemma places_micro [simp]: "call_places (c\<lparr>oc_micro := oc_micro c @ ms\<rparr>) = call_places c + sum_list (map micro_call ms)"
  by (simp add: call_places_def)

lemma places_close_socket [places]: "call_places (close_socket w r c) = call_places c"
  by (simp add: close_socket_def places)

lemma places_close [places]: "call_places (oc_close reason c) = call_places c"
  by (simp add: oc_close_def Let_def places split: option.split)

lemma places_pending_update: "call_places (c\<lparr>oc_pending := AList.update i ow (oc_pending c)\<rparr>) \<subseteq># call_places c + owner_call ow"
  using pending_update [of i ow "oc_pending c"] by (simp add: call_places_def add.assoc)

lemma places_request: "call_places (requestInternal e ow m p c) \<subseteq># call_places c + owner_call ow"
  using places_pending_update by (auto simp: requestInternal_def places Let_def split: option.split)

lemma places_send_connect [places]: "call_places (sendConnect n c) = call_places c"
proof -
  have "call_places (c\<lparr>oc_sent := a, oc_timer := b, oc_micro := oc_micro c @ [M_connect n r]\<rparr>) = call_places c" for a b r
    by (simp add: call_places_def)
  then show ?thesis by (simp add: sendConnect_def Let_def)
qed

lemma places_settle_attempt [places]: "call_places (settle_attempt n r c) = call_places c"
  by (simp add: settle_attempt_def call_places_def)

lemma places_drop [places]: "call_places (drop_socket w c) = call_places c"
  by (simp add: drop_socket_def)

lemma places_fail [places]: "call_places (oc_fail n err c) = call_places c"
  by (simp add: oc_fail_def Let_def places split: prod.split)

lemma places_answered [places]: "call_places (connect_answered n r c) = call_places c"
  by (simp add: connect_answered_def Let_def places split: sum.split prod.split option.split)

lemma places_built: "call_places (device_built ho e e' n nonce r c) \<subseteq># call_places c"
proof -
  have "call_places (c\<lparr>oc_building := b, oc_micro := oc_micro c @ [M_connect n x]\<rparr>) = call_places c" for b x
    by (simp add: call_places_def)
  moreover have "call_places (requestInternal e (For_connect n) m p (c\<lparr>oc_building := b\<rparr>)) \<subseteq># call_places c" for m p b
    using places_request [of e "For_connect n" m p "c\<lparr>oc_building := b\<rparr>"] by simp
  ultimately show ?thesis by (auto simp: device_built_def Let_def split: sum.split option.split)
qed

lemma places_message: "call_places (oc_handleMessage n raw c) \<subseteq># call_places c"
proof -
  have "call_places (settle_request r ow (c\<lparr>oc_pending := AList.delete i (oc_pending c)\<rparr>)) \<subseteq># call_places c"
    if "map_of (oc_pending c) i = Some ow" for r ow i
    using pending_delete [OF that] by (simp add: places) (simp add: call_places_def add.assoc)
  then show ?thesis
    by (auto simp: oc_handleMessage_def places split: option.split jsval.split)
qed

lemma places_resolved [places]: "call_places (connection_resolved ho n r c) = call_places c"
  by (simp add: connection_resolved_def Let_def places split: sum.split)

lemma places_opened [places]: "call_places (socket_opened w c) = call_places c"
  by (simp add: socket_opened_def)

lemma places_gone [places]: "call_places (socket_gone w code reason c) = call_places c"
  by (simp add: socket_gone_def Let_def places)

lemma places_call: "call_places (oc_call kind c) = call_places c + {#oc_nextCall c#}"
  by (simp add: oc_call_def Let_def call_places_def split: option.split)

lemma places_micro_step:
  assumes "oc_micro c = m # ms" shows "call_places (oc_micro_step e m (c\<lparr>oc_micro := ms\<rparr>)) \<subseteq># call_places c"
proof -
  have p: "call_places c = call_places (c\<lparr>oc_micro := ms\<rparr>) + micro_call m"
    using assms by (simp add: call_places_def)
  show ?thesis
  proof (cases m)
    case (M_connect n r)
    then show ?thesis using p by (simp add: oc_micro_step_def places)
  next
    case (M_finally n r)
    have split: "mset (map fst (filter (\<lambda>(k, a, kind). a \<noteq> n) xs)) +
        sum_list (map micro_call (map (\<lambda>(k, a, kind). M_call k kind r) (filter (\<lambda>(k, a, kind). a = n) xs))) = mset (map fst xs)"
      for xs :: "(nat \<times> nat \<times> call_kind) list"
      by (induction xs) auto
    show ?thesis using split [of "oc_calls c"] by (simp add: oc_micro_step_def M_finally p) (simp add: call_places_def ac_simps)
  next
    case (M_call k kind r)
    have d: "call_places (c\<lparr>oc_micro := ms, oc_done := oc_done c @ [(k, r)]\<rparr>) = call_places c"
      using p by (simp add: M_call call_places_def)
    show ?thesis
    proof (cases kind)
      case (Call_request meth params)
      show ?thesis using d p places_request [of e "For_call k" meth params "c\<lparr>oc_micro := ms\<rparr>"]
        by (cases r) (simp_all add: oc_micro_step_def M_call Call_request)
    qed (use d in \<open>simp add: oc_micro_step_def M_call\<close>)
  qed
qed

lemma places_event:
  "call_places (oc_event_step ho e ev c) \<subseteq># call_places c + (case ev of Oc_call kind \<Rightarrow> {#oc_nextCall c#} | _ \<Rightarrow> {#})"
proof (cases ev)
  case (Oc_built n nonce r e')
  then show ?thesis using places_built by (simp add: oc_event_step_def)
next
  case (Oc_message w raw)
  then show ?thesis using places_message by (simp add: oc_event_step_def)
qed (simp_all add: oc_event_step_def places places_call split: option.split)

named_theorems next_call

lemma next_call_kept [next_call]:
  "oc_nextCall (oc_emit x c) = oc_nextCall c" "oc_nextCall (oc_setState s d c) = oc_nextCall c"
  "oc_nextCall (settle_request r ow c) = oc_nextCall c" "oc_nextCall (close_socket w cr c) = oc_nextCall c"
  "oc_nextCall (settle_attempt n r c) = oc_nextCall c"
  by (simp_all add: oc_emit_def oc_setState_def settle_request_def close_socket_def settle_attempt_def split: request_owner.split)

lemma next_call_fold: "oc_nextCall (fold (settle_request r) ows c) = oc_nextCall c"
  by (induction ows arbitrary: c) (simp_all add: next_call)

lemma next_call_ops [next_call]:
  "oc_nextCall (flushPendingRequests err c) = oc_nextCall c" "oc_nextCall (requestInternal e ow m p c) = oc_nextCall c"
  "oc_nextCall (sendConnect n c) = oc_nextCall c"
  by (simp_all add: flushPendingRequests_def next_call_fold next_call requestInternal_def sendConnect_def Let_def split: option.split)

lemma next_call_drop [next_call]: "oc_nextCall (drop_socket w c) = oc_nextCall c"
  by (simp add: drop_socket_def)

lemma next_call_fail [next_call]: "oc_nextCall (oc_fail n err c) = oc_nextCall c"
  by (simp add: oc_fail_def Let_def next_call split: prod.split)

lemma next_call_steps [next_call]:
  "oc_nextCall (oc_close reason c) = oc_nextCall c" "oc_nextCall (connect_answered n r c) = oc_nextCall c"
  "oc_nextCall (device_built ho e e' n nonce r' c) = oc_nextCall c" "oc_nextCall (oc_handleMessage n raw c) = oc_nextCall c"
  "oc_nextCall (connection_resolved ho n r'' c) = oc_nextCall c" "oc_nextCall (socket_opened n c) = oc_nextCall c"
  "oc_nextCall (socket_gone n code reason c) = oc_nextCall c"
  by (simp_all add: oc_close_def connect_answered_def device_built_def oc_handleMessage_def connection_resolved_def
      socket_opened_def socket_gone_def Let_def next_call split: option.split sum.split prod.split jsval.split)

lemma next_call_micro [next_call]: "oc_nextCall (oc_micro_step e m c) = oc_nextCall c"
  by (simp add: oc_micro_step_def next_call split: microtask.split call_kind.split sum.split)

lemma next_call_event: "oc_nextCall (oc_event_step ho e ev c) = (case ev of Oc_call kind \<Rightarrow> oc_nextCall c + 1 | _ \<Rightarrow> oc_nextCall c)"
  by (cases ev) (simp_all add: oc_event_step_def next_call oc_call_def Let_def split: option.split)

definition calls_ok :: "client \<Rightarrow> bool" where
  "calls_ok c = (\<forall>k. count (call_places c) k \<le> (if k < oc_nextCall c then 1 else 0))"

lemma calls_ok_step: "calls_ok c \<Longrightarrow> calls_ok (oc_step ho e ev c)"
proof (cases "oc_micro c")
  case Nil
  assume ok: "calls_ok c"
  show ?thesis unfolding calls_ok_def
  proof
    fix k
    have "count (call_places (oc_event_step ho e ev c)) k \<le>
        count (call_places c + (case ev of Oc_call kind \<Rightarrow> {#oc_nextCall c#} | _ \<Rightarrow> {#})) k"
      using places_event by (rule mset_subset_eq_count)
    moreover have "count (call_places c) k \<le> (if k < oc_nextCall c then 1 else 0)" using ok by (simp add: calls_ok_def)
    ultimately show "count (call_places (oc_step ho e ev c)) k \<le> (if k < oc_nextCall (oc_step ho e ev c) then 1 else 0)"
      by (cases ev) (auto simp: oc_step_def Nil next_call_event split: if_splits)
  qed
next
  case (Cons m ms)
  assume ok: "calls_ok c"
  have "count (call_places (oc_step ho e ev c)) k \<le> count (call_places c) k" for k
    using mset_subset_eq_count [OF places_micro_step [OF Cons, of e]] by (simp add: oc_step_def Cons)
  moreover have "oc_nextCall (oc_step ho e ev c) = oc_nextCall c" by (simp add: oc_step_def Cons next_call)
  ultimately show ?thesis using ok unfolding calls_ok_def by (metis order_trans)
qed

lemma calls_ok_run: "oc_run ho c d \<Longrightarrow> calls_ok c \<Longrightarrow> calls_ok d"
  by (induction rule: oc_run.induct) (auto intro: calls_ok_step)

lemma calls_ok_new: "calls_ok new_client"
  by (simp add: calls_ok_def call_places_def new_client_def)

lemma count_keys_pos: "0 < count (mset (map fst xs)) k \<longleftrightarrow> k \<in> fst ` set xs"
  by (simp only: count_greater_zero_iff set_mset_mset set_map)

text \<open>C16: In every run of the gateway client a call is answered at most once, only after it was made, and
  one that has been answered is neither waiting nor pending.\<close>

theorem calls_answered_once:
  assumes "oc_run ho new_client c"
  shows "distinct (map fst (oc_done c)) \<and> fst ` set (oc_done c) \<subseteq> {..<oc_nextCall c} \<and>
    fst ` set (oc_done c) \<inter> fst ` set (oc_calls c) = {} \<and>
    fst ` set (oc_done c) \<inter> {k. For_call k \<in> snd ` set (oc_pending c)} = {}"
proof -
  have ok: "count (call_places c) k \<le> (if k < oc_nextCall c then 1 else 0)" for k
    using calls_ok_run [OF assms calls_ok_new] by (simp add: calls_ok_def)
  have le: "count (mset (map fst (oc_done c))) k + count (mset (map fst (oc_calls c))) k + count (pending_calls (oc_pending c)) k \<le>
      (if k < oc_nextCall c then 1 else 0)" for k
    using ok [of k] by (simp add: call_places_def)
  have le1: "count (mset (map fst (oc_done c))) k + count (mset (map fst (oc_calls c))) k + count (pending_calls (oc_pending c)) k \<le> 1" for k
    by (rule order_trans [OF le]) simp
  have le2: "count (mset (map fst (oc_done c))) k = 0" if "\<not> k < oc_nextCall c" for k
    using le [of k] that by (simp only: if_False le_zero_eq add_is_0)
  have p: "0 < count (pending_calls ps) k" if "(i, For_call k) \<in> set ps" for i k ps
    using that by (induction ps) auto
  have d: "0 < count (mset (map fst (oc_done c))) k" if "k \<in> fst ` set (oc_done c)" for k using that by (simp only: count_keys_pos)
  have "distinct (map fst (oc_done c))"
    unfolding distinct_count_atmost_1
  proof
    fix k
    have "count (mset (map fst (oc_done c))) k \<le> 1" using le1 [of k] by linarith
    moreover have "0 < count (mset (map fst (oc_done c))) k" if "k \<in> set (map fst (oc_done c))" using that by (simp only: count_keys_pos set_map)
    ultimately show "count (mset (map fst (oc_done c))) k = (if k \<in> set (map fst (oc_done c)) then 1 else 0)"
      using count_keys_pos [of "oc_done c" k] by (simp only: set_map split: if_splits) linarith
  qed
  moreover have "k < oc_nextCall c" if "k \<in> fst ` set (oc_done c)" for k
    using le2 [of k] d [OF that] by linarith
  moreover have "k \<notin> fst ` set (oc_calls c)" if "k \<in> fst ` set (oc_done c)" for k
    using le1 [of k] d [OF that] count_keys_pos [of "oc_calls c" k] by linarith
  moreover have "For_call k \<notin> snd ` set (oc_pending c)" if "k \<in> fst ` set (oc_done c)" for k
  proof
    assume "For_call k \<in> snd ` set (oc_pending c)"
    then obtain i where "(i, For_call k) \<in> set (oc_pending c)" by auto
    with p have "0 < count (pending_calls (oc_pending c)) k" by blast
    then show False using le1 [of k] d [OF that] by linarith
  qed
  ultimately show ?thesis by blast
qed

section \<open>Closing answers the requests\<close>

lemma done_settle: "oc_done (settle_request r ow c) = oc_done c @ (case ow of For_call k \<Rightarrow> [(k, r)] | For_connect n \<Rightarrow> [])"
  by (simp add: settle_request_def split: request_owner.split)

lemma done_fold: "set (oc_done (fold (settle_request r) ows c)) = set (oc_done c) \<union> {(k, r) | k. For_call k \<in> set ows}"
  by (induction ows arbitrary: c) (auto simp: done_settle split: request_owner.splits)

lemma done_flush: "set (oc_done (flushPendingRequests err c)) = set (oc_done c) \<union> {(k, Inl err) | k. For_call k \<in> snd ` set (oc_pending c)}"
  by (simp add: flushPendingRequests_def done_fold)

lemma pending_flush [simp]: "oc_pending (flushPendingRequests err c) = []"
  by (simp add: flushPendingRequests_def)

lemma emit_fields [simp]:
  "oc_pending (oc_emit x c) = oc_pending c" "oc_done (oc_emit x c) = oc_done c" "oc_micro (oc_emit x c) = oc_micro c"
  "oc_socket (oc_emit x c) = oc_socket c" "oc_ready (oc_emit x c) = oc_ready c" "oc_hello (oc_emit x c) = oc_hello c"
  "oc_state (oc_emit x c) = oc_state c" "oc_promise (oc_emit x c) = oc_promise c" "oc_settled (oc_emit x c) = oc_settled c"
  "oc_sent (oc_emit x c) = oc_sent c" "oc_nonce (oc_emit x c) = oc_nonce c" "oc_timer (oc_emit x c) = oc_timer c"
  "oc_closedByUser (oc_emit x c) = oc_closedByUser c" "oc_calls (oc_emit x c) = oc_calls c"
  "oc_building (oc_emit x c) = oc_building c" "oc_resolving (oc_emit x c) = oc_resolving c" "oc_tokens (oc_emit x c) = oc_tokens c"
  "oc_attempts (oc_emit x c) = oc_attempts c" "oc_effects (oc_emit x c) = oc_effects c @ [x]"
  by (simp_all add: oc_emit_def)

lemma setState_fields [simp]:
  "oc_pending (oc_setState st d c) = oc_pending c" "oc_done (oc_setState st d c) = oc_done c" "oc_micro (oc_setState st d c) = oc_micro c"
  "oc_socket (oc_setState st d c) = oc_socket c" "oc_ready (oc_setState st d c) = oc_ready c" "oc_hello (oc_setState st d c) = oc_hello c"
  "oc_state (oc_setState st d c) = st" "oc_promise (oc_setState st d c) = oc_promise c" "oc_settled (oc_setState st d c) = oc_settled c"
  "oc_sent (oc_setState st d c) = oc_sent c" "oc_nonce (oc_setState st d c) = oc_nonce c" "oc_timer (oc_setState st d c) = oc_timer c"
  "oc_closedByUser (oc_setState st d c) = oc_closedByUser c" "oc_calls (oc_setState st d c) = oc_calls c"
  "oc_building (oc_setState st d c) = oc_building c" "oc_resolving (oc_setState st d c) = oc_resolving c"
  "oc_tokens (oc_setState st d c) = oc_tokens c" "oc_attempts (oc_setState st d c) = oc_attempts c"
  "oc_effects (oc_setState st d c) = oc_effects c @ [State_changed st d]"
  by (simp_all add: oc_setState_def)

lemma drop_fields [simp]:
  "oc_pending (drop_socket w c) = oc_pending c" "oc_done (drop_socket w c) = oc_done c" "oc_micro (drop_socket w c) = oc_micro c"
  "oc_ready (drop_socket w c) = oc_ready c" "oc_effects (drop_socket w c) = oc_effects c" "oc_closedByUser (drop_socket w c) = oc_closedByUser c"
  "oc_socket (drop_socket w c) = (if oc_socket c = Some w then None else oc_socket c)" "oc_promise (drop_socket w c) = oc_promise c"
  by (simp_all add: drop_socket_def)

text \<open>Settling requests touches the queue of microtasks and the answers only.\<close>

definition same_frame :: "client \<Rightarrow> client \<Rightarrow> bool" where
  "same_frame c d =
     (oc_socket d = oc_socket c \<and> oc_state d = oc_state c \<and> oc_hello d = oc_hello c \<and> oc_promise d = oc_promise c \<and>
      oc_nonce d = oc_nonce c \<and> oc_sent d = oc_sent c \<and> oc_timer d = oc_timer c \<and> oc_closedByUser d = oc_closedByUser c \<and>
      oc_attempts d = oc_attempts c \<and> oc_resolving d = oc_resolving c \<and> oc_tokens d = oc_tokens c \<and> oc_ready d = oc_ready c \<and>
      oc_settled d = oc_settled c \<and> oc_building d = oc_building c \<and> oc_calls d = oc_calls c \<and> oc_nextCall d = oc_nextCall c \<and>
      oc_effects d = oc_effects c)"

lemma frame_settle: "same_frame c (settle_request r ow c)"
  by (simp add: same_frame_def settle_request_def split: request_owner.split)

lemma frame_fold: "same_frame c (fold (settle_request r) ows c)"
proof (induction ows arbitrary: c)
  case (Cons ow ows)
  then show ?case using frame_settle [of c r ow] by (auto simp: same_frame_def)
qed (simp add: same_frame_def)

lemma frame_flush: "same_frame c (flushPendingRequests err c)"
  using frame_fold [of c "Inl err" "map snd (oc_pending c)"] by (simp add: same_frame_def flushPendingRequests_def)

lemmas flush_fields = frame_flush [unfolded same_frame_def]

lemma flush_simps [simp]:
  "oc_socket (flushPendingRequests err c) = oc_socket c" "oc_state (flushPendingRequests err c) = oc_state c"
  "oc_hello (flushPendingRequests err c) = oc_hello c" "oc_promise (flushPendingRequests err c) = oc_promise c"
  "oc_nonce (flushPendingRequests err c) = oc_nonce c" "oc_sent (flushPendingRequests err c) = oc_sent c"
  "oc_timer (flushPendingRequests err c) = oc_timer c" "oc_closedByUser (flushPendingRequests err c) = oc_closedByUser c"
  "oc_resolving (flushPendingRequests err c) = oc_resolving c" "oc_ready (flushPendingRequests err c) = oc_ready c"
  "oc_settled (flushPendingRequests err c) = oc_settled c" "oc_building (flushPendingRequests err c) = oc_building c"
  "oc_calls (flushPendingRequests err c) = oc_calls c" "oc_effects (flushPendingRequests err c) = oc_effects c"
  "oc_tokens (flushPendingRequests err c) = oc_tokens c" "oc_attempts (flushPendingRequests err c) = oc_attempts c"
  using flush_fields [of err c] by simp_all

lemma attempt_fields [simp]:
  "oc_done (settle_attempt n r c) = oc_done c" "oc_pending (settle_attempt n r c) = oc_pending c"
  "oc_socket (settle_attempt n r c) = oc_socket c" "oc_ready (settle_attempt n r c) = oc_ready c"
  "oc_effects (settle_attempt n r c) = oc_effects c" "oc_hello (settle_attempt n r c) = oc_hello c"
  "oc_state (settle_attempt n r c) = oc_state c" "oc_promise (settle_attempt n r c) = oc_promise c"
  "oc_timer (settle_attempt n r c) = oc_timer c" "oc_closedByUser (settle_attempt n r c) = oc_closedByUser c"
  "oc_building (settle_attempt n r c) = oc_building c" "oc_resolving (settle_attempt n r c) = oc_resolving c"
  "oc_nonce (settle_attempt n r c) = oc_nonce c" "oc_sent (settle_attempt n r c) = oc_sent c"
  "oc_calls (settle_attempt n r c) = oc_calls c" "oc_tokens (settle_attempt n r c) = oc_tokens c"
  "oc_attempts (settle_attempt n r c) = oc_attempts c"
  by (simp_all add: settle_attempt_def)

lemma ready_fields [simp]:
  "ready_state (oc_emit x c) w = ready_state c w" "ready_state (oc_setState st d c) w = ready_state c w"
  "ready_state (flushPendingRequests err c) w = ready_state c w" "ready_state (settle_attempt n r c) w = ready_state c w"
  by (simp_all add: ready_state_def)

lemma close_flushes:
  assumes "utf8_length reason \<le> 123"
  shows "\<exists>err x. oc_close reason c = flushPendingRequests err x \<and> oc_done x = oc_done c \<and> oc_pending x = oc_pending c"
proof (cases "oc_socket c")
  case (Some w)
  show ?thesis
    by (cases "ready_state c w = 1"; cases "ready_state c w = 0")
      (use assms Some in \<open>auto simp: oc_close_def Let_def close_socket_def intro!: exI\<close>)
qed (auto simp: oc_close_def Let_def intro!: exI)

text \<open>Whatever ends a connection answers the requests that are pending on it: after the client is closed,
  or a socket is gone, no request is pending, and every call that had one has an error for an answer.\<close>

theorem closing_answers_requests:
  assumes "oc_micro c = []" and "(ev = Oc_close reason \<and> utf8_length reason \<le> 123) \<or> (ev = Oc_closed w code text \<and> ready_state c w \<noteq> 3)"
  shows "oc_pending (oc_step ho e ev c) = [] \<and>
    (\<exists>err. set (oc_done (oc_step ho e ev c)) =
       set (oc_done c) \<union> {(k, Inl err) | k. For_call k \<in> snd ` set (oc_pending c)})"
proof -
  from assms(2) show ?thesis
  proof
    assume a: "ev = Oc_close reason \<and> utf8_length reason \<le> 123"
    then obtain err x where x: "oc_close reason c = flushPendingRequests err x" "oc_done x = oc_done c" "oc_pending x = oc_pending c"
      using close_flushes by blast
    then show ?thesis using a assms(1) by (auto simp: oc_step_def oc_event_step_def done_flush)
  next
    assume a: "ev = Oc_closed w code text \<and> ready_state c w \<noteq> 3"
    show ?thesis
      using a assms(1) by (auto simp: oc_step_def oc_event_step_def socket_gone_def Let_def done_flush)
  qed
qed

section \<open>The answer to a call\<close>

text \<open>A call gets the response that bears its identifier: with \<open>ok\<close> its payload, otherwise the error it
  reports; the other requests stay pending, and nothing else is answered.\<close>

theorem response_answers_its_call:
  assumes m: "oc_micro c = []" and w: "ready_state c w = 1" and i: "map_of (oc_pending c) i = Some (For_call k)"
    and f: "json_parse raw = Some frame" "js_get frame ''type'' = JStr ''res''" "js_get frame ''id'' = JStr i"
  shows "oc_done (oc_step ho e (Oc_message w raw) c) = oc_done c @ [(k, frame_result frame)] \<and>
    oc_pending (oc_step ho e (Oc_message w raw) c) = AList.delete i (oc_pending c) \<and>
    (frame_result frame = Inr (js_get frame ''payload'') \<longleftrightarrow> js_truthy (js_get frame ''ok''))"
proof -
  have "js_is_object frame" using f(2) by (cases frame) (simp_all add: js_get_def js_is_object_def)
  then show ?thesis using assms
    by (auto simp: oc_step_def oc_event_step_def oc_handleMessage_def settle_request_def frame_result_def)
qed

section \<open>The handshake\<close>

text \<open>The frame of a response, and of a challenge.\<close>

definition response_frame :: "string \<Rightarrow> jsval \<Rightarrow> jsval" where
  "response_frame i payload = JObj [(''type'', JStr ''res''), (''id'', JStr i), (''ok'', JBool True), (''payload'', payload)]"

definition challenge_frame :: "string \<Rightarrow> jsval" where
  "challenge_frame nonce =
     JObj [(''type'', JStr ''event''), (''event'', JStr ''connect.challenge''), (''payload'', JObj [(''nonce'', JStr nonce)])]"

fun oc_steps :: "client_host \<Rightarrow> (env \<times> client_event) list \<Rightarrow> client \<Rightarrow> client" where
  "oc_steps ho [] c = c"
| "oc_steps ho ((e, ev) # evs) c = oc_steps ho evs (oc_step ho e ev c)"

lemma oc_steps_run: "oc_run ho c d \<Longrightarrow> oc_run ho c (oc_steps ho evs d)"
proof (induction evs arbitrary: d)
  case (Cons x evs)
  then show ?case by (cases x) (simp add: oc_more)
qed simp

lemma response_get [simp]:
  "js_get (response_frame i p) ''type'' = JStr ''res''" "js_get (response_frame i p) ''id'' = JStr i"
  "js_get (response_frame i p) ''ok'' = JBool True" "js_get (response_frame i p) ''payload'' = p" "js_is_object (response_frame i p)"
  by (simp_all add: response_frame_def js_get_def js_is_object_def)

lemma challenge_get [simp]:
  "js_get (challenge_frame n) ''type'' = JStr ''event''" "js_get (challenge_frame n) ''event'' = JStr ''connect.challenge''"
  "js_get (js_get (challenge_frame n) ''payload'') ''nonce'' = JStr n" "js_is_object (challenge_frame n)"
  by (simp_all add: challenge_frame_def js_get_def js_is_object_def)

text \<open>C22: The handshake connects: on a new client, when the connection is resolved, its socket opens, the
  challenge brings a nonce, the device payload is made and the gateway accepts it, the call that asked
  for the connection is answered with the greeting, and the client is connected.\<close>

theorem handshake_connects:
  assumes url: "ho_validUrl ho (ogc_wsUrl conn)" and n: "js_trim nonce \<noteq> []"
    and p: "json_parse challenge = Some (challenge_frame nonce)"
      "json_parse response = Some (response_frame (createGatewayRequestId e) hello)"
  shows "let c = oc_steps ho [(e, Oc_call Call_ensure), (e, Oc_resolved 0 (Inr conn)), (e, Oc_open 0), (e, Oc_message 0 challenge),
      (e, Oc_built 0 nonce (Inr device) e'), (e, Oc_message 0 response), (e, Oc_timer), (e, Oc_timer), (e, Oc_timer)] new_client
    in oc_connected c \<and> oc_hello c = hello \<and> oc_done c = [(0, Inr hello)] \<and> oc_promise c = None \<and> oc_pending c = [] \<and>
       Sent_frame 0 (json_text (request_frame (createGatewayRequestId e) ''connect'' (connect_payload ho e' (ogc_token conn) device)))
         \<in> set (oc_effects c)"
proof -
  define i where "i = createGatewayRequestId e"
  show ?thesis using url n p unfolding i_def [symmetric]
    by (simp add: oc_step_def oc_event_step_def oc_micro_step_def new_client_def oc_call_def Let_def oc_connected_def ready_state_def
        connection_resolved_def oc_setState_def oc_emit_def socket_opened_def oc_handleMessage_def sendConnect_def device_built_def
        requestInternal_def i_def [symmetric] settle_request_def frame_result_def connect_answered_def settle_attempt_def)
qed

section \<open>Attempts\<close>

text \<open>The attempts whose handshake somebody may still go on with or has settled, and those about to be finished.\<close>

definition micro_attempt :: "microtask \<Rightarrow> nat set" where
  "micro_attempt m = (case m of M_connect n r \<Rightarrow> {n} | M_finally n r \<Rightarrow> {n} | M_call k kind r \<Rightarrow> {})"

definition owner_attempt :: "request_owner \<Rightarrow> nat set" where
  "owner_attempt ow = (case ow of For_connect n \<Rightarrow> {n} | For_call k \<Rightarrow> {})"

definition attempts_of :: "client \<Rightarrow> nat set" where
  "attempts_of c =
     set_option (oc_timer c) \<union> fst ` set (oc_building c) \<union> (\<Union>ow \<in> snd ` set (oc_pending c). owner_attempt ow) \<union>
     (\<Union>m \<in> set (oc_micro c). micro_attempt m) \<union> set (oc_settled c)"

definition finals_in :: "microtask list \<Rightarrow> nat list" where
  "finals_in ms = concat (map (\<lambda>m. case m of M_finally n r \<Rightarrow> [n] | _ \<Rightarrow> []) ms)"

abbreviation finals :: "client \<Rightarrow> nat list" where
  "finals c \<equiv> finals_in (oc_micro c)"

lemma attempt_simps [simp]:
  "micro_attempt (M_connect n r) = {n}" "micro_attempt (M_finally n r) = {n}" "micro_attempt (M_call k kind r) = {}"
  "owner_attempt (For_connect n) = {n}" "owner_attempt (For_call k) = {}"
  by (simp_all add: micro_attempt_def owner_attempt_def)

lemma finals_simps [simp]:
  "finals_in [] = []" "finals_in (ms @ ns) = finals_in ms @ finals_in ns"
  "finals_in (M_connect n r # ms) = finals_in ms" "finals_in (M_finally n r # ms) = n # finals_in ms"
  "finals_in (M_call k kind r # ms) = finals_in ms"
  by (simp_all add: finals_in_def)

lemma attempts_micro: "attempts_of (c\<lparr>oc_micro := oc_micro c @ ms\<rparr>) = attempts_of c \<union> (\<Union>m \<in> set ms. micro_attempt m)"
  by (auto simp: attempts_of_def)

lemma attempts_building: "attempts_of (c\<lparr>oc_building := oc_building c @ [(n, x)]\<rparr>) = insert n (attempts_of c)"
  by (auto simp: attempts_of_def)

text \<open>A change that starts no attempt and may concern those in \<open>A\<close>.\<close>

definition bump :: "nat set \<Rightarrow> client \<Rightarrow> client \<Rightarrow> bool" where
  "bump A c d =
     (attempts_of d \<subseteq> attempts_of c \<union> A \<and> set (oc_settled c) \<subseteq> set (oc_settled d) \<and>
      oc_promise d = oc_promise c \<and> oc_attempts d = oc_attempts c \<and> oc_resolving d = oc_resolving c \<and> oc_calls d = oc_calls c \<and>
      oc_closedByUser c \<le> oc_closedByUser d \<and> (oc_socket c = None \<longrightarrow> oc_socket d = None) \<and>
      fst ` set (oc_ready d) = fst ` set (oc_ready c) \<and>
      (\<forall>n. map_of (oc_ready d) n = Some 0 \<longrightarrow> map_of (oc_ready c) n = Some 0 \<and>
         (oc_socket c = Some n \<longrightarrow> n \<notin> A \<union> attempts_of c \<longrightarrow> oc_socket d = Some n)) \<and>
      (\<forall>n r. map_of (oc_ready c) n = Some r \<longrightarrow> 2 \<le> r \<longrightarrow> (\<exists>r'. map_of (oc_ready d) n = Some r' \<and> 2 \<le> r')) \<and>
      (\<exists>ms. finals d = finals c @ ms \<and> distinct ms \<and> set ms \<inter> set (oc_settled c) = {} \<and> set ms \<subseteq> set (oc_settled d)))"

lemma bump_refl [simp]: "bump A c c"
  by (auto simp: bump_def)

lemma bumpD:
  assumes "bump A c d"
  shows "attempts_of d \<subseteq> attempts_of c \<union> A" "map_of (oc_ready d) n = Some 0 \<Longrightarrow> map_of (oc_ready c) n = Some 0"
    and "map_of (oc_ready d) n = Some 0 \<Longrightarrow> oc_socket c = Some n \<Longrightarrow> n \<notin> A \<union> attempts_of c \<Longrightarrow> oc_socket d = Some n"
    and "map_of (oc_ready c) n = Some r \<Longrightarrow> 2 \<le> r \<Longrightarrow> \<exists>r'. map_of (oc_ready d) n = Some r' \<and> 2 \<le> r'"
  using assms by (simp_all add: bump_def)

lemma bumpI:
  assumes "attempts_of d \<subseteq> attempts_of c \<union> A" "set (oc_settled c) \<subseteq> set (oc_settled d)" "oc_promise d = oc_promise c"
    "oc_attempts d = oc_attempts c" "oc_resolving d = oc_resolving c" "oc_calls d = oc_calls c"
    "oc_closedByUser c \<le> oc_closedByUser d" "oc_socket c = None \<Longrightarrow> oc_socket d = None"
    "fst ` set (oc_ready d) = fst ` set (oc_ready c)"
    "\<And>n. map_of (oc_ready d) n = Some 0 \<Longrightarrow> map_of (oc_ready c) n = Some 0 \<and>
         (oc_socket c = Some n \<longrightarrow> n \<notin> A \<union> attempts_of c \<longrightarrow> oc_socket d = Some n)"
    "\<And>n r. map_of (oc_ready c) n = Some r \<Longrightarrow> 2 \<le> r \<Longrightarrow> \<exists>r'. map_of (oc_ready d) n = Some r' \<and> 2 \<le> r'"
    "finals d = finals c @ ms" "distinct ms" "set ms \<inter> set (oc_settled c) = {}" "set ms \<subseteq> set (oc_settled d)"
  shows "bump A c d"
  unfolding bump_def using assms by (intro conjI allI impI) (assumption | blast)+

lemma bump_trans:
  assumes "bump A c d" "bump A d e" shows "bump A c e"
proof -
  obtain ms where ms: "finals d = finals c @ ms" "distinct ms" "set ms \<inter> set (oc_settled c) = {}" "set ms \<subseteq> set (oc_settled d)"
    using assms(1) by (auto simp: bump_def)
  obtain ns where ns: "finals e = finals d @ ns" "distinct ns" "set ns \<inter> set (oc_settled d) = {}" "set ns \<subseteq> set (oc_settled e)"
    using assms(2) by (auto simp: bump_def)
  have sub: "set (oc_settled c) \<subseteq> set (oc_settled d)" "set (oc_settled d) \<subseteq> set (oc_settled e)" "attempts_of d \<subseteq> attempts_of c \<union> A"
    using assms by (simp_all add: bump_def)
  show ?thesis
  proof (rule bumpI [where ms = "ms @ ns"])
    show "attempts_of e \<subseteq> attempts_of c \<union> A" using bumpD(1) [OF assms(2)] sub(3) by blast
    fix n assume r: "map_of (oc_ready e) n = Some 0"
    have "map_of (oc_ready d) n = Some 0" by (rule bumpD(2) [OF assms(2) r])
    then show "map_of (oc_ready c) n = Some 0 \<and> (oc_socket c = Some n \<longrightarrow> n \<notin> A \<union> attempts_of c \<longrightarrow> oc_socket e = Some n)"
      using bumpD(2,3) [OF assms(1)] bumpD(3) [OF assms(2) r] sub(3) by blast
  next
    fix n r assume "map_of (oc_ready c) n = Some r" "2 \<le> r"
    then show "\<exists>r'. map_of (oc_ready e) n = Some r' \<and> 2 \<le> r'" using bumpD(4) [OF assms(1)] bumpD(4) [OF assms(2)] by blast
  next
    show "set (oc_settled c) \<subseteq> set (oc_settled e)" using sub by blast
    show "finals e = finals c @ ms @ ns" "distinct (ms @ ns)" using ms ns by auto
    show "set (ms @ ns) \<inter> set (oc_settled c) = {}" "set (ms @ ns) \<subseteq> set (oc_settled e)" using ms ns sub by auto
    show "oc_closedByUser c \<le> oc_closedByUser e" using assms by (auto simp: bump_def)
  qed (use assms in \<open>simp_all add: bump_def\<close>)
qed

lemma bump_mono: "bump A c d \<Longrightarrow> A \<subseteq> B \<Longrightarrow> bump B c d"
  unfolding bump_def by blast

lemma bump_absorb: assumes "bump A c d" "A \<subseteq> B \<union> attempts_of c" shows "bump B c d"
proof -
  have "attempts_of d \<subseteq> attempts_of c \<union> B" using bumpD(1) [OF assms(1)] assms(2) by blast
  moreover have "oc_socket c = Some n \<longrightarrow> n \<notin> B \<union> attempts_of c \<longrightarrow> oc_socket d = Some n" if "map_of (oc_ready d) n = Some 0" for n
    using bumpD(3) [OF assms(1) that] assms(2) by blast
  ultimately show ?thesis using assms(1) by (simp add: bump_def)
qed

lemma bump_same:
  assumes "attempts_of d \<subseteq> attempts_of c \<union> A" "oc_settled d = oc_settled c" "oc_promise d = oc_promise c" "oc_attempts d = oc_attempts c"
    "oc_resolving d = oc_resolving c" "oc_calls d = oc_calls c" "oc_closedByUser c \<le> oc_closedByUser d" "oc_socket d = oc_socket c"
    "oc_ready d = oc_ready c" "finals d = finals c"
  shows "bump A c d"
  using assms by (auto simp: bump_def)

named_theorems bumps

lemma bump_emit [bumps]: "bump A c (oc_emit x c)" "bump A c (oc_setState st dt c)"
  by (auto intro!: bump_same simp: attempts_of_def)

lemma bump_fields [bumps]:
  "bump A c (c\<lparr>oc_hello := a\<rparr>)" "bump A c (c\<lparr>oc_sent := b\<rparr>)" "bump A c (c\<lparr>oc_nonce := n\<rparr>)" "bump A c (c\<lparr>oc_timer := None\<rparr>)"
  "bump A c (c\<lparr>oc_done := d\<rparr>)" "bump A c (c\<lparr>oc_nextCall := k\<rparr>)"
  by (auto intro!: bump_same simp: attempts_of_def)

lemma bump_micro: "(\<Union>m \<in> set ms. micro_attempt m) \<subseteq> A \<union> attempts_of c \<Longrightarrow> finals_in ms = [] \<Longrightarrow>
    bump A c (c\<lparr>oc_micro := oc_micro c @ ms\<rparr>)"
  by (intro bump_same) (simp_all add: attempts_micro Un_commute)

lemma bump_building: "n \<in> A \<union> attempts_of c \<Longrightarrow> bump A c (c\<lparr>oc_building := oc_building c @ [(n, x)]\<rparr>)"
  by (intro bump_same) (auto simp: attempts_building)

lemma bump_settle_request [bumps]: "owner_attempt ow \<subseteq> A \<union> attempts_of c \<Longrightarrow> bump A c (settle_request r ow c)"
proof (cases ow)
  case (For_connect n)
  assume "owner_attempt ow \<subseteq> A \<union> attempts_of c"
  then show ?thesis using bump_micro [of "[M_connect n r]" A c] by (simp add: settle_request_def For_connect)
qed (simp add: settle_request_def bump_fields)

lemma finals_fold: "finals (fold (settle_request r) ows c) = finals c"
  by (induction ows arbitrary: c) (auto simp: settle_request_def split: request_owner.split)

lemma micro_fold: "set (oc_micro (fold (settle_request r) ows c)) \<subseteq> set (oc_micro c) \<union> {M_connect n r | n. For_connect n \<in> set ows}"
proof (induction ows arbitrary: c)
  case (Cons ow ows)
  have "set (oc_micro (settle_request r ow c)) \<subseteq> set (oc_micro c) \<union> {M_connect n r | n. For_connect n = ow}"
    by (auto simp: settle_request_def split: request_owner.split)
  then show ?case using Cons [of "settle_request r ow c"] by auto
qed simp

lemma bump_flush [bumps]: "bump A c (flushPendingRequests err c)"
proof (rule bump_same)
  have "set (oc_micro (flushPendingRequests err c)) \<subseteq> set (oc_micro c) \<union> {M_connect n (Inl err) | n. For_connect n \<in> snd ` set (oc_pending c)}"
    using micro_fold [of "Inl err" "map snd (oc_pending c)" c] by (auto simp: flushPendingRequests_def)
  then show "attempts_of (flushPendingRequests err c) \<subseteq> attempts_of c \<union> A"
    by (fastforce simp: attempts_of_def)
qed (simp_all add: flushPendingRequests_def finals_fold frame_fold [unfolded same_frame_def])

lemma bump_settle_attempt [bumps]: "n \<in> A \<union> attempts_of c \<Longrightarrow> bump A c (settle_attempt n r c)"
  by (auto simp: settle_attempt_def bump_def attempts_of_def)

lemma oc_keys_update: "map_of ps w \<noteq> None \<Longrightarrow> fst ` set (AList.update w r ps) = fst ` set ps"
  using dom_update [of w r ps] by (auto simp: dom_map_of_conv_image_fst map_of_eq_None_iff)

lemma bump_ready:
  assumes "map_of (oc_ready c) w \<noteq> None" "r \<noteq> 0" "\<And>x. map_of (oc_ready c) w = Some x \<Longrightarrow> 2 \<le> x \<Longrightarrow> 2 \<le> r"
  shows "bump A c (c\<lparr>oc_ready := AList.update w r (oc_ready c)\<rparr>)"
  using assms by (auto simp: bump_def attempts_of_def oc_keys_update update_conv')

lemma ready_known: "ready_state c w \<noteq> 3 \<Longrightarrow> map_of (oc_ready c) w \<noteq> None"
  by (cases "map_of (oc_ready c) w") (simp_all add: ready_state_def)

lemma bump_close_socket: "ready_state c w \<noteq> 3 \<Longrightarrow> bump A c (close_socket w r c)"
  unfolding close_socket_def by (intro bump_trans [OF bump_ready bump_emit(1)] ready_known) simp_all

lemma bump_socket_none: "(\<And>n. oc_socket c = Some n \<Longrightarrow> n \<in> A \<union> attempts_of c \<or> map_of (oc_ready c) n \<noteq> Some 0) \<Longrightarrow>
    bump A c (c\<lparr>oc_socket := None\<rparr>)"
  by (auto simp: bump_def attempts_of_def)

lemma bump_drop: "w \<in> A \<union> attempts_of c \<or> map_of (oc_ready c) w \<noteq> Some 0 \<Longrightarrow> bump A c (drop_socket w c)"
  by (auto simp: drop_socket_def intro!: bump_socket_none)

lemma bump_request: "owner_attempt ow \<subseteq> A \<union> attempts_of c \<Longrightarrow> bump A c (requestInternal e ow m p c)"
proof -
  assume a: "owner_attempt ow \<subseteq> A \<union> attempts_of c"
  have u: "snd ` set (AList.update i ow ps) \<subseteq> insert ow (snd ` set ps)" for i and ps :: "(string \<times> request_owner) list"
    by (induction ps) auto
  have "bump A c (c\<lparr>oc_pending := AList.update i ow (oc_pending c)\<rparr>)" for i
  proof (rule bump_same)
    have "(\<Union>ow \<in> snd ` set (AList.update i ow (oc_pending c)). owner_attempt ow) \<subseteq>
        owner_attempt ow \<union> (\<Union>ow \<in> snd ` set (oc_pending c). owner_attempt ow)" using u [of i "oc_pending c"] by blast
    then show "attempts_of (c\<lparr>oc_pending := AList.update i ow (oc_pending c)\<rparr>) \<subseteq> attempts_of c \<union> A"
      using a by (simp add: attempts_of_def) blast
  qed simp_all
  then show ?thesis using a
    by (auto simp: requestInternal_def Let_def intro!: bumps intro: bump_trans [OF _ bump_emit(1)] split: option.split)
qed

lemma bump_send_connect [bumps]: "bump (insert n A) c (sendConnect n c)"
proof -
  let ?c = "c\<lparr>oc_sent := True, oc_timer := None\<rparr>"
  have 1: "bump (insert n A) c ?c" by (rule bump_trans [OF bump_fields(2) bump_fields(4)])
  have "bump (insert n A) c (?c\<lparr>oc_micro := oc_micro ?c @ [M_connect n r]\<rparr>)" for r
    by (rule bump_trans [OF 1 bump_micro]) auto
  moreover have "bump (insert n A) c (?c\<lparr>oc_building := oc_building ?c @ [(n, x)]\<rparr>)" for x
    by (rule bump_trans [OF 1 bump_building]) simp
  ultimately show ?thesis by (simp add: sendConnect_def Let_def)
qed

lemma bump_fail [bumps]: "n \<in> A \<union> attempts_of c \<Longrightarrow> bump A c (oc_fail n err c)"
proof -
  assume n: "n \<in> A \<union> attempts_of c"
  obtain name message where t: "toGatewayError err ''gateway connection failed'' = (name, message)" by fastforce
  let ?c1 = "settle_attempt n (Inl (Thrown_error name message)) c"
  have m: "n \<in> A \<union> attempts_of ?c1" by (auto simp: settle_attempt_def attempts_of_def)
  have 1: "bump A c ?c1" by (rule bump_settle_attempt [OF n])
  let ?c2 = "drop_socket n ?c1"
  have 2: "bump A ?c1 ?c2" using m by (intro bump_drop) simp
  have 3: "bump A ?c2 (?c2\<lparr>oc_hello := JNull, oc_sent := False, oc_nonce := []\<rparr>)"
    by (intro bump_same) (auto simp: attempts_of_def)
  show ?thesis
    unfolding oc_fail_def t Let_def prod.case
    by (rule bump_trans [OF bump_trans [OF bump_trans [OF bump_trans [OF 1 2] 3] bump_emit(2)] bump_flush])
qed

lemma bump_answered [bumps]: "n \<in> A \<union> attempts_of c \<Longrightarrow> bump A c (connect_answered n r c)"
proof -
  assume n: "n \<in> A \<union> attempts_of c"
  show ?thesis
  proof (cases r)
    case (Inr hello)
    have "bump A c (oc_setState Gs_connected [] (c\<lparr>oc_hello := hello\<rparr>))" by (rule bump_trans [OF bump_fields(1) bump_emit(2)])
    moreover have "n \<in> A \<union> attempts_of (oc_setState Gs_connected [] (c\<lparr>oc_hello := hello\<rparr>))" using n by (simp add: attempts_of_def)
    ultimately show ?thesis by (simp add: connect_answered_def Inr bump_trans bump_settle_attempt)
  next
    case (Inl err)
    obtain name message where t: "toGatewayError err ''gateway connect failed'' = (name, message)" by fastforce
    let ?c1 = "oc_emit (Client_log (''gateway connect failed: '' @ message)) c"
    let ?c2 = "oc_fail n (Thrown_error name message) ?c1"
    have "n \<in> A \<union> attempts_of ?c1" using n by (simp add: attempts_of_def)
    then have 2: "bump A c ?c2" by (rule bump_trans [OF bump_emit(1) bump_fail])
    have "bump A ?c2 (close_socket w x ?c2)" if "ready_state ?c2 w \<le> 1" for w x
      using that by (intro bump_close_socket) simp
    then show ?thesis using 2 bump_trans [OF 2] by (simp add: connect_answered_def Inl t Let_def split: option.split)
  qed
qed

lemma bump_built: "bump {} c (device_built ho e e' n nonce r c)"
proof (cases "(n, nonce) \<in> set (oc_building c)")
  case True
  let ?c = "c\<lparr>oc_building := remove1 (n, nonce) (oc_building c)\<rparr>"
  have n: "n \<in> attempts_of c" using True by (force simp: attempts_of_def)
  have "fst ` set (remove1 (n, nonce) (oc_building c)) \<subseteq> fst ` set (oc_building c)" using set_remove1_subset by (rule image_mono)
  then have 1: "bump {n} c ?c" by (intro bump_same) (auto simp: attempts_of_def)
  have "bump {n} c (requestInternal e (For_connect n) m p ?c)" for m p
    by (rule bump_trans [OF 1 bump_request]) simp
  moreover have "bump {n} c (?c\<lparr>oc_micro := oc_micro ?c @ [M_connect n x]\<rparr>)" for x
    by (rule bump_trans [OF 1 bump_micro]) simp_all
  ultimately have "bump {n} c (device_built ho e e' n nonce r c)"
    using True 1 by (simp add: device_built_def Let_def split: sum.split option.split)
  then show ?thesis by (rule bump_absorb) (use n in simp)
qed (simp add: device_built_def)

lemma bump_message: "bump {w} c (oc_handleMessage w raw c)"
proof -
  have s: "bump {w} c (sendConnect w (c\<lparr>oc_nonce := x\<rparr>))" for x
    using bump_trans [OF bump_fields(3) bump_send_connect [of w "{w}"]] by simp
  have p: "bump {w} c (settle_request r ow (c\<lparr>oc_pending := AList.delete i (oc_pending c)\<rparr>))"
    if i: "map_of (oc_pending c) i = Some ow" for r ow i
  proof -
    let ?c = "c\<lparr>oc_pending := AList.delete i (oc_pending c)\<rparr>"
    have ow: "ow \<in> snd ` set (oc_pending c)" using map_of_SomeD [OF i] by force
    have "snd ` set (AList.delete i (oc_pending c)) \<subseteq> snd ` set (oc_pending c)" by (auto simp: AList.delete_eq)
    then have 1: "bump {w} c ?c" by (intro bump_same) (fastforce simp: attempts_of_def)+
    have "owner_attempt ow \<subseteq> attempts_of c" using ow by (auto simp: attempts_of_def)
    have "bump ({w} \<union> owner_attempt ow) ?c (settle_request r ow ?c)" by (rule bump_settle_request) auto
    with bump_mono [OF 1] have "bump ({w} \<union> owner_attempt ow) c (settle_request r ow ?c)" by (meson Un_upper1 bump_trans)
    then show ?thesis by (rule bump_absorb) (use \<open>owner_attempt ow \<subseteq> attempts_of c\<close> in auto)
  qed
  show ?thesis by (auto simp: oc_handleMessage_def s p bump_emit split: option.split jsval.split)
qed

lemma bump_opened: "bump {w} c (socket_opened w c)"
proof (cases "ready_state c w = 0")
  case True
  have 1: "bump {w} c (c\<lparr>oc_ready := AList.update w 1 (oc_ready c)\<rparr>)"
    using True by (intro bump_ready ready_known) (auto simp: ready_state_def)
  have "bump {w} (c\<lparr>oc_ready := AList.update w 1 (oc_ready c)\<rparr>) (socket_opened w c)"
    using True by (intro bump_same) (auto simp: socket_opened_def attempts_of_def)
  with 1 show ?thesis by (rule bump_trans)
qed (simp add: socket_opened_def)

lemma bump_gone: "bump (if oc_closedByUser c then {} else {w}) c (socket_gone w code reason c)" (is "bump ?A _ _")
proof (cases "ready_state c w = 3")
  case False
  let ?c0 = "c\<lparr>oc_ready := AList.update w 3 (oc_ready c)\<rparr>"
  let ?c1 = "c\<lparr>oc_ready := AList.update w 3 (oc_ready c), oc_timer := None, oc_sent := False, oc_nonce := []\<rparr>"
  let ?c2 = "drop_socket w ?c1"
  have 0: "bump ?A c ?c0" using False by (intro bump_ready ready_known) auto
  have 1: "bump ?A ?c0 ?c1" by (rule bump_same) (auto simp: attempts_of_def)
  have 2: "bump ?A ?c1 ?c2" by (rule bump_drop) (simp add: update_conv')
  have 3: "bump ?A c (flushPendingRequests x (?c2\<lparr>oc_hello := JNull\<rparr>))" for x
    by (rule bump_trans [OF bump_trans [OF bump_trans [OF bump_trans [OF 0 1] 2] bump_fields(1)] bump_flush])
  have "bump ?A c (settle_attempt w r (flushPendingRequests x (?c2\<lparr>oc_hello := JNull\<rparr>)))" if "\<not> oc_closedByUser c" for x r
    by (rule bump_trans [OF 3 bump_settle_attempt]) (use that in simp)
  then have 4: "bump ?A c (if oc_closedByUser c then flushPendingRequests x (?c2\<lparr>oc_hello := JNull\<rparr>)
      else settle_attempt w r (flushPendingRequests x (?c2\<lparr>oc_hello := JNull\<rparr>)))" for x r
    by (cases "oc_closedByUser c") (use 3 in auto)
  have "oc_closedByUser (flushPendingRequests x (?c2\<lparr>oc_hello := JNull\<rparr>)) = oc_closedByUser c" for x by simp
  then show ?thesis
    unfolding socket_gone_def Let_def using False by (simp only: if_False) (rule bump_trans [OF 4 bump_emit(2)])
qed (simp add: socket_gone_def)

lemma bump_close: "bump {} c (oc_close reason c)"
proof -
  let ?c1 = "oc_setState Gs_idle reason (c\<lparr>oc_closedByUser := True, oc_timer := None, oc_sent := False, oc_nonce := [], oc_hello := JNull\<rparr>)"
  have 1: "bump {} c ?c1" by (rule bump_trans [OF _ bump_emit(2)], rule bump_same) (auto simp: attempts_of_def)
  have fl: "bump {} c (flushPendingRequests x d)" if "bump {} ?c1 d" for x d by (rule bump_trans [OF bump_trans [OF 1 that] bump_flush])
  have sock: "bump {} ?c1 (?c1\<lparr>oc_socket := None\<rparr>)" if "\<And>w. oc_socket c = Some w \<Longrightarrow> ready_state c w \<noteq> 0"
    using that by (intro bump_socket_none) (auto simp: ready_state_def)
  show ?thesis
  proof (cases "oc_socket c")
    case None
    then show ?thesis using fl [OF sock] by (simp add: oc_close_def Let_def)
  next
    case (Some w)
    have close: "bump {} ?c1 (close_socket w x (?c1\<lparr>oc_socket := None\<rparr>))" if "ready_state c w \<noteq> 3" "ready_state c w < 2" for x
    proof -
      have "close_socket w x (?c1\<lparr>oc_socket := None\<rparr>) = (close_socket w x ?c1)\<lparr>oc_socket := None\<rparr>"
        by (simp add: close_socket_def oc_emit_def)
      moreover have "bump {} ?c1 (close_socket w x ?c1)"
        using that by (intro bump_close_socket) (simp add: ready_state_def oc_setState_def oc_emit_def)
      moreover have "bump {} (close_socket w x ?c1) ((close_socket w x ?c1)\<lparr>oc_socket := None\<rparr>)"
        using Some by (intro bump_socket_none) (auto simp: close_socket_def update_conv')
      ultimately show ?thesis by (simp add: bump_trans)
    qed
    have "bump {} c (?c1\<lparr>oc_socket := None\<rparr>)" if "ready_state c w \<noteq> 0"
      by (rule bump_trans [OF 1 sock]) (use that Some in auto)
    then show ?thesis
      using fl [OF close] fl [OF sock] Some by (simp add: oc_close_def Let_def)
  qed
qed

section \<open>The invariant of the attempts\<close>

definition attempts_ok :: "client \<Rightarrow> bool" where
  "attempts_ok c =
     ((\<forall>n. map_of (oc_ready c) n = Some 0 \<longrightarrow> n \<notin> attempts_of c \<and> oc_socket c = Some n \<and> oc_promise c = Some n) \<and>
      (\<forall>n \<in> set (oc_resolving c). n \<notin> attempts_of c \<and> n \<notin> fst ` set (oc_ready c) \<and> oc_promise c = Some n) \<and>
      (\<forall>m < oc_attempts c. oc_promise c = Some m \<or> m \<in> set (oc_settled c)) \<and>
      attempts_of c \<union> fst ` set (oc_ready c) \<union> set (oc_resolving c) \<union> set_option (oc_promise c) \<subseteq> {..<oc_attempts c} \<and>
      distinct (finals c) \<and> set (finals c) \<subseteq> set (oc_settled c) \<and> (\<forall>m \<in> set (finals c). oc_promise c = Some m) \<and>
      (\<forall>(k, a, kind) \<in> set (oc_calls c). oc_promise c = Some a))"

lemma attempts_okI:
  assumes "\<And>n. map_of (oc_ready c) n = Some 0 \<Longrightarrow> n \<notin> attempts_of c \<and> oc_socket c = Some n \<and> oc_promise c = Some n"
    "\<And>n. n \<in> set (oc_resolving c) \<Longrightarrow> n \<notin> attempts_of c" 
    "\<forall>n \<in> set (oc_resolving c). n \<notin> fst ` set (oc_ready c) \<and> oc_promise c = Some n"
    "\<forall>m < oc_attempts c. oc_promise c = Some m \<or> m \<in> set (oc_settled c)"
    "attempts_of c \<subseteq> {..<oc_attempts c}"
    "fst ` set (oc_ready c) \<union> set (oc_resolving c) \<union> set_option (oc_promise c) \<subseteq> {..<oc_attempts c}"
    "distinct (finals c)" "set (finals c) \<subseteq> set (oc_settled c)" "\<And>m. m \<in> set (finals c) \<Longrightarrow> oc_promise c = Some m"
    "\<forall>(k, a, kind) \<in> set (oc_calls c). oc_promise c = Some a"
  shows "attempts_ok c"
  using assms by (simp add: attempts_ok_def)

lemma attempts_okD:
  assumes "attempts_ok c"
  shows "map_of (oc_ready c) n = Some 0 \<Longrightarrow> n \<notin> attempts_of c \<and> oc_socket c = Some n \<and> oc_promise c = Some n"
    and "n \<in> set (oc_resolving c) \<Longrightarrow> n \<notin> attempts_of c \<and> n \<notin> fst ` set (oc_ready c) \<and> oc_promise c = Some n"
    and "m < oc_attempts c \<Longrightarrow> oc_promise c = Some m \<or> m \<in> set (oc_settled c)"
    and "n \<in> attempts_of c \<Longrightarrow> n < oc_attempts c" "n \<in> fst ` set (oc_ready c) \<Longrightarrow> n < oc_attempts c"
    and "n \<in> set (oc_resolving c) \<Longrightarrow> n < oc_attempts c" "oc_promise c = Some n \<Longrightarrow> n < oc_attempts c"
    and "distinct (finals c)" "set (finals c) \<subseteq> set (oc_settled c)" "m \<in> set (finals c) \<Longrightarrow> oc_promise c = Some m"
    and "(k, a, kind) \<in> set (oc_calls c) \<Longrightarrow> oc_promise c = Some a"
  using assms unfolding attempts_ok_def by (simp_all add: subset_iff) fastforce+

lemma settled_attempts: "set (oc_settled c) \<subseteq> attempts_of c"
  by (auto simp: attempts_of_def)

lemma attempts_ok_bump:
  assumes ok: "attempts_ok c" and b: "bump A c d"
    and A: "\<And>n. n \<in> A \<Longrightarrow> n < oc_attempts c \<and> map_of (oc_ready d) n \<noteq> Some 0 \<and> n \<notin> set (oc_resolving c)"
  shows "attempts_ok d"
proof -
  have same: "oc_promise d = oc_promise c" "oc_attempts d = oc_attempts c" "oc_resolving d = oc_resolving c" "oc_calls d = oc_calls c"
    "fst ` set (oc_ready d) = fst ` set (oc_ready c)" "set (oc_settled c) \<subseteq> set (oc_settled d)" "attempts_of d \<subseteq> attempts_of c \<union> A"
    using b by (simp_all add: bump_def)
  obtain ms where ms: "finals d = finals c @ ms" "distinct ms" "set ms \<inter> set (oc_settled c) = {}" "set ms \<subseteq> set (oc_settled d)"
    using b by (auto simp: bump_def)
  have lt: "attempts_of d \<subseteq> {..<oc_attempts d}" using same(2,7) A attempts_okD(4) [OF ok] by fastforce
  have fin: "oc_promise d = Some m" if "m \<in> set (finals d)" for m
  proof (cases "m \<in> set ms")
    case True
    then have "m \<in> attempts_of d" "m \<notin> set (oc_settled c)" using ms settled_attempts by auto
    then show ?thesis using lt same(1,2) attempts_okD(3) [OF ok, of m] by auto
  next
    case False
    then show ?thesis using that ms(1) same(1) attempts_okD(10) [OF ok, of m] by auto
  qed
  have "n \<notin> attempts_of d \<and> oc_socket d = Some n \<and> oc_promise d = Some n" if r: "map_of (oc_ready d) n = Some 0" for n
  proof -
    have c: "map_of (oc_ready c) n = Some 0" by (rule bumpD(2) [OF b r])
    then have "n \<notin> attempts_of c" "oc_socket c = Some n" "oc_promise c = Some n" using attempts_okD(1) [OF ok] by simp_all
    moreover have "n \<notin> A" using A r by blast
    ultimately have "n \<notin> attempts_of d" "oc_socket d = Some n" using bumpD(3) [OF b r] same(7) by auto
    then show ?thesis using same(1) \<open>oc_promise c = Some n\<close> by simp
  qed
  moreover have "n \<notin> attempts_of d" if "n \<in> set (oc_resolving d)" for n
    using that same(3,7) A [of n] attempts_okD(2) [OF ok, of n] by auto
  moreover have "distinct (finals d)" "set (finals d) \<subseteq> set (oc_settled d)"
    using ms same(6) attempts_okD(8,9) [OF ok] by auto
  moreover have "\<forall>m < oc_attempts d. oc_promise d = Some m \<or> m \<in> set (oc_settled d)"
    using same(1,2,6) attempts_okD(3) [OF ok] by auto
  moreover have "\<forall>(k, a, kind) \<in> set (oc_calls d). oc_promise d = Some a"
    using same(1,4) attempts_okD(11) [OF ok] by auto
  moreover have "\<forall>n \<in> set (oc_resolving d). n \<notin> fst ` set (oc_ready d) \<and> oc_promise d = Some n"
    using same(1,3,5) attempts_okD(2) [OF ok] by simp
  moreover have "fst ` set (oc_ready d) \<union> set (oc_resolving d) \<union> set_option (oc_promise d) \<subseteq> {..<oc_attempts d}"
    unfolding same(1-3,5) using attempts_okD(5-7) [OF ok] by auto
  ultimately show ?thesis using lt fin by (intro attempts_okI)
qed

lemma attempts_ok_tail:
  assumes ok: "attempts_ok c" and m: "oc_micro c = m # ms" shows "attempts_ok (c\<lparr>oc_micro := ms\<rparr>)"
proof -
  have a: "attempts_of (c\<lparr>oc_micro := ms\<rparr>) \<subseteq> attempts_of c" using m by (auto simp: attempts_of_def)
  have f: "finals c = finals_in [m] @ finals_in ms" using m by (simp add: finals_in_def)
  note ok' = attempts_okD [OF ok, unfolded f]
  show ?thesis
    by (rule attempts_okI) (use a ok' in \<open>auto simp: subset_iff\<close>)
qed

lemma attempts_ok_call: assumes ok: "attempts_ok c" shows "attempts_ok (oc_call kind c)"
proof (cases "oc_connected c \<and> js_truthy (oc_hello c)")
  case True
  have "bump {} (c\<lparr>oc_nextCall := oc_nextCall c + 1\<rparr>) (oc_call kind c)"
    using bump_micro [of "[M_call (oc_nextCall c) kind (Inr (oc_hello c))]" "{}" "c\<lparr>oc_nextCall := oc_nextCall c + 1\<rparr>"] True
    by (simp add: oc_call_def Let_def)
  with bump_trans [OF bump_fields(6)] have "bump {} c (oc_call kind c)" .
  then show ?thesis by (rule attempts_ok_bump [OF ok]) simp
next
  case False
  note D = attempts_okD [OF ok]
  show ?thesis
  proof (cases "oc_promise c")
    case (Some n)
    let ?d = "c\<lparr>oc_nextCall := oc_nextCall c + 1, oc_calls := oc_calls c @ [(oc_nextCall c, n, kind)]\<rparr>"
    have d: "oc_call kind c = ?d" using False Some by (simp add: oc_call_def Let_def)
    have a: "attempts_of ?d = attempts_of c" by (simp add: attempts_of_def)
    show ?thesis unfolding d
      by (rule attempts_okI) (use D a Some in \<open>auto simp: subset_iff\<close>)
  next
    case None
    let ?n = "oc_attempts c"
    let ?d = "c\<lparr>oc_nextCall := oc_nextCall c + 1, oc_promise := Some ?n, oc_attempts := ?n + 1, oc_resolving := oc_resolving c @ [?n],
        oc_calls := oc_calls c @ [(oc_nextCall c, ?n, kind)]\<rparr>"
    have d: "oc_call kind c = ?d" using False None by (simp add: oc_call_def Let_def)
    have a: "attempts_of ?d = attempts_of c" by (simp add: attempts_of_def)
    have e: "oc_resolving c = []" "oc_calls c = []" "finals c = []" "map_of (oc_ready c) n \<noteq> Some 0" for n
    proof -
      show "oc_resolving c = []" using D(2) None by (cases "oc_resolving c") auto
      show "finals c = []" using D(10) None by (cases "finals c") auto
      show "oc_calls c = []" using D(11) None by (cases "oc_calls c") auto
    qed (use D(1) None in auto)
    have n: "?n \<notin> attempts_of c" "?n \<notin> fst ` set (oc_ready c)" using D(4,5) by blast+
    show ?thesis unfolding d
    proof (rule attempts_okI)
      show "attempts_of ?d \<subseteq> {..<oc_attempts ?d}" unfolding a using D(4) by (auto intro: less_SucI)
      show "fst ` set (oc_ready ?d) \<union> set (oc_resolving ?d) \<union> set_option (oc_promise ?d) \<subseteq> {..<oc_attempts ?d}"
        using D(5) e by (auto intro: less_SucI)
      show "\<forall>m < oc_attempts ?d. oc_promise ?d = Some m \<or> m \<in> set (oc_settled ?d)"
        using D(3) None by (auto simp: less_Suc_eq)
    qed (use e a n in auto)
  qed
qed

lemma attempts_ok_resolved: assumes ok: "attempts_ok c" shows "attempts_ok (connection_resolved ho n r c)"
proof (cases "n \<in> set (oc_resolving c)")
  case n: True
  note D = attempts_okD [OF ok]
  have p: "oc_promise c = Some n" "n \<notin> attempts_of c" "n \<notin> fst ` set (oc_ready c)" "n < oc_attempts c" using D(2,6) n by auto
  have only: "m = n" if "m \<in> set (oc_resolving c)" for m using D(2) [OF that] p(1) by simp
  have rm: "removeAll n (oc_resolving c) = []" using only by (simp add: removeAll_filter_not_eq filter_empty_conv)
  have r0: "map_of (oc_ready c) m \<noteq> Some 0" for m
  proof
    assume r: "map_of (oc_ready c) m = Some 0"
    then have "m = n" using D(1) [OF r] p(1) by simp
    then show False using r p(3) by (metis map_of_eq_None_iff option.distinct(1))
  qed
  have f0: "finals c = []"
  proof (cases "finals c")
    case (Cons m ms)
    then have "m \<in> set (finals c)" by simp
    then have "m = n" "m \<in> attempts_of c" using D(10) [of m] D(9) p(1) settled_attempts by auto
    then show ?thesis using p(2) by simp
  qed simp
  let ?c = "c\<lparr>oc_resolving := []\<rparr>"
  have a: "attempts_of ?c = attempts_of c" by (simp add: attempts_of_def)
  have ok1: "attempts_ok ?c"
    by (rule attempts_okI) (use D a in \<open>auto simp: subset_iff\<close>)
  let ?d = "oc_setState Gs_connecting [] (?c\<lparr>oc_closedByUser := False, oc_hello := JNull, oc_nonce := [], oc_sent := False, oc_timer := None\<rparr>)"
  have ad: "attempts_of ?d \<subseteq> attempts_of c" by (auto simp: attempts_of_def)
  have okd: "attempts_ok ?d"
    by (rule attempts_okI) (use attempts_okD [OF ok1] ad a r0 in \<open>auto simp: subset_iff\<close>)
  show ?thesis
  proof (cases r)
    case (Inl err)
    have "attempts_ok (settle_attempt n (Inl err) ?c)"
      by (rule attempts_ok_bump [OF ok1 bump_settle_attempt [of n "{n}"]]) (use p r0 in auto)
    then show ?thesis using n Inl rm by (simp add: connection_resolved_def Let_def)
  next
    case (Inr connection)
    have bad: "attempts_ok (settle_attempt n x ?d)" for x
      by (rule attempts_ok_bump [OF okd bump_settle_attempt [of n "{n}"]]) (use p r0 in auto)
    let ?e = "?d\<lparr>oc_socket := Some n, oc_ready := AList.update n 0 (oc_ready ?d), oc_tokens := AList.update n (ogc_token connection) (oc_tokens ?d)\<rparr>"
    have ae: "attempts_of ?e = attempts_of ?d" by (simp add: attempts_of_def)
    have "attempts_ok ?e"
    proof (rule attempts_okI)
      fix m assume "map_of (oc_ready ?e) m = Some 0"
      then have "m = n" using r0 by (auto simp: update_conv' split: if_splits)
      then show "m \<notin> attempts_of ?e \<and> oc_socket ?e = Some m \<and> oc_promise ?e = Some m" using p ad ae by auto
    next
      show "fst ` set (oc_ready ?e) \<union> set (oc_resolving ?e) \<union> set_option (oc_promise ?e) \<subseteq> {..<oc_attempts ?e}"
        using D(5) p set_update_subset [of n 0 "oc_ready c"] by fastforce
      show "attempts_of ?e \<subseteq> {..<oc_attempts ?e}" unfolding ae using ad D(4) by fastforce
    qed (use D p f0 in auto)
    then have "attempts_ok (oc_emit x ?e)" for x by (rule attempts_ok_bump [OF _ bump_emit(1) [of "{}"]]) simp
    then show ?thesis using n Inr rm bad by (simp add: connection_resolved_def Let_def)
  qed
qed (use ok in \<open>simp add: connection_resolved_def\<close>)

lemma bump_micro_step:
  assumes "\<And>n r. m \<noteq> M_finally n r" shows "bump (micro_attempt m) c (oc_micro_step e m c)"
proof (cases m)
  case (M_connect n r)
  then show ?thesis by (simp add: oc_micro_step_def bump_answered)
next
  case (M_call k kind r)
  then show ?thesis
    by (auto simp: oc_micro_step_def bump_fields bump_request split: call_kind.split sum.split)
qed (use assms in simp)

lemma attempts_ok_micro:
  assumes ok: "attempts_ok c" and m: "oc_micro c = m # ms" shows "attempts_ok (oc_micro_step e m (c\<lparr>oc_micro := ms\<rparr>))"
proof (cases "\<exists>n r. m = M_finally n r")
  case False
  let ?c = "c\<lparr>oc_micro := ms\<rparr>"
  have b: "bump (micro_attempt m) ?c (oc_micro_step e m ?c)" using False by (intro bump_micro_step) auto
  show ?thesis
  proof (rule attempts_ok_bump [OF attempts_ok_tail [OF ok m] b])
    fix n assume "n \<in> micro_attempt m"
    then have a: "n \<in> attempts_of c" using m by (auto simp: attempts_of_def)
    have "map_of (oc_ready (oc_micro_step e m ?c)) n \<noteq> Some 0"
      using bumpD(2) [OF b, of n] attempts_okD(1) [OF ok, of n] a by auto
    then show "n < oc_attempts ?c \<and> map_of (oc_ready (oc_micro_step e m ?c)) n \<noteq> Some 0 \<and> n \<notin> set (oc_resolving ?c)"
      using attempts_okD(2,4) [OF ok] a by auto
  qed
next
  case True
  then obtain n r where n: "m = M_finally n r" by blast
  let ?ws = "map (\<lambda>(k, a, kind). M_call k kind r) (filter (\<lambda>(k, a, kind). a = n) (oc_calls c))"
  let ?d = "c\<lparr>oc_promise := None, oc_calls := filter (\<lambda>(k, a, kind). a \<noteq> n) (oc_calls c), oc_micro := ms @ ?ws\<rparr>"
  have d: "oc_micro_step e m (c\<lparr>oc_micro := ms\<rparr>) = ?d" by (simp add: oc_micro_step_def n)
  note D = attempts_okD [OF ok]
  have f: "finals c = n # finals_in ms" using m n by simp
  then have p: "oc_promise c = Some n" "n \<in> set (oc_settled c)" using D(9,10) by auto
  have ns: "n \<in> attempts_of c" using p(2) settled_attempts by blast
  have fms: "finals_in ms = []"
  proof (cases "finals_in ms")
    case (Cons x xs)
    then have "x = n" using D(10) [of x] f p(1) by auto
    then show ?thesis using D(8) f Cons by simp
  qed simp
  have fw: "finals_in (map (\<lambda>(k, a, kind). M_call k kind r) xs) = []" for xs :: "(nat \<times> nat \<times> call_kind) list"
    by (induction xs) auto
  have aw: "(\<Union>m \<in> set ?ws. micro_attempt m) = {}" by auto
  have ad: "attempts_of ?d \<subseteq> attempts_of c" using m aw by (auto simp: attempts_of_def)
  have r0: "map_of (oc_ready c) x \<noteq> Some 0" for x using D(1) [of x] p(1) ns by auto
  have res: "oc_resolving c = []" using D(2) p(1) ns by (cases "oc_resolving c") auto
  have calls: "filter (\<lambda>(k, a, kind). a \<noteq> n) (oc_calls c) = []" using D(11) p(1) by (fastforce simp: filter_empty_conv)
  show ?thesis unfolding d
  proof (rule attempts_okI)
    show "\<forall>m < oc_attempts ?d. oc_promise ?d = Some m \<or> m \<in> set (oc_settled ?d)" using D(3) p by fastforce
    show "attempts_of ?d \<subseteq> {..<oc_attempts ?d}" using ad D(4) by fastforce
    show "fst ` set (oc_ready ?d) \<union> set (oc_resolving ?d) \<union> set_option (oc_promise ?d) \<subseteq> {..<oc_attempts ?d}" using D(5) res by auto
  qed (use r0 res fms fw calls in auto)
qed

text \<open>The attempts an event may concern.\<close>

definition concerned :: "client \<Rightarrow> client \<Rightarrow> nat \<Rightarrow> bool" where
  "concerned c d n =
     (n \<in> attempts_of c \<or>
      (n \<in> fst ` set (oc_ready c) \<and> map_of (oc_ready d) n \<noteq> Some 0 \<and>
       (oc_closedByUser c \<longrightarrow> map_of (oc_ready c) n \<in> {Some 0, Some 1})))"

lemma ready_key: "ready_state c w = r \<Longrightarrow> r \<noteq> 3 \<Longrightarrow> map_of (oc_ready c) w = Some r \<and> w \<in> fst ` set (oc_ready c)"
  by (cases "map_of (oc_ready c) w") (auto simp: ready_state_def dest: map_of_SomeD intro: rev_image_eqI)

lemma bump_event:
  assumes "\<And>kind. ev \<noteq> Oc_call kind" "\<And>n r. ev \<noteq> Oc_resolved n r"
  shows "\<exists>A. bump A c (oc_event_step ho e ev c) \<and> (\<forall>n \<in> A. concerned c (oc_event_step ho e ev c) n)"
proof (cases ev)
  case (Oc_close reason)
  then show ?thesis using bump_close by (intro exI [of _ "{}"]) (simp add: oc_event_step_def)
next
  case (Oc_open w)
  show ?thesis
  proof (cases "ready_state c w = 0")
    case True
    then show ?thesis using bump_opened [of w c] ready_key [OF True]
      by (intro exI [of _ "{w}"]) (simp add: oc_event_step_def Oc_open socket_opened_def update_conv' concerned_def)
  qed (intro exI [of _ "{}"], simp add: oc_event_step_def Oc_open socket_opened_def)
next
  case Oc_timer
  show ?thesis
  proof (cases "oc_timer c")
    case (Some n)
    have "bump {n} c (sendConnect n (c\<lparr>oc_timer := None\<rparr>))"
      using bump_trans [OF bump_fields(4) bump_send_connect [of n "{n}"]] by simp
    moreover have "n \<in> attempts_of c" using Some by (simp add: attempts_of_def)
    ultimately show ?thesis by (intro exI [of _ "{n}"]) (simp add: oc_event_step_def Oc_timer Some concerned_def)
  qed (intro exI [of _ "{}"], simp add: oc_event_step_def Oc_timer)
next
  case (Oc_built n nonce r e')
  then show ?thesis using bump_built by (intro exI [of _ "{}"]) (simp add: oc_event_step_def)
next
  case (Oc_message w raw)
  show ?thesis
  proof (cases "ready_state c w = 1")
    case True
    have "map_of (oc_ready (oc_handleMessage w raw c)) w \<noteq> Some 0"
      using bumpD(2) [OF bump_message [of w c raw], of w] ready_key [OF True] by auto
    then show ?thesis using bump_message [of w c raw] True ready_key [OF True]
      by (intro exI [of _ "{w}"]) (simp add: oc_event_step_def Oc_message concerned_def)
  qed (intro exI [of _ "{}"], simp add: oc_event_step_def Oc_message)
next
  case (Oc_closed w code reason)
  show ?thesis
  proof (cases "ready_state c w = 3")
    case False
    have r: "map_of (oc_ready (socket_gone w code reason c)) w = Some 3"
      using False by (simp add: socket_gone_def Let_def update_conv')
    then have "\<forall>n \<in> (if oc_closedByUser c then {} else {w}). concerned c (socket_gone w code reason c) n"
      using ready_key [OF refl False] by (auto simp: concerned_def)
    then show ?thesis using bump_gone [of c w code reason]
      by (intro exI [of _ "if oc_closedByUser c then {} else {w}"]) (simp only: oc_event_step_def Oc_closed client_event.case)
  qed (intro exI [of _ "{}"], simp add: oc_event_step_def Oc_closed socket_gone_def)
next
  case (Oc_error w)
  then show ?thesis using bump_emit by (intro exI [of _ "{}"]) (simp add: oc_event_step_def)
qed (use assms in auto)

lemma attempts_ok_event: assumes ok: "attempts_ok c" shows "attempts_ok (oc_event_step ho e ev c)"
proof (cases "(\<exists>kind. ev = Oc_call kind) \<or> (\<exists>n r. ev = Oc_resolved n r)")
  case True
  then show ?thesis using attempts_ok_call [OF ok] attempts_ok_resolved [OF ok] by (auto simp: oc_event_step_def)
next
  case False
  then obtain A where b: "bump A c (oc_event_step ho e ev c)" and A: "\<forall>n \<in> A. concerned c (oc_event_step ho e ev c) n"
    using bump_event [of ev c ho e] by blast
  show ?thesis
  proof (rule attempts_ok_bump [OF ok b])
    fix n assume "n \<in> A"
    then have "concerned c (oc_event_step ho e ev c) n" using A by blast
    then show "n < oc_attempts c \<and> map_of (oc_ready (oc_event_step ho e ev c)) n \<noteq> Some 0 \<and> n \<notin> set (oc_resolving c)"
      using bumpD(2) [OF b, of n] attempts_okD(1,2,4,5) [OF ok, of n] by (auto simp: concerned_def)
  qed
qed

lemma attempts_ok_step: "attempts_ok c \<Longrightarrow> attempts_ok (oc_step ho e ev c)"
  by (cases "oc_micro c") (simp_all add: oc_step_def attempts_ok_event attempts_ok_micro)

lemma attempts_ok_run: "oc_run ho c d \<Longrightarrow> attempts_ok c \<Longrightarrow> attempts_ok d"
  by (induction rule: oc_run.induct) (auto intro: attempts_ok_step)

lemma attempts_ok_new: "attempts_ok new_client"
  by (simp add: attempts_ok_def attempts_of_def new_client_def)

section \<open>A client that was closed too early\<close>

text \<open>The calls that have an answer, a microtask or a request.\<close>

definition open_places :: "client \<Rightarrow> nat multiset" where
  "open_places c = call_places c - mset (map fst (oc_calls c))"

lemma open_places_eq: "call_places c = open_places c + mset (map fst (oc_calls c))"
  by (simp add: open_places_def call_places_def)

lemma open_places_mono:
  "oc_calls d = oc_calls c \<Longrightarrow> call_places d \<subseteq># call_places c \<Longrightarrow> open_places d \<subseteq># open_places c"
  by (simp add: open_places_eq)

definition wedged :: "nat set \<Rightarrow> nat \<Rightarrow> client \<Rightarrow> bool" where
  "wedged S n c =
     (attempts_ok c \<and> oc_promise c = Some n \<and> n \<notin> attempts_of c \<and> oc_resolving c = [] \<and> oc_closedByUser c \<and>
      oc_socket c = None \<and> (\<exists>r. map_of (oc_ready c) n = Some r \<and> 2 \<le> r) \<and> finals c = [] \<and>
      set_mset (open_places c) \<inter> S = {} \<and> {oc_nextCall c..} \<subseteq> S)"

lemma wedged_bump:
  assumes w: "wedged S n c" and b: "bump A c d" and ok: "attempts_ok d" and A: "n \<notin> A"
    and p: "call_places d \<subseteq># call_places c" "oc_nextCall d = oc_nextCall c"
  shows "wedged S n d"
proof -
  have f: "finals d = []"
  proof (cases "finals d")
    case (Cons m ms)
    then have "m \<in> set (finals d)" by simp
    then have "m = n" "m \<in> attempts_of d" using attempts_okD(9,10) [OF ok] settled_attempts b w by (auto simp: bump_def wedged_def)
    then show ?thesis using bumpD(1) [OF b] A w by (auto simp: wedged_def)
  qed simp
  have "n \<notin> attempts_of d" using bumpD(1) [OF b] A w by (auto simp: wedged_def)
  moreover have "\<exists>r. map_of (oc_ready d) n = Some r \<and> 2 \<le> r" using w bumpD(4) [OF b] by (auto simp: wedged_def)
  moreover have "set_mset (open_places d) \<subseteq> set_mset (open_places c)"
    using open_places_mono [of d c] p(1) b by (simp add: bump_def set_mset_mono)
  ultimately show ?thesis using w b ok f p(2) by (auto simp: wedged_def bump_def)
qed

lemma wedged_step: assumes w: "wedged S n c" shows "wedged S n (oc_step ho e ev c)"
proof (cases "oc_micro c")
  case (Cons m ms)
  have ok: "attempts_ok c" and fin: "finals c = []" using w by (simp_all add: wedged_def)
  have nf: "m \<noteq> M_finally x r" for x r using fin Cons by auto
  let ?c = "c\<lparr>oc_micro := ms\<rparr>"
  have f: "finals_in ms = finals c" using fin Cons by (cases m) auto
  have sub: "attempts_of ?c \<subseteq> attempts_of c" using Cons by (auto simp: attempts_of_def)
  have "bump (attempts_of c) c ?c" using sub f by (intro bump_same) auto
  then have b1: "bump {} c ?c" by (rule bump_absorb) simp
  have b3: "bump (micro_attempt m) ?c (oc_micro_step e m ?c)" using nf by (intro bump_micro_step)
  have b2: "bump (micro_attempt m) c ?c" by (rule bump_mono [OF b1]) simp
  have "bump (micro_attempt m) c (oc_micro_step e m ?c)" by (rule bump_trans [OF b2 b3])
  moreover have "micro_attempt m \<subseteq> attempts_of c" using Cons by (auto simp: attempts_of_def)
  ultimately have b: "bump {} c (oc_micro_step e m ?c)" by (intro bump_absorb [of "micro_attempt m" c _ "{}"]) simp_all
  have step: "oc_step ho e ev c = oc_micro_step e m ?c" by (simp add: oc_step_def Cons)
  have "oc_nextCall (oc_micro_step e m ?c) = oc_nextCall c" by (simp add: next_call)
  then show ?thesis unfolding step
    by (intro wedged_bump [OF w b attempts_ok_micro [OF ok Cons] _ places_micro_step [OF Cons]]) simp_all
next
  case Nil
  have ok: "attempts_ok c" using w by (simp add: wedged_def)
  have step: "oc_step ho e ev c = oc_event_step ho e ev c" by (simp add: oc_step_def Nil)
  show ?thesis
  proof (cases "(\<exists>kind. ev = Oc_call kind) \<or> (\<exists>n r. ev = Oc_resolved n r)")
    case False
    then obtain A where b: "bump A c (oc_event_step ho e ev c)" and A: "\<forall>n \<in> A. concerned c (oc_event_step ho e ev c) n"
      using bump_event [of ev c ho e] by blast
    have "\<not> concerned c (oc_event_step ho e ev c) n" using w by (auto simp: concerned_def wedged_def)
    then have "n \<notin> A" using A by blast
    moreover have "call_places (oc_event_step ho e ev c) \<subseteq># call_places c" "oc_nextCall (oc_event_step ho e ev c) = oc_nextCall c"
      using places_event [of ho e ev c] next_call_event [of ho e ev c] False by (cases ev; simp)+
    ultimately show ?thesis unfolding step by (intro wedged_bump [OF w b attempts_ok_event [OF ok]])
  next
    case True
    then show ?thesis
    proof
      assume "\<exists>n r. ev = Oc_resolved n r"
      then show ?thesis unfolding step using w by (auto simp: oc_event_step_def connection_resolved_def wedged_def)
    next
      assume "\<exists>kind. ev = Oc_call kind"
      then obtain kind where k: "ev = Oc_call kind" by blast
      let ?d = "c\<lparr>oc_nextCall := oc_nextCall c + 1, oc_calls := oc_calls c @ [(oc_nextCall c, n, kind)]\<rparr>"
      have d: "oc_event_step ho e ev c = ?d" using w by (simp add: oc_event_step_def k oc_call_def Let_def oc_connected_def wedged_def)
      have "open_places ?d = open_places c" by (simp add: open_places_def call_places_def)
      moreover have "attempts_ok ?d" using attempts_ok_event [OF ok, of ho e ev] d by simp
      moreover have "attempts_of ?d = attempts_of c" by (simp add: attempts_of_def)
      ultimately show ?thesis unfolding step d using w by (auto simp: wedged_def)
    qed
  qed
qed

text \<open>Closing the client while its socket is still connecting blocks it for good: the promise of the
  attempt is never settled, so neither the calls that wait for it nor any later call is ever answered,
  whatever happens then.\<close>

theorem early_close_blocks_client:
  assumes run: "oc_run ho new_client c" and m: "oc_micro c = []" and r: "map_of (oc_ready c) n = Some 0"
    and later: "oc_run ho (oc_step ho e (Oc_close reason) c) d"
  shows "oc_promise d = Some n \<and> fst ` set (oc_done d) \<inter> (fst ` set (oc_calls c) \<union> {oc_nextCall c..}) = {}"
proof -
  let ?d = "oc_close reason c" and ?S = "fst ` set (oc_calls c) \<union> {oc_nextCall c..}"
  have step: "oc_step ho e (Oc_close reason) c = ?d" by (simp add: oc_step_def oc_event_step_def m)
  have ok: "attempts_ok c" "attempts_ok ?d"
    using attempts_ok_run [OF run attempts_ok_new] attempts_ok_step [of c ho e "Oc_close reason"] step by simp_all
  note D = attempts_okD [OF ok(1)]
  have p: "n \<notin> attempts_of c" "oc_socket c = Some n" "oc_promise c = Some n" using D(1) [OF r] by simp_all
  have b: "bump {} c ?d" by (rule bump_close)
  have same: "oc_promise ?d = Some n" "oc_calls ?d = oc_calls c" "oc_resolving ?d = oc_resolving c" "n \<notin> attempts_of ?d"
    using b p by (auto simp: bump_def)
  have res: "oc_resolving c = []"
  proof (cases "oc_resolving c")
    case (Cons x xs)
    then have "x = n" "x \<notin> fst ` set (oc_ready c)" using D(2) [of x] p(3) by auto
    then show ?thesis using map_of_SomeD [OF r] by force
  qed simp
  have fin: "finals ?d = []"
  proof (cases "finals ?d")
    case (Cons x xs)
    then have "x \<in> set (finals ?d)" by simp
    then have "x = n" "x \<in> attempts_of ?d" using attempts_okD(9,10) [OF ok(2)] same(1) settled_attempts by auto
    then show ?thesis using same(4) by simp
  qed simp
  have fields: "oc_closedByUser ?d" "oc_socket ?d = None" "map_of (oc_ready ?d) n = Some 2"
    using r p(2) by (simp_all add: oc_close_def Let_def ready_state_def close_socket_def update_conv')
  have "open_places ?d = open_places c" by (simp add: open_places_def same(2) places)
  moreover have "k \<notin># open_places c" if "k \<in> ?S" for k
  proof
    assume o: "k \<in># open_places c"
    have "count (call_places c) k \<le> (if k < oc_nextCall c then 1 else 0)"
      using calls_ok_run [OF run calls_ok_new] by (simp add: calls_ok_def)
    moreover have "count (call_places c) k = count (open_places c) k + count (mset (map fst (oc_calls c))) k"
      by (simp only: open_places_eq count_union)
    moreover have "0 < count (open_places c) k" using o by simp
    moreover have "k \<in> fst ` set (oc_calls c) \<Longrightarrow> 0 < count (mset (map fst (oc_calls c))) k" by (simp only: count_keys_pos)
    ultimately show False using that by (cases "k < oc_nextCall c") (simp_all only: if_True if_False Un_iff atLeast_iff, linarith+)
  qed
  moreover have "oc_nextCall ?d = oc_nextCall c" by (simp add: next_call)
  ultimately have w: "wedged ?S n ?d" using ok(2) same fields fin res by (auto simp: wedged_def)
  have "wedged ?S n d" using later unfolding step
    by (induction rule: oc_run.induct) (auto intro: w wedged_step)
  moreover have "fst ` set (oc_done d) \<subseteq> set_mset (open_places d)"
    by (auto simp: open_places_def call_places_def)
  ultimately show ?thesis by (auto simp: wedged_def)
qed

section \<open>The timer\<close>

definition nonce_ok :: "client \<Rightarrow> bool" where
  "nonce_ok c = (js_trim (oc_nonce c) = [] \<or> oc_sent c)"

named_theorems nonces

lemma nonce_frame [nonces]:
  "nonce_ok (settle_request r ow c) = nonce_ok c" "nonce_ok (oc_emit x c) = nonce_ok c" "nonce_ok (oc_setState st dt c) = nonce_ok c"
  "nonce_ok (flushPendingRequests err c) = nonce_ok c" "nonce_ok (settle_attempt n r' c) = nonce_ok c"
  "nonce_ok (close_socket w cr c) = nonce_ok c"
  by (simp_all add: nonce_ok_def settle_request_def close_socket_def split: request_owner.split)

lemma nonce_fields [nonces]:
  "nonce_ok (c\<lparr>oc_hello := a\<rparr>) = nonce_ok c" "nonce_ok (c\<lparr>oc_done := b\<rparr>) = nonce_ok c" "nonce_ok (c\<lparr>oc_micro := d\<rparr>) = nonce_ok c"
  "nonce_ok (c\<lparr>oc_pending := f\<rparr>) = nonce_ok c" "nonce_ok (c\<lparr>oc_promise := g, oc_calls := h, oc_micro := d\<rparr>) = nonce_ok c"
  "nonce_ok (c\<lparr>oc_timer := i\<rparr>) = nonce_ok c" "nonce_ok (c\<lparr>oc_building := j\<rparr>) = nonce_ok c"
  "nonce_ok (c\<lparr>oc_resolving := k\<rparr>) = nonce_ok c" "nonce_ok (c\<lparr>oc_ready := l, oc_timer := i\<rparr>) = nonce_ok c"
  "nonce_ok (c\<lparr>oc_promise := g, oc_calls := h\<rparr>) = nonce_ok c" "nonce_ok (c\<lparr>oc_ready := l\<rparr>) = nonce_ok c"
  by (simp_all add: nonce_ok_def)

lemma nonce_request [nonces]: "nonce_ok (requestInternal e ow m p c) = nonce_ok c"
  by (simp add: requestInternal_def Let_def nonces split: option.split)

lemma nonce_send [nonces]: "nonce_ok (sendConnect n c)"
  by (simp add: sendConnect_def Let_def nonce_ok_def)

lemma nonce_reset [nonces]:
  "nonce_ok (oc_fail n err c)" "nonce_ok (oc_close reason c)" "nonce_ok c \<Longrightarrow> nonce_ok (socket_gone w code reason c)"
proof -
  have cleared: "nonce_ok (c\<lparr>oc_nonce := [], oc_socket := s\<rparr>)" for c s by (simp add: nonce_ok_def)
  show "nonce_ok (oc_fail n err c)" by (simp add: oc_fail_def Let_def nonces split: prod.split) (simp add: nonce_ok_def)
  show "nonce_ok (oc_close reason c)"
    by (simp add: oc_close_def Let_def nonces split: option.split) (simp add: nonce_ok_def)
  show "nonce_ok c \<Longrightarrow> nonce_ok (socket_gone w code reason c)"
    by (simp add: socket_gone_def Let_def nonces) (simp add: nonce_ok_def drop_socket_def)
qed

lemma nonce_answered [nonces]: "nonce_ok c \<Longrightarrow> nonce_ok (connect_answered n r c)"
  by (cases r) (simp_all add: connect_answered_def Let_def nonces split: prod.split option.split)

lemma nonce_micro: "nonce_ok c \<Longrightarrow> nonce_ok (oc_micro_step e m c)"
  by (simp add: oc_micro_step_def nonces split: microtask.split sum.split call_kind.split)

lemma nonce_message: "nonce_ok c \<Longrightarrow> nonce_ok (oc_handleMessage w raw c)"
  by (simp add: oc_handleMessage_def nonces split: option.split jsval.split)

lemma nonce_call: "nonce_ok c \<Longrightarrow> nonce_ok (oc_call kind c)"
  by (simp add: oc_call_def Let_def nonce_ok_def split: option.split)

lemma nonce_resolved: "nonce_ok c \<Longrightarrow> nonce_ok (connection_resolved ho n r c)"
  by (cases r) (simp_all add: connection_resolved_def Let_def nonces nonce_ok_def)

lemma nonce_event: "nonce_ok c \<Longrightarrow> nonce_ok (oc_event_step ho e ev c)"
  by (cases ev) (simp_all add: oc_event_step_def nonces nonce_message nonce_call nonce_resolved socket_opened_def device_built_def Let_def
      split: option.split sum.split)

lemma nonce_run: "oc_run ho c d \<Longrightarrow> nonce_ok c \<Longrightarrow> nonce_ok d"
proof (induction rule: oc_run.induct)
  case (oc_more d e ev)
  then show ?case by (cases "oc_micro d") (simp_all add: oc_step_def nonce_event nonce_micro nonces)
qed

text \<open>The timer of the client never makes a handshake: when it fires, either the handshake has already
  begun, or it fails at once for want of the nonce of the challenge, and no device payload is asked for.\<close>

theorem timer_makes_no_handshake:
  assumes run: "oc_run ho new_client c" and m: "oc_micro c = []" and t: "oc_timer c = Some n"
  shows "oc_building (oc_step ho e Oc_timer c) = oc_building c \<and>
    (oc_sent c \<and> oc_step ho e Oc_timer c = c\<lparr>oc_timer := None\<rparr> \<or>
     oc_micro (oc_step ho e Oc_timer c) = [M_connect n (Inl (new_error ''Gateway connect challenge missing device nonce''))])"
proof -
  have "js_trim (oc_nonce c) = [] \<or> oc_sent c"
    using nonce_run [OF run] by (simp add: nonce_ok_def new_client_def)
  then show ?thesis using m t by (auto simp: oc_step_def oc_event_step_def sendConnect_def Let_def)
qed

section \<open>Sockets that are lost\<close>

text \<open>A handshake that fails loses its socket: the client forgets it, and so does not close it.\<close>

theorem failed_handshake_leaks_socket:
  assumes m: "oc_micro c = M_connect n (Inl err) # ms" and s: "oc_socket c = Some n" and r: "ready_state c n = 1"
  shows "oc_socket (oc_step ho e ev c) = None \<and> ready_state (oc_step ho e ev c) n = 1 \<and>
    {w. \<exists>x. Closed_socket w x \<in> set (oc_effects (oc_step ho e ev c))} = {w. \<exists>x. Closed_socket w x \<in> set (oc_effects c)}"
proof -
  obtain name message where t: "toGatewayError err ''gateway connect failed'' = (name, message)" by fastforce
  obtain name' message' where t': "toGatewayError (Thrown_error name message) ''gateway connection failed'' = (name', message')" by fastforce
  show ?thesis using s r
    by (auto simp: oc_step_def m oc_micro_step_def connect_answered_def t t' oc_fail_def Let_def drop_socket_def ready_state_def)
qed

text \<open>The late end of an old socket takes down the connection that replaced it: the requests on the new
  connection fail, and the client no longer counts as connected although its socket is open; the next
  call opens another socket.\<close>

theorem old_socket_breaks_new:
  assumes run: "oc_run ho new_client c" and m: "oc_micro c = []" and con: "oc_connected c" "oc_socket c = Some v" "oc_promise c = None"
    and w: "w \<noteq> v" "ready_state c w \<noteq> 3"
  shows "let d = oc_step ho e (Oc_closed w code reason) c in
    oc_socket d = Some v \<and> ready_state d v = 1 \<and> \<not> oc_connected d \<and> oc_pending d = [] \<and>
    (\<forall>k. For_call k \<in> snd ` set (oc_pending c) \<longrightarrow> (k, Inl (new_error (gone_message code reason))) \<in> set (oc_done d)) \<and>
    oc_promise (oc_call kind d) = Some (oc_attempts d)"
proof -
  let ?d = "socket_gone w code reason c"
  have step: "oc_step ho e (Oc_closed w code reason) c = ?d" by (simp add: oc_step_def oc_event_step_def m)
  have rv: "ready_state c v = 1" using con by (simp add: oc_connected_def)
  have d: "oc_socket ?d = Some v" "oc_state ?d = Gs_idle" "oc_pending ?d = []" "oc_promise ?d = None"
    using con w by (simp_all add: socket_gone_def Let_def)
  have "ready_state ?d v = 1" using rv w by (simp add: socket_gone_def Let_def ready_state_def update_conv')
  moreover have nc: "\<not> oc_connected ?d" using d by (simp add: oc_connected_def)
  moreover have "(k, Inl (new_error (gone_message code reason))) \<in> set (oc_done ?d)" if "For_call k \<in> snd ` set (oc_pending c)" for k
    using that w by (auto simp: socket_gone_def Let_def done_flush)
  moreover have "oc_promise (oc_call kind ?d) = Some (oc_attempts ?d)" using nc d(4) by (simp add: oc_call_def Let_def)
  ultimately show ?thesis unfolding Let_def step using d by blast
qed

section \<open>Witnesses\<close>

definition demo_host :: client_host where
  "demo_host = \<lparr>ho_platform = ''linux'', ho_userAgent = ''shell'', ho_language = ''en'', ho_validUrl = (\<lambda>u. u \<noteq> [])\<rparr>"

definition demo_env :: "string \<Rightarrow> env" where
  "demo_env u = \<lparr>e_now = Fin 7, e_uuid = Some u, e_hex = ''0.1''\<rparr>"

definition demo_connection :: OpenClawGatewayConnection where
  "demo_connection = \<lparr>ogc_wsUrl = ''ws://h'', ogc_token = ''t''\<rparr>"

definition demo_challenge :: string where
  "demo_challenge = json_text (challenge_frame ''n'')"

definition demo_response :: "string \<Rightarrow> string" where
  "demo_response i = json_text (response_frame i (JNum (Fin 3)))"

lemma demo_frames:
  "json_parse demo_challenge = Some (challenge_frame ''n'')" "json_parse (demo_response ''u'') = Some (response_frame ''u'' (JNum (Fin 3)))"
  "json_parse (demo_response ''r'') = Some (response_frame ''r'' (JNum (Fin 3)))"
  by code_simp+

definition demo_connect :: "nat \<Rightarrow> (env \<times> client_event) list" where
  "demo_connect n =
     map (Pair (demo_env ''u''))
       [Oc_call Call_ensure, Oc_resolved n (Inr demo_connection), Oc_open n, Oc_message n demo_challenge,
        Oc_built n ''n'' (Inr JNull) (demo_env ''v''), Oc_message n (demo_response ''u''), Oc_timer, Oc_timer, Oc_timer]"

text \<open>A client that is connected, with a request under way.\<close>

definition demo_connected :: client where
  "demo_connected =
     oc_steps demo_host (demo_connect 0 @ map (Pair (demo_env ''r'')) [Oc_call (Call_request ''m'' JNull), Oc_timer]) new_client"

lemma demo_client_run: "oc_run ho new_client (oc_steps ho evs new_client)"
  by (rule oc_steps_run [OF oc_start])

lemma demo_connected_run: "oc_run demo_host new_client demo_connected"
  unfolding demo_connected_def by (rule demo_client_run)

lemma demo_values:
  "js_trim ''n'' = ''n''" "createGatewayRequestId (demo_env u) = (if u = [] then ''ocgw_7_1'' else u)" "demo_connection = \<lparr>ogc_wsUrl = ''ws://h'', ogc_token = ''t''\<rparr>"
  "ho_validUrl demo_host ''ws://h''" "utf8_length ''again'' = 5" "js_num_truthy (Fin 3)"
  by (code_simp, simp add: createGatewayRequestId_def demo_env_def, code_simp+)

lemmas run_simps = demo_values demo_frames demo_connect_def
  oc_step_def oc_event_step_def oc_micro_step_def new_client_def oc_call_def Let_def oc_connected_def ready_state_def
  connection_resolved_def oc_setState_def oc_emit_def socket_opened_def oc_handleMessage_def sendConnect_def device_built_def
  requestInternal_def settle_request_def frame_result_def connect_answered_def settle_attempt_def oc_close_def close_socket_def
  flushPendingRequests_def

lemma demo_connected_facts:
  "oc_micro demo_connected = []" "oc_pending demo_connected = [(''r'', For_call 1)]" "ready_state demo_connected 0 = 1"
  "oc_done demo_connected = [(0, Inr (JNum (Fin 3)))]" "oc_nextCall demo_connected = 2" "oc_socket demo_connected = Some 0"
  by (simp_all add: demo_connected_def run_simps)

theorem calls_answered_once_witness:
  "oc_nextCall demo_connected = 2 \<and> map fst (oc_done demo_connected) = [0] \<and> distinct (map fst (oc_done demo_connected)) \<and>
   (0::nat) \<notin> {k. For_call k \<in> snd ` set (oc_pending demo_connected)}"
  using calls_answered_once [OF demo_connected_run] demo_connected_facts by auto

theorem closing_answers_requests_witness:
  "oc_pending (oc_step demo_host (demo_env ''x'') (Oc_close ''bye'') demo_connected) = [] \<and>
   (\<exists>err. set (oc_done (oc_step demo_host (demo_env ''x'') (Oc_close ''bye'') demo_connected)) =
      {(0, Inr (JNum (Fin 3))), (1, Inl err)})"
proof -
  have "utf8_length ''bye'' \<le> 123" by code_simp
  then show ?thesis
    using closing_answers_requests [OF demo_connected_facts(1), of "Oc_close ''bye''" "''bye''" 0 0 "[]" demo_host "demo_env ''x''"]
    by (auto simp: demo_connected_facts)
qed

theorem response_answers_its_call_witness:
  "oc_done (oc_step demo_host (demo_env ''x'') (Oc_message 0 (demo_response ''r'')) demo_connected) =
     [(0, Inr (JNum (Fin 3))), (1, Inr (JNum (Fin 3)))]"
  using response_answers_its_call [OF demo_connected_facts(1,3) _ demo_frames(3), of "''r''" 1 demo_host "demo_env ''x''"]
  by (simp add: demo_connected_facts frame_result_def)

theorem handshake_connects_witness:
  "oc_connected (oc_steps demo_host (demo_connect 0) new_client) \<and>
   oc_done (oc_steps demo_host (demo_connect 0) new_client) = [(0, Inr (JNum (Fin 3)))]"
proof -
  have "ho_validUrl demo_host (ogc_wsUrl demo_connection)" "js_trim ''n'' \<noteq> []" by code_simp+
  moreover have "createGatewayRequestId (demo_env ''u'') = ''u''" by code_simp
  ultimately show ?thesis
    using handshake_connects [of demo_host demo_connection "''n''" demo_challenge "demo_response ''u''" "demo_env ''u''"
      "JNum (Fin 3)" JNull "demo_env ''v''"] demo_frames
    by (simp add: demo_connect_def Let_def del: oc_steps.simps)
qed

definition demo_connecting :: client where
  "demo_connecting = oc_steps demo_host (take 2 (demo_connect 0)) new_client"

theorem early_close_blocks_client_witness:
  "let d = oc_steps demo_host (map (Pair (demo_env ''x'')) [Oc_closed 0 1006 [], Oc_call Call_ensure, Oc_timer])
      (oc_step demo_host (demo_env ''x'') (Oc_close ''bye'') demo_connecting)
   in oc_promise d = Some 0 \<and> (0::nat) \<notin> fst ` set (oc_done d) \<and> (1::nat) \<notin> fst ` set (oc_done d) \<and> oc_nextCall d = 2"
proof -
  let ?d = "oc_steps demo_host (map (Pair (demo_env ''x'')) [Oc_closed 0 1006 [], Oc_call Call_ensure, Oc_timer])
      (oc_step demo_host (demo_env ''x'') (Oc_close ''bye'') demo_connecting)"
  have run: "oc_run demo_host new_client demo_connecting" unfolding demo_connecting_def by (rule demo_client_run)
  have facts: "oc_micro demo_connecting = []" "map_of (oc_ready demo_connecting) 0 = Some 0"
    "map fst (oc_calls demo_connecting) = [0]" "oc_nextCall demo_connecting = 1" by code_simp+
  have "fst ` set (oc_calls demo_connecting) = {0}" using facts(3) by (metis list.set(1,2) set_map)
  moreover have "oc_nextCall ?d = 2" by code_simp
  moreover have "oc_run demo_host (oc_step demo_host (demo_env ''x'') (Oc_close ''bye'') demo_connecting) ?d"
    by (rule oc_steps_run [OF oc_start])
  ultimately show ?thesis using early_close_blocks_client [OF run facts(1,2)] facts(4) by (fastforce simp: Let_def)
qed

definition demo_opened :: client where
  "demo_opened = oc_steps demo_host (take 3 (demo_connect 0)) new_client"

theorem timer_makes_no_handshake_witness:
  "oc_building (oc_step demo_host (demo_env ''x'') Oc_timer demo_opened) = [] \<and>
   oc_micro (oc_step demo_host (demo_env ''x'') Oc_timer demo_opened) =
     [M_connect 0 (Inl (new_error ''Gateway connect challenge missing device nonce''))]"
proof -
  have run: "oc_run demo_host new_client demo_opened" unfolding demo_opened_def by (rule demo_client_run)
  have "oc_micro demo_opened = []" "oc_timer demo_opened = Some 0" "\<not> oc_sent demo_opened" "oc_building demo_opened = []" by code_simp+
  then show ?thesis using timer_makes_no_handshake [OF run] by simp
qed

definition demo_refused :: client where
  "demo_refused = oc_step demo_host (demo_env ''x'') Oc_timer demo_opened"

theorem failed_handshake_leaks_socket_witness:
  "oc_socket (oc_step demo_host (demo_env ''x'') Oc_timer demo_refused) = None \<and>
   ready_state (oc_step demo_host (demo_env ''x'') Oc_timer demo_refused) 0 = 1"
proof -
  have "oc_micro demo_refused = M_connect 0 (Inl (new_error ''Gateway connect challenge missing device nonce'')) # []"
    "oc_socket demo_refused = Some 0" "ready_state demo_refused 0 = 1" by code_simp+
  then show ?thesis using failed_handshake_leaks_socket by blast
qed

text \<open>A connection is closed and another is made before the first socket has ended.\<close>

definition demo_again :: client where
  "demo_again =
     oc_steps demo_host (demo_connect 0 @ [(demo_env ''x'', Oc_close ''again'')] @ demo_connect 1) new_client"

theorem old_socket_breaks_new_witness:
  "oc_connected demo_again \<and> \<not> oc_connected (oc_step demo_host (demo_env ''x'') (Oc_closed 0 1000 ''again'') demo_again) \<and>
   ready_state (oc_step demo_host (demo_env ''x'') (Oc_closed 0 1000 ''again'') demo_again) 1 = 1"
proof -
  have run: "oc_run demo_host new_client demo_again" unfolding demo_again_def by (rule demo_client_run)
  have "oc_micro demo_again = []" "oc_connected demo_again" "oc_socket demo_again = Some 1" "oc_promise demo_again = None"
    "(0::nat) \<noteq> 1" "ready_state demo_again 0 \<noteq> 3" by (simp_all add: demo_again_def run_simps)
  then show ?thesis
    using old_socket_breaks_new [OF run, of 1 0] unfolding Let_def by blast
qed

end
