(* ===== verification/PanelChannels.thy ===== *)
theory PanelChannels
  imports GatewayDirectory GatewayClient PairApp
begin

text \<open>
  The pairing panel of the desktop, first part: desktop/src/legacy/pair-backend-model.ts (the channels
  of the backend), desktop/src/legacy/pair-backend-qr.ts (the address that a QR code carries) and
  desktop/src/legacy/pair-ui.ts (names of channels). Channels are untyped values. A list or a text that
  is spread has no fields here: neither has an id, so neither becomes a channel. The theorems: the
  address of a QR code, and where an IPv6 loopback address gets into it.
\<close>

section \<open>Texts\<close>

definition js_string_or :: "string \<Rightarrow> jsval \<Rightarrow> string" where
  "js_string_or d v = js_to_string (js_or v (JStr d))"

fun js_split_char :: "char \<Rightarrow> string \<Rightarrow> string list" where
  "js_split_char d [] = [[]]"
| "js_split_char d (c # cs) =
     (if c = d then [] # js_split_char d cs
      else case js_split_char d cs of [] \<Rightarrow> [[c]] | s # ss \<Rightarrow> (c # s) # ss)"

text \<open>\<open>encodeURIComponent\<close>, over the UTF-8 bytes of the characters.\<close>

definition uri_hex :: "nat \<Rightarrow> string" where
  "uri_hex b = (let d = (\<lambda>n. if n < 10 then char_of (48 + n) else char_of (55 + n)) in [CHR ''%'', d (b div 16), d (b mod 16)])"

definition uri_plain :: "char \<Rightarrow> bool" where
  "uri_plain c = (ascii_alnum c \<or> c \<in> set ''-_.!~*()'' \<or> c = CHR 0x27)"

definition encode_uri_char :: "char \<Rightarrow> string" where
  "encode_uri_char c =
     (let n = (of_char c :: nat) in
      if uri_plain c then [c]
      else if n < 128 then uri_hex n
      else uri_hex (192 + n div 64) @ uri_hex (128 + n mod 64))"

definition encodeURIComponent :: "string \<Rightarrow> string" where
  "encodeURIComponent s = concat (map encode_uri_char s)"

section \<open>Channels of the backend (pair-backend-model.ts)\<close>

definition OPENCLAW_CHAT_MESSAGE_TYPE :: string where
  "OPENCLAW_CHAT_MESSAGE_TYPE = ''app.openclaw.chat.message''"

definition channelSupportsOpenClawChat :: "jsval \<Rightarrow> bool" where
  "channelSupportsOpenClawChat channel =
     (let messages = js_array (js_get (js_get channel ''peerCapabilities'') ''supportedMessages'')
      in messages = [] \<or> JStr OPENCLAW_CHAT_MESSAGE_TYPE \<in> set messages)"

definition backend_ids :: "jsval \<Rightarrow> jsval" where
  "backend_ids v = JArr (map JStr (filter (\<lambda>s. s \<noteq> []) (map js_text (js_array v))))"

definition backend_message :: "jsnum \<Rightarrow> jsval \<Rightarrow> jsval" where
  "backend_message now m =
     JObj [(''id'', JStr (js_string_or [] (js_get m ''id''))),
       (''from'', if js_get m ''from'' \<in> {JStr ''desktop'', JStr ''agent''} then js_get m ''from'' else JStr ''mobile''),
       (''text'', JStr (js_string_or [] (js_get m ''text''))),
       (''ts'', JNum (js_to_number (js_or (js_get m ''ts'') (JNum now)))),
       (''kind'', JStr (js_string_or ''chat'' (js_get m ''kind''))),
       (''origin'', JStr (js_string_or [] (js_get m ''origin''))),
       (''originSeq'', JNum (js_number_or_zero (js_get m ''originSeq''))),
       (''after'', backend_ids (js_get m ''after'')),
       (''missingAfter'', backend_ids (js_get m ''missingAfter''))]"

definition normalizeBackendChannel :: "jsnum \<Rightarrow> jsval \<Rightarrow> jsval" where
  "normalizeBackendChannel now channel =
     js_spread channel (JObj
       [(''channelId'', JStr (js_text (js_or (js_or (js_get channel ''channelId'') (js_get channel ''sessionId'')) (js_get channel ''bindingId'')))),
        (''sessionId'', JStr (js_text (js_or (js_get channel ''sessionId'') (js_get channel ''channelId'')))),
        (''mobileId'', JStr (js_text (js_get channel ''mobileId''))),
        (''mobileName'', JStr (js_text (js_get channel ''mobileName''))),
        (''bindingId'', JStr (js_text (js_get channel ''bindingId''))),
        (''status'', JStr (js_string_or ''offline'' (js_get channel ''status''))),
        (''trustState'', JStr (js_string_or ''pending'' (js_get channel ''trustState''))),
        (''peerState'', JStr (js_string_or ''idle'' (js_get channel ''peerState''))),
        (''peerDetail'', JStr (js_string_or [] (js_get channel ''peerDetail''))),
        (''createdAt'', JNum (js_to_number (js_or (js_get channel ''createdAt'') (JNum now)))),
        (''approvedAt'', js_coalesce (js_get channel ''approvedAt'') JNull),
        (''safetyCode'', JStr (js_string_or [] (js_get channel ''safetyCode''))),
        (''qrPayload'', js_or (js_get channel ''qrPayload'') JNull),
        (''peerCapabilities'', js_or (js_get channel ''peerCapabilities'') JNull),
        (''messages'', JArr (map (backend_message now) (js_array (js_get channel ''messages'')))),
        (''missingMessageIds'', backend_ids (js_get channel ''missingMessageIds''))])"

section \<open>Addresses (pair-backend-qr.ts)\<close>

definition LOOPBACK_HOSTS :: "string list" where
  "LOOPBACK_HOSTS = [''localhost'', ''127.0.0.1'', ''0.0.0.0'', ''::1'']"

text \<open>\<open>hostname\<close> is the host without its port; that of an IPv6 address keeps its brackets.\<close>

definition split_host :: "string \<Rightarrow> string \<times> string" where
  "split_host h =
     (if js_starts_with h ''['' then (takeWhile (\<lambda>c. c \<noteq> CHR '']'') h @ '']'', tl (dropWhile (\<lambda>c. c \<noteq> CHR '']'') h))
      else (takeWhile (\<lambda>c. c \<noteq> CHR '':'') h, dropWhile (\<lambda>c. c \<noteq> CHR '':'') h))"

definition url_hostname :: "url \<Rightarrow> string" where
  "url_hostname u = fst (split_host (u_host u))"

definition set_hostname :: "url \<Rightarrow> string \<Rightarrow> url" where
  "set_hostname u hostname = u\<lparr>u_host := hostname @ snd (split_host (u_host u))\<rparr>"

definition normalizePairBaseUrl :: "web \<Rightarrow> string \<Rightarrow> string" where
  "normalizePairBaseUrl web raw =
     (let text = js_trim raw in
      if text = [] then []
      else case new_url web (if has_scheme_mark text then text else ''http://'' @ text) of
             Inl err \<Rightarrow> []
           | Inr parsed \<Rightarrow>
               if u_protocol parsed \<noteq> ''http:'' \<and> u_protocol parsed \<noteq> ''https:'' then []
               else strip_slashes (url_text (set_pathname (set_search (parsed\<lparr>u_hash := []\<rparr>) [])
                      (strip_slashes (u_pathname parsed)))))"

definition isLoopbackPairHost :: "string \<Rightarrow> bool" where
  "isLoopbackPairHost hostname =
     (let host = js_lower (js_trim hostname) in host = [] \<or> host \<in> set LOOPBACK_HOSTS)"

definition isLoopbackPairBaseUrl :: "web \<Rightarrow> string \<Rightarrow> bool" where
  "isLoopbackPairBaseUrl web raw =
     (let normalized = normalizePairBaseUrl web raw in
      normalized \<noteq> [] \<and>
      (case new_url web normalized of Inl err \<Rightarrow> False | Inr u \<Rightarrow> isLoopbackPairHost (url_hostname u)))"

definition isIpv4Address :: "string \<Rightarrow> bool" where
  "isIpv4Address raw =
     (let text = js_trim raw; parts = js_split_char (CHR ''.'') text in
      text \<noteq> [] \<and> length parts = 4 \<and>
      list_all (\<lambda>part. part \<noteq> [] \<and> list_all (is_digit_of 10) part \<and> digits_value 10 part \<le> 255) parts)"

definition withHost :: "web \<Rightarrow> string \<Rightarrow> string \<Rightarrow> string" where
  "withHost web baseUrl hostname =
     (let normalized = normalizePairBaseUrl web baseUrl in
      if normalized = [] then []
      else case new_url web normalized of
             Inl err \<Rightarrow> []
           | Inr parsed \<Rightarrow> strip_slashes (url_text (set_hostname parsed hostname)))"

text \<open>The address of the machine in its network, as the backend answers.\<close>

definition lan_address :: "thrown + jsval \<Rightarrow> string" where
  "lan_address r =
     (case r of
        Inl err \<Rightarrow> []
      | Inr value \<Rightarrow> if isIpv4Address (js_text value) then js_text value else [])"

text \<open>
  \<open>resolvePairQrBaseUrl\<close>: the address that is known without the network, if there is one, and the one
  that takes the address of the machine in its network.
\<close>

definition public_base_url :: "web \<Rightarrow> string \<Rightarrow> string option" where
  "public_base_url web raw =
     (let normalized = normalizePairBaseUrl web raw in
      if normalized \<noteq> [] \<and> \<not> isLoopbackPairBaseUrl web normalized then Some normalized else None)"

definition qr_url_at_once :: "web \<Rightarrow> string \<Rightarrow> string \<Rightarrow> string option" where
  "qr_url_at_once web configuredBaseUrl payloadBaseUrl =
     (case public_base_url web configuredBaseUrl of
        Some u \<Rightarrow> Some u
      | None \<Rightarrow> public_base_url web payloadBaseUrl)"

definition qr_url_with_lan :: "web \<Rightarrow> string \<Rightarrow> string \<Rightarrow> string \<Rightarrow> string" where
  "qr_url_with_lan web configuredBaseUrl payloadBaseUrl lan =
     (let configured = normalizePairBaseUrl web configuredBaseUrl; payload = normalizePairBaseUrl web payloadBaseUrl;
          template = (if configured \<noteq> [] then configured else if payload \<noteq> [] then payload else ''http://127.0.0.1:38089'');
          resolved = withHost web template lan
      in if lan \<noteq> [] \<and> resolved \<noteq> [] then resolved else if payload \<noteq> [] then payload else configured)"

definition resolvePairQrBaseUrl :: "web \<Rightarrow> string \<Rightarrow> string \<Rightarrow> string \<Rightarrow> string" where
  "resolvePairQrBaseUrl web configuredBaseUrl payloadBaseUrl lan =
     (case qr_url_at_once web configuredBaseUrl payloadBaseUrl of
        Some u \<Rightarrow> u
      | None \<Rightarrow> qr_url_with_lan web configuredBaseUrl payloadBaseUrl lan)"

definition payload_base_url :: "jsval \<Rightarrow> string" where
  "payload_base_url payload =
     js_text (js_or (js_or (js_or (js_get payload ''serverBaseUrl'') (js_get payload ''server_base_url''))
       (js_get payload ''baseUrl'')) (js_get payload ''base_url''))"

definition with_base_url :: "string \<Rightarrow> jsval \<Rightarrow> jsval" where
  "with_base_url resolved payload =
     (if resolved = [] then payload
      else js_assign ''base_url'' (JStr resolved) (js_assign ''baseUrl'' (JStr resolved)
        (js_assign ''server_base_url'' (JStr resolved) (js_assign ''serverBaseUrl'' (JStr resolved) payload))))"

definition qr_payload_copy :: "jsval \<Rightarrow> jsval" where
  "qr_payload_copy raw = js_spread (JObj []) raw"

definition sanitizePairQrPayload :: "web \<Rightarrow> jsval \<Rightarrow> string \<Rightarrow> string \<Rightarrow> jsval" where
  "sanitizePairQrPayload web rawPayload configuredBaseUrl lan =
     (let payload = qr_payload_copy rawPayload
      in with_base_url (resolvePairQrBaseUrl web configuredBaseUrl (payload_base_url payload) lan) payload)"

section \<open>Names (pair-ui.ts)\<close>

definition resolvePairChannelNameSeed :: "jsval \<Rightarrow> jsval" where
  "resolvePairChannelNameSeed channel =
     js_or (js_or (js_or (js_get channel ''bindingId'') (js_get channel ''sessionId'')) (js_get channel ''mobileId''))
       (js_get channel ''channelId'')"

definition resolvePairChannelMobileName :: "jsval \<Rightarrow> string" where
  "resolvePairChannelMobileName channel = js_text (js_get channel ''mobileName'')"

definition defaultPairChannelName :: "string \<Rightarrow> env \<Rightarrow> jsval \<Rightarrow> string" where
  "defaultPairChannelName label e channel =
     formatPairV2ConnectionName label e (resolvePairChannelNameSeed channel) (JStr (resolvePairChannelMobileName channel))"

definition resolvePairChannelGeneratedCandidates :: "jsval \<Rightarrow> (jsval \<times> jsval) list" where
  "resolvePairChannelGeneratedCandidates channel =
     filter (\<lambda>(seed, name). js_text seed \<noteq> [])
       (map (\<lambda>seed. (seed, JStr (resolvePairChannelMobileName channel)))
         [resolvePairChannelNameSeed channel, js_get channel ''bindingId'', js_get channel ''sessionId'',
          js_get channel ''mobileId'', js_get channel ''channelId''])"

definition normalizePairChannelName :: "string \<Rightarrow> env \<Rightarrow> jsval \<Rightarrow> string" where
  "normalizePairChannelName label e channel =
     (let currentName = js_text (js_get channel ''name''); generatedName = defaultPairChannelName label e channel in
      if currentName = [] then generatedName
      else if isGeneratedPairV2ConnectionName label e (JStr currentName) (resolvePairChannelGeneratedCandidates channel)
           then generatedName
      else currentName)"

definition formatted_ts :: "env \<Rightarrow> jsval \<Rightarrow> jsnum" where
  "formatted_ts e ts =
     (case js_number_or_zero ts of Fin q \<Rightarrow> if q > 0 then Fin q else e_now e | _ \<Rightarrow> e_now e)"

fun escape_char :: "char \<Rightarrow> string" where
  "escape_char c =
     (if c = CHR ''&'' then ''&amp;'' else if c = CHR ''<'' then ''&lt;'' else if c = CHR ''>'' then ''&gt;''
      else if c = CHR 0x22 then ''&quot;'' else if c = CHR 0x27 then ''&#39;'' else [c])"

definition escapePairHtml :: "jsval \<Rightarrow> string" where
  "escapePairHtml v = concat (map escape_char (js_string_or [] v))"

section \<open>The list of channels (pair-ui.ts)\<close>

definition findPairChannelById :: "jsval list \<Rightarrow> string \<Rightarrow> jsval option" where
  "findPairChannelById channels channelId = find (\<lambda>c. js_get c ''channelId'' = JStr channelId) channels"

definition findPairChannelByMobileId :: "jsval list \<Rightarrow> jsval \<Rightarrow> jsval option" where
  "findPairChannelByMobileId channels mobileId =
     (let target = js_text mobileId in
      if target = [] then None else find (\<lambda>c. js_text (js_get c ''mobileId'') = target) channels)"

text \<open>An existing channel takes the fields of the new one; a new one is made of some of them.\<close>

definition merged_channel :: "string \<Rightarrow> env \<Rightarrow> jsval \<Rightarrow> jsval \<Rightarrow> jsval" where
  "merged_channel label e existing channel =
     (let c = js_spread existing channel;
          c' = js_assign ''name'' (JStr (normalizePairChannelName label e c)) c
      in case js_get c' ''messages'' of JArr ms \<Rightarrow> c' | _ \<Rightarrow> js_assign ''messages'' (JArr []) c')"

definition added_channel :: "string \<Rightarrow> env \<Rightarrow> string \<Rightarrow> jsval \<Rightarrow> jsval" where
  "added_channel label e channelId channel =
     (let next = JObj
        [(''channelId'', JStr channelId),
         (''sessionId'', JStr (js_string_or channelId (js_get channel ''sessionId''))),
         (''name'', JStr []),
         (''mobileId'', JStr (js_text (js_get channel ''mobileId''))),
         (''userId'', JStr (js_text (js_get channel ''userId''))),
         (''bindingId'', JStr (js_text (js_get channel ''bindingId''))),
         (''status'', JStr (js_string_or ''pending'' (js_get channel ''status''))),
         (''createdAt'', JNum (js_to_number (js_or (js_get channel ''createdAt'') (JNum (e_now e))))),
         (''qrPayload'', js_or (js_get channel ''qrPayload'') JNull),
         (''messages'', JArr (js_array (js_get channel ''messages'')))]
      in js_assign ''name'' (JStr (normalizePairChannelName label e
           (js_spread next (JObj [(''name'', JStr (js_text (js_get channel ''name'')))])))) next)"

text \<open>The entry that is found is changed in place.\<close>

fun change_first :: "('a \<Rightarrow> bool) \<Rightarrow> ('a \<Rightarrow> 'a) \<Rightarrow> 'a list \<Rightarrow> 'a list" where
  "change_first p f [] = []"
| "change_first p f (x # xs) = (if p x then f x # xs else x # change_first p f xs)"

definition upsertPairChannel :: "string \<Rightarrow> env \<Rightarrow> jsval \<Rightarrow> jsval list \<Rightarrow> jsval list" where
  "upsertPairChannel label e channel channels =
     (let channelId = js_text (js_get channel ''channelId'') in
      if channelId = [] then channels
      else case findPairChannelById channels channelId of
             Some existing \<Rightarrow>
               change_first (\<lambda>c. js_get c ''channelId'' = JStr channelId) (\<lambda>c. merged_channel label e c channel) channels
           | None \<Rightarrow> channels @ [added_channel label e channelId channel])"

definition mirrored_channels :: "jsval list \<Rightarrow> jsval list" where
  "mirrored_channels channels =
     map (\<lambda>c. js_spread c (JObj [(''messages'', JArr (js_array (js_get c ''messages'')))])) channels"

fun without_first :: "('a \<Rightarrow> bool) \<Rightarrow> 'a list \<Rightarrow> 'a list" where
  "without_first p [] = []"
| "without_first p (x # xs) = (if p x then xs else x # without_first p xs)"

text \<open>The channels of a snapshot of the backend.\<close>

definition snapshot_channels :: "jsnum \<Rightarrow> jsval \<Rightarrow> jsval list" where
  "snapshot_channels now snapshot =
     filter (\<lambda>c. js_get c ''channelId'' \<noteq> JStr []) (map (normalizeBackendChannel now) (js_array (js_get snapshot ''channels'')))"

section \<open>Lists of channels\<close>

definition chan_id :: "jsval \<Rightarrow> string" where
  "chan_id c = js_text (js_get c ''channelId'')"

definition channel_ok :: "jsval \<Rightarrow> bool" where
  "channel_ok c = (js_is_record c \<and> js_get c ''channelId'' = JStr (chan_id c) \<and> chan_id c \<noteq> [] \<and> js_trimmed (chan_id c))"

definition channels_ok :: "jsval list \<Rightarrow> bool" where
  "channels_ok cs = (list_all channel_ok cs \<and> distinct (map chan_id cs))"

named_theorems channel_fields

lemma js_text_JStr [simp]: "js_text (JStr s) = js_trim s"
  by (simp add: js_text_def js_or_def)

lemma js_is_record_spread [simp]: "js_is_record (js_spread a b)"
  by (simp add: js_spread_def)

lemma js_get_spread_record: "js_is_record b \<Longrightarrow> js_get (js_spread a b) k =
    (if map_of (js_fields b) k \<noteq> None then js_get b k else case map_of (js_fields a) k of Some v \<Rightarrow> v | None \<Rightarrow> JUndef)"
  by (auto simp: js_get_spread js_get_fields split: option.split)

lemma chan_id_eq: "channel_ok c \<Longrightarrow> js_get c ''channelId'' = JStr i \<longleftrightarrow> chan_id c = i"
  by (auto simp: channel_ok_def)

lemma find_channel: "list_all channel_ok cs \<Longrightarrow> findPairChannelById cs i = find (\<lambda>c. chan_id c = i) cs"
  unfolding findPairChannelById_def by (rule find_cong) (auto simp: list_all_iff chan_id_eq)

lemma find_channel_None: "list_all channel_ok cs \<Longrightarrow> findPairChannelById cs i = None \<longleftrightarrow> i \<notin> chan_id ` set cs"
  by (auto simp: find_channel find_None_iff)

lemma find_channel_Some:
  assumes "list_all channel_ok cs" "findPairChannelById cs i = Some c"
  shows "c \<in> set cs" "chan_id c = i"
  using assms by (auto simp: find_channel find_Some_iff)

lemma change_first_ids: "(\<And>c. c \<in> set cs \<Longrightarrow> p c \<Longrightarrow> g (f c) = g c) \<Longrightarrow> map g (change_first p f cs) = map g cs"
  by (induction cs) auto

lemma change_first_cong: "(\<And>c. c \<in> set cs \<Longrightarrow> p c = q c) \<Longrightarrow> change_first p f cs = change_first q f cs"
  by (induction cs) auto

lemma change_first_all: "list_all P cs \<Longrightarrow> (\<And>c. c \<in> set cs \<Longrightarrow> p c \<Longrightarrow> P c \<Longrightarrow> P (f c)) \<Longrightarrow> list_all P (change_first p f cs)"
  by (induction cs) auto

lemma find_change_first:
  assumes "\<And>c. p c \<Longrightarrow> p (f c)"
  shows "find p (change_first p f cs) = map_option f (find p cs)"
  using assms by (induction cs) auto

lemma find_change_first_other:
  assumes "\<And>c. p c \<Longrightarrow> \<not> q c" "\<And>c. p c \<Longrightarrow> \<not> q (f c)"
  shows "find q (change_first p f cs) = find q cs"
  using assms by (induction cs) auto

lemma without_first_filter: "distinct (map g cs) \<Longrightarrow> without_first (\<lambda>c. g c = i) cs = filter (\<lambda>c. g c \<noteq> i) cs"
proof (induction cs)
  case (Cons c cs)
  show ?case
  proof (cases "g c = i")
    case True
    with Cons.prems have "filter (\<lambda>c. g c \<noteq> i) cs = cs" by (auto simp: filter_id_conv) (metis imageI)
    then show ?thesis using True by simp
  qed (use Cons in simp)
qed simp

lemma without_first_cong: "(\<And>c. c \<in> set cs \<Longrightarrow> p c = q c) \<Longrightarrow> without_first p cs = without_first q cs"
  by (induction cs) auto

text \<open>Fields of a channel that is merged or added.\<close>

lemma merged_get [channel_fields]:
  assumes "js_is_record channel" "k \<noteq> ''name''" "k \<noteq> ''messages''"
  shows "js_get (merged_channel label e c channel) k =
    (if map_of (js_fields channel) k \<noteq> None then js_get channel k else case map_of (js_fields c) k of Some v \<Rightarrow> v | None \<Rightarrow> JUndef)"
proof -
  have *: "js_get (case x of JArr ms \<Rightarrow> d | _ \<Rightarrow> js_assign ''messages'' (JArr []) d) k = js_get d k" if "js_is_record d" for x d
    using that assms(3) by (cases x) simp_all
  show ?thesis using assms by (simp add: merged_channel_def Let_def * js_get_spread_record)
qed

lemma merged_record [simp]: "js_is_record (merged_channel label e c channel)"
  by (simp add: merged_channel_def Let_def split: jsval.split)

lemma added_record [simp]: "js_is_record (added_channel label e i channel)"
  by (simp add: added_channel_def Let_def)

lemma added_get [channel_fields]:
  "js_get (added_channel label e i channel) ''channelId'' = JStr i"
  "k \<notin> {''channelId'', ''sessionId'', ''name'', ''mobileId'', ''userId'', ''bindingId'', ''status'', ''createdAt'', ''qrPayload'', ''messages''} \<Longrightarrow>
     js_get (added_channel label e i channel) k = JUndef"
  by (auto simp: added_channel_def Let_def)

lemma added_ok: "i \<noteq> [] \<Longrightarrow> js_trimmed i \<Longrightarrow> channel_ok (added_channel label e i channel) \<and> chan_id (added_channel label e i channel) = i"
  by (simp add: channel_ok_def chan_id_def added_get js_trim_id)

text \<open>A channel of the backend has a text for its id.\<close>

lemma normalized_record [simp]: "js_is_record (normalizeBackendChannel now channel)"
  by (simp add: normalizeBackendChannel_def)

lemma normalized_id: "js_get (normalizeBackendChannel now channel) ''channelId'' = JStr (chan_id (normalizeBackendChannel now channel))"
  "js_trimmed (chan_id (normalizeBackendChannel now channel))"
proof -
  have *: "\<exists>v. js_get (normalizeBackendChannel now channel) ''channelId'' = JStr (js_text v)"
    unfolding normalizeBackendChannel_def js_get_spread by auto
  then show "js_get (normalizeBackendChannel now channel) ''channelId'' = JStr (chan_id (normalizeBackendChannel now channel))"
    by (auto simp: chan_id_def)
  show "js_trimmed (chan_id (normalizeBackendChannel now channel))" by (simp add: chan_id_def)
qed

lemma snapshot_ok: "c \<in> set (snapshot_channels now snapshot) \<Longrightarrow> channel_ok c"
  using normalized_id by (auto simp: snapshot_channels_def channel_ok_def)

lemma merged_ok: "channel_ok c \<Longrightarrow> channel_ok d \<Longrightarrow> chan_id c = chan_id d \<Longrightarrow>
    channel_ok (merged_channel label e c d) \<and> chan_id (merged_channel label e c d) = chan_id d"
proof -
  assume a: "channel_ok c" "channel_ok d" "chan_id c = chan_id d"
  then have r: "js_is_record d" "js_get d ''channelId'' = JStr (chan_id d)" by (simp_all add: channel_ok_def)
  then have "map_of (js_fields d) ''channelId'' \<noteq> None" by (auto simp: js_get_fields split: option.splits)
  then have "js_get (merged_channel label e c d) ''channelId'' = JStr (chan_id d)" using r by (simp add: merged_get)
  then show ?thesis using a(2) by (simp add: channel_ok_def chan_id_def)
qed

lemma upsert_ok:
  assumes ok: "channels_ok cs" and d: "channel_ok d"
  shows "channels_ok (upsertPairChannel label e d cs)" (is ?ok)
    and "map chan_id (upsertPairChannel label e d cs) = js_set_add (chan_id d) (map chan_id cs)" (is ?ids)
proof -
  have cs: "list_all channel_ok cs" and i: "chan_id d \<noteq> []" using ok d by (simp_all add: channels_ok_def channel_ok_def)
  have both: "?ids \<and> list_all channel_ok (upsertPairChannel label e d cs)"
  proof (cases "findPairChannelById cs (chan_id d)")
    case None
    then have u: "upsertPairChannel label e d cs = cs @ [added_channel label e (chan_id d) d]"
      using i by (simp add: upsertPairChannel_def chan_id_def Let_def)
    show ?thesis
      using u None cs d added_ok [OF i] by (auto simp: find_channel_None js_set_add_def channel_ok_def)
  next
    case (Some c)
    let ?p = "\<lambda>c. js_get c ''channelId'' = JStr (chan_id d)" and ?f = "\<lambda>c. merged_channel label e c d"
    have u: "upsertPairChannel label e d cs = change_first ?p ?f cs"
      using Some i by (simp add: upsertPairChannel_def chan_id_def Let_def)
    have m: "channel_ok (?f c) \<and> chan_id (?f c) = chan_id c" if "c \<in> set cs" "?p c" for c
      using that cs d merged_ok [of c d] by (auto simp: list_all_iff chan_id_eq)
    have "map chan_id (change_first ?p ?f cs) = map chan_id cs" by (rule change_first_ids) (use m in blast)
    moreover have "list_all channel_ok (change_first ?p ?f cs)" by (rule change_first_all [OF cs]) (use m in blast)
    moreover have "chan_id d \<in> chan_id ` set cs" using find_channel_Some [OF cs Some] by (metis imageI)
    ultimately show ?thesis unfolding u by (simp_all add: js_set_add_def)
  qed
  then show ids: ?ids by simp
  have "distinct (map chan_id (upsertPairChannel label e d cs))"
    unfolding ids using ok by (auto simp: channels_ok_def js_set_add_def)
  with both show ?ok by (simp add: channels_ok_def)
qed

lemma upserts_ok:
  assumes "channels_ok cs" "\<And>d. d \<in> set ds \<Longrightarrow> channel_ok d"
  shows "channels_ok (fold (upsertPairChannel label e) ds cs) \<and>
    map chan_id (fold (upsertPairChannel label e) ds cs) = js_set_add_all (map chan_id ds) (map chan_id cs)"
  using assms
proof (induction ds arbitrary: cs)
  case (Cons d ds)
  have "channels_ok (upsertPairChannel label e d cs)" using upsert_ok(1) Cons.prems by simp
  then show ?case using Cons.IH [of "upsertPairChannel label e d cs"] Cons.prems upsert_ok(2) [of cs d label e]
    by (simp add: js_set_add_all_def)
qed (simp add: js_set_add_all_def)

section \<open>The address in a QR code\<close>

text \<open>The panel and the pairing SDK normalise addresses alike; the panel has the empty text where the SDK throws.\<close>

lemma normalizePairBaseUrl_eq:
  "normalizePairBaseUrl web raw = (case normalizePairV2BaseUrl web raw of Inl err \<Rightarrow> [] | Inr b \<Rightarrow> b)"
  by (simp add: normalizePairBaseUrl_def normalizePairV2BaseUrl_def lift_thrown_def base_url_text_def Let_def split: sum.split)

text \<open>Assigning \<open>hostname\<close> of a parsed address: the text of the result is parsed into an address of that host.\<close>

definition hostname_kept :: "web \<Rightarrow> string \<Rightarrow> bool" where
  "hostname_kept web ip =
     (plain_text ip \<and> (\<forall>s u. new_url web s = Inr u \<longrightarrow> http_url u \<longrightarrow>
        (\<exists>w. new_url web (strip_slashes (url_text (set_hostname u ip))) = Inr w \<and> http_url w \<and> url_hostname w = ip)))"

lemma normalized_parsed:
  assumes "url_laws web" "normalizePairBaseUrl web raw = b" "b \<noteq> []"
  obtains s u where "new_url web s = Inr u" "http_url u" "new_url web b = Inr (stripped_url u)" "http_url (stripped_url u)"
proof -
  have "normalizePairV2BaseUrl web raw = Inr b" using assms(2,3) by (auto simp: normalizePairBaseUrl_eq split: sum.splits)
  then obtain s u where u: "new_url web s = Inr u" "http_url u" "b = u_protocol u @ ''//'' @ u_host u @ strip_slashes (u_pathname u)"
    using normalizePairV2BaseUrl_Inr [OF assms(1)] by metis
  have v: "new_url web b = Inr (stripped_url u)" using assms(1) u unfolding url_laws_def by blast
  have "u_protocol (stripped_url u) \<in> {''http:'', ''https:''}" using u(2) by (simp add: stripped_url_def http_url_def)
  then have h: "http_url (stripped_url u)" using assms(1) v unfolding url_laws_def by blast
  show ?thesis by (rule that [OF u(1,2) v h])
qed

lemma tail_chars: "set (tl (dropWhile P x)) \<subseteq> set x" "set (dropWhile P x) \<subseteq> set x"
proof -
  show d: "set (dropWhile P x) \<subseteq> set x" using set_dropWhileD by fast
  have "set (tl y) \<subseteq> set y" for y :: "'a list" by (cases y) auto
  then show "set (tl (dropWhile P x)) \<subseteq> set x" using d by blast
qed

lemma split_host_plain: "plain_text x \<Longrightarrow> plain_text (snd (split_host x))"
proof -
  assume x: "plain_text x"
  have "set (snd (split_host x)) \<subseteq> set x"
    using tail_chars(1) [of "\<lambda>c. c \<noteq> CHR '']''" x] tail_chars(2) [of "\<lambda>c. c \<noteq> CHR '':''" x] by (simp add: split_host_def)
  then show ?thesis using x by (auto simp: plain_text_def)
qed

lemma strip_slashes_behind: "x \<noteq> [] \<Longrightarrow> last x \<noteq> CHR ''/'' \<Longrightarrow> strip_slashes (x @ y) = x @ strip_slashes y"
proof -
  assume x: "x \<noteq> []" "last x \<noteq> CHR ''/''"
  obtain n where n: "y = strip_slashes y @ replicate n CHR ''/''" using strip_slashes_decomp by blast
  have many: "strip_slashes (z @ replicate n CHR ''/'') = strip_slashes z" for z
  proof (induction n arbitrary: z)
    case (Suc n)
    have "z @ replicate (Suc n) CHR ''/'' = (z @ ''/'') @ replicate n CHR ''/''" by simp
    then show ?case using Suc.IH [of "z @ ''/''"] by (simp only: strip_slashes_snoc)
  qed simp
  have "strip_slashes (x @ y) = strip_slashes ((x @ strip_slashes y) @ replicate n CHR ''/'')" using n by simp
  also have "\<dots> = x @ strip_slashes y"
    unfolding many by (rule strip_slashes_id) (use x strip_slashes_last [of y] in \<open>cases "strip_slashes y = []"; simp\<close>)
  finally show ?thesis .
qed

lemma hosted_text:
  assumes u: "http_url u" and ip: "plain_text ip" "ip \<noteq> []" "CHR ''/'' \<notin> set ip" and e: "u_search u = []" "u_hash u = []"
  shows "plain_text (strip_slashes (url_text (set_hostname u ip)))" "has_scheme_mark (strip_slashes (url_text (set_hostname u ip)))"
proof -
  let ?x = "u_protocol u @ ''//'' @ ip" and ?y = "snd (split_host (u_host u)) @ u_pathname u"
  have "last ?x = last ip" using ip(2) by simp
  then have x: "?x \<noteq> []" "last ?x \<noteq> CHR ''/''" using ip last_in_set [of ip] by (blast, metis)
  have t: "strip_slashes (url_text (set_hostname u ip)) = ?x @ strip_slashes ?y"
    using e strip_slashes_behind [OF x, of ?y] by (simp add: url_text_def set_hostname_def)
  have "plain_text (u_protocol u)" using http_protocol [OF u] by auto
  moreover have "plain_text (strip_slashes ?y)"
    by (rule strip_slashes_plain) (simp add: http_plain [OF u] split_host_plain)
  ultimately show "plain_text (strip_slashes (url_text (set_hostname u ip)))" unfolding t using ip by simp
  have "\<exists>a. u_protocol u = a @ '':''" using http_protocol [OF u] by auto
  then obtain a where "?x @ strip_slashes ?y = a @ ''://'' @ (ip @ strip_slashes ?y)" by auto
  then show "has_scheme_mark (strip_slashes (url_text (set_hostname u ip)))" unfolding t using has_scheme_mark_append by metis
qed

text \<open>An address without white space that names a host which is no loopback host for the code.\<close>

definition public_text :: "web \<Rightarrow> string \<Rightarrow> bool" where
  "public_text web r = (plain_text r \<and> (\<exists>u. new_url web r = Inr u \<and> http_url u \<and> \<not> isLoopbackPairHost (url_hostname u)))"

lemma hosted_public:
  assumes laws: "url_laws web" "hostname_kept web ip" and ip: "ip \<noteq> []" "CHR ''/'' \<notin> set ip" "\<not> isLoopbackPairHost ip"
    and b: "normalizePairBaseUrl web base \<noteq> []"
  shows "withHost web base ip \<noteq> [] \<and> public_text web (withHost web base ip)"
proof -
  let ?b = "normalizePairBaseUrl web base"
  have p: "plain_text ip" using laws(2) by (simp add: hostname_kept_def)
  obtain s u where u: "new_url web ?b = Inr (stripped_url u)" "http_url (stripped_url u)"
    using normalized_parsed [OF laws(1) refl b] by metis
  have r: "withHost web base ip = strip_slashes (url_text (set_hostname (stripped_url u) ip))" using b u(1) by (simp add: withHost_def)
  have e: "u_search (stripped_url u) = []" "u_hash (stripped_url u) = []" by (simp_all add: stripped_url_def)
  have "plain_text (withHost web base ip)" "has_scheme_mark (withHost web base ip)"
    unfolding r by (rule hosted_text [OF u(2) p ip(1,2) e])+
  moreover from this(2) have "withHost web base ip \<noteq> []" by auto
  moreover obtain w where "new_url web (withHost web base ip) = Inr w" "http_url w" "url_hostname w = ip"
    using laws(2) u unfolding hostname_kept_def r by blast
  ultimately show ?thesis using ip(3) by (auto simp: public_text_def)
qed

lemma normalizePairBaseUrl_idem:
  "url_laws web \<Longrightarrow> normalizePairBaseUrl web (normalizePairBaseUrl web raw) = normalizePairBaseUrl web raw"
  using normalizePairV2BaseUrl_idem [of web raw]
  by (cases "normalizePairV2BaseUrl web raw") (auto simp: normalizePairBaseUrl_eq [of web] normalizePairV2BaseUrl_def)

lemma public_base_public: "url_laws web \<Longrightarrow> public_base_url web raw = Some r \<Longrightarrow> r \<noteq> [] \<and> public_text web r"
proof -
  assume w: "url_laws web" and "public_base_url web raw = Some r"
  then have r: "normalizePairBaseUrl web raw = r" "r \<noteq> []" "\<not> isLoopbackPairBaseUrl web r"
    by (auto simp: public_base_url_def Let_def split: if_splits)
  obtain s u where u: "new_url web r = Inr (stripped_url u)" "http_url (stripped_url u)"
    by (rule normalized_parsed [OF w r(1,2)]) blast
  have "normalizePairV2BaseUrl web raw = Inr r" using r(1,2) by (auto simp: normalizePairBaseUrl_eq split: sum.splits)
  then have "plain_text r" using base_url_canonical [OF w] by blast
  moreover have "normalizePairBaseUrl web r = r" using normalizePairBaseUrl_idem [OF w, of raw] r(1) by simp
  ultimately show ?thesis using r u by (auto simp: public_text_def isLoopbackPairBaseUrl_def)
qed

lemma resolved_public:
  assumes laws: "url_laws web" "hostname_kept web lan" and lan: "lan \<noteq> []" "CHR ''/'' \<notin> set lan" "\<not> isLoopbackPairHost lan"
    and r: "resolvePairQrBaseUrl web configured payload lan = r"
  shows "normalizePairBaseUrl web configured \<noteq> [] \<or> normalizePairBaseUrl web payload \<noteq> [] \<Longrightarrow> r \<noteq> []"
    and "r \<noteq> [] \<Longrightarrow> public_text web r"
proof -
  note hosted = hosted_public [OF laws lan]
  let ?c = "normalizePairBaseUrl web configured" and ?p = "normalizePairBaseUrl web payload"
  let ?t = "if ?c \<noteq> [] then ?c else if ?p \<noteq> [] then ?p else ''http://127.0.0.1:38089''"
  have t: "?c \<noteq> [] \<or> ?p \<noteq> [] \<Longrightarrow> normalizePairBaseUrl web ?t \<noteq> []" using normalizePairBaseUrl_idem [OF laws(1)] by simp
  have w: "qr_url_with_lan web configured payload lan \<noteq> [] \<and> public_text web (qr_url_with_lan web configured payload lan) \<or>
      ?c = [] \<and> ?p = [] \<and> qr_url_with_lan web configured payload lan = []"
  proof (cases "normalizePairBaseUrl web ?t = []")
    case True
    then have "withHost web ?t lan = []" by (simp add: withHost_def)
    then show ?thesis using t True by (auto simp: qr_url_with_lan_def Let_def)
  next
    case False
    from hosted [OF this] show ?thesis using lan(1) by (simp add: qr_url_with_lan_def Let_def)
  qed
  show "?c \<noteq> [] \<or> ?p \<noteq> [] \<Longrightarrow> r \<noteq> []" "r \<noteq> [] \<Longrightarrow> public_text web r"
    using w public_base_public [OF laws(1)] r
    by (auto simp: resolvePairQrBaseUrl_def qr_url_at_once_def split: option.splits)
qed

text \<open>C34: When the machine knows its address in the network, no QR code sends the mobile to \<open>localhost\<close>,
  \<open>127.0.0.1\<close> or \<open>0.0.0.0\<close>: whenever the configured address or that of the payload is one, an address is
  found, it is an address of the URL class, and its host is none of these. Other names of the machine
  itself are let through: the rest of 127.0.0.0/8, and \<open>[::1]\<close>, since the host name of an IPv6 address
  keeps its brackets (\<open>ipv6_loopback_is_public\<close>).\<close>

theorem qr_not_loopback:
  assumes laws: "url_laws web" "hostname_kept web lan"
    and lan: "CHR ''/'' \<notin> set lan" "js_lower (js_trim lan) \<notin> {[], ''localhost'', ''127.0.0.1'', ''0.0.0.0'', ''::1''}"
  shows "let r = resolvePairQrBaseUrl web configured payload lan in
    (normalizePairBaseUrl web configured \<noteq> [] \<or> normalizePairBaseUrl web payload \<noteq> [] \<longrightarrow> r \<noteq> []) \<and>
    (r \<noteq> [] \<longrightarrow> (\<exists>u. new_url web r = Inr u \<and>
       js_lower (js_trim (url_hostname u)) \<notin> {''localhost'', ''127.0.0.1'', ''0.0.0.0''}))"
proof -
  have "js_trim [] = []" "js_lower [] = []" by code_simp+
  then have "lan \<noteq> []" using lan(2) by auto
  moreover have "\<not> isLoopbackPairHost lan" using lan(2) by (simp add: isLoopbackPairHost_def LOOPBACK_HOSTS_def Let_def)
  moreover have "\<not> isLoopbackPairHost h \<Longrightarrow> js_lower (js_trim h) \<notin> {''localhost'', ''127.0.0.1'', ''0.0.0.0''}" for h
    by (simp add: isLoopbackPairHost_def LOOPBACK_HOSTS_def Let_def)
  ultimately show ?thesis
    using resolved_public [OF laws _ lan(1) _ refl, of configured payload] unfolding Let_def public_text_def by blast
qed

text \<open>An address of the IPv6 loopback interface is not recognised: its host name keeps the brackets.\<close>

lemma ipv6_loopback_is_public:
  assumes "u_host u = ''[::1]'' @ port"
  shows "\<not> isLoopbackPairHost (url_hostname u)" and "isLoopbackPairHost ''::1''"
proof -
  have "url_hostname u = ''[::1]''" using assms by (simp add: url_hostname_def split_host_def js_starts_with_def)
  moreover have "\<not> isLoopbackPairHost ''[::1]''" "isLoopbackPairHost ''::1''" by code_simp+
  ultimately show "\<not> isLoopbackPairHost (url_hostname u)" "isLoopbackPairHost ''::1''" by simp_all
qed

text \<open>The laws hold of the sample of the URL class for an address without a port.\<close>

lemma split_host_hosted: "CHR '':'' \<notin> set ip \<Longrightarrow> ip \<noteq> [] \<Longrightarrow> hd ip \<noteq> CHR ''['' \<Longrightarrow> r = [] \<or> hd r = CHR '':'' \<Longrightarrow> split_host (ip @ r) = (ip, r)"
proof -
  assume a: "CHR '':'' \<notin> set ip" "ip \<noteq> []" "hd ip \<noteq> CHR ''[''" "r = [] \<or> hd r = CHR '':''"
  have "takeWhile (\<lambda>c. c \<noteq> CHR '':'') (ip @ r) = ip \<and> dropWhile (\<lambda>c. c \<noteq> CHR '':'') (ip @ r) = r"
    using a(1,4) by (intro takeWhile_digits) (auto simp: list_all_iff)
  moreover have "\<not> js_starts_with (ip @ r) ''[''" using a(2,3) by (cases ip) (auto simp: js_starts_with_def)
  ultimately show ?thesis by (auto simp: split_host_def)
qed

definition host_shaped :: "string \<Rightarrow> bool" where
  "host_shaped h = (snd (split_host h) = [] \<or> hd (snd (split_host h)) = CHR '':'')"

definition shaped_web :: web where
  "shaped_web = sample_web\<lparr>new_url := (\<lambda>s. case sample_parse s of
     Inr u \<Rightarrow> if host_shaped (u_host u) then Inr u else Inl ''Invalid URL'' | Inl err \<Rightarrow> Inl err)\<rparr>"

lemma shaped_parse: "new_url shaped_web s = Inr u \<longleftrightarrow> sample_parse s = Inr u \<and> host_shaped (u_host u)"
  by (auto simp: shaped_web_def split: sum.split)

lemma sample_laws:
  "sample_parse s = Inr u \<Longrightarrow> u_protocol u \<in> {''http:'', ''https:''} \<Longrightarrow> http_url u"
  "sample_parse s = Inr u \<Longrightarrow> http_url u \<Longrightarrow>
     sample_parse (u_protocol u @ ''//'' @ u_host u @ strip_slashes (u_pathname u)) = Inr (stripped_url u)"
  "sample_parse s = Inr u \<Longrightarrow> http_url u \<Longrightarrow> p \<noteq> [] \<Longrightarrow> hd p \<noteq> CHR ''/'' \<Longrightarrow> plain_text p \<Longrightarrow>
     sample_parse_on (CHR ''/'' # p) (u_protocol u @ ''//'' @ u_host u @ strip_slashes (u_pathname u) @ ''/'') =
       Inr (u\<lparr>u_pathname := CHR ''/'' # p, u_search := [], u_hash := []\<rparr>)"
  using sample_web_laws unfolding url_laws_def sample_web_def web.select_convs by blast+

lemma sample_no_search: "sample_parse s = Inr u \<Longrightarrow> u_search u = [] \<and> u_hash u = []"
proof -
  assume "sample_parse s = Inr u"
  then have "\<exists>a b c. u = \<lparr>u_protocol = a, u_host = b, u_pathname = c, u_search = [], u_hash = []\<rparr>"
    unfolding sample_parse_def Let_def by (simp only: split: if_split_asm) blast+
  then show ?thesis by auto
qed

lemma shaped_web_laws: "url_laws shaped_web"
proof -
  have h: "u_host (stripped_url u) = u_host u" for u by (simp add: stripped_url_def)
  have on: "new_url_on shaped_web = sample_parse_on" by (simp add: shaped_web_def sample_web_def)
  show ?thesis unfolding url_laws_def shaped_parse on h by (intro conjI allI impI) (blast intro: sample_laws)+
qed

lemma shaped_hostname_kept: "hostname_kept shaped_web ''10.0.0.2''"
proof -
  let ?ip = "''10.0.0.2''"
  have "\<exists>w. new_url shaped_web (strip_slashes (url_text (set_hostname u ?ip))) = Inr w \<and> http_url w \<and> url_hostname w = ?ip"
    if "new_url shaped_web s = Inr u" "http_url u" for s u
  proof -
    let ?r = "snd (split_host (u_host u))" and ?p = "strip_slashes (u_pathname u)"
    have r: "?r = [] \<or> hd ?r = CHR '':''" "sample_parse s = Inr u" using that(1) by (simp_all add: shaped_parse host_shaped_def)
    have e: "u_search u = []" "u_hash u = []" using sample_no_search [OF r(2)] by simp_all
    have host: "set (u_host u) \<subseteq> {c. c \<noteq> CHR ''/''}" "plain_text (u_host u)" using that(2) by (auto simp: http_url_def)
    have sub: "set ?r \<subseteq> set (u_host u)"
      using tail_chars(1) [of "\<lambda>c. c \<noteq> CHR '']''" "u_host u"] tail_chars(2) [of "\<lambda>c. c \<noteq> CHR '':''" "u_host u"] by (simp add: split_host_def)
    have rr: "plain_text ?r" "CHR ''/'' \<notin> set ?r" using split_host_plain [OF host(2)] host(1) sub by blast+
    have pp: "plain_text ?p" "?p = [] \<or> hd ?p = CHR ''/''"
      using strip_slashes_plain [OF http_plain(2) [OF that(2)]] strip_slashes_head [of "u_pathname u" "CHR ''/''"] that(2)
      by (blast, unfold http_url_def, blast)
    have ip: "plain_text ?ip" "CHR ''/'' \<notin> set ?ip" "CHR '':'' \<notin> set ?ip" "hd ?ip \<noteq> CHR ''[''" by code_simp+
    let ?w = "\<lparr>u_protocol = u_protocol u, u_host = ?ip @ ?r, u_pathname = (if ?p = [] then ''/'' else ?p), u_search = [], u_hash = []\<rparr>"
    let ?x = "u_protocol u @ ''//'' @ ?ip @ ?r"
    have "last ?x \<noteq> CHR ''/''"
    proof (cases "?r = []")
      case False
      then have "last ?x = last ?r" by simp
      then show ?thesis using rr(2) last_in_set [OF False] by metis
    qed simp
    then have t: "strip_slashes (url_text (set_hostname u ?ip)) = u_protocol u @ ''//'' @ (?ip @ ?r) @ ?p"
      using strip_slashes_behind [of ?x "u_pathname u"] e by (simp add: url_text_def set_hostname_def)
    have "sample_parse (u_protocol u @ ''//'' @ (?ip @ ?r) @ ?p) = Inr ?w"
      by (rule sample_parse_text) (use that(2) ip rr pp in \<open>auto simp: http_url_def\<close>)
    moreover have s: "split_host (?ip @ ?r) = (?ip, ?r)" by (rule split_host_hosted) (use ip r in auto)
    moreover have "http_url ?w" using that(2) ip rr pp by (auto simp: http_url_def)
    ultimately show ?thesis using r(1) unfolding t shaped_parse by (auto simp: host_shaped_def url_hostname_def)
  qed
  moreover have "plain_text ?ip" by code_simp
  ultimately show ?thesis unfolding hostname_kept_def by blast
qed

theorem qr_not_loopback_witness:
  "resolvePairQrBaseUrl shaped_web ''localhost:38089'' [] ''10.0.0.2'' = ''http://10.0.0.2:38089'' \<and>
   (\<exists>u. new_url shaped_web (resolvePairQrBaseUrl shaped_web ''localhost:38089'' [] ''10.0.0.2'') = Inr u \<and>
      js_lower (js_trim (url_hostname u)) \<notin> {''localhost'', ''127.0.0.1'', ''0.0.0.0''})"
proof
  show a: "resolvePairQrBaseUrl shaped_web ''localhost:38089'' [] ''10.0.0.2'' = ''http://10.0.0.2:38089''" by code_simp
  have "CHR ''/'' \<notin> set ''10.0.0.2''" by simp
  moreover have "js_lower (js_trim ''10.0.0.2'') = ''10.0.0.2''" by code_simp
  ultimately show "\<exists>u. new_url shaped_web (resolvePairQrBaseUrl shaped_web ''localhost:38089'' [] ''10.0.0.2'') = Inr u \<and>
      js_lower (js_trim (url_hostname u)) \<notin> {''localhost'', ''127.0.0.1'', ''0.0.0.0''}"
    using qr_not_loopback [OF shaped_web_laws shaped_hostname_kept, of "''localhost:38089''" "[]"]
    unfolding a Let_def by simp
qed

end
