(* ===== verification/ProviderPresets.thy ===== *)
theory ProviderPresets
  imports PanelChannels
begin

text \<open>
  desktop/src/legacy/provider-presets.ts: the presets of the providers of models, and the pure functions
  on them, with the detection of the preset of a saved configuration (provider-controller.ts). The texts
  of a preset that are only shown, in two languages, are left out; its category stands for one. The
  theorems: what is saved for a preset is detected as that preset, and the addresses of the AI gateway
  of Cloudflare are read back as they were built.
\<close>

section \<open>Presets\<close>

datatype preset_category = Cat_builtin | Cat_gateway | Cat_login | Cat_credentials | Cat_local | Cat_custom

record preset =
  pr_id :: string
  pr_authKind :: string
  pr_category :: preset_category
  pr_label :: string
  pr_runtimeProvider :: string
  pr_keyRequired :: bool
  pr_showBaseUrl :: bool
  pr_baseUrlRequired :: bool
  pr_baseUrlDefault :: string
  pr_showCustomOptions :: bool
  pr_customApiMode :: string
  pr_fetchModels :: bool
  pr_autoApiKey :: string
  pr_docs :: string
  pr_detectHosts :: "string list"

definition DEFAULT_CUSTOM_API_MODE :: string where
  "DEFAULT_CUSTOM_API_MODE = ''openai-responses''"

definition SUPPORTED_CUSTOM_API_MODES :: "string list" where
  "SUPPORTED_CUSTOM_API_MODES = [''openai-responses'', ''openai-completions'', ''anthropic-messages'']"

definition CLOUDFLARE_PRESET_ID :: string where
  "CLOUDFLARE_PRESET_ID = ''cloudflare-ai-gateway''"

definition DEFAULT_CUSTOM_HEADERS :: jsval where
  "DEFAULT_CUSTOM_HEADERS = JObj [(''Accept'', JStr ''application/json''), (''User-Agent'', JStr ''OpenClaw Desktop'')]"

definition doc_page :: "string \<Rightarrow> string" where
  "doc_page page = ''https://docs.openclaw.ai/'' @ page"

definition models_doc :: string where
  "models_doc = doc_page ''concepts/model-providers''"

definition provider_doc :: "string \<Rightarrow> string" where
  "provider_doc page = doc_page (''providers/'' @ page)"

definition builtinProvider :: "string \<Rightarrow> string \<Rightarrow> string \<Rightarrow> preset" where
  "builtinProvider i label docs =
     \<lparr>pr_id = i, pr_authKind = ''api-key'', pr_category = Cat_builtin, pr_label = label, pr_runtimeProvider = i,
      pr_keyRequired = True, pr_showBaseUrl = False, pr_baseUrlRequired = False, pr_baseUrlDefault = [],
      pr_showCustomOptions = False, pr_customApiMode = DEFAULT_CUSTOM_API_MODE, pr_fetchModels = False, pr_autoApiKey = [],
      pr_docs = docs, pr_detectHosts = []\<rparr>"

definition gatewayProvider :: "string \<Rightarrow> string \<Rightarrow> string \<Rightarrow> string \<Rightarrow> string \<Rightarrow> preset" where
  "gatewayProvider i label baseUrlDefault customApiMode docs =
     \<lparr>pr_id = i, pr_authKind = ''api-key'', pr_category = Cat_gateway, pr_label = label, pr_runtimeProvider = ''custom'',
      pr_keyRequired = True, pr_showBaseUrl = True, pr_baseUrlRequired = True, pr_baseUrlDefault = baseUrlDefault,
      pr_showCustomOptions = True, pr_customApiMode = customApiMode, pr_fetchModels = True, pr_autoApiKey = [],
      pr_docs = docs, pr_detectHosts = []\<rparr>"

definition managedAuthProvider :: "string \<Rightarrow> string \<Rightarrow> string \<Rightarrow> preset" where
  "managedAuthProvider i label docs =
     \<lparr>pr_id = i, pr_authKind = ''managed-auth'', pr_category = Cat_login, pr_label = label, pr_runtimeProvider = i,
      pr_keyRequired = False, pr_showBaseUrl = False, pr_baseUrlRequired = False, pr_baseUrlDefault = [],
      pr_showCustomOptions = False, pr_customApiMode = DEFAULT_CUSTOM_API_MODE, pr_fetchModels = False, pr_autoApiKey = ''managed-auth'',
      pr_docs = docs, pr_detectHosts = []\<rparr>"

definition awsCredentialProvider :: "string \<Rightarrow> string \<Rightarrow> string \<Rightarrow> preset" where
  "awsCredentialProvider i label docs =
     \<lparr>pr_id = i, pr_authKind = ''cloud-credentials'', pr_category = Cat_credentials, pr_label = label, pr_runtimeProvider = i,
      pr_keyRequired = False, pr_showBaseUrl = False, pr_baseUrlRequired = False, pr_baseUrlDefault = [],
      pr_showCustomOptions = False, pr_customApiMode = DEFAULT_CUSTOM_API_MODE, pr_fetchModels = False, pr_autoApiKey = ''aws-credentials'',
      pr_docs = docs, pr_detectHosts = []\<rparr>"

definition builtin_presets :: "preset list" where
  "builtin_presets =
     [builtinProvider ''openai'' ''OpenAI'' (provider_doc ''openai''),
      builtinProvider ''anthropic'' ''Anthropic'' (provider_doc ''anthropic''),
      builtinProvider ''google'' ''Google Gemini'' models_doc,
      builtinProvider ''zai'' ''Z.AI (GLM)'' (provider_doc ''zai''),
      builtinProvider ''openrouter'' ''OpenRouter'' (provider_doc ''openrouter''),
      builtinProvider ''xai'' ''xAI (Grok)'' models_doc,
      builtinProvider ''mistral'' ''Mistral'' (provider_doc ''mistral''),
      builtinProvider ''groq'' ''Groq'' models_doc,
      builtinProvider ''cerebras'' ''Cerebras'' models_doc,
      builtinProvider ''huggingface'' ''Hugging Face'' (provider_doc ''huggingface''),
      builtinProvider ''github-copilot'' ''GitHub Copilot'' models_doc,
      builtinProvider ''vercel-ai-gateway'' ''Vercel AI Gateway'' (provider_doc ''vercel-ai-gateway''),
      builtinProvider ''kilocode'' ''Kilo Gateway'' (provider_doc ''kilocode'')]"

definition login_presets :: "preset list" where
  "login_presets =
     [managedAuthProvider ''openai-codex'' ''OpenAI Codex'' models_doc,
      managedAuthProvider ''qwen-portal'' ''Qwen (OAuth)'' (provider_doc ''qwen''),
      managedAuthProvider ''opencode'' ''OpenCode Zen'' (provider_doc ''opencode''),
      managedAuthProvider ''opencode-go'' ''OpenCode Go'' (provider_doc ''opencode-go''),
      managedAuthProvider ''minimax-portal'' ''MiniMax (OAuth)'' (provider_doc ''minimax''),
      awsCredentialProvider ''amazon-bedrock'' ''Amazon Bedrock'' (provider_doc ''bedrock'')]"

definition gateway_presets :: "preset list" where
  "gateway_presets =
     [(gatewayProvider ''moonshot'' ''Moonshot / Kimi'' ''https://api.moonshot.ai/v1'' ''openai-completions'' (provider_doc ''moonshot''))
        \<lparr>pr_detectHosts := [''moonshot.ai'', ''moonshot.cn'']\<rparr>,
      (gatewayProvider ''kimi-coding'' ''Kimi Coding'' ''https://api.kimi.com/coding/'' ''anthropic-messages'' (provider_doc ''moonshot''))
        \<lparr>pr_detectHosts := [''kimi.com'']\<rparr>,
      (gatewayProvider ''together'' ''Together AI'' ''https://api.together.xyz/v1'' ''openai-completions'' (provider_doc ''together''))
        \<lparr>pr_detectHosts := [''together.xyz'']\<rparr>,
      (gatewayProvider ''nvidia'' ''NVIDIA NIM'' ''https://integrate.api.nvidia.com/v1'' ''openai-completions'' (provider_doc ''nvidia''))
        \<lparr>pr_detectHosts := [''nvidia.com'']\<rparr>,
      (gatewayProvider ''qianfan'' ''Baidu Qianfan'' ''https://qianfan.baidubce.com/v2'' ''openai-completions'' (provider_doc ''qianfan''))
        \<lparr>pr_detectHosts := [''qianfan'', ''baidu'']\<rparr>,
      (gatewayProvider ''modelstudio'' ''Alibaba Model Studio'' ''https://coding-intl.dashscope.aliyuncs.com/v1'' ''openai-completions'' models_doc)
        \<lparr>pr_detectHosts := [''dashscope.aliyuncs.com'']\<rparr>]"

definition vendor_presets :: "preset list" where
  "vendor_presets =
     [(gatewayProvider ''minimax'' ''MiniMax (Anthropic API)'' ''https://api.minimax.io/anthropic'' ''anthropic-messages'' (provider_doc ''minimax''))
        \<lparr>pr_detectHosts := [''minimax.io'', ''minimaxi.com'']\<rparr>,
      (gatewayProvider ''xiaomi'' ''Xiaomi'' ''https://api.xiaomimimo.com/anthropic'' ''anthropic-messages'' (provider_doc ''xiaomi''))
        \<lparr>pr_detectHosts := [''xiaomimimo.com'']\<rparr>,
      (gatewayProvider ''synthetic'' ''Synthetic'' ''https://api.synthetic.new/anthropic'' ''anthropic-messages'' (provider_doc ''synthetic''))
        \<lparr>pr_detectHosts := [''synthetic.new'']\<rparr>,
      (gatewayProvider ''venice'' ''Venice AI'' ''https://api.venice.ai/api/v1'' ''openai-completions'' (provider_doc ''venice''))
        \<lparr>pr_detectHosts := [''venice.ai'']\<rparr>,
      (gatewayProvider ''volcengine'' ''Volcengine (Doubao)'' ''https://ark.cn-beijing.volces.com/api/v3'' ''openai-completions'' models_doc)
        \<lparr>pr_detectHosts := [''volces.com'']\<rparr>,
      (gatewayProvider ''byteplus'' ''BytePlus ARK'' ''https://ark.byteintlapi.com/api/v3'' ''openai-completions'' models_doc)
        \<lparr>pr_detectHosts := [''byteintlapi.com'']\<rparr>,
      (gatewayProvider CLOUDFLARE_PRESET_ID ''Cloudflare AI Gateway'' [] ''anthropic-messages'' (provider_doc ''cloudflare-ai-gateway''))
        \<lparr>pr_detectHosts := [''gateway.ai.cloudflare.com'', ''cloudflare.com'']\<rparr>]"

definition local_presets :: "preset list" where
  "local_presets =
     [(gatewayProvider ''ollama'' ''Ollama (Local)'' ''http://127.0.0.1:11434/v1'' ''openai-completions'' (provider_doc ''ollama''))
        \<lparr>pr_category := Cat_local, pr_keyRequired := False, pr_autoApiKey := ''local-ollama'',
         pr_detectHosts := [''127.0.0.1:11434'', ''localhost:11434'']\<rparr>,
      (gatewayProvider ''vllm'' ''vLLM (Local/Self-hosted)'' ''http://127.0.0.1:8000/v1'' ''openai-completions'' (provider_doc ''vllm''))
        \<lparr>pr_category := Cat_local, pr_keyRequired := False, pr_autoApiKey := ''local-vllm'',
         pr_detectHosts := [''127.0.0.1:8000'', ''localhost:8000'']\<rparr>,
      (gatewayProvider ''litellm'' ''LiteLLM Gateway'' ''http://127.0.0.1:4000/v1'' ''openai-completions'' (provider_doc ''litellm''))
        \<lparr>pr_category := Cat_local, pr_keyRequired := False, pr_autoApiKey := ''local-litellm'',
         pr_detectHosts := [''127.0.0.1:4000'', ''localhost:4000'', ''litellm'']\<rparr>]"

definition custom_preset :: preset where
  "custom_preset = (gatewayProvider ''custom'' ''Custom (Manual)'' [] DEFAULT_CUSTOM_API_MODE models_doc)\<lparr>pr_category := Cat_custom\<rparr>"

definition PROVIDER_PRESETS :: "preset list" where
  "PROVIDER_PRESETS = builtin_presets @ login_presets @ gateway_presets @ vendor_presets @ local_presets @ [custom_preset]"

section \<open>Functions\<close>

definition normalizeCustomApiMode :: "jsval \<Rightarrow> string" where
  "normalizeCustomApiMode mode = (if js_text mode \<in> set SUPPORTED_CUSTOM_API_MODES then js_text mode else [])"

definition isCloudflarePreset :: "preset \<Rightarrow> bool" where
  "isCloudflarePreset p = (js_trim (pr_id p) = CLOUDFLARE_PRESET_ID)"

definition cloudflareRouteByApiMode :: "string \<Rightarrow> string" where
  "cloudflareRouteByApiMode mode = (if js_trim mode = ''anthropic-messages'' then ''anthropic'' else ''openai'')"

definition buildCloudflareBaseUrl :: "string \<Rightarrow> string \<Rightarrow> string \<Rightarrow> string" where
  "buildCloudflareBaseUrl accountId gatewayId mode =
     (let account = js_trim accountId; gateway = js_trim gatewayId in
      if account = [] \<or> gateway = [] then []
      else ''https://gateway.ai.cloudflare.com/v1/'' @ account @ ''/'' @ gateway @ ''/'' @
        cloudflareRouteByApiMode (if mode = [] then DEFAULT_CUSTOM_API_MODE else mode))"

record cloudflare_parts =
  cf_accountId :: string
  cf_gatewayId :: string
  cf_route :: string

definition path_parts :: "string \<Rightarrow> string list" where
  "path_parts pathname = filter (\<lambda>s. s \<noteq> []) (map js_trim (js_split_char (CHR ''/'') pathname))"

definition parseCloudflareBaseUrl :: "web \<Rightarrow> string \<Rightarrow> cloudflare_parts option" where
  "parseCloudflareBaseUrl web baseUrl =
     (case new_url web (js_trim baseUrl) of
        Inl err \<Rightarrow> None
      | Inr parsed \<Rightarrow>
          if \<not> js_includes (js_lower (url_hostname parsed)) ''cloudflare.com'' then None
          else case path_parts (u_pathname parsed) of
                 v # account # gateway # rest \<Rightarrow>
                   if js_lower v \<noteq> ''v1'' then None
                   else Some \<lparr>cf_accountId = account, cf_gatewayId = gateway, cf_route = (case rest of r # _ \<Rightarrow> r | [] \<Rightarrow> [])\<rparr>
               | _ \<Rightarrow> None)"

definition normalizeUrl :: "string \<Rightarrow> string" where
  "normalizeUrl v = js_lower (strip_slashes (js_trim v))"

definition find_preset :: "string \<Rightarrow> preset option" where
  "find_preset i = find (\<lambda>p. pr_id p = i) PROVIDER_PRESETS"

definition getProviderPreset :: "string \<Rightarrow> preset" where
  "getProviderPreset i = (case find_preset (js_trim i) of Some p \<Rightarrow> p | None \<Rightarrow> custom_preset)"

definition isManagedAuthPreset :: "preset \<Rightarrow> bool" where
  "isManagedAuthPreset p = (js_trim (pr_authKind p) = ''managed-auth'')"

definition isAdvancedProviderPreset :: "preset \<Rightarrow> bool" where
  "isAdvancedProviderPreset p = (js_trim (pr_authKind p) = ''managed-auth'' \<or> js_trim (pr_authKind p) = ''cloud-credentials'')"

definition getProviderLoginCommand :: "preset \<Rightarrow> string" where
  "getProviderLoginCommand p =
     (let i = js_trim (if pr_runtimeProvider p = [] then pr_id p else pr_runtimeProvider p) in
      if \<not> isManagedAuthPreset p \<or> i = [] then [] else ''openclaw models auth login --provider '' @ i)"

text \<open>\<open>detectProviderPresetId\<close>: the preset of a saved configuration.\<close>

definition preset_matches :: "string \<Rightarrow> preset \<Rightarrow> bool" where
  "preset_matches baseUrl p =
     (pr_runtimeProvider p = ''custom'' \<and> pr_id p \<noteq> ''custom'' \<and>
      (let expected = normalizeUrl (pr_baseUrlDefault p) in
       (expected \<noteq> [] \<and> baseUrl = expected) \<or> list_ex (\<lambda>host. js_includes baseUrl (js_lower host)) (pr_detectHosts p)))"

definition detectProviderPresetId :: "jsval \<Rightarrow> string" where
  "detectProviderPresetId config =
     (let provider = js_lower (js_text (js_get config ''provider''));
          baseUrl = normalizeUrl (js_string_or [] (js_get config ''baseUrl'')) in
      if provider = [] then ''openai''
      else if provider \<noteq> ''custom'' \<and> find_preset provider \<noteq> None then provider
      else if provider \<noteq> ''custom'' then ''custom''
      else case find (preset_matches baseUrl) PROVIDER_PRESETS of Some p \<Rightarrow> pr_id p | None \<Rightarrow> ''custom'')"

section \<open>Saved presets are detected\<close>

definition preset_config :: "preset \<Rightarrow> string \<Rightarrow> jsval" where
  "preset_config p baseUrl = JObj [(''provider'', JStr (pr_runtimeProvider p)), (''baseUrl'', JStr baseUrl)]"

lemma detect_by_url:
  assumes "normalizeUrl u = normalizeUrl v"
  shows "detectProviderPresetId (preset_config p u) = detectProviderPresetId (preset_config p v)"
proof -
  have or_text: "js_string_or [] (JStr s) = s" for s by (simp add: js_string_or_def js_or_def)
  show ?thesis by (simp add: detectProviderPresetId_def preset_config_def js_get_def or_text assms Let_def)
qed

text \<open>What detection looks at, evaluated once.\<close>

definition preset_row :: "preset \<Rightarrow> string \<times> string \<times> string list" where
  "preset_row p = (pr_id p, normalizeUrl (pr_baseUrlDefault p), map js_lower (pr_detectHosts p))"

fun row_matches :: "string \<Rightarrow> string \<times> string \<times> string list \<Rightarrow> bool" where
  "row_matches u (i, expected, hosts) = ((expected \<noteq> [] \<and> u = expected) \<or> list_ex (js_includes u) hosts)"

definition gateway_rows :: "(string \<times> string \<times> string list) list" where
  "gateway_rows = map preset_row (filter (\<lambda>p. pr_runtimeProvider p = ''custom'' \<and> pr_id p \<noteq> ''custom'') PROVIDER_PRESETS)"

lemma found_row:
  "(case find (preset_matches u) ps of Some p \<Rightarrow> pr_id p | None \<Rightarrow> ''custom'') =
   (case find (row_matches u) (map preset_row (filter (\<lambda>p. pr_runtimeProvider p = ''custom'' \<and> pr_id p \<noteq> ''custom'') ps)) of
      Some r \<Rightarrow> fst r | None \<Rightarrow> ''custom'')"
  by (induction ps) (auto simp: preset_matches_def preset_row_def Let_def list_ex_iff)

lemma gateway_rows_are:
  "gateway_rows =
     [(''moonshot'', ''https://api.moonshot.ai/v1'', [''moonshot.ai'', ''moonshot.cn'']),
      (''kimi-coding'', ''https://api.kimi.com/coding'', [''kimi.com'']),
      (''together'', ''https://api.together.xyz/v1'', [''together.xyz'']),
      (''nvidia'', ''https://integrate.api.nvidia.com/v1'', [''nvidia.com'']),
      (''qianfan'', ''https://qianfan.baidubce.com/v2'', [''qianfan'', ''baidu'']),
      (''modelstudio'', ''https://coding-intl.dashscope.aliyuncs.com/v1'', [''dashscope.aliyuncs.com'']),
      (''minimax'', ''https://api.minimax.io/anthropic'', [''minimax.io'', ''minimaxi.com'']),
      (''xiaomi'', ''https://api.xiaomimimo.com/anthropic'', [''xiaomimimo.com'']),
      (''synthetic'', ''https://api.synthetic.new/anthropic'', [''synthetic.new'']),
      (''venice'', ''https://api.venice.ai/api/v1'', [''venice.ai'']),
      (''volcengine'', ''https://ark.cn-beijing.volces.com/api/v3'', [''volces.com'']),
      (''byteplus'', ''https://ark.byteintlapi.com/api/v3'', [''byteintlapi.com'']),
      (''cloudflare-ai-gateway'', [], [''gateway.ai.cloudflare.com'', ''cloudflare.com'']),
      (''ollama'', ''http://127.0.0.1:11434/v1'', [''127.0.0.1:11434'', ''localhost:11434'']),
      (''vllm'', ''http://127.0.0.1:8000/v1'', [''127.0.0.1:8000'', ''localhost:8000'']),
      (''litellm'', ''http://127.0.0.1:4000/v1'', [''127.0.0.1:4000'', ''localhost:4000'', ''litellm''])]"
  by code_simp

lemma starts_with_steps:
  "js_starts_with s []" "\<not> js_starts_with [] (d # ds)" "js_starts_with (c # cs) (d # ds) \<longleftrightarrow> c = d \<and> js_starts_with cs ds"
  by (auto simp: js_starts_with_def)

definition detected_row :: "string \<Rightarrow> string" where
  "detected_row u = (case find (row_matches u) gateway_rows of Some r \<Rightarrow> fst r | None \<Rightarrow> ''custom'')"

lemma rows_detected:
  "list_all (\<lambda>(i, u, hosts). i = CLOUDFLARE_PRESET_ID \<or> detected_row u = i) gateway_rows" "detected_row [] = ''custom''"
  unfolding detected_row_def gateway_rows_are CLOUDFLARE_PRESET_ID_def
  by (simp_all add: starts_with_steps)

lemma built_in_detected:
  "list_all (\<lambda>p. pr_runtimeProvider p = ''custom'' \<or>
     (pr_runtimeProvider p = pr_id p \<and> js_lower (js_trim (pr_id p)) = pr_id p \<and> pr_id p \<noteq> [] \<and> find_preset (pr_id p) \<noteq> None)) PROVIDER_PRESETS"
  by code_simp

lemma custom_alone: "list_all (\<lambda>p. pr_id p = ''custom'' \<longrightarrow> normalizeUrl (pr_baseUrlDefault p) = []) PROVIDER_PRESETS"
  by code_simp

lemma detect_custom: "js_text (js_get c ''provider'') = ''custom'' \<Longrightarrow>
    detectProviderPresetId c = detected_row (normalizeUrl (js_string_or [] (js_get c ''baseUrl'')))"
proof -
  assume "js_text (js_get c ''provider'') = ''custom''"
  moreover have "js_lower ''custom'' = ''custom''" by code_simp
  ultimately show ?thesis
    by (simp add: detectProviderPresetId_def Let_def found_row detected_row_def gateway_rows_def)
qed

text \<open>C38: What the form saves is shown again as what was chosen. For every preset but the gateway of Cloudflare,
  whose address differs from account to account, a configuration with the runtime provider of the preset and
  its default address, up to case, blanks and slashes at the end, is detected as that preset and no other.\<close>

theorem saved_preset_detected:
  assumes "p \<in> set PROVIDER_PRESETS" "pr_id p \<noteq> CLOUDFLARE_PRESET_ID" "normalizeUrl u = normalizeUrl (pr_baseUrlDefault p)"
  shows "detectProviderPresetId (preset_config p u) = pr_id p"
proof (cases "pr_runtimeProvider p = ''custom''")
  case True
  have "js_trim ''custom'' = ''custom''" by code_simp
  then have d: "detectProviderPresetId (preset_config p u) = detected_row (normalizeUrl (pr_baseUrlDefault p))"
    by (subst detect_custom) (auto simp: preset_config_def js_get_def True js_string_or_def js_or_def assms(3) [symmetric])
  show ?thesis
  proof (cases "pr_id p = ''custom''")
    case True
    then show ?thesis using d custom_alone assms(1) rows_detected(2) by (auto simp: list_all_iff)
  next
    case False
    then have "preset_row p \<in> set gateway_rows" using assms(1) True by (simp add: gateway_rows_def)
    then show ?thesis using d rows_detected(1) assms(2) by (auto simp: list_all_iff preset_row_def)
  qed
next
  case False
  then have p: "pr_runtimeProvider p = pr_id p" "js_lower (js_trim (pr_id p)) = pr_id p" "pr_id p \<noteq> []" "find_preset (pr_id p) \<noteq> None"
    using built_in_detected assms(1) by (auto simp: list_all_iff)
  then show ?thesis using False by (simp add: detectProviderPresetId_def preset_config_def js_get_def Let_def)
qed

theorem saved_preset_detected_witness:
  "detectProviderPresetId (preset_config (getProviderPreset ''kimi-coding'') ''https://API.kimi.com/coding//'') = ''kimi-coding''"
proof -
  let ?p = "getProviderPreset ''kimi-coding''"
  have "list_ex (\<lambda>q. q = ?p) PROVIDER_PRESETS" by code_simp
  then have "?p \<in> set PROVIDER_PRESETS" by (simp add: list_ex_iff)
  moreover have "pr_id ?p = ''kimi-coding''" by code_simp
  moreover have "''kimi-coding'' \<noteq> CLOUDFLARE_PRESET_ID" by code_simp
  moreover have "normalizeUrl ''https://API.kimi.com/coding//'' = normalizeUrl (pr_baseUrlDefault ?p)" by code_simp
  ultimately show ?thesis using saved_preset_detected [of ?p] by simp
qed

text \<open>An account of Cloudflare whose name holds a host of another preset is taken for that preset.\<close>

lemma cloudflare_account_mistaken:
  "detectProviderPresetId (preset_config (getProviderPreset CLOUDFLARE_PRESET_ID)
     (buildCloudflareBaseUrl ''baidu-team'' ''main'' ''openai-completions'')) = ''qianfan''"
  by code_simp

section \<open>Addresses of the AI gateway of Cloudflare\<close>

lemma js_split_char_part: "d \<notin> set s \<Longrightarrow> js_split_char d (s @ d # t) = s # js_split_char d t"
  by (induction s) auto

lemma js_split_char_last: "d \<notin> set s \<Longrightarrow> js_split_char d s = [s]"
  by (induction s) auto

text \<open>What the URL class does with the host and a path of plain characters.\<close>

definition cloudflare_law :: "web \<Rightarrow> bool" where
  "cloudflare_law web \<longleftrightarrow>
     (\<forall>path. list_all (\<lambda>c. id_char c \<or> c = CHR ''/'') path \<longrightarrow>
        new_url web (''https://gateway.ai.cloudflare.com/'' @ path) =
          Inr \<lparr>u_protocol = ''https:'', u_host = ''gateway.ai.cloudflare.com'', u_pathname = CHR ''/'' # path, u_search = [], u_hash = []\<rparr>)"

definition cloudflare_id :: "string \<Rightarrow> bool" where
  "cloudflare_id s = (s \<noteq> [] \<and> list_all id_char s)"

lemma cloudflare_id_simps:
  assumes "cloudflare_id s"
  shows "js_trim s = s" "s \<noteq> []" "CHR ''/'' \<notin> set s"
proof -
  have "\<not> id_char (CHR ''/'')" by code_simp
  then show "CHR ''/'' \<notin> set s" using assms by (auto simp: cloudflare_id_def list_all_iff)
qed (use assms trimmed_id [of s] in \<open>auto simp: cloudflare_id_def js_trim_id\<close>)

lemma cloudflare_route_ok: "cloudflare_id (cloudflareRouteByApiMode m)"
  by (simp add: cloudflareRouteByApiMode_def) code_simp

lemma cloudflare_path_parts:
  assumes "cloudflare_id a" "cloudflare_id g" "cloudflare_id r"
  shows "path_parts (''/v1/'' @ a @ ''/'' @ g @ ''/'' @ r) = [''v1'', a, g, r]"
proof -
  have "js_split_char (CHR ''/'') (''/v1/'' @ a @ ''/'' @ g @ ''/'' @ r) = [[], ''v1'', a, g, r]"
    using assms by (simp add: js_split_char_part js_split_char_last cloudflare_id_simps)
  moreover have "js_trim ''v1'' = ''v1''" by code_simp
  ultimately show ?thesis using assms by (simp add: path_parts_def cloudflare_id_simps)
qed

text \<open>The address of a gateway of Cloudflare is read back: for identifiers of letters, digits, dashes and underscores
  \<open>parseCloudflareBaseUrl\<close> finds in the address that \<open>buildCloudflareBaseUrl\<close> has put together the same account,
  the same gateway and the route of the mode, the default mode where none was given.\<close>

theorem cloudflare_roundtrip:
  assumes "cloudflare_law web" "cloudflare_id a" "cloudflare_id g"
  shows "parseCloudflareBaseUrl web (buildCloudflareBaseUrl a g m) =
    Some \<lparr>cf_accountId = a, cf_gatewayId = g, cf_route = cloudflareRouteByApiMode (if m = [] then DEFAULT_CUSTOM_API_MODE else m)\<rparr>"
proof -
  define r where "r = cloudflareRouteByApiMode (if m = [] then DEFAULT_CUSTOM_API_MODE else m)"
  have r: "cloudflare_id r" by (simp add: r_def cloudflare_route_ok)
  let ?path = "''v1/'' @ a @ ''/'' @ g @ ''/'' @ r"
  have build: "buildCloudflareBaseUrl a g m = ''https://gateway.ai.cloudflare.com/'' @ ?path"
    using assms(2,3) by (simp add: buildCloudflareBaseUrl_def cloudflare_id_simps r_def)
  have plain: "list_all (\<lambda>c. id_char c \<or> c = CHR ''/'') ?path"
    using assms(2,3) r by (auto simp: cloudflare_id_def list_all_iff) (code_simp)+
  have "js_trimmed (''https://gateway.ai.cloudflare.com/'' @ ?path)"
  proof -
    have "\<not> js_space c" if "id_char c" for c using trimmed_id [of "[c]"] that by (simp add: js_trimmed_def)
    moreover have "\<not> js_space (CHR ''h'')" by code_simp
    ultimately show ?thesis using r by (simp add: js_trimmed_def cloudflare_id_def list_all_iff)
  qed
  moreover have "js_includes (js_lower (url_hostname u)) ''cloudflare.com''" if "u_host u = ''gateway.ai.cloudflare.com''" for u
    unfolding url_hostname_def that by code_simp
  moreover have "new_url web (''https://gateway.ai.cloudflare.com/'' @ ?path) =
    Inr \<lparr>u_protocol = ''https:'', u_host = ''gateway.ai.cloudflare.com'', u_pathname = CHR ''/'' # ?path, u_search = [], u_hash = []\<rparr>"
    using assms(1) plain unfolding cloudflare_law_def by blast
  moreover have "path_parts (CHR ''/'' # ?path) = [''v1'', a, g, r]" using cloudflare_path_parts [OF assms(2,3) r] by simp
  moreover have "js_lower ''v1'' = ''v1''" by code_simp
  ultimately show ?thesis
    unfolding parseCloudflareBaseUrl_def build by (simp only: js_trim_id) (simp add: r_def)
qed

lemma sample_cloudflare: "cloudflare_law sample_web"
proof -
  have plain: "\<not> js_space c \<and> c \<noteq> CHR ''?'' \<and> c \<noteq> CHR ''#''" if "id_char c \<or> c = CHR ''/''" for c
  proof -
    have "\<not> id_char (CHR ''?'')" "\<not> id_char (CHR ''#'')" "\<not> js_space (CHR ''/'')" by code_simp+
    then show ?thesis using trimmed_id [of "[c]"] that by (auto simp: js_trimmed_def)
  qed
  have h: "plain_text ''gateway.ai.cloudflare.com''" "CHR ''/'' \<notin> set ''gateway.ai.cloudflare.com''" by code_simp+
  have "new_url sample_web (''https://gateway.ai.cloudflare.com/'' @ path) =
    Inr \<lparr>u_protocol = ''https:'', u_host = ''gateway.ai.cloudflare.com'', u_pathname = CHR ''/'' # path, u_search = [], u_hash = []\<rparr>"
    if path: "list_all (\<lambda>c. id_char c \<or> c = CHR ''/'') path" for path
  proof -
    have "plain_text (CHR ''/'' # path)" unfolding plain_text_def using path plain by (auto simp: list_all_iff)
    then have "sample_parse (''https:'' @ ''//'' @ ''gateway.ai.cloudflare.com'' @ CHR ''/'' # path) =
      Inr \<lparr>u_protocol = ''https:'', u_host = ''gateway.ai.cloudflare.com'',
        u_pathname = (if CHR ''/'' # path = [] then ''/'' else CHR ''/'' # path), u_search = [], u_hash = []\<rparr>"
      by (intro sample_parse_text) (use h in auto)
    then show ?thesis unfolding sample_web_def web.select_convs append_Cons append_Nil by (simp only: list.distinct if_False)
  qed
  then show ?thesis unfolding cloudflare_law_def by blast
qed

theorem cloudflare_roundtrip_witness:
  "parseCloudflareBaseUrl sample_web (buildCloudflareBaseUrl ''acc-1'' ''main'' []) =
     Some \<lparr>cf_accountId = ''acc-1'', cf_gatewayId = ''main'', cf_route = ''openai''\<rparr>"
proof -
  have "cloudflare_id ''acc-1''" "cloudflare_id ''main''" "cloudflareRouteByApiMode DEFAULT_CUSTOM_API_MODE = ''openai''" by code_simp+
  then show ?thesis using cloudflare_roundtrip [OF sample_cloudflare, of "''acc-1''" "''main''" "[]"] by simp
qed

end
