(* ===== verification/Steps.thy ===== *)
theory Steps
  imports Main
begin

text \<open>
  Programs that answer events: \<open>steps\<close> is the closure of a step function, and the locale
  \<open>step_invariant\<close> is what a component owes for an invariant of all its runs.
\<close>

inductive steps :: "('e \<Rightarrow> 's \<Rightarrow> 's) \<Rightarrow> 's \<Rightarrow> 's \<Rightarrow> bool" for step s where
  no_step: "steps step s s"
| one_more: "steps step s t \<Longrightarrow> steps step s (step ev t)"

definition feed_events :: "('e \<Rightarrow> 's \<Rightarrow> 's) \<Rightarrow> 'e list \<Rightarrow> 's \<Rightarrow> 's" where
  "feed_events step evs s = fold step evs s"

lemma steps_trans: "steps step t u \<Longrightarrow> steps step s t \<Longrightarrow> steps step s u"
  by (induction rule: steps.induct) (auto intro: one_more)

lemma steps_events: "steps step s t \<Longrightarrow> steps step s (feed_events step evs t)"
  unfolding feed_events_def by (induction evs arbitrary: t) (auto intro: one_more)

locale step_invariant =
  fixes step :: "'e \<Rightarrow> 's \<Rightarrow> 's" and start :: 's and inv :: "'s \<Rightarrow> bool"
  assumes begins: "inv start" and keeps: "inv s \<Longrightarrow> inv (step ev s)"
begin

lemma kept: "steps step s t \<Longrightarrow> inv s \<Longrightarrow> inv t"
  by (induction rule: steps.induct) (auto intro: keeps)

lemma reached: "steps step start t \<Longrightarrow> inv t"
  by (rule kept [OF _ begins])

end

end
