(* ===== verification/PairPanel.thy ===== *)
theory PairPanel
  imports PanelChannels Steps
begin

text \<open>
  The pairing panel of the desktop, second part: desktop/src/legacy/pair-backend-controller.ts with the
  operations on the list of channels of desktop/src/legacy/pair-ui.ts and the panel's part of
  desktop/src/store/useDesktopShellStore.ts. The panel asks the backend and goes on with its answers:
  the functions that await are cut there, and what is to be done with an answer is a task. A text that
  is translated is kept as its key. The elements of the page mirror the store and are left out.
\<close>

section \<open>State\<close>

datatype ui_text = Ui_plain string | Ui_key string "(string \<times> string) list" | Ui_refresh_failed string | Ui_qr_failed string

text \<open>The panel's part of the store; the title of the chat is the name that it ends with.\<close>

record pair_panel_state =
  ps_channels :: "jsval list"
  ps_wsStatus :: ui_text
  ps_statusMessage :: ui_text
  ps_statusType :: string
  ps_configuredServerUrl :: string
  ps_configuredDeviceId :: string
  ps_draftServerUrl :: string
  ps_draftDeviceId :: string
  ps_configSaving :: bool
  ps_channelOpen :: bool
  ps_channelToggleDisabled :: bool
  ps_createChannelDisabled :: bool
  ps_createChannelAriaDisabled :: bool
  ps_chatSendDisabled :: bool
  ps_eventLog :: string
  ps_qrDialogOpen :: bool
  ps_qrImageSrc :: string
  ps_chatDialogOpen :: bool
  ps_activeChatChannelId :: string
  ps_chatDialogTitle :: "string option"
  ps_chatDraft :: string

definition DEFAULT_PAIR_SERVER_URL :: string where
  "DEFAULT_PAIR_SERVER_URL = ''https://chnnl.net''"

definition initial_pair_state :: pair_panel_state where
  "initial_pair_state =
     \<lparr>ps_channels = [], ps_wsStatus = Ui_plain ''-'', ps_statusMessage = Ui_plain [], ps_statusType = [],
      ps_configuredServerUrl = [], ps_configuredDeviceId = [], ps_draftServerUrl = DEFAULT_PAIR_SERVER_URL, ps_draftDeviceId = [],
      ps_configSaving = False, ps_channelOpen = False, ps_channelToggleDisabled = False, ps_createChannelDisabled = False,
      ps_createChannelAriaDisabled = True, ps_chatSendDisabled = True, ps_eventLog = [], ps_qrDialogOpen = False,
      ps_qrImageSrc = [], ps_chatDialogOpen = False, ps_activeChatChannelId = [], ps_chatDialogTitle = None, ps_chatDraft = []\<rparr>"

datatype panel_command = Panel_invoke string "(string \<times> jsval) list" | Panel_listen | Panel_render_qr string

text \<open>What is done with an answer of the backend.\<close>

datatype panel_task =
    Pt_state bool
  | Pt_created
  | Pt_approved
  | Pt_removed
  | Pt_chat
  | Pt_saveRead string string
  | Pt_saveWrite jsval
  | Pt_saveReread jsval
  | Pt_saveReload
  | Pt_refreshRead
  | Pt_refreshReload
  | Pt_listen
  | Pt_lan
  | Pt_qr

text \<open>\<open>pairLanIpv4Promise\<close>, with the QR codes that wait for it: their payload and configured address.\<close>

datatype lan_state = Lan_unknown | Lan_asked "(jsval \<times> string) list" | Lan_known string

record panel =
  pn_rawConfig :: jsval
  pn_serverUrl :: string
  pn_deviceId :: string
  pn_channelOpen :: bool
  pn_connection :: string
  pn_saving :: bool
  pn_listening :: bool
  pn_initialized :: bool
  pn_channels :: "jsval list"
  pn_activeChat :: string
  pn_lan :: lan_state
  pn_store :: pair_panel_state
  pn_tasks :: "(nat \<times> panel_task) list"
  pn_next :: nat
  pn_commands :: "(nat \<times> panel_command) list"

text \<open>The label of generated names, the URL class, and whether the page has the panel's elements.\<close>

record panel_host =
  ph_label :: string
  ph_web :: web
  ph_available :: bool
  ph_qrImage :: bool

definition new_panel :: panel where
  "new_panel =
     \<lparr>pn_rawConfig = JNull, pn_serverUrl = [], pn_deviceId = [], pn_channelOpen = False, pn_connection = ''disconnected'',
      pn_saving = False, pn_listening = False, pn_initialized = False, pn_channels = [], pn_activeChat = [],
      pn_lan = Lan_unknown, pn_store = initial_pair_state, pn_tasks = [], pn_next = 0, pn_commands = []\<rparr>"

section \<open>Parts\<close>

definition setPairState :: "(pair_panel_state \<Rightarrow> pair_panel_state) \<Rightarrow> panel \<Rightarrow> panel" where
  "setPairState patch p = p\<lparr>pn_store := patch (pn_store p)\<rparr>"

definition ask_backend :: "panel_command \<Rightarrow> panel_task \<Rightarrow> panel \<Rightarrow> panel" where
  "ask_backend cmd task p =
     p\<lparr>pn_next := pn_next p + 1, pn_commands := pn_commands p @ [(pn_next p, cmd)], pn_tasks := pn_tasks p @ [(pn_next p, task)]\<rparr>"

definition hasPairConfig :: "panel \<Rightarrow> bool" where
  "hasPairConfig p = (pn_serverUrl p \<noteq> [] \<and> pn_deviceId p \<noteq> [])"

definition syncPairConfigDraftState :: "bool \<Rightarrow> panel \<Rightarrow> panel" where
  "syncPairConfigDraftState preserveDraft p =
     setPairState (\<lambda>s. s\<lparr>ps_configuredServerUrl := pn_serverUrl p, ps_configuredDeviceId := pn_deviceId p,
       ps_draftServerUrl :=
         (if preserveDraft then ps_draftServerUrl s
          else if pn_serverUrl p = [] then DEFAULT_PAIR_SERVER_URL else pn_serverUrl p),
       ps_draftDeviceId := (if preserveDraft then ps_draftDeviceId s else pn_deviceId p)\<rparr>) p"

definition setPairMessage :: "ui_text \<Rightarrow> string \<Rightarrow> panel \<Rightarrow> panel" where
  "setPairMessage message type = setPairState (\<lambda>s. s\<lparr>ps_statusMessage := message, ps_statusType := type\<rparr>)"

definition appendPairEvent :: "string \<Rightarrow> string \<Rightarrow> panel \<Rightarrow> panel" where
  "appendPairEvent stamp line p =
     setPairState (\<lambda>s.
       let line' = ''['' @ stamp @ ''] [ui] '' @ js_trim line in
       s\<lparr>ps_eventLog := (if ps_eventLog s = [] then line' else ps_eventLog s @ CHR 0x0A # line')\<rparr>) p"

definition ws_status_key :: "string \<Rightarrow> string" where
  "ws_status_key status =
     (if status = ''connecting'' then ''pair.status.connecting''
      else if status = ''connected'' then ''pair.status.connected''
      else if status = ''reconnecting'' then ''pair.status.reconnecting''
      else ''pair.status.disconnected'')"

definition renderPairWsStatus :: "string \<Rightarrow> panel \<Rightarrow> panel" where
  "renderPairWsStatus status = setPairState (\<lambda>s. s\<lparr>ps_wsStatus := Ui_key (ws_status_key status) []\<rparr>)"

definition clearPairQrPreview :: "panel \<Rightarrow> panel" where
  "clearPairQrPreview = setPairState (\<lambda>s. s\<lparr>ps_qrImageSrc := [], ps_qrDialogOpen := False\<rparr>)"

definition isPairChannelOpen :: "panel \<Rightarrow> bool" where
  "isPairChannelOpen p = (pn_channelOpen p \<and> pn_connection p = ''connected'')"

definition isPairChannelConnecting :: "panel \<Rightarrow> bool" where
  "isPairChannelConnecting p = (pn_connection p = ''connecting'' \<or> pn_connection p = ''reconnecting'')"

definition syncPairStore :: "panel \<Rightarrow> panel" where
  "syncPairStore p = setPairState (\<lambda>s. s\<lparr>ps_channels := mirrored_channels (pn_channels p)\<rparr>) p"

text \<open>\<open>updatePairButtons\<close>; the draft of the page is that of the store.\<close>

definition toggle_disabled :: "panel \<Rightarrow> bool" where
  "toggle_disabled p = (pn_saving p \<or> (\<not> hasPairConfig p \<and> \<not> pn_channelOpen p))"

definition create_unavailable :: "panel \<Rightarrow> bool" where
  "create_unavailable p = (\<not> hasPairConfig p \<or> \<not> pn_channelOpen p \<or> isPairChannelConnecting p)"

definition send_disabled :: "panel \<Rightarrow> bool" where
  "send_disabled p =
     (\<not> hasPairConfig p \<or> \<not> pn_channelOpen p \<or> pn_connection p \<noteq> ''connected'' \<or>
      (case findPairChannelById (pn_channels p) (pn_activeChat p) of
         None \<Rightarrow> True
       | Some c \<Rightarrow> js_get c ''peerState'' \<noteq> JStr ''connected'' \<or> \<not> channelSupportsOpenClawChat c) \<or>
      js_trim (ps_chatDraft (pn_store p)) = [])"

definition updatePairButtons :: "panel \<Rightarrow> panel" where
  "updatePairButtons p =
     setPairState (\<lambda>s. s\<lparr>ps_channelOpen := pn_channelOpen p, ps_channelToggleDisabled := toggle_disabled p,
       ps_createChannelDisabled := create_unavailable p \<or> pn_saving p, ps_createChannelAriaDisabled := create_unavailable p,
       ps_chatSendDisabled := send_disabled p\<rparr>) p"

definition forget_chat :: "panel \<Rightarrow> panel" where
  "forget_chat p =
     setPairState (\<lambda>s. s\<lparr>ps_activeChatChannelId := [], ps_chatDialogOpen := False, ps_chatDialogTitle := None, ps_chatDraft := []\<rparr>)
       (p\<lparr>pn_activeChat := []\<rparr>)"

definition openPairChatDialog :: "panel_host \<Rightarrow> env \<Rightarrow> string \<Rightarrow> panel \<Rightarrow> panel" where
  "openPairChatDialog ph e channelId p =
     (case findPairChannelById (pn_channels p) channelId of
        None \<Rightarrow> p
      | Some c \<Rightarrow>
          updatePairButtons (syncPairStore
            (setPairState (\<lambda>s. s\<lparr>ps_activeChatChannelId := channelId,
                 ps_chatDialogTitle := Some (normalizePairChannelName (ph_label ph) e c), ps_chatDraft := [], ps_chatDialogOpen := True\<rparr>)
              (p\<lparr>pn_activeChat := channelId\<rparr>))))"

definition renamePairChannel :: "panel_host \<Rightarrow> env \<Rightarrow> string \<Rightarrow> string \<Rightarrow> panel \<Rightarrow> panel" where
  "renamePairChannel ph e channelId nextName p =
     (case findPairChannelById (pn_channels p) channelId of
        None \<Rightarrow> p
      | Some c \<Rightarrow>
          let name = (if js_trim nextName = [] then normalizePairChannelName (ph_label ph) e c else js_trim nextName);
              p' = syncPairStore (p\<lparr>pn_channels :=
                change_first (\<lambda>c. js_get c ''channelId'' = JStr channelId) (js_assign ''name'' (JStr name)) (pn_channels p)\<rparr>)
          in if pn_activeChat p = channelId then setPairState (\<lambda>s. s\<lparr>ps_chatDialogTitle := Some name\<rparr>) p' else p')"

definition removePairChannelLocal :: "string \<Rightarrow> panel \<Rightarrow> panel" where
  "removePairChannelLocal channelId p =
     (let normalizedId = js_trim channelId in
      if normalizedId = [] \<or> findPairChannelById (pn_channels p) normalizedId = None then p
      else let p1 = p\<lparr>pn_channels := without_first (\<lambda>c. js_get c ''channelId'' = JStr normalizedId) (pn_channels p)\<rparr>;
               p2 = (if pn_activeChat p1 = normalizedId then forget_chat p1 else p1)
           in syncPairStore p2)"

definition appendPairChannelMessage :: "env \<Rightarrow> string \<Rightarrow> jsval \<Rightarrow> panel \<Rightarrow> panel" where
  "appendPairChannelMessage e channelId message p =
     (case findPairChannelById (pn_channels p) channelId of
        None \<Rightarrow> p
      | Some c \<Rightarrow>
          let m = JObj [(''id'', JStr (''msg_'' @ js_num_to_string (e_now e) @ ''_'' @ take 6 (drop 2 (e_hex e)))),
                (''from'', if js_get message ''from'' \<in> {JStr ''desktop'', JStr ''agent''} then js_get message ''from'' else JStr ''mobile''),
                (''text'', JStr (js_string_or [] (js_get message ''text''))),
                (''ts'', JNum (js_to_number (js_or (js_get message ''ts'') (JNum (e_now e)))))]
          in syncPairStore (p\<lparr>pn_channels := change_first (\<lambda>c. js_get c ''channelId'' = JStr channelId)
               (\<lambda>c. js_assign ''messages'' (JArr (js_array (js_get c ''messages'') @ [m])) c) (pn_channels p)\<rparr>))"

section \<open>Snapshots of the backend\<close>

definition stale_ids :: "string list \<Rightarrow> jsval list \<Rightarrow> string list" where
  "stale_ids seen channels =
     filter (\<lambda>i. i \<noteq> []) (map (\<lambda>c. js_text (js_get c ''channelId''))
       (filter (\<lambda>c. js_text (js_get c ''channelId'') \<notin> set seen) channels))"

definition take_channels :: "panel_host \<Rightarrow> env \<Rightarrow> jsval \<Rightarrow> panel \<Rightarrow> panel" where
  "take_channels ph e snapshot p =
     (let news = snapshot_channels (e_now e) snapshot;
          seen = map (\<lambda>c. js_text (js_get c ''channelId'')) news;
          p1 = p\<lparr>pn_channels := fold (upsertPairChannel (ph_label ph) e) news (pn_channels p)\<rparr>
      in fold removePairChannelLocal (stale_ids seen (pn_channels p1)) p1)"

definition drop_lost_chat :: "panel \<Rightarrow> panel" where
  "drop_lost_chat p =
     (if findPairChannelById (pn_channels p) (pn_activeChat p) = None \<and> pn_activeChat p \<noteq> [] then forget_chat p else p)"

definition take_configuration :: "panel_host \<Rightarrow> bool \<Rightarrow> jsval \<Rightarrow> panel \<Rightarrow> panel" where
  "take_configuration ph preserveDraft snapshot p =
     (let p1 = p\<lparr>pn_serverUrl := normalizePairBaseUrl (ph_web ph) (js_string_or [] (js_get snapshot ''configuredServerUrl'')),
                 pn_deviceId := js_text (js_get snapshot ''configuredDeviceId'')\<rparr>;
          p2 = p1\<lparr>pn_channelOpen := js_truthy (js_get snapshot ''channelOpen'') \<and> hasPairConfig p1,
                  pn_connection := js_string_or ''disconnected'' (js_get snapshot ''connectionState'')\<rparr>;
          message = js_get snapshot ''statusMessage''
      in setPairState (\<lambda>s. s\<lparr>ps_eventLog := js_text (js_get snapshot ''eventLog'')\<rparr>)
           (setPairMessage
             (if js_truthy message then Ui_plain (js_to_string message)
              else if hasPairConfig p2 then Ui_plain [] else Ui_key ''msg.pairMissingConfig'' [])
             (js_string_or [] (js_get snapshot ''statusType''))
             (renderPairWsStatus (pn_connection p2) (syncPairConfigDraftState preserveDraft p2))))"

definition applyBackendSnapshot :: "panel_host \<Rightarrow> env \<Rightarrow> bool \<Rightarrow> jsval \<Rightarrow> panel \<Rightarrow> panel" where
  "applyBackendSnapshot ph e preserveDraft snapshot p =
     updatePairButtons (syncPairStore (drop_lost_chat (take_channels ph e snapshot (take_configuration ph preserveDraft snapshot p))))"

section \<open>Operations\<close>

definition error_message :: "thrown \<Rightarrow> string" where
  "error_message err =
     (case err of
        Thrown_error name message \<Rightarrow> if message = [] then error_text name message else message
      | Thrown_value v \<Rightarrow> js_to_string (js_or (js_get v ''message'') (JStr (js_to_string v))))"

definition message_or :: "jsval \<Rightarrow> string \<Rightarrow> ui_text" where
  "message_or v key = (if js_truthy v then Ui_plain (js_to_string v) else Ui_key key [])"

definition applyPairConfigFromRawConfig :: "panel_host \<Rightarrow> panel \<Rightarrow> panel" where
  "applyPairConfigFromRawConfig ph p =
     (let raw = pn_rawConfig p;
          p' = p\<lparr>pn_serverUrl := normalizePairBaseUrl (ph_web ph) (js_string_or []
                   (js_or (js_or (js_get raw ''channelServerBaseUrl'') (js_get raw ''pairServerBaseUrl'')) (js_get raw ''pairServerUrl''))),
                 pn_deviceId := js_text (js_or (js_get raw ''channelDeviceId'') (js_get raw ''pairDeviceId''))\<rparr>
      in updatePairButtons (syncPairConfigDraftState False p'))"

text \<open>\<open>syncPairConfigState\<close> of the setup controller.\<close>

definition syncPairConfigState :: "panel_host \<Rightarrow> jsval \<Rightarrow> panel \<Rightarrow> panel" where
  "syncPairConfigState ph rawConfig p =
     (let p' = applyPairConfigFromRawConfig ph (p\<lparr>pn_rawConfig := js_or rawConfig JNull\<rparr>) in
      if \<not> ph_available ph then p'
      else updatePairButtons (setPairMessage
             (if hasPairConfig p' then Ui_plain [] else Ui_key ''msg.pairMissingConfig'' []) [] p'))"

text \<open>The dialog of a QR code: its payload is completed, drawn and shown.\<close>

definition open_qr_dialog :: "panel \<Rightarrow> panel" where
  "open_qr_dialog = setPairState (\<lambda>s. s\<lparr>ps_qrDialogOpen := True\<rparr>)"

definition draw_qr :: "panel_host \<Rightarrow> jsval \<Rightarrow> panel \<Rightarrow> panel" where
  "draw_qr ph payload p =
     (if ph_qrImage ph then ask_backend (Panel_render_qr (json_text payload)) Pt_qr p else open_qr_dialog p)"

definition openPairQrDialogForChannel :: "panel_host \<Rightarrow> jsval option \<Rightarrow> panel \<Rightarrow> panel" where
  "openPairQrDialogForChannel ph channel p =
     (case channel of
        None \<Rightarrow> setPairMessage (Ui_key ''msg.pairCreateFailed'' [(''message'', ''channel not found'')]) ''error'' p
      | Some c \<Rightarrow>
          let payload = qr_payload_copy (js_get c ''qrPayload''); wanted = (payload, pn_serverUrl p) in
          case qr_url_at_once (ph_web ph) (pn_serverUrl p) (payload_base_url payload) of
            Some u \<Rightarrow> draw_qr ph (with_base_url u payload) p
          | None \<Rightarrow>
              (case pn_lan p of
                 Lan_known lan \<Rightarrow> draw_qr ph (sanitizePairQrPayload (ph_web ph) (js_get c ''qrPayload'') (pn_serverUrl p) lan) p
               | Lan_asked waiting \<Rightarrow> p\<lparr>pn_lan := Lan_asked (waiting @ [wanted])\<rparr>
               | Lan_unknown \<Rightarrow>
                   ask_backend (Panel_invoke ''get_primary_lan_ipv4'' []) Pt_lan (p\<lparr>pn_lan := Lan_asked [wanted]\<rparr>)))"

definition lan_answered :: "panel_host \<Rightarrow> thrown + jsval \<Rightarrow> panel \<Rightarrow> panel" where
  "lan_answered ph r p =
     (case pn_lan p of
        Lan_asked waiting \<Rightarrow>
          fold (\<lambda>(payload, configured). draw_qr ph
              (with_base_url (qr_url_with_lan (ph_web ph) configured (payload_base_url payload) (lan_address r)) payload))
            waiting (p\<lparr>pn_lan := Lan_known (lan_address r)\<rparr>)
      | _ \<Rightarrow> p)"

definition qr_drawn :: "thrown + jsval \<Rightarrow> panel \<Rightarrow> panel" where
  "qr_drawn r p =
     open_qr_dialog (case r of
        Inr svg \<Rightarrow> setPairState (\<lambda>s. s\<lparr>ps_qrImageSrc := ''data:image/svg+xml;utf8,'' @ encodeURIComponent (js_to_string svg)\<rparr>) p
      | Inl err \<Rightarrow> setPairMessage (Ui_qr_failed (error_message err)) ''error'' (clearPairQrPreview p))"

definition loadBackendState :: "bool \<Rightarrow> panel \<Rightarrow> panel" where
  "loadBackendState preserveDraft = ask_backend (Panel_invoke ''pair_backend_get_state'' []) (Pt_state preserveDraft)"

definition connectPairChannel :: "panel \<Rightarrow> panel" where
  "connectPairChannel p =
     (if \<not> hasPairConfig p then updatePairButtons (setPairMessage (Ui_key ''msg.pairMissingConfig'' []) ''error'' p)
      else ask_backend (Panel_invoke ''pair_backend_toggle_channel'' [(''open'', JBool True)]) (Pt_state True) p)"

definition disconnectPairChannel :: "panel \<Rightarrow> panel" where
  "disconnectPairChannel =
     ask_backend (Panel_invoke ''pair_backend_toggle_channel'' [(''open'', JBool False)]) (Pt_state True)"

definition createPairSession :: "panel \<Rightarrow> panel" where
  "createPairSession p =
     (if \<not> hasPairConfig p then setPairMessage (Ui_key ''msg.pairMissingConfig'' []) ''error'' p
      else if \<not> pn_channelOpen p then setPairMessage (Ui_key ''msg.pairChannelClosedForCreate'' []) ''error'' p
      else ask_backend (Panel_invoke ''pair_backend_create_channel'' []) Pt_created p)"

definition approvePairChannel :: "string \<Rightarrow> panel \<Rightarrow> panel" where
  "approvePairChannel channelId =
     ask_backend (Panel_invoke ''pair_backend_approve_channel'' [(''channelId'', JStr channelId)]) Pt_approved"

definition removePairChannel :: "string \<Rightarrow> panel \<Rightarrow> panel" where
  "removePairChannel channelId p =
     (if js_trim channelId = [] then p
      else ask_backend (Panel_invoke ''pair_backend_delete_channel'' [(''channelId'', JStr (js_trim channelId))]) Pt_removed p)"

definition sendPairChatMessage :: "panel \<Rightarrow> panel" where
  "sendPairChatMessage p =
     (let channelId = js_trim (pn_activeChat p); draft = js_trim (ps_chatDraft (pn_store p)) in
      if channelId = [] then setPairMessage (Ui_key ''msg.pairNeedMobileId'' []) ''error'' p
      else if draft = [] then setPairMessage (Ui_key ''msg.pairNeedChatMessage'' []) ''error'' p
      else ask_backend (Panel_invoke ''pair_backend_send_chat'' [(''channelId'', JStr channelId), (''text'', JStr draft)]) Pt_chat p)"

text \<open>\<open>savePairConfig\<close>, in the order of its awaits, and what its \<open>finally\<close> does.\<close>

definition save_finished :: "panel \<Rightarrow> panel" where
  "save_finished p = updatePairButtons (setPairState (\<lambda>s. s\<lparr>ps_configSaving := False\<rparr>) (p\<lparr>pn_saving := False\<rparr>))"

definition save_payload :: "jsval \<Rightarrow> string \<Rightarrow> string \<Rightarrow> jsval" where
  "save_payload latest nextBaseUrl nextDeviceId =
     JObj [(''provider'', js_or (js_get latest ''provider'') (JStr ''openai'')),
       (''model'', js_or (js_get latest ''model'') (JStr [])),
       (''baseUrl'', js_or (js_get latest ''baseUrl'') (JStr [])),
       (''apiKey'', js_or (js_get latest ''apiKey'') (JStr [])),
       (''customApiMode'', js_or (js_get latest ''customApiMode'') (JStr [])),
       (''customHeadersJson'', JStr (if js_truthy (js_get latest ''customHeaders'') then json_text (js_get latest ''customHeaders'') else [])),
       (''openclawCommand'', js_or (js_get latest ''openclawCommand'') (JStr ''openclaw'')),
       (''skillsDirs'', js_or (js_get latest ''skillsDirs'') (JArr [])),
       (''channelServerBaseUrl'', JStr nextBaseUrl), (''channelDeviceId'', JStr nextDeviceId)]"

definition save_latest :: "jsval \<Rightarrow> string \<Rightarrow> string \<Rightarrow> panel \<Rightarrow> panel" where
  "save_latest latest nextBaseUrl nextDeviceId p =
     (if \<not> js_truthy latest then save_finished (setPairMessage (Ui_key ''msg.saveFailed'' []) ''error'' p)
      else ask_backend (Panel_invoke ''save_config'' [(''payload'', save_payload latest nextBaseUrl nextDeviceId)]) (Pt_saveWrite latest) p)"

definition savePairConfig :: "panel_host \<Rightarrow> panel \<Rightarrow> panel" where
  "savePairConfig ph p =
     (let nextBaseUrl = normalizePairBaseUrl (ph_web ph) (ps_draftServerUrl (pn_store p));
          nextDeviceId = js_trim (ps_draftDeviceId (pn_store p)) in
      if nextBaseUrl = [] then setPairMessage (Ui_key ''msg.pairNeedServerUrl'' []) ''error'' p
      else let p' = updatePairButtons (setPairState (\<lambda>s. s\<lparr>ps_configSaving := True, ps_draftServerUrl := nextBaseUrl\<rparr>) (p\<lparr>pn_saving := True\<rparr>))
           in if js_truthy (pn_rawConfig p') then save_latest (pn_rawConfig p') nextBaseUrl nextDeviceId p'
              else ask_backend (Panel_invoke ''read_raw_config'' []) (Pt_saveRead nextBaseUrl nextDeviceId) p')"

definition refreshPairChannelConfig :: "panel \<Rightarrow> panel" where
  "refreshPairChannelConfig = ask_backend (Panel_invoke ''read_raw_config'' []) Pt_refreshRead"

definition reload_config :: "panel_task \<Rightarrow> panel \<Rightarrow> panel" where
  "reload_config = ask_backend (Panel_invoke ''pair_backend_reload_config'' [])"

definition initPairCenter :: "panel_host \<Rightarrow> panel \<Rightarrow> panel" where
  "initPairCenter ph p =
     (if \<not> ph_available ph \<or> pn_initialized p then p
      else let p1 = updatePairButtons (renderPairWsStatus ''disconnected'' (applyPairConfigFromRawConfig ph (p\<lparr>pn_initialized := True\<rparr>)));
               p2 = (if hasPairConfig p1 then p1 else setPairMessage (Ui_key ''msg.pairMissingConfig'' []) [] p1);
               p3 = (if pn_listening p2 then p2 else ask_backend Panel_listen Pt_listen p2)
           in loadBackendState True p3)"

definition closeChat :: "panel \<Rightarrow> panel" where
  "closeChat p = updatePairButtons (forget_chat p)"

definition setChatDraft :: "string \<Rightarrow> panel \<Rightarrow> panel" where
  "setChatDraft draft p = updatePairButtons (setPairState (\<lambda>s. s\<lparr>ps_chatDraft := draft\<rparr>) p)"

section \<open>Steps\<close>

definition task_failed :: "panel_host \<Rightarrow> panel_task \<Rightarrow> thrown \<Rightarrow> panel \<Rightarrow> panel" where
  "task_failed ph t err p =
     (case t of
        Pt_saveRead u d \<Rightarrow> save_finished (setPairMessage (Ui_plain (error_message err)) ''error'' p)
      | Pt_saveWrite l \<Rightarrow> save_finished (setPairMessage (Ui_plain (error_message err)) ''error'' p)
      | Pt_saveReread l \<Rightarrow> save_finished (setPairMessage (Ui_plain (error_message err)) ''error'' p)
      | Pt_saveReload \<Rightarrow> save_finished (setPairMessage (Ui_plain (error_message err)) ''error'' p)
      | Pt_refreshRead \<Rightarrow> setPairMessage (Ui_refresh_failed (error_message err)) ''error'' p
      | Pt_refreshReload \<Rightarrow> setPairMessage (Ui_refresh_failed (error_message err)) ''error'' p
      | Pt_lan \<Rightarrow> lan_answered ph (Inl err) p
      | Pt_qr \<Rightarrow> qr_drawn (Inl err) p
      | _ \<Rightarrow> p)"

definition task_answered :: "panel_host \<Rightarrow> env \<Rightarrow> panel_task \<Rightarrow> jsval \<Rightarrow> panel \<Rightarrow> panel" where
  "task_answered ph e t v p =
     (case t of
        Pt_state preserveDraft \<Rightarrow> applyBackendSnapshot ph e preserveDraft v p
      | Pt_created \<Rightarrow> setPairMessage (Ui_key ''msg.pairCreated'' []) ''success'' (applyBackendSnapshot ph e True v p)
      | Pt_approved \<Rightarrow> setPairMessage (Ui_key ''msg.pairApproved'' []) ''success'' (applyBackendSnapshot ph e True v p)
      | Pt_removed \<Rightarrow> setPairMessage (Ui_key ''msg.pairDeleted'' []) ''success'' (applyBackendSnapshot ph e True v p)
      | Pt_chat \<Rightarrow>
          updatePairButtons (setPairMessage (Ui_key ''msg.pairChatSent'' []) ''success''
            (applyBackendSnapshot ph e True v (setPairState (\<lambda>s. s\<lparr>ps_chatDraft := []\<rparr>) p)))
      | Pt_saveRead u d \<Rightarrow> save_latest v u d p
      | Pt_saveWrite latest \<Rightarrow>
          if \<not> js_truthy (js_get v ''ok'') then save_finished (setPairMessage (message_or (js_get v ''message'') ''msg.saveFailed'') ''error'' p)
          else ask_backend (Panel_invoke ''read_raw_config'' []) (Pt_saveReread latest) p
      | Pt_saveReread latest \<Rightarrow>
          reload_config Pt_saveReload (applyPairConfigFromRawConfig ph (p\<lparr>pn_rawConfig := js_or v latest\<rparr>))
      | Pt_saveReload \<Rightarrow>
          save_finished (setPairMessage (Ui_key ''msg.pairConfigSaved'' []) ''success'' (applyBackendSnapshot ph e False v p))
      | Pt_refreshRead \<Rightarrow>
          reload_config Pt_refreshReload (applyPairConfigFromRawConfig ph (p\<lparr>pn_rawConfig := js_or v (pn_rawConfig p)\<rparr>))
      | Pt_refreshReload \<Rightarrow>
          setPairMessage (Ui_key ''msg.pairConfigReloaded'' []) ''success'' (applyBackendSnapshot ph e False v p)
      | Pt_listen \<Rightarrow> p\<lparr>pn_listening := True\<rparr>
      | Pt_lan \<Rightarrow> lan_answered ph (Inr v) p
      | Pt_qr \<Rightarrow> qr_drawn (Inr v) p)"

datatype panel_event =
    Pe_init
  | Pe_shutdown
  | Pe_rawConfig jsval
  | Pe_setServerUrl string
  | Pe_setDeviceId string
  | Pe_saveConfig
  | Pe_reloadConfig
  | Pe_toggle
  | Pe_create
  | Pe_showQr string
  | Pe_closeQr
  | Pe_approve string
  | Pe_delete string
  | Pe_rename string string
  | Pe_openChat string
  | Pe_closeChat
  | Pe_setDraft string
  | Pe_sendChat
  | Pe_snapshot jsval
  | Pe_answer nat "thrown + jsval"

definition panel_step :: "panel_host \<Rightarrow> env \<Rightarrow> panel_event \<Rightarrow> panel \<Rightarrow> panel" where
  "panel_step ph e ev p =
     (case ev of
        Pe_init \<Rightarrow> initPairCenter ph p
      | Pe_shutdown \<Rightarrow> p\<lparr>pn_listening := False\<rparr>
      | Pe_rawConfig v \<Rightarrow> syncPairConfigState ph v p
      | Pe_setServerUrl u \<Rightarrow> setPairState (\<lambda>s. s\<lparr>ps_draftServerUrl := u\<rparr>) p
      | Pe_setDeviceId d \<Rightarrow> setPairState (\<lambda>s. s\<lparr>ps_draftDeviceId := d\<rparr>) p
      | Pe_saveConfig \<Rightarrow> savePairConfig ph p
      | Pe_reloadConfig \<Rightarrow> refreshPairChannelConfig p
      | Pe_toggle \<Rightarrow> if pn_channelOpen p then disconnectPairChannel p else connectPairChannel p
      | Pe_create \<Rightarrow> createPairSession p
      | Pe_showQr i \<Rightarrow> openPairQrDialogForChannel ph (findPairChannelById (pn_channels p) i) p
      | Pe_closeQr \<Rightarrow> setPairState (\<lambda>s. s\<lparr>ps_qrDialogOpen := False\<rparr>) p
      | Pe_approve i \<Rightarrow> approvePairChannel i p
      | Pe_delete i \<Rightarrow> removePairChannel i p
      | Pe_rename i name \<Rightarrow> renamePairChannel ph e i name p
      | Pe_openChat i \<Rightarrow> openPairChatDialog ph e i p
      | Pe_closeChat \<Rightarrow> closeChat p
      | Pe_setDraft d \<Rightarrow> setChatDraft d p
      | Pe_sendChat \<Rightarrow> sendPairChatMessage p
      | Pe_snapshot v \<Rightarrow> if pn_listening p then applyBackendSnapshot ph e True v p else p
      | Pe_answer n r \<Rightarrow>
          (case map_of (pn_tasks p) n of
             None \<Rightarrow> p
           | Some t \<Rightarrow>
               let p' = p\<lparr>pn_tasks := AList.delete n (pn_tasks p)\<rparr> in
               (case r of Inl err \<Rightarrow> task_failed ph t err p' | Inr v \<Rightarrow> task_answered ph e t v p')))"

text \<open>The runs of a panel, from any state.\<close>

definition panel_run :: "panel_host \<Rightarrow> panel \<Rightarrow> panel \<Rightarrow> bool" where
  "panel_run ph = steps (\<lambda>(e, ev). panel_step ph e ev)"

section \<open>What the operations leave alone\<close>

text \<open>The part of the panel that snapshots, messages and dialogs do not touch.\<close>

definition panel_quiet :: "panel \<Rightarrow> bool \<times> (nat \<times> panel_task) list \<times> nat \<times> lan_state \<times> jsval \<times> bool" where
  "panel_quiet p = (pn_saving p, pn_tasks p, pn_next p, pn_lan p, pn_rawConfig p, ps_configSaving (pn_store p))"

named_theorems panel_frames

lemma setPairState_simps [simp]:
  "pn_rawConfig (setPairState f p) = pn_rawConfig p" "pn_serverUrl (setPairState f p) = pn_serverUrl p"
  "pn_deviceId (setPairState f p) = pn_deviceId p" "pn_channelOpen (setPairState f p) = pn_channelOpen p"
  "pn_connection (setPairState f p) = pn_connection p" "pn_saving (setPairState f p) = pn_saving p"
  "pn_listening (setPairState f p) = pn_listening p" "pn_channels (setPairState f p) = pn_channels p"
  "pn_activeChat (setPairState f p) = pn_activeChat p" "pn_lan (setPairState f p) = pn_lan p"
  "pn_tasks (setPairState f p) = pn_tasks p" "pn_next (setPairState f p) = pn_next p"
  "pn_commands (setPairState f p) = pn_commands p" "pn_store (setPairState f p) = f (pn_store p)"
  by (simp_all add: setPairState_def)

lemma quiet_set [panel_frames]: "(\<And>s. ps_configSaving (f s) = ps_configSaving s) \<Longrightarrow> panel_quiet (setPairState f p) = panel_quiet p"
  by (simp add: panel_quiet_def)

lemma quiet_fields [panel_frames]:
  "panel_quiet (p\<lparr>pn_channels := cs\<rparr>) = panel_quiet p" "panel_quiet (p\<lparr>pn_activeChat := i\<rparr>) = panel_quiet p"
  "panel_quiet (p\<lparr>pn_serverUrl := u, pn_deviceId := d\<rparr>) = panel_quiet p" "panel_quiet (p\<lparr>pn_channelOpen := b, pn_connection := s\<rparr>) = panel_quiet p"
  "panel_quiet (p\<lparr>pn_listening := l\<rparr>) = panel_quiet p" "panel_quiet (p\<lparr>pn_initialized := b\<rparr>) = panel_quiet p"
  by (simp_all add: panel_quiet_def)

lemma quiet_parts [panel_frames]:
  "panel_quiet (syncPairConfigDraftState b p) = panel_quiet p" "panel_quiet (setPairMessage m ty p) = panel_quiet p" "panel_quiet (renderPairWsStatus st p) = panel_quiet p"
  "panel_quiet (clearPairQrPreview p) = panel_quiet p" "panel_quiet (syncPairStore p) = panel_quiet p" "panel_quiet (updatePairButtons p) = panel_quiet p"
  "panel_quiet (forget_chat p) = panel_quiet p" "panel_quiet (open_qr_dialog p) = panel_quiet p"
  by (simp_all add: syncPairConfigDraftState_def setPairMessage_def renderPairWsStatus_def clearPairQrPreview_def syncPairStore_def
      updatePairButtons_def forget_chat_def open_qr_dialog_def panel_frames)

lemma quiet_chat [panel_frames]:
  "panel_quiet (openPairChatDialog ph e i p) = panel_quiet p" "panel_quiet (renamePairChannel ph e i n p) = panel_quiet p"
  "panel_quiet (removePairChannelLocal i p) = panel_quiet p" "panel_quiet (drop_lost_chat p) = panel_quiet p" "panel_quiet (closeChat p) = panel_quiet p"
  "panel_quiet (setChatDraft d p) = panel_quiet p"
  by (simp_all add: openPairChatDialog_def renamePairChannel_def removePairChannelLocal_def drop_lost_chat_def closeChat_def
      setChatDraft_def Let_def panel_frames split: option.split)

lemma quiet_removals [panel_frames]: "panel_quiet (fold removePairChannelLocal is p) = panel_quiet p"
  by (induction "is" arbitrary: p) (simp_all add: panel_frames)

lemma quiet_snapshot [panel_frames]: "panel_quiet (applyBackendSnapshot ph e b v p) = panel_quiet p"
  by (simp add: applyBackendSnapshot_def take_channels_def take_configuration_def Let_def panel_frames)

lemma quiet_apply [panel_frames]: "panel_quiet (applyPairConfigFromRawConfig ph p) = panel_quiet p"
  by (simp add: applyPairConfigFromRawConfig_def Let_def panel_frames)

section \<open>The channels that are shown\<close>

text \<open>The chat that is open is that of the store.\<close>

definition chat_sync :: "panel \<Rightarrow> bool" where
  "chat_sync p = (ps_activeChatChannelId (pn_store p) = pn_activeChat p \<and> ps_chatDialogOpen (pn_store p) = (pn_activeChat p \<noteq> []))"

lemma chat_sync_set [panel_frames]:
  "(\<And>s. ps_activeChatChannelId (f s) = ps_activeChatChannelId s \<and> ps_chatDialogOpen (f s) = ps_chatDialogOpen s) \<Longrightarrow>
   chat_sync (setPairState f p) = chat_sync p"
  by (simp add: chat_sync_def)

lemma chat_sync_fields [panel_frames]:
  "chat_sync (p\<lparr>pn_channels := cs\<rparr>) = chat_sync p" "chat_sync (p\<lparr>pn_serverUrl := u, pn_deviceId := d\<rparr>) = chat_sync p"
  "chat_sync (p\<lparr>pn_channelOpen := b, pn_connection := s\<rparr>) = chat_sync p" "chat_sync (forget_chat p)"
  by (simp_all add: chat_sync_def forget_chat_def)

lemma chat_sync_parts [panel_frames]:
  "chat_sync (syncPairConfigDraftState b p) = chat_sync p" "chat_sync (setPairMessage m ty p) = chat_sync p"
  "chat_sync (renderPairWsStatus st p) = chat_sync p" "chat_sync (syncPairStore p) = chat_sync p" "chat_sync (updatePairButtons p) = chat_sync p"
  by (simp_all add: syncPairConfigDraftState_def setPairMessage_def renderPairWsStatus_def syncPairStore_def updatePairButtons_def panel_frames)

lemma remove_channel:
  assumes "list_all channel_ok (pn_channels p)" "distinct (map chan_id (pn_channels p))" "js_trimmed i" "i \<noteq> []"
  shows "pn_channels (removePairChannelLocal i p) = filter (\<lambda>c. chan_id c \<noteq> i) (pn_channels p)"
    and "chat_sync p \<Longrightarrow> chat_sync (removePairChannelLocal i p)"
proof -
  have "without_first (\<lambda>c. js_get c ''channelId'' = JStr i) (pn_channels p) = without_first (\<lambda>c. chan_id c = i) (pn_channels p)"
    by (rule without_first_cong) (use assms(1) in \<open>auto simp: list_all_iff chan_id_eq\<close>)
  then have w: "without_first (\<lambda>c. js_get c ''channelId'' = JStr i) (pn_channels p) = filter (\<lambda>c. chan_id c \<noteq> i) (pn_channels p)"
    using assms(2) by (simp add: without_first_filter)
  have n: "filter (\<lambda>c. chan_id c \<noteq> i) (pn_channels p) = pn_channels p" if "findPairChannelById (pn_channels p) i = None"
    using that assms(1) by (auto simp: find_channel_None filter_id_conv)
  show "pn_channels (removePairChannelLocal i p) = filter (\<lambda>c. chan_id c \<noteq> i) (pn_channels p)"
    using assms(3,4) w n by (auto simp: removePairChannelLocal_def Let_def js_trim_id syncPairStore_def forget_chat_def)
  show "chat_sync p \<Longrightarrow> chat_sync (removePairChannelLocal i p)"
    by (simp add: removePairChannelLocal_def Let_def panel_frames)
qed

lemma remove_channels:
  assumes "channels_ok (pn_channels p)" "list_all (\<lambda>i. js_trimmed i \<and> i \<noteq> []) is"
  shows "pn_channels (fold removePairChannelLocal is p) = filter (\<lambda>c. chan_id c \<notin> set is) (pn_channels p) \<and>
    (chat_sync p \<longrightarrow> chat_sync (fold removePairChannelLocal is p))"
  using assms
proof (induction "is" arbitrary: p)
  case (Cons i "is")
  have c: "pn_channels (removePairChannelLocal i p) = filter (\<lambda>c. chan_id c \<noteq> i) (pn_channels p)"
    "chat_sync p \<Longrightarrow> chat_sync (removePairChannelLocal i p)"
    using remove_channel [of p i] Cons.prems by (simp_all add: channels_ok_def)
  have "channels_ok (pn_channels (removePairChannelLocal i p))"
    unfolding c using Cons.prems(1) by (auto simp: channels_ok_def list_all_iff distinct_map inj_on_def)
  then show ?case using Cons.IH [of "removePairChannelLocal i p"] Cons.prems(2) c by (auto intro!: filter_cong)
qed simp

definition shown_ids :: "jsnum \<Rightarrow> jsval \<Rightarrow> string set" where
  "shown_ids now snapshot = chan_id ` set (snapshot_channels now snapshot)"

lemma taken_channels:
  assumes "channels_ok (pn_channels p)"
  shows "pn_channels (take_channels ph e snapshot p) =
      filter (\<lambda>c. chan_id c \<in> shown_ids (e_now e) snapshot)
        (fold (upsertPairChannel (ph_label ph) e) (snapshot_channels (e_now e) snapshot) (pn_channels p))"
    and "chat_sync p \<Longrightarrow> chat_sync (take_channels ph e snapshot p)"
    and "channels_ok (pn_channels (take_channels ph e snapshot p))"
    and "chan_id ` set (pn_channels (take_channels ph e snapshot p)) = shown_ids (e_now e) snapshot"
proof -
  let ?news = "snapshot_channels (e_now e) snapshot"
  let ?up = "fold (upsertPairChannel (ph_label ph) e) ?news (pn_channels p)"
  let ?p1 = "p\<lparr>pn_channels := ?up\<rparr>"
  have up: "channels_ok ?up" "map chan_id ?up = js_set_add_all (map chan_id ?news) (map chan_id (pn_channels p))"
    using upserts_ok [OF assms] snapshot_ok by blast+
  then have ids: "chan_id ` set ?up = shown_ids (e_now e) snapshot \<union> chan_id ` set (pn_channels p)"
    unfolding shown_ids_def by (metis image_set set_js_set_add_all)
  define stale where "stale = stale_ids (map chan_id ?news) ?up"
  have st: "list_all (\<lambda>i. js_trimmed i \<and> i \<noteq> []) stale" "set stale = chan_id ` set ?up - shown_ids (e_now e) snapshot"
    using up(1) by (auto simp: stale_def stale_ids_def list_all_iff shown_ids_def channels_ok_def channel_ok_def simp flip: chan_id_def)
  have t: "take_channels ph e snapshot p = fold removePairChannelLocal stale ?p1"
    by (simp add: take_channels_def Let_def stale_def chan_id_def [abs_def])
  have r: "pn_channels (take_channels ph e snapshot p) = filter (\<lambda>c. chan_id c \<notin> set stale) ?up"
    "chat_sync p \<longrightarrow> chat_sync (take_channels ph e snapshot p)"
    unfolding t using remove_channels [of ?p1 stale] up(1) st(1) by (simp_all add: panel_frames)
  then show c: "pn_channels (take_channels ph e snapshot p) = filter (\<lambda>c. chan_id c \<in> shown_ids (e_now e) snapshot) ?up"
    using st(2) by (auto intro!: filter_cong)
  show "chat_sync p \<Longrightarrow> chat_sync (take_channels ph e snapshot p)" using r(2) by simp
  show "channels_ok (pn_channels (take_channels ph e snapshot p))"
    unfolding c using up(1) by (auto simp: channels_ok_def list_all_iff distinct_map inj_on_def)
  show "chan_id ` set (pn_channels (take_channels ph e snapshot p)) = shown_ids (e_now e) snapshot"
    unfolding c using ids by auto
qed

section \<open>The panel is consistent\<close>

definition shown :: "panel \<Rightarrow> jsval list \<times> string \<times> jsval list \<times> string \<times> bool" where
  "shown p = (pn_channels p, pn_activeChat p, ps_channels (pn_store p), ps_activeChatChannelId (pn_store p), ps_chatDialogOpen (pn_store p))"

definition panel_ok :: "panel \<Rightarrow> bool" where
  "panel_ok p = (channels_ok (pn_channels p) \<and> ps_channels (pn_store p) = mirrored_channels (pn_channels p) \<and> chat_sync p \<and>
     (pn_activeChat p = [] \<or> pn_activeChat p \<in> chan_id ` set (pn_channels p)))"

lemma panel_ok_shown: "shown q = shown p \<Longrightarrow> panel_ok q = panel_ok p"
  by (simp add: shown_def panel_ok_def chat_sync_def)

named_theorems shown_frames

lemma shown_set [shown_frames]:
  "(\<And>s. ps_channels (f s) = ps_channels s \<and> ps_activeChatChannelId (f s) = ps_activeChatChannelId s \<and> ps_chatDialogOpen (f s) = ps_chatDialogOpen s) \<Longrightarrow>
   shown (setPairState f p) = shown p"
  by (simp add: shown_def)

lemma shown_fields [shown_frames]:
  "shown (p\<lparr>pn_serverUrl := u, pn_deviceId := d\<rparr>) = shown p" "shown (p\<lparr>pn_channelOpen := b, pn_connection := s\<rparr>) = shown p"
  "shown (p\<lparr>pn_listening := l\<rparr>) = shown p" "shown (p\<lparr>pn_initialized := b\<rparr>) = shown p" "shown (p\<lparr>pn_rawConfig := v\<rparr>) = shown p"
  "shown (p\<lparr>pn_saving := b\<rparr>) = shown p" "shown (p\<lparr>pn_lan := x\<rparr>) = shown p" "shown (p\<lparr>pn_tasks := ts\<rparr>) = shown p"
  by (simp_all add: shown_def)

lemma shown_parts [shown_frames]:
  "shown (ask_backend cmd t p) = shown p" "shown (syncPairConfigDraftState b p) = shown p" "shown (setPairMessage m ty p) = shown p"
  "shown (renderPairWsStatus st p) = shown p" "shown (clearPairQrPreview p) = shown p" "shown (updatePairButtons p) = shown p"
  "shown (open_qr_dialog p) = shown p"
  by (simp_all add: ask_backend_def syncPairConfigDraftState_def setPairMessage_def renderPairWsStatus_def clearPairQrPreview_def
      updatePairButtons_def open_qr_dialog_def shown_frames) (simp add: shown_def)

lemma shown_config [shown_frames]:
  "shown (applyPairConfigFromRawConfig ph p) = shown p" "shown (save_finished p) = shown p" "shown (save_latest l u d p) = shown p"
  "shown (reload_config t p) = shown p" "shown (setChatDraft d p) = shown p" "shown (loadBackendState b p) = shown p"
  "shown (syncPairConfigState ph v p) = shown p" "shown (initPairCenter ph p) = shown p" "shown (savePairConfig ph p) = shown p"
  by (simp_all add: applyPairConfigFromRawConfig_def save_finished_def save_latest_def reload_config_def setChatDraft_def loadBackendState_def
      syncPairConfigState_def initPairCenter_def savePairConfig_def Let_def shown_frames)

lemma shown_draw [shown_frames]: "shown (draw_qr ph payload p) = shown p"
  by (simp add: draw_qr_def shown_frames)

lemma shown_draws [shown_frames]: "shown (fold (\<lambda>(payload, u). draw_qr ph (f payload u)) ws p) = shown p"
  by (induction ws arbitrary: p) (auto simp: shown_frames)

lemma shown_qr [shown_frames]:
  "shown (openPairQrDialogForChannel ph c p) = shown p" "shown (lan_answered ph r p) = shown p" "shown (qr_drawn r p) = shown p"
  by (simp_all add: openPairQrDialogForChannel_def lan_answered_def qr_drawn_def Let_def shown_frames split: option.split lan_state.split sum.split)

lemma shown_asks [shown_frames]:
  "shown (connectPairChannel p) = shown p" "shown (disconnectPairChannel p) = shown p" "shown (createPairSession p) = shown p"
  "shown (approvePairChannel i p) = shown p" "shown (removePairChannel i p) = shown p" "shown (sendPairChatMessage p) = shown p"
  "shown (refreshPairChannelConfig p) = shown p"
  by (simp_all add: connectPairChannel_def disconnectPairChannel_def createPairSession_def approvePairChannel_def removePairChannel_def
      sendPairChatMessage_def refreshPairChannelConfig_def Let_def shown_frames)

lemma shown_failed [shown_frames]: "shown (task_failed ph t err p) = shown p"
  by (simp add: task_failed_def shown_frames split: panel_task.split)

lemma shown_configuration [shown_frames]: "shown (take_configuration ph b v p) = shown p"
  by (simp add: take_configuration_def Let_def shown_frames)

lemma snapshot_shown:
  assumes "channels_ok (pn_channels p)" "chat_sync p"
  shows "panel_ok (applyBackendSnapshot ph e b v p)"
    and "pn_channels (applyBackendSnapshot ph e b v p) = pn_channels (take_channels ph e v p)"
    and "chan_id ` set (pn_channels (applyBackendSnapshot ph e b v p)) = shown_ids (e_now e) v"
proof -
  let ?c = "take_configuration ph b v p"
  have c: "pn_channels ?c = pn_channels p" "chat_sync ?c"
    using shown_configuration [of ph b v p] assms(2) by (simp_all add: shown_def chat_sync_def)
  have t: "channels_ok (pn_channels (take_channels ph e v ?c))" "chat_sync (take_channels ph e v ?c)"
    "pn_channels (take_channels ph e v ?c) = pn_channels (take_channels ph e v p)"
    "chan_id ` set (pn_channels (take_channels ph e v ?c)) = shown_ids (e_now e) v"
    using taken_channels [of ?c ph e v] taken_channels [of p ph e v] assms c by simp_all
  have d: "pn_channels (drop_lost_chat x) = pn_channels x" "chat_sync x \<Longrightarrow> chat_sync (drop_lost_chat x)"
    "list_all channel_ok (pn_channels x) \<Longrightarrow>
       pn_activeChat (drop_lost_chat x) = [] \<or> pn_activeChat (drop_lost_chat x) \<in> chan_id ` set (pn_channels x)" for x
    by (simp_all add: drop_lost_chat_def forget_chat_def find_channel_None panel_frames) (simp add: chat_sync_def)
  have a: "applyBackendSnapshot ph e b v p = updatePairButtons (syncPairStore (drop_lost_chat (take_channels ph e v ?c)))"
    by (simp add: applyBackendSnapshot_def)
  have s: "pn_channels (syncPairStore x) = pn_channels x" "ps_channels (pn_store (syncPairStore x)) = mirrored_channels (pn_channels x)"
    "pn_activeChat (syncPairStore x) = pn_activeChat x" for x by (simp_all add: syncPairStore_def)
  show "pn_channels (applyBackendSnapshot ph e b v p) = pn_channels (take_channels ph e v p)"
    unfolding a using t(3) by (simp add: updatePairButtons_def s d)
  then show "chan_id ` set (pn_channels (applyBackendSnapshot ph e b v p)) = shown_ids (e_now e) v" using t(3,4) by simp
  have "panel_ok (syncPairStore (drop_lost_chat (take_channels ph e v ?c)))"
    using t(1,2) d(2) d(3) [of "take_channels ph e v ?c"] by (auto simp: panel_ok_def s d(1) panel_frames channels_ok_def)
  then show "panel_ok (applyBackendSnapshot ph e b v p)"
    unfolding a by (subst panel_ok_shown [OF shown_parts(6)])
qed

lemma snapshot_panel_ok: "panel_ok p \<Longrightarrow> panel_ok (applyBackendSnapshot ph e b v p)"
  by (rule snapshot_shown(1)) (simp_all add: panel_ok_def)

lemma panel_ok_chat: "panel_ok p \<Longrightarrow> panel_ok (openPairChatDialog ph e i p)"
proof (cases "findPairChannelById (pn_channels p) i")
  case (Some c)
  assume ok: "panel_ok p"
  then have cs: "list_all channel_ok (pn_channels p)" by (simp add: panel_ok_def channels_ok_def)
  have i: "i \<in> chan_id ` set (pn_channels p)" using find_channel_Some [OF cs Some] by blast
  then have "i \<noteq> []" using cs by (auto simp: list_all_iff channel_ok_def)
  then show ?thesis using ok i Some
    by (simp add: openPairChatDialog_def updatePairButtons_def panel_ok_def syncPairStore_def chat_sync_def)
qed (simp add: openPairChatDialog_def)

lemma named_ok: "channel_ok c \<Longrightarrow> channel_ok (js_assign ''name'' v c) \<and> chan_id (js_assign ''name'' v c) = chan_id c"
  by (simp add: channel_ok_def chan_id_def)

lemma panel_ok_rename: "panel_ok p \<Longrightarrow> panel_ok (renamePairChannel ph e i n p)"
proof (cases "findPairChannelById (pn_channels p) i")
  case (Some c)
  assume ok: "panel_ok p"
  let ?p = "\<lambda>c. js_get c ''channelId'' = JStr i"
  have cs: "list_all channel_ok (pn_channels p)" using ok by (simp add: panel_ok_def channels_ok_def)
  have ids: "map chan_id (change_first ?p (js_assign ''name'' v) (pn_channels p)) = map chan_id (pn_channels p)" for v
    by (rule change_first_ids) (use cs named_ok in \<open>auto simp: list_all_iff\<close>)
  have all: "list_all channel_ok (change_first ?p (js_assign ''name'' v) (pn_channels p))" for v
    by (rule change_first_all [OF cs]) (use named_ok in blast)
  have chk: "channels_ok (change_first ?p (js_assign ''name'' v) (pn_channels p))"
    "chan_id ` set (change_first ?p (js_assign ''name'' v) (pn_channels p)) = chan_id ` set (pn_channels p)" for v
    using ok ids [of v] all [of v] by (simp_all add: channels_ok_def panel_ok_def flip: set_map)
  have sync: "panel_ok (syncPairStore (p\<lparr>pn_channels := change_first ?p (js_assign ''name'' v) (pn_channels p)\<rparr>))" for v
    using ok chk [of v] by (simp add: panel_ok_def syncPairStore_def chat_sync_def)
  show ?thesis
    using Some sync by (simp add: renamePairChannel_def Let_def panel_ok_shown [OF shown_set])
qed (simp add: renamePairChannel_def)

lemma panel_ok_forget: "panel_ok p \<Longrightarrow> panel_ok (forget_chat p)"
  by (simp add: panel_ok_def forget_chat_def chat_sync_def)

lemma panel_ok_answered: "panel_ok p \<Longrightarrow> panel_ok (task_answered ph e t v p)"
  by (cases t) (simp_all add: task_answered_def snapshot_panel_ok panel_ok_shown [OF shown_parts(3)] panel_ok_shown [OF shown_parts(6)]
      panel_ok_shown [OF shown_set] panel_ok_shown [OF shown_parts(1)] panel_ok_shown [OF shown_fields(3)] shown_frames
      panel_ok_shown [OF shown_config(1)] panel_ok_shown [OF shown_config(2)] panel_ok_shown [OF shown_config(3)] panel_ok_shown [OF shown_config(4)]
      panel_ok_shown [OF shown_fields(5)] panel_ok_shown [OF shown_qr(2)] panel_ok_shown [OF shown_qr(3)])

lemma panel_ok_step: "panel_ok p \<Longrightarrow> panel_ok (panel_step ph e ev p)"
proof -
  assume ok: "panel_ok p"
  show ?thesis
  proof (cases ev)
    case Pe_closeChat
    then show ?thesis using ok by (simp add: panel_step_def closeChat_def panel_ok_shown [OF shown_parts(6)] panel_ok_forget)
  next
    case (Pe_answer n r)
    then show ?thesis
      using ok panel_ok_answered [of "p\<lparr>pn_tasks := AList.delete n (pn_tasks p)\<rparr>"] panel_ok_shown [OF shown_fields(8)]
      by (auto simp: panel_step_def Let_def panel_ok_shown [OF shown_failed] split: option.split sum.split)
  qed (use ok in \<open>simp_all add: panel_step_def snapshot_panel_ok panel_ok_chat panel_ok_rename panel_ok_shown [OF shown_config(7)]
      panel_ok_shown [OF shown_config(5)] panel_ok_shown [OF shown_config(8)] panel_ok_shown [OF shown_config(9)]
      panel_ok_shown [OF shown_fields(3)] panel_ok_shown [OF shown_set] panel_ok_shown [OF shown_qr(1)] panel_ok_shown [OF shown_asks(1)]
      panel_ok_shown [OF shown_asks(2)] panel_ok_shown [OF shown_asks(3)] panel_ok_shown [OF shown_asks(4)] panel_ok_shown [OF shown_asks(5)]
      panel_ok_shown [OF shown_asks(6)] panel_ok_shown [OF shown_asks(7)]\<close>)
qed

lemma panel_ok_new: "panel_ok new_panel"
  by (simp add: panel_ok_def new_panel_def initial_pair_state_def channels_ok_def mirrored_channels_def chat_sync_def)

interpretation panel: step_invariant "\<lambda>(e, ev). panel_step ph e ev" new_panel panel_ok for ph
  by unfold_locales (auto simp: panel_ok_new panel_ok_step)

lemma panel_ok_run: "panel_run ph p q \<Longrightarrow> panel_ok p \<Longrightarrow> panel_ok q"
  unfolding panel_run_def by (rule panel.kept)

section \<open>The buttons\<close>

definition buttons_ok :: "panel \<Rightarrow> bool" where
  "buttons_ok p =
     (ps_channelOpen (pn_store p) = pn_channelOpen p \<and> ps_channelToggleDisabled (pn_store p) = toggle_disabled p \<and>
      ps_createChannelDisabled (pn_store p) = (create_unavailable p \<or> pn_saving p) \<and>
      ps_createChannelAriaDisabled (pn_store p) = create_unavailable p \<and> ps_chatSendDisabled (pn_store p) = send_disabled p)"

text \<open>What the buttons depend on, and what they show.\<close>

definition controls where
  "controls p = (pn_serverUrl p, pn_deviceId p, pn_channelOpen p, pn_connection p, pn_saving p, pn_activeChat p, ps_chatDraft (pn_store p),
     map (\<lambda>c. (js_get c ''channelId'', js_get c ''peerState'', channelSupportsOpenClawChat c)) (pn_channels p),
     (ps_channelOpen (pn_store p), ps_channelToggleDisabled (pn_store p), ps_createChannelDisabled (pn_store p),
      ps_createChannelAriaDisabled (pn_store p), ps_chatSendDisabled (pn_store p)))"

lemma send_disabled_summary: "send_disabled p =
     (\<not> hasPairConfig p \<or> \<not> pn_channelOpen p \<or> pn_connection p \<noteq> ''connected'' \<or>
      (case find (\<lambda>(i, s, b). i = JStr (pn_activeChat p)) (map (\<lambda>c. (js_get c ''channelId'', js_get c ''peerState'', channelSupportsOpenClawChat c)) (pn_channels p)) of
         None \<Rightarrow> True
       | Some (i, s, b) \<Rightarrow> s \<noteq> JStr ''connected'' \<or> \<not> b) \<or>
      js_trim (ps_chatDraft (pn_store p)) = [])"
proof -
  have "find (\<lambda>(i, s, b). i = x) (map (\<lambda>c. (js_get c ''channelId'', js_get c ''peerState'', channelSupportsOpenClawChat c)) cs) =
      map_option (\<lambda>c. (js_get c ''channelId'', js_get c ''peerState'', channelSupportsOpenClawChat c)) (find (\<lambda>c. js_get c ''channelId'' = x) cs)" for x cs
    by (induction cs) auto
  then show ?thesis by (auto simp: send_disabled_def findPairChannelById_def split: option.split)
qed

lemma buttons_controls: "controls q = controls p \<Longrightarrow> buttons_ok q = buttons_ok p"
  unfolding buttons_ok_def send_disabled_summary toggle_disabled_def create_unavailable_def hasPairConfig_def isPairChannelConnecting_def controls_def
  by (simp only: prod.inject)

lemma buttons_updated [simp]: "buttons_ok (updatePairButtons p)"
proof -
  let ?q = "updatePairButtons p"
  have f: "pn_serverUrl ?q = pn_serverUrl p" "pn_deviceId ?q = pn_deviceId p" "pn_channelOpen ?q = pn_channelOpen p" "pn_connection ?q = pn_connection p"
    "pn_saving ?q = pn_saving p" "pn_activeChat ?q = pn_activeChat p" "pn_channels ?q = pn_channels p" "ps_chatDraft (pn_store ?q) = ps_chatDraft (pn_store p)"
    by (simp_all add: updatePairButtons_def)
  have same: "toggle_disabled ?q = toggle_disabled p" "create_unavailable ?q = create_unavailable p" "send_disabled ?q = send_disabled p"
    by (simp_all only: toggle_disabled_def create_unavailable_def send_disabled_def hasPairConfig_def isPairChannelConnecting_def f)
  show ?thesis unfolding buttons_ok_def same f by (simp add: updatePairButtons_def)
qed

named_theorems button_frames

lemma buttons_set [button_frames]:
  assumes "\<And>s. ps_chatDraft (f s) = ps_chatDraft s \<and> ps_channelOpen (f s) = ps_channelOpen s \<and> ps_channelToggleDisabled (f s) = ps_channelToggleDisabled s \<and>
    ps_createChannelDisabled (f s) = ps_createChannelDisabled s \<and> ps_createChannelAriaDisabled (f s) = ps_createChannelAriaDisabled s \<and>
    ps_chatSendDisabled (f s) = ps_chatSendDisabled s"
  shows "buttons_ok (setPairState f p) = buttons_ok p"
  by (rule buttons_controls) (simp add: controls_def assms)

lemma buttons_fields [button_frames]:
  "buttons_ok (p\<lparr>pn_listening := l\<rparr>) = buttons_ok p" "buttons_ok (p\<lparr>pn_initialized := b\<rparr>) = buttons_ok p"
  "buttons_ok (p\<lparr>pn_rawConfig := v\<rparr>) = buttons_ok p" "buttons_ok (p\<lparr>pn_lan := x\<rparr>) = buttons_ok p" "buttons_ok (p\<lparr>pn_tasks := ts\<rparr>) = buttons_ok p"
  by (rule buttons_controls, simp add: controls_def)+

lemma buttons_parts [button_frames]:
  "buttons_ok (ask_backend cmd t p) = buttons_ok p" "buttons_ok (setPairMessage m ty p) = buttons_ok p"
  "buttons_ok (renderPairWsStatus st p) = buttons_ok p" "buttons_ok (clearPairQrPreview p) = buttons_ok p"
  "buttons_ok (syncPairStore p) = buttons_ok p" "buttons_ok (open_qr_dialog p) = buttons_ok p"
  by (simp_all add: setPairMessage_def renderPairWsStatus_def clearPairQrPreview_def syncPairStore_def open_qr_dialog_def button_frames)
    (rule buttons_controls, simp add: ask_backend_def controls_def)

lemma buttons_set_up [button_frames]:
  "buttons_ok (applyPairConfigFromRawConfig ph p)" "buttons_ok (save_finished p)" "buttons_ok (applyBackendSnapshot ph e b v p)"
  "buttons_ok (setChatDraft d p)" "buttons_ok (closeChat p)"
  by (simp_all add: applyPairConfigFromRawConfig_def save_finished_def applyBackendSnapshot_def setChatDraft_def closeChat_def Let_def)

lemma buttons_config [button_frames]:
  "buttons_ok p \<Longrightarrow> buttons_ok (save_latest l u d p)" "buttons_ok (reload_config t p) = buttons_ok p" "buttons_ok (loadBackendState b p) = buttons_ok p"
  by (simp_all add: save_latest_def reload_config_def loadBackendState_def button_frames)

lemma buttons_set_config [button_frames]: "buttons_ok (syncPairConfigState ph v p)"
  by (simp only: syncPairConfigState_def Let_def if_distrib [of buttons_ok] button_frames buttons_updated if_cancel)

lemma buttons_init [button_frames]: "buttons_ok p \<Longrightarrow> buttons_ok (initPairCenter ph p)"
  by (simp only: initPairCenter_def Let_def if_distrib [of buttons_ok] button_frames buttons_updated if_cancel simp_thms)

lemma buttons_save [button_frames]: "buttons_ok p \<Longrightarrow> buttons_ok (savePairConfig ph p)"
  by (simp only: savePairConfig_def Let_def if_distrib [of buttons_ok] button_frames buttons_updated if_cancel simp_thms)

lemma buttons_draw [button_frames]: "buttons_ok (draw_qr ph payload p) = buttons_ok p"
  by (simp add: draw_qr_def button_frames)

lemma buttons_draws [button_frames]: "buttons_ok (fold (\<lambda>(payload, u). draw_qr ph (f payload u)) ws p) = buttons_ok p"
proof (induction ws arbitrary: p)
  case (Cons w ws)
  then show ?case by (cases w) (simp add: buttons_draw)
qed simp

lemma buttons_qr [button_frames]:
  "buttons_ok (openPairQrDialogForChannel ph c p) = buttons_ok p" "buttons_ok (lan_answered ph r p) = buttons_ok p" "buttons_ok (qr_drawn r p) = buttons_ok p"
  by (simp_all add: openPairQrDialogForChannel_def lan_answered_def qr_drawn_def Let_def button_frames split: option.split lan_state.split sum.split)

lemma buttons_asks [button_frames]:
  "buttons_ok p \<Longrightarrow> buttons_ok (connectPairChannel p)" "buttons_ok (disconnectPairChannel p) = buttons_ok p" "buttons_ok (createPairSession p) = buttons_ok p"
  "buttons_ok (approvePairChannel i p) = buttons_ok p" "buttons_ok (removePairChannel i p) = buttons_ok p" "buttons_ok (sendPairChatMessage p) = buttons_ok p"
  "buttons_ok (refreshPairChannelConfig p) = buttons_ok p"
  by (simp_all add: connectPairChannel_def disconnectPairChannel_def createPairSession_def approvePairChannel_def removePairChannel_def
      sendPairChatMessage_def refreshPairChannelConfig_def Let_def button_frames)

lemma buttons_failed [button_frames]: "buttons_ok p \<Longrightarrow> buttons_ok (task_failed ph t err p)"
  by (simp add: task_failed_def button_frames split: panel_task.split)

lemma buttons_answered [button_frames]: "buttons_ok p \<Longrightarrow> buttons_ok (task_answered ph e t v p)"
  by (simp add: task_answered_def button_frames split: panel_task.split)

lemma buttons_rename [button_frames]: "panel_ok p \<Longrightarrow> buttons_ok p \<Longrightarrow> buttons_ok (renamePairChannel ph e i n p)"
proof (cases "findPairChannelById (pn_channels p) i")
  case (Some c)
  assume ok: "panel_ok p" "buttons_ok p"
  have "map (\<lambda>c. (js_get c ''channelId'', js_get c ''peerState'', channelSupportsOpenClawChat c))
      (change_first (\<lambda>c. js_get c ''channelId'' = JStr i) (js_assign ''name'' v) (pn_channels p)) =
    map (\<lambda>c. (js_get c ''channelId'', js_get c ''peerState'', channelSupportsOpenClawChat c)) (pn_channels p)" for v
    by (rule change_first_ids)
      (use ok(1) in \<open>auto simp: panel_ok_def channels_ok_def list_all_iff channel_ok_def channelSupportsOpenClawChat_def\<close>)
  then have "buttons_ok (p\<lparr>pn_channels := change_first (\<lambda>c. js_get c ''channelId'' = JStr i) (js_assign ''name'' v) (pn_channels p)\<rparr>)" for v
    using ok(2) by (subst buttons_controls [of _ p]) (simp_all add: controls_def)
  then show ?thesis using Some by (simp add: renamePairChannel_def Let_def button_frames)
qed (simp add: renamePairChannel_def)

lemma buttons_step: "panel_ok p \<Longrightarrow> buttons_ok p \<Longrightarrow> buttons_ok (panel_step ph e ev p)"
  by (cases ev) (auto simp: panel_step_def Let_def openPairChatDialog_def button_frames split: option.split sum.split)

lemma buttons_run: "panel_run ph p q \<Longrightarrow> panel_ok p \<Longrightarrow> buttons_ok p \<Longrightarrow> buttons_ok q"
  unfolding panel_run_def by (induction rule: steps.induct) (auto intro: buttons_step panel.kept)

text \<open>The channel of the open chat, by its id.\<close>

lemma send_enabled:
  assumes "panel_ok p"
  shows "\<not> send_disabled p \<longleftrightarrow> pn_serverUrl p \<noteq> [] \<and> pn_deviceId p \<noteq> [] \<and> pn_channelOpen p \<and> pn_connection p = ''connected'' \<and>
    js_trim (ps_chatDraft (pn_store p)) \<noteq> [] \<and>
    (\<exists>c \<in> set (pn_channels p). chan_id c = pn_activeChat p \<and> js_get c ''peerState'' = JStr ''connected'' \<and> channelSupportsOpenClawChat c)"
proof -
  have cs: "list_all channel_ok (pn_channels p)" "distinct (map chan_id (pn_channels p))"
    using assms by (simp_all add: panel_ok_def channels_ok_def)
  have one: "x = y" if "x \<in> set (pn_channels p)" "y \<in> set (pn_channels p)" "chan_id x = chan_id y" for x y
    using cs(2) that unfolding distinct_map inj_on_def by blast
  show ?thesis
  proof (cases "findPairChannelById (pn_channels p) (pn_activeChat p)")
    case None
    then have "\<forall>c \<in> set (pn_channels p). chan_id c \<noteq> pn_activeChat p" using find_channel_None [OF cs(1)] by (metis imageI)
    then show ?thesis using None by (auto simp: send_disabled_def)
  next
    case (Some c)
    note c = find_channel_Some [OF cs(1) Some]
    have "c' = c" if "c' \<in> set (pn_channels p)" "chan_id c' = pn_activeChat p" for c'
      using one [OF that(1) c(1)] that(2) c(2) by simp
    then have "(\<exists>c' \<in> set (pn_channels p). chan_id c' = pn_activeChat p \<and> P c') = P c" for P
      using c by blast
    then show ?thesis using Some by (auto simp: send_disabled_def hasPairConfig_def)
  qed
qed

section \<open>Saving\<close>

text \<open>How many answers a task of \<open>savePairConfig\<close> still waits for, after the next one.\<close>

definition save_rank :: "panel_task \<Rightarrow> nat option" where
  "save_rank t =
     (case t of Pt_saveRead u d \<Rightarrow> Some 3 | Pt_saveWrite l \<Rightarrow> Some 2 | Pt_saveReread l \<Rightarrow> Some 1 | Pt_saveReload \<Rightarrow> Some 0 | _ \<Rightarrow> None)"

definition panel_tasks_ok :: "panel \<Rightarrow> bool" where
  "panel_tasks_ok p = (list_all (\<lambda>(k, t). k < pn_next p) (pn_tasks p) \<and> ps_configSaving (pn_store p) = pn_saving p)"

definition saving_ok :: "panel \<Rightarrow> bool" where
  "saving_ok p = (panel_tasks_ok p \<and> (pn_saving p \<longrightarrow> (\<exists>n t. map_of (pn_tasks p) n = Some t \<and> save_rank t \<noteq> None)))"

named_theorems saving_frames

lemma panel_tasks_ok_quiet: "panel_quiet q = panel_quiet p \<Longrightarrow> panel_tasks_ok q = panel_tasks_ok p"
  by (simp add: panel_quiet_def panel_tasks_ok_def)

lemma saving_ok_quiet: "panel_quiet q = panel_quiet p \<Longrightarrow> saving_ok q = saving_ok p"
  using panel_tasks_ok_quiet [of q p] by (simp add: saving_ok_def panel_quiet_def)

lemma saving_fields [saving_frames]:
  "saving_ok (p\<lparr>pn_lan := x\<rparr>) = saving_ok p" "saving_ok (p\<lparr>pn_rawConfig := v\<rparr>) = saving_ok p"
  "panel_tasks_ok (p\<lparr>pn_lan := x\<rparr>) = panel_tasks_ok p" "panel_tasks_ok (p\<lparr>pn_rawConfig := v\<rparr>) = panel_tasks_ok p"
  by (simp_all add: saving_ok_def panel_tasks_ok_def)

lemma saving_parts [saving_frames]:
  "saving_ok (setPairMessage m ty p) = saving_ok p" "panel_tasks_ok (setPairMessage m ty p) = panel_tasks_ok p"
  "saving_ok (updatePairButtons p) = saving_ok p" "panel_tasks_ok (updatePairButtons p) = panel_tasks_ok p"
  "saving_ok (applyBackendSnapshot ph e b v p) = saving_ok p" "panel_tasks_ok (applyBackendSnapshot ph e b v p) = panel_tasks_ok p"
  "saving_ok (applyPairConfigFromRawConfig ph p) = saving_ok p" "panel_tasks_ok (applyPairConfigFromRawConfig ph p) = panel_tasks_ok p"
  "saving_ok (open_qr_dialog p) = saving_ok p" "saving_ok (clearPairQrPreview p) = saving_ok p" "saving_ok (renderPairWsStatus st p) = saving_ok p"
  "saving_ok (p\<lparr>pn_initialized := b\<rparr>) = saving_ok p" "saving_ok (p\<lparr>pn_listening := b\<rparr>) = saving_ok p"
  "saving_ok (openPairChatDialog ph e i p) = saving_ok p" "saving_ok (renamePairChannel ph e i n p) = saving_ok p"
  "saving_ok (closeChat p) = saving_ok p" "saving_ok (setChatDraft d p) = saving_ok p"
  by (rule saving_ok_quiet panel_tasks_ok_quiet, simp only: panel_frames)+

lemma saving_set [saving_frames]: "(\<And>s. ps_configSaving (f s) = ps_configSaving s) \<Longrightarrow> saving_ok (setPairState f p) = saving_ok p"
  by (rule saving_ok_quiet) (rule quiet_set)

lemma map_of_fresh: "list_all (\<lambda>(k, t). k < n) ts \<Longrightarrow> map_of ts (n::nat) = None"
  by (induction ts) auto

lemma keys_grow: "list_all (\<lambda>(k, t). k < n) ts \<Longrightarrow> list_all (\<lambda>(k, t). k < Suc n) ts"
  by (auto simp: list_all_iff less_Suc_eq)

lemma ask_tasks [saving_frames]: "panel_tasks_ok p \<Longrightarrow> panel_tasks_ok (ask_backend cmd t p)"
  by (simp add: panel_tasks_ok_def ask_backend_def keys_grow)

lemma ask_saving [saving_frames]: "saving_ok p \<Longrightarrow> saving_ok (ask_backend cmd t p)"
proof -
  assume ok: "saving_ok p"
  have "\<exists>n u. map_of (pn_tasks (ask_backend cmd t p)) n = Some u \<and> save_rank u \<noteq> None" if "pn_saving p"
  proof -
    from that ok obtain n u where n: "map_of (pn_tasks p) n = Some u" "save_rank u \<noteq> None" unfolding saving_ok_def by blast
    then have "n \<noteq> pn_next p" using ok map_of_fresh [of "pn_next p" "pn_tasks p"] by (auto simp: saving_ok_def panel_tasks_ok_def)
    then have "map_of (pn_tasks (ask_backend cmd t p)) n = Some u" using n by (simp add: ask_backend_def map_add_def)
    with n show ?thesis by blast
  qed
  moreover have "pn_saving (ask_backend cmd t p) = pn_saving p" by (simp add: ask_backend_def)
  ultimately show ?thesis using ok ask_tasks by (simp add: saving_ok_def)
qed

lemma ask_next: "panel_tasks_ok p \<Longrightarrow> map_of (pn_tasks (ask_backend cmd t p)) (pn_next p) = Some t"
  by (simp add: ask_backend_def map_add_def panel_tasks_ok_def map_of_fresh)

lemma asked_saving: "panel_tasks_ok p \<Longrightarrow> save_rank t \<noteq> None \<Longrightarrow> saving_ok (ask_backend cmd t p)"
  unfolding saving_ok_def using ask_tasks [of p cmd t] ask_next [of p cmd t] by blast

lemma finished_saving: "panel_tasks_ok p \<Longrightarrow> saving_ok (save_finished p)"
  unfolding save_finished_def by (simp only: saving_parts) (simp add: saving_ok_def panel_tasks_ok_def)

lemma latest_saving: "panel_tasks_ok p \<Longrightarrow> saving_ok (save_latest l u d p)"
  by (simp add: save_latest_def finished_saving asked_saving saving_frames save_rank_def)

lemma saving_draw [saving_frames]: "saving_ok p \<Longrightarrow> saving_ok (draw_qr ph payload p)"
  by (simp add: draw_qr_def saving_frames)

lemma saving_draws [saving_frames]: "saving_ok p \<Longrightarrow> saving_ok (fold (\<lambda>(payload, u). draw_qr ph (f payload u)) ws p)"
  by (induction ws arbitrary: p) (auto simp: saving_draw)

lemma saving_ops [saving_frames]:
  assumes "saving_ok p"
  shows "saving_ok (loadBackendState b p)" "saving_ok (reload_config t p)" "saving_ok (connectPairChannel p)" "saving_ok (disconnectPairChannel p)"
    "saving_ok (createPairSession p)" "saving_ok (approvePairChannel i p)" "saving_ok (removePairChannel i p)" "saving_ok (sendPairChatMessage p)"
    "saving_ok (refreshPairChannelConfig p)" "saving_ok (openPairQrDialogForChannel ph c p)" "saving_ok (lan_answered ph r p)" "saving_ok (qr_drawn r p)"
    "saving_ok (syncPairConfigState ph v p)"
  using assms
  by (simp_all add: loadBackendState_def reload_config_def connectPairChannel_def disconnectPairChannel_def createPairSession_def
      approvePairChannel_def removePairChannel_def sendPairChatMessage_def refreshPairChannelConfig_def openPairQrDialogForChannel_def
      lan_answered_def qr_drawn_def syncPairConfigState_def Let_def saving_frames split: option.split lan_state.split sum.split)

lemma saving_init [saving_frames]: "saving_ok p \<Longrightarrow> saving_ok (initPairCenter ph p)"
  by (simp only: initPairCenter_def Let_def if_distrib [of saving_ok] saving_frames if_cancel simp_thms)

lemma saving_save: "saving_ok p \<Longrightarrow> saving_ok (savePairConfig ph p)"
proof -
  assume ok: "saving_ok p"
  let ?f = "\<lambda>u. updatePairButtons (setPairState (\<lambda>s. s\<lparr>ps_configSaving := True, ps_draftServerUrl := u\<rparr>) (p\<lparr>pn_saving := True\<rparr>))"
  have t: "panel_tasks_ok (?f u)" for u
    unfolding saving_parts using ok by (simp add: saving_ok_def panel_tasks_ok_def)
  show ?thesis using ok t
    by (simp add: savePairConfig_def Let_def latest_saving asked_saving saving_frames save_rank_def)
qed

lemma answered_saving: "panel_tasks_ok p \<Longrightarrow> save_rank t = Some r \<Longrightarrow> saving_ok (task_answered ph e t v p)"
  by (cases t) (simp_all add: task_answered_def save_rank_def latest_saving finished_saving asked_saving saving_frames reload_config_def)

lemma failed_saving: "panel_tasks_ok p \<Longrightarrow> save_rank t = Some r \<Longrightarrow> saving_ok (task_failed ph t err p)"
  by (cases t) (simp_all add: task_failed_def save_rank_def finished_saving saving_frames)

lemma other_answered: "saving_ok p \<Longrightarrow> save_rank t = None \<Longrightarrow> saving_ok (task_answered ph e t v p)"
  by (cases t) (simp_all add: task_answered_def save_rank_def saving_frames)

lemma other_failed: "saving_ok p \<Longrightarrow> save_rank t = None \<Longrightarrow> saving_ok (task_failed ph t err p)"
  by (cases t) (simp_all add: task_failed_def save_rank_def saving_frames)

lemma saving_deleted:
  assumes "saving_ok p" "map_of (pn_tasks p) n = Some t"
  shows "panel_tasks_ok (p\<lparr>pn_tasks := AList.delete n (pn_tasks p)\<rparr>)"
    and "save_rank t = None \<Longrightarrow> saving_ok (p\<lparr>pn_tasks := AList.delete n (pn_tasks p)\<rparr>)"
proof -
  show a: "panel_tasks_ok (p\<lparr>pn_tasks := AList.delete n (pn_tasks p)\<rparr>)"
    using assms(1) by (auto simp: saving_ok_def panel_tasks_ok_def list_all_iff AList.delete_eq)
  show "saving_ok (p\<lparr>pn_tasks := AList.delete n (pn_tasks p)\<rparr>)" if "save_rank t = None"
  proof -
    have "\<exists>m u. map_of (AList.delete n (pn_tasks p)) m = Some u \<and> save_rank u \<noteq> None" if "pn_saving p"
    proof -
      from that assms(1) obtain m u where m: "map_of (pn_tasks p) m = Some u" "save_rank u \<noteq> None" unfolding saving_ok_def by blast
      then have "m \<noteq> n" using assms(2) \<open>save_rank t = None\<close> by auto
      then show ?thesis using m by (auto simp: delete_conv')
    qed
    then show ?thesis using a by (simp add: saving_ok_def)
  qed
qed

lemma saving_step: "saving_ok p \<Longrightarrow> saving_ok (panel_step ph e ev p)"
proof -
  assume ok: "saving_ok p"
  show ?thesis
  proof (cases ev)
    case (Pe_answer n r)
    show ?thesis
    proof (cases "map_of (pn_tasks p) n")
      case (Some t)
      note d = saving_deleted [OF ok Some]
      show ?thesis
        using d answered_saving [OF d(1), of t] failed_saving [OF d(1), of t] other_answered [OF d(2), of t] other_failed [OF d(2), of t]
        by (cases "save_rank t"; cases r) (simp_all add: panel_step_def Pe_answer Some)
    qed (use ok in \<open>simp add: panel_step_def Pe_answer\<close>)
  qed (use ok in \<open>simp_all add: panel_step_def saving_frames saving_save\<close>)
qed

interpretation saving: step_invariant "\<lambda>(e, ev). panel_step ph e ev" new_panel saving_ok for ph
  by unfold_locales (auto simp: saving_step, simp add: saving_ok_def panel_tasks_ok_def new_panel_def initial_pair_state_def)

text \<open>An answer brings a save nearer to its end.\<close>

definition save_progress :: "nat \<Rightarrow> nat \<Rightarrow> panel \<Rightarrow> bool" where
  "save_progress n r q = (\<not> pn_saving q \<or> (\<exists>t' r'. map_of (pn_tasks q) n = Some t' \<and> save_rank t' = Some r' \<and> r' < r))"

lemma finished_progress [simp]: "save_progress n r (save_finished p)"
  by (simp add: save_progress_def save_finished_def updatePairButtons_def)

lemma asked_progress: "panel_tasks_ok p \<Longrightarrow> pn_next p = n \<Longrightarrow> save_rank t = Some r' \<Longrightarrow> r' < r \<Longrightarrow> save_progress n r (ask_backend cmd t p)"
  using ask_next by (auto simp: save_progress_def)

lemma answered_progress:
  assumes "panel_tasks_ok p" "save_rank t = Some r"
  shows "save_progress (pn_next p) r (task_answered ph e t v p)"
proof -
  have same: "pn_next (applyPairConfigFromRawConfig ph (p\<lparr>pn_rawConfig := c\<rparr>)) = pn_next p"
    "panel_tasks_ok (applyPairConfigFromRawConfig ph (p\<lparr>pn_rawConfig := c\<rparr>))" for c
    using quiet_apply [of ph "p\<lparr>pn_rawConfig := c\<rparr>"] assms(1) by (simp_all add: panel_quiet_def saving_frames)
  show ?thesis using assms same
    by (cases t) (auto simp: task_answered_def save_rank_def save_latest_def reload_config_def asked_progress)
qed

lemma failed_progress: "save_rank t = Some r \<Longrightarrow> save_progress n r (task_failed ph t err p)"
  by (cases t) (auto simp: task_failed_def save_rank_def)

section \<open>One channel of a snapshot\<close>

lemma find_snoc: "find P (xs @ [y]) = (case find P xs of None \<Rightarrow> if P y then Some y else None | Some x \<Rightarrow> Some x)"
  by (induction xs) auto

lemma find_upsert:
  assumes "list_all channel_ok cs" "channel_ok d"
  shows "findPairChannelById (upsertPairChannel label e d cs) i =
    (if i = chan_id d
     then Some (case findPairChannelById cs i of None \<Rightarrow> added_channel label e i d | Some c \<Rightarrow> merged_channel label e c d)
     else findPairChannelById cs i)"
proof (cases "findPairChannelById cs (chan_id d)")
  case None
  have a: "js_get (added_channel label e (chan_id d) d) ''channelId'' = JStr (chan_id d)" by (simp add: added_get)
  have "chan_id d \<noteq> []" using assms(2) by (simp add: channel_ok_def)
  then have u: "upsertPairChannel label e d cs = cs @ [added_channel label e (chan_id d) d]"
    using None by (simp add: upsertPairChannel_def chan_id_def Let_def)
  show ?thesis using None unfolding u by (auto simp: findPairChannelById_def find_snoc a split: option.split)
next
  case (Some c)
  let ?p = "\<lambda>i c. js_get c ''channelId'' = JStr i" and ?f = "\<lambda>c. merged_channel label e c d"
  have "chan_id d \<noteq> []" using assms(2) by (simp add: channel_ok_def)
  then have u: "upsertPairChannel label e d cs = change_first (?p (chan_id d)) ?f cs"
    using Some by (simp add: upsertPairChannel_def chan_id_def Let_def)
  have "js_is_record d" "map_of (js_fields d) ''channelId'' \<noteq> None" "js_get d ''channelId'' = JStr (chan_id d)"
    using assms(2) by (auto simp: channel_ok_def js_get_fields split: option.splits)
  then have f: "js_get (?f c) ''channelId'' = JStr (chan_id d)" for c by (simp add: merged_get)
  show ?thesis
  proof (cases "i = chan_id d")
    case True
    have "find (?p i) (change_first (?p i) ?f cs) = map_option ?f (find (?p i) cs)" by (rule find_change_first) (simp add: f True)
    then show ?thesis using Some True by (simp add: u findPairChannelById_def)
  next
    case False
    have "find (?p i) (change_first (?p (chan_id d)) ?f cs) = find (?p i) cs"
      by (rule find_change_first_other) (use False f in auto)
    then show ?thesis using False by (simp add: u findPairChannelById_def)
  qed
qed

lemma find_upserts_other:
  assumes "channels_ok cs" "\<And>d. d \<in> set ds \<Longrightarrow> channel_ok d" "i \<notin> chan_id ` set ds"
  shows "findPairChannelById (fold (upsertPairChannel label e) ds cs) i = findPairChannelById cs i"
  using assms
proof (induction ds arbitrary: cs)
  case (Cons x ds)
  then have c: "list_all channel_ok cs" "channel_ok x" by (simp_all add: channels_ok_def)
  show ?case
    using Cons.IH [of "upsertPairChannel label e x cs"] Cons.prems upsert_ok(1) [of cs x label e] by (simp add: find_upsert [OF c])
qed simp

lemma find_upserts:
  assumes "channels_ok cs" "\<And>d. d \<in> set ds \<Longrightarrow> channel_ok d" "distinct (map chan_id ds)" "d \<in> set ds"
  shows "findPairChannelById (fold (upsertPairChannel label e) ds cs) (chan_id d) =
      Some (case findPairChannelById cs (chan_id d) of None \<Rightarrow> added_channel label e (chan_id d) d | Some c \<Rightarrow> merged_channel label e c d)"
  using assms
proof (induction ds arbitrary: cs)
  case (Cons x ds)
  then have c: "list_all channel_ok cs" "channel_ok x" by (simp_all add: channels_ok_def)
  have u: "channels_ok (upsertPairChannel label e x cs)" using upsert_ok(1) Cons.prems by simp
  show ?case
  proof (cases "d = x")
    case True
    show ?thesis
      using find_upserts_other [OF u, of ds "chan_id x" label e] Cons.prems(2,3) unfolding True by (simp add: find_upsert [OF c])
  next
    case False
    then have "d \<in> set ds" "chan_id d \<noteq> chan_id x" using Cons.prems by (auto, metis imageI)
    then show ?thesis using Cons.IH [OF u] Cons.prems by (simp add: find_upsert [OF c])
  qed
qed simp

lemma shown_channel:
  assumes ok: "channels_ok (pn_channels p)" "chat_sync p" and d: "d \<in> set (snapshot_channels (e_now e) v)"
    and one: "distinct (map chan_id (snapshot_channels (e_now e) v))"
  shows "findPairChannelById (pn_channels (applyBackendSnapshot ph e b v p)) (chan_id d) =
    Some (case findPairChannelById (pn_channels p) (chan_id d) of
            None \<Rightarrow> added_channel (ph_label ph) e (chan_id d) d | Some c \<Rightarrow> merged_channel (ph_label ph) e c d)"
proof -
  let ?up = "fold (upsertPairChannel (ph_label ph) e) (snapshot_channels (e_now e) v) (pn_channels p)"
  have in_ids: "chan_id d \<in> shown_ids (e_now e) v" using d by (auto simp: shown_ids_def)
  have all: "list_all channel_ok ?up" using upserts_ok [OF ok(1)] snapshot_ok unfolding channels_ok_def by blast
  have "find (\<lambda>c. chan_id c = chan_id d) (filter (\<lambda>c. chan_id c \<in> shown_ids (e_now e) v) ?up) = find (\<lambda>c. chan_id c = chan_id d) ?up"
  proof -
    have "i \<in> I \<Longrightarrow> find (\<lambda>c. chan_id c = i) (filter (\<lambda>c. chan_id c \<in> I) cs) = find (\<lambda>c. chan_id c = i) cs" for i I cs
      by (induction cs) auto
    then show ?thesis using in_ids .
  qed
  then have "findPairChannelById (filter (\<lambda>c. chan_id c \<in> shown_ids (e_now e) v) ?up) (chan_id d) = findPairChannelById ?up (chan_id d)"
    using all by (subst (1 2) find_channel) (auto simp: list_all_iff)
  then show ?thesis
    using find_upserts [OF ok(1) snapshot_ok one d] snapshot_shown(2) [OF ok, of ph e b v] taken_channels(1) [OF ok(1), of ph e v]
    by simp
qed

section \<open>Properties\<close>

text \<open>C18: In every run of the panel its channels have distinct ids that are not empty, the store shows
  exactly them, and the chat that is open is one of them.\<close>

theorem panel_consistent:
  assumes "panel_run ph new_panel p"
  shows "distinct (map chan_id (pn_channels p)) \<and> [] \<notin> chan_id ` set (pn_channels p) \<and>
    ps_channels (pn_store p) = mirrored_channels (pn_channels p) \<and>
    ps_activeChatChannelId (pn_store p) = pn_activeChat p \<and> ps_chatDialogOpen (pn_store p) = (pn_activeChat p \<noteq> []) \<and>
    pn_activeChat p \<in> insert [] (chan_id ` set (pn_channels p))"
proof -
  have "panel_ok p" using assms unfolding panel_run_def by (rule panel.reached)
  then show ?thesis by (auto simp: panel_ok_def chat_sync_def channels_ok_def list_all_iff channel_ok_def)
qed

lemma merged_messages:
  assumes "js_get channel ''messages'' = JArr ms" "js_is_record channel"
  shows "js_get (merged_channel label e c channel) ''messages'' = JArr ms"
proof -
  have "map_of (js_fields channel) ''messages'' \<noteq> None" using assms by (auto simp: js_get_fields split: option.splits)
  then show ?thesis using assms by (simp add: merged_channel_def Let_def js_get_spread_record)
qed

lemma snapshot_messages: "d \<in> set (snapshot_channels now v) \<Longrightarrow> \<exists>ms. js_get d ''messages'' = JArr ms"
  by (auto simp: snapshot_channels_def normalizeBackendChannel_def js_get_spread)

text \<open>C17: The panel shows what the backend reports: after any snapshot, also an empty one, the ids of
  its channels are exactly those of the snapshot, each once; and, when the snapshot names no channel
  twice, a channel that the panel knew has all the fields that are reported, but for its name.\<close>

theorem snapshot_exact:
  assumes run: "panel_run ph new_panel p"
  shows "let q = applyBackendSnapshot ph e b v p; news = snapshot_channels (e_now e) v in
    chan_id ` set (pn_channels q) = chan_id ` set news \<and> distinct (map chan_id (pn_channels q)) \<and>
    (\<forall>d \<in> set news. distinct (map chan_id news) \<and> chan_id d \<in> chan_id ` set (pn_channels p) \<longrightarrow>
       (\<exists>c. findPairChannelById (pn_channels q) (chan_id d) = Some c \<and>
          (\<forall>k. k \<noteq> ''name'' \<and> map_of (js_fields d) k \<noteq> None \<longrightarrow> js_get c k = js_get d k)))"
proof -
  let ?q = "applyBackendSnapshot ph e b v p" and ?news = "snapshot_channels (e_now e) v"
  have ok: "panel_ok p" using run unfolding panel_run_def by (rule panel.reached)
  then have cs: "channels_ok (pn_channels p)" "chat_sync p" by (simp_all add: panel_ok_def)
  have q: "panel_ok ?q" by (rule snapshot_panel_ok [OF ok])
  have "\<exists>c. findPairChannelById (pn_channels ?q) (chan_id d) = Some c \<and>
      (\<forall>k. k \<noteq> ''name'' \<and> map_of (js_fields d) k \<noteq> None \<longrightarrow> js_get c k = js_get d k)"
    if d: "d \<in> set ?news" and one: "distinct (map chan_id ?news)" and known: "chan_id d \<in> chan_id ` set (pn_channels p)" for d
  proof -
    obtain c where c: "findPairChannelById (pn_channels p) (chan_id d) = Some c"
      using known cs(1) by (cases "findPairChannelById (pn_channels p) (chan_id d)") (auto simp: find_channel_None channels_ok_def)
    let ?m = "merged_channel (ph_label ph) e c d"
    have m: "findPairChannelById (pn_channels ?q) (chan_id d) = Some ?m" using shown_channel [OF cs d one] c by simp
    have r: "js_is_record d" using snapshot_ok [OF d] by (simp add: channel_ok_def)
    have "js_get ?m k = js_get d k" if "k \<noteq> ''name''" "map_of (js_fields d) k \<noteq> None" for k
      using merged_get [OF r that(1)] merged_messages [OF _ r] snapshot_messages [OF d] that(2) by (cases "k = ''messages''") auto
    with m show ?thesis by blast
  qed
  then show ?thesis using snapshot_shown(3) [OF cs, of ph e b v] q
    by (simp add: Let_def shown_ids_def panel_ok_def channels_ok_def)
qed

text \<open>A channel that the panel did not know is shown incompletely at first: the safety code, the trust
  state, the state of the peer and its capabilities are missing until the same is reported again.\<close>

theorem new_channel_incomplete:
  assumes run: "panel_run ph new_panel p" and d: "d \<in> set (snapshot_channels (e_now e) v)"
    and one: "distinct (map chan_id (snapshot_channels (e_now e) v))" and new: "chan_id d \<notin> chan_id ` set (pn_channels p)"
    and k: "k \<in> {''safetyCode'', ''trustState'', ''peerState'', ''peerCapabilities''}"
  shows "let q = applyBackendSnapshot ph e b v p; q' = applyBackendSnapshot ph e b v q in
    map_option (\<lambda>c. js_get c k) (findPairChannelById (pn_channels q) (chan_id d)) = Some JUndef \<and>
    map_option (\<lambda>c. js_get c k) (findPairChannelById (pn_channels q') (chan_id d)) = Some (js_get d k)"
proof -
  let ?q = "applyBackendSnapshot ph e b v p"
  have ok: "panel_ok p" using run unfolding panel_run_def by (rule panel.reached)
  then have cs: "channels_ok (pn_channels p)" "chat_sync p" by (simp_all add: panel_ok_def)
  have q: "channels_ok (pn_channels ?q)" "chat_sync ?q" using snapshot_panel_ok [OF ok] by (simp_all add: panel_ok_def)
  have "findPairChannelById (pn_channels p) (chan_id d) = None" using new cs(1) by (simp add: find_channel_None channels_ok_def)
  then have a: "findPairChannelById (pn_channels ?q) (chan_id d) = Some (added_channel (ph_label ph) e (chan_id d) d)"
    using shown_channel [OF cs d one] by simp
  then have m: "findPairChannelById (pn_channels (applyBackendSnapshot ph e b v ?q)) (chan_id d) =
      Some (merged_channel (ph_label ph) e (added_channel (ph_label ph) e (chan_id d) d) d)"
    using shown_channel [OF q d one] by simp
  have r: "js_is_record d" using snapshot_ok [OF d] by (simp add: channel_ok_def)
  have "map_of (js_fields d) k \<noteq> None" using d k by (auto simp: snapshot_channels_def normalizeBackendChannel_def)
  then have "js_get (merged_channel (ph_label ph) e c d) k = js_get d k" for c using merged_get [OF r] k by auto
  moreover have "js_get (added_channel (ph_label ph) e (chan_id d) d) k = JUndef" using added_get(2) k by auto
  ultimately show ?thesis using a m by (simp add: Let_def)
qed

text \<open>C32: Once the panel has its configuration, its buttons always show what its state allows, and do what
  they say. The toggle is enabled unless the panel saves, or is closed and not configured, and then it
  asks the backend for the opposite state. A channel can be created just when the panel is configured,
  open, neither connecting nor saving, and then the button asks for a channel. A message can be sent
  just when the panel is configured, open and connected, the open chat is with a connected peer that
  speaks the protocol of the chat, and there is a draft, and then this draft is sent to that channel.\<close>

theorem buttons_truthful:
  assumes "panel_run ph (panel_step ph e (Pe_rawConfig v) new_panel) p"
  shows "let configured = pn_serverUrl p \<noteq> [] \<and> pn_deviceId p \<noteq> []; s = pn_store p in
    ps_channelOpen s = pn_channelOpen p \<and>
    (\<not> ps_channelToggleDisabled s \<longleftrightarrow> \<not> pn_saving p \<and> (configured \<or> pn_channelOpen p)) \<and>
    (\<not> ps_channelToggleDisabled s \<longrightarrow> panel_step ph e' Pe_toggle p =
       ask_backend (Panel_invoke ''pair_backend_toggle_channel'' [(''open'', JBool (\<not> pn_channelOpen p))]) (Pt_state True) p) \<and>
    (\<not> ps_createChannelDisabled s \<longleftrightarrow>
       configured \<and> pn_channelOpen p \<and> pn_connection p \<notin> {''connecting'', ''reconnecting''} \<and> \<not> pn_saving p) \<and>
    (\<not> ps_createChannelDisabled s \<longrightarrow> panel_step ph e' Pe_create p =
       ask_backend (Panel_invoke ''pair_backend_create_channel'' []) Pt_created p) \<and>
    (\<not> ps_chatSendDisabled s \<longleftrightarrow>
       configured \<and> pn_channelOpen p \<and> pn_connection p = ''connected'' \<and> js_trim (ps_chatDraft s) \<noteq> [] \<and>
       (\<exists>c \<in> set (pn_channels p). chan_id c = pn_activeChat p \<and> js_get c ''peerState'' = JStr ''connected'' \<and>
          channelSupportsOpenClawChat c)) \<and>
    (\<not> ps_chatSendDisabled s \<longrightarrow> panel_step ph e' Pe_sendChat p =
       ask_backend (Panel_invoke ''pair_backend_send_chat''
         [(''channelId'', JStr (pn_activeChat p)), (''text'', JStr (js_trim (ps_chatDraft s)))]) Pt_chat p)"
proof -
  have a: "panel_ok (panel_step ph e (Pe_rawConfig v) new_panel)" by (rule panel_ok_step [OF panel_ok_new])
  moreover have "buttons_ok (panel_step ph e (Pe_rawConfig v) new_panel)" by (simp add: panel_step_def button_frames)
  ultimately have b: "buttons_ok p" and ok: "panel_ok p" using buttons_run [OF assms] panel_ok_run [OF assms] by blast+
  have send: "\<not> send_disabled p \<longleftrightarrow> pn_serverUrl p \<noteq> [] \<and> pn_deviceId p \<noteq> [] \<and> pn_channelOpen p \<and> pn_connection p = ''connected'' \<and>
      js_trim (ps_chatDraft (pn_store p)) \<noteq> [] \<and>
      (\<exists>c \<in> set (pn_channels p). chan_id c = pn_activeChat p \<and> js_get c ''peerState'' = JStr ''connected'' \<and> channelSupportsOpenClawChat c)"
    using send_enabled [OF ok] by blast
  have trim: "js_trim (pn_activeChat p) = pn_activeChat p \<and> pn_activeChat p \<noteq> []" if "\<not> send_disabled p"
    using that ok unfolding send by (auto simp: panel_ok_def channels_ok_def list_all_iff channel_ok_def js_trim_id)
  show ?thesis using b send trim
    by (simp add: Let_def buttons_ok_def toggle_disabled_def create_unavailable_def hasPairConfig_def isPairChannelConnecting_def
        panel_step_def connectPairChannel_def disconnectPairChannel_def createPairSession_def sendPairChatMessage_def)
qed

text \<open>C33: The panel never hangs while it saves: there is always an answer that it waits for, and whatever
  the answer is, saving is over or one step nearer to its end.\<close>

theorem saving_ends:
  assumes "panel_run ph new_panel p" and "pn_saving p"
  shows "\<exists>n t r. map_of (pn_tasks p) n = Some t \<and> save_rank t = Some r \<and>
    (\<forall>e a. save_progress (pn_next p) r (panel_step ph e (Pe_answer n a) p))"
proof -
  have ok: "saving_ok p" using assms(1) unfolding panel_run_def by (rule saving.reached)
  then obtain n t r where t: "map_of (pn_tasks p) n = Some t" "save_rank t = Some r" using assms(2) unfolding saving_ok_def by blast
  have d: "panel_tasks_ok (p\<lparr>pn_tasks := AList.delete n (pn_tasks p)\<rparr>)" by (rule saving_deleted(1) [OF ok t(1)])
  have "save_progress (pn_next p) r (panel_step ph e (Pe_answer n a) p)" for e a
    using answered_progress [OF d t(2)] failed_progress [OF t(2)] t(1) by (cases a) (simp_all add: panel_step_def)
  with t show ?thesis by blast
qed

section \<open>What is remembered and lost\<close>

lemma lan_ask [simp]: "pn_lan (ask_backend cmd t p) = pn_lan p"
  by (simp add: ask_backend_def)

lemma lan_quiet: "panel_quiet q = panel_quiet p \<Longrightarrow> pn_lan q = pn_lan p"
  by (simp add: panel_quiet_def)

lemma lan_frames:
  "pn_lan (applyBackendSnapshot ph e b v p) = pn_lan p" "pn_lan (setPairMessage m ty p) = pn_lan p" "pn_lan (updatePairButtons p) = pn_lan p"
  "pn_lan (applyPairConfigFromRawConfig ph p) = pn_lan p" "pn_lan (open_qr_dialog p) = pn_lan p" "pn_lan (clearPairQrPreview p) = pn_lan p"
  "pn_lan (openPairChatDialog ph e i p) = pn_lan p" "pn_lan (renamePairChannel ph e i n p) = pn_lan p"
  "pn_lan (closeChat p) = pn_lan p" "pn_lan (setChatDraft d p) = pn_lan p" "pn_lan (renderPairWsStatus st p) = pn_lan p"
  by (rule lan_quiet, simp only: panel_frames)+

lemma lan_ops:
  "pn_lan (save_finished p) = pn_lan p" "pn_lan (save_latest l u d p) = pn_lan p" "pn_lan (reload_config t p) = pn_lan p"
  "pn_lan (loadBackendState b p) = pn_lan p" "pn_lan (connectPairChannel p) = pn_lan p" "pn_lan (disconnectPairChannel p) = pn_lan p"
  "pn_lan (createPairSession p) = pn_lan p" "pn_lan (approvePairChannel i p) = pn_lan p" "pn_lan (removePairChannel i p) = pn_lan p"
  "pn_lan (sendPairChatMessage p) = pn_lan p" "pn_lan (refreshPairChannelConfig p) = pn_lan p" "pn_lan (syncPairConfigState ph v p) = pn_lan p"
  "pn_lan (savePairConfig ph p) = pn_lan p" "pn_lan (initPairCenter ph p) = pn_lan p" "pn_lan (qr_drawn a p) = pn_lan p"
  "pn_lan (draw_qr ph payload p) = pn_lan p"
  by (simp_all add: save_finished_def save_latest_def reload_config_def loadBackendState_def connectPairChannel_def disconnectPairChannel_def
      createPairSession_def approvePairChannel_def removePairChannel_def sendPairChatMessage_def refreshPairChannelConfig_def
      syncPairConfigState_def savePairConfig_def initPairCenter_def qr_drawn_def draw_qr_def Let_def lan_frames split: sum.split)

lemma lan_kept: "pn_lan p = Lan_known x \<Longrightarrow> pn_lan (panel_step ph e ev p) = Lan_known x"
proof -
  assume k: "pn_lan p = Lan_known x"
  have q: "pn_lan (openPairQrDialogForChannel ph c p) = Lan_known x" for c
    using k by (simp add: openPairQrDialogForChannel_def Let_def lan_frames lan_ops split: option.split)
  have a: "pn_lan q = Lan_known x \<Longrightarrow> pn_lan (lan_answered ph r q) = Lan_known x" for r q by (simp add: lan_answered_def)
  have t: "pn_lan q = Lan_known x \<Longrightarrow> pn_lan (task_answered ph e t v q) = Lan_known x"
    "pn_lan q = Lan_known x \<Longrightarrow> pn_lan (task_failed ph t err q) = Lan_known x" for t v err q
    using a by (cases t; simp add: task_answered_def task_failed_def lan_frames lan_ops)+
  show ?thesis
    using k q t by (cases ev) (auto simp: panel_step_def Let_def lan_frames lan_ops split: option.split sum.split)
qed

lemma lan_draws: "pn_lan (fold (\<lambda>(payload, u). draw_qr ph (f payload u)) ws p) = pn_lan p"
  by (induction ws arbitrary: p) (auto simp: lan_ops)

text \<open>When the address of the machine could not be found once, it is never asked for again: every
  later QR code whose addresses are loopback addresses keeps one, also when the network is back.\<close>

theorem lan_failure_remembered:
  assumes t: "map_of (pn_tasks p) n = Some Pt_lan" and w: "pn_lan p = Lan_asked waiting"
    and later: "panel_run ph (panel_step ph e (Pe_answer n (Inl err)) p) q"
    and none: "qr_url_at_once (ph_web ph) (pn_serverUrl q) (payload_base_url (qr_payload_copy (js_get c ''qrPayload''))) = None"
  shows "pn_lan q = Lan_known [] \<and>
    openPairQrDialogForChannel ph (Some c) q =
      draw_qr ph (sanitizePairQrPayload (ph_web ph) (js_get c ''qrPayload'') (pn_serverUrl q) []) q"
proof -
  have "pn_lan (panel_step ph e (Pe_answer n (Inl err)) p) = Lan_known []"
    using t w by (simp add: panel_step_def Let_def task_failed_def lan_answered_def lan_draws lan_address_def)
  moreover have "pn_lan q = Lan_known x" if "steps (\<lambda>(e, ev). panel_step ph e ev) p' q" "pn_lan p' = Lan_known x" for p' q x
    using that by (induction rule: steps.induct) (auto intro: lan_kept)
  ultimately have "pn_lan q = Lan_known []" using later unfolding panel_run_def by blast
  then show ?thesis using none by (simp add: openPairQrDialogForChannel_def Let_def)
qed

lemma draft_snapshot: "ps_chatDraft (pn_store p) = [] \<Longrightarrow> ps_chatDraft (pn_store (applyBackendSnapshot ph e b v p)) = []"
proof -
  have f: "ps_chatDraft (pn_store q) = [] \<Longrightarrow> ps_chatDraft (pn_store (removePairChannelLocal i q)) = []" for i q
    by (simp add: removePairChannelLocal_def syncPairStore_def forget_chat_def Let_def)
  have "ps_chatDraft (pn_store q) = [] \<Longrightarrow> ps_chatDraft (pn_store (fold removePairChannelLocal is q)) = []" for "is" q
    by (induction "is" arbitrary: q) (auto intro: f)
  moreover have "ps_chatDraft (pn_store (take_configuration ph b v q)) = ps_chatDraft (pn_store q)" for q
    by (simp add: take_configuration_def setPairMessage_def renderPairWsStatus_def syncPairConfigDraftState_def Let_def)
  moreover assume "ps_chatDraft (pn_store p) = []"
  ultimately show ?thesis
    by (simp add: applyBackendSnapshot_def updatePairButtons_def syncPairStore_def drop_lost_chat_def forget_chat_def take_channels_def Let_def)
qed

text \<open>What is typed while a message is being sent is lost when it has been sent; when sending fails
  the panel says nothing.\<close>

theorem typed_text_lost:
  assumes "map_of (pn_tasks p) n = Some Pt_chat"
  shows "ps_chatDraft (pn_store (panel_step ph e (Pe_answer n (Inr v)) (panel_step ph e' (Pe_setDraft d) p))) = [] \<and>
    pn_store (panel_step ph e (Pe_answer n (Inl err)) p) = pn_store p"
  using assms
  by (simp add: panel_step_def setChatDraft_def updatePairButtons_def task_answered_def task_failed_def setPairMessage_def draft_snapshot Let_def)

section \<open>Witnesses\<close>

definition demo_panel_host :: panel_host where
  "demo_panel_host = \<lparr>ph_label = ''pc'', ph_web = sample_web, ph_available = True, ph_qrImage = True\<rparr>"

definition panel_env :: env where
  "panel_env = \<lparr>e_now = Fin 7, e_uuid = None, e_hex = ''0.1''\<rparr>"

definition demo_panel_config :: jsval where
  "demo_panel_config = JObj [(''channelServerBaseUrl'', JStr ''h.org''), (''channelDeviceId'', JStr ''d1'')]"

definition demo_backend_channel :: jsval where
  "demo_backend_channel =
     JObj [(''channelId'', JStr ''c1''), (''safetyCode'', JStr ''123456''), (''peerState'', JStr ''connected''),
       (''qrPayload'', JObj [(''baseUrl'', JStr ''http://localhost:80'')])]"

definition demo_snapshot :: jsval where
  "demo_snapshot =
     JObj [(''configuredServerUrl'', JStr ''h.org''), (''configuredDeviceId'', JStr ''d1''), (''channelOpen'', JBool True),
       (''connectionState'', JStr ''connected''), (''channels'', JArr [demo_backend_channel])]"

definition panel_events :: "panel_event list \<Rightarrow> panel \<Rightarrow> panel" where
  "panel_events evs = feed_events (\<lambda>(e, ev). panel_step demo_panel_host e ev) (map (Pair panel_env) evs)"

lemma panel_events_run: "panel_run demo_panel_host p q \<Longrightarrow> panel_run demo_panel_host p (panel_events evs q)"
  unfolding panel_run_def panel_events_def by (rule steps_events)

lemma panel_events_start: "panel_run demo_panel_host p (panel_events evs p)"
  by (rule panel_events_run) (simp add: panel_run_def no_step)

definition demo_panel :: panel where
  "demo_panel = panel_events [Pe_rawConfig demo_panel_config, Pe_toggle, Pe_answer 0 (Inr demo_snapshot)] new_panel"

lemma demo_panel_run: "panel_run demo_panel_host new_panel demo_panel"
  unfolding demo_panel_def by (rule panel_events_start)

theorem panel_consistent_witness:
  "map chan_id (pn_channels demo_panel) = [''c1''] \<and> distinct (map chan_id (pn_channels demo_panel)) \<and>
   ps_channels (pn_store demo_panel) = mirrored_channels (pn_channels demo_panel)"
proof -
  have "map chan_id (pn_channels demo_panel) = [''c1'']" by code_simp
  then show ?thesis using panel_consistent [OF demo_panel_run] by blast
qed

lemma demo_reported:
  "map chan_id (snapshot_channels (e_now panel_env) demo_snapshot) = [''c1'']"
  "map (\<lambda>d. js_get d ''safetyCode'') (snapshot_channels (e_now panel_env) demo_snapshot) = [JStr ''123456'']"
  by code_simp+

theorem snapshot_exact_witness:
  "pn_channels (applyBackendSnapshot demo_panel_host panel_env True (JObj []) demo_panel) = [] \<and>
   (\<exists>c. findPairChannelById (pn_channels (applyBackendSnapshot demo_panel_host panel_env True demo_snapshot demo_panel)) ''c1'' = Some c \<and>
     js_get c ''safetyCode'' = JStr ''123456'')"
proof -
  obtain d where d: "snapshot_channels (e_now panel_env) demo_snapshot = [d]" "chan_id d = ''c1''" "js_get d ''safetyCode'' = JStr ''123456''"
    using demo_reported by (cases "snapshot_channels (e_now panel_env) demo_snapshot") auto
  have r: "js_is_record d" using snapshot_ok [of d "e_now panel_env" demo_snapshot] d(1) by (simp add: channel_ok_def)
  have k: "map_of (js_fields d) ''safetyCode'' \<noteq> None" using d(3) r by (auto simp: js_get_fields split: option.splits)
  have "map chan_id (pn_channels demo_panel) = [''c1'']" by code_simp
  then have known: "chan_id d \<in> chan_id ` set (pn_channels demo_panel)" using d(2) by (metis image_set list.set_intros(1))
  have "snapshot_channels (e_now panel_env) (JObj []) = []" by code_simp
  then have "pn_channels (applyBackendSnapshot demo_panel_host panel_env True (JObj []) demo_panel) = []"
    using snapshot_exact [OF demo_panel_run, of panel_env True "JObj []"] by (simp add: Let_def)
  moreover have "\<exists>c. findPairChannelById (pn_channels (applyBackendSnapshot demo_panel_host panel_env True demo_snapshot demo_panel)) (chan_id d) = Some c \<and>
      (\<forall>k. k \<noteq> ''name'' \<and> map_of (js_fields d) k \<noteq> None \<longrightarrow> js_get c k = js_get d k)"
    using snapshot_exact [OF demo_panel_run, of panel_env True demo_snapshot] known by (simp add: Let_def d(1))
  moreover have "''safetyCode'' \<noteq> ''name''" by simp
  ultimately show ?thesis using k d(2,3) by metis
qed

definition fresh_panel :: panel where
  "fresh_panel = panel_events [Pe_rawConfig demo_panel_config] new_panel"

theorem new_channel_incomplete_witness:
  "map_option (\<lambda>c. js_get c ''safetyCode'')
     (findPairChannelById (pn_channels (applyBackendSnapshot demo_panel_host panel_env True demo_snapshot fresh_panel)) ''c1'') = Some JUndef"
proof -
  obtain d where d: "snapshot_channels (e_now panel_env) demo_snapshot = [d]" "chan_id d = ''c1''"
    using demo_reported by (cases "snapshot_channels (e_now panel_env) demo_snapshot") auto
  have run: "panel_run demo_panel_host new_panel fresh_panel" unfolding fresh_panel_def by (rule panel_events_start)
  have "pn_channels fresh_panel = []" by code_simp
  then show ?thesis
    using new_channel_incomplete [OF run, of d panel_env demo_snapshot "''safetyCode''"] d by (simp add: Let_def)
qed

theorem buttons_truthful_witness:
  "\<not> ps_createChannelDisabled (pn_store demo_panel) \<and> ps_chatSendDisabled (pn_store demo_panel) \<and>
   panel_step demo_panel_host panel_env Pe_create demo_panel =
     ask_backend (Panel_invoke ''pair_backend_create_channel'' []) Pt_created demo_panel"
proof -
  have "panel_run demo_panel_host (panel_step demo_panel_host panel_env (Pe_rawConfig demo_panel_config) new_panel) demo_panel"
    using panel_events_start [of "panel_step demo_panel_host panel_env (Pe_rawConfig demo_panel_config) new_panel"
      "[Pe_toggle, Pe_answer 0 (Inr demo_snapshot)]"] by (simp add: demo_panel_def panel_events_def feed_events_def)
  moreover have "\<not> ps_createChannelDisabled (pn_store demo_panel) \<and> ps_chatSendDisabled (pn_store demo_panel)" by code_simp
  ultimately show ?thesis
    using buttons_truthful [of demo_panel_host panel_env demo_panel_config demo_panel panel_env] by (simp only: Let_def) blast
qed

definition saving_panel :: panel where
  "saving_panel = panel_events [Pe_setServerUrl ''h.org'', Pe_saveConfig] new_panel"

theorem saving_ends_witness:
  "\<exists>n t r. map_of (pn_tasks saving_panel) n = Some t \<and> save_rank t = Some r \<and>
     save_progress (pn_next saving_panel) r (panel_step demo_panel_host panel_env (Pe_answer n (Inr JNull)) saving_panel)"
proof -
  have "panel_run demo_panel_host new_panel saving_panel" unfolding saving_panel_def by (rule panel_events_start)
  moreover have "pn_saving saving_panel" by code_simp
  ultimately show ?thesis using saving_ends by blast
qed

definition asking_panel :: panel where
  "asking_panel = panel_events [Pe_rawConfig (JObj []), Pe_init, Pe_answer 0 (Inr JNull),
     Pe_snapshot (JObj [(''channels'', JArr [demo_backend_channel])]), Pe_showQr ''c1''] new_panel"

theorem lan_failure_remembered_witness:
  "pn_lan (panel_events [Pe_answer 2 (Inl (new_error ''offline'')), Pe_closeQr] asking_panel) = Lan_known []"
proof -
  let ?p = "panel_step demo_panel_host panel_env (Pe_answer 2 (Inl (new_error ''offline''))) asking_panel"
  let ?q = "panel_events [Pe_closeQr] ?p"
  have q: "panel_events [Pe_answer 2 (Inl (new_error ''offline'')), Pe_closeQr] asking_panel = ?q"
    by (simp add: panel_events_def feed_events_def)
  have "map_of (pn_tasks asking_panel) 2 = Some Pt_lan" by code_simp
  moreover have "(case pn_lan asking_panel of Lan_asked w \<Rightarrow> True | _ \<Rightarrow> False)" by code_simp
  then obtain w where "pn_lan asking_panel = Lan_asked w" by (auto split: lan_state.splits)
  moreover have "panel_run demo_panel_host ?p ?q" by (rule panel_events_start)
  moreover have "qr_url_at_once (ph_web demo_panel_host) (pn_serverUrl ?q) (payload_base_url (qr_payload_copy (js_get demo_backend_channel ''qrPayload''))) = None"
    by code_simp
  ultimately show ?thesis unfolding q using lan_failure_remembered by blast
qed

theorem typed_text_lost_witness:
  "ps_chatDraft (pn_store (panel_step demo_panel_host panel_env (Pe_answer 0 (Inr JNull))
     (panel_step demo_panel_host panel_env (Pe_setDraft ''more'') (new_panel\<lparr>pn_tasks := [(0, Pt_chat)]\<rparr>)))) = []"
proof -
  have "map_of (pn_tasks (new_panel\<lparr>pn_tasks := [(0, Pt_chat)]\<rparr>)) 0 = Some Pt_chat" by simp
  then show ?thesis using typed_text_lost by blast
qed

end
