(* ===== verification/Async.thy ===== *)
theory Async
  imports Steps
begin

text \<open>
  Asynchronous functions: what a function does up to its next \<open>await\<close> is a change of the state, and the
  rest of it a process that waits for an answer. Exceptions are results of their own. \<open>ok\<close> is what a
  function keeps in every state that its caller and the other functions may leave it, and a world runs
  functions whose awaits are answered in any order.
\<close>

section \<open>Processes\<close>

datatype ('e, 'c, 'a, 's, 'r) proc =
    Done "'e + 'r"
  | Await 'c "'a \<Rightarrow> 's \<Rightarrow> 's \<times> ('e, 'c, 'a, 's, 'r) proc"

type_synonym ('e, 'c, 'a, 's, 'r) act = "'s \<Rightarrow> 's \<times> ('e, 'c, 'a, 's, 'r) proc"

definition give :: "'r \<Rightarrow> ('e, 'c, 'a, 's, 'r) act" where
  "give r s = (s, Done (Inr r))"

definition fail :: "'e \<Rightarrow> ('e, 'c, 'a, 's, 'r) act" where
  "fail e s = (s, Done (Inl e))"

definition upd :: "('s \<Rightarrow> 's) \<Rightarrow> ('e, 'c, 'a, 's, unit) act" where
  "upd f s = (f s, Done (Inr ()))"

definition look :: "('s \<Rightarrow> ('e, 'c, 'a, 's, 'r) act) \<Rightarrow> ('e, 'c, 'a, 's, 'r) act" where
  "look k s = k s s"

definition wait_for :: "'c \<Rightarrow> ('e, 'c, 'a, 's, 'a) act" where
  "wait_for c s = (s, Await c (\<lambda>a t. (t, Done (Inr a))))"

primrec go_on :: "('e + 'r \<Rightarrow> ('e, 'c, 'a, 's, 'q) act) \<Rightarrow> ('e, 'c, 'a, 's, 'r) proc \<Rightarrow> ('e, 'c, 'a, 's, 'q) act" where
  "go_on k (Done r) = k r"
| "go_on k (Await c f) = (\<lambda>s. (s, Await c (\<lambda>a t. case map_prod id (go_on k) (f a t) of (t', rest) \<Rightarrow> rest t')))"

definition and_then :: "('e, 'c, 'a, 's, 'r) act \<Rightarrow> ('r \<Rightarrow> ('e, 'c, 'a, 's, 'q) act) \<Rightarrow> ('e, 'c, 'a, 's, 'q) act" where
  "and_then m k s = (case m s of (t, p) \<Rightarrow> go_on (case_sum fail k) p t)"

abbreviation after :: "('e, 'c, 'a, 's, unit) act \<Rightarrow> ('e, 'c, 'a, 's, 'q) act \<Rightarrow> ('e, 'c, 'a, 's, 'q) act" where
  "after m n \<equiv> and_then m (\<lambda>_. n)"

section \<open>What a process keeps\<close>

inductive ok :: "('s \<Rightarrow> bool) \<Rightarrow> ('c \<Rightarrow> 's \<Rightarrow> bool) \<Rightarrow> ('e + 'r \<Rightarrow> 's \<Rightarrow> bool) \<Rightarrow> 's \<times> ('e, 'c, 'a, 's, 'r) proc \<Rightarrow> bool"
  for I C where
  ok_done: "I s \<Longrightarrow> Q r s \<Longrightarrow> ok I C Q (s, Done r)"
| ok_await: "I s \<Longrightarrow> C c s \<Longrightarrow> (\<And>a t. I t \<Longrightarrow> ok I C Q (f a t)) \<Longrightarrow> ok I C Q (s, Await c f)"

inductive_simps ok_Done [simp]: "ok I C Q (s, Done r)"
inductive_simps ok_Await: "ok I C Q (s, Await c f)"

lemma ok_state: "ok I C Q (s, p) \<Longrightarrow> I s"
  by (cases p) (auto simp: ok_Await)

lemma ok_go_on:
  assumes "ok I C Q (s, p)" and "\<And>r t. Q r t \<Longrightarrow> I t \<Longrightarrow> ok I C R (k r t)"
  shows "ok I C R (go_on k p s)"
  using assms(1)
proof (induction p arbitrary: s)
  case (Done r)
  then show ?case using assms(2) by simp
next
  case (Await c f)
  have "ok I C R (case map_prod id (go_on k) (f a t) of (t', rest) \<Rightarrow> rest t')" if t: "I t" for a t
  proof -
    obtain t' q where ft: "f a t = (t', q)" by fastforce
    have "ok I C Q (t', q)" using Await.prems t ft by (metis ok_Await)
    moreover have "(t', q) \<in> range (f a)" using ft by (metis rangeI)
    ultimately have "ok I C R (go_on k q t')"
      using Await.IH [of "f a" "f a t" q] ft by (auto simp: snds.simps)
    then show ?thesis by (simp add: ft)
  qed
  then show ?case using Await.prems by (auto simp: ok_Await intro: ok_await)
qed

lemma ok_and_then:
  assumes "ok I C Q (m s)" and "\<And>v t. Q (Inr v) t \<Longrightarrow> I t \<Longrightarrow> ok I C R (k v t)" and "\<And>e t. Q (Inl e) t \<Longrightarrow> R (Inl e) t"
  shows "ok I C R (and_then m k s)"
proof -
  obtain t p where ms: "m s = (t, p)" by fastforce
  have "ok I C R (go_on (case_sum fail k) p t)"
    using assms(1) unfolding ms
    by (rule ok_go_on) (auto simp: fail_def assms(2,3) split: sum.split)
  then show ?thesis by (simp add: and_then_def ms)
qed

lemma ok_give [simp]: "ok I C Q (give r s) \<longleftrightarrow> I s \<and> Q (Inr r) s"
  by (simp add: give_def)

lemma ok_fail [simp]: "ok I C Q (fail e s) \<longleftrightarrow> I s \<and> Q (Inl e) s"
  by (simp add: fail_def)

lemma ok_upd [simp]: "ok I C Q (upd f s) \<longleftrightarrow> I (f s) \<and> Q (Inr ()) (f s)"
  by (simp add: upd_def)

lemma ok_look [simp]: "ok I C Q (look k s) \<longleftrightarrow> ok I C Q (k s s)"
  by (simp add: look_def)

lemma ok_wait_for: "I s \<Longrightarrow> C c s \<Longrightarrow> (\<And>a t. I t \<Longrightarrow> Q (Inr a) t) \<Longrightarrow> ok I C Q (wait_for c s)"
  unfolding wait_for_def by (rule ok_await) auto

lemma ok_weaken: "ok I C Q p \<Longrightarrow> (\<And>r t. Q r t \<Longrightarrow> I t \<Longrightarrow> R r t) \<Longrightarrow> ok I C R p"
  by (induction rule: ok.induct) (auto intro: ok.intros)

text \<open>Running what does not wait.\<close>

lemma and_then_simps [simp]:
  "and_then (give v) k s = k v s"
  "and_then (fail e) k1 s = (s, Done (Inl e))"
  "and_then (upd f) k2 s = k2 () (f s)"
  "and_then (look j) k3 s = and_then (j s) k3 s"
  by (simp_all add: and_then_def give_def fail_def upd_def look_def)

lemma go_on_go_on: "go_on k (snd (go_on j p s)) (fst (go_on j p s)) = go_on (\<lambda>r t. case j r t of (t', q) \<Rightarrow> go_on k q t') p s"
proof (induction p arbitrary: s)
  case (Await c f)
  have "(case map_prod id (go_on k) (case map_prod id (go_on j) (f a t) of (t', rest) \<Rightarrow> rest t') of (t', rest) \<Rightarrow> rest t') =
    (case map_prod id (go_on (\<lambda>r t. case j r t of (t', q) \<Rightarrow> go_on k q t')) (f a t) of (t', rest) \<Rightarrow> rest t')" for a t
    using Await [of "f a" "f a t" "snd (f a t)" "fst (f a t)"] by (simp add: case_prod_beta snds.simps rangeI)
  then show ?case by simp
qed (simp add: case_prod_beta)

lemma and_then_assoc: "and_then (and_then m j) k s = and_then m (\<lambda>v. and_then (j v) k) s"
proof -
  obtain t p where m: "m s = (t, p)" by fastforce
  have "(\<lambda>r u. case case_sum fail j r u of (t', q) \<Rightarrow> go_on (case_sum fail k) q t') = case_sum fail (\<lambda>v. and_then (j v) k)"
    by (intro ext) (simp add: and_then_def fail_def split: sum.split)
  then show ?thesis using go_on_go_on [of "case_sum fail k" "case_sum fail j" p t] by (simp add: and_then_def m case_prod_beta)
qed

lemma and_then_wait: "and_then (wait_for c) k s = (s, Await c k)"
  by (simp add: and_then_def wait_for_def)

text \<open>A function that keeps the state, and asks only for what it may, whatever is left to it.\<close>

definition keeps :: "('s \<Rightarrow> bool) \<Rightarrow> ('c \<Rightarrow> bool) \<Rightarrow> ('e, 'c, 'a, 's, 'r) act \<Rightarrow> bool" where
  "keeps I C m \<longleftrightarrow> (\<forall>s. I s \<longrightarrow> ok I (\<lambda>c _. C c) (\<lambda>_ _. True) (m s))"

named_theorems keeps_rules

lemma keeps_give [keeps_rules]: "keeps I C (give v)"
  by (simp add: keeps_def)

lemma keeps_fail [keeps_rules]: "keeps I C (fail e)"
  by (simp add: keeps_def)

lemma keeps_upd [keeps_rules]: "(\<And>s. I s \<Longrightarrow> I (f s)) \<Longrightarrow> keeps I C (upd f)"
  by (simp add: keeps_def)

lemma keeps_look [keeps_rules]: "(\<And>s. I s \<Longrightarrow> keeps I C (k s)) \<Longrightarrow> keeps I C (look k)"
  by (auto simp: keeps_def)

lemma keeps_wait [keeps_rules]: "C c \<Longrightarrow> keeps I C (wait_for c)"
  unfolding keeps_def by (auto intro: ok_wait_for)

lemma keeps_then [keeps_rules]: "keeps I C m \<Longrightarrow> (\<And>v. keeps I C (k v)) \<Longrightarrow> keeps I C (and_then m k)"
  unfolding keeps_def by (auto intro: ok_and_then [where Q = "\<lambda>_ _. True"])

lemma keeps_sum: "(\<And>e. keeps I C (f e)) \<Longrightarrow> (\<And>v. keeps I C (g v)) \<Longrightarrow> keeps I C (case_sum f g r)"
  by (cases r) auto

section \<open>Worlds\<close>

record ('e, 'c, 'a, 's, 'r) world =
  wd_state :: 's
  wd_tasks :: "(nat \<times> ('a \<Rightarrow> 's \<Rightarrow> 's \<times> ('e, 'c, 'a, 's, 'r) proc)) list"
  wd_commands :: "(nat \<times> 'c) list"

definition new_world :: "'s \<Rightarrow> ('e, 'c, 'a, 's, 'r) world" where
  "new_world s = \<lparr>wd_state = s, wd_tasks = [], wd_commands = []\<rparr>"

text \<open>What a function did up to its next await, and where it waits. Commands are numbered in their order.\<close>

fun proceed :: "'s \<times> ('e, 'c, 'a, 's, 'r) proc \<Rightarrow> ('e, 'c, 'a, 's, 'r) world \<Rightarrow> ('e, 'c, 'a, 's, 'r) world" where
  "proceed (s, Done r) w = w\<lparr>wd_state := s\<rparr>"
| "proceed (s, Await c f) w =
     (let i = length (wd_commands w) in
      w\<lparr>wd_state := s, wd_tasks := wd_tasks w @ [(i, f)], wd_commands := wd_commands w @ [(i, c)]\<rparr>)"

datatype ('ev, 'a) happening = Event 'ev | Answer nat 'a

fun world_step :: "('ev \<Rightarrow> ('e, 'c, 'a, 's, 'r) act) \<Rightarrow> ('ev, 'a) happening \<Rightarrow> ('e, 'c, 'a, 's, 'r) world \<Rightarrow> ('e, 'c, 'a, 's, 'r) world" where
  "world_step handler (Event ev) w = proceed (handler ev (wd_state w)) w"
| "world_step handler (Answer i a) w =
     (case map_of (wd_tasks w) i of
        None \<Rightarrow> w
      | Some f \<Rightarrow> proceed (f a (wd_state w)) (w\<lparr>wd_tasks := filter (\<lambda>(j, g). j \<noteq> i) (wd_tasks w)\<rparr>))"

locale async_program =
  fixes handler :: "'ev \<Rightarrow> ('e, 'c, 'a, 's, 'r) act"
    and start :: 's
    and I :: "'s \<Rightarrow> bool"
    and C :: "'c \<Rightarrow> bool"
  assumes start_ok: "I start"
    and handler_ok: "keeps I C (handler ev)"
begin

definition world_ok :: "('e, 'c, 'a, 's, 'r) world \<Rightarrow> bool" where
  "world_ok w \<longleftrightarrow> I (wd_state w) \<and> (\<forall>(i, c) \<in> set (wd_commands w). C c) \<and>
     (\<forall>(i, f) \<in> set (wd_tasks w). \<forall>a t. I t \<longrightarrow> ok I (\<lambda>c _. C c) (\<lambda>_ _. True) (f a t))"

lemma proceed_ok: "ok I (\<lambda>c _. C c) (\<lambda>_ _. True) sp \<Longrightarrow> world_ok w \<Longrightarrow> world_ok (proceed sp w)"
  by (cases "(sp, w)" rule: proceed.cases) (auto simp: world_ok_def ok_Await Let_def)

lemma step_ok: "world_ok w \<Longrightarrow> world_ok (world_step handler h w)"
proof (cases h)
  case (Event ev)
  assume "world_ok w"
  then show ?thesis using handler_ok [of ev] by (simp add: Event proceed_ok keeps_def world_ok_def [of w])
next
  case (Answer i a)
  assume w: "world_ok w"
  show ?thesis
  proof (cases "map_of (wd_tasks w) i")
    case (Some f)
    then have "(i, f) \<in> set (wd_tasks w)" by (rule map_of_SomeD)
    with w have "ok I (\<lambda>c _. C c) (\<lambda>_ _. True) (f a (wd_state w))" by (auto simp: world_ok_def)
    moreover have "world_ok (w\<lparr>wd_tasks := filter (\<lambda>(j, g). j \<noteq> i) (wd_tasks w)\<rparr>)"
      using w by (auto simp: world_ok_def)
    ultimately show ?thesis by (simp add: Answer Some proceed_ok)
  qed (simp add: Answer w)
qed

lemma new_world_ok: "world_ok (new_world start)"
  by (simp add: world_ok_def new_world_def start_ok)

end

sublocale async_program \<subseteq> worlds: step_invariant "world_step handler" "new_world start" world_ok
  by unfold_locales (rule new_world_ok, rule step_ok)

context async_program
begin

lemma state_kept: "steps (world_step handler) (new_world start) w \<Longrightarrow> I (wd_state w)"
  using worlds.reached by (auto simp: world_ok_def)

lemma commands_ok: "steps (world_step handler) (new_world start) w \<Longrightarrow> (i, c) \<in> set (wd_commands w) \<Longrightarrow> C c"
  using worlds.reached by (auto simp: world_ok_def)

end

end
