(* ===== verification/SetupForm.thy ===== *)
theory SetupForm
  imports ProviderPresets PairPanel Async
begin

text \<open>
  The form that sets the desktop up, first part: desktop/src/legacy/provider-controller.ts with
  desktop/src/legacy/setup-form-sync.ts. The controller reads and writes the elements of the page; the
  store holds a copy of their values, which React renders into the elements again. Labels, hints and
  the texts of the guide are left out, of the guide its switches are kept.
\<close>

section \<open>State\<close>

text \<open>The values of the form's elements, and their copies in the store.\<close>

record form_fields =
  fd_showAdvanced :: bool
  fd_provider :: string
  fd_baseUrl :: string
  fd_apiKey :: string
  fd_model :: string
  fd_apiMode :: string
  fd_headers :: string
  fd_account :: string
  fd_gateway :: string
  fd_command :: string

definition initial_form :: form_fields where
  "initial_form = \<lparr>fd_showAdvanced = False, fd_provider = ''openai'', fd_baseUrl = [], fd_apiKey = [], fd_model = [],
     fd_apiMode = [], fd_headers = [], fd_account = [], fd_gateway = [], fd_command = ''openclaw''\<rparr>"

text \<open>The switches of \<open>ProviderGuideState\<close>.\<close>

record provider_guide =
  gd_authVisible :: bool
  gd_baseUrlVisible :: bool
  gd_cloudflareVisible :: bool
  gd_optionsVisible :: bool
  gd_fetchVisible :: bool

definition initial_guide :: provider_guide where
  "initial_guide = \<lparr>gd_authVisible = False, gd_baseUrlVisible = True, gd_cloudflareVisible = False, gd_optionsVisible = False, gd_fetchVisible = True\<rparr>"

record setup_summary =
  sm_provider :: string
  sm_model :: string
  sm_apiKey :: string
  sm_baseUrl :: string
  sm_command :: string
  sm_customApiMode :: string
  sm_customHeaders :: string
  sm_configPath :: string
  sm_isCustomProvider :: bool
  sm_skillsDirs :: "jsval list"
  sm_kernelStatus :: ui_text
  sm_doctorOutput :: ui_text

definition initial_summary :: setup_summary where
  "initial_summary = \<lparr>sm_provider = ''-'', sm_model = ''-'', sm_apiKey = ''********'', sm_baseUrl = ''-'', sm_command = ''openclaw'',
     sm_customApiMode = [], sm_customHeaders = ''-'', sm_configPath = ''-'', sm_isCustomProvider = False, sm_skillsDirs = [],
     sm_kernelStatus = Ui_plain ''-'', sm_doctorOutput = Ui_plain []\<rparr>"

text \<open>
  \<open>su_shown\<close> is the text of the message's element, \<open>su_message\<close> its copy in the store; the options are those
  of the list of providers; the items are those of the list of models.
\<close>

record desk =
  su_el :: form_fields
  su_options :: "string list"
  su_form :: form_fields
  su_formSkills :: "string list"
  su_message :: "ui_text \<times> string"
  su_shown :: "ui_text \<times> string"
  su_guide :: provider_guide
  su_summary :: setup_summary
  su_main :: bool
  su_platform :: string
  su_badge :: ui_text
  su_lang :: string
  su_rawConfig :: jsval
  su_appConfig :: jsval
  su_fetchKey :: string
  su_active :: string
  su_showAdvanced :: bool
  su_models :: "string list"
  su_dropdown :: bool
  su_query :: string
  su_items :: "string list"
  su_skillsDirs :: "string list"
  su_kernel :: jsval
  su_storedAdvanced :: "string option"
  su_storedModes :: "string option"
  su_storedLang :: "string option"
  su_location :: "string option"
  su_panel :: panel

text \<open>The host of the panel, and whether the shell is that of a Mac.\<close>

record setup_host =
  sh_panel :: panel_host
  sh_mac :: bool

abbreviation sh_web :: "setup_host \<Rightarrow> web" where
  "sh_web h \<equiv> ph_web (sh_panel h)"

definition new_setup :: "desk" where
  "new_setup = \<lparr>su_el = initial_form\<lparr>fd_provider := []\<rparr>, su_options = [], su_form = initial_form, su_formSkills = [],
     su_message = (Ui_plain [], []), su_shown = (Ui_plain [], []), su_guide = initial_guide, su_summary = initial_summary, su_main = False,
     su_platform = ''--'', su_badge = Ui_plain ''OpenClaw --'', su_lang = ''zh-CN'', su_rawConfig = JNull, su_appConfig = JNull,
     su_fetchKey = [], su_active = ''openai'', su_showAdvanced = False, su_models = [], su_dropdown = False, su_query = [], su_items = [],
     su_skillsDirs = [], su_kernel = JNull, su_storedAdvanced = None, su_storedModes = None, su_storedLang = None, su_location = None,
     su_panel = new_panel\<rparr>"

datatype setup_command =
    Backend string "(string \<times> jsval) list"
  | Open_dialog string
  | Open_path string
  | Copy_text string
  | Next_turn

type_synonym 'r setup_act = "(thrown, setup_command, thrown + jsval, desk, 'r) act"

text \<open>A promise that is awaited, an asynchronous function that is awaited, and a field of a value.\<close>

definition awaited :: "setup_command \<Rightarrow> jsval setup_act" where
  "awaited c = and_then (wait_for c) (case_sum fail give)"

abbreviation invoke :: "string \<Rightarrow> (string \<times> jsval) list \<Rightarrow> jsval setup_act" where
  "invoke cmd args \<equiv> awaited (Backend cmd args)"

definition awaiting :: "'r setup_act \<Rightarrow> ('r \<Rightarrow> 'q setup_act) \<Rightarrow> 'q setup_act" where
  "awaiting m k = and_then m (\<lambda>r. and_then (wait_for Next_turn) (\<lambda>_. k r))"

definition member :: "jsval \<Rightarrow> string \<Rightarrow> (jsval \<Rightarrow> 'r setup_act) \<Rightarrow> 'r setup_act" where
  "member v k rest = (if v = JUndef \<or> v = JNull then fail (Thrown_error ''TypeError'' []) else rest (js_get v k))"

section \<open>Elements and store\<close>

definition set_el :: "(form_fields \<Rightarrow> form_fields) \<Rightarrow> desk \<Rightarrow> desk" where
  "set_el f s = s\<lparr>su_el := f (su_el s)\<rparr>"

text \<open>The value of a list of options is empty unless it is one of them.\<close>

definition select_provider :: "string \<Rightarrow> desk \<Rightarrow> desk" where
  "select_provider v s = set_el (\<lambda>d. d\<lparr>fd_provider := (if v \<in> set (su_options s) then v else [])\<rparr>) s"

definition or_default :: "string \<Rightarrow> string \<Rightarrow> string" where
  "or_default d v = (if v = [] then d else v)"

text \<open>\<open>syncSetupFormFromElements\<close>; its callers leave out the switch, or the command.\<close>

definition syncSetupFormFromElements :: "bool \<Rightarrow> bool \<Rightarrow> desk \<Rightarrow> desk" where
  "syncSetupFormFromElements toggle command s =
     s\<lparr>su_form := (su_el s)\<lparr>fd_showAdvanced := toggle \<and> fd_showAdvanced (su_el s),
         fd_provider := or_default ''openai'' (fd_provider (su_el s)),
         fd_command := (if command then or_default ''openclaw'' (fd_command (su_el s)) else ''openclaw'')\<rparr>\<rparr>"

definition provider_sync :: "desk \<Rightarrow> desk" where
  "provider_sync = syncSetupFormFromElements True False"

definition syncDoctorOutputState :: "ui_text \<Rightarrow> desk \<Rightarrow> desk" where
  "syncDoctorOutputState message s = s\<lparr>su_summary := (su_summary s)\<lparr>sm_doctorOutput := message\<rparr>\<rparr>"

text \<open>The messages of the provider controller stay in the element (legacy-app.ts).\<close>

definition show_message :: "ui_text \<Rightarrow> string \<Rightarrow> desk \<Rightarrow> desk" where
  "show_message message type s = s\<lparr>su_shown := (message, type)\<rparr>"

text \<open>React renders the store into the elements.\<close>

definition render_form :: "desk \<Rightarrow> desk" where
  "render_form s = select_provider (fd_provider (su_form s)) (set_el (\<lambda>d. (su_form s)\<lparr>fd_provider := fd_provider d\<rparr>) s)"

section \<open>The provider controller\<close>

definition getActiveProviderPreset :: "desk \<Rightarrow> preset" where
  "getActiveProviderPreset s = getProviderPreset (or_default (fd_provider (su_el s)) (su_active s))"

definition el_mode :: "desk \<Rightarrow> string" where
  "el_mode s = normalizeCustomApiMode (JStr (js_trim (fd_apiMode (su_el s))))"

definition syncCloudflareBaseUrlFromInputs :: "desk \<Rightarrow> string \<times> desk" where
  "syncCloudflareBaseUrlFromInputs s =
     (if \<not> isCloudflarePreset (getActiveProviderPreset s) then (js_trim (fd_baseUrl (su_el s)), s)
      else let baseUrl = buildCloudflareBaseUrl (js_trim (fd_account (su_el s))) (js_trim (fd_gateway (su_el s))) (el_mode s)
           in (baseUrl, provider_sync (set_el (\<lambda>d. d\<lparr>fd_baseUrl := baseUrl\<rparr>) s)))"

definition hydrateCloudflareInputsFromBaseUrl :: "setup_host \<Rightarrow> string \<Rightarrow> desk \<Rightarrow> desk" where
  "hydrateCloudflareInputsFromBaseUrl h baseUrl s =
     (let parsed = parseCloudflareBaseUrl (sh_web h) baseUrl in
      provider_sync (set_el (\<lambda>d. d\<lparr>fd_account := (case parsed of Some c \<Rightarrow> cf_accountId c | None \<Rightarrow> []),
                                    fd_gateway := (case parsed of Some c \<Rightarrow> cf_gatewayId c | None \<Rightarrow> [])\<rparr>) s))"

definition resolveProviderBaseUrl :: "preset \<Rightarrow> desk \<Rightarrow> string \<times> desk" where
  "resolveProviderBaseUrl p s =
     (if isCloudflarePreset p then syncCloudflareBaseUrlFromInputs s else (js_trim (fd_baseUrl (su_el s)), s))"

text \<open>\<open>JSON.stringify(value, null, 2)\<close>.\<close>

definition pretty_lines :: "string \<Rightarrow> char \<Rightarrow> char \<Rightarrow> string list \<Rightarrow> string" where
  "pretty_lines indent a b items =
     (if items = [] then [a, b]
      else a # CHR 0x0A # indent @ ''  '' @ js_join (CHR '','' # CHR 0x0A # indent @ ''  '') items @ CHR 0x0A # indent @ [b])"

fun json_pretty :: "string \<Rightarrow> jsval \<Rightarrow> string" where
  "json_pretty indent (JArr vs) = pretty_lines indent (CHR ''['') (CHR '']'') (map (json_pretty (indent @ ''  '')) vs)"
| "json_pretty indent (JObj fs) = pretty_lines indent (CHR ''{'') (CHR ''}'')
     (concat (map (\<lambda>(k, v). if v = JUndef then [] else [json_quote k @ '': '' @ json_pretty (indent @ ''  '') v]) fs))"
| "json_pretty indent v = json_text v"

definition defaultCustomHeadersText :: string where
  "defaultCustomHeadersText = json_pretty [] DEFAULT_CUSTOM_HEADERS"

definition applyDefaultCustomHeadersIfNeeded :: "preset \<Rightarrow> desk \<Rightarrow> desk" where
  "applyDefaultCustomHeadersIfNeeded p s =
     (if \<not> pr_showCustomOptions p then provider_sync (set_el (\<lambda>d. d\<lparr>fd_headers := []\<rparr>) s)
      else if js_trim (fd_headers (su_el s)) = [] then provider_sync (set_el (\<lambda>d. d\<lparr>fd_headers := defaultCustomHeadersText\<rparr>) s)
      else provider_sync s)"

definition initProviderFilter :: "desk \<Rightarrow> desk" where
  "initProviderFilter s =
     (let show = (su_storedAdvanced s = Some ''1'') in
      provider_sync (set_el (\<lambda>d. d\<lparr>fd_showAdvanced := show\<rparr>) (s\<lparr>su_showAdvanced := show\<rparr>)))"

definition resolveFallbackApiKeyForPreset :: "preset \<Rightarrow> desk \<Rightarrow> string" where
  "resolveFallbackApiKeyForPreset p s =
     (if \<not> js_truthy (su_rawConfig s) \<or> detectProviderPresetId (su_rawConfig s) \<noteq> pr_id p then []
      else js_text (js_get (su_rawConfig s) ''apiKey''))"

text \<open>The modes that are remembered for the models, in the storage of the page.\<close>

definition customApiModeMemoryKey :: "preset \<Rightarrow> string \<Rightarrow> string" where
  "customApiModeMemoryKey p model =
     (let presetId = js_trim (pr_id p); modelId = js_lower (js_trim model) in
      if presetId = [] \<or> modelId = [] then [] else presetId @ ''::'' @ modelId)"

definition readCustomApiModeMemory :: "desk \<Rightarrow> jsval" where
  "readCustomApiModeMemory s =
     (case su_storedModes s of
        None \<Rightarrow> JObj []
      | Some raw \<Rightarrow>
          if raw = [] then JObj []
          else case json_parse raw of
                 Some parsed \<Rightarrow> if js_is_record parsed then parsed else JObj []
               | None \<Rightarrow> JObj [])"

definition writeCustomApiModeMemory :: "jsval \<Rightarrow> desk \<Rightarrow> desk" where
  "writeCustomApiModeMemory memory s = s\<lparr>su_storedModes := Some (json_text memory)\<rparr>"

definition getRememberedCustomApiModeForCurrentModel :: "preset \<Rightarrow> desk \<Rightarrow> string" where
  "getRememberedCustomApiModeForCurrentModel p s =
     (let key = customApiModeMemoryKey p (fd_model (su_el s)) in
      if \<not> pr_showCustomOptions p \<or> key = [] then []
      else normalizeCustomApiMode (js_or (js_get (readCustomApiModeMemory s) key) (JStr [])))"

definition js_delete :: "string \<Rightarrow> jsval \<Rightarrow> jsval" where
  "js_delete k v = (case v of JObj fs \<Rightarrow> JObj (filter (\<lambda>(j, x). j \<noteq> k) fs) | _ \<Rightarrow> v)"

definition rememberCustomApiModeForCurrentModel :: "preset \<Rightarrow> desk \<Rightarrow> desk" where
  "rememberCustomApiModeForCurrentModel p s =
     (let key = customApiModeMemoryKey p (fd_model (su_el s));
          mode = normalizeCustomApiMode (JStr (fd_apiMode (su_el s)));
          memory = readCustomApiModeMemory s in
      if \<not> pr_showCustomOptions p \<or> key = [] then s
      else writeCustomApiModeMemory (if mode \<noteq> [] then js_assign key (JStr mode) memory else js_delete key memory) s)"

definition put_mode :: "string \<Rightarrow> desk \<Rightarrow> desk" where
  "put_mode mode s = provider_sync (set_el (\<lambda>d. d\<lparr>fd_apiMode := mode\<rparr>) s)"

definition syncCustomApiModeForCurrentModel :: "bool \<Rightarrow> desk \<Rightarrow> desk" where
  "syncCustomApiModeForCurrentModel clearIfMissing s =
     (let p = getActiveProviderPreset s;
          remembered = getRememberedCustomApiModeForCurrentModel p s;
          current = normalizeCustomApiMode (JStr (fd_apiMode (su_el s))) in
      if \<not> pr_showCustomOptions p then put_mode [] s
      else if remembered \<noteq> [] then put_mode remembered s
      else if current \<noteq> [] \<and> \<not> clearIfMissing then put_mode current s
      else put_mode [] s)"

text \<open>The list of providers, grouped by their categories.\<close>

definition show_advanced :: "desk \<Rightarrow> desk" where
  "show_advanced s = set_el (\<lambda>d. d\<lparr>fd_showAdvanced := True\<rparr>) (s\<lparr>su_showAdvanced := True, su_storedAdvanced := Some ''1''\<rparr>)"

definition visible_presets :: "bool \<Rightarrow> preset list" where
  "visible_presets advanced = filter (\<lambda>p. advanced \<or> \<not> isAdvancedProviderPreset p) PROVIDER_PRESETS"

definition grouped_ids :: "preset list \<Rightarrow> string list" where
  "grouped_ids ps = concat (map (\<lambda>c. map pr_id (filter (\<lambda>p. pr_category p = c) ps)) (js_uniq (map pr_category ps)))"

definition populateProviderOptions :: "desk \<Rightarrow> desk" where
  "populateProviderOptions s =
     (let selected = or_default (or_default ''openai'' (su_active s)) (fd_provider (su_el s));
          s1 = (if isAdvancedProviderPreset (getProviderPreset selected) \<and> \<not> su_showAdvanced s then show_advanced s else s);
          visible = visible_presets (su_showAdvanced s1);
          s2 = select_provider
                 (if selected \<in> set (map pr_id visible) then selected else case visible of p # _ \<Rightarrow> pr_id p | [] \<Rightarrow> ''openai'')
                 (s1\<lparr>su_options := grouped_ids visible\<rparr>)
      in provider_sync (s2\<lparr>su_active := fd_provider (su_el s2)\<rparr>))"

text \<open>The models that are suggested.\<close>

definition closeModelDropdown :: "desk \<Rightarrow> desk" where
  "closeModelDropdown s = s\<lparr>su_query := [], su_dropdown := False\<rparr>"

definition getFilteredModelOptions :: "desk \<Rightarrow> string list" where
  "getFilteredModelOptions s =
     (let keyword = js_lower (js_trim (su_query s)) in
      if keyword = [] then take 200 (su_models s)
      else take 200 (filter (\<lambda>m. js_includes (js_lower m) keyword) (su_models s)))"

definition renderModelDropdown :: "desk \<Rightarrow> desk" where
  "renderModelDropdown s = s\<lparr>su_items := getFilteredModelOptions s\<rparr>"

definition openModelDropdown :: "desk \<Rightarrow> desk" where
  "openModelDropdown s =
     (if su_models s = [] then closeModelDropdown s
      else renderModelDropdown (s\<lparr>su_query := [], su_dropdown := True\<rparr>))"

fun distinct_models :: "string list \<Rightarrow> jsval list \<Rightarrow> string list" where
  "distinct_models seen [] = []"
| "distinct_models seen (m # ms) =
     (let i = js_text m in
      if i = [] \<or> js_lower i \<in> set seen then distinct_models seen ms
      else i # distinct_models (js_lower i # seen) ms)"

definition renderModelSuggestions :: "jsval list \<Rightarrow> desk \<Rightarrow> desk" where
  "renderModelSuggestions models s =
     (let s1 = set_el (\<lambda>d. d\<lparr>fd_model := js_trim (fd_model d)\<rparr>) (s\<lparr>su_models := distinct_models [] models\<rparr>);
          s2 = (if su_models s1 = [] then closeModelDropdown s1
                else if su_dropdown s1 then renderModelDropdown s1 else s1)
      in syncCustomApiModeForCurrentModel False s2)"

definition setModelValue :: "jsval \<Rightarrow> desk \<Rightarrow> desk" where
  "setModelValue v s = syncCustomApiModeForCurrentModel True (set_el (\<lambda>d. d\<lparr>fd_model := js_text v\<rparr>) s)"

definition pick_model :: "string \<Rightarrow> desk \<Rightarrow> desk" where
  "pick_model m s = (if m \<in> set (su_items s) then closeModelDropdown (setModelValue (JStr m) s) else s)"

text \<open>\<open>applyProviderPreset\<close>: the guide, the address, the options and the models of a preset.\<close>

definition preset_guide :: "preset \<Rightarrow> provider_guide" where
  "preset_guide p =
     \<lparr>gd_authVisible = getProviderLoginCommand p \<noteq> [], gd_baseUrlVisible = pr_showBaseUrl p, gd_cloudflareVisible = isCloudflarePreset p,
      gd_optionsVisible = pr_showCustomOptions p, gd_fetchVisible = pr_fetchModels p\<rparr>"

definition choose_preset :: "preset \<Rightarrow> desk \<Rightarrow> desk" where
  "choose_preset p s =
     (let s1 = (if isAdvancedProviderPreset p \<and> \<not> su_showAdvanced s then populateProviderOptions (show_advanced s) else s)
      in (select_provider (pr_id p) (s1\<lparr>su_active := pr_id p\<rparr>))\<lparr>su_guide := preset_guide p\<rparr>)"

definition preset_address :: "setup_host \<Rightarrow> bool \<Rightarrow> preset \<Rightarrow> desk \<Rightarrow> desk" where
  "preset_address h hydrate p s =
     (if \<not> pr_showBaseUrl p then set_el (\<lambda>d. d\<lparr>fd_baseUrl := [], fd_account := [], fd_gateway := []\<rparr>) s
      else let current = js_trim (fd_baseUrl (su_el s));
               s1 = (if \<not> hydrate \<and> (current = [] \<or> current = normalizeUrl (js_string_or [] (js_get (su_rawConfig s) ''baseUrl'')))
                     then set_el (\<lambda>d. d\<lparr>fd_baseUrl := pr_baseUrlDefault p\<rparr>) s else s);
               s2 = (if isCloudflarePreset p \<and> hydrate \<and> js_trim (fd_baseUrl (su_el s1)) \<noteq> []
                     then hydrateCloudflareInputsFromBaseUrl h (js_trim (fd_baseUrl (su_el s1))) s1 else s1)
           in if isCloudflarePreset p then snd (syncCloudflareBaseUrlFromInputs s2) else s2)"

definition preset_options :: "bool \<Rightarrow> preset \<Rightarrow> desk \<Rightarrow> desk" where
  "preset_options hydrate p s =
     (if \<not> pr_showCustomOptions p then set_el (\<lambda>d. d\<lparr>fd_apiMode := [], fd_headers := []\<rparr>) s
      else let normalized = el_mode s;
               s1 = applyDefaultCustomHeadersIfNeeded p (set_el (\<lambda>d. d\<lparr>fd_apiMode := normalized\<rparr>) s);
               s2 = (if \<not> hydrate \<or> normalized = [] then syncCustomApiModeForCurrentModel True s1 else s1)
           in if isCloudflarePreset p then snd (syncCloudflareBaseUrlFromInputs s2) else s2)"

definition preset_models :: "preset \<Rightarrow> desk \<Rightarrow> desk" where
  "preset_models p s =
     (let s1 = (if \<not> pr_keyRequired p \<and> pr_autoApiKey p \<noteq> [] \<and> js_trim (fd_apiKey (su_el s)) = []
                then set_el (\<lambda>d. d\<lparr>fd_apiKey := []\<rparr>) s else s)
      in (renderModelSuggestions [] s1)\<lparr>su_fetchKey := []\<rparr>)"

definition applyProviderPreset :: "setup_host \<Rightarrow> bool \<Rightarrow> string \<Rightarrow> desk \<Rightarrow> desk" where
  "applyProviderPreset h hydrate presetId s =
     (let p = getProviderPreset presetId;
          s1 = preset_options hydrate p (preset_address h hydrate p (choose_preset p s))
      in provider_sync (if hydrate then s1 else preset_models p s1))"

text \<open>The language of the page; the panel is drawn again.\<close>

definition applyI18n :: "setup_host \<Rightarrow> desk \<Rightarrow> desk" where
  "applyI18n h s =
     (let s1 = (if ph_available (sh_panel h) then s\<lparr>su_panel := updatePairButtons (syncPairStore (su_panel s))\<rparr> else s);
          selected = or_default (or_default ''openai'' (su_active s1)) (fd_provider (su_el s1))
      in applyProviderPreset h True selected (populateProviderOptions s1))"

definition initLanguage :: "setup_host \<Rightarrow> string \<Rightarrow> desk \<Rightarrow> desk" where
  "initLanguage h language s =
     (let saved = (case su_storedLang s of Some l \<Rightarrow> l | None \<Rightarrow> []) in
      applyI18n h (s\<lparr>su_lang :=
        (if saved \<in> {''zh-CN'', ''en-US''} then saved
         else if js_starts_with (js_lower language) ''zh'' then ''zh-CN'' else ''en-US'')\<rparr>))"

section \<open>The models of a provider\<close>

definition form_api_key :: "preset \<Rightarrow> desk \<Rightarrow> string" where
  "form_api_key p s =
     js_trim (or_default (or_default (if pr_keyRequired p then [] else pr_autoApiKey p) (resolveFallbackApiKeyForPreset p s))
       (js_trim (fd_apiKey (su_el s))))"

definition form_headers :: "preset \<Rightarrow> desk \<Rightarrow> string" where
  "form_headers p s = (if pr_showCustomOptions p then js_trim (fd_headers (su_el s)) else [])"

definition currentFetchKey :: "desk \<Rightarrow> string \<times> desk" where
  "currentFetchKey s =
     (let p = getActiveProviderPreset s in
      case resolveProviderBaseUrl p s of (baseUrl, s1) \<Rightarrow>
        (js_join ''||'' [pr_id p, baseUrl, form_api_key p s1, el_mode s1, form_headers p s1], s1))"

definition thrown_text :: "thrown \<Rightarrow> ui_text" where
  "thrown_text err =
     (case err of
        Thrown_error name message \<Rightarrow> Ui_plain (error_text name message)
      | Thrown_value v \<Rightarrow> if js_truthy v then Ui_plain (js_to_string v) else Ui_key ''kernel.unknown'' [])"

definition loud :: "bool \<Rightarrow> (desk \<Rightarrow> desk) \<Rightarrow> bool setup_act" where
  "loud silent f = after (if silent then give () else upd f) (give False)"

definition models_fetched :: "bool \<Rightarrow> string \<Rightarrow> jsval \<Rightarrow> bool setup_act" where
  "models_fetched silent key result =
     member result ''ok'' (\<lambda>good.
       let message = js_get result ''message'' in
       if \<not> js_truthy good then
         loud silent (syncDoctorOutputState (Ui_plain (js_trim (js_to_string message @ [CHR 0x0A, CHR 0x0A] @ js_string_or [] (js_get result ''detail'')))) \<circ>
           show_message (message_or message ''msg.fetchModelsFailed'') ''error'')
       else let models = js_array (js_get result ''models'') in
         after (upd (\<lambda>s. (renderModelSuggestions models s)\<lparr>su_fetchKey := key\<rparr>))
        (after (upd (\<lambda>s. if js_trim (fd_model (su_el s)) = [] \<and> models \<noteq> []
                         then provider_sync (set_el (\<lambda>d. d\<lparr>fd_model := js_to_string (hd models)\<rparr>) s) else s))
        (after (upd (\<lambda>s. if silent then s else show_message
             (if js_truthy message then Ui_plain (js_to_string message)
              else Ui_key ''msg.modelsFetched'' [(''count'', nat_digits (length models))]) ''success'' s))
          (give True))))"

definition fetchModels :: "bool \<Rightarrow> bool \<Rightarrow> bool setup_act" where
  "fetchModels silent force =
     look (\<lambda>s0. let p = getActiveProviderPreset s0 in
       case resolveProviderBaseUrl p s0 of (baseUrl, s1) \<Rightarrow>
       let apiKey = form_api_key p s1; mode = el_mode s1; headers = form_headers p s1 in
       after (upd (\<lambda>_. s1))
      (if pr_showCustomOptions p \<and> mode = [] then loud silent (show_message (Ui_key ''msg.customApiModeRequired'' []) ''error'')
       else if pr_runtimeProvider p \<noteq> ''custom'' \<or> \<not> pr_fetchModels p then loud silent (show_message (Ui_key ''msg.onlyCustomFetch'' []) ''error'')
       else if baseUrl = [] then loud silent (show_message (Ui_key ''msg.needBaseUrl'' []) ''error'')
       else case currentFetchKey s1 of (key, s2) \<Rightarrow>
         after (upd (\<lambda>_. s2))
        (if \<not> force \<and> key = su_fetchKey s2 then give True
         else after (if silent then give () else upd (show_message (Ui_key ''msg.fetchingModels'' []) []))
          (and_then (wait_for (Backend ''fetch_models'' [(''payload'', JObj
               [(''provider'', JStr (pr_runtimeProvider p)), (''baseUrl'', JStr baseUrl), (''apiKey'', JStr apiKey),
                (''customApiMode'', JStr mode), (''customHeadersJson'', JStr headers)])]))
            (case_sum
              (\<lambda>err. loud silent (syncDoctorOutputState (thrown_text err) \<circ> show_message (Ui_key ''msg.fetchModelsFailed'' []) ''error''))
              (models_fetched silent key))))))"

end
