(* ===== verification/SetupFlow.thy ===== *)
theory SetupFlow
  imports SetupForm
begin

text \<open>
  The form that sets the desktop up, second part: desktop/src/legacy/setup-controller.ts,
  desktop/src/legacy/shell-controller.ts and the events of desktop/src/legacy/event-binder.ts, with the
  actions of desktop/src/legacy/register-store-actions.ts. Its functions run together with the pairing
  panel, whose steps are events here.
\<close>

section \<open>The shell\<close>

definition syncSetupSkillsDirs :: "string list \<Rightarrow> desk \<Rightarrow> desk" where
  "syncSetupSkillsDirs dirs s =
     (let normalized = filter (\<lambda>d. d \<noteq> []) (map js_trim dirs) in s\<lparr>su_skillsDirs := normalized, su_formSkills := normalized\<rparr>)"

definition renderSkillsDirs :: "desk \<Rightarrow> desk" where
  "renderSkillsDirs s = s\<lparr>su_formSkills := su_skillsDirs s\<rparr>"

definition setSkillsDirs :: "string list \<Rightarrow> desk \<Rightarrow> desk" where
  "setSkillsDirs dirs s = renderSkillsDirs (syncSetupSkillsDirs dirs s)"

definition renderSummary :: "jsval \<Rightarrow> jsval \<Rightarrow> desk \<Rightarrow> desk" where
  "renderSummary config configPath s =
     (let label = pr_label (getProviderPreset (detectProviderPresetId config));
          headers = js_or (js_get config ''customHeaders'') (JObj []) in
      s\<lparr>su_summary := (su_summary s)
         \<lparr>sm_provider := (if label = [] then js_string_or ''-'' (js_get config ''provider'') else label),
          sm_model := js_string_or ''-'' (js_get config ''model''),
          sm_apiKey := js_string_or ''********'' (js_get config ''apiKeyMasked''),
          sm_baseUrl := js_string_or ''-'' (js_get config ''baseUrl''),
          sm_command := js_string_or ''openclaw'' (js_get config ''openclawCommand''),
          sm_customApiMode := normalizeCustomApiMode (js_get config ''customApiMode''),
          sm_customHeaders := (if js_fields headers = [] then ''-'' else json_text headers),
          sm_configPath := js_string_or ''-'' configPath,
          sm_isCustomProvider := (js_lower (js_text (js_get config ''provider'')) = ''custom''),
          sm_skillsDirs := js_array (js_get config ''skillsDirs'')\<rparr>\<rparr>)"

definition formatKernelStatus :: "jsval \<Rightarrow> ui_text" where
  "formatKernelStatus status =
     (let latestVersion = js_text (js_get status ''latestVersion'');
          version = js_string_or ''unknown'' (js_get status ''version'');
          source = js_text (js_get status ''source'');
          update = js_truthy (js_get status ''updateAvailable'') \<and> latestVersion \<noteq> [];
          both = [(''version'', version), (''latestVersion'', latestVersion)] in
      if \<not> js_truthy status then Ui_key ''kernel.unknown'' []
      else if js_truthy (js_get status ''installed'') then
        if source = ''bundled-kernel'' \<or> source = ''bundled-bin'' then
          if update then Ui_key ''kernel.bundledUpdate'' both else Ui_key ''kernel.bundled'' [(''version'', version)]
        else if source = ''managed-kernel'' then
          if update then Ui_key ''kernel.installedUpdate'' both else Ui_key ''kernel.installed'' [(''version'', version)]
        else Ui_key ''kernel.available'' [(''version'', version)]
      else if \<not> js_truthy (js_get status ''npmAvailable'') then Ui_key ''kernel.notInstalledNoNpm'' []
      else Ui_key ''kernel.notInstalled'' [])"

text \<open>The name of the program is cut off the version, with the spaces behind it.\<close>

definition badge_version :: "string \<Rightarrow> string" where
  "badge_version v =
     (let rest = drop 8 v in
      js_trim (if js_starts_with (js_lower v) ''openclaw'' \<and> rest \<noteq> [] \<and> js_space (hd rest) then dropWhile js_space rest else v))"

definition renderKernelVersionBadge :: "jsval \<Rightarrow> desk \<Rightarrow> desk" where
  "renderKernelVersionBadge status s =
     (let version = or_default (js_text (js_get status ''bundledVersion'')) (js_text (js_get status ''version''))
      in s\<lparr>su_badge := (if version = [] then Ui_key ''kernel.badgeUnknown'' []
                       else Ui_key ''kernel.badge'' [(''version'', or_default version (badge_version version))])\<rparr>)"

definition kernel_status :: "jsval \<Rightarrow> desk \<Rightarrow> desk" where
  "kernel_status status s =
     renderKernelVersionBadge status (s\<lparr>su_kernel := status, su_summary := (su_summary s)\<lparr>sm_kernelStatus := formatKernelStatus status\<rparr>\<rparr>)"

definition refreshKernelStatus :: "unit setup_act" where
  "refreshKernelStatus =
     and_then (wait_for (Backend ''get_kernel_status'' []))
       (case_sum (\<lambda>_. upd (kernel_status JNull)) (\<lambda>status. upd (kernel_status status)))"

definition refreshCustomInputs :: "setup_host \<Rightarrow> desk \<Rightarrow> desk" where
  "refreshCustomInputs h s =
     applyProviderPreset h True (or_default (or_default ''openai'' (su_active s)) (fd_provider (su_el s))) s"

section \<open>The setup controller\<close>

definition setSetupMessage :: "ui_text \<Rightarrow> string \<Rightarrow> desk \<Rightarrow> desk" where
  "setSetupMessage message type s = s\<lparr>su_shown := (message, type), su_message := (message, type)\<rparr>"

abbreviation setDoctorOutput :: "ui_text \<Rightarrow> desk \<Rightarrow> desk" where
  "setDoctorOutput \<equiv> syncDoctorOutputState"

definition setup_sync :: "desk \<Rightarrow> desk" where
  "setup_sync = syncSetupFormFromElements False True"

definition dedupeSkillsDirs :: "jsval \<Rightarrow> string list" where
  "dedupeSkillsDirs paths = js_uniq_vals (js_array paths)"

definition sync_panel_config :: "setup_host \<Rightarrow> jsval \<Rightarrow> desk \<Rightarrow> desk" where
  "sync_panel_config h raw s = s\<lparr>su_panel := syncPairConfigState (sh_panel h) raw (su_panel s)\<rparr>"

definition take_raw_config :: "setup_host \<Rightarrow> jsval \<Rightarrow> desk \<Rightarrow> desk" where
  "take_raw_config h raw s = sync_panel_config h raw (s\<lparr>su_appConfig := js_or raw JNull, su_rawConfig := js_or raw JNull\<rparr>)"

text \<open>\<open>hydrateSetupForm\<close>: what a saved configuration says of the provider, the options and the address.\<close>

definition fill_provider :: "setup_host \<Rightarrow> jsval \<Rightarrow> desk \<Rightarrow> desk" where
  "fill_provider h raw s =
     (let presetId = detectProviderPresetId (js_or raw (JObj []));
          s1 = applyProviderPreset h True presetId (select_provider presetId s);
          p = getActiveProviderPreset s1
      in set_el (\<lambda>d. d\<lparr>fd_baseUrl := (if pr_showBaseUrl p then js_string_or (pr_baseUrlDefault p) (js_get raw ''baseUrl'') else []),
                       fd_command := js_string_or ''openclaw'' (js_get raw ''openclawCommand'')\<rparr>)
           (setModelValue (js_get raw ''model'') s1))"

definition fill_options :: "setup_host \<Rightarrow> preset \<Rightarrow> jsval \<Rightarrow> desk \<Rightarrow> desk" where
  "fill_options h p raw s =
     (let mode = (if pr_showCustomOptions p then normalizeCustomApiMode (js_get raw ''customApiMode'') else []);
          s1 = set_el (\<lambda>d. d\<lparr>fd_apiMode := mode\<rparr>) s;
          s2 = (if pr_showCustomOptions p \<and> mode \<noteq> [] then rememberCustomApiModeForCurrentModel p s1
                else if pr_showCustomOptions p then syncCustomApiModeForCurrentModel True s1 else s1);
          headers = js_get raw ''customHeaders'';
          s3 = set_el (\<lambda>d. d\<lparr>fd_headers :=
                 (if \<not> pr_showCustomOptions p then []
                  else if js_truthy headers \<and> js_fields headers \<noteq> [] then json_pretty [] headers
                  else defaultCustomHeadersText)\<rparr>) s2
      in if \<not> isCloudflarePreset p then s3
         else case resolveProviderBaseUrl p (hydrateCloudflareInputsFromBaseUrl h (js_trim (fd_baseUrl (su_el s3))) s3) of
                (baseUrl, s4) \<Rightarrow> set_el (\<lambda>d. d\<lparr>fd_baseUrl := baseUrl\<rparr>) s4)"

definition fill_form :: "setup_host \<Rightarrow> jsval \<Rightarrow> bool \<Rightarrow> desk \<Rightarrow> preset \<times> desk" where
  "fill_form h raw hydrateApiKey s =
     (let s1 = fill_provider h raw s;
          p = getActiveProviderPreset s1;
          s2 = set_el (\<lambda>d. d\<lparr>fd_apiKey := (if hydrateApiKey then js_string_or [] (js_get raw ''apiKey'') else [])\<rparr>) (fill_options h p raw s1);
          s3 = refreshCustomInputs h (setSkillsDirs (dedupeSkillsDirs (js_get raw ''skillsDirs'')) s2)
      in (p, setup_sync ((renderModelSuggestions [] s3)\<lparr>su_fetchKey := []\<rparr>)))"

definition fetch_if_possible :: "preset \<Rightarrow> unit setup_act" where
  "fetch_if_possible p =
     (if \<not> pr_fetchModels p \<or> pr_runtimeProvider p \<noteq> ''custom'' then give ()
      else look (\<lambda>s. case resolveProviderBaseUrl p s of (baseUrl, s') \<Rightarrow>
        after (upd (\<lambda>_. s')) (if baseUrl = [] then give () else awaiting (fetchModels True False) (\<lambda>_. give ()))))"

definition hydrateSetupForm :: "setup_host \<Rightarrow> jsval \<Rightarrow> bool \<Rightarrow> unit setup_act" where
  "hydrateSetupForm h raw hydrateApiKey =
     awaiting (upd (take_raw_config h raw)) (\<lambda>_.
       look (\<lambda>s. case fill_form h raw hydrateApiKey s of (p, s') \<Rightarrow> after (upd (\<lambda>_. s')) (fetch_if_possible p)))"

definition loadState :: "setup_host \<Rightarrow> unit setup_act" where
  "loadState h =
     and_then (invoke ''get_state'' []) (\<lambda>state. member state ''platform'' (\<lambda>platform.
       after (upd (\<lambda>s. s\<lparr>su_platform := js_to_string platform @ '' | v'' @ js_to_string (js_get state ''version'')\<rparr>))
      (if js_truthy (js_get state ''isConfigured'') \<and> js_truthy (js_get state ''config'') then
         and_then (invoke ''read_raw_config'' []) (\<lambda>latest.
         awaiting (upd (take_raw_config h latest)) (\<lambda>_.
         and_then (invoke ''get_config_path'' []) (\<lambda>path.
         after (upd (renderSummary (js_get state ''config'') path))
        (awaiting refreshKernelStatus (\<lambda>_. upd (\<lambda>s. setup_sync (s\<lparr>su_main := True\<rparr>)))))))
       else awaiting (hydrateSetupForm h (js_or (js_get state ''config'') JNull) False) (\<lambda>_.
              awaiting refreshKernelStatus (\<lambda>_. upd (\<lambda>s. s\<lparr>su_main := False\<rparr>))))))"

text \<open>A directory that is chosen, or nothing.\<close>

definition chosen_dir :: "jsval \<Rightarrow> string option" where
  "chosen_dir selected = (case selected of JArr vs \<Rightarrow> None | _ \<Rightarrow> if js_truthy selected then Some (js_to_string selected) else None)"

definition add_dir :: "string \<Rightarrow> desk \<Rightarrow> desk" where
  "add_dir dir s = setSkillsDirs (dedupeSkillsDirs (JArr (map JStr (su_skillsDirs s @ [dir])))) s"

definition addSkillDir :: "bool setup_act" where
  "addSkillDir =
     and_then (awaited (Open_dialog ''dialog.selectSkillsDir'')) (\<lambda>selected.
       case chosen_dir selected of None \<Rightarrow> give False | Some dir \<Rightarrow> after (upd (add_dir dir)) (give True))"

definition install_skills_at :: "string \<Rightarrow> bool setup_act" where
  "install_skills_at targetDir =
     after (upd (setSetupMessage (Ui_key ''msg.importingSkills'' []) []))
    (and_then (invoke ''install_default_skills'' [(''targetDir'', JStr targetDir)]) (\<lambda>result.
     member result ''ok'' (\<lambda>good.
       if \<not> js_truthy good
       then after (upd (setSetupMessage (message_or (js_get result ''message'') ''msg.importFailed'') ''error'')) (give False)
       else after (upd (setSetupMessage (Ui_key ''msg.importedSkills'' [(''path'', js_to_string (js_get result ''copiedTo''))]) ''success''))
              (give True))))"

definition installDefaultSkills :: "bool setup_act" where
  "installDefaultSkills =
     look (\<lambda>s. case su_skillsDirs s of
       dir # _ \<Rightarrow> install_skills_at dir
     | [] \<Rightarrow>
         and_then (awaited (Open_dialog ''dialog.selectDefaultSkillsTarget'')) (\<lambda>selected.
           case chosen_dir selected of
             None \<Rightarrow> give False
           | Some dir \<Rightarrow> after (upd (add_dir dir)) (install_skills_at dir)))"

definition with_detail :: "jsval \<Rightarrow> string \<Rightarrow> ui_text" where
  "with_detail message detail = Ui_plain (js_trim (js_to_string message @ (if detail = [] then [] else [CHR 0x0A, CHR 0x0A] @ detail)))"

text \<open>\<open>navigateCurrentWindowToOpenClaw\<close> throws for what is no URL.\<close>

definition navigateCurrentWindowToOpenClaw :: "setup_host \<Rightarrow> string \<Rightarrow> unit setup_act" where
  "navigateCurrentWindowToOpenClaw h rawUrl =
     (if js_trim rawUrl = [] then fail (new_error ''dashboard url is empty'')
      else case new_url (sh_web h) (js_trim rawUrl) of
             Inl err \<Rightarrow> fail (Thrown_error ''TypeError'' err)
           | Inr u \<Rightarrow> upd (\<lambda>s. s\<lparr>su_location := Some (url_text u)\<rparr>))"

definition openOpenClawWeb :: "setup_host \<Rightarrow> bool setup_act" where
  "openOpenClawWeb h =
     and_then (invoke (if sh_mac h then ''get_dashboard_url'' else ''open_dashboard_window'') []) (\<lambda>result.
     member result ''ok'' (\<lambda>good.
       let url = js_text (js_get result ''detail'') in
       if \<not> js_truthy good then
         after (upd (\<lambda>s. setDoctorOutput (with_detail (js_get result ''message'') url)
           (setSetupMessage (message_or (js_get result ''message'') ''msg.enterWebFailed'') ''error'' s))) (give False)
       else if \<not> js_starts_with url ''http://'' \<and> \<not> js_starts_with url ''https://'' then
         after (upd (\<lambda>s. setDoctorOutput (if url = [] then Ui_key ''msg.noDashboardUrl'' [] else Ui_plain url)
           (setSetupMessage (Ui_key ''msg.invalidDashboardUrl'' []) ''error'' s))) (give False)
       else if sh_mac h then after (navigateCurrentWindowToOpenClaw h url) (give True)
       else after (upd (\<lambda>s. setDoctorOutput (Ui_key ''msg.openclawWeb'' [(''url'', url)])
           (setSetupMessage (Ui_key ''msg.enteringWeb'' []) ''success'' s))) (give True)))"

text \<open>
  \<open>saveConfigAndEnter\<close>: the values of the form, what it refuses before and after it asks for the
  authorization of a provider, and what follows when the configuration is saved. The detail of an
  invalid text of headers is the key of its message, and that of the parser's own error \<open>syntax\<close>.
\<close>

record save_values =
  sv_preset :: preset
  sv_apiKey :: string
  sv_model :: string
  sv_baseUrl :: string
  sv_mode :: string
  sv_headers :: string

definition headers_error :: "string \<Rightarrow> string option" where
  "headers_error text =
     (case json_parse text of
        None \<Rightarrow> Some ''syntax''
      | Some (JObj fs) \<Rightarrow> if list_ex (\<lambda>(k, v). \<not> (case v of JStr t \<Rightarrow> True | _ \<Rightarrow> False)) fs then Some ''msg.headerValueMustString'' else None
      | Some v \<Rightarrow> Some ''msg.headersMustObject'')"

definition save_values_of :: "desk \<Rightarrow> save_values \<times> desk" where
  "save_values_of s =
     (let p = getActiveProviderPreset s;
          apiKey = or_default (resolveFallbackApiKeyForPreset p s) (js_trim (fd_apiKey (su_el s)));
          model = js_trim (fd_model (su_el s))
      in case resolveProviderBaseUrl p s of (baseUrl, s1) \<Rightarrow>
        (\<lparr>sv_preset = p, sv_apiKey = apiKey, sv_model = model, sv_baseUrl = baseUrl, sv_mode = el_mode s1, sv_headers = form_headers p s1\<rparr>, s1))"

definition refused :: "string \<Rightarrow> bool setup_act" where
  "refused key = after (upd (setSetupMessage (Ui_key key []) ''error'')) (give False)"

definition save_payload_of :: "save_values \<Rightarrow> string \<Rightarrow> desk \<Rightarrow> jsval" where
  "save_payload_of v apiKey s =
     (let p = sv_preset v in
      JObj [(''provider'', JStr (pr_runtimeProvider p)), (''model'', JStr (sv_model v)),
        (''baseUrl'', JStr (if pr_showBaseUrl p then sv_baseUrl v else [])), (''apiKey'', JStr apiKey),
        (''customApiMode'', JStr (if pr_showCustomOptions p then sv_mode v else [])),
        (''customHeadersJson'', JStr (if pr_showCustomOptions p then sv_headers v else [])),
        (''openclawCommand'', JStr (fd_command (su_el s))), (''skillsDirs'', JArr (map JStr (su_skillsDirs s)))])"

definition install_kernel_if_needed :: "unit setup_act" where
  "install_kernel_if_needed =
     look (\<lambda>s. let cmd = js_lower (js_trim (fd_command (su_el s))) in
       if \<not> js_truthy (js_get (su_kernel s) ''installed'') \<and> (cmd = [] \<or> cmd = ''openclaw'') then
         after (upd (setSetupMessage (Ui_key ''msg.autoInstallingKernel'' []) []))
        (and_then (invoke ''install_or_update_kernel'' []) (\<lambda>result. member result ''ok'' (\<lambda>good.
           if \<not> js_truthy good
           then upd (setSetupMessage (Ui_key ''msg.autoKernelFailed'' [(''message'', js_to_string (js_get result ''message''))]) ''error'')
           else upd (setSetupMessage (Ui_key ''msg.configAndKernelReady'' []) ''success''))))
       else upd (setSetupMessage (Ui_key ''msg.enteringApp'' []) ''success''))"

definition config_saved :: "setup_host \<Rightarrow> preset \<Rightarrow> bool setup_act" where
  "config_saved h p =
     after (upd (\<lambda>s. setSetupMessage (Ui_key ''msg.saveSuccess'' []) [] (rememberCustomApiModeForCurrentModel p s)))
    (awaiting refreshKernelStatus (\<lambda>_.
     after install_kernel_if_needed
    (awaiting (openOpenClawWeb h) (\<lambda>opened.
     if opened then give True else awaiting (loadState h) (\<lambda>_. give True)))))"

definition send_config :: "setup_host \<Rightarrow> save_values \<Rightarrow> bool setup_act" where
  "send_config h v =
     (let p = sv_preset v;
          apiKey = (if sv_apiKey v = [] \<and> \<not> pr_keyRequired p then or_default ''local'' (pr_autoApiKey p) else sv_apiKey v) in
      if pr_showBaseUrl p \<and> pr_baseUrlRequired p \<and> sv_baseUrl v = [] then refused ''msg.baseUrlRequiredForProvider''
      else if apiKey = [] \<and> pr_keyRequired p then refused ''msg.apiKeyRequiredForProvider''
      else case (if pr_runtimeProvider p = ''custom'' \<and> pr_showCustomOptions p \<and> sv_headers v \<noteq> [] then headers_error (sv_headers v) else None) of
        Some detail \<Rightarrow> after (upd (setSetupMessage (Ui_key ''msg.headersJsonInvalid'' [(''detail'', detail)]) ''error'')) (give False)
      | None \<Rightarrow> look (\<lambda>s.
          after (upd (setSetupMessage (Ui_key ''msg.savingConfig'' []) []))
         (and_then (invoke ''save_config'' [(''payload'', save_payload_of v apiKey s)]) (\<lambda>result. member result ''ok'' (\<lambda>good.
            if \<not> js_truthy good
            then after (upd (setSetupMessage (message_or (js_get result ''message'') ''msg.saveFailed'') ''error'')) (give False)
            else config_saved h p)))))"

definition check_auth :: "preset \<Rightarrow> bool setup_act \<Rightarrow> bool setup_act" where
  "check_auth p rest =
     (if \<not> isManagedAuthPreset p then rest
      else after (upd (setSetupMessage (Ui_key ''msg.authChecking'' []) []))
       (and_then (invoke ''check_provider_auth'' [(''provider'', JStr (or_default (pr_id p) (pr_runtimeProvider p)))]) (\<lambda>auth.
          if js_truthy (js_get auth ''ok'') then rest
          else after (upd (\<lambda>s. setDoctorOutput (Ui_plain (js_string_or [] (js_get auth ''detail'')))
                 (setSetupMessage (message_or (js_get auth ''message'') ''msg.authNotReady'') ''error'' s))) (give False))))"

definition saveConfigAndEnter :: "setup_host \<Rightarrow> bool setup_act" where
  "saveConfigAndEnter h =
     look (\<lambda>s0. case save_values_of s0 of (v, s) \<Rightarrow>
       let p = sv_preset v in
       after (upd (\<lambda>_. s))
      (if isCloudflarePreset p \<and> js_trim (fd_account (su_el s)) = [] then refused ''msg.cloudflareAccountIdRequired''
       else if isCloudflarePreset p \<and> js_trim (fd_gateway (su_el s)) = [] then refused ''msg.cloudflareGatewayIdRequired''
       else if sv_model v = [] then refused ''msg.modelRequired''
       else if pr_showCustomOptions p \<and> sv_mode v = [] then refused ''msg.customApiModeRequired''
       else check_auth p (send_config h v)))"

definition handleKernelInstall :: "string \<Rightarrow> bool setup_act" where
  "handleKernelInstall label =
     after (upd (setSetupMessage (Ui_key ''msg.runningAction'' [(''label'', label)]) []))
    (and_then (invoke ''install_or_update_kernel'' []) (\<lambda>result. member result ''ok'' (\<lambda>good.
       let message = js_get result ''message''; detail = js_string_or [] (js_get result ''detail'');
           output = Ui_plain (js_trim (js_to_string message @ [CHR 0x0A, CHR 0x0A] @ detail)) in
       if \<not> js_truthy good then
         after (upd (\<lambda>s. setDoctorOutput output (setSetupMessage (Ui_key ''msg.actionFailed'' [(''label'', label), (''message'', js_to_string message)]) ''error'' s)))
        (awaiting refreshKernelStatus (\<lambda>_. give False))
       else
         after (upd (\<lambda>s. setDoctorOutput output (setSetupMessage
            (if js_truthy message then Ui_plain (js_to_string message) else Ui_key ''msg.actionCompleted'' [(''label'', label)]) ''success'' s)))
        (awaiting refreshKernelStatus (\<lambda>_. give True)))))"

definition runDoctor :: "unit setup_act" where
  "runDoctor =
     after (upd (setDoctorOutput (Ui_key ''msg.checkingCommand'' [])))
    (and_then (invoke ''run_doctor'' []) (\<lambda>result. member result ''message'' (\<lambda>message.
       upd (setDoctorOutput (Ui_plain (js_trim (js_to_string message @ [CHR 0x0A, CHR 0x0A] @ js_string_or [] (js_get result ''detail''))))))))"

definition openFirstSkillDir :: "bool setup_act" where
  "openFirstSkillDir =
     and_then (invoke ''get_state'' []) (\<lambda>state.
       case js_array (js_get (js_get state ''config'') ''skillsDirs'') of
         dir # _ \<Rightarrow>
           if js_truthy dir then and_then (awaited (Open_path (js_to_string dir))) (\<lambda>_. give True)
           else after (upd (setDoctorOutput (Ui_key ''msg.noSkillDirToOpen'' []))) (give False)
       | [] \<Rightarrow> after (upd (setDoctorOutput (Ui_key ''msg.noSkillDirToOpen'' []))) (give False))"

definition reconfigureFromSavedConfig :: "setup_host \<Rightarrow> bool setup_act" where
  "reconfigureFromSavedConfig h =
     and_then (invoke ''read_raw_config'' []) (\<lambda>raw.
     awaiting (hydrateSetupForm h (js_or raw JNull) True) (\<lambda>_.
     after (upd (\<lambda>s. (setSetupMessage (Ui_plain []) [] s)\<lparr>su_main := False\<rparr>)) (give True)))"

definition summary_payload :: "jsval \<Rightarrow> string \<Rightarrow> jsval" where
  "summary_payload current mode =
     JObj [(''provider'', js_or (js_get current ''provider'') (JStr ''custom'')),
       (''model'', js_or (js_get current ''model'') (JStr [])),
       (''baseUrl'', js_or (js_get current ''baseUrl'') (JStr [])),
       (''apiKey'', js_or (js_get current ''apiKey'') (JStr [])),
       (''customApiMode'', JStr mode),
       (''customHeadersJson'', JStr (if js_truthy (js_get current ''customHeaders'') then json_text (js_get current ''customHeaders'') else [])),
       (''openclawCommand'', js_or (js_get current ''openclawCommand'') (JStr ''openclaw'')),
       (''skillsDirs'', js_or (js_get current ''skillsDirs'') (JArr []))]"

definition saveSummaryCustomApiMode :: "string \<Rightarrow> bool setup_act" where
  "saveSummaryCustomApiMode nextMode =
     and_then (invoke ''read_raw_config'' []) (\<lambda>current.
       let mode = normalizeCustomApiMode (JStr nextMode) in
       if \<not> js_truthy current \<or> js_lower (js_text (js_get current ''provider'')) \<noteq> ''custom'' then give False
       else if mode = [] then after (upd (setDoctorOutput (Ui_key ''msg.customApiModeRequired'' []))) (give False)
       else and_then (invoke ''save_config'' [(''payload'', summary_payload current mode)]) (\<lambda>result. member result ''ok'' (\<lambda>good.
         if \<not> js_truthy good
         then after (upd (setDoctorOutput (message_or (js_get result ''message'') ''msg.saveFailed''))) (give False)
         else and_then (invoke ''get_state'' []) (\<lambda>state. member state ''isConfigured'' (\<lambda>configured.
           after (if js_truthy configured \<and> js_truthy (js_get state ''config'')
                  then and_then (invoke ''get_config_path'' []) (\<lambda>path. upd (renderSummary (js_get state ''config'') path))
                  else give ())
          (after (upd (setDoctorOutput (Ui_key ''msg.saveSuccess'' []))) (give True)))))))"

section \<open>Events (event-binder.ts)\<close>

definition binder_sync :: "desk \<Rightarrow> desk" where
  "binder_sync = syncSetupFormFromElements True True"

text \<open>
  The fields a user types in. A listener of the element runs before React copies its value to the store.
  Each button of the main view has a listener of the binder, and React's own, which runs an action of
  the store: \<open>Sv_native\<close> is the former, \<open>Sv_action\<close> the latter.
\<close>

datatype text_field = Fd_baseUrl | Fd_apiKey | Fd_model | Fd_headers | Fd_account | Fd_gateway | Fd_command

fun put_field :: "text_field \<Rightarrow> string \<Rightarrow> form_fields \<Rightarrow> form_fields" where
  "put_field Fd_baseUrl v d = d\<lparr>fd_baseUrl := v\<rparr>"
| "put_field Fd_apiKey v d = d\<lparr>fd_apiKey := v\<rparr>"
| "put_field Fd_model v d = d\<lparr>fd_model := v\<rparr>"
| "put_field Fd_headers v d = d\<lparr>fd_headers := v\<rparr>"
| "put_field Fd_account v d = d\<lparr>fd_account := v\<rparr>"
| "put_field Fd_gateway v d = d\<lparr>fd_gateway := v\<rparr>"
| "put_field Fd_command v d = d\<lparr>fd_command := v\<rparr>"

fun field_of :: "text_field \<Rightarrow> form_fields \<Rightarrow> string" where
  "field_of Fd_baseUrl d = fd_baseUrl d"
| "field_of Fd_apiKey d = fd_apiKey d"
| "field_of Fd_model d = fd_model d"
| "field_of Fd_headers d = fd_headers d"
| "field_of Fd_account d = fd_account d"
| "field_of Fd_gateway d = fd_gateway d"
| "field_of Fd_command d = fd_command d"

datatype main_button = Btn_openWeb | Btn_reconfigure | Btn_doctor | Btn_updateKernel | Btn_openSkillDir

datatype setup_event =
    Sv_start string
  | Sv_toggle bool
  | Sv_provider string
  | Sv_input text_field string
  | Sv_blur text_field
  | Sv_mode string
  | Sv_fetch
  | Sv_open_models
  | Sv_close_models
  | Sv_pick string
  | Sv_copy_command
  | Sv_language string
  | Sv_native main_button
  | Sv_action main_button
  | Sv_remove_dir string
  | Sv_add_dir
  | Sv_install_skills
  | Sv_install_kernel
  | Sv_save
  | Sv_summary_mode string
  | Sv_render
  | Sv_panel env panel_event

definition setCurrentLang :: "string \<Rightarrow> desk \<Rightarrow> desk" where
  "setCurrentLang l s = provider_sync (s\<lparr>su_lang := l\<rparr>)"

definition setActiveProviderId :: "string \<Rightarrow> desk \<Rightarrow> desk" where
  "setActiveProviderId i s =
     (let active = or_default ''openai'' i; s' = provider_sync (s\<lparr>su_active := active\<rparr>)
      in s'\<lparr>su_form := (su_form s')\<lparr>fd_provider := active\<rparr>\<rparr>)"

definition setShowAdvancedProviders :: "bool \<Rightarrow> desk \<Rightarrow> desk" where
  "setShowAdvancedProviders b s =
     (let s' = provider_sync (s\<lparr>su_showAdvanced := b\<rparr>) in s'\<lparr>su_form := (su_form s')\<lparr>fd_showAdvanced := b\<rparr>\<rparr>)"

text \<open>React's own listener of the switch runs at the click, before the change is told.\<close>

definition toggle_advanced :: "setup_host \<Rightarrow> bool \<Rightarrow> desk \<Rightarrow> desk" where
  "toggle_advanced h b s =
     (let s1 = set_el (\<lambda>d. d\<lparr>fd_showAdvanced := b\<rparr>) (s\<lparr>su_form := (su_form s)\<lparr>fd_showAdvanced := b\<rparr>\<rparr>);
          s2 = (setShowAdvancedProviders b s1)\<lparr>su_storedAdvanced := Some (if b then ''1'' else ''0'')\<rparr>;
          s3 = (if \<not> b \<and> isAdvancedProviderPreset (getActiveProviderPreset s2)
                then setActiveProviderId ''openai'' (select_provider ''openai'' s2) else s2);
          s4 = populateProviderOptions s3;
          s5 = set_el (\<lambda>d. d\<lparr>fd_apiKey := []\<rparr>) (applyProviderPreset h False (fd_provider (su_el s4)) s4)
      in binder_sync ((renderModelSuggestions [] (setModelValue (JStr []) s5))\<lparr>su_fetchKey := []\<rparr>))"

text \<open>React's listener of the list of providers, behind the binder's.\<close>

definition react_provider :: "desk \<Rightarrow> desk" where
  "react_provider s = s\<lparr>su_form := (su_form s)\<lparr>fd_provider := fd_provider (su_el s)\<rparr>\<rparr>"

definition choose_provider :: "setup_host \<Rightarrow> string \<Rightarrow> unit setup_act" where
  "choose_provider h v =
     look (\<lambda>s0.
       let s1 = select_provider v s0;
           s2 = applyProviderPreset h False (fd_provider (su_el s1)) s1;
           p = getActiveProviderPreset s2;
           s3 = setModelValue (JStr []) (set_el (\<lambda>d. d\<lparr>fd_apiKey := []\<rparr>) s2);
           s4 = set_el (\<lambda>d. d\<lparr>fd_baseUrl := (if pr_showBaseUrl p \<and> \<not> isCloudflarePreset p then pr_baseUrlDefault p else fd_baseUrl d),
                             fd_headers := (if pr_showCustomOptions p then defaultCustomHeadersText else fd_headers d)\<rparr>) s3;
           s5 = (if isCloudflarePreset p
                 then snd (resolveProviderBaseUrl p (set_el (\<lambda>d. d\<lparr>fd_account := [], fd_gateway := []\<rparr>) s4)) else s4)
       in after (upd (\<lambda>_. react_provider (binder_sync ((renderModelSuggestions [] s5)\<lparr>su_fetchKey := []\<rparr>)))) (fetch_if_possible p))"

definition react_field :: "text_field \<Rightarrow> desk \<Rightarrow> desk" where
  "react_field f s = s\<lparr>su_form := put_field f (field_of f (su_el s)) (su_form s)\<rparr>"

definition fetch_again :: "unit setup_act" where
  "fetch_again = awaiting (fetchModels True True) (\<lambda>_. give ())"

text \<open>What the binder's listener of a field does at once, and whether it fetches the models then.\<close>

definition cloudflare_changed :: "desk \<Rightarrow> desk" where
  "cloudflare_changed s =
     (let p = getActiveProviderPreset s in
      if \<not> isCloudflarePreset p then s else binder_sync (snd (resolveProviderBaseUrl p s)))"

fun typed :: "text_field \<Rightarrow> desk \<Rightarrow> desk" where
  "typed Fd_model s = binder_sync (syncCustomApiModeForCurrentModel True s)"
| "typed Fd_command s = binder_sync s"
| "typed Fd_account s = cloudflare_changed s"
| "typed Fd_gateway s = cloudflare_changed s"
| "typed f s = s"

definition input_field :: "text_field \<Rightarrow> string \<Rightarrow> unit setup_act" where
  "input_field f v =
     look (\<lambda>s0. let s = typed f (set_el (put_field f v) s0) in
       after (upd (\<lambda>_. react_field f s))
         (if f \<in> {Fd_account, Fd_gateway} \<and> isCloudflarePreset (getActiveProviderPreset s) then fetch_again else give ()))"

definition normalize_el_mode :: "desk \<Rightarrow> desk" where
  "normalize_el_mode s = set_el (\<lambda>d. d\<lparr>fd_apiMode := el_mode s\<rparr>) s"

definition resolve_if_cloudflare :: "preset \<Rightarrow> desk \<Rightarrow> desk" where
  "resolve_if_cloudflare p s = (if isCloudflarePreset p then snd (resolveProviderBaseUrl p s) else s)"

definition blur_field :: "text_field \<Rightarrow> unit setup_act" where
  "blur_field f =
     (case f of
        Fd_baseUrl \<Rightarrow>
          look (\<lambda>s. let p = getActiveProviderPreset s in
            after (upd (\<lambda>_. binder_sync (resolve_if_cloudflare p (normalize_el_mode (snd (resolveProviderBaseUrl p s)))))) fetch_again)
      | Fd_apiKey \<Rightarrow> after (upd binder_sync) fetch_again
      | Fd_headers \<Rightarrow> after (upd binder_sync) fetch_again
      | _ \<Rightarrow> give ())"

definition choose_mode :: "string \<Rightarrow> unit setup_act" where
  "choose_mode v =
     look (\<lambda>s0.
       let s = set_el (\<lambda>d. d\<lparr>fd_apiMode := (if v \<in> set SUPPORTED_CUSTOM_API_MODES then v else [])\<rparr>) s0;
           p = getActiveProviderPreset s;
           s' = binder_sync (resolve_if_cloudflare p (rememberCustomApiModeForCurrentModel p
                  (normalize_el_mode (snd (resolveProviderBaseUrl p s)))))
       in after (upd (\<lambda>_. s'\<lparr>su_form := (su_form s')\<lparr>fd_apiMode := fd_apiMode (su_el s')\<rparr>\<rparr>)) fetch_again)"

definition copy_command :: "unit setup_act" where
  "copy_command =
     look (\<lambda>s. let command = getProviderLoginCommand (getActiveProviderPreset s) in
       if command = [] then give ()
       else and_then (wait_for (Copy_text command))
         (case_sum (\<lambda>_. upd (show_message (Ui_key ''msg.loginCommandCopyFailed'' [(''cmd'', command)]) ''error''))
                   (\<lambda>_. upd (show_message (Ui_key ''msg.loginCommandCopied'' []) ''success''))))"

definition panel_status :: "setup_host \<Rightarrow> desk \<Rightarrow> desk" where
  "panel_status h s =
     (if \<not> ph_available (sh_panel h) then s
      else s\<lparr>su_panel := renderPairWsStatus
         (if isPairChannelOpen (su_panel s) then ''connected''
          else if isPairChannelConnecting (su_panel s) then ''connecting'' else ''disconnected'') (su_panel s)\<rparr>)"

definition choose_language :: "setup_host \<Rightarrow> string \<Rightarrow> unit setup_act" where
  "choose_language h l =
     after (upd (\<lambda>s. renderSkillsDirs (renderModelSuggestions [] (panel_status h (applyI18n h ((setCurrentLang l s)\<lparr>su_storedLang := Some l\<rparr>))))))
    (and_then (invoke ''get_state'' []) (\<lambda>state. member state ''isConfigured'' (\<lambda>configured.
       if \<not> js_truthy configured \<or> \<not> js_truthy (js_get state ''config'') then give ()
       else and_then (invoke ''get_config_path'' []) (\<lambda>path.
         after (upd (renderSummary (js_get state ''config'') path)) (awaiting refreshKernelStatus (\<lambda>_. give ()))))))"

fun native_click :: "setup_host \<Rightarrow> main_button \<Rightarrow> unit setup_act" where
  "native_click h Btn_openWeb = awaiting (openOpenClawWeb h) (\<lambda>_. give ())"
| "native_click h Btn_reconfigure = awaiting (reconfigureFromSavedConfig h) (\<lambda>_. give ())"
| "native_click h Btn_doctor = awaiting runDoctor (\<lambda>_. give ())"
| "native_click h Btn_updateKernel = awaiting (handleKernelInstall ''btn.updateKernel'') (\<lambda>_. give ())"
| "native_click h Btn_openSkillDir = awaiting openFirstSkillDir (\<lambda>_. give ())"

fun store_action :: "setup_host \<Rightarrow> main_button \<Rightarrow> unit setup_act" where
  "store_action h Btn_updateKernel =
     after (upd (syncDoctorOutputState (Ui_key ''msg.updatingKernel'' []))) (awaiting (handleKernelInstall ''btn.updateKernel'') (\<lambda>_. give ()))"
| "store_action h b = native_click h b"

definition removeSkillDir :: "string \<Rightarrow> desk \<Rightarrow> desk" where
  "removeSkillDir dirPath s =
     (if js_trim dirPath = [] then s
      else setSkillsDirs (filter (\<lambda>d. js_trim d \<noteq> js_trim dirPath) (su_skillsDirs s)) s)"

definition start_app :: "setup_host \<Rightarrow> string \<Rightarrow> unit setup_act" where
  "start_app h language =
     after (upd (\<lambda>s. let s' = initLanguage h language (initProviderFilter s) in s'\<lparr>su_panel := initPairCenter (sh_panel h) (su_panel s')\<rparr>))
       (loadState h)"

fun setup_handler :: "setup_host \<Rightarrow> setup_event \<Rightarrow> unit setup_act" where
  "setup_handler h (Sv_start language) = start_app h language"
| "setup_handler h (Sv_toggle b) = upd (toggle_advanced h b)"
| "setup_handler h (Sv_provider v) = look (\<lambda>s. if v \<in> set (su_options s) then choose_provider h v else give ())"
| "setup_handler h (Sv_input f v) = input_field f v"
| "setup_handler h (Sv_blur f) = blur_field f"
| "setup_handler h (Sv_mode v) = choose_mode v"
| "setup_handler h Sv_fetch = awaiting (fetchModels False True) (\<lambda>_. give ())"
| "setup_handler h Sv_open_models = upd openModelDropdown"
| "setup_handler h Sv_close_models = upd closeModelDropdown"
| "setup_handler h (Sv_pick m) = upd (pick_model m)"
| "setup_handler h Sv_copy_command = copy_command"
| "setup_handler h (Sv_language l) = choose_language h l"
| "setup_handler h (Sv_native b) = native_click h b"
| "setup_handler h (Sv_action b) = store_action h b"
| "setup_handler h (Sv_remove_dir d) = upd (removeSkillDir d)"
| "setup_handler h Sv_add_dir = awaiting addSkillDir (\<lambda>_. give ())"
| "setup_handler h Sv_install_skills = awaiting installDefaultSkills (\<lambda>_. give ())"
| "setup_handler h Sv_install_kernel = awaiting (handleKernelInstall ''btn.installKernel'') (\<lambda>_. give ())"
| "setup_handler h Sv_save = awaiting (saveConfigAndEnter h) (\<lambda>_. give ())"
| "setup_handler h (Sv_summary_mode m) =
     after (upd (\<lambda>s. s\<lparr>su_summary := (su_summary s)\<lparr>sm_customApiMode := m\<rparr>\<rparr>)) (awaiting (saveSummaryCustomApiMode m) (\<lambda>_. give ()))"
| "setup_handler h Sv_render = upd render_form"
| "setup_handler h (Sv_panel e ev) = upd (\<lambda>s. s\<lparr>su_panel := panel_step (sh_panel h) e ev (su_panel s)\<rparr>)"

text \<open>A click of a button of the main view, and the world of the form.\<close>

definition click :: "main_button \<Rightarrow> (setup_event, thrown + jsval) happening list" where
  "click b = [Event (Sv_native b), Event (Sv_action b)]"

type_synonym setup_world = "(thrown, setup_command, thrown + jsval, desk, unit) world"

definition setup_step :: "setup_host \<Rightarrow> (setup_event, thrown + jsval) happening \<Rightarrow> setup_world \<Rightarrow> setup_world" where
  "setup_step h = world_step (setup_handler h)"

end
