(* ===== verification/SetupProperties.thy ===== *)
theory SetupProperties
  imports SetupFlow
begin

text \<open>
  What the form of the desktop keeps, in every order of events and answers: the list of providers and
  the provider that is chosen, what is remembered of the modes, and what is sent to be saved. Then
  where the functions get into each other's way.
\<close>

section \<open>The list of providers\<close>

text \<open>The options are those of the visible presets, the active one is chosen, and the store has it.\<close>

definition modes_map :: "(string \<times> jsval) list \<Rightarrow> bool" where
  "modes_map fs = (distinct (map fst fs) \<and>
     list_all (\<lambda>(k, v). \<not> json_index_key k \<and> (\<exists>m \<in> set SUPPORTED_CUSTOM_API_MODES. v = JStr m)) fs)"

definition modes_ok :: "string option \<Rightarrow> bool" where
  "modes_ok stored = (case stored of None \<Rightarrow> True | Some raw \<Rightarrow> \<exists>fs. raw = json_text (JObj fs) \<and> modes_map fs)"

definition offering :: "desk \<Rightarrow> bool" where
  "offering s = (modes_ok (su_storedModes s) \<and> (su_options s = [] \<or> su_options s = grouped_ids (visible_presets (su_showAdvanced s))))"

definition chosen :: "desk \<Rightarrow> bool" where
  "chosen s = (offering s \<and> (su_options s = [] \<or> (su_active s \<in> set (su_options s) \<and> fd_provider (su_el s) = su_active s)))"

definition listed :: "desk \<Rightarrow> bool" where
  "listed s = (chosen s \<and> (su_options s = [] \<or> fd_provider (su_form s) = su_active s))"

lemmas form_defs = offering_def chosen_def listed_def

named_theorems form_keeps

lemma js_uniq_set: "set (js_uniq xs) = set xs"
  by simp

lemma set_grouped_ids: "set (grouped_ids ps) = pr_id ` set ps"
  by (auto simp: grouped_ids_def js_uniq_set)

lemma preset_ids_ok: "p \<in> set PROVIDER_PRESETS \<Longrightarrow> pr_id p \<noteq> []"
proof -
  have "list_all (\<lambda>p. pr_id p \<noteq> []) PROVIDER_PRESETS" by code_simp
  then show "p \<in> set PROVIDER_PRESETS \<Longrightarrow> pr_id p \<noteq> []" by (auto simp: list_all_iff)
qed

lemma getProviderPreset_in: "getProviderPreset i \<in> set PROVIDER_PRESETS"
proof (cases "find_preset (js_trim i)")
  case None
  then show ?thesis by (simp add: getProviderPreset_def PROVIDER_PRESETS_def)
next
  case (Some p)
  then have "p \<in> set PROVIDER_PRESETS" by (auto simp: find_preset_def find_Some_iff)
  then show ?thesis using Some by (simp add: getProviderPreset_def)
qed

lemma visible_in: "p \<in> set (visible_presets b) \<longleftrightarrow> p \<in> set PROVIDER_PRESETS \<and> (b \<or> \<not> isAdvancedProviderPreset p)"
  by (auto simp: visible_presets_def)

lemma option_ne: "su_options s = grouped_ids (visible_presets b) \<Longrightarrow> i \<in> set (su_options s) \<Longrightarrow> i \<noteq> []"
  by (auto simp: set_grouped_ids visible_in preset_ids_ok)

lemma first_visible: "\<exists>p ps. visible_presets b = p # ps"
  by (cases b) (simp_all add: visible_presets_def PROVIDER_PRESETS_def builtin_presets_def builtinProvider_def isAdvancedProviderPreset_def js_trim_def js_space_def)

section \<open>Operations that leave it\<close>

lemma set_el_form [form_keeps]:
  "(\<And>d. fd_provider (f d) = fd_provider d) \<Longrightarrow> chosen s \<Longrightarrow> chosen (set_el f s)"
  "(\<And>d. fd_provider (f d) = fd_provider d) \<Longrightarrow> listed s \<Longrightarrow> listed (set_el f s)"
  by (simp_all add: form_defs set_el_def)

lemma sync_form [form_keeps]:
  "chosen s \<Longrightarrow> listed (syncSetupFormFromElements t c s)"
  "chosen s \<Longrightarrow> chosen (syncSetupFormFromElements t c s)"
  "chosen s \<Longrightarrow> listed (provider_sync s)"
  "chosen s \<Longrightarrow> chosen (provider_sync s)"
  using option_ne [of s "su_showAdvanced s" "su_active s"]
  by (auto simp: form_defs provider_sync_def syncSetupFormFromElements_def or_default_def)

lemma listed_chosen: "listed s \<Longrightarrow> chosen s" by (simp add: listed_def)
lemma chosen_offering: "chosen s \<Longrightarrow> offering s" by (simp add: chosen_def)

lemma unrelated_fields [form_keeps]:
  "chosen (s\<lparr>su_formSkills := x0\<rparr>) \<longleftrightarrow> chosen s"
  "chosen (s\<lparr>su_message := x1\<rparr>) \<longleftrightarrow> chosen s"
  "chosen (s\<lparr>su_shown := x2\<rparr>) \<longleftrightarrow> chosen s"
  "chosen (s\<lparr>su_guide := x3\<rparr>) \<longleftrightarrow> chosen s"
  "chosen (s\<lparr>su_summary := x4\<rparr>) \<longleftrightarrow> chosen s"
  "chosen (s\<lparr>su_main := x5\<rparr>) \<longleftrightarrow> chosen s"
  "chosen (s\<lparr>su_platform := x6\<rparr>) \<longleftrightarrow> chosen s"
  "chosen (s\<lparr>su_badge := x7\<rparr>) \<longleftrightarrow> chosen s"
  "chosen (s\<lparr>su_lang := x8\<rparr>) \<longleftrightarrow> chosen s"
  "chosen (s\<lparr>su_rawConfig := x9\<rparr>) \<longleftrightarrow> chosen s"
  "chosen (s\<lparr>su_appConfig := x10\<rparr>) \<longleftrightarrow> chosen s"
  "chosen (s\<lparr>su_fetchKey := x11\<rparr>) \<longleftrightarrow> chosen s"
  "chosen (s\<lparr>su_models := x12\<rparr>) \<longleftrightarrow> chosen s"
  "chosen (s\<lparr>su_dropdown := x13\<rparr>) \<longleftrightarrow> chosen s"
  "chosen (s\<lparr>su_query := x14\<rparr>) \<longleftrightarrow> chosen s"
  "chosen (s\<lparr>su_items := x15\<rparr>) \<longleftrightarrow> chosen s"
  "chosen (s\<lparr>su_skillsDirs := x16\<rparr>) \<longleftrightarrow> chosen s"
  "chosen (s\<lparr>su_kernel := x17\<rparr>) \<longleftrightarrow> chosen s"
  "chosen (s\<lparr>su_storedAdvanced := x18\<rparr>) \<longleftrightarrow> chosen s"
  "chosen (s\<lparr>su_storedLang := x19\<rparr>) \<longleftrightarrow> chosen s"
  "chosen (s\<lparr>su_location := x20\<rparr>) \<longleftrightarrow> chosen s"
  "chosen (s\<lparr>su_panel := x21\<rparr>) \<longleftrightarrow> chosen s"
  "listed (s\<lparr>su_formSkills := x0\<rparr>) \<longleftrightarrow> listed s"
  "listed (s\<lparr>su_message := x1\<rparr>) \<longleftrightarrow> listed s"
  "listed (s\<lparr>su_shown := x2\<rparr>) \<longleftrightarrow> listed s"
  "listed (s\<lparr>su_guide := x3\<rparr>) \<longleftrightarrow> listed s"
  "listed (s\<lparr>su_summary := x4\<rparr>) \<longleftrightarrow> listed s"
  "listed (s\<lparr>su_main := x5\<rparr>) \<longleftrightarrow> listed s"
  "listed (s\<lparr>su_platform := x6\<rparr>) \<longleftrightarrow> listed s"
  "listed (s\<lparr>su_badge := x7\<rparr>) \<longleftrightarrow> listed s"
  "listed (s\<lparr>su_lang := x8\<rparr>) \<longleftrightarrow> listed s"
  "listed (s\<lparr>su_rawConfig := x9\<rparr>) \<longleftrightarrow> listed s"
  "listed (s\<lparr>su_appConfig := x10\<rparr>) \<longleftrightarrow> listed s"
  "listed (s\<lparr>su_fetchKey := x11\<rparr>) \<longleftrightarrow> listed s"
  "listed (s\<lparr>su_models := x12\<rparr>) \<longleftrightarrow> listed s"
  "listed (s\<lparr>su_dropdown := x13\<rparr>) \<longleftrightarrow> listed s"
  "listed (s\<lparr>su_query := x14\<rparr>) \<longleftrightarrow> listed s"
  "listed (s\<lparr>su_items := x15\<rparr>) \<longleftrightarrow> listed s"
  "listed (s\<lparr>su_skillsDirs := x16\<rparr>) \<longleftrightarrow> listed s"
  "listed (s\<lparr>su_kernel := x17\<rparr>) \<longleftrightarrow> listed s"
  "listed (s\<lparr>su_storedAdvanced := x18\<rparr>) \<longleftrightarrow> listed s"
  "listed (s\<lparr>su_storedLang := x19\<rparr>) \<longleftrightarrow> listed s"
  "listed (s\<lparr>su_location := x20\<rparr>) \<longleftrightarrow> listed s"
  "listed (s\<lparr>su_panel := x21\<rparr>) \<longleftrightarrow> listed s"
  by (simp_all add: form_defs)

lemma put_mode_form [form_keeps]: "chosen s \<Longrightarrow> chosen (put_mode m s)" "chosen s \<Longrightarrow> listed (put_mode m s)"
  by (simp_all add: put_mode_def form_keeps)

lemma cloudflare_form [form_keeps]:
  "chosen s \<Longrightarrow> chosen (snd (syncCloudflareBaseUrlFromInputs s))" "listed s \<Longrightarrow> listed (snd (syncCloudflareBaseUrlFromInputs s))"
  "chosen s \<Longrightarrow> chosen (hydrateCloudflareInputsFromBaseUrl h u s)" "chosen s \<Longrightarrow> listed (hydrateCloudflareInputsFromBaseUrl h u s)"
  by (simp_all add: syncCloudflareBaseUrlFromInputs_def hydrateCloudflareInputsFromBaseUrl_def Let_def form_keeps listed_chosen)

lemma resolve_form [form_keeps]:
  "chosen s \<Longrightarrow> chosen (snd (resolveProviderBaseUrl p s))" "listed s \<Longrightarrow> listed (snd (resolveProviderBaseUrl p s))"
  by (simp_all add: resolveProviderBaseUrl_def form_keeps)

lemma headers_form [form_keeps]: "chosen s \<Longrightarrow> chosen (applyDefaultCustomHeadersIfNeeded p s)" "chosen s \<Longrightarrow> listed (applyDefaultCustomHeadersIfNeeded p s)"
  by (simp_all add: applyDefaultCustomHeadersIfNeeded_def form_keeps)

lemma sync_mode_form [form_keeps]:
  "chosen s \<Longrightarrow> chosen (syncCustomApiModeForCurrentModel b s)" "chosen s \<Longrightarrow> listed (syncCustomApiModeForCurrentModel b s)"
  by (simp_all add: syncCustomApiModeForCurrentModel_def Let_def form_keeps)

lemma models_form [form_keeps]:
  "chosen (closeModelDropdown s) \<longleftrightarrow> chosen s" "listed (closeModelDropdown s) \<longleftrightarrow> listed s"
  "chosen (renderModelDropdown s) \<longleftrightarrow> chosen s" "listed (renderModelDropdown s) \<longleftrightarrow> listed s"
  "chosen (openModelDropdown s) \<longleftrightarrow> chosen s" "listed (openModelDropdown s) \<longleftrightarrow> listed s"
  by (simp_all add: closeModelDropdown_def renderModelDropdown_def openModelDropdown_def form_keeps)

lemma suggestions_form [form_keeps]:
  "chosen s \<Longrightarrow> chosen (renderModelSuggestions ms s)" "chosen s \<Longrightarrow> listed (renderModelSuggestions ms s)"
  "chosen s \<Longrightarrow> chosen (setModelValue v s)" "chosen s \<Longrightarrow> listed (setModelValue v s)"
  by (simp_all add: renderModelSuggestions_def setModelValue_def Let_def form_keeps)

lemma pick_form [form_keeps]: "listed s \<Longrightarrow> listed (pick_model m s)"
  by (simp add: pick_model_def form_keeps listed_chosen)

lemma fetch_key_form [form_keeps]: "listed s \<Longrightarrow> listed (snd (currentFetchKey s))"
  by (simp add: currentFetchKey_def Let_def case_prod_beta form_keeps)

section \<open>Operations that build it\<close>

lemma populate_lists [form_keeps]:
  assumes "modes_ok (su_storedModes s)"
  shows "listed (populateProviderOptions s)" "chosen (populateProviderOptions s)"
proof -
  let ?sel = "or_default (or_default ''openai'' (su_active s)) (fd_provider (su_el s))"
  define s1 where "s1 = (if isAdvancedProviderPreset (getProviderPreset ?sel) \<and> \<not> su_showAdvanced s then show_advanced s else s)"
  let ?visible = "visible_presets (su_showAdvanced s1)"
  let ?v = "if ?sel \<in> set (map pr_id ?visible) then ?sel else case ?visible of p # _ \<Rightarrow> pr_id p | [] \<Rightarrow> ''openai''"
  obtain q qs where q: "?visible = q # qs" using first_visible by blast
  have "?v \<in> pr_id ` set ?visible" by (auto simp: q)
  then have v: "?v \<in> set (grouped_ids ?visible)" by (simp add: set_grouped_ids)
  let ?s2 = "select_provider ?v (s1\<lparr>su_options := grouped_ids ?visible\<rparr>)"
  have "su_storedModes s1 = su_storedModes s" by (simp add: s1_def show_advanced_def set_el_def)
  then have "chosen (?s2\<lparr>su_active := fd_provider (su_el ?s2)\<rparr>)"
    using v assms by (simp add: form_defs select_provider_def set_el_def)
  moreover have "populateProviderOptions s = provider_sync (?s2\<lparr>su_active := fd_provider (su_el ?s2)\<rparr>)"
    by (simp only: populateProviderOptions_def Let_def s1_def)
  ultimately show "listed (populateProviderOptions s)" "chosen (populateProviderOptions s)" by (simp_all add: form_keeps)
qed

lemma choose_lists: "offering s \<Longrightarrow> chosen (choose_preset (getProviderPreset i) s)"
proof -
  assume s: "offering s"
  let ?p = "getProviderPreset i"
  define s1 where "s1 = (if isAdvancedProviderPreset ?p \<and> \<not> su_showAdvanced s then populateProviderOptions (show_advanced s) else s)"
  have m: "modes_ok (su_storedModes (show_advanced s))" using s by (simp add: offering_def show_advanced_def set_el_def)
  have "su_showAdvanced (populateProviderOptions (show_advanced s))"
    by (simp add: populateProviderOptions_def Let_def provider_sync_def syncSetupFormFromElements_def select_provider_def set_el_def show_advanced_def)
  then have s1: "offering s1" "su_showAdvanced s1 \<or> \<not> isAdvancedProviderPreset ?p"
    using s populate_lists(2) [OF m] by (auto simp: s1_def chosen_offering)
  have "su_options s1 = [] \<or> pr_id ?p \<in> set (su_options s1)"
    using s1 getProviderPreset_in by (auto simp: offering_def set_grouped_ids visible_in)
  then have "chosen (select_provider (pr_id ?p) (s1\<lparr>su_active := pr_id ?p\<rparr>))"
    using s1(1) by (auto simp: form_defs select_provider_def set_el_def)
  then show ?thesis by (simp add: choose_preset_def Let_def s1_def [symmetric] form_keeps)
qed

lemma address_form [form_keeps]: "chosen s \<Longrightarrow> chosen (preset_address h b p s)"
  by (simp add: preset_address_def Let_def form_keeps)

lemma options_form [form_keeps]: "chosen s \<Longrightarrow> chosen (preset_options b p s)"
  by (simp add: preset_options_def Let_def form_keeps)

lemma preset_models_form [form_keeps]: "chosen s \<Longrightarrow> chosen (preset_models p s)"
  by (simp add: preset_models_def Let_def form_keeps)

lemma apply_lists: "offering s \<Longrightarrow> listed (applyProviderPreset h b i s)"
  by (simp add: applyProviderPreset_def Let_def form_keeps choose_lists)

lemma apply_form [form_keeps]: "chosen s \<Longrightarrow> listed (applyProviderPreset h b i s)"
  by (simp add: apply_lists chosen_offering)

section \<open>The modes that are remembered\<close>

lemma modes_map_json:
  assumes "modes_map fs"
  shows "json_parse (json_text (JObj fs)) = Some (JObj fs)"
proof -
  have v: "\<exists>m. v = JStr m" if "(k, v) \<in> set fs" for k v using assms that by (fastforce simp: modes_map_def list_all_iff)
  have ok: "json_ok (JObj fs)" using assms v by (fastforce simp: modes_map_def list_all_iff)
  have "defined_fields fs = fs" using v by (fastforce simp: defined_fields_def filter_id_conv)
  moreover have "map (\<lambda>(k, v). (k, json_strip v)) fs = fs" using v by (intro map_idI) fastforce
  ultimately show ?thesis using json_parse_text [OF ok] by (simp add: json_strip_JObj)
qed

lemma memory_read:
  assumes "modes_ok (su_storedModes s)"
  shows "\<exists>fs. readCustomApiModeMemory s = JObj fs \<and> modes_map fs"
proof (cases "su_storedModes s")
  case (Some raw)
  then obtain fs where fs: "raw = json_text (JObj fs)" "modes_map fs" using assms by (auto simp: modes_ok_def)
  then show ?thesis using modes_map_json [OF fs(2)] Some
    by (auto simp: readCustomApiModeMemory_def js_is_record_def json_text_JObj)
qed (simp add: readCustomApiModeMemory_def modes_map_def)

lemma memory_written:
  assumes "modes_map fs"
  shows "readCustomApiModeMemory (writeCustomApiModeMemory (JObj fs) s) = JObj fs"
  using modes_map_json [OF assms]
  by (simp add: readCustomApiModeMemory_def writeCustomApiModeMemory_def js_is_record_def json_text_JObj)

lemma memory_key_ok: "customApiModeMemoryKey p m \<noteq> [] \<Longrightarrow> \<not> json_index_key (customApiModeMemoryKey p m) \<and> customApiModeMemoryKey p m \<noteq> ''__proto__''"
proof -
  assume "customApiModeMemoryKey p m \<noteq> []"
  then have c: "CHR '':'' \<in> set (customApiModeMemoryKey p m)" by (auto simp: customApiModeMemoryKey_def Let_def split: if_splits)
  have "\<not> is_digit_of 10 (CHR '':'')" by code_simp
  with c show ?thesis by (auto simp: json_index_key_def list_all_iff)
qed

lemma set_alist_update: "set (AList.update k v fs) \<subseteq> insert (k, v) (set fs)"
  by (induction fs) auto

lemma js_order_modes: "modes_map fs \<Longrightarrow> js_order fs = fs"
proof -
  assume fs: "modes_map fs"
  have "filter (json_index_key \<circ> fst) fs = []" using fs by (fastforce simp: modes_map_def list_all_iff filter_empty_conv)
  moreover have "filter (Not \<circ> json_index_key \<circ> fst) fs = fs" using fs by (fastforce simp: modes_map_def list_all_iff filter_id_conv)
  ultimately show ?thesis by (simp add: js_order_def)
qed

lemma modes_map_update:
  assumes "modes_map fs" "\<not> json_index_key k" "k \<noteq> ''__proto__''" "m \<in> set SUPPORTED_CUSTOM_API_MODES"
  shows "js_assign k (JStr m) (JObj fs) = JObj (AList.update k (JStr m) fs)" "modes_map (AList.update k (JStr m) fs)"
proof -
  show u: "modes_map (AList.update k (JStr m) fs)"
    using assms set_alist_update [of k "JStr m" fs] by (auto simp: modes_map_def list_all_iff distinct_update)
  show "js_assign k (JStr m) (JObj fs) = JObj (AList.update k (JStr m) fs)"
    using assms(3) js_order_modes [OF u] by (simp add: js_assign_def js_fields_def)
qed

lemma modes_map_delete: "modes_map fs \<Longrightarrow> modes_map (filter (\<lambda>(j, x). j \<noteq> k) fs)"
  by (auto simp: modes_map_def list_all_iff case_prod_beta distinct_map_filter)

lemma normal_mode: "normalizeCustomApiMode v \<noteq> [] \<Longrightarrow> normalizeCustomApiMode v \<in> set SUPPORTED_CUSTOM_API_MODES"
  by (simp add: normalizeCustomApiMode_def split: if_splits)

lemma supported_normal: "m \<in> set SUPPORTED_CUSTOM_API_MODES \<Longrightarrow> normalizeCustomApiMode (JStr m) = m"
proof -
  have "list_all (\<lambda>m. normalizeCustomApiMode (JStr m) = m) SUPPORTED_CUSTOM_API_MODES" by code_simp
  then show "m \<in> set SUPPORTED_CUSTOM_API_MODES \<Longrightarrow> normalizeCustomApiMode (JStr m) = m" by (auto simp: list_all_iff)
qed

text \<open>What remembering writes, and what reading finds.\<close>

lemma memory_after:
  assumes "modes_ok (su_storedModes s)"
  obtains fs where "modes_map fs" "readCustomApiModeMemory (rememberCustomApiModeForCurrentModel p s) = JObj fs"
    "su_storedModes (rememberCustomApiModeForCurrentModel p s) \<in> {su_storedModes s, Some (json_text (JObj fs))}"
    "\<And>k. map_of fs k =
      (if pr_showCustomOptions p \<and> k = customApiModeMemoryKey p (fd_model (su_el s)) \<and> k \<noteq> []
       then (if normalizeCustomApiMode (JStr (fd_apiMode (su_el s))) = [] then None
             else Some (JStr (normalizeCustomApiMode (JStr (fd_apiMode (su_el s))))))
       else map_of (js_fields (readCustomApiModeMemory s)) k)"
proof -
  obtain gs where gs: "readCustomApiModeMemory s = JObj gs" "modes_map gs" using memory_read [OF assms] by blast
  let ?key = "customApiModeMemoryKey p (fd_model (su_el s))" and ?mode = "normalizeCustomApiMode (JStr (fd_apiMode (su_el s)))"
  let ?fs = "if \<not> pr_showCustomOptions p \<or> ?key = [] then gs
    else if ?mode = [] then filter (\<lambda>(j, x). j \<noteq> ?key) gs else AList.update ?key (JStr ?mode) gs"
  have m: "modes_map ?fs"
    using gs(2) modes_map_delete modes_map_update(2) memory_key_ok normal_mode by auto
  have w: "rememberCustomApiModeForCurrentModel p s = (if \<not> pr_showCustomOptions p \<or> ?key = [] then s else writeCustomApiModeMemory (JObj ?fs) s)"
    using gs modes_map_update(1) [OF gs(2), of ?key ?mode] memory_key_ok [of p "fd_model (su_el s)"] normal_mode [of "JStr (fd_apiMode (su_el s))"]
    by (simp add: rememberCustomApiModeForCurrentModel_def Let_def js_delete_def)
  show ?thesis
  proof (rule that [OF m])
    show "readCustomApiModeMemory (rememberCustomApiModeForCurrentModel p s) = JObj ?fs"
    proof (cases "\<not> pr_showCustomOptions p \<or> ?key = []")
      case False
      then have "rememberCustomApiModeForCurrentModel p s = writeCustomApiModeMemory (JObj ?fs) s" by (subst w) (simp only: if_False)
      then show ?thesis using memory_written [OF m, of s] by argo
    qed (simp add: w gs(1))
    show "su_storedModes (rememberCustomApiModeForCurrentModel p s) \<in> {su_storedModes s, Some (json_text (JObj ?fs))}"
      unfolding w by (simp add: writeCustomApiModeMemory_def)
    have del: "map_of (filter (\<lambda>(j, x). j \<noteq> ?key) gs) k = (if k = ?key then None else map_of gs k)" for k
      by (induction gs) auto
    show "map_of ?fs k = (if pr_showCustomOptions p \<and> k = ?key \<and> k \<noteq> []
       then (if ?mode = [] then None else Some (JStr ?mode)) else map_of (js_fields (readCustomApiModeMemory s)) k)" for k
      using gs(1) del by (auto simp: js_fields_def update_conv)
  qed
qed

lemma remember_modes_ok: "modes_ok (su_storedModes s) \<Longrightarrow> modes_ok (su_storedModes (rememberCustomApiModeForCurrentModel p s))"
  by (rule memory_after [of s p]) (auto simp: modes_ok_def)

lemma remember_form [form_keeps]:
  "chosen s \<Longrightarrow> chosen (rememberCustomApiModeForCurrentModel p s)" "listed s \<Longrightarrow> listed (rememberCustomApiModeForCurrentModel p s)"
  using remember_modes_ok [of s p]
  by (simp_all add: form_defs rememberCustomApiModeForCurrentModel_def writeCustomApiModeMemory_def Let_def)

text \<open>C36: The mode that is remembered for a preset and a model is the one read back for them, in its normal form,
  through the JSON text of the storage; and remembering it changes nothing for a preset and a model with
  another key. The storage holds nothing, or a text written by this form (\<open>modes_ok\<close>).\<close>

theorem remembered_mode_read_back:
  assumes "modes_ok (su_storedModes s)" "pr_showCustomOptions p" "customApiModeMemoryKey p (fd_model (su_el s)) \<noteq> []"
    "customApiModeMemoryKey q m \<noteq> customApiModeMemoryKey p (fd_model (su_el s))"
  shows "getRememberedCustomApiModeForCurrentModel p (rememberCustomApiModeForCurrentModel p s) = normalizeCustomApiMode (JStr (fd_apiMode (su_el s))) \<and>
    getRememberedCustomApiModeForCurrentModel q (set_el (\<lambda>d. d\<lparr>fd_model := m\<rparr>) (rememberCustomApiModeForCurrentModel p s)) =
      getRememberedCustomApiModeForCurrentModel q (set_el (\<lambda>d. d\<lparr>fd_model := m\<rparr>) s)"
proof -
  have el: "su_el (rememberCustomApiModeForCurrentModel p s) = su_el s"
    by (simp add: rememberCustomApiModeForCurrentModel_def writeCustomApiModeMemory_def Let_def)
  have mem: "readCustomApiModeMemory (set_el f t) = readCustomApiModeMemory t" for f t by (simp add: readCustomApiModeMemory_def set_el_def)
  obtain fs where fs: "readCustomApiModeMemory (rememberCustomApiModeForCurrentModel p s) = JObj fs"
    "\<And>k. map_of fs k =
      (if pr_showCustomOptions p \<and> k = customApiModeMemoryKey p (fd_model (su_el s)) \<and> k \<noteq> []
       then (if normalizeCustomApiMode (JStr (fd_apiMode (su_el s))) = [] then None
             else Some (JStr (normalizeCustomApiMode (JStr (fd_apiMode (su_el s))))))
       else map_of (js_fields (readCustomApiModeMemory s)) k)"
    using memory_after [OF assms(1), of p] by metis
  obtain gs where gs: "readCustomApiModeMemory s = JObj gs" using memory_read [OF assms(1)] by blast
  have none: "normalizeCustomApiMode (JStr []) = []" by code_simp
  let ?m = "normalizeCustomApiMode (JStr (fd_apiMode (su_el s)))"
  have "normalizeCustomApiMode (JStr ?m) = ?m" using supported_normal normal_mode none by metis
  then have "getRememberedCustomApiModeForCurrentModel p (rememberCustomApiModeForCurrentModel p s) = ?m"
    using assms(2,3) fs none by (simp add: getRememberedCustomApiModeForCurrentModel_def el Let_def js_get_def js_or_def)
  moreover have "js_get (JObj fs) (customApiModeMemoryKey q m) = js_get (JObj gs) (customApiModeMemoryKey q m)"
    using fs(2) gs assms(4) by (simp add: js_get_def js_fields_def)
  ultimately show ?thesis
    by (simp add: getRememberedCustomApiModeForCurrentModel_def mem fs(1) gs Let_def) (simp add: set_el_def)
qed

section \<open>The functions of the setup keep it\<close>

lemma offering_by_choice: "offering s \<Longrightarrow> offering (select_provider v s)"
  by (simp add: offering_def select_provider_def set_el_def)

lemma offering_raw: "chosen s \<Longrightarrow> offering (take_raw_config h raw s)"
  by (simp add: take_raw_config_def sync_panel_config_def form_defs)

lemma shell_form [form_keeps]:
  "listed (setSkillsDirs ds s) \<longleftrightarrow> listed s" "chosen (setSkillsDirs ds s) \<longleftrightarrow> chosen s"
  "listed (renderSkillsDirs s) \<longleftrightarrow> listed s" "listed (renderSummary c path s) \<longleftrightarrow> listed s"
  "listed (kernel_status st s) \<longleftrightarrow> listed s" "listed (setSetupMessage m t s) \<longleftrightarrow> listed s"
  "listed (syncDoctorOutputState m s) \<longleftrightarrow> listed s" "listed (show_message m t s) \<longleftrightarrow> listed s"
  "listed (take_raw_config h raw s) \<longleftrightarrow> listed s" "listed (add_dir d s) \<longleftrightarrow> listed s" "listed (removeSkillDir d s) \<longleftrightarrow> listed s"
  "listed (panel_status h s) \<longleftrightarrow> listed s"
  by (simp_all add: setSkillsDirs_def syncSetupSkillsDirs_def renderSkillsDirs_def renderSummary_def kernel_status_def
      renderKernelVersionBadge_def setSetupMessage_def syncDoctorOutputState_def show_message_def take_raw_config_def
      sync_panel_config_def add_dir_def removeSkillDir_def panel_status_def Let_def form_keeps)

lemma syncs_form [form_keeps]:
  "chosen s \<Longrightarrow> listed (setup_sync s)" "chosen s \<Longrightarrow> listed (binder_sync s)" "chosen s \<Longrightarrow> listed (setCurrentLang l s)"
  by (simp_all add: setup_sync_def binder_sync_def setCurrentLang_def form_keeps)

lemma fill_provider_form: "offering s \<Longrightarrow> listed (fill_provider h raw s)"
  by (simp add: fill_provider_def Let_def form_keeps apply_lists offering_by_choice listed_chosen)

lemma fill_options_form [form_keeps]: "listed s \<Longrightarrow> listed (fill_options h p raw s)"
  by (simp add: fill_options_def Let_def case_prod_beta form_keeps listed_chosen)

lemma fill_form_form [form_keeps]: "listed s \<Longrightarrow> listed (snd (fill_form h raw b s))"
  by (simp add: fill_form_def Let_def refreshCustomInputs_def form_keeps fill_provider_form listed_chosen chosen_offering)

lemma i18n_form [form_keeps]: "listed s \<Longrightarrow> listed (applyI18n h s)"
proof -
  assume "listed s"
  then have "modes_ok (su_storedModes (s\<lparr>su_panel := x\<rparr>)) \<and> modes_ok (su_storedModes s)" for x by (simp add: form_defs)
  then show ?thesis by (simp add: applyI18n_def Let_def form_keeps)
qed

lemma init_form [form_keeps]: "listed s \<Longrightarrow> listed (initLanguage h l (initProviderFilter s))"
proof -
  assume "listed s"
  then have "modes_ok (su_storedModes (initProviderFilter s))"
    by (simp add: form_defs initProviderFilter_def Let_def provider_sync_def syncSetupFormFromElements_def set_el_def)
  then show ?thesis by (simp add: initLanguage_def applyI18n_def Let_def form_keeps)
qed

lemma toggle_form [form_keeps]: "listed s \<Longrightarrow> listed (toggle_advanced h b s)"
proof -
  assume s: "listed s"
  define s2 where "s2 = (setShowAdvancedProviders b (set_el (\<lambda>d. d\<lparr>fd_showAdvanced := b\<rparr>)
    (s\<lparr>su_form := (su_form s)\<lparr>fd_showAdvanced := b\<rparr>\<rparr>)))\<lparr>su_storedAdvanced := Some (if b then ''1'' else ''0'')\<rparr>"
  define s3 where "s3 = (if \<not> b \<and> isAdvancedProviderPreset (getActiveProviderPreset s2)
    then setActiveProviderId ''openai'' (select_provider ''openai'' s2) else s2)"
  have "su_storedModes s3 = su_storedModes s"
    by (simp add: s3_def s2_def setActiveProviderId_def setShowAdvancedProviders_def select_provider_def set_el_def
        provider_sync_def syncSetupFormFromElements_def Let_def)
  then have "listed (populateProviderOptions s3)" "chosen (populateProviderOptions s3)"
    using s populate_lists [of s3] by (simp_all add: form_defs)
  moreover have "toggle_advanced h b s =
    binder_sync ((renderModelSuggestions [] (setModelValue (JStr []) (set_el (\<lambda>d. d\<lparr>fd_apiKey := []\<rparr>)
      (applyProviderPreset h False (fd_provider (su_el (populateProviderOptions s3))) (populateProviderOptions s3)))))\<lparr>su_fetchKey := []\<rparr>)"
    by (simp only: toggle_advanced_def Let_def s2_def s3_def)
  ultimately show ?thesis by (simp add: form_keeps listed_chosen)
qed

lemma render_keeps [form_keeps]: "listed s \<Longrightarrow> listed (render_form s)"
  by (auto simp: render_form_def select_provider_def set_el_def form_defs)

lemma react_form [form_keeps]:
  "listed s \<Longrightarrow> listed (react_provider s)" "listed s \<Longrightarrow> listed (react_field f s)" "listed s \<Longrightarrow> listed (set_el (put_field f v) s)"
  "listed s \<Longrightarrow> listed (s\<lparr>su_form := (su_form s)\<lparr>fd_apiMode := m\<rparr>\<rparr>)"
  by (cases f; auto simp: react_provider_def react_field_def form_defs set_el_def)+

lemma typed_form [form_keeps]: "listed s \<Longrightarrow> listed (typed f s)"
  by (cases f) (simp_all add: cloudflare_changed_def Let_def form_keeps listed_chosen)

lemma mode_form [form_keeps]:
  "chosen s \<Longrightarrow> chosen (normalize_el_mode s)" "listed s \<Longrightarrow> listed (normalize_el_mode s)"
  "chosen s \<Longrightarrow> chosen (resolve_if_cloudflare p s)" "listed s \<Longrightarrow> listed (resolve_if_cloudflare p s)"
  by (simp_all add: normalize_el_mode_def resolve_if_cloudflare_def form_keeps)

section \<open>What is sent to be saved\<close>

definition sent :: "jsval \<Rightarrow> string \<Rightarrow> string" where
  "sent v k = (case js_get v k of JStr s \<Rightarrow> s | _ \<Rightarrow> [])"

text \<open>A configuration that is complete for a preset.\<close>

definition complete_for :: "jsval \<Rightarrow> preset \<Rightarrow> bool" where
  "complete_for v p =
     (sent v ''provider'' = pr_runtimeProvider p \<and> sent v ''model'' \<noteq> [] \<and> sent v ''apiKey'' \<noteq> [] \<and>
      (\<not> pr_showBaseUrl p \<or> \<not> pr_baseUrlRequired p \<or> sent v ''baseUrl'' \<noteq> []) \<and>
      (if pr_showCustomOptions p
       then sent v ''customApiMode'' \<in> set SUPPORTED_CUSTOM_API_MODES \<and>
            (sent v ''customHeadersJson'' = [] \<or> headers_error (sent v ''customHeadersJson'') = None)
       else sent v ''customApiMode'' = [] \<and> sent v ''customHeadersJson'' = []))"

text \<open>What the summary sends is what it has read, with a supported mode, of a custom provider only.\<close>

definition summary_change :: "jsval \<Rightarrow> bool" where
  "summary_change v =
     (js_lower (js_text (js_get v ''provider'')) = ''custom'' \<and> sent v ''customApiMode'' \<in> set SUPPORTED_CUSTOM_API_MODES)"

definition command_ok :: "setup_command \<Rightarrow> bool" where
  "command_ok c =
     (case c of
        Backend cmd args \<Rightarrow>
          cmd \<noteq> ''save_config'' \<or>
          (case args of [(k, v)] \<Rightarrow> list_ex (complete_for v) PROVIDER_PRESETS \<or> summary_change v | _ \<Rightarrow> False)
      | _ \<Rightarrow> True)"

lemma command_ok_simps [simp]:
  "cmd \<noteq> ''save_config'' \<Longrightarrow> command_ok (Backend cmd args)" "command_ok (Open_dialog t)" "command_ok (Open_path d)"
  "command_ok (Copy_text t)" "command_ok Next_turn"
  by (simp_all add: command_ok_def)

abbreviation good :: "'r setup_act \<Rightarrow> bool" where
  "good \<equiv> keeps listed command_ok"

lemma good_awaited [keeps_rules]: "command_ok c \<Longrightarrow> good (awaited c)"
  unfolding awaited_def by (intro keeps_rules keeps_sum)

lemma good_awaiting [keeps_rules]: "good m \<Longrightarrow> (\<And>r. good (k r)) \<Longrightarrow> good (awaiting m k)"
  unfolding awaiting_def by (intro keeps_rules) simp_all

lemma good_member [keeps_rules]: "(\<And>x. good (rest x)) \<Longrightarrow> good (member v k rest)"
  by (simp add: member_def keeps_fail)

lemma good_if [keeps_rules]: "(b \<Longrightarrow> good m) \<Longrightarrow> (\<not> b \<Longrightarrow> good n) \<Longrightarrow> good (if b then m else n)"
  by simp

lemma good_cases [keeps_rules]:
  "(\<And>x. opt = Some x \<Longrightarrow> good (f x)) \<Longrightarrow> (opt = None \<Longrightarrow> good m) \<Longrightarrow> good (case opt of None \<Rightarrow> m | Some x \<Rightarrow> f x)"
  "(\<And>a b. q = (a, b) \<Longrightarrow> good (g a b)) \<Longrightarrow> good (case q of (a, b) \<Rightarrow> g a b)"
  "good m \<Longrightarrow> (\<And>x ys. xs = x # ys \<Longrightarrow> good (l x ys)) \<Longrightarrow> good (case xs of [] \<Rightarrow> m | x # ys \<Rightarrow> l x ys)"
  by (auto split: option.split prod.split list.split)

lemmas keeps_cases [keeps_rules] = keeps_sum

lemma good_loud [keeps_rules]: "(\<And>s. listed s \<Longrightarrow> listed (f s)) \<Longrightarrow> good (loud b f)"
  unfolding loud_def by (intro keeps_rules) auto

lemma good_refused [keeps_rules]: "good (refused key)"
  unfolding refused_def by (intro keeps_rules) (simp_all add: form_keeps)

lemma good_refresh [keeps_rules]: "good refreshKernelStatus"
  unfolding refreshKernelStatus_def by (intro keeps_rules) (simp_all add: form_keeps)

lemma models_fetched_good [keeps_rules]: "good (models_fetched b key result)"
  unfolding models_fetched_def Let_def by (intro keeps_rules) (simp_all add: form_keeps listed_chosen)

lemma fetch_good [keeps_rules]: "good (fetchModels silent force)"
  unfolding fetchModels_def Let_def case_prod_beta
  by (intro keeps_rules models_fetched_good) (simp_all add: form_keeps listed_chosen)

lemma fetch_if_good [keeps_rules]: "good (fetch_if_possible p)"
  unfolding fetch_if_possible_def case_prod_beta by (intro keeps_rules fetch_good) (simp_all add: form_keeps)

lemma fetch_again_good [keeps_rules]: "good fetch_again"
  unfolding fetch_again_def by (intro keeps_rules fetch_good)

lemma hydrate_good [keeps_rules]: "good (hydrateSetupForm h raw b)"
  unfolding hydrateSetupForm_def case_prod_beta by (intro keeps_rules fetch_if_good) (simp_all add: form_keeps)

lemma load_good [keeps_rules]: "good (loadState h)"
  unfolding loadState_def by (intro keeps_rules hydrate_good good_refresh) (simp_all add: form_keeps listed_chosen)

lemma dirs_good [keeps_rules]: "good addSkillDir" "good (install_skills_at d)" "good installDefaultSkills"
proof -
  show at: "good (install_skills_at d)" for d unfolding install_skills_at_def by (intro keeps_rules) (simp_all add: form_keeps)
  show "good addSkillDir" unfolding addSkillDir_def by (intro keeps_rules) (simp_all add: form_keeps)
  show "good installDefaultSkills" unfolding installDefaultSkills_def by (intro keeps_rules at) (simp_all add: form_keeps)
qed

lemma web_good [keeps_rules]: "good (openOpenClawWeb h)"
  unfolding openOpenClawWeb_def Let_def navigateCurrentWindowToOpenClaw_def
  by (auto intro!: keeps_rules simp: form_keeps split: sum.split)

lemma headers_by_runtime: "p \<in> set PROVIDER_PRESETS \<Longrightarrow> pr_showCustomOptions p \<Longrightarrow> pr_runtimeProvider p = ''custom''"
proof -
  have "list_all (\<lambda>p. pr_showCustomOptions p \<longrightarrow> pr_runtimeProvider p = ''custom'') PROVIDER_PRESETS" by code_simp
  then show "p \<in> set PROVIDER_PRESETS \<Longrightarrow> pr_showCustomOptions p \<Longrightarrow> pr_runtimeProvider p = ''custom''" by (auto simp: list_all_iff)
qed

definition values_ok :: "save_values \<Rightarrow> bool" where
  "values_ok v = (sv_preset v \<in> set PROVIDER_PRESETS \<and> sv_model v \<noteq> [] \<and> (pr_showCustomOptions (sv_preset v) \<longrightarrow> sv_mode v \<in> set SUPPORTED_CUSTOM_API_MODES))"

lemma payload_complete:
  assumes "values_ok v" "\<not> pr_showBaseUrl (sv_preset v) \<or> \<not> pr_baseUrlRequired (sv_preset v) \<or> sv_baseUrl v \<noteq> []" "k \<noteq> []"
    "sv_headers v = [] \<or> headers_error (sv_headers v) = None"
  shows "complete_for (save_payload_of v k s) (sv_preset v)"
  using assms by (auto simp: complete_for_def save_payload_of_def sent_def js_get_def values_ok_def Let_def)

lemma kernel_if_good [keeps_rules]: "good install_kernel_if_needed"
  unfolding install_kernel_if_needed_def Let_def by (intro keeps_rules) (simp_all add: form_keeps)

lemma config_saved_good [keeps_rules]: "good (config_saved h p)"
  unfolding config_saved_def by (intro keeps_rules kernel_if_good good_refresh web_good load_good) (simp_all add: form_keeps)

lemma send_good:
  assumes v: "values_ok v"
  shows "good (send_config h v)"
proof -
  let ?p = "sv_preset v"
  define key where "key = (if sv_apiKey v = [] \<and> \<not> pr_keyRequired ?p then or_default ''local'' (pr_autoApiKey ?p) else sv_apiKey v)"
  have "command_ok (Backend ''save_config'' [(''payload'', save_payload_of v key s)])"
    if c: "\<not> (pr_showBaseUrl ?p \<and> pr_baseUrlRequired ?p \<and> sv_baseUrl v = [])" "\<not> (key = [] \<and> pr_keyRequired ?p)"
      "(if pr_runtimeProvider ?p = ''custom'' \<and> pr_showCustomOptions ?p \<and> sv_headers v \<noteq> [] then headers_error (sv_headers v) else None) = None" for s
  proof -
    have key: "key \<noteq> []" using c(2) by (auto simp: or_default_def key_def)
    have "complete_for (save_payload_of v key s) ?p"
    proof (cases "pr_showCustomOptions ?p")
      case True
      then show ?thesis using payload_complete [OF v _ key] c headers_by_runtime [of ?p] v by (auto simp: values_ok_def split: if_splits)
    next
      case False
      then show ?thesis using v c(1) key by (auto simp: complete_for_def save_payload_of_def sent_def js_get_def values_ok_def Let_def)
    qed
    then show ?thesis using v by (auto simp: command_ok_def values_ok_def list_ex_iff)
  qed
  then show ?thesis
    unfolding send_config_def Let_def key_def [symmetric] by (intro keeps_rules config_saved_good) (simp_all add: form_keeps)
qed

lemma check_auth_good: "good rest \<Longrightarrow> good (check_auth p rest)"
  unfolding check_auth_def by (intro keeps_rules) (simp_all add: form_keeps)

lemma save_values_form [form_keeps]: "listed s \<Longrightarrow> listed (snd (save_values_of s))"
  by (simp add: save_values_of_def Let_def case_prod_beta form_keeps)

lemma active_preset_in: "sv_preset (fst (save_values_of s)) \<in> set PROVIDER_PRESETS"
  by (simp add: save_values_of_def Let_def case_prod_beta getActiveProviderPreset_def getProviderPreset_in)

lemma mode_of_values: "sv_mode (fst (save_values_of s)) \<noteq> [] \<Longrightarrow> sv_mode (fst (save_values_of s)) \<in> set SUPPORTED_CUSTOM_API_MODES"
  by (simp add: save_values_of_def Let_def case_prod_beta el_mode_def normal_mode)

lemma save_good [keeps_rules]: "good (saveConfigAndEnter h)"
  unfolding saveConfigAndEnter_def Let_def case_prod_beta
  by (intro keeps_rules check_auth_good send_good) (auto simp: form_keeps values_ok_def active_preset_in mode_of_values)

lemma kernel_good [keeps_rules]: "good (handleKernelInstall l)"
  unfolding handleKernelInstall_def Let_def by (intro keeps_rules good_refresh) (simp_all add: form_keeps)

lemma doctor_good [keeps_rules]: "good runDoctor" "good openFirstSkillDir"
  unfolding runDoctor_def openFirstSkillDir_def by (intro keeps_rules; simp add: form_keeps)+

lemma reconfigure_good [keeps_rules]: "good (reconfigureFromSavedConfig h)"
  unfolding reconfigureFromSavedConfig_def by (intro keeps_rules hydrate_good) (simp_all add: form_keeps)

lemma summary_ok:
  assumes "js_lower (js_text (js_get current ''provider'')) = ''custom''" "normalizeCustomApiMode m \<noteq> []"
  shows "command_ok (Backend ''save_config'' [(''payload'', summary_payload current (normalizeCustomApiMode m))])"
proof -
  have "js_lower (js_text JUndef) \<noteq> ''custom''" by code_simp
  moreover have "js_text (js_or a (JStr ''custom'')) = js_text a" if "js_truthy a" for a using that by (simp add: js_or_def)
  moreover have "js_truthy (js_get current ''provider'')"
  proof (rule ccontr)
    assume "\<not> js_truthy (js_get current ''provider'')"
    then have "js_text (js_get current ''provider'') = []" by (simp add: js_text_def js_or_def)
    with assms(1) show False by (simp add: js_lower_def)
  qed
  ultimately show ?thesis using assms normal_mode by (simp add: command_ok_def summary_change_def summary_payload_def sent_def js_get_def)
qed

lemma summary_good [keeps_rules]: "good (saveSummaryCustomApiMode m)"
  unfolding saveSummaryCustomApiMode_def Let_def by (intro keeps_rules) (simp_all add: form_keeps summary_ok)

lemma copy_good [keeps_rules]: "good copy_command"
  unfolding copy_command_def Let_def by (intro keeps_rules) (simp_all add: form_keeps)

lemma language_good [keeps_rules]: "good (choose_language h l)"
  unfolding choose_language_def by (intro keeps_rules good_refresh) (simp_all add: form_keeps listed_chosen)

lemma native_good [keeps_rules]: "good (native_click h b)"
  by (cases b) (auto intro!: keeps_rules web_good reconfigure_good doctor_good kernel_good)

lemma action_good [keeps_rules]: "good (store_action h b)"
  by (cases b) (auto intro!: keeps_rules native_good kernel_good simp: form_keeps simp del: native_click.simps)

lemma choose_provider_good [keeps_rules]: "good (choose_provider h v)"
  unfolding choose_provider_def Let_def
  by (intro keeps_rules fetch_if_good) (simp_all add: form_keeps apply_lists offering_by_choice listed_chosen chosen_offering)

lemma fields_good [keeps_rules]: "good (input_field f v)" "good (blur_field f)" "good (choose_mode m)"
proof -
  show "good (input_field f v)"
    unfolding input_field_def Let_def by (intro keeps_rules fetch_again_good) (simp_all add: form_keeps)
  show "good (blur_field f)"
    unfolding blur_field_def Let_def by (cases f; simp; intro keeps_rules fetch_again_good; simp add: form_keeps listed_chosen)
  show "good (choose_mode m)"
    unfolding choose_mode_def Let_def by (intro keeps_rules fetch_again_good) (simp_all add: form_keeps listed_chosen)
qed

lemma handler_good: "good (setup_handler h ev)"
proof (cases ev)
  case (Sv_start l)
  show ?thesis unfolding Sv_start setup_handler.simps start_app_def Let_def
    by (intro keeps_rules load_good) (simp_all add: form_keeps)
qed (auto intro!: keeps_rules choose_provider_good fields_good fetch_good copy_good language_good native_good action_good dirs_good
    kernel_good save_good summary_good simp: form_keeps listed_chosen simp del: native_click.simps store_action.simps)

lemma new_listed: "listed new_setup"
  by (simp add: form_defs new_setup_def modes_ok_def)

interpretation form: async_program "setup_handler h" new_setup listed command_ok for h
  by unfold_locales (rule new_listed, rule handler_good)

section \<open>In every run\<close>

text \<open>C19: Nothing invalid is ever saved. In every run of the form, whatever the user does and whatever the backend answers,
  in any order, what is sent with \<open>save_config\<close> is complete for one of the presets: its provider, a model, a key,
  an address where the preset needs one, and a supported mode with headers that parse where it has such options
  and none where it has not. The one other thing sent is the change of the mode from the summary: it concerns a custom
  provider and sets a supported mode.\<close>

theorem saved_config_valid:
  assumes "steps (setup_step h) (new_world new_setup) w" "(i, Backend ''save_config'' [(k, v)]) \<in> set (wd_commands w)"
  shows "list_ex (complete_for v) PROVIDER_PRESETS \<or> summary_change v"
  using form.commands_ok [OF assms(1) [unfolded setup_step_def] assms(2)] by (simp add: command_ok_def)

text \<open>Running a function up to its first await.\<close>

lemma run_awaited: "and_then (awaited c) k s = (s, Await c (case_sum fail k))"
proof -
  have "and_then (case_sum fail give r) k = case_sum fail k r" for r :: "thrown + jsval"
    by (cases r) (auto simp: fun_eq_iff fail_def)
  then show ?thesis by (simp add: awaited_def and_then_assoc and_then_wait)
qed

lemmas run_steps = awaiting_def and_then_assoc and_then_wait run_awaited

lemma commands_of_wait:
  "setup_handler h ev (wd_state w) = (t, Await c f) \<Longrightarrow>
     wd_commands (setup_step h (Event ev) w) = wd_commands w @ [(length (wd_commands w), c)] \<and> wd_state (setup_step h (Event ev) w) = t"
  by (simp add: setup_step_def Let_def)

lemma state_of_done:
  "setup_handler h ev (wd_state w) = (t, Done r) \<Longrightarrow>
     wd_commands (setup_step h (Event ev) w) = wd_commands w \<and> wd_state (setup_step h (Event ev) w) = t"
  by (simp add: setup_step_def)

lemma save_asks:
  assumes "save_values_of s = (v, t)" "\<not> isCloudflarePreset (sv_preset v)" "\<not> isManagedAuthPreset (sv_preset v)"
    "\<not> pr_showCustomOptions (sv_preset v)" "\<not> pr_showBaseUrl (sv_preset v)" "sv_model v \<noteq> []" "sv_apiKey v \<noteq> []"
  shows "\<exists>f. setup_handler h Sv_save s =
    (setSetupMessage (Ui_key ''msg.savingConfig'' []) [] t, Await (Backend ''save_config'' [(''payload'', save_payload_of v (sv_apiKey v) t)]) f)"
  using assms by (simp add: saveConfigAndEnter_def check_auth_def send_config_def run_steps Let_def)

definition plain_host :: setup_host where
  "plain_host = \<lparr>sh_panel = \<lparr>ph_label = [], ph_web = sample_web, ph_available = True, ph_qrImage = True\<rparr>, sh_mac = False\<rparr>"

definition filled :: desk where
  "filled = snd (save_values_of (react_field Fd_apiKey (set_el (put_field Fd_apiKey ''key'')
     (react_field Fd_model (typed Fd_model (set_el (put_field Fd_model ''gpt'') new_setup))))))"

definition first_save :: setup_world where
  "first_save = feed_events (setup_step plain_host)
     [Event (Sv_input Fd_model ''gpt''), Event (Sv_input Fd_apiKey ''key''), Event Sv_save] (new_world new_setup)"

definition first_values :: save_values where
  "first_values = \<lparr>sv_preset = getProviderPreset ''openai'', sv_apiKey = ''key'', sv_model = ''gpt'', sv_baseUrl = [], sv_mode = [], sv_headers = []\<rparr>"

lemma first_save_asks: "wd_commands first_save = [(0, Backend ''save_config'' [(''payload'', save_payload_of first_values ''key'' filled)])]"
proof -
  let ?w1 = "setup_step plain_host (Event (Sv_input Fd_model ''gpt'')) (new_world new_setup)"
  let ?w2 = "setup_step plain_host (Event (Sv_input Fd_apiKey ''key'')) ?w1"
  let ?s = "react_field Fd_apiKey (set_el (put_field Fd_apiKey ''key'')
     (react_field Fd_model (typed Fd_model (set_el (put_field Fd_model ''gpt'') new_setup))))"
  have w0: "wd_state (new_world new_setup) = new_setup" "wd_commands (new_world new_setup) = []" by (simp_all add: new_world_def)
  have w1: "wd_commands ?w1 = [] \<and> wd_state ?w1 = react_field Fd_model (typed Fd_model (set_el (put_field Fd_model ''gpt'') new_setup))"
    by (subst w0(2) [symmetric], rule state_of_done) (simp add: w0 input_field_def look_def Let_def give_def)
  have w2: "wd_commands ?w2 = [] \<and> wd_state ?w2 = ?s"
    by (subst w1 [THEN conjunct1, symmetric], rule state_of_done) (simp add: w1 input_field_def look_def Let_def give_def)
  have v: "fst (save_values_of ?s) = first_values" by code_simp
  have p: "\<not> isCloudflarePreset (sv_preset first_values)" "\<not> isManagedAuthPreset (sv_preset first_values)"
    "\<not> pr_showCustomOptions (sv_preset first_values)" "\<not> pr_showBaseUrl (sv_preset first_values)"
    "sv_model first_values \<noteq> []" "sv_apiKey first_values = ''key''" by code_simp+
  have "save_values_of ?s = (first_values, filled)" by (simp only: filled_def v [symmetric] prod.collapse)
  then obtain f where "setup_handler plain_host Sv_save ?s =
    (setSetupMessage (Ui_key ''msg.savingConfig'' []) [] filled, Await (Backend ''save_config'' [(''payload'', save_payload_of first_values ''key'' filled)]) f)"
    using save_asks [of ?s first_values filled plain_host] p by auto
  then show ?thesis
    using commands_of_wait [of plain_host Sv_save ?w2] w2 by (simp add: first_save_def feed_events_def)
qed

theorem saved_config_valid_witness:
  "(0, Backend ''save_config'' [(''payload'', save_payload_of first_values ''key'' filled)]) \<in> set (wd_commands first_save) \<and>
   (list_ex (complete_for (save_payload_of first_values ''key'' filled)) PROVIDER_PRESETS \<or> summary_change (save_payload_of first_values ''key'' filled))"
proof -
  have "steps (setup_step plain_host) (new_world new_setup) first_save"
    unfolding first_save_def by (intro steps_events no_step)
  then show ?thesis
    using saved_config_valid [of plain_host first_save 0 "''payload''" "save_payload_of first_values ''key'' filled"] first_save_asks by simp
qed

text \<open>C20: The form never shows another provider than the one it works on. In every run, once the list of providers is filled,
  it offers exactly the presets that are visible, in their groups; the active provider is one of them; and the list and the
  store both have it selected.\<close>

theorem active_provider_shown:
  assumes "steps (setup_step h) (new_world new_setup) w" "su_options (wd_state w) \<noteq> []"
  shows "su_options (wd_state w) = grouped_ids (visible_presets (su_showAdvanced (wd_state w))) \<and>
    su_active (wd_state w) \<in> pr_id ` set (visible_presets (su_showAdvanced (wd_state w))) \<and>
    fd_provider (su_el (wd_state w)) = su_active (wd_state w) \<and> fd_provider (su_form (wd_state w)) = su_active (wd_state w)"
proof -
  have "listed (wd_state w)" using form.state_kept [OF assms(1) [unfolded setup_step_def]] .
  then show ?thesis using assms(2) set_grouped_ids by (auto simp: form_defs)
qed

definition shown_app :: setup_world where
  "shown_app = feed_events (setup_step plain_host) [Event (Sv_toggle True)] (new_world new_setup)"

theorem active_provider_shown_witness:
  "su_options (wd_state shown_app) \<noteq> [] \<and> su_active (wd_state shown_app) = ''openai'' \<and>
   fd_provider (su_form (wd_state shown_app)) = su_active (wd_state shown_app)"
proof -
  have s: "wd_state shown_app = toggle_advanced plain_host True new_setup"
    by (simp add: shown_app_def feed_events_def setup_step_def new_world_def upd_def)
  have "su_options (toggle_advanced plain_host True new_setup) \<noteq> []" "su_active (toggle_advanced plain_host True new_setup) = ''openai''"
    by code_simp+
  moreover have "steps (setup_step plain_host) (new_world new_setup) shown_app"
    unfolding shown_app_def by (intro steps_events no_step)
  ultimately show ?thesis using active_provider_shown [of plain_host shown_app] s by simp
qed

definition chosen_mode :: desk where
  "chosen_mode = set_el (\<lambda>d. d\<lparr>fd_model := ''Kimi-K2'', fd_apiMode := ''anthropic-messages''\<rparr>) new_setup"

theorem remembered_mode_read_back_witness:
  "getRememberedCustomApiModeForCurrentModel (getProviderPreset ''custom'') (rememberCustomApiModeForCurrentModel (getProviderPreset ''custom'') chosen_mode) =
     ''anthropic-messages''"
proof -
  let ?p = "getProviderPreset ''custom''" and ?q = "getProviderPreset ''ollama''"
  have "modes_ok (su_storedModes chosen_mode)" by (simp add: chosen_mode_def set_el_def new_setup_def modes_ok_def)
  moreover have "pr_showCustomOptions ?p" "customApiModeMemoryKey ?p (fd_model (su_el chosen_mode)) \<noteq> []"
    "customApiModeMemoryKey ?q ''m'' \<noteq> customApiModeMemoryKey ?p (fd_model (su_el chosen_mode))"
    "normalizeCustomApiMode (JStr (fd_apiMode (su_el chosen_mode))) = ''anthropic-messages''" by code_simp+
  ultimately show ?thesis using remembered_mode_read_back [of chosen_mode ?p ?q "''m''"] by simp
qed

section \<open>Where functions get into each other's way\<close>

text \<open>The provider controller copies the form without the element of the command.\<close>

lemma suggestions_command: "fd_command (su_form (renderModelSuggestions ms s)) = ''openclaw''"
  by (simp add: renderModelSuggestions_def syncCustomApiModeForCurrentModel_def put_mode_def provider_sync_def syncSetupFormFromElements_def Let_def)

lemma fetched_state:
  assumes "js_truthy (js_get result ''ok'')"
  obtains s' where "models_fetched silent key result s = (s', Done (Inr True))" "fd_command (su_form s') = ''openclaw''"
    "su_models s' = distinct_models [] (js_array (js_get result ''models''))" "su_fetchKey s' = key"
    "js_trim (fd_model (su_el s)) = [] \<longrightarrow> js_array (js_get result ''models'') \<noteq> [] \<longrightarrow>
       fd_model (su_el s') = js_to_string (hd (js_array (js_get result ''models'')))"
proof -
  have ne: "result \<noteq> JUndef" "result \<noteq> JNull" using assms by (auto simp: js_get_def)
  let ?models = "js_array (js_get result ''models'')"
  let ?t = "(renderModelSuggestions ?models s)\<lparr>su_fetchKey := key\<rparr>"
  let ?u = "if js_trim (fd_model (su_el ?t)) = [] \<and> ?models \<noteq> []
    then provider_sync (set_el (\<lambda>d. d\<lparr>fd_model := js_to_string (hd ?models)\<rparr>) ?t) else ?t"
  have run: "\<exists>m. models_fetched silent key result s = ((if silent then ?u else show_message m ''success'' ?u), Done (Inr True))"
    using assms ne by (auto simp: models_fetched_def member_def Let_def give_def)
  then obtain m where m: "models_fetched silent key result s = ((if silent then ?u else show_message m ''success'' ?u), Done (Inr True))" ..
  have model: "fd_model (su_el (renderModelSuggestions ms s)) = js_trim (fd_model (su_el s))"
    "su_models (renderModelSuggestions ms s) = distinct_models [] ms" for ms
    by (simp_all add: renderModelSuggestions_def syncCustomApiModeForCurrentModel_def put_mode_def provider_sync_def
        syncSetupFormFromElements_def set_el_def closeModelDropdown_def renderModelDropdown_def Let_def)
  have u: "fd_command (su_form ?u) = ''openclaw''" "su_models ?u = distinct_models [] ?models" "su_fetchKey ?u = key"
    by (simp_all add: suggestions_command model provider_sync_def syncSetupFormFromElements_def set_el_def)
  have e: "js_trim (fd_model (su_el s)) = [] \<longrightarrow> ?models \<noteq> [] \<longrightarrow> fd_model (su_el ?u) = js_to_string (hd ?models)"
    by (simp add: model provider_sync_def syncSetupFormFromElements_def set_el_def)
  show ?thesis by (rule that [OF m]) (use u e in \<open>simp_all add: show_message_def\<close>)
qed

text \<open>Fetching the models of a provider forgets the command: after a fetch that succeeds, whatever command
  was in the form, React renders the default into it, and the next save sends \<open>openclaw\<close>.\<close>

theorem fetching_forgets_command:
  assumes "js_truthy (js_get result ''ok'')"
  shows "sent (save_payload_of v k (render_form (fst (models_fetched silent key result s)))) ''openclawCommand'' = ''openclaw''"
proof -
  obtain s' where s': "models_fetched silent key result s = (s', Done (Inr True))" "fd_command (su_form s') = ''openclaw''"
    using fetched_state [OF assms] by metis
  then show ?thesis
    by (simp add: sent_def save_payload_of_def js_get_def render_form_def select_provider_def set_el_def Let_def)
qed

definition own_command :: desk where
  "own_command = set_el (\<lambda>d. d\<lparr>fd_command := ''/opt/openclaw''\<rparr>) new_setup"

theorem fetching_forgets_command_witness:
  "sent (save_payload_of first_values ''key'' own_command) ''openclawCommand'' = ''/opt/openclaw'' \<and>
   sent (save_payload_of first_values ''key'' (render_form (fst (models_fetched True [] (JObj [(''ok'', JBool True)]) own_command)))) ''openclawCommand'' =
     ''openclaw''"
proof
  show "sent (save_payload_of first_values ''key'' own_command) ''openclawCommand'' = ''/opt/openclaw''" by code_simp
  have "js_truthy (js_get (JObj [(''ok'', JBool True)]) ''ok'')" by code_simp
  then show "sent (save_payload_of first_values ''key'' (render_form (fst (models_fetched True [] (JObj [(''ok'', JBool True)]) own_command)))) ''openclawCommand'' =
     ''openclaw''" by (rule fetching_forgets_command)
qed

text \<open>Each click of a button of the main view asks the backend twice.\<close>

fun button_command :: "setup_host \<Rightarrow> main_button \<Rightarrow> setup_command" where
  "button_command h Btn_openWeb = Backend (if sh_mac h then ''get_dashboard_url'' else ''open_dashboard_window'') []"
| "button_command h Btn_reconfigure = Backend ''read_raw_config'' []"
| "button_command h Btn_doctor = Backend ''run_doctor'' []"
| "button_command h Btn_updateKernel = Backend ''install_or_update_kernel'' []"
| "button_command h Btn_openSkillDir = Backend ''get_state'' []"

lemma native_asks: "\<exists>t f. native_click h b s = (t, Await (button_command h b) f)"
  by (cases b) (simp_all add: run_steps openOpenClawWeb_def reconfigureFromSavedConfig_def runDoctor_def handleKernelInstall_def openFirstSkillDir_def Let_def)

lemma action_asks: "\<exists>t f. store_action h b s = (t, Await (button_command h b) f)"
proof (cases "b = Btn_updateKernel")
  case True
  then show ?thesis by (simp add: run_steps handleKernelInstall_def Let_def)
next
  case False
  then have "store_action h b = native_click h b" by (cases b) simp_all
  then show ?thesis using native_asks by simp
qed

text \<open>One click asks twice. A button of the main view has a listener of the event binder and the action of the
  store that React calls: a click, in any state of the form, puts the same request to the backend two times, for the
  dashboard, the configuration, the doctor, the kernel and the skills alike.\<close>

theorem buttons_ask_twice:
  "wd_commands (feed_events (setup_step h) (click b) w) =
     wd_commands w @ [(length (wd_commands w), button_command h b), (Suc (length (wd_commands w)), button_command h b)]"
proof -
  let ?w1 = "setup_step h (Event (Sv_native b)) w"
  obtain t f where "native_click h b (wd_state w) = (t, Await (button_command h b) f)" using native_asks by blast
  then have w1: "wd_commands ?w1 = wd_commands w @ [(length (wd_commands w), button_command h b)]"
    using commands_of_wait [of h "Sv_native b" w] by simp
  obtain t' f' where "store_action h b (wd_state ?w1) = (t', Await (button_command h b) f')" using action_asks by blast
  then have "wd_commands (setup_step h (Event (Sv_action b)) ?w1) = wd_commands ?w1 @ [(length (wd_commands ?w1), button_command h b)]"
    using commands_of_wait [of h "Sv_action b" ?w1] by simp
  then show ?thesis by (simp add: feed_events_def click_def w1)
qed

text \<open>
  The panel saves with the configuration it has kept, which a mode that is saved from the summary does
  not change.
\<close>

definition summary_run :: "desk \<Rightarrow> string \<Rightarrow> jsval \<Rightarrow> jsval \<Rightarrow> jsval \<Rightarrow> jsval \<Rightarrow> env \<Rightarrow> (setup_event, thrown + jsval) happening list" where
  "summary_run s m current saved state path e =
     [Event (Sv_summary_mode m), Answer 0 (Inr current), Answer 1 (Inr saved), Answer 2 (Inr state), Answer 3 (Inr path),
      Event (Sv_panel e Pe_saveConfig)]"

text \<open>C37: The panel undoes a change of the mode. For a custom provider, the user saves another mode from the summary, the
  backend confirms, and then the user saves the server address of the panel: the panel sends the configuration
  it has kept from before, with the old mode.\<close>

theorem summary_mode_undone:
  fixes s :: desk and h :: setup_host and m :: string and current saved state path :: jsval and e :: env
  defines "w \<equiv> feed_events (setup_step h) (summary_run s m current saved state path e) (new_world s)"
    and "url \<equiv> normalizePairBaseUrl (sh_web h) (ps_draftServerUrl (pn_store (su_panel s)))"
  assumes "m \<in> set SUPPORTED_CUSTOM_API_MODES" "js_truthy current" "js_lower (js_text (js_get current ''provider'')) = ''custom''"
    "js_truthy (js_get saved ''ok'')" "js_truthy (js_get state ''isConfigured'')" "js_truthy (js_get state ''config'')"
    "pn_rawConfig (su_panel s) = current" "url \<noteq> []"
  shows "(1, Backend ''save_config'' [(''payload'', summary_payload current m)]) \<in> set (wd_commands w) \<and>
    last (pn_commands (su_panel (wd_state w))) =
      (pn_next (su_panel s), Panel_invoke ''save_config'' [(''payload'', save_payload current url (js_trim (ps_draftDeviceId (pn_store (su_panel s)))))]) \<and>
    js_get (summary_payload current m) ''customApiMode'' = JStr m \<and>
    js_get (save_payload current url (js_trim (ps_draftDeviceId (pn_store (su_panel s))))) ''customApiMode'' =
      js_or (js_get current ''customApiMode'') (JStr [])"
proof -
  have ne: "saved \<noteq> JUndef" "saved \<noteq> JNull" "state \<noteq> JUndef" "state \<noteq> JNull" using assms(6,7) by (auto simp: js_get_def)
  have mode: "normalizeCustomApiMode (JStr m) = m" "m \<noteq> []"
    using assms(3) supported_normal by (auto simp: SUPPORTED_CUSTOM_API_MODES_def)
  define s1 where "s1 = s\<lparr>su_summary := (su_summary s)\<lparr>sm_customApiMode := m\<rparr>\<rparr>"
  define s2 where "s2 = setDoctorOutput (Ui_key ''msg.saveSuccess'' []) (renderSummary (js_get state ''config'') path s1)"
  let ?w5 = "feed_events (setup_step h) (butlast (summary_run s m current saved state path e)) (new_world s)"
  have run: "wd_commands ?w5 = [(0, Backend ''read_raw_config'' []), (1, Backend ''save_config'' [(''payload'', summary_payload current m)]),
      (2, Backend ''get_state'' []), (3, Backend ''get_config_path'' []), (4, Next_turn)] \<and> wd_state ?w5 = s2"
    using assms ne mode
    by (simp add: feed_events_def summary_run_def setup_step_def new_world_def run_steps saveSummaryCustomApiMode_def Let_def member_def
        s1_def [symmetric] s2_def)
  have p: "su_panel s2 = su_panel s" by (simp add: s2_def s1_def syncDoctorOutputState_def renderSummary_def Let_def)
  have w: "wd_commands w = wd_commands ?w5 \<and> wd_state w = s2\<lparr>su_panel := savePairConfig (sh_panel h) (su_panel s)\<rparr>"
    using state_of_done [of h "Sv_panel e Pe_saveConfig" ?w5] run p
    by (simp add: w_def feed_events_def summary_run_def upd_def panel_step_def)
  have "last (pn_commands (savePairConfig (sh_panel h) (su_panel s))) =
      (pn_next (su_panel s), Panel_invoke ''save_config'' [(''payload'', save_payload current url (js_trim (ps_draftDeviceId (pn_store (su_panel s)))))])"
    using assms(4,9,10)
    by (simp add: savePairConfig_def save_latest_def ask_backend_def updatePairButtons_def setPairState_def url_def Let_def)
  then show ?thesis using w run by (simp add: summary_payload_def save_payload_def js_get_def)
qed

definition custom_config :: jsval where
  "custom_config = JObj [(''provider'', JStr ''custom''), (''model'', JStr ''m''), (''customApiMode'', JStr ''openai-completions'')]"

definition configured_desk :: desk where
  "configured_desk = new_setup\<lparr>su_panel := new_panel\<lparr>pn_rawConfig := custom_config\<rparr>\<rparr>"

theorem summary_mode_undone_witness:
  "(let w = feed_events (setup_step plain_host) (summary_run configured_desk ''anthropic-messages'' custom_config (JObj [(''ok'', JBool True)])
       (JObj [(''isConfigured'', JBool True), (''config'', JObj [])]) JNull panel_env) (new_world configured_desk)
    in (1, Backend ''save_config'' [(''payload'', summary_payload custom_config ''anthropic-messages'')]) \<in> set (wd_commands w)) \<and>
   js_get (save_payload custom_config ''https://chnnl.net'' []) ''customApiMode'' = JStr ''openai-completions''"
proof -
  have "''anthropic-messages'' \<in> set SUPPORTED_CUSTOM_API_MODES" by (simp add: SUPPORTED_CUSTOM_API_MODES_def)
  moreover have "js_truthy custom_config" "js_lower (js_text (js_get custom_config ''provider'')) = ''custom''"
    "js_truthy (js_get (JObj [(''ok'', JBool True)]) ''ok'')"
    "js_truthy (js_get (JObj [(''isConfigured'', JBool True), (''config'', JObj [])]) ''isConfigured'')"
    "js_truthy (js_get (JObj [(''isConfigured'', JBool True), (''config'', JObj [])]) ''config'')" by code_simp+
  moreover have "pn_rawConfig (su_panel configured_desk) = custom_config" by (simp add: configured_desk_def)
  moreover have u: "normalizePairBaseUrl (sh_web plain_host) (ps_draftServerUrl (pn_store (su_panel configured_desk))) = ''https://chnnl.net''"
    "js_trim (ps_draftDeviceId (pn_store (su_panel configured_desk))) = []" by code_simp+
  moreover have "js_or (js_get custom_config ''customApiMode'') (JStr []) = JStr ''openai-completions''" by code_simp
  ultimately show ?thesis
    using summary_mode_undone [of "''anthropic-messages''" custom_config "JObj [(''ok'', JBool True)]"
        "JObj [(''isConfigured'', JBool True), (''config'', JObj [])]" configured_desk plain_host JNull panel_env]
    by (simp add: Let_def)
qed

end
