(* ===== verification/DeviceIdentity.thy ===== *)
theory DeviceIdentity
  imports Steps GatewayClient
begin

text \<open>
  desktop/src/legacy/openclaw-device-identity.ts, the identity of the desktop at the gateway of the agent,
  and the session keys and message texts of desktop/src/legacy/openclaw-session.ts. A byte array is a
  text of 8-bit characters. The Web Crypto functions are the environment: the digest is a parameter, a
  new key pair an answer.
\<close>

section \<open>Base64 of URLs\<close>

definition B64_ALPHABET :: string where
  "B64_ALPHABET = ''ABCDEFGHIJKLMNOPQRSTUVWXYZabcdefghijklmnopqrstuvwxyz0123456789+/''"

definition b64_char :: "nat \<Rightarrow> char" where
  "b64_char n = B64_ALPHABET ! n"

definition b64_value :: "char \<Rightarrow> nat option" where
  "b64_value c = (if c \<in> set B64_ALPHABET then Some (length (takeWhile (\<lambda>d. d \<noteq> c) B64_ALPHABET)) else None)"

fun sextets :: "nat list \<Rightarrow> nat list" where
  "sextets (a # b # c # r) = (a div 4) # ((a mod 4) * 16 + b div 16) # ((b mod 16) * 4 + c div 64) # (c mod 64) # sextets r"
| "sextets [a, b] = [a div 4, (a mod 4) * 16 + b div 16, (b mod 16) * 4]"
| "sextets [a] = [a div 4, (a mod 4) * 16]"
| "sextets [] = []"

fun octets :: "nat list \<Rightarrow> nat list" where
  "octets (p # q # r # s # t) = (p * 4 + q div 16) # ((q mod 16) * 16 + r div 4) # ((r mod 4) * 64 + s) # octets t"
| "octets [p, q, r] = [p * 4 + q div 16, (q mod 16) * 16 + r div 4]"
| "octets [p, q] = [p * 4 + q div 16]"
| "octets _ = []"

text \<open>\<open>btoa\<close> and \<open>atob\<close>, which fails for a character or a length that cannot be.\<close>

definition btoa :: "string \<Rightarrow> string" where
  "btoa s = map b64_char (sextets (map of_char s)) @ replicate ((3 - length s mod 3) mod 3) (CHR ''='')"

definition without_padding :: "string \<Rightarrow> string" where
  "without_padding t =
     (if length t mod 4 \<noteq> 0 then t
      else case rev t of
             a # b # r \<Rightarrow> if a \<noteq> CHR ''='' then t else if b \<noteq> CHR ''='' then rev (b # r) else rev r
           | _ \<Rightarrow> t)"

definition atob :: "string \<Rightarrow> string option" where
  "atob input =
     (let t = without_padding (filter (\<lambda>c. c \<notin> {CHR '' '', CHR 0x09, CHR 0x0A, CHR 0x0C, CHR 0x0D}) input);
          vs = map b64_value t in
      if length t mod 4 = 1 \<or> None \<in> set vs then None else Some (map char_of (octets (map the vs))))"

text \<open>\<open>toBase64\<close> turns the bytes into a text in chunks.\<close>

function chunks :: "nat \<Rightarrow> 'a list \<Rightarrow> 'a list list" where
  "chunks n xs = (if xs = [] \<or> n = 0 then [] else take n xs # chunks n (drop n xs))"
  by pat_completeness auto
termination by (relation "measure (\<lambda>(n, xs). length xs)") auto

declare chunks.simps [simp del]

definition toBase64 :: "string \<Rightarrow> string" where
  "toBase64 bytes = btoa (concat (chunks 0x8000 bytes))"

definition url_safe :: "char \<Rightarrow> char" where
  "url_safe c = (if c = CHR ''+'' then CHR ''-'' else if c = CHR ''/'' then CHR ''_'' else c)"

definition url_unsafe :: "char \<Rightarrow> char" where
  "url_unsafe c = (if c = CHR ''-'' then CHR ''+'' else if c = CHR ''_'' then CHR ''/'' else c)"

definition base64UrlEncode :: "string \<Rightarrow> string" where
  "base64UrlEncode bytes = rev (dropWhile (\<lambda>c. c = CHR ''='') (rev (map url_safe (toBase64 bytes))))"

definition base64UrlDecode :: "string \<Rightarrow> string option" where
  "base64UrlDecode input =
     (let normalized = map url_unsafe input
      in atob (normalized @ replicate ((4 - length normalized mod 4) mod 4) (CHR ''='')))"

lemma octets_sextets: "list_all (\<lambda>b. b < 256) bs \<Longrightarrow> octets (sextets bs) = bs"
proof (induction bs rule: sextets.induct)
  case (1 a b c r)
  have "a div 4 * 4 + (a mod 4 * 16 + b div 16) div 16 = a" "(a mod 4 * 16 + b div 16) mod 16 * 16 + (b mod 16 * 4 + c div 64) div 4 = b"
    "(b mod 16 * 4 + c div 64) mod 4 * 64 + c mod 64 = c"
  proof -
    have "b div 16 < 16" "c div 64 < 4" using 1(2) by auto
    then show "a div 4 * 4 + (a mod 4 * 16 + b div 16) div 16 = a" "(a mod 4 * 16 + b div 16) mod 16 * 16 + (b mod 16 * 4 + c div 64) div 4 = b"
      "(b mod 16 * 4 + c div 64) mod 4 * 64 + c mod 64 = c" by simp_all
  qed
  then show ?case using 1 by simp
next
  case (2 a b)
  then have "b div 16 < 16" by auto
  then show ?case by simp
qed simp_all

lemma sextets_small: "list_all (\<lambda>b. b < 256) bs \<Longrightarrow> list_all (\<lambda>v. v < 64) (sextets bs)"
  by (induction bs rule: sextets.induct) auto

lemma length_sextets: "length (sextets bs) mod 4 \<noteq> 1"
proof (induction bs rule: sextets.induct)
  case (1 a b c r)
  have "length (sextets (a # b # c # r)) = 4 + length (sextets r)" by simp
  then show ?case using 1 by (metis mod_add_self1)
qed simp_all

lemma b64_back: "v < 64 \<Longrightarrow> b64_value (b64_char v) = Some v \<and> b64_char v \<noteq> CHR ''='' \<and>
    url_unsafe (url_safe (b64_char v)) = b64_char v \<and> url_safe (b64_char v) \<noteq> CHR ''='' \<and>
    b64_char v \<notin> {CHR '' '', CHR 0x09, CHR 0x0A, CHR 0x0C, CHR 0x0D}"
proof -
  have "list_all (\<lambda>v. b64_value (b64_char v) = Some v \<and> b64_char v \<noteq> CHR ''='' \<and>
    url_unsafe (url_safe (b64_char v)) = b64_char v \<and> url_safe (b64_char v) \<noteq> CHR ''='' \<and>
    b64_char v \<notin> {CHR '' '', CHR 0x09, CHR 0x0A, CHR 0x0C, CHR 0x0D}) [0..<64]"
    by code_simp
  then show "v < 64 \<Longrightarrow> ?thesis" by (auto simp: list_all_iff)
qed

lemma concat_chunks: "n \<noteq> 0 \<Longrightarrow> concat (chunks n xs) = xs"
proof (induction n xs rule: chunks.induct)
  case (1 n xs)
  then show ?case by (subst chunks.simps) simp
qed

lemma strip_padding:
  assumes "CHR ''='' \<notin> set u" "length u mod 4 \<noteq> 1"
  shows "without_padding (u @ replicate ((4 - length u mod 4) mod 4) (CHR ''='')) = u"
proof -
  have "length u mod 4 < 4" by simp
  then consider "length u mod 4 = 0" | "length u mod 4 = 2" | "length u mod 4 = 3" using assms(2) by linarith
  then show ?thesis
  proof cases
    case 1
    have "hd (rev u) \<noteq> CHR ''=''" if "u \<noteq> []" using assms(1) that hd_in_set [of "rev u"] by auto
    then show ?thesis using 1 by (cases "rev u") (auto simp: without_padding_def split: list.split)
  next
    case 2
    then show ?thesis by (simp add: without_padding_def numeral_2_eq_2 mod_Suc)
  next
    case 3
    obtain x xs where "rev u = x # xs" using 3 by (cases "rev u") auto
    moreover from this have "x \<noteq> CHR ''=''" using assms(1) by (metis list.set_intros(1) set_rev)
    moreover from calculation have "u = rev xs @ [x]" by (metis rev.simps(2) rev_rev_ident)
    ultimately show ?thesis using 3 by (simp add: without_padding_def mod_Suc)
  qed
qed

text \<open>C39: The keys are not lost in their texts: for any bytes, whatever their number, \<open>base64UrlDecode\<close> gives back what
  \<open>base64UrlEncode\<close> has encoded, through the chunks, the two letters that differ in URLs and the padding that is
  stripped and put back.\<close>

theorem base64url_roundtrip: "base64UrlDecode (base64UrlEncode bytes) = Some bytes"
proof -
  let ?bs = "map of_char bytes :: nat list"
  let ?u = "map b64_char (sextets ?bs)"
  have small: "list_all (\<lambda>b. b < 256) ?bs" by (simp add: list_all_iff)
  have v: "v < 64" if "v \<in> set (sextets ?bs)" for v using sextets_small [OF small] that by (auto simp: list_all_iff)
  have ne: "b64_char v \<noteq> CHR ''=''" "url_safe (b64_char v) \<noteq> CHR ''=''" if "v \<in> set (sextets ?bs)" for v using v b64_back that by blast+
  have no: "CHR ''='' \<notin> set ?u" using ne(1) by (metis imageE list.set_map)
  have ws: "filter (\<lambda>c. c \<notin> {CHR '' '', CHR 0x09, CHR 0x0A, CHR 0x0C, CHR 0x0D}) ?u = ?u"
    using v b64_back by (auto simp: filter_id_conv)
  have unsafe_safe: "map url_unsafe (map url_safe ?u) = ?u" using v b64_back by auto
  have vs: "map b64_value ?u = map Some (sextets ?bs)" using v b64_back by auto
  have len: "length ?u mod 4 \<noteq> 1" using length_sextets [of ?bs] by simp
  have "url_safe (CHR ''='') = CHR ''=''" by (simp add: url_safe_def)
  moreover have "dropWhile (\<lambda>c. c = CHR ''='') (rev (map url_safe ?u)) = rev (map url_safe ?u)"
  proof (cases "rev (map url_safe ?u)")
    case (Cons x xs)
    then have "x \<in> set (map url_safe ?u)" by (metis list.set_intros(1) set_rev)
    then have "x \<noteq> CHR ''=''" using ne(2) by auto
    then show ?thesis using Cons by simp
  qed simp
  moreover have "dropWhile (\<lambda>c. c = d) (replicate n d @ t) = dropWhile (\<lambda>c. c = d) t" for n and d :: char and t by (induction n) simp_all
  ultimately have enc: "base64UrlEncode bytes = map url_safe ?u"
    by (simp add: base64UrlEncode_def toBase64_def concat_chunks btoa_def)
  have "filter (\<lambda>c. c \<notin> {CHR '' '', CHR 0x09, CHR 0x0A, CHR 0x0C, CHR 0x0D}) (?u @ replicate n (CHR ''='')) = ?u @ replicate n (CHR ''='')" for n
    using ws by (simp add: filter_replicate)
  then have "base64UrlDecode (base64UrlEncode bytes) = (if None \<in> set (map b64_value ?u) then None else Some (map char_of (octets (map the (map b64_value ?u)))))"
    using strip_padding [OF no len] len unfolding base64UrlDecode_def enc unsafe_safe Let_def atob_def by simp
  also have "\<dots> = Some bytes" unfolding vs using octets_sextets [OF small] by (simp add: o_def)
  finally show ?thesis .
qed

section \<open>What the gateway is told\<close>

definition arrayBufferToHex :: "string \<Rightarrow> string" where
  "arrayBufferToHex bytes =
     (let digit = (\<lambda>n. if n < 10 then char_of (48 + n) else char_of (87 + n) :: char)
      in concat (map (\<lambda>c. [digit ((of_char c :: nat) div 16), digit ((of_char c :: nat) mod 16)]) bytes))"

definition normalizeTrimmedMetadata :: "jsval \<Rightarrow> string" where
  "normalizeTrimmedMetadata v = (case v of JStr s \<Rightarrow> js_trim s | _ \<Rightarrow> [])"

definition toLowerAscii :: "string \<Rightarrow> string" where
  "toLowerAscii = map (\<lambda>c. if 65 \<le> (of_char c :: nat) \<and> (of_char c :: nat) \<le> 90 then char_of ((of_char c :: nat) + 32) else c)"

definition normalizeDeviceMetadataForAuth :: "jsval \<Rightarrow> string" where
  "normalizeDeviceMetadataForAuth v =
     (let trimmed = normalizeTrimmedMetadata v in if trimmed = [] then [] else toLowerAscii trimmed)"

record device_options =
  do_nonce :: string
  do_clientId :: string
  do_clientMode :: string
  do_role :: string
  do_scopes :: "string list"
  do_token :: "string option"
  do_platform :: jsval
  do_deviceFamily :: jsval

definition payload_fields :: "string \<Rightarrow> nat \<Rightarrow> device_options \<Rightarrow> string list" where
  "payload_fields deviceId signedAtMs d =
     [''v3'', deviceId, do_clientId d, do_clientMode d, do_role d, js_join '','' (do_scopes d), js_num_to_string (Fin (of_nat signedAtMs)),
      (case do_token d of Some token \<Rightarrow> token | None \<Rightarrow> []), do_nonce d, normalizeDeviceMetadataForAuth (do_platform d),
      normalizeDeviceMetadataForAuth (do_deviceFamily d)]"

definition buildDeviceAuthPayloadV3 :: "string \<Rightarrow> nat \<Rightarrow> device_options \<Rightarrow> string" where
  "buildDeviceAuthPayloadV3 deviceId signedAtMs d = js_join ''|'' (payload_fields deviceId signedAtMs d)"

section \<open>The identity\<close>

record device_identity =
  id_deviceId :: string
  id_publicKey :: string
  id_privateKey :: string

record stored_identity =
  si_identity :: device_identity
  si_createdAtMs :: jsnum

text \<open>\<open>readStoredIdentity\<close> and \<open>writeStoredIdentity\<close>; a storage that cannot be read or written is None.\<close>

definition stored_identity_json :: "stored_identity \<Rightarrow> jsval" where
  "stored_identity_json i = JObj [(''version'', JNum (Fin 1)), (''deviceId'', JStr (id_deviceId (si_identity i))),
     (''publicKeyRawBase64Url'', JStr (id_publicKey (si_identity i))), (''privateKeyPkcs8Base64Url'', JStr (id_privateKey (si_identity i))),
     (''createdAtMs'', JNum (si_createdAtMs i))]"

definition parse_identity :: "nat \<Rightarrow> jsval \<Rightarrow> stored_identity option" where
  "parse_identity now parsed =
     (case (js_get parsed ''version'', js_get parsed ''deviceId'', js_get parsed ''publicKeyRawBase64Url'', js_get parsed ''privateKeyPkcs8Base64Url'') of
        (JNum v, JStr deviceId, JStr publicKey, JStr privateKey) \<Rightarrow>
          if v \<noteq> Fin 1 then None
          else Some \<lparr>si_identity = \<lparr>id_deviceId = deviceId, id_publicKey = publicKey, id_privateKey = privateKey\<rparr>,
                     si_createdAtMs = js_to_number (js_or (js_get parsed ''createdAtMs'') (JNum (Fin (of_nat now))))\<rparr>
      | _ \<Rightarrow> None)"

definition readStoredIdentity :: "nat \<Rightarrow> string option \<Rightarrow> stored_identity option" where
  "readStoredIdentity now raw =
     (case raw of
        None \<Rightarrow> None
      | Some stored \<Rightarrow> if stored = [] then None else case json_parse stored of None \<Rightarrow> None | Some parsed \<Rightarrow> parse_identity now parsed)"

definition deriveDeviceIdFromPublicKey :: "(string \<Rightarrow> string option) \<Rightarrow> string \<Rightarrow> string option" where
  "deriveDeviceIdFromPublicKey digest publicKey =
     (case base64UrlDecode publicKey of None \<Rightarrow> None | Some raw \<Rightarrow> map_option arrayBufferToHex (digest raw))"

definition validateStoredIdentity :: "(string \<Rightarrow> string option) \<Rightarrow> stored_identity option \<Rightarrow> stored_identity option" where
  "validateStoredIdentity digest stored =
     (case stored of
        None \<Rightarrow> None
      | Some i \<Rightarrow>
          case deriveDeviceIdFromPublicKey digest (id_publicKey (si_identity i)) of
            None \<Rightarrow> None
          | Some derived \<Rightarrow> if derived = [] then None else Some (i\<lparr>si_identity := (si_identity i)\<lparr>id_deviceId := derived\<rparr>\<rparr>))"

text \<open>A new key pair: the raw export of its public key may fail, then the other export is cut.\<close>

record new_keys =
  nk_raw :: "string option"
  nk_spki :: string
  nk_pkcs8 :: string

definition ED25519_SPKI_PREFIX :: string where
  "ED25519_SPKI_PREFIX = map char_of [0x30, 0x2a, 0x30, 0x05, 0x06, 0x03, 0x2b, 0x65, 0x70, 0x03, 0x21, 0x00 :: nat]"

definition exportPublicKeyRaw :: "new_keys \<Rightarrow> string" where
  "exportPublicKeyRaw k =
     (case nk_raw k of
        Some raw \<Rightarrow> raw
      | None \<Rightarrow>
          if length (nk_spki k) = length ED25519_SPKI_PREFIX + 32 \<and> take (length ED25519_SPKI_PREFIX) (nk_spki k) = ED25519_SPKI_PREFIX
          then drop (length ED25519_SPKI_PREFIX) (nk_spki k) else nk_spki k)"

definition generateIdentity :: "(string \<Rightarrow> string option) \<Rightarrow> nat \<Rightarrow> thrown + new_keys \<Rightarrow> thrown + stored_identity" where
  "generateIdentity digest now keys =
     (case keys of
        Inl err \<Rightarrow> Inl err
      | Inr k \<Rightarrow>
          let publicKey = base64UrlEncode (exportPublicKeyRaw k) in
          case deriveDeviceIdFromPublicKey digest publicKey of
            None \<Rightarrow> Inl (new_error ''Failed to derive gateway device identity'')
          | Some deviceId \<Rightarrow>
              if deviceId = [] then Inl (new_error ''Failed to derive gateway device identity'')
              else Inr \<lparr>si_identity = \<lparr>id_deviceId = deviceId, id_publicKey = publicKey, id_privateKey = base64UrlEncode (nk_pkcs8 k)\<rparr>,
                        si_createdAtMs = Fin (of_nat now)\<rparr>)"

text \<open>
  \<open>loadOrCreateGatewayDeviceIdentity\<close>: the callers that come while a load is under way share its
  promise. A load waits for the digest of what is stored, and, where that is no use, for new keys.
\<close>

datatype load_state = No_load | Checking "stored_identity option" "nat list" | Generating "nat list"

record identity_store =
  is_cached :: "device_identity option"
  is_load :: load_state
  is_storage :: "string option"
  is_writable :: bool
  is_results :: "(nat \<times> (thrown + device_identity)) list"

definition settle_callers :: "nat list \<Rightarrow> thrown + device_identity \<Rightarrow> identity_store \<Rightarrow> identity_store" where
  "settle_callers cs r s = s\<lparr>is_results := is_results s @ map (\<lambda>c. (c, r)) cs\<rparr>"

definition loadOrCreateGatewayDeviceIdentity :: "nat \<Rightarrow> nat \<Rightarrow> identity_store \<Rightarrow> identity_store" where
  "loadOrCreateGatewayDeviceIdentity now c s =
     (case is_cached s of
        Some i \<Rightarrow> settle_callers [c] (Inr i) s
      | None \<Rightarrow>
          case is_load s of
            No_load \<Rightarrow> s\<lparr>is_load := Checking (readStoredIdentity now (is_storage s)) [c]\<rparr>
          | Checking stored cs \<Rightarrow> s\<lparr>is_load := Checking stored (cs @ [c])\<rparr>
          | Generating cs \<Rightarrow> s\<lparr>is_load := Generating (cs @ [c])\<rparr>)"

definition writeStoredIdentity :: "stored_identity \<Rightarrow> identity_store \<Rightarrow> identity_store" where
  "writeStoredIdentity i s = (if is_writable s then s\<lparr>is_storage := Some (json_text (stored_identity_json i))\<rparr> else s)"

definition identity_loaded :: "stored_identity \<Rightarrow> nat list \<Rightarrow> identity_store \<Rightarrow> identity_store" where
  "identity_loaded i cs s =
     settle_callers cs (Inr (si_identity i))
       ((writeStoredIdentity i s)\<lparr>is_cached := Some (si_identity i), is_load := No_load\<rparr>)"

definition digest_done :: "(string \<Rightarrow> string option) \<Rightarrow> identity_store \<Rightarrow> identity_store" where
  "digest_done digest s =
     (case is_load s of
        Checking stored cs \<Rightarrow>
          (case validateStoredIdentity digest stored of
             Some i \<Rightarrow> identity_loaded i cs s
           | None \<Rightarrow> s\<lparr>is_load := Generating cs\<rparr>)
      | _ \<Rightarrow> s)"

definition keys_done :: "(string \<Rightarrow> string option) \<Rightarrow> nat \<Rightarrow> thrown + new_keys \<Rightarrow> identity_store \<Rightarrow> identity_store" where
  "keys_done digest now keys s =
     (case is_load s of
        Generating cs \<Rightarrow>
          (case generateIdentity digest now keys of
             Inl err \<Rightarrow> settle_callers cs (Inl err) (s\<lparr>is_load := No_load\<rparr>)
           | Inr i \<Rightarrow> identity_loaded i cs s)
      | _ \<Rightarrow> s)"

datatype identity_event = Iv_call nat nat | Iv_digest | Iv_keys nat "thrown + new_keys"

fun identity_step :: "(string \<Rightarrow> string option) \<Rightarrow> identity_event \<Rightarrow> identity_store \<Rightarrow> identity_store" where
  "identity_step digest (Iv_call now c) s = loadOrCreateGatewayDeviceIdentity now c s"
| "identity_step digest Iv_digest s = digest_done digest s"
| "identity_step digest (Iv_keys now keys) s = keys_done digest now keys s"

definition new_page :: "bool \<Rightarrow> string option \<Rightarrow> identity_store" where
  "new_page writable storage =
     \<lparr>is_cached = None, is_load = No_load, is_storage = storage, is_writable = writable, is_results = []\<rparr>"

text \<open>
  \<open>buildGatewayDeviceConnectPayload\<close>: the signature is the environment's, and fails for a private key
  that is not base64 with the error \<open>bad_base64\<close> of \<open>atob\<close>. Without Web Crypto there is no digest and
  no key, so no identity to sign with.
\<close>

definition utf8_text :: "string \<Rightarrow> string" where
  "utf8_text s = concat (map (\<lambda>c. let n = of_char c :: nat in
     if n < 128 then [c] else [char_of (192 + n div 64), char_of (128 + n mod 64)]) s)"

definition signDevicePayload :: "(string \<Rightarrow> string \<Rightarrow> thrown + string) \<Rightarrow> thrown \<Rightarrow> string \<Rightarrow> string \<Rightarrow> thrown + string" where
  "signDevicePayload sign bad_base64 privateKey payload =
     (case base64UrlDecode privateKey of
        None \<Rightarrow> Inl bad_base64
      | Some key \<Rightarrow> case sign key (utf8_text payload) of Inl err \<Rightarrow> Inl err | Inr signature \<Rightarrow> Inr (base64UrlEncode signature))"

record device_payload =
  dp_id :: string
  dp_publicKey :: string
  dp_signature :: string
  dp_signedAt :: nat
  dp_nonce :: string

definition connect_nonce :: "device_options \<Rightarrow> thrown + string" where
  "connect_nonce d =
     (let nonce = js_trim (do_nonce d)
      in if nonce = [] then Inl (new_error ''Gateway connect challenge missing device nonce'') else Inr nonce)"

definition buildGatewayDeviceConnectPayload ::
    "(string \<Rightarrow> string \<Rightarrow> thrown + string) \<Rightarrow> thrown \<Rightarrow> nat \<Rightarrow> device_options \<Rightarrow> thrown + device_identity \<Rightarrow> thrown + device_payload" where
  "buildGatewayDeviceConnectPayload sign bad_base64 signedAtMs d loaded =
     (case connect_nonce d of
        Inl err \<Rightarrow> Inl err
      | Inr nonce \<Rightarrow>
          case loaded of
            Inl err \<Rightarrow> Inl err
          | Inr i \<Rightarrow>
              case signDevicePayload sign bad_base64 (id_privateKey i)
                     (buildDeviceAuthPayloadV3 (id_deviceId i) signedAtMs (d\<lparr>do_nonce := nonce\<rparr>)) of
                Inl err \<Rightarrow> Inl err
              | Inr signature \<Rightarrow> Inr \<lparr>dp_id = id_deviceId i, dp_publicKey = id_publicKey i, dp_signature = signature,
                  dp_signedAt = signedAtMs, dp_nonce = nonce\<rparr>)"

section \<open>Session keys and texts (openclaw-session.ts)\<close>

definition normalizeOpenClawSessionKey :: "jsval \<Rightarrow> string" where
  "normalizeOpenClawSessionKey v = js_lower (js_text v)"

definition buildOpenClawMobileSessionKey :: "jsval \<Rightarrow> string" where
  "buildOpenClawMobileSessionKey mobileId =
     (let i = js_lower (js_text mobileId) in if i = [] then [] else ''agent:main:openclaw-mobile:direct:'' @ i)"

definition content_part :: "jsval \<Rightarrow> string" where
  "content_part item =
     (case js_get item ''text'' of JStr t \<Rightarrow> if js_get item ''type'' = JStr ''text'' then t else [] | _ \<Rightarrow> [])"

definition extractOpenClawMessageText :: "jsval \<Rightarrow> string" where
  "extractOpenClawMessageText message =
     (case js_get message ''text'' of
        JStr t \<Rightarrow> js_trim t
      | _ \<Rightarrow>
          case js_get message ''content'' of
            JStr t \<Rightarrow> js_trim t
          | JArr parts \<Rightarrow> js_trim (js_join [CHR 0x0A] (filter (\<lambda>t. t \<noteq> []) (map content_part parts)))
          | _ \<Rightarrow> [])"

section \<open>One identity\<close>

text \<open>
  \<open>keeps_one\<close> is what holds of a page from its start: the identity in use was derived from its public
  key, everybody who got one got that one, and, where the page could write, it is the one stored. A page
  that starts without a stored identity has none to check.
\<close>

definition own_text :: "device_identity \<Rightarrow> string option \<Rightarrow> bool" where
  "own_text i storage \<longleftrightarrow> (\<exists>k. storage = Some (json_text (stored_identity_json \<lparr>si_identity = i, si_createdAtMs = Fin (of_nat k)\<rparr>)))"

definition derived_identity :: "(string \<Rightarrow> string option) \<Rightarrow> device_identity \<Rightarrow> bool" where
  "derived_identity digest i \<longleftrightarrow> deriveDeviceIdFromPublicKey digest (id_publicKey i) = Some (id_deviceId i) \<and> id_deviceId i \<noteq> []"

definition keeps_one :: "(string \<Rightarrow> string option) \<Rightarrow> identity_store \<Rightarrow> bool" where
  "keeps_one digest s \<longleftrightarrow> is_writable s \<and>
     (case is_cached s of
        Some i \<Rightarrow> derived_identity digest i \<and> own_text i (is_storage s) \<and> is_load s = No_load \<and>
          (\<forall>(c, r) \<in> set (is_results s). r = Inr i \<or> (\<exists>e. r = Inl e))
      | None \<Rightarrow> is_storage s = None \<and> (\<forall>(c, r) \<in> set (is_results s). \<exists>e. r = Inl e) \<and> (\<forall>x cs. is_load s = Checking x cs \<longrightarrow> x = None))"

definition reuses :: "device_identity \<Rightarrow> identity_store \<Rightarrow> bool" where
  "reuses i s \<longleftrightarrow> is_writable s \<and> own_text i (is_storage s) \<and> (is_cached s = None \<or> is_cached s = Some i) \<and>
     (\<forall>(c, r) \<in> set (is_results s). r = Inr i) \<and>
     (case is_load s of No_load \<Rightarrow> True | Checking x cs \<Rightarrow> (\<exists>k. x = Some \<lparr>si_identity = i, si_createdAtMs = Fin (of_nat k)\<rparr>) | Generating cs \<Rightarrow> False)"

lemma json_ok_stored_identity: "json_ok (stored_identity_json \<lparr>si_identity = i, si_createdAtMs = Fin (of_nat k)\<rparr>)"
  by (simp add: stored_identity_json_def json_index_key_def digit_code)

lemma read_own_text:
  "readStoredIdentity now (Some (json_text (stored_identity_json \<lparr>si_identity = i, si_createdAtMs = Fin (of_nat k)\<rparr>))) =
     Some \<lparr>si_identity = i, si_createdAtMs = Fin (of_nat (if k = 0 then now else k))\<rparr>"
proof -
  have "json_text (stored_identity_json \<lparr>si_identity = i, si_createdAtMs = Fin (of_nat k)\<rparr>) \<noteq> []"
    by (simp add: stored_identity_json_def json_text_JObj)
  then show ?thesis
    unfolding readStoredIdentity_def option.case if_not_P [OF \<open>_ \<noteq> []\<close>] json_parse_text [OF json_ok_stored_identity]
    by (simp add: parse_identity_def stored_identity_json_def json_strip_JObj defined_fields_def js_or_def js_num_truthy_def)
qed

lemma read_own: "own_text i storage \<Longrightarrow> \<exists>k. readStoredIdentity now storage = Some \<lparr>si_identity = i, si_createdAtMs = Fin (of_nat k)\<rparr>"
  unfolding own_text_def using read_own_text by blast

lemma validate_own:
  "derived_identity digest i \<Longrightarrow> validateStoredIdentity digest (Some \<lparr>si_identity = i, si_createdAtMs = t\<rparr>) = Some \<lparr>si_identity = i, si_createdAtMs = t\<rparr>"
  by (simp add: validateStoredIdentity_def derived_identity_def)

lemma generated:
  assumes "generateIdentity digest now keys = Inr x"
  shows "derived_identity digest (si_identity x) \<and> x = \<lparr>si_identity = si_identity x, si_createdAtMs = Fin (of_nat now)\<rparr>"
  using assms by (auto simp: generateIdentity_def derived_identity_def Let_def split: sum.splits option.splits if_splits)

lemma own_written: "own_text i (Some (json_text (stored_identity_json \<lparr>si_identity = i, si_createdAtMs = Fin (of_nat k)\<rparr>)))"
  unfolding own_text_def by blast

lemmas identity_ops = loadOrCreateGatewayDeviceIdentity_def digest_done_def keys_done_def identity_loaded_def writeStoredIdentity_def settle_callers_def

lemma keeps_one_step: "keeps_one digest s \<Longrightarrow> keeps_one digest (identity_step digest ev s)"
proof (cases ev)
  case (Iv_call now c)
  then show "keeps_one digest s \<Longrightarrow> ?thesis"
    by (auto simp: keeps_one_def identity_ops readStoredIdentity_def split: option.splits load_state.splits)
next
  case Iv_digest
  then show "keeps_one digest s \<Longrightarrow> ?thesis"
    by (auto simp: keeps_one_def identity_ops validateStoredIdentity_def split: option.splits load_state.splits)
next
  case (Iv_keys now keys)
  assume s: "keeps_one digest s"
  show ?thesis
  proof (cases "generateIdentity digest now keys")
    case (Inl e)
    then show ?thesis using s Iv_keys by (auto simp: keeps_one_def identity_ops split: option.splits load_state.splits)
  next
    case (Inr x)
    then obtain i where x: "x = \<lparr>si_identity = i, si_createdAtMs = Fin (of_nat now)\<rparr>" and i: "derived_identity digest i"
      using generated by blast
    show ?thesis
    proof (cases "is_load s")
      case (Generating cs)
      then have "is_cached s = None" using s by (auto simp: keeps_one_def split: option.splits)
      then show ?thesis using s Iv_keys Generating Inr i own_written [of i now]
        by (auto simp: keeps_one_def identity_ops x)
    qed (use s Iv_keys Inr in \<open>simp_all add: keys_done_def\<close>)
  qed
qed

lemma reuses_step:
  assumes i: "derived_identity digest i" and s: "reuses i s"
  shows "reuses i (identity_step digest ev s)"
proof (cases ev)
  case (Iv_call now c)
  have "own_text i (is_storage s)" using s by (simp add: reuses_def)
  then obtain k where "readStoredIdentity now (is_storage s) = Some \<lparr>si_identity = i, si_createdAtMs = Fin (of_nat k)\<rparr>"
    using read_own by blast
  then show ?thesis using s Iv_call by (auto simp: reuses_def identity_ops split: option.splits load_state.splits)
next
  case Iv_digest
  show ?thesis
  proof (cases "is_load s")
    case (Checking x cs)
    then obtain k where "x = Some \<lparr>si_identity = i, si_createdAtMs = Fin (of_nat k)\<rparr>" using s by (auto simp: reuses_def)
    then show ?thesis using s Iv_digest Checking validate_own [OF i] own_written [of i k] by (auto simp: reuses_def identity_ops)
  qed (use s Iv_digest in \<open>simp_all add: digest_done_def\<close>)
next
  case (Iv_keys now keys)
  then show ?thesis using s by (auto simp: reuses_def keys_done_def split: load_state.splits)
qed

lemma reuses_kept:
  assumes i: "derived_identity digest i"
  shows "steps (identity_step digest) s t \<Longrightarrow> reuses i s \<Longrightarrow> reuses i t"
  by (induction rule: steps.induct) (simp_all add: reuses_step [OF i])

interpretation fresh_identity: step_invariant "identity_step digest" "new_page True None" "keeps_one digest" for digest
  by unfold_locales (simp add: keeps_one_def new_page_def, rule keeps_one_step)

text \<open>C25: The identity of the desktop outlives the page, and all its users share it. However the callers, the digests and
  the new keys of a page that starts with an empty storage interleave, every caller that succeeds gets the
  same identity, whose id is derived from its public key; and after a reload every caller gets that identity,
  no key pair is generated again, whatever the environment answers.\<close>

theorem identity_survives_reload:
  assumes "steps (identity_step digest) (new_page True None) s" and "(c, Inr i) \<in> set (is_results s)"
    and "steps (identity_step digest) (new_page True (is_storage s)) s'"
  shows "derived_identity digest i \<and> (\<forall>(c', r) \<in> set (is_results s). \<forall>i'. r = Inr i' \<longrightarrow> i' = i) \<and>
    (\<forall>(c', r) \<in> set (is_results s'). r = Inr i)"
proof -
  have s: "keeps_one digest s" using fresh_identity.reached [OF assms(1)] .
  then have i: "is_cached s = Some i" "derived_identity digest i" "own_text i (is_storage s)"
    using assms(2) by (fastforce simp: keeps_one_def split: option.splits)+
  have "reuses i (new_page True (is_storage s))" using i(3) by (simp add: reuses_def new_page_def)
  then have "reuses i s'" using assms(3) reuses_kept [OF i(2)] by blast
  then show ?thesis using s i by (fastforce simp: keeps_one_def reuses_def)
qed

definition sample_keys :: new_keys where
  "sample_keys = \<lparr>nk_raw = Some ''pub'', nk_spki = [], nk_pkcs8 = ''priv''\<rparr>"

definition sample_identity :: device_identity where
  "sample_identity = \<lparr>id_deviceId = ''627570'', id_publicKey = ''cHVi'', id_privateKey = ''cHJpdg''\<rparr>"

abbreviation sample_digest :: "string \<Rightarrow> string option" where
  "sample_digest \<equiv> \<lambda>bytes. Some (rev bytes)"

definition sample_page :: identity_store where
  "sample_page = feed_events (identity_step sample_digest)
     [Iv_call 1 0, Iv_call 1 1, Iv_digest, Iv_keys 2 (Inl (new_error ''busy'')), Iv_call 3 2, Iv_digest, Iv_call 3 3, Iv_keys 4 (Inr sample_keys)]
     (new_page True None)"

lemma sample_texts: "base64UrlEncode ''pub'' = ''cHVi''" "base64UrlEncode ''priv'' = ''cHJpdg''" "base64UrlDecode ''cHVi'' = Some ''pub''"
proof -
  have "rev (dropWhile (\<lambda>c. c = CHR ''='') (rev (map url_safe (btoa ''pub'')))) = ''cHVi''"
    "rev (dropWhile (\<lambda>c. c = CHR ''='') (rev (map url_safe (btoa ''priv'')))) = ''cHJpdg''" by code_simp+
  then show "base64UrlEncode ''pub'' = ''cHVi''" "base64UrlEncode ''priv'' = ''cHJpdg''"
    by (simp_all add: base64UrlEncode_def toBase64_def concat_chunks)
  show "base64UrlDecode ''cHVi'' = Some ''pub''" by code_simp
qed

lemma sample_derived: "derived_identity sample_digest sample_identity"
proof -
  have "arrayBufferToHex ''bup'' = ''627570''" by code_simp
  then show ?thesis by (simp add: derived_identity_def sample_identity_def deriveDeviceIdFromPublicKey_def sample_texts)
qed

lemma sample_generated:
  "generateIdentity sample_digest now (Inr sample_keys) = Inr \<lparr>si_identity = sample_identity, si_createdAtMs = Fin (of_nat now)\<rparr>"
  using sample_derived
  by (simp add: generateIdentity_def sample_keys_def exportPublicKeyRaw_def sample_texts sample_identity_def derived_identity_def)

lemma sample_page_state:
  "is_results sample_page = [(0, Inl (new_error ''busy'')), (1, Inl (new_error ''busy'')), (2, Inr sample_identity), (3, Inr sample_identity)]"
  "is_storage sample_page = Some (json_text (stored_identity_json \<lparr>si_identity = sample_identity, si_createdAtMs = Fin (of_nat 4)\<rparr>))"
  using sample_generated [of 4] by (simp_all add: sample_page_def feed_events_def identity_ops new_page_def readStoredIdentity_def
    validateStoredIdentity_def generateIdentity_def [of _ _ "Inl _"])

lemma sample_reload:
  "is_results (feed_events (identity_step sample_digest) [Iv_call 5 4, Iv_digest] (new_page True (is_storage sample_page))) = [(4, Inr sample_identity)]"
  unfolding sample_page_state
  using validate_own [OF sample_derived] by (simp add: feed_events_def identity_ops new_page_def read_own_text del: of_nat_numeral)

theorem identity_survives_reload_witness:
  "derived_identity sample_digest sample_identity \<and> (4, Inr sample_identity) \<in> set (is_results
     (feed_events (identity_step sample_digest) [Iv_call 5 4, Iv_digest] (new_page True (is_storage sample_page))))"
proof -
  let ?s = "feed_events (identity_step sample_digest) [Iv_call 5 4, Iv_digest] (new_page True (is_storage sample_page))"
  have "steps (identity_step sample_digest) (new_page True None) sample_page"
    unfolding sample_page_def by (rule steps_events [OF no_step])
  moreover have "(2, Inr sample_identity) \<in> set (is_results sample_page)" by (simp add: sample_page_state(1))
  moreover have "steps (identity_step sample_digest) (new_page True (is_storage sample_page)) ?s" by (rule steps_events [OF no_step])
  ultimately have "derived_identity sample_digest sample_identity \<and> (\<forall>(c', r) \<in> set (is_results ?s). r = Inr sample_identity)"
    using identity_survives_reload [of sample_digest sample_page 2 sample_identity ?s] by blast
  then show ?thesis by (simp add: sample_reload)
qed

section \<open>What is signed\<close>

lemma js_join_inj:
  "length xs = length ys \<Longrightarrow> list_all (\<lambda>s. d \<notin> set s) xs \<Longrightarrow> list_all (\<lambda>s. d \<notin> set s) ys \<Longrightarrow> js_join [d] xs = js_join [d] ys \<Longrightarrow> xs = ys"
proof (induction xs arbitrary: ys rule: induct_list012)
  case (2 x)
  then show ?case by (cases ys rule: remdups_adj.cases) auto
next
  case (3 x x' xs)
  then obtain y y' ys' where ys: "ys = y # y' # ys'" by (cases ys rule: remdups_adj.cases) auto
  have split: "u = v \<and> rest = rest'" if "u @ d # rest = v @ d # rest'" "d \<notin> set u" "d \<notin> set v" for u v rest rest'
  proof -
    have "takeWhile (\<lambda>c. c \<noteq> d) (u @ d # rest) = u" "takeWhile (\<lambda>c. c \<noteq> d) (v @ d # rest') = v"
      using that(2,3) by (simp_all add: takeWhile_append)
    then have "u = v" using that(1) by simp
    then show ?thesis using that(1) by simp
  qed
  have "x = y \<and> js_join [d] (x' # xs) = js_join [d] (y' # ys')" using 3(3-6) unfolding ys by (intro split) simp_all
  then show ?case using 3(2) [of "y' # ys'"] 3(3-5) ys by simp
qed simp

text \<open>C40: A signature at the gateway covers one meaning. Where no field of two connections holds the separator, and
  the same text is signed for both, every field is the same: the device, the client and its mode, the role, the
  joined scopes, the time, the token, the nonce and the normalized platform and family.\<close>

theorem signed_text_unambiguous:
  assumes "list_all (\<lambda>f. CHR ''|'' \<notin> set f) (payload_fields deviceId ms d)" and "list_all (\<lambda>f. CHR ''|'' \<notin> set f) (payload_fields deviceId' ms' d')"
    and "buildDeviceAuthPayloadV3 deviceId ms d = buildDeviceAuthPayloadV3 deviceId' ms' d'"
  shows "deviceId = deviceId' \<and> do_clientId d = do_clientId d' \<and> do_clientMode d = do_clientMode d' \<and> do_role d = do_role d' \<and>
    js_join '','' (do_scopes d) = js_join '','' (do_scopes d') \<and> ms = ms' \<and>
    (case do_token d of Some token \<Rightarrow> token | None \<Rightarrow> []) = (case do_token d' of Some token \<Rightarrow> token | None \<Rightarrow> []) \<and>
    do_nonce d = do_nonce d' \<and> normalizeDeviceMetadataForAuth (do_platform d) = normalizeDeviceMetadataForAuth (do_platform d') \<and>
    normalizeDeviceMetadataForAuth (do_deviceFamily d) = normalizeDeviceMetadataForAuth (do_deviceFamily d')"
proof -
  have same: "payload_fields deviceId ms d = payload_fields deviceId' ms' d'"
    using assms by (intro js_join_inj [of _ _ "CHR ''|''"]) (simp_all add: buildDeviceAuthPayloadV3_def payload_fields_def)
  then have "js_num_to_string (Fin (of_nat ms)) = js_num_to_string (Fin (of_nat ms'))" unfolding payload_fields_def by simp
  then have "nat_digits ms = nat_digits ms'" unfolding js_num_to_string_nat .
  then have "ms = ms'" by (metis digits_value_nat_digits)
  then show ?thesis using same [unfolded payload_fields_def list.inject] by blast
qed

definition sample_options :: device_options where
  "sample_options = \<lparr>do_nonce = ''n1'', do_clientId = ''gateway-client'', do_clientMode = ''ui'', do_role = ''operator'',
     do_scopes = [''operator.read'', ''operator.write''], do_token = Some ''t'', do_platform = JStr '' MacIntel '', do_deviceFamily = JUndef\<rparr>"

theorem signed_text_unambiguous_witness:
  "buildDeviceAuthPayloadV3 ''d'' 7 sample_options \<noteq> buildDeviceAuthPayloadV3 ''d'' 7 (sample_options\<lparr>do_nonce := ''n2''\<rparr>)"
proof
  let ?d = "sample_options\<lparr>do_nonce := ''n2''\<rparr>"
  have plain: "list_all (\<lambda>f. CHR ''|'' \<notin> set f) (payload_fields ''d'' 7 sample_options)"
    "list_all (\<lambda>f. CHR ''|'' \<notin> set f) (payload_fields ''d'' 7 ?d)" by code_simp+
  assume "buildDeviceAuthPayloadV3 ''d'' 7 sample_options = buildDeviceAuthPayloadV3 ''d'' 7 ?d"
  from signed_text_unambiguous [OF plain this] have "do_nonce sample_options = do_nonce ?d" by (elim conjE)
  then show False by (simp add: sample_options_def)
qed

text \<open>The separator is not quoted: a token that holds it can pass for a token and a nonce.\<close>

lemma signed_text_separator:
  "buildDeviceAuthPayloadV3 i ms (d\<lparr>do_token := Some ''a|b'', do_nonce := ''c''\<rparr>) = buildDeviceAuthPayloadV3 i ms (d\<lparr>do_token := Some ''a'', do_nonce := ''b|c''\<rparr>)"
  by (simp add: buildDeviceAuthPayloadV3_def payload_fields_def)

text \<open>What is sent carries the id and the key of the identity and a nonce that is not blank.\<close>

lemma device_payload_identity:
  assumes "buildGatewayDeviceConnectPayload sign bad now d loaded = Inr p"
  shows "\<exists>i. loaded = Inr i \<and> dp_id p = id_deviceId i \<and> dp_publicKey p = id_publicKey i \<and> dp_nonce p = js_trim (do_nonce d) \<and> dp_nonce p \<noteq> []"
  using assms by (auto simp: buildGatewayDeviceConnectPayload_def connect_nonce_def Let_def split: sum.splits if_splits)

end
