(* ===== verification/Spec2Isabelle.thy ===== *)
theory Spec2Isabelle
  imports CrdtGraph ChatGraph Envelope PeerChannel MobilePairing GatewayChannel SessionProperties SetupProperties DeviceIdentity PairPanel
begin

text \<open>
  A model of openclawapp: a desktop application that installs and configures an agent, a mobile application
  that chats with it, and the protocols by which the two find each other, pair and exchange messages.
  Everything here is translated from the TypeScript sources; a theorem is about the translated definitions.

  \<^bold>\<open>The program.\<close> A mobile device scans a QR code of the desktop and pairs with it at a pairing service
  (pair-sdk/src/web.ts, mobile/src/services/pairingV2.ts). The two then open a WebRTC data channel over signals
  that the service relays, and authenticate each other by a signed hello (pair-sdk/src/peer.ts). Over the channel
  go application messages, which modules register for (pair-sdk/src/app.ts): chat messages
  with the messages they answer (message-sdk), and the operations of a replicated conversation
  (protocol/src/crdt.ts and crdt-graph.ts). The mobile application keeps its sessions and logs in one
  provider (mobile/src/state/SessionsContext.tsx). On the desktop a plugin of the agent (extensions/openclaw-mobile)
  makes the agent answer, a client calls the gateway of the agent (legacy/openclaw-gateway-client.ts) with the identity
  of the desktop, a panel shows the pairings, and a form configures the provider of models.

  \<^bold>\<open>Theories.\<close> Each models the files it names; paths are under src/.
  \<^item> Prelude. \<open>JsBase\<close>, \<open>JsCollections\<close>, \<open>JsDate\<close>, \<open>Json\<close>: the numbers, values, texts, maps, sorting, dates and JSON of
    JavaScript. \<open>Steps\<close>, \<open>Async\<close>: programs that answer events, and asynchronous functions as processes whose
    awaits a world answers in any order, with the locales that turn one lemma per operation into an
    invariant of every run.
  \<^item> Replicated conversation. \<open>CrdtProtocol\<close> (packages/protocol/src/crdt.ts), \<open>CausalOrder\<close> and \<open>CrdtGraph\<close>
    (packages/protocol/src/crdt-graph.ts): parsing is exact and prints back; the causal order respects every parent;
    replicas with the same operations agree; two devices that pull from each other have the same operations; vectors are exact.
  \<^item> Chat. \<open>ChatProtocol\<close> (packages/message-sdk/src/openclaw-chat.ts, openclaw-channel.ts) and \<open>ChatGraph\<close>
    (mobile/src/utils/chatGraph.ts, mobile/src/types/session.ts): the log after two insertions does not depend on their order, also
    with system messages (their place depends on the engine's sort unless they are the oldest); the order of a log respects replies.
  \<^item> Envelopes of the first relay. \<open>Envelope\<close> (packages/protocol/src/message.ts, events.ts).
  \<^item> Pairing. \<open>PairApp\<close> (packages/pair-sdk/src/app.ts, naming.ts), \<open>PairWeb\<close> (packages/pair-sdk/src/web.ts,
    runtime.ts), \<open>PeerChannel\<close> (packages/pair-sdk/src/peer.ts): the channel delivers nothing before its peer
    has proved its identity, and refines an abstract authentication machine.
  \<^item> Mobile application. \<open>MobilePairing\<close> (mobile/src/services/pairingV2.ts), \<open>SessionStore\<close>, \<open>SessionFlow\<close>,
    \<open>SessionRuns\<close>, \<open>SessionDeliveries\<close>, \<open>SessionProperties\<close> (mobile/src/state/SessionsContext.tsx): sessions stay distinct, a
    delivery goes to a trusted session of the store, resending brings the desktop what it lacks, waiting tasks are woken.
  \<^item> Plugin of the agent. \<open>GatewayAccounts\<close>, \<open>GatewayDirectory\<close>, \<open>GatewayChannel\<close>
    (desktop/extensions/openclaw-mobile/src/channel.ts).
  \<^item> Client of the agent's gateway. \<open>GatewayClient\<close> (desktop/src/legacy/openclaw-gateway-client.ts) and
    \<open>DeviceIdentity\<close> (desktop/src/legacy/openclaw-device-identity.ts, and of openclaw-session.ts what needs no address).
  \<^item> Pairing panel of the desktop. \<open>PanelChannels\<close>, \<open>PairPanel\<close> (desktop/src/legacy/pair-backend-model.ts,
    pair-backend-qr.ts, pair-ui.ts, pair-backend-controller.ts): the panel's list follows the backend, its buttons offer what the operations do.
    This theory joins the panel to the mobile application: the text the panel draws is what the mobile reads.
  \<^item> Set-up of the desktop. \<open>ProviderPresets\<close> (provider-presets.ts and the detection of presets), \<open>SetupForm\<close>
    (provider-controller.ts, setup-form-sync.ts), \<open>SetupFlow\<close> (setup-controller.ts, shell-controller.ts, event-binder.ts,
    register-store-actions.ts, all in desktop/src/legacy, with the part of components/setup/SetupView.tsx by which React writes the form),
    \<open>SetupProperties\<close>: what is saved is valid, the provider in use is the one shown, modes are remembered.

  \<^bold>\<open>Correspondence.\<close> A definition has the name of the function it translates where that name is free. The
  variables of a class, a hook or a controller are a record; its calls to the outside are values: a list of effects or commands.
  An exception is the left of a sum, an absent value \<open>None\<close> or, where the code reads it so, \<open>[]\<close> or \<open>JUndef\<close>.
  An asynchronous function is cut at its awaits, in one of four ways: a host that answers at once
  is threaded through (\<open>PairWeb\<close>, \<open>MobilePairing\<close>); a suspended function is a task of the component's state (\<open>PeerChannel\<close>,
  \<open>GatewayChannel\<close>, \<open>SessionFlow\<close>, \<open>PairPanel\<close>, \<open>DeviceIdentity\<close>); the continuations of settled promises are a queue
  that is emptied before the next event (\<open>GatewayClient\<close>); or the function is a process, and a world
  holds the processes that wait (\<open>Async\<close>, \<open>SetupFlow\<close>). Runs are closures of steps, with tasks, answers and events in
  any order, so an invariant of the runs covers every interleaving at the granularity of awaits.

  \<^bold>\<open>Interfaces.\<close> The comparators of the sorts (\<open>comparator_on\<close>), the graphs of the causal order (\<open>causal_graph\<close>,
  interpreted on operations and on chat messages), the exchange of operations (\<open>anti_entropy\<close>), the key-value
  store (\<open>kv_store\<close>), programs with an invariant (\<open>step_invariant\<close>, interpreted on the panel and on the identity of the
  desktop) and programs of asynchronous functions (\<open>async_program\<close>, a \<open>step_invariant\<close> by its \<open>sublocale\<close>,
  interpreted on the form) are locales.

  \<^bold>\<open>Bounds and fuel.\<close> The loop of the causal order has the number of nodes as fuel, which is enough: each round emits a
  node (\<open>analyzeCrdtOps_total\<close>). The JSON reader has the length of the text plus one, more than the nesting any text
  can have; that it reads back what was printed is \<open>json_parse_text\<close>. Asynchronous functions
  of the form have no loop, so they are finite processes. Numbers are exact rationals, NaN and infinities; 32-bit arithmetic
  is done on words.

  \<^bold>\<open>Parameters.\<close> What the sources call but do not hold is an argument: the cryptographic packages (\<open>crypto\<close>), Web Crypto
  (digest, keys, signatures), the URL class (\<open>web\<close>), \<open>fetch\<close> and the stores (\<open>runtime\<close>, \<open>mobile_world\<close>), clock and
  random values (\<open>env\<close>), \<open>localeCompare\<close> (\<open>lc\<close>), the backend in Rust (answers to commands), dialogs, the agent.
  Theorems that rely on their documented behaviour say so in a hypothesis.

  \<^bold>\<open>Not modelled.\<close> The rendering of the screens and components (conversation, lists, pairing and tab navigation, main view,
  top bar, Markdown), which hold no state of the protocols; the catalogue of translated texts and the constants of themes, mocks and
  references to page elements; the wiring of the modules (\<open>legacy-app.ts\<close> but for its variables, entry points, re-exports); the build and
  packaging scripts; \<open>reactNativePairRuntime.ts\<close>, which only adapts native modules to the runtime
  interface; the construction of addresses by the URL class in \<open>openclaw-session.ts\<close>; the server in Go and the backend in Rust,
  which are other programs in other languages. Characters beyond U+00FF, rounding of doubles, and the
  order of integer-like keys, except where a theory treats them, are outside the model.
\<close>

section \<open>From the panel to the mobile application\<close>

text \<open>
  The QR code of a channel is where two components meet: the panel completes the payload that the
  backend reports, prints it and draws the text, and the mobile application parses the text it scans.
  A value is plain JSON when it is one that \<open>JSON.parse\<close> gives and that prints back.
\<close>

definition plain_json :: "jsval \<Rightarrow> bool" where
  "plain_json v = (js_is_record v \<and> json_ok v \<and> json_strip v = v)"

lemma json_strip_fixed:
  "json_strip (JObj fs) = JObj fs \<longleftrightarrow> (\<forall>(k, v) \<in> set fs. v \<noteq> JUndef \<and> json_strip v = v)"
proof
  assume e: "json_strip (JObj fs) = JObj fs"
  then have m: "map (\<lambda>(k, v). (k, json_strip v)) (defined_fields fs) = fs" by (simp add: json_strip_JObj)
  then have "length (defined_fields fs) = length fs" by (metis length_map)
  then have "\<forall>p \<in> set fs. (\<lambda>(k, v). v \<noteq> JUndef) p"
    using length_filter_less [of _ fs "\<lambda>(k, v). v \<noteq> JUndef"] by (metis defined_fields_def less_irrefl)
  moreover from this have d: "defined_fields fs = fs" by (simp add: defined_fields_def filter_id_conv)
  have "(\<lambda>(k, v). (k, json_strip v)) p = p" if "p \<in> set fs" for p
  proof -
    have "map (\<lambda>(k, v). (k, json_strip v)) fs = map id fs" using m d by simp
    then show ?thesis using that unfolding map_eq_conv by simp
  qed
  ultimately show "\<forall>(k, v) \<in> set fs. v \<noteq> JUndef \<and> json_strip v = v" by fastforce
next
  assume "\<forall>(k, v) \<in> set fs. v \<noteq> JUndef \<and> json_strip v = v"
  then show "json_strip (JObj fs) = JObj fs"
    by (induction fs) (auto simp: json_strip_JObj defined_fields_def)
qed

lemma plain_fields:
  "plain_json (JObj fs) \<longleftrightarrow> distinct (map fst fs) \<and> (\<forall>(k, v) \<in> set fs. \<not> json_index_key k \<and> v \<noteq> JUndef \<and> json_ok v \<and> json_strip v = v)"
  unfolding plain_json_def json_strip_fixed by (auto simp: list_all_iff split: prod.splits)

lemma order_plain:
  assumes "\<forall>(k, v) \<in> set fs. \<not> json_index_key k" shows "js_order fs = fs"
proof -
  have "filter (json_index_key \<circ> fst) fs = []" "filter (Not \<circ> json_index_key \<circ> fst) fs = fs"
    using assms by (auto simp: filter_id_conv filter_empty_conv)
  then show ?thesis by (simp only: js_order_def) simp
qed

lemma plain_assign:
  assumes "plain_json v" "\<not> json_index_key k" "k \<noteq> ''__proto__''"
  shows "plain_json (js_assign k (JStr x) v)"
proof -
  obtain fs where v: "v = JObj fs" using assms(1) by (cases v) (auto simp: plain_json_def)
  have u: "\<forall>(j, w) \<in> set (AList.update k (JStr x) fs). \<not> json_index_key j \<and> w \<noteq> JUndef \<and> json_ok w \<and> json_strip w = w"
    using assms(1,2) set_update_subset [of k "JStr x" fs] unfolding v plain_fields by fastforce
  then have "js_order (AList.update k (JStr x) fs) = AList.update k (JStr x) fs" by (intro order_plain) blast
  moreover have "distinct (map fst (AList.update k (JStr x) fs))" using assms(1) unfolding v plain_fields by (simp add: distinct_update)
  ultimately show ?thesis using u assms(3) by (simp add: js_assign_def v plain_fields)
qed

lemma plain_copy: "plain_json v \<Longrightarrow> qr_payload_copy v = v"
  using order_plain by (cases v) (auto simp: plain_json_def qr_payload_copy_def js_spread_def list_all_iff split: prod.splits)

lemma plain_printed: "plain_json v \<Longrightarrow> json_parse (js_trim (json_text v)) = Some v"
proof -
  assume v: "plain_json v"
  then obtain fs where fs: "v = JObj fs" by (cases v) (auto simp: plain_json_def)
  have "js_trimmed (json_text v)" unfolding fs by (simp add: json_text_JObj js_trimmed_def js_space_def)
  then show ?thesis using json_parse_text [of v] v by (simp add: js_trim_id plain_json_def)
qed

lemma with_base_url_fields:
  assumes v: "plain_json v" and r: "r \<noteq> []"
  shows "plain_json (with_base_url r v)"
    and "js_get (with_base_url r v) k = (if k \<in> {''serverBaseUrl'', ''server_base_url'', ''baseUrl'', ''base_url''} then JStr r else js_get v k)"
proof -
  have k: "\<not> json_index_key ''serverBaseUrl''" "\<not> json_index_key ''server_base_url''" "\<not> json_index_key ''baseUrl''" "\<not> json_index_key ''base_url''"
    by code_simp+
  show "plain_json (with_base_url r v)" using r by (simp add: with_base_url_def plain_assign v k)
  have rec: "js_is_record v" using v by (simp add: plain_json_def)
  show "js_get (with_base_url r v) k = (if k \<in> {''serverBaseUrl'', ''server_base_url'', ''baseUrl'', ''base_url''} then JStr r else js_get v k)"
    using r rec by (simp add: with_base_url_def)
qed

text \<open>C27: What the mobile application reads from the QR code of a channel is the payload of the backend,
  with an address that the mobile can use. When the panel shows the code of a channel and knows the
  address of the machine, it draws one text; a mobile that scans this text accepts it, and
  finds the version, session, token, desktop, key, nonce and time of expiry that the payload of the backend
  has, and as the server the address that \<open>resolvePairQrBaseUrl\<close> gives, whose host is neither \<open>localhost\<close> nor
  \<open>127.0.0.1\<close> nor \<open>0.0.0.0\<close>.\<close>

theorem scanned_qr_exact:
  assumes c: "findPairChannelById (pn_channels p) i = Some c"
    and payload: "plain_json (js_get c ''qrPayload'')" "parsePairV2QrPayload (js_get c ''qrPayload'') = Inr q"
      "qr_claimToken q \<noteq> []" "qr_pairSessionId q \<noteq> []" "qr_sessionNonce q \<noteq> []" "qr_devicePubkey q \<noteq> []"
    and page: "ph_qrImage ph" and web: "url_laws (ph_web ph)" "hostname_kept (ph_web ph) lan"
    and lan: "pn_lan p = Lan_known lan" "CHR ''/'' \<notin> set lan"
      "js_lower (js_trim lan) \<notin> {[], ''localhost'', ''127.0.0.1'', ''0.0.0.0'', ''::1''}"
    and base: "normalizePairBaseUrl (ph_web ph) (pn_serverUrl p) \<noteq> [] \<or>
      normalizePairBaseUrl (ph_web ph) (payload_base_url (js_get c ''qrPayload'')) \<noteq> []"
  shows "\<exists>txt r u. panel_step ph e (Pe_showQr i) p = ask_backend (Panel_render_qr txt) Pt_qr p \<and>
    check_qr txt = Inr (q\<lparr>qr_serverBaseUrl := r\<rparr>) \<and>
    r = resolvePairQrBaseUrl (ph_web ph) (pn_serverUrl p) (payload_base_url (js_get c ''qrPayload'')) lan \<and>
    new_url (ph_web ph) r = Inr u \<and> js_lower (js_trim (url_hostname u)) \<notin> {''localhost'', ''127.0.0.1'', ''0.0.0.0''}"
proof -
  let ?Q = "js_get c ''qrPayload''" and ?web = "ph_web ph"
  define r where "r = resolvePairQrBaseUrl ?web (pn_serverUrl p) (payload_base_url ?Q) lan"
  let ?S = "with_base_url r ?Q"
  have "js_trim [] = []" "js_lower [] = []" by code_simp+
  then have "lan \<noteq> []" using lan(3) by auto
  moreover have "\<not> isLoopbackPairHost lan" using lan(3) by (simp add: isLoopbackPairHost_def LOOPBACK_HOSTS_def Let_def)
  ultimately have r: "r \<noteq> []" "public_text ?web r"
    using resolved_public [OF web _ lan(2) _ r_def [symmetric]] base by blast+
  then obtain u where u: "plain_text r" "new_url ?web r = Inr u" "\<not> isLoopbackPairHost (url_hostname u)" by (auto simp: public_text_def)
  note S = with_base_url_fields [OF payload(1) r(1)]
  have shown: "panel_step ph e (Pe_showQr i) p = ask_backend (Panel_render_qr (json_text ?S)) Pt_qr p"
    using c page lan(1) plain_copy [OF payload(1)]
    by (auto simp: panel_step_def openPairQrDialogForChannel_def draw_qr_def sanitizePairQrPayload_def Let_def r_def
        resolvePairQrBaseUrl_def split: option.split)
  have "?S \<noteq> JUndef \<and> ?S \<noteq> JNull" using S(1) by (auto simp: plain_json_def)
  moreover have "js_text (js_or (JStr r) v) = r" for v using r(1) js_trim_plain [OF u(1)] by (cases r) (simp_all add: js_text_def js_or_def)
  ultimately have "parsePairV2QrPayload ?S = Inr (q\<lparr>qr_serverBaseUrl := r\<rparr>)"
    using payload(2) by (auto simp: parsePairV2QrPayload_def either_text_def S(2) split: if_splits)
  then have "check_qr (json_text ?S) = Inr (q\<lparr>qr_serverBaseUrl := r\<rparr>)"
    using payload(3-6) r(1) by (simp add: check_qr_def plain_printed [OF S(1)])
  moreover have "js_lower (js_trim (url_hostname u)) \<notin> {''localhost'', ''127.0.0.1'', ''0.0.0.0''}"
    using u(3) by (simp add: isLoopbackPairHost_def LOOPBACK_HOSTS_def Let_def)
  ultimately show ?thesis using shown u(2) r_def by blast
qed

definition sample_qr_payload :: jsval where
  "sample_qr_payload =
     JObj [(''version'', JStr ''openclaw-pair-v2''), (''serverBaseUrl'', JStr ''http://localhost:38089''), (''pairSessionId'', JStr ''ps''),
       (''claimToken'', JStr ''t''), (''deviceId'', JStr ''d''), (''devicePubkey'', JStr ''k''), (''sessionNonce'', JStr ''n''),
       (''expiresAt'', JNum (Fin 9))]"

definition sample_qr_panel :: panel where
  "sample_qr_panel = new_panel\<lparr>pn_serverUrl := ''http://localhost:38089'', pn_lan := Lan_known ''10.0.0.2'',
     pn_channels := [JObj [(''channelId'', JStr ''c1''), (''qrPayload'', sample_qr_payload)]]\<rparr>"

definition sample_qr_host :: panel_host where
  "sample_qr_host = \<lparr>ph_label = ''pc'', ph_web = shaped_web, ph_available = True, ph_qrImage = True\<rparr>"

definition sample_qr :: qr_payload where
  "sample_qr = \<lparr>qr_version = ''openclaw-pair-v2'', qr_serverBaseUrl = ''http://localhost:38089'', qr_pairSessionId = ''ps'',
     qr_claimToken = ''t'', qr_deviceId = ''d'', qr_devicePubkey = ''k'', qr_sessionNonce = ''n'', qr_expiresAt = Fin 9\<rparr>"

lemma sample_qr_facts:
  "parsePairV2QrPayload sample_qr_payload = Inr sample_qr"
  "resolvePairQrBaseUrl shaped_web ''http://localhost:38089'' (payload_base_url sample_qr_payload) ''10.0.0.2'' = ''http://10.0.0.2:38089''"
  "normalizePairBaseUrl shaped_web ''http://localhost:38089'' = ''http://localhost:38089''"
  "js_lower (js_trim ''10.0.0.2'') = ''10.0.0.2''"
  by code_simp+

lemma sample_qr_plain: "plain_json sample_qr_payload"
proof -
  have "\<not> json_index_key k" if "k \<in> {''version'', ''serverBaseUrl'', ''pairSessionId'', ''claimToken'', ''deviceId'', ''devicePubkey'',
      ''sessionNonce'', ''expiresAt''}" for k
    using that by (auto simp: json_index_key_def digit_code)
  then show ?thesis by (simp add: sample_qr_payload_def plain_fields)
qed

theorem scanned_qr_exact_witness:
  "\<exists>txt. panel_step sample_qr_host panel_env (Pe_showQr ''c1'') sample_qr_panel = ask_backend (Panel_render_qr txt) Pt_qr sample_qr_panel \<and>
     check_qr txt = Inr (sample_qr\<lparr>qr_serverBaseUrl := ''http://10.0.0.2:38089''\<rparr>)"
proof -
  let ?c = "JObj [(''channelId'', JStr ''c1''), (''qrPayload'', sample_qr_payload)]"
  have c: "findPairChannelById (pn_channels sample_qr_panel) ''c1'' = Some ?c" "js_get ?c ''qrPayload'' = sample_qr_payload"
    by (simp_all add: sample_qr_panel_def findPairChannelById_def)
  have h: "ph_qrImage sample_qr_host" "ph_web sample_qr_host = shaped_web" by (simp_all add: sample_qr_host_def)
  have p: "pn_lan sample_qr_panel = Lan_known ''10.0.0.2''" "pn_serverUrl sample_qr_panel = ''http://localhost:38089''"
    by (simp_all add: sample_qr_panel_def)
  have q: "qr_claimToken sample_qr \<noteq> []" "qr_pairSessionId sample_qr \<noteq> []" "qr_sessionNonce sample_qr \<noteq> []" "qr_devicePubkey sample_qr \<noteq> []"
    by (simp_all add: sample_qr_def)
  have l: "CHR ''/'' \<notin> set ''10.0.0.2''" "js_lower (js_trim ''10.0.0.2'') \<notin> {[], ''localhost'', ''127.0.0.1'', ''0.0.0.0'', ''::1''}"
    unfolding sample_qr_facts(4) by simp_all
  have b: "normalizePairBaseUrl shaped_web ''http://localhost:38089'' \<noteq> [] \<or> normalizePairBaseUrl shaped_web (payload_base_url sample_qr_payload) \<noteq> []"
    unfolding sample_qr_facts(3) by simp
  show ?thesis
    using scanned_qr_exact [where ph = sample_qr_host and e = panel_env, OF c(1), unfolded c(2) h(2) p(2), OF sample_qr_plain
        sample_qr_facts(1) q h(1) shaped_web_laws shaped_hostname_kept p(1) l b] sample_qr_facts(2) by auto
qed

end
